(* ===== verification/CDouble.thy ===== *)
theory CDouble
  imports Complex_Main "HOL-Library.Signed_Division"
begin

text \<open>
  The C++ arithmetic the scheduler rests on: \<open>long long\<close> time tics, \<open>double\<close> seconds and the
  conversions between them.

  A finite \<open>double\<close> is a rational number, so a \<open>double\<close> is a \<open>rat\<close> here, and every
  floating point operation is the exact operation followed by \<open>rnd64\<close>, which rounds to
  the nearest binary64 value, ties to even (the IEEE 754 default). Overflow to infinity and the
  NaNs are outside the model: no operation modelled here produces them on the values a
  simulation uses. A \<open>(long long)\<close> cast truncates toward zero, \<open>round\<close> rounds half away from
  zero, and \<open>/\<close> and \<open>%\<close> on integers truncate (\<open>sdiv\<close>, \<open>smod\<close>).
\<close>

subsection \<open>Integers\<close>

definition TRICK_MAX_LONG_LONG :: int where
  "TRICK_MAX_LONG_LONG = 9223372036854775807"

definition int64 :: "int \<Rightarrow> bool" where
  "int64 x \<longleftrightarrow> - 9223372036854775808 \<le> x \<and> x \<le> TRICK_MAX_LONG_LONG"

text \<open>An \<open>unsigned int\<close> counter: its increment and decrement wrap modulo \<open>2 ^ 32\<close>.\<close>

definition inc_u32 :: "nat \<Rightarrow> nat" where
  "inc_u32 n = (n + 1) mod 2 ^ 32"

definition dec_u32 :: "nat \<Rightarrow> nat" where
  "dec_u32 n = (n + (2 ^ 32 - 1)) mod 2 ^ 32"

lemma inc_u32_less [simp]: "n < 4294967295 \<Longrightarrow> inc_u32 n = Suc n"
  by (simp add: inc_u32_def)

lemma inc_u32_max: "inc_u32 4294967295 = 0"
  by (simp add: inc_u32_def)

lemma dec_u32_Suc [simp]: "n < 4294967295 \<Longrightarrow> dec_u32 (Suc n) = n"
  by (simp add: dec_u32_def)

lemma dec_u32_0: "dec_u32 0 = 4294967295"
  by (simp add: dec_u32_def)

lemma dec_u32_pos: "0 < n \<Longrightarrow> n < 4294967296 \<Longrightarrow> dec_u32 n = n - 1"
  by (cases n) simp_all

subsection \<open>Rounding to binary64\<close>

definition pow2 :: "int \<Rightarrow> rat" where
  "pow2 e = (if 0 \<le> e then 2 ^ nat e else 1 / 2 ^ nat (- e))"

text \<open>The binary length of a positive integer, and the binary exponent of a positive rational:
  \<open>2 ^ e \<le> x < 2 ^ (e + 1)\<close>.\<close>

function bit_length :: "int \<Rightarrow> nat" where
  "bit_length p = (if p \<le> 0 then 0 else Suc (bit_length (p div 2)))"
  by pat_completeness auto
termination by (relation "measure nat") auto

declare bit_length.simps [simp del]

definition exponent2 :: "rat \<Rightarrow> int" where
  "exponent2 x =
     (case quotient_of x of (p, q) \<Rightarrow>
       let e = int (bit_length p) - int (bit_length q)
       in if pow2 e \<le> x then e else e - 1)"

definition round_half_even :: "rat \<Rightarrow> int" where
  "round_half_even x =
     (let f = \<lfloor>x\<rfloor>; d = x - of_int f
      in if d < 1/2 then f else if 1/2 < d then f + 1 else if even f then f else f + 1)"

definition ulp64 :: "rat \<Rightarrow> rat" where
  "ulp64 x = pow2 (max (exponent2 \<bar>x\<bar>) (-1022) - 52)"

definition rnd64 :: "rat \<Rightarrow> rat" where
  "rnd64 x = (if x = 0 then 0 else of_int (round_half_even (x / ulp64 x)) * ulp64 x)"

definition dadd :: "rat \<Rightarrow> rat \<Rightarrow> rat" where "dadd x y = rnd64 (x + y)"
definition dsub :: "rat \<Rightarrow> rat \<Rightarrow> rat" where "dsub x y = rnd64 (x - y)"
definition dmul :: "rat \<Rightarrow> rat \<Rightarrow> rat" where "dmul x y = rnd64 (x * y)"
definition ddiv :: "rat \<Rightarrow> rat \<Rightarrow> rat" where "ddiv x y = rnd64 (x / y)"

text \<open>The implicit or explicit conversion of an integer to \<open>double\<close>.\<close>

definition dbl :: "int \<Rightarrow> rat" where "dbl n = rnd64 (of_int n)"

text \<open>\<open>(long long) x\<close> and \<open>round(x)\<close> of a \<open>double\<close>.\<close>

definition c_trunc :: "rat \<Rightarrow> int" where
  "c_trunc x = (if x < 0 then \<lceil>x\<rceil> else \<lfloor>x\<rfloor>)"

definition c_round :: "rat \<Rightarrow> int" where
  "c_round x = (if x < 0 then - \<lfloor>1/2 - x\<rfloor> else \<lfloor>x + 1/2\<rfloor>)"

text \<open>\<open>fmod(x, 1.0)\<close> keeps the sign of \<open>x\<close> and is exact.\<close>

definition c_fmod1 :: "rat \<Rightarrow> rat" where
  "c_fmod1 x = x - of_int (c_trunc x)"

subsection \<open>Powers of two\<close>

lemma pow2_pos [simp]: "0 < pow2 e"
  by (simp add: pow2_def)

lemma pow2_nonneg [simp]: "0 \<le> pow2 e"
  using pow2_pos [of e] by linarith

lemma pow2_nz [simp]: "pow2 e \<noteq> 0"
  using pow2_pos [of e] by linarith

lemma pow2_int [simp]: "pow2 (int n) = 2 ^ n"
  by (simp add: pow2_def)

lemma pow2_succ: "pow2 (e + 1) = 2 * pow2 e"
proof (cases "0 \<le> e")
  case True
  then show ?thesis by (simp add: pow2_def nat_add_distrib)
next
  case False
  then have n: "nat (- e) = Suc (nat (- (e + 1)))" by simp
  from False show ?thesis
    by (cases "e = - 1") (simp_all add: pow2_def n)
qed

lemma pow2_add_nat: "pow2 (e + int n) = pow2 e * 2 ^ n"
proof (induction n)
  case (Suc n)
  have "pow2 (e + int (Suc n)) = pow2 ((e + int n) + 1)" by (simp add: algebra_simps)
  then show ?case by (simp only: pow2_succ Suc.IH) simp
qed simp

lemma pow2_add: "pow2 (a + b) = pow2 a * pow2 b"
proof (cases "0 \<le> b")
  case True
  then obtain n where "b = int n" using nonneg_int_cases by blast
  then show ?thesis by (simp add: pow2_add_nat)
next
  case False
  then obtain n where b: "b = - int n" using nonpos_int_cases [of b] by auto
  have "pow2 a = pow2 (a + b) * 2 ^ n"
    using pow2_add_nat [of "a + b" n] b by simp
  moreover have "pow2 b = 1 / 2 ^ n"
    by (cases n) (simp_all add: pow2_def b nat_add_distrib)
  ultimately show ?thesis by simp
qed

lemma pow2_mono: "a \<le> b \<Longrightarrow> pow2 a \<le> pow2 b"
proof -
  assume "a \<le> b"
  then obtain n where "b = a + int n" using zle_iff_zadd by blast
  then show ?thesis by (simp add: pow2_add_nat)
qed

lemma pow2_less_iff: "pow2 a < pow2 b \<longleftrightarrow> a < b"
proof
  show "pow2 a < pow2 b \<Longrightarrow> a < b" using pow2_mono [of b a] by force
next
  assume "a < b"
  then have "pow2 (a + 1) \<le> pow2 b" by (intro pow2_mono) simp
  then have "2 * pow2 a \<le> pow2 b" by (simp add: pow2_succ)
  then show "pow2 a < pow2 b" using pow2_pos [of a] by linarith
qed

subsection \<open>The exponent and the size of one unit in the last place\<close>

lemma bit_length_pos: "0 < p \<Longrightarrow> 0 < bit_length p"
  by (simp add: bit_length.simps [of p])

lemma bit_length_bounds: "0 < p \<Longrightarrow> 2 ^ (bit_length p - 1) \<le> p \<and> p < 2 ^ bit_length p"
proof (induction p rule: bit_length.induct)
  case (1 p)
  show ?case
  proof (cases "p = 1")
    case True
    then show ?thesis by (simp add: bit_length.simps)
  next
    case False
    with 1 have IH: "2 ^ (bit_length (p div 2) - 1) \<le> p div 2" "p div 2 < 2 ^ bit_length (p div 2)"
      by simp_all
    have b: "0 < bit_length (p div 2)" using 1 False by (intro bit_length_pos) simp
    then have "(2::int) ^ bit_length (p div 2) = 2 * 2 ^ (bit_length (p div 2) - 1)"
      by (simp flip: power_Suc)
    then have "2 ^ bit_length (p div 2) \<le> p" "p < 2 * 2 ^ bit_length (p div 2)"
      using IH by linarith+
    then show ?thesis using "1.prems" by (simp add: bit_length.simps [of p])
  qed
qed

lemma exponent2_bounds:
  assumes "0 < x"
  shows "pow2 (exponent2 x) \<le> x" and "x < pow2 (exponent2 x + 1)"
proof -
  obtain p q where pq: "quotient_of x = (p, q)" by (cases "quotient_of x")
  have x: "x = of_int p / of_int q" and q: "0 < q"
    using quotient_of_div [OF pq] quotient_of_denom_pos [OF pq] by auto
  have p: "0 < p" using assms x q by (simp add: zero_less_divide_iff)
  define a where "a = bit_length p"
  define b where "b = bit_length q"
  have a0: "0 < a" and b0: "0 < b" using p q by (simp_all add: a_def b_def bit_length_pos)
  have "2 ^ (a - 1) \<le> p" "p < 2 ^ a" "2 ^ (b - 1) \<le> q" "q < 2 ^ b"
    using bit_length_bounds [OF p] bit_length_bounds [OF q] by (simp_all add: a_def b_def)
  then have "of_int (2 ^ (a - 1)) \<le> (of_int p :: rat)" "of_int p < (of_int (2 ^ a) :: rat)"
    and "of_int (2 ^ (b - 1)) \<le> (of_int q :: rat)" "of_int q < (of_int (2 ^ b) :: rat)"
    unfolding of_int_le_iff of_int_less_iff by blast+
  then have rp: "(2::rat) ^ (a - 1) \<le> of_int p" "of_int p < (2::rat) ^ a"
    and rq: "(2::rat) ^ (b - 1) \<le> of_int q" "of_int q < (2::rat) ^ b"
    unfolding of_int_power of_int_numeral by blast+
  define e where "e = int a - int b"
  have pa: "(2::rat) ^ a = 2 * 2 ^ (a - 1)" and pb: "(2::rat) ^ b = 2 * 2 ^ (b - 1)"
    using a0 b0 by (simp_all flip: power_Suc)
  have eb: "pow2 e * 2 ^ b = 2 ^ a"
    using pow2_add_nat [of e b] by (simp add: e_def)
  have q1: "(0::rat) < of_int q" using q by simp
  have lo: "pow2 (e - 1) \<le> x"
  proof -
    have "pow2 e = 2 * pow2 (e - 1)" using pow2_succ [of "e - 1"] by simp
    then have "pow2 (e - 1) * 2 ^ b = 2 ^ (a - 1)" using eb pa by simp
    moreover have "pow2 (e - 1) * of_int q \<le> pow2 (e - 1) * 2 ^ b"
      using rq(2) by (intro mult_left_mono) (simp_all only: less_imp_le pow2_nonneg)
    ultimately have "pow2 (e - 1) * of_int q \<le> of_int p" using rp(1) by linarith
    then show ?thesis using q1 by (simp add: x pos_le_divide_eq)
  qed
  have hi: "x < pow2 (e + 1)"
  proof -
    have "pow2 (e + 1) * 2 ^ (b - 1) = 2 ^ a" using eb pb by (simp add: pow2_succ)
    then have "of_int p < pow2 (e + 1) * of_int q"
      using rp(2) mult_left_mono [OF rq(1), of "pow2 (e + 1)"] pow2_nonneg [of "e + 1"]
      by linarith
    then show ?thesis using q1 by (simp add: x pos_divide_less_eq)
  qed
  have ex: "exponent2 x = (if pow2 e \<le> x then e else e - 1)"
    by (simp add: exponent2_def pq e_def a_def b_def Let_def)
  show "pow2 (exponent2 x) \<le> x" and "x < pow2 (exponent2 x + 1)"
    using lo hi by (auto simp: ex)
qed

lemma ulp64_pos [simp]: "0 < ulp64 x"
  by (simp add: ulp64_def)

lemma ulp64_nz [simp]: "ulp64 x \<noteq> 0"
  by (simp add: ulp64_def)

lemma ulp64_le:
  assumes "pow2 (- 1022) \<le> \<bar>x\<bar>"
  shows "ulp64 x \<le> \<bar>x\<bar> / 2 ^ 52"
proof -
  have x: "0 < \<bar>x\<bar>" using assms pow2_pos [of "- 1022"] by linarith
  have "pow2 (- 1022) < pow2 (exponent2 \<bar>x\<bar> + 1)"
    using assms exponent2_bounds(2) [OF x] by linarith
  then have "- 1022 \<le> exponent2 \<bar>x\<bar>" by (simp add: pow2_less_iff)
  then have "ulp64 x * 2 ^ 52 = pow2 (exponent2 \<bar>x\<bar>)"
    using pow2_add_nat [of "exponent2 \<bar>x\<bar> - 52" 52] by (simp add: ulp64_def)
  then have "ulp64 x * 2 ^ 52 \<le> \<bar>x\<bar>" using exponent2_bounds(1) [OF x] by simp
  then show ?thesis by (simp add: pos_le_divide_eq)
qed

lemma round_half_even_error: "\<bar>of_int (round_half_even x) - x\<bar> \<le> 1 / 2"
proof -
  define f :: rat where "f = of_int \<lfloor>x\<rfloor>"
  have "f \<le> x" "x < f + 1" using floor_correct [of x] by (simp_all add: f_def)
  moreover have "of_int (round_half_even x) =
      (if x - f < 1/2 then f else if 1/2 < x - f then f + 1
       else if even \<lfloor>x\<rfloor> then f else f + 1)"
    by (simp add: round_half_even_def Let_def f_def)
  ultimately show ?thesis by (auto simp: abs_le_iff)
qed

lemma round_half_even_of_int [simp]: "round_half_even (of_int n) = n"
  by (simp add: round_half_even_def)

lemma rnd64_0 [simp]: "rnd64 0 = 0"
  by (simp add: rnd64_def)

lemma rnd64_error: "\<bar>rnd64 x - x\<bar> \<le> ulp64 x / 2"
proof (cases "x = 0")
  case True
  then show ?thesis by (simp add: less_imp_le)
next
  case False
  let ?u = "ulp64 x" and ?r = "of_int (round_half_even (x / ulp64 x)) :: rat"
  have "\<bar>(?r - x / ?u) * ?u\<bar> \<le> 1 / 2 * ?u"
    unfolding abs_mult using round_half_even_error [of "x / ?u"]
    by (intro mult_mono) (simp_all add: less_imp_le)
  with False show ?thesis by (simp add: rnd64_def left_diff_distrib)
qed

text \<open>The relative error of one rounding of a normal number is at most \<open>2 ^ -53\<close>.\<close>

lemma rnd64_relative:
  assumes "pow2 (- 1022) \<le> \<bar>x\<bar>"
  shows "\<bar>rnd64 x - x\<bar> \<le> \<bar>x\<bar> / 2 ^ 53"
  using rnd64_error [of x] ulp64_le [OF assms] by simp

text \<open>Integers up to \<open>2 ^ 53\<close> in size are represented exactly.\<close>

lemma rnd64_of_int:
  assumes "\<bar>n\<bar> < 2 ^ 53"
  shows "rnd64 (of_int n) = of_int n"
proof (cases "n = 0")
  case False
  let ?x = "of_int n :: rat" and ?e = "exponent2 \<bar>of_int n :: rat\<bar>"
  have x: "0 < \<bar>?x\<bar>" using False by simp
  have "(of_int \<bar>n\<bar> :: rat) < of_int (2 ^ 53)" using assms unfolding of_int_less_iff .
  then have "\<bar>?x\<bar> < 2 ^ 53" by simp
  then have "pow2 ?e < pow2 53" using exponent2_bounds(1) [OF x] pow2_int [of 53] by simp
  then have e1: "?e < 53" by (simp add: pow2_less_iff)
  have "(of_int 1 :: rat) \<le> of_int \<bar>n\<bar>" using False unfolding of_int_le_iff by simp
  then have "1 \<le> \<bar>?x\<bar>" by simp
  then have "pow2 0 < pow2 (?e + 1)" using exponent2_bounds(2) [OF x] by (simp add: pow2_def)
  then have e0: "0 \<le> ?e" by (simp add: pow2_less_iff)
  define k where "k = nat (52 - ?e)"
  have "ulp64 ?x = pow2 (- int k)" using e0 e1 by (simp add: ulp64_def k_def)
  then have u: "ulp64 ?x = 1 / 2 ^ k" by (simp add: pow2_def)
  have "?x / ulp64 ?x = of_int (n * 2 ^ k)" by (simp add: u)
  then have "round_half_even (?x / ulp64 ?x) = n * 2 ^ k" by (simp only: round_half_even_of_int)
  with False show ?thesis by (simp add: rnd64_def u)
qed simp

text \<open>So are the multiples of \<open>2 ^ -q\<close> with such a numerator.\<close>

lemma rnd64_dyadic:
  assumes "\<bar>m\<bar> < 2 ^ 53" and "q \<le> 1000"
  shows "rnd64 (of_int m / 2 ^ q) = of_int m / 2 ^ q"
proof (cases "m = 0")
  case False
  let ?x = "of_int m / 2 ^ q :: rat" and ?e = "exponent2 \<bar>of_int m / 2 ^ q :: rat\<bar>"
  have ax: "\<bar>?x\<bar> = of_int \<bar>m\<bar> / 2 ^ q" by simp
  have x: "0 < \<bar>?x\<bar>" using False by simp
  have "(of_int \<bar>m\<bar> :: rat) < of_int (2 ^ 53)" using assms(1) unfolding of_int_less_iff .
  then have m53: "(of_int \<bar>m\<bar> :: rat) < 2 ^ 53" by simp
  have p53: "pow2 (53 - int q) = 2 ^ 53 / 2 ^ q"
    using pow2_add_nat [of "53 - int q" q] by (simp add: pow2_def field_simps)
  have "\<bar>?x\<bar> < pow2 (53 - int q)" unfolding ax p53 using m53 by (simp add: divide_strict_right_mono)
  then have "pow2 ?e < pow2 (53 - int q)" using exponent2_bounds(1) [OF x] by linarith
  then have e1: "?e < 53 - int q" by (simp add: pow2_less_iff)
  have "1 \<le> \<bar>m\<bar>" using False by simp
  then have "(1::rat) \<le> of_int \<bar>m\<bar>" unfolding of_int_1_le_iff .
  then have "1 / 2 ^ q \<le> \<bar>?x\<bar>" unfolding ax by (intro divide_right_mono) simp_all
  moreover have "pow2 (- int q) = 1 / 2 ^ q" by (cases q) (simp_all add: pow2_def nat_add_distrib)
  ultimately have "pow2 (- int q) < pow2 (?e + 1)" using exponent2_bounds(2) [OF x] by linarith
  then have e0: "- int q \<le> ?e" by (simp add: pow2_less_iff)
  define k where "k = nat (52 - ?e - int q)"
  have k: "int k = 52 - ?e - int q" using e1 by (simp add: k_def)
  have mx: "max ?e (- 1022) = ?e" using e0 assms(2) by simp
  have ulp: "ulp64 ?x = pow2 (?e - 52)" unfolding ulp64_def mx ..
  have "?e - 52 + int (q + k) = 0" using k by linarith
  moreover have "pow2 0 = 1" by (simp add: pow2_def)
  ultimately have u: "ulp64 ?x * 2 ^ (q + k) = 1" using pow2_add_nat [of "?e - 52" "q + k"] unfolding ulp by metis
  have "?x / ulp64 ?x = ?x * 2 ^ (q + k) * (ulp64 ?x / ulp64 ?x) / (ulp64 ?x * 2 ^ (q + k))" by simp
  also have "\<dots> = of_int (m * 2 ^ k)" unfolding u by (simp add: power_add)
  finally have "round_half_even (?x / ulp64 ?x) = m * 2 ^ k" by (simp only: round_half_even_of_int)
  moreover have "of_int (m * 2 ^ k) * ulp64 ?x = ?x * (ulp64 ?x * 2 ^ (q + k))" by (simp add: power_add)
  ultimately show ?thesis using False unfolding rnd64_def u by simp
qed simp

lemma dbl_exact: "\<bar>n\<bar> < 2 ^ 53 \<Longrightarrow> dbl n = of_int n"
  by (simp add: dbl_def rnd64_of_int)

lemma c_trunc_of_int [simp]: "c_trunc (of_int n) = n"
  by (simp add: c_trunc_def)

lemma c_round_near:
  assumes "\<bar>x - of_int n\<bar> < 1 / 2"
  shows "c_round x = n"
proof (cases "x < 0")
  case True
  then have "\<lfloor>1/2 - x\<rfloor> = - n" using assms by (intro floor_unique) (auto simp: abs_if split: if_splits)
  with True show ?thesis by (simp add: c_round_def)
next
  case False
  then have "\<lfloor>x + 1/2\<rfloor> = n" using assms by (intro floor_unique) (auto simp: abs_if split: if_splits)
  with False show ?thesis by (simp add: c_round_def)
qed

lemma c_trunc_bounds: "0 \<le> x \<Longrightarrow> of_int (c_trunc x) \<le> x \<and> x < of_int (c_trunc x) + 1"
  using floor_correct [of x] by (simp add: c_trunc_def)


subsection \<open>Rescaling a tic count\<close>

text \<open>
  The code rescales a tic count \<open>t\<close> from \<open>old\<close> to \<open>new\<close> tics a second as
  \<open>(long long)round((double)t / old * new)\<close>: two roundings. Where the exact quotient is an
  integer of moderate size, the rounding errors cannot reach one half and the result is exact.
\<close>

definition rescale_tics :: "int \<Rightarrow> int \<Rightarrow> int \<Rightarrow> int" where
  "rescale_tics t old new = c_round (dmul (ddiv (dbl t) (dbl old)) (dbl new))"

lemma pow2_m1022_le: "(1::rat) / 2 ^ 40 \<le> x \<Longrightarrow> pow2 (- 1022) \<le> x"
proof -
  have "pow2 (- 1022) \<le> pow2 (- 40)" by (rule pow2_mono) simp
  moreover have "pow2 (- 40) = 1 / 2 ^ 40" by (simp add: pow2_def)
  ultimately show "(1::rat) / 2 ^ 40 \<le> x \<Longrightarrow> pow2 (- 1022) \<le> x" by linarith
qed

lemma rescale_tics_exact:
  assumes old: "0 < old" "old < 2 ^ 31" and new: "0 < new" "new < 2 ^ 31"
    and t: "\<bar>t\<bar> < 2 ^ 53" and m: "t * new = m * old" "\<bar>m\<bar> < 2 ^ 50"
  shows "rescale_tics t old new = m"
proof (cases "t = 0")
  case True
  with m old have "m = 0" by simp
  with True show ?thesis
    using c_round_near [of 0 0] by (simp add: rescale_tics_def dbl_def ddiv_def dmul_def)
next
  case False
  define y where "y = of_int t / (of_int old :: rat)"
  define n where "n = (of_int new :: rat)"
  have eq: "rescale_tics t old new = c_round (rnd64 (rnd64 y * n))"
    using old new t by (simp add: rescale_tics_def dmul_def ddiv_def dbl_exact y_def n_def)
  have n1: "1 \<le> n" using new by (simp add: n_def)
  have "(of_int (t * new) :: rat) = of_int (m * old)" by (simp only: m)
  then have yn: "y * n = of_int m" using old by (simp add: y_def n_def field_simps)
  have m0: "m \<noteq> 0" using False m new by auto
  then have "1 \<le> \<bar>m\<bar>" by simp
  then have "(1::rat) \<le> of_int \<bar>m\<bar>" unfolding of_int_1_le_iff .
  then have mabs: "1 \<le> \<bar>of_int m :: rat\<bar>" by simp
  have "(of_int \<bar>m\<bar> :: rat) < of_int (2 ^ 50)" using m(2) unfolding of_int_less_iff .
  then have mb: "\<bar>of_int m :: rat\<bar> < 2 ^ 50" by simp
  have y: "1 / 2 ^ 31 \<le> \<bar>y\<bar>"
  proof -
    have "1 \<le> \<bar>t\<bar>" using False by simp
    then have "(1::rat) \<le> of_int \<bar>t\<bar>" unfolding of_int_1_le_iff .
    moreover have "(of_int old :: rat) < of_int (2 ^ 31)" using old(2) unfolding of_int_less_iff .
    ultimately have "of_int old \<le> 2 ^ 31 * (of_int \<bar>t\<bar> :: rat)" by simp
    then show ?thesis using old by (simp add: y_def abs_divide field_simps)
  qed
  have e1: "\<bar>rnd64 y - y\<bar> \<le> \<bar>y\<bar> / 2 ^ 53"
    using y by (intro rnd64_relative pow2_m1022_le) simp
  have "\<bar>(rnd64 y - y) * n\<bar> \<le> \<bar>y\<bar> / 2 ^ 53 * n"
    unfolding abs_mult using e1 n1 by (intro mult_mono) simp_all
  also have "\<dots> = \<bar>y * n\<bar> / 2 ^ 53" using n1 by (simp add: abs_mult)
  finally have d1: "\<bar>rnd64 y * n - of_int m\<bar> \<le> \<bar>of_int m\<bar> / 2 ^ 53"
    by (simp add: left_diff_distrib yn)
  define z where "z = rnd64 y * n"
  have z: "\<bar>z - of_int m\<bar> \<le> \<bar>of_int m\<bar> / 2 ^ 53" using d1 by (simp add: z_def)
  have tri: "\<bar>of_int m\<bar> - \<bar>z - of_int m\<bar> \<le> \<bar>z\<bar>" "\<bar>z\<bar> \<le> \<bar>of_int m\<bar> + \<bar>z - of_int m\<bar>"
    by linarith+
  then have zlo: "1 / 2 ^ 40 \<le> \<bar>z\<bar>" and zhi: "\<bar>z\<bar> \<le> 2 * \<bar>of_int m\<bar>"
    using mabs z by simp_all
  have "\<bar>rnd64 z - z\<bar> \<le> \<bar>z\<bar> / 2 ^ 53"
    using zlo by (intro rnd64_relative pow2_m1022_le)
  then have "\<bar>rnd64 z - of_int m\<bar> \<le> 3 * \<bar>of_int m\<bar> / 2 ^ 53"
    using z zhi by (simp add: abs_if split: if_splits)
  then have "\<bar>rnd64 z - of_int m\<bar> < 1 / 2" using mb by simp
  then show ?thesis by (simp add: eq z_def c_round_near)
qed

end
