(* ===== verification/Trick_Prelude.thy ===== *)
theory Trick_Prelude
  imports CDouble "HOL-Library.Multiset" "HOL-Library.Char_ord" "HOL-Library.List_Lexorder"
begin

text \<open>
  What every component shares: the abnormal outcomes of a C++ call, the result type of a
  call that changes a state, decimal printing, the addresses of jobs and simulation objects, and
  generic facts on lists.

  An abnormal outcome is either a \<open>Trick::ExecutiveException\<close>
  (sim\_services/Executive/ExecutiveException.cpp), or the C++ undefined behaviour the code would
  run into: a division by zero, an index past the end of an array, a null pointer. The second
  keeps the model from giving a value where the program has none.
\<close>

datatype abort =
    ExecutiveException int string string  \<comment> \<open>\<open>ret_code\<close>, \<open>file\<close>, \<open>message\<close>\<close>
  | Undefined string

text \<open>
  A call that runs to its end returns its value or the abort, and the state it leaves. \<open>None\<close> is
  a call that never returns (a loop or a wait that does not end).
\<close>

type_synonym ('a, 'w) result = "((abort + 'a) \<times> 'w) option"

definition andthen :: "('a, 'w) result \<Rightarrow> ('a \<Rightarrow> 'w \<Rightarrow> ('b, 'w) result) \<Rightarrow> ('b, 'w) result" where
  "andthen r f =
     Option.bind r (\<lambda>(v, w). case v of Inl a \<Rightarrow> Some (Inl a, w) | Inr x \<Rightarrow> f x w)"

lemma andthen_simps [simp]:
  "andthen None f = None"
  "andthen (Some (Inl a, w)) f = Some (Inl a, w)"
  "andthen (Some (Inr x, w)) f = f x w"
  by (simp_all add: andthen_def)

lemma andthen_assoc: "andthen (andthen r f) g = andthen r (\<lambda>x w. andthen (f x w) g)"
  by (cases r) (auto simp: andthen_def split: sum.split)

text \<open>A loop may recurse through \<open>andthen\<close>, and some results need only the normal outcome.\<close>

lemma andthen_mono [partial_function_mono]:
  assumes "mono_option B" and "\<And>x w. mono_option (\<lambda>f. C x w f)"
  shows "mono_option (\<lambda>f. andthen (B f) (\<lambda>x w. C x w f))"
proof -
  have "mono_option (\<lambda>f. case p of (v, w) \<Rightarrow> case v of Inl a \<Rightarrow> Some (Inl a, w) | Inr x \<Rightarrow> C x w f)" for p
    using assms(2) by (auto simp: monotone_def flat_ord_def split: prod.split sum.split)
  then show ?thesis unfolding andthen_def by (intro bind_mono assms(1))
qed

lemma andthen_Inr:
  "andthen r f = Some (Inr y, w') \<longleftrightarrow> (\<exists>x w. r = Some (Inr x, w) \<and> f x w = Some (Inr y, w'))"
  by (cases r) (auto simp: andthen_def split: sum.splits)

type_synonym job_ptr = nat
type_synonym so_ptr = nat

named_theorems queue_simps "how the queue operations change the fields of a queue"
named_theorems job_simps "how the job operations change the fields of a job"

subsection \<open>Decimal printing\<close>

fun show_nat :: "nat \<Rightarrow> string" where
  "show_nat n = (if n < 10 then [char_of (n + 48)] else show_nat (n div 10) @ [char_of (n mod 10 + 48)])"

declare show_nat.simps [simp del]

definition show_int :: "int \<Rightarrow> string" where
  "show_int i = (if i < 0 then ''-'' @ show_nat (nat (- i)) else show_nat (nat i))"

text \<open>\<open>ExecutiveException::ExecutiveException(ret, file, line, message)\<close> stores \<open>file:line\<close>.\<close>

definition mk_ExecutiveException :: "int \<Rightarrow> string \<Rightarrow> int \<Rightarrow> string \<Rightarrow> abort" where
  "mk_ExecutiveException in_ret in_file line in_message =
     ExecutiveException in_ret (in_file @ '':'' @ show_int line) in_message"

subsection \<open>Lists updated at a position\<close>

definition insert_at :: "nat \<Rightarrow> 'a \<Rightarrow> 'a list \<Rightarrow> 'a list" where
  "insert_at n x xs = take n xs @ x # drop n xs"

definition delete_at :: "nat \<Rightarrow> 'a list \<Rightarrow> 'a list" where
  "delete_at n xs = take n xs @ drop (Suc n) xs"

lemma length_insert_at [simp]: "length (insert_at n x xs) = Suc (length xs)"
  by (simp add: insert_at_def)

lemma set_insert_at [simp]: "set (insert_at n x xs) = insert x (set xs)"
proof -
  have "set xs = set (take n xs) \<union> set (drop n xs)"
    using set_append [of "take n xs" "drop n xs"] by simp
  then show ?thesis by (auto simp: insert_at_def)
qed

lemma mset_insert_at [simp]: "mset (insert_at n x xs) = add_mset x (mset xs)"
proof -
  have "mset xs = mset (take n xs) + mset (drop n xs)"
    using mset_append [of "take n xs" "drop n xs"] by simp
  then show ?thesis by (simp add: insert_at_def)
qed

lemma nth_insert_at_less [simp]: "i < n \<Longrightarrow> i < length xs \<Longrightarrow> insert_at n x xs ! i = xs ! i"
  by (simp add: insert_at_def nth_append)

lemma nth_insert_at_eq [simp]: "n \<le> length xs \<Longrightarrow> insert_at n x xs ! n = x"
  by (simp add: insert_at_def nth_append min_absorb2)

lemma nth_insert_at_greater [simp]:
  "n \<le> i \<Longrightarrow> i < length xs \<Longrightarrow> insert_at n x xs ! Suc i = xs ! i"
  by (simp add: insert_at_def nth_append min_absorb2)

lemma length_delete_at [simp]: "n < length xs \<Longrightarrow> length (delete_at n xs) = length xs - 1"
  by (simp add: delete_at_def)

lemma delete_at_insert_at [simp]: "n \<le> length xs \<Longrightarrow> delete_at n (insert_at n x xs) = xs"
  by (simp add: delete_at_def insert_at_def min_absorb2)

lemma mset_delete_at: "n < length xs \<Longrightarrow> mset (delete_at n xs) = mset xs - {#xs ! n#}"
proof -
  assume n: "n < length xs"
  then have "mset xs = mset (take n xs @ xs ! n # drop (Suc n) xs)"
    by (simp only: id_take_nth_drop [symmetric])
  then show ?thesis by (simp add: delete_at_def)
qed

lemma nth_delete_at_less [simp]: "i < n \<Longrightarrow> n < length xs \<Longrightarrow> delete_at n xs ! i = xs ! i"
  by (simp add: delete_at_def nth_append)

lemma nth_delete_at_ge [simp]:
  "n \<le> i \<Longrightarrow> Suc i < length xs \<Longrightarrow> delete_at n xs ! i = xs ! Suc i"
  by (simp add: delete_at_def nth_append min_absorb2)

text \<open>An update past the end does nothing; dropping up to a live index exposes its element.\<close>

lemma nth_update: "xs[i := v] ! k = (if i < length xs \<and> k = i then v else xs ! k)"
  by (cases "i < length xs") (auto simp: nth_list_update list_update_beyond)

lemma drop_at: "i < length xs \<Longrightarrow> drop i xs = xs ! i # drop (Suc i) xs"
  by (simp add: Cons_nth_drop_Suc)

lemma sorted_wrt_insert_at:
  assumes "sorted_wrt R xs" and "n \<le> length xs"
    and "\<And>i. i < n \<Longrightarrow> R (xs ! i) x" and "\<And>i. n \<le> i \<Longrightarrow> i < length xs \<Longrightarrow> R x (xs ! i)"
  shows "sorted_wrt R (insert_at n x xs)"
proof -
  have "sorted_wrt R (take n xs @ drop n xs)" using assms(1) unfolding append_take_drop_id .
  then have "sorted_wrt R (take n xs)" "sorted_wrt R (drop n xs)"
    and "\<forall>y \<in> set (take n xs). \<forall>z \<in> set (drop n xs). R y z"
    unfolding sorted_wrt_append by blast+
  moreover have "\<forall>y \<in> set (take n xs). R y x" and "\<forall>y \<in> set (drop n xs). R x y"
    using assms(2-4) by (auto simp: in_set_conv_nth)
  ultimately show ?thesis by (auto simp: insert_at_def sorted_wrt_append)
qed

lemma sorted_wrt_delete_at: "sorted_wrt R xs \<Longrightarrow> sorted_wrt R (delete_at n xs)"
proof (cases "n < length xs")
  case True
  assume "sorted_wrt R xs"
  then have "sorted_wrt R (take n xs @ xs ! n # drop (Suc n) xs)"
    using True by (simp only: id_take_nth_drop [symmetric])
  then show ?thesis by (auto simp: delete_at_def sorted_wrt_append)
qed (simp add: delete_at_def)

end
