(* ===== verification/JobData.thy ===== *)
theory JobData
  imports Trick_Prelude
begin

text \<open>
  \<open>Trick::JobData\<close> (sim\_services/SimObject/JobData.cpp): one schedulable job, its timing in tics,
  its instrumentation lists and its tags.

  Jobs are shared by pointer between the simulation objects, the queues and the executive, so
  they live in a store from addresses to \<open>JobData\<close>; the operations here act on one \<open>JobData\<close>.
  The frame timing fields (\<open>rt_start_time\<close>, \<open>frame_time\<close>), which only the frame log
  reads, and \<open>sup_class_data\<close>, an opaque pointer, are not kept.
\<close>

subsection \<open>Data\<close>

text \<open>
  \<open>Trick::InstrumentBase\<close>: a name, a phase and the target job, and what its \<open>call\<close> reaches.
  A \<open>ScheduledJobQueueInstrument\<close> calls the copy of an instrumentation job, whose name and
  phase it takes; an \<open>EventInstrument\<close> processes an event (its constructor is in EventManager).
\<close>

datatype instrument_target = InstruJob job_ptr | InstruEvent nat

record InstrumentBase =
  ib_name :: string
  ib_phase :: nat
  ib_calls :: instrument_target
  ib_target_job :: job_ptr

definition ScheduledJobQueueInstrument :: "string \<Rightarrow> nat \<Rightarrow> job_ptr \<Rightarrow> job_ptr \<Rightarrow> InstrumentBase" where
  "ScheduledJobQueueInstrument inst_name inst_phase in_inst_job in_targ_job =
     \<lparr>ib_name = inst_name, ib_phase = inst_phase, ib_calls = InstruJob in_inst_job,
      ib_target_job = in_targ_job\<rparr>"

record JobData =
  jd_name :: string
  jd_disabled :: bool
  jd_complete :: bool
  jd_handled :: bool
  jd_cycle :: rat
  jd_start :: rat
  jd_stop :: rat
  jd_job_class :: int
  jd_job_class_name :: string
  jd_system_job_class :: bool
  jd_phase :: nat
  jd_tags :: "string list"
  jd_thread :: nat
  jd_id :: int
  jd_sim_object_id :: int
  jd_parent_object :: "so_ptr option"
  jd_frame_id :: rat
  jd_depends :: "job_ptr list"
  jd_inst_before :: "InstrumentBase list"
  jd_inst_after :: "InstrumentBase list"
  jd_cycle_tics :: int
  jd_start_tics :: int
  jd_stop_tics :: int
  jd_next_tics :: int

text \<open>The job store: what every \<open>JobData *\<close> points to.\<close>

type_synonym job_heap = "job_ptr \<Rightarrow> JobData"

text \<open>The default constructor; \<open>parent_object\<close> and \<open>frame_id\<close> start unset.\<close>

definition new_JobData_default :: JobData where
  "new_JobData_default =
     \<lparr>jd_name = [], jd_disabled = False, jd_complete = False, jd_handled = False,
      jd_cycle = 0, jd_start = 0, jd_stop = 0, jd_job_class = -1, jd_job_class_name = [],
      jd_system_job_class = False, jd_phase = 60000, jd_tags = [], jd_thread = 0, jd_id = 0,
      jd_sim_object_id = -1, jd_parent_object = None, jd_frame_id = 0, jd_depends = [],
      jd_inst_before = [], jd_inst_after = [], jd_cycle_tics = 0, jd_start_tics = 0,
      jd_stop_tics = 0, jd_next_tics = 0\<rparr>"

text \<open>\<open>tags\<close> is a \<open>std::set\<close>: ascending, without repetitions.\<close>

definition JobData_add_tag :: "JobData \<Rightarrow> string \<Rightarrow> JobData" where
  "JobData_add_tag j in_tag =
     (if in_tag \<noteq> [] then j\<lparr>jd_tags := insort_insert in_tag (jd_tags j)\<rparr> else j)"

definition new_JobData ::
  "nat \<Rightarrow> int \<Rightarrow> string \<Rightarrow> rat \<Rightarrow> string \<Rightarrow> string \<Rightarrow> nat \<Rightarrow> rat \<Rightarrow> rat \<Rightarrow> JobData" where
  "new_JobData in_thread in_id in_job_class_name in_cycle in_name in_tag in_phase in_start in_stop =
     JobData_add_tag
       \<lparr>jd_name = in_name, jd_disabled = False, jd_complete = False, jd_handled = False,
        jd_cycle = in_cycle, jd_start = in_start, jd_stop = in_stop, jd_job_class = -1,
        jd_job_class_name = in_job_class_name, jd_system_job_class = False,
        jd_phase = in_phase mod 2 ^ 16, jd_tags = [], jd_thread = in_thread, jd_id = in_id,
        jd_sim_object_id = -1, jd_parent_object = None, jd_frame_id = 0, jd_depends = [],
        jd_inst_before = [], jd_inst_after = [], jd_cycle_tics = 0, jd_start_tics = 0,
        jd_stop_tics = 0, jd_next_tics = 0\<rparr> in_tag"

subsection \<open>Operations\<close>

definition JobData_enable :: "JobData \<Rightarrow> JobData" where
  "JobData_enable j = j\<lparr>jd_disabled := False\<rparr>"

definition JobData_disable :: "JobData \<Rightarrow> JobData" where
  "JobData_disable j = j\<lparr>jd_disabled := True\<rparr>"

definition JobData_get_handled :: "JobData \<Rightarrow> bool" where
  "JobData_get_handled j = jd_handled j"

definition JobData_set_handled :: "bool \<Rightarrow> JobData \<Rightarrow> JobData" where
  "JobData_set_handled yes_no j = j\<lparr>jd_handled := yes_no\<rparr>"

text \<open>\<open>time_tic_value\<close> is a static member; the model passes it.\<close>

definition calc_cycle_tics :: "int \<Rightarrow> JobData \<Rightarrow> JobData" where
  "calc_cycle_tics time_tic_value j =
     j\<lparr>jd_cycle_tics := c_round (dmul (jd_cycle j) (dbl time_tic_value))\<rparr>"

definition JobData_set_cycle :: "int \<Rightarrow> rat \<Rightarrow> JobData \<Rightarrow> JobData" where
  "JobData_set_cycle time_tic_value in_cycle j = calc_cycle_tics time_tic_value (j\<lparr>jd_cycle := in_cycle\<rparr>)"

definition JobData_set_next_call_time :: "int \<Rightarrow> JobData \<Rightarrow> abort + JobData" where
  "JobData_set_next_call_time time_tics j =
     (if time_tics < jd_next_tics j then
        (if jd_cycle_tics j = 0 then Inl (Undefined ''time_tics % 0'')
         else Inr (j\<lparr>jd_next_tics :=
                time_tics - (time_tics smod jd_cycle_tics j) + jd_cycle_tics j\<rparr>))
      else Inr (j\<lparr>jd_next_tics := time_tics\<rparr>))"

definition set_system_job_class :: "bool \<Rightarrow> JobData \<Rightarrow> JobData" where
  "set_system_job_class yes_no j = j\<lparr>jd_system_job_class := yes_no\<rparr>"

definition add_depend :: "job_ptr \<Rightarrow> JobData \<Rightarrow> JobData" where
  "add_depend depend_job j = j\<lparr>jd_depends := jd_depends j @ [depend_job]\<rparr>"

text \<open>The search loop of \<open>add_inst_before\<close> and \<open>add_inst_after\<close>: the first \<open>ii\<close> with a larger phase.\<close>

fun inst_position :: "nat \<Rightarrow> InstrumentBase list \<Rightarrow> nat" where
  "inst_position ph [] = 0"
| "inst_position ph (x # xs) = (if ph < ib_phase x then 0 else Suc (inst_position ph xs))"

definition add_inst_before :: "InstrumentBase \<Rightarrow> JobData \<Rightarrow> JobData" where
  "add_inst_before in_job j =
     j\<lparr>jd_inst_before := insert_at (inst_position (ib_phase in_job) (jd_inst_before j)) in_job
        (jd_inst_before j)\<rparr>"

definition add_inst_after :: "InstrumentBase \<Rightarrow> JobData \<Rightarrow> JobData" where
  "add_inst_after in_job j =
     j\<lparr>jd_inst_after := insert_at (inst_position (ib_phase in_job) (jd_inst_after j)) in_job
        (jd_inst_after j)\<rparr>"

text \<open>\<open>remove_inst\<close> walks each vector from its last index down, erasing the matches.\<close>

fun remove_inst_loop :: "string \<Rightarrow> nat \<Rightarrow> InstrumentBase list \<Rightarrow> InstrumentBase list" where
  "remove_inst_loop job_name 0 xs = xs"
| "remove_inst_loop job_name (Suc ii) xs =
     remove_inst_loop job_name ii
       (if ib_name (xs ! ii) = job_name then delete_at ii xs else xs)"

definition remove_inst :: "string \<Rightarrow> JobData \<Rightarrow> JobData" where
  "remove_inst job_name j =
     j\<lparr>jd_inst_before := remove_inst_loop job_name (length (jd_inst_before j)) (jd_inst_before j),
       jd_inst_after := remove_inst_loop job_name (length (jd_inst_after j)) (jd_inst_after j)\<rparr>"

definition copy_from_checkpoint :: "JobData \<Rightarrow> JobData \<Rightarrow> JobData" where
  "copy_from_checkpoint in_job j =
     j\<lparr>jd_disabled := jd_disabled in_job, jd_complete := jd_complete in_job,
       jd_handled := jd_handled in_job,
       jd_cycle := jd_cycle in_job, jd_start := jd_start in_job, jd_stop := jd_stop in_job,
       jd_job_class_name := jd_job_class_name in_job, jd_phase := jd_phase in_job,
       jd_system_job_class := jd_system_job_class in_job,
       jd_thread := jd_thread in_job,
       jd_cycle_tics := jd_cycle_tics in_job, jd_start_tics := jd_start_tics in_job,
       jd_stop_tics := jd_stop_tics in_job, jd_next_tics := jd_next_tics in_job\<rparr>"

subsection \<open>Calling a job\<close>

text \<open>
  What a call reaches: the job's own function, or the copied instrumentation job of an
  \<open>InstrumentBase\<close>. The functions themselves belong to the simulation: \<open>call_function\<close>, which the
  build generates for every simulation object, is a parameter. It may change the whole state
  and may abort.
\<close>

datatype callee = Job job_ptr | Instrument InstrumentBase

type_synonym 'w call_fn = "callee \<Rightarrow> 'w \<Rightarrow> (int, 'w) result"

text \<open>
  The instrumentation loops of \<open>JobData::call\<close> read the vector's size once and then index the
  vector; \<open>vec\<close> reads it in the current state. Their return values are ignored.
\<close>

function call_insts ::
  "('w \<Rightarrow> InstrumentBase list) \<Rightarrow> 'w call_fn \<Rightarrow> nat \<Rightarrow> nat \<Rightarrow> 'w \<Rightarrow> (unit, 'w) result" where
  "call_insts vec cf sz ii w =
     (if ii < sz then
        (if ii < length (vec w)
         then andthen (cf (Instrument (vec w ! ii)) w) (\<lambda>_ w'. call_insts vec cf sz (Suc ii) w')
         else Some (Inl (Undefined ''instrument index''), w))
      else Some (Inr (), w))"
  by pat_completeness auto
termination by (relation "measure (\<lambda>(vec, cf, sz, ii, w). sz - ii)") auto

declare call_insts.simps [simp del]

definition JobData_call :: "('w \<Rightarrow> job_heap) \<Rightarrow> 'w call_fn \<Rightarrow> job_ptr \<Rightarrow> 'w \<Rightarrow> (int, 'w) result" where
  "JobData_call heap cf j w =
     andthen (call_insts (\<lambda>w. jd_inst_before (heap w j)) cf (length (jd_inst_before (heap w j))) 0 w)
       (\<lambda>_ w1. andthen (cf (Job j) w1)
         (\<lambda>ret w2. andthen (call_insts (\<lambda>w. jd_inst_after (heap w j)) cf
                               (length (jd_inst_after (heap w2 j))) 0 w2)
            (\<lambda>_ w3. Some (Inr ret, w3))))"

subsection \<open>Lemmas\<close>

lemma JobData_simps [job_simps]:
  "jd_disabled (JobData_enable j) = False" "jd_disabled (JobData_disable j) = True"
  "jd_handled (JobData_set_handled b j) = b"
  "jd_cycle_tics (calc_cycle_tics tv j) = c_round (dmul (jd_cycle j) (dbl tv))"
  "jd_system_job_class (set_system_job_class b j) = b"
  by (simp_all add: JobData_enable_def JobData_disable_def JobData_set_handled_def
      calc_cycle_tics_def set_system_job_class_def)

lemma smod_nonneg: "0 \<le> (a::int) \<Longrightarrow> 0 < b \<Longrightarrow> a smod b = a mod b"
  by (cases "a = 0") (simp_all add: signed_modulo_int_def)

text \<open>The next multiple of the cycle after a time.\<close>

lemma next_multiple:
  assumes "0 \<le> (t::int)" and "0 < c"
  shows "t < t - t smod c + c" and "t - t smod c + c \<le> t + c" and "c dvd t - t smod c + c"
  using assms by (simp_all add: smod_nonneg mod_eq_dvd_iff [symmetric] dvd_minus_mod)

text \<open>Instrumentation lists stay ordered by phase, a new entry after those of its phase.\<close>

lemma inst_position_le [simp]: "inst_position ph xs \<le> length xs"
  by (induction xs) auto

lemma inst_position_before: "i < inst_position ph xs \<Longrightarrow> ib_phase (xs ! i) \<le> ph"
proof (induction xs arbitrary: i)
  case (Cons x xs)
  then show ?case by (cases i) (auto split: if_splits)
qed simp

lemma inst_position_at: "inst_position ph xs < length xs \<Longrightarrow> ph < ib_phase (xs ! inst_position ph xs)"
  by (induction xs) auto

definition phase_sorted :: "InstrumentBase list \<Rightarrow> bool" where
  "phase_sorted xs \<longleftrightarrow> sorted_wrt (\<lambda>x y. ib_phase x \<le> ib_phase y) xs"

lemma phase_sorted_insert:
  assumes "phase_sorted xs"
  shows "phase_sorted (insert_at (inst_position (ib_phase x) xs) x xs)"
  unfolding phase_sorted_def
proof (rule sorted_wrt_insert_at)
  show s: "sorted_wrt (\<lambda>x y. ib_phase x \<le> ib_phase y) xs" using assms by (simp add: phase_sorted_def)
  fix i
  show "i < inst_position (ib_phase x) xs \<Longrightarrow> ib_phase (xs ! i) \<le> ib_phase x"
    by (rule inst_position_before)
  assume i: "inst_position (ib_phase x) xs \<le> i" "i < length xs"
  let ?p = "inst_position (ib_phase x) xs"
  have "ib_phase (xs ! ?p) \<le> ib_phase (xs ! i)"
    using s i by (cases "?p = i") (auto simp: sorted_wrt_iff_nth_less)
  then show "ib_phase x \<le> ib_phase (xs ! i)" using inst_position_at [of "ib_phase x" xs] i by simp
qed simp

lemma remove_inst_loop_filter:
  "ii \<le> length xs \<Longrightarrow>
   remove_inst_loop nm ii xs = filter (\<lambda>x. ib_name x \<noteq> nm) (take ii xs) @ drop ii xs"
proof (induction ii arbitrary: xs)
  case (Suc ii)
  then have ii: "ii < length xs" by simp
  show ?case
  proof (cases "ib_name (xs ! ii) = nm")
    case True
    have "remove_inst_loop nm ii (delete_at ii xs)
        = filter (\<lambda>x. ib_name x \<noteq> nm) (take ii xs) @ drop (Suc ii) xs"
      using Suc.IH [of "delete_at ii xs"] ii by (simp add: delete_at_def min_absorb2)
    then show ?thesis using True ii by (simp add: take_Suc_conv_app_nth)
  next
    case False
    then show ?thesis using Suc.IH [of xs] ii by (simp add: take_Suc_conv_app_nth drop_at)
  qed
qed simp

lemma remove_inst_filter:
  "jd_inst_before (remove_inst nm j) = filter (\<lambda>x. ib_name x \<noteq> nm) (jd_inst_before j)"
  "jd_inst_after (remove_inst nm j) = filter (\<lambda>x. ib_name x \<noteq> nm) (jd_inst_after j)"
  by (simp_all add: remove_inst_def remove_inst_loop_filter)

text \<open>The timing fields are all that \<open>copy_from_checkpoint\<close> and the queues exchange.\<close>

lemma copy_from_checkpoint_identity [job_simps]:
  "jd_id (copy_from_checkpoint c j) = jd_id j"
  "jd_name (copy_from_checkpoint c j) = jd_name j"
  "jd_sim_object_id (copy_from_checkpoint c j) = jd_sim_object_id j"
  "jd_next_tics (copy_from_checkpoint c j) = jd_next_tics c"
  "jd_phase (copy_from_checkpoint c j) = jd_phase c"
  by (simp_all add: copy_from_checkpoint_def)

text \<open>
  What one call of a job executes, in order. When the simulation's functions return normally,
  \<open>JobData::call\<close> runs exactly these and returns the value of the job itself, provided none of them
  edits the instrumentation lists while they are walked.
\<close>

definition job_calls :: "job_heap \<Rightarrow> job_ptr \<Rightarrow> callee list" where
  "job_calls h j = map Instrument (jd_inst_before (h j)) @ Job j # map Instrument (jd_inst_after (h j))"

lemma call_insts_fold:
  assumes cf: "\<And>c w. cf c w = Some (Inr (ret c w), eff c w)" and keep: "\<And>c w. vec (eff c w) = vec w"
  shows "ii \<le> length (vec w) \<Longrightarrow>
    call_insts vec cf (length (vec w)) ii w
      = Some (Inr (), fold eff (map Instrument (drop ii (vec w))) w)"
proof (induction "length (vec w) - ii" arbitrary: ii w)
  case 0
  then show ?case by (simp add: call_insts.simps)
next
  case (Suc n)
  then have ii: "ii < length (vec w)" by simp
  let ?w = "eff (Instrument (vec w ! ii)) w"
  have "call_insts vec cf (length (vec ?w)) (Suc ii) ?w
      = Some (Inr (), fold eff (map Instrument (drop (Suc ii) (vec ?w))) ?w)"
    using Suc.hyps ii keep by (intro Suc.hyps(1)) simp_all
  then show ?case using ii by (simp add: call_insts.simps [of vec cf _ ii] cf keep drop_at)
qed

lemma fold_keep:
  assumes "\<And>c w. f (eff c w) = f w"
  shows "f (fold eff cs w) = f w"
  using assms by (induction cs arbitrary: w) auto

lemma JobData_call_result:
  assumes cf: "\<And>c w. cf c w = Some (Inr (ret c w), eff c w)"
    and keep: "\<And>c w. heap (eff c w) = heap w"
  shows "JobData_call heap cf j w =
    Some (Inr (ret (Job j) (fold eff (map Instrument (jd_inst_before (heap w j))) w)), fold eff (job_calls (heap w) j) w)"
proof -
  let ?b = "\<lambda>w. jd_inst_before (heap w j)" and ?a = "\<lambda>w. jd_inst_after (heap w j)"
  let ?w1 = "fold eff (map Instrument (?b w)) w"
  have 1: "call_insts ?b cf (length (?b w)) 0 w = Some (Inr (), ?w1)"
    using call_insts_fold [of cf ret eff ?b 0 w] cf keep by simp
  have 2: "call_insts ?a cf (length (?a (eff (Job j) ?w1))) 0 (eff (Job j) ?w1)
      = Some (Inr (), fold eff (map Instrument (?a w)) (eff (Job j) ?w1))"
    using call_insts_fold [of cf ret eff ?a 0 "eff (Job j) ?w1"] cf keep
      fold_keep [of heap eff _ w] by simp
  show ?thesis using 1 2 by (simp add: JobData_call_def job_calls_def cf)
qed

lemma JobData_call_fold:
  assumes "\<And>c w. cf c w = Some (Inr (ret c), eff c w)"
    and "\<And>c w. heap (eff c w) = heap w"
  shows "JobData_call heap cf j w = Some (Inr (ret (Job j)), fold eff (job_calls (heap w) j) w)"
  by (rule JobData_call_result) (use assms in simp_all)

end
