(* ===== verification/ScheduledJobQueue.thy ===== *)
theory ScheduledJobQueue
  imports JobData "HOL-Library.Product_Lexorder"
begin

text \<open>
  \<open>Trick::ScheduledJobQueue\<close> (sim\_services/ScheduledJobQueue/ScheduledJobQueue.cpp): the
  array of job pointers every scheduler loop walks, ordered by job class, phase, simulation
  object and job id, with the index of the next job and the lowest next call time seen so far.

  \<open>q_list\<close> is \<open>list\<close> with its length \<open>list_size\<close>; \<open>q_curr_index\<close> is the
  \<open>unsigned int curr_index\<close>, whose decrement wraps; the tics are \<open>long long\<close> values.
\<close>

record SJQ =
  q_list :: "job_ptr list"
  q_curr_index :: nat
  q_next_job_time :: int

definition new_ScheduledJobQueue :: SJQ where
  "new_ScheduledJobQueue = \<lparr>q_list = [], q_curr_index = 0, q_next_job_time = TRICK_MAX_LONG_LONG\<rparr>"

subsection \<open>Insertion and removal\<close>

definition compare_job_data :: "JobData \<Rightarrow> JobData \<Rightarrow> bool" where
  "compare_job_data a b =
     (if jd_job_class a < jd_job_class b then True
      else if jd_job_class b < jd_job_class a then False
      else if jd_phase a < jd_phase b then True
      else if jd_phase b < jd_phase a then False
      else if jd_sim_object_id a < jd_sim_object_id b then True
      else if jd_sim_object_id b < jd_sim_object_id a then False
      else jd_id a < jd_id b)"

text \<open>\<open>std::upper_bound\<close>: the binary search of the standard library, over \<open>[first, first + len)\<close>.\<close>

function upper_bound :: "('a \<Rightarrow> bool) \<Rightarrow> 'a list \<Rightarrow> nat \<Rightarrow> nat \<Rightarrow> nat" where
  "upper_bound val_before xs first len =
     (if 0 < len then
        (let half = len div 2; middle = first + half
         in if val_before (xs ! middle) then upper_bound val_before xs first half
            else upper_bound val_before xs (Suc middle) (len - half - 1))
      else first)"
  by pat_completeness auto
termination by (relation "measure (\<lambda>(p, xs, first, len). len)") auto

declare upper_bound.simps [simp del]

definition insertion_point :: "job_heap \<Rightarrow> SJQ \<Rightarrow> job_ptr \<Rightarrow> nat" where
  "insertion_point h q new_job =
     upper_bound (\<lambda>j. compare_job_data (h new_job) (h j)) (q_list q) 0 (length (q_list q))"

definition push :: "job_heap \<Rightarrow> SJQ \<Rightarrow> job_ptr \<Rightarrow> job_heap \<times> SJQ" where
  "push h q new_job =
     (let insert_pt = insertion_point h q new_job
      in (h(new_job := JobData_set_handled True (h new_job)),
          q\<lparr>q_list := insert_at insert_pt new_job (q_list q),
            q_curr_index := (if insert_pt < q_curr_index q then inc_u32 (q_curr_index q)
                             else q_curr_index q)\<rparr>))"

definition push_ignore_sim_object :: "job_heap \<Rightarrow> SJQ \<Rightarrow> job_ptr \<Rightarrow> job_heap \<times> SJQ" where
  "push_ignore_sim_object h q new_job =
     (let save_sim_object_id = jd_sim_object_id (h new_job);
          h1 = h(new_job := (h new_job)\<lparr>jd_sim_object_id := 1000000\<rparr>);
          (h2, q2) = push h1 q new_job
      in (h2(new_job := (h2 new_job)\<lparr>jd_sim_object_id := save_sim_object_id\<rparr>), q2))"

text \<open>The search loop of \<open>remove\<close>: the first index that holds the job.\<close>

fun find_index :: "job_ptr \<Rightarrow> job_ptr list \<Rightarrow> nat option" where
  "find_index j [] = None"
| "find_index j (x # xs) = (if x = j then Some 0 else map_option Suc (find_index j xs))"

definition queue_remove :: "SJQ \<Rightarrow> job_ptr \<Rightarrow> int \<times> SJQ" where
  "queue_remove q delete_job =
     (case find_index delete_job (q_list q) of
        Some ii \<Rightarrow>
          (0, q\<lparr>q_list := delete_at ii (q_list q),
                q_curr_index := (if ii \<le> q_curr_index q then dec_u32 (q_curr_index q)
                                 else q_curr_index q)\<rparr>)
      | None \<Rightarrow> (-1, q))"

subsection \<open>The index\<close>

definition set_curr_index :: "nat \<Rightarrow> SJQ \<Rightarrow> SJQ" where
  "set_curr_index val q = (if val < length (q_list q) then q\<lparr>q_curr_index := val\<rparr> else q)"

definition reset_curr_index :: "SJQ \<Rightarrow> SJQ" where
  "reset_curr_index q = q\<lparr>q_curr_index := 0\<rparr>"

definition queue_size :: "SJQ \<Rightarrow> nat" where
  "queue_size q = length (q_list q)"

definition queue_empty :: "SJQ \<Rightarrow> bool" where
  "queue_empty q = (length (q_list q) = 0)"

definition queue_clear :: "SJQ \<Rightarrow> SJQ" where
  "queue_clear q =
     q\<lparr>q_list := [], q_curr_index := 0, q_next_job_time := TRICK_MAX_LONG_LONG\<rparr>"

definition queue_top :: "SJQ \<Rightarrow> abort + job_ptr option" where
  "queue_top q =
     (if length (q_list q) = 0 then Inr None
      else if q_curr_index q < length (q_list q) then Inr (Some (q_list q ! q_curr_index q))
      else Inl (Undefined ''list[curr_index]''))"

subsection \<open>Walking the queue\<close>

function next_enabled :: "job_heap \<Rightarrow> SJQ \<Rightarrow> job_ptr option \<times> SJQ" where
  "next_enabled h q =
     (if q_curr_index q < length (q_list q) then
        (let curr_job = q_list q ! q_curr_index q;
             q1 = q\<lparr>q_curr_index := Suc (q_curr_index q)\<rparr>
         in if \<not> jd_disabled (h curr_job) then (Some curr_job, q1) else next_enabled h q1)
      else (None, q))"
  by pat_completeness auto
termination by (relation "measure (\<lambda>(h, q). length (q_list q) - q_curr_index q)") auto

declare next_enabled.simps [simp del]

definition get_next_job :: "job_heap \<Rightarrow> SJQ \<Rightarrow> job_ptr option \<times> SJQ" where
  "get_next_job h q =
     (if length (q_list q) \<le> q_curr_index q then (None, q\<lparr>q_curr_index := length (q_list q)\<rparr>)
      else next_enabled h q)"

text \<open>The next call time of a job that is due, unless the job schedules itself.\<close>

definition reschedule :: "JobData \<Rightarrow> JobData" where
  "reschedule j =
     (if \<not> jd_system_job_class j then
        (let next_call = jd_next_tics j + jd_cycle_tics j
         in j\<lparr>jd_next_tics := (if jd_stop_tics j < next_call then TRICK_MAX_LONG_LONG else next_call)\<rparr>)
      else j)"

function find_next_job :: "job_heap \<Rightarrow> SJQ \<Rightarrow> int \<Rightarrow> job_ptr option \<times> job_heap \<times> SJQ" where
  "find_next_job h q time_tics =
     (if q_curr_index q < length (q_list q) then
        (let curr_job = q_list q ! q_curr_index q
         in if jd_next_tics (h curr_job) = time_tics then
              (let h1 = h(curr_job := reschedule (h curr_job));
                   q1 = (if \<not> jd_system_job_class (h curr_job) \<and>
                            jd_next_tics (h1 curr_job) < q_next_job_time q
                         then q\<lparr>q_next_job_time := jd_next_tics (h1 curr_job)\<rparr> else q);
                   q2 = q1\<lparr>q_curr_index := Suc (q_curr_index q1)\<rparr>
               in if \<not> jd_disabled (h1 curr_job) then (Some curr_job, h1, q2)
                  else find_next_job h1 q2 time_tics)
            else
              (let q1 = (if time_tics < jd_next_tics (h curr_job) \<and>
                            jd_next_tics (h curr_job) < q_next_job_time q
                         then q\<lparr>q_next_job_time := jd_next_tics (h curr_job)\<rparr> else q)
               in find_next_job h (q1\<lparr>q_curr_index := Suc (q_curr_index q1)\<rparr>) time_tics))
      else (None, h, q))"
  by pat_completeness auto
termination
  by (relation "measure (\<lambda>(h, q, t). length (q_list q) - q_curr_index q)") (auto split: if_splits)

declare find_next_job.simps [simp del]

function find_job :: "job_heap \<Rightarrow> SJQ \<Rightarrow> int \<Rightarrow> job_ptr option \<times> SJQ" where
  "find_job h q time_tics =
     (if q_curr_index q < length (q_list q) then
        (let curr_job = q_list q ! q_curr_index q;
             q1 = q\<lparr>q_curr_index := Suc (q_curr_index q)\<rparr>
         in if jd_next_tics (h curr_job) = time_tics \<and> \<not> jd_disabled (h curr_job)
            then (Some curr_job, q1) else find_job h q1 time_tics)
      else (None, q))"
  by pat_completeness auto
termination by (relation "measure (\<lambda>(h, q, t). length (q_list q) - q_curr_index q)") auto

declare find_job.simps [simp del]

subsection \<open>The lowest next call time\<close>

definition set_next_job_call_time :: "int \<Rightarrow> SJQ \<Rightarrow> SJQ" where
  "set_next_job_call_time in_time q = q\<lparr>q_next_job_time := in_time\<rparr>"

function lowest_from :: "job_heap \<Rightarrow> SJQ \<Rightarrow> nat \<Rightarrow> SJQ" where
  "lowest_from h q temp_index =
     (if temp_index < length (q_list q) then
        lowest_from h
          (if jd_next_tics (h (q_list q ! temp_index)) < q_next_job_time q
           then q\<lparr>q_next_job_time := jd_next_tics (h (q_list q ! temp_index))\<rparr> else q)
          (Suc temp_index)
      else q)"
  by pat_completeness auto
termination
  by (relation "measure (\<lambda>(h, q, i). length (q_list q) - i)") (auto split: if_splits)

declare lowest_from.simps [simp del]

definition get_next_job_call_time :: "job_heap \<Rightarrow> SJQ \<Rightarrow> int \<times> SJQ" where
  "get_next_job_call_time h q =
     (let q1 = lowest_from h q (q_curr_index q) in (q_next_job_time q1, q1))"

definition test_next_job_call_time :: "job_heap \<Rightarrow> SJQ \<Rightarrow> job_ptr \<Rightarrow> int \<Rightarrow> SJQ" where
  "test_next_job_call_time h q curr_job time_tics =
     (if time_tics < jd_next_tics (h curr_job) \<and> jd_next_tics (h curr_job) < q_next_job_time q
      then q\<lparr>q_next_job_time := jd_next_tics (h curr_job)\<rparr> else q)"

subsection \<open>Listing and instrumentation\<close>

lemma next_enabled_frame:
  "next_enabled h q = (jo, q1) \<Longrightarrow>
   q_list q1 = q_list q \<and> q_next_job_time q1 = q_next_job_time q \<and>
   q_curr_index q \<le> q_curr_index q1 \<and>
   (q_curr_index q \<le> length (q_list q) \<longrightarrow> q_curr_index q1 \<le> length (q_list q)) \<and>
   (jo \<noteq> None \<longrightarrow> q_curr_index q < q_curr_index q1)"
proof (induction h q arbitrary: jo q1 rule: next_enabled.induct)
  case (1 h q)
  let ?j = "q_list q ! q_curr_index q" and ?q1 = "q\<lparr>q_curr_index := Suc (q_curr_index q)\<rparr>"
  show ?case
  proof (cases "q_curr_index q < length (q_list q) \<and> jd_disabled (h ?j)")
    case True
    then have eq: "next_enabled h q = next_enabled h ?q1"
      by (simp add: next_enabled.simps [of h q])
    show ?thesis using "1.IH" [OF _ refl refl, of jo q1] "1.prems" True unfolding eq by auto
  next
    case False
    then show ?thesis using "1.prems" by (auto simp: next_enabled.simps [of h q] split: if_splits)
  qed
qed

lemma get_next_job_progress:
  "get_next_job h q = (Some j, q1) \<Longrightarrow>
   q_list q1 = q_list q \<and> q_curr_index q < q_curr_index q1 \<and> q_curr_index q1 \<le> length (q_list q)"
  using next_enabled_frame [of h q "Some j" q1] by (auto simp: get_next_job_def split: if_splits)

text \<open>
  The loop that \<open>write_sched_queue\<close> and \<open>write_non_sched_queue\<close> share: the jobs that
  get a line of \<open>S_job_execution\<close>, in order. The text of a line is formatting.
\<close>

function written_jobs :: "job_heap \<Rightarrow> SJQ \<Rightarrow> job_ptr list \<times> SJQ" where
  "written_jobs h q =
     (case get_next_job h q of
        (None, q1) \<Rightarrow> ([], q1)
      | (Some curr_job, q1) \<Rightarrow>
          (case written_jobs h q1 of (js, q2) \<Rightarrow>
             (if jd_job_class_name (h curr_job) \<noteq> ''instrumentation'' then curr_job # js else js, q2)))"
  by pat_completeness auto
termination
  by (relation "measure (\<lambda>(h, q). length (q_list q) - q_curr_index q)")
    (auto dest!: sym [of "(Some _, _)"] get_next_job_progress)

declare written_jobs.simps [simp del]

definition write_sched_queue :: "job_heap \<Rightarrow> SJQ \<Rightarrow> job_ptr list \<times> SJQ" where
  "write_sched_queue h q =
     (let save_index = q_curr_index q;
          (js, q1) = written_jobs h (reset_curr_index q)
      in (js, set_curr_index save_index q1))"

text \<open>
  The instrument operations visit every job of the list; \<open>name\<close> and \<open>phase\<close> are copied from the
  instrumentation job when the \<open>ScheduledJobQueueInstrument\<close> is built.
\<close>

fun instrument_list :: "(InstrumentBase \<Rightarrow> JobData \<Rightarrow> JobData) \<Rightarrow> job_ptr \<Rightarrow> job_ptr list \<Rightarrow> job_heap \<Rightarrow> job_heap"
where
  "instrument_list add inst [] h = h"
| "instrument_list add inst (j # js) h =
     instrument_list add inst js
       (h(j := add (ScheduledJobQueueInstrument (jd_name (h inst)) (jd_phase (h inst)) inst j) (h j)))"

definition instrument_before :: "job_heap \<Rightarrow> SJQ \<Rightarrow> job_ptr \<Rightarrow> int \<times> job_heap" where
  "instrument_before h q instrumentation_job =
     (0, instrument_list add_inst_before instrumentation_job (q_list q) h)"

definition instrument_after :: "job_heap \<Rightarrow> SJQ \<Rightarrow> job_ptr \<Rightarrow> int \<times> job_heap" where
  "instrument_after h q instrumentation_job =
     (0, instrument_list add_inst_after instrumentation_job (q_list q) h)"

fun instrument_remove_list :: "string \<Rightarrow> job_ptr list \<Rightarrow> job_heap \<Rightarrow> job_heap" where
  "instrument_remove_list job_name [] h = h"
| "instrument_remove_list job_name (j # js) h =
     instrument_remove_list job_name js (h(j := remove_inst job_name (h j)))"

definition instrument_remove :: "job_heap \<Rightarrow> SJQ \<Rightarrow> string \<Rightarrow> int \<times> job_heap" where
  "instrument_remove h q job_name = (0, instrument_remove_list job_name (q_list q) h)"

subsection \<open>The order of the queue\<close>

definition job_key :: "JobData \<Rightarrow> int \<times> nat \<times> int \<times> int" where
  "job_key j = (jd_job_class j, jd_phase j, jd_sim_object_id j, jd_id j)"

lemma compare_job_data_key: "compare_job_data a b \<longleftrightarrow> job_key a < job_key b"
  by (auto simp: compare_job_data_def job_key_def)

definition queue_sorted :: "job_heap \<Rightarrow> SJQ \<Rightarrow> bool" where
  "queue_sorted h q \<longleftrightarrow> sorted_wrt (\<lambda>x y. job_key (h x) \<le> job_key (h y)) (q_list q)"

text \<open>On a list that a predicate splits in two, the binary search finds the split.\<close>

lemma upper_bound_split:
  assumes mono: "\<And>i j. i \<le> j \<Longrightarrow> j < length xs \<Longrightarrow> p (xs ! i) \<Longrightarrow> p (xs ! j)"
  shows "first + len \<le> length xs \<Longrightarrow> (\<And>i. i < first \<Longrightarrow> \<not> p (xs ! i)) \<Longrightarrow>
    (\<And>i. first + len \<le> i \<Longrightarrow> i < length xs \<Longrightarrow> p (xs ! i)) \<Longrightarrow>
    upper_bound p xs first len \<le> length xs \<and>
    (\<forall>i < upper_bound p xs first len. \<not> p (xs ! i)) \<and>
    (\<forall>i. upper_bound p xs first len \<le> i \<longrightarrow> i < length xs \<longrightarrow> p (xs ! i))"
proof (induction len arbitrary: first rule: less_induct)
  case (less len)
  show ?case
  proof (cases "0 < len")
    case True
    define mid where "mid = first + len div 2"
    have mid: "mid < length xs" "first \<le> mid" "len div 2 < len" using True less.prems(1)
      by (auto simp: mid_def)
    show ?thesis
    proof (cases "p (xs ! mid)")
      case True
      then have eq: "upper_bound p xs first len = upper_bound p xs first (len div 2)"
        using \<open>0 < len\<close> by (simp add: upper_bound.simps [of p xs first len] mid_def)
      show ?thesis unfolding eq
        using mid less.prems(1,2) mono [OF _ _ True] by (intro less.IH) (auto simp: mid_def)
    next
      case False
      then have eq: "upper_bound p xs first len = upper_bound p xs (Suc mid) (len - len div 2 - 1)"
        using \<open>0 < len\<close> by (simp add: upper_bound.simps [of p xs first len] mid_def Let_def)
      have below: "\<not> p (xs ! i)" if "i < Suc mid" for i
        using that mono [of i mid] mid False by auto
      have len: "Suc mid + (len - len div 2 - 1) = first + len" using mid by (simp add: mid_def)
      show ?thesis unfolding eq
        using mid less.prems(1,3) below len by (intro less.IH) auto
    qed
  next
    case False
    then have "upper_bound p xs first len = first" by (simp add: upper_bound.simps)
    then show ?thesis using False less.prems by auto
  qed
qed

lemma insertion_point_split:
  fixes j :: job_ptr
  assumes "queue_sorted h q"
  defines "k \<equiv> insertion_point h q j"
  shows "k \<le> length (q_list q)"
    and "\<And>i. i < k \<Longrightarrow> job_key (h (q_list q ! i)) \<le> job_key (h j)"
    and "\<And>i. k \<le> i \<Longrightarrow> i < length (q_list q) \<Longrightarrow> job_key (h j) < job_key (h (q_list q ! i))"
proof -
  let ?p = "\<lambda>x. compare_job_data (h j) (h x)"
  have mono: "?p (q_list q ! b)" if "a \<le> b" "b < length (q_list q)" "?p (q_list q ! a)" for a b
    using that assms(1) unfolding queue_sorted_def compare_job_data_key sorted_wrt_iff_nth_less
    by (cases "a = b") (auto intro: less_le_trans)
  have "k \<le> length (q_list q) \<and> (\<forall>i < k. \<not> ?p (q_list q ! i)) \<and>
      (\<forall>i. k \<le> i \<longrightarrow> i < length (q_list q) \<longrightarrow> ?p (q_list q ! i))"
    unfolding k_def insertion_point_def
    using upper_bound_split [of "q_list q" ?p 0 "length (q_list q)", OF mono] by auto
  then show "k \<le> length (q_list q)"
    and "\<And>i. i < k \<Longrightarrow> job_key (h (q_list q ! i)) \<le> job_key (h j)"
    and "\<And>i. k \<le> i \<Longrightarrow> i < length (q_list q) \<Longrightarrow> job_key (h j) < job_key (h (q_list q ! i))"
    by (auto simp: compare_job_data_key not_less)
qed

lemma push_simps [queue_simps]:
  "q_list (snd (push h q j)) = insert_at (insertion_point h q j) j (q_list q)"
  "q_next_job_time (snd (push h q j)) = q_next_job_time q"
  "q_curr_index (snd (push h q j)) =
     (if insertion_point h q j < q_curr_index q then inc_u32 (q_curr_index q) else q_curr_index q)"
  "fst (push h q j) = h(j := JobData_set_handled True (h j))"
  by (simp_all add: push_def Let_def)

lemma job_key_set_handled [simp]: "job_key (JobData_set_handled b j) = job_key j"
  by (simp add: job_key_def JobData_set_handled_def)

lemma push_queue_sorted:
  assumes "queue_sorted h q"
  shows "queue_sorted (fst (push h q j)) (snd (push h q j))"
proof -
  note split = insertion_point_split [OF assms, where j = j]
  have key: "job_key (fst (push h q j) x) = job_key (h x)" for x
    by (simp add: queue_simps)
  show ?thesis unfolding queue_sorted_def key unfolding push_simps(1)
    using split assms by (intro sorted_wrt_insert_at) (auto simp: queue_sorted_def intro: less_imp_le)
qed

text \<open>The job that would run next stays the next one across an insertion.\<close>

lemma push_next_job:
  fixes j :: job_ptr
  assumes "queue_sorted h q" and "q_curr_index q < length (q_list q)"
    and "length (q_list q) < 4294967295"
  defines "q' \<equiv> snd (push h q j)"
  shows "q_list q' ! q_curr_index q' = q_list q ! q_curr_index q \<or>
    q_list q' ! q_curr_index q' = j \<and> insertion_point h q j = q_curr_index q"
proof -
  let ?k = "insertion_point h q j"
  have k: "?k \<le> length (q_list q)" by (rule insertion_point_split(1) [OF assms(1)])
  consider "?k < q_curr_index q" | "?k = q_curr_index q" | "q_curr_index q < ?k" by linarith
  then show ?thesis
    using assms(2,3) k by cases (simp_all add: q'_def queue_simps)
qed

subsection \<open>Removal\<close>

lemma find_index_None: "find_index j xs = None \<longleftrightarrow> j \<notin> set xs"
  by (induction xs) auto

lemma find_index_Some:
  "find_index j xs = Some i \<Longrightarrow> i < length xs \<and> xs ! i = j \<and> (\<forall>k < i. xs ! k \<noteq> j)"
proof (induction xs arbitrary: i)
  case (Cons x xs)
  then show ?case by (cases i) (auto simp: nth_Cons split: if_splits nat.splits)
qed simp

lemma delete_at_find_index: "find_index j xs = Some i \<Longrightarrow> delete_at i xs = remove1 j xs"
proof (induction xs arbitrary: i)
  case (Cons x xs)
  then show ?case by (auto simp: delete_at_def split: if_splits)
qed simp

lemma queue_remove_list: "q_list (snd (queue_remove q j)) = remove1 j (q_list q)"
  by (auto simp: queue_remove_def delete_at_find_index remove1_idem find_index_None split: option.split)

lemma queue_remove_return: "fst (queue_remove q j) = (if j \<in> set (q_list q) then 0 else -1)"
  using find_index_None [of j "q_list q"] by (auto simp: queue_remove_def split: option.split)

lemma queue_remove_sorted: "queue_sorted h q \<Longrightarrow> queue_sorted h (snd (queue_remove q j))"
  by (auto simp: queue_remove_def queue_sorted_def sorted_wrt_delete_at split: option.split)

text \<open>Unless the job at the index itself is removed, the job that runs next is unchanged.\<close>

lemma queue_remove_next_job:
  fixes j :: job_ptr
  assumes "find_index j (q_list q) = Some i" and "q_curr_index q < length (q_list q)"
    and "length (q_list q) < 4294967295" and "i \<noteq> q_curr_index q"
  defines "q' \<equiv> snd (queue_remove q j)"
  shows "q_curr_index q' < length (q_list q') \<and>
    q_list q' ! q_curr_index q' = q_list q ! q_curr_index q"
proof -
  have i: "i < length (q_list q)" using find_index_Some [OF assms(1)] by simp
  show ?thesis
  proof (cases "i < q_curr_index q")
    case True
    then have "dec_u32 (q_curr_index q) = q_curr_index q - 1" using assms(2,3) by (intro dec_u32_pos) simp_all
    then show ?thesis using True assms(1,2) i by (auto simp: q'_def queue_remove_def)
  next
    case False
    then show ?thesis using assms(1,2,4) i by (auto simp: q'_def queue_remove_def)
  qed
qed

end
