(* ===== verification/QueueWalk.thy ===== *)
theory QueueWalk
  imports ScheduledJobQueue
begin

text \<open>
  The loop every scheduler of the program is built from,
  \<open>while ( (curr_job = queue.next()) != NULL ) { body }\<close>, and the contract between such a loop
  and the queue it walks.

  The locale \<open>walker\<close> states what a \<open>next\<close> operation promises: it hands out the first job
  of the unvisited part that is due and leaves exactly the jobs behind it unvisited. The loop's
  theorem is proved once from that contract; \<open>get_next_job\<close>, \<open>find_next_job\<close> and
  \<open>find_job\<close> are its interpretations.
\<close>

subsection \<open>The loop\<close>

text \<open>\<open>None\<close> is a loop that never ends.\<close>

partial_function (option) walk ::
  "('w \<Rightarrow> 'j option \<times> 'w) \<Rightarrow> ('j \<Rightarrow> 'w \<Rightarrow> (unit, 'w) result) \<Rightarrow> 'w \<Rightarrow> (unit, 'w) result" where
  "walk next_job body w =
     (case next_job w of
        (None, w1) \<Rightarrow> Some (Inr (), w1)
      | (Some j, w1) \<Rightarrow>
          Option.bind (body j w1)
            (\<lambda>(v, w2). case v of Inl a \<Rightarrow> Some (Inl a, w2) | Inr _ \<Rightarrow> walk next_job body w2))"

declare walk.simps [code]

lemma walk_None [simp]: "next_job w = (None, w1) \<Longrightarrow> walk next_job body w = Some (Inr (), w1)"
  by (simp add: walk.simps [of next_job body w])

lemma walk_Some:
  "next_job w = (Some j, w1) \<Longrightarrow>
   walk next_job body w = andthen (body j w1) (\<lambda>_ w2. walk next_job body w2)"
  by (simp add: walk.simps [of next_job body w] andthen_def)

text \<open>A complete run of the loop, with the jobs whose body ran, in order.\<close>

inductive runs ::
  "('w \<Rightarrow> 'j option \<times> 'w) \<Rightarrow> ('j \<Rightarrow> 'w \<Rightarrow> (unit, 'w) result) \<Rightarrow> 'w \<Rightarrow> 'j list \<Rightarrow> 'w \<Rightarrow> bool"
  for next_job body where
  stop: "next_job w = (None, w1) \<Longrightarrow> runs next_job body w [] w1"
| step: "next_job w = (Some j, w1) \<Longrightarrow> body j w1 = Some (Inr (), w2) \<Longrightarrow>
     runs next_job body w2 js w3 \<Longrightarrow> runs next_job body w (j # js) w3"

inductive_simps runs_Nil [simp]: "runs next_job body w [] w'"
inductive_simps runs_Cons: "runs next_job body w (j # js) w'"

lemma runs_walk: "runs next_job body w js w' \<Longrightarrow> walk next_job body w = Some (Inr (), w')"
  by (induction rule: runs.induct) (simp_all add: walk_Some)

lemma walk_runs_unique:
  "runs next_job body w js w1 \<Longrightarrow> runs next_job body w ks w2 \<Longrightarrow> js = ks \<and> w1 = w2"
proof (induction arbitrary: ks w2 rule: runs.induct)
  case (stop w w1)
  from stop.prems stop.hyps show ?case by (cases rule: runs.cases) simp_all
next
  case (step w j w1 w2' js w3)
  from step.prems show ?case
  proof (cases rule: runs.cases)
    case stop
    with step.hyps(1) show ?thesis by simp
  next
    case (step j' v1 v2 js')
    with \<open>next_job w = (Some j, w1)\<close> \<open>body j w1 = Some (Inr (), w2')\<close>
    have "j' = j" "v2 = w2'" by simp_all
    with step \<open>\<And>ks w2. runs next_job body w2' ks w2 \<Longrightarrow> js = ks \<and> w3 = w2\<close> show ?thesis by blast
  qed
qed

subsection \<open>The contract of a next operation\<close>

locale walker =
  fixes next_job :: "'w \<Rightarrow> 'j option \<times> 'w"
    and pending :: "'w \<Rightarrow> 'j list"
    and due :: "'w \<Rightarrow> 'j \<Rightarrow> bool"
    and visited :: "'w \<Rightarrow> 'j list \<Rightarrow> 'w"
    and finish :: "'w \<Rightarrow> 'w"
    and ok :: "'w \<Rightarrow> bool"
  assumes next_none: "ok w \<Longrightarrow> filter (due w) (pending w) = [] \<Longrightarrow> next_job w = (None, finish w)"
    and next_some: "ok w \<Longrightarrow> pending w = sk @ j # js \<Longrightarrow> filter (due w) sk = [] \<Longrightarrow> due w j \<Longrightarrow>
      next_job w = (Some j, visited w (sk @ [j]))"
    and pending_visited: "ok w \<Longrightarrow> pending w = ks @ js \<Longrightarrow> pending (visited w ks) = js"
    and due_visited: "ok w \<Longrightarrow> pending w = ks @ js \<Longrightarrow> j \<in> set js \<Longrightarrow> due (visited w ks) j = due w j"
    and ok_visited: "ok w \<Longrightarrow> pending w = ks @ js \<Longrightarrow> ok (visited w ks)"
begin

lemma split_due:
  assumes "filter P xs = j # js"
  obtains sk rest where "xs = sk @ j # rest" "filter P sk = []" "P j" "filter P rest = js"
  using assms by (auto simp: filter_eq_Cons_iff)

lemma next_cases:
  assumes "ok w"
  obtains "filter (due w) (pending w) = []" "next_job w = (None, finish w)"
  | sk j js where "pending w = sk @ j # js" "filter (due w) (pending w) = j # filter (due w) js"
      "filter (due w) sk = []" "next_job w = (Some j, visited w (sk @ [j]))"
proof (cases "filter (due w) (pending w)")
  case Nil
  then show ?thesis using that(1) next_none [OF assms] by blast
next
  case (Cons j js)
  then obtain sk rest where "pending w = sk @ j # rest" "filter (due w) sk = []" "due w j"
    by (rule split_due)
  then show ?thesis using that(2) [of sk j rest] next_some [OF assms] by auto
qed

text \<open>
  When no body aborts and every body leaves the unvisited part alone, the loop returns and has
  run the body once for every due job, in the order of the queue, and for no other.
\<close>

lemma walk_runs:
  assumes body: "\<And>j w. ok w \<Longrightarrow> \<exists>w'. body j w = Some (Inr (), w') \<and> ok w' \<and> pending w' = pending w \<and>
      (\<forall>k \<in> set (pending w). due w' k = due w k)"
  shows "ok w \<Longrightarrow> \<exists>w'. runs next_job body w (filter (due w) (pending w)) w'"
proof (induction "length (pending w)" arbitrary: w rule: less_induct)
  case less
  show ?case using less.prems
  proof (cases w rule: next_cases)
    case 1
    then show ?thesis by auto
  next
    case (2 sk j js)
    let ?w1 = "visited w (sk @ [j])"
    have p: "pending w = (sk @ [j]) @ js" using 2(1) by simp
    have w1: "ok ?w1" "pending ?w1 = js"
      using ok_visited [OF less.prems p] pending_visited [OF less.prems p] by auto
    obtain w2 where w2: "body j ?w1 = Some (Inr (), w2)" "ok w2" "pending w2 = js"
      "\<forall>k \<in> set js. due w2 k = due ?w1 k"
      using body [OF w1(1)] w1(2) by blast
    have "\<exists>w'. runs next_job body w2 (filter (due w2) (pending w2)) w'"
      by (rule less.hyps) (use w2 p in auto)
    moreover have "filter (due w2) (pending w2) = filter (due w) js"
      using w2 due_visited [OF less.prems p] by (auto intro!: filter_cong)
    ultimately show ?thesis using 2 w2(1) by (auto simp: runs_Cons)
  qed
qed

text \<open>
  The general form: a body may change what is due. \<open>I tr w\<close> is an invariant of the state and the
  jobs run so far; if every step keeps it, the loop returns and the jobs it ran satisfy \<open>Q\<close>.
\<close>

lemma walk_complete:
  assumes step: "\<And>v sk j js tr. ok v \<Longrightarrow> I tr v \<Longrightarrow> pending v = sk @ j # js \<Longrightarrow>
      filter (due v) sk = [] \<Longrightarrow> due v j \<Longrightarrow>
      \<exists>w. body j (visited v (sk @ [j])) = Some (Inr (), w) \<and> ok w \<and> pending w = js \<and> I (tr @ [j]) w"
    and last: "\<And>v tr. ok v \<Longrightarrow> I tr v \<Longrightarrow> filter (due v) (pending v) = [] \<Longrightarrow> Q tr (finish v)"
  shows "ok v \<Longrightarrow> I tr v \<Longrightarrow> \<exists>js w. runs next_job body v js w \<and> Q (tr @ js) w"
proof (induction "length (pending v)" arbitrary: v tr rule: less_induct)
  case less
  from \<open>ok v\<close> show ?case
  proof (cases v rule: next_cases)
    case 1
    have "runs next_job body v [] (finish v)" using 1(2) by simp
    moreover have "Q (tr @ []) (finish v)" using last less.prems 1(1) by simp
    ultimately show ?thesis by blast
  next
    case (2 sk j js)
    then have "due v j" by (auto simp: filter_eq_Cons_iff split: if_splits)
    then obtain w where w: "body j (visited v (sk @ [j])) = Some (Inr (), w)" "ok w" "pending w = js"
        "I (tr @ [j]) w"
      using step [OF less.prems 2(1,3)] by blast
    then obtain ks u where "runs next_job body w ks u" "Q ((tr @ [j]) @ ks) u"
      using less.hyps [of w "tr @ [j]"] 2(1) by auto
    then have "runs next_job body v (j # ks) u \<and> Q (tr @ j # ks) u"
      using 2(4) w(1) by (auto simp: runs_Cons)
    then show ?thesis by blast
  qed
qed

text \<open>
  The loop stops at the first job whose body aborts: the jobs in front of it have run, the jobs
  behind it never do.
\<close>

lemma walk_until:
  assumes step: "\<And>v sk j js tr. ok v \<Longrightarrow> I tr v \<Longrightarrow> pending v = sk @ j # js \<Longrightarrow>
      filter (due v) sk = [] \<Longrightarrow> due v j \<Longrightarrow> \<not> bad j \<Longrightarrow>
      \<exists>w. body j (visited v (sk @ [j])) = Some (Inr (), w) \<and> ok w \<and> pending w = js \<and> I (tr @ [j]) w \<and>
          (\<forall>k \<in> set js. due w k = due v k)"
    and abort: "\<And>v sk j js tr. ok v \<Longrightarrow> I tr v \<Longrightarrow> pending v = sk @ j # js \<Longrightarrow>
      filter (due v) sk = [] \<Longrightarrow> due v j \<Longrightarrow> bad j \<Longrightarrow>
      \<exists>w. body j (visited v (sk @ [j])) = Some (Inl (err j), w) \<and> Q (tr @ [j]) w"
  shows "ok v \<Longrightarrow> I tr v \<Longrightarrow> filter (due v) (pending v) = pre @ j # post \<Longrightarrow> \<forall>k \<in> set pre. \<not> bad k \<Longrightarrow> bad j \<Longrightarrow>
      \<exists>w. walk next_job body v = Some (Inl (err j), w) \<and> Q (tr @ pre @ [j]) w"
proof (induction pre arbitrary: v tr)
  case Nil
  from \<open>ok v\<close> show ?case
  proof (cases v rule: next_cases)
    case (2 sk k js)
    have "j \<in> set (filter (due v) (pending v))" using Nil.prems(3) by simp
    then have d: "due v j" by simp
    have "k = j" using 2(2) Nil.prems(3) by simp
    with d show ?thesis
      using abort [OF Nil.prems(1,2) 2(1,3)] Nil.prems(5) by (auto simp: walk.simps [of next_job body v] 2(4))
  qed (use Nil.prems(3) in simp)
next
  case (Cons i pre)
  from \<open>ok v\<close> show ?case
  proof (cases v rule: next_cases)
    case (2 sk k js)
    have "i \<in> set (filter (due v) (pending v))" using Cons.prems(3) by simp
    then have d: "due v i" by simp
    have k: "k = i" "filter (due v) js = pre @ j # post" using 2(2) Cons.prems(3) by simp_all
    then obtain w where w: "body i (visited v (sk @ [i])) = Some (Inr (), w)" "ok w" "pending w = js" "I (tr @ [i]) w"
      "\<forall>k \<in> set js. due w k = due v k"
      using step [OF Cons.prems(1,2) 2(1,3)] d Cons.prems(4) by auto
    have "filter (due w) (pending w) = pre @ j # post"
      using k(2) w(3,5) by (metis filter_cong)
    then obtain u where "walk next_job body w = Some (Inl (err j), u)" "Q ((tr @ [i]) @ pre @ [j]) u"
      using Cons.IH [OF w(2,4)] Cons.prems(4,5) by auto
    then show ?thesis using w(1) k(1) by (simp add: walk.simps [of next_job body v] 2(4))
  qed (use Cons.prems(3) in simp)
qed

text \<open>With nothing due the body never runs.\<close>

lemma walk_stops:
  assumes "ok w"
  shows "filter (due w) (pending w) = [] \<Longrightarrow> walk next_job body w = Some (Inr (), finish w)"
  using next_none [OF assms] by simp

text \<open>A property that every visit and body keeps holds when the loop returns.\<close>

lemma runs_invariant:
  assumes body: "\<And>j w w'. body j w = Some (Inr (), w') \<Longrightarrow> ok w \<Longrightarrow> I w \<Longrightarrow> ok w' \<and> I w'"
    and visit: "\<And>w ks js. ok w \<Longrightarrow> pending w = ks @ js \<Longrightarrow> I w \<Longrightarrow> I (visited w ks)"
    and finish: "\<And>w. ok w \<Longrightarrow> I w \<Longrightarrow> I (finish w)"
  shows "runs next_job body w js w' \<Longrightarrow> ok w \<Longrightarrow> I w \<Longrightarrow> I w'"
proof (induction rule: runs.induct)
  case (stop w w1)
  from \<open>ok w\<close> show ?case
    using stop.hyps finish [OF \<open>ok w\<close> \<open>I w\<close>] by (cases w rule: next_cases) auto
next
  case (step w j w1 w2 js w3)
  from \<open>ok w\<close> show ?case
  proof (cases w rule: next_cases)
    case 1
    then show ?thesis using step.hyps(1) by simp
  next
    case (2 sk k ks)
    then have p: "pending w = (sk @ [j]) @ ks" and w1: "w1 = visited w (sk @ [j])"
      using step.hyps(1) by auto
    have "ok w1" "I w1"
      using ok_visited [OF \<open>ok w\<close> p] visit [OF \<open>ok w\<close> p \<open>I w\<close>] by (simp_all add: w1)
    then show ?thesis using body [OF step.hyps(2)] step.IH by blast
  qed
qed

end

subsection \<open>The three next operations\<close>

definition pending_jobs :: "SJQ \<Rightarrow> job_ptr list" where
  "pending_jobs q = drop (q_curr_index q) (q_list q)"

lemma pending_jobs_reset [simp]: "pending_jobs (reset_curr_index q) = q_list q"
  by (simp add: pending_jobs_def reset_curr_index_def)

text \<open>The queue with the first jobs of its unvisited part passed over.\<close>

definition skip_jobs :: "SJQ \<Rightarrow> job_ptr list \<Rightarrow> SJQ" where
  "skip_jobs q js = q\<lparr>q_curr_index := q_curr_index q + length js\<rparr>"

definition index_ok :: "SJQ \<Rightarrow> bool" where
  "index_ok q \<longleftrightarrow> q_curr_index q \<le> length (q_list q)"

lemma pending_skip:
  "pending_jobs q = ks @ js \<Longrightarrow> pending_jobs (skip_jobs q ks) = js"
proof -
  assume "pending_jobs q = ks @ js"
  then have "drop (length ks) (drop (q_curr_index q) (q_list q)) = js" by (simp add: pending_jobs_def)
  then show ?thesis by (simp add: pending_jobs_def skip_jobs_def add.commute)
qed

lemma pending_length: "index_ok q \<Longrightarrow> pending_jobs q = js \<Longrightarrow> q_curr_index q + length js = length (q_list q)"
  by (auto simp: pending_jobs_def index_ok_def)

lemma index_ok_skip: "index_ok q \<Longrightarrow> pending_jobs q = ks @ js \<Longrightarrow> index_ok (skip_jobs q ks)"
  using pending_length [of q "ks @ js"] by (simp add: index_ok_def skip_jobs_def)

lemma pending_Cons:
  "pending_jobs q = j # js \<Longrightarrow> q_curr_index q < length (q_list q) \<and> q_list q ! q_curr_index q = j"
  by (metis Cons_nth_drop_Suc drop_all linorder_not_less list.distinct(1) list.inject pending_jobs_def)

lemma pending_Nil: "pending_jobs q = [] \<longleftrightarrow> length (q_list q) \<le> q_curr_index q"
  by (simp add: pending_jobs_def)

lemma skip_jobs_simps [simp]:
  "skip_jobs q [] = q" "skip_jobs (skip_jobs q as) bs = skip_jobs q (as @ bs)"
  "q_list (skip_jobs q as) = q_list q"
  by (simp_all add: skip_jobs_def add.assoc)

lemma skip_jobs_1: "q\<lparr>q_curr_index := Suc (q_curr_index q)\<rparr> = skip_jobs q [j]"
  by (simp add: skip_jobs_def)

lemma next_enabled_walk:
  "pending_jobs q = sk @ js \<Longrightarrow> filter (\<lambda>j. \<not> jd_disabled (h j)) sk = [] \<Longrightarrow>
   next_enabled h q = next_enabled h (skip_jobs q sk)"
proof (induction sk arbitrary: q)
  case (Cons k sk)
  then have c: "q_curr_index q < length (q_list q)" "q_list q ! q_curr_index q = k" "jd_disabled (h k)"
    using pending_Cons [of q k "sk @ js"] by (auto split: if_splits)
  have "pending_jobs (skip_jobs q [k]) = sk @ js" using Cons.prems by (intro pending_skip) simp
  then have "next_enabled h (skip_jobs q [k]) = next_enabled h (skip_jobs q (k # sk))"
    using Cons.IH [of "skip_jobs q [k]"] Cons.prems(2) by (simp split: if_splits)
  then show ?case using c by (simp add: next_enabled.simps [of h q] skip_jobs_1 [of q k])
qed simp

lemma next_enabled_hit:
  "pending_jobs q = j # js \<Longrightarrow> \<not> jd_disabled (h j) \<Longrightarrow> next_enabled h q = (Some j, skip_jobs q [j])"
  using pending_Cons [of q j js] by (simp add: next_enabled.simps [of h q] skip_jobs_1 [of q j])

lemma get_next_job_Nil:
  assumes "index_ok q" and "filter (\<lambda>j. \<not> jd_disabled (h j)) (pending_jobs q) = []"
  shows "get_next_job h q = (None, skip_jobs q (pending_jobs q))"
proof (cases "pending_jobs q = []")
  case True
  then have "q_curr_index q = length (q_list q)" using assms(1) by (simp add: pending_Nil index_ok_def)
  then show ?thesis using True by (simp add: get_next_job_def)
next
  case False
  have "next_enabled h q = next_enabled h (skip_jobs q (pending_jobs q))"
    using next_enabled_walk [of q "pending_jobs q" "[]"] assms(2) by simp
  also have "\<dots> = (None, skip_jobs q (pending_jobs q))"
    using pending_skip [of q "pending_jobs q" "[]"] pending_Nil [of "skip_jobs q (pending_jobs q)"]
    by (simp add: next_enabled.simps)
  finally show ?thesis using False by (simp add: get_next_job_def pending_Nil)
qed

lemma get_next_job_Cons:
  assumes "pending_jobs q = sk @ j # js" and "filter (\<lambda>j. \<not> jd_disabled (h j)) sk = []"
    and "\<not> jd_disabled (h j)"
  shows "get_next_job h q = (Some j, skip_jobs q (sk @ [j]))"
proof -
  have "pending_jobs q \<noteq> []" using assms(1) by simp
  then have "get_next_job h q = next_enabled h q" by (simp add: get_next_job_def pending_Nil)
  also have "\<dots> = next_enabled h (skip_jobs q sk)" using assms by (intro next_enabled_walk)
  also have "\<dots> = (Some j, skip_jobs q (sk @ [j]))"
    using next_enabled_hit [of "skip_jobs q sk" j js h] pending_skip [OF assms(1)] assms(3) by simp
  finally show ?thesis .
qed

subsection \<open>Visiting jobs at a time\<close>

text \<open>
  What one iteration of \<open>find_next_job\<close> does to a job and to the queue, whether or not the job is
  handed out: a job that is due now is rescheduled, and the lowest call time seen is lowered.
\<close>

definition visit :: "int \<Rightarrow> job_ptr \<Rightarrow> job_heap \<times> SJQ \<Rightarrow> job_heap \<times> SJQ" where
  "visit t j = (\<lambda>(h, q).
     if jd_next_tics (h j) = t then
       (let h1 = h(j := reschedule (h j))
        in (h1, (if \<not> jd_system_job_class (h j) \<and> jd_next_tics (h1 j) < q_next_job_time q
                 then q\<lparr>q_next_job_time := jd_next_tics (h1 j)\<rparr> else q)\<lparr>q_curr_index := Suc (q_curr_index q)\<rparr>))
     else (h, (if t < jd_next_tics (h j) \<and> jd_next_tics (h j) < q_next_job_time q
               then q\<lparr>q_next_job_time := jd_next_tics (h j)\<rparr> else q)\<lparr>q_curr_index := Suc (q_curr_index q)\<rparr>))"

definition visit_all :: "int \<Rightarrow> job_ptr list \<Rightarrow> job_heap \<times> SJQ \<Rightarrow> job_heap \<times> SJQ" where
  "visit_all t js hq = fold (visit t) js hq"

lemma visit_all_simps [simp]:
  "visit_all t [] hq = hq"
  "visit_all t (j # js) hq = visit_all t js (visit t j hq)"
  "visit_all t (as @ bs) hq = visit_all t bs (visit_all t as hq)"
  by (simp_all add: visit_all_def)

definition due_at :: "int \<Rightarrow> job_heap \<Rightarrow> job_ptr \<Rightarrow> bool" where
  "due_at t h j \<longleftrightarrow> jd_next_tics (h j) = t \<and> \<not> jd_disabled (h j)"

lemma visit_queue [simp]:
  "q_list (snd (visit t j hq)) = q_list (snd hq)"
  "q_curr_index (snd (visit t j hq)) = Suc (q_curr_index (snd hq))"
  by (cases hq; simp add: visit_def Let_def)+

lemma visit_all_queue [simp]:
  "q_list (snd (visit_all t js hq)) = q_list (snd hq)"
  "q_curr_index (snd (visit_all t js hq)) = q_curr_index (snd hq) + length js"
  by (induction js arbitrary: hq) simp_all

lemma visit_job: "fst (visit t j (h, q)) = h(j := (if jd_next_tics (h j) = t then reschedule (h j) else h j))"
  by (simp add: visit_def Let_def)

lemma visit_all_other: "k \<notin> set js \<Longrightarrow> fst (visit_all t js (h, q)) k = h k"
proof (induction js arbitrary: h q)
  case (Cons j js)
  obtain h1 q1 where v: "visit t j (h, q) = (h1, q1)" by (cases "visit t j (h, q)")
  then have "h1 k = h k" using Cons.prems visit_job [of t j h q] by simp
  then show ?case using Cons v by simp
qed simp

lemma visit_all_jobs:
  "distinct js \<Longrightarrow> fst (visit_all t js (h, q)) =
     (\<lambda>j. if j \<in> set js \<and> jd_next_tics (h j) = t then reschedule (h j) else h j)"
proof (induction js arbitrary: h q)
  case (Cons j js)
  obtain h1 q1 where v: "visit t j (h, q) = (h1, q1)" by (cases "visit t j (h, q)")
  then have h1: "h1 = h(j := (if jd_next_tics (h j) = t then reschedule (h j) else h j))"
    using visit_job [of t j h q] by simp
  have "fst (visit_all t js (h1, q1)) =
      (\<lambda>k. if k \<in> set js \<and> jd_next_tics (h1 k) = t then reschedule (h1 k) else h1 k)"
    using Cons by simp
  then show ?case using Cons.prems v by (auto simp: h1 fun_eq_iff)
qed simp

lemma pending_visit_all:
  "pending_jobs q = ks @ js \<Longrightarrow> pending_jobs (snd (visit_all t ks (h, q))) = js"
  using pending_skip [of q ks js] by (simp add: pending_jobs_def skip_jobs_def)

lemma index_ok_visit_all:
  "index_ok q \<Longrightarrow> pending_jobs q = ks @ js \<Longrightarrow> index_ok (snd (visit_all t ks (h, q)))"
  using pending_length [of q "ks @ js"] by (simp add: index_ok_def)

lemma find_next_job_miss:
  assumes "pending_jobs q = j # js" and "\<not> due_at t h j"
  shows "find_next_job h q t = find_next_job (fst (visit t j (h, q))) (snd (visit t j (h, q))) t"
  using pending_Cons [OF assms(1)] assms(2)
  by (auto simp: find_next_job.simps [of h q t] due_at_def visit_def Let_def reschedule_def)

lemma find_next_job_hit:
  assumes "pending_jobs q = j # js" and "due_at t h j"
  shows "find_next_job h q t = (Some j, visit t j (h, q))"
  using pending_Cons [OF assms(1)] assms(2)
  by (auto simp: find_next_job.simps [of h q t] due_at_def visit_def Let_def reschedule_def)

lemma find_next_job_end:
  "pending_jobs q = [] \<Longrightarrow> find_next_job h q t = (None, h, q)"
  by (simp add: pending_Nil find_next_job.simps)

lemma find_next_job_walk:
  "pending_jobs q = sk @ js \<Longrightarrow> distinct sk \<Longrightarrow> filter (due_at t h) sk = [] \<Longrightarrow>
   find_next_job h q t =
     find_next_job (fst (visit_all t sk (h, q))) (snd (visit_all t sk (h, q))) t"
proof (induction sk arbitrary: h q)
  case (Cons k sk)
  obtain h1 q1 where v: "visit t k (h, q) = (h1, q1)" by (cases "visit t k (h, q)")
  have k: "\<not> due_at t h k" using Cons.prems(3) by (auto split: if_splits)
  have h1: "h1 j = h j" if "j \<noteq> k" for j using visit_job [of t k h q] v that by simp
  have "filter (due_at t h1) sk = filter (due_at t h) sk"
  proof (rule filter_cong [OF refl])
    fix x assume "x \<in> set sk"
    then have "h1 x = h x" using Cons.prems(2) by (intro h1) auto
    then show "due_at t h1 x = due_at t h x" by (simp add: due_at_def)
  qed
  moreover have "pending_jobs q1 = sk @ js"
    using pending_visit_all [of q "[k]" "sk @ js" t h] Cons.prems(1) v by simp
  ultimately show ?case
    using find_next_job_miss [of q k "sk @ js" t h] k v Cons by (simp split: if_splits)
qed simp

lemma find_next_job_None:
  assumes "distinct (pending_jobs q)" and "filter (due_at t h) (pending_jobs q) = []"
  shows "find_next_job h q t = (None, visit_all t (pending_jobs q) (h, q))"
proof -
  have "pending_jobs (snd (visit_all t (pending_jobs q) (h, q))) = []"
    using pending_visit_all [of q "pending_jobs q" "[]"] by simp
  then show ?thesis
    using find_next_job_walk [of q "pending_jobs q" "[]" t h] assms by (simp add: find_next_job_end)
qed

lemma find_next_job_Some:
  assumes "pending_jobs q = sk @ j # js" and "distinct (pending_jobs q)"
    and "filter (due_at t h) sk = []" and "due_at t h j"
  shows "find_next_job h q t = (Some j, visit_all t (sk @ [j]) (h, q))"
proof -
  obtain h1 q1 where v: "visit_all t sk (h, q) = (h1, q1)" by (cases "visit_all t sk (h, q)")
  have p: "pending_jobs q1 = j # js" using pending_visit_all [OF assms(1), of t h] v by simp
  have "j \<notin> set sk" using assms(1,2) by auto
  then have "h1 j = h j" using visit_all_other [of j sk t h q] v by simp
  then have "due_at t h1 j" using assms(4) by (simp add: due_at_def)
  then have "find_next_job h1 q1 t = (Some j, visit t j (h1, q1))" by (rule find_next_job_hit [OF p])
  then show ?thesis
    using find_next_job_walk [of q sk "j # js" t h] assms v by simp
qed

text \<open>The lowest call time seen by a walk is a lower bound, and is one of the call times.\<close>

definition call_time :: "int \<Rightarrow> JobData \<Rightarrow> int option" where
  "call_time t j =
     (if jd_next_tics j = t then
        (if jd_system_job_class j then None else Some (jd_next_tics (reschedule j)))
      else if t < jd_next_tics j then Some (jd_next_tics j) else None)"

lemma visit_time:
  "q_next_job_time (snd (visit t j (h, q))) =
     (case call_time t (h j) of None \<Rightarrow> q_next_job_time q | Some x \<Rightarrow> min (q_next_job_time q) x)"
  by (auto simp: visit_def call_time_def Let_def min_def)

lemma map_filter_cong:
  "(\<And>x. x \<in> set xs \<Longrightarrow> f x = g x) \<Longrightarrow> List.map_filter f xs = List.map_filter g xs"
  by (induction xs) (simp_all add: map_filter_simps split: option.split)

lemma visit_all_time:
  assumes "distinct js"
  shows "q_next_job_time (snd (visit_all t js (h, q))) =
     fold min (List.map_filter (\<lambda>j. call_time t (h j)) js) (q_next_job_time q)"
  using assms
proof (induction js arbitrary: h q)
  case (Cons j js)
  obtain h1 q1 where v: "visit t j (h, q) = (h1, q1)" by (cases "visit t j (h, q)")
  have h1: "h1 k = h k" if "k \<noteq> j" for k using visit_job [of t j h q] v that by simp
  have "List.map_filter (\<lambda>k. call_time t (h1 k)) js = List.map_filter (\<lambda>k. call_time t (h k)) js"
  proof (rule map_filter_cong)
    fix k assume "k \<in> set js"
    then have "h1 k = h k" using Cons.prems by (intro h1) auto
    then show "call_time t (h1 k) = call_time t (h k)" by simp
  qed
  then show ?case
    using Cons v visit_time [of t j h q]
    by (auto simp: map_filter_simps min.commute split: option.split)
qed (simp add: map_filter_simps)

lemma fold_min_le: "fold min xs (m::int) \<le> m" and fold_min_le_mem: "x \<in> set xs \<Longrightarrow> fold min xs (m::int) \<le> x"
proof -
  have *: "fold min xs (m::int) \<le> m \<and> (\<forall>x \<in> set xs. fold min xs m \<le> x)" for m
  proof (induction xs arbitrary: m)
    case (Cons y ys)
    then show ?case using Cons [of "min y m"] by auto
  qed simp
  show "fold min xs (m::int) \<le> m" and "x \<in> set xs \<Longrightarrow> fold min xs (m::int) \<le> x"
    using * [of m] by auto
qed

lemma fold_min_mem: "fold min xs (m::int) = m \<or> fold min xs m \<in> set xs"
proof (induction xs arbitrary: m)
  case (Cons x xs)
  then show ?case using Cons [of "min x m"] by (auto simp: min_def)
qed simp

end
