(* ===== verification/Threads.thy ===== *)
theory Threads
  imports QueueWalk
begin

text \<open>
  \<open>Trick::Threads\<close> (sim\_services/Executive/Threads*.cpp): one scheduler thread, its three
  queues and its synchronisation fields. Thread 0 is the main thread.

  The operating system side of a thread (creation, priority, CPU affinity: \<open>ThreadBase\<close>) is
  outside the model. The trigger a child waits on is modelled in the theory ThreadTrigger, the
  work a child does after it is triggered in the theory ThreadsChild.
\<close>

datatype ProcessType = PROCESS_TYPE_SCHEDULED | PROCESS_TYPE_ASYNC_CHILD | PROCESS_TYPE_AMF_CHILD

record Threads =
  th_name :: string
  th_enabled :: bool
  th_thread_id :: nat
  th_curr_time_tics :: int
  th_amf_cycle :: rat
  th_amf_cycle_tics :: int
  th_amf_next_tics :: int
  th_job_queue :: SJQ
  th_top_of_frame_queue :: SJQ
  th_end_of_frame_queue :: SJQ
  th_curr_job :: "job_ptr option"
  th_rt_nap :: bool
  th_process_type :: ProcessType
  th_child_complete :: bool
  th_running :: bool
  th_shutdown_wait_async :: bool

definition new_Threads :: "nat \<Rightarrow> bool \<Rightarrow> Threads" where
  "new_Threads in_id in_rt_nap =
     \<lparr>th_name = ''Child_'' @ show_nat in_id, th_enabled = True, th_thread_id = in_id,
      th_curr_time_tics = 0, th_amf_cycle = 0, th_amf_cycle_tics = 0, th_amf_next_tics = 0,
      th_job_queue = new_ScheduledJobQueue, th_top_of_frame_queue = new_ScheduledJobQueue,
      th_end_of_frame_queue = new_ScheduledJobQueue, th_curr_job = None, th_rt_nap = in_rt_nap,
      th_process_type = PROCESS_TYPE_SCHEDULED, th_child_complete = False, th_running = False,
      th_shutdown_wait_async = False\<rparr>"

definition Threads_set_enabled :: "bool \<Rightarrow> Threads \<Rightarrow> Threads" where
  "Threads_set_enabled in_enabled th = th\<lparr>th_enabled := in_enabled\<rparr>"

definition Threads_clear_scheduled_queues :: "Threads \<Rightarrow> Threads" where
  "Threads_clear_scheduled_queues th =
     th\<lparr>th_job_queue := queue_clear (th_job_queue th),
        th_top_of_frame_queue := queue_clear (th_top_of_frame_queue th),
        th_end_of_frame_queue := queue_clear (th_end_of_frame_queue th)\<rparr>"

definition Threads_set_amf_cycle :: "rat \<Rightarrow> int \<Rightarrow> Threads \<Rightarrow> int \<times> Threads" where
  "Threads_set_amf_cycle in_cycle time_tic_value th =
     (0, th\<lparr>th_amf_cycle := in_cycle,
            th_amf_cycle_tics := c_trunc (dmul in_cycle (dbl time_tic_value))\<rparr>)"

text \<open>
  \<open>amf_next_tics / old_time_tic_value\<close> is a \<open>long long\<close> division, so it truncates before the
  product; \<open>round\<close> then acts on an integer. A zero \<open>old_time_tic_value\<close> divides by zero.
\<close>

definition Threads_time_tic_changed :: "int \<Rightarrow> int \<Rightarrow> Threads \<Rightarrow> abort + Threads" where
  "Threads_time_tic_changed old_time_tic_value time_tic_value th =
     (if old_time_tic_value = 0 then Inl (Undefined ''amf_next_tics / 0'')
      else Inr (th\<lparr>th_amf_cycle_tics := c_trunc (dmul (th_amf_cycle th) (dbl time_tic_value)),
             th_amf_next_tics :=
               c_round (dbl ((th_amf_next_tics th sdiv old_time_tic_value) * time_tic_value))\<rparr>))"

definition Threads_set_async_wait :: "int \<Rightarrow> Threads \<Rightarrow> int \<times> Threads" where
  "Threads_set_async_wait yes_no th = (0, th\<lparr>th_shutdown_wait_async := (yes_no \<noteq> 0)\<rparr>)"

text \<open>The enumeration's values are 0, 1 and 2, in the order of the constructors.\<close>

definition Threads_set_process_type :: "int \<Rightarrow> Threads \<Rightarrow> int \<times> Threads" where
  "Threads_set_process_type in_process_type th =
     (if 2 < in_process_type \<or> in_process_type < 0 then (-1, th)
      else (0, th\<lparr>th_process_type :=
                 (if in_process_type = 0 then PROCESS_TYPE_SCHEDULED
                  else if in_process_type = 1 then PROCESS_TYPE_ASYNC_CHILD
                  else PROCESS_TYPE_AMF_CHILD)\<rparr>))"

text \<open>\<open>Executive::isThreadReadyToRun\<close>.\<close>

definition isThreadReadyToRun :: "Threads \<Rightarrow> int \<Rightarrow> bool" where
  "isThreadReadyToRun curr_thread time_ticks =
     (if th_enabled curr_thread then
        (case th_process_type curr_thread of
           PROCESS_TYPE_SCHEDULED \<Rightarrow> True
         | PROCESS_TYPE_AMF_CHILD \<Rightarrow> th_amf_next_tics curr_thread = time_ticks
         | PROCESS_TYPE_ASYNC_CHILD \<Rightarrow>
             (if th_child_complete curr_thread then
                (if th_amf_cycle_tics curr_thread = 0 then True
                 else th_amf_next_tics curr_thread = time_ticks)
              else False))
      else False)"

end
