(* ===== verification/SimObject.thy ===== *)
theory SimObject
  imports JobData
begin

text \<open>
  \<open>Trick::SimObject\<close> (sim\_services/SimObject/SimObject.cpp): a named group of jobs. The jobs
  are pointers into the job store, so an operation on all jobs of an object is a change of the
  store. \<open>call_function\<close> is pure virtual and generated for each simulation; it is the parameter
  \<open>call_fn\<close> of the scheduler loops.
\<close>

record SimObject =
  so_name :: string
  so_id :: int
  so_object_disabled :: bool
  so_saved_job_states :: "job_ptr \<rightharpoonup> bool"
  so_pre_component_objects :: "so_ptr list"
  so_post_component_objects :: "so_ptr list"
  so_jobs :: "job_ptr list"

type_synonym so_heap = "so_ptr \<Rightarrow> SimObject"

text \<open>The loops \<open>for (it = jobs.begin(); ...) (*it)->f()\<close>.\<close>

fun update_jobs :: "(JobData \<Rightarrow> JobData) \<Rightarrow> job_ptr list \<Rightarrow> job_heap \<Rightarrow> job_heap" where
  "update_jobs f [] h = h"
| "update_jobs f (j # js) h = update_jobs f js (h(j := f (h j)))"

definition SimObject_add_tag :: "SimObject \<Rightarrow> string \<Rightarrow> job_heap \<Rightarrow> job_heap" where
  "SimObject_add_tag so job_tag h = update_jobs (\<lambda>j. JobData_add_tag j job_tag) (so_jobs so) h"

definition enable_all_jobs :: "SimObject \<Rightarrow> job_heap \<Rightarrow> job_heap" where
  "enable_all_jobs so h = update_jobs JobData_enable (so_jobs so) h"

definition disable_all_jobs :: "SimObject \<Rightarrow> job_heap \<Rightarrow> job_heap" where
  "disable_all_jobs so h = update_jobs JobData_disable (so_jobs so) h"

text \<open>
  One search loop of \<open>get_job\<close>: the job at which \<open>j_instance\<close> has been counted down to 1, or what
  is left of the count (an \<open>unsigned int\<close>, which wraps below 0).
\<close>

fun find_instance :: "job_heap \<Rightarrow> string \<Rightarrow> job_ptr list \<Rightarrow> nat \<Rightarrow> job_ptr + nat" where
  "find_instance h job_name [] j_instance = Inr j_instance"
| "find_instance h job_name (j # js) j_instance =
     (if jd_name (h j) = job_name then
        (if j_instance = 1 then Inl j else find_instance h job_name js (dec_u32 j_instance))
      else find_instance h job_name js j_instance)"

definition has_prefix :: "string \<Rightarrow> string \<Rightarrow> bool" where
  "has_prefix pre s = (take (length pre) s = pre)"

definition SimObject_get_job :: "SimObject \<Rightarrow> job_heap \<Rightarrow> string \<Rightarrow> nat \<Rightarrow> job_ptr option" where
  "SimObject_get_job so h job_name j_instance =
     (case find_instance h job_name (so_jobs so) j_instance of
        Inl j \<Rightarrow> Some j
      | Inr left \<Rightarrow>
          (let full_name = (if \<not> has_prefix (so_name so @ ''.'') job_name
                            then so_name so @ ''.'' @ job_name else job_name)
           in case find_instance h full_name (so_jobs so) left of
                Inl j \<Rightarrow> Some j | Inr _ \<Rightarrow> None))"

definition add_tag_to_job :: "SimObject \<Rightarrow> string \<Rightarrow> string \<Rightarrow> job_heap \<Rightarrow> int \<times> job_heap" where
  "add_tag_to_job so job_tag job_name h =
     (case SimObject_get_job so h (so_name so @ ''.'' @ job_name) 1 of
        Some jd \<Rightarrow> (0, h(jd := JobData_add_tag (h jd) job_tag))
      | None \<Rightarrow> (-1, h))"

definition add_pre_component_object :: "so_ptr \<Rightarrow> so_ptr \<Rightarrow> string \<Rightarrow> so_heap \<Rightarrow> so_heap" where
  "add_pre_component_object this in_object in_name sh =
     (let sh1 = sh(in_object := (sh in_object)\<lparr>so_name := in_name\<rparr>)
      in sh1(this := (sh1 this)\<lparr>so_pre_component_objects := so_pre_component_objects (sh1 this) @ [in_object]\<rparr>))"

definition add_post_component_object :: "so_ptr \<Rightarrow> so_ptr \<Rightarrow> string \<Rightarrow> so_heap \<Rightarrow> so_heap" where
  "add_post_component_object this in_object in_name sh =
     (let sh1 = sh(in_object := (sh in_object)\<lparr>so_name := in_name\<rparr>)
      in sh1(this := (sh1 this)\<lparr>so_post_component_objects := so_post_component_objects (sh1 this) @ [in_object]\<rparr>))"

text \<open>\<open>new JobData\<close> yields a fresh address, which the caller of the model supplies.\<close>

definition SimObject_add_job ::
  "job_ptr \<Rightarrow> nat \<Rightarrow> int \<Rightarrow> string \<Rightarrow> rat \<Rightarrow> string \<Rightarrow> string \<Rightarrow> nat \<Rightarrow> rat \<Rightarrow> rat \<Rightarrow> SimObject \<Rightarrow> job_heap
   \<Rightarrow> SimObject \<times> job_heap" where
  "SimObject_add_job job_ptr in_thread in_id in_job_class_name in_cycle in_name in_tag in_phase
       in_start in_stop so h =
     (so\<lparr>so_jobs := so_jobs so @ [job_ptr]\<rparr>,
      h(job_ptr := new_JobData in_thread in_id in_job_class_name in_cycle in_name in_tag in_phase
                     in_start in_stop))"

subsection \<open>Lemmas\<close>

lemma update_jobs_other [simp]: "k \<notin> set js \<Longrightarrow> update_jobs f js h k = h k"
  by (induction js arbitrary: h) auto

text \<open>An idempotent update reaches every job of the object, however often it is listed.\<close>

lemma update_jobs_mem:
  assumes "\<And>j. f (f j) = f j"
  shows "k \<in> set js \<Longrightarrow> update_jobs f js h k = f (h k)"
proof (induction js arbitrary: h)
  case (Cons j js)
  show ?case
  proof (cases "k \<in> set js")
    case True
    then show ?thesis using Cons.IH [OF True] assms by simp
  next
    case False
    then show ?thesis using Cons.prems by auto
  qed
qed simp

lemma onoff_idem [simp]:
  "JobData_enable (JobData_enable j) = JobData_enable j"
  "JobData_disable (JobData_disable j) = JobData_disable j"
  by (simp_all add: JobData_enable_def JobData_disable_def)

lemma enable_all_jobs_iff:
  "enable_all_jobs so h k = (if k \<in> set (so_jobs so) then JobData_enable (h k) else h k)"
  by (simp add: enable_all_jobs_def update_jobs_mem)

lemma disable_all_jobs_iff:
  "disable_all_jobs so h k = (if k \<in> set (so_jobs so) then JobData_disable (h k) else h k)"
  by (simp add: disable_all_jobs_def update_jobs_mem)

lemma find_instance_found:
  "find_instance h nm js i = Inl j \<Longrightarrow> j \<in> set js \<and> jd_name (h j) = nm"
  by (induction js arbitrary: i) (auto split: if_splits)

text \<open>For an instance number \<open>n\<close> from 1, the search yields the \<open>n\<close>-th job of that name.\<close>

lemma find_instance_nth:
  "n < length (filter (\<lambda>j. jd_name (h j) = nm) js) \<Longrightarrow> n < 4294967294 \<Longrightarrow>
   find_instance h nm js (Suc n) = Inl (filter (\<lambda>j. jd_name (h j) = nm) js ! n)"
proof (induction js arbitrary: n)
  case (Cons j js)
  then show ?case by (cases n) auto
qed simp

lemma find_instance_left:
  "length (filter (\<lambda>j. jd_name (h j) = nm) js) \<le> n \<Longrightarrow> n < 4294967294 \<Longrightarrow>
   find_instance h nm js (Suc n) = Inr (Suc n - length (filter (\<lambda>j. jd_name (h j) = nm) js))"
proof (induction js arbitrary: n)
  case (Cons j js)
  then show ?case by (cases n) auto
qed simp

end
