(* ===== verification/ExecState.thy ===== *)
theory ExecState
  imports Threads SimObject
begin

text \<open>
  The state of \<open>Trick::Executive\<close> (include/trick/Executive.hh), its constructor, and its get and
  set functions (sim\_services/Executive/Executive.cpp).

  The record holds the members the scheduler's behaviour depends on, and with them the stores
  the executive's pointers lead to: \<open>ex_jobs\<close> (every \<open>JobData\<close>) and \<open>ex_sim_objs\<close> (every
  \<open>SimObject\<close>). \<open>ex_world\<close> stands for the rest of the simulation, which the jobs act on. Not
  kept: signal traps, debugger settings, CPU usage and version strings, which are reported only.
\<close>

datatype SIM_COMMAND = NoCmd | FreezeCmd | RunCmd | ExitCmd

datatype SIM_MODE = Initialization | Freeze | Step | Run | ExitMode

text \<open>The queues of the executive, and the three queues of each thread.\<close>

datatype queue_ref =
    Q_default_data | Q_input_processor | Q_initialization | Q_input_processor_run
  | Q_scheduled | Q_top_of_frame | Q_end_of_frame | Q_thread_sync | Q_shutdown
  | Q_freeze_init | Q_freeze_scheduled | Q_freeze | Q_unfreeze | Q_time_tic_changed
  | Q_thread_job nat | Q_thread_top nat | Q_thread_end nat

record 'w Executive =
  ex_jobs :: job_heap
  ex_sim_objs :: so_heap
  ex_world :: 'w
  ex_queues :: "queue_ref \<Rightarrow> SJQ"
  ex_threads :: "Threads list"
  ex_class_map :: "string \<rightharpoonup> int"
  ex_class_to_queue :: "int \<rightharpoonup> queue_ref"
  ex_num_classes :: int
  ex_scheduled_start_index :: int
  ex_num_scheduled_job_classes :: int
  ex_all_jobs :: "(string \<times> job_ptr) list"
  ex_all_tagged_jobs :: "(string \<times> job_ptr) list"
  ex_all_jobs_vector :: "job_ptr list"
  ex_num_all_jobs :: nat
  ex_all_jobs_for_checkpoint :: "JobData list option"
  ex_sim_objects :: "so_ptr list"
  ex_num_sim_objects :: int
  ex_advance_sim_time_job :: "job_ptr option"
  ex_freeze_job :: "job_ptr option"
  ex_curr_job :: "job_ptr option"
  ex_mode :: SIM_MODE
  ex_exec_command :: SIM_COMMAND
  ex_enable_freeze :: bool
  ex_async_freeze_command :: bool
  ex_freeze_command :: bool
  ex_freeze_on_frame_boundary :: bool
  ex_restart_called :: bool
  ex_initialization_complete :: bool
  ex_rt_nap :: bool
  ex_software_frame :: rat
  ex_software_frame_tics :: int
  ex_frame_count :: int
  ex_next_frame_check_tics :: int
  ex_freeze_frame :: rat
  ex_freeze_frame_tics :: int
  ex_freeze_frame_count :: int
  ex_freeze_time_tics :: int
  ex_next_freeze_frame_check_tics :: int
  ex_freeze_times :: "int list"
  ex_job_call_time_tics :: int
  ex_sim_start :: rat
  ex_terminate_time :: int
  ex_time_last_pass_tics :: int
  ex_time_tics :: int
  ex_time_tic_value :: int
  ex_old_time_tic_value :: int
  ex_except_return :: int
  ex_except_file :: string
  ex_except_message :: string

text \<open>What a job's generated code may do: change the executive itself.\<close>

type_synonym 'w exec_call = "'w Executive call_fn"

subsection \<open>The constructor\<close>

definition initial_class_map :: "string \<rightharpoonup> int" where
  "initial_class_map =
     [''default_data'' \<mapsto> 0, ''input_processor'' \<mapsto> 1, ''initialization'' \<mapsto> 2,
      ''input_processor_run'' \<mapsto> 3, ''system_thread_sync'' \<mapsto> 4, ''top_of_frame'' \<mapsto> 5,
      ''end_of_frame'' \<mapsto> 6, ''shutdown'' \<mapsto> 7, ''freeze_init'' \<mapsto> 8,
      ''freeze_scheduled'' \<mapsto> 9, ''freeze_automatic'' \<mapsto> 10, ''freeze'' \<mapsto> 11,
      ''unfreeze'' \<mapsto> 12, ''exec_time_tic_changed'' \<mapsto> 13]"

definition initial_class_to_queue :: "int \<rightharpoonup> queue_ref" where
  "initial_class_to_queue =
     [0 \<mapsto> Q_default_data, 1 \<mapsto> Q_input_processor, 2 \<mapsto> Q_initialization,
      3 \<mapsto> Q_input_processor_run, 4 \<mapsto> Q_thread_sync, 5 \<mapsto> Q_top_of_frame,
      6 \<mapsto> Q_end_of_frame, 7 \<mapsto> Q_shutdown, 8 \<mapsto> Q_freeze_init,
      9 \<mapsto> Q_freeze_scheduled, 10 \<mapsto> Q_freeze_scheduled, 11 \<mapsto> Q_freeze,
      12 \<mapsto> Q_unfreeze, 13 \<mapsto> Q_time_tic_changed]"

text \<open>
  \<open>Executive::Executive()\<close>. The stores and the rest of the simulation are those the program
  starts with.
\<close>

definition new_Executive :: "job_heap \<Rightarrow> so_heap \<Rightarrow> 'w \<Rightarrow> 'w Executive" where
  "new_Executive jobs objs wld =
     \<lparr>ex_jobs = jobs, ex_sim_objs = objs, ex_world = wld,
      ex_queues = (\<lambda>_. new_ScheduledJobQueue), ex_threads = [],
      ex_class_map = initial_class_map, ex_class_to_queue = initial_class_to_queue,
      ex_num_classes = 14, ex_scheduled_start_index = 1000, ex_num_scheduled_job_classes = 0,
      ex_all_jobs = [], ex_all_tagged_jobs = [], ex_all_jobs_vector = [],
      ex_num_all_jobs = 0, ex_all_jobs_for_checkpoint = None, ex_sim_objects = [], ex_num_sim_objects = 0,
      ex_advance_sim_time_job = None, ex_freeze_job = None, ex_curr_job = None,
      ex_mode = Initialization, ex_exec_command = NoCmd, ex_enable_freeze = False,
      ex_async_freeze_command = False, ex_freeze_command = False,
      ex_freeze_on_frame_boundary = False, ex_restart_called = False,
      ex_initialization_complete = False, ex_rt_nap = True,
      ex_software_frame = 1, ex_software_frame_tics = c_trunc (dmul 1 (dbl 1000000)),
      ex_frame_count = 0, ex_next_frame_check_tics = c_trunc (dmul 1 (dbl 1000000)),
      ex_freeze_frame = 1, ex_freeze_frame_tics = c_trunc (dmul 1 (dbl 1000000)),
      ex_freeze_frame_count = 0, ex_freeze_time_tics = 0,
      ex_next_freeze_frame_check_tics = c_trunc (dmul 1 (dbl 1000000)), ex_freeze_times = [],
      ex_job_call_time_tics = 0, ex_sim_start = 0, ex_terminate_time = TRICK_MAX_LONG_LONG - 1,
      ex_time_last_pass_tics = 0, ex_time_tics = 0, ex_time_tic_value = 1000000,
      ex_old_time_tic_value = 1000000, ex_except_return = 0, ex_except_file = [],
      ex_except_message = []\<rparr>"

subsection \<open>Queues and threads of the state\<close>

text \<open>
  Reading a queue through its reference. A thread's queue is reached only for a thread that
  exists; \<open>has_queue\<close> says so, and every caller below checks or ensures it.
\<close>

fun has_queue :: "queue_ref \<Rightarrow> 'w Executive \<Rightarrow> bool" where
  "has_queue (Q_thread_job i) e = (i < length (ex_threads e))"
| "has_queue (Q_thread_top i) e = (i < length (ex_threads e))"
| "has_queue (Q_thread_end i) e = (i < length (ex_threads e))"
| "has_queue _ e = True"

fun get_q :: "queue_ref \<Rightarrow> 'w Executive \<Rightarrow> SJQ" where
  "get_q (Q_thread_job i) e = th_job_queue (ex_threads e ! i)"
| "get_q (Q_thread_top i) e = th_top_of_frame_queue (ex_threads e ! i)"
| "get_q (Q_thread_end i) e = th_end_of_frame_queue (ex_threads e ! i)"
| "get_q r e = ex_queues e r"

fun set_q :: "queue_ref \<Rightarrow> SJQ \<Rightarrow> 'w Executive \<Rightarrow> 'w Executive" where
  "set_q (Q_thread_job i) q e =
     e\<lparr>ex_threads := (ex_threads e)[i := (ex_threads e ! i)\<lparr>th_job_queue := q\<rparr>]\<rparr>"
| "set_q (Q_thread_top i) q e =
     e\<lparr>ex_threads := (ex_threads e)[i := (ex_threads e ! i)\<lparr>th_top_of_frame_queue := q\<rparr>]\<rparr>"
| "set_q (Q_thread_end i) q e =
     e\<lparr>ex_threads := (ex_threads e)[i := (ex_threads e ! i)\<lparr>th_end_of_frame_queue := q\<rparr>]\<rparr>"
| "set_q r q e = e\<lparr>ex_queues := (ex_queues e)(r := q)\<rparr>"

definition map_q :: "queue_ref \<Rightarrow> (SJQ \<Rightarrow> SJQ) \<Rightarrow> 'w Executive \<Rightarrow> 'w Executive" where
  "map_q r f e = set_q r (f (get_q r e)) e"

definition map_job :: "job_ptr \<Rightarrow> (JobData \<Rightarrow> JobData) \<Rightarrow> 'w Executive \<Rightarrow> 'w Executive" where
  "map_job j f e = e\<lparr>ex_jobs := (ex_jobs e)(j := f (ex_jobs e j))\<rparr>"

definition map_thread :: "nat \<Rightarrow> (Threads \<Rightarrow> Threads) \<Rightarrow> 'w Executive \<Rightarrow> 'w Executive" where
  "map_thread i f e = e\<lparr>ex_threads := (ex_threads e)[i := f (ex_threads e ! i)]\<rparr>"

text \<open>\<open>queue.push(job)\<close> on a queue of the executive.\<close>

definition push_q :: "queue_ref \<Rightarrow> job_ptr \<Rightarrow> 'w Executive \<Rightarrow> 'w Executive" where
  "push_q r j e =
     (let (h, q) = push (ex_jobs e) (get_q r e) j in set_q r q (e\<lparr>ex_jobs := h\<rparr>))"

definition remove_q :: "queue_ref \<Rightarrow> job_ptr \<Rightarrow> 'w Executive \<Rightarrow> 'w Executive" where
  "remove_q r j e = map_q r (\<lambda>q. snd (queue_remove q j)) e"

lemma get_set_q [simp]: "has_queue r e \<Longrightarrow> get_q r (set_q r q e) = q"
  by (cases r) simp_all

lemma get_set_q_other [simp]: "r \<noteq> s \<Longrightarrow> get_q r (set_q s q e) = get_q r e"
  by (cases r; cases s) (auto simp: nth_update)

lemma has_queue_set_q [simp]: "has_queue r (set_q s q e) = has_queue r e"
  by (cases r; cases s) simp_all

lemma set_q_fields [simp]:
  "ex_jobs (set_q r q e) = ex_jobs e"
  "ex_sim_objs (set_q r q e) = ex_sim_objs e"
  "ex_world (set_q r q e) = ex_world e"
  "ex_all_jobs (set_q r q e) = ex_all_jobs e"
  "ex_all_jobs_vector (set_q r q e) = ex_all_jobs_vector e"
  "ex_all_tagged_jobs (set_q r q e) = ex_all_tagged_jobs e"
  "ex_class_map (set_q r q e) = ex_class_map e"
  "ex_class_to_queue (set_q r q e) = ex_class_to_queue e"
  "ex_scheduled_start_index (set_q r q e) = ex_scheduled_start_index e"
  "ex_time_tics (set_q r q e) = ex_time_tics e"
  "ex_time_tic_value (set_q r q e) = ex_time_tic_value e"
  "ex_time_last_pass_tics (set_q r q e) = ex_time_last_pass_tics e"
  "ex_next_frame_check_tics (set_q r q e) = ex_next_frame_check_tics e"
  "ex_software_frame_tics (set_q r q e) = ex_software_frame_tics e"
  "ex_terminate_time (set_q r q e) = ex_terminate_time e"
  "ex_exec_command (set_q r q e) = ex_exec_command e"
  "ex_mode (set_q r q e) = ex_mode e"
  "ex_frame_count (set_q r q e) = ex_frame_count e"
  "ex_curr_job (set_q r q e) = ex_curr_job e"
  "ex_advance_sim_time_job (set_q r q e) = ex_advance_sim_time_job e"
  "ex_freeze_times (set_q r q e) = ex_freeze_times e"
  "length (ex_threads (set_q r q e)) = length (ex_threads e)"
  by (cases r; simp)+

text \<open>Changing jobs or a plain member leaves the queues alone.\<close>

lemma get_q_cong: "ex_queues e' = ex_queues e \<Longrightarrow> ex_threads e' = ex_threads e \<Longrightarrow> get_q r e' = get_q r e"
  by (cases r) simp_all

lemma has_queue_cong: "length (ex_threads e') = length (ex_threads e) \<Longrightarrow> has_queue r e' = has_queue r e"
  by (cases r) simp_all

lemma get_q_jobs [simp]:
  "get_q r (e\<lparr>ex_jobs := h\<rparr>) = get_q r e" "has_queue r (e\<lparr>ex_jobs := h\<rparr>) = has_queue r e"
  "get_q r (e\<lparr>ex_curr_job := jo\<rparr>) = get_q r e" "has_queue r (e\<lparr>ex_curr_job := jo\<rparr>) = has_queue r e"
  "get_q r (map_job j f e) = get_q r e" "has_queue r (map_job j f e) = has_queue r e"
  by (cases r; simp add: map_job_def)+

lemma set_q_jobs: "set_q r q (e\<lparr>ex_jobs := h\<rparr>) = (set_q r q e)\<lparr>ex_jobs := h\<rparr>"
  by (cases r) simp_all

lemma push_q_simps [queue_simps]:
  "ex_jobs (push_q r j e) = (ex_jobs e)(j := JobData_set_handled True (ex_jobs e j))"
  "has_queue r e \<Longrightarrow> get_q r (push_q r j e) = snd (push (ex_jobs e) (get_q r e) j)"
  "r \<noteq> s \<Longrightarrow> get_q r (push_q s j e) = get_q r e"
  "has_queue r (push_q s j e) = has_queue r e"
  "length (ex_threads (push_q s j e)) = length (ex_threads e)"
  by (simp_all add: push_q_def push_def Let_def)

end
