(* ===== verification/ExecControl.thy ===== *)
theory ExecControl
  imports ExecState
begin

text \<open>
  The commands by which the input file, the variable server and the jobs steer
  \<open>Trick::Executive\<close>: time settings, mode commands, freeze times, switching jobs and simulation
  objects on and off, job cycles, thread settings. A function that can fail with undefined
  behaviour (a division by a zero tic value or cycle) returns a result; the others return the
  code's \<open>int\<close> and the new state. Messages (\<open>message_publish\<close>) are output and not modelled.
\<close>

subsection \<open>Get functions with a computation\<close>

definition get_sim_object_by_name :: "'w Executive \<Rightarrow> string \<Rightarrow> so_ptr option" where
  "get_sim_object_by_name e sim_object_name =
     List.find (\<lambda>so. so_name (ex_sim_objs e so) = sim_object_name) (ex_sim_objects e)"

definition get_thread :: "'w Executive \<Rightarrow> nat \<Rightarrow> Threads option" where
  "get_thread e thread_id =
     (if thread_id < length (ex_threads e) then Some (ex_threads e ! thread_id) else None)"

definition get_thread_amf_cycle_time :: "'w Executive \<Rightarrow> nat \<Rightarrow> rat" where
  "get_thread_amf_cycle_time e thread_id =
     (if thread_id < length (ex_threads e) then th_amf_cycle (ex_threads e ! thread_id) else -1)"

text \<open>\<open>terminate_time / time_tic_value\<close> divides integers before the conversion to \<open>double\<close>.\<close>

definition get_terminate_time :: "'w Executive \<Rightarrow> abort + rat" where
  "get_terminate_time e =
     (if ex_time_tic_value e = 0 then Inl (Undefined ''terminate_time / 0'')
      else Inr (dbl (ex_terminate_time e sdiv ex_time_tic_value e)))"

text \<open>\<open>std::multimap::equal_range\<close>: the entries of a key, in the order of their insertion.\<close>

definition equal_range :: "'k \<Rightarrow> ('k \<times> 'v) list \<Rightarrow> 'v list" where
  "equal_range k m = map snd (filter (\<lambda>p. fst p = k) m)"

text \<open>The walk to the \<open>j_instance\<close>-th entry: it stops early at the end of the range.\<close>

fun nth_instance :: "job_ptr list \<Rightarrow> nat \<Rightarrow> nat \<Rightarrow> job_ptr option" where
  "nth_instance [] ii j_instance = None"
| "nth_instance (j # js) ii j_instance =
     (if ii < j_instance then nth_instance js (Suc ii) j_instance else Some j)"

definition get_job :: "'w Executive \<Rightarrow> string \<Rightarrow> nat \<Rightarrow> job_ptr option" where
  "get_job e job_name j_instance = nth_instance (equal_range job_name (ex_all_jobs e)) 1 j_instance"

definition get_job_cycle :: "'w Executive \<Rightarrow> string \<Rightarrow> abort + rat" where
  "get_job_cycle e job_name =
     (if job_name = [] then
        (case ex_curr_job e of None \<Rightarrow> Inl (Undefined ''NULL curr_job'')
         | Some j \<Rightarrow> Inr (jd_cycle (ex_jobs e j)))
      else (case get_job e job_name 1 of Some j \<Rightarrow> Inr (jd_cycle (ex_jobs e j)) | None \<Rightarrow> Inr 0))"

subsection \<open>Times\<close>

text \<open>Loops over \<open>all_jobs_vector\<close>.\<close>

definition reset_job_cycle_times :: "'w Executive \<Rightarrow> 'w Executive" where
  "reset_job_cycle_times e =
     e\<lparr>ex_jobs := update_jobs (calc_cycle_tics (ex_time_tic_value e)) (ex_all_jobs_vector e) (ex_jobs e)\<rparr>"

definition reset_call_time :: "int \<Rightarrow> int \<Rightarrow> int \<Rightarrow> JobData \<Rightarrow> JobData" where
  "reset_call_time old_tic_value tic_value time_tics j =
     (let j1 = j\<lparr>jd_start_tics := rescale_tics (jd_start_tics j) old_tic_value tic_value + time_tics\<rparr>
      in if \<not> jd_disabled j1 \<and>
            (\<not> jd_system_job_class j1 \<or> jd_job_class_name j1 = ''system_advance_sim_time'') then
           (if jd_job_class_name j1 = ''integ_loop''
            then j1\<lparr>jd_next_tics := jd_cycle_tics j1 + jd_start_tics j1\<rparr>
            else j1\<lparr>jd_next_tics := jd_start_tics j1\<rparr>)
         else j1)"

definition reset_job_call_times :: "'w Executive \<Rightarrow> abort + 'w Executive" where
  "reset_job_call_times e =
     (if ex_old_time_tic_value e = 0 \<and> ex_all_jobs_vector e \<noteq> []
      then Inl (Undefined ''start_tics / 0'')
      else Inr (e\<lparr>ex_jobs :=
             update_jobs (reset_call_time (ex_old_time_tic_value e) (ex_time_tic_value e) (ex_time_tics e))
               (ex_all_jobs_vector e) (ex_jobs e)\<rparr>))"

definition set_freeze_frame :: "rat \<Rightarrow> 'w Executive \<Rightarrow> int \<times> 'w Executive" where
  "set_freeze_frame in_frame e =
     (0, e\<lparr>ex_freeze_frame := in_frame,
           ex_freeze_frame_tics := c_trunc (dmul in_frame (dbl (ex_time_tic_value e)))\<rparr>)"

definition set_software_frame :: "rat \<Rightarrow> 'w Executive \<Rightarrow> int \<times> 'w Executive" where
  "set_software_frame in_frame e =
     (let tics = c_trunc (dmul in_frame (dbl (ex_time_tic_value e)))
      in (0, e\<lparr>ex_software_frame := in_frame, ex_software_frame_tics := tics,
               ex_next_frame_check_tics :=
                 c_trunc (dadd (dmul (ex_sim_start e) (dbl (ex_time_tic_value e))) (dbl tics))\<rparr>))"

definition set_terminate_time :: "rat \<Rightarrow> 'w Executive \<Rightarrow> int \<times> 'w Executive" where
  "set_terminate_time in_time e =
     (0, e\<lparr>ex_terminate_time := c_trunc (dmul in_time (dbl (ex_time_tic_value e)))\<rparr>)"

definition set_time :: "rat \<Rightarrow> 'w Executive \<Rightarrow> abort + int \<times> 'w Executive" where
  "set_time in_time e =
     (let tics = c_trunc (dmul in_time (dbl (ex_time_tic_value e)));
          e1 = e\<lparr>ex_time_tics := tics,
                 ex_threads := map (\<lambda>th. th\<lparr>th_curr_time_tics := tics\<rparr>) (ex_threads e)\<rparr>
      in case reset_job_call_times e1 of Inl a \<Rightarrow> Inl a | Inr e2 \<Rightarrow> Inr (0, e2))"

definition set_time_tics :: "int \<Rightarrow> 'w Executive \<Rightarrow> abort + int \<times> 'w Executive" where
  "set_time_tics in_tics e =
     (case reset_job_call_times (e\<lparr>ex_time_tics := in_tics\<rparr>) of Inl a \<Rightarrow> Inl a | Inr e2 \<Rightarrow> Inr (0, e2))"

subsection \<open>Modes and freeze times\<close>

definition exec_run :: "'w Executive \<Rightarrow> int \<times> 'w Executive" where
  "exec_run e = (0, e\<lparr>ex_exec_command := RunCmd\<rparr>)"

definition exec_stop :: "'w Executive \<Rightarrow> int \<times> 'w Executive" where
  "exec_stop e = (0, e\<lparr>ex_exec_command := ExitCmd\<rparr>)"

definition exec_stop_at :: "rat \<Rightarrow> 'w Executive \<Rightarrow> int \<times> 'w Executive" where
  "exec_stop_at in_time e = (0, snd (set_terminate_time in_time e))"

text \<open>\<open>exec_terminate\<close> sets the command and throws.\<close>

definition exec_terminate :: "string \<Rightarrow> string \<Rightarrow> 'w Executive \<Rightarrow> (int, 'w Executive) result" where
  "exec_terminate file_name error e =
     Some (Inl (mk_ExecutiveException (-1) file_name 0 error), e\<lparr>ex_exec_command := ExitCmd\<rparr>)"

definition get_freeze_job :: "string \<Rightarrow> 'w Executive \<Rightarrow> (int, 'w Executive) result" where
  "get_freeze_job sim_object_name e =
     (let e1 = e\<lparr>ex_freeze_job := get_job e (sim_object_name @ ''.sched_freeze_to_exec_command'') 1\<rparr>
      in case ex_freeze_job e1 of
           None \<Rightarrow> Some (Inl (mk_ExecutiveException (-1) ''Executive_freeze.cpp'' 13
                             ''Executive could not find freeze job''), e1)
         | Some fj \<Rightarrow> Some (Inr 0, map_job fj (\<lambda>j. j\<lparr>jd_next_tics := TRICK_MAX_LONG_LONG\<rparr>) e1))"

definition exec_freeze :: "'w Executive \<Rightarrow> int \<times> 'w Executive" where
  "exec_freeze e = (0, e\<lparr>ex_async_freeze_command := True\<rparr>)"

text \<open>\<open>freeze_times\<close> is a priority queue with the least time on top: an ascending list.\<close>

definition exec_freeze_at :: "rat \<Rightarrow> 'w Executive \<Rightarrow> abort + int \<times> 'w Executive" where
  "exec_freeze_at in_time e =
     (let new_time = c_trunc (dmul in_time (dbl (ex_time_tic_value e)))
      in if ex_time_tics e < new_time then
           (let e1 = e\<lparr>ex_freeze_times := insort new_time (ex_freeze_times e)\<rparr>
            in case ex_freeze_job e1 of
                 None \<Rightarrow> Inl (Undefined ''NULL freeze_job'')
               | Some fj \<Rightarrow>
                   Inr (0, if new_time < jd_next_tics (ex_jobs e1 fj)
                           then map_job fj (\<lambda>j. j\<lparr>jd_next_tics := new_time\<rparr>) e1 else e1))
         else Inr (0, e))"

definition async_freeze_to_exec_command :: "'w Executive \<Rightarrow> int \<times> 'w Executive" where
  "async_freeze_to_exec_command e =
     (0, if ex_async_freeze_command e
         then e\<lparr>ex_exec_command := FreezeCmd, ex_async_freeze_command := False\<rparr> else e)"

text \<open>The loop that pops the times up to now; the command is set once for every time popped.\<close>

fun pop_freeze_times :: "int \<Rightarrow> int list \<Rightarrow> SIM_COMMAND \<Rightarrow> int list \<times> SIM_COMMAND" where
  "pop_freeze_times now [] cmd = ([], cmd)"
| "pop_freeze_times now (t # ts) cmd =
     (if t \<le> now then pop_freeze_times now ts FreezeCmd else (t # ts, cmd))"

definition sched_freeze_to_exec_command :: "bool \<Rightarrow> 'w Executive \<Rightarrow> int \<times> 'w Executive" where
  "sched_freeze_to_exec_command end_of_frame e =
     (0, if end_of_frame \<or> \<not> ex_freeze_on_frame_boundary e then
           (let (ts, cmd) = pop_freeze_times (ex_time_tics e) (ex_freeze_times e) (ex_exec_command e);
                e1 = e\<lparr>ex_freeze_times := ts, ex_exec_command := cmd\<rparr>
            in case ex_freeze_job e1 of
                 None \<Rightarrow> e1
               | Some fj \<Rightarrow>
                   map_job fj (\<lambda>j. j\<lparr>jd_next_tics := (case ts of [] \<Rightarrow> TRICK_MAX_LONG_LONG | t # _ \<Rightarrow> t)\<rparr>) e1)
         else e)"

subsection \<open>Switching jobs and simulation objects\<close>

definition set_job_onoff :: "string \<Rightarrow> nat \<Rightarrow> int \<Rightarrow> 'w Executive \<Rightarrow> int \<times> 'w Executive" where
  "set_job_onoff job_name instance_num on e =
     (case get_job e job_name instance_num of
        Some job \<Rightarrow> (0, map_job job (\<lambda>j. j\<lparr>jd_disabled := (on = 0)\<rparr>) e)
      | None \<Rightarrow>
          (let range = equal_range job_name (ex_all_tagged_jobs e)
           in if range \<noteq> [] then
                (0, e\<lparr>ex_jobs := update_jobs (\<lambda>j. j\<lparr>jd_disabled := (on = 0)\<rparr>) range (ex_jobs e)\<rparr>)
              else (-1, e)))"

definition set_sim_object_jobs_onoff :: "string \<Rightarrow> int \<Rightarrow> 'w Executive \<Rightarrow> int \<times> 'w Executive" where
  "set_sim_object_jobs_onoff sim_object_name on e =
     (case get_sim_object_by_name e sim_object_name of
        None \<Rightarrow> (-1, e)
      | Some so \<Rightarrow>
          (0, e\<lparr>ex_jobs := (if on \<noteq> 0 then enable_all_jobs (ex_sim_objs e so) (ex_jobs e)
                            else disable_all_jobs (ex_sim_objs e so) (ex_jobs e))\<rparr>))"

fun restore_states :: "(job_ptr \<rightharpoonup> bool) \<Rightarrow> job_ptr list \<Rightarrow> job_heap \<Rightarrow> job_heap" where
  "restore_states saved [] h = h"
| "restore_states saved (j # js) h =
     restore_states saved js
       (h(j := (h j)\<lparr>jd_disabled := (case saved j of Some b \<Rightarrow> b | None \<Rightarrow> False)\<rparr>))"

fun save_states :: "job_ptr list \<Rightarrow> (job_ptr \<rightharpoonup> bool) \<Rightarrow> job_heap \<Rightarrow> (job_ptr \<rightharpoonup> bool) \<times> job_heap" where
  "save_states [] saved h = (saved, h)"
| "save_states (j # js) saved h =
     save_states js (saved(j \<mapsto> jd_disabled (h j))) (h(j := (h j)\<lparr>jd_disabled := True\<rparr>))"

definition set_sim_object_onoff :: "string \<Rightarrow> int \<Rightarrow> 'w Executive \<Rightarrow> int \<times> 'w Executive" where
  "set_sim_object_onoff sim_object_name on e =
     (case get_sim_object_by_name e sim_object_name of
        None \<Rightarrow> (-1, e)
      | Some so \<Rightarrow>
          (let sim_object = (ex_sim_objs e so)\<lparr>so_object_disabled := (on = 0)\<rparr>
           in if on \<noteq> 0 then
                (0, e\<lparr>ex_jobs := restore_states (so_saved_job_states sim_object) (so_jobs sim_object) (ex_jobs e),
                      ex_sim_objs := (ex_sim_objs e)(so := sim_object\<lparr>so_saved_job_states := Map.empty\<rparr>)\<rparr>)
              else
                (let (saved, h) = save_states (so_jobs sim_object) (so_saved_job_states sim_object) (ex_jobs e)
                 in (0, e\<lparr>ex_jobs := h,
                          ex_sim_objs := (ex_sim_objs e)(so := sim_object\<lparr>so_saved_job_states := saved\<rparr>)\<rparr>))))"

definition get_sim_object_onoff :: "string \<Rightarrow> 'w Executive \<Rightarrow> int" where
  "get_sim_object_onoff sim_object_name e =
     (case get_sim_object_by_name e sim_object_name of
        None \<Rightarrow> -1
      | Some so \<Rightarrow> (if so_object_disabled (ex_sim_objs e so) then 0 else 1))"

subsection \<open>Job cycles and dependencies\<close>

definition set_cycle_and_next :: "int \<Rightarrow> int \<Rightarrow> rat \<Rightarrow> JobData \<Rightarrow> abort + JobData" where
  "set_cycle_and_next tic_value time_tics in_cycle j =
     JobData_set_next_call_time time_tics (JobData_set_cycle tic_value in_cycle j)"

fun set_cycles :: "int \<Rightarrow> int \<Rightarrow> rat \<Rightarrow> job_ptr list \<Rightarrow> job_heap \<Rightarrow> abort + job_heap" where
  "set_cycles tic_value time_tics in_cycle [] h = Inr h"
| "set_cycles tic_value time_tics in_cycle (j # js) h =
     (case set_cycle_and_next tic_value time_tics in_cycle (h j) of
        Inl a \<Rightarrow> Inl a
      | Inr j' \<Rightarrow> set_cycles tic_value time_tics in_cycle js (h(j := j')))"

definition set_job_cycle :: "string \<Rightarrow> nat \<Rightarrow> rat \<Rightarrow> 'w Executive \<Rightarrow> abort + int \<times> 'w Executive" where
  "set_job_cycle job_name instance_num in_cycle e =
     (if in_cycle < 0 then Inr (-1, e)
      else
        (let range = equal_range job_name (ex_all_tagged_jobs e);
             jobs = (case get_job e job_name instance_num of Some job \<Rightarrow> [job] | None \<Rightarrow> range)
         in if jobs = [] then Inr (-2, e)
            else (case set_cycles (ex_time_tic_value e) (ex_time_tics e) in_cycle jobs (ex_jobs e) of
                    Inl a \<Rightarrow> Inl a
                  | Inr h \<Rightarrow> Inr (0, e\<lparr>ex_jobs := h\<rparr>))))"

definition add_depends_on_job ::
  "string \<Rightarrow> nat \<Rightarrow> string \<Rightarrow> nat \<Rightarrow> 'w Executive \<Rightarrow> int \<times> 'w Executive" where
  "add_depends_on_job target_job_string t_instance depend_job_string d_instance e =
     (case get_job e target_job_string t_instance of
        None \<Rightarrow> (-1, e)
      | Some target_job \<Rightarrow>
          (case get_job e depend_job_string d_instance of
             None \<Rightarrow> (-2, e)
           | Some depend_job \<Rightarrow>
               (if jd_thread (ex_jobs e target_job) = jd_thread (ex_jobs e depend_job) then (-3, e)
                else (0, map_job target_job (add_depend depend_job) e))))"

definition add_scheduled_job_class :: "string \<Rightarrow> 'w Executive \<Rightarrow> int \<times> 'w Executive" where
  "add_scheduled_job_class in_name e =
     (if in_name = [] then (-1, e)
      else (case ex_class_map e in_name of
              None \<Rightarrow>
                (let index = ex_scheduled_start_index e + ex_num_scheduled_job_classes e
                 in (0, e\<lparr>ex_num_scheduled_job_classes := ex_num_scheduled_job_classes e + 1,
                          ex_class_map := (ex_class_map e)(in_name \<mapsto> index),
                          ex_class_to_queue := (ex_class_to_queue e)(index \<mapsto> Q_scheduled)\<rparr>))
            | Some _ \<Rightarrow> (0, e)))"

subsection \<open>Thread settings\<close>

text \<open>
  \<open>(thread_id + 1) > threads.size()\<close> is an \<open>unsigned int\<close> sum: for the largest
  \<open>thread_id\<close> it wraps to 0, the test passes and the thread vector is read out of range.
\<close>

definition on_thread ::
  "nat \<Rightarrow> (Threads \<Rightarrow> int \<times> Threads) \<Rightarrow> 'w Executive \<Rightarrow> abort + int \<times> 'w Executive" where
  "on_thread thread_id f e =
     (if length (ex_threads e) < inc_u32 thread_id then Inr (-2, e)
      else if thread_id < length (ex_threads e) then
        (let (ret, th) = f (ex_threads e ! thread_id) in Inr (ret, map_thread thread_id (\<lambda>_. th) e))
      else Inl (Undefined ''threads[thread_id]''))"

definition set_thread_amf_cycle_time :: "nat \<Rightarrow> rat \<Rightarrow> 'w Executive \<Rightarrow> abort + int \<times> 'w Executive" where
  "set_thread_amf_cycle_time thread_id cycle_time e =
     (if thread_id = 0 then Inr (-2, e)
      else on_thread thread_id (Threads_set_amf_cycle cycle_time (ex_time_tic_value e)) e)"

definition set_thread_async_wait :: "nat \<Rightarrow> bool \<Rightarrow> 'w Executive \<Rightarrow> abort + int \<times> 'w Executive" where
  "set_thread_async_wait thread_id yes_no e =
     (if thread_id = 0 then Inr (-2, e)
      else on_thread thread_id (Threads_set_async_wait (if yes_no then 1 else 0)) e)"

definition set_thread_enabled :: "nat \<Rightarrow> bool \<Rightarrow> 'w Executive \<Rightarrow> abort + int \<times> 'w Executive" where
  "set_thread_enabled thread_id in_enabled e =
     (if thread_id = 0 then Inr (-2, e)
      else on_thread thread_id (\<lambda>th. (0, Threads_set_enabled in_enabled th)) e)"

definition set_thread_process_type :: "nat \<Rightarrow> int \<Rightarrow> 'w Executive \<Rightarrow> abort + int \<times> 'w Executive" where
  "set_thread_process_type thread_id process_type e =
     (if thread_id = 0 then Inr (-2, e)
      else on_thread thread_id (Threads_set_process_type process_type) e)"

end
