(* ===== verification/ExecJobs.thy ===== *)
theory ExecJobs
  imports ExecControl
begin

text \<open>
  How jobs enter and leave the scheduler: \<open>add_sim_object\<close>, \<open>add_jobs_to_queue\<close>,
  \<open>add_job_to_queue\<close>, \<open>delete_sim_object\<close>, \<open>remove_jobs\<close>, the checks made at
  initialization, and instrumentation (sim\_services/Executive/Executive\_add\_*.cpp,
  \_remove\_*.cpp, \_check\_*.cpp, \_instrument\_job.cpp).

  The schedulers registered with \<open>register_scheduler\<close> are objects of other classes, called through
  virtual functions: \<open>others\<close> lists the functions a call reaches, in the order of registration.
  The default operations they inherit are in the theory Scheduler.
\<close>

subsection \<open>Adding jobs\<close>

definition register_job :: "job_ptr \<Rightarrow> 'w Executive \<Rightarrow> 'w Executive" where
  "register_job job e =
     e\<lparr>ex_all_jobs := ex_all_jobs e @ [(jd_name (ex_jobs e job), job)],
       ex_all_jobs_vector := ex_all_jobs_vector e @ [job],
       ex_all_tagged_jobs := ex_all_tagged_jobs e @ map (\<lambda>tag. (tag, job)) (jd_tags (ex_jobs e job))\<rparr>"

definition add_job_to_queue :: "job_ptr \<Rightarrow> 'w Executive \<Rightarrow> int \<times> 'w Executive" where
  "add_job_to_queue job e =
     (let e1 = register_job job e
      in case ex_class_map e1 (jd_job_class_name (ex_jobs e1 job)) of
           None \<Rightarrow> (-1, e1)
         | Some class_id \<Rightarrow>
             (let e2 = map_job job (\<lambda>j. j\<lparr>jd_job_class := class_id\<rparr>) e1;
                  j = ex_jobs e2 job
              in if jd_thread j \<noteq> 0 then
                   (if ex_scheduled_start_index e2 \<le> jd_job_class j then
                      (0, push_q Q_scheduled job (push_q (Q_thread_job (jd_thread j)) job e2))
                    else if jd_job_class_name j = ''top_of_frame'' then
                      (0, push_q (Q_thread_top (jd_thread j)) job e2)
                    else if jd_job_class_name j = ''end_of_frame'' then
                      (0, push_q (Q_thread_end (jd_thread j)) job e2)
                    else (case ex_class_to_queue e2 (jd_job_class j) of
                            Some curr_queue \<Rightarrow> (0, push_q curr_queue job e2)
                          | None \<Rightarrow> (-1, e2)))
                 else
                   (if ex_scheduled_start_index e2 \<le> jd_job_class j then
                      (0, push_q Q_scheduled job (push_q (Q_thread_job 0) job e2))
                    else (case ex_class_to_queue e2 (jd_job_class j) of
                            Some curr_queue \<Rightarrow> (0, push_q curr_queue job e2)
                          | None \<Rightarrow> (-1, e2)))))"

text \<open>The system and automatic jobs, which schedule themselves.\<close>

definition is_system_class :: "string \<Rightarrow> bool" where
  "is_system_class c \<longleftrightarrow>
     has_prefix ''system_'' c \<or> has_prefix ''automatic'' c \<or> c = ''input_processor_run'' \<or>
     c = ''freeze_automatic''"

text \<open>The loop that creates the threads up to the job's thread number.\<close>

definition ensure_threads :: "nat \<Rightarrow> bool \<Rightarrow> Threads list \<Rightarrow> Threads list" where
  "ensure_threads thread rt_nap threads =
     threads @ map (\<lambda>kk. new_Threads kk rt_nap) [length threads..<Suc thread]"

text \<open>The start, stop and next times of a scheduled job that is added for the first time.\<close>

definition init_job_times :: "int \<Rightarrow> int \<Rightarrow> rat \<Rightarrow> JobData \<Rightarrow> JobData" where
  "init_job_times tic_value time_tics max_time j0 =
     (let j1 = calc_cycle_tics tic_value j0;
          j2 = (if max_time < jd_start j1
                then j1\<lparr>jd_disabled := True, jd_start_tics := TRICK_MAX_LONG_LONG\<rparr>
                else j1\<lparr>jd_start_tics := c_trunc (dmul (jd_start j1) (dbl tic_value))\<rparr>);
          j3 = (if max_time < jd_stop j2 then j2\<lparr>jd_stop_tics := TRICK_MAX_LONG_LONG\<rparr>
                else if jd_stop j2 < jd_start j2 then j2\<lparr>jd_disabled := True\<rparr>
                else j2\<lparr>jd_stop_tics := c_trunc (dmul (jd_stop j2) (dbl tic_value))\<rparr>)
      in if \<not> jd_disabled j3 then
           (if jd_job_class_name j3 = ''integ_loop''
            then j3\<lparr>jd_next_tics := time_tics + jd_cycle_tics j3 + jd_start_tics j3\<rparr>
            else j3\<lparr>jd_next_tics := time_tics + jd_start_tics j3\<rparr>)
         else j3\<lparr>jd_next_tics := TRICK_MAX_LONG_LONG\<rparr>)"

text \<open>The first half of the loop body of \<open>add_jobs_to_queue\<close>: what is set before the job is queued.\<close>

definition adopt_job :: "so_ptr \<Rightarrow> bool \<Rightarrow> job_ptr \<Rightarrow> 'w Executive \<Rightarrow> 'w Executive" where
  "adopt_job so restart_flag job e =
     (let so_rec = ex_sim_objs e so;
          j0 = ex_jobs e job;
          j1 = j0\<lparr>jd_sim_object_id := so_id so_rec, jd_parent_object := Some so\<rparr>;
          j2 = (if \<not> restart_flag then j1\<lparr>jd_name := so_name so_rec @ ''.'' @ jd_name j1\<rparr> else j1);
          j3 = j2\<lparr>jd_frame_id :=
                 dadd (dbl (jd_sim_object_id j2)) (ddiv (dbl (jd_id j2)) 100)\<rparr>;
          j4 = (if is_system_class (jd_job_class_name j3) then set_system_job_class True j3 else j3);
          j5 = (if jd_job_class_name j4 = ''instrumentation'' \<or> jd_job_class_name j4 = ''malfunction''
                then JobData_set_handled True j4 else j4);
          is_adv = (jd_job_class_name j5 = ''system_advance_sim_time'');
          j6 = (if is_adv \<and> \<not> restart_flag then j5\<lparr>jd_next_tics := ex_time_tics e\<rparr> else j5)
      in e\<lparr>ex_jobs := (ex_jobs e)(job := j6),
           ex_advance_sim_time_job := (if is_adv then Some job else ex_advance_sim_time_job e),
           ex_threads := (if length (ex_threads e) < jd_thread j6 + 1
                          then ensure_threads (jd_thread j6) (ex_rt_nap e) (ex_threads e)
                          else ex_threads e)\<rparr>)"

definition add_one_job :: "so_ptr \<Rightarrow> bool \<Rightarrow> rat \<Rightarrow> job_ptr \<Rightarrow> 'w Executive \<Rightarrow> 'w Executive" where
  "add_one_job so restart_flag max_time job e =
     (let e1 = adopt_job so restart_flag job e;
          (ret, e2) = add_job_to_queue job e1;
          e3 = (if \<not> restart_flag \<and> ex_scheduled_start_index e2 \<le> jd_job_class (ex_jobs e2 job) \<and> ret = 0
                then map_job job (init_job_times (ex_time_tic_value e2) (ex_time_tics e2) max_time) e2
                else e2)
      in if jd_job_class_name (ex_jobs e3 job) = ''freeze_scheduled''
         then map_job job (\<lambda>j. (calc_cycle_tics (ex_time_tic_value e3) j)\<lparr>jd_stop_tics := TRICK_MAX_LONG_LONG\<rparr>) e3
         else e3)"

fun add_job_list :: "so_ptr \<Rightarrow> bool \<Rightarrow> rat \<Rightarrow> job_ptr list \<Rightarrow> 'w Executive \<Rightarrow> 'w Executive" where
  "add_job_list so restart_flag max_time [] e = e"
| "add_job_list so restart_flag max_time (j # js) e =
     add_job_list so restart_flag max_time js (add_one_job so restart_flag max_time j e)"

definition add_jobs_to_queue :: "so_ptr \<Rightarrow> bool \<Rightarrow> 'w Executive \<Rightarrow> (int, 'w Executive) result" where
  "add_jobs_to_queue so restart_flag e =
     (if ex_time_tic_value e = 0 then Some (Inl (Undefined ''TRICK_MAX_LONG_LONG / 0''), e)
      else Some (Inr 0, add_job_list so restart_flag
                          (dbl (TRICK_MAX_LONG_LONG sdiv ex_time_tic_value e))
                          (so_jobs (ex_sim_objs e so)) e))"

subsection \<open>Removing jobs\<close>

text \<open>The body of the last loop of \<open>remove_jobs\<close>: the job leaves the queues of its class.\<close>

definition remove_one_job :: "job_ptr \<Rightarrow> 'w Executive \<Rightarrow> 'w Executive" where
  "remove_one_job job e =
     (let j = ex_jobs e job
      in case ex_class_map e (jd_job_class_name j) of
           None \<Rightarrow> e
         | Some _ \<Rightarrow>
             if jd_thread j \<noteq> 0 then
               (if ex_scheduled_start_index e \<le> jd_job_class j then
                  remove_q Q_scheduled job (remove_q (Q_thread_job (jd_thread j)) job e)
                else if jd_job_class_name j = ''top_of_frame'' then remove_q (Q_thread_top (jd_thread j)) job e
                else if jd_job_class_name j = ''end_of_frame'' then remove_q (Q_thread_end (jd_thread j)) job e
                else (case ex_class_to_queue e (jd_job_class j) of
                        Some curr_queue \<Rightarrow> remove_q curr_queue job e | None \<Rightarrow> e))
             else
               (if ex_scheduled_start_index e \<le> jd_job_class j then
                  remove_q Q_scheduled job (remove_q (Q_thread_job 0) job e)
                else (case ex_class_to_queue e (jd_job_class j) of
                        Some curr_queue \<Rightarrow> remove_q curr_queue job e | None \<Rightarrow> e)))"

definition remove_jobs :: "so_ptr \<Rightarrow> 'w Executive \<Rightarrow> int \<times> 'w Executive" where
  "remove_jobs so e =
     (let keep = (\<lambda>j. jd_parent_object (ex_jobs e j) \<noteq> Some so);
          e1 = e\<lparr>ex_all_jobs := filter (\<lambda>p. keep (snd p)) (ex_all_jobs e),
                 ex_all_jobs_vector := filter keep (ex_all_jobs_vector e),
                 ex_all_tagged_jobs := filter (\<lambda>p. keep (snd p)) (ex_all_tagged_jobs e)\<rparr>
      in (0, fold remove_one_job (so_jobs (ex_sim_objs e so)) e1))"

subsection \<open>Checks at initialization\<close>

definition check_all_jobs_handled :: "'w Executive \<Rightarrow> int" where
  "check_all_jobs_handled e =
     int (length (filter (\<lambda>j. \<not> JobData_get_handled (ex_jobs e j))
       (concat (map (\<lambda>so. so_jobs (ex_sim_objs e so)) (ex_sim_objects e)))))"

text \<open>
  \<open>while (v % d == 0) v /= d\<close>. The loop does not end for \<open>v = 0\<close>, so it is a partial function;
  \<open>None\<close> is a loop that runs forever.
\<close>

partial_function (option) divide_out :: "int \<Rightarrow> int \<Rightarrow> int option" where
  "divide_out d v = (if v smod d = 0 then divide_out d (v sdiv d) else Some v)"

declare divide_out.simps [code]

text \<open>The first loop: a job whose cycle is below one tic is switched off.\<close>

definition check_short_cycle :: "int \<Rightarrow> JobData \<Rightarrow> JobData" where
  "check_short_cycle tic_value j =
     (if jd_cycle j < ddiv 1 (dbl tic_value)
      then j\<lparr>jd_disabled := True, jd_cycle_tics := TRICK_MAX_LONG_LONG, jd_next_tics := TRICK_MAX_LONG_LONG\<rparr>
      else j)"

definition too_fine :: "int \<Rightarrow> JobData \<Rightarrow> bool" where
  "too_fine tic_value j \<longleftrightarrow> rnd64 (1/1000) < c_fmod1 (dmul (jd_cycle j) (dbl tic_value))"

definition check_all_job_cycle_times :: "'w Executive \<Rightarrow> (int \<times> 'w Executive) option" where
  "check_all_job_cycle_times e =
     (let tv = ex_time_tic_value e;
          js = ex_all_jobs_vector e;
          short = (\<exists>j \<in> set js. jd_cycle (ex_jobs e j) < ddiv 1 (dbl tv));
          e1 = e\<lparr>ex_jobs := update_jobs (check_short_cycle tv) js (ex_jobs e)\<rparr>
      in Option.bind (divide_out 2 tv) (\<lambda>v2.
         Option.bind (divide_out 5 v2) (\<lambda>v5.
           if v5 \<noteq> 1 then Some (if short then -1 else 0, e1)
           else
             (let fine = (\<exists>j \<in> set js. too_fine tv (ex_jobs e1 j));
                  amf = (\<exists>th \<in> set (tl (ex_threads e1)).
                           th_process_type th = PROCESS_TYPE_AMF_CHILD \<and> th_amf_cycle_tics th = 0)
              in Some (if short \<or> fine \<or> amf then -1 else 0, e1)))))"

subsection \<open>Simulation objects\<close>

text \<open>
  The recursion over component objects, with the pending calls kept as an explicit stack:
  \<open>Enter\<close> is a call of \<open>add_sim_object\<close>, \<open>Adopt\<close> the part of its body between the two loops,
  \<open>Component p c\<close> one iteration of a loop. The call does not return when the components
  form a cycle.
\<close>

datatype add_step = Enter so_ptr | Adopt so_ptr | Component so_ptr so_ptr

type_synonym 'w virtual_op = "so_ptr \<Rightarrow> 'w Executive \<Rightarrow> 'w Executive"

definition rename_component :: "so_ptr \<Rightarrow> so_ptr \<Rightarrow> 'w Executive \<Rightarrow> 'w Executive" where
  "rename_component parent child e =
     e\<lparr>ex_sim_objs := (ex_sim_objs e)(child := (ex_sim_objs e child)
         \<lparr>so_name := so_name (ex_sim_objs e parent) @ ''.'' @ so_name (ex_sim_objs e child)\<rparr>)\<rparr>"

definition adopt_sim_object :: "'w virtual_op list \<Rightarrow> so_ptr \<Rightarrow> 'w Executive \<Rightarrow> (unit, 'w Executive) result" where
  "adopt_sim_object others in_object e =
     (let n = ex_num_sim_objects e + 1;
          e1 = e\<lparr>ex_num_sim_objects := n,
                 ex_sim_objs := (ex_sim_objs e)(in_object := (ex_sim_objs e in_object)\<lparr>so_id := n\<rparr>),
                 ex_sim_objects := ex_sim_objects e @ [in_object]\<rparr>
      in andthen (add_jobs_to_queue in_object False e1)
           (\<lambda>_ e2. Some (Inr (), fold (\<lambda>f. f in_object) others e2)))"

partial_function (option) add_sim_object_steps ::
  "'w virtual_op list \<Rightarrow> add_step list \<Rightarrow> 'w Executive \<Rightarrow> (int, 'w Executive) result" where
  "add_sim_object_steps others steps e =
     (case steps of
        [] \<Rightarrow> Some (Inr 0, e)
      | s # ss \<Rightarrow>
          (case s of
             Enter so \<Rightarrow>
               add_sim_object_steps others
                 (map (Component so) (so_pre_component_objects (ex_sim_objs e so)) @ Adopt so # ss) e
           | Component parent child \<Rightarrow>
               add_sim_object_steps others (Enter child # ss) (rename_component parent child e)
           | Adopt so \<Rightarrow>
               andthen (adopt_sim_object others so e)
                 (\<lambda>_ e1. add_sim_object_steps others
                    (map (Component so) (so_post_component_objects (ex_sim_objs e1 so)) @ ss) e1)))"

declare add_sim_object_steps.simps [code]

definition add_sim_object ::
  "'w virtual_op list \<Rightarrow> so_ptr \<Rightarrow> string option \<Rightarrow> 'w Executive \<Rightarrow> (int, 'w Executive) result" where
  "add_sim_object others in_object in_name e =
     add_sim_object_steps others [Enter in_object]
       (case in_name of
          None \<Rightarrow> e
        | Some n \<Rightarrow> e\<lparr>ex_sim_objs := (ex_sim_objs e)(in_object := (ex_sim_objs e in_object)\<lparr>so_name := n\<rparr>)\<rparr>)"

text \<open>\<open>delete_sim_object\<close>, with the same stack: the component loops call it directly.\<close>

definition discard_sim_object :: "'w virtual_op list \<Rightarrow> so_ptr \<Rightarrow> 'w Executive \<Rightarrow> 'w Executive" where
  "discard_sim_object others in_object e =
     fold (\<lambda>f. f in_object) others
       (snd (remove_jobs in_object (e\<lparr>ex_sim_objects := filter (\<lambda>so. so \<noteq> in_object) (ex_sim_objects e)\<rparr>)))"

partial_function (option) delete_sim_object_steps ::
  "'w virtual_op list \<Rightarrow> add_step list \<Rightarrow> 'w Executive \<Rightarrow> (int, 'w Executive) result" where
  "delete_sim_object_steps others steps e =
     (case steps of
        [] \<Rightarrow> Some (Inr 0, e)
      | s # ss \<Rightarrow>
          (case s of
             Enter so \<Rightarrow>
               delete_sim_object_steps others
                 (map Enter (so_pre_component_objects (ex_sim_objs e so)) @ Adopt so # ss) e
           | Component parent child \<Rightarrow> delete_sim_object_steps others (Enter child # ss) e
           | Adopt so \<Rightarrow>
               (let e1 = discard_sim_object others so e
                in delete_sim_object_steps others
                     (map Enter (so_post_component_objects (ex_sim_objs e1 so)) @ ss) e1)))"

declare delete_sim_object_steps.simps [code]

definition delete_sim_object :: "'w virtual_op list \<Rightarrow> so_ptr \<Rightarrow> 'w Executive \<Rightarrow> (int, 'w Executive) result" where
  "delete_sim_object others in_object e = delete_sim_object_steps others [Enter in_object] e"

subsection \<open>Instrumentation\<close>

text \<open>The queues in the order \<open>instrument_job_before\<close> and \<open>instrument_job_after\<close> visit them.\<close>

definition thread_queues :: "nat \<Rightarrow> queue_ref list" where
  "thread_queues ii = [Q_thread_job ii, Q_thread_top ii, Q_thread_end ii]"

definition plain_queues :: "queue_ref list" where
  "plain_queues =
     [Q_default_data, Q_initialization, Q_top_of_frame, Q_end_of_frame, Q_shutdown, Q_freeze_init,
      Q_freeze_scheduled, Q_freeze, Q_unfreeze, Q_time_tic_changed, Q_thread_sync, Q_input_processor_run]"

definition all_thread_queues :: "'w Executive \<Rightarrow> queue_ref list" where
  "all_thread_queues e = concat (map thread_queues [0..<length (ex_threads e)])"

text \<open>\<open>count\<close> is \<open>unsigned int\<close>; the function returns it as \<open>int\<close>.\<close>

definition u32_to_int :: "int \<Rightarrow> int" where
  "u32_to_int n = (let m = n mod 2 ^ 32 in if m < 2 ^ 31 then m else m - 2 ^ 32)"

fun count_queues ::
  "(job_heap \<Rightarrow> SJQ \<Rightarrow> int \<times> job_heap) \<Rightarrow> queue_ref list \<Rightarrow> int \<Rightarrow> 'w Executive \<Rightarrow> int \<times> 'w Executive" where
  "count_queues f [] cnt e = (cnt, e)"
| "count_queues f (r # rs) cnt e =
     (let (n, h) = f (ex_jobs e) (get_q r e) in count_queues f rs (cnt + n) (e\<lparr>ex_jobs := h\<rparr>))"

fun count_others :: "('w Executive \<Rightarrow> int \<times> 'w Executive) list \<Rightarrow> int \<Rightarrow> 'w Executive \<Rightarrow> int \<times> 'w Executive" where
  "count_others [] cnt e = (cnt, e)"
| "count_others (f # fs) cnt e = (let (n, e1) = f e in count_others fs (cnt + n) e1)"

definition instrument_job_at ::
  "(job_heap \<Rightarrow> SJQ \<Rightarrow> job_ptr \<Rightarrow> int \<times> job_heap) \<Rightarrow>
   (job_ptr \<Rightarrow> 'w Executive \<Rightarrow> int \<times> 'w Executive) list \<Rightarrow> job_ptr option \<Rightarrow> 'w Executive \<Rightarrow> int \<times> 'w Executive"
where
  "instrument_job_at op others instrument_job e =
     (case instrument_job of
        None \<Rightarrow> (0, e)
      | Some j \<Rightarrow>
          (let (n, e1) = count_queues (\<lambda>h q. op h q j) (all_thread_queues e @ plain_queues) 0 e;
               (cnt, e2) = count_others (map (\<lambda>f. f j) others) n e1
           in (u32_to_int cnt, e2)))"

definition instrument_job_before ::
  "(job_ptr \<Rightarrow> 'w Executive \<Rightarrow> int \<times> 'w Executive) list \<Rightarrow> string \<Rightarrow> nat \<Rightarrow> 'w Executive \<Rightarrow> int \<times> 'w Executive" where
  "instrument_job_before others in_job inst_num e =
     instrument_job_at instrument_before others (get_job e in_job inst_num) e"

definition instrument_job_after ::
  "(job_ptr \<Rightarrow> 'w Executive \<Rightarrow> int \<times> 'w Executive) list \<Rightarrow> string \<Rightarrow> nat \<Rightarrow> 'w Executive \<Rightarrow> int \<times> 'w Executive" where
  "instrument_job_after others in_job inst_num e =
     instrument_job_at instrument_after others (get_job e in_job inst_num) e"

definition instrument_job_remove ::
  "(string \<Rightarrow> 'w Executive \<Rightarrow> 'w Executive) list \<Rightarrow> string \<Rightarrow> 'w Executive \<Rightarrow> int \<times> 'w Executive" where
  "instrument_job_remove others in_job e =
     (0, fold (\<lambda>f. f in_job) others
           (snd (count_queues (\<lambda>h q. instrument_remove h q in_job) (plain_queues @ all_thread_queues e) 0 e)))"

end
