(* ===== verification/ExecWalk.thy ===== *)
theory ExecWalk
  imports ExecState
begin

text \<open>
  The loops of the executive over one of its queues, as instances of the contract in the theory
  QueueWalk: \<open>while ( (curr_job = queue.get_next_job()) != NULL )\<close>, the same with
  \<open>find_next_job\<close> and \<open>find_job\<close>, and the two loops that walk a queue with a local variable and
  leave \<open>curr_job\<close> alone. The assignment to the member \<open>curr_job\<close> is part of the step.
\<close>

subsection \<open>The next operations on the state\<close>

definition next_local :: "queue_ref \<Rightarrow> 'w Executive \<Rightarrow> job_ptr option \<times> 'w Executive" where
  "next_local r e = (let (jo, q) = get_next_job (ex_jobs e) (get_q r e) in (jo, set_q r q e))"

definition next_curr :: "queue_ref \<Rightarrow> 'w Executive \<Rightarrow> job_ptr option \<times> 'w Executive" where
  "next_curr r e =
     (let (jo, q) = get_next_job (ex_jobs e) (get_q r e) in (jo, (set_q r q e)\<lparr>ex_curr_job := jo\<rparr>))"

definition next_due :: "queue_ref \<Rightarrow> int \<Rightarrow> 'w Executive \<Rightarrow> job_ptr option \<times> 'w Executive" where
  "next_due r time_tics e =
     (let (jo, h, q) = find_next_job (ex_jobs e) (get_q r e) time_tics
      in (jo, (set_q r q (e\<lparr>ex_jobs := h\<rparr>))\<lparr>ex_curr_job := jo\<rparr>))"

definition next_found :: "queue_ref \<Rightarrow> int \<Rightarrow> 'w Executive \<Rightarrow> job_ptr option \<times> 'w Executive" where
  "next_found r time_tics e =
     (let (jo, q) = find_job (ex_jobs e) (get_q r e) time_tics
      in (jo, (set_q r q e)\<lparr>ex_curr_job := jo\<rparr>))"

subsection \<open>What they leave behind\<close>

definition pending_in :: "queue_ref \<Rightarrow> 'w Executive \<Rightarrow> job_ptr list" where
  "pending_in r e = pending_jobs (get_q r e)"

definition enabled_in :: "'w Executive \<Rightarrow> job_ptr \<Rightarrow> bool" where
  "enabled_in e j = (\<not> jd_disabled (ex_jobs e j))"

definition due_in :: "int \<Rightarrow> 'w Executive \<Rightarrow> job_ptr \<Rightarrow> bool" where
  "due_in t e j = due_at t (ex_jobs e) j"

definition queue_ok :: "queue_ref \<Rightarrow> 'w Executive \<Rightarrow> bool" where
  "queue_ok r e \<longleftrightarrow> has_queue r e \<and> index_ok (get_q r e) \<and> distinct (pending_in r e)"

lemma queue_ok_has: "queue_ok r e \<Longrightarrow> has_queue r e"
  by (simp add: queue_ok_def)

definition skip_in :: "queue_ref \<Rightarrow> job_ptr list \<Rightarrow> 'w Executive \<Rightarrow> 'w Executive" where
  "skip_in r js e = set_q r (skip_jobs (get_q r e) js) e"

definition visit_in :: "queue_ref \<Rightarrow> int \<Rightarrow> job_ptr list \<Rightarrow> 'w Executive \<Rightarrow> 'w Executive" where
  "visit_in r t js e =
     (let (h, q) = visit_all t js (ex_jobs e, get_q r e) in set_q r q (e\<lparr>ex_jobs := h\<rparr>))"

definition set_curr :: "job_ptr option \<Rightarrow> 'w Executive \<Rightarrow> 'w Executive" where
  "set_curr jo e = e\<lparr>ex_curr_job := jo\<rparr>"

lemma set_curr_simps [simp]:
  "pending_in r (set_curr jo e) = pending_in r e" "enabled_in (set_curr jo e) = enabled_in e"
  "due_in t (set_curr jo e) = due_in t e" "queue_ok r (set_curr jo e) = queue_ok r e"
  "get_q r (set_curr jo e) = get_q r e" "has_queue r (set_curr jo e) = has_queue r e"
  "ex_jobs (set_curr jo e) = ex_jobs e" "ex_world (set_curr jo e) = ex_world e"
  by (simp_all add: set_curr_def pending_in_def enabled_in_def due_in_def queue_ok_def fun_eq_iff)

lemma pending_skip_in:
  "has_queue r e \<Longrightarrow> pending_in r e = ks @ js \<Longrightarrow> pending_in r (skip_in r ks e) = js"
  by (simp add: pending_in_def skip_in_def pending_skip)

lemma queue_ok_skip_in: "queue_ok r e \<Longrightarrow> pending_in r e = ks @ js \<Longrightarrow> queue_ok r (skip_in r ks e)"
  using pending_skip_in [of r e ks js]
  by (auto simp: queue_ok_def pending_in_def skip_in_def intro: index_ok_skip)

lemma skip_in_jobs [simp]: "ex_jobs (skip_in r ks e) = ex_jobs e" "ex_world (skip_in r ks e) = ex_world e"
  "enabled_in (skip_in r ks e) = enabled_in e" "due_in t (skip_in r ks e) = due_in t e"
  by (simp_all add: skip_in_def enabled_in_def due_in_def fun_eq_iff)

lemma visit_in_jobs:
  "ex_jobs (visit_in r t js e) = fst (visit_all t js (ex_jobs e, get_q r e))"
  "has_queue r e \<Longrightarrow> get_q r (visit_in r t js e) = snd (visit_all t js (ex_jobs e, get_q r e))"
  "r \<noteq> s \<Longrightarrow> get_q r (visit_in s t js e) = get_q r e"
  "ex_world (visit_in r t js e) = ex_world e"
  "has_queue s (visit_in r t js e) = has_queue s e"
  by (simp_all add: visit_in_def split: prod.split)

lemma pending_visit_in:
  "has_queue r e \<Longrightarrow> pending_in r e = ks @ js \<Longrightarrow> pending_in r (visit_in r t ks e) = js"
  by (simp add: pending_in_def visit_in_jobs pending_visit_all)

lemma queue_ok_visit_in:
  "queue_ok r e \<Longrightarrow> pending_in r e = ks @ js \<Longrightarrow> queue_ok r (visit_in r t ks e)"
  using pending_visit_in [of r e ks js t]
  by (auto simp: queue_ok_def visit_in_jobs pending_in_def index_ok_visit_all)

lemma due_visit_in:
  "queue_ok r e \<Longrightarrow> pending_in r e = ks @ js \<Longrightarrow> j \<in> set js \<Longrightarrow> due_in t (visit_in r t ks e) j = due_in t e j"
proof -
  assume *: "queue_ok r e" "pending_in r e = ks @ js" "j \<in> set js"
  then have "j \<notin> set ks" by (auto simp: queue_ok_def)
  then have "fst (visit_all t ks (ex_jobs e, get_q r e)) j = ex_jobs e j" by (rule visit_all_other)
  then show ?thesis by (simp add: due_in_def due_at_def visit_in_jobs)
qed

subsection \<open>The contracts\<close>

lemma find_job_miss:
  "pending_jobs q = sk @ js \<Longrightarrow> filter (due_at t h) sk = [] \<Longrightarrow> find_job h q t = find_job h (skip_jobs q sk) t"
proof (induction sk arbitrary: q)
  case (Cons k sk)
  then have c: "q_curr_index q < length (q_list q)" "q_list q ! q_curr_index q = k" "\<not> due_at t h k"
    using pending_Cons [of q k "sk @ js"] by (auto split: if_splits)
  have "pending_jobs (skip_jobs q [k]) = sk @ js" using Cons.prems by (intro pending_skip) simp
  then have "find_job h (skip_jobs q [k]) t = find_job h (skip_jobs q (k # sk)) t"
    using Cons.IH [of "skip_jobs q [k]"] Cons.prems(2) by (simp split: if_splits)
  then show ?case
    using c by (auto simp: find_job.simps [of h q] skip_jobs_1 [of q k] due_at_def Let_def)
qed simp

lemma find_job_hit:
  "pending_jobs q = j # js \<Longrightarrow> due_at t h j \<Longrightarrow> find_job h q t = (Some j, skip_jobs q [j])"
  using pending_Cons [of q j js]
  by (simp add: find_job.simps [of h q] skip_jobs_1 [of q j] due_at_def Let_def)

lemma find_job_Some:
  assumes "pending_jobs q = sk @ j # js" "filter (due_at t h) sk = []" "due_at t h j"
  shows "find_job h q t = (Some j, skip_jobs q (sk @ [j]))"
  using find_job_miss [OF assms(1,2)] find_job_hit [OF pending_skip [OF assms(1)] assms(3)] by simp

lemma find_job_None:
  assumes "filter (due_at t h) (pending_jobs q) = []"
  shows "find_job h q t = (None, skip_jobs q (pending_jobs q))"
proof -
  have "pending_jobs (skip_jobs q (pending_jobs q)) = []"
    using pending_skip [of q "pending_jobs q" "[]"] by simp
  then show ?thesis
    using find_job_miss [of q "pending_jobs q" "[]" t h] assms
    by (simp add: find_job.simps [of h "skip_jobs q (pending_jobs q)"] pending_Nil)
qed

lemma set_curr_fold: "e\<lparr>ex_curr_job := jo\<rparr> = set_curr jo e"
  by (simp add: set_curr_def)

interpretation next_local: walker "next_local r" "pending_in r" enabled_in
  "\<lambda>e js. skip_in r js e" "\<lambda>e. skip_in r (pending_in r e) e" "queue_ok r"
proof unfold_locales
  fix e :: "'w Executive" and sk j js
  show "queue_ok r e \<Longrightarrow> filter (enabled_in e) (pending_in r e) = [] \<Longrightarrow>
      next_local r e = (None, skip_in r (pending_in r e) e)"
    using get_next_job_Nil [of "get_q r e" "ex_jobs e"]
    by (simp add: next_local_def queue_ok_def skip_in_def pending_in_def enabled_in_def [abs_def])
  show "queue_ok r e \<Longrightarrow> pending_in r e = sk @ j # js \<Longrightarrow> filter (enabled_in e) sk = [] \<Longrightarrow>
      enabled_in e j \<Longrightarrow> next_local r e = (Some j, skip_in r (sk @ [j]) e)"
    using get_next_job_Cons [of "get_q r e" sk j js "ex_jobs e"]
    by (simp add: next_local_def skip_in_def pending_in_def enabled_in_def [abs_def])
qed (simp_all add: queue_ok_skip_in pending_skip_in queue_ok_has)

lemma next_curr_local: "next_curr r e = (let (jo, e1) = next_local r e in (jo, set_curr jo e1))"
  by (simp add: next_curr_def next_local_def set_curr_def split: prod.split)

interpretation next_curr: walker "next_curr r" "pending_in r" enabled_in
  "\<lambda>e js. set_curr (Some (last js)) (skip_in r js e)" "\<lambda>e. set_curr None (skip_in r (pending_in r e) e)" "queue_ok r"
  by unfold_locales
    (simp_all add: next_curr_local next_local.next_none next_local.next_some pending_skip_in
       queue_ok_skip_in queue_ok_has)

lemma due_in_fun: "due_in t e = due_at t (ex_jobs e)"
  by (simp add: fun_eq_iff due_in_def)

interpretation next_due: walker "next_due r t" "pending_in r" "due_in t"
  "\<lambda>e js. set_curr (Some (last js)) (visit_in r t js e)" "\<lambda>e. set_curr None (visit_in r t (pending_in r e) e)"
  "queue_ok r"
proof unfold_locales
  fix e :: "'w Executive" and sk j js
  show "queue_ok r e \<Longrightarrow> filter (due_in t e) (pending_in r e) = [] \<Longrightarrow>
      next_due r t e = (None, set_curr None (visit_in r t (pending_in r e) e))"
    using find_next_job_None [of "get_q r e" t "ex_jobs e"]
    by (simp add: next_due_def queue_ok_def visit_in_def pending_in_def due_in_fun set_curr_def split: prod.split)
  show "queue_ok r e \<Longrightarrow> pending_in r e = sk @ j # js \<Longrightarrow> filter (due_in t e) sk = [] \<Longrightarrow>
      due_in t e j \<Longrightarrow> next_due r t e = (Some j, set_curr (Some (last (sk @ [j]))) (visit_in r t (sk @ [j]) e))"
    using find_next_job_Some [of "get_q r e" sk j js t "ex_jobs e"]
    by (simp add: next_due_def queue_ok_def visit_in_def pending_in_def due_in_fun set_curr_def split: prod.split)
qed (simp_all add: queue_ok_visit_in pending_visit_in due_visit_in queue_ok_has)

interpretation next_found: walker "next_found r t" "pending_in r" "due_in t"
  "\<lambda>e js. set_curr (Some (last js)) (skip_in r js e)" "\<lambda>e. set_curr None (skip_in r (pending_in r e) e)"
  "queue_ok r"
proof unfold_locales
  fix e :: "'w Executive" and sk j js
  show "queue_ok r e \<Longrightarrow> filter (due_in t e) (pending_in r e) = [] \<Longrightarrow>
      next_found r t e = (None, set_curr None (skip_in r (pending_in r e) e))"
    using find_job_None [of t "ex_jobs e" "get_q r e"]
    by (simp add: next_found_def skip_in_def pending_in_def due_in_fun set_curr_def)
  show "queue_ok r e \<Longrightarrow> pending_in r e = sk @ j # js \<Longrightarrow> filter (due_in t e) sk = [] \<Longrightarrow>
      due_in t e j \<Longrightarrow> next_found r t e = (Some j, set_curr (Some (last (sk @ [j]))) (skip_in r (sk @ [j]) e))"
    using find_job_Some [of "get_q r e" sk j js t "ex_jobs e"]
    by (simp add: next_found_def skip_in_def pending_in_def due_in_fun set_curr_def)
qed (simp_all add: queue_ok_skip_in pending_skip_in queue_ok_has)

text \<open>
  The scheduler loops pass a member of the executive as the time, which is read again at every
  step: a job that advances the time changes what the rest of the same walk finds due.
\<close>

definition next_now :: "queue_ref \<Rightarrow> 'w Executive \<Rightarrow> job_ptr option \<times> 'w Executive" where
  "next_now r e = next_due r (ex_time_tics e) e"

definition next_freeze :: "queue_ref \<Rightarrow> 'w Executive \<Rightarrow> job_ptr option \<times> 'w Executive" where
  "next_freeze r e = next_due r (ex_freeze_time_tics e) e"

lemma visit_in_time [simp]:
  "ex_time_tics (visit_in r t js e) = ex_time_tics e"
  "ex_freeze_time_tics (visit_in r t js e) = ex_freeze_time_tics e"
  "ex_time_tics (set_curr jo e) = ex_time_tics e"
  "ex_freeze_time_tics (set_curr jo e) = ex_freeze_time_tics e"
  by (cases r; simp add: visit_in_def set_curr_def split: prod.split)+

interpretation next_now: walker "next_now r" "pending_in r" "\<lambda>e. due_in (ex_time_tics e) e"
  "\<lambda>e js. set_curr (Some (last js)) (visit_in r (ex_time_tics e) js e)"
  "\<lambda>e. set_curr None (visit_in r (ex_time_tics e) (pending_in r e) e)" "queue_ok r"
  by unfold_locales
    (simp_all add: next_now_def next_due.next_none next_due.next_some queue_ok_visit_in
      pending_visit_in due_visit_in queue_ok_has)

interpretation next_freeze: walker "next_freeze r" "pending_in r" "\<lambda>e. due_in (ex_freeze_time_tics e) e"
  "\<lambda>e js. set_curr (Some (last js)) (visit_in r (ex_freeze_time_tics e) js e)"
  "\<lambda>e. set_curr None (visit_in r (ex_freeze_time_tics e) (pending_in r e) e)" "queue_ok r"
  by unfold_locales
    (simp_all add: next_freeze_def next_due.next_none next_due.next_some queue_ok_visit_in
      pending_visit_in due_visit_in queue_ok_has)

end
