(* ===== verification/ExecTime.thy ===== *)
theory ExecTime
  imports ExecWalk ExecControl
begin

text \<open>
  How the executive moves simulation time: \<open>advance_sim_time\<close> with the wait for the scheduled
  threads, \<open>thread_sync\<close>, \<open>create_threads\<close>, \<open>get_sim_time\<close> and the change of the tic value
  (sim\_services/Executive/Executive\_advance\_sim\_time.cpp, \_scheduled\_thread\_sync.cpp,
  \_thread\_sync.cpp, \_create\_threads.cpp, \_get\_sim\_time.cpp, \_set\_time\_tic\_value.cpp).
\<close>

subsection \<open>Other threads\<close>

text \<open>
  The main thread waits in loops \<open>while (! flag) RELEASE()\<close> for flags that other threads set.
  What those threads do meanwhile is the environment: \<open>env_await c e\<close> is the state in which the
  wait for \<open>c\<close> ends, \<open>None\<close> if it never ends; \<open>env_fire i\<close> is the effect of firing the trigger of
  thread \<open>i\<close>. What one thread does after a trigger is modelled in the theory ThreadsChild.
\<close>

datatype wait_cond = ChildComplete nat | JobComplete job_ptr

record 'w Environment =
  env_await :: "wait_cond \<Rightarrow> 'w Executive \<Rightarrow> 'w Executive option"
  env_fire :: "nat \<Rightarrow> 'w Executive \<Rightarrow> 'w Executive"

fun holds :: "wait_cond \<Rightarrow> 'w Executive \<Rightarrow> bool" where
  "holds (ChildComplete i) e = th_child_complete (ex_threads e ! i)"
| "holds (JobComplete j) e = jd_complete (ex_jobs e j)"

definition spin :: "'w Environment \<Rightarrow> wait_cond \<Rightarrow> 'w Executive \<Rightarrow> (unit, 'w Executive) result" where
  "spin env c e =
     (if holds c e then Some (Inr (), e)
      else (case env_await env c e of None \<Rightarrow> None | Some e' \<Rightarrow> Some (Inr (), e')))"

text \<open>\<open>for ( ii = ... ; ii < threads.size() ; ii++ )\<close>, the size read in every iteration.\<close>

partial_function (option) for_threads ::
  "(nat \<Rightarrow> 'w Executive \<Rightarrow> (unit, 'w Executive) result) \<Rightarrow> nat \<Rightarrow> 'w Executive \<Rightarrow> (unit, 'w Executive) result"
where
  "for_threads body ii e =
     (if ii < length (ex_threads e) then andthen (body ii e) (\<lambda>_ e1. for_threads body (Suc ii) e1)
      else Some (Inr (), e))"

declare for_threads.simps [code]

subsection \<open>Advancing time\<close>

definition scheduled_thread_sync :: "'w Environment \<Rightarrow> 'w Executive \<Rightarrow> (unit, 'w Executive) result" where
  "scheduled_thread_sync env e =
     for_threads (\<lambda>ii e1.
       (let curr_thread = ex_threads e1 ! ii
        in if th_enabled curr_thread \<and> th_process_type curr_thread = PROCESS_TYPE_SCHEDULED
           then spin env (ChildComplete ii) e1 else Some (Inr (), e1))) 1 e"

text \<open>\<open>queue.get_next_job_call_time()\<close> on a queue of the state.\<close>

definition next_call_time :: "queue_ref \<Rightarrow> 'w Executive \<Rightarrow> int \<times> 'w Executive" where
  "next_call_time r e =
     (let (t, q) = get_next_job_call_time (ex_jobs e) (get_q r e) in (t, set_q r q e))"

text \<open>The step that lowers \<open>time_tics\<close> to the next call time of one of the main thread's queues.\<close>

definition advance_to_queue :: "queue_ref \<Rightarrow> 'w Executive \<Rightarrow> 'w Executive" where
  "advance_to_queue r e =
     (let (next_job_call_time, e1) = next_call_time r e
      in if next_job_call_time < ex_time_tics e1 \<and> ex_time_last_pass_tics e1 < next_job_call_time
         then e1\<lparr>ex_time_tics := next_job_call_time\<rparr> else e1)"

text \<open>The body of the loop over the child threads.\<close>

definition advance_to_thread :: "nat \<Rightarrow> 'w Executive \<Rightarrow> 'w Executive" where
  "advance_to_thread ii e =
     (let curr_thread = ex_threads e ! ii
      in if th_enabled curr_thread then
           (let e1 = (if th_process_type curr_thread = PROCESS_TYPE_SCHEDULED then
                        (let (t, e') = next_call_time (Q_thread_job ii) e
                         in if t < ex_time_tics e' then e'\<lparr>ex_time_tics := t\<rparr> else e')
                      else e)
            in if th_process_type curr_thread = PROCESS_TYPE_AMF_CHILD \<and> 0 < th_amf_cycle_tics curr_thread
                  \<and> th_amf_next_tics curr_thread < ex_time_tics e1
               then e1\<lparr>ex_time_tics := th_amf_next_tics curr_thread\<rparr> else e1)
         else e)"

text \<open>\<open>advance_sim_time\<close> after the wait: the choice of the new time, then what is set from it.\<close>

definition choose_time :: "'w Executive \<Rightarrow> 'w Executive" where
  "choose_time e =
     (let e1 = e\<lparr>ex_time_last_pass_tics := ex_time_tics e, ex_time_tics := ex_next_frame_check_tics e\<rparr>;
          e2 = advance_to_queue (Q_thread_job 0) e1;
          e3 = advance_to_queue Q_input_processor_run e2;
          e4 = fold advance_to_thread [1..<length (ex_threads e3)] e3
      in if ex_terminate_time e4 < ex_time_tics e4 then e4\<lparr>ex_time_tics := ex_terminate_time e4\<rparr> else e4)"

definition set_new_time :: "job_ptr \<Rightarrow> 'w Executive \<Rightarrow> 'w Executive" where
  "set_new_time advance_sim_time_job e =
     (let next = ex_time_tics e + ex_software_frame_tics e;
          e1 = map_q Q_input_processor_run (set_next_job_call_time next) e;
          e2 = map_q (Q_thread_job 0) (set_next_job_call_time next) e1;
          e3 = map_job advance_sim_time_job (\<lambda>j. j\<lparr>jd_next_tics := ex_time_tics e\<rparr>) e2
      in map_thread 0 (\<lambda>th. th\<lparr>th_curr_time_tics := ex_time_tics e\<rparr>) e3)"

definition advance_sim_time :: "'w Environment \<Rightarrow> 'w Executive \<Rightarrow> (int, 'w Executive) result" where
  "advance_sim_time env e =
     andthen (scheduled_thread_sync env e)
       (\<lambda>_ e1. if ex_threads e1 = [] then Some (Inl (Undefined ''threads[0]''), e1)
              else (case ex_advance_sim_time_job e1 of
                      None \<Rightarrow> Some (Inl (Undefined ''NULL advance_sim_time_job''), choose_time e1)
                    | Some j \<Rightarrow> Some (Inr 0, set_new_time j (choose_time e1))))"

subsection \<open>Synchronising with the threads\<close>

text \<open>
  \<open>while (amf_next_tics < time_tics) amf_next_tics += amf_cycle_tics\<close>; for a cycle that is not
  positive the loop does not end before the sum overflows, which is undefined.
\<close>

partial_function (option) catch_up :: "int \<Rightarrow> int \<Rightarrow> int \<Rightarrow> int option" where
  "catch_up cycle limit t = (if t < limit then catch_up cycle limit (t + cycle) else Some t)"

declare catch_up.simps [code]

lemma catch_up_least:
  assumes "0 < c"
  shows "t < limit \<Longrightarrow> \<exists>k. catch_up c limit t = Some (t + int k * c) \<and> limit \<le> t + int k * c \<and> t + int k * c < limit + c"
proof (induction "nat (limit - t)" arbitrary: t rule: less_induct)
  case less
  show ?case
  proof (cases "t + c < limit")
    case True
    then obtain k where k: "catch_up c limit (t + c) = Some (t + c + int k * c)" "limit \<le> t + c + int k * c"
      "t + c + int k * c < limit + c"
      using less.hyps [of "t + c"] less.prems assms by auto
    have e: "t + c + int k * c = t + int (Suc k) * c" by (simp add: algebra_simps)
    have "catch_up c limit t = Some (t + int (Suc k) * c)"
      using k(1) less.prems unfolding e by (simp add: catch_up.simps [of c limit t])
    then show ?thesis using k(2,3) unfolding e by blast
  next
    case False
    then have "catch_up c limit t = Some (t + int 1 * c)"
      using less.prems by (simp add: catch_up.simps [of c limit t] catch_up.simps [of c limit "t + c"])
    then show ?thesis using False less.prems by (rule_tac x = 1 in exI) simp
  qed
qed

lemma catch_up_never:
  assumes "c \<le> 0" and "t < limit"
  shows "catch_up c limit t = None"
proof (cases "catch_up c limit t")
  case (Some y)
  have "c \<le> 0 \<longrightarrow> limit \<le> t"
  proof (rule catch_up.raw_induct [OF _ Some, where P = "\<lambda>c limit t y. c \<le> 0 \<longrightarrow> limit \<le> t"])
    fix f and c limit t y :: int
    assume IH: "\<And>c limit t y. f c limit t = Some y \<Longrightarrow> c \<le> 0 \<longrightarrow> limit \<le> t"
      and eq: "(if t < limit then f c limit (t + c) else Some t) = Some y"
    show "c \<le> 0 \<longrightarrow> limit \<le> t" using IH [of c limit "t + c" y] eq by (auto split: if_splits)
  qed
  then show ?thesis using assms by simp
qed

definition sync_thread :: "'w Environment \<Rightarrow> nat \<Rightarrow> 'w Executive \<Rightarrow> (unit, 'w Executive) result" where
  "sync_thread env ii e =
     (let curr_thread = ex_threads e ! ii
      in if th_process_type curr_thread = PROCESS_TYPE_AMF_CHILD \<and> th_amf_next_tics curr_thread = ex_time_tics e
         then spin env (ChildComplete ii) e
         else if th_process_type curr_thread = PROCESS_TYPE_ASYNC_CHILD \<and> th_child_complete curr_thread \<and>
                 th_amf_cycle_tics curr_thread \<noteq> 0 then
           (case catch_up (th_amf_cycle_tics curr_thread) (ex_time_tics e) (th_amf_next_tics curr_thread) of
              None \<Rightarrow> None
            | Some t \<Rightarrow> Some (Inr (), map_thread ii (\<lambda>th. th\<lparr>th_amf_next_tics := t\<rparr>) e))
         else Some (Inr (), e))"

text \<open>The loop that marks the jobs of a ready thread as not complete.\<close>

definition mark_incomplete :: "nat \<Rightarrow> 'w Executive \<Rightarrow> (unit, 'w Executive) result" where
  "mark_incomplete ii e =
     (if isThreadReadyToRun (ex_threads e ! ii) (ex_time_tics e) then
        walk (next_found (Q_thread_job ii) (ex_time_tics e))
          (\<lambda>j e1. Some (Inr (), map_job j (\<lambda>jd. jd\<lparr>jd_complete := False\<rparr>) e1))
          (map_q (Q_thread_job ii) reset_curr_index e)
      else Some (Inr (), e))"

definition thread_sync :: "'w Environment \<Rightarrow> 'w Executive \<Rightarrow> (int, 'w Executive) result" where
  "thread_sync env e =
     andthen (for_threads (sync_thread env) 1 e)
       (\<lambda>_ e1. andthen (for_threads mark_incomplete 0 e1) (\<lambda>_ e2. Some (Inr 0, e2)))"

text \<open>
  \<open>create_threads\<close>: starting a thread (\<open>create_thread\<close>, priorities, affinity) belongs to the
  operating system; the state change is the time given to each child.
\<close>

definition create_threads :: "'w Executive \<Rightarrow> abort + int \<times> 'w Executive" where
  "create_threads e =
     (if ex_threads e = [] then Inl (Undefined ''threads[0]'')
      else Inr (0, e\<lparr>ex_threads := hd (ex_threads e) #
                  map (\<lambda>th. th\<lparr>th_curr_time_tics := ex_time_tics e\<rparr>) (tl (ex_threads e))\<rparr>))"

text \<open>\<open>self\<close> is the index of the calling thread when it is one of the executive's threads.\<close>

definition get_time_tics :: "nat option \<Rightarrow> 'w Executive \<Rightarrow> int" where
  "get_time_tics self e =
     (if length (ex_threads e) = 1 then th_curr_time_tics (ex_threads e ! 0)
      else (case self of
              Some ii \<Rightarrow> (if ii < length (ex_threads e) then th_curr_time_tics (ex_threads e ! ii) else ex_time_tics e)
            | None \<Rightarrow> ex_time_tics e))"

definition get_sim_time :: "nat option \<Rightarrow> 'w Executive \<Rightarrow> abort + rat" where
  "get_sim_time self e =
     (if ex_time_tic_value e = 0 then Inl (Undefined ''curr_time_tics / 0.0'')
      else Inr (ddiv (dbl (get_time_tics self e)) (dbl (ex_time_tic_value e))))"

subsection \<open>Changing the tic value\<close>

text \<open>
  \<open>(t / old) * new\<close> is computed in \<open>long long\<close>; \<open>round\<close> then converts the integer to \<open>double\<close>.
\<close>

definition rescale_long :: "int \<Rightarrow> int \<Rightarrow> int \<Rightarrow> int" where
  "rescale_long t old new = c_round (dbl ((t sdiv old) * new))"

text \<open>The arithmetic part of \<open>set_time_tic_value\<close>, up to the call of the \<open>time_tic_changed\<close> jobs.\<close>

definition rescale_times :: "int \<Rightarrow> 'w Executive \<Rightarrow> 'w Executive" where
  "rescale_times in_tics e =
     (let old = ex_time_tic_value e
      in e\<lparr>ex_old_time_tic_value := old, ex_time_tic_value := in_tics,
           ex_time_tics := rescale_tics (ex_time_tics e) old in_tics,
           ex_software_frame_tics := c_trunc (dmul (ex_software_frame e) (dbl in_tics)),
           ex_freeze_frame_tics := c_trunc (dmul (ex_freeze_frame e) (dbl in_tics))\<rparr>)"

definition rescale_freeze :: "'w Executive \<Rightarrow> 'w Executive" where
  "rescale_freeze e =
     (let old = ex_old_time_tic_value e; new = ex_time_tic_value e;
          e1 = e\<lparr>ex_freeze_times := sort (map (\<lambda>t. rescale_long t old new) (ex_freeze_times e))\<rparr>;
          e2 = (case ex_freeze_job e1 of
                  None \<Rightarrow> e1
                | Some fj \<Rightarrow>
                    map_job fj (\<lambda>j. if jd_next_tics j \<noteq> TRICK_MAX_LONG_LONG
                                    then j\<lparr>jd_next_tics := rescale_long (jd_next_tics j) old new\<rparr> else j) e1)
      in if ex_terminate_time e2 \<noteq> TRICK_MAX_LONG_LONG - 1
         then e2\<lparr>ex_terminate_time := rescale_long (ex_terminate_time e2) old new\<rparr> else e2)"

text \<open>
  The loop over the \<open>exec_time_tic_changed\<close> jobs returns from \<open>set_time_tic_value\<close> at the first
  job that fails; \<open>Some ret\<close> is that return. The message it prints reads \<open>curr_job->name\<close>.
\<close>

partial_function (option) call_tic_changed ::
  "'w exec_call \<Rightarrow> 'w Executive \<Rightarrow> (int, 'w Executive) result" where
  "call_tic_changed cf e =
     (case next_local Q_time_tic_changed e of
        (None, e1) \<Rightarrow> Some (Inr 0, e1)
      | (Some j, e1) \<Rightarrow>
          andthen (JobData_call ex_jobs cf j e1)
            (\<lambda>ret e2. if ret \<noteq> 0 then
                        (case ex_curr_job e2 of
                           None \<Rightarrow> Some (Inl (Undefined ''NULL curr_job''), e2)
                         | Some _ \<Rightarrow> Some (Inr ret, e2))
                     else call_tic_changed cf e2))"

declare call_tic_changed.simps [code]

fun all_time_tic_changed :: "int \<Rightarrow> int \<Rightarrow> Threads list \<Rightarrow> abort + Threads list" where
  "all_time_tic_changed old new [] = Inr []"
| "all_time_tic_changed old new (th # ths) =
     (case Threads_time_tic_changed old new th of
        Inl a \<Rightarrow> Inl a
      | Inr th' \<Rightarrow> map_sum id ((#) th') (all_time_tic_changed old new ths))"

definition set_time_tic_value :: "'w exec_call \<Rightarrow> int \<Rightarrow> 'w Executive \<Rightarrow> (int, 'w Executive) result" where
  "set_time_tic_value cf in_tics e =
     (if ex_time_tic_value e = 0 then Some (Inl (Undefined ''time_tics / 0''), e)
      else
        (case reset_job_call_times (reset_job_cycle_times (rescale_times in_tics e)) of
           Inl a \<Rightarrow> Some (Inl a, e)
         | Inr e1 \<Rightarrow>
             andthen (call_tic_changed cf (map_q Q_time_tic_changed reset_curr_index (rescale_freeze e1)))
               (\<lambda>ret e2. if ret \<noteq> 0 then Some (Inr ret, e2)
                 else (case all_time_tic_changed (ex_old_time_tic_value e2) (ex_time_tic_value e2) (ex_threads e2) of
                         Inl a \<Rightarrow> Some (Inl a, e2)
                       | Inr ths \<Rightarrow> Some (Inr 0, e2\<lparr>ex_threads := ths\<rparr>)))))"

subsection \<open>The time that is chosen\<close>

text \<open>What \<open>get_next_job_call_time\<close> returns: the least of the recorded time and the unvisited jobs' times.\<close>

definition lowest_call_time :: "job_heap \<Rightarrow> SJQ \<Rightarrow> int" where
  "lowest_call_time h q = fold min (map (\<lambda>j. jd_next_tics (h j)) (pending_jobs q)) (q_next_job_time q)"

lemma lowest_from_eq:
  "lowest_from h q i =
     q\<lparr>q_next_job_time := fold min (map (\<lambda>j. jd_next_tics (h j)) (drop i (q_list q))) (q_next_job_time q)\<rparr>"
proof (induction "length (q_list q) - i" arbitrary: q i)
  case 0
  then show ?case by (simp add: lowest_from.simps)
next
  case (Suc n)
  let ?j = "q_list q ! i"
  let ?q1 = "if jd_next_tics (h ?j) < q_next_job_time q then q\<lparr>q_next_job_time := jd_next_tics (h ?j)\<rparr> else q"
  have i: "i < length (q_list q)" and l: "q_list ?q1 = q_list q"
    and m: "q_next_job_time ?q1 = min (jd_next_tics (h ?j)) (q_next_job_time q)"
    using Suc.hyps by auto
  have "lowest_from h q i = lowest_from h ?q1 (Suc i)"
    using i by (simp add: lowest_from.simps [of h q i])
  also have "\<dots> = ?q1\<lparr>q_next_job_time :=
      fold min (map (\<lambda>j. jd_next_tics (h j)) (drop (Suc i) (q_list ?q1))) (q_next_job_time ?q1)\<rparr>"
    using Suc.hyps(2) i by (intro Suc.hyps(1)) simp
  also have "\<dots> = q\<lparr>q_next_job_time :=
      fold min (map (\<lambda>j. jd_next_tics (h j)) (drop i (q_list q))) (q_next_job_time q)\<rparr>"
    using i unfolding l m by (simp add: drop_at)
  finally show ?case .
qed

lemma get_next_job_call_time_eq:
  "get_next_job_call_time h q = (lowest_call_time h q, q\<lparr>q_next_job_time := lowest_call_time h q\<rparr>)"
  by (simp add: get_next_job_call_time_def lowest_from_eq lowest_call_time_def pending_jobs_def)

lemma next_call_time_eq:
  "next_call_time r e =
     (lowest_call_time (ex_jobs e) (get_q r e),
      set_q r ((get_q r e)\<lparr>q_next_job_time := lowest_call_time (ex_jobs e) (get_q r e)\<rparr>) e)"
  by (simp add: next_call_time_def get_next_job_call_time_eq)

text \<open>The times the new time is chosen from.\<close>

definition queue_candidate :: "queue_ref \<Rightarrow> int \<Rightarrow> 'w Executive \<Rightarrow> int list" where
  "queue_candidate r now e =
     (let t = lowest_call_time (ex_jobs e) (get_q r e) in if now < t then [t] else [])"

definition thread_times :: "job_heap \<Rightarrow> Threads \<Rightarrow> int list" where
  "thread_times h th =
     (if \<not> th_enabled th then []
      else (case th_process_type th of
              PROCESS_TYPE_SCHEDULED \<Rightarrow> [lowest_call_time h (th_job_queue th)]
            | PROCESS_TYPE_AMF_CHILD \<Rightarrow> (if 0 < th_amf_cycle_tics th then [th_amf_next_tics th] else [])
            | PROCESS_TYPE_ASYNC_CHILD \<Rightarrow> []))"

definition thread_candidate :: "'w Executive \<Rightarrow> nat \<Rightarrow> int list" where
  "thread_candidate e ii = thread_times (ex_jobs e) (ex_threads e ! ii)"

definition candidate_times :: "'w Executive \<Rightarrow> int list" where
  "candidate_times e =
     queue_candidate (Q_thread_job 0) (ex_time_tics e) e @
     queue_candidate Q_input_processor_run (ex_time_tics e) e @
     concat (map (thread_candidate e) [1..<length (ex_threads e)]) @ [ex_terminate_time e]"

text \<open>The state up to the lowest times recorded in the queues; no candidate depends on those.\<close>

definition same_plan :: "'w Executive \<Rightarrow> 'w Executive \<Rightarrow> bool" where
  "same_plan e e' \<longleftrightarrow>
     ex_jobs e' = ex_jobs e \<and> length (ex_threads e') = length (ex_threads e) \<and>
     ex_time_last_pass_tics e' = ex_time_last_pass_tics e \<and> ex_terminate_time e' = ex_terminate_time e \<and>
     ex_software_frame_tics e' = ex_software_frame_tics e \<and>
     ex_next_frame_check_tics e' = ex_next_frame_check_tics e \<and>
     thread_candidate e' = thread_candidate e \<and>
     lowest_call_time (ex_jobs e) (get_q Q_input_processor_run e') =
       lowest_call_time (ex_jobs e) (get_q Q_input_processor_run e)"

lemma fold_min_min: "fold min xs (min a b) = min a (fold min xs (b :: int))"
proof (induction xs arbitrary: b)
  case (Cons x xs)
  have "fold min (x # xs) (min a b) = fold min xs (min a (min x b))" by (simp add: min.left_commute)
  then show ?case by (simp only: Cons.IH) simp
qed simp

lemma lowest_call_time_idem [simp]:
  "lowest_call_time h (q\<lparr>q_next_job_time := lowest_call_time h q\<rparr>) = lowest_call_time h q"
proof -
  let ?xs = "map (\<lambda>j. jd_next_tics (h j)) (pending_jobs q)"
  have "fold min xs (fold min xs m) = fold min xs m" for xs and m :: int
  proof (induction xs arbitrary: m)
    case (Cons x xs)
    have "fold min (x # xs) (fold min (x # xs) m) = min x (fold min xs (min x (fold min xs m)))"
      by (simp add: fold_min_min)
    also have "\<dots> = min x (min x (fold min xs (fold min xs m)))" by (simp only: fold_min_min)
    also have "\<dots> = fold min (x # xs) m" by (simp add: Cons.IH fold_min_min)
    finally show ?case .
  qed simp
  then show ?thesis by (simp add: lowest_call_time_def pending_jobs_def)
qed

lemma thread_candidate_time [simp]:
  "thread_candidate (e\<lparr>ex_time_tics := t\<rparr>) = thread_candidate e"
  "thread_candidate (e\<lparr>ex_time_last_pass_tics := t\<rparr>) = thread_candidate e"
  by (simp_all add: thread_candidate_def fun_eq_iff)

text \<open>The state with the lowest call time recorded in a queue, as \<open>get_next_job_call_time\<close> leaves it.\<close>

definition record_lowest :: "queue_ref \<Rightarrow> 'w Executive \<Rightarrow> 'w Executive" where
  "record_lowest r e = set_q r ((get_q r e)\<lparr>q_next_job_time := lowest_call_time (ex_jobs e) (get_q r e)\<rparr>) e"

lemma thread_times_record [simp]:
  "thread_times h (th\<lparr>th_job_queue := (th_job_queue th)\<lparr>q_next_job_time := lowest_call_time h (th_job_queue th)\<rparr>\<rparr>)
   = thread_times h th"
  by (cases "th_process_type th") (simp_all add: thread_times_def)

lemma record_lowest_thread: "thread_candidate (record_lowest (Q_thread_job ii) e) = thread_candidate e"
proof
  fix k
  show "thread_candidate (record_lowest (Q_thread_job ii) e) k = thread_candidate e k"
    by (cases "ii < length (ex_threads e) \<and> k = ii")
      (auto simp: thread_candidate_def record_lowest_def nth_update)
qed

lemma record_lowest_plan:
  assumes "r = Q_thread_job ii \<or> r = Q_input_processor_run"
  shows "same_plan e (record_lowest r e)"
  using assms
proof
  assume r: "r = Q_thread_job ii"
  show ?thesis using record_lowest_thread [of ii e]
    unfolding same_plan_def r by (simp add: record_lowest_def)
next
  assume r: "r = Q_input_processor_run"
  have "thread_candidate (record_lowest r e) = thread_candidate e"
    by (simp add: r thread_candidate_def record_lowest_def fun_eq_iff)
  then show ?thesis unfolding same_plan_def r by (simp add: record_lowest_def)
qed

lemma same_plan_time [simp]: "same_plan e (e'\<lparr>ex_time_tics := t\<rparr>) = same_plan e e'"
  by (simp add: same_plan_def)

lemma same_plan_refl [simp]: "same_plan a a"
  by (simp add: same_plan_def)

lemma same_plan_trans: "same_plan a b \<Longrightarrow> same_plan b c \<Longrightarrow> same_plan a c"
  unfolding same_plan_def by (elim conjE) (intro conjI; metis)

lemma advance_to_queue_eq:
  "advance_to_queue r e =
     (let t = lowest_call_time (ex_jobs e) (get_q r e)
      in if t < ex_time_tics e \<and> ex_time_last_pass_tics e < t
         then (record_lowest r e)\<lparr>ex_time_tics := t\<rparr> else record_lowest r e)"
  by (simp add: advance_to_queue_def next_call_time_eq record_lowest_def Let_def)

lemma advance_to_queue_time:
  assumes "r = Q_thread_job ii \<or> r = Q_input_processor_run"
  shows "same_plan e (advance_to_queue r e)"
    and "ex_time_tics (advance_to_queue r e) =
      fold min (queue_candidate r (ex_time_last_pass_tics e) e) (ex_time_tics e)"
  using record_lowest_plan [OF assms, of e]
  by (simp_all add: advance_to_queue_eq Let_def queue_candidate_def)
    (simp add: record_lowest_def)

lemma advance_to_thread_eq:
  "advance_to_thread ii e =
     (let th = ex_threads e ! ii; t = lowest_call_time (ex_jobs e) (th_job_queue th);
          e1 = record_lowest (Q_thread_job ii) e
      in if \<not> th_enabled th then e
         else (case th_process_type th of
                 PROCESS_TYPE_SCHEDULED \<Rightarrow> if t < ex_time_tics e then e1\<lparr>ex_time_tics := t\<rparr> else e1
               | PROCESS_TYPE_AMF_CHILD \<Rightarrow>
                   if 0 < th_amf_cycle_tics th \<and> th_amf_next_tics th < ex_time_tics e
                   then e\<lparr>ex_time_tics := th_amf_next_tics th\<rparr> else e
               | PROCESS_TYPE_ASYNC_CHILD \<Rightarrow> e))"
  by (cases "th_process_type (ex_threads e ! ii)")
    (simp_all add: advance_to_thread_def next_call_time_eq record_lowest_def Let_def)

lemma record_lowest_time [simp]:
  "ex_time_tics (record_lowest r e) = ex_time_tics e"
  by (simp add: record_lowest_def)

lemma advance_to_thread_time:
  "same_plan e (advance_to_thread ii e)"
  "ex_time_tics (advance_to_thread ii e) = fold min (thread_candidate e ii) (ex_time_tics e)"
  using record_lowest_plan [of "Q_thread_job ii" ii e]
  by (cases "th_process_type (ex_threads e ! ii)";
      simp add: advance_to_thread_eq thread_candidate_def thread_times_def Let_def)+

lemma advance_threads_time:
  "same_plan e (fold advance_to_thread ks e) \<and>
   ex_time_tics (fold advance_to_thread ks e) = fold min (concat (map (thread_candidate e) ks)) (ex_time_tics e)"
proof (induction ks arbitrary: e)
  case Nil
  then show ?case by simp
next
  case (Cons i ks)
  have "thread_candidate (advance_to_thread i e) = thread_candidate e"
    using advance_to_thread_time(1) [of e i] by (simp add: same_plan_def)
  then show ?case
    using Cons.IH [of "advance_to_thread i e"] advance_to_thread_time(1) [of e i] advance_to_thread_time(2) [of i e]
    by (auto intro: same_plan_trans)
qed

lemma choose_time_min:
  "ex_time_tics (choose_time e) = fold min (candidate_times e) (ex_next_frame_check_tics e)"
  "ex_time_last_pass_tics (choose_time e) = ex_time_tics e"
  "same_plan (e\<lparr>ex_time_last_pass_tics := ex_time_tics e, ex_time_tics := ex_next_frame_check_tics e\<rparr>) (choose_time e)"
proof -
  define e1 where "e1 = e\<lparr>ex_time_last_pass_tics := ex_time_tics e, ex_time_tics := ex_next_frame_check_tics e\<rparr>"
  define e2 where "e2 = advance_to_queue (Q_thread_job 0) e1"
  define e3 where "e3 = advance_to_queue Q_input_processor_run e2"
  define e4 where "e4 = fold advance_to_thread [1..<length (ex_threads e3)] e3"
  have p2: "same_plan e1 e2" and t2: "ex_time_tics e2 =
      fold min (queue_candidate (Q_thread_job 0) (ex_time_tics e) e) (ex_next_frame_check_tics e)"
    using advance_to_queue_time [of "Q_thread_job 0" 0 e1]
    by (simp_all add: e2_def e1_def queue_candidate_def get_q_cong)
  have p3: "same_plan e2 e3" and t3: "ex_time_tics e3 =
      fold min (queue_candidate Q_input_processor_run (ex_time_tics e) e) (ex_time_tics e2)"
    using advance_to_queue_time [of "Q_input_processor_run" 0 e2] p2
    by (simp_all add: e3_def e1_def queue_candidate_def same_plan_def get_q_cong)
  have p13: "same_plan e1 e3" using p2 p3 by (rule same_plan_trans)
  have p4: "same_plan e3 e4" and t4: "ex_time_tics e4 =
      fold min (concat (map (thread_candidate e3) [1..<length (ex_threads e3)])) (ex_time_tics e3)"
    using advance_threads_time by (auto simp: e4_def)
  have p14: "same_plan e1 e4" using p13 p4 by (rule same_plan_trans)
  have th: "thread_candidate e3 = thread_candidate e" "length (ex_threads e3) = length (ex_threads e)"
    using p13 by (auto simp: same_plan_def e1_def thread_candidate_def fun_eq_iff)
  have ct: "choose_time e =
      (if ex_terminate_time e4 < ex_time_tics e4 then e4\<lparr>ex_time_tics := ex_terminate_time e4\<rparr> else e4)"
    by (simp add: choose_time_def e1_def e2_def e3_def e4_def Let_def)
  show "same_plan (e\<lparr>ex_time_last_pass_tics := ex_time_tics e, ex_time_tics := ex_next_frame_check_tics e\<rparr>) (choose_time e)"
    using p14 by (simp add: ct flip: e1_def)
  show "ex_time_last_pass_tics (choose_time e) = ex_time_tics e"
    using p14 by (simp add: ct same_plan_def e1_def)
  have "ex_terminate_time e4 = ex_terminate_time e" using p14 by (simp add: same_plan_def e1_def)
  then have "ex_time_tics (choose_time e) = fold min (concat (map (thread_candidate e) [1..<length (ex_threads e)]) @ [ex_terminate_time e]) (ex_time_tics e3)"
    using t4 th by (auto simp: ct min_def)
  then show "ex_time_tics (choose_time e) = fold min (candidate_times e) (ex_next_frame_check_tics e)"
    by (simp add: candidate_times_def t3 t2)
qed

end
