(* ===== verification/ExecLoop.thy ===== *)
theory ExecLoop
  imports ExecTime
begin

text \<open>
  The loops of \<open>Trick::Executive\<close>: initialization, the freeze loop, the single and the multi
  threaded scheduler loop, and shutdown (sim\_services/Executive/Executive\_init.cpp,
  \_call\_default\_data.cpp, \_call\_input\_processor.cpp, \_call\_initialization.cpp,
  \_init\_freeze\_scheduled.cpp, \_freeze\_loop.cpp, \_loop.cpp, \_loop\_single\_thread.cpp,
  \_loop\_multi\_thread.cpp, \_shutdown.cpp, \_process\_sim\_args.cpp).

  \<open>cf\<close> is what the jobs' functions do (\<open>SimObject::call_function\<close>, generated for every
  simulation). \<open>__FILE__\<close> is given as the name of the source file without its directory.
\<close>

subsection \<open>Calling the jobs of a queue\<close>

text \<open>\<open>exec_terminate_with_return(ret, curr_job->name.c_str(), 0, msg)\<close>.\<close>

definition throw_job :: "int \<Rightarrow> string \<Rightarrow> 'w Executive \<Rightarrow> (unit, 'w Executive) result" where
  "throw_job ret msg e =
     (case ex_curr_job e of
        None \<Rightarrow> Some (Inl (Undefined ''NULL curr_job''), e)
      | Some j \<Rightarrow> Some (Inl (mk_ExecutiveException ret (jd_name (ex_jobs e j)) 0 msg), e))"

text \<open>\<open>ret = curr_job->call(); if (ret != 0) exec_terminate_with_return(...)\<close>.\<close>

definition call_checked :: "'w exec_call \<Rightarrow> string \<Rightarrow> job_ptr \<Rightarrow> 'w Executive \<Rightarrow> (unit, 'w Executive) result" where
  "call_checked cf msg j e =
     andthen (JobData_call ex_jobs cf j e)
       (\<lambda>ret e1. if ret \<noteq> 0 then throw_job ret msg e1 else Some (Inr (), e1))"

definition call_ignored :: "'w exec_call \<Rightarrow> job_ptr \<Rightarrow> 'w Executive \<Rightarrow> (unit, 'w Executive) result" where
  "call_ignored cf j e = andthen (JobData_call ex_jobs cf j e) (\<lambda>_ e1. Some (Inr (), e1))"

text \<open>\<open>queue.test_next_job_call_time(curr_job, time)\<close>.\<close>

definition test_curr :: "queue_ref \<Rightarrow> int \<Rightarrow> 'w Executive \<Rightarrow> (unit, 'w Executive) result" where
  "test_curr r time e =
     (case ex_curr_job e of
        None \<Rightarrow> Some (Inl (Undefined ''NULL curr_job''), e)
      | Some j \<Rightarrow> Some (Inr (), map_q r (\<lambda>q. test_next_job_call_time (ex_jobs e) q j time) e))"

text \<open>\<open>if (curr_job->system_job_class) queue.test_next_job_call_time(curr_job, time)\<close>.\<close>

definition test_system :: "queue_ref \<Rightarrow> int \<Rightarrow> 'w Executive \<Rightarrow> (unit, 'w Executive) result" where
  "test_system r time e =
     (case ex_curr_job e of
        None \<Rightarrow> Some (Inl (Undefined ''NULL curr_job''), e)
      | Some j \<Rightarrow> if jd_system_job_class (ex_jobs e j) then test_curr r time e else Some (Inr (), e))"

text \<open>Reset a queue and call all its enabled jobs.\<close>

definition run_queue :: "'w exec_call \<Rightarrow> queue_ref \<Rightarrow> string \<Rightarrow> 'w Executive \<Rightarrow> (unit, 'w Executive) result" where
  "run_queue cf r msg e = walk (next_curr r) (call_checked cf msg) (map_q r reset_curr_index e)"

definition run_queue_ignored :: "'w exec_call \<Rightarrow> queue_ref \<Rightarrow> 'w Executive \<Rightarrow> (unit, 'w Executive) result" where
  "run_queue_ignored cf r e = walk (next_curr r) (call_ignored cf) (map_q r reset_curr_index e)"

subsection \<open>Initialization\<close>

definition call_default_data :: "'w exec_call \<Rightarrow> 'w Executive \<Rightarrow> (int, 'w Executive) result" where
  "call_default_data cf e =
     andthen (run_queue cf Q_default_data ''default_data job did not return 0''
                (e\<lparr>ex_except_file := ''in default_data queue''\<rparr>))
       (\<lambda>_ e1. Some (Inr 0, e1))"

definition call_initialization :: "'w exec_call \<Rightarrow> 'w Executive \<Rightarrow> (int, 'w Executive) result" where
  "call_initialization cf e =
     andthen (run_queue cf Q_initialization ''initialization job did not return 0''
                (e\<lparr>ex_except_file := ''in intialization queue''\<rparr>))
       (\<lambda>_ e1. Some (Inr 0, e1))"

text \<open>\<open>!restart_called and (curr_job = ...) != NULL\<close>: after a restart the queue is not read.\<close>

definition next_input :: "'w Executive \<Rightarrow> job_ptr option \<times> 'w Executive" where
  "next_input e = (if ex_restart_called e then (None, e) else next_curr Q_input_processor e)"

definition call_input_processor :: "'w exec_call \<Rightarrow> 'w Executive \<Rightarrow> (int, 'w Executive) result" where
  "call_input_processor cf e =
     andthen (walk next_input (call_checked cf ''input_processor job did not return 0'')
                (map_q Q_input_processor reset_curr_index
                   (e\<lparr>ex_except_file := ''in input_processor queue''\<rparr>)))
       (\<lambda>_ e1. Some (Inr 0, e1))"

text \<open>
  \<open>process_sim_args\<close>: \<open>None\<close> is \<open>exit(0)\<close>; otherwise whether the initialization log is opened.
\<close>

definition process_sim_args :: "string list \<Rightarrow> bool option" where
  "process_sim_args argv =
     (if 1 < length argv then
        (if argv ! 1 = ''trick_version'' then None
         else if argv ! 1 \<in> {''-help'', ''--help'', ''-h'', ''help''} then None
         else if argv ! 1 = ''sie'' then Some False
         else Some True)
      else Some True)"

text \<open>The \<open>catch\<close> clauses: the exception is recorded, anything else passes.\<close>

definition catch_exec ::
  "(int \<Rightarrow> string \<Rightarrow> string \<Rightarrow> 'w Executive \<Rightarrow> ('a, 'w Executive) result) \<Rightarrow>
   ('a, 'w Executive) result \<Rightarrow> ('a, 'w Executive) result" where
  "catch_exec handler r =
     (case r of
        Some (Inl (ExecutiveException ret_code file message), e) \<Rightarrow> handler ret_code file message e
      | _ \<Rightarrow> r)"

definition record_exception :: "int \<Rightarrow> string \<Rightarrow> string \<Rightarrow> 'w Executive \<Rightarrow> 'w Executive" where
  "record_exception ret_code file message e =
     e\<lparr>ex_except_return := ret_code, ex_except_file := file, ex_except_message := message\<rparr>"

text \<open>\<open>self\<close> is the calling thread; the CPU usage of the process is not modelled.\<close>

definition init_body :: "'w exec_call \<Rightarrow> nat option \<Rightarrow> string list \<Rightarrow> 'w Executive \<Rightarrow> (int, 'w Executive) result" where
  "init_body cf self argv e =
     (case process_sim_args argv of
        None \<Rightarrow> None
      | Some _ \<Rightarrow>
          andthen (call_default_data cf (e\<lparr>ex_mode := Initialization\<rparr>)) (\<lambda>_ e1.
          andthen (call_input_processor cf e1) (\<lambda>_ e2.
          andthen (if ex_restart_called e2 then Some (Inr 0, e2) else call_initialization cf e2) (\<lambda>_ e3.
            let e4 = e3\<lparr>ex_next_frame_check_tics := ex_software_frame_tics e3 + ex_time_tics e3,
                        ex_job_call_time_tics := ex_software_frame_tics e3 + ex_time_tics e3\<rparr>
            in case get_sim_time self e4 of
                 Inl a \<Rightarrow> Some (Inl a, e4)
               | Inr t \<Rightarrow> Some (Inr 0, e4\<lparr>ex_sim_start := t, ex_initialization_complete := True\<rparr>)))))"

definition init :: "'w exec_call \<Rightarrow> nat option \<Rightarrow> string list \<Rightarrow> 'w Executive \<Rightarrow> (int, 'w Executive) result" where
  "init cf self argv e =
     catch_exec (\<lambda>ret file msg e1. Some (Inr (-1), record_exception ret file msg e1))
       (init_body cf self argv e)"

subsection \<open>The freeze loop\<close>

definition init_freeze_scheduled :: "'w Executive \<Rightarrow> (int, 'w Executive) result" where
  "init_freeze_scheduled e =
     (let e1 = e\<lparr>ex_freeze_time_tics := 0, ex_freeze_frame_count := 0,
                 ex_next_freeze_frame_check_tics := ex_freeze_frame_tics e\<rparr>;
          e2 = map_q Q_freeze_scheduled (set_next_job_call_time (ex_freeze_time_tics e1)) e1
      in andthen (walk (next_local Q_freeze_scheduled)
                    (\<lambda>j e3. Some (Inr (), map_job j (\<lambda>jd. jd\<lparr>jd_next_tics := 0\<rparr>) e3))
                    (map_q Q_freeze_scheduled reset_curr_index e2))
           (\<lambda>_ e4. Some (Inr 0, e4)))"

definition freeze_body :: "'w exec_call \<Rightarrow> job_ptr \<Rightarrow> 'w Executive \<Rightarrow> (unit, 'w Executive) result" where
  "freeze_body cf j e =
     andthen (call_checked cf ''job did not return 0'' j e)
       (\<lambda>_ e1. test_system Q_freeze_scheduled (ex_freeze_time_tics e1) e1)"

definition advance_freeze_time :: "'w Executive \<Rightarrow> 'w Executive" where
  "advance_freeze_time e =
     (let (t, e1) = next_call_time Q_freeze_scheduled e;
          e2 = e1\<lparr>ex_freeze_time_tics := t\<rparr>;
          e3 = (if ex_next_freeze_frame_check_tics e2 < ex_freeze_time_tics e2
                then e2\<lparr>ex_freeze_time_tics := ex_next_freeze_frame_check_tics e2\<rparr> else e2)
      in map_q Q_freeze_scheduled
           (set_next_job_call_time (ex_freeze_time_tics e3 + ex_freeze_frame_tics e3)) e3)"

text \<open>\<open>while ( freeze_time_tics < next_freeze_frame_check_tics )\<close>.\<close>

partial_function (option) freeze_scheduled_jobs ::
  "'w exec_call \<Rightarrow> 'w Executive \<Rightarrow> (unit, 'w Executive) result" where
  "freeze_scheduled_jobs cf e =
     (if ex_freeze_time_tics e < ex_next_freeze_frame_check_tics e then
        andthen (walk (next_freeze Q_freeze_scheduled) (freeze_body cf)
                   (map_q Q_freeze_scheduled reset_curr_index e))
          (\<lambda>_ e1. freeze_scheduled_jobs cf (advance_freeze_time e1))
      else Some (Inr (), e))"

declare freeze_scheduled_jobs.simps [code]

definition after_freeze_jobs :: "'w Executive \<Rightarrow> (unit, 'w Executive) result" where
  "after_freeze_jobs e =
     (let e1 = (if ex_exec_command e = RunCmd then e\<lparr>ex_mode := Run, ex_exec_command := NoCmd\<rparr>
                else if ex_exec_command e = FreezeCmd then e\<lparr>ex_exec_command := NoCmd\<rparr> else e)
      in if ex_exec_command e1 = ExitCmd
         then Some (Inl (mk_ExecutiveException 0 ''Executive_freeze_loop.cpp'' 85 ''Sim control Shutdown''), e1)
         else Some (Inr (), e1))"

text \<open>One iteration of \<open>while (mode == Freeze)\<close>.\<close>

definition freeze_pass :: "'w exec_call \<Rightarrow> 'w Executive \<Rightarrow> (unit, 'w Executive) result" where
  "freeze_pass cf e =
     andthen (freeze_scheduled_jobs cf e) (\<lambda>_ e1.
     andthen (run_queue cf Q_freeze ''job did not return 0''
                (e1\<lparr>ex_freeze_frame_count := ex_freeze_frame_count e1 + 1,
                    ex_next_freeze_frame_check_tics :=
                      ex_next_freeze_frame_check_tics e1 + ex_freeze_frame_tics e1\<rparr>)) (\<lambda>_ e2.
     after_freeze_jobs e2))"

partial_function (option) freeze_passes :: "'w exec_call \<Rightarrow> 'w Executive \<Rightarrow> (unit, 'w Executive) result" where
  "freeze_passes cf e =
     (if ex_mode e = Freeze then andthen (freeze_pass cf e) (\<lambda>_ e1. freeze_passes cf e1)
      else Some (Inr (), e))"

declare freeze_passes.simps [code]

definition freeze_loop :: "'w exec_call \<Rightarrow> 'w Executive \<Rightarrow> (unit, 'w Executive) result" where
  "freeze_loop cf e =
     andthen (run_queue_ignored cf Q_freeze_init (e\<lparr>ex_mode := Freeze\<rparr>)) (\<lambda>_ e1.
     andthen (freeze_passes cf e1) (\<lambda>_ e2.
     run_queue_ignored cf Q_unfreeze e2))"

subsection \<open>The scheduler loops\<close>

definition freeze_if_commanded :: "'w exec_call \<Rightarrow> 'w Executive \<Rightarrow> (unit, 'w Executive) result" where
  "freeze_if_commanded cf e =
     (if ex_exec_command e = FreezeCmd then freeze_loop cf (e\<lparr>ex_exec_command := NoCmd\<rparr>)
      else Some (Inr (), e))"

text \<open>\<open>loop_single_thread\<close>, block by block.\<close>

definition run_top_of_frame :: "'w exec_call \<Rightarrow> 'w Executive \<Rightarrow> (unit, 'w Executive) result" where
  "run_top_of_frame cf e =
     (if ex_time_tics e = ex_next_frame_check_tics e - ex_software_frame_tics e then
        andthen (run_queue cf Q_top_of_frame ''top_of_frame job did not return 0'' e)
          (\<lambda>_ e1. Some (Inr (), e1\<lparr>ex_frame_count := ex_frame_count e1 + 1\<rparr>))
      else Some (Inr (), e))"

definition input_run_body :: "'w exec_call \<Rightarrow> job_ptr \<Rightarrow> 'w Executive \<Rightarrow> (unit, 'w Executive) result" where
  "input_run_body cf j e =
     andthen (call_checked cf ''input_processor_run job did not return 0'' j e)
       (\<lambda>_ e1. test_curr Q_input_processor_run (ex_time_tics e1) e1)"

definition run_input_processor_run :: "'w exec_call \<Rightarrow> 'w Executive \<Rightarrow> (unit, 'w Executive) result" where
  "run_input_processor_run cf e =
     walk (next_now Q_input_processor_run) (input_run_body cf) (map_q Q_input_processor_run reset_curr_index e)"

definition sched_body :: "'w exec_call \<Rightarrow> job_ptr \<Rightarrow> 'w Executive \<Rightarrow> (unit, 'w Executive) result" where
  "sched_body cf j e =
     andthen (call_checked cf ''scheduled job did not return 0'' j e)
       (\<lambda>_ e1. test_system (Q_thread_job 0) (ex_time_tics e1) e1)"

definition run_scheduled :: "'w exec_call \<Rightarrow> 'w Executive \<Rightarrow> (unit, 'w Executive) result" where
  "run_scheduled cf e =
     walk (next_now (Q_thread_job 0)) (sched_body cf) (map_q (Q_thread_job 0) reset_curr_index e)"

text \<open>
  The tests after the scheduled jobs. The two loops differ: the single threaded one sets
  \<open>exec_command = ExitCmd\<close> when the termination time is reached, the multi threaded one does not.
\<close>

definition check_exit :: "string \<Rightarrow> int \<Rightarrow> int \<Rightarrow> bool \<Rightarrow> 'w Executive \<Rightarrow> (unit, 'w Executive) result" where
  "check_exit file shutdown_line terminate_line set_exit e =
     (if ex_exec_command e = ExitCmd
      then Some (Inl (mk_ExecutiveException 0 file shutdown_line ''Sim control Shutdown''), e)
      else
        (let e1 = (if ex_exec_command e = RunCmd then e\<lparr>ex_exec_command := NoCmd\<rparr> else e)
         in if ex_terminate_time e1 \<le> ex_time_last_pass_tics e1 then
              Some (Inl (mk_ExecutiveException 0 file terminate_line ''Reached termination time''),
                    e1\<lparr>ex_time_tics := ex_time_last_pass_tics e1,
                       ex_exec_command := (if set_exit then ExitCmd else ex_exec_command e1)\<rparr>)
            else Some (Inr (), e1)))"

definition run_end_of_frame :: "'w exec_call \<Rightarrow> 'w Executive \<Rightarrow> (unit, 'w Executive) result" where
  "run_end_of_frame cf e =
     (if ex_time_tics e = ex_next_frame_check_tics e then
        andthen (run_queue cf Q_end_of_frame ''end_of_frame job did not return 0'' e)
          (\<lambda>_ e1. Some (Inr (), e1\<lparr>ex_next_frame_check_tics :=
                     ex_next_frame_check_tics e1 + ex_software_frame_tics e1\<rparr>))
      else Some (Inr (), e))"

definition single_pass :: "'w exec_call \<Rightarrow> 'w Executive \<Rightarrow> (unit, 'w Executive) result" where
  "single_pass cf e =
     andthen (freeze_if_commanded cf e) (\<lambda>_ e1.
     andthen (run_top_of_frame cf e1) (\<lambda>_ e2.
     andthen (run_input_processor_run cf e2) (\<lambda>_ e3.
     andthen (run_scheduled cf e3) (\<lambda>_ e4.
     andthen (check_exit ''Executive_loop_single_thread.cpp'' 85 98 True e4) (\<lambda>_ e5.
     run_end_of_frame cf e5)))))"

text \<open>\<open>while (1)\<close>: the loop ends only by an exception.\<close>

partial_function (option) loop_single_thread :: "'w exec_call \<Rightarrow> 'w Executive \<Rightarrow> (int, 'w Executive) result" where
  "loop_single_thread cf e = andthen (single_pass cf e) (\<lambda>_ e1. loop_single_thread cf e1)"

declare loop_single_thread.simps [code]

text \<open>\<open>loop_multi_thread\<close>. The frame queues of the children run on the main thread.\<close>

definition run_child_frame_queues ::
  "'w exec_call \<Rightarrow> (nat \<Rightarrow> queue_ref) \<Rightarrow> string \<Rightarrow> 'w Executive \<Rightarrow> (unit, 'w Executive) result" where
  "run_child_frame_queues cf q msg e =
     for_threads (\<lambda>ii e1.
       if th_process_type (ex_threads e1 ! ii) = PROCESS_TYPE_SCHEDULED then run_queue cf (q ii) msg e1
       else Some (Inr (), e1)) 1 e"

definition multi_top_of_frame :: "'w exec_call \<Rightarrow> 'w Executive \<Rightarrow> (unit, 'w Executive) result" where
  "multi_top_of_frame cf e =
     (if ex_time_tics e = ex_next_frame_check_tics e - ex_software_frame_tics e then
        andthen (run_queue cf Q_top_of_frame ''top_of_frame job did not return 0'' e) (\<lambda>_ e1.
        andthen (run_child_frame_queues cf Q_thread_top ''top_of_frame job did not return 0'' e1) (\<lambda>_ e2.
        Some (Inr (), e2\<lparr>ex_frame_count := ex_frame_count e2 + 1\<rparr>)))
      else Some (Inr (), e))"

definition multi_input_body :: "'w exec_call \<Rightarrow> job_ptr \<Rightarrow> 'w Executive \<Rightarrow> (unit, 'w Executive) result" where
  "multi_input_body cf j e =
     andthen (call_checked cf ''input_processor_run job did not return 0'' j e) (\<lambda>_ e1.
     andthen (test_curr Q_input_processor_run (ex_time_tics e1) e1) (\<lambda>_ e2.
     test_system (Q_thread_job 0) (ex_time_tics e2) e2))"

definition trigger_thread :: "'w Environment \<Rightarrow> nat \<Rightarrow> 'w Executive \<Rightarrow> (unit, 'w Executive) result" where
  "trigger_thread env ii e =
     (let curr_thread = ex_threads e ! ii
      in if isThreadReadyToRun curr_thread (ex_time_tics e) then
           Some (Inr (), env_fire env ii (map_thread ii (\<lambda>th. th\<lparr>th_curr_time_tics := ex_time_tics e,
                   th_child_complete := False,
                   th_amf_next_tics := th_amf_next_tics th + th_amf_cycle_tics th\<rparr>) e))
         else Some (Inr (), e))"

text \<open>\<open>for ( ii = 0 ; ii < curr_job->depends.size() ; ii++ )\<close> wait for \<open>curr_job->depends[ii]\<close>.\<close>

partial_function (option) wait_depends ::
  "'w Environment \<Rightarrow> job_ptr \<Rightarrow> nat \<Rightarrow> 'w Executive \<Rightarrow> (unit, 'w Executive) result" where
  "wait_depends env j ii e =
     (if ii < length (jd_depends (ex_jobs e j)) then
        andthen (spin env (JobComplete (jd_depends (ex_jobs e j) ! ii)) e)
          (\<lambda>_ e1. wait_depends env j (Suc ii) e1)
      else Some (Inr (), e))"

declare wait_depends.simps [code]

definition set_complete :: "'w Executive \<Rightarrow> (unit, 'w Executive) result" where
  "set_complete e =
     (case ex_curr_job e of
        None \<Rightarrow> Some (Inl (Undefined ''NULL curr_job''), e)
      | Some j \<Rightarrow> Some (Inr (), map_job j (\<lambda>jd. jd\<lparr>jd_complete := True\<rparr>) e))"

definition multi_sched_body ::
  "'w exec_call \<Rightarrow> 'w Environment \<Rightarrow> job_ptr \<Rightarrow> 'w Executive \<Rightarrow> (unit, 'w Executive) result" where
  "multi_sched_body cf env j e =
     andthen (wait_depends env j 0 e) (\<lambda>_ e1.
     andthen (sched_body cf j e1) (\<lambda>_ e2. set_complete e2))"

definition multi_end_of_frame :: "'w exec_call \<Rightarrow> 'w Executive \<Rightarrow> (unit, 'w Executive) result" where
  "multi_end_of_frame cf e =
     (if ex_time_tics e = ex_next_frame_check_tics e then
        andthen (run_queue cf Q_end_of_frame ''end_of_frame job did not return 0'' e) (\<lambda>_ e1.
        andthen (run_child_frame_queues cf Q_thread_end ''end_of_frame job did not return 0'' e1) (\<lambda>_ e2.
        Some (Inr (), e2\<lparr>ex_next_frame_check_tics :=
                ex_next_frame_check_tics e2 + ex_software_frame_tics e2\<rparr>)))
      else Some (Inr (), e))"

definition multi_pass :: "'w exec_call \<Rightarrow> 'w Environment \<Rightarrow> 'w Executive \<Rightarrow> (unit, 'w Executive) result" where
  "multi_pass cf env e =
     andthen (freeze_if_commanded cf e) (\<lambda>_ e1.
     andthen (multi_top_of_frame cf e1) (\<lambda>_ e2.
     andthen (run_queue cf Q_thread_sync ''thread_sync job did not return 0'' e2) (\<lambda>_ e3.
     andthen (walk (next_now Q_input_processor_run) (multi_input_body cf)
                (map_q Q_input_processor_run reset_curr_index e3)) (\<lambda>_ e4.
     andthen (for_threads (trigger_thread env) 1 e4) (\<lambda>_ e5.
     andthen (walk (next_now (Q_thread_job 0)) (multi_sched_body cf env)
                (map_q (Q_thread_job 0) reset_curr_index e5)) (\<lambda>_ e6.
     andthen (check_exit ''Executive_loop_multi_thread.cpp'' 170 182 False e6) (\<lambda>_ e7.
     multi_end_of_frame cf e7)))))))"

partial_function (option) multi_passes ::
  "'w exec_call \<Rightarrow> 'w Environment \<Rightarrow> 'w Executive \<Rightarrow> (int, 'w Executive) result" where
  "multi_passes cf env e = andthen (multi_pass cf env e) (\<lambda>_ e1. multi_passes cf env e1)"

declare multi_passes.simps [code]

definition loop_multi_thread :: "'w exec_call \<Rightarrow> 'w Environment \<Rightarrow> 'w Executive \<Rightarrow> (int, 'w Executive) result" where
  "loop_multi_thread cf env e =
     andthen (for_threads (\<lambda>ii e1. spin env (ChildComplete ii) e1) 1 e) (\<lambda>_ e1. multi_passes cf env e1)"

definition exec_loop :: "'w exec_call \<Rightarrow> 'w Environment \<Rightarrow> 'w Executive \<Rightarrow> (int, 'w Executive) result" where
  "exec_loop cf env e =
     (if length (ex_threads e) = 0 then Some (Inr 0, e)
      else
        (let e1 = (if ex_freeze_command e then e\<lparr>ex_exec_command := FreezeCmd\<rparr> else e);
             e2 = e1\<lparr>ex_mode := Run\<rparr>
         in catch_exec (\<lambda>ret file msg e3. Some (Inr ret, record_exception ret file msg e3))
              (andthen (if length (ex_threads e2) = 1 then loop_single_thread cf e2
                        else loop_multi_thread cf env e2)
                 (\<lambda>_ e3. Some (Inr 0, e3)))))"

subsection \<open>Shutdown\<close>

text \<open>
  \<open>others\<close> is what closing the variable server's connections and \<open>SysThread::ensureAllShutdown\<close>
  do; the final message and the cancellation of the threads do not change the state.
\<close>

definition shutdown_waits :: "Threads \<Rightarrow> bool" where
  "shutdown_waits th \<longleftrightarrow>
     (th_process_type th = PROCESS_TYPE_ASYNC_CHILD \<or> th_process_type th = PROCESS_TYPE_AMF_CHILD) \<and>
     th_shutdown_wait_async th"

definition shutdown ::
  "'w exec_call \<Rightarrow> 'w Environment \<Rightarrow> ('w Executive \<Rightarrow> 'w Executive) \<Rightarrow> ('w Executive \<Rightarrow> 'w Executive) \<Rightarrow>
   'w Executive \<Rightarrow> (int, 'w Executive) result" where
  "shutdown cf env close_connections stop_threads e =
     andthen
       (if ex_mode e \<noteq> Initialization then
          for_threads (\<lambda>ii e1. if shutdown_waits (ex_threads e1 ! ii) then spin env (ChildComplete ii) e1
                               else Some (Inr (), e1)) 1 (e\<lparr>ex_mode := ExitMode\<rparr>)
        else Some (Inr (), e\<lparr>ex_mode := ExitMode\<rparr>))
       (\<lambda>_ e1.
          let e2 = close_connections e1
          in andthen
               (catch_exec
                  (\<lambda>ret file msg e3.
                     Some (Inr (), e3\<lparr>ex_except_return := ret,
                       ex_except_file := ex_except_file e3 @ '' then exception caught in '' @ file,
                       ex_except_message := ex_except_message e3 @ '' then exception Message: '' @ msg\<rparr>))
                  (if ex_initialization_complete e2 then run_queue_ignored cf Q_shutdown e2
                   else Some (Inr (), e2)))
               (\<lambda>_ e3. let e4 = stop_threads e3 in Some (Inr (ex_except_return e4), e4)))"

end
