(* ===== verification/ExecRestart.thy ===== *)
theory ExecRestart
  imports ExecJobs ExecLoop
begin

text \<open>
  Checkpoint and restart of the executive's job data: \<open>checkpoint\<close>, \<open>post_checkpoint\<close>,
  \<open>clear_scheduled_queues\<close> and \<open>restart\<close> (sim\_services/Executive/Executive\_checkpoint.cpp,
  \_post\_checkpoint.cpp, \_clear\_scheduled\_queues.cpp, \_restart.cpp). The memory manager that
  writes and reads the checkpoint itself is a separate component.
\<close>

definition checkpoint :: "'w Executive \<Rightarrow> int \<times> 'w Executive" where
  "checkpoint e =
     (let n = length (ex_all_jobs_vector e);
          e1 = e\<lparr>ex_num_all_jobs := n\<rparr>
      in (0, if 0 < n
             then e1\<lparr>ex_all_jobs_for_checkpoint := Some (map (ex_jobs e1) (ex_all_jobs_vector e1))\<rparr>
             else e1))"

definition post_checkpoint :: "'w Executive \<Rightarrow> int \<times> 'w Executive" where
  "post_checkpoint e = (0, e\<lparr>ex_all_jobs_for_checkpoint := None\<rparr>)"

text \<open>The queues that are cleared; \<open>thread_sync_queue\<close> is not among them.\<close>

definition cleared_queues :: "queue_ref list" where
  "cleared_queues =
     [Q_default_data, Q_input_processor, Q_initialization, Q_input_processor_run, Q_scheduled,
      Q_top_of_frame, Q_end_of_frame, Q_shutdown, Q_freeze_init, Q_freeze_scheduled, Q_freeze,
      Q_unfreeze, Q_time_tic_changed]"

definition clear_scheduled_queues :: "'w Executive \<Rightarrow> int \<times> 'w Executive" where
  "clear_scheduled_queues e =
     (let e1 = fold (\<lambda>r. map_q r queue_clear) cleared_queues e
      in (0, e1\<lparr>ex_threads := map Threads_clear_scheduled_queues (ex_threads e1)\<rparr>))"

text \<open>The loop that refreshes what a job holds of its simulation object.\<close>

definition refresh_job :: "SimObject \<Rightarrow> so_ptr \<Rightarrow> JobData \<Rightarrow> JobData" where
  "refresh_job so_rec so j =
     (let j1 = j\<lparr>jd_sim_object_id := so_id so_rec, jd_parent_object := Some so,
                 jd_frame_id := dadd (dbl (so_id so_rec)) (ddiv (dbl (jd_id j)) 100)\<rparr>
      in if has_prefix (so_name so_rec @ ''.'') (jd_name j1) then j1
         else j1\<lparr>jd_name := so_name so_rec @ ''.'' @ jd_name j1\<rparr>)"

fun refresh_jobs :: "(so_ptr \<times> SimObject \<times> job_ptr) list \<Rightarrow> job_heap \<Rightarrow> (string \<times> job_ptr) list
    \<Rightarrow> job_heap \<times> (string \<times> job_ptr) list" where
  "refresh_jobs [] h m = (h, m)"
| "refresh_jobs ((so, so_rec, j) # js) h m =
     (let h1 = h(j := refresh_job so_rec so (h j))
      in refresh_jobs js h1 (m @ [(jd_name (h1 j), j)]))"

text \<open>
  \<open>ret = m.equal_range(name)\<close>. \<open>ret.first\<close> is the lower bound of the key: it is \<open>m.end()\<close> only
  when every key of the map is smaller. For an absent name that some key exceeds, the range is
  empty but the test does not hold.
\<close>

definition first_is_end :: "string \<Rightarrow> (string \<times> job_ptr) list \<Rightarrow> bool" where
  "first_is_end name m \<longleftrightarrow> (\<forall>p \<in> set m. fst p < name)"

definition restore_job :: "JobData \<Rightarrow> job_ptr list \<Rightarrow> job_heap \<Rightarrow> job_heap" where
  "restore_job saved ret h =
     fold (\<lambda>j h1. if jd_id (h1 j) = jd_id saved \<and> jd_sim_object_id (h1 j) = jd_sim_object_id saved
                  then h1(j := copy_from_checkpoint saved (h1 j)) else h1) ret h"

fun restore_jobs :: "JobData list \<Rightarrow> (string \<times> job_ptr) list \<Rightarrow> job_heap \<Rightarrow> (abort + unit) \<times> job_heap" where
  "restore_jobs [] m h = (Inr (), h)"
| "restore_jobs (saved # rest) m h =
     (if first_is_end (jd_name saved) m
      then (Inl (mk_ExecutiveException (-1) ''Executive_restart.cpp'' 68
                   ''Job in checkpoint file does not exist in current sim.''), h)
      else restore_jobs rest m (restore_job saved (equal_range (jd_name saved) m) h))"

text \<open>The first part of \<open>restart\<close>: clear, refresh, copy the saved data back.\<close>

definition restart_jobs :: "'w Executive \<Rightarrow> (unit, 'w Executive) result" where
  "restart_jobs e =
     (let e1 = (snd (clear_scheduled_queues e))\<lparr>ex_all_jobs := [], ex_all_jobs_vector := [], ex_all_tagged_jobs := []\<rparr>;
          entries = concat (map (\<lambda>so. map (\<lambda>j. (so, ex_sim_objs e1 so, j)) (so_jobs (ex_sim_objs e1 so)))
                              (ex_sim_objects e1));
          (h, m) = refresh_jobs entries (ex_jobs e1) [];
          e2 = e1\<lparr>ex_jobs := h\<rparr>
      in case (if ex_num_all_jobs e2 = 0 then Some []
               else Option.bind (ex_all_jobs_for_checkpoint e2)
                      (\<lambda>js. if length js < ex_num_all_jobs e2 then None else Some (take (ex_num_all_jobs e2) js))) of
           None \<Rightarrow> Some (Inl (Undefined ''all_jobs_for_checkpoint[ii]''), e2)
         | Some saved \<Rightarrow>
             (let (r, h1) = restore_jobs saved m (ex_jobs e2) in Some (r, e2\<lparr>ex_jobs := h1\<rparr>)))"

fun readd_objects :: "'w virtual_op list \<Rightarrow> so_ptr list \<Rightarrow> 'w Executive \<Rightarrow> (unit, 'w Executive) result" where
  "readd_objects others [] e = Some (Inr (), e)"
| "readd_objects others (so # sos) e =
     andthen (add_jobs_to_queue so True e)
       (\<lambda>_ e1. readd_objects others sos (fold (\<lambda>f. f so) others e1))"

text \<open>An asynchronous or AMF thread restarts at its next frame boundary.\<close>

definition restart_amf :: "int \<Rightarrow> Threads \<Rightarrow> Threads" where
  "restart_amf time_tics th =
     (if th_process_type th = PROCESS_TYPE_AMF_CHILD \<or> th_process_type th = PROCESS_TYPE_ASYNC_CHILD then
        (if 0 < th_amf_cycle_tics th \<and> time_tics smod th_amf_cycle_tics th \<noteq> 0
         then th\<lparr>th_amf_next_tics :=
                time_tics + th_amf_cycle_tics th - (time_tics smod th_amf_cycle_tics th)\<rparr>
         else th\<lparr>th_amf_next_tics := time_tics\<rparr>)
      else th)"

text \<open>The last part of \<open>restart\<close>: times of the threads, and the freeze clock when frozen.\<close>

definition restart_threads :: "'w Executive \<Rightarrow> (int, 'w Executive) result" where
  "restart_threads e =
     (if ex_threads e = [] then Some (Inl (Undefined ''threads[0]''), e)
      else
        (case create_threads (map_thread 0 (\<lambda>th. th\<lparr>th_curr_time_tics := ex_time_tics e\<rparr>) e) of
           Inl a \<Rightarrow> Some (Inl a, e)
         | Inr (_, e1) \<Rightarrow>
             (let e2 = e1\<lparr>ex_threads := hd (ex_threads e1) # map (restart_amf (ex_time_tics e1)) (tl (ex_threads e1))\<rparr>
              in if ex_mode e2 = Freeze then andthen (init_freeze_scheduled e2) (\<lambda>_ e3. Some (Inr 0, e3))
                 else Some (Inr 0, e2))))"

definition restart :: "'w virtual_op list \<Rightarrow> 'w Executive \<Rightarrow> (int, 'w Executive) result" where
  "restart others e =
     (let current_ip_index = q_curr_index (get_q Q_input_processor e)
      in andthen (restart_jobs e) (\<lambda>_ e1.
         andthen (readd_objects others (ex_sim_objects e1) e1) (\<lambda>_ e2.
           restart_threads
             ((map_q Q_input_processor (set_curr_index current_ip_index)
                (e2\<lparr>ex_num_sim_objects := int (length (ex_sim_objects e2))\<rparr>))
              \<lparr>ex_restart_called := True, ex_all_jobs_for_checkpoint := None\<rparr>))))"

end
