(* ===== verification/ThreadsChild.thy ===== *)
theory ThreadsChild
  imports ExecLoop
begin

text \<open>
  What a child thread does each time its trigger fires: the body of the loop in
  \<open>Threads::thread_body\<close> (sim\_services/Executive/Threads\_child.cpp), for the three process types.
  Waiting for the trigger is modelled in the theory ThreadTrigger. An exception in a child ends
  the process; the model returns it.

  The child's members \<open>curr_job\<close>, \<open>job_queue\<close> and \<open>curr_time_tics\<close> are those of its
  \<open>Threads\<close> object, thread \<open>ii\<close> of the executive.
\<close>

subsection \<open>Walking the thread's queues\<close>

definition set_thread_job :: "nat \<Rightarrow> job_ptr option \<Rightarrow> 'w Executive \<Rightarrow> 'w Executive" where
  "set_thread_job ii jo e = map_thread ii (\<lambda>th. th\<lparr>th_curr_job := jo\<rparr>) e"

definition thread_next :: "nat \<Rightarrow> queue_ref \<Rightarrow> 'w Executive \<Rightarrow> job_ptr option \<times> 'w Executive" where
  "thread_next ii r e = (let (jo, e1) = next_local r e in (jo, set_thread_job ii jo e1))"

definition thread_due :: "nat \<Rightarrow> 'w Executive \<Rightarrow> job_ptr option \<times> 'w Executive" where
  "thread_due ii e =
     (let (jo, h, q) = find_next_job (ex_jobs e) (get_q (Q_thread_job ii) e) (th_curr_time_tics (ex_threads e ! ii))
      in (jo, set_thread_job ii jo (set_q (Q_thread_job ii) q (e\<lparr>ex_jobs := h\<rparr>))))"

definition throw_named :: "job_ptr \<Rightarrow> int \<Rightarrow> string \<Rightarrow> 'w Executive \<Rightarrow> (unit, 'w Executive) result" where
  "throw_named j ret msg e = Some (Inl (mk_ExecutiveException ret (jd_name (ex_jobs e j)) 0 msg), e)"

definition call_next_job ::
  "'w exec_call \<Rightarrow> 'w Environment \<Rightarrow> queue_ref \<Rightarrow> int \<Rightarrow> job_ptr \<Rightarrow> 'w Executive \<Rightarrow> (unit, 'w Executive) result" where
  "call_next_job cf env job_queue curr_time_tics curr_job e =
     andthen (wait_depends env curr_job 0 e) (\<lambda>_ e1.
     andthen (JobData_call ex_jobs cf curr_job e1) (\<lambda>ret e2.
       if ret \<noteq> 0 then throw_named curr_job ret ''scheduled job did not return 0'' e2
       else
         (let e3 = (if jd_system_job_class (ex_jobs e2 curr_job)
                    then map_q job_queue (\<lambda>q. test_next_job_call_time (ex_jobs e2) q curr_job curr_time_tics) e2
                    else e2)
          in Some (Inr (), map_job curr_job (\<lambda>jd. jd\<lparr>jd_complete := True\<rparr>) e3))))"

text \<open>\<open>call_next_job(curr_job, job_queue, rt_nap, curr_time_tics)\<close> for thread \<open>ii\<close>.\<close>

definition thread_call :: "'w exec_call \<Rightarrow> 'w Environment \<Rightarrow> nat \<Rightarrow> job_ptr \<Rightarrow> 'w Executive \<Rightarrow> (unit, 'w Executive) result" where
  "thread_call cf env ii j e =
     call_next_job cf env (Q_thread_job ii) (th_curr_time_tics (ex_threads e ! ii)) j e"

definition set_thread_limit :: "nat \<Rightarrow> int \<Rightarrow> 'w Executive \<Rightarrow> 'w Executive" where
  "set_thread_limit ii t e = map_q (Q_thread_job ii) (\<lambda>q. set_next_job_call_time t (reset_curr_index q)) e"

subsection \<open>A synchronous thread\<close>

definition scheduled_frame :: "'w exec_call \<Rightarrow> 'w Environment \<Rightarrow> nat \<Rightarrow> 'w Executive \<Rightarrow> (unit, 'w Executive) result" where
  "scheduled_frame cf env ii e =
     walk (thread_due ii) (thread_call cf env ii) (set_thread_limit ii TRICK_MAX_LONG_LONG e)"

subsection \<open>A thread with a frame of its own\<close>

definition frame_queue ::
  "'w exec_call \<Rightarrow> nat \<Rightarrow> queue_ref \<Rightarrow> string \<Rightarrow> 'w Executive \<Rightarrow> (unit, 'w Executive) result" where
  "frame_queue cf ii r msg e =
     walk (thread_next ii r)
       (\<lambda>j e1. andthen (JobData_call ex_jobs cf j e1)
          (\<lambda>ret e2. if ret \<noteq> 0 then
                      (case th_curr_job (ex_threads e2 ! ii) of
                         None \<Rightarrow> Some (Inl (Undefined ''NULL curr_job''), e2)
                       | Some k \<Rightarrow> throw_named k ret msg e2)
                    else Some (Inr (), e2)))
       (map_q r reset_curr_index e)"

text \<open>\<open>do { ... } while ( curr_time_tics < amf_next_tics )\<close>: a scheduler up to the next frame.\<close>

definition amf_step :: "'w exec_call \<Rightarrow> 'w Environment \<Rightarrow> nat \<Rightarrow> 'w Executive \<Rightarrow> (unit, 'w Executive) result" where
  "amf_step cf env ii e =
     andthen (walk (thread_due ii) (thread_call cf env ii)
                (set_thread_limit ii (th_amf_next_tics (ex_threads e ! ii)) e))
       (\<lambda>_ e1. let (t, e2) = next_call_time (Q_thread_job ii) e1
               in Some (Inr (), map_thread ii (\<lambda>th. th\<lparr>th_curr_time_tics := t\<rparr>) e2))"

partial_function (option) amf_steps ::
  "'w exec_call \<Rightarrow> 'w Environment \<Rightarrow> nat \<Rightarrow> 'w Executive \<Rightarrow> (unit, 'w Executive) result" where
  "amf_steps cf env ii e =
     andthen (amf_step cf env ii e)
       (\<lambda>_ e1. if th_curr_time_tics (ex_threads e1 ! ii) < th_amf_next_tics (ex_threads e1 ! ii)
               then amf_steps cf env ii e1 else Some (Inr (), e1))"

declare amf_steps.simps [code]

definition amf_frame :: "'w exec_call \<Rightarrow> 'w Environment \<Rightarrow> nat \<Rightarrow> 'w Executive \<Rightarrow> (unit, 'w Executive) result" where
  "amf_frame cf env ii e =
     andthen (frame_queue cf ii (Q_thread_top ii) '' top_of_frame job did not return 0'' e) (\<lambda>_ e1.
     andthen (amf_steps cf env ii e1) (\<lambda>_ e2.
     frame_queue cf ii (Q_thread_end ii) '' end_of_frame job did not return 0'' e2))"

subsection \<open>An asynchronous thread\<close>

text \<open>Without a cycle all jobs run once; with a cycle the jobs are first brought up to the frame.\<close>

definition run_all_once :: "'w exec_call \<Rightarrow> 'w Environment \<Rightarrow> nat \<Rightarrow> 'w Executive \<Rightarrow> (unit, 'w Executive) result" where
  "run_all_once cf env ii e =
     walk (thread_next ii (Q_thread_job ii)) (thread_call cf env ii)
       (set_thread_limit ii TRICK_MAX_LONG_LONG e)"

definition catch_up_body :: "nat \<Rightarrow> job_ptr \<Rightarrow> 'w Executive \<Rightarrow> (unit, 'w Executive) result" where
  "catch_up_body ii j e =
     (let th = ex_threads e ! ii;
          start_frame = th_amf_next_tics th - th_amf_cycle_tics th
      in case catch_up (jd_cycle_tics (ex_jobs e j)) start_frame (jd_next_tics (ex_jobs e j)) of
           None \<Rightarrow> None
         | Some t \<Rightarrow> Some (Inr (), map_job j (\<lambda>jd. jd\<lparr>jd_next_tics := t\<rparr>) e))"

definition catch_up_jobs :: "nat \<Rightarrow> 'w Executive \<Rightarrow> (unit, 'w Executive) result" where
  "catch_up_jobs ii e =
     walk (thread_next ii (Q_thread_job ii)) (catch_up_body ii) (map_q (Q_thread_job ii) reset_curr_index e)"

definition async_frame :: "'w exec_call \<Rightarrow> 'w Environment \<Rightarrow> nat \<Rightarrow> 'w Executive \<Rightarrow> (unit, 'w Executive) result" where
  "async_frame cf env ii e =
     (if th_amf_cycle_tics (ex_threads e ! ii) = 0 then run_all_once cf env ii e
      else andthen (catch_up_jobs ii e) (\<lambda>_ e1. amf_frame cf env ii e1))"

subsection \<open>One trip through the loop\<close>

definition set_child_complete :: "nat \<Rightarrow> 'w Executive \<Rightarrow> 'w Executive" where
  "set_child_complete ii e = map_thread ii (\<lambda>th. th\<lparr>th_child_complete := True\<rparr>) e"

definition thread_start :: "nat \<Rightarrow> 'w Executive \<Rightarrow> 'w Executive" where
  "thread_start ii e = map_thread ii (\<lambda>th. th\<lparr>th_child_complete := True, th_running := True\<rparr>) e"

definition thread_frame :: "'w exec_call \<Rightarrow> 'w Environment \<Rightarrow> nat \<Rightarrow> 'w Executive \<Rightarrow> (unit, 'w Executive) result" where
  "thread_frame cf env ii e =
     andthen
       (if th_enabled (ex_threads e ! ii) then
          (case th_process_type (ex_threads e ! ii) of
             PROCESS_TYPE_SCHEDULED \<Rightarrow> scheduled_frame cf env ii e
           | PROCESS_TYPE_AMF_CHILD \<Rightarrow> amf_frame cf env ii e
           | PROCESS_TYPE_ASYNC_CHILD \<Rightarrow> async_frame cf env ii e)
        else Some (Inr (), e))
       (\<lambda>_ e1. Some (Inr (), set_child_complete ii e1))"

end
