(* ===== verification/TrickSys.thy ===== *)
theory TrickSys
  imports ExecRestart ThreadsChild
begin

text \<open>
  The jobs of the executive's own simulation object (\<open>SysSimObject\<close>,
  share/trick/sim\_objects/default\_trick\_sys.sm): what \<open>call_function\<close> does for them. Every
  other job is a user job; \<open>user\<close> gives its effect on the rest of the simulation.

  A job is known by its name; \<open>sched_freeze_to_exec_command\<close> is called by two jobs, as
  \<open>(false)\<close> by the one of class \<open>system_moding\<close> and as \<open>(true)\<close> by the one of class
  \<open>end_of_frame\<close>.
\<close>

definition sys_name :: "string \<Rightarrow> string" where
  "sys_name f = ''trick_sys.sched.'' @ f"

text \<open>A call that returns an \<open>int\<close> and a state, and one that may be undefined.\<close>

definition plain :: "int \<times> 'w Executive \<Rightarrow> (int, 'w Executive) result" where
  "plain r = Some (Inr (fst r), snd r)"

definition partial_call :: "abort + int \<times> 'w Executive \<Rightarrow> 'w Executive \<Rightarrow> (int, 'w Executive) result" where
  "partial_call r e = (case r of Inl a \<Rightarrow> Some (Inl a, e) | Inr (n, e1) \<Rightarrow> Some (Inr n, e1))"

definition user_call :: "(callee \<Rightarrow> 'w \<Rightarrow> 'w) \<Rightarrow> 'w exec_call" where
  "user_call user c e = Some (Inr 0, e\<lparr>ex_world := user c (ex_world e)\<rparr>)"

definition sys_calls :: "'w Environment \<Rightarrow> bool \<Rightarrow> (string \<times> ('w Executive \<Rightarrow> (int, 'w Executive) result)) list" where
  "sys_calls env end_of_frame =
     [(''advance_sim_time'', advance_sim_time env),
      (''sched_freeze_to_exec_command'', \<lambda>e. plain (sched_freeze_to_exec_command end_of_frame e)),
      (''async_freeze_to_exec_command'', \<lambda>e. plain (async_freeze_to_exec_command e)),
      (''thread_sync'', thread_sync env),
      (''init_freeze_scheduled'', init_freeze_scheduled),
      (''get_freeze_job'', get_freeze_job ''trick_sys.sched''),
      (''check_all_jobs_handled'', \<lambda>e. Some (Inr (check_all_jobs_handled e), e)),
      (''check_all_job_cycle_times'', \<lambda>e. Option.bind (check_all_job_cycle_times e) plain),
      (''create_threads'', \<lambda>e. partial_call (create_threads e) e),
      (''checkpoint'', \<lambda>e. plain (checkpoint e)),
      (''post_checkpoint'', \<lambda>e. plain (post_checkpoint e))]"

fun sys_lookup :: "string \<Rightarrow> (string \<times> 'a) list \<Rightarrow> 'a option" where
  "sys_lookup name [] = None"
| "sys_lookup name ((f, x) # rest) = (if name = sys_name f then Some x else sys_lookup name rest)"

definition trick_sys_call :: "'w Environment \<Rightarrow> (callee \<Rightarrow> 'w \<Rightarrow> 'w) \<Rightarrow> 'w exec_call" where
  "trick_sys_call env user c e =
     (case c of
        Instrument _ \<Rightarrow> user_call user c e
      | Job j \<Rightarrow>
          (let jd = ex_jobs e j
           in case sys_lookup (jd_name jd) (sys_calls env (jd_job_class_name jd = ''end_of_frame'')) of
                Some f \<Rightarrow> f e
              | None \<Rightarrow> user_call user c e))"

end
