(* ===== verification/PropsQueue.thy ===== *)
theory PropsQueue
  imports ExecJobs TrickSys
begin

text \<open>
  The properties of jobs and queues: \<open>JobData\<close>, \<open>ScheduledJobQueue\<close>, the search for a job by name,
  and a job's way into the queues of the executive and out of them.
\<close>

subsection \<open>A small queue to apply the properties to\<close>

text \<open>Jobs 1 to 4 with phases 10, 20, 20 and 30; 3 is switched off; 1 and 3 are due at 100, 2 at 150.\<close>

definition demo_job :: "nat \<Rightarrow> int \<Rightarrow> int \<Rightarrow> JobData" where
  "demo_job ph i t = new_JobData_default\<lparr>jd_phase := ph, jd_id := i, jd_cycle_tics := 50, jd_stop_tics := 1000,
     jd_next_tics := t, jd_name := show_int i\<rparr>"

definition demo_heap :: job_heap where
  "demo_heap j =
     (if j = 1 then demo_job 10 1 100 else if j = 2 then demo_job 20 2 150
      else if j = 3 then (demo_job 20 3 100)\<lparr>jd_disabled := True\<rparr> else demo_job 30 4 100)"

definition demo_queue :: SJQ where
  "demo_queue = \<lparr>q_list = [1, 2, 4], q_curr_index = 2, q_next_job_time = 500\<rparr>"

lemmas demo_defs = demo_queue_def demo_heap_def demo_job_def new_JobData_default_def

lemma demo_sorted: "queue_sorted demo_heap demo_queue"
  by (simp add: queue_sorted_def demo_defs job_key_def)

subsection \<open>Insertion and removal\<close>

text \<open>
  C4: \<open>push\<close> inserts the job into the ordered queue: the queue stays ordered by class, phase,
  simulation object and job id, it holds the old jobs and the new one, the job is marked as
  handled and nothing else of any job changes, and the job the current walk would hand out next
  stays next, unless the new job goes exactly in front of it.
\<close>

theorem push_inserts:
  assumes "queue_sorted h q" and "length (q_list q) < 4294967295"
  shows "\<exists>h' q'. push h q j = (h', q') \<and> queue_sorted h' q' \<and>
    mset (q_list q') = add_mset j (mset (q_list q)) \<and> q_next_job_time q' = q_next_job_time q \<and>
    h' = h(j := (h j)\<lparr>jd_handled := True\<rparr>) \<and>
    (q_curr_index q < length (q_list q) \<longrightarrow>
       q_list q' ! q_curr_index q' = q_list q ! q_curr_index q \<or>
       q_list q' ! q_curr_index q' = j \<and> q_curr_index q' = q_curr_index q)"
proof -
  obtain h' q' where p: "push h q j = (h', q')" by (cases "push h q j")
  then have h': "h' = h(j := (h j)\<lparr>jd_handled := True\<rparr>)"
    using push_simps(4) [of h q j] by (simp add: JobData_set_handled_def)
  have q': "snd (push h q j) = q'" using p by simp
  have "queue_sorted h' q'" using push_queue_sorted [OF assms(1), of j] p by simp
  moreover have "mset (q_list q') = add_mset j (mset (q_list q))" "q_next_job_time q' = q_next_job_time q"
    using push_simps(1,2) [of h q j] unfolding q' by simp_all
  moreover have "q_curr_index q < length (q_list q) \<longrightarrow>
       q_list q' ! q_curr_index q' = q_list q ! q_curr_index q \<or>
       q_list q' ! q_curr_index q' = j \<and> q_curr_index q' = q_curr_index q"
    using push_next_job [OF assms(1) _ assms(2), of j] push_simps(3) [of h q j] unfolding q' by auto
  ultimately show ?thesis using p h' by blast
qed

theorem push_inserts_witness:
  "\<exists>h' q'. push demo_heap demo_queue 3 = (h', q') \<and> queue_sorted h' q' \<and> mset (q_list q') = {#1, 2, 3, 4#}"
  using push_inserts [OF demo_sorted, of 3] by (auto simp: demo_queue_def add_mset_commute)

text \<open>
  \<open>remove\<close> deletes the first occurrence of the job and keeps the order; it returns 0 when the
  job was in the queue and -1, with the queue unchanged, when it was not. The job handed out
  next by the current walk is unaffected unless the removed job is the one at the index itself.
\<close>

lemma remove_deletes:
  fixes j :: job_ptr
  assumes "queue_sorted h q" and "length (q_list q) < 4294967295"
  shows "\<exists>q'. queue_remove q j = (if j \<in> set (q_list q) then 0 else -1, q') \<and>
    q_list q' = remove1 j (q_list q) \<and> queue_sorted h q' \<and> (j \<notin> set (q_list q) \<longrightarrow> q' = q) \<and>
    (q_curr_index q < length (q_list q) \<and> find_index j (q_list q) \<noteq> Some (q_curr_index q) \<longrightarrow>
       q_curr_index q' < length (q_list q') \<and> q_list q' ! q_curr_index q' = q_list q ! q_curr_index q)"
proof -
  obtain n q' where r: "queue_remove q j = (n, q')" by (cases "queue_remove q j")
  then have n: "n = (if j \<in> set (q_list q) then 0 else -1)" and l: "q_list q' = remove1 j (q_list q)"
    and s: "queue_sorted h q'"
    using queue_remove_return [of q j] queue_remove_list [of q j] queue_remove_sorted [OF assms(1), of j] by simp_all
  have id: "j \<notin> set (q_list q) \<Longrightarrow> q' = q"
    using r find_index_None [of j "q_list q"] by (simp add: queue_remove_def)
  have "q_curr_index q' < length (q_list q') \<and> q_list q' ! q_curr_index q' = q_list q ! q_curr_index q"
    if c: "q_curr_index q < length (q_list q)" "find_index j (q_list q) \<noteq> Some (q_curr_index q)"
  proof (cases "find_index j (q_list q)")
    case None
    then show ?thesis using id find_index_None [of j "q_list q"] c by simp
  next
    case (Some i)
    then show ?thesis using queue_remove_next_job [OF Some c(1) assms(2)] c(2) r by simp
  qed
  then show ?thesis using r n l s id by blast
qed

lemma remove_deletes_witness:
  "\<exists>q'. queue_remove demo_queue 2 = (0, q') \<and> q_list q' = [1, 4] \<and> q_list q' ! q_curr_index q' = 4"
  using remove_deletes [OF demo_sorted, of 2] by (simp add: demo_queue_def) blast

text \<open>
  Removing the job at the index itself moves the walk back by one: the job in front of it,
  which the walk has already handed out, is handed out again. For the first job the index wraps
  to the largest \<open>unsigned int\<close> and the walk ends without the rest of the queue.
\<close>

lemma remove_at_index_steps_back:
  fixes j :: job_ptr
  assumes "find_index j (q_list q) = Some (q_curr_index q)" and "length (q_list q) < 4294967295"
  shows "if 0 < q_curr_index q
    then q_list (snd (queue_remove q j)) ! q_curr_index (snd (queue_remove q j)) = q_list q ! (q_curr_index q - 1)
    else pending_jobs (snd (queue_remove q j)) = []"
proof -
  have i: "q_curr_index q < length (q_list q)" using find_index_Some [OF assms(1)] by simp
  show ?thesis
  proof (cases "0 < q_curr_index q")
    case True
    then have "dec_u32 (q_curr_index q) = q_curr_index q - 1" using i assms(2) by (intro dec_u32_pos) simp_all
    then show ?thesis using True i assms(1) by (simp add: queue_remove_def)
  next
    case False
    then show ?thesis using assms i by (simp add: queue_remove_def dec_u32_0 pending_jobs_def)
  qed
qed

lemma remove_at_index_steps_back_witness:
  "q_list (snd (queue_remove demo_queue 4)) ! q_curr_index (snd (queue_remove demo_queue 4)) = 2"
  using remove_at_index_steps_back [of 4 demo_queue] by (simp add: demo_queue_def)

subsection \<open>Walking\<close>

text \<open>
  C5: \<open>find_next_job\<close> returns the first enabled job of the unvisited part whose call time is now,
  and NULL when there is none. It goes over the jobs up to that one, and every job on the way that
  was due now, enabled or not, has its call time moved on by its cycle, or to the end of time when
  that passes the job's stop time; the lowest future call time seen is recorded in the queue.
\<close>

theorem find_next_job_spec:
  assumes "distinct (pending_jobs q)"
  shows "find_next_job h q t =
    (case filter (due_at t h) (pending_jobs q) of
       [] \<Rightarrow> (None, visit_all t (pending_jobs q) (h, q))
     | j # _ \<Rightarrow> (Some j, visit_all t (takeWhile (\<lambda>k. \<not> due_at t h k) (pending_jobs q) @ [j]) (h, q)))
   \<and> (\<forall>k ks. distinct ks \<longrightarrow> k \<in> set ks \<longrightarrow> fst (visit_all t ks (h, q)) k =
        (if jd_next_tics (h k) = t then reschedule (h k) else h k))
   \<and> (\<forall>ks. distinct ks \<longrightarrow> q_next_job_time (snd (visit_all t ks (h, q))) =
        fold min (List.map_filter (\<lambda>k. call_time t (h k)) ks) (q_next_job_time q))"
proof (intro conjI allI impI)
  show "find_next_job h q t =
    (case filter (due_at t h) (pending_jobs q) of
       [] \<Rightarrow> (None, visit_all t (pending_jobs q) (h, q))
     | j # _ \<Rightarrow> (Some j, visit_all t (takeWhile (\<lambda>k. \<not> due_at t h k) (pending_jobs q) @ [j]) (h, q)))"
  proof (cases "filter (due_at t h) (pending_jobs q)")
    case Nil
    then show ?thesis using find_next_job_None [OF assms] by simp
  next
    case (Cons j js)
    then obtain sk rest where p: "pending_jobs q = sk @ j # rest" "\<forall>k \<in> set sk. \<not> due_at t h k" "due_at t h j"
      by (auto simp: filter_eq_Cons_iff)
    then have "takeWhile (\<lambda>k. \<not> due_at t h k) (pending_jobs q) = sk" by (simp add: takeWhile_append)
    then show ?thesis using find_next_job_Some [OF p(1) assms, of t h] p(2,3) Cons by (simp add: filter_empty_conv)
  qed
qed (simp_all add: visit_all_jobs visit_all_time)

theorem find_next_job_spec_witness:
  "\<exists>h' q'. find_next_job demo_heap (reset_curr_index demo_queue) 100 = (Some 1, h', q') \<and>
     jd_next_tics (h' 1) = 150 \<and> q_next_job_time q' = 150"
  using find_next_job_spec [of "reset_curr_index demo_queue" demo_heap 100]
  by (simp add: demo_defs reset_curr_index_def pending_jobs_def due_at_def visit_def reschedule_def)

text \<open>
  C40: \<open>get_next_job_call_time\<close> returns the least of the time recorded in the queue and the call
  times of the jobs not yet visited, and records it.
\<close>

theorem get_next_job_call_time_min:
  "get_next_job_call_time h q =
     (let t = Min (insert (q_next_job_time q) ((\<lambda>j. jd_next_tics (h j)) ` set (pending_jobs q)))
      in (t, q\<lparr>q_next_job_time := t\<rparr>))"
proof -
  have "fold min xs m = Min (insert m (set xs))" for xs and m :: int
  proof (induction xs arbitrary: m)
    case (Cons x xs)
    have "fold min (x # xs) m = Min (insert (min x m) (set xs))" using Cons.IH by simp
    also have "\<dots> = Min (insert m (set (x # xs)))"
      by (cases "set xs = {}") (simp_all add: min.assoc min.left_commute min.commute)
    finally show ?case .
  qed simp
  then show ?thesis by (simp add: get_next_job_call_time_eq lowest_call_time_def Let_def)
qed

subsection \<open>A job's call time and instrumentation\<close>

text \<open>
  \<open>set_next_call_time\<close> moves a job that would run later to the first multiple of its cycle
  after now; a job that is due or late runs now. With a zero cycle the first case divides by zero.
\<close>

lemma set_next_call_time_first_multiple:
  assumes "0 \<le> t" and "0 < jd_cycle_tics j"
  shows "\<exists>n. JobData_set_next_call_time t j = Inr (j\<lparr>jd_next_tics := n\<rparr>) \<and>
    (if jd_next_tics j \<le> t then n = t
     else t < n \<and> jd_cycle_tics j dvd n \<and> (\<forall>m. t < m \<and> jd_cycle_tics j dvd m \<longrightarrow> n \<le> m))"
proof (cases "jd_next_tics j \<le> t")
  case True
  then show ?thesis by (simp add: JobData_set_next_call_time_def)
next
  case False
  let ?c = "jd_cycle_tics j" and ?n = "t - t smod jd_cycle_tics j + jd_cycle_tics j"
  have "?n \<le> m" if m: "t < m" "?c dvd m" for m
  proof -
    obtain k where k: "m = ?c * k" using m(2) by (auto elim: dvdE)
    have n: "?n = ?c * (t div ?c + 1)" using assms by (simp add: smod_nonneg minus_mod_eq_mult_div algebra_simps)
    have "?c * (t div ?c) \<le> t" using assms(2) by (simp add: minus_mod_eq_mult_div [symmetric])
    then have "?c * (t div ?c) < ?c * k" using m(1) k by simp
    then have "t div ?c < k" using assms(2) by simp
    then show ?thesis unfolding k n using assms(2) by (intro mult_left_mono) simp_all
  qed
  then have least: "\<forall>m. t < m \<and> ?c dvd m \<longrightarrow> ?n \<le> m" by blast
  have "JobData_set_next_call_time t j = Inr (j\<lparr>jd_next_tics := ?n\<rparr>)"
    using False assms(2) by (simp add: JobData_set_next_call_time_def)
  moreover have "t < ?n" "?c dvd ?n" using next_multiple(1,3) [OF assms] .
  ultimately show ?thesis using least unfolding if_not_P [OF False] by blast
qed

lemma set_next_call_time_first_multiple_witness:
  "JobData_set_next_call_time 120 (demo_heap 2) = Inr ((demo_heap 2)\<lparr>jd_next_tics := 150\<rparr>)"
proof -
  obtain n where n: "JobData_set_next_call_time 120 (demo_heap 2) = Inr ((demo_heap 2)\<lparr>jd_next_tics := n\<rparr>)"
    "120 < n" "50 dvd n" "\<forall>m. 120 < m \<and> 50 dvd m \<longrightarrow> n \<le> m"
    using set_next_call_time_first_multiple [of 120 "demo_heap 2"] by (auto simp: demo_defs)
  from n(4) have "n \<le> 150" by (drule_tac x = 150 in spec) simp
  with n(2,3) have "n = 150" by presburger
  with n(1) show ?thesis by simp
qed

lemma job_call_run:
  fixes user :: "callee \<Rightarrow> 'w \<Rightarrow> 'w" and code :: "callee \<Rightarrow> 'w \<Rightarrow> int" and e :: "'w Executive"
  assumes cf: "\<And>c (v :: 'w Executive). cf c v = Some (Inr (code c (ex_world v)), v\<lparr>ex_world := user c (ex_world v)\<rparr>)"
  shows "JobData_call ex_jobs cf j e =
    Some (Inr (code (Job j) (fold user (map Instrument (jd_inst_before (ex_jobs e j))) (ex_world e))),
      e\<lparr>ex_world := fold user (job_calls (ex_jobs e) j) (ex_world e)\<rparr>)"
proof -
  let ?eff = "\<lambda>c (v :: 'w Executive). v\<lparr>ex_world := user c (ex_world v)\<rparr>"
  have f: "fold ?eff cs v = v\<lparr>ex_world := fold user cs (ex_world v)\<rparr>" for cs and v :: "'w Executive"
    by (induction cs arbitrary: v) simp_all
  have "JobData_call ex_jobs cf j e =
      Some (Inr (code (Job j) (ex_world (fold ?eff (map Instrument (jd_inst_before (ex_jobs e j))) e))),
        fold ?eff (job_calls (ex_jobs e) j) e)"
    by (rule JobData_call_result) (simp_all add: cf)
  then show ?thesis unfolding f by simp
qed

lemma phase_sorted_map: "phase_sorted xs \<longleftrightarrow> sorted (map ib_phase xs)"
  by (simp add: phase_sorted_def sorted_map)

text \<open>
  C38: one \<open>call\<close> of a job runs the instrumentation jobs attached in front of it, the job itself,
  and those attached behind it, each once, in the order of their lists, and returns what the job
  itself returned, whatever the instrumentation jobs return; here the functions of the simulation
  return normally and change only the simulation's own data. The lists are kept in the order of the
  phase by \<open>add_inst_before\<close> and \<open>add_inst_after\<close>, and \<open>remove_inst\<close> takes exactly the entries of
  a name out of both.
\<close>

theorem job_call_order:
  fixes user :: "callee \<Rightarrow> 'w \<Rightarrow> 'w" and code :: "callee \<Rightarrow> 'w \<Rightarrow> int" and e :: "'w Executive"
  shows "JobData_call ex_jobs (\<lambda>c v. Some (Inr (code c (ex_world v)), v\<lparr>ex_world := user c (ex_world v)\<rparr>)) j e =
      Some (Inr (code (Job j) (fold user (map Instrument (jd_inst_before (ex_jobs e j))) (ex_world e))),
        e\<lparr>ex_world := fold user (map Instrument (jd_inst_before (ex_jobs e j)) @ Job j #
          map Instrument (jd_inst_after (ex_jobs e j))) (ex_world e)\<rparr>) \<and>
    (sorted (map ib_phase (jd_inst_before jd)) \<longrightarrow> sorted (map ib_phase (jd_inst_before (add_inst_before ib jd)))) \<and>
    (sorted (map ib_phase (jd_inst_after jd)) \<longrightarrow> sorted (map ib_phase (jd_inst_after (add_inst_after ib jd)))) \<and>
    mset (jd_inst_before (add_inst_before ib jd)) = add_mset ib (mset (jd_inst_before jd)) \<and>
    mset (jd_inst_after (add_inst_after ib jd)) = add_mset ib (mset (jd_inst_after jd)) \<and>
    jd_inst_before (remove_inst nm jd) = filter (\<lambda>x. ib_name x \<noteq> nm) (jd_inst_before jd) \<and>
    jd_inst_after (remove_inst nm jd) = filter (\<lambda>x. ib_name x \<noteq> nm) (jd_inst_after jd)"
proof -
  let ?cf = "\<lambda>c (v :: 'w Executive). Some (Inr (code c (ex_world v)), v\<lparr>ex_world := user c (ex_world v)\<rparr>)"
  have "JobData_call ex_jobs ?cf j e =
    Some (Inr (code (Job j) (fold user (map Instrument (jd_inst_before (ex_jobs e j))) (ex_world e))),
      e\<lparr>ex_world := fold user (job_calls (ex_jobs e) j) (ex_world e)\<rparr>)"
    by (rule job_call_run) simp
  then show ?thesis
    using phase_sorted_insert [of "jd_inst_before jd" ib] phase_sorted_insert [of "jd_inst_after jd" ib]
    by (simp add: job_calls_def phase_sorted_map add_inst_before_def add_inst_after_def remove_inst_filter)
qed

definition demo_inst :: "nat \<Rightarrow> InstrumentBase" where
  "demo_inst ph = \<lparr>ib_name = ''probe'', ib_phase = ph, ib_calls = InstruJob 9, ib_target_job = 1\<rparr>"

definition demo_state :: "nat list Executive" where
  "demo_state = new_Executive demo_heap (\<lambda>_. undefined) []"

definition demo_user :: "callee \<Rightarrow> nat list \<Rightarrow> nat list" where
  "demo_user c w = w @ [case c of Job j \<Rightarrow> j | Instrument ib \<Rightarrow> ib_phase ib]"

definition demo_code :: "callee \<Rightarrow> nat list \<Rightarrow> int" where
  "demo_code c w = (if c = Job 1 then 6 + int (length w) else 3)"

definition demo_probed :: "nat list Executive" where
  "demo_probed = demo_state\<lparr>ex_jobs := demo_heap(1 := new_JobData_default
     \<lparr>jd_inst_before := [demo_inst 5], jd_inst_after := [demo_inst 8]\<rparr>)\<rparr>"

theorem job_call_order_witness:
  "\<exists>w. JobData_call ex_jobs (\<lambda>c v. Some (Inr (demo_code c (ex_world v)), v\<lparr>ex_world := demo_user c (ex_world v)\<rparr>))
      1 demo_probed = Some (Inr 7, w) \<and> ex_world w = [5, 1, 8] \<and>
    sorted (map ib_phase (jd_inst_before (add_inst_before (demo_inst 7)
      (new_JobData_default\<lparr>jd_inst_before := [demo_inst 5, demo_inst 8]\<rparr>))))"
proof -
  have "jd_inst_before (ex_jobs demo_probed 1) = [demo_inst 5]" "jd_inst_after (ex_jobs demo_probed 1) = [demo_inst 8]"
    "ex_world demo_probed = []"
    by (simp_all add: demo_probed_def demo_state_def new_Executive_def)
  moreover have "sorted (map ib_phase (jd_inst_before (new_JobData_default\<lparr>jd_inst_before := [demo_inst 5, demo_inst 8]\<rparr>)))"
    by (simp add: demo_inst_def)
  ultimately show ?thesis
    using job_call_order [of demo_code demo_user 1 demo_probed
        "new_JobData_default\<lparr>jd_inst_before := [demo_inst 5, demo_inst 8]\<rparr>" "demo_inst 7" "[]"]
    by (simp add: demo_user_def demo_code_def demo_inst_def)
qed

end
