(* ===== verification/PropsJobs.thy ===== *)
theory PropsJobs
  imports ExecRestart PropsQueue
begin

text \<open>
  The properties of how jobs enter the queues of the executive and leave them, are found by name,
  switched off and on, checked at initialization, and restored by a restart.
\<close>

subsection \<open>Pushing onto several queues\<close>

lemma insertion_point_keys:
  assumes "\<And>x. job_key (h' x) = job_key (h x)"
  shows "insertion_point h' q j = insertion_point h q j"
  by (simp add: insertion_point_def compare_job_data_key assms)

lemma push_keys:
  assumes "\<And>x. job_key (h' x) = job_key (h x)"
  shows "snd (push h' q j) = snd (push h q j)"
  by (simp add: push_def Let_def insertion_point_keys [OF assms])

lemma queue_sorted_keys:
  assumes "\<And>x. x \<in> set (q_list q) \<Longrightarrow> job_key (h' x) = job_key (h x)"
  shows "queue_sorted h' q = queue_sorted h q"
proof -
  have key: "job_key (h' (q_list q ! i)) = job_key (h (q_list q ! i))" if "i < length (q_list q)" for i
    using assms that by simp
  have "(\<forall>i j. i < j \<longrightarrow> j < length (q_list q) \<longrightarrow> job_key (h' (q_list q ! i)) \<le> job_key (h' (q_list q ! j))) =
      (\<forall>i j. i < j \<longrightarrow> j < length (q_list q) \<longrightarrow> job_key (h (q_list q ! i)) \<le> job_key (h (q_list q ! j)))"
  proof (intro iff_allI)
    fix i j
    show "(i < j \<longrightarrow> j < length (q_list q) \<longrightarrow> job_key (h' (q_list q ! i)) \<le> job_key (h' (q_list q ! j))) =
        (i < j \<longrightarrow> j < length (q_list q) \<longrightarrow> job_key (h (q_list q ! i)) \<le> job_key (h (q_list q ! j)))"
      using key [of i] key [of j] by (cases "i < j \<and> j < length (q_list q)") auto
  qed
  then show ?thesis unfolding queue_sorted_def sorted_wrt_iff_nth_less .
qed

lemma fold_push_q:
  assumes "distinct rs" and "\<forall>r \<in> set rs. has_queue r e"
  shows "ex_jobs (fold (\<lambda>r. push_q r j) rs e) =
      (if rs = [] then ex_jobs e else (ex_jobs e)(j := JobData_set_handled True (ex_jobs e j)))"
    and "has_queue s (fold (\<lambda>r. push_q r j) rs e) = has_queue s e"
    and "get_q s (fold (\<lambda>r. push_q r j) rs e) =
      (if s \<in> set rs then snd (push (ex_jobs e) (get_q s e) j) else get_q s e)"
proof -
  have handled: "JobData_set_handled True (JobData_set_handled True d) = JobData_set_handled True d" for d
    by (simp add: JobData_set_handled_def)
  have *: "ex_jobs (fold (\<lambda>r. push_q r j) rs e) =
      (if rs = [] then ex_jobs e else (ex_jobs e)(j := JobData_set_handled True (ex_jobs e j))) \<and>
      (\<forall>s. has_queue s (fold (\<lambda>r. push_q r j) rs e) = has_queue s e) \<and>
      (\<forall>s. get_q s (fold (\<lambda>r. push_q r j) rs e) =
        (if s \<in> set rs then snd (push (ex_jobs e) (get_q s e) j) else get_q s e))"
    using assms
  proof (induction rs arbitrary: e)
    case (Cons r rs)
    let ?e = "push_q r j e"
    have j: "ex_jobs ?e = (ex_jobs e)(j := JobData_set_handled True (ex_jobs e j))" by (simp add: queue_simps)
    have k: "job_key (ex_jobs ?e x) = job_key (ex_jobs e x)" for x by (simp add: j)
    have h: "\<forall>s. has_queue s ?e = has_queue s e" by (simp add: queue_simps)
    have q: "get_q s ?e = (if s = r then snd (push (ex_jobs e) (get_q s e) j) else get_q s e)" for s
      using Cons.prems(2) by (simp add: queue_simps)
    have IH: "ex_jobs (fold (\<lambda>r. push_q r j) rs ?e) =
        (if rs = [] then ex_jobs ?e else (ex_jobs ?e)(j := JobData_set_handled True (ex_jobs ?e j))) \<and>
        (\<forall>s. has_queue s (fold (\<lambda>r. push_q r j) rs ?e) = has_queue s ?e) \<and>
        (\<forall>s. get_q s (fold (\<lambda>r. push_q r j) rs ?e) =
          (if s \<in> set rs then snd (push (ex_jobs ?e) (get_q s ?e) j) else get_q s ?e))"
      using Cons.prems h by (intro Cons.IH) auto
    then show ?case using Cons.prems(1) h q push_keys [of "ex_jobs ?e" "ex_jobs e", OF k]
      by (auto simp: j handled)
  qed simp
  show "ex_jobs (fold (\<lambda>r. push_q r j) rs e) =
      (if rs = [] then ex_jobs e else (ex_jobs e)(j := JobData_set_handled True (ex_jobs e j)))"
    and "has_queue s (fold (\<lambda>r. push_q r j) rs e) = has_queue s e"
    and "get_q s (fold (\<lambda>r. push_q r j) rs e) =
      (if s \<in> set rs then snd (push (ex_jobs e) (get_q s e) j) else get_q s e)"
    using * by blast+
qed

lemma fold_remove_q:
  assumes "distinct rs" and "\<forall>r \<in> set rs. has_queue r e"
  shows "q_list (get_q s (fold (\<lambda>r. remove_q r j) rs e)) =
    (if s \<in> set rs then remove1 j (q_list (get_q s e)) else q_list (get_q s e))"
  using assms
proof (induction rs arbitrary: e)
  case (Cons r rs)
  have "get_q s (remove_q r j e) = (if s = r then snd (queue_remove (get_q s e) j) else get_q s e)" for s
    using Cons.prems(2) by (simp add: remove_q_def map_q_def)
  moreover have "\<forall>r' \<in> set rs. has_queue r' (remove_q r j e)"
    using Cons.prems(2) by (simp add: remove_q_def map_q_def)
  ultimately show ?case using Cons.IH [of "remove_q r j e"] Cons.prems(1) by (auto simp: queue_remove_list)
qed simp

text \<open>
  What the queues are for: a scheduled job belongs to the queue of its thread and to the scheduled
  queue, a frame job of a child thread to that thread's queue for its class, and any other job to
  the queue that \<open>class_to_queue\<close> names for its class, whatever its thread.
\<close>

definition belongs_to :: "'w Executive \<Rightarrow> string \<Rightarrow> int \<Rightarrow> nat \<Rightarrow> queue_ref \<Rightarrow> bool" where
  "belongs_to e class_name class_id thread r \<longleftrightarrow>
     (if ex_scheduled_start_index e \<le> class_id then r \<in> {Q_thread_job thread, Q_scheduled}
      else if 0 < thread \<and> class_name = ''top_of_frame'' then r = Q_thread_top thread
      else if 0 < thread \<and> class_name = ''end_of_frame'' then r = Q_thread_end thread
      else ex_class_to_queue e class_id = Some r)"

text \<open>The same queues as a list, in the order of the pushes.\<close>

definition queues_of_job :: "'w Executive \<Rightarrow> string \<Rightarrow> int \<Rightarrow> nat \<Rightarrow> queue_ref list" where
  "queues_of_job e job_class_name job_class thread =
     (if ex_scheduled_start_index e \<le> job_class then [Q_thread_job thread, Q_scheduled]
      else if thread \<noteq> 0 \<and> job_class_name = ''top_of_frame'' then [Q_thread_top thread]
      else if thread \<noteq> 0 \<and> job_class_name = ''end_of_frame'' then [Q_thread_end thread]
      else (case ex_class_to_queue e job_class of Some curr_queue \<Rightarrow> [curr_queue] | None \<Rightarrow> []))"

lemma set_queues_of_job: "r \<in> set (queues_of_job e nm c th) \<longleftrightarrow> belongs_to e nm c th r"
  by (auto simp: queues_of_job_def belongs_to_def split: option.split)

lemma queues_of_job_distinct: "distinct (queues_of_job e nm c th)"
  by (auto simp: queues_of_job_def split: option.split)

lemma queues_of_job_cong:
  "ex_scheduled_start_index e' = ex_scheduled_start_index e \<Longrightarrow> ex_class_to_queue e' = ex_class_to_queue e \<Longrightarrow>
   queues_of_job e' nm c th = queues_of_job e nm c th"
  by (simp add: queues_of_job_def cong: option.case_cong)

definition all_queues_sorted :: "'w Executive \<Rightarrow> bool" where
  "all_queues_sorted e \<longleftrightarrow> (\<forall>r. has_queue r e \<longrightarrow> queue_sorted (ex_jobs e) (get_q r e))"

text \<open>The queues a job goes to: those of its class and thread.\<close>

definition job_queues :: "job_ptr \<Rightarrow> 'w Executive \<Rightarrow> queue_ref list" where
  "job_queues job e =
     (let j = ex_jobs e job
      in case ex_class_map e (jd_job_class_name j) of
           None \<Rightarrow> []
         | Some c \<Rightarrow> queues_of_job e (jd_job_class_name j) c (jd_thread j))"

text \<open>The state in which \<open>add_job_to_queue\<close> pushes.\<close>

definition classed :: "job_ptr \<Rightarrow> 'w Executive \<Rightarrow> 'w Executive" where
  "classed job e =
     map_job job (\<lambda>j. j\<lparr>jd_job_class := the (ex_class_map e (jd_job_class_name j))\<rparr>) (register_job job e)"

lemma classed_simps:
  "ex_jobs (classed job e) = (ex_jobs e)(job := (ex_jobs e job)
     \<lparr>jd_job_class := the (ex_class_map e (jd_job_class_name (ex_jobs e job)))\<rparr>)"
  "get_q r (classed job e) = get_q r e" "has_queue r (classed job e) = has_queue r e"
  "ex_class_map (classed job e) = ex_class_map e"
  "ex_scheduled_start_index (classed job e) = ex_scheduled_start_index e"
  "ex_class_to_queue (classed job e) = ex_class_to_queue e"
  by (cases r; simp add: classed_def register_job_def map_job_def)+

lemma add_job_to_queue_eq:
  assumes "job_queues job e \<noteq> []"
  shows "add_job_to_queue job e = (0, fold (\<lambda>r. push_q r job) (job_queues job e) (classed job e))"
  using assms
  by (auto simp: add_job_to_queue_def job_queues_def classed_def register_job_def map_job_def Let_def
      queues_of_job_def split: option.splits if_splits)

lemma add_job_queues:
  fixes e :: "'w Executive" and job :: job_ptr
  assumes qs: "job_queues job e \<noteq> []" and has: "\<forall>r \<in> set (job_queues job e). has_queue r e"
  defines "e' \<equiv> snd (add_job_to_queue job e)"
  shows "get_q r e' = (if r \<in> set (job_queues job e)
      then snd (push (ex_jobs (classed job e)) (get_q r e) job) else get_q r e)"
    and "ex_jobs e' = (ex_jobs (classed job e))(job := JobData_set_handled True (ex_jobs (classed job e) job))"
    and "has_queue r e' = has_queue r e"
proof -
  have d: "distinct (job_queues job e)"
    by (auto simp: job_queues_def Let_def queues_of_job_distinct split: option.split)
  have h: "\<forall>r \<in> set (job_queues job e). has_queue r (classed job e)" using has by (simp add: classed_simps)
  show "get_q r e' = (if r \<in> set (job_queues job e)
      then snd (push (ex_jobs (classed job e)) (get_q r e) job) else get_q r e)"
    and "ex_jobs e' = (ex_jobs (classed job e))(job := JobData_set_handled True (ex_jobs (classed job e) job))"
    and "has_queue r e' = has_queue r e"
    unfolding e'_def add_job_to_queue_eq [OF qs] using fold_push_q [OF d h, where j = job] qs
    by (simp_all add: classed_simps)
qed

subsection \<open>Adding and removing\<close>

lemma remove_one_job_eq:
  "remove_one_job job e =
     (let j = ex_jobs e job
      in case ex_class_map e (jd_job_class_name j) of
           None \<Rightarrow> e
         | Some _ \<Rightarrow> fold (\<lambda>r. remove_q r job)
             (queues_of_job e (jd_job_class_name j) (jd_job_class j) (jd_thread j)) e)"
  by (cases "ex_class_map e (jd_job_class_name (ex_jobs e job))";
      cases "ex_class_to_queue e (jd_job_class (ex_jobs e job))")
    (simp_all add: remove_one_job_def queues_of_job_def Let_def)

text \<open>
  C6: \<open>add_job_to_queue\<close> gives a job whose class is known the class id of its class and puts it,
  once, into exactly the queues it belongs to: for a scheduled job the queue of its thread and the
  scheduled queue, for a top or end of frame job of a child thread the queue of that thread for its
  class, for every other job the queue registered for its class, whatever its thread. Every queue
  of the executive stays ordered and every other queue is unchanged, and \<open>remove_jobs\<close> then takes
  the job out of all of them again.
\<close>

theorem add_job_to_queue_places:
  fixes e :: "'w Executive"
  assumes "all_queues_sorted e" and "ex_class_map e (jd_job_class_name (ex_jobs e job)) = Some c"
  defines "wanted \<equiv> belongs_to e (jd_job_class_name (ex_jobs e job)) c (jd_thread (ex_jobs e job))"
  assumes "\<exists>r. wanted r" and "\<forall>r. wanted r \<longrightarrow> has_queue r e"
    and "\<forall>r. has_queue r e \<longrightarrow> job \<notin> set (q_list (get_q r e))"
  shows "\<exists>e'. add_job_to_queue job e = (0, e') \<and> all_queues_sorted e' \<and> jd_job_class (ex_jobs e' job) = c \<and>
    (\<forall>r. has_queue r e \<longrightarrow>
       mset (q_list (get_q r e')) = mset (q_list (get_q r e)) + (if wanted r then {#job#} else {#}) \<and>
       q_list (get_q r (remove_one_job job e')) = q_list (get_q r e))"
proof -
  have mem: "r \<in> set (job_queues job e) \<longleftrightarrow> wanted r" for r
    by (simp add: job_queues_def Let_def assms(2) set_queues_of_job wanted_def)
  then have qs: "job_queues job e \<noteq> []" "\<forall>r \<in> set (job_queues job e). has_queue r e"
    using assms(4,5) by (auto simp del: set_empty simp flip: set_empty)
  obtain e' where e': "add_job_to_queue job e = (0, e')" using add_job_to_queue_eq [OF qs(1)] by simp
  note A = add_job_queues [OF qs, unfolded e' snd_conv]
  let ?h = "ex_jobs (classed job e)"
  have key: "job_key (ex_jobs e' x) = job_key (?h x)" for x by (simp add: A(2))
  have key0: "job_key (?h x) = job_key (ex_jobs e x)" if "x \<noteq> job" for x using that by (simp add: classed_simps)
  have sorted: "all_queues_sorted e'"
    unfolding all_queues_sorted_def
  proof (intro allI impI)
    fix r assume "has_queue r e'"
    then have r: "has_queue r e" by (simp add: A(3))
    then have "queue_sorted ?h (get_q r e)"
      using assms(1,6) key0 queue_sorted_keys [of "get_q r e" ?h "ex_jobs e"]
      by (metis all_queues_sorted_def)
    then have "queue_sorted ?h (get_q r e')"
      using push_queue_sorted [of ?h "get_q r e" job] queue_sorted_keys [of _ "fst (push ?h (get_q r e) job)" ?h]
      by (simp add: A(1) push_simps(4))
    then show "queue_sorted (ex_jobs e') (get_q r e')" using queue_sorted_keys [of _ "ex_jobs e'" ?h] key by metis
  qed
  have same: "ex_class_map e' = ex_class_map e" "ex_scheduled_start_index e' = ex_scheduled_start_index e"
    "ex_class_to_queue e' = ex_class_to_queue e"
  proof -
    have "ex_class_map (fold (\<lambda>r. push_q r job) rs x) = ex_class_map x \<and>
        ex_scheduled_start_index (fold (\<lambda>r. push_q r job) rs x) = ex_scheduled_start_index x \<and>
        ex_class_to_queue (fold (\<lambda>r. push_q r job) rs x) = ex_class_to_queue x" for rs and x :: "'w Executive"
      by (induction rs arbitrary: x) (simp_all add: push_q_def push_def Let_def)
    then show "ex_class_map e' = ex_class_map e" "ex_scheduled_start_index e' = ex_scheduled_start_index e"
      "ex_class_to_queue e' = ex_class_to_queue e"
      using e' add_job_to_queue_eq [OF qs(1)] by (auto simp: classed_simps)
  qed
  have rem: "remove_one_job job e' = fold (\<lambda>r. remove_q r job) (job_queues job e) e'"
    using same queues_of_job_cong [of e' e] assms(2)
    by (simp add: remove_one_job_eq job_queues_def Let_def A(2) classed_simps JobData_set_handled_def)
  have d: "distinct (job_queues job e)"
    by (auto simp: job_queues_def Let_def queues_of_job_distinct split: option.split)
  have h': "\<forall>r \<in> set (job_queues job e). has_queue r e'" using qs(2) by (simp add: A(3))
  have "remove1 job (insert_at n job xs) = xs" if "job \<notin> set xs" for n xs
  proof -
    have "job \<notin> set (take n xs)" using that by (meson in_set_takeD)
    then show ?thesis by (simp add: insert_at_def remove1_append)
  qed
  then have "q_list (get_q r (remove_one_job job e')) = q_list (get_q r e)" if "has_queue r e" for r
    unfolding rem fold_remove_q [OF d h'] using assms(6) that by (simp add: A(1) push_simps(1))
  moreover have "jd_job_class (ex_jobs e' job) = c" by (simp add: A(2) classed_simps assms(2) JobData_set_handled_def)
  ultimately show ?thesis using e' sorted mem by (auto simp: A(1) push_simps(1))
qed

definition demo_exec :: "nat list Executive" where
  "demo_exec = demo_state\<lparr>ex_threads := [new_Threads 0 True], ex_class_map := initial_class_map(''scheduled'' \<mapsto> 1000),
     ex_jobs := demo_heap(5 := (demo_job 40 5 0)\<lparr>jd_job_class_name := ''scheduled''\<rparr>),
     ex_queues := (\<lambda>_. new_ScheduledJobQueue)(Q_shutdown := demo_queue)\<rparr>"

theorem add_job_to_queue_places_witness:
  "\<exists>e'. add_job_to_queue 5 demo_exec = (0, e') \<and> all_queues_sorted e' \<and>
     q_list (get_q (Q_thread_job 0) e') = [5] \<and> q_list (get_q Q_scheduled e') = [5]"
proof -
  have q: "get_q r demo_exec = new_ScheduledJobQueue \<or> get_q r demo_exec = demo_queue \<and> r = Q_shutdown"
    if "has_queue r demo_exec" for r
    using that by (cases r) (auto simp: demo_exec_def demo_state_def new_Executive_def new_Threads_def)
  have jobs: "ex_jobs demo_exec = demo_heap(5 := (demo_job 40 5 0)\<lparr>jd_job_class_name := ''scheduled''\<rparr>)"
    by (simp add: demo_exec_def)
  have wanted: "belongs_to demo_exec (jd_job_class_name (ex_jobs demo_exec 5)) 1000 (jd_thread (ex_jobs demo_exec 5)) r \<longleftrightarrow>
      r \<in> {Q_thread_job 0, Q_scheduled}" for r
    by (simp add: belongs_to_def demo_exec_def demo_state_def new_Executive_def demo_job_def new_JobData_default_def)
  have "queue_sorted (ex_jobs demo_exec) (get_q r demo_exec) \<and> 5 \<notin> set (q_list (get_q r demo_exec))"
    if "has_queue r demo_exec" for r
    using q [OF that] demo_sorted queue_sorted_keys [of demo_queue "ex_jobs demo_exec" demo_heap]
    by (auto simp: queue_sorted_def new_ScheduledJobQueue_def demo_queue_def jobs)
  then have s: "all_queues_sorted demo_exec" "\<forall>r. has_queue r demo_exec \<longrightarrow> 5 \<notin> set (q_list (get_q r demo_exec))"
    by (simp_all add: all_queues_sorted_def)
  have c: "ex_class_map demo_exec (jd_job_class_name (ex_jobs demo_exec 5)) = Some 1000"
    by (simp add: jobs) (simp add: demo_exec_def)
  have h: "has_queue (Q_thread_job 0) demo_exec" "has_queue Q_scheduled demo_exec" by (simp_all add: demo_exec_def)
  obtain e' where e': "add_job_to_queue 5 demo_exec = (0, e')" "all_queues_sorted e'"
    "\<And>r. has_queue r demo_exec \<Longrightarrow> mset (q_list (get_q r e')) = mset (q_list (get_q r demo_exec)) +
       (if r \<in> {Q_thread_job 0, Q_scheduled} then {#5#} else {#})"
    using add_job_to_queue_places [OF s(1) c _ _ s(2), unfolded wanted] h by blast
  have "q_list (get_q (Q_thread_job 0) demo_exec) = []" "q_list (get_q Q_scheduled demo_exec) = []"
    by (simp_all add: demo_exec_def new_Threads_def new_ScheduledJobQueue_def)
  then show ?thesis using h e'(1,2) e'(3) [of "Q_thread_job 0"] e'(3) [of Q_scheduled] by auto
qed

subsection \<open>Switching a simulation object off and on\<close>

lemma save_states_eq:
  "distinct js \<Longrightarrow> save_states js saved h =
     ((\<lambda>j. if j \<in> set js then Some (jd_disabled (h j)) else saved j),
      (\<lambda>j. if j \<in> set js then (h j)\<lparr>jd_disabled := True\<rparr> else h j))"
  by (induction js arbitrary: saved h) (auto simp: fun_eq_iff)

lemma restore_states_eq:
  "restore_states saved js h =
     (\<lambda>j. if j \<in> set js then (h j)\<lparr>jd_disabled := (case saved j of Some b \<Rightarrow> b | None \<Rightarrow> False)\<rparr> else h j)"
  by (induction js arbitrary: h) (auto simp: fun_eq_iff)

lemma by_name_cong:
  assumes "ex_sim_objects e' = ex_sim_objects e" "\<And>so. so_name (ex_sim_objs e' so) = so_name (ex_sim_objs e so)"
  shows "get_sim_object_by_name e' nm = get_sim_object_by_name e nm"
  by (simp add: get_sim_object_by_name_def assms)

text \<open>
  switching a simulation object off disables all its jobs; switching it on again gives every
  job the state it had before.
\<close>

lemma sim_object_off_on:
  assumes "get_sim_object_by_name e nm = Some so" and "distinct (so_jobs (ex_sim_objs e so))"
  defines "e1 \<equiv> snd (set_sim_object_onoff nm 0 e)"
  defines "e2 \<equiv> snd (set_sim_object_onoff nm 1 e1)"
  shows "ex_jobs e2 = ex_jobs e \<and> get_sim_object_onoff nm e1 = 0 \<and> get_sim_object_onoff nm e2 = 1 \<and>
    (\<forall>j \<in> set (so_jobs (ex_sim_objs e so)). jd_disabled (ex_jobs e1 j))"
proof -
  let ?js = "so_jobs (ex_sim_objs e so)"
  have e1: "ex_jobs e1 = (\<lambda>j. if j \<in> set ?js then (ex_jobs e j)\<lparr>jd_disabled := True\<rparr> else ex_jobs e j)"
    "ex_sim_objs e1 = (ex_sim_objs e)(so := (ex_sim_objs e so)\<lparr>so_object_disabled := True,
       so_saved_job_states := (\<lambda>j. if j \<in> set ?js then Some (jd_disabled (ex_jobs e j))
                                   else so_saved_job_states (ex_sim_objs e so) j)\<rparr>)"
    "ex_sim_objects e1 = ex_sim_objects e"
    using assms(1,2) by (simp_all add: e1_def set_sim_object_onoff_def save_states_eq)
  have n1: "get_sim_object_by_name e1 nm = Some so"
    using by_name_cong [of e1 e nm] assms(1) by (simp add: e1)
  have e2: "ex_jobs e2 = restore_states (so_saved_job_states (ex_sim_objs e1 so)) ?js (ex_jobs e1)"
    "ex_sim_objs e2 = (ex_sim_objs e1)(so := (ex_sim_objs e1 so)\<lparr>so_object_disabled := False,
       so_saved_job_states := Map.empty\<rparr>)"
    "ex_sim_objects e2 = ex_sim_objects e1"
    using n1 by (simp_all add: e2_def set_sim_object_onoff_def e1(2))
  have n2: "get_sim_object_by_name e2 nm = Some so"
    using by_name_cong [of e2 e1 nm] n1 by (simp add: e2)
  show ?thesis
    using n1 n2 by (auto simp: get_sim_object_onoff_def e2 e1 restore_states_eq fun_eq_iff)
qed

text \<open>
  Switching the object off twice loses what the jobs were: the second switch saves the jobs
  as disabled, and switching on then leaves all of them disabled.
\<close>

lemma sim_object_off_twice:
  assumes "get_sim_object_by_name e nm = Some so" and "distinct (so_jobs (ex_sim_objs e so))"
  defines "e2 \<equiv> snd (set_sim_object_onoff nm 0 (snd (set_sim_object_onoff nm 0 e)))"
  shows "\<forall>j \<in> set (so_jobs (ex_sim_objs e so)). jd_disabled (ex_jobs (snd (set_sim_object_onoff nm 1 e2)) j)"
proof -
  let ?js = "so_jobs (ex_sim_objs e so)" and ?e1 = "snd (set_sim_object_onoff nm 0 e)"
  have e1: "ex_jobs ?e1 = (\<lambda>j. if j \<in> set ?js then (ex_jobs e j)\<lparr>jd_disabled := True\<rparr> else ex_jobs e j)"
    "so_jobs (ex_sim_objs ?e1 so) = ?js" "ex_sim_objects ?e1 = ex_sim_objects e"
    "\<And>x. so_name (ex_sim_objs ?e1 x) = so_name (ex_sim_objs e x)"
    using assms(1,2) by (simp_all add: set_sim_object_onoff_def save_states_eq)
  have n1: "get_sim_object_by_name ?e1 nm = Some so" using by_name_cong [of ?e1 e nm] assms(1) e1 by simp
  have e2: "so_saved_job_states (ex_sim_objs e2 so) =
      (\<lambda>j. if j \<in> set ?js then Some (jd_disabled (ex_jobs ?e1 j)) else so_saved_job_states (ex_sim_objs ?e1 so) j)"
    "so_jobs (ex_sim_objs e2 so) = ?js" "ex_sim_objects e2 = ex_sim_objects ?e1"
    "\<And>x. so_name (ex_sim_objs e2 x) = so_name (ex_sim_objs ?e1 x)"
    using n1 assms(2) e1(2) by (simp_all add: e2_def set_sim_object_onoff_def [of nm 0 ?e1] save_states_eq)
  have n2: "get_sim_object_by_name e2 nm = Some so" using by_name_cong [of e2 ?e1 nm] n1 e2 by simp
  show ?thesis
    using n2 by (auto simp: set_sim_object_onoff_def [of nm 1 e2] Let_def restore_states_eq e2(1,2) e1(1))
qed

definition demo_object :: SimObject where
  "demo_object = \<lparr>so_name = ''ball'', so_id = 1, so_object_disabled = False, so_saved_job_states = Map.empty,
     so_pre_component_objects = [], so_post_component_objects = [], so_jobs = [1, 3]\<rparr>"

definition demo_objects :: "nat list Executive" where
  "demo_objects = demo_state\<lparr>ex_sim_objs := (\<lambda>_. demo_object), ex_sim_objects := [7]\<rparr>"

lemma demo_object_found:
  "get_sim_object_by_name demo_objects ''ball'' = Some 7" "distinct (so_jobs (ex_sim_objs demo_objects 7))"
  by (simp_all add: get_sim_object_by_name_def demo_objects_def demo_object_def)

lemma sim_object_off_on_witness:
  "ex_jobs (snd (set_sim_object_onoff ''ball'' 1 (snd (set_sim_object_onoff ''ball'' 0 demo_objects)))) = demo_heap"
  using sim_object_off_on [OF demo_object_found]
  by (simp add: demo_objects_def demo_state_def new_Executive_def)

lemma sim_object_off_twice_witness:
  "jd_disabled (ex_jobs (snd (set_sim_object_onoff ''ball'' 1
     (snd (set_sim_object_onoff ''ball'' 0 (snd (set_sim_object_onoff ''ball'' 0 demo_objects)))))) 1)"
  using sim_object_off_twice [OF demo_object_found] by (simp add: demo_objects_def demo_object_def)

subsection \<open>Finding a job\<close>

lemma nth_instance_eq:
  "nth_instance js ii n = (if n \<le> ii then (case js of [] \<Rightarrow> None | j # _ \<Rightarrow> Some j)
     else if n - ii < length js then Some (js ! (n - ii)) else None)"
proof (induction js arbitrary: ii)
  case (Cons j js)
  show ?case
  proof (cases "n \<le> ii")
    case False
    then have "n - ii = Suc (n - Suc ii)" by simp
    then show ?thesis using Cons [of "Suc ii"] False by (cases js) (auto simp: not_less le_Suc_eq)
  qed simp
qed (simp split: if_splits)

text \<open>
  \<open>get_job\<close> with instance number \<open>n\<close> from 1 yields the \<open>n\<close>-th job that was added under the
  name, and NULL when there are fewer.
\<close>

lemma get_job_nth:
  "get_job e nm (Suc n) =
     (let js = map snd (filter (\<lambda>p. fst p = nm) (ex_all_jobs e))
      in if n < length js then Some (js ! n) else None)"
  by (auto simp: get_job_def equal_range_def nth_instance_eq Let_def hd_conv_nth split: list.splits)

subsection \<open>The check of the job cycles\<close>

lemma divide_out_Some: "divide_out d v = Some r \<Longrightarrow> v \<noteq> 0"
proof (rule divide_out.raw_induct [where P = "\<lambda>_ v _. v \<noteq> 0"])
  fix f and d v r :: int
  assume IH: "\<And>d v r. f d v = Some r \<Longrightarrow> v \<noteq> 0"
    and r: "(if v smod d = 0 then f d (v sdiv d) else Some v) = Some r"
  show "v \<noteq> 0"
  proof (cases "v smod d = 0")
    case True
    then have "v sdiv d \<noteq> 0" using IH r by simp
    then show ?thesis by auto
  qed auto
qed

lemma sdiv_smaller: "v \<noteq> 0 \<Longrightarrow> 2 \<le> d \<Longrightarrow> nat \<bar>v sdiv d\<bar> < nat \<bar>v :: int\<bar>"
proof -
  assume v: "v \<noteq> 0" and d: "2 \<le> d"
  have "\<bar>v\<bar> div d < \<bar>v\<bar>" using v d by (intro int_div_less_self) auto
  moreover have "\<bar>v sdiv d\<bar> = \<bar>v\<bar> div d"
    using d by (simp add: signed_divide_int_def abs_mult sgn_if pos_imp_zdiv_nonneg_iff)
  ultimately show ?thesis using d by (simp add: pos_imp_zdiv_nonneg_iff)
qed

lemma divide_out_total: "v \<noteq> 0 \<Longrightarrow> 2 \<le> d \<Longrightarrow> \<exists>r. divide_out d v = Some r \<and> r \<noteq> 0"
proof (induction "nat \<bar>v\<bar>" arbitrary: v rule: less_induct)
  case less
  show ?case
  proof (cases "v smod d = 0")
    case True
    have "v = v sdiv d * d + v smod d" by (simp add: sdiv_mult_smod_eq)
    then have nz: "v sdiv d \<noteq> 0" using True less.prems(1) by auto
    have "\<exists>r. divide_out d (v sdiv d) = Some r \<and> r \<noteq> 0"
      using less.hyps [OF sdiv_smaller [OF less.prems] nz less.prems(2)] .
    then show ?thesis using True by (simp add: divide_out.simps [of d v])
  next
    case False
    then show ?thesis using less.prems by (simp add: divide_out.simps [of d v])
  qed
qed

text \<open>
  \<open>check_all_job_cycle_times\<close> returns exactly when the tic value is not zero; for a zero value
  its loop \<open>while (tic % 2 == 0) tic /= 2\<close> never ends. When it returns, a job whose cycle is below
  one tic has been switched off and the result is -1.
\<close>

lemma check_cycle_times_returns:
  "(check_all_job_cycle_times e = None \<longleftrightarrow> ex_time_tic_value e = 0) \<and>
   (\<forall>ret e'. check_all_job_cycle_times e = Some (ret, e') \<longrightarrow>
      ex_jobs e' = update_jobs (check_short_cycle (ex_time_tic_value e)) (ex_all_jobs_vector e) (ex_jobs e) \<and>
      (\<forall>j \<in> set (ex_all_jobs_vector e).
         jd_cycle (ex_jobs e j) < ddiv 1 (dbl (ex_time_tic_value e)) \<longrightarrow> jd_disabled (ex_jobs e' j) \<and> ret = -1))"
proof (intro conjI allI impI ballI)
  let ?v = "ex_time_tic_value e"
  show "check_all_job_cycle_times e = None \<longleftrightarrow> ?v = 0"
  proof
    assume none: "check_all_job_cycle_times e = None"
    show "?v = 0"
    proof (rule ccontr)
      assume "?v \<noteq> 0"
      then obtain r2 where r2: "divide_out 2 ?v = Some r2" "r2 \<noteq> 0" using divide_out_total by force
      then obtain r5 where "divide_out 5 r2 = Some r5" using divide_out_total [of r2 5] by force
      then show False using none r2 by (simp add: check_all_job_cycle_times_def Let_def split: if_splits)
    qed
  next
    assume "?v = 0"
    then have "divide_out 2 ?v = None" using divide_out_Some [of 2 ?v] by (cases "divide_out 2 ?v") auto
    then show "check_all_job_cycle_times e = None" by (simp add: check_all_job_cycle_times_def Let_def)
  qed
  fix ret e' assume r: "check_all_job_cycle_times e = Some (ret, e')"
  show jobs: "ex_jobs e' = update_jobs (check_short_cycle ?v) (ex_all_jobs_vector e) (ex_jobs e)"
    using r by (auto simp: check_all_job_cycle_times_def Let_def bind_eq_Some_conv split: if_splits)
  fix j assume j: "j \<in> set (ex_all_jobs_vector e)" "jd_cycle (ex_jobs e j) < ddiv 1 (dbl ?v)"
  have "check_short_cycle ?v (check_short_cycle ?v x) = check_short_cycle ?v x" for x
    by (simp add: check_short_cycle_def)
  then show "jd_disabled (ex_jobs e' j)"
    unfolding jobs using update_jobs_mem [of "check_short_cycle ?v" j] j by (simp add: check_short_cycle_def)
  show "ret = -1"
    using r j by (auto simp: check_all_job_cycle_times_def Let_def bind_eq_Some_conv split: if_splits)
qed

definition demo_short :: "nat list Executive" where
  "demo_short = demo_state\<lparr>ex_all_jobs_vector := [1], ex_time_tic_value := 3\<rparr>"

lemma check_cycle_times_returns_witness:
  "\<exists>ret e'. check_all_job_cycle_times demo_short = Some (ret, e') \<and> jd_disabled (ex_jobs e' 1)"
proof -
  have c: "0 < ddiv 1 (dbl 3)" by code_simp
  have "ex_time_tic_value demo_short \<noteq> 0" by (simp add: demo_short_def)
  then obtain r where r: "check_all_job_cycle_times demo_short = Some r"
    using check_cycle_times_returns [of demo_short] by blast
  have j: "1 \<in> set (ex_all_jobs_vector demo_short)" by (simp add: demo_short_def)
  have "jd_cycle (ex_jobs demo_short 1) = 0" "ex_time_tic_value demo_short = 3"
    by (simp_all add: demo_short_def demo_state_def new_Executive_def demo_defs)
  with c have "jd_cycle (ex_jobs demo_short 1) < ddiv 1 (dbl (ex_time_tic_value demo_short))" by simp
  then have "jd_disabled (ex_jobs (snd r) 1)"
    using check_cycle_times_returns [of demo_short] r j by (metis prod.collapse)
  then show ?thesis using r by (metis prod.collapse)
qed

subsection \<open>Restart\<close>

lemma restore_job_eq:
  assumes "distinct rg"
  shows "restore_job saved rg h =
    (\<lambda>j. if j \<in> set rg \<and> jd_id (h j) = jd_id saved \<and> jd_sim_object_id (h j) = jd_sim_object_id saved
         then copy_from_checkpoint saved (h j) else h j)"
  using assms unfolding restore_job_def
  by (induction rg arbitrary: h) (auto simp: fun_eq_iff)

text \<open>What a checkpoint keeps of a job, and what a restarted simulation has of its own.\<close>

definition saved_data :: "JobData \<Rightarrow> (bool \<times> bool \<times> bool \<times> bool) \<times> (rat \<times> rat \<times> rat) \<times> (string \<times> nat \<times> nat) \<times> (int \<times> int \<times> int \<times> int)" where
  "saved_data j =
     ((jd_disabled j, jd_complete j, jd_handled j, jd_system_job_class j),
      (jd_cycle j, jd_start j, jd_stop j),
      (jd_job_class_name j, jd_phase j, jd_thread j),
      (jd_cycle_tics j, jd_start_tics j, jd_stop_tics j, jd_next_tics j))"

definition own_data :: "JobData \<Rightarrow> (string \<times> int \<times> int \<times> int \<times> rat) \<times> so_ptr option \<times> string list \<times> job_ptr list \<times> InstrumentBase list \<times> InstrumentBase list" where
  "own_data j =
     ((jd_name j, jd_id j, jd_sim_object_id j, jd_job_class j, jd_frame_id j), jd_parent_object j,
      jd_tags j, jd_depends j, jd_inst_before j, jd_inst_after j)"

lemma copy_from_checkpoint_data:
  "saved_data (copy_from_checkpoint c j) = saved_data c" "own_data (copy_from_checkpoint c j) = own_data j"
  by (simp_all add: saved_data_def own_data_def copy_from_checkpoint_def)

lemma restore_jobs_copies:
  assumes "distinct js"
    and "\<forall>j \<in> set js. jd_name (h0 j) = jd_name (h j) \<and> jd_id (h0 j) = jd_id (h j) \<and>
      jd_sim_object_id (h0 j) = jd_sim_object_id (h j)"
    and "\<forall>j \<in> set js. \<forall>k \<in> set js. jd_name (h j) = jd_name (h k) \<and> jd_id (h j) = jd_id (h k) \<and>
      jd_sim_object_id (h j) = jd_sim_object_id (h k) \<longrightarrow> j = k"
  shows "restore_jobs (map h0 js) (map (\<lambda>j. (jd_name (h j), j)) js) h =
    (Inr (), \<lambda>j. if j \<in> set js then copy_from_checkpoint (h0 j) (h j) else h j)"
proof -
  let ?m = "map (\<lambda>j. (jd_name (h j), j)) js"
  have range: "equal_range nm ?m = filter (\<lambda>j. jd_name (h j) = nm) js" for nm
    unfolding equal_range_def by (induction js) auto
  have main: "restore_jobs (map h0 ks) ?m g =
      (Inr (), \<lambda>j. if j \<in> set ks then copy_from_checkpoint (h0 j) (h j) else g j)"
    if "set ks \<subseteq> set js" "distinct ks"
      "\<forall>j. jd_id (g j) = jd_id (h j) \<and> jd_sim_object_id (g j) = jd_sim_object_id (h j)"
      "\<forall>j \<in> set ks. g j = h j" for ks g
    using that
  proof (induction ks arbitrary: g)
    case (Cons k ks)
    have k: "k \<in> set js" using Cons.prems(1) by simp
    then have "\<not> first_is_end (jd_name (h0 k)) ?m" using assms(2) by (auto simp: first_is_end_def)
    moreover have "restore_job (h0 k) (equal_range (jd_name (h0 k)) ?m) g = g(k := copy_from_checkpoint (h0 k) (h k))"
    proof
      fix j
      have d: "distinct (equal_range (jd_name (h0 k)) ?m)" unfolding range using assms(1) by simp
      have "j \<in> set (equal_range (jd_name (h0 k)) ?m) \<and> jd_id (g j) = jd_id (h0 k) \<and>
          jd_sim_object_id (g j) = jd_sim_object_id (h0 k) \<longleftrightarrow> j = k"
        unfolding range using assms(2,3) k Cons.prems(3) by auto
      then show "restore_job (h0 k) (equal_range (jd_name (h0 k)) ?m) g j = (g(k := copy_from_checkpoint (h0 k) (h k))) j"
        unfolding restore_job_eq [OF d] using Cons.prems(4) by (auto simp del: set_filter)
    qed
    moreover have "restore_jobs (map h0 ks) ?m (g(k := copy_from_checkpoint (h0 k) (h k))) =
        (Inr (), \<lambda>j. if j \<in> set ks then copy_from_checkpoint (h0 j) (h j)
                 else (g(k := copy_from_checkpoint (h0 k) (h k))) j)"
      using Cons.prems by (intro Cons.IH) (auto simp: copy_from_checkpoint_identity)
    moreover have "(\<lambda>j. if j \<in> set ks then copy_from_checkpoint (h0 j) (h j)
                 else (g(k := copy_from_checkpoint (h0 k) (h k))) j) =
        (\<lambda>j. if j \<in> set (k # ks) then copy_from_checkpoint (h0 j) (h j) else g j)"
      using Cons.prems(2) by auto
    ultimately show ?case by simp
  qed simp
  show ?thesis by (rule main) (use assms(1) in simp_all)
qed

text \<open>
  C7: a job's data survives checkpoint and restart. When the jobs of the restarted simulation are the
  ones that were checkpointed, by name, id and simulation object, and no two agree in all three,
  copying the checkpointed data back reports no missing job; every job has its four switches, its
  cycle, start and stop times in seconds and in tics, its next call time, class name, phase and
  thread back as they were at the checkpoint, keeps its identity, class id, tags, dependencies and
  instrumentation as they are in the restarted simulation, and no other job is touched.
\<close>

theorem restart_restores_jobs:
  fixes e0 :: "'w Executive" and h :: job_heap
  defines "js \<equiv> ex_all_jobs_vector e0"
  assumes "js \<noteq> []" and "distinct js" and "ex_all_jobs_for_checkpoint (snd (checkpoint e0)) = Some saved"
    and "\<forall>j \<in> set js. jd_name (ex_jobs e0 j) = jd_name (h j) \<and> jd_id (ex_jobs e0 j) = jd_id (h j) \<and>
      jd_sim_object_id (ex_jobs e0 j) = jd_sim_object_id (h j)"
    and "\<forall>j \<in> set js. \<forall>k \<in> set js. jd_name (h j) = jd_name (h k) \<and> jd_id (h j) = jd_id (h k) \<and>
      jd_sim_object_id (h j) = jd_sim_object_id (h k) \<longrightarrow> j = k"
  shows "\<exists>h'. restore_jobs saved (map (\<lambda>j. (jd_name (h j), j)) js) h = (Inr (), h') \<and>
    (\<forall>j \<in> set js. saved_data (h' j) = saved_data (ex_jobs e0 j) \<and> own_data (h' j) = own_data (h j)) \<and>
    (\<forall>j. j \<notin> set js \<longrightarrow> h' j = h j)"
proof -
  have "saved = map (ex_jobs e0) js"
    using assms(2,4) by (simp add: checkpoint_def Let_def js_def)
  then show ?thesis using restore_jobs_copies [OF assms(3,5,6)] by (simp add: copy_from_checkpoint_data)
qed

definition demo_saved :: "nat list Executive" where
  "demo_saved = demo_state\<lparr>ex_all_jobs_vector := [1, 2],
     ex_jobs := demo_heap(1 := (demo_job 10 1 700)\<lparr>jd_disabled := True\<rparr>)\<rparr>"

theorem restart_restores_jobs_witness:
  "\<exists>saved h'. ex_all_jobs_for_checkpoint (snd (checkpoint demo_saved)) = Some saved \<and>
     restore_jobs saved (map (\<lambda>j. (jd_name (demo_heap j), j)) [1, 2]) demo_heap = (Inr (), h') \<and>
     jd_disabled (h' 1) \<and> jd_next_tics (h' 1) = 700"
proof -
  have n: "show_int 1 \<noteq> show_int 2" by (simp add: show_int_def show_nat.simps)
  have v: "ex_all_jobs_vector demo_saved = [1, 2]" by (simp add: demo_saved_def)
  obtain saved where s: "ex_all_jobs_for_checkpoint (snd (checkpoint demo_saved)) = Some saved"
    by (simp add: checkpoint_def v)
  have j: "ex_jobs demo_saved = demo_heap(1 := (demo_job 10 1 700)\<lparr>jd_disabled := True\<rparr>)"
    by (simp add: demo_saved_def)
  have a: "\<forall>j \<in> set (ex_all_jobs_vector demo_saved). jd_name (ex_jobs demo_saved j) = jd_name (demo_heap j) \<and>
      jd_id (ex_jobs demo_saved j) = jd_id (demo_heap j) \<and>
      jd_sim_object_id (ex_jobs demo_saved j) = jd_sim_object_id (demo_heap j)"
    unfolding v j by (simp add: demo_defs)
  have b: "\<forall>j \<in> set (ex_all_jobs_vector demo_saved). \<forall>k \<in> set (ex_all_jobs_vector demo_saved).
      jd_name (demo_heap j) = jd_name (demo_heap k) \<and> jd_id (demo_heap j) = jd_id (demo_heap k) \<and>
      jd_sim_object_id (demo_heap j) = jd_sim_object_id (demo_heap k) \<longrightarrow> j = k"
    unfolding v by (simp add: demo_defs)
  have d: "distinct (ex_all_jobs_vector demo_saved)" "ex_all_jobs_vector demo_saved \<noteq> []" by (simp_all add: v)
  obtain h' where h': "restore_jobs saved (map (\<lambda>j. (jd_name (demo_heap j), j)) [1, 2]) demo_heap = (Inr (), h')"
    "saved_data (h' 1) = saved_data (ex_jobs demo_saved 1)"
    using restart_restores_jobs [OF d(2,1) s a b] unfolding v by auto
  then have "jd_disabled (h' 1)" "jd_next_tics (h' 1) = 700"
    by (simp_all add: saved_data_def j demo_job_def new_JobData_default_def)
  then show ?thesis using s h' by blast
qed

text \<open>
  The test for a job that the simulation no longer has compares the lower bound of its name
  with the end of the map: a missing job is reported exactly when every name in the simulation
  is smaller; otherwise it is passed over in silence.
\<close>

lemma restart_missing_job:
  assumes "jd_name saved \<notin> fst ` set m"
  shows "restore_jobs [saved] m h =
    (if \<exists>p \<in> set m. jd_name saved < fst p then (Inr (), h)
     else (Inl (mk_ExecutiveException (-1) ''Executive_restart.cpp'' 68
                  ''Job in checkpoint file does not exist in current sim.''), h))"
proof -
  have "first_is_end (jd_name saved) m \<longleftrightarrow> \<not> (\<exists>p \<in> set m. jd_name saved < fst p)"
    unfolding first_is_end_def
  proof
    assume "\<forall>p \<in> set m. fst p < jd_name saved"
    then show "\<not> (\<exists>p \<in> set m. jd_name saved < fst p)" by (meson less_asym)
  next
    assume *: "\<not> (\<exists>p \<in> set m. jd_name saved < fst p)"
    show "\<forall>p \<in> set m. fst p < jd_name saved"
    proof
      fix p assume "p \<in> set m"
      then have "fst p \<noteq> jd_name saved" "\<not> jd_name saved < fst p" using * assms by (metis imageI, blast)
      then show "fst p < jd_name saved" by (meson less_linear)
    qed
  qed
  moreover have "filter (\<lambda>p. fst p = jd_name saved) m = []"
    unfolding filter_empty_conv using assms by (metis image_eqI)
  ultimately show ?thesis by (auto simp: equal_range_def restore_job_def)
qed

lemma restart_missing_job_witness:
  "restore_jobs [new_JobData_default\<lparr>jd_name := ''a''\<rparr>] [(''b'', 1)] demo_heap = (Inr (), demo_heap)"
  using restart_missing_job [of "new_JobData_default\<lparr>jd_name := ''a''\<rparr>" "[(''b'', 1)]" demo_heap] by simp

text \<open>
  \<open>clear_scheduled_queues\<close>, the first step of a restart, empties every queue but the thread
  sync queue. A thread sync job that is put back afterwards is then queued once more than before.
\<close>

lemma restart_queues_thread_sync_again:
  fixes e :: "'w Executive" and job :: job_ptr
  assumes "ex_class_map e (jd_job_class_name (ex_jobs e job)) = Some 4"
    and "ex_class_to_queue e 4 = Some Q_thread_sync" and "4 < ex_scheduled_start_index e"
    and "jd_thread (ex_jobs e job) = 0"
  defines "e1 \<equiv> snd (clear_scheduled_queues e)"
  shows "q_list (get_q Q_top_of_frame e1) = [] \<and> q_list (get_q Q_thread_sync e1) = q_list (get_q Q_thread_sync e) \<and>
    count (mset (q_list (get_q Q_thread_sync (snd (add_job_to_queue job e1))))) job =
      Suc (count (mset (q_list (get_q Q_thread_sync e))) job)"
proof -
  have e1: "ex_jobs e1 = ex_jobs e" "ex_class_map e1 = ex_class_map e" "ex_class_to_queue e1 = ex_class_to_queue e"
    "ex_scheduled_start_index e1 = ex_scheduled_start_index e"
    "get_q Q_thread_sync e1 = get_q Q_thread_sync e" "q_list (get_q Q_top_of_frame e1) = []"
    by (simp_all add: e1_def clear_scheduled_queues_def cleared_queues_def map_q_def queue_clear_def Let_def)
  have qs: "job_queues job e1 = [Q_thread_sync]"
    using assms(1-4) by (simp add: job_queues_def queues_of_job_def Let_def e1)
  have "get_q Q_thread_sync (snd (add_job_to_queue job e1)) =
      snd (push (ex_jobs (classed job e1)) (get_q Q_thread_sync e1) job)"
    using add_job_queues(1) [of job e1 Q_thread_sync] qs by simp
  then show ?thesis using e1 by (simp add: push_simps(1))
qed

definition demo_sync :: "nat list Executive" where
  "demo_sync = demo_state\<lparr>ex_jobs := (\<lambda>_. (demo_job 10 1 0)\<lparr>jd_job_class_name := ''system_thread_sync''\<rparr>)\<rparr>"

lemma restart_queues_thread_sync_again_witness:
  "count (mset (q_list (get_q Q_thread_sync
     (snd (add_job_to_queue 1 (snd (clear_scheduled_queues demo_sync))))))) 1 = 1"
proof -
  have "ex_class_map demo_sync (jd_job_class_name (ex_jobs demo_sync 1)) = Some 4"
    "ex_class_to_queue demo_sync 4 = Some Q_thread_sync" "4 < ex_scheduled_start_index demo_sync"
    "jd_thread (ex_jobs demo_sync 1) = 0" "q_list (get_q Q_thread_sync demo_sync) = []"
    by (simp_all add: demo_sync_def demo_state_def new_Executive_def initial_class_map_def initial_class_to_queue_def
        demo_job_def new_JobData_default_def new_ScheduledJobQueue_def)
  then show ?thesis using restart_queues_thread_sync_again [of demo_sync 1] by simp
qed

text \<open>
  after a restart an AMF or asynchronous thread with a cycle resumes at the first multiple
  of its cycle that is not before the restart time; without a cycle it resumes at once.
\<close>

lemma restart_amf_next_frame:
  assumes "th_process_type th = PROCESS_TYPE_AMF_CHILD \<or> th_process_type th = PROCESS_TYPE_ASYNC_CHILD" and "0 \<le> t"
  shows "t \<le> th_amf_next_tics (restart_amf t th) \<and>
    (if 0 < th_amf_cycle_tics th
     then th_amf_cycle_tics th dvd th_amf_next_tics (restart_amf t th) \<and>
       th_amf_next_tics (restart_amf t th) < t + th_amf_cycle_tics th
     else th_amf_next_tics (restart_amf t th) = t)"
proof (cases "0 < th_amf_cycle_tics th")
  case True
  let ?c = "th_amf_cycle_tics th"
  have m: "t smod ?c = t mod ?c" using assms(2) True by (intro smod_nonneg) simp_all
  show ?thesis
  proof (cases "t mod ?c = 0")
    case True
    then show ?thesis using assms \<open>0 < ?c\<close> m by (auto simp: restart_amf_def dvd_eq_mod_eq_0)
  next
    case False
    have "0 < t mod ?c" "t mod ?c < ?c" using False \<open>0 < ?c\<close> pos_mod_bound [of ?c t] pos_mod_sign [of ?c t]
      by linarith+
    moreover have "?c dvd t - t mod ?c + ?c" by (simp add: dvd_minus_mod)
    moreover have "th_amf_next_tics (restart_amf t th) = t - t mod ?c + ?c"
      using assms(1) False \<open>0 < ?c\<close> m by (auto simp: restart_amf_def)
    ultimately have "t \<le> th_amf_next_tics (restart_amf t th)" "th_amf_next_tics (restart_amf t th) < t + ?c"
      "?c dvd th_amf_next_tics (restart_amf t th)" by (linarith, linarith, metis)
    then show ?thesis using \<open>0 < ?c\<close> by simp
  qed
next
  case False
  then show ?thesis using assms by (auto simp: restart_amf_def)
qed

definition demo_thread :: Threads where
  "demo_thread = (new_Threads 1 True)\<lparr>th_process_type := PROCESS_TYPE_AMF_CHILD, th_amf_cycle_tics := 40\<rparr>"

lemma restart_amf_next_frame_witness: "th_amf_next_tics (restart_amf 100 demo_thread) = 120"
proof -
  have "100 \<le> th_amf_next_tics (restart_amf 100 demo_thread) \<and> 40 dvd th_amf_next_tics (restart_amf 100 demo_thread) \<and>
      th_amf_next_tics (restart_amf 100 demo_thread) < 140"
    using restart_amf_next_frame [of demo_thread 100] by (simp add: demo_thread_def)
  then show ?thesis by presburger
qed

end
