(* ===== verification/SchedPass.thy ===== *)
theory SchedPass
  imports TrickSys
begin

text \<open>
  One pass of the single threaded scheduler over the main queue: the loop
  \<open>while ( (curr_job = main_sched_queue->find_next_job( time_tics )) != NULL )\<close> with the
  \<open>advance_sim_time\<close> job in the queue. The jobs in front of that job run at the old time, the jobs
  behind it (\<open>system_moding\<close>, \<open>integ_loop\<close>) at the new time.

  \<open>on_schedule\<close> is what a pass relies on and leaves behind: no job that is still to be called has
  been passed by the clock. The proof is done once for jobs that keep the contract of the
  locale \<open>scheduled_jobs\<close>, and the jobs of \<open>SysSimObject\<close> with user jobs are an instance.
\<close>

subsection \<open>The schedule\<close>

abbreviation main_queue :: queue_ref where
  "main_queue \<equiv> Q_thread_job 0"

definition main_list :: "'w Executive \<Rightarrow> job_ptr list" where
  "main_list e = q_list (get_q main_queue e)"

definition main_time :: "'w Executive \<Rightarrow> int" where
  "main_time e = q_next_job_time (get_q main_queue e)"

definition next_of :: "'w Executive \<Rightarrow> job_ptr \<Rightarrow> int" where
  "next_of e j = jd_next_tics (ex_jobs e j)"

text \<open>What does not change while jobs run: everything about a job except its next call time.\<close>

definition job_static :: "JobData \<Rightarrow> JobData" where
  "job_static j = j\<lparr>jd_next_tics := 0, jd_complete := False\<rparr>"

text \<open>The queues the loop calls outside the pass.\<close>

definition frame_lists :: "'w Executive \<Rightarrow> job_ptr list \<times> job_ptr list \<times> job_ptr list" where
  "frame_lists e = (q_list (ex_queues e Q_input_processor_run), q_list (ex_queues e Q_top_of_frame),
     q_list (ex_queues e Q_end_of_frame))"

declare frame_lists_def [simp]

type_synonym schedule =
  "(job_ptr \<Rightarrow> JobData) \<times> job_ptr list \<times> job_ptr option \<times> job_ptr option \<times> nat \<times> bool \<times> bool \<times>
   job_ptr list \<times> job_ptr list \<times> job_ptr list"

definition schedule_of :: "'w Executive \<Rightarrow> schedule" where
  "schedule_of e =
     (\<lambda>j. job_static (ex_jobs e j), main_list e, ex_advance_sim_time_job e, ex_freeze_job e, length (ex_threads e),
      ex_freeze_on_frame_boundary e, ex_async_freeze_command e, frame_lists e)"

definition before_job :: "job_ptr \<Rightarrow> job_ptr list \<Rightarrow> job_ptr list" where
  "before_job a js = takeWhile (\<lambda>j. j \<noteq> a) js"

definition after_job :: "job_ptr \<Rightarrow> job_ptr list \<Rightarrow> job_ptr list" where
  "after_job a js = tl (dropWhile (\<lambda>j. j \<noteq> a) js)"

text \<open>
  A system job that is switched off is never rescheduled. In front of the advance job it may fall
  behind the clock without harm. Behind it, its stale time would be the least of the times that
  \<open>get_next_job_call_time\<close> compares and would hide the others, so the schedule excludes it.
\<close>

definition idle :: "JobData \<Rightarrow> bool" where
  "idle j \<longleftrightarrow> jd_disabled j \<and> jd_system_job_class j"

definition on_schedule :: "'w Executive \<Rightarrow> bool" where
  "on_schedule e \<longleftrightarrow>
     length (ex_threads e) = 1 \<and> distinct (main_list e) \<and>
     (\<forall>j \<in> set (main_list e). jd_system_job_class (ex_jobs e j) \<or> 0 < jd_cycle_tics (ex_jobs e j)) \<and>
     (case ex_advance_sim_time_job e of
        None \<Rightarrow> False
      | Some a \<Rightarrow>
          a \<in> set (main_list e) \<and> \<not> jd_disabled (ex_jobs e a) \<and> jd_system_job_class (ex_jobs e a) \<and>
          next_of e a = ex_time_tics e \<and>
          (\<forall>j \<in> set (before_job a (main_list e)). idle (ex_jobs e j) \<or> ex_time_tics e \<le> next_of e j) \<and>
          (\<forall>j \<in> set (after_job a (main_list e)). \<not> idle (ex_jobs e j) \<and> ex_time_tics e < next_of e j)) \<and>
     ex_time_tics e < main_time e \<and> 0 < ex_software_frame_tics e \<and>
     ex_time_tics e \<le> ex_terminate_time e \<and> ex_terminate_time e < TRICK_MAX_LONG_LONG"

text \<open>What a scheduled job's call may do: change the world, the mode command, the freeze times and,
  for a job that schedules itself, its own next call time to a later one.\<close>

definition tame_result :: "(int, 'w Executive) result \<Rightarrow> job_ptr \<Rightarrow> 'w Executive \<Rightarrow> bool" where
  "tame_result r j e \<longleftrightarrow>
     (\<exists>w cmd ts n. r = Some (Inr 0, e\<lparr>ex_world := w, ex_exec_command := cmd, ex_freeze_times := ts,
          ex_jobs := (ex_jobs e)(j := (ex_jobs e j)\<lparr>jd_next_tics := n\<rparr>)\<rparr>) \<and>
        (ex_freeze_times e = [] \<longrightarrow> ts = [] \<and> cmd = ex_exec_command e) \<and>
        (if jd_system_job_class (ex_jobs e j) then ex_time_tics e < n else n = next_of e j))"

text \<open>The members that a pass leaves as they are.\<close>

definition same_frame :: "'w Executive \<Rightarrow> 'w Executive \<Rightarrow> bool" where
  "same_frame e0 e \<longleftrightarrow>
     schedule_of e = schedule_of e0 \<and> ex_next_frame_check_tics e = ex_next_frame_check_tics e0 \<and>
     ex_software_frame_tics e = ex_software_frame_tics e0 \<and> ex_terminate_time e = ex_terminate_time e0 \<and>
     (ex_freeze_times e0 = [] \<longrightarrow> ex_freeze_times e = [] \<and> ex_exec_command e = ex_exec_command e0)"

lemma same_frame_refl [simp]: "same_frame e e"
  by (simp add: same_frame_def)

lemma same_frame_trans: "same_frame a b \<Longrightarrow> same_frame b c \<Longrightarrow> same_frame a c"
  by (simp add: same_frame_def)

lemma static_fields:
  assumes "job_static j = job_static k"
  shows "jd_disabled j = jd_disabled k" "jd_system_job_class j = jd_system_job_class k"
    "jd_cycle_tics j = jd_cycle_tics k" "jd_stop_tics j = jd_stop_tics k" "idle j = idle k"
proof -
  have "f (job_static j) = f (job_static k)" for f :: "JobData \<Rightarrow> 'a" using assms by simp
  from this [of jd_disabled] this [of jd_system_job_class]
  show *: "jd_disabled j = jd_disabled k" "jd_system_job_class j = jd_system_job_class k"
    by (simp_all add: job_static_def)
  have "jd_cycle_tics (job_static j) = jd_cycle_tics (job_static k)"
    "jd_stop_tics (job_static j) = jd_stop_tics (job_static k)" using assms by simp_all
  then show "jd_cycle_tics j = jd_cycle_tics k" "jd_stop_tics j = jd_stop_tics k"
    by (simp_all add: job_static_def)
  show "idle j = idle k" using * by (simp add: idle_def)
qed

lemma same_frameD:
  assumes "same_frame e0 e"
  shows "job_static (ex_jobs e j) = job_static (ex_jobs e0 j)" "main_list e = main_list e0"
    "ex_advance_sim_time_job e = ex_advance_sim_time_job e0" "length (ex_threads e) = length (ex_threads e0)"
    "ex_next_frame_check_tics e = ex_next_frame_check_tics e0"
    "ex_software_frame_tics e = ex_software_frame_tics e0" "ex_terminate_time e = ex_terminate_time e0"
  using assms by (simp_all add: same_frame_def schedule_of_def fun_eq_iff)

subsection \<open>Visiting a segment of the queue\<close>

lemma job_static_next [simp]: "job_static (j\<lparr>jd_next_tics := n\<rparr>) = job_static j"
  by (simp add: job_static_def)

lemma job_static_reschedule [simp]: "job_static (reschedule j) = job_static j"
  by (simp add: reschedule_def Let_def)

lemma reschedule_next:
  "\<not> jd_system_job_class j \<Longrightarrow> 0 < jd_cycle_tics j \<Longrightarrow> jd_next_tics j < TRICK_MAX_LONG_LONG \<Longrightarrow>
   jd_next_tics j < jd_next_tics (reschedule j)"
  by (simp add: reschedule_def Let_def)

text \<open>What holds of a job once it has been visited at time \<open>t\<close>: it is due later, and the queue knows.\<close>

definition handled :: "int \<Rightarrow> job_heap \<Rightarrow> SJQ \<Rightarrow> job_ptr \<Rightarrow> bool" where
  "handled t h q k \<longleftrightarrow> idle (h k) \<or> t < jd_next_tics (h k) \<and> q_next_job_time q \<le> jd_next_tics (h k)"

lemma visit_all_static: "job_static (fst (visit_all t ks (h, q)) k) = job_static (h k)"
proof (induction ks arbitrary: h q)
  case (Cons j ks)
  obtain h1 q1 where v: "visit t j (h, q) = (h1, q1)" by (cases "visit t j (h, q)")
  then have "job_static (h1 k) = job_static (h k)" using visit_job [of t j h q] by simp
  then show ?case using Cons v by simp
qed simp

lemma visit_all_time_le: "q_next_job_time (snd (visit_all t ks (h, q))) \<le> q_next_job_time q"
proof (induction ks arbitrary: h q)
  case (Cons j ks)
  obtain h1 q1 where v: "visit t j (h, q) = (h1, q1)" by (cases "visit t j (h, q)")
  have "q_next_job_time q1 \<le> q_next_job_time q"
    using visit_time [of t j h q] v by (simp split: option.splits)
  then show ?case using Cons [of h1 q1] v by simp
qed simp

text \<open>The hypotheses on a job that make a visit at \<open>t\<close> move it past \<open>t\<close>.\<close>

definition movable :: "int \<Rightarrow> JobData \<Rightarrow> bool" where
  "movable t j \<longleftrightarrow> idle j \<or> t \<le> jd_next_tics j \<and>
     (if jd_next_tics j = t then \<not> jd_system_job_class j \<and> 0 < jd_cycle_tics j else True)"

lemma call_time_movable:
  assumes "movable t j" "t < TRICK_MAX_LONG_LONG" "\<not> idle j"
  shows "call_time t j = Some (jd_next_tics (if jd_next_tics j = t then reschedule j else j))"
    and "t < jd_next_tics (if jd_next_tics j = t then reschedule j else j)"
  using assms reschedule_next [of j] by (auto simp: movable_def call_time_def split: if_splits)

lemma visit_all_handled:
  assumes d: "distinct ks" and m: "\<And>k. k \<in> set ks \<Longrightarrow> movable t (h k)" and t: "t < TRICK_MAX_LONG_LONG"
    and k: "k \<in> set ks"
  shows "handled t (fst (visit_all t ks (h, q))) (snd (visit_all t ks (h, q))) k"
proof (cases "idle (h k)")
  case True
  then show ?thesis using static_fields(5) [OF visit_all_static [of t ks h q k]] by (simp add: handled_def)
next
  case False
  note c = call_time_movable [OF m [OF k] t False]
  have h: "fst (visit_all t ks (h, q)) k = (if jd_next_tics (h k) = t then reschedule (h k) else h k)"
    using visit_all_jobs [OF d, of t h q] k by simp
  have "jd_next_tics (fst (visit_all t ks (h, q)) k) \<in> set (List.map_filter (\<lambda>j. call_time t (h j)) ks)"
    using c(1) k unfolding h by (force simp: List.map_filter_def)
  then show ?thesis
    using c(2) fold_min_le_mem unfolding handled_def visit_all_time [OF d] h by blast
qed

lemma visit_all_time_less:
  assumes d: "distinct ks" and t: "t < TRICK_MAX_LONG_LONG" and q: "t < q_next_job_time q"
    and c: "\<And>k. k \<in> set ks \<Longrightarrow> jd_system_job_class (h k) \<or> 0 < jd_cycle_tics (h k)"
  shows "t < q_next_job_time (snd (visit_all t ks (h, q)))"
proof -
  let ?xs = "List.map_filter (\<lambda>j. call_time t (h j)) ks"
  have "t < x" if x: "x \<in> set ?xs" for x
  proof -
    obtain k where "k \<in> set ks" "call_time t (h k) = Some x"
      using x by (auto simp: List.map_filter_def)
    then show ?thesis using c [of k] t reschedule_next [of "h k"]
      by (auto simp: call_time_def split: if_splits)
  qed
  then show ?thesis unfolding visit_all_time [OF d] using fold_min_mem [of ?xs] q by (metis)
qed

subsection \<open>One scheduled job\<close>

definition handled_in :: "int \<Rightarrow> 'w Executive \<Rightarrow> job_ptr \<Rightarrow> bool" where
  "handled_in t e k \<longleftrightarrow> handled t (ex_jobs e) (get_q main_queue e) k"

lemma handled_in_iff:
  "handled_in t e k \<longleftrightarrow> idle (ex_jobs e k) \<or> t < next_of e k \<and> main_time e \<le> next_of e k"
  by (simp add: handled_in_def handled_def next_of_def main_time_def)

text \<open>What the body of the loop does to a state, as far as the pass depends on it.\<close>

definition ran :: "job_ptr \<Rightarrow> 'w Executive \<Rightarrow> 'w Executive \<Rightarrow> bool" where
  "ran j u w \<longleftrightarrow>
     same_frame u w \<and> ex_time_tics w = ex_time_tics u \<and> ex_time_last_pass_tics w = ex_time_last_pass_tics u \<and>
     pending_in main_queue w = pending_in main_queue u \<and> queue_ok main_queue w = queue_ok main_queue u \<and>
     (\<forall>k. k \<noteq> j \<longrightarrow> next_of w k = next_of u k) \<and>
     (if jd_system_job_class (ex_jobs u j)
      then ex_time_tics u < next_of w j \<and> main_time w = min (main_time u) (next_of w j)
      else next_of w j = next_of u j \<and> main_time w = main_time u)"

lemma test_next_fields:
  "q_list (test_next_job_call_time h q j t) = q_list q"
  "q_curr_index (test_next_job_call_time h q j t) = q_curr_index q"
  "q_next_job_time (test_next_job_call_time h q j t) =
     (if t < jd_next_tics (h j) \<and> jd_next_tics (h j) < q_next_job_time q then jd_next_tics (h j) else q_next_job_time q)"
  by (simp_all add: test_next_job_call_time_def)

lemma sched_body_ran:
  assumes tame: "tame_result (JobData_call ex_jobs cf j u) j u" and c: "ex_curr_job u = Some j"
    and q: "has_queue main_queue u"
  shows "\<exists>w. sched_body cf j u = Some (Inr (), w) \<and> ran j u w"
proof -
  obtain wld cmd ts n where
    call: "JobData_call ex_jobs cf j u = Some (Inr 0, u\<lparr>ex_world := wld, ex_exec_command := cmd,
        ex_freeze_times := ts, ex_jobs := (ex_jobs u)(j := (ex_jobs u j)\<lparr>jd_next_tics := n\<rparr>)\<rparr>)"
    and n: "if jd_system_job_class (ex_jobs u j) then ex_time_tics u < n else n = next_of u j"
    and calm: "ex_freeze_times u = [] \<longrightarrow> ts = [] \<and> cmd = ex_exec_command u"
    using tame by (auto simp: tame_result_def)
  define u1 where "u1 = u\<lparr>ex_world := wld, ex_exec_command := cmd,
        ex_freeze_times := ts, ex_jobs := (ex_jobs u)(j := (ex_jobs u j)\<lparr>jd_next_tics := n\<rparr>)\<rparr>"
  have u1: "get_q main_queue u1 = get_q main_queue u" "has_queue main_queue u1" "ex_curr_job u1 = Some j"
    "ex_jobs u1 = (ex_jobs u)(j := (ex_jobs u j)\<lparr>jd_next_tics := n\<rparr>)" "ex_time_tics u1 = ex_time_tics u"
    "ex_time_last_pass_tics u1 = ex_time_last_pass_tics u"
    and sf: "same_frame u u1"
    using c q calm by (simp_all add: u1_def same_frame_def schedule_of_def main_list_def fun_eq_iff)
  have checked: "call_checked cf ''scheduled job did not return 0'' j u = Some (Inr (), u1)"
    by (simp add: call_checked_def call u1_def)
  show ?thesis
  proof (cases "jd_system_job_class (ex_jobs u j)")
    case True
    define w where "w = map_q main_queue (\<lambda>q. test_next_job_call_time (ex_jobs u1) q j (ex_time_tics u1)) u1"
    have body: "sched_body cf j u = Some (Inr (), w)"
      using True u1 by (simp add: sched_body_def checked test_system_def test_curr_def w_def)
    have "get_q main_queue w = test_next_job_call_time (ex_jobs u1) (get_q main_queue u1) j (ex_time_tics u1)"
      unfolding w_def map_q_def by (rule get_set_q [OF u1(2)])
    moreover have "ex_jobs w = ex_jobs u1" "ex_time_tics w = ex_time_tics u1" "has_queue main_queue w"
      "ex_time_last_pass_tics w = ex_time_last_pass_tics u1"
      using u1(2) by (simp_all add: w_def map_q_def)
    moreover have "same_frame u1 w" using u1(2)
      by (simp add: w_def map_q_def same_frame_def schedule_of_def main_list_def test_next_fields)
    ultimately have "ran j u w"
      using True n u1 sf q
      by (auto simp: ran_def main_time_def next_of_def pending_in_def pending_jobs_def queue_ok_def index_ok_def
          test_next_fields min_def intro: same_frame_trans)
    then show ?thesis using body by blast
  next
    case False
    have "sched_body cf j u = Some (Inr (), u1)"
      using False u1 by (simp add: sched_body_def checked test_system_def)
    moreover have "ran j u u1" using False n u1 sf q
      by (auto simp: ran_def main_time_def next_of_def pending_in_def queue_ok_def)
    ultimately show ?thesis by blast
  qed
qed

text \<open>The state in which the job found by \<open>find_next_job\<close> is called.\<close>

definition found :: "job_ptr list \<Rightarrow> job_ptr \<Rightarrow> 'w Executive \<Rightarrow> 'w Executive" where
  "found sk j v = set_curr (Some j) (visit_in main_queue (ex_time_tics v) (sk @ [j]) v)"

lemma set_q_main [simp]:
  "ex_next_frame_check_tics (visit_in main_queue t js e) = ex_next_frame_check_tics e"
  "ex_advance_sim_time_job (visit_in main_queue t js e) = ex_advance_sim_time_job e"
  "ex_freeze_job (visit_in main_queue t js e) = ex_freeze_job e"
  "ex_freeze_on_frame_boundary (visit_in main_queue t js e) = ex_freeze_on_frame_boundary e"
  "ex_terminate_time (visit_in main_queue t js e) = ex_terminate_time e"
  "ex_software_frame_tics (visit_in main_queue t js e) = ex_software_frame_tics e"
  "length (ex_threads (visit_in main_queue t js e)) = length (ex_threads e)"
  "ex_async_freeze_command (visit_in main_queue t js e) = ex_async_freeze_command e"
  "ex_queues (visit_in main_queue t js e) = ex_queues e"
  "ex_freeze_times (visit_in main_queue t js e) = ex_freeze_times e"
  "ex_exec_command (visit_in main_queue t js e) = ex_exec_command e"
  "ex_time_last_pass_tics (visit_in main_queue t js e) = ex_time_last_pass_tics e"
  by (simp_all add: visit_in_def split: prod.split)

lemma visit_in_frame:
  "has_queue main_queue e \<Longrightarrow> same_frame e (visit_in main_queue t js e)"
  using visit_all_static [of t js "ex_jobs e" "get_q main_queue e"] visit_in_jobs(2) [of main_queue e t js]
  by (simp add: same_frame_def schedule_of_def main_list_def visit_in_jobs(1) fun_eq_iff)

lemma set_curr_frame [simp]: "same_frame e (set_curr jo e')= same_frame e e'"
  by (simp add: same_frame_def schedule_of_def main_list_def set_curr_def get_q_cong)

lemma found_simps:
  assumes ok: "queue_ok main_queue v" and p: "pending_in main_queue v = sk @ j # js"
  shows "same_frame v (found sk j v)" "ex_time_tics (found sk j v) = ex_time_tics v"
    "pending_in main_queue (found sk j v) = js" "queue_ok main_queue (found sk j v)"
    "ex_curr_job (found sk j v) = Some j" "has_queue main_queue (found sk j v)"
    "ex_jobs (found sk j v) = fst (visit_all (ex_time_tics v) (sk @ [j]) (ex_jobs v, get_q main_queue v))"
    "get_q main_queue (found sk j v) = snd (visit_all (ex_time_tics v) (sk @ [j]) (ex_jobs v, get_q main_queue v))"
    "ex_time_last_pass_tics (found sk j v) = ex_time_last_pass_tics v"
proof -
  show "ex_time_last_pass_tics (found sk j v) = ex_time_last_pass_tics v" by (simp add: found_def set_curr_def)
  have p': "pending_in main_queue v = (sk @ [j]) @ js" using p by simp
  show "same_frame v (found sk j v)" "ex_time_tics (found sk j v) = ex_time_tics v"
    "pending_in main_queue (found sk j v) = js" "queue_ok main_queue (found sk j v)"
    "has_queue main_queue (found sk j v)"
    using visit_in_frame [OF queue_ok_has [OF ok]] pending_visit_in [OF queue_ok_has [OF ok] p']
      queue_ok_visit_in [OF ok p'] queue_ok_has [OF queue_ok_visit_in [OF ok p']]
    unfolding found_def by simp_all
  show "ex_curr_job (found sk j v) = Some j" by (simp add: found_def set_curr_def)
  show "ex_jobs (found sk j v) = fst (visit_all (ex_time_tics v) (sk @ [j]) (ex_jobs v, get_q main_queue v))"
    "get_q main_queue (found sk j v) = snd (visit_all (ex_time_tics v) (sk @ [j]) (ex_jobs v, get_q main_queue v))"
    unfolding found_def using visit_in_jobs(2) [OF queue_ok_has [OF ok]] by (simp_all add: visit_in_jobs)
qed

text \<open>A segment of jobs that are not due followed by a due user job.\<close>

definition ready :: "int \<Rightarrow> 'w Executive \<Rightarrow> job_ptr \<Rightarrow> bool" where
  "ready t e k \<longleftrightarrow> (idle (ex_jobs e k) \<or> t \<le> next_of e k) \<and>
     (jd_system_job_class (ex_jobs e k) \<or> 0 < jd_cycle_tics (ex_jobs e k))"

lemma ready_not_due_movable:
  "ready t e k \<Longrightarrow> \<not> due_in t e k \<Longrightarrow> movable t (ex_jobs e k)"
  by (auto simp: ready_def movable_def due_in_def due_at_def next_of_def idle_def)

lemma ready_user_movable:
  "ready t e k \<Longrightarrow> \<not> jd_system_job_class (ex_jobs e k) \<Longrightarrow> movable t (ex_jobs e k)"
  by (auto simp: ready_def movable_def next_of_def idle_def)

lemma visit_system_due:
  assumes "jd_system_job_class (h j)" "jd_next_tics (h j) = t"
  shows "visit t j (h, q) = (h, q\<lparr>q_curr_index := Suc (q_curr_index q)\<rparr>)"
  using assms by (simp add: visit_def reschedule_def)

text \<open>The next call time of a user job after a visit.\<close>

definition moved :: "int \<Rightarrow> JobData \<Rightarrow> int" where
  "moved t j = jd_next_tics (if jd_next_tics j = t then reschedule j else j)"

lemma found_jobs:
  assumes ok: "queue_ok main_queue v" and p: "pending_in main_queue v = sk @ j # js"
    and nd: "filter (due_in (ex_time_tics v) v) sk = []" and due: "due_in (ex_time_tics v) v j"
    and ready: "\<forall>k \<in> set (sk @ [j]). ready (ex_time_tics v) v k"
    and t: "ex_time_tics v < TRICK_MAX_LONG_LONG"
  defines "u \<equiv> found sk j v"
  shows "\<And>k. k \<in> set sk \<Longrightarrow> handled_in (ex_time_tics v) u k"
    and "\<not> jd_system_job_class (ex_jobs v j) \<Longrightarrow> handled_in (ex_time_tics v) u j"
    and "jd_system_job_class (ex_jobs v j) \<Longrightarrow> next_of u j = ex_time_tics v"
    and "\<And>k. k \<notin> set (sk @ [j]) \<Longrightarrow> ex_jobs u k = ex_jobs v k"
    and "main_time u \<le> main_time v"
    and "ex_time_tics v < main_time v \<Longrightarrow> ex_time_tics v < main_time u"
    and "\<And>k. k \<in> set (sk @ [j]) \<Longrightarrow> next_of u k = moved (ex_time_tics v) (ex_jobs v k)"
proof -
  let ?t = "ex_time_tics v" and ?q = "get_q main_queue v"
  note simps = found_simps(7,8) [OF ok p, folded u_def]
  have d: "distinct (sk @ [j])" using ok p by (simp add: queue_ok_def)
  have msk: "movable ?t (ex_jobs v k)" if "k \<in> set sk" for k
    using ready_not_due_movable [of ?t v k] ready nd that by (auto simp: filter_empty_conv)
  show "next_of u k = moved ?t (ex_jobs v k)" if "k \<in> set (sk @ [j])" for k
    unfolding next_of_def simps visit_all_jobs [OF d] using that by (simp add: moved_def)
  show "ex_jobs u k = ex_jobs v k" if "k \<notin> set (sk @ [j])" for k
    unfolding simps using visit_all_other [OF that] .
  show "main_time u \<le> main_time v"
    unfolding main_time_def simps by (rule visit_all_time_le)
  show "ex_time_tics v < main_time v \<Longrightarrow> ex_time_tics v < main_time u"
    unfolding main_time_def simps using ready by (intro visit_all_time_less [OF d t]) (auto simp: ready_def)
  have user: "handled_in ?t u k" if sys: "\<not> jd_system_job_class (ex_jobs v j)" "k \<in> set (sk @ [j])" for k
    unfolding handled_in_def simps
    using msk ready_user_movable [of ?t v j] ready that
    by (intro visit_all_handled [OF d _ t]) auto
  then show "\<not> jd_system_job_class (ex_jobs v j) \<Longrightarrow> handled_in ?t u j" by simp
  obtain h1 q1 where v1: "visit_all ?t sk (ex_jobs v, ?q) = (h1, q1)"
    by (cases "visit_all ?t sk (ex_jobs v, ?q)")
  have hj: "h1 j = ex_jobs v j" using visit_all_other [of j sk ?t "ex_jobs v" ?q] v1 d by simp
  have dj: "jd_next_tics (ex_jobs v j) = ?t" using due by (simp add: due_in_def due_at_def)
  show sysj: "jd_system_job_class (ex_jobs v j) \<Longrightarrow> next_of u j = ?t"
    using visit_system_due [of h1 j ?t q1] hj dj v1 simps(1) by (simp add: next_of_def)
  fix k assume k: "k \<in> set sk"
  show "handled_in ?t u k"
  proof (cases "jd_system_job_class (ex_jobs v j)")
    case True
    have "handled ?t h1 q1 k"
      using visit_all_handled [of sk ?t "ex_jobs v" k ?q] msk d t k v1 by simp
    moreover have "ex_jobs u = h1" "q_next_job_time (get_q main_queue u) = q_next_job_time q1"
      using visit_system_due [of h1 j ?t q1] hj dj v1 True simps by simp_all
    ultimately show ?thesis by (simp add: handled_in_def handled_def)
  next
    case False
    then show ?thesis using k user by simp
  qed
qed

text \<open>After the body: everything up to the job is handled, nothing behind it has moved.\<close>

lemma ran_handled:
  assumes ok: "queue_ok main_queue v" and p: "pending_in main_queue v = sk @ j # js"
    and nd: "filter (due_in (ex_time_tics v) v) sk = []" and due: "due_in (ex_time_tics v) v j"
    and ready: "\<forall>k \<in> set (sk @ [j]). ready (ex_time_tics v) v k"
    and t: "ex_time_tics v < TRICK_MAX_LONG_LONG"
    and ran: "ran j (found sk j v) w"
  shows "same_frame v w" "ex_time_tics w = ex_time_tics v" "pending_in main_queue w = js" "queue_ok main_queue w"
    and "\<And>k. k \<in> set (sk @ [j]) \<Longrightarrow> handled_in (ex_time_tics v) w k"
    and "\<And>k. k \<notin> set (sk @ [j]) \<Longrightarrow> next_of w k = next_of v k"
    and "main_time w \<le> main_time v"
    and "ex_time_tics v < main_time v \<Longrightarrow> ex_time_tics v < main_time w"
    and "\<And>k. k \<in> set (sk @ [j]) \<Longrightarrow> \<not> jd_system_job_class (ex_jobs v k) \<Longrightarrow>
      next_of w k = moved (ex_time_tics v) (ex_jobs v k)"
    and "ex_time_last_pass_tics w = ex_time_last_pass_tics v"
proof -
  let ?u = "found sk j v" and ?t = "ex_time_tics v"
  note fs = found_simps [OF ok p] and fj = found_jobs [OF ok p nd due ready t]
  note r = ran [unfolded ran_def]
  show "ex_time_last_pass_tics w = ex_time_last_pass_tics v" using r fs(9) by simp
  show sf: "same_frame v w" using r fs(1) by (auto intro: same_frame_trans)
  show "ex_time_tics w = ?t" "pending_in main_queue w = js" "queue_ok main_queue w"
    using r fs by auto
  have sys: "jd_system_job_class (ex_jobs ?u j) = jd_system_job_class (ex_jobs v j)"
    using static_fields(2) [OF same_frameD(1) [OF fs(1)]] .
  show "next_of w k = moved ?t (ex_jobs v k)"
    if "k \<in> set (sk @ [j])" "\<not> jd_system_job_class (ex_jobs v k)" for k
    using fj(7) [OF that(1)] r sys that(2) by (cases "k = j") auto
  have mt: "main_time w \<le> main_time ?u" using r by (auto split: if_splits)
  then show "main_time w \<le> main_time v" using fj(5) by simp
  show "?t < main_time v \<Longrightarrow> ?t < main_time w"
    using r fj(6) fs(2) by (auto split: if_splits)
  have dist: "distinct (sk @ j # js)" using ok p by (simp add: queue_ok_def)
  show "next_of w k = next_of v k" if "k \<notin> set (sk @ [j])" for k
    using r fj(4) [OF that] that by (auto simp: next_of_def)
  fix k assume k: "k \<in> set (sk @ [j])"
  have idle: "idle (ex_jobs w k) = idle (ex_jobs ?u k)"
    using r static_fields(5) [OF same_frameD(1)] by blast
  show "handled_in ?t w k"
  proof (cases "k = j")
    case False
    then have "handled_in ?t ?u k" "next_of w k = next_of ?u k" using k fj(1) r by auto
    then show ?thesis using idle mt by (auto simp: handled_in_iff)
  next
    case True
    show ?thesis
    proof (cases "jd_system_job_class (ex_jobs v j)")
      case sysv: True
      then have "ex_time_tics ?u < next_of w j" "main_time w = min (main_time ?u) (next_of w j)"
        using r sys by auto
      then show ?thesis using fs(2) True by (simp add: handled_in_iff)
    next
      case False
      then have "next_of w j = next_of ?u j" using r sys by auto
      then show ?thesis using fj(2) [OF False] idle mt True by (auto simp: handled_in_iff)
    qed
  qed
qed

subsection \<open>The advance job\<close>

text \<open>The members that choosing the new time does not touch.\<close>

definition core ::
  "'w Executive \<Rightarrow> job_heap \<times> job_ptr list \<times> nat \<times> schedule \<times> job_ptr option \<times> int \<times> int \<times> int \<times> int list \<times> SIM_COMMAND" where
  "core e = (ex_jobs e, main_list e, q_curr_index (get_q main_queue e), schedule_of e, ex_curr_job e,
     ex_next_frame_check_tics e, ex_software_frame_tics e, ex_terminate_time e, ex_freeze_times e, ex_exec_command e)"

lemma core_time [simp]: "core (e\<lparr>ex_time_tics := t\<rparr>) = core e" "core (e\<lparr>ex_time_last_pass_tics := t\<rparr>) = core e"
  by (simp_all add: core_def main_list_def schedule_of_def)

lemma set_q_more [simp]:
  "ex_freeze_job (set_q r q e) = ex_freeze_job e"
  "ex_freeze_on_frame_boundary (set_q r q e) = ex_freeze_on_frame_boundary e"
  by (cases r; simp)+

lemma core_record_lowest:
  assumes "has_queue main_queue e" and "r = main_queue \<or> r = Q_input_processor_run"
  shows "core (record_lowest r e) = core e"
  using assms by (auto simp: core_def record_lowest_def main_list_def schedule_of_def)

lemma core_choose_time:
  assumes "length (ex_threads e) = 1"
  shows "core (choose_time e) = core e"
proof -
  have has: "has_queue main_queue x" if "core x = core e" for x :: "'a Executive"
    using that assms by (simp add: core_def schedule_of_def)
  have step: "core (advance_to_queue r x) = core x"
    if "core x = core e" "r = main_queue \<or> r = Q_input_processor_run" for r and x :: "'a Executive"
    using core_record_lowest [OF has that(2)] that(1) by (simp add: advance_to_queue_eq Let_def)
  have len: "length (ex_threads x) = 1" if "core x = core e" for x :: "'a Executive"
    using that assms by (simp add: core_def schedule_of_def)
  let ?e1 = "e\<lparr>ex_time_last_pass_tics := ex_time_tics e, ex_time_tics := ex_next_frame_check_tics e\<rparr>"
  have 1: "core ?e1 = core e" by simp
  let ?e2 = "advance_to_queue main_queue ?e1"
  have 2: "core ?e2 = core e" using step [OF 1] by simp
  let ?e3 = "advance_to_queue Q_input_processor_run ?e2"
  have 3: "core ?e3 = core e" using step [OF 2] 2 by simp
  then show ?thesis using len [OF 3] by (simp add: choose_time_def Let_def)
qed

definition new_time :: "'w Executive \<Rightarrow> int" where
  "new_time e = ex_time_tics (choose_time e)"

lemma new_time_bounds:
  fixes e :: "'w Executive"
  assumes len: "length (ex_threads e) = 1" and t: "ex_time_tics e < ex_next_frame_check_tics e"
    "ex_time_tics e \<le> ex_terminate_time e" and m: "ex_time_tics e < main_time e"
    and later: "\<forall>k \<in> set (pending_in main_queue e). ex_time_tics e < next_of e k"
  shows "new_time e \<le> ex_next_frame_check_tics e" "new_time e \<le> ex_terminate_time e"
    "ex_time_tics e \<le> new_time e" "ex_time_tics e < ex_terminate_time e \<Longrightarrow> ex_time_tics e < new_time e"
    "new_time e \<le> main_time e" "\<forall>k \<in> set (pending_in main_queue e). new_time e \<le> next_of e k"
proof -
  let ?c = "candidate_times e" and ?T = "ex_time_tics e"
  let ?L = "lowest_call_time (ex_jobs e) (get_q main_queue e)"
  let ?xs = "map (next_of e) (pending_in main_queue e)"
  have L: "?L = fold min ?xs (main_time e)"
    by (simp add: lowest_call_time_def next_of_def [abs_def] pending_in_def main_time_def)
  have nt: "new_time e = fold min ?c (ex_next_frame_check_tics e)"
    unfolding new_time_def by (rule choose_time_min)
  show "new_time e \<le> ex_next_frame_check_tics e" unfolding nt by (rule fold_min_le)
  have "ex_terminate_time e \<in> set ?c" by (simp add: candidate_times_def)
  then show "new_time e \<le> ex_terminate_time e" unfolding nt by (rule fold_min_le_mem)
  have cand: "?T < x \<or> x = ex_terminate_time e" if "x \<in> set ?c" for x
    using that len by (auto simp: candidate_times_def queue_candidate_def Let_def split: if_splits)
  have "new_time e = ex_next_frame_check_tics e \<or> new_time e \<in> set ?c"
    unfolding nt by (rule fold_min_mem)
  then have "?T < new_time e \<or> new_time e = ex_terminate_time e" using cand t(1) by metis
  then show "?T \<le> new_time e" and "?T < ex_terminate_time e \<Longrightarrow> ?T < new_time e" using t(2) by auto
  have "?T < ?L" using fold_min_mem [of ?xs "main_time e"] m later unfolding L by auto
  then have "?L \<in> set ?c" by (simp add: candidate_times_def queue_candidate_def)
  then have "new_time e \<le> ?L" unfolding nt by (rule fold_min_le_mem)
  then show "new_time e \<le> main_time e" "\<forall>k \<in> set (pending_in main_queue e). new_time e \<le> next_of e k"
    using fold_min_le [of ?xs "main_time e"] fold_min_le_mem [of _ ?xs "main_time e"] unfolding L
    by (auto intro: order_trans)
qed

lemma scheduled_thread_sync_single:
  "length (ex_threads e) = 1 \<Longrightarrow> scheduled_thread_sync env e = Some (Inr (), e)"
  by (simp add: scheduled_thread_sync_def for_threads.simps)

lemma set_new_time_fields:
  fixes e :: "'w Executive" and a :: job_ptr
  assumes "length (ex_threads e) = 1"
  defines "w \<equiv> set_new_time a e"
  shows "ex_time_tics w = ex_time_tics e" "ex_curr_job w = ex_curr_job e"
    "get_q main_queue w = set_next_job_call_time (ex_time_tics e + ex_software_frame_tics e) (get_q main_queue e)"
    "ex_jobs w = (ex_jobs e)(a := (ex_jobs e a)\<lparr>jd_next_tics := ex_time_tics e\<rparr>)" "same_frame e w"
    "length (ex_threads w) = 1" "ex_time_last_pass_tics w = ex_time_last_pass_tics e"
proof -
  obtain th where th: "ex_threads e = [th]" using assms(1) by (cases "ex_threads e") auto
  show q: "get_q main_queue w = set_next_job_call_time (ex_time_tics e + ex_software_frame_tics e) (get_q main_queue e)"
    by (simp add: w_def set_new_time_def map_q_def map_job_def map_thread_def Let_def th)
  show j: "ex_jobs w = (ex_jobs e)(a := (ex_jobs e a)\<lparr>jd_next_tics := ex_time_tics e\<rparr>)"
    and l: "length (ex_threads w) = 1"
    by (simp_all add: w_def set_new_time_def map_q_def map_job_def map_thread_def Let_def th)
  show "ex_time_tics w = ex_time_tics e" "ex_curr_job w = ex_curr_job e"
    "ex_time_last_pass_tics w = ex_time_last_pass_tics e"
    by (simp_all add: w_def set_new_time_def map_q_def map_job_def map_thread_def Let_def)
  have "ex_advance_sim_time_job w = ex_advance_sim_time_job e" "ex_freeze_job w = ex_freeze_job e"
    "ex_freeze_on_frame_boundary w = ex_freeze_on_frame_boundary e"
    "ex_next_frame_check_tics w = ex_next_frame_check_tics e"
    "ex_software_frame_tics w = ex_software_frame_tics e" "ex_terminate_time w = ex_terminate_time e"
    "ex_async_freeze_command w = ex_async_freeze_command e" "frame_lists w = frame_lists e"
    "ex_freeze_times w = ex_freeze_times e" "ex_exec_command w = ex_exec_command e"
    by (simp_all add: w_def set_new_time_def map_q_def map_job_def map_thread_def Let_def set_next_job_call_time_def)
  then show "same_frame e w" using q j l assms(1)
    by (simp add: same_frame_def schedule_of_def main_list_def set_next_job_call_time_def fun_eq_iff)
qed

text \<open>The step of the pass that moves time.\<close>

definition advanced :: "job_ptr \<Rightarrow> 'w Executive \<Rightarrow> 'w Executive \<Rightarrow> bool" where
  "advanced a u w \<longleftrightarrow>
     same_frame u w \<and> ex_time_tics w = new_time u \<and> next_of w a = new_time u \<and>
     ex_time_last_pass_tics w = ex_time_tics u \<and>
     main_time w = new_time u + ex_software_frame_tics u \<and>
     pending_in main_queue w = pending_in main_queue u \<and> queue_ok main_queue w \<and>
     (\<forall>k. k \<noteq> a \<longrightarrow> next_of w k = next_of u k)"

lemma sched_body_advance:
  fixes u :: "'w Executive"
  assumes call: "JobData_call ex_jobs cf a u = advance_sim_time env u"
    and len: "length (ex_threads u) = 1" and a: "ex_advance_sim_time_job u = Some a"
    and c: "ex_curr_job u = Some a" and sys: "jd_system_job_class (ex_jobs u a)"
    and ok: "queue_ok main_queue u"
  shows "\<exists>w. sched_body cf a u = Some (Inr (), w) \<and> advanced a u w"
proof -
  define u1 where "u1 = choose_time u"
  have co: "core u1 = core u" unfolding u1_def by (rule core_choose_time [OF len])
  then have len1: "length (ex_threads u1) = 1" and sf1: "same_frame u u1"
    and u1: "ex_jobs u1 = ex_jobs u" "ex_curr_job u1 = Some a"
      "q_list (get_q main_queue u1) = q_list (get_q main_queue u)"
      "q_curr_index (get_q main_queue u1) = q_curr_index (get_q main_queue u)"
    using len c by (simp_all add: core_def schedule_of_def same_frame_def main_list_def)
  have t1: "ex_time_tics u1 = new_time u" by (simp add: u1_def new_time_def)
  have l1: "ex_time_last_pass_tics u1 = ex_time_tics u" unfolding u1_def by (rule choose_time_min(2))
  define w where "w = set_new_time a u1"
  note w = set_new_time_fields [OF len1, of a, folded w_def]
  have call': "JobData_call ex_jobs cf a u = Some (Inr 0, w)"
    unfolding call advance_sim_time_def scheduled_thread_sync_single [OF len]
    using len a by (auto simp: w_def u1_def)
  have q: "has_queue main_queue w" using w(6) by simp
  have na: "next_of w a = new_time u" by (simp add: next_of_def w(4) t1)
  have sysw: "jd_system_job_class (ex_jobs w a)" using sys by (simp add: w(4) u1(1))
  define w1 where "w1 = map_q main_queue (\<lambda>q. test_next_job_call_time (ex_jobs w) q a (ex_time_tics w)) w"
  have body: "sched_body cf a u = Some (Inr (), w1)"
    using sysw u1(2) w(2)
    by (simp add: sched_body_def call_checked_def call' test_system_def test_curr_def w1_def)
  have q1: "get_q main_queue w1 = get_q main_queue w"
    unfolding w1_def map_q_def get_set_q [OF q]
    using na by (simp add: test_next_job_call_time_def next_of_def w(1) t1)
  have j1: "ex_jobs w1 = ex_jobs w" "ex_time_tics w1 = ex_time_tics w" "length (ex_threads w1) = 1"
    "ex_time_last_pass_tics w1 = ex_time_tics u"
    using w(6,7) l1 by (simp_all add: w1_def map_q_def)
  have sf2: "same_frame w w1"
    using q1 j1 w(6) by (simp add: same_frame_def schedule_of_def main_list_def w1_def map_q_def)
  have "same_frame u w1" using sf1 w(5) sf2 by (blast intro: same_frame_trans)
  moreover have pend: "pending_in main_queue w1 = pending_in main_queue u"
    unfolding pending_in_def q1 w(3) using u1 by (simp add: pending_jobs_def set_next_job_call_time_def)
  moreover have "queue_ok main_queue w1"
    using ok pend j1(3) u1 unfolding queue_ok_def q1 w(3)
    by (simp add: index_ok_def set_next_job_call_time_def)
  moreover have "main_time w1 = new_time u + ex_software_frame_tics u"
    unfolding main_time_def q1 w(3) using same_frameD(6) [OF sf1] t1 by (simp add: set_next_job_call_time_def)
  moreover have "\<forall>k. k \<noteq> a \<longrightarrow> next_of w1 k = next_of u k"
    by (simp add: next_of_def j1 w(4) u1(1))
  ultimately have "advanced a u w1"
    using na j1 w(1) t1 by (simp add: advanced_def next_of_def)
  then show ?thesis using body by blast
qed

subsection \<open>The pass\<close>

lemma moved_cong:
  "job_static j = job_static k \<Longrightarrow> jd_next_tics j = jd_next_tics k \<Longrightarrow> moved t j = moved t k"
  using static_fields [of j k] by (simp add: moved_def reschedule_def Let_def)

lemma due_cong: "same_frame e0 e \<Longrightarrow> next_of e k = next_of e0 k \<Longrightarrow> due_in t e k = due_in t e0 k"
  using static_fields(1) [OF same_frameD(1), of e0 e k] by (simp add: due_in_def due_at_def next_of_def)

lemma split_at_job: "a \<in> set xs \<Longrightarrow> xs = before_job a xs @ a # after_job a xs"
  by (induction xs) (auto simp: before_job_def after_job_def)

lemma split_first:
  "r @ a # post = sk @ j # js \<Longrightarrow> a \<notin> set sk \<Longrightarrow>
   sk = r \<and> j = a \<and> js = post \<or> (\<exists>r'. r = sk @ j # r' \<and> js = r' @ a # post)"
proof (induction sk arbitrary: r)
  case Nil
  then show ?case by (cases r) auto
next
  case (Cons x sk)
  then show ?case by (cases r) auto
qed

text \<open>A job that the pass has gone by at \<open>t\<close>, and one the pass went by before the clock moved to \<open>t\<close>.\<close>

definition settled :: "int \<Rightarrow> 'w Executive \<Rightarrow> 'w Executive \<Rightarrow> job_ptr \<Rightarrow> bool" where
  "settled t e0 e k \<longleftrightarrow> handled_in t e k \<and>
     (\<not> jd_system_job_class (ex_jobs e0 k) \<longrightarrow> next_of e k = moved t (ex_jobs e0 k))"

definition arrived :: "'w Executive \<Rightarrow> 'w Executive \<Rightarrow> job_ptr \<Rightarrow> bool" where
  "arrived e0 e k \<longleftrightarrow> (idle (ex_jobs e k) \<or> ex_time_tics e \<le> next_of e k) \<and>
     (\<not> jd_system_job_class (ex_jobs e0 k) \<longrightarrow> next_of e k = moved (ex_time_tics e0) (ex_jobs e0 k))"

lemma settled_keep:
  assumes "settled t e0 v k" "next_of w k = next_of v k" "main_time w \<le> main_time v" "same_frame v w"
  shows "settled t e0 w k"
  using assms static_fields(5) [OF same_frameD(1) [OF assms(4)], of k]
  by (auto simp: settled_def handled_in_iff)

text \<open>The pass before the advance job has run, and after.\<close>

definition pass_before :: "'w Executive \<Rightarrow> job_ptr \<Rightarrow> job_ptr list \<Rightarrow> 'w Executive \<Rightarrow> bool" where
  "pass_before e0 a tr e \<longleftrightarrow>
     (\<exists>d r. before_job a (main_list e0) = d @ r \<and>
        pending_in main_queue e = r @ a # after_job a (main_list e0) \<and> ex_time_tics e = ex_time_tics e0 \<and>
        (\<forall>k \<in> set d. settled (ex_time_tics e0) e0 e k) \<and>
        (\<forall>k \<in> set (pending_in main_queue e). next_of e k = next_of e0 k) \<and>
        ex_time_tics e0 < main_time e \<and> tr = filter (due_in (ex_time_tics e0) e0) d)"

definition time_moved :: "'w Executive \<Rightarrow> 'w Executive \<Rightarrow> bool" where
  "time_moved e0 e \<longleftrightarrow>
     ex_time_last_pass_tics e = ex_time_tics e0 \<and>
     ex_time_tics e0 \<le> ex_time_tics e \<and> ex_time_tics e \<le> ex_next_frame_check_tics e0 \<and>
     ex_time_tics e \<le> ex_terminate_time e0 \<and>
     (ex_time_tics e0 < ex_terminate_time e0 \<longrightarrow> ex_time_tics e0 < ex_time_tics e)"

definition pass_after :: "'w Executive \<Rightarrow> job_ptr \<Rightarrow> job_ptr list \<Rightarrow> 'w Executive \<Rightarrow> bool" where
  "pass_after e0 a tr e \<longleftrightarrow>
     (\<exists>d r. after_job a (main_list e0) = d @ r \<and> pending_in main_queue e = r \<and> time_moved e0 e \<and>
        next_of e a = ex_time_tics e \<and> (\<forall>k \<in> set (before_job a (main_list e0)). arrived e0 e k) \<and>
        (\<forall>k \<in> set d. settled (ex_time_tics e) e0 e k) \<and>
        (\<forall>k \<in> set r. ex_time_tics e \<le> next_of e k \<and> next_of e k = next_of e0 k) \<and>
        ex_time_tics e < main_time e \<and>
        tr = filter (due_in (ex_time_tics e0) e0) (before_job a (main_list e0)) @
             a # filter (due_in (ex_time_tics e) e0) d)"

lemma on_scheduleD:
  assumes "on_schedule e" and "ex_advance_sim_time_job e = Some a"
  shows "length (ex_threads e) = 1" "distinct (main_list e)"
    "\<And>j. j \<in> set (main_list e) \<Longrightarrow> jd_system_job_class (ex_jobs e j) \<or> 0 < jd_cycle_tics (ex_jobs e j)"
    "main_list e = before_job a (main_list e) @ a # after_job a (main_list e)"
    "due_in (ex_time_tics e) e a" "jd_system_job_class (ex_jobs e a)" "\<not> idle (ex_jobs e a)" "next_of e a = ex_time_tics e"
    "\<And>j. j \<in> set (before_job a (main_list e)) \<Longrightarrow> idle (ex_jobs e j) \<or> ex_time_tics e \<le> next_of e j"
    "\<And>j. j \<in> set (after_job a (main_list e)) \<Longrightarrow> \<not> idle (ex_jobs e j) \<and> ex_time_tics e < next_of e j"
    "ex_time_tics e < main_time e" "0 < ex_software_frame_tics e" "ex_time_tics e \<le> ex_terminate_time e"
    "ex_time_tics e < TRICK_MAX_LONG_LONG" "ex_terminate_time e < TRICK_MAX_LONG_LONG"
  using assms split_at_job [of a "main_list e"]
  by (auto simp: on_schedule_def due_in_def due_at_def next_of_def idle_def)

lemma ready_cong:
  assumes "same_frame e0 v" "next_of v k = next_of e0 k"
  shows "ready t v k = ready t e0 k"
  using assms static_fields [OF same_frameD(1) [OF assms(1)], of k] by (simp add: ready_def)

lemma filter_due_settled:
  assumes "same_frame e0 v" "\<forall>k \<in> set ks. next_of v k = next_of e0 k"
  shows "filter (due_in t v) ks = filter (due_in t e0) ks"
  using assms due_cong [OF assms(1)] by (intro filter_cong) simp_all

lemma step_before:
  assumes sched: "on_schedule e0" and a: "ex_advance_sim_time_job e0 = Some a"
    and sf: "same_frame e0 v" and ok: "queue_ok main_queue v" and inv: "pass_before e0 a tr v"
    and p: "pending_in main_queue v = sk @ j # js" and nd: "filter (due_in (ex_time_tics v) v) sk = []"
    and due: "due_in (ex_time_tics v) v j" and ja: "j \<noteq> a" and ran: "ran j (found sk j v) w"
  shows "pass_before e0 a (tr @ [j]) w \<and> same_frame e0 w \<and> queue_ok main_queue w \<and> pending_in main_queue w = js"
proof -
  note D = on_scheduleD [OF sched a]
  obtain d r where dr: "before_job a (main_list e0) = d @ r"
      "pending_in main_queue v = r @ a # after_job a (main_list e0)" and t: "ex_time_tics v = ex_time_tics e0"
    and dn: "\<forall>k \<in> set d. settled (ex_time_tics e0) e0 v k"
    and same: "\<forall>k \<in> set (pending_in main_queue v). next_of v k = next_of e0 k"
    and m: "ex_time_tics e0 < main_time v" and tr: "tr = filter (due_in (ex_time_tics e0) e0) d"
    using inv unfolding pass_before_def by blast
  let ?T = "ex_time_tics e0"
  have "a \<notin> set sk"
    using nd due_cong [OF sf, of a] same D(5) t dr by (auto simp: filter_empty_conv)
  then obtain r' where r': "r = sk @ j # r'" "js = r' @ a # after_job a (main_list e0)"
    using split_first [of r a "after_job a (main_list e0)" sk j js] dr(2) p ja by auto
  have mem: "k \<in> set (main_list e0)" if "k \<in> set (before_job a (main_list e0))" for k
    using that D(4) by (metis UnCI set_append)
  have ready: "\<forall>k \<in> set (sk @ [j]). ready (ex_time_tics v) v k"
  proof
    fix k assume k: "k \<in> set (sk @ [j])"
    then have "k \<in> set (before_job a (main_list e0))" "next_of v k = next_of e0 k" using dr r' same by auto
    then have "ready ?T e0 k" using D(3) [OF mem] D(9) unfolding ready_def by blast
    then show "ready (ex_time_tics v) v k"
      using ready_cong [OF sf] t \<open>next_of v k = next_of e0 k\<close> by simp
  qed
  have tmax: "ex_time_tics v < TRICK_MAX_LONG_LONG" using D(14) t by simp
  note R = ran_handled [OF ok p nd due ready tmax ran]
  have dist: "distinct (before_job a (main_list e0) @ a # after_job a (main_list e0))" using D(2,4) by simp
  have st: "settled ?T e0 w k" if "k \<in> set (d @ sk @ [j])" for k
  proof (cases "k \<in> set d")
    case True
    then have "k \<notin> set (sk @ [j])" using dist dr(1) r'(1) by auto
    then show ?thesis using settled_keep [of ?T e0 v k w] dn True R(1,6,7) by blast
  next
    case False
    then have k: "k \<in> set (sk @ [j])" using that by auto
    have "moved ?T (ex_jobs v k) = moved ?T (ex_jobs e0 k)"
      using same k p by (intro moved_cong same_frameD(1) [OF sf]) (auto simp: next_of_def)
    moreover have "jd_system_job_class (ex_jobs v k) = jd_system_job_class (ex_jobs e0 k)"
      using static_fields(2) [OF same_frameD(1) [OF sf]] .
    ultimately show ?thesis using R(5,9) [OF k] t by (simp add: settled_def)
  qed
  have nx: "\<forall>k \<in> set js. next_of w k = next_of e0 k"
  proof
    fix k assume k: "k \<in> set js"
    then have "k \<notin> set (sk @ [j])" using ok p by (auto simp: queue_ok_def)
    then show "next_of w k = next_of e0 k" using R(6) same k p by auto
  qed
  have "filter (due_in ?T e0) (sk @ [j]) = filter (due_in ?T v) (sk @ [j])"
    using same p by (intro filter_due_settled [OF sf, symmetric]) simp
  then have "tr @ [j] = filter (due_in ?T e0) (d @ sk @ [j])" using tr nd due t by simp
  moreover have "ex_time_tics e0 < main_time w" using R(8) t m by simp
  moreover have "before_job a (main_list e0) = (d @ sk @ [j]) @ r'" using dr(1) r'(1) by simp
  moreover have "pending_in main_queue w = r' @ a # after_job a (main_list e0)" using R(3) r'(2) by simp
  ultimately have "pass_before e0 a (tr @ [j]) w"
    unfolding pass_before_def using R(2,3) t st nx by (metis (no_types, lifting))
  then show ?thesis using R(1,3,4) same_frame_trans [OF sf] by blast
qed

lemma step_advance:
  assumes sched: "on_schedule e0" and a: "ex_advance_sim_time_job e0 = Some a"
    and frame: "ex_time_tics e0 < ex_next_frame_check_tics e0"
    and sf: "same_frame e0 v" and ok: "queue_ok main_queue v" and inv: "pass_before e0 a tr v"
    and p: "pending_in main_queue v = sk @ a # js" and nd: "filter (due_in (ex_time_tics v) v) sk = []"
    and due: "due_in (ex_time_tics v) v a" and adv: "advanced a (found sk a v) w"
  shows "pass_after e0 a (tr @ [a]) w \<and> same_frame e0 w \<and> queue_ok main_queue w \<and> pending_in main_queue w = js"
proof -
  note D = on_scheduleD [OF sched a]
  let ?T = "ex_time_tics e0" and ?u = "found sk a v" and ?pre = "before_job a (main_list e0)"
    and ?post = "after_job a (main_list e0)"
  obtain d r where dr: "?pre = d @ r" "pending_in main_queue v = r @ a # ?post" and t: "ex_time_tics v = ?T"
    and dn: "\<forall>k \<in> set d. settled ?T e0 v k"
    and same: "\<forall>k \<in> set (pending_in main_queue v). next_of v k = next_of e0 k"
    and m: "?T < main_time v" and tr: "tr = filter (due_in ?T e0) d"
    using inv unfolding pass_before_def by blast
  have "distinct (pending_in main_queue v)" using ok by (simp add: queue_ok_def)
  then have "distinct (sk @ a # js)" "distinct (r @ a # ?post)" using p dr(2) by simp_all
  then have "a \<notin> set sk" "a \<notin> set r" by simp_all
  then have r: "sk = r" "js = ?post" using split_first [of r a ?post sk a js] p dr(2) by auto
  have dist: "distinct (?pre @ a # ?post)" using D(2,4) by simp
  have mem: "k \<in> set (main_list e0)" if "k \<in> set ?pre" for k
    using that D(4) by (metis UnCI set_append)
  have nv: "next_of v k = next_of e0 k" if "k \<in> set (sk @ [a])" for k using that same p by auto
  have ready: "\<forall>k \<in> set (sk @ [a]). ready (ex_time_tics v) v k"
  proof
    fix k assume k: "k \<in> set (sk @ [a])"
    have "ready ?T e0 k"
    proof (cases "k = a")
      case False
      then have "k \<in> set ?pre" using k r(1) dr(1) by auto
      then show ?thesis using D(3) [OF mem] D(9) unfolding ready_def by blast
    qed (use D in \<open>simp add: ready_def\<close>)
    then show "ready (ex_time_tics v) v k" using ready_cong [OF sf nv [OF k]] t by simp
  qed
  have tmax: "ex_time_tics v < TRICK_MAX_LONG_LONG" using D(14) t by simp
  note fs = found_simps [OF ok p] and fj = found_jobs [OF ok p nd due ready tmax]
  have sfu: "same_frame e0 ?u" using sf fs(1) by (rule same_frame_trans)
  have A: "same_frame ?u w" "ex_time_tics w = new_time ?u" "next_of w a = new_time ?u"
    "main_time w = new_time ?u + ex_software_frame_tics ?u" "pending_in main_queue w = ?post"
    "queue_ok main_queue w" "\<forall>k. k \<noteq> a \<longrightarrow> next_of w k = next_of ?u k"
    "ex_time_last_pass_tics w = ex_time_tics ?u"
    using adv fs(3) r(2) by (auto simp: advanced_def)
  have sfw: "same_frame e0 w" using sfu A(1) by (rule same_frame_trans)
  have postu: "next_of ?u k = next_of e0 k" if k: "k \<in> set ?post" for k
  proof -
    have "k \<notin> set (sk @ [a])" using dist r(1) dr(1) k by auto
    then have "next_of ?u k = next_of v k" using fj(4) by (simp add: next_of_def)
    then show ?thesis using same dr(2) k by simp
  qed
  have nt: "new_time ?u \<le> ex_next_frame_check_tics e0" "new_time ?u \<le> ex_terminate_time e0"
    "?T \<le> new_time ?u" "?T < ex_terminate_time e0 \<Longrightarrow> ?T < new_time ?u"
    "new_time ?u \<le> main_time ?u" "\<forall>k \<in> set ?post. new_time ?u \<le> next_of ?u k"
    using new_time_bounds [of ?u] same_frameD [OF sfu] D(1,13) frame t fs(2,3) fj(6) m postu D(10) r(2)
    by auto
  have moved: "time_moved e0 w" using nt(1-4) A(2,8) fs(2) t by (simp add: time_moved_def)
  have early: "\<forall>k \<in> set ?pre. arrived e0 w k"
  proof
    fix k assume k: "k \<in> set ?pre"
    then have ka: "k \<noteq> a" using dist by auto
    have jk: "job_static (ex_jobs v k) = job_static (ex_jobs e0 k)" by (rule same_frameD(1) [OF sf])
    have jw: "idle (ex_jobs w k) = idle (ex_jobs ?u k)" by (rule static_fields(5) [OF same_frameD(1) [OF A(1)]])
    have "handled_in ?T ?u k \<and> (\<not> jd_system_job_class (ex_jobs e0 k) \<longrightarrow> next_of ?u k = moved ?T (ex_jobs e0 k))"
    proof (cases "k \<in> set d")
      case True
      have "k \<notin> set (sk @ [a])" using True dist dr(1) r(1) by auto
      then have "ex_jobs ?u k = ex_jobs v k" by (rule fj(4))
      then show ?thesis using dn True fj(5) by (auto simp: settled_def handled_in_iff next_of_def)
    next
      case False
      then have ks: "k \<in> set sk" using k dr(1) r(1) by auto
      then have "moved ?T (ex_jobs v k) = moved ?T (ex_jobs e0 k)"
        using nv [of k] by (intro moved_cong jk) (auto simp: next_of_def)
      then show ?thesis using fj(1) [OF ks] fj(7) [of k] ks t by simp
    qed
    then show "arrived e0 w k"
      using ka A(2,7) nt(5) jw by (auto simp: arrived_def handled_in_iff)
  qed
  have later: "\<forall>k \<in> set ?post. ex_time_tics w \<le> next_of w k \<and> next_of w k = next_of e0 k"
  proof
    fix k assume k: "k \<in> set ?post"
    then have "k \<noteq> a" using dist by auto
    then have "next_of w k = next_of ?u k" using A(7) by blast
    then show "ex_time_tics w \<le> next_of w k \<and> next_of w k = next_of e0 k"
      using A(2) nt(6) postu k by simp
  qed
  have "ex_time_tics w < main_time w" using A(2,4) same_frameD(6) [OF sfu] D(12) by simp
  moreover have "tr @ [a] = filter (due_in ?T e0) ?pre @ a # filter (due_in (ex_time_tics w) e0) []"
  proof -
    have "filter (due_in ?T e0) sk = filter (due_in ?T v) sk"
      using same p by (intro filter_due_settled [OF sf, symmetric]) simp
    then show ?thesis using tr dr(1) r(1) nd t by simp
  qed
  ultimately have "pass_after e0 a (tr @ [a]) w"
    unfolding pass_after_def using A(2,3,5) moved early later
    by (rule_tac x = "[]" in exI, rule_tac x = "?post" in exI) simp
  then show ?thesis using sfw A(5,6) r(2) by simp
qed

lemma step_after:
  assumes sched: "on_schedule e0" and a: "ex_advance_sim_time_job e0 = Some a"
    and sf: "same_frame e0 v" and ok: "queue_ok main_queue v" and inv: "pass_after e0 a tr v"
    and p: "pending_in main_queue v = sk @ j # js" and nd: "filter (due_in (ex_time_tics v) v) sk = []"
    and due: "due_in (ex_time_tics v) v j" and ran: "ran j (found sk j v) w"
  shows "pass_after e0 a (tr @ [j]) w \<and> same_frame e0 w \<and> queue_ok main_queue w \<and> pending_in main_queue w = js"
proof -
  note D = on_scheduleD [OF sched a]
  let ?pre = "before_job a (main_list e0)" and ?post = "after_job a (main_list e0)" and ?t = "ex_time_tics v"
  obtain d where dr: "?post = d @ sk @ j # js" and tm: "time_moved e0 v"
    and na: "next_of v a = ?t" and early: "\<forall>k \<in> set ?pre. arrived e0 v k"
    and dn: "\<forall>k \<in> set d. settled ?t e0 v k"
    and same: "\<forall>k \<in> set (sk @ j # js). ?t \<le> next_of v k \<and> next_of v k = next_of e0 k"
    and m: "?t < main_time v"
    and tr: "tr = filter (due_in (ex_time_tics e0) e0) ?pre @ a # filter (due_in ?t e0) d"
    using inv p unfolding pass_after_def by metis
  have dist: "distinct (?pre @ a # d @ sk @ j # js)" using D(2,4) dr by simp
  have mem: "k \<in> set (main_list e0)" if "k \<in> set ?post" for k
    using that D(4) by (metis UnCI set_append list.set_intros(2))
  have ready: "\<forall>k \<in> set (sk @ [j]). ready ?t v k"
  proof
    fix k assume k: "k \<in> set (sk @ [j])"
    then have "k \<in> set ?post" "?t \<le> next_of v k" "next_of v k = next_of e0 k" using dr same by auto
    then have "ready ?t e0 k" using D(3) [OF mem] unfolding ready_def by auto
    then show "ready ?t v k" using ready_cong [OF sf] \<open>next_of v k = next_of e0 k\<close> by simp
  qed
  have tmax: "?t < TRICK_MAX_LONG_LONG" using tm D(15) by (simp add: time_moved_def)
  note R = ran_handled [OF ok p nd due ready tmax ran]
  have out: "next_of w k = next_of v k" if "k \<in> set ?pre \<union> {a} \<union> set d \<union> set js" for k
    using that dist by (intro R(6)) auto
  have st: "settled ?t e0 w k" if "k \<in> set (d @ sk @ [j])" for k
  proof (cases "k \<in> set d")
    case True
    then show ?thesis using settled_keep [of ?t e0 v k w] dn out R(1,7) by auto
  next
    case False
    then have k: "k \<in> set (sk @ [j])" using that by auto
    have "moved ?t (ex_jobs v k) = moved ?t (ex_jobs e0 k)"
      using same k by (intro moved_cong same_frameD(1) [OF sf]) (auto simp: next_of_def)
    moreover have "jd_system_job_class (ex_jobs v k) = jd_system_job_class (ex_jobs e0 k)"
      using static_fields(2) [OF same_frameD(1) [OF sf]] .
    ultimately show ?thesis using R(5,9) [OF k] by (simp add: settled_def)
  qed
  have arr: "\<forall>k \<in> set ?pre. arrived e0 w k"
  proof
    fix k assume k: "k \<in> set ?pre"
    have "idle (ex_jobs w k) = idle (ex_jobs v k)" by (rule static_fields(5) [OF same_frameD(1) [OF R(1)]])
    then show "arrived e0 w k" using early out [of k] k R(2) by (simp add: arrived_def)
  qed
  have rest: "\<forall>k \<in> set js. ex_time_tics w \<le> next_of w k \<and> next_of w k = next_of e0 k"
  proof
    fix k assume k: "k \<in> set js"
    then have "next_of w k = next_of v k" by (intro out) simp
    moreover have "k \<in> set (sk @ j # js)" using k by simp
    then have "?t \<le> next_of v k \<and> next_of v k = next_of e0 k" using same by blast
    ultimately show "ex_time_tics w \<le> next_of w k \<and> next_of w k = next_of e0 k" by (simp add: R(2))
  qed
  have "filter (due_in ?t e0) (sk @ [j]) = filter (due_in ?t v) (sk @ [j])"
    using same by (intro filter_due_settled [OF sf, symmetric]) auto
  then have "tr @ [j] = filter (due_in (ex_time_tics e0) e0) ?pre @ a # filter (due_in (ex_time_tics w) e0) (d @ sk @ [j])"
    using tr nd due R(2) by simp
  moreover have "time_moved e0 w" using tm R(2,10) by (simp add: time_moved_def)
  moreover have "next_of w a = ex_time_tics w" using out [of a] na R(2) by simp
  moreover have "ex_time_tics w < main_time w" using R(2,8) m by simp
  moreover have "?post = (d @ sk @ [j]) @ js" using dr by simp
  moreover have "\<forall>k \<in> set (d @ sk @ [j]). settled (ex_time_tics w) e0 w k" using st R(2) by simp
  ultimately have "pass_after e0 a (tr @ [j]) w"
    unfolding pass_after_def using R(3) arr rest by blast
  then show ?thesis using R(3,4) same_frame_trans [OF sf R(1)] by blast
qed

text \<open>The end of the pass: the rest of the queue is visited once more, with nothing due.\<close>

definition pass_done :: "'w Executive \<Rightarrow> job_ptr \<Rightarrow> job_ptr list \<Rightarrow> 'w Executive \<Rightarrow> bool" where
  "pass_done e0 a tr e \<longleftrightarrow>
     same_frame e0 e \<and> on_schedule e \<and> time_moved e0 e \<and>
     tr = filter (due_in (ex_time_tics e0) e0) (before_job a (main_list e0)) @
          a # filter (due_in (ex_time_tics e) e0) (after_job a (main_list e0)) \<and>
     (\<forall>k \<in> set (main_list e0). \<not> jd_system_job_class (ex_jobs e0 k) \<longrightarrow>
        next_of e k = moved (if k \<in> set (before_job a (main_list e0)) then ex_time_tics e0 else ex_time_tics e)
                        (ex_jobs e0 k))"

lemma finish_after:
  assumes sched: "on_schedule e0" and a: "ex_advance_sim_time_job e0 = Some a"
    and sf: "same_frame e0 v" and ok: "queue_ok main_queue v" and inv: "pass_after e0 a tr v"
    and nd: "filter (due_in (ex_time_tics v) v) (pending_in main_queue v) = []"
  shows "pass_done e0 a tr (set_curr None (visit_in main_queue (ex_time_tics v) (pending_in main_queue v) v))"
proof -
  note D = on_scheduleD [OF sched a]
  let ?pre = "before_job a (main_list e0)" and ?post = "after_job a (main_list e0)" and ?t = "ex_time_tics v"
    and ?r = "pending_in main_queue v"
  define w where "w = set_curr None (visit_in main_queue ?t ?r v)"
  obtain d where dr: "?post = d @ ?r" and tm: "time_moved e0 v"
    and na: "next_of v a = ?t" and early: "\<forall>k \<in> set ?pre. arrived e0 v k"
    and dn: "\<forall>k \<in> set d. settled ?t e0 v k"
    and same: "\<forall>k \<in> set ?r. ?t \<le> next_of v k \<and> next_of v k = next_of e0 k"
    and m: "?t < main_time v"
    and tr: "tr = filter (due_in (ex_time_tics e0) e0) ?pre @ a # filter (due_in ?t e0) d"
    using inv unfolding pass_after_def by blast
  have dist: "distinct (?pre @ a # d @ ?r)" using D(2,4) dr by simp
  have mem: "k \<in> set (main_list e0)" if "k \<in> set (?pre @ a # d @ ?r)" for k
    using that unfolding D(4) [symmetric] dr [symmetric] .
  have tmax: "?t < TRICK_MAX_LONG_LONG" using tm D(15) by (simp add: time_moved_def)
  have sfw: "same_frame v w" using visit_in_frame [OF queue_ok_has [OF ok]] by (simp add: w_def)
  have sf0: "same_frame e0 w" using sf sfw by (rule same_frame_trans)
  have wj: "ex_jobs w = fst (visit_all ?t ?r (ex_jobs v, get_q main_queue v))"
    and wq: "get_q main_queue w = snd (visit_all ?t ?r (ex_jobs v, get_q main_queue v))"
    and wt: "ex_time_tics w = ?t" and wl: "ex_time_last_pass_tics w = ex_time_last_pass_tics v"
    using visit_in_jobs(2) [OF queue_ok_has [OF ok]] by (simp_all add: w_def visit_in_jobs set_curr_def)
  have dr': "distinct ?r" using dist by simp
  have ready: "ready ?t v k" if k: "k \<in> set ?r" for k
  proof -
    have "k \<in> set (main_list e0)" using mem k by simp
    then have "ready ?t e0 k" using D(3) same k unfolding ready_def by auto
    then show ?thesis using ready_cong [OF sf] same k by simp
  qed
  have sys: "jd_system_job_class (ex_jobs v k) = jd_system_job_class (ex_jobs e0 k)"
    "idle (ex_jobs w k) = idle (ex_jobs v k)" "idle (ex_jobs w k) = idle (ex_jobs e0 k)" for k
    using static_fields(2) [OF same_frameD(1) [OF sf]] static_fields(5) [OF same_frameD(1) [OF sfw]]
      static_fields(5) [OF same_frameD(1) [OF sf0]] by blast+
  have out: "next_of w k = next_of v k" if "k \<notin> set ?r" for k
    using visit_all_other [OF that] by (simp add: next_of_def wj)
  have mle: "main_time w \<le> main_time v" unfolding main_time_def wq by (rule visit_all_time_le)
  have mlt: "?t < main_time w"
    unfolding main_time_def wq using ready m tmax dr'
    by (intro visit_all_time_less) (auto simp: ready_def main_time_def)
  have st: "settled ?t e0 w k" if k: "k \<in> set (d @ ?r)" for k
  proof (cases "k \<in> set ?r")
    case True
    have "\<And>k. k \<in> set ?r \<Longrightarrow> movable ?t (ex_jobs v k)"
      using ready_not_due_movable [OF ready] nd by (auto simp: filter_empty_conv)
    then have "handled_in ?t w k"
      unfolding handled_in_def wj wq using True by (intro visit_all_handled [OF dr' _ tmax])
    moreover have "next_of w k = moved ?t (ex_jobs v k)"
      unfolding next_of_def wj visit_all_jobs [OF dr'] using True by (simp add: moved_def)
    moreover have "moved ?t (ex_jobs v k) = moved ?t (ex_jobs e0 k)"
      using same True by (intro moved_cong same_frameD(1) [OF sf]) (auto simp: next_of_def)
    ultimately show ?thesis by (simp add: settled_def)
  next
    case False
    then show ?thesis using settled_keep [of ?t e0 v k w] dn k out [OF False] mle sfw by auto
  qed
  have arr: "arrived e0 w k" if k: "k \<in> set ?pre" for k
  proof -
    have "k \<notin> set ?r" using k dist by auto
    then show ?thesis using early k out sys(2) wt by (simp add: arrived_def)
  qed
  have na': "next_of w a = ?t" using na out [of a] dist by auto
  have mw: "main_list w = main_list e0" by (rule same_frameD(2) [OF sf0])
  have "on_schedule w"
  proof -
    have cyc: "\<forall>j \<in> set (main_list w). jd_system_job_class (ex_jobs w j) \<or> 0 < jd_cycle_tics (ex_jobs w j)"
      using D(3) static_fields [OF same_frameD(1) [OF sf0]] unfolding mw by metis
    have fa: "\<not> jd_disabled (ex_jobs w a)" "jd_system_job_class (ex_jobs w a)"
      using D(6,7) static_fields [OF same_frameD(1) [OF sf0], of a] by (simp_all add: idle_def)
    have post: "\<forall>j \<in> set ?post. \<not> idle (ex_jobs w j) \<and> ?t < next_of w j"
      using st D(10) sys(3) unfolding dr by (auto simp: settled_def handled_in_iff)
    have pre: "\<forall>j \<in> set ?pre. idle (ex_jobs w j) \<or> ?t \<le> next_of w j"
      using arr wt by (auto simp: arrived_def)
    have am: "a \<in> set (main_list e0)" using mem by simp
    show ?thesis unfolding on_schedule_def mw wt
      using same_frameD [OF sf0] D(1,2,12,15) tm cyc fa post pre na' mlt am a mw
      by (simp add: time_moved_def)
  qed
  moreover have "tr = filter (due_in (ex_time_tics e0) e0) ?pre @ a # filter (due_in (ex_time_tics w) e0) ?post"
  proof -
    have "filter (due_in ?t e0) ?r = filter (due_in ?t v) ?r"
      using same by (intro filter_due_settled [OF sf, symmetric]) auto
    then show ?thesis using tr nd wt unfolding dr by simp
  qed
  moreover have "next_of w k = moved (if k \<in> set ?pre then ex_time_tics e0 else ex_time_tics w) (ex_jobs e0 k)"
    if k: "k \<in> set (main_list e0)" "\<not> jd_system_job_class (ex_jobs e0 k)" for k
  proof (cases "k \<in> set ?pre")
    case True
    then show ?thesis using arr [OF True] k(2) by (simp add: arrived_def)
  next
    case False
    then have "k \<in> set (d @ ?r)" using k D(4,6) dr by (metis Un_iff set_append set_ConsD)
    then show ?thesis using st k(2) False wt by (simp add: settled_def)
  qed
  moreover have "time_moved e0 w" using tm wt wl by (simp add: time_moved_def)
  ultimately show ?thesis using sf0 unfolding pass_done_def w_def [symmetric] by blast
qed

lemma due_advance_first:
  assumes sched: "on_schedule e0" and a: "ex_advance_sim_time_job e0 = Some a"
    and sf: "same_frame e0 v" and inv: "pass_before e0 a tr v"
  shows "a \<in> set (pending_in main_queue v)" "due_in (ex_time_tics v) v a"
proof -
  show p: "a \<in> set (pending_in main_queue v)" using inv by (auto simp: pass_before_def)
  then have "next_of v a = next_of e0 a" "ex_time_tics v = ex_time_tics e0"
    using inv by (auto simp: pass_before_def)
  then show "due_in (ex_time_tics v) v a" using due_cong [OF sf] on_scheduleD(5) [OF sched a] by simp
qed

text \<open>The state in which a pass starts.\<close>

lemma start_pass:
  assumes sched: "on_schedule e0" and a: "ex_advance_sim_time_job e0 = Some a"
  defines "v \<equiv> map_q main_queue reset_curr_index e0"
  shows "same_frame e0 v" "queue_ok main_queue v" "pass_before e0 a [] v"
proof -
  note D = on_scheduleD [OF sched a]
  have has: "has_queue main_queue e0" using D(1) by simp
  have q: "get_q main_queue v = reset_curr_index (get_q main_queue e0)"
    unfolding v_def map_q_def by (rule get_set_q [OF has])
  have v: "ex_jobs v = ex_jobs e0" "ex_time_tics v = ex_time_tics e0" "has_queue main_queue v"
    using D(1) by (simp_all add: v_def map_q_def)
  have l: "main_list v = main_list e0" unfolding main_list_def q by (simp add: reset_curr_index_def)
  show "same_frame e0 v"
    using l by (simp add: same_frame_def schedule_of_def v_def map_q_def)
  have p: "pending_in main_queue v = main_list e0"
    unfolding pending_in_def q by (simp add: main_list_def)
  show "queue_ok main_queue v"
    unfolding queue_ok_def p using v(3) D(2) by (simp add: q index_ok_def reset_curr_index_def del: get_q.simps has_queue.simps)
  have "main_time v = main_time e0" unfolding main_time_def q by (simp add: reset_curr_index_def)
  then show "pass_before e0 a [] v"
    unfolding pass_before_def p using D(4,11) v
    by (intro exI [of _ "[]"] exI [of _ "before_job a (main_list e0)"]) (simp add: next_of_def)
qed

subsection \<open>The contract of the jobs, and the pass\<close>

locale scheduled_jobs =
  fixes cf :: "'w exec_call" and env :: "'w Environment" and static :: "schedule \<Rightarrow> bool"
  assumes tame: "static (schedule_of e) \<Longrightarrow> j \<in> set (main_list e) \<Longrightarrow> ex_advance_sim_time_job e \<noteq> Some j \<Longrightarrow>
      ex_time_tics e < TRICK_MAX_LONG_LONG \<Longrightarrow> tame_result (JobData_call ex_jobs cf j e) j e"
    and advance: "static (schedule_of e) \<Longrightarrow> ex_advance_sim_time_job e = Some a \<Longrightarrow> a \<in> set (main_list e) \<Longrightarrow>
      JobData_call ex_jobs cf a e = advance_sim_time env e"
begin

lemma pass_step:
  assumes sched: "on_schedule e0" and a: "ex_advance_sim_time_job e0 = Some a"
    and frame: "ex_time_tics e0 < ex_next_frame_check_tics e0" and st: "static (schedule_of e0)"
    and ok: "queue_ok main_queue v" and sf: "same_frame e0 v"
    and inv: "pass_before e0 a tr v \<or> pass_after e0 a tr v"
    and p: "pending_in main_queue v = sk @ j # js" and nd: "filter (due_in (ex_time_tics v) v) sk = []"
    and due: "due_in (ex_time_tics v) v j"
  shows "\<exists>w. sched_body cf j (found sk j v) = Some (Inr (), w) \<and> queue_ok main_queue w \<and>
      pending_in main_queue w = js \<and> same_frame e0 w \<and>
      (pass_before e0 a (tr @ [j]) w \<or> pass_after e0 a (tr @ [j]) w)"
proof -
  let ?u = "found sk j v"
  note fs = found_simps [OF ok p]
  have sfu: "same_frame e0 ?u" using sf fs(1) by (rule same_frame_trans)
  have stu: "static (schedule_of ?u)" using st sfu by (simp add: same_frame_def)
  have au: "ex_advance_sim_time_job ?u = Some a" using same_frameD(3) [OF sfu] a by simp
  have mem: "j \<in> set (main_list ?u)"
  proof -
    have "j \<in> set (pending_in main_queue v)" using p by simp
    then have "j \<in> set (main_list v)"
      unfolding pending_in_def pending_jobs_def main_list_def by (rule in_set_dropD)
    then show ?thesis using same_frameD(2) [OF fs(1)] by simp
  qed
  show ?thesis
  proof (cases "j = a")
    case True
    have before: "pass_before e0 a tr v"
    proof (rule ccontr)
      assume "\<not> pass_before e0 a tr v"
      then have "pass_after e0 a tr v" using inv by simp
      then have "a \<in> set (after_job a (main_list e0))" using p True by (auto simp: pass_after_def)
      then show False using on_scheduleD(2,4) [OF sched a] by (metis distinct_append distinct.simps(2))
    qed
    have "JobData_call ex_jobs cf a ?u = advance_sim_time env ?u"
      using advance [OF stu au] mem True by simp
    moreover have "length (ex_threads ?u) = 1" using same_frameD(4) [OF sfu] on_scheduleD(1) [OF sched a] by simp
    moreover have "jd_system_job_class (ex_jobs ?u a)"
      using static_fields(2) [OF same_frameD(1) [OF sfu]] on_scheduleD(6) [OF sched a] by blast
    ultimately obtain w where "sched_body cf a ?u = Some (Inr (), w)" "advanced a ?u w"
      using sched_body_advance [of cf a ?u env] au fs(4,5) True by blast
    then show ?thesis
      using step_advance [OF sched a frame sf ok before] p nd due True by blast
  next
    case False
    have "ex_time_tics ?u < TRICK_MAX_LONG_LONG"
      using inv fs(2) on_scheduleD(14,15) [OF sched a] by (auto simp: pass_before_def pass_after_def time_moved_def)
    then have "tame_result (JobData_call ex_jobs cf j ?u) j ?u" using tame [OF stu mem] au False by simp
    then obtain w where w: "sched_body cf j ?u = Some (Inr (), w)" "ran j ?u w"
      using sched_body_ran [OF _ fs(5,6)] by blast
    show ?thesis
      using inv step_before [OF sched a sf ok _ p nd due False w(2)] step_after [OF sched a sf ok _ p nd due w(2)] w(1)
      by blast
  qed
qed

lemma pass:
  assumes sched: "on_schedule e0" and a: "ex_advance_sim_time_job e0 = Some a"
    and frame: "ex_time_tics e0 < ex_next_frame_check_tics e0" and st: "static (schedule_of e0)"
  shows "\<exists>js w. runs (next_now main_queue) (sched_body cf) (map_q main_queue reset_curr_index e0) js w \<and>
      pass_done e0 a js w"
proof -
  let ?I = "\<lambda>tr v. same_frame e0 v \<and> (pass_before e0 a tr v \<or> pass_after e0 a tr v)"
  have "\<exists>js w. runs (next_now main_queue) (sched_body cf) (map_q main_queue reset_curr_index e0) js w \<and>
      pass_done e0 a ([] @ js) w"
  proof (rule next_now.walk_complete [where I = ?I])
    show "queue_ok main_queue (map_q main_queue reset_curr_index e0)"
      and "?I [] (map_q main_queue reset_curr_index e0)"
      using start_pass [OF sched a] by auto
  next
    fix v and sk j js and tr :: "job_ptr list"
    assume v: "queue_ok main_queue v" "?I tr v" "pending_in main_queue v = sk @ j # js"
      "filter (due_in (ex_time_tics v) v) sk = []" "due_in (ex_time_tics v) v j"
    then show "\<exists>w. sched_body cf j (set_curr (Some (last (sk @ [j])))
          (visit_in main_queue (ex_time_tics v) (sk @ [j]) v)) = Some (Inr (), w) \<and>
        queue_ok main_queue w \<and> pending_in main_queue w = js \<and> ?I (tr @ [j]) w"
      using pass_step [OF sched a frame st v(1) _ _ v(3,4,5), of tr] by (simp add: found_def)
  next
    fix v and tr :: "job_ptr list"
    assume v: "queue_ok main_queue v" "?I tr v" "filter (due_in (ex_time_tics v) v) (pending_in main_queue v) = []"
    then have "\<not> pass_before e0 a tr v"
      using due_advance_first [OF sched a, of v tr] by (auto simp: filter_empty_conv)
    then show "pass_done e0 a tr (set_curr None (visit_in main_queue (ex_time_tics v) (pending_in main_queue v) v))"
      using finish_after [OF sched a _ v(1)] v by blast
  qed
  then show ?thesis by simp
qed

end

text \<open>
  The jobs of \<open>SysSimObject\<close> with user jobs that change the rest of the simulation only: a queue of
  user jobs, the advance job and, if present, the \<open>system_moding\<close> job. The moding job must not
  defer to the frame boundary: \<open>sched_freeze_to_exec_command(false)\<close> would then leave its own call
  time in the past.
\<close>

definition trick_static_job :: "JobData \<Rightarrow> bool \<Rightarrow> bool \<Rightarrow> bool" where
  "trick_static_job j is_advance is_freeze \<longleftrightarrow>
     jd_inst_before j = [] \<and> jd_inst_after j = [] \<and>
     (if is_advance then jd_name j = sys_name ''advance_sim_time''
      else if is_freeze then
        jd_name j = sys_name ''sched_freeze_to_exec_command'' \<and> jd_job_class_name j \<noteq> ''end_of_frame'' \<and>
        jd_system_job_class j
      else take 6 (jd_name j) \<noteq> ''trick_'' \<and> \<not> jd_system_job_class j)"

definition trick_static :: "schedule \<Rightarrow> bool" where
  "trick_static s =
     (case s of (jobs, js, adv, fz, n, boundary, _) \<Rightarrow>
        (\<forall>j \<in> set js. trick_static_job (jobs j) (adv = Some j) (fz = Some j)) \<and> n = 1 \<and> \<not> boundary)"

lemma sys_lookup_user: "take 6 name \<noteq> ''trick_'' \<Longrightarrow> sys_lookup name calls = None"
proof (induction calls)
  case (Cons fx calls)
  have "name \<noteq> sys_name (fst fx)" using Cons.prems by (auto simp: sys_name_def)
  then show ?case using Cons by (cases fx) simp
qed simp

lemma sys_name_eq [simp]: "(sys_name f = sys_name g) = (f = g)"
  by (simp add: sys_name_def)

lemma JobData_call_bare:
  assumes "jd_inst_before (ex_jobs e j) = []" and "cf (Job j) e = Some (Inr ret, e')"
    and "jd_inst_after (ex_jobs e' j) = []"
  shows "JobData_call ex_jobs cf j e = Some (Inr ret, e')"
  using assms by (simp add: JobData_call_def call_insts.simps)

lemma pop_freeze_times_later:
  "pop_freeze_times now ts cmd = (t # rest, cmd') \<Longrightarrow> now < t"
  by (induction now ts cmd rule: pop_freeze_times.induct) (auto split: if_splits)

lemma advance_sim_time_Inr:
  assumes "length (ex_threads e) = 1" and "ex_advance_sim_time_job e = Some a"
  shows "advance_sim_time env e = Some (Inr 0, set_new_time a (choose_time e))"
  using assms by (auto simp: advance_sim_time_def scheduled_thread_sync_single)

lemma trick_static_job_of:
  assumes "trick_static (schedule_of e)" and "j \<in> set (main_list e)"
  shows "trick_static_job (ex_jobs e j) (ex_advance_sim_time_job e = Some j) (ex_freeze_job e = Some j)"
    and "length (ex_threads e) = 1" and "\<not> ex_freeze_on_frame_boundary e"
  using assms by (auto simp: trick_static_def schedule_of_def trick_static_job_def job_static_def)

lemma trick_advance:
  assumes st: "trick_static (schedule_of e)" and a: "ex_advance_sim_time_job e = Some a"
    and mem: "a \<in> set (main_list e)"
  shows "JobData_call ex_jobs (trick_sys_call env user) a e = advance_sim_time env e"
proof -
  note S = trick_static_job_of [OF st mem]
  have j: "jd_name (ex_jobs e a) = sys_name ''advance_sim_time''" "jd_inst_before (ex_jobs e a) = []"
    "jd_inst_after (ex_jobs e a) = []"
    using S(1) a by (simp_all add: trick_static_job_def)
  let ?e1 = "choose_time e"
  have co: "core ?e1 = core e" by (rule core_choose_time [OF S(2)])
  then have "ex_jobs ?e1 = ex_jobs e" "length (ex_threads ?e1) = 1" using S(2) by (auto simp: core_def schedule_of_def)
  then have "jd_inst_after (ex_jobs (set_new_time a ?e1) a) = []"
    using set_new_time_fields(4) [of ?e1 a] j(3) by simp
  moreover have "trick_sys_call env user (Job a) e = Some (Inr 0, set_new_time a ?e1)"
    using advance_sim_time_Inr [OF S(2) a] by (simp add: trick_sys_call_def sys_calls_def j(1))
  ultimately show ?thesis
    using JobData_call_bare [of e a "trick_sys_call env user" 0] j(2) advance_sim_time_Inr [OF S(2) a] by simp
qed

lemma tame_resultI:
  assumes "e' = e\<lparr>ex_world := w, ex_exec_command := cmd, ex_freeze_times := ts,
      ex_jobs := (ex_jobs e)(j := (ex_jobs e j)\<lparr>jd_next_tics := n\<rparr>)\<rparr>"
    and "ex_freeze_times e = [] \<longrightarrow> ts = [] \<and> cmd = ex_exec_command e"
    and "if jd_system_job_class (ex_jobs e j) then ex_time_tics e < n else n = next_of e j"
  shows "tame_result (Some (Inr 0, e')) j e"
  using assms unfolding tame_result_def by blast

lemma sched_freeze_eq:
  assumes "\<not> ex_freeze_on_frame_boundary e" and "ex_freeze_job e = Some j" and "ex_time_tics e < TRICK_MAX_LONG_LONG"
  shows "\<exists>ts cmd n. sched_freeze_to_exec_command False e = (0, e\<lparr>ex_exec_command := cmd, ex_freeze_times := ts,
      ex_jobs := (ex_jobs e)(j := (ex_jobs e j)\<lparr>jd_next_tics := n\<rparr>)\<rparr>) \<and> ex_time_tics e < n \<and>
      (ex_freeze_times e = [] \<longrightarrow> ts = [] \<and> cmd = ex_exec_command e)"
proof -
  obtain ts cmd where p: "pop_freeze_times (ex_time_tics e) (ex_freeze_times e) (ex_exec_command e) = (ts, cmd)"
    by fastforce
  define n where "n = (case ts of [] \<Rightarrow> TRICK_MAX_LONG_LONG | t # _ \<Rightarrow> t)"
  have "ex_time_tics e < n"
    using p assms(3) pop_freeze_times_later by (cases ts) (auto simp: n_def)
  moreover have "sched_freeze_to_exec_command False e = (0, e\<lparr>ex_exec_command := cmd, ex_freeze_times := ts,
      ex_jobs := (ex_jobs e)(j := (ex_jobs e j)\<lparr>jd_next_tics := n\<rparr>)\<rparr>)"
    using assms by (simp add: sched_freeze_to_exec_command_def p n_def map_job_def)
  moreover have "ex_freeze_times e = [] \<longrightarrow> ts = [] \<and> cmd = ex_exec_command e" using p by auto
  ultimately show ?thesis by blast
qed

lemma trick_tame:
  assumes st: "trick_static (schedule_of e)" and mem: "j \<in> set (main_list e)"
    and na: "ex_advance_sim_time_job e \<noteq> Some j" and t: "ex_time_tics e < TRICK_MAX_LONG_LONG"
  shows "tame_result (JobData_call ex_jobs (trick_sys_call env user) j e) j e"
proof -
  note S = trick_static_job_of [OF st mem]
  have inst: "jd_inst_before (ex_jobs e j) = []" "jd_inst_after (ex_jobs e j) = []"
    using S(1) by (simp_all add: trick_static_job_def)
  show ?thesis
  proof (cases "ex_freeze_job e = Some j")
    case True
    then have j: "jd_name (ex_jobs e j) = sys_name ''sched_freeze_to_exec_command''"
      "jd_job_class_name (ex_jobs e j) \<noteq> ''end_of_frame''" "jd_system_job_class (ex_jobs e j)"
      using S(1) na by (simp_all add: trick_static_job_def)
    obtain ts cmd n where f: "sched_freeze_to_exec_command False e = (0, e\<lparr>ex_exec_command := cmd,
        ex_freeze_times := ts, ex_jobs := (ex_jobs e)(j := (ex_jobs e j)\<lparr>jd_next_tics := n\<rparr>)\<rparr>)" "ex_time_tics e < n"
        "ex_freeze_times e = [] \<longrightarrow> ts = [] \<and> cmd = ex_exec_command e"
      using sched_freeze_eq [OF S(3) True t] by blast
    let ?e1 = "snd (sched_freeze_to_exec_command False e)"
    have "trick_sys_call env user (Job j) e = Some (Inr 0, ?e1)"
      using j(2) by (simp add: trick_sys_call_def sys_calls_def j(1) plain_def f(1))
    moreover have "jd_inst_after (ex_jobs ?e1 j) = []" using inst(2) by (simp add: f(1))
    ultimately have "JobData_call ex_jobs (trick_sys_call env user) j e = Some (Inr 0, ?e1)"
      by (intro JobData_call_bare inst(1))
    moreover have "tame_result (Some (Inr 0, ?e1)) j e"
      using f j(3) by (intro tame_resultI [where w = "ex_world e" and cmd = cmd and ts = ts and n = n]) simp_all
    ultimately show ?thesis by simp
  next
    case False
    then have j: "take 6 (jd_name (ex_jobs e j)) \<noteq> ''trick_''" "\<not> jd_system_job_class (ex_jobs e j)"
      using S(1) na by (simp_all add: trick_static_job_def)
    let ?e1 = "e\<lparr>ex_world := user (Job j) (ex_world e)\<rparr>"
    have "trick_sys_call env user (Job j) e = Some (Inr 0, ?e1)"
      by (simp add: trick_sys_call_def user_call_def Let_def sys_lookup_user [OF j(1)])
    then have "JobData_call ex_jobs (trick_sys_call env user) j e = Some (Inr 0, ?e1)"
      using inst by (intro JobData_call_bare) simp_all
    moreover have "tame_result (Some (Inr 0, ?e1)) j e"
      using j(2) by (intro tame_resultI [where cmd = "ex_exec_command e" and ts = "ex_freeze_times e" and n = "next_of e j"
          and w = "user (Job j) (ex_world e)"])
        (simp_all add: next_of_def)
    ultimately show ?thesis by simp
  qed
qed

interpretation trick: scheduled_jobs "trick_sys_call env user" env trick_static
  by unfold_locales (auto intro: trick_tame trick_advance)

text \<open>The pass of the single threaded loop, as a run of \<open>run_scheduled\<close>.\<close>

lemma trick_pass:
  assumes "on_schedule e" and "ex_advance_sim_time_job e = Some a" and "trick_static (schedule_of e)"
    and "ex_time_tics e < ex_next_frame_check_tics e"
  shows "\<exists>js w. run_scheduled (trick_sys_call env user) e = Some (Inr (), w) \<and>
      runs (next_now main_queue) (sched_body (trick_sys_call env user)) (map_q main_queue reset_curr_index e) js w \<and>
      pass_done e a js w"
  using trick.pass [OF assms(1,2,4,3), of env user]
  unfolding run_scheduled_def by (blast dest: runs_walk)

end
