(* ===== verification/PropsTime.thy ===== *)
theory PropsTime
  imports SchedPass
begin

text \<open>
  The properties of simulation time: how \<open>advance_sim_time\<close> chooses the next time, the change of
  the tic value, the freeze times, and the times of asynchronous threads.
\<close>

subsection \<open>A simulation to apply the properties to\<close>

text \<open>
  Two user jobs of cycle 0.25 and 0.5 seconds, the advance job and the freeze job, one thread, a
  software frame of one second, at time 0.
\<close>

definition sim_job :: "string \<Rightarrow> string \<Rightarrow> int \<Rightarrow> int \<Rightarrow> JobData" where
  "sim_job nm cls cycle t = new_JobData_default\<lparr>jd_name := nm, jd_job_class_name := cls, jd_cycle_tics := cycle,
     jd_stop_tics := TRICK_MAX_LONG_LONG, jd_next_tics := t\<rparr>"

definition sim_heap :: job_heap where
  "sim_heap j =
     (if j = 1 then sim_job ''user.fast'' ''scheduled'' 250000 0
      else if j = 2 then sim_job ''user.slow'' ''scheduled'' 500000 0
      else if j = 3 then (sim_job ''trick_sys.sched.advance_sim_time'' ''system_advance_sim_time'' 1000000 0)
                           \<lparr>jd_system_job_class := True\<rparr>
      else (sim_job ''trick_sys.sched.sched_freeze_to_exec_command'' ''system_moding'' 1000000 TRICK_MAX_LONG_LONG)
             \<lparr>jd_system_job_class := True\<rparr>)"

definition sim_queue :: SJQ where
  "sim_queue = \<lparr>q_list = [1, 2, 3, 4], q_curr_index = 0, q_next_job_time = TRICK_MAX_LONG_LONG\<rparr>"

definition sim_start :: "nat list Executive" where
  "sim_start = (new_Executive sim_heap (\<lambda>_. undefined) [])
     \<lparr>ex_threads := [(new_Threads 0 True)\<lparr>th_job_queue := sim_queue\<rparr>], ex_advance_sim_time_job := Some 3,
      ex_freeze_job := Some 4, ex_software_frame_tics := 1000000, ex_next_frame_check_tics := 1000000\<rparr>"

definition sim_user :: "callee \<Rightarrow> nat list \<Rightarrow> nat list" where
  "sim_user c w = (case c of Job j \<Rightarrow> w @ [j] | Instrument _ \<Rightarrow> w)"

definition sim_env :: "nat list Environment" where
  "sim_env = \<lparr>env_await = (\<lambda>_ _. None), env_fire = (\<lambda>_ e. e)\<rparr>"

lemma sim_start_simps [simp]:
  "ex_jobs sim_start = sim_heap" "main_list sim_start = [1, 2, 3, 4]" "ex_time_tics sim_start = 0"
  "length (ex_threads sim_start) = 1" "ex_advance_sim_time_job sim_start = Some 3" "ex_freeze_job sim_start = Some 4"
  "main_time sim_start = TRICK_MAX_LONG_LONG" "ex_software_frame_tics sim_start = 1000000"
  "ex_next_frame_check_tics sim_start = 1000000" "ex_terminate_time sim_start = TRICK_MAX_LONG_LONG - 1"
  "ex_freeze_on_frame_boundary sim_start = False" "ex_time_tic_value sim_start = 1000000"
  "ex_freeze_times sim_start = []" "ex_threads sim_start = [(new_Threads 0 True)\<lparr>th_job_queue := sim_queue\<rparr>]"
  by (simp_all add: sim_start_def new_Executive_def main_list_def main_time_def sim_queue_def new_Threads_def)

lemma sim_heap_simps:
  "next_of sim_start j = (if j = 1 \<or> j = 2 \<or> j = 3 then 0 else TRICK_MAX_LONG_LONG)"
  "jd_system_job_class (sim_heap j) = (j \<noteq> 1 \<and> j \<noteq> 2)" "jd_disabled (sim_heap j) = False" "0 < jd_cycle_tics (sim_heap j)"
  by (auto simp: next_of_def sim_heap_def sim_job_def new_JobData_default_def)

lemma sim_start_on_schedule: "on_schedule sim_start"
  unfolding on_schedule_def
  by (simp add: sim_heap_simps before_job_def after_job_def idle_def TRICK_MAX_LONG_LONG_def)

lemma sim_start_static: "trick_static (schedule_of sim_start)"
  by (simp add: trick_static_def schedule_of_def trick_static_job_def job_static_def sim_heap_def sim_job_def
      new_JobData_default_def sys_name_def)

subsection \<open>Advancing time\<close>

text \<open>
  C3: \<open>advance_sim_time\<close> sets the simulation time to the least of: the end of the software frame, the
  termination time, the next call time of the main queue and of the input processor queue when
  these are in the future, the next call time of every enabled synchronous thread and the next
  frame of every enabled AMF thread. The old time is kept as \<open>time_last_pass_tics\<close>, the advance job
  is due again at the new time, and the two queues of the main thread start to look for their
  next call time from one frame further.
\<close>

theorem advance_sim_time_least:
  assumes "scheduled_thread_sync env e = Some (Inr (), e1)" and "ex_threads e1 \<noteq> []"
    and "ex_advance_sim_time_job e1 = Some j"
  shows "\<exists>w. advance_sim_time env e = Some (Inr 0, w) \<and>
    ex_time_tics w = Min (set (ex_next_frame_check_tics e1 # candidate_times e1)) \<and>
    ex_time_last_pass_tics w = ex_time_tics e1 \<and> next_of w j = ex_time_tics w \<and>
    main_time w = ex_time_tics w + ex_software_frame_tics e1 \<and>
    q_next_job_time (get_q Q_input_processor_run w) = ex_time_tics w + ex_software_frame_tics e1"
proof -
  let ?c = "choose_time e1"
  define w where "w = set_new_time j ?c"
  have adv: "advance_sim_time env e = Some (Inr 0, w)"
    using assms by (simp add: advance_sim_time_def w_def)
  have min: "fold min xs m = Min (insert m (set xs))" for xs and m :: int
  proof (induction xs arbitrary: m)
    case (Cons x xs)
    have "fold min (x # xs) m = Min (insert (min x m) (set xs))" using Cons.IH by simp
    also have "\<dots> = Min (insert m (set (x # xs)))"
      by (cases "set xs = {}") (simp_all add: min.assoc min.left_commute min.commute)
    finally show ?case .
  qed simp
  have c: "same_plan (e1\<lparr>ex_time_last_pass_tics := ex_time_tics e1, ex_time_tics := ex_next_frame_check_tics e1\<rparr>) ?c"
    by (rule choose_time_min(3))
  then have sw: "ex_software_frame_tics ?c = ex_software_frame_tics e1" and len: "ex_threads ?c \<noteq> []"
    using assms(2) by (auto simp: same_plan_def)
  have wt: "ex_time_tics w = ex_time_tics ?c" "ex_time_last_pass_tics w = ex_time_last_pass_tics ?c"
    "next_of w j = ex_time_tics ?c"
    by (simp_all add: w_def set_new_time_def map_q_def map_job_def map_thread_def Let_def next_of_def)
  obtain th ths where th: "ex_threads ?c = th # ths" using len by (cases "ex_threads ?c") auto
  have "main_time w = ex_time_tics ?c + ex_software_frame_tics ?c"
    by (simp add: w_def set_new_time_def map_q_def map_job_def map_thread_def Let_def main_time_def
        set_next_job_call_time_def th)
  moreover have "q_next_job_time (get_q Q_input_processor_run w) = ex_time_tics ?c + ex_software_frame_tics ?c"
    by (simp add: w_def set_new_time_def map_q_def map_job_def map_thread_def Let_def set_next_job_call_time_def th)
  ultimately show ?thesis
    using adv wt sw choose_time_min(1,2) [of e1] min [of "candidate_times e1" "ex_next_frame_check_tics e1"]
    by (auto simp del: get_q.simps)
qed

theorem advance_sim_time_least_witness:
  "\<exists>w. advance_sim_time sim_env sim_start = Some (Inr 0, w) \<and> ex_time_tics w \<le> 1000000 \<and> next_of w 3 = ex_time_tics w"
proof -
  obtain w where "advance_sim_time sim_env sim_start = Some (Inr 0, w)"
    "ex_time_tics w = Min (set (ex_next_frame_check_tics sim_start # candidate_times sim_start))" "next_of w 3 = ex_time_tics w"
    using advance_sim_time_least [OF scheduled_thread_sync_single, of sim_start 3 sim_env] by auto
  moreover have "Min (set (ex_next_frame_check_tics sim_start # candidate_times sim_start)) \<le> ex_next_frame_check_tics sim_start"
    by (rule Min_le) simp_all
  ultimately show ?thesis by simp
qed

text \<open>
  nothing keeps the time of a synchronous thread from lying in the past: the comparison with
  \<open>time_last_pass_tics\<close> that protects the queues of the main thread is missing for the threads. A
  thread that was disabled for a while and is enabled again still holds its old next call time,
  and the simulation time goes back to it.
\<close>

lemma advance_goes_back:
  assumes "0 < ii" and "ii < length (ex_threads e)" and "th_enabled (ex_threads e ! ii)"
    and "th_process_type (ex_threads e ! ii) = PROCESS_TYPE_SCHEDULED"
    and "q_next_job_time (th_job_queue (ex_threads e ! ii)) < ex_time_tics e"
  shows "ex_time_tics (choose_time e) < ex_time_tics e"
proof -
  let ?L = "lowest_call_time (ex_jobs e) (th_job_queue (ex_threads e ! ii))"
  have "?L \<in> set (thread_candidate e ii)" using assms(3,4) by (simp add: thread_candidate_def thread_times_def)
  then have "?L \<in> set (candidate_times e)" using assms(1,2) by (force simp: candidate_times_def)
  then have "fold min (candidate_times e) (ex_next_frame_check_tics e) \<le> ?L" by (rule fold_min_le_mem)
  moreover have "?L \<le> q_next_job_time (th_job_queue (ex_threads e ! ii))"
    unfolding lowest_call_time_def by (rule fold_min_le)
  ultimately show ?thesis using assms(5) choose_time_min(1) [of e] by simp
qed

definition sim_threads :: "nat list Executive" where
  "sim_threads = sim_start\<lparr>ex_time_tics := 500000, ex_threads := ex_threads sim_start @
     [(new_Threads 1 True)\<lparr>th_job_queue := new_ScheduledJobQueue\<lparr>q_next_job_time := 100000\<rparr>\<rparr>]\<rparr>"

lemma advance_goes_back_witness: "ex_time_tics (choose_time sim_threads) < 500000"
  using advance_goes_back [of 1 sim_threads] by (simp add: sim_threads_def new_Threads_def)

text \<open>
  \<open>get_next_job_call_time\<close> takes the least call time of the jobs behind the advance job, past or
  not. If one of them is not in the future, the main queue is left out of the choice altogether: the
  time moves on to the frame boundary (or the next input processor or termination time), past the
  call times of all other jobs. The \<open>system_moding\<close> job gets into this state when freezing is
  deferred to the frame boundary: its function then leaves its own call time where it is.
\<close>

lemma stale_call_time_hides_jobs:
  assumes "length (ex_threads e) = 1" and "k \<in> set (pending_in main_queue e)" and "next_of e k \<le> ex_time_tics e"
    and "ex_next_frame_check_tics e \<le> ex_terminate_time e"
    and "ex_next_frame_check_tics e \<le> lowest_call_time (ex_jobs e) (get_q Q_input_processor_run e)"
  shows "ex_time_tics (choose_time e) = ex_next_frame_check_tics e \<and>
    (ex_freeze_on_frame_boundary e' \<longrightarrow> sched_freeze_to_exec_command False e' = (0, e'))"
proof -
  have "lowest_call_time (ex_jobs e) (get_q main_queue e) \<le> next_of e k"
    unfolding lowest_call_time_def using assms(2)
    by (intro fold_min_le_mem) (auto simp: next_of_def pending_in_def)
  then have "\<not> ex_time_tics e < lowest_call_time (ex_jobs e) (get_q main_queue e)" using assms(3) by simp
  then have none: "queue_candidate main_queue (ex_time_tics e) e = []"
    unfolding queue_candidate_def Let_def by (rule if_not_P)
  have c: "ex_next_frame_check_tics e \<le> x" if "x \<in> set (candidate_times e)" for x
    using that assms(1,4,5) none
    by (auto simp: candidate_times_def queue_candidate_def [of Q_input_processor_run] Let_def split: if_splits)
  have "fold min (candidate_times e) (ex_next_frame_check_tics e) = ex_next_frame_check_tics e"
    using fold_min_le [of "candidate_times e" "ex_next_frame_check_tics e"]
      fold_min_mem [of "candidate_times e" "ex_next_frame_check_tics e"] c by force
  then show ?thesis using choose_time_min(1) [of e] by (simp add: sched_freeze_to_exec_command_def)
qed

definition sim_deferred :: "nat list Executive" where
  "sim_deferred = sim_start\<lparr>ex_time_tics := 250000, ex_freeze_on_frame_boundary := True,
     ex_jobs := sim_heap(1 := (sim_heap 1)\<lparr>jd_next_tics := 500000\<rparr>, 4 := (sim_heap 4)\<lparr>jd_next_tics := 250000\<rparr>),
     ex_threads := [(new_Threads 0 True)\<lparr>th_job_queue := sim_queue\<lparr>q_curr_index := 3, q_next_job_time := 500000\<rparr>\<rparr>]\<rparr>"

lemma stale_call_time_hides_jobs_witness:
  "ex_time_tics (choose_time sim_deferred) = 1000000 \<and> next_of sim_deferred 1 = 500000"
proof -
  have p: "pending_in main_queue sim_deferred = [4]"
    by (simp add: sim_deferred_def pending_in_def pending_jobs_def sim_queue_def)
  have n: "next_of sim_deferred 4 = 250000" "next_of sim_deferred 1 = 500000" "ex_time_tics sim_deferred = 250000"
    "length (ex_threads sim_deferred) = 1" "ex_next_frame_check_tics sim_deferred = 1000000"
    "ex_terminate_time sim_deferred = TRICK_MAX_LONG_LONG - 1"
    by (simp_all add: sim_deferred_def next_of_def)
  have i: "lowest_call_time (ex_jobs sim_deferred) (get_q Q_input_processor_run sim_deferred) = TRICK_MAX_LONG_LONG"
    by (simp add: sim_deferred_def sim_start_def new_Executive_def lowest_call_time_def pending_jobs_def
        new_ScheduledJobQueue_def)
  show ?thesis
    using stale_call_time_hides_jobs [of sim_deferred 4 sim_deferred] p n i by (simp add: TRICK_MAX_LONG_LONG_def)
qed

subsection \<open>Changing the tic value\<close>

text \<open>
  a change of the number of tics per second keeps the simulation time: when the time is a whole
  number of the new tics, \<open>set_time_tic_value\<close> computes exactly that number, in spite of the
  rounding of the division and the multiplication in \<open>double\<close>, and changing back gives the old time.
\<close>

lemma tic_change_keeps_time:
  assumes "0 < ex_time_tic_value e" "ex_time_tic_value e < 2 ^ 31" "0 < new" "new < 2 ^ 31"
    and "\<bar>ex_time_tics e\<bar> < 2 ^ 50" and "ex_time_tics e * new = m * ex_time_tic_value e" and "\<bar>m\<bar> < 2 ^ 50"
  shows "ex_time_tics (rescale_times new e) = m \<and>
    ex_time_tics (rescale_times (ex_time_tic_value e) (rescale_times new e)) = ex_time_tics e"
proof -
  have 1: "ex_time_tics (rescale_times new e) = m"
    using rescale_tics_exact [of "ex_time_tic_value e" new "ex_time_tics e" m] assms
    by (simp add: rescale_times_def Let_def)
  have 2: "ex_time_tic_value (rescale_times new e) = new" by (simp add: rescale_times_def Let_def)
  have "rescale_tics m new (ex_time_tic_value e) = ex_time_tics e"
    using rescale_tics_exact [of new "ex_time_tic_value e" m "ex_time_tics e"] assms by simp
  then show ?thesis using 1 2 by (simp add: rescale_times_def [of "ex_time_tic_value e" "rescale_times new e"] Let_def)
qed

lemma tic_change_keeps_time_witness:
  "ex_time_tics (rescale_times 3000000 (sim_start\<lparr>ex_time_tics := 700001\<rparr>)) = 2100003"
proof -
  have v: "ex_time_tic_value (sim_start\<lparr>ex_time_tics := 700001\<rparr>) = 1000000" by (simp add: sim_start_def new_Executive_def)
  show ?thesis
    using tic_change_keeps_time [of "sim_start\<lparr>ex_time_tics := 700001\<rparr>" 3000000 2100003] unfolding v by simp
qed

text \<open>
  The freeze times and the termination time do not survive a change of the tic value: their
  division is one of integers, so each is cut down to whole seconds.
\<close>

lemma tic_change_truncates_freeze_times:
  fixes e :: "'w Executive"
  defines "old \<equiv> ex_old_time_tic_value e" and "new \<equiv> ex_time_tic_value e"
  assumes "0 < old" and "0 \<le> new"
    and "\<forall>t \<in> set (ex_terminate_time e # ex_freeze_times e). 0 \<le> t \<and> (t div old) * new < 2 ^ 53"
    and "ex_terminate_time e \<noteq> TRICK_MAX_LONG_LONG - 1"
  shows "ex_freeze_times (rescale_freeze e) = sort (map (\<lambda>t. (t div old) * new) (ex_freeze_times e)) \<and>
    ex_terminate_time (rescale_freeze e) = (ex_terminate_time e div old) * new"
proof -
  have r: "rescale_long t old new = (t div old) * new" if "0 \<le> t" "(t div old) * new < 2 ^ 53" for t
  proof -
    have "0 \<le> (t div old) * new" using that(1) assms(3,4) by (simp add: pos_imp_zdiv_nonneg_iff)
    then have "\<bar>(t div old) * new\<bar> < 2 ^ 53" using that(2) by simp
    moreover have "t sdiv old = t div old" using that(1) assms(3) by (cases "t = 0") (simp_all add: signed_divide_int_def)
    ultimately show ?thesis by (simp add: rescale_long_def dbl_exact c_round_near)
  qed
  have "map (\<lambda>t. rescale_long t old new) (ex_freeze_times e) = map (\<lambda>t. (t div old) * new) (ex_freeze_times e)"
    using assms(5) r by (intro map_cong) auto
  moreover have "rescale_long (ex_terminate_time e) old new = (ex_terminate_time e div old) * new"
    using assms(5) by (intro r) auto
  moreover have "ex_freeze_times (rescale_freeze e) = sort (map (\<lambda>t. rescale_long t old new) (ex_freeze_times e))"
    "ex_terminate_time (rescale_freeze e) = rescale_long (ex_terminate_time e) old new"
    using assms(6) by (simp_all add: rescale_freeze_def old_def new_def Let_def map_job_def split: option.split)
  ultimately show ?thesis by (simp only:)
qed

lemma tic_change_truncates_freeze_times_witness:
  "ex_freeze_times (rescale_freeze (sim_start\<lparr>ex_old_time_tic_value := 1000000, ex_time_tic_value := 2000000,
      ex_freeze_times := [2500000], ex_terminate_time := 9000000\<rparr>)) = [4000000]"
  using tic_change_truncates_freeze_times [of "sim_start\<lparr>ex_old_time_tic_value := 1000000, ex_time_tic_value := 2000000,
      ex_freeze_times := [2500000], ex_terminate_time := 9000000\<rparr>"]
  by (simp add: TRICK_MAX_LONG_LONG_def)

subsection \<open>Freeze requests\<close>

text \<open>The freeze times are in order, and the freeze job is due at the first of them.\<close>

definition freeze_ok :: "'w Executive \<Rightarrow> bool" where
  "freeze_ok e \<longleftrightarrow> sorted (ex_freeze_times e) \<and> (\<forall>t \<in> set (ex_freeze_times e). t < TRICK_MAX_LONG_LONG) \<and>
     (case ex_freeze_job e of None \<Rightarrow> False
      | Some j \<Rightarrow> next_of e j = (case ex_freeze_times e of [] \<Rightarrow> TRICK_MAX_LONG_LONG | t # _ \<Rightarrow> t))"

lemma pop_freeze_times_filter:
  "sorted ts \<Longrightarrow> pop_freeze_times now ts cmd =
     (filter (\<lambda>t. now < t) ts, if \<exists>t \<in> set ts. t \<le> now then FreezeCmd else cmd)"
  by (induction now ts cmd rule: pop_freeze_times.induct) (auto intro!: filter_True [symmetric])

lemma insort_head: "sorted ts \<Longrightarrow> insort x ts = (case ts of [] \<Rightarrow> [x] | t # r \<Rightarrow> if x \<le> t then x # ts else t # insort x r)"
  for x :: int
  by (cases ts) simp_all

text \<open>
  C37: a freeze is requested for a future time and takes effect exactly then. \<open>freeze(t)\<close> records the
  time; \<open>sched_freeze_to_exec_command\<close> gives the command to freeze if and only if a recorded time
  has come, and removes exactly those times. Both keep the times in order and the freeze job due at
  the earliest, so that the advance of time cannot miss it.
\<close>

theorem freeze_requests_take_effect:
  fixes e :: "'w Executive"
  assumes "freeze_ok e" and "end_of_frame \<or> \<not> ex_freeze_on_frame_boundary e"
    and "c_trunc (dmul t (dbl (ex_time_tic_value e))) = n" and "ex_time_tics e < n" and "n < TRICK_MAX_LONG_LONG"
  defines "e2 \<equiv> snd (sched_freeze_to_exec_command end_of_frame e)"
  shows "(\<exists>e1. exec_freeze_at t e = Inr (0, e1) \<and> freeze_ok e1 \<and>
      mset (ex_freeze_times e1) = add_mset n (mset (ex_freeze_times e))) \<and>
    freeze_ok e2 \<and> ex_freeze_times e2 = filter (\<lambda>u. ex_time_tics e < u) (ex_freeze_times e) \<and>
    ex_exec_command e2 = (if \<exists>u \<in> set (ex_freeze_times e). u \<le> ex_time_tics e then FreezeCmd else ex_exec_command e)"
proof -
  let ?ts = "ex_freeze_times e"
  obtain j where j: "ex_freeze_job e = Some j" and n: "next_of e j = (case ?ts of [] \<Rightarrow> TRICK_MAX_LONG_LONG | t # _ \<Rightarrow> t)"
    and s: "sorted ?ts" "\<forall>t \<in> set ?ts. t < TRICK_MAX_LONG_LONG"
    using assms(1) by (auto simp: freeze_ok_def split: option.splits)
  define e1 where "e1 = snd (projr (exec_freeze_at t e))"
  have e1: "exec_freeze_at t e = Inr (0, e1)" and ts: "ex_freeze_times e1 = insort n ?ts" and fj: "ex_freeze_job e1 = Some j"
    and nx: "next_of e1 j = min n (next_of e j)"
    using assms(3,4) j by (simp_all add: e1_def exec_freeze_at_def Let_def map_job_def next_of_def)
  have "next_of e1 j = (case insort n ?ts of [] \<Rightarrow> TRICK_MAX_LONG_LONG | t # _ \<Rightarrow> t)"
    using n nx assms(5) s(1) by (cases ?ts) auto
  then have "freeze_ok e1"
    using s assms(5) by (simp add: freeze_ok_def ts fj sorted_insort set_insort_key)
  moreover have "mset (ex_freeze_times e1) = add_mset n (mset ?ts)" by (simp add: ts)
  moreover have p: "ex_freeze_times e2 = filter (\<lambda>u. ex_time_tics e < u) ?ts" "ex_freeze_job e2 = Some j"
    "ex_exec_command e2 = (if \<exists>u \<in> set ?ts. u \<le> ex_time_tics e then FreezeCmd else ex_exec_command e)"
    "next_of e2 j = (case filter (\<lambda>u. ex_time_tics e < u) ?ts of [] \<Rightarrow> TRICK_MAX_LONG_LONG | t # _ \<Rightarrow> t)"
    using assms(2) j
    by (simp_all add: e2_def sched_freeze_to_exec_command_def pop_freeze_times_filter [OF s(1)] map_job_def next_of_def)
  then have "freeze_ok e2" using s by (simp add: freeze_ok_def sorted_wrt_filter)
  ultimately show ?thesis using e1 p by blast
qed

theorem freeze_requests_take_effect_witness:
  "ex_exec_command (snd (sched_freeze_to_exec_command False
     (sim_start\<lparr>ex_time_tics := 500000, ex_freeze_times := [500000, 750000],
        ex_jobs := sim_heap(4 := (sim_heap 4)\<lparr>jd_next_tics := 500000\<rparr>)\<rparr>))) = FreezeCmd"
proof -
  let ?e = "sim_start\<lparr>ex_time_tics := 500000, ex_freeze_times := [500000, 750000],
        ex_jobs := sim_heap(4 := (sim_heap 4)\<lparr>jd_next_tics := 500000\<rparr>)\<rparr>"
  have "freeze_ok ?e" by (simp add: freeze_ok_def next_of_def TRICK_MAX_LONG_LONG_def)
  moreover have "c_trunc (dmul 1 (dbl (ex_time_tic_value ?e))) = 1000000"
    using rnd64_of_int [of 1000000] c_trunc_of_int [of 1000000]
    by (simp add: dbl_exact dmul_def sim_start_def new_Executive_def)
  ultimately show ?thesis
    using freeze_requests_take_effect [of ?e False 1 1000000] by (simp add: TRICK_MAX_LONG_LONG_def)
qed

subsection \<open>Asynchronous threads\<close>

text \<open>
  when an asynchronous thread with a cycle has finished late, \<open>thread_sync\<close> gives it the first
  frame at or after the current time, in whole cycles from its old frame. With a negative cycle a
  thread that is late is never caught up: the loop does not end.
\<close>

lemma late_thread_is_caught_up:
  assumes "0 < ii" and "ii < length (ex_threads e)" and "th_process_type (ex_threads e ! ii) = PROCESS_TYPE_ASYNC_CHILD"
    and "th_child_complete (ex_threads e ! ii)" and "th_amf_cycle_tics (ex_threads e ! ii) \<noteq> 0"
  defines "c \<equiv> th_amf_cycle_tics (ex_threads e ! ii)" and "n \<equiv> th_amf_next_tics (ex_threads e ! ii)"
  shows "if ex_time_tics e \<le> n then sync_thread env ii e = Some (Inr (), e)
    else if c < 0 then sync_thread env ii e = None
    else \<exists>w k. sync_thread env ii e = Some (Inr (), w) \<and> th_amf_next_tics (ex_threads w ! ii) = n + int k * c \<and>
      ex_time_tics e \<le> n + int k * c \<and> n + int k * c < ex_time_tics e + c"
proof -
  have s: "sync_thread env ii e = (case catch_up c (ex_time_tics e) n of None \<Rightarrow> None
      | Some t \<Rightarrow> Some (Inr (), map_thread ii (\<lambda>th. th\<lparr>th_amf_next_tics := t\<rparr>) e))"
    using assms(3,4,5) by (simp add: sync_thread_def c_def n_def Let_def)
  consider "ex_time_tics e \<le> n" | "n < ex_time_tics e" "c < 0" | "n < ex_time_tics e" "0 < c"
    using assms(5) unfolding c_def by linarith
  then show ?thesis
  proof cases
    case 1
    then have "catch_up c (ex_time_tics e) n = Some n" by (simp add: catch_up.simps)
    moreover have "map_thread ii (\<lambda>th. th\<lparr>th_amf_next_tics := n\<rparr>) e = e"
      by (simp add: map_thread_def n_def)
    ultimately show ?thesis using 1 s by simp
  next
    case 2
    then show ?thesis using s catch_up_never [of c n "ex_time_tics e"] by simp
  next
    case 3
    then obtain k where k: "catch_up c (ex_time_tics e) n = Some (n + int k * c)"
      "ex_time_tics e \<le> n + int k * c" "n + int k * c < ex_time_tics e + c"
      using catch_up_least [of c n "ex_time_tics e"] by auto
    moreover have "th_amf_next_tics (ex_threads (map_thread ii (\<lambda>th. th\<lparr>th_amf_next_tics := n + int k * c\<rparr>) e) ! ii) = n + int k * c"
      using assms(2) by (simp add: map_thread_def)
    ultimately show ?thesis using 3 s by auto
  qed
qed

definition sim_async :: "nat list Executive" where
  "sim_async = sim_start\<lparr>ex_time_tics := 500000, ex_threads := ex_threads sim_start @
     [(new_Threads 1 True)\<lparr>th_process_type := PROCESS_TYPE_ASYNC_CHILD, th_child_complete := True,
        th_amf_cycle_tics := 200000, th_amf_next_tics := 0\<rparr>]\<rparr>"

lemma late_thread_is_caught_up_witness:
  "\<exists>w. sync_thread sim_env 1 sim_async = Some (Inr (), w) \<and> th_amf_next_tics (ex_threads w ! 1) = 600000"
proof -
  have t: "th_amf_cycle_tics (ex_threads sim_async ! 1) = 200000" "th_amf_next_tics (ex_threads sim_async ! 1) = 0"
    "ex_time_tics sim_async = 500000"
    by (simp_all add: sim_async_def)
  obtain w k where w: "sync_thread sim_env 1 sim_async = Some (Inr (), w)"
    "th_amf_next_tics (ex_threads w ! 1) = int k * 200000" "500000 \<le> int k * 200000" "int k * 200000 < 700000"
    using late_thread_is_caught_up [of 1 sim_async sim_env] unfolding t by (auto simp: sim_async_def)
  then have "k = 3" by linarith
  then show ?thesis using w by auto
qed

end
