(* ===== verification/SchedLoop.thy ===== *)
theory SchedLoop
  imports SchedPass
begin

text \<open>
  The whole single threaded loop (sim\_services/Executive/Executive\_loop\_single\_thread.cpp) for
  the jobs of \<open>SysSimObject\<close> and user jobs: every pass ends, keeps the schedule, moves time
  forward, and the loop ends at the termination time. The frame queues hold user jobs and the
  moding jobs of \<open>SysSimObject\<close>; no freeze is pending and no input processor event.
\<close>

subsection \<open>A simulation without a pending freeze\<close>

definition frame_static_job :: "JobData \<Rightarrow> bool" where
  "frame_static_job j \<longleftrightarrow>
     jd_inst_before j = [] \<and> jd_inst_after j = [] \<and>
     (take 6 (jd_name j) \<noteq> ''trick_'' \<or>
      jd_name j = sys_name ''async_freeze_to_exec_command'' \<or>
      jd_name j = sys_name ''sched_freeze_to_exec_command'' \<and> jd_job_class_name j = ''end_of_frame'')"

definition frame_static :: "schedule \<Rightarrow> bool" where
  "frame_static s =
     (case s of (jobs, js, adv, fz, n, boundary, async, ins, tops, ends) \<Rightarrow>
        adv \<noteq> fz \<and> \<not> async \<and> ins = [] \<and> distinct tops \<and> distinct ends \<and>
        (\<forall>j \<in> set (tops @ ends). frame_static_job (jobs j)))"

definition quiet :: "'w Executive \<Rightarrow> bool" where
  "quiet e \<longleftrightarrow> on_schedule e \<and> trick_static (schedule_of e) \<and> frame_static (schedule_of e) \<and>
     ex_freeze_times e = [] \<and> ex_exec_command e = NoCmd"

text \<open>What running a frame queue changes: of the schedule only the freeze job's next call time.\<close>

definition framed :: "'w Executive \<Rightarrow> 'w Executive \<Rightarrow> bool" where
  "framed e0 e \<longleftrightarrow>
     same_frame e0 e \<and> ex_time_tics e = ex_time_tics e0 \<and> ex_time_last_pass_tics e = ex_time_last_pass_tics e0 \<and>
     main_time e = main_time e0 \<and>
     (\<forall>k. next_of e k = next_of e0 k \<or> ex_freeze_job e0 = Some k \<and> next_of e k = TRICK_MAX_LONG_LONG)"

lemma framed_refl [simp]: "framed e e"
  by (simp add: framed_def)

lemma same_frame_freeze: "same_frame e0 e \<Longrightarrow> ex_freeze_job e = ex_freeze_job e0"
  by (simp add: same_frame_def schedule_of_def)

lemma framed_trans: "framed a b \<Longrightarrow> framed b c \<Longrightarrow> framed a c"
  using same_frame_freeze [of a b] same_frame_trans [of a b c] unfolding framed_def by metis

lemma framed_fields:
  assumes "framed e0 e"
  shows "same_frame e0 e" "ex_time_tics e = ex_time_tics e0" "ex_time_last_pass_tics e = ex_time_last_pass_tics e0"
  using assms by (simp_all add: framed_def)

lemma framed_schedule:
  assumes sched: "on_schedule e0" and f: "framed e0 e" and st: "frame_static (schedule_of e0)"
  shows "on_schedule e"
proof -
  have sf: "same_frame e0 e" using f by (simp add: framed_def)
  obtain a where a: "ex_advance_sim_time_job e0 = Some a"
    using sched by (auto simp: on_schedule_def split: option.splits)
  note D = on_scheduleD [OF sched a]
  have na: "ex_freeze_job e0 \<noteq> Some a" using st a by (auto simp: frame_static_def schedule_of_def)
  have n: "next_of e k = next_of e0 k \<or> k \<noteq> a \<and> next_of e k = TRICK_MAX_LONG_LONG" for k
    using f na unfolding framed_def by metis
  have i: "idle (ex_jobs e k) = idle (ex_jobs e0 k)" "jd_system_job_class (ex_jobs e k) = jd_system_job_class (ex_jobs e0 k)"
    "jd_cycle_tics (ex_jobs e k) = jd_cycle_tics (ex_jobs e0 k)" "jd_disabled (ex_jobs e k) = jd_disabled (ex_jobs e0 k)" for k
    using static_fields [OF same_frameD(1) [OF sf]] by blast+
  have m: "main_list e = main_list e0" by (rule same_frameD(2) [OF sf])
  have T: "ex_time_tics e = ex_time_tics e0" "main_time e = main_time e0" using f by (simp_all add: framed_def)
  have am: "a \<in> set (main_list e0)" "\<not> jd_disabled (ex_jobs e0 a)"
    using sched a by (simp_all add: on_schedule_def)
  have 1: "next_of e a = ex_time_tics e0" using n [of a] D(8) by simp
  have 2: "\<forall>j \<in> set (before_job a (main_list e0)). idle (ex_jobs e0 j) \<or> ex_time_tics e0 \<le> next_of e j"
  proof
    fix j assume "j \<in> set (before_job a (main_list e0))"
    then show "idle (ex_jobs e0 j) \<or> ex_time_tics e0 \<le> next_of e j" using n [of j] D(9) [of j] D(14) by auto
  qed
  have 3: "\<forall>j \<in> set (after_job a (main_list e0)). \<not> idle (ex_jobs e0 j) \<and> ex_time_tics e0 < next_of e j"
  proof
    fix j assume "j \<in> set (after_job a (main_list e0))"
    then show "\<not> idle (ex_jobs e0 j) \<and> ex_time_tics e0 < next_of e j" using n [of j] D(10) [of j] D(14) by auto
  qed
  show ?thesis
    unfolding on_schedule_def m T i
    using same_frameD [OF sf] D(1,2,3,6,11,12,13,15) am 1 2 3 a by simp
qed

lemma quietD:
  assumes "quiet e"
  shows "on_schedule e" "trick_static (schedule_of e)" "frame_static (schedule_of e)"
    "ex_freeze_times e = []" "ex_exec_command e = NoCmd"
    "length (ex_threads e) = 1" "ex_time_tics e \<le> ex_terminate_time e"
  using assms by (simp_all add: quiet_def on_schedule_def)

lemma quiet_framed:
  assumes "quiet e0" and "framed e0 e"
  shows "quiet e"
proof -
  have sf: "same_frame e0 e" and "ex_time_tics e = ex_time_tics e0" using assms(2) by (simp_all add: framed_def)
  then show ?thesis
    using framed_schedule [OF _ assms(2)] assms(1) by (simp add: quiet_def same_frame_def)
qed

subsection \<open>The frame queues\<close>

lemma framed_next:
  assumes "ex_queues e' = ex_queues e" "ex_threads e' = ex_threads e"
    "ex_jobs e' = (case fj of None \<Rightarrow> ex_jobs e
       | Some j \<Rightarrow> (ex_jobs e)(j := (ex_jobs e j)\<lparr>jd_next_tics := TRICK_MAX_LONG_LONG\<rparr>))"
    "fj = None \<or> fj = ex_freeze_job e"
    "ex_time_tics e' = ex_time_tics e" "ex_time_last_pass_tics e' = ex_time_last_pass_tics e"
    "ex_advance_sim_time_job e' = ex_advance_sim_time_job e" "ex_freeze_job e' = ex_freeze_job e"
    "ex_freeze_on_frame_boundary e' = ex_freeze_on_frame_boundary e"
    "ex_async_freeze_command e' = ex_async_freeze_command e"
    "ex_next_frame_check_tics e' = ex_next_frame_check_tics e"
    "ex_software_frame_tics e' = ex_software_frame_tics e" "ex_terminate_time e' = ex_terminate_time e"
    "ex_freeze_times e' = ex_freeze_times e" "ex_exec_command e' = ex_exec_command e"
  shows "framed e e'"
  using assms
  by (auto simp: framed_def same_frame_def schedule_of_def main_list_def main_time_def next_of_def fun_eq_iff
      split: option.splits)

lemma sched_freeze_quiet:
  assumes "ex_freeze_times e = []"
  defines "e' \<equiv> snd (sched_freeze_to_exec_command True e)"
  shows "framed e e' \<and> ex_queues e' = ex_queues e \<and> ex_threads e' = ex_threads e"
proof -
  have e': "e' = (case ex_freeze_job e of None \<Rightarrow> e | Some j \<Rightarrow> map_job j (\<lambda>j. j\<lparr>jd_next_tics := TRICK_MAX_LONG_LONG\<rparr>) e)"
    using assms(1) by (cases "ex_freeze_job e")
      (simp_all add: e'_def sched_freeze_to_exec_command_def map_job_def split: option.split)
  then have "framed e e'"
    by (intro framed_next [where fj = "ex_freeze_job e"]) (simp_all add: map_job_def split: option.split)
  then show ?thesis using e' by (simp add: map_job_def split: option.split)
qed

lemma frame_call:
  assumes st: "frame_static_job (ex_jobs e j)" and fz: "ex_freeze_times e = []" and na: "\<not> ex_async_freeze_command e"
  shows "\<exists>w. call_checked (trick_sys_call env user) msg j e = Some (Inr (), w) \<and>
    framed e w \<and> ex_queues w = ex_queues e \<and> ex_threads w = ex_threads e"
proof -
  have bare: "call_checked (trick_sys_call env user) msg j e = Some (Inr (), w)"
    if "trick_sys_call env user (Job j) e = Some (Inr 0, w)" "jd_inst_after (ex_jobs w j) = []" for w
    using JobData_call_bare [of e j "trick_sys_call env user" 0 w] that st
    by (simp add: call_checked_def frame_static_job_def)
  have inst: "jd_inst_after (ex_jobs e j) = []" using st by (simp add: frame_static_job_def)
  consider "take 6 (jd_name (ex_jobs e j)) \<noteq> ''trick_''"
    | "jd_name (ex_jobs e j) = sys_name ''async_freeze_to_exec_command''"
    | "jd_name (ex_jobs e j) = sys_name ''sched_freeze_to_exec_command''" "jd_job_class_name (ex_jobs e j) = ''end_of_frame''"
    using st by (auto simp: frame_static_job_def)
  then show ?thesis
  proof cases
    case 1
    let ?w = "e\<lparr>ex_world := user (Job j) (ex_world e)\<rparr>"
    have "trick_sys_call env user (Job j) e = Some (Inr 0, ?w)"
      by (simp add: trick_sys_call_def user_call_def Let_def sys_lookup_user [OF 1])
    moreover have "framed e ?w" by (rule framed_next [where fj = None]) simp_all
    ultimately show ?thesis using bare [of ?w] inst by auto
  next
    case 2
    then have "trick_sys_call env user (Job j) e = Some (Inr 0, e)"
      using na by (simp add: trick_sys_call_def sys_calls_def plain_def async_freeze_to_exec_command_def)
    then show ?thesis using bare [of e] inst by auto
  next
    case 3
    let ?w = "snd (sched_freeze_to_exec_command True e)"
    have "trick_sys_call env user (Job j) e = Some (Inr 0, ?w)"
      using 3 by (simp add: trick_sys_call_def sys_calls_def plain_def sched_freeze_to_exec_command_def)
    moreover have "job_static (ex_jobs ?w j) = job_static (ex_jobs e j)"
      using sched_freeze_quiet [OF fz] by (intro same_frameD(1)) (simp add: framed_def)
    then have "jd_inst_after (job_static (ex_jobs ?w j)) = jd_inst_after (job_static (ex_jobs e j))" by simp
    then have "jd_inst_after (ex_jobs ?w j) = []" using inst by (simp add: job_static_def)
    ultimately show ?thesis using bare [of ?w] sched_freeze_quiet [OF fz] by blast
  qed
qed

lemma framed_skip:
  assumes "r = Q_top_of_frame \<or> r = Q_end_of_frame"
  shows "framed e (set_curr jo (skip_in r ks e))" and "framed e (map_q r reset_curr_index e)"
  using assms
  by (auto simp: framed_def same_frame_def schedule_of_def main_list_def main_time_def next_of_def set_curr_def skip_in_def
      skip_jobs_def map_q_def reset_curr_index_def)

lemma frame_queue_list:
  assumes "framed e0 e" and "r = Q_top_of_frame \<or> r = Q_end_of_frame"
  shows "q_list (get_q r e) = q_list (get_q r e0)"
  using assms by (auto simp: framed_def same_frame_def schedule_of_def)

lemma frame_jobs_static:
  assumes "frame_static (schedule_of e)" and "r = Q_top_of_frame \<or> r = Q_end_of_frame"
  shows "distinct (q_list (get_q r e))" "j \<in> set (q_list (get_q r e)) \<Longrightarrow> frame_static_job (ex_jobs e j)"
    "\<not> ex_async_freeze_command e"
  using assms by (auto simp: frame_static_def schedule_of_def frame_static_job_def job_static_def)

lemma run_frame_queue:
  fixes e :: "'w Executive"
  assumes q: "quiet e" and r: "r = Q_top_of_frame \<or> r = Q_end_of_frame"
  shows "\<exists>w. run_queue (trick_sys_call env user) r msg e = Some (Inr (), w) \<and> framed e w"
proof -
  let ?cf = "trick_sys_call env user" and ?start = "map_q r reset_curr_index e"
  have "\<exists>js w. runs (next_curr r) (call_checked ?cf msg) ?start js w \<and> framed e w"
  proof (rule next_curr.walk_complete [where I = "\<lambda>_. framed e" and Q = "\<lambda>_. framed e"])
    show f: "framed e ?start" by (rule framed_skip(2) [OF r])
    have "get_q r ?start = reset_curr_index (get_q r e)"
      using r by (auto simp: map_q_def)
    then show "queue_ok r ?start"
      using r frame_jobs_static(1) [OF quietD(3) [OF q] r]
      by (auto simp: queue_ok_def index_ok_def pending_in_def pending_jobs_def reset_curr_index_def)
  next
    fix v and sk j js and tr :: "job_ptr list"
    assume v: "queue_ok r v" "framed e v" "pending_in r v = sk @ j # js"
    let ?u = "set_curr (Some (last (sk @ [j]))) (skip_in r (sk @ [j]) v)"
    have p: "pending_in r v = (sk @ [j]) @ js" using v(3) by simp
    have u: "framed e ?u" using framed_trans [OF v(2) framed_skip(1) [OF r]] .
    have pu: "queue_ok r ?u" "pending_in r ?u = js"
      using queue_ok_skip_in [OF v(1) p] pending_skip_in [OF queue_ok_has [OF v(1)] p] by simp_all
    have "j \<in> set (pending_in r v)" using v(3) by simp
    then have "j \<in> set (q_list (get_q r v))" unfolding pending_in_def pending_jobs_def by (rule in_set_dropD)
    then have "j \<in> set (q_list (get_q r ?u))"
      using frame_queue_list [OF v(2) r] frame_queue_list [OF u r] by simp
    then have "frame_static_job (ex_jobs ?u j)" "\<not> ex_async_freeze_command ?u"
      using frame_jobs_static(2,3) [OF quietD(3) [OF quiet_framed [OF q u]] r] by blast+
    then obtain w where w: "call_checked ?cf msg j ?u = Some (Inr (), w)" "framed ?u w"
      "ex_queues w = ex_queues ?u" "ex_threads w = ex_threads ?u"
      using frame_call [of ?u j env user msg] quietD(4) [OF quiet_framed [OF q u]] by blast
    have "get_q r w = get_q r ?u" by (rule get_q_cong [OF w(3,4)])
    then have "queue_ok r w" "pending_in r w = js"
      using pu has_queue_cong [of w ?u r] w(4) by (simp_all add: queue_ok_def pending_in_def)
    then show "\<exists>w. call_checked ?cf msg j ?u = Some (Inr (), w) \<and> queue_ok r w \<and> pending_in r w = js \<and> framed e w"
      using w(1) framed_trans [OF u w(2)] by blast
  next
    fix v :: "'w Executive" and tr :: "job_ptr list"
    assume "framed e v"
    then show "framed e (set_curr None (skip_in r (pending_in r v) v))" using framed_skip(1) [OF r] by (rule framed_trans)
  qed
  then show ?thesis unfolding run_queue_def by (blast dest: runs_walk)
qed

subsection \<open>One pass of the loop\<close>

lemma framed_count: "framed e w \<Longrightarrow> framed e (w\<lparr>ex_frame_count := n\<rparr>)"
  by (simp add: framed_def same_frame_def schedule_of_def main_list_def main_time_def next_of_def)

lemma quiet_top:
  assumes "quiet e"
  shows "\<exists>w. run_top_of_frame (trick_sys_call env user) e = Some (Inr (), w) \<and> framed e w"
proof (cases "ex_time_tics e = ex_next_frame_check_tics e - ex_software_frame_tics e")
  case True
  then show ?thesis
    using run_frame_queue [OF assms, of Q_top_of_frame env user "''top_of_frame job did not return 0''"]
    by (auto simp: run_top_of_frame_def intro: framed_count)
qed (simp add: run_top_of_frame_def)

lemma quiet_input:
  fixes e :: "'w Executive"
  assumes "quiet e"
  shows "\<exists>w. run_input_processor_run cf e = Some (Inr (), w) \<and> framed e w"
proof -
  let ?r = "Q_input_processor_run" and ?start = "map_q Q_input_processor_run reset_curr_index e"
  have l: "q_list (ex_queues e ?r) = []" using quietD(3) [OF assms] by (simp add: frame_static_def schedule_of_def)
  have p: "pending_in ?r ?start = []" "queue_ok ?r ?start"
    by (simp_all add: queue_ok_def index_ok_def pending_in_def pending_jobs_def reset_curr_index_def map_q_def l)
  have "run_input_processor_run cf e = Some (Inr (), set_curr None (visit_in ?r (ex_time_tics ?start) [] ?start))"
    unfolding run_input_processor_run_def using next_now.walk_stops [OF p(2)] p(1) by simp
  moreover have "framed e (set_curr None (visit_in ?r (ex_time_tics ?start) [] ?start))"
    by (simp add: framed_def same_frame_def schedule_of_def main_list_def main_time_def next_of_def set_curr_def
        visit_in_def map_q_def reset_curr_index_def)
  ultimately show ?thesis by blast
qed

text \<open>Up to the scheduled jobs a pass only runs frame jobs; the scheduled jobs then move time.\<close>

lemma quiet_pass:
  fixes e :: "'w Executive"
  assumes q: "quiet e" and frame: "ex_time_tics e < ex_next_frame_check_tics e"
  shows "\<exists>e1 w js a. framed e e1 \<and> pass_done e1 a js w \<and> trick_static (schedule_of w) \<and> frame_static (schedule_of w) \<and>
    ex_freeze_times w = [] \<and> ex_exec_command w = NoCmd \<and>
    single_pass (trick_sys_call env user) e =
      andthen (check_exit ''Executive_loop_single_thread.cpp'' 85 98 True w) (\<lambda>_ v. run_end_of_frame (trick_sys_call env user) v)"
proof -
  let ?cf = "trick_sys_call env user"
  obtain e2 where e2: "run_top_of_frame ?cf e = Some (Inr (), e2)" "framed e e2"
    using quiet_top [OF q] by blast
  obtain e3 where e3: "run_input_processor_run ?cf e2 = Some (Inr (), e3)" "framed e2 e3"
    using quiet_input [OF quiet_framed [OF q e2(2)]] by blast
  have f: "framed e e3" using e2(2) e3(2) by (rule framed_trans)
  note Q = quietD [OF quiet_framed [OF q f]]
  obtain a where a: "ex_advance_sim_time_job e3 = Some a"
    using Q(1) by (auto simp: on_schedule_def split: option.splits)
  obtain js w where w: "run_scheduled ?cf e3 = Some (Inr (), w)" "pass_done e3 a js w"
    using trick_pass [OF Q(1) a Q(2)] framed_fields [OF f] same_frameD(5) [of e e3] frame by fastforce
  have "same_frame e3 w" using w(2) by (simp add: pass_done_def)
  then have "schedule_of w = schedule_of e3" "ex_freeze_times w = []" "ex_exec_command w = NoCmd"
    using Q(4,5) by (simp_all add: same_frame_def)
  moreover have "single_pass ?cf e =
      andthen (check_exit ''Executive_loop_single_thread.cpp'' 85 98 True w) (\<lambda>_ v. run_end_of_frame ?cf v)"
    using quietD(5) [OF q] by (simp add: single_pass_def freeze_if_commanded_def e2 e3 w)
  ultimately show ?thesis using f w(2) Q(2,3) by metis
qed

lemma quiet_next_frame:
  assumes "quiet v"
  shows "quiet (v\<lparr>ex_next_frame_check_tics := n\<rparr>)"
proof -
  let ?w = "v\<lparr>ex_next_frame_check_tics := n\<rparr>"
  have s: "main_list ?w = main_list v" "main_time ?w = main_time v" "next_of ?w = next_of v" "schedule_of ?w = schedule_of v"
    by (simp_all add: schedule_of_def main_list_def main_time_def next_of_def fun_eq_iff)
  have "on_schedule ?w = on_schedule v" unfolding on_schedule_def s by (cases "ex_advance_sim_time_job v") simp_all
  then show ?thesis using assms by (simp add: quiet_def s)
qed

lemma quiet_mode:
  assumes "quiet v"
  shows "quiet (v\<lparr>ex_mode := m\<rparr>)"
proof -
  let ?w = "v\<lparr>ex_mode := m\<rparr>"
  have s: "main_list ?w = main_list v" "main_time ?w = main_time v" "next_of ?w = next_of v" "schedule_of ?w = schedule_of v"
    by (simp_all add: schedule_of_def main_list_def main_time_def next_of_def fun_eq_iff)
  have "on_schedule ?w = on_schedule v" unfolding on_schedule_def s by (cases "ex_advance_sim_time_job v") simp_all
  then show ?thesis using assms by (simp add: quiet_def s)
qed

lemma time_moved_of: "pass_done e a js w \<Longrightarrow> time_moved e w \<and> on_schedule w \<and> same_frame e w"
  by (simp add: pass_done_def)

lemma quiet_step:
  fixes e :: "'w Executive"
  assumes q: "quiet e" and frame: "ex_time_tics e < ex_next_frame_check_tics e"
    and t: "ex_time_tics e < ex_terminate_time e"
  shows "\<exists>w. single_pass (trick_sys_call env user) e = Some (Inr (), w) \<and> quiet w \<and>
    ex_time_tics w < ex_next_frame_check_tics w \<and>
    ex_time_tics e < ex_time_tics w \<and> ex_terminate_time w = ex_terminate_time e"
proof -
  let ?cf = "trick_sys_call env user"
  obtain e1 w js a where w: "framed e e1" "pass_done e1 a js w" "trick_static (schedule_of w)" "frame_static (schedule_of w)"
    "ex_freeze_times w = []" "ex_exec_command w = NoCmd"
    and p: "single_pass ?cf e = andthen (check_exit ''Executive_loop_single_thread.cpp'' 85 98 True w)
      (\<lambda>_ v. run_end_of_frame ?cf v)"
    using quiet_pass [OF q frame, of env user] by blast
  note f = framed_fields [OF w(1)] and m = time_moved_of [OF w(2)]
  have same: "ex_terminate_time w = ex_terminate_time e" "ex_next_frame_check_tics w = ex_next_frame_check_tics e"
    "ex_software_frame_tics w = ex_software_frame_tics e"
    using same_frameD [OF f(1)] same_frameD [of e1 w] m by simp_all
  have mv: "ex_time_last_pass_tics w = ex_time_tics e" "ex_time_tics e < ex_time_tics w"
    "ex_time_tics w \<le> ex_next_frame_check_tics w"
    using m t f same same_frameD [OF f(1)] by (simp_all add: time_moved_def)
  have c: "check_exit fl i j True w = Some (Inr (), w)" for fl i j
    using w(6) same(1) mv(1) t by (simp add: check_exit_def Let_def)
  have qw: "quiet w" using m w by (simp add: quiet_def)
  show ?thesis
  proof (cases "ex_time_tics w = ex_next_frame_check_tics w")
    case False
    then have "single_pass ?cf e = Some (Inr (), w)" by (simp add: p c run_end_of_frame_def)
    then show ?thesis using qw mv(2,3) False same(1) by auto
  next
    case True
    obtain v where v: "run_queue ?cf Q_end_of_frame ''end_of_frame job did not return 0'' w = Some (Inr (), v)" "framed w v"
      using run_frame_queue [OF qw, of Q_end_of_frame env user] by blast
    let ?v1 = "v\<lparr>ex_next_frame_check_tics := ex_next_frame_check_tics v + ex_software_frame_tics v\<rparr>"
    note fv = framed_fields [OF v(2)]
    have "quiet v" by (rule quiet_framed [OF qw v(2)])
    then have "quiet ?v1" by (rule quiet_next_frame)
    moreover have "ex_time_tics ?v1 < ex_next_frame_check_tics ?v1"
      using True fv(2) same_frameD(5) [OF fv(1)] \<open>quiet v\<close> by (simp add: quiet_def on_schedule_def)
    moreover have "single_pass ?cf e = Some (Inr (), ?v1)" by (simp add: p c run_end_of_frame_def True v)
    ultimately show ?thesis using mv(2) fv(2) same(1) same_frameD(7) [OF fv(1)] by auto
  qed
qed

lemma quiet_last:
  fixes e :: "'w Executive"
  assumes q: "quiet e" and frame: "ex_time_tics e < ex_next_frame_check_tics e"
    and t: "ex_time_tics e = ex_terminate_time e"
  shows "\<exists>w. single_pass (trick_sys_call env user) e =
      Some (Inl (mk_ExecutiveException 0 ''Executive_loop_single_thread.cpp'' 98 ''Reached termination time''), w) \<and>
    ex_time_tics w = ex_terminate_time e \<and> ex_exec_command w = ExitCmd"
proof -
  let ?cf = "trick_sys_call env user"
  obtain e1 w js a where w: "framed e e1" "pass_done e1 a js w" "ex_exec_command w = NoCmd"
    and p: "single_pass ?cf e = andthen (check_exit ''Executive_loop_single_thread.cpp'' 85 98 True w)
      (\<lambda>_ v. run_end_of_frame ?cf v)"
    using quiet_pass [OF q frame, of env user] by blast
  note f = framed_fields [OF w(1)] and m = time_moved_of [OF w(2)]
  have same: "ex_terminate_time w = ex_terminate_time e"
    using same_frameD [OF f(1)] same_frameD [of e1 w] m by simp
  have "ex_time_last_pass_tics w = ex_time_tics e" using m f by (simp add: time_moved_def)
  then show ?thesis using w(3) same t by (simp add: p check_exit_def Let_def)
qed

subsection \<open>The loop\<close>

lemma quiet_loop:
  "quiet e \<Longrightarrow> ex_time_tics e < ex_next_frame_check_tics e \<Longrightarrow>
   \<exists>w. loop_single_thread (trick_sys_call env user) e =
      Some (Inl (mk_ExecutiveException 0 ''Executive_loop_single_thread.cpp'' 98 ''Reached termination time''), w) \<and>
    ex_time_tics w = ex_terminate_time e \<and> ex_exec_command w = ExitCmd"
proof (induction "nat (ex_terminate_time e - ex_time_tics e)" arbitrary: e rule: less_induct)
  case less
  note le = quietD(7) [OF less.prems(1)]
  show ?case
  proof (cases "ex_time_tics e = ex_terminate_time e")
    case True
    then show ?thesis
      using quiet_last [OF less.prems True, of env user] by (auto simp: loop_single_thread.simps [of _ e])
  next
    case False
    then obtain w where w: "single_pass (trick_sys_call env user) e = Some (Inr (), w)" "quiet w"
      "ex_time_tics w < ex_next_frame_check_tics w" "ex_time_tics e < ex_time_tics w"
      "ex_terminate_time w = ex_terminate_time e"
      using quiet_step [OF less.prems, of env user] le by auto
    then show ?thesis
      using less.hyps [of w] quietD(7) [OF w(2)] by (auto simp: loop_single_thread.simps [of _ e])
  qed
qed

end
