(* ===== verification/MasterMain.thy ===== *)
theory MasterMain
  imports ExecLoop
begin

text \<open>
  The main program (sim\_services/mains/master.cpp): \<open>init\<close>, the scheduler loop if it succeeded,
  and \<open>shutdown\<close>, whose value is the exit code. The locale is set and the simulation objects are
  added (generated code) before the state \<open>e\<close>.
\<close>

definition master ::
  "'w exec_call \<Rightarrow> 'w Environment \<Rightarrow> ('w Executive \<Rightarrow> 'w Executive) \<Rightarrow> ('w Executive \<Rightarrow> 'w Executive) \<Rightarrow>
   nat option \<Rightarrow> string list \<Rightarrow> 'w Executive \<Rightarrow> (int, 'w Executive) result" where
  "master cf env close_connections stop_threads self argv e =
     andthen (init cf self argv e) (\<lambda>ret e1.
     andthen (if ret = 0 then exec_loop cf env e1 else Some (Inr 0, e1)) (\<lambda>_ e2.
     shutdown cf env close_connections stop_threads e2))"

text \<open>Calls that throw no \<open>ExecutiveException\<close>.\<close>

definition no_throw :: "('a, 'w) result \<Rightarrow> bool" where
  "no_throw r \<longleftrightarrow> (\<forall>ret file_name msg w. r \<noteq> Some (Inl (ExecutiveException ret file_name msg), w))"

lemma no_throw_simps [simp]: "no_throw None" "no_throw (Some (Inr x, w))" "no_throw (Some (Inl (Undefined m), w))"
  by (simp_all add: no_throw_def)

lemma no_throw_andthen: "no_throw r \<Longrightarrow> (\<And>x w. no_throw (f x w)) \<Longrightarrow> no_throw (andthen r f)"
  by (cases r) (auto simp: no_throw_def andthen_def split: sum.splits)

lemma no_throw_catch: "(\<And>ret file_name msg w. no_throw (h ret file_name msg w)) \<Longrightarrow> no_throw (catch_exec h r)"
  by (auto simp: catch_exec_def no_throw_def split: option.splits prod.splits sum.splits abort.splits)

lemma no_throw_spin: "no_throw (spin env c e)"
  by (auto simp: spin_def split: option.splits)

lemma no_throw_for_threads:
  assumes "\<And>i e. no_throw (f i e)"
  shows "no_throw (for_threads f i e)"
proof (cases "for_threads f i e")
  case (Some r)
  have "(\<forall>i e. no_throw (f i e)) \<longrightarrow> no_throw (Some r)"
  proof (rule for_threads.raw_induct [OF _ Some, where P = "\<lambda>f i e r. (\<forall>i e. no_throw (f i e)) \<longrightarrow> no_throw (Some r)"])
    fix g and f :: "nat \<Rightarrow> 'b Executive \<Rightarrow> (unit, 'b Executive) result" and i and e :: "'b Executive" and r
    assume IH: "\<And>f i e r. g f i e = Some r \<Longrightarrow> (\<forall>i e. no_throw (f i e)) \<longrightarrow> no_throw (Some r)"
      and eq: "(if i < length (ex_threads e) then andthen (f i e) (\<lambda>_. g f (Suc i)) else Some (Inr (), e)) = Some r"
    show "(\<forall>i e. no_throw (f i e)) \<longrightarrow> no_throw (Some r)"
    proof
      assume f: "\<forall>i e. no_throw (f i e)"
      have "no_throw (g f (Suc i) w)" for w
        using IH [of f "Suc i" w] f by (cases "g f (Suc i) w") simp_all
      then have "no_throw (andthen (f i e) (\<lambda>_. g f (Suc i)))" using f by (intro no_throw_andthen) simp_all
      then show "no_throw (Some r)" using eq no_throw_simps(2) by (metis (full_types))
    qed
  qed
  then show ?thesis using assms Some by simp
qed simp

text \<open>Jobs that return a code and change the rest of the simulation only.\<close>

definition code_call :: "(callee \<Rightarrow> int) \<Rightarrow> (callee \<Rightarrow> 'w \<Rightarrow> 'w) \<Rightarrow> 'w exec_call" where
  "code_call code user c e = Some (Inr (code c), e\<lparr>ex_world := user c (ex_world e)\<rparr>)"

lemma fold_world: "fold (\<lambda>c (e :: 'w Executive). e\<lparr>ex_world := user c (ex_world e)\<rparr>) cs e = e\<lparr>ex_world := fold user cs (ex_world e)\<rparr>"
  by (induction cs arbitrary: e) simp_all

lemma code_call_job:
  fixes e :: "'w Executive"
  shows "JobData_call ex_jobs (code_call code user) j e =
    Some (Inr (code (Job j)), e\<lparr>ex_world := fold user (job_calls (ex_jobs e) j) (ex_world e)\<rparr>)"
proof -
  let ?eff = "\<lambda>c (e :: 'w Executive). e\<lparr>ex_world := user c (ex_world e)\<rparr>"
  have "JobData_call ex_jobs (code_call code user) j e = Some (Inr (code (Job j)), fold ?eff (job_calls (ex_jobs e) j) e)"
    by (rule JobData_call_fold) (simp_all add: code_call_def)
  then show ?thesis by (simp add: fold_world)
qed

text \<open>The jobs that run: all enabled ones up to and with the first that fails.\<close>

definition enabled_jobs :: "queue_ref \<Rightarrow> 'w Executive \<Rightarrow> job_ptr list" where
  "enabled_jobs r e = filter (enabled_in e) (q_list (get_q r e))"

definition passed :: "(callee \<Rightarrow> int) \<Rightarrow> job_ptr list \<Rightarrow> job_ptr list" where
  "passed code js = takeWhile (\<lambda>j. code (Job j) = 0) js"

definition calls_of :: "job_heap \<Rightarrow> job_ptr list \<Rightarrow> callee list" where
  "calls_of h js = concat (map (job_calls h) js)"

lemma calls_of_snoc: "calls_of h (js @ [j]) = calls_of h js @ job_calls h j"
  by (simp add: calls_of_def)

text \<open>Everything but the world, the current job and the positions in the queues.\<close>

definition same_program :: "'w Executive \<Rightarrow> 'w Executive \<Rightarrow> bool" where
  "same_program e0 e \<longleftrightarrow> (\<exists>w jo f. e = e0\<lparr>ex_world := w, ex_curr_job := jo, ex_queues := f\<rparr> \<and>
     (\<forall>r. q_list (f r) = q_list (ex_queues e0 r)))"

definition called :: "(callee \<Rightarrow> 'w \<Rightarrow> 'w) \<Rightarrow> 'w Executive \<Rightarrow> job_ptr list \<Rightarrow> 'w Executive \<Rightarrow> bool" where
  "called user e0 js e \<longleftrightarrow> same_program e0 e \<and> ex_world e = fold user (calls_of (ex_jobs e0) js) (ex_world e0)"

lemma same_program_refl [simp]: "same_program e e"
  unfolding same_program_def by (rule_tac x = "ex_world e" in exI, rule_tac x = "ex_curr_job e" in exI, rule_tac x = "ex_queues e" in exI) simp

lemma same_program_fields:
  assumes "same_program e0 e"
  shows "ex_jobs e = ex_jobs e0" "ex_mode e = ex_mode e0" "ex_initialization_complete e = ex_initialization_complete e0"
    "ex_except_return e = ex_except_return e0" "ex_except_file e = ex_except_file e0"
    "ex_except_message e = ex_except_message e0" "ex_threads e = ex_threads e0" "ex_restart_called e = ex_restart_called e0"
    "q_list (ex_queues e r) = q_list (ex_queues e0 r)"
  using assms by (auto simp: same_program_def)

lemma same_program_world:
  assumes "same_program e0 e"
  shows "same_program e0 (e\<lparr>ex_world := w\<rparr>)"
proof -
  obtain x jo f where e: "e = e0\<lparr>ex_world := x, ex_curr_job := jo, ex_queues := f\<rparr>"
    and f: "\<forall>r. q_list (f r) = q_list (ex_queues e0 r)"
    using assms by (auto simp: same_program_def)
  have "e\<lparr>ex_world := w\<rparr> = e0\<lparr>ex_world := w, ex_curr_job := jo, ex_queues := f\<rparr>" by (simp add: e)
  then show ?thesis using f unfolding same_program_def by blast
qed

text \<open>The queues that are members of the executive itself.\<close>

definition own_queue :: "queue_ref \<Rightarrow> bool" where
  "own_queue r = (case r of Q_thread_job _ \<Rightarrow> False | Q_thread_top _ \<Rightarrow> False | Q_thread_end _ \<Rightarrow> False | _ \<Rightarrow> True)"

lemma own_queue_simps:
  assumes "own_queue r"
  shows "set_q r q e = e\<lparr>ex_queues := (ex_queues e)(r := q)\<rparr>" "get_q r e = ex_queues e r" "has_queue r e"
  using assms by (cases r; simp add: own_queue_def)+

lemma same_program_queue:
  assumes "same_program e0 e" and "own_queue r" and "q_list q = q_list (get_q r e)"
  shows "same_program e0 (set_curr jo (set_q r q e))" and "same_program e0 (set_q r q e)"
proof -
  note o = own_queue_simps [OF assms(2)]
  obtain x k f where e: "e = e0\<lparr>ex_world := x, ex_curr_job := k, ex_queues := f\<rparr>"
    and f: "\<forall>r. q_list (f r) = q_list (ex_queues e0 r)"
    using assms(1) by (auto simp: same_program_def)
  have "set_curr jo (set_q r q e) = e0\<lparr>ex_world := x, ex_curr_job := jo, ex_queues := f(r := q)\<rparr>"
    unfolding o by (simp add: e set_curr_def)
  moreover have "set_q r q e = e0\<lparr>ex_world := x, ex_curr_job := k, ex_queues := f(r := q)\<rparr>"
    unfolding o by (simp add: e)
  moreover have "\<forall>s. q_list ((f(r := q)) s) = q_list (ex_queues e0 s)" using f assms(3) by (simp add: e o)
  ultimately show "same_program e0 (set_curr jo (set_q r q e))" "same_program e0 (set_q r q e)"
    unfolding same_program_def by blast+
qed

lemma called_skip:
  assumes "called user e0 js e" and "own_queue r"
  shows "called user e0 js (set_curr jo (skip_in r ks e))"
  using assms same_program_queue(1) [OF _ assms(2), of e0 e "skip_jobs (get_q r e) ks" jo]
  by (simp add: called_def skip_in_def skip_jobs_def)

text \<open>The body of the loop for one job.\<close>

lemma checked_body:
  fixes j :: job_ptr and ks :: "job_ptr list"
  assumes c: "called user e0 tr v" and r: "own_queue r"
  defines "u \<equiv> set_curr (Some j) (skip_in r ks v)"
  defines "w \<equiv> u\<lparr>ex_world := fold user (job_calls (ex_jobs e0) j) (ex_world u)\<rparr>"
  shows "called user e0 (tr @ [j]) w" "get_q r w = get_q r u"
    "call_checked (code_call code user) msg j u =
       Some (if code (Job j) = 0 then Inr () else Inl (mk_ExecutiveException (code (Job j)) (jd_name (ex_jobs e0 j)) 0 msg), w)"
proof -
  have u: "called user e0 tr u" unfolding u_def using c r by (rule called_skip)
  then have j: "ex_jobs u = ex_jobs e0" using same_program_fields(1) by (auto simp: called_def)
  show "called user e0 (tr @ [j]) w"
    using u same_program_world [of e0 u] by (auto simp: called_def w_def calls_of_snoc)
  show "get_q r w = get_q r u" unfolding w_def by (rule get_q_cong) simp_all
  show "call_checked (code_call code user) msg j u =
       Some (if code (Job j) = 0 then Inr () else Inl (mk_ExecutiveException (code (Job j)) (jd_name (ex_jobs e0 j)) 0 msg), w)"
    using j by (simp add: call_checked_def code_call_job throw_job_def w_def) (simp add: u_def set_curr_def)
qed

lemma run_queue_calls:
  fixes e :: "'w Executive" and code :: "callee \<Rightarrow> int"
  assumes r: "own_queue r" and d: "distinct (q_list (get_q r e))"
  defines "js \<equiv> enabled_jobs r e" and "good \<equiv> passed code (enabled_jobs r e)"
  shows "\<exists>w. run_queue (code_call code user) r msg e =
      Some (if good = js then Inr ()
            else Inl (mk_ExecutiveException (code (Job (js ! length good))) (jd_name (ex_jobs e (js ! length good))) 0 msg), w) \<and>
    called user e (take (Suc (length good)) js) w"
proof -
  let ?start = "map_q r reset_curr_index e" and ?body = "call_checked (code_call code user) msg"
  have start: "called user e [] ?start"
  proof -
    have "same_program e (set_q r (reset_curr_index (get_q r e)) e)"
      by (rule same_program_queue(2) [OF _ r]) (simp_all add: reset_curr_index_def)
    then show ?thesis by (simp add: called_def calls_of_def map_q_def)
  qed
  have gs: "get_q r ?start = reset_curr_index (get_q r e)"
    unfolding map_q_def by (rule get_set_q) (simp add: own_queue_simps [OF r])
  have ok: "queue_ok r ?start"
    using d own_queue_simps(3) [OF r]
    by (simp add: queue_ok_def pending_in_def gs index_ok_def pending_jobs_def reset_curr_index_def)
  have en: "enabled_in v = enabled_in e" if "called user e tr v" for tr and v :: "'w Executive"
    using that same_program_fields(1) [of e v] by (simp add: called_def enabled_in_def fun_eq_iff)
  have pend: "filter (enabled_in ?start) (pending_in r ?start) = js"
    by (simp add: js_def enabled_jobs_def pending_in_def gs pending_jobs_def reset_curr_index_def en [OF start])
  have adv: "queue_ok r w \<and> pending_in r w = ks"
    if "queue_ok r v" "pending_in r v = sk @ j # ks" "called user e tr w"
      "get_q r w = get_q r (set_curr (Some j) (skip_in r (sk @ [j]) v))" for v w :: "'w Executive" and sk j ks tr
  proof -
    have p: "pending_in r v = (sk @ [j]) @ ks" using that(2) by simp
    show ?thesis
      using queue_ok_skip_in [OF that(1) p] pending_skip_in [OF queue_ok_has [OF that(1)] p] that(4)
        own_queue_simps(3) [OF r]
      by (simp add: queue_ok_def pending_in_def)
  qed
  show ?thesis
  proof (cases "good = js")
    case True
    then have all: "\<forall>j \<in> set js. code (Job j) = 0"
      unfolding good_def js_def [symmetric] passed_def by (metis set_takeWhileD)
    let ?I = "\<lambda>tr v. called user e tr v \<and> tr @ filter (enabled_in e) (pending_in r v) = js"
    have "\<exists>tr w. runs (next_curr r) ?body ?start tr w \<and> called user e ([] @ tr) w \<and> [] @ tr = js"
    proof (rule next_curr.walk_complete [where I = ?I and Q = "\<lambda>tr w. called user e tr w \<and> tr = js"])
      fix v and sk j ks and tr :: "job_ptr list"
      assume v: "queue_ok r v" "?I tr v" "pending_in r v = sk @ j # ks" "filter (enabled_in v) sk = []" "enabled_in v j"
      let ?u = "set_curr (Some j) (skip_in r (sk @ [j]) v)"
      have c: "called user e tr v" using v(2) by simp
      have "j \<in> set js" using v(2,3,5) en [OF c] by auto
      then have "code (Job j) = 0" using all by simp
      then obtain w where w: "?body j ?u = Some (Inr (), w)" "called user e (tr @ [j]) w" "get_q r w = get_q r ?u"
        using checked_body(1,2) [OF c r, where j = j and ks = "sk @ [j]"] checked_body(3) [OF c r, where j = j and ks = "sk @ [j]" and code = code and msg = msg] by fastforce
      have "tr @ [j] @ filter (enabled_in e) ks = js" using v(2-5) en [OF c] by simp
      then show "\<exists>w. ?body j (set_curr (Some (last (sk @ [j]))) (skip_in r (sk @ [j]) v)) = Some (Inr (), w) \<and>
          queue_ok r w \<and> pending_in r w = ks \<and> ?I (tr @ [j]) w"
        using w adv [OF v(1,3) w(2,3)] by (rule_tac x = w in exI) simp
    qed (use ok start pend en [OF start] called_skip [OF _ r] en in auto)
    then show ?thesis using True by (auto simp: run_queue_def dest: runs_walk)
  next
    case False
    let ?j = "js ! length good"
    have lt: "length good < length js"
      using False takeWhile_eq_take unfolding good_def js_def [symmetric] passed_def
      by (metis length_takeWhile_le linorder_neqE_nat not_less takeWhile_eq_take take_all order_refl)
    have bad: "code (Job ?j) \<noteq> 0"
      using lt nth_length_takeWhile unfolding good_def js_def [symmetric] passed_def by fastforce
    have pre: "take (length good) js = good" unfolding good_def js_def [symmetric] passed_def by (simp add: takeWhile_eq_take [symmetric])
    have split: "js = good @ ?j # drop (Suc (length good)) js" using lt pre id_take_nth_drop by metis
    have okg: "\<forall>k \<in> set good. \<not> code (Job k) \<noteq> 0"
      unfolding good_def passed_def using set_takeWhileD by fastforce
    have "\<exists>w. walk (next_curr r) ?body ?start =
        Some (Inl (mk_ExecutiveException (code (Job ?j)) (jd_name (ex_jobs e ?j)) 0 msg), w) \<and> called user e ([] @ good @ [?j]) w"
    proof (rule next_curr.walk_until [where I = "called user e" and bad = "\<lambda>j. code (Job j) \<noteq> 0"
        and Q = "called user e" and r = r])
      fix v and sk j ks and tr :: "job_ptr list"
      assume v: "queue_ok r v" "called user e tr v" "pending_in r v = sk @ j # ks"
      let ?u = "set_curr (Some j) (skip_in r (sk @ [j]) v)"
      note c = checked_body(1,2) [OF v(2) r, where j = j and ks = "sk @ [j]"]
        checked_body(3) [OF v(2) r, where j = j and ks = "sk @ [j]" and code = code and msg = msg]
      { assume "\<not> code (Job j) \<noteq> 0"
        then obtain w where w: "?body j ?u = Some (Inr (), w)" "called user e (tr @ [j]) w" "get_q r w = get_q r ?u"
          using c by fastforce
        then show "\<exists>w. ?body j (set_curr (Some (last (sk @ [j]))) (skip_in r (sk @ [j]) v)) = Some (Inr (), w) \<and>
            queue_ok r w \<and> pending_in r w = ks \<and> called user e (tr @ [j]) w \<and> (\<forall>k \<in> set ks. enabled_in w k = enabled_in v k)"
          using adv [OF v(1,3) w(2,3)] en [OF v(2)] en [OF w(2)] by (rule_tac x = w in exI) simp }
      { assume "code (Job j) \<noteq> 0"
        then show "\<exists>w. ?body j (set_curr (Some (last (sk @ [j]))) (skip_in r (sk @ [j]) v)) =
            Some (Inl (mk_ExecutiveException (code (Job j)) (jd_name (ex_jobs e j)) 0 msg), w) \<and> called user e (tr @ [j]) w"
          using c by fastforce }
    qed (use ok start pend split bad okg in auto)
    moreover have "good @ [?j] = take (Suc (length good)) js" using lt pre take_Suc_conv_app_nth by metis
    ultimately show ?thesis using False by (simp add: run_queue_def)
  qed
qed

end
