(* ===== verification/PropsLoop.thy ===== *)
theory PropsLoop
  imports PropsTime SchedLoop MasterMain
begin

text \<open>
  The properties of the scheduler loops as a whole: the pass over the scheduled jobs, the end of a
  simulation, and what a failing job does to it.
\<close>

subsection \<open>One pass of the scheduler\<close>

text \<open>
  C1: one pass over the scheduled jobs returns; it calls every enabled job in front of the advance
  job that is due at the old time, the advance job, and every enabled job behind it that is due at
  the new time, each exactly once, in the order of the queue, and no other job. Time moves forward
  unless the termination time is reached, never past the end of the software frame, and never past
  a job: afterwards every job in front of the advance job is due now or later and every job behind
  it later, and each user job that ran has its next call time moved on by its cycle.
\<close>

theorem scheduled_pass_calls_due_jobs:
  fixes e :: "'w Executive"
  assumes "on_schedule e" and "ex_advance_sim_time_job e = Some a" and "trick_static (schedule_of e)"
    and "ex_time_tics e < ex_next_frame_check_tics e"
  shows "\<exists>w. run_scheduled (trick_sys_call env user) e = Some (Inr (), w) \<and>
    runs (next_now main_queue) (sched_body (trick_sys_call env user)) (map_q main_queue reset_curr_index e)
      (filter (due_in (ex_time_tics e) e) (before_job a (main_list e)) @
       a # filter (due_in (ex_time_tics w) e) (after_job a (main_list e))) w \<and>
    on_schedule w \<and> ex_time_tics w \<le> ex_next_frame_check_tics e \<and> ex_time_tics w \<le> ex_terminate_time e \<and>
    (if ex_time_tics e < ex_terminate_time e then ex_time_tics e < ex_time_tics w else ex_time_tics w = ex_time_tics e) \<and>
    (\<forall>k \<in> set (main_list e). \<not> jd_system_job_class (ex_jobs e k) \<longrightarrow>
       next_of w k = next_of (e\<lparr>ex_jobs := (ex_jobs e)(k :=
         if next_of e k = (if k \<in> set (before_job a (main_list e)) then ex_time_tics e else ex_time_tics w)
         then reschedule (ex_jobs e k) else ex_jobs e k)\<rparr>) k)"
proof -
  obtain js w where r: "run_scheduled (trick_sys_call env user) e = Some (Inr (), w)"
    "runs (next_now main_queue) (sched_body (trick_sys_call env user)) (map_q main_queue reset_curr_index e) js w"
    and d: "pass_done e a js w"
    using trick_pass [OF assms] by blast
  have t: "time_moved e w" "on_schedule w" using d by (simp_all add: pass_done_def)
  have "ex_time_tics e \<le> ex_terminate_time e" using assms(1) by (simp add: on_schedule_def)
  then show ?thesis using r d t by (auto simp: pass_done_def time_moved_def moved_def next_of_def)
qed

theorem scheduled_pass_calls_due_jobs_witness:
  "\<exists>w js. run_scheduled (trick_sys_call sim_env sim_user) sim_start = Some (Inr (), w) \<and> on_schedule w \<and>
     runs (next_now main_queue) (sched_body (trick_sys_call sim_env sim_user))
       (map_q main_queue reset_curr_index sim_start) (1 # 2 # 3 # js) w \<and> 0 < ex_time_tics w \<and> next_of w 1 = 250000"
proof -
  have h: "ex_advance_sim_time_job sim_start = Some 3" "ex_time_tics sim_start < ex_next_frame_check_tics sim_start"
    by simp_all
  obtain w where w: "run_scheduled (trick_sys_call sim_env sim_user) sim_start = Some (Inr (), w)" "on_schedule w"
    and r: "runs (next_now main_queue) (sched_body (trick_sys_call sim_env sim_user)) (map_q main_queue reset_curr_index sim_start)
      (filter (due_in (ex_time_tics sim_start) sim_start) (before_job 3 (main_list sim_start)) @
       3 # filter (due_in (ex_time_tics w) sim_start) (after_job 3 (main_list sim_start))) w"
    and t: "if ex_time_tics sim_start < ex_terminate_time sim_start then ex_time_tics sim_start < ex_time_tics w
      else ex_time_tics w = ex_time_tics sim_start"
    and n: "\<forall>k \<in> set (main_list sim_start). \<not> jd_system_job_class (ex_jobs sim_start k) \<longrightarrow>
       next_of w k = next_of (sim_start\<lparr>ex_jobs := (ex_jobs sim_start)(k :=
         if next_of sim_start k = (if k \<in> set (before_job 3 (main_list sim_start)) then ex_time_tics sim_start else ex_time_tics w)
         then reschedule (ex_jobs sim_start k) else ex_jobs sim_start k)\<rparr>) k"
    using scheduled_pass_calls_due_jobs [where user = sim_user and env = sim_env, OF sim_start_on_schedule h(1) sim_start_static h(2)]
    by blast
  have b: "before_job 3 (main_list sim_start) = [1, 2]" by (simp add: before_job_def)
  have "filter (due_in (ex_time_tics sim_start) sim_start) (before_job 3 (main_list sim_start)) = [1, 2]"
    unfolding b using sim_heap_simps(1) [of 1] sim_heap_simps(1) [of 2]
    by (simp add: due_in_def due_at_def sim_heap_simps(3) next_of_def)
  moreover have "next_of w 1 = 250000"
  proof -
    have "1 \<in> set (main_list sim_start)" "\<not> jd_system_job_class (ex_jobs sim_start 1)" "next_of sim_start 1 = 0"
      by (simp_all add: sim_heap_simps)
    then show ?thesis using n b
      by (simp add: next_of_def reschedule_def sim_heap_def sim_job_def new_JobData_default_def TRICK_MAX_LONG_LONG_def)
  qed
  moreover have "0 < ex_time_tics w" using t by (simp add: TRICK_MAX_LONG_LONG_def split: if_splits)
  ultimately show ?thesis using w r by auto
qed

subsection \<open>The end of a simulation\<close>

text \<open>
  C2: a single threaded simulation ends, under these conditions: every scheduled job has a positive
  cycle and none lies in the past, the input processor queue of the loop is empty, no job is
  instrumented, the only jobs of the executive itself in the scheduled and the frame queues are the
  advance job and those that turn freeze requests into commands, no freeze is pending or requested,
  and the simulation's own jobs return 0 and change nothing but the simulation's own data. Then the
  loop returns 0 after finitely many passes, at the termination time and not before, with the
  command to exit set and "Reached termination time" recorded as the reason.
\<close>

theorem simulation_reaches_termination:
  fixes e :: "'w Executive"
  assumes "quiet e" and "ex_time_tics e < ex_next_frame_check_tics e" and "\<not> ex_freeze_command e"
  shows "\<exists>w. exec_loop (trick_sys_call env user) env e = Some (Inr 0, w) \<and>
    ex_time_tics w = ex_terminate_time e \<and> ex_exec_command w = ExitCmd \<and> ex_except_return w = 0 \<and>
    ex_except_message w = ''Reached termination time''"
proof -
  let ?e = "e\<lparr>ex_mode := Run\<rparr>"
  have q: "quiet ?e" by (rule quiet_mode [OF assms(1)])
  then obtain w where w: "loop_single_thread (trick_sys_call env user) ?e =
      Some (Inl (mk_ExecutiveException 0 ''Executive_loop_single_thread.cpp'' 98 ''Reached termination time''), w)"
    "ex_time_tics w = ex_terminate_time e" "ex_exec_command w = ExitCmd"
    using quiet_loop [of ?e env user] assms(2) by auto
  have "length (ex_threads e) = 1" using quietD(6) [OF assms(1)] by simp
  then have "exec_loop (trick_sys_call env user) env e =
      Some (Inr 0, record_exception 0 (''Executive_loop_single_thread.cpp'' @ '':'' @ show_int 98) ''Reached termination time'' w)"
    using w(1) assms(3) by (simp add: exec_loop_def catch_exec_def mk_ExecutiveException_def Let_def)
  then show ?thesis using w(2,3) by (simp add: record_exception_def)
qed

definition sim_frames :: "nat list Executive" where
  "sim_frames = sim_start
     \<lparr>ex_jobs := sim_heap(5 := (sim_job ''trick_sys.sched.sched_freeze_to_exec_command'' ''end_of_frame'' 1000000 0),
                         6 := (sim_job ''trick_sys.sched.async_freeze_to_exec_command'' ''end_of_frame'' 1000000 0)),
      ex_queues := (ex_queues sim_start)(Q_end_of_frame := new_ScheduledJobQueue\<lparr>q_list := [5, 6]\<rparr>),
      ex_terminate_time := 2600000\<rparr>"

lemma sim_frames_quiet: "quiet sim_frames"
proof -
  have j: "ex_jobs sim_frames k = sim_heap k" if "k \<in> {1, 2, 3, 4}" for k
    using that by (auto simp: sim_frames_def)
  have l: "main_list sim_frames = [1, 2, 3, 4]" "main_time sim_frames = TRICK_MAX_LONG_LONG"
    "length (ex_threads sim_frames) = 1" "ex_advance_sim_time_job sim_frames = Some 3" "ex_freeze_job sim_frames = Some 4"
    "ex_time_tics sim_frames = 0" "ex_software_frame_tics sim_frames = 1000000" "ex_terminate_time sim_frames = 2600000"
    "ex_freeze_on_frame_boundary sim_frames = False" "ex_freeze_times sim_frames = []"
    by (simp_all add: sim_frames_def main_list_def main_time_def sim_queue_def)
  have m: "ex_async_freeze_command sim_frames = False" "ex_exec_command sim_frames = NoCmd"
    "frame_lists sim_frames = ([], [], [5, 6])"
    by (simp_all add: sim_frames_def sim_start_def new_Executive_def new_ScheduledJobQueue_def)
  have "on_schedule sim_frames"
    unfolding on_schedule_def l using sim_heap_simps
    by (simp add: j before_job_def after_job_def idle_def TRICK_MAX_LONG_LONG_def next_of_def l)
  moreover have "trick_static (schedule_of sim_frames)"
    unfolding schedule_of_def l m
    by (simp add: trick_static_def j trick_static_job_def job_static_def sim_heap_def sim_job_def
      new_JobData_default_def sys_name_def)
  moreover have "frame_static (schedule_of sim_frames)"
    unfolding schedule_of_def l m
    by (simp add: frame_static_def frame_static_job_def job_static_def sim_frames_def sim_job_def
      new_JobData_default_def sys_name_def)
  ultimately show ?thesis using l m by (simp add: quiet_def)
qed

theorem simulation_reaches_termination_witness:
  "\<exists>w. exec_loop (trick_sys_call sim_env sim_user) sim_env sim_frames = Some (Inr 0, w) \<and> ex_time_tics w = 2600000"
proof -
  have "ex_time_tics sim_frames < ex_next_frame_check_tics sim_frames" "\<not> ex_freeze_command sim_frames"
    "ex_terminate_time sim_frames = 2600000"
    by (simp_all add: sim_frames_def sim_start_def new_Executive_def)
  then show ?thesis
    using simulation_reaches_termination [OF sim_frames_quiet, of sim_env sim_user] by auto
qed

subsection \<open>A failing job\<close>

text \<open>
  C8: a queue of jobs is called up to the first enabled job that returns a code other than 0. That
  job's code, its name and the message of the queue become an \<open>ExecutiveException\<close>; the jobs behind
  it are not called. When every job returns 0, all enabled jobs have been called once, in order.
\<close>

theorem run_queue_stops_at_failure:
  fixes e :: "'w Executive" and code :: "callee \<Rightarrow> int"
  assumes "own_queue r" and "distinct (q_list (get_q r e))"
  defines "js \<equiv> filter (\<lambda>j. \<not> jd_disabled (ex_jobs e j)) (q_list (get_q r e))"
  defines "n \<equiv> length (takeWhile (\<lambda>j. code (Job j) = 0) js)"
  shows "\<exists>w. run_queue (code_call code user) r msg e =
      Some (if n = length js then Inr ()
            else Inl (mk_ExecutiveException (code (Job (js ! n))) (jd_name (ex_jobs e (js ! n))) 0 msg), w) \<and>
    ex_world w = fold user (concat (map (job_calls (ex_jobs e)) (take (Suc n) js))) (ex_world e)"
proof -
  have js: "js = enabled_jobs r e" by (simp add: js_def enabled_jobs_def enabled_in_def [abs_def])
  have n: "length (passed code js) = n" by (simp add: n_def passed_def)
  have "passed code js = js \<longleftrightarrow> n = length js"
    unfolding n [symmetric] passed_def by (metis takeWhile_eq_take take_all order_refl)
  then show ?thesis using run_queue_calls [OF assms(1,2), of code user msg]
    unfolding js [symmetric] n by (auto simp: called_def calls_of_def)
qed

definition sim_fail :: "callee \<Rightarrow> int" where
  "sim_fail c = (if c = Job 5 then 7 else 0)"

theorem run_queue_stops_at_failure_witness:
  "\<exists>w. run_queue (code_call sim_fail sim_user) Q_end_of_frame ''end_of_frame job did not return 0'' sim_frames =
     Some (Inl (mk_ExecutiveException 7 ''trick_sys.sched.sched_freeze_to_exec_command'' 0 ''end_of_frame job did not return 0''), w)"
proof -
  have l: "get_q Q_end_of_frame sim_frames = new_ScheduledJobQueue\<lparr>q_list := [5, 6]\<rparr>"
    "\<not> jd_disabled (ex_jobs sim_frames 5)" "\<not> jd_disabled (ex_jobs sim_frames 6)"
    "jd_name (ex_jobs sim_frames 5) = ''trick_sys.sched.sched_freeze_to_exec_command''"
    by (simp_all add: sim_frames_def sim_job_def new_JobData_default_def)
  show ?thesis
    using run_queue_stops_at_failure [where r = Q_end_of_frame and e = sim_frames and code = sim_fail and user = sim_user
        and msg = "''end_of_frame job did not return 0''"] l
    by (simp add: own_queue_def sim_fail_def) blast
qed

text \<open>
  C9: a default data job that fails ends the program: no job behind it, no input processor,
  initialization, scheduled or shutdown job runs, its code is the exit code of the program, and its
  name and the message of the queue are what the final report shows.
\<close>

theorem failing_default_data_job_is_exit_code:
  fixes e :: "'w Executive" and code :: "callee \<Rightarrow> int"
  defines "js \<equiv> filter (\<lambda>j. \<not> jd_disabled (ex_jobs e j)) (q_list (get_q Q_default_data e))"
  defines "n \<equiv> length (takeWhile (\<lambda>j. code (Job j) = 0) js)"
  assumes "distinct (q_list (get_q Q_default_data e))" and "n < length js" and "process_sim_args argv \<noteq> None"
    and "\<not> ex_initialization_complete e"
    and "\<And>v. ex_except_return (close v) = ex_except_return v"
    and "\<And>v. ex_initialization_complete (close v) = ex_initialization_complete v"
    and "\<And>v. ex_except_return (stop v) = ex_except_return v"
  shows "\<exists>v. master (code_call code user) env close stop self argv e = Some (Inr (code (Job (js ! n))), stop (close v)) \<and>
    ex_world v = fold user (concat (map (job_calls (ex_jobs e)) (take (Suc n) js))) (ex_world e) \<and>
    ex_except_file v = jd_name (ex_jobs e (js ! n)) @ '':0'' \<and>
    ex_except_message v = ''default_data job did not return 0''"
proof -
  let ?cf = "code_call code user" and ?msg = "''default_data job did not return 0''"
  let ?e = "e\<lparr>ex_mode := Initialization, ex_except_file := ''in default_data queue''\<rparr>"
  have r: "own_queue Q_default_data" by (simp add: own_queue_def)
  have "enabled_in ?e = enabled_in e" by (simp add: enabled_in_def fun_eq_iff)
  then have js: "enabled_jobs Q_default_data ?e = js"
    by (simp add: js_def enabled_jobs_def enabled_in_def [abs_def])
  have n: "length (passed code js) = n" by (simp add: n_def passed_def)
  have ne: "passed code js \<noteq> js" using assms(4) n by auto
  have z: "show_int 0 = ''0''" by code_simp
  obtain w where w: "run_queue ?cf Q_default_data ?msg ?e =
      Some (Inl (mk_ExecutiveException (code (Job (js ! n))) (jd_name (ex_jobs e (js ! n))) 0 ?msg), w)"
    and c: "called user ?e (take (Suc n) js) w"
    using run_queue_calls [OF r, of ?e code user ?msg] assms(3) ne unfolding js n by auto
  define v where "v = (record_exception (code (Job (js ! n))) (jd_name (ex_jobs e (js ! n)) @ '':0'') ?msg w)\<lparr>ex_mode := ExitMode\<rparr>"
  have "init ?cf self argv e =
      Some (Inr (-1), record_exception (code (Job (js ! n))) (jd_name (ex_jobs e (js ! n)) @ '':0'') ?msg w)"
    using assms(5) w
    by (auto simp: init_def init_body_def call_default_data_def catch_exec_def mk_ExecutiveException_def z
        split: option.split)
  moreover have "ex_mode w = Initialization" "\<not> ex_initialization_complete w"
    using same_program_fields(2,3) [of ?e w] c assms(6) by (simp_all add: called_def)
  then have "shutdown ?cf env close stop
      (record_exception (code (Job (js ! n))) (jd_name (ex_jobs e (js ! n)) @ '':0'') ?msg w) =
      Some (Inr (code (Job (js ! n))), stop (close v))"
    using assms(7-9) by (simp add: shutdown_def record_exception_def v_def catch_exec_def Let_def)
  ultimately have "master ?cf env close stop self argv e = Some (Inr (code (Job (js ! n))), stop (close v))"
    by (simp add: master_def)
  moreover have "ex_world v = fold user (concat (map (job_calls (ex_jobs e)) (take (Suc n) js))) (ex_world e)"
    using c by (simp add: v_def record_exception_def called_def calls_of_def)
  ultimately show ?thesis by (auto simp: v_def record_exception_def)
qed

definition sim_default :: "nat list Executive" where
  "sim_default = sim_start\<lparr>ex_queues := (ex_queues sim_start)(Q_default_data := new_ScheduledJobQueue\<lparr>q_list := [7, 5, 6]\<rparr>)\<rparr>"

theorem failing_default_data_job_is_exit_code_witness:
  "\<exists>w. master (code_call sim_fail sim_user) sim_env id id None [''S_main''] sim_default = Some (Inr 7, w) \<and>
     ex_world w = [7, 5]"
proof -
  have l: "get_q Q_default_data sim_default = new_ScheduledJobQueue\<lparr>q_list := [7, 5, 6]\<rparr>"
    "ex_jobs sim_default = sim_heap" "\<not> ex_initialization_complete sim_default" "ex_world sim_default = []"
    by (simp_all add: sim_default_def sim_start_def new_Executive_def)
  have j: "job_calls sim_heap k = [Job k]" for k
    by (simp add: job_calls_def sim_heap_def sim_job_def new_JobData_default_def)
  obtain v where v: "master (code_call sim_fail sim_user) sim_env id id None [''S_main''] sim_default =
      Some (Inr (sim_fail (Job 5)), v)" "ex_world v = fold sim_user [Job 7, Job 5] []"
    using failing_default_data_job_is_exit_code [where e = sim_default and code = sim_fail and user = sim_user
        and argv = "[''S_main'']" and close = id and stop = id and env = sim_env and self = None] l
    by (auto simp: sim_heap_simps(3) sim_fail_def process_sim_args_def j)
  then show ?thesis by (simp add: sim_fail_def sim_user_def)
qed

text \<open>
  C39: an \<open>ExecutiveException\<close> never leaves the program: \<open>init\<close>, \<open>loop\<close> and \<open>shutdown\<close> each catch
  every exception of the jobs they call, whatever these do, and so does the main program.
\<close>

theorem exceptions_are_caught:
  fixes e :: "'w Executive"
  shows "init cf self argv e \<noteq> Some (Inl (ExecutiveException ret file_name msg), w) \<and>
    exec_loop cf env e \<noteq> Some (Inl (ExecutiveException ret file_name msg), w) \<and>
    shutdown cf env close stop e \<noteq> Some (Inl (ExecutiveException ret file_name msg), w) \<and>
    master cf env close stop self argv e \<noteq> Some (Inl (ExecutiveException ret file_name msg), w)"
proof -
  have i: "no_throw (init cf self argv v)" for v
    unfolding init_def by (rule no_throw_catch) simp
  have l: "no_throw (exec_loop cf env v)" for v
    unfolding exec_loop_def Let_def by (auto intro!: no_throw_catch)
  have s: "no_throw (shutdown cf env close stop v)" for v
    unfolding shutdown_def Let_def
    by (auto intro!: no_throw_andthen no_throw_catch no_throw_for_threads no_throw_spin)
  have "no_throw (master cf env close stop self argv e)"
    unfolding master_def by (auto intro!: no_throw_andthen i l s)
  then show ?thesis using i l s by (auto simp: no_throw_def)
qed

end
