(* ===== verification/ThreadTrigger.thy ===== *)
theory ThreadTrigger
  imports Trick_Prelude
begin

text \<open>
  The triggers by which the main thread starts a frame of a child thread
  (sim\_services/Executive/ThreadTrigger.cpp), and the protocol around them: the child's loop in
  \<open>Threads::thread_body\<close> (Threads\_child.cpp) and the main thread's test of \<open>child_complete\<close>,
  its reset and \<open>fire\<close> (Executive\_loop\_multi\_thread.cpp).

  The two threads are interleaved at the accesses to what they share: \<open>tstep\<close> is a step of
  either. A loop that polls a flag is a step that is not enabled until the flag is set; a
  call that blocks in the operating system likewise. The behaviour of \<open>pthread\<close> mutexes and
  condition variables, \<open>eventfd\<close> and \<open>futex\<close> is that of their manual pages: a condition variable
  and a futex may also return without a wake-up. The read of an event file descriptor is not
  interrupted, because \<open>ThreadBase\<close> blocks every signal in a child thread.
\<close>

subsection \<open>The four triggers\<close>

text \<open>
  \<open>wait\<close> is two steps: going to sleep and waking up (\<open>None\<close>: still asleep). \<open>fire\<close> of
  the mutex trigger is one step, since all it does is inside the critical section; it blocks
  (\<open>None\<close>) while the child holds the mutex, which the child does from \<open>init\<close> on except in
  \<open>pthread_cond_wait\<close>. A signal that finds no waiter is lost.
\<close>

record mutex_trigger =
  mu_held :: bool
  mu_waiting :: bool
  mu_signalled :: bool

definition mutex_new :: mutex_trigger where
  "mutex_new = \<lparr>mu_held = False, mu_waiting = False, mu_signalled = False\<rparr>"

definition mutex_init :: "mutex_trigger \<Rightarrow> mutex_trigger" where
  "mutex_init s = s\<lparr>mu_held := True\<rparr>"

definition mutex_fire :: "mutex_trigger \<Rightarrow> mutex_trigger option" where
  "mutex_fire s = (if mu_held s then None else Some (s\<lparr>mu_signalled := mu_waiting s\<rparr>))"

definition mutex_sleep :: "mutex_trigger \<Rightarrow> mutex_trigger" where
  "mutex_sleep s = s\<lparr>mu_held := False, mu_waiting := True, mu_signalled := False\<rparr>"

text \<open>
  A signal ends the wait; POSIX allows \<open>pthread_cond_wait\<close> to return without one as well. In both
  cases it returns with the mutex locked.
\<close>

definition mutex_return :: "mutex_trigger \<Rightarrow> mutex_trigger" where
  "mutex_return s = s\<lparr>mu_held := True, mu_waiting := False, mu_signalled := False\<rparr>"

definition mutex_wake :: "mutex_trigger \<Rightarrow> mutex_trigger option" where
  "mutex_wake s = (if mu_signalled s \<and> \<not> mu_held s then Some (mutex_return s) else None)"

definition mutex_spurious :: "mutex_trigger \<Rightarrow> mutex_trigger option" where
  "mutex_spurious s = (if mu_waiting s \<and> \<not> mu_signalled s \<and> \<not> mu_held s then Some (mutex_return s) else None)"

text \<open>
  The flag trigger is its \<open>frame_trigger\<close>; \<open>init\<close> is empty. \<open>wait\<close> polls the flag until it is
  set and then clears it, two accesses between which the main thread may run.
\<close>

definition flag_fire :: "bool \<Rightarrow> bool option" where
  "flag_fire frame_trigger = Some True"

definition flag_wake :: "bool \<Rightarrow> bool option" where
  "flag_wake frame_trigger = (if frame_trigger then Some frame_trigger else None)"

definition flag_take :: "bool \<Rightarrow> bool" where
  "flag_take frame_trigger = False"

text \<open>The counter of the \<open>eventfd\<close>: \<open>write\<close> adds 1, \<open>read\<close> blocks at 0 and resets it.\<close>

definition eventfd_fire :: "nat \<Rightarrow> nat option" where
  "eventfd_fire efd = (if efd + 1 < 2 ^ 64 - 1 then Some (efd + 1) else None)"

definition eventfd_wake :: "nat \<Rightarrow> nat option" where
  "eventfd_wake efd = (if 0 < efd then Some 0 else None)"

text \<open>
  \<open>futex_addr\<close> is only ever 0. \<open>FUTEX_WAIT\<close> sleeps when the word equals the given 0;
  \<open>FUTEX_WAKE\<close> wakes a thread that sleeps and changes nothing otherwise.
\<close>

record futex_trigger =
  fx_addr :: int
  fx_waiting :: bool
  fx_woken :: bool

definition futex_new :: futex_trigger where
  "futex_new = \<lparr>fx_addr = 0, fx_waiting = False, fx_woken = False\<rparr>"

definition futex_fire :: "futex_trigger \<Rightarrow> futex_trigger option" where
  "futex_fire s = Some (if fx_waiting s then s\<lparr>fx_woken := True\<rparr> else s)"

definition futex_sleep :: "futex_trigger \<Rightarrow> futex_trigger" where
  "futex_sleep s =
     (let s1 = s\<lparr>fx_addr := 0\<rparr>
      in if fx_addr s1 = 0 then s1\<lparr>fx_waiting := True, fx_woken := False\<rparr> else s1\<lparr>fx_woken := True\<rparr>)"

definition futex_wake :: "futex_trigger \<Rightarrow> futex_trigger option" where
  "futex_wake s = (if fx_woken s then Some (s\<lparr>fx_waiting := False, fx_woken := False\<rparr>) else None)"

definition futex_spurious :: "futex_trigger \<Rightarrow> futex_trigger option" where
  "futex_spurious s =
     (if fx_waiting s \<and> \<not> fx_woken s then Some (s\<lparr>fx_waiting := False\<rparr>) else None)"

subsection \<open>The protocol\<close>

text \<open>
  The child is before \<open>init\<close>, before its first report, before \<open>wait\<close>, asleep in it, awake but not
  yet out of it, or in its frame. The main thread has seen \<open>child_complete\<close> set (in
  \<open>scheduled_thread_sync\<close>, \<open>thread_sync\<close> or \<open>isThreadReadyToRun\<close>, by the type of the thread), has
  cleared it, or waits for it.
\<close>

datatype child_pc = Starting | Ready | Idle | Sleeping | Taking | Working

datatype master_pc = Watching | Clearing | Firing

record 's protocol =
  pr_trigger :: 's
  pr_child :: child_pc
  pr_child_complete :: bool
  pr_master :: master_pc
  pr_fired :: nat
  pr_spurious :: nat
  pr_frames :: nat

text \<open>
  The operations of a trigger: \<open>init\<close>, \<open>fire\<close>, and the parts of \<open>wait\<close>: going to sleep, waking
  because of a fire or without one, and what it does before it returns.
\<close>

record 's trigger_ops =
  op_init :: "'s \<Rightarrow> 's"
  op_fire :: "'s \<Rightarrow> 's option"
  op_sleep :: "'s \<Rightarrow> 's"
  op_wake :: "'s \<Rightarrow> 's option"
  op_spurious :: "'s \<Rightarrow> 's option"
  op_take :: "'s \<Rightarrow> 's"

definition mutex_ops :: "mutex_trigger trigger_ops" where
  "mutex_ops = \<lparr>op_init = mutex_init, op_fire = mutex_fire, op_sleep = mutex_sleep, op_wake = mutex_wake,
     op_spurious = mutex_spurious, op_take = (\<lambda>s. s)\<rparr>"

definition flag_ops :: "bool trigger_ops" where
  "flag_ops = \<lparr>op_init = (\<lambda>s. s), op_fire = flag_fire, op_sleep = (\<lambda>s. s), op_wake = flag_wake,
     op_spurious = (\<lambda>s. None), op_take = flag_take\<rparr>"

definition eventfd_ops :: "nat trigger_ops" where
  "eventfd_ops = \<lparr>op_init = (\<lambda>s. s), op_fire = eventfd_fire, op_sleep = (\<lambda>s. s), op_wake = eventfd_wake,
     op_spurious = (\<lambda>s. None), op_take = (\<lambda>s. s)\<rparr>"

definition futex_ops :: "futex_trigger trigger_ops" where
  "futex_ops = \<lparr>op_init = (\<lambda>s. s), op_fire = futex_fire, op_sleep = futex_sleep, op_wake = futex_wake,
     op_spurious = futex_spurious, op_take = (\<lambda>s. s)\<rparr>"

definition protocol_start :: "'s \<Rightarrow> 's protocol" where
  "protocol_start s =
     \<lparr>pr_trigger = s, pr_child = Starting, pr_child_complete = False, pr_master = Watching,
      pr_fired = 0, pr_spurious = 0, pr_frames = 0\<rparr>"

inductive tstep :: "'s trigger_ops \<Rightarrow> 's protocol \<Rightarrow> 's protocol \<Rightarrow> bool" for ops where
  child_init:
    "pr_child p = Starting \<Longrightarrow> tstep ops p (p\<lparr>pr_trigger := op_init ops (pr_trigger p), pr_child := Ready\<rparr>)"
| child_ready:
    "pr_child p = Ready \<Longrightarrow> tstep ops p (p\<lparr>pr_child := Idle, pr_child_complete := True\<rparr>)"
| child_sleep:
    "pr_child p = Idle \<Longrightarrow> tstep ops p (p\<lparr>pr_trigger := op_sleep ops (pr_trigger p), pr_child := Sleeping\<rparr>)"
| child_wake:
    "pr_child p = Sleeping \<Longrightarrow> op_wake ops (pr_trigger p) = Some s \<Longrightarrow>
     tstep ops p (p\<lparr>pr_trigger := s, pr_child := Taking\<rparr>)"
| child_spurious:
    "pr_child p = Sleeping \<Longrightarrow> op_spurious ops (pr_trigger p) = Some s \<Longrightarrow>
     tstep ops p (p\<lparr>pr_trigger := s, pr_child := Taking, pr_spurious := Suc (pr_spurious p)\<rparr>)"
| child_take:
    "pr_child p = Taking \<Longrightarrow> tstep ops p (p\<lparr>pr_trigger := op_take ops (pr_trigger p), pr_child := Working\<rparr>)"
| child_done:
    "pr_child p = Working \<Longrightarrow>
     tstep ops p (p\<lparr>pr_child := Idle, pr_child_complete := True, pr_frames := Suc (pr_frames p)\<rparr>)"
| master_go:
    "pr_master p = Watching \<Longrightarrow> pr_child_complete p \<Longrightarrow> tstep ops p (p\<lparr>pr_master := Clearing\<rparr>)"
| master_clear:
    "pr_master p = Clearing \<Longrightarrow> tstep ops p (p\<lparr>pr_child_complete := False, pr_master := Firing\<rparr>)"
| master_fire:
    "pr_master p = Firing \<Longrightarrow> op_fire ops (pr_trigger p) = Some s \<Longrightarrow>
     tstep ops p (p\<lparr>pr_trigger := s, pr_master := Watching, pr_fired := Suc (pr_fired p)\<rparr>)"

inductive treach :: "'s trigger_ops \<Rightarrow> 's \<Rightarrow> 's protocol \<Rightarrow> bool" for ops s0 where
  start: "treach ops s0 (protocol_start s0)"
| step: "treach ops s0 p \<Longrightarrow> tstep ops p q \<Longrightarrow> treach ops s0 q"

inductive_simps tstep_iff: "tstep ops p q"

lemma spurious_mono: "tstep ops p q \<Longrightarrow> pr_spurious p \<le> pr_spurious q"
  by (auto simp: tstep_iff)

text \<open>A bound on the steps until the child has reported; the report makes it 0.\<close>

definition work_left :: "'s protocol \<Rightarrow> nat" where
  "work_left p =
     (if pr_child_complete p then 0
      else (case pr_child p of Starting \<Rightarrow> 10 | Ready \<Rightarrow> 9 | Idle \<Rightarrow> 4 | Sleeping \<Rightarrow> 3 | Taking \<Rightarrow> 2 | Working \<Rightarrow> 1) +
        (case pr_master p of Watching \<Rightarrow> 0 | Clearing \<Rightarrow> 2 | Firing \<Rightarrow> 1))"

lemma step_work_left: "tstep ops p q \<Longrightarrow> \<not> pr_child_complete p \<Longrightarrow> work_left q < work_left p"
  by (erule tstep.cases) (auto simp: work_left_def)

subsection \<open>What a trigger must do\<close>

text \<open>
  \<open>armed\<close> says that a fire has not yet been consumed, \<open>inv c s\<close> relates the trigger's state to
  what the child is doing. A fire while the child is not asleep must either block or be
  remembered; that is what the futex trigger does not do.
\<close>

locale trigger =
  fixes ops :: "'s trigger_ops" and s0 :: 's
    and armed :: "'s \<Rightarrow> bool" and inv :: "child_pc \<Rightarrow> 's \<Rightarrow> bool"
  assumes inv_start: "inv Starting s0"
    and init: "inv Starting s \<Longrightarrow> inv Ready (op_init ops s)"
    and ready: "inv Ready s \<Longrightarrow> inv Idle s \<and> \<not> armed s"
    and fire: "inv c s \<Longrightarrow> c = Idle \<or> c = Sleeping \<Longrightarrow> \<not> armed s \<Longrightarrow> op_fire ops s = Some s' \<Longrightarrow> inv c s' \<and> armed s'"
    and fire_asleep: "inv Sleeping s \<Longrightarrow> \<not> armed s \<Longrightarrow> op_fire ops s \<noteq> None"
    and sleep: "inv Idle s \<Longrightarrow> inv Sleeping (op_sleep ops s) \<and> armed (op_sleep ops s) = armed s"
    and wake: "inv Sleeping s \<Longrightarrow> op_wake ops s = Some s' \<Longrightarrow> armed s \<and> inv Taking s'"
    and wake_armed: "inv Sleeping s \<Longrightarrow> armed s \<Longrightarrow> op_wake ops s \<noteq> None"
    and take: "inv Taking s \<Longrightarrow> inv Working (op_take ops s)"
    and work: "inv Working s \<Longrightarrow> inv Idle s \<and> \<not> armed s"
begin

text \<open>
  The invariant, as long as no wait returned without a fire: at most one of the tokens
  \<open>child_complete\<close>, the main thread between its reset and its fire, an armed trigger and a child
  in its frame is present, and once the child has reported for the first time exactly one is.
\<close>

definition busy :: "'s protocol \<Rightarrow> bool" where
  "busy p \<longleftrightarrow> armed (pr_trigger p) \<or> pr_child p = Taking \<or> pr_child p = Working"

definition good :: "'s protocol \<Rightarrow> bool" where
  "good p \<longleftrightarrow> inv (pr_child p) (pr_trigger p) \<and>
     (if pr_child p = Starting \<or> pr_child p = Ready
      then \<not> pr_child_complete p \<and> pr_master p = Watching \<and> pr_fired p = 0 \<and> pr_frames p = 0
      else pr_fired p = pr_frames p + (if busy p then 1 else 0) \<and>
        (case pr_master p of
           Watching \<Rightarrow> pr_child_complete p \<noteq> busy p
         | Clearing \<Rightarrow> pr_child_complete p \<and> \<not> busy p
         | Firing \<Rightarrow> \<not> pr_child_complete p \<and> \<not> busy p))"

lemma good_start: "good (protocol_start s0)"
  by (simp add: good_def protocol_start_def inv_start)

lemma good_step:
  assumes "good p" and "tstep ops p q" and "pr_spurious q = pr_spurious p"
  shows "good q"
  using assms(2)
proof (cases rule: tstep.cases)
  case child_init
  then show ?thesis using assms(1) init [of "pr_trigger p"] by (auto simp: good_def split: if_splits)
next
  case child_ready
  then show ?thesis using assms(1) ready [of "pr_trigger p"] by (auto simp: good_def busy_def split: if_splits)
next
  case child_sleep
  then show ?thesis using assms(1) sleep [of "pr_trigger p"]
    by (auto simp: good_def busy_def split: if_splits master_pc.splits)
next
  case (child_wake s)
  then show ?thesis using assms(1) wake [of "pr_trigger p" s]
    by (auto simp: good_def busy_def split: if_splits master_pc.splits)
next
  case (child_spurious s)
  then show ?thesis using assms(3) by simp
next
  case child_take
  then show ?thesis using assms(1) take [of "pr_trigger p"]
    by (auto simp: good_def busy_def split: if_splits master_pc.splits)
next
  case child_done
  then show ?thesis using assms(1) work [of "pr_trigger p"]
    by (auto simp: good_def busy_def split: if_splits master_pc.splits)
next
  case master_go
  then show ?thesis using assms(1) by (auto simp: good_def busy_def split: if_splits)
next
  case master_clear
  then show ?thesis using assms(1) by (auto simp: good_def busy_def split: if_splits)
next
  case (master_fire s)
  then have "pr_child p = Idle \<or> pr_child p = Sleeping"
    using assms(1) by (cases "pr_child p") (auto simp: good_def busy_def split: if_splits)
  then show ?thesis using master_fire assms(1) fire [of "pr_child p" "pr_trigger p" s]
    by (auto simp: good_def busy_def split: if_splits)
qed

lemma reach_good: "treach ops s0 p \<Longrightarrow> pr_spurious p = 0 \<Longrightarrow> good p"
proof (induction rule: treach.induct)
  case start
  show ?case by (rule good_start)
next
  case (step p q)
  then have "pr_spurious p = 0" using spurious_mono [OF step(2)] by simp
  then show ?case using step good_step by simp
qed

text \<open>Every fire starts exactly one frame: when the child reports, all of them have been run.\<close>

lemma frames_follow_fires:
  assumes "treach ops s0 p" and "pr_spurious p = 0"
  shows "pr_frames p \<le> pr_fired p \<and> pr_fired p \<le> pr_frames p + 1 \<and> (pr_child_complete p \<longrightarrow> pr_frames p = pr_fired p)"
  using reach_good [OF assms] by (auto simp: good_def split: if_splits master_pc.splits)

text \<open>While the child sleeps and has not been told to run, the trigger lets the main thread fire.\<close>

lemma asleep_step:
  assumes "pr_child p = Sleeping" and "inv Sleeping (pr_trigger p)"
    and "\<not> armed (pr_trigger p) \<Longrightarrow> pr_master p = Watching \<Longrightarrow> pr_child_complete p"
  shows "\<exists>q. tstep ops p q \<and> pr_spurious q = pr_spurious p"
proof (cases "armed (pr_trigger p)")
  case True
  then obtain s where "op_wake ops (pr_trigger p) = Some s" using wake_armed assms(2) by auto
  then have "tstep ops p (p\<lparr>pr_trigger := s, pr_child := Taking\<rparr>)" using assms(1) by (rule tstep.child_wake [rotated])
  then show ?thesis by force
next
  case False
  show ?thesis
  proof (cases "pr_master p")
    case Watching
    then have "tstep ops p (p\<lparr>pr_master := Clearing\<rparr>)" using assms(3) False by (intro tstep.master_go) auto
    then show ?thesis by force
  next
    case Clearing
    then have "tstep ops p (p\<lparr>pr_child_complete := False, pr_master := Firing\<rparr>)" by (rule tstep.master_clear)
    then show ?thesis by force
  next
    case Firing
    obtain s where "op_fire ops (pr_trigger p) = Some s" using fire_asleep [OF assms(2) False] by auto
    with Firing have "tstep ops p (p\<lparr>pr_trigger := s, pr_master := Watching, pr_fired := Suc (pr_fired p)\<rparr>)"
      by (rule tstep.master_fire)
    then show ?thesis by force
  qed
qed

lemma awake_step:
  assumes "pr_child p \<noteq> Sleeping"
  shows "\<exists>q. tstep ops p q \<and> pr_spurious q = pr_spurious p"
proof (cases "pr_child p")
  case Starting
  from tstep.child_init [OF this] show ?thesis by force
next
  case Ready
  from tstep.child_ready [OF this] show ?thesis by force
next
  case Idle
  from tstep.child_sleep [OF this] show ?thesis by force
next
  case Taking
  from tstep.child_take [OF this] show ?thesis by force
next
  case Working
  from tstep.child_done [OF this] show ?thesis by force
qed (use assms in simp)

lemma never_stuck:
  assumes "treach ops s0 p" and "pr_spurious p = 0"
  shows "\<exists>q. tstep ops p q \<and> pr_spurious q = pr_spurious p"
proof (cases "pr_child p = Sleeping")
  case True
  have "good p" using assms by (rule reach_good)
  then show ?thesis using True by (intro asleep_step) (auto simp: good_def busy_def split: if_splits)
qed (rule awake_step)

end

subsection \<open>A trigger that may wake without a fire\<close>

text \<open>
  A trigger whose \<open>wait\<close> may return unasked must remember or hold off a fire at any time, since the
  child may then be in a frame that nobody started when the main thread fires.
\<close>

locale holding_trigger = trigger ops s0 armed inv
  for ops :: "'s trigger_ops" and s0 :: 's and armed :: "'s \<Rightarrow> bool" and inv :: "child_pc \<Rightarrow> 's \<Rightarrow> bool" +
  assumes fire_any: "inv c s \<Longrightarrow> c \<noteq> Starting \<Longrightarrow> c \<noteq> Ready \<Longrightarrow> op_fire ops s = Some s' \<Longrightarrow> inv c s' \<and> armed s'"
    and armed_asleep: "inv c s \<Longrightarrow> armed s \<Longrightarrow> c = Idle \<or> c = Sleeping"
    and spurious: "inv Sleeping s \<Longrightarrow> op_spurious ops s = Some s' \<Longrightarrow> \<not> armed s \<and> inv Taking s'"
begin

text \<open>
  A frame is paid for by a fire or by a return without one; each fire but the first waits for the
  report of a frame; and a child that has been told to run and has not reported is not asleep
  for good.
\<close>

definition fair :: "'s protocol \<Rightarrow> bool" where
  "fair p \<longleftrightarrow> inv (pr_child p) (pr_trigger p) \<and> (pr_master p = Clearing \<longrightarrow> pr_child_complete p) \<and>
     (if pr_child p = Starting \<or> pr_child p = Ready
      then \<not> pr_child_complete p \<and> pr_master p = Watching \<and> pr_fired p = 0 \<and> pr_frames p = 0 \<and> pr_spurious p = 0
      else pr_frames p + (if busy p then 1 else 0) \<le> pr_fired p + pr_spurious p \<and>
        pr_fired p + (if pr_master p = Firing then 1 else 0) + (if pr_child_complete p then 1 else 0) \<le> pr_frames p + 1 \<and>
        (pr_master p = Watching \<longrightarrow> pr_child_complete p \<or> busy p))"

lemma fair_start: "fair (protocol_start s0)"
  by (simp add: fair_def protocol_start_def inv_start)

lemma fair_step:
  assumes "fair p" and "tstep ops p q"
  shows "fair q"
  using assms(2)
proof (cases rule: tstep.cases)
  case child_init
  then show ?thesis using assms(1) init [of "pr_trigger p"] by (auto simp: fair_def split: if_splits)
next
  case child_ready
  then show ?thesis using assms(1) ready [of "pr_trigger p"] by (auto simp: fair_def busy_def split: if_splits)
next
  case child_sleep
  then show ?thesis using assms(1) sleep [of "pr_trigger p"] by (auto simp: fair_def busy_def split: if_splits)
next
  case (child_wake s)
  then show ?thesis using assms(1) wake [of "pr_trigger p" s] by (auto simp: fair_def busy_def split: if_splits)
next
  case (child_spurious s)
  then show ?thesis using assms(1) spurious [of "pr_trigger p" s] by (auto simp: fair_def busy_def split: if_splits)
next
  case child_take
  then show ?thesis using assms(1) take [of "pr_trigger p"] by (auto simp: fair_def busy_def split: if_splits)
next
  case child_done
  then show ?thesis using assms(1) work [of "pr_trigger p"] by (auto simp: fair_def busy_def split: if_splits)
next
  case master_go
  then show ?thesis using assms(1) by (auto simp: fair_def busy_def split: if_splits)
next
  case master_clear
  then show ?thesis using assms(1) by (auto simp: fair_def busy_def split: if_splits)
next
  case (master_fire s)
  then show ?thesis
    using assms(1) fire_any [of "pr_child p" "pr_trigger p" s] armed_asleep [of "pr_child p" s]
    by (auto simp: fair_def busy_def split: if_splits)
qed

lemma reach_fair: "treach ops s0 p \<Longrightarrow> fair p"
  by (induction rule: treach.induct) (auto intro: fair_start fair_step)

lemma frames_bounded:
  "treach ops s0 p \<Longrightarrow> pr_frames p \<le> pr_fired p + pr_spurious p \<and> pr_fired p \<le> pr_frames p + 1"
  using reach_fair [of p] by (auto simp: fair_def split: if_splits)

lemma never_stuck_holding:
  assumes "treach ops s0 p"
  shows "\<exists>q. tstep ops p q \<and> pr_spurious q = pr_spurious p"
proof (cases "pr_child p = Sleeping")
  case True
  have "fair p" using assms by (rule reach_fair)
  then show ?thesis using True by (intro asleep_step) (auto simp: fair_def busy_def split: if_splits)
qed (rule awake_step)

end

subsection \<open>The triggers that keep the contract\<close>

interpretation mutex: holding_trigger mutex_ops mutex_new mu_signalled
  "\<lambda>c s. mu_held s = (c = Ready \<or> c = Idle \<or> c = Taking \<or> c = Working) \<and> mu_waiting s = (c = Sleeping) \<and>
     (mu_signalled s \<longrightarrow> c = Sleeping)"
  by unfold_locales
    (auto simp: mutex_ops_def mutex_new_def mutex_init_def mutex_fire_def mutex_sleep_def mutex_wake_def
      mutex_spurious_def mutex_return_def split: if_splits, metis child_pc.exhaust)

interpretation flag: trigger flag_ops False "\<lambda>s. s" "\<lambda>c s. c = Starting \<or> c = Ready \<or> c = Working \<longrightarrow> \<not> s"
  by unfold_locales (auto simp: flag_ops_def flag_fire_def flag_wake_def flag_take_def split: if_splits)

interpretation eventfd: trigger eventfd_ops 0 "\<lambda>n. 0 < n"
  "\<lambda>c n. n \<le> 1 \<and> (c = Starting \<or> c = Ready \<or> c = Taking \<or> c = Working \<longrightarrow> n = 0)"
  by unfold_locales (auto simp: eventfd_ops_def eventfd_fire_def eventfd_wake_def split: if_splits)

text \<open>The flag and the event file descriptor never wake a child that was not fired.\<close>

lemma no_spurious:
  assumes "treach ops s0 p" and "\<And>s. op_spurious ops s = None"
  shows "pr_spurious p = 0"
  using assms(1)
proof (induction rule: treach.induct)
  case start
  show ?case by (simp add: protocol_start_def)
next
  case (step p q)
  then show ?case using assms(2) by (auto simp: tstep_iff)
qed

lemma flag_no_spurious: "treach flag_ops s0 p \<Longrightarrow> pr_spurious p = 0"
  by (erule no_spurious) (simp add: flag_ops_def)

lemma eventfd_no_spurious: "treach eventfd_ops s0 p \<Longrightarrow> pr_spurious p = 0"
  by (erule no_spurious) (simp add: eventfd_ops_def)

subsection \<open>The trigger that does not\<close>

text \<open>A run in which the main thread fires between the child's report and its \<open>wait\<close>.\<close>

definition futex_lost :: "futex_trigger protocol" where
  "futex_lost = (protocol_start futex_new)\<lparr>pr_trigger := futex_sleep futex_new, pr_child := Sleeping, pr_fired := 1\<rparr>"

lemma futex_lost_reached: "treach futex_ops futex_new futex_lost"
proof -
  let ?p0 = "protocol_start futex_new"
  let ?p1 = "?p0\<lparr>pr_child := Ready\<rparr>"
  let ?p2 = "?p0\<lparr>pr_child := Idle, pr_child_complete := True\<rparr>"
  let ?p3 = "?p2\<lparr>pr_master := Clearing\<rparr>"
  let ?p4 = "?p2\<lparr>pr_child_complete := False, pr_master := Firing\<rparr>"
  let ?p5 = "?p0\<lparr>pr_child := Idle, pr_fired := 1\<rparr>"
  note defs = protocol_start_def futex_ops_def futex_fire_def futex_new_def
  have "treach futex_ops futex_new ?p1"
    by (rule treach.step [OF treach.start]) (use tstep.child_init [of ?p0 futex_ops] in \<open>simp add: defs\<close>)
  then have "treach futex_ops futex_new ?p2"
    by (rule treach.step) (use tstep.child_ready [of ?p1 futex_ops] in \<open>simp add: defs\<close>)
  then have "treach futex_ops futex_new ?p3"
    by (rule treach.step) (use tstep.master_go [of ?p2 futex_ops] in \<open>simp add: defs\<close>)
  then have "treach futex_ops futex_new ?p4"
    by (rule treach.step) (use tstep.master_clear [of ?p3 futex_ops] in \<open>simp add: defs\<close>)
  then have "treach futex_ops futex_new ?p5"
    by (rule treach.step) (use tstep.master_fire [of ?p4 futex_ops] in \<open>simp add: defs\<close>)
  then show ?thesis
    by (rule treach.step) (use tstep.child_sleep [of ?p5 futex_ops] in \<open>simp add: defs futex_lost_def\<close>)
qed

text \<open>Only a futex wait that returns without a wake-up could go on.\<close>

lemma futex_lost_stuck: "tstep futex_ops futex_lost q \<Longrightarrow> pr_spurious q = Suc (pr_spurious futex_lost)"
proof -
  have "pr_child futex_lost = Sleeping" "pr_master futex_lost = Watching" "\<not> pr_child_complete futex_lost"
    "op_wake futex_ops (pr_trigger futex_lost) = None"
    by (simp_all add: futex_lost_def protocol_start_def futex_ops_def futex_wake_def futex_sleep_def futex_new_def)
  then show "tstep futex_ops futex_lost q \<Longrightarrow> pr_spurious q = Suc (pr_spurious futex_lost)"
    by (auto simp: tstep_iff)
qed

end
