(* ===== verification/PropsThreads.thy ===== *)
theory PropsThreads
  imports ThreadTrigger
begin

text \<open>
  The properties of the triggers that start the frames of a child thread, for every interleaving of
  the main thread and the child.
\<close>

subsection \<open>The triggers\<close>


text \<open>A frame with the mutex trigger, up to the fire and to its end.\<close>

definition mutex_fired :: "mutex_trigger protocol" where
  "mutex_fired = (protocol_start mutex_new)
     \<lparr>pr_trigger := \<lparr>mu_held = False, mu_waiting = True, mu_signalled = True\<rparr>, pr_child := Sleeping, pr_fired := 1\<rparr>"

lemmas mutex_defs = mutex_ops_def mutex_new_def mutex_init_def mutex_fire_def mutex_sleep_def mutex_wake_def
  mutex_return_def mutex_spurious_def protocol_start_def

lemma mutex_idle_reached:
  "treach mutex_ops mutex_new ((protocol_start mutex_new)
     \<lparr>pr_trigger := mutex_sleep (mutex_init mutex_new), pr_child := Sleeping, pr_child_complete := True\<rparr>)"
proof -
  let ?p0 = "protocol_start mutex_new"
  let ?p1 = "?p0\<lparr>pr_trigger := mutex_init mutex_new, pr_child := Ready\<rparr>"
  let ?p2 = "?p1\<lparr>pr_child := Idle, pr_child_complete := True\<rparr>"
  have "treach mutex_ops mutex_new ?p1"
    by (rule treach.step [OF treach.start]) (use tstep.child_init [of ?p0 mutex_ops] in \<open>simp add: mutex_defs\<close>)
  then have "treach mutex_ops mutex_new ?p2"
    by (rule treach.step) (use tstep.child_ready [of ?p1 mutex_ops] in \<open>simp add: mutex_defs\<close>)
  then show ?thesis
    by (rule treach.step) (use tstep.child_sleep [of ?p2 mutex_ops] in \<open>simp add: mutex_defs\<close>)
qed

lemma mutex_fired_reached: "treach mutex_ops mutex_new mutex_fired"
proof -
  let ?p3 = "(protocol_start mutex_new)
     \<lparr>pr_trigger := mutex_sleep (mutex_init mutex_new), pr_child := Sleeping, pr_child_complete := True\<rparr>"
  let ?p4 = "?p3\<lparr>pr_master := Clearing\<rparr>"
  let ?p5 = "?p3\<lparr>pr_child_complete := False, pr_master := Firing\<rparr>"
  have "treach mutex_ops mutex_new ?p4"
    by (rule treach.step [OF mutex_idle_reached]) (use tstep.master_go [of ?p3 mutex_ops] in \<open>simp add: mutex_defs\<close>)
  then have "treach mutex_ops mutex_new ?p5"
    by (rule treach.step) (use tstep.master_clear [of ?p4 mutex_ops] in \<open>simp add: mutex_defs\<close>)
  then show ?thesis
    by (rule treach.step) (use tstep.master_fire [of ?p5 mutex_ops] in \<open>simp add: mutex_defs mutex_fired_def\<close>)
qed


text \<open>
  C11: the same three triggers never leave both threads blocked: in every reachable state a step is
  possible that is not a return of the condition variable without a signal. While the child has not
  reported, every step lowers a bound on the steps left, so it reports after finitely many, and the
  main thread can start the next frame.
\<close>

theorem triggers_never_deadlock:
  assumes "treach mutex_ops mutex_new p" and "treach flag_ops False q" and "treach eventfd_ops 0 r"
  shows "(\<exists>p'. tstep mutex_ops p p' \<and> pr_spurious p' = pr_spurious p) \<and>
    (\<exists>q'. tstep flag_ops q q' \<and> pr_spurious q' = pr_spurious q) \<and>
    (\<exists>r'. tstep eventfd_ops r r' \<and> pr_spurious r' = pr_spurious r) \<and>
    (\<forall>p'. tstep mutex_ops p p' \<longrightarrow> pr_child_complete p \<or> work_left p' < work_left p) \<and>
    (\<forall>q'. tstep flag_ops q q' \<longrightarrow> pr_child_complete q \<or> work_left q' < work_left q) \<and>
    (\<forall>r'. tstep eventfd_ops r r' \<longrightarrow> pr_child_complete r \<or> work_left r' < work_left r)"
  using mutex.never_stuck_holding [OF assms(1)] flag.never_stuck [OF assms(2) flag_no_spurious [OF assms(2)]]
    eventfd.never_stuck [OF assms(3) eventfd_no_spurious [OF assms(3)]]
    step_work_left [of mutex_ops p] step_work_left [of flag_ops q] step_work_left [of eventfd_ops r]
  by blast

text \<open>At a reached state in which the child sleeps and has been fired, the step is its waking up.\<close>

theorem triggers_never_deadlock_witness:
  "\<exists>p'. tstep mutex_ops mutex_fired p' \<and> pr_child p' = Taking \<and> work_left p' < 3"
proof -
  have m: "pr_child mutex_fired = Sleeping" "pr_master mutex_fired = Watching" "\<not> pr_child_complete mutex_fired"
    "work_left mutex_fired = 3"
    by (simp_all add: mutex_fired_def protocol_start_def work_left_def)
  obtain p' where p': "tstep mutex_ops mutex_fired p'" "work_left p' < work_left mutex_fired"
    using triggers_never_deadlock [OF mutex_fired_reached treach.start treach.start] m(3) by blast
  moreover have "pr_child p' = Taking" using p'(1) m by (auto simp: tstep_iff)
  ultimately show ?thesis using m(4) by auto
qed

text \<open>
  The futex trigger loses a fire that comes before the child has gone to sleep, since
  \<open>fire\<close> does not change the word that \<open>wait\<close> compares: the child then waits for the trigger and
  the main thread for the child, and only a return of the futex without a wake-up ends it.
\<close>

lemma futex_fire_is_lost:
  "\<exists>p. treach futex_ops futex_new p \<and> pr_fired p = 1 \<and> pr_frames p = 0 \<and> \<not> pr_child_complete p \<and>
     (\<forall>q. tstep futex_ops p q \<longrightarrow> pr_spurious q = Suc (pr_spurious p))"
  using futex_lost_reached futex_lost_stuck
  by (intro exI [of _ futex_lost]) (auto simp: futex_lost_def protocol_start_def)

text \<open>
  The mutex trigger calls \<open>pthread_cond_wait\<close> outside a loop over a condition. When the call
  returns without a signal, the child runs a frame that was never fired.
\<close>

lemma spurious_wakeup_runs_a_frame:
  "\<exists>p. treach mutex_ops mutex_new p \<and> pr_fired p = 0 \<and> pr_frames p = 1"
proof -
  let ?p3 = "(protocol_start mutex_new)
     \<lparr>pr_trigger := mutex_sleep (mutex_init mutex_new), pr_child := Sleeping, pr_child_complete := True\<rparr>"
  let ?p4 = "?p3\<lparr>pr_trigger := mutex_init mutex_new, pr_child := Taking, pr_spurious := 1\<rparr>"
  let ?p5 = "?p4\<lparr>pr_child := Working\<rparr>"
  let ?p6 = "?p5\<lparr>pr_child := Idle, pr_frames := 1\<rparr>"
  have "treach mutex_ops mutex_new ?p4"
    by (rule treach.step [OF mutex_idle_reached]) (use tstep.child_spurious [of ?p3 mutex_ops] in \<open>simp add: mutex_defs\<close>)
  then have "treach mutex_ops mutex_new ?p5"
    by (rule treach.step) (use tstep.child_take [of ?p4 mutex_ops] in \<open>simp add: mutex_defs\<close>)
  then have "treach mutex_ops mutex_new ?p6"
    by (rule treach.step) (use tstep.child_done [of ?p5 mutex_ops] in \<open>simp add: mutex_defs\<close>)
  then show ?thesis by (intro exI [of _ ?p6]) (simp add: protocol_start_def)
qed

end
