(* ===== verification/EventProcessor.thy ===== *)
theory EventProcessor
  imports ExecControl
begin

text \<open>
  Events and the event processor (include/trick/Event.hh,
  sim\_services/EventManager/EventProcessor.cpp).

  \<open>Trick::Event\<close> is an abstract class: its record is extensible, and the record of a derived class
  adds fields. The virtual functions are the record \<open>EventClass\<close>, a parameter that a derived class
  instantiates (IPPythonEvent does). Events are shared by pointer; they live in a store, and
  \<open>ew_freed\<close> lists those whose memory was given back. The event store, the processors and the
  event manager are part of the world of the executive, next to what the simulation adds.
\<close>

subsection \<open>Events\<close>

type_synonym event_ptr = nat
type_synonym ep_ptr = nat

datatype EventBeforeAfter = EVENT_NOTARGET | EVENT_BEFORETARGET | EVENT_AFTERTARGET

record Event =
  ev_name :: string
  ev_active :: bool
  ev_thread_id :: nat
  ev_before_after :: EventBeforeAfter
  ev_cycle :: rat
  ev_cycle_tics :: int
  ev_next_tics :: int
  ev_free_on_removal :: bool
  ev_target_name :: string
  ev_target_inst :: nat

definition Event_activate :: "'e Event_scheme \<Rightarrow> 'e Event_scheme" where
  "Event_activate ev = ev\<lparr>ev_active := True\<rparr>"

definition Event_deactivate :: "'e Event_scheme \<Rightarrow> 'e Event_scheme" where
  "Event_deactivate ev = ev\<lparr>ev_active := False\<rparr>"

definition Event_set_cycle :: "int \<Rightarrow> rat \<Rightarrow> 'e Event_scheme \<Rightarrow> 'e Event_scheme" where
  "Event_set_cycle time_tic_value rate ev =
     ev\<lparr>ev_cycle := rate, ev_cycle_tics := c_trunc (dmul rate (dbl time_tic_value))\<rparr>"

definition Event_advance_next_tics :: "'e Event_scheme \<Rightarrow> 'e Event_scheme" where
  "Event_advance_next_tics ev = ev\<lparr>ev_next_tics := ev_next_tics ev + ev_cycle_tics ev\<rparr>"

subsection \<open>The state\<close>

text \<open>
  \<open>event_set\<close> is a \<open>std::multiset\<close> of pointers ordered by the \<open>next_tics\<close> of the events: the list
  of its elements in iteration order.
\<close>

record EventProcessor =
  ep_process_event_job :: job_ptr
  ep_event_set :: "event_ptr list"
  ep_pending_events :: "event_ptr list"

record EventInstrument =
  ei_event :: event_ptr
  ei_target_job :: job_ptr
  ei_name :: string

text \<open>
  \<open>active_events\<close> is the array the memory manager allocates (\<open>None\<close>: a null entry), with
  \<open>num_active_events\<close> entries in use.
\<close>

record ('e, 'u) EventWorld =
  ew_events :: "event_ptr \<Rightarrow> 'e"
  ew_freed :: "event_ptr list"
  ew_processors :: "ep_ptr \<Rightarrow> EventProcessor"
  ew_active_events :: "event_ptr option list"
  ew_num_active_events :: nat
  ew_num_allocated :: nat
  ew_event_processors :: "ep_ptr list"
  ew_events_instrumented :: "EventInstrument list"
  ew_return_val :: int
  ew_terminate_on_error :: bool
  ew_mtv_list :: "event_ptr list"
  ew_mtv_dummy :: event_ptr
  ew_mtv_update_ticker :: int
  ew_user :: 'u

type_synonym ('e, 'u) ev_sim = "('e, 'u) EventWorld Executive"

text \<open>The virtual functions of an event. \<open>add\<close>, \<open>remove\<close> and \<open>restart\<close> change only the event.\<close>

record ('e, 'u) EventClass =
  vt_process :: "event_ptr \<Rightarrow> int \<Rightarrow> ('e, 'u) ev_sim \<Rightarrow> (int, ('e, 'u) ev_sim) result"
  vt_add :: "'e \<Rightarrow> 'e"
  vt_remove :: "'e \<Rightarrow> 'e"
  vt_restart :: "('e, 'u) ev_sim \<Rightarrow> 'e \<Rightarrow> 'e"

abbreviation map_world :: "('w \<Rightarrow> 'w) \<Rightarrow> 'w Executive \<Rightarrow> 'w Executive" where
  "map_world f e \<equiv> e\<lparr>ex_world := f (ex_world e)\<rparr>"

definition event_at :: "('e, 'u) ev_sim \<Rightarrow> event_ptr \<Rightarrow> 'e" where
  "event_at e ev = ew_events (ex_world e) ev"

definition map_event :: "event_ptr \<Rightarrow> ('e \<Rightarrow> 'e) \<Rightarrow> ('e, 'u) ev_sim \<Rightarrow> ('e, 'u) ev_sim" where
  "map_event ev f e =
     map_world (\<lambda>w. w\<lparr>ew_events := (ew_events w)(ev := f (ew_events w ev))\<rparr>) e"

definition processor :: "('e, 'u) ev_sim \<Rightarrow> ep_ptr \<Rightarrow> EventProcessor" where
  "processor e p = ew_processors (ex_world e) p"

definition map_processor ::
  "ep_ptr \<Rightarrow> (EventProcessor \<Rightarrow> EventProcessor) \<Rightarrow> ('e, 'u) ev_sim \<Rightarrow> ('e, 'u) ev_sim" where
  "map_processor p f e =
     map_world (\<lambda>w. w\<lparr>ew_processors := (ew_processors w)(p := f (ew_processors w p))\<rparr>) e"

subsection \<open>The processor\<close>

definition set_process_event_job :: "ep_ptr \<Rightarrow> job_ptr \<Rightarrow> ('e, 'u) ev_sim \<Rightarrow> ('e, 'u) ev_sim" where
  "set_process_event_job p in_job e = map_processor p (\<lambda>ep. ep\<lparr>ep_process_event_job := in_job\<rparr>) e"

definition EventProcessor_add_event :: "ep_ptr \<Rightarrow> event_ptr \<Rightarrow> ('e, 'u) ev_sim \<Rightarrow> ('e, 'u) ev_sim" where
  "EventProcessor_add_event p in_event e =
     map_processor p (\<lambda>ep. ep\<lparr>ep_pending_events := ep_pending_events ep @ [in_event]\<rparr>) e"

text \<open>
  \<open>process_event_job->next_tics\<close> becomes the time of the first event of the set; the code writes
  this out with and without the case of an empty set.
\<close>

definition event_time :: "('e Event_scheme, 'u) ev_sim \<Rightarrow> event_ptr \<Rightarrow> int" where
  "event_time e ev = ev_next_tics (event_at e ev)"

definition schedule_processor ::
  "ep_ptr \<Rightarrow> ('e Event_scheme, 'u) ev_sim \<Rightarrow> ('e Event_scheme, 'u) ev_sim" where
  "schedule_processor p e =
     (let t = (case ep_event_set (processor e p) of [] \<Rightarrow> TRICK_MAX_LONG_LONG
               | ev # _ \<Rightarrow> event_time e ev)
      in map_job (ep_process_event_job (processor e p)) (\<lambda>j. j\<lparr>jd_next_tics := t\<rparr>) e)"

definition EventProcessor_remove_event ::
  "ep_ptr \<Rightarrow> event_ptr \<Rightarrow> ('e Event_scheme, 'u) ev_sim \<Rightarrow> ('e Event_scheme, 'u) ev_sim" where
  "EventProcessor_remove_event p in_event e =
     schedule_processor p
       (map_processor p (\<lambda>ep. ep\<lparr>ep_event_set := remove1 in_event (ep_event_set ep)\<rparr>) e)"

text \<open>\<open>multiset::insert\<close>: behind the elements that are not greater.\<close>

definition event_insert ::
  "('e Event_scheme, 'u) ev_sim \<Rightarrow> event_ptr \<Rightarrow> event_ptr list \<Rightarrow> event_ptr list" where
  "event_insert e ev xs =
     takeWhile (\<lambda>x. event_time e x \<le> event_time e ev) xs @ ev #
     dropWhile (\<lambda>x. event_time e x \<le> event_time e ev) xs"

definition insert_event ::
  "ep_ptr \<Rightarrow> event_ptr \<Rightarrow> ('e Event_scheme, 'u) ev_sim \<Rightarrow> ('e Event_scheme, 'u) ev_sim" where
  "insert_event p ev e =
     map_processor p (\<lambda>ep. ep\<lparr>ep_event_set := event_insert e ev (ep_event_set ep)\<rparr>) e"

text \<open>
  The loop of \<open>add_pending_events\<close> takes the pending events in order and erases each. An event whose
  memory was freed is undefined behaviour.
\<close>

fun add_pending_loop ::
  "ep_ptr \<Rightarrow> int \<Rightarrow> bool \<Rightarrow> event_ptr list \<Rightarrow> ('e Event_scheme, 'u) ev_sim \<Rightarrow>
     abort + ('e Event_scheme, 'u) ev_sim" where
  "add_pending_loop p curr_tics is_restart [] e = Inr e"
| "add_pending_loop p curr_tics is_restart (ev # evs) e =
     (let erase = map_processor p (\<lambda>ep. ep\<lparr>ep_pending_events := evs\<rparr>) in
      if ev \<in> set (ew_freed (ex_world e)) then Inl (Undefined ''use of a freed event'')
      else if ev_cycle_tics (event_at e ev) \<noteq> 0 then
        (let e1 = (if \<not> is_restart then map_event ev (\<lambda>v. v\<lparr>ev_next_tics := curr_tics\<rparr>) e else e)
         in add_pending_loop p curr_tics is_restart evs
              (erase (schedule_processor p (insert_event p ev e1))))
      else if event_time e ev < curr_tics then add_pending_loop p curr_tics is_restart evs (erase e)
      else add_pending_loop p curr_tics is_restart evs
             (erase (schedule_processor p (insert_event p ev e))))"

definition add_pending_events ::
  "ep_ptr \<Rightarrow> int \<Rightarrow> bool \<Rightarrow> ('e Event_scheme, 'u) ev_sim \<Rightarrow> abort + ('e Event_scheme, 'u) ev_sim" where
  "add_pending_events p curr_tics is_restart e =
     add_pending_loop p curr_tics is_restart (ep_pending_events (processor e p)) e"

text \<open>One turn of the loop of \<open>process_event\<close>, for the first event of the set.\<close>

definition process_one ::
  "('e Event_scheme, 'u) EventClass \<Rightarrow> ep_ptr \<Rightarrow> int \<Rightarrow> event_ptr \<Rightarrow> ('e Event_scheme, 'u) ev_sim \<Rightarrow>
     (unit, ('e Event_scheme, 'u) ev_sim) result" where
  "process_one vt p curr_tics curr_event e =
     (let e1 = map_processor p (\<lambda>ep. ep\<lparr>ep_event_set := tl (ep_event_set ep)\<rparr>) e
      in andthen (if ev_active (event_at e1 curr_event) then vt_process vt curr_event curr_tics e1
                  else Some (Inr 0, e1))
           (\<lambda>_ e2.
              if curr_event \<in> set (ew_freed (ex_world e2))
              then Some (Inl (Undefined ''use of a freed event''), e2)
              else if ev_cycle_tics (event_at e2 curr_event) \<noteq> 0
              then Some (Inr (), insert_event p curr_event
                     (map_event curr_event Event_advance_next_tics e2))
              else Some (Inr (), e2)))"

partial_function (option) process_loop ::
  "('e Event_scheme, 'u) EventClass \<Rightarrow> ep_ptr \<Rightarrow> int \<Rightarrow> ('e Event_scheme, 'u) ev_sim \<Rightarrow>
     (unit, ('e Event_scheme, 'u) ev_sim) result" where
  "process_loop vt p curr_tics e =
     (case ep_event_set (processor e p) of
        [] \<Rightarrow> Some (Inr (), e)
      | ev # _ \<Rightarrow>
          if ev \<in> set (ew_freed (ex_world e)) then Some (Inl (Undefined ''use of a freed event''), e)
          else if event_time e ev = curr_tics
          then andthen (process_one vt p curr_tics ev e) (\<lambda>_ e1. process_loop vt p curr_tics e1)
          else Some (Inr (), e))"

definition process_event ::
  "('e Event_scheme, 'u) EventClass \<Rightarrow> ep_ptr \<Rightarrow> int \<Rightarrow> ('e Event_scheme, 'u) ev_sim \<Rightarrow>
     (int, ('e Event_scheme, 'u) ev_sim) result" where
  "process_event vt p curr_tics e =
     andthen (process_loop vt p curr_tics e) (\<lambda>_ e1. Some (Inr 0, schedule_processor p e1))"

definition EventProcessor_preload_checkpoint :: "ep_ptr \<Rightarrow> ('e, 'u) ev_sim \<Rightarrow> ('e, 'u) ev_sim" where
  "EventProcessor_preload_checkpoint p e = map_processor p (\<lambda>ep. ep\<lparr>ep_event_set := []\<rparr>) e"

subsection \<open>Lemmas\<close>

lemma event_state_simps [simp]:
  "event_at (map_event ev f e) x = (if x = ev then f (event_at e x) else event_at e x)"
  "event_at (map_processor p g e) = event_at e"
  "event_at (map_job j h e) = event_at e"
  "processor (map_event ev f e) = processor e"
  "processor (map_processor p g e) q = (if q = p then g (processor e q) else processor e q)"
  "processor (map_job j h e) = processor e"
  "ex_jobs (map_event ev f e) = ex_jobs e"
  "ex_jobs (map_processor p g e) = ex_jobs e"
  "ew_freed (ex_world (map_event ev f e)) = ew_freed (ex_world e)"
  "ew_freed (ex_world (map_processor p g e)) = ew_freed (ex_world e)"
  "ex_world (map_job j h e) = ex_world e"
  by (auto simp: event_at_def map_event_def processor_def map_processor_def map_job_def)

lemma event_time_simps [simp]:
  "event_time (map_processor p g e) = event_time e"
  "event_time (map_job j h e) = event_time e"
  "event_time (map_event ev f e) x = (if x = ev then ev_next_tics (f (event_at e x)) else event_time e x)"
  by (auto simp: event_time_def)

definition event_sorted :: "('e Event_scheme, 'u) ev_sim \<Rightarrow> event_ptr list \<Rightarrow> bool" where
  "event_sorted e xs \<longleftrightarrow> sorted_wrt (\<lambda>x y. event_time e x \<le> event_time e y) xs"

lemma event_sorted_cong:
  "(\<And>x. x \<in> set xs \<Longrightarrow> event_time e' x = event_time e x) \<Longrightarrow> event_sorted e' xs = event_sorted e xs"
  unfolding event_sorted_def by (induction xs) auto

lemma mset_event_insert [simp]: "mset (event_insert e ev xs) = add_mset ev (mset xs)"
proof -
  have "mset xs = mset (takeWhile P xs) + mset (dropWhile P xs)" for P
    by (metis mset_append takeWhile_dropWhile_id)
  then show ?thesis unfolding event_insert_def by simp
qed

lemma set_event_insert [simp]: "set (event_insert e ev xs) = insert ev (set xs)"
  by (metis mset_event_insert set_mset_add_mset_insert set_mset_mset)

lemma distinct_event_insert [simp]: "distinct (event_insert e ev xs) \<longleftrightarrow> ev \<notin> set xs \<and> distinct xs"
  by (metis distinct.simps(2) mset.simps(2) mset_event_insert mset_eq_imp_distinct_iff)

lemma event_insert_nonempty [simp]: "event_insert e ev xs \<noteq> []"
  by (simp add: event_insert_def)

lemma event_sorted_insert:
  "event_sorted e xs \<Longrightarrow> event_sorted e (event_insert e ev xs)"
proof (induction xs)
  case (Cons x xs)
  have le: "\<forall>y \<in> set xs. event_time e x \<le> event_time e y" and s: "event_sorted e xs"
    using Cons.prems by (simp_all add: event_sorted_def)
  show ?case
  proof (cases "event_time e x \<le> event_time e ev")
    case True
    then have "event_insert e ev (x # xs) = x # event_insert e ev xs" by (simp add: event_insert_def)
    moreover have "\<forall>y \<in> set (event_insert e ev xs). event_time e x \<le> event_time e y"
      using le True by simp
    ultimately show ?thesis using Cons.IH [OF s] by (simp add: event_sorted_def)
  next
    case False
    then have "event_insert e ev (x # xs) = ev # x # xs" by (simp add: event_insert_def)
    then show ?thesis using Cons.prems False le by (auto simp: event_sorted_def)
  qed
qed (simp add: event_sorted_def event_insert_def)

text \<open>An event inserted for a later time leaves the events of an earlier time in front.\<close>

lemma takeWhile_event_insert:
  assumes "\<not> P ev" and "\<And>x. P x \<Longrightarrow> event_time e x \<le> event_time e ev"
  shows "takeWhile P (event_insert e ev xs) = takeWhile P xs"
  unfolding event_insert_def using assms by (induction xs) auto

lemma filter_sorted_takeWhile:
  assumes "event_sorted e xs" and "\<And>x. x \<in> set xs \<Longrightarrow> t \<le> event_time e x"
  shows "filter (\<lambda>x. event_time e x = t) xs = takeWhile (\<lambda>x. event_time e x = t) xs"
  using assms
proof (induction xs)
  case (Cons x xs)
  have x: "t \<le> event_time e x" and le: "\<forall>y \<in> set xs. event_time e x \<le> event_time e y"
    and IH: "filter (\<lambda>x. event_time e x = t) xs = takeWhile (\<lambda>x. event_time e x = t) xs"
    using Cons by (auto simp: event_sorted_def)
  have "filter (\<lambda>x. event_time e x = t) xs = []" if "event_time e x \<noteq> t"
    using x le that by (fastforce simp: filter_empty_conv)
  then show ?case using IH by auto
qed simp

lemma schedule_processor_simps [simp]:
  "processor (schedule_processor p e) = processor e"
  "event_at (schedule_processor p e) = event_at e"
  "event_time (schedule_processor p e) = event_time e"
  "ex_world (schedule_processor p e) = ex_world e"
  by (simp_all add: schedule_processor_def)

lemma schedule_processor_time:
  "jd_next_tics (ex_jobs (schedule_processor p e) (ep_process_event_job (processor e p))) =
     (case ep_event_set (processor e p) of [] \<Rightarrow> TRICK_MAX_LONG_LONG | ev # _ \<Rightarrow> event_time e ev)"
  by (simp add: schedule_processor_def map_job_def)

end
