(* ===== verification/IPPythonEvent.thy ===== *)
theory IPPythonEvent
  imports EventProcessor
begin

text \<open>
  \<open>Trick::IPPythonEvent\<close> (sim\_services/InputProcessor/IPPythonEvent.cpp): events of the input file,
  with conditions and actions, and \<open>IPPython::parse_condition\<close> (IPPython.cpp).

  The arrays \<open>condition_list\<close> and \<open>action_list\<close> are lists, their counts are the lengths. Conditions
  and actions run Python code or jobs, which may change anything: every access reads the current
  state. Parameters: the Python interpreter, the evaluation of a reference to a model variable
  (the memory manager), the lookup of a reference, and the calls of jobs. Comments, which are only
  displayed, and messages are not kept.
\<close>

subsection \<open>Data\<close>

text \<open>\<open>ref\<close> and \<open>job\<close> are mutually exclusive in every condition the class makes, but both are kept.\<close>

record condition_t =
  c_enabled :: bool
  c_hold :: bool
  c_fired :: bool
  c_fired_count :: int
  c_fired_time :: rat
  c_str :: string
  c_ref :: "nat option"
  c_job :: "job_ptr option"
  c_cond_type :: int

record action_t =
  a_enabled :: bool
  a_ran :: bool
  a_ran_count :: int
  a_ran_time :: rat
  a_str :: string
  a_job :: "job_ptr option"
  a_act_type :: int

record IPPythonEvent = Event +
  pe_added :: bool
  pe_is_user_event :: bool
  pe_manual :: bool
  pe_manual_fired :: bool
  pe_cond_all :: bool
  pe_fired :: bool
  pe_hold :: bool
  pe_ran :: bool
  pe_fired_count :: int
  pe_fired_time :: rat
  pe_ran_count :: int
  pe_ran_time :: rat
  pe_conditions :: "condition_t list"
  pe_actions :: "action_t list"

type_synonym 'u py_sim = "(IPPythonEvent, 'u) ev_sim"

text \<open>What the events rely on and the repository's classes do not give.\<close>

record 'u Interpreter =
  PyRun_SimpleString :: "string \<Rightarrow> 'u py_sim \<Rightarrow> (int, 'u py_sim) result"
  ref_attributes :: "'u py_sim \<Rightarrow> string \<Rightarrow> nat option"
  ref_bool :: "'u py_sim \<Rightarrow> nat \<Rightarrow> int option"

text \<open>\<open>IPPythonEvent::IPPythonEvent()\<close> on the base constructor's defaults. \<open>added\<close> is left unset.\<close>

definition new_Event :: "int \<Rightarrow> string \<Rightarrow> rat \<Rightarrow> Event" where
  "new_Event time_tic_value in_name in_cycle =
     Event_set_cycle time_tic_value in_cycle
       \<lparr>ev_name = in_name, ev_active = False, ev_thread_id = 0, ev_before_after = EVENT_NOTARGET,
        ev_cycle = in_cycle, ev_cycle_tics = 0, ev_next_tics = 0, ev_free_on_removal = False,
        ev_target_name = [], ev_target_inst = 1\<rparr>"

definition new_IPPythonEvent :: "int \<Rightarrow> IPPythonEvent" where
  "new_IPPythonEvent time_tic_value =
     Event.extend (new_Event time_tic_value ''no_name_specified'' 1)
       \<lparr>pe_added = False, pe_is_user_event = True, pe_manual = False, pe_manual_fired = False,
        pe_cond_all = False, pe_fired = False, pe_hold = False, pe_ran = False, pe_fired_count = 0,
        pe_fired_time = -1, pe_ran_count = 0, pe_ran_time = -1, pe_conditions = [], pe_actions = []\<rparr>"

subsection \<open>Settings\<close>

definition condition_all :: "IPPythonEvent \<Rightarrow> IPPythonEvent" where
  "condition_all v = v\<lparr>pe_cond_all := True\<rparr>"

definition condition_any :: "IPPythonEvent \<Rightarrow> IPPythonEvent" where
  "condition_any v = v\<lparr>pe_cond_all := False\<rparr>"

definition manual_on :: "IPPythonEvent \<Rightarrow> IPPythonEvent" where
  "manual_on v = v\<lparr>pe_manual := True, pe_manual_fired := True, pe_hold := True, pe_fired := False\<rparr>"

definition manual_off :: "IPPythonEvent \<Rightarrow> IPPythonEvent" where
  "manual_off v = v\<lparr>pe_manual := True, pe_manual_fired := False, pe_hold := False, pe_fired := False\<rparr>"

definition manual_done :: "IPPythonEvent \<Rightarrow> IPPythonEvent" where
  "manual_done v = v\<lparr>pe_manual := False, pe_manual_fired := False, pe_hold := False\<rparr>"

definition IPPythonEvent_add :: "IPPythonEvent \<Rightarrow> IPPythonEvent" where
  "IPPythonEvent_add v = v\<lparr>pe_added := True\<rparr>"

definition IPPythonEvent_remove :: "IPPythonEvent \<Rightarrow> IPPythonEvent" where
  "IPPythonEvent_remove v = v\<lparr>pe_added := False\<rparr>"

text \<open>\<open>restart\<close> looks references and jobs up again.\<close>

definition restart_condition :: "'u Interpreter \<Rightarrow> 'u py_sim \<Rightarrow> condition_t \<Rightarrow> condition_t" where
  "restart_condition py e c =
     (if c_cond_type c = 1 then c\<lparr>c_ref := ref_attributes py e (c_str c)\<rparr>
      else if c_cond_type c = 2 then c\<lparr>c_job := get_job e (c_str c) 1\<rparr> else c)"

definition restart_action :: "'u py_sim \<Rightarrow> action_t \<Rightarrow> action_t" where
  "restart_action e a = (if a_act_type a \<noteq> 0 then a\<lparr>a_job := get_job e (a_str a) 1\<rparr> else a)"

definition IPPythonEvent_restart :: "'u Interpreter \<Rightarrow> 'u py_sim \<Rightarrow> IPPythonEvent \<Rightarrow> IPPythonEvent" where
  "IPPythonEvent_restart py e v =
     v\<lparr>pe_conditions := map (restart_condition py e) (pe_conditions v),
       pe_actions := map (restart_action e) (pe_actions v)\<rparr>"

subsection \<open>Conditions and actions\<close>

definition blank_condition :: condition_t where
  "blank_condition =
     \<lparr>c_enabled = False, c_hold = False, c_fired = False, c_fired_count = 0, c_fired_time = -1,
      c_str = [], c_ref = None, c_job = None, c_cond_type = 0\<rparr>"

text \<open>
  \<open>condition(num, ...)\<close> appends a condition when \<open>num\<close> is the count, changes the existing one below
  it (its counters stay), and does nothing otherwise.
\<close>

definition set_condition ::
  "int \<Rightarrow> string \<Rightarrow> nat option \<Rightarrow> job_ptr option \<Rightarrow> IPPythonEvent \<Rightarrow> IPPythonEvent" where
  "set_condition num str ref job v =
     (let cs = pe_conditions v;
          cs1 = (if num = int (length cs) then cs @ [blank_condition] else cs)
      in if 0 \<le> num \<and> num < int (length cs1) then
           v\<lparr>pe_conditions := cs1[nat num := (cs1 ! nat num)
              \<lparr>c_ref := ref, c_job := job, c_enabled := True, c_hold := False, c_fired := False,
               c_cond_type := (if ref \<noteq> None then 1 else if job \<noteq> None then 2 else 0), c_str := str\<rparr>]\<rparr>
         else v)"

definition on_condition :: "int \<Rightarrow> (condition_t \<Rightarrow> condition_t) \<Rightarrow> IPPythonEvent \<Rightarrow> IPPythonEvent" where
  "on_condition num f v =
     (if 0 \<le> num \<and> num < int (length (pe_conditions v))
      then v\<lparr>pe_conditions := (pe_conditions v)[nat num := f (pe_conditions v ! nat num)]\<rparr> else v)"

definition condition_hold_on :: "int \<Rightarrow> IPPythonEvent \<Rightarrow> IPPythonEvent" where
  "condition_hold_on num = on_condition num (\<lambda>c. c\<lparr>c_hold := True\<rparr>)"

definition condition_hold_off :: "int \<Rightarrow> IPPythonEvent \<Rightarrow> IPPythonEvent" where
  "condition_hold_off num = on_condition num (\<lambda>c. c\<lparr>c_hold := False\<rparr>)"

definition condition_enable :: "int \<Rightarrow> IPPythonEvent \<Rightarrow> IPPythonEvent" where
  "condition_enable num = on_condition num (\<lambda>c. c\<lparr>c_enabled := True\<rparr>)"

definition condition_disable :: "int \<Rightarrow> IPPythonEvent \<Rightarrow> IPPythonEvent" where
  "condition_disable num = on_condition num (\<lambda>c. c\<lparr>c_enabled := False\<rparr>)"

definition read_condition :: "int \<Rightarrow> (condition_t \<Rightarrow> 'a) \<Rightarrow> 'a \<Rightarrow> IPPythonEvent \<Rightarrow> 'a" where
  "read_condition num f dflt v =
     (if 0 \<le> num \<and> num < int (length (pe_conditions v)) then f (pe_conditions v ! nat num) else dflt)"

definition condition_fired :: "int \<Rightarrow> IPPythonEvent \<Rightarrow> bool" where
  "condition_fired num = read_condition num c_fired False"

definition condition_fired_count :: "int \<Rightarrow> IPPythonEvent \<Rightarrow> int" where
  "condition_fired_count num = read_condition num c_fired_count 0"

definition condition_fired_time :: "int \<Rightarrow> IPPythonEvent \<Rightarrow> rat" where
  "condition_fired_time num = read_condition num c_fired_time 0"

definition condition_string :: "int \<Rightarrow> IPPythonEvent \<Rightarrow> string" where
  "condition_string num = read_condition num c_str []"

definition blank_action :: action_t where
  "blank_action =
     \<lparr>a_enabled = False, a_ran = False, a_ran_count = 0, a_ran_time = -1, a_str = [],
      a_job = None, a_act_type = 0\<rparr>"

definition set_action ::
  "int \<Rightarrow> string \<Rightarrow> job_ptr option \<Rightarrow> int \<Rightarrow> IPPythonEvent \<Rightarrow> IPPythonEvent" where
  "set_action num str job act_type v =
     (let as = pe_actions v;
          as1 = (if num = int (length as) then as @ [blank_action] else as)
      in if 0 \<le> num \<and> num < int (length as1) then
           v\<lparr>pe_actions := as1[nat num := (as1 ! nat num)
              \<lparr>a_job := job, a_act_type := act_type, a_enabled := True, a_ran := False, a_str := str\<rparr>]\<rparr>
         else v)"

definition on_action :: "int \<Rightarrow> (action_t \<Rightarrow> action_t) \<Rightarrow> IPPythonEvent \<Rightarrow> IPPythonEvent" where
  "on_action num f v =
     (if 0 \<le> num \<and> num < int (length (pe_actions v))
      then v\<lparr>pe_actions := (pe_actions v)[nat num := f (pe_actions v ! nat num)]\<rparr> else v)"

definition action_enable :: "int \<Rightarrow> IPPythonEvent \<Rightarrow> IPPythonEvent" where
  "action_enable num = on_action num (\<lambda>a. a\<lparr>a_enabled := True\<rparr>)"

definition action_disable :: "int \<Rightarrow> IPPythonEvent \<Rightarrow> IPPythonEvent" where
  "action_disable num = on_action num (\<lambda>a. a\<lparr>a_enabled := False\<rparr>)"

definition read_action :: "int \<Rightarrow> (action_t \<Rightarrow> 'a) \<Rightarrow> 'a \<Rightarrow> IPPythonEvent \<Rightarrow> 'a" where
  "read_action num f dflt v =
     (if 0 \<le> num \<and> num < int (length (pe_actions v)) then f (pe_actions v ! nat num) else dflt)"

definition action_ran :: "int \<Rightarrow> IPPythonEvent \<Rightarrow> bool" where
  "action_ran num = read_action num a_ran False"

definition action_ran_count :: "int \<Rightarrow> IPPythonEvent \<Rightarrow> int" where
  "action_ran_count num = read_action num a_ran_count 0"

definition action_ran_time :: "int \<Rightarrow> IPPythonEvent \<Rightarrow> rat" where
  "action_ran_time num = read_action num a_ran_time 0"

text \<open>
  The variants for variables and jobs look the name up first. A missing variable or job gives the
  condition \<open>False\<close>; a malfunction job is enabled.
\<close>

definition condition_var ::
  "'u Interpreter \<Rightarrow> event_ptr \<Rightarrow> int \<Rightarrow> string \<Rightarrow> 'u py_sim \<Rightarrow> 'u py_sim" where
  "condition_var py ev num varname e =
     (case ref_attributes py e varname of
        None \<Rightarrow> map_event ev (set_condition num ''False'' None None) e
      | Some ref \<Rightarrow> map_event ev (set_condition num varname (Some ref) None) e)"

definition enable_malfunction :: "job_ptr \<Rightarrow> 'w Executive \<Rightarrow> 'w Executive" where
  "enable_malfunction job e =
     (if jd_job_class_name (ex_jobs e job) = ''malfunction''
      then map_job job (\<lambda>j. j\<lparr>jd_disabled := False\<rparr>) e else e)"

definition condition_job :: "event_ptr \<Rightarrow> int \<Rightarrow> string \<Rightarrow> 'u py_sim \<Rightarrow> 'u py_sim" where
  "condition_job ev num jobname e =
     (case get_job e jobname 1 of
        None \<Rightarrow> map_event ev (set_condition num ''False'' None None) e
      | Some job \<Rightarrow> map_event ev (set_condition num jobname None (Some job)) (enable_malfunction job e))"

definition action_job :: "event_ptr \<Rightarrow> int \<Rightarrow> string \<Rightarrow> 'u py_sim \<Rightarrow> 'u py_sim" where
  "action_job ev num jobname e =
     (case get_job e jobname 1 of
        None \<Rightarrow> e
      | Some job \<Rightarrow> map_event ev (set_action num jobname (Some job) 3) (enable_malfunction job e))"

definition action_job_on :: "event_ptr \<Rightarrow> int \<Rightarrow> string \<Rightarrow> 'u py_sim \<Rightarrow> 'u py_sim" where
  "action_job_on ev num jobname e =
     (case get_job e jobname 1 of
        None \<Rightarrow> e | Some job \<Rightarrow> map_event ev (set_action num jobname (Some job) 1) e)"

definition action_job_off :: "event_ptr \<Rightarrow> int \<Rightarrow> string \<Rightarrow> 'u py_sim \<Rightarrow> 'u py_sim" where
  "action_job_off ev num jobname e =
     (case get_job e jobname 1 of
        None \<Rightarrow> e | Some job \<Rightarrow> map_event ev (set_action num jobname (Some job) 2) e)"

subsection \<open>Python\<close>

definition ip_parse :: "'u Interpreter \<Rightarrow> string \<Rightarrow> 'u py_sim \<Rightarrow> (int, 'u py_sim) result" where
  "ip_parse py in_string e = PyRun_SimpleString py (in_string @ [CHR 0x0A]) e"

text \<open>The value is what the statement left in \<open>trick_ip.ip.return_val\<close>, whatever its outcome.\<close>

definition parse_condition :: "'u Interpreter \<Rightarrow> string \<Rightarrow> 'u py_sim \<Rightarrow> (int \<times> int, 'u py_sim) result" where
  "parse_condition py in_string e =
     andthen (PyRun_SimpleString py (''trick_ip.ip.return_val = '' @ in_string @ [CHR 0x0A]) e)
       (\<lambda>py_ret e1. Some (Inr (py_ret, ew_return_val (ex_world e1)), e1))"

text \<open>\<open>exec_terminate_with_return(ret, __FILE__, __LINE__, msg)\<close> throws.\<close>

definition throw_on_error :: "int \<Rightarrow> int \<Rightarrow> string \<Rightarrow> 'u py_sim \<Rightarrow> (unit, 'u py_sim) result" where
  "throw_on_error ret line msg e =
     (if ret \<noteq> 0 \<and> ew_terminate_on_error (ex_world e)
      then Some (Inl (mk_ExecutiveException ret ''IPPythonEvent.cpp'' line msg), e)
      else Some (Inr (), e))"

subsection \<open>Processing\<close>

definition set_job_disabled :: "job_ptr \<Rightarrow> bool \<Rightarrow> 'w Executive \<Rightarrow> 'w Executive" where
  "set_job_disabled job b e = map_job job (\<lambda>j. j\<lparr>jd_disabled := b\<rparr>) e"

text \<open>A job of a condition or an action is called enabled, and gets its state back.\<close>

definition call_enabled :: "'w exec_call \<Rightarrow> job_ptr \<Rightarrow> 'w Executive \<Rightarrow> (int, 'w Executive) result" where
  "call_enabled cf job e =
     (let save_disabled_state = jd_disabled (ex_jobs e job)
      in andthen (JobData_call ex_jobs cf job (set_job_disabled job False e))
           (\<lambda>ret e1. Some (Inr ret, set_job_disabled job save_disabled_state e1)))"

definition evaluate_condition ::
  "(IPPythonEvent, 'u) EventWorld exec_call \<Rightarrow> 'u Interpreter \<Rightarrow> condition_t \<Rightarrow> 'u py_sim \<Rightarrow>
     (int, 'u py_sim) result" where
  "evaluate_condition cf py c e =
     (case c_ref c of
        Some ref \<Rightarrow> Some (Inr (case ref_bool py e ref of None \<Rightarrow> 0 | Some v \<Rightarrow> v), e)
      | None \<Rightarrow>
          (case c_job c of
             Some job \<Rightarrow> call_enabled cf job e
           | None \<Rightarrow>
               andthen (parse_condition py (c_str c) e)
                 (\<lambda>(python_ret, return_val) e1.
                    andthen (throw_on_error python_ret 585 ''Python error in event condition processing'' e1)
                      (\<lambda>_ e2. Some (Inr return_val, e2)))))"

definition map_condition ::
  "event_ptr \<Rightarrow> nat \<Rightarrow> (condition_t \<Rightarrow> condition_t) \<Rightarrow> 'u py_sim \<Rightarrow> 'u py_sim" where
  "map_condition ev ii f e =
     map_event ev (\<lambda>v. v\<lparr>pe_conditions := (pe_conditions v)[ii := f (pe_conditions v ! ii)]\<rparr>) e"

definition map_action ::
  "event_ptr \<Rightarrow> nat \<Rightarrow> (action_t \<Rightarrow> action_t) \<Rightarrow> 'u py_sim \<Rightarrow> 'u py_sim" where
  "map_action ev ii f e =
     map_event ev (\<lambda>v. v\<lparr>pe_actions := (pe_actions v)[ii := f (pe_actions v ! ii)]\<rparr>) e"

text \<open>How condition \<open>ii\<close> enters the event's \<open>fired\<close> and \<open>hold\<close>.\<close>

definition combine_condition :: "nat \<Rightarrow> IPPythonEvent \<Rightarrow> IPPythonEvent" where
  "combine_condition ii v =
     (let c = pe_conditions v ! ii
      in if ii = 0 then v\<lparr>pe_fired := c_fired c, pe_hold := c_hold c\<rparr>
         else if pe_cond_all v
         then v\<lparr>pe_fired := (pe_fired v \<and> c_fired c), pe_hold := (pe_hold v \<and> c_hold c)\<rparr>
         else v\<lparr>pe_fired := (pe_fired v \<or> c_fired c), pe_hold := (pe_hold v \<or> c_hold c)\<rparr>)"

text \<open>
  The body of the condition loop. After an evaluation the condition is looked at again in the
  state it left; an index past the end of the array then would be undefined.
\<close>

definition condition_step ::
  "(IPPythonEvent, 'u) EventWorld exec_call \<Rightarrow> 'u Interpreter \<Rightarrow> event_ptr \<Rightarrow> int \<Rightarrow> nat \<Rightarrow> 'u py_sim \<Rightarrow>
     (unit, 'u py_sim) result" where
  "condition_step cf py ev curr_time ii e =
     (let c = pe_conditions (event_at e ev) ! ii
      in if \<not> c_enabled c then Some (Inr (), map_condition ev ii (\<lambda>c. c\<lparr>c_fired := False\<rparr>) e)
         else if c_hold c \<and> c_fired c then Some (Inr (), map_event ev (combine_condition ii) e)
         else andthen (evaluate_condition cf py c (map_condition ev ii (\<lambda>c. c\<lparr>c_fired := False\<rparr>) e))
           (\<lambda>return_val e1.
              if length (pe_conditions (event_at e1 ev)) \<le> ii
              then Some (Inl (Undefined ''condition index''), e1)
              else Some (Inr (), map_event ev (combine_condition ii)
                (if return_val \<noteq> 0 then
                   map_condition ev ii (\<lambda>c. c\<lparr>c_fired := True, c_fired_count := c_fired_count c + 1,
                     c_fired_time := dbl curr_time\<rparr>) e1
                 else e1))))"

partial_function (option) condition_loop ::
  "(IPPythonEvent, 'u) EventWorld exec_call \<Rightarrow> 'u Interpreter \<Rightarrow> event_ptr \<Rightarrow> int \<Rightarrow> nat \<Rightarrow> 'u py_sim \<Rightarrow>
     (unit, 'u py_sim) result" where
  "condition_loop cf py ev curr_time ii e =
     (if ii < length (pe_conditions (event_at e ev))
      then andthen (condition_step cf py ev curr_time ii e)
             (\<lambda>_ e1. condition_loop cf py ev curr_time (Suc ii) e1)
      else Some (Inr (), e))"

text \<open>One action: a job is switched on, off or called, anything else is Python.\<close>

definition run_action ::
  "(IPPythonEvent, 'u) EventWorld exec_call \<Rightarrow> 'u Interpreter \<Rightarrow> action_t \<Rightarrow> 'u py_sim \<Rightarrow>
     (unit, 'u py_sim) result" where
  "run_action cf py a e =
     (case a_job a of
        Some job \<Rightarrow>
          (if a_act_type a = 1 then Some (Inr (), set_job_disabled job False e)
           else if a_act_type a = 2 then Some (Inr (), set_job_disabled job True e)
           else if a_act_type a = 3
           then andthen (call_enabled cf job e) (\<lambda>_ e1. Some (Inr (), e1))
           else Some (Inr (), e))
      | None \<Rightarrow>
          andthen (ip_parse py (a_str a) e)
            (\<lambda>ret e1. throw_on_error ret 656 ''Python error in event action processing'' e1))"

text \<open>The action loop; its value is \<open>it_ran\<close>.\<close>

partial_function (option) action_loop ::
  "(IPPythonEvent, 'u) EventWorld exec_call \<Rightarrow> 'u Interpreter \<Rightarrow> event_ptr \<Rightarrow> int \<Rightarrow> nat \<Rightarrow> bool \<Rightarrow>
     'u py_sim \<Rightarrow> (bool, 'u py_sim) result" where
  "action_loop cf py ev curr_time ii it_ran e =
     (if ii < length (pe_actions (event_at e ev)) then
        (let a = pe_actions (event_at e ev) ! ii
         in if \<not> a_enabled a
            then action_loop cf py ev curr_time (Suc ii) it_ran (map_action ev ii (\<lambda>a. a\<lparr>a_ran := False\<rparr>) e)
            else andthen (run_action cf py a e)
              (\<lambda>_ e1.
                 if length (pe_actions (event_at e1 ev)) \<le> ii
                 then Some (Inl (Undefined ''action index''), e1)
                 else action_loop cf py ev curr_time (Suc ii) True
                   (map_event ev (\<lambda>v. v\<lparr>pe_ran := True\<rparr>)
                     (map_action ev ii (\<lambda>a. a\<lparr>a_ran := True, a_ran_count := a_ran_count a + 1,
                        a_ran_time := dbl curr_time\<rparr>) e1))))
      else Some (Inr it_ran, e))"

text \<open>\<open>process_user_event\<close>: the conditions, the verdict, the actions.\<close>

definition evaluate_event ::
  "(IPPythonEvent, 'u) EventWorld exec_call \<Rightarrow> 'u Interpreter \<Rightarrow> event_ptr \<Rightarrow> int \<Rightarrow> 'u py_sim \<Rightarrow>
     (unit, 'u py_sim) result" where
  "evaluate_event cf py ev curr_time e =
     (let e1 = map_event ev (\<lambda>v. v\<lparr>pe_fired := False, pe_ran := False\<rparr>) e
      in if \<not> pe_manual (event_at e1 ev)
         then condition_loop cf py ev curr_time 0 (map_event ev (\<lambda>v. v\<lparr>pe_hold := False\<rparr>) e1)
         else Some (Inr (), e1))"

definition note_fired :: "int \<Rightarrow> IPPythonEvent \<Rightarrow> IPPythonEvent" where
  "note_fired curr_time v =
     (let v1 = v\<lparr>pe_fired_count := pe_fired_count v + 1, pe_fired_time := dbl curr_time\<rparr>
      in if \<not> pe_manual_fired v1 then v1\<lparr>ev_active := False\<rparr> else v1)"

definition run_actions ::
  "(IPPythonEvent, 'u) EventWorld exec_call \<Rightarrow> 'u Interpreter \<Rightarrow> event_ptr \<Rightarrow> int \<Rightarrow> 'u py_sim \<Rightarrow>
     (unit, 'u py_sim) result" where
  "run_actions cf py ev curr_time e =
     (if pe_actions (event_at e ev) \<noteq> [] then
        andthen (action_loop cf py ev curr_time 0 False e)
          (\<lambda>it_ran e1.
             let e2 = map_event ev (\<lambda>v. v\<lparr>pe_manual_fired := (pe_manual_fired v \<and> pe_hold v),
                        pe_fired := (pe_fired v \<and> pe_hold v)\<rparr>) e1
             in Some (Inr (), if it_ran
                  then map_event ev (\<lambda>v. v\<lparr>pe_ran_count := pe_ran_count v + 1,
                         pe_ran_time := dbl curr_time\<rparr>) e2
                  else e2))
      else Some (Inr (), e))"

definition process_user_event ::
  "(IPPythonEvent, 'u) EventWorld exec_call \<Rightarrow> 'u Interpreter \<Rightarrow> event_ptr \<Rightarrow> int \<Rightarrow> 'u py_sim \<Rightarrow>
     (bool, 'u py_sim) result" where
  "process_user_event cf py ev curr_time e =
     andthen (evaluate_event cf py ev curr_time e)
       (\<lambda>_ e1.
          let it_fired = pe_manual_fired (event_at e1 ev) \<or> pe_fired (event_at e1 ev)
          in if it_fired
             then andthen (run_actions cf py ev curr_time (map_event ev (note_fired curr_time) e1))
                    (\<lambda>_ e2. Some (Inr True, e2))
             else Some (Inr False, e1))"

text \<open>A read event runs its first action once.\<close>

definition process_read_event ::
  "'u Interpreter \<Rightarrow> event_ptr \<Rightarrow> int \<Rightarrow> 'u py_sim \<Rightarrow> (unit, 'u py_sim) result" where
  "process_read_event py ev curr_time e =
     (let e1 = map_event ev (\<lambda>v. v\<lparr>ev_active := False\<rparr>) e
      in case pe_actions (event_at e1 ev) of
           [] \<Rightarrow> Some (Inl (Undefined ''NULL action_list''), e1)
         | a # _ \<Rightarrow>
             andthen (ip_parse py (a_str a) e1)
               (\<lambda>ret e2. andthen (throw_on_error ret 525 ''Python error in event processing'' e2)
                 (\<lambda>_ e3. Some (Inr (),
                    map_event ev (\<lambda>v. v\<lparr>pe_fired_count := pe_fired_count v + 1,
                      pe_fired_time := dbl curr_time, pe_ran := True,
                      pe_ran_count := pe_ran_count v + 1, pe_ran_time := dbl curr_time\<rparr>)
                    (map_action ev 0 (\<lambda>a. a\<lparr>a_ran := True, a_ran_count := a_ran_count a + 1,
                      a_ran_time := dbl curr_time\<rparr>) e3)))))"

definition IPPythonEvent_process ::
  "(IPPythonEvent, 'u) EventWorld exec_call \<Rightarrow> 'u Interpreter \<Rightarrow> event_ptr \<Rightarrow> int \<Rightarrow> 'u py_sim \<Rightarrow>
     (int, 'u py_sim) result" where
  "IPPythonEvent_process cf py ev curr_time e =
     (if ev_active (event_at e ev) \<or> pe_manual_fired (event_at e ev) then
        (if pe_is_user_event (event_at e ev)
         then andthen (process_user_event cf py ev curr_time e) (\<lambda>_ e1. Some (Inr 0, e1))
         else andthen (process_read_event py ev curr_time e) (\<lambda>_ e1. Some (Inr 0, e1)))
      else Some (Inr 0, e))"

text \<open>\<open>manual_fire\<close> processes the event at once.\<close>

definition manual_fire ::
  "(IPPythonEvent, 'u) EventWorld exec_call \<Rightarrow> 'u Interpreter \<Rightarrow> event_ptr \<Rightarrow> 'u py_sim \<Rightarrow>
     (unit, 'u py_sim) result" where
  "manual_fire cf py ev e =
     andthen (process_user_event cf py ev (ex_time_tics e)
        (map_event ev (\<lambda>v. v\<lparr>pe_manual := True, pe_manual_fired := True, pe_hold := False,
           pe_fired := False\<rparr>) e))
       (\<lambda>_ e1. Some (Inr (), e1))"

definition IPPythonEvent_class ::
  "(IPPythonEvent, 'u) EventWorld exec_call \<Rightarrow> 'u Interpreter \<Rightarrow> (IPPythonEvent, 'u) EventClass" where
  "IPPythonEvent_class cf py =
     \<lparr>vt_process = IPPythonEvent_process cf py, vt_add = IPPythonEvent_add,
      vt_remove = IPPythonEvent_remove, vt_restart = IPPythonEvent_restart py\<rparr>"

end
