(* ===== verification/EventServe.thy ===== *)
theory EventServe
  imports EventProcessor
begin

text \<open>
  What one call of \<open>process_event\<close> does, for events whose \<open>process\<close> leaves the scheduling of events
  alone. The locale \<open>calm_class\<close> is that contract of a class of events; IPPythonEvent interprets it.
\<close>

definition undisturbed ::
  "event_ptr \<Rightarrow> ('e Event_scheme, 'u) ev_sim \<Rightarrow> ('e Event_scheme, 'u) ev_sim \<Rightarrow> bool" where
  "undisturbed ev e e' \<longleftrightarrow>
     processor e' = processor e \<and> ew_freed (ex_world e') = ew_freed (ex_world e) \<and>
     (\<forall>x. ev_next_tics (event_at e' x) = ev_next_tics (event_at e x) \<and>
          ev_cycle_tics (event_at e' x) = ev_cycle_tics (event_at e x) \<and>
          (x \<noteq> ev \<longrightarrow> ev_active (event_at e' x) = ev_active (event_at e x)))"

lemma undisturbed_time: "undisturbed ev e e' \<Longrightarrow> event_time e' = event_time e"
  by (auto simp: undisturbed_def event_time_def)

lemma undisturbed_refl [simp]: "undisturbed ev e e"
  by (simp add: undisturbed_def)

lemma undisturbed_trans:
  "undisturbed ev e e1 \<Longrightarrow> undisturbed ev e1 e2 \<Longrightarrow> undisturbed ev e e2"
  by (simp add: undisturbed_def)

text \<open>The reference: one turn for each event of a list, in order.\<close>

fun serve_all ::
  "('e Event_scheme, 'u) EventClass \<Rightarrow> ep_ptr \<Rightarrow> int \<Rightarrow> event_ptr list \<Rightarrow> ('e Event_scheme, 'u) ev_sim \<Rightarrow>
     (unit, ('e Event_scheme, 'u) ev_sim) result" where
  "serve_all vt p t [] e = Some (Inr (), e)"
| "serve_all vt p t (ev # evs) e = andthen (process_one vt p t ev e) (\<lambda>_ e1. serve_all vt p t evs e1)"

definition due_events :: "ep_ptr \<Rightarrow> int \<Rightarrow> ('e Event_scheme, 'u) ev_sim \<Rightarrow> event_ptr list" where
  "due_events p t e = filter (\<lambda>ev. event_time e ev = t) (ep_event_set (processor e p))"

text \<open>The state a processor is in between its calls.\<close>

definition processor_ok ::
  "ep_ptr \<Rightarrow> int \<Rightarrow> ('e Event_scheme \<Rightarrow> bool) \<Rightarrow> ('e Event_scheme, 'u) ev_sim \<Rightarrow> bool" where
  "processor_ok p t good e \<longleftrightarrow>
     event_sorted e (ep_event_set (processor e p)) \<and> distinct (ep_event_set (processor e p)) \<and>
     (\<forall>ev \<in> set (ep_event_set (processor e p)).
        t \<le> event_time e ev \<and> 0 \<le> ev_cycle_tics (event_at e ev) \<and>
        ev \<notin> set (ew_freed (ex_world e)) \<and> good (event_at e ev))"

text \<open>How the schedule looks after the events \<open>D\<close> have had their turn at time \<open>t\<close>.\<close>

definition served ::
  "ep_ptr \<Rightarrow> int \<Rightarrow> event_ptr list \<Rightarrow> ('e Event_scheme, 'u) ev_sim \<Rightarrow> ('e Event_scheme, 'u) ev_sim \<Rightarrow> bool" where
  "served p t D e e' \<longleftrightarrow>
     set (ep_event_set (processor e' p)) =
       {ev \<in> set (ep_event_set (processor e p)). ev \<in> set D \<longrightarrow> ev_cycle_tics (event_at e ev) \<noteq> 0} \<and>
     (\<forall>ev. ev_cycle_tics (event_at e' ev) = ev_cycle_tics (event_at e ev)) \<and>
     (\<forall>ev. event_time e' ev =
             (if ev \<in> set D then event_time e ev + ev_cycle_tics (event_at e ev) else event_time e ev)) \<and>
     ep_process_event_job (processor e' p) = ep_process_event_job (processor e p)"

locale calm_class =
  fixes vt :: "('e Event_scheme, 'u) EventClass"
    and good :: "'e Event_scheme \<Rightarrow> bool"
  assumes process_ok: "good (event_at e ev) \<Longrightarrow>
      \<exists>r e'. vt_process vt ev t e = Some (Inr r, e') \<and> undisturbed ev e e' \<and>
             (\<forall>x. good (event_at e x) \<longrightarrow> good (event_at e' x))"
    and good_advance: "good (Event_advance_next_tics v) = good v"
begin

text \<open>The state \<open>e2\<close> after the first event \<open>ev\<close> was taken out of the set and processed.\<close>

definition popped where
  "popped p ev S e e2 \<longleftrightarrow>
     ep_event_set (processor e2 p) = S \<and> event_time e2 = event_time e \<and>
     (\<forall>x. ev_cycle_tics (event_at e2 x) = ev_cycle_tics (event_at e x)) \<and>
     ew_freed (ex_world e2) = ew_freed (ex_world e) \<and>
     ep_process_event_job (processor e2 p) = ep_process_event_job (processor e p) \<and>
     (\<forall>x. good (event_at e x) \<longrightarrow> good (event_at e2 x))"

lemma process_one_popped:
  assumes ok: "processor_ok p t good e" and S: "ep_event_set (processor e p) = ev # S"
  shows "\<exists>e2. popped p ev S e e2 \<and> process_one vt p t ev e =
     Some (Inr (), if ev_cycle_tics (event_at e ev) \<noteq> 0
       then insert_event p ev (map_event ev Event_advance_next_tics e2) else e2)"
proof -
  define e1 where "e1 = map_processor p (\<lambda>ep. ep\<lparr>ep_event_set := tl (ep_event_set ep)\<rparr>) e"
  define r where "r = (if ev_active (event_at e1 ev) then vt_process vt ev t e1 else Some (Inr 0, e1))"
  have g: "good (event_at e1 ev)" using ok S by (simp add: processor_ok_def e1_def)
  obtain v e2 where r: "r = Some (Inr v, e2)" and u: "undisturbed ev e1 e2"
    and g2: "\<And>x. good (event_at e1 x) \<Longrightarrow> good (event_at e2 x)"
  proof (cases "ev_active (event_at e1 ev)")
    case True
    with process_ok [OF g, of t] that show thesis unfolding r_def by auto
  qed (use that [of 0 e1] in \<open>simp add: r_def\<close>)
  have "popped p ev S e e2"
    using u undisturbed_time [OF u] g2 by (auto simp: popped_def undisturbed_def e1_def S)
  moreover have "process_one vt p t ev e = andthen r (\<lambda>_ e2.
      if ev \<in> set (ew_freed (ex_world e2)) then Some (Inl (Undefined ''use of a freed event''), e2)
      else if ev_cycle_tics (event_at e2 ev) \<noteq> 0
      then Some (Inr (), insert_event p ev (map_event ev Event_advance_next_tics e2))
      else Some (Inr (), e2))"
    by (simp add: process_one_def r_def e1_def Let_def)
  ultimately show ?thesis using ok S by (auto simp: r popped_def processor_ok_def)
qed

lemma one_time_turn:
  assumes ok: "processor_ok p t good e" and S: "ep_event_set (processor e p) = ev # S"
    and due: "event_time e ev = t" and pop: "popped p ev S e e2"
    and c: "ev_cycle_tics (event_at e ev) = 0"
  shows "processor_ok p t good e2" and "due_events p t e = ev # due_events p t e2"
    and "served p t [ev] e e2"
  using assms by (auto simp: popped_def processor_ok_def due_events_def served_def event_sorted_def)

lemma cyclic_turn:
  assumes ok: "processor_ok p t good e" and S: "ep_event_set (processor e p) = ev # S"
    and due: "event_time e ev = t" and pop: "popped p ev S e e2"
    and c: "ev_cycle_tics (event_at e ev) \<noteq> 0"
    and e3: "e3 = insert_event p ev (map_event ev Event_advance_next_tics e2)"
  shows "processor_ok p t good e3" and "due_events p t e = ev # due_events p t e3"
    and "served p t [ev] e e3"
proof -
  define a where "a = map_event ev Event_advance_next_tics e2"
  have at: "event_at e3 x = (if x = ev then Event_advance_next_tics (event_at e2 ev) else event_at e2 x)" for x
    by (simp add: e3 insert_event_def)
  have ce: "ev_cycle_tics (event_at e3 x) = ev_cycle_tics (event_at e x)" for x
    using pop by (simp add: at Event_advance_next_tics_def popped_def)
  have te: "event_time e3 x = (if x = ev then t + ev_cycle_tics (event_at e ev) else event_time e x)" for x
  proof -
    have "event_time e2 x = event_time e x" "event_time e2 ev = t" using pop due by (simp_all add: popped_def)
    then show ?thesis using pop by (auto simp: event_time_def at Event_advance_next_tics_def popped_def)
  qed
  have ge: "good (event_at e x) \<Longrightarrow> good (event_at e3 x)" for x
    using pop by (auto simp: at good_advance popped_def)
  have Se: "ep_event_set (processor e3 p) = event_insert a ev S"
    and fe: "ew_freed (ex_world e3) = ew_freed (ex_world e)"
    and je: "ep_process_event_job (processor e3 p) = ep_process_event_job (processor e p)"
    using pop by (simp_all add: e3 a_def insert_event_def popped_def)
  have ta: "event_time a = event_time e3" by (simp add: e3 a_def insert_event_def)
  have sS: "event_sorted e S" and dS: "distinct S" "ev \<notin> set S"
    and pos: "0 < ev_cycle_tics (event_at e ev)"
    using ok S c by (auto simp: processor_ok_def event_sorted_def)
  have "event_sorted a S" using sS dS te by (subst event_sorted_cong [of S _ e]) (auto simp: ta)
  then have "event_sorted a (event_insert a ev S)" by (rule event_sorted_insert)
  then have s3: "event_sorted e3 (event_insert a ev S)" by (simp add: event_sorted_def ta)
  show ok3: "processor_ok p t good e3"
    unfolding processor_ok_def Se fe ce te using ok s3 dS pos ge by (auto simp: processor_ok_def S)
  let ?P = "\<lambda>x. event_time e3 x = t"
  have "filter ?P (event_insert a ev S) = takeWhile ?P (event_insert a ev S)"
    using ok3 by (intro filter_sorted_takeWhile) (auto simp: processor_ok_def Se)
  also have "\<dots> = takeWhile ?P S" using pos by (intro takeWhile_event_insert) (auto simp: te ta)
  also have "\<dots> = takeWhile (\<lambda>x. event_time e x = t) S"
    using dS(2) by (intro takeWhile_cong) (auto simp: te)
  also have "\<dots> = filter (\<lambda>x. event_time e x = t) S"
    using sS ok S by (intro filter_sorted_takeWhile [symmetric]) (auto simp: processor_ok_def)
  finally show "due_events p t e = ev # due_events p t e3" by (simp add: due_events_def S Se due)
  show "served p t [ev] e e3" unfolding served_def Se ce te je using c due S by auto
qed

lemma turn:
  assumes ok: "processor_ok p t good e" and S: "ep_event_set (processor e p) = ev # S"
    and due: "event_time e ev = t"
  shows "\<exists>e'. process_one vt p t ev e = Some (Inr (), e') \<and> processor_ok p t good e' \<and>
     due_events p t e = ev # due_events p t e' \<and> served p t [ev] e e'"
proof -
  obtain e2 where pop: "popped p ev S e e2" and one: "process_one vt p t ev e =
     Some (Inr (), if ev_cycle_tics (event_at e ev) \<noteq> 0
       then insert_event p ev (map_event ev Event_advance_next_tics e2) else e2)"
    using process_one_popped [OF ok S] by blast
  show ?thesis
  proof (cases "ev_cycle_tics (event_at e ev) = 0")
    case True
    then show ?thesis using one one_time_turn [OF ok S due pop True] by auto
  next
    case False
    then show ?thesis using one cyclic_turn [OF ok S due pop False refl] by auto
  qed
qed

lemma served_step:
  assumes "served p t [ev] e e1" and "served p t D e1 e2" and "ev \<notin> set D"
  shows "served p t (ev # D) e e2"
  using assms by (auto simp: served_def)

lemma serve:
  assumes "processor_ok p t good e"
  shows "\<exists>e'. process_loop vt p t e = Some (Inr (), e') \<and>
     serve_all vt p t (due_events p t e) e = Some (Inr (), e') \<and>
     processor_ok p t good e' \<and> due_events p t e' = [] \<and> served p t (due_events p t e) e e'"
  using assms
proof (induction "length (due_events p t e)" arbitrary: e)
  case 0
  then have none: "due_events p t e = []" by simp
  have "process_loop vt p t e = Some (Inr (), e)"
    using none 0(2) by (subst process_loop.simps)
      (auto simp: due_events_def processor_ok_def split: list.splits if_splits)
  then show ?case using 0(2) none by (simp add: served_def)
next
  case (Suc n)
  let ?P = "\<lambda>x. event_time e x = t"
  have D: "due_events p t e = takeWhile ?P (ep_event_set (processor e p))"
    unfolding due_events_def using Suc.prems
    by (intro filter_sorted_takeWhile) (auto simp: processor_ok_def)
  then obtain ev S where S: "ep_event_set (processor e p) = ev # S" and due: "event_time e ev = t"
    using Suc.hyps(2) by (cases "ep_event_set (processor e p)") (auto split: if_splits)
  obtain e1 where one: "process_one vt p t ev e = Some (Inr (), e1)" and ok1: "processor_ok p t good e1"
    and D1: "due_events p t e = ev # due_events p t e1" and s1: "served p t [ev] e e1"
    using turn [OF Suc.prems S due] by blast
  have "n = length (due_events p t e1)" using Suc.hyps(2) D1 by simp
  from Suc.hyps(1) [OF this ok1] obtain e2 where
    loop: "process_loop vt p t e1 = Some (Inr (), e2)"
    and all: "serve_all vt p t (due_events p t e1) e1 = Some (Inr (), e2)"
    and ok2: "processor_ok p t good e2" and D2: "due_events p t e2 = []"
    and s2: "served p t (due_events p t e1) e1 e2" by blast
  have nf: "ev \<notin> set (ew_freed (ex_world e))" using Suc.prems S by (simp add: processor_ok_def)
  have "process_loop vt p t e = Some (Inr (), e2)"
    using S due nf by (subst process_loop.simps) (simp add: one loop)
  moreover have "ev \<notin> set (due_events p t e1)"
    using Suc.prems D1 by (metis distinct.simps(2) distinct_filter due_events_def processor_ok_def)
  ultimately show ?case
    unfolding D1 using one all ok2 D2 served_step [OF s1 s2] by simp
qed

text \<open>The schedule after the call: the next call is at the time of the earliest event left.\<close>

lemma process_event_serves:
  assumes "processor_ok p t good e"
  shows "\<exists>e1. serve_all vt p t (due_events p t e) e = Some (Inr (), e1) \<and>
     process_event vt p t e = Some (Inr 0, schedule_processor p e1) \<and>
     processor_ok p (t + 1) good (schedule_processor p e1) \<and>
     served p t (due_events p t e) e (schedule_processor p e1)"
proof -
  from serve [OF assms] obtain e1 where l: "process_loop vt p t e = Some (Inr (), e1)"
    and a: "serve_all vt p t (due_events p t e) e = Some (Inr (), e1)"
    and ok: "processor_ok p t good e1" and D: "due_events p t e1 = []"
    and s: "served p t (due_events p t e) e e1" by blast
  have "processor_ok p (t + 1) good (schedule_processor p e1)"
    using ok D by (force simp: processor_ok_def due_events_def filter_empty_conv event_sorted_def)
  moreover have "served p t (due_events p t e) e (schedule_processor p e1)"
    using s by (simp add: served_def)
  ultimately show ?thesis using a l by (simp add: process_event_def)
qed

end

end
