(* ===== verification/InputEvents.thy ===== *)
theory InputEvents
  imports IPPythonEvent EventServe
begin

text \<open>
  Events of the input file whose Python code and jobs leave the events alone: such code changes
  only the simulation's own state. Under it the class keeps the contract \<open>calm_class\<close>, so every
  call of \<open>process_event\<close> serves exactly the due events. The lemmas also give the verdict of
  \<open>process_user_event\<close> on the conditions.
\<close>

subsection \<open>Code that leaves the events alone\<close>

definition map_user :: "('u \<times> int \<Rightarrow> 'u \<times> int) \<Rightarrow> 'u py_sim \<Rightarrow> 'u py_sim" where
  "map_user f e =
     map_world (\<lambda>w. let (u, v) = f (ew_user w, ew_return_val w) in w\<lparr>ew_user := u, ew_return_val := v\<rparr>) e"

definition calm_python ::
  "(string \<Rightarrow> 'u \<times> int \<Rightarrow> 'u \<times> int) \<Rightarrow> (string \<Rightarrow> nat option) \<Rightarrow> ('u \<Rightarrow> nat \<Rightarrow> int option) \<Rightarrow> 'u Interpreter" where
  "calm_python run refs val =
     \<lparr>PyRun_SimpleString = (\<lambda>s e. Some (Inr 0, map_user (run s) e)), ref_attributes = (\<lambda>_. refs),
      ref_bool = (\<lambda>e. val (ew_user (ex_world e)))\<rparr>"

definition calm_call ::
  "(callee \<Rightarrow> 'u \<Rightarrow> int) \<Rightarrow> (callee \<Rightarrow> 'u \<Rightarrow> 'u) \<Rightarrow> (IPPythonEvent, 'u) EventWorld exec_call" where
  "calm_call ret user c e =
     Some (Inr (ret c (ew_user (ex_world e))), map_user (map_prod (user c) id) e)"

definition calm :: "event_ptr \<Rightarrow> 'u py_sim \<Rightarrow> 'u py_sim \<Rightarrow> bool" where
  "calm ev e e' \<longleftrightarrow> undisturbed ev e e' \<and>
     (ev_active (event_at e' ev) \<longrightarrow> ev_active (event_at e ev)) \<and>
     (\<forall>x. pe_is_user_event (event_at e' x) = pe_is_user_event (event_at e x) \<and>
          length (pe_actions (event_at e' x)) = length (pe_actions (event_at e x)) \<and>
          length (pe_conditions (event_at e' x)) = length (pe_conditions (event_at e x)))"

lemma calm_refl [simp]: "calm ev e e"
  by (simp add: calm_def)

lemma calm_trans [trans]: "calm ev e e1 \<Longrightarrow> calm ev e1 e2 \<Longrightarrow> calm ev e e2"
  using undisturbed_trans [of ev e e1 e2] by (simp add: calm_def)

lemma map_user_simps [simp]:
  "event_at (map_user f e) = event_at e" "processor (map_user f e) = processor e"
  "ew_freed (ex_world (map_user f e)) = ew_freed (ex_world e)"
  "ex_jobs (map_user f e) = ex_jobs e"
  "ew_terminate_on_error (ex_world (map_user f e)) = ew_terminate_on_error (ex_world e)"
  by (auto simp: map_user_def event_at_def processor_def fun_eq_iff split: prod.split)

lemma calm_map_user [simp]: "calm ev e (map_user f e)"
  by (simp add: calm_def undisturbed_def)

lemma calm_map_job [simp]: "calm ev e (map_job j f e)"
  by (simp add: calm_def undisturbed_def)

lemma calm_map_event:
  assumes "\<And>v. ev_next_tics (f v) = ev_next_tics v" "\<And>v. ev_cycle_tics (f v) = ev_cycle_tics v"
    and "\<And>v. pe_is_user_event (f v) = pe_is_user_event v"
    and "\<And>v. length (pe_actions (f v)) = length (pe_actions v)"
    and "\<And>v. length (pe_conditions (f v)) = length (pe_conditions v)"
    and "\<And>v. ev_active (f v) \<Longrightarrow> ev_active v"
  shows "calm ev e (map_event ev f e)"
  using assms by (simp add: calm_def undisturbed_def)

text \<open>What such code works on: the simulation's own state and the interpreter's last value.\<close>

definition user_state :: "'u py_sim \<Rightarrow> 'u \<times> int" where
  "user_state e = (ew_user (ex_world e), ew_return_val (ex_world e))"

lemma user_state_simps [simp]:
  "user_state (map_user f e) = f (user_state e)" "user_state (map_event ev g e) = user_state e"
  "user_state (map_job j k e) = user_state e"
  by (simp_all add: user_state_def map_user_def map_event_def map_job_def split: prod.split)

lemma fold_map_user:
  "fold (\<lambda>c. map_user (map_prod (user c) id)) cs e = map_user (map_prod (fold user cs) id) e"
proof (induction cs arbitrary: e)
  case Nil
  show ?case by (simp add: map_user_def split: prod.split)
next
  case (Cons c cs)
  then show ?case by (simp add: map_user_def split: prod.split)
qed

text \<open>The calls a job makes, which no calm code changes.\<close>

definition insts :: "'w Executive \<Rightarrow> job_ptr \<Rightarrow> InstrumentBase list \<times> InstrumentBase list" where
  "insts e j = (jd_inst_before (ex_jobs e j), jd_inst_after (ex_jobs e j))"

lemma insts_simps [simp]:
  "insts (map_user f e) = insts e" "insts (map_event ev g e) = insts e"
  "insts (set_job_disabled j b e') = insts e'"
  by (auto simp: insts_def fun_eq_iff set_job_disabled_def map_job_def map_event_def)

text \<open>The value of a condition in a state of the simulation, and the state its evaluation leaves.\<close>

definition condition_value ::
  "(callee \<Rightarrow> 'u \<Rightarrow> int) \<Rightarrow> (callee \<Rightarrow> 'u \<Rightarrow> 'u) \<Rightarrow> (string \<Rightarrow> 'u \<times> int \<Rightarrow> 'u \<times> int) \<Rightarrow> ('u \<Rightarrow> nat \<Rightarrow> int option) \<Rightarrow>
   (job_ptr \<Rightarrow> InstrumentBase list \<times> InstrumentBase list) \<Rightarrow> condition_t \<Rightarrow> 'u \<times> int \<Rightarrow> int \<times> 'u \<times> int" where
  "condition_value ret user run val ins c s =
     (case c_ref c of
        Some ref \<Rightarrow> (case val (fst s) ref of None \<Rightarrow> 0 | Some v \<Rightarrow> v, s)
      | None \<Rightarrow>
          (case c_job c of
             Some job \<Rightarrow>
               (let u = fold user (map Instrument (fst (ins job))) (fst s)
                in (ret (Job job) u, fold user (map Instrument (snd (ins job))) (user (Job job) u), snd s))
           | None \<Rightarrow> (let s1 = run (''trick_ip.ip.return_val = '' @ c_str c @ [CHR 0x0A]) s in (snd s1, s1))))"

lemma call_enabled_calm:
  fixes e :: "'u py_sim"
  shows "\<exists>e'. call_enabled (calm_call ret user) job e =
      Some (Inr (ret (Job job) (fold user (map Instrument (fst (insts e job))) (fst (user_state e)))), e') \<and>
    user_state e' = (fold user (map Instrument (snd (insts e job)))
      (user (Job job) (fold user (map Instrument (fst (insts e job))) (fst (user_state e)))), snd (user_state e)) \<and>
    event_at e' = event_at e \<and> insts e' = insts e \<and> (\<forall>ev. calm ev e e')"
proof -
  let ?eff = "\<lambda>c (e :: 'u py_sim). map_user (map_prod (user c) id) e"
  let ?e = "set_job_disabled job False e"
  have i: "jd_inst_before (ex_jobs ?e job) = fst (insts e job)" "job_calls (ex_jobs ?e) job =
      map Instrument (fst (insts e job)) @ Job job # map Instrument (snd (insts e job))"
    by (simp_all add: insts_def set_job_disabled_def map_job_def job_calls_def)
  have u: "ew_user (ex_world (fold ?eff cs v)) = fold user cs (fst (user_state v))" for cs v
    unfolding fold_map_user using user_state_simps(1) [of "map_prod (fold user cs) id" v]
    by (simp add: user_state_def prod_eq_iff)
  have us: "user_state ?e = user_state e" by (simp add: set_job_disabled_def)
  have "JobData_call ex_jobs (calm_call ret user) job ?e =
      Some (Inr (ret (Job job) (ew_user (ex_world (fold ?eff (map Instrument (jd_inst_before (ex_jobs ?e job))) ?e)))),
        fold ?eff (job_calls (ex_jobs ?e) job) ?e)"
    by (rule JobData_call_result) (simp_all add: calm_call_def)
  then have r: "JobData_call ex_jobs (calm_call ret user) job ?e =
      Some (Inr (ret (Job job) (fold user (map Instrument (fst (insts e job))) (fst (user_state e)))),
        map_user (map_prod (fold user (job_calls (ex_jobs ?e) job)) id) ?e)"
    by (simp only: i(1) u us) (simp only: fold_map_user)
  have c: "calm ev v (set_job_disabled job b v)" for ev v b by (simp add: set_job_disabled_def)
  have e': "event_at (set_job_disabled job b v) = event_at v" "user_state (set_job_disabled job b v) = user_state v"
    for b and v :: "'u py_sim"
    by (simp_all add: set_job_disabled_def)
  show ?thesis
    unfolding call_enabled_def Let_def r
    by (auto simp: i(2) e' map_prod_def split: prod.split intro: calm_trans [OF calm_trans [OF c calm_map_user] c])
qed

lemma calm_call_enabled:
  "\<exists>r e'. call_enabled (calm_call ret user) job e = Some (Inr r, e') \<and> calm ev e e'"
  using call_enabled_calm [of ret user job e] by blast

lemma calm_evaluate:
  "\<exists>r e'. evaluate_condition (calm_call ret user) (calm_python run refs val) c e = Some (Inr r, e') \<and>
     calm ev e e'"
  using calm_call_enabled [of ret user _ e ev]
  by (auto simp: evaluate_condition_def parse_condition_def calm_python_def throw_on_error_def
      split: option.split)

lemma calm_condition_step:
  assumes "ii < length (pe_conditions (event_at e ev))"
  shows "\<exists>e'. condition_step (calm_call ret user) (calm_python run refs val) ev t ii e = Some (Inr (), e') \<and>
     calm ev e e'"
proof -
  have m: "calm ev e (map_condition ev ii f e)" for f and e :: "'u py_sim"
    unfolding map_condition_def by (rule calm_map_event) simp_all
  have c: "calm ev e (map_event ev (combine_condition ii) e)" for e :: "'u py_sim"
    by (rule calm_map_event) (simp_all add: combine_condition_def Let_def split: if_splits)
  let ?e = "map_condition ev ii (\<lambda>c. c\<lparr>c_fired := False\<rparr>) e"
  obtain r e1 where ev: "evaluate_condition (calm_call ret user) (calm_python run refs val)
      (pe_conditions (event_at e ev) ! ii) ?e = Some (Inr r, e1)" and e1: "calm ev ?e e1"
    using calm_evaluate [of ret user run refs val "pe_conditions (event_at e ev) ! ii" ?e ev] by blast
  have ee1: "calm ev e e1" using calm_trans [OF m e1] .
  moreover have "\<not> length (pe_conditions (event_at e1 ev)) \<le> ii"
    using ee1 assms by (simp add: calm_def)
  ultimately show ?thesis
    unfolding condition_step_def Let_def
    using m c by (auto simp: ev intro: calm_trans [OF ee1] calm_trans [OF calm_trans [OF ee1 m]])
qed

lemma calm_condition_loop:
  "\<exists>e'. condition_loop (calm_call ret user) (calm_python run refs val) ev t ii e = Some (Inr (), e') \<and>
     calm ev e e'"
proof (induction "length (pe_conditions (event_at e ev)) - ii" arbitrary: ii e)
  case 0
  then show ?case by (subst condition_loop.simps) simp
next
  case (Suc n)
  then have ii: "ii < length (pe_conditions (event_at e ev))" by simp
  obtain e1 where 1: "condition_step (calm_call ret user) (calm_python run refs val) ev t ii e = Some (Inr (), e1)"
    and c1: "calm ev e e1" using calm_condition_step [OF ii] by blast
  have "n = length (pe_conditions (event_at e1 ev)) - Suc ii" using Suc.hyps(2) c1 by (simp add: calm_def)
  from Suc.hyps(1) [OF this] obtain e2 where
    "condition_loop (calm_call ret user) (calm_python run refs val) ev t (Suc ii) e1 = Some (Inr (), e2)"
    "calm ev e1 e2" by blast
  then show ?case using ii 1 calm_trans [OF c1] by (subst condition_loop.simps) auto
qed

lemma calm_run_action:
  "\<exists>e'. run_action (calm_call ret user) (calm_python run refs val) a e = Some (Inr (), e') \<and> calm ev e e'"
proof (cases "a_job a")
  case None
  then show ?thesis by (simp add: run_action_def ip_parse_def calm_python_def throw_on_error_def)
next
  case (Some job)
  obtain r e' where "call_enabled (calm_call ret user) job e = Some (Inr r, e')" "calm ev e e'"
    using calm_call_enabled by blast
  then show ?thesis using Some by (simp add: run_action_def set_job_disabled_def)
qed

lemma calm_map_action: "calm ev e (map_action ev ii f e)"
  unfolding map_action_def by (rule calm_map_event) simp_all

lemma calm_action_loop:
  "\<exists>b e'. action_loop (calm_call ret user) (calm_python run refs val) ev t ii it_ran e = Some (Inr b, e') \<and>
     calm ev e e'"
proof (induction "length (pe_actions (event_at e ev)) - ii" arbitrary: ii it_ran e)
  case 0
  then show ?case by (subst action_loop.simps) simp
next
  case (Suc n)
  let ?a = "pe_actions (event_at e ev) ! ii"
  have ii: "ii < length (pe_actions (event_at e ev))" using Suc.hyps(2) by simp
  have go: "\<exists>b e'. action_loop (calm_call ret user) (calm_python run refs val) ev t (Suc ii) ran e1 = Some (Inr b, e') \<and>
     calm ev e e'" if "calm ev e e1" for ran e1
  proof -
    have "n = length (pe_actions (event_at e1 ev)) - Suc ii" using Suc.hyps(2) that by (simp add: calm_def)
    from Suc.hyps(1) [OF this] show ?thesis using calm_trans [OF that] by blast
  qed
  show ?case
  proof (cases "a_enabled ?a")
    case False
    then show ?thesis using ii go [OF calm_map_action] by (subst action_loop.simps) (simp add: Let_def)
  next
    case True
    obtain e1 where r: "run_action (calm_call ret user) (calm_python run refs val) ?a e = Some (Inr (), e1)"
      and c1: "calm ev e e1" using calm_run_action by blast
    let ?m = "map_action ev ii (\<lambda>a. a\<lparr>a_ran := True, a_ran_count := a_ran_count a + 1, a_ran_time := dbl t\<rparr>) e1"
    have "calm ev ?m (map_event ev (\<lambda>v. v\<lparr>pe_ran := True\<rparr>) ?m)" by (rule calm_map_event) simp_all
    then have c2: "calm ev e (map_event ev (\<lambda>v. v\<lparr>pe_ran := True\<rparr>) ?m)"
      using calm_trans [OF c1 calm_map_action] calm_trans by blast
    have "\<not> length (pe_actions (event_at e1 ev)) \<le> ii" using ii c1 by (simp add: calm_def)
    then show ?thesis using ii r go [OF c2] True by (subst action_loop.simps) (simp add: Let_def)
  qed
qed

lemma calm_updates:
  "calm ev e (map_event ev (\<lambda>v. v\<lparr>pe_fired := False, pe_ran := False\<rparr>) e)"
  "calm ev e (map_event ev (\<lambda>v. v\<lparr>pe_hold := False\<rparr>) e)"
  "calm ev e (map_event ev (\<lambda>v. v\<lparr>ev_active := False\<rparr>) e)"
  "calm ev e (map_event ev (note_fired t) e)"
  "calm ev e (map_event ev (\<lambda>v. v\<lparr>pe_manual_fired := (pe_manual_fired v \<and> pe_hold v),
     pe_fired := (pe_fired v \<and> pe_hold v)\<rparr>) e)"
  "calm ev e (map_event ev (\<lambda>v. v\<lparr>pe_ran_count := pe_ran_count v + 1, pe_ran_time := dbl t\<rparr>) e)"
  "calm ev e (map_event ev (\<lambda>v. v\<lparr>pe_fired_count := pe_fired_count v + 1, pe_fired_time := dbl t,
     pe_ran := True, pe_ran_count := pe_ran_count v + 1, pe_ran_time := dbl t\<rparr>) e)"
  by (rule calm_map_event; simp add: note_fired_def Let_def split: if_splits)+

lemma calm_evaluate_event:
  "\<exists>e'. evaluate_event (calm_call ret user) (calm_python run refs val) ev t e = Some (Inr (), e') \<and>
     calm ev e e'"
proof -
  let ?e1 = "map_event ev (\<lambda>v. v\<lparr>pe_fired := False, pe_ran := False\<rparr>) e"
  obtain e2 where l: "condition_loop (calm_call ret user) (calm_python run refs val) ev t 0
      (map_event ev (\<lambda>v. v\<lparr>pe_hold := False\<rparr>) ?e1) = Some (Inr (), e2)"
    and c: "calm ev (map_event ev (\<lambda>v. v\<lparr>pe_hold := False\<rparr>) ?e1) e2"
    using calm_condition_loop by blast
  have "calm ev e e2" by (rule calm_trans [OF calm_trans [OF calm_updates(1,2)] c])
  moreover have "calm ev e ?e1" by (rule calm_updates)
  ultimately show ?thesis using l unfolding evaluate_event_def Let_def by (cases "pe_manual (event_at ?e1 ev)") simp_all
qed

lemma calm_run_actions:
  "\<exists>e'. run_actions (calm_call ret user) (calm_python run refs val) ev t e = Some (Inr (), e') \<and>
     calm ev e e'"
proof -
  obtain b e1 where "action_loop (calm_call ret user) (calm_python run refs val) ev t 0 False e = Some (Inr b, e1)"
    and "calm ev e e1" using calm_action_loop by blast
  then show ?thesis
    using calm_trans [OF calm_trans [OF \<open>calm ev e e1\<close> calm_updates(5)] calm_updates(6)]
      calm_trans [OF \<open>calm ev e e1\<close> calm_updates(5)]
    by (simp add: run_actions_def Let_def)
qed

lemma calm_process_user_event:
  "\<exists>b e'. process_user_event (calm_call ret user) (calm_python run refs val) ev t e = Some (Inr b, e') \<and>
     calm ev e e'"
proof -
  obtain e1 where 1: "evaluate_event (calm_call ret user) (calm_python run refs val) ev t e = Some (Inr (), e1)"
    and c1: "calm ev e e1" using calm_evaluate_event by blast
  obtain e2 where 2: "run_actions (calm_call ret user) (calm_python run refs val) ev t
      (map_event ev (note_fired t) e1) = Some (Inr (), e2)" and c2: "calm ev (map_event ev (note_fired t) e1) e2"
    using calm_run_actions by blast
  have "calm ev e e2" using calm_trans [OF c1 calm_trans [OF calm_updates(4) c2]] .
  then show ?thesis using c1
    by (cases "pe_manual_fired (event_at e1 ev) \<or> pe_fired (event_at e1 ev)")
      (auto simp: process_user_event_def 1 2 Let_def)
qed

lemma calm_process:
  assumes "pe_is_user_event (event_at e ev) \<or> pe_actions (event_at e ev) \<noteq> []"
  shows "\<exists>r e'. IPPythonEvent_process (calm_call ret user) (calm_python run refs val) ev t e = Some (Inr r, e') \<and>
     calm ev e e'"
proof (cases "pe_is_user_event (event_at e ev)")
  case True
  obtain b e' where
    "process_user_event (calm_call ret user) (calm_python run refs val) ev t e = Some (Inr b, e')" "calm ev e e'"
    using calm_process_user_event by blast
  then show ?thesis using True by (simp add: IPPythonEvent_process_def)
next
  case False
  let ?e1 = "map_event ev (\<lambda>v. v\<lparr>ev_active := False\<rparr>) e"
  obtain a as where "pe_actions (event_at ?e1 ev) = a # as"
    using assms False by (cases "pe_actions (event_at e ev)") auto
  moreover have "calm ev e (map_event ev (\<lambda>v. v\<lparr>pe_fired_count := pe_fired_count v + 1,
      pe_fired_time := dbl t, pe_ran := True, pe_ran_count := pe_ran_count v + 1, pe_ran_time := dbl t\<rparr>)
      (map_action ev ii g (map_user f ?e1)))" for f ii g
    by (rule calm_trans [OF calm_trans [OF calm_trans [OF calm_updates(3) calm_map_user] calm_map_action] calm_updates(7)])
  ultimately show ?thesis
    using False
    by (simp add: IPPythonEvent_process_def process_read_event_def ip_parse_def calm_python_def throw_on_error_def Let_def)
qed

subsection \<open>The verdict on the conditions\<close>

text \<open>
  What the conditions yield, each evaluated in the state the ones before it left: nothing when it is
  disabled, true without an evaluation when it is held from before, else whether its value is not 0.
\<close>

fun condition_results ::
  "(condition_t \<Rightarrow> 's \<Rightarrow> int \<times> 's) \<Rightarrow> condition_t list \<Rightarrow> 's \<Rightarrow> bool option list" where
  "condition_results vf [] s = []"
| "condition_results vf (c # cs) s =
     (if \<not> c_enabled c then None # condition_results vf cs s
      else if c_hold c \<and> c_fired c then Some True # condition_results vf cs s
      else (let (v, s1) = vf c s in Some (v \<noteq> 0) # condition_results vf cs s1))"

lemma length_condition_results [simp]: "length (condition_results vf cs s) = length cs"
  by (induction vf cs s rule: condition_results.induct) (simp_all split: prod.split)

lemma condition_results_None [simp]:
  "k < length cs \<Longrightarrow> condition_results vf cs s ! k = None \<longleftrightarrow> \<not> c_enabled (cs ! k)"
  by (induction vf cs s arbitrary: k rule: condition_results.induct) (auto simp: nth_Cons' split: prod.split)

text \<open>
  \<open>fired\<close> after the first \<open>n\<close> conditions: for \<open>condition_all\<close> the enabled ones must be true, and the
  first one must be enabled, since it is the one that sets the initial value.
\<close>

definition fired_after :: "bool \<Rightarrow> bool option list \<Rightarrow> nat \<Rightarrow> bool" where
  "fired_after all rs n \<longleftrightarrow>
     (if all then 0 < n \<and> rs ! 0 \<noteq> None \<and> (\<forall>k < n. rs ! k \<noteq> Some False) else \<exists>k < n. rs ! k = Some True)"

definition verdict :: "bool \<Rightarrow> bool option list \<Rightarrow> bool" where
  "verdict all rs = fired_after all rs (length rs)"

lemma fired_after_Suc:
  "fired_after all rs (Suc n) \<longleftrightarrow>
     (case rs ! n of
        None \<Rightarrow> fired_after all rs n
      | Some b \<Rightarrow> if n = 0 then b
                  else if all then fired_after all rs n \<and> b else fired_after all rs n \<or> b)"
  by (auto simp: fired_after_def less_Suc_eq split: option.split)

text \<open>
  The part of the state the verdict looks at, with the conditions from \<open>ii\<close> on still untouched and
  their results, from the present state of the simulation, still to come.
\<close>

definition evaluating ::
  "(condition_t \<Rightarrow> 'u \<times> int \<Rightarrow> int \<times> 'u \<times> int) \<Rightarrow> IPPythonEvent \<Rightarrow> bool option list \<Rightarrow>
   event_ptr \<Rightarrow> nat \<Rightarrow> 'u py_sim \<Rightarrow> bool" where
  "evaluating vf v0 rs ev ii e \<longleftrightarrow>
     (let v = event_at e ev in
      length (pe_conditions v) = length (pe_conditions v0) \<and>
      (\<forall>k. ii \<le> k \<longrightarrow> k < length (pe_conditions v0) \<longrightarrow> pe_conditions v ! k = pe_conditions v0 ! k) \<and>
      pe_cond_all v = pe_cond_all v0 \<and> pe_manual_fired v = pe_manual_fired v0 \<and>
      condition_results vf (drop ii (pe_conditions v0)) (user_state e) = drop ii rs \<and>
      pe_fired v = fired_after (pe_cond_all v0) rs ii)"

lemma results_step:
  assumes "condition_results vf (drop ii cs) s = drop ii rs" and "ii < length cs"
  shows "if \<not> c_enabled (cs ! ii) then rs ! ii = None \<and> condition_results vf (drop (Suc ii) cs) s = drop (Suc ii) rs
    else if c_hold (cs ! ii) \<and> c_fired (cs ! ii)
    then rs ! ii = Some True \<and> condition_results vf (drop (Suc ii) cs) s = drop (Suc ii) rs
    else rs ! ii = Some (fst (vf (cs ! ii) s) \<noteq> 0) \<and>
      condition_results vf (drop (Suc ii) cs) (snd (vf (cs ! ii) s)) = drop (Suc ii) rs"
proof -
  have "length (drop ii rs) = length (drop ii cs)" using assms(1) length_condition_results by metis
  then have l: "ii < length rs" using assms(2) by simp
  have "drop ii cs = cs ! ii # drop (Suc ii) cs" "drop ii rs = rs ! ii # drop (Suc ii) rs"
    using assms(2) l by (simp_all add: Cons_nth_drop_Suc)
  with assms(1) show ?thesis by (auto split: if_splits prod.splits)
qed

lemma evaluate_condition_calm:
  fixes e :: "'u py_sim"
  shows "\<exists>e'. evaluate_condition (calm_call ret user) (calm_python run refs val) c e =
      Some (Inr (fst (condition_value ret user run val (insts e) c (user_state e))), e') \<and>
    user_state e' = snd (condition_value ret user run val (insts e) c (user_state e)) \<and>
    event_at e' = event_at e \<and> insts e' = insts e"
proof (cases "c_ref c")
  case (Some ref)
  then show ?thesis
    by (simp add: evaluate_condition_def condition_value_def calm_python_def user_state_def split: option.split)
next
  case None
  show ?thesis
  proof (cases "c_job c")
    case (Some job)
    then show ?thesis
      using None call_enabled_calm [of ret user job e]
      by (auto simp: evaluate_condition_def condition_value_def Let_def)
  next
    case none: None
    let ?s = "''trick_ip.ip.return_val = '' @ c_str c @ [CHR 0x0A]"
    have "ew_return_val (ex_world (map_user (run ?s) e)) = snd (run ?s (user_state e))"
      using user_state_simps(1) [of "run ?s" e] by (simp add: user_state_def prod_eq_iff)
    then show ?thesis using None none
      by (simp add: evaluate_condition_def condition_value_def calm_python_def parse_condition_def
          throw_on_error_def Let_def)
  qed
qed

text \<open>The value of a condition to this event code, for the calls the jobs make in \<open>e\<close>.\<close>

abbreviation value_in ::
  "(callee \<Rightarrow> 'u \<Rightarrow> int) \<Rightarrow> (callee \<Rightarrow> 'u \<Rightarrow> 'u) \<Rightarrow> (string \<Rightarrow> 'u \<times> int \<Rightarrow> 'u \<times> int) \<Rightarrow> ('u \<Rightarrow> nat \<Rightarrow> int option) \<Rightarrow>
   'u py_sim \<Rightarrow> condition_t \<Rightarrow> 'u \<times> int \<Rightarrow> int \<times> 'u \<times> int" where
  "value_in ret user run val e \<equiv> condition_value ret user run val (insts e)"

lemma condition_step_verdict:
  fixes e :: "'u py_sim"
  assumes inv: "evaluating (value_in ret user run val e) v0 rs ev ii e" and ii: "ii < length (pe_conditions v0)"
  shows "\<exists>e'. condition_step (calm_call ret user) (calm_python run refs val) ev t ii e = Some (Inr (), e') \<and>
    insts e' = insts e \<and> evaluating (value_in ret user run val e') v0 rs ev (Suc ii) e'"
proof -
  let ?c = "pe_conditions v0 ! ii" and ?val = "value_in ret user run val e"
  let ?cf = "calm_call ret user" and ?py = "calm_python run refs val"
  have c: "pe_conditions (event_at e ev) ! ii = ?c" and len: "ii < length (pe_conditions (event_at e ev))"
    using inv ii by (auto simp: evaluating_def Let_def)
  have rs: "if \<not> c_enabled ?c then rs ! ii = None \<and> condition_results ?val (drop (Suc ii) (pe_conditions v0)) (user_state e) = drop (Suc ii) rs
    else if c_hold ?c \<and> c_fired ?c
    then rs ! ii = Some True \<and> condition_results ?val (drop (Suc ii) (pe_conditions v0)) (user_state e) = drop (Suc ii) rs
    else rs ! ii = Some (fst (?val ?c (user_state e)) \<noteq> 0) \<and>
      condition_results ?val (drop (Suc ii) (pe_conditions v0)) (snd (?val ?c (user_state e))) = drop (Suc ii) rs"
    by (rule results_step) (use inv ii in \<open>simp_all add: evaluating_def Let_def\<close>)
  let ?e0 = "map_condition ev ii (\<lambda>c. c\<lparr>c_fired := False\<rparr>) e"
  have e0: "insts ?e0 = insts e" "user_state ?e0 = user_state e" by (simp_all add: map_condition_def)
  obtain e1 where e1: "evaluate_condition ?cf ?py ?c ?e0 = Some (Inr (fst (?val ?c (user_state e))), e1)"
    and at1: "event_at e1 = event_at ?e0" and u1: "user_state e1 = snd (?val ?c (user_state e))"
    and i1: "insts e1 = insts e"
    using evaluate_condition_calm [of ret user run refs val ?c ?e0] unfolding e0 by blast
  consider (off) "\<not> c_enabled ?c" | (held) "c_enabled ?c" "c_hold ?c" "c_fired ?c"
    | (eval) "c_enabled ?c" "\<not> (c_hold ?c \<and> c_fired ?c)" by blast
  then show ?thesis
  proof cases
    case off
    then have "condition_step ?cf ?py ev t ii e = Some (Inr (), ?e0)" by (simp add: condition_step_def c)
    moreover have "evaluating (value_in ret user run val ?e0) v0 rs ev (Suc ii) ?e0"
      using off inv ii rs unfolding evaluating_def Let_def e0
      by (auto simp: fired_after_Suc map_condition_def)
    ultimately show ?thesis using e0 by blast
  next
    case held
    let ?e1 = "map_event ev (combine_condition ii) e"
    have "condition_step ?cf ?py ev t ii e = Some (Inr (), ?e1)" using held by (simp add: condition_step_def c)
    moreover have "evaluating (value_in ret user run val ?e1) v0 rs ev (Suc ii) ?e1"
      using held inv ii rs unfolding evaluating_def Let_def
      by (auto simp: fired_after_Suc combine_condition_def Let_def)
    ultimately show ?thesis using insts_simps(2) by blast
  next
    case eval
    let ?V = "fst (?val ?c (user_state e))"
    let ?e2 = "if ?V \<noteq> 0 then map_condition ev ii (\<lambda>c. c\<lparr>c_fired := True,
        c_fired_count := c_fired_count c + 1, c_fired_time := dbl t\<rparr>) e1 else e1"
    let ?e3 = "map_event ev (combine_condition ii) ?e2"
    have v1: "event_at e1 ev = (event_at e ev)\<lparr>pe_conditions :=
        (pe_conditions (event_at e ev))[ii := ?c\<lparr>c_fired := False\<rparr>]\<rparr>"
      by (simp add: at1 map_condition_def c)
    have s: "insts ?e3 = insts e" "user_state ?e3 = snd (?val ?c (user_state e))"
      by (simp_all add: map_condition_def i1 u1)
    have "condition_step ?cf ?py ev t ii e = Some (Inr (), ?e3)"
      using eval len by (auto simp: condition_step_def Let_def c e1 v1)
    moreover have "evaluating (value_in ret user run val ?e3) v0 rs ev (Suc ii) ?e3"
      using eval inv len ii rs unfolding evaluating_def Let_def s
      by (auto simp: fired_after_Suc combine_condition_def map_condition_def v1 Let_def)
    ultimately show ?thesis using s(1) by blast
  qed
qed

lemma condition_loop_verdict:
  fixes e :: "'u py_sim"
  shows "evaluating (value_in ret user run val e) v0 rs ev ii e \<Longrightarrow> ii \<le> length (pe_conditions v0) \<Longrightarrow>
    \<exists>e'. condition_loop (calm_call ret user) (calm_python run refs val) ev t ii e = Some (Inr (), e') \<and>
         pe_fired (event_at e' ev) = fired_after (pe_cond_all v0) rs (length (pe_conditions v0)) \<and>
         pe_manual_fired (event_at e' ev) = pe_manual_fired v0"
proof (induction "length (pe_conditions v0) - ii" arbitrary: ii e)
  case 0
  then have "ii = length (pe_conditions v0)" by simp
  then show ?case using 0 by (subst condition_loop.simps) (simp add: evaluating_def Let_def)
next
  case (Suc n)
  then have ii: "ii < length (pe_conditions v0)" by simp
  obtain e1 where 1: "condition_step (calm_call ret user) (calm_python run refs val) ev t ii e = Some (Inr (), e1)"
    and i1: "evaluating (value_in ret user run val e1) v0 rs ev (Suc ii) e1"
    using condition_step_verdict [OF Suc.prems(1) ii] by blast
  have "n = length (pe_conditions v0) - Suc ii" "Suc ii \<le> length (pe_conditions v0)"
    using Suc.hyps(2) ii by simp_all
  from Suc.hyps(1) [OF this(1) i1 this(2)] obtain e2 where
    "condition_loop (calm_call ret user) (calm_python run refs val) ev t (Suc ii) e1 = Some (Inr (), e2)"
    "pe_fired (event_at e2 ev) = fired_after (pe_cond_all v0) rs (length (pe_conditions v0))"
    "pe_manual_fired (event_at e2 ev) = pe_manual_fired v0" by auto
  moreover have "ii < length (pe_conditions (event_at e ev))"
    using Suc.prems(1) ii by (simp add: evaluating_def Let_def)
  ultimately show ?case using 1 by (subst condition_loop.simps) simp
qed

lemma evaluate_event_verdict:
  fixes e :: "'u py_sim"
  assumes "\<not> pe_manual (event_at e ev)"
  shows "\<exists>e'. evaluate_event (calm_call ret user) (calm_python run refs val) ev t e = Some (Inr (), e') \<and>
     pe_fired (event_at e' ev) = verdict (pe_cond_all (event_at e ev))
       (condition_results (value_in ret user run val e) (pe_conditions (event_at e ev)) (user_state e)) \<and>
     pe_manual_fired (event_at e' ev) = pe_manual_fired (event_at e ev)"
proof -
  let ?rs = "condition_results (value_in ret user run val e) (pe_conditions (event_at e ev)) (user_state e)"
  let ?e1 = "map_event ev (\<lambda>v. v\<lparr>pe_fired := False, pe_ran := False\<rparr>) e"
  let ?e2 = "map_event ev (\<lambda>v. v\<lparr>pe_hold := False\<rparr>) ?e1"
  have "evaluating (value_in ret user run val ?e2) (event_at e ev) ?rs ev 0 ?e2"
    by (simp add: evaluating_def fired_after_def)
  from condition_loop_verdict [OF this, where t = t and refs = refs] obtain e' where
    "condition_loop (calm_call ret user) (calm_python run refs val) ev t 0 ?e2 = Some (Inr (), e')"
    "pe_fired (event_at e' ev) = fired_after (pe_cond_all (event_at e ev)) ?rs (length (pe_conditions (event_at e ev)))"
    "pe_manual_fired (event_at e' ev) = pe_manual_fired (event_at e ev)" by auto
  then show ?thesis using assms by (auto simp: evaluate_event_def Let_def verdict_def)
qed

text \<open>An event that fires by its conditions becomes inactive.\<close>

lemma process_user_event_verdict:
  fixes e :: "'u py_sim" and ret user run val
  assumes "\<not> pe_manual (event_at e ev)" and "\<not> pe_manual_fired (event_at e ev)"
  defines "fires \<equiv> verdict (pe_cond_all (event_at e ev))
    (condition_results (value_in ret user run val e) (pe_conditions (event_at e ev)) (user_state e))"
  shows "\<exists>e'. process_user_event (calm_call ret user) (calm_python run refs val) ev t e = Some (Inr fires, e') \<and>
     calm ev e e' \<and> (fires \<longrightarrow> \<not> ev_active (event_at e' ev))"
proof -
  obtain e1 where 1: "evaluate_event (calm_call ret user) (calm_python run refs val) ev t e = Some (Inr (), e1)"
    and f: "pe_fired (event_at e1 ev) = fires" "\<not> pe_manual_fired (event_at e1 ev)"
    using evaluate_event_verdict [OF assms(1)] assms(2) unfolding fires_def by blast
  have c1: "calm ev e e1" using calm_evaluate_event [of ret user run refs val ev t e] 1 by auto
  obtain e2 where 2: "run_actions (calm_call ret user) (calm_python run refs val) ev t
      (map_event ev (note_fired t) e1) = Some (Inr (), e2)" and c2: "calm ev (map_event ev (note_fired t) e1) e2"
    using calm_run_actions by blast
  have "calm ev e e2" using calm_trans [OF c1 calm_trans [OF calm_updates(4) c2]] .
  moreover have "\<not> ev_active (event_at e2 ev)"
    using c2 f(2) by (simp add: calm_def note_fired_def Let_def)
  ultimately show ?thesis using c1 f by (simp add: process_user_event_def 1 2 Let_def)
qed

lemma verdict_any: "verdict False rs \<longleftrightarrow> Some True \<in> set rs"
  by (auto simp: verdict_def fired_after_def in_set_conv_nth)

lemma verdict_all: "verdict True rs \<longleftrightarrow> rs \<noteq> [] \<and> hd rs \<noteq> None \<and> Some False \<notin> set rs"
  by (auto simp: verdict_def fired_after_def in_set_conv_nth hd_conv_nth)

subsection \<open>The contract\<close>

text \<open>The contract: a user event, or a read event with its action.\<close>

definition runnable :: "IPPythonEvent \<Rightarrow> bool" where
  "runnable v \<longleftrightarrow> pe_is_user_event v \<or> pe_actions v \<noteq> []"

interpretation input_events: calm_class "IPPythonEvent_class (calm_call ret user) (calm_python run refs val)" runnable
proof
  fix e :: "'a py_sim" and ev t
  assume "runnable (event_at e ev)"
  then obtain r e' where p: "IPPythonEvent_process (calm_call ret user) (calm_python run refs val) ev t e = Some (Inr r, e')"
    and c: "calm ev e e'" using calm_process unfolding runnable_def by blast
  have "runnable (event_at e x) \<longrightarrow> runnable (event_at e' x)" for x
    using c by (metis calm_def length_0_conv runnable_def)
  then show "\<exists>r e'. vt_process (IPPythonEvent_class (calm_call ret user) (calm_python run refs val)) ev t e = Some (Inr r, e') \<and>
      undisturbed ev e e' \<and> (\<forall>x. runnable (event_at e x) \<longrightarrow> runnable (event_at e' x))"
    using p c by (simp add: IPPythonEvent_class_def calm_def)
qed (simp add: runnable_def Event_advance_next_tics_def)

end
