(* ===== verification/EventManager.thy ===== *)
theory EventManager
  imports EventProcessor
begin

text \<open>
  \<open>Trick::EventManager\<close> (sim\_services/EventManager/EventManager.cpp) and \<open>Trick::EventInstrument\<close>
  (EventInstrument.cpp): the list of active events, and the places events are attached to, which
  are the event processors of the threads or the instrumentation lists of a job.
\<close>

subsection \<open>Instruments\<close>

text \<open>The base constructor leaves the name empty and sets the phase 60000.\<close>

definition new_EventInstrument :: "event_ptr \<Rightarrow> job_ptr \<Rightarrow> EventInstrument" where
  "new_EventInstrument in_event in_target_job =
     \<lparr>ei_event = in_event, ei_target_job = in_target_job, ei_name = []\<rparr>"

definition instrument_of :: "EventInstrument \<Rightarrow> InstrumentBase" where
  "instrument_of ei =
     \<lparr>ib_name = ei_name ei, ib_phase = 60000, ib_calls = InstruEvent (ei_event ei),
      ib_target_job = ei_target_job ei\<rparr>"

definition EventInstrument_call ::
  "('e, 'u) EventClass \<Rightarrow> event_ptr \<Rightarrow> ('e, 'u) ev_sim \<Rightarrow> (int, ('e, 'u) ev_sim) result" where
  "EventInstrument_call vt ev e =
     andthen (vt_process vt ev (ex_time_tics e) e) (\<lambda>_ e1. Some (Inr 0, e1))"

text \<open>A simulation's calls with the virtual call of the event instruments filled in.\<close>

definition with_events ::
  "('e, 'u) EventClass \<Rightarrow> ('e, 'u) EventWorld exec_call \<Rightarrow> ('e, 'u) EventWorld exec_call" where
  "with_events vt cf c e =
     (case c of
        Instrument ib \<Rightarrow>
          (case ib_calls ib of InstruEvent ev \<Rightarrow> EventInstrument_call vt ev e | InstruJob _ \<Rightarrow> cf c e)
      | Job _ \<Rightarrow> cf c e)"

subsection \<open>The list of active events\<close>

text \<open>The events in use; \<open>active_ok\<close> below says that every entry up to the count is one.\<close>

definition active_list :: "('e, 'u) ev_sim \<Rightarrow> event_ptr list" where
  "active_list e = map the (take (ew_num_active_events (ex_world e)) (ew_active_events (ex_world e)))"

definition get_event :: "('e Event_scheme, 'u) ev_sim \<Rightarrow> string \<Rightarrow> event_ptr option" where
  "get_event e event_name = List.find (\<lambda>ev. ev_name (event_at e ev) = event_name) (active_list e)"

text \<open>
  The memory manager's arrays: \<open>Trick::Event* [100]\<close> starts with null entries, and
  \<open>TMM_resize_array_1d_a\<close> keeps the entries that fit. The loop after it clears the entries from the
  new count on.
\<close>

definition resize_events :: "nat \<Rightarrow> event_ptr option list \<Rightarrow> event_ptr option list" where
  "resize_events n a = take n a @ replicate (n - length a) None"

definition add_to_active_events :: "event_ptr \<Rightarrow> ('e, 'u) ev_sim \<Rightarrow> ('e, 'u) ev_sim" where
  "add_to_active_events in_event e =
     (if in_event \<in> set (active_list e) then e
      else map_world (\<lambda>w.
        let n = ew_num_active_events w + 1;
            w1 = w\<lparr>ew_num_active_events := n\<rparr>;
            w2 = (if n = 1 then w1\<lparr>ew_active_events := replicate 100 None, ew_num_allocated := 100\<rparr>
                  else if ew_num_allocated w \<le> n then
                    (let m = ew_num_allocated w + 100
                     in w1\<lparr>ew_num_allocated := m,
                           ew_active_events := take n (resize_events m (ew_active_events w))
                             @ replicate (m - n) None\<rparr>)
                  else w1)
        in w2\<lparr>ew_active_events := (ew_active_events w2)[n - 1 := Some in_event]\<rparr>) e)"

text \<open>The inner loop of the removal shifts the entries behind the event down by one.\<close>

function shift_down :: "nat \<Rightarrow> nat \<Rightarrow> 'a list \<Rightarrow> 'a list" where
  "shift_down jj n a = (if jj < n then shift_down (Suc jj) n (a[jj - 1 := a ! jj]) else a)"
  by pat_completeness auto
termination by (relation "measure (\<lambda>(jj, n, a). n - jj)") auto

declare shift_down.simps [simp del]

definition remove_from_active :: "event_ptr \<Rightarrow> ('e, 'u) ev_sim \<Rightarrow> ('e, 'u) ev_sim" where
  "remove_from_active in_event e =
     (case find_index in_event (active_list e) of
        None \<Rightarrow> e
      | Some ii \<Rightarrow>
          map_world (\<lambda>w.
            let n = ew_num_active_events w;
                a = shift_down (Suc ii) n (ew_active_events w)
            in if n - 1 = 0 then w\<lparr>ew_num_active_events := 0, ew_active_events := []\<rparr>
               else w\<lparr>ew_num_active_events := n - 1, ew_active_events := a[n - 1 := None]\<rparr>) e)"

subsection \<open>Adding events\<close>

definition call_add :: "('e, 'u) EventClass \<Rightarrow> event_ptr \<Rightarrow> ('e, 'u) ev_sim \<Rightarrow> ('e, 'u) ev_sim" where
  "call_add vt ev e = map_event ev (vt_add vt) e"

text \<open>The code's \<open>int\<close>: \<open>-1\<close> when the thread of the event has no processor.\<close>

definition EventManager_add_event ::
  "('e Event_scheme, 'u) EventClass \<Rightarrow> event_ptr \<Rightarrow> ('e Event_scheme, 'u) ev_sim \<Rightarrow>
     int \<times> ('e Event_scheme, 'u) ev_sim" where
  "EventManager_add_event vt in_event e =
     (let e1 = add_to_active_events in_event e;
          th = ev_thread_id (event_at e1 in_event);
          eps = ew_event_processors (ex_world e1)
      in if th < length eps
         then (0, call_add vt in_event (EventProcessor_add_event (eps ! th) in_event e1))
         else (-1, e1))"

definition set_target ::
  "EventBeforeAfter \<Rightarrow> string \<Rightarrow> nat \<Rightarrow> 'e Event_scheme \<Rightarrow> 'e Event_scheme" where
  "set_target ba target_name target_inst v =
     v\<lparr>ev_before_after := ba, ev_target_name := target_name, ev_target_inst := target_inst\<rparr>"

text \<open>\<open>add_event_before\<close> and \<open>add_event_after\<close> differ in the mark and the list.\<close>

definition attach_event ::
  "('e Event_scheme, 'u) EventClass \<Rightarrow> EventBeforeAfter \<Rightarrow> (InstrumentBase \<Rightarrow> JobData \<Rightarrow> JobData) \<Rightarrow>
     event_ptr \<Rightarrow> string \<Rightarrow> nat \<Rightarrow> ('e Event_scheme, 'u) ev_sim \<Rightarrow> int \<times> ('e Event_scheme, 'u) ev_sim" where
  "attach_event vt ba add_inst in_event target_name target_inst e =
     (case get_job e target_name target_inst of
        None \<Rightarrow> (0, e)
      | Some target_job \<Rightarrow>
          (let e1 = map_event in_event (set_target ba target_name target_inst) e;
               ei = new_EventInstrument in_event target_job;
               e2 = map_job target_job (add_inst (instrument_of ei)) e1;
               e3 = map_world (\<lambda>w. w\<lparr>ew_events_instrumented := ew_events_instrumented w @ [ei]\<rparr>) e2
           in (0, add_to_active_events in_event (call_add vt in_event e3))))"

definition add_event_before ::
  "('e Event_scheme, 'u) EventClass \<Rightarrow> event_ptr \<Rightarrow> string \<Rightarrow> nat \<Rightarrow> ('e Event_scheme, 'u) ev_sim \<Rightarrow>
     int \<times> ('e Event_scheme, 'u) ev_sim" where
  "add_event_before vt = attach_event vt EVENT_BEFORETARGET add_inst_before"

definition add_event_after ::
  "('e Event_scheme, 'u) EventClass \<Rightarrow> event_ptr \<Rightarrow> string \<Rightarrow> nat \<Rightarrow> ('e Event_scheme, 'u) ev_sim \<Rightarrow>
     int \<times> ('e Event_scheme, 'u) ev_sim" where
  "add_event_after vt = attach_event vt EVENT_AFTERTARGET add_inst_after"

definition activate_event ::
  "string \<Rightarrow> ('e Event_scheme, 'u) ev_sim \<Rightarrow> int \<times> ('e Event_scheme, 'u) ev_sim" where
  "activate_event event_name e =
     (0, case get_event e event_name of None \<Rightarrow> e | Some ev \<Rightarrow> map_event ev Event_activate e)"

definition deactivate_event ::
  "string \<Rightarrow> ('e Event_scheme, 'u) ev_sim \<Rightarrow> int \<times> ('e Event_scheme, 'u) ev_sim" where
  "deactivate_event event_name e =
     (0, case get_event e event_name of None \<Rightarrow> e | Some ev \<Rightarrow> map_event ev Event_deactivate e)"

subsection \<open>Removing events\<close>

text \<open>
  The loop over \<open>events_instrumented\<close> that detaches the instruments \<open>which\<close> selects; the other
  instruments stay in the vector. \<open>remove_inst\<close> goes by the instrument's name.
\<close>

fun detach_loop ::
  "(EventInstrument \<Rightarrow> bool) \<Rightarrow> EventInstrument list \<Rightarrow> ('e, 'u) ev_sim \<Rightarrow>
     EventInstrument list \<times> ('e, 'u) ev_sim" where
  "detach_loop which [] e = ([], e)"
| "detach_loop which (ei # eis) e =
     (if which ei
      then detach_loop which eis (map_job (ei_target_job ei) (remove_inst (ei_name ei)) e)
      else (let (kept, e1) = detach_loop which eis e in (ei # kept, e1)))"

definition detach ::
  "(EventInstrument \<Rightarrow> bool) \<Rightarrow> ('e, 'u) ev_sim \<Rightarrow> ('e, 'u) ev_sim" where
  "detach which e =
     (let (kept, e1) = detach_loop which (ew_events_instrumented (ex_world e)) e
      in map_world (\<lambda>w. w\<lparr>ew_events_instrumented := kept\<rparr>) e1)"

text \<open>\<open>event_processors[in_event->get_thread()]\<close> is not checked.\<close>

definition unschedule_event ::
  "event_ptr \<Rightarrow> ('e Event_scheme, 'u) ev_sim \<Rightarrow> abort + ('e Event_scheme, 'u) ev_sim" where
  "unschedule_event in_event e =
     (if ev_before_after (event_at e in_event) = EVENT_NOTARGET then
        (let th = ev_thread_id (event_at e in_event); eps = ew_event_processors (ex_world e)
         in if th < length eps then Inr (EventProcessor_remove_event (eps ! th) in_event e)
            else Inl (Undefined ''event_processors index''))
      else Inr (detach (\<lambda>ei. ei_event ei = in_event) e))"

definition free_event :: "event_ptr \<Rightarrow> ('e Event_scheme, 'u) ev_sim \<Rightarrow> ('e Event_scheme, 'u) ev_sim" where
  "free_event ev e =
     (if ev_free_on_removal (event_at e ev)
      then map_world (\<lambda>w. w\<lparr>ew_freed := ev # ew_freed w\<rparr>) e else e)"

definition EventManager_remove_event ::
  "('e Event_scheme, 'u) EventClass \<Rightarrow> event_ptr option \<Rightarrow> ('e Event_scheme, 'u) ev_sim \<Rightarrow>
     (int, ('e Event_scheme, 'u) ev_sim) result" where
  "EventManager_remove_event vt in_event e =
     (case in_event of
        None \<Rightarrow> Some (Inr 0, e)
      | Some ev \<Rightarrow>
          (case unschedule_event ev e of
             Inl a \<Rightarrow> Some (Inl a, e)
           | Inr e1 \<Rightarrow>
               Some (Inr 0, free_event ev (remove_from_active ev (map_event ev (vt_remove vt) e1)))))"

definition add_event_processor :: "ep_ptr \<Rightarrow> ('e, 'u) ev_sim \<Rightarrow> ('e, 'u) ev_sim" where
  "add_event_processor in_ep e =
     map_world (\<lambda>w. w\<lparr>ew_event_processors := ew_event_processors w @ [in_ep]\<rparr>) e"

subsection \<open>Time unit, checkpoint and restart\<close>

text \<open>\<open>(long long)round((next_tics / old_tt) * tt)\<close>: the division is one of integers.\<close>

definition event_tics :: "int \<Rightarrow> int \<Rightarrow> int \<Rightarrow> int" where
  "event_tics old_tt tt t = c_round (dbl ((t sdiv old_tt) * tt))"

fun retime_events :: "int \<Rightarrow> int \<Rightarrow> event_ptr list \<Rightarrow> ('e Event_scheme, 'u) ev_sim \<Rightarrow> ('e Event_scheme, 'u) ev_sim" where
  "retime_events old_tt tt [] e = e"
| "retime_events old_tt tt (ev # evs) e =
     retime_events old_tt tt evs (map_event ev (\<lambda>v. v\<lparr>ev_next_tics := event_tics old_tt tt (ev_next_tics v)\<rparr>) e)"

definition time_tic_changed ::
  "('e Event_scheme, 'u) ev_sim \<Rightarrow> (int, ('e Event_scheme, 'u) ev_sim) result" where
  "time_tic_changed e =
     (if ex_old_time_tic_value e = 0 \<and> active_list e \<noteq> []
      then Some (Inl (Undefined ''next_tics / 0''), e)
      else Some (Inr 0, retime_events (ex_old_time_tic_value e) (ex_time_tic_value e) (active_list e) e))"

definition EventManager_preload_checkpoint :: "('e, 'u) ev_sim \<Rightarrow> int \<times> ('e, 'u) ev_sim" where
  "EventManager_preload_checkpoint e = (0, detach (\<lambda>_. True) e)"

text \<open>
  The loop of \<open>restart\<close> over the active events. The events it adds are in the array already, so the
  count it reads does not change.
\<close>

definition restart_event ::
  "('e Event_scheme, 'u) EventClass \<Rightarrow> event_ptr \<Rightarrow> ('e Event_scheme, 'u) ev_sim \<Rightarrow>
     ('e Event_scheme, 'u) ev_sim" where
  "restart_event vt ev e =
     (let e1 = map_event ev (vt_restart vt e) e; v = event_at e1 ev
      in snd (case ev_before_after v of
                EVENT_BEFORETARGET \<Rightarrow> add_event_before vt ev (ev_target_name v) (ev_target_inst v) e1
              | EVENT_AFTERTARGET \<Rightarrow> add_event_after vt ev (ev_target_name v) (ev_target_inst v) e1
              | EVENT_NOTARGET \<Rightarrow> EventManager_add_event vt ev e1))"

definition EventManager_restart ::
  "('e Event_scheme, 'u) EventClass \<Rightarrow> ('e Event_scheme, 'u) ev_sim \<Rightarrow>
     int \<times> ('e Event_scheme, 'u) ev_sim" where
  "EventManager_restart vt e = (0, fold (restart_event vt) (active_list e) e)"

subsection \<open>The array of active events\<close>

text \<open>
  What the array satisfies between the operations: the count is below the allocation, the entries
  up to it are events, without repetition.
\<close>

definition active_ok :: "('e, 'u) EventWorld \<Rightarrow> bool" where
  "active_ok w \<longleftrightarrow>
     (let n = ew_num_active_events w; a = ew_active_events w
      in (n = 0 \<or> n < ew_num_allocated w \<and> length a = ew_num_allocated w) \<and>
         None \<notin> set (take n a) \<and> distinct (take n a))"

lemma map_Some_the: "None \<notin> set xs \<Longrightarrow> map Some (map the xs) = xs"
  by (induction xs) auto

text \<open>The array part of an operation: the events in use are those of the list \<open>L\<close>.\<close>

lemma active_okI:
  assumes "take n a = map Some L" and "distinct L" and "n = 0 \<or> n < m \<and> length a = m"
    and "ew_num_active_events w = n" and "ew_active_events w = a" and "ew_num_allocated w = m"
  shows "active_ok w"
  using assms by (auto simp: active_ok_def distinct_map)

lemma active_ok_take: "active_ok (ex_world e) \<Longrightarrow>
    take (ew_num_active_events (ex_world e)) (ew_active_events (ex_world e)) = map Some (active_list e)"
  unfolding active_list_def active_ok_def Let_def by (rule map_Some_the [symmetric]) blast

lemma take_Suc_update: "n < length a \<Longrightarrow> take (Suc n) (a[n := x]) = take n a @ [x]"
  by (simp add: take_Suc_conv_app_nth)

lemma shift_down_length [simp]: "length (shift_down jj n a) = length a"
  by (induction jj n a rule: shift_down.induct) (subst shift_down.simps, simp)

lemma shift_down_nth:
  "1 \<le> jj \<Longrightarrow> n \<le> length a \<Longrightarrow> i < length a \<Longrightarrow>
   shift_down jj n a ! i = (if jj \<le> Suc i \<and> Suc i < n then a ! Suc i else a ! i)"
proof (induction jj n a rule: shift_down.induct)
  case (1 jj n a)
  show ?case
  proof (cases "jj < n")
    case True
    then have "shift_down jj n a ! i =
        (if Suc jj \<le> Suc i \<and> Suc i < n then a[jj - 1 := a ! jj] ! Suc i else a[jj - 1 := a ! jj] ! i)"
      using 1 by (subst shift_down.simps) simp
    then show ?thesis using True 1(2-4) by (auto simp: nth_list_update)
  qed (use 1 in \<open>subst shift_down.simps, auto\<close>)
qed

lemma take_shift_down:
  assumes "ii < n" and "n \<le> length a"
  shows "take (n - 1) (shift_down (Suc ii) n a) = delete_at ii (take n a)"
proof (rule nth_equalityI)
  fix i assume "i < length (take (n - 1) (shift_down (Suc ii) n a))"
  then have i: "i < n - 1" using assms by simp
  show "take (n - 1) (shift_down (Suc ii) n a) ! i = delete_at ii (take n a) ! i"
  proof (cases "i < ii")
    case True
    then show ?thesis using i assms by (simp add: shift_down_nth)
  next
    case False
    moreover have "Suc i < n" using i by simp
    ultimately show ?thesis using assms by (simp add: shift_down_nth)
  qed
qed (use assms in simp)

lemma add_to_active:
  assumes "active_ok (ex_world e)"
  shows "active_ok (ex_world (add_to_active_events ev e))"
    and "active_list (add_to_active_events ev e) =
      (if ev \<in> set (active_list e) then active_list e else active_list e @ [ev])"
proof -
  define w where "w = ex_world e"
  define n where "n = ew_num_active_events w"
  define w' where "w' = ex_world (add_to_active_events ev e)"
  define a' where "a' = ew_active_events w'"
  have T: "take n (ew_active_events w) = map Some (active_list e)"
    using active_ok_take [OF assms] by (simp add: n_def w_def)
  have d: "distinct (active_list e)" using assms T by (simp add: active_ok_def Let_def n_def w_def distinct_map)
  have inv: "n = 0 \<or> n < ew_num_allocated w \<and> length (ew_active_events w) = ew_num_allocated w"
    using assms by (simp add: active_ok_def n_def w_def Let_def)
  have new: "ew_num_active_events w' = Suc n \<and> Suc n < ew_num_allocated w' \<and>
      length a' = ew_num_allocated w' \<and> take (Suc n) a' = take n (ew_active_events w) @ [Some ev]"
    if "ev \<notin> set (active_list e)"
  proof (cases "n = 0")
    case True
    then show ?thesis using that
      by (simp add: w'_def a'_def add_to_active_events_def Let_def n_def w_def numeral_eq_Suc)
  next
    case False
    moreover have "a[n := x] = take n a @ [x]" if "length a = Suc n" for a :: "event_ptr option list" and x
      using take_Suc_update [of n a x] that by simp
    ultimately show ?thesis using that inv
      by (cases "ew_num_allocated w \<le> Suc n"; cases "ew_num_allocated w = Suc n")
        (auto simp: w'_def a'_def add_to_active_events_def Let_def n_def w_def resize_events_def
          take_Suc_update nth_append list_update_append min_def)
  qed
  show "active_ok (ex_world (add_to_active_events ev e))"
  proof (cases "ev \<in> set (active_list e)")
    case False
    from new [OF False] False d T have "active_ok w'"
      by (intro active_okI [of "Suc n" a' "active_list e @ [ev]"]) (auto simp: a'_def)
    then show ?thesis by (simp add: w'_def)
  qed (use assms in \<open>simp add: add_to_active_events_def\<close>)
  show "active_list (add_to_active_events ev e) =
      (if ev \<in> set (active_list e) then active_list e else active_list e @ [ev])"
  proof (cases "ev \<in> set (active_list e)")
    case False
    then show ?thesis using new [OF False] T
      by (subst active_list_def) (simp add: w'_def [symmetric] a'_def [symmetric] comp_def)
  qed (simp add: add_to_active_events_def)
qed

lemma remove_from_active:
  assumes "active_ok (ex_world e)"
  shows "active_ok (ex_world (remove_from_active ev e))"
    and "active_list (remove_from_active ev e) = remove1 ev (active_list e)"
proof -
  define w where "w = ex_world e"
  define n where "n = ew_num_active_events w"
  define w' where "w' = ex_world (remove_from_active ev e)"
  have T: "take n (ew_active_events w) = map Some (active_list e)"
    using active_ok_take [OF assms] by (simp add: n_def w_def)
  have d: "distinct (active_list e)" using assms T by (simp add: active_ok_def Let_def n_def w_def distinct_map)
  have inv: "n = 0 \<or> n < ew_num_allocated w \<and> length (ew_active_events w) = ew_num_allocated w"
    using assms by (simp add: active_ok_def n_def w_def Let_def)
  have new: "ew_num_active_events w' = n - 1 \<and> (n - 1 = 0 \<or> n - 1 < ew_num_allocated w' \<and>
      length (ew_active_events w') = ew_num_allocated w') \<and>
      take (n - 1) (ew_active_events w') = map Some (remove1 ev (active_list e))"
    if "find_index ev (active_list e) = Some ii" for ii
  proof -
    have ii: "ii < length (active_list e)" using find_index_Some [OF that] by simp
    then have "ii < n" "n \<le> length (ew_active_events w)"
      using T [THEN arg_cong, of length] inv by (auto simp: min_def split: if_splits)
    then have "take (n - 1) (shift_down (Suc ii) n (ew_active_events w)) = map Some (delete_at ii (active_list e))"
      unfolding take_shift_down [OF \<open>ii < n\<close> \<open>n \<le> _\<close>] T by (simp add: delete_at_def take_map drop_map)
    then show ?thesis using that inv \<open>ii < n\<close>
      by (auto simp: w'_def remove_from_active_def Let_def n_def w_def delete_at_find_index [OF that])
  qed
  show "active_ok (ex_world (remove_from_active ev e))"
  proof (cases "find_index ev (active_list e)")
    case (Some ii)
    from new [OF Some] d have "active_ok w'"
      by (intro active_okI [of "n - 1" "ew_active_events w'" "remove1 ev (active_list e)"]) auto
    then show ?thesis by (simp add: w'_def)
  qed (use assms in \<open>simp add: remove_from_active_def\<close>)
  show "active_list (remove_from_active ev e) = remove1 ev (active_list e)"
  proof (cases "find_index ev (active_list e)")
    case None
    then have "ev \<notin> set (active_list e)" using find_index_None by blast
    then show ?thesis using None by (simp add: remove_from_active_def remove1_idem)
  next
    case (Some ii)
    then show ?thesis using new [OF Some]
      by (subst active_list_def) (simp add: w'_def [symmetric] comp_def)
  qed
qed

end
