(* ===== verification/MTV.thy ===== *)
theory MTV
  imports EventManager IPPythonEvent
begin

text \<open>
  The list of events the event viewer shows (sim\_services/InputProcessor/MTV.cpp), and the commands of the
  input file on events (input\_processor\_ext.cpp). The event manager and the list exist, the case
  of a null \<open>the_em\<close> or \<open>the_mtv\<close> does not arise. The variable server traffic of
  \<open>send_event_data\<close> is not modelled.
\<close>

definition MTV_add_event :: "event_ptr \<Rightarrow> ('e, 'u) ev_sim \<Rightarrow> ('e, 'u) ev_sim" where
  "MTV_add_event in_event e =
     (if in_event \<in> set (ew_mtv_list (ex_world e)) then e
      else map_world (\<lambda>w. w\<lparr>ew_mtv_list := ew_mtv_list w @ [in_event],
             ew_mtv_update_ticker := ew_mtv_update_ticker w + 1\<rparr>) e)"

definition MTV_delete_event :: "event_ptr \<Rightarrow> ('e, 'u) ev_sim \<Rightarrow> ('e, 'u) ev_sim" where
  "MTV_delete_event in_event e =
     (case find_index in_event (ew_mtv_list (ex_world e)) of
        None \<Rightarrow> e
      | Some ii \<Rightarrow>
          map_world (\<lambda>w. w\<lparr>ew_mtv_list := (ew_mtv_list w)[ii := ew_mtv_dummy w],
             ew_mtv_update_ticker := ew_mtv_update_ticker w + 1\<rparr>) e)"

definition MTV_get_event :: "('e Event_scheme, 'u) ev_sim \<Rightarrow> string \<Rightarrow> event_ptr option" where
  "MTV_get_event e event_name =
     List.find (\<lambda>ev. ev_name (event_at e ev) = event_name) (ew_mtv_list (ex_world e))"

subsection \<open>Commands of the input file\<close>

text \<open>The memory manager gives the address of the new event, or none.\<close>

definition ippython_new_event :: "event_ptr option \<Rightarrow> string \<Rightarrow> 'u py_sim \<Rightarrow> event_ptr option \<times> 'u py_sim" where
  "ippython_new_event addr event_name e =
     (addr, case addr of
        None \<Rightarrow> e
      | Some ev \<Rightarrow>
          map_event ev (\<lambda>_. (new_IPPythonEvent (ex_time_tic_value e))\<lparr>ev_name := event_name\<rparr>) e)"

definition ippython_add_event ::
  "(IPPythonEvent, 'u) EventClass \<Rightarrow> event_ptr \<Rightarrow> 'u py_sim \<Rightarrow> int \<times> 'u py_sim" where
  "ippython_add_event vt in_event e =
     (0, MTV_add_event in_event (snd (EventManager_add_event vt in_event e)))"

definition ippython_add_event_before ::
  "(IPPythonEvent, 'u) EventClass \<Rightarrow> event_ptr \<Rightarrow> string \<Rightarrow> nat \<Rightarrow> 'u py_sim \<Rightarrow> int \<times> 'u py_sim" where
  "ippython_add_event_before vt in_event target_name target_inst e =
     (0, MTV_add_event in_event (snd (add_event_before vt in_event target_name target_inst e)))"

definition ippython_add_event_after ::
  "(IPPythonEvent, 'u) EventClass \<Rightarrow> event_ptr \<Rightarrow> string \<Rightarrow> nat \<Rightarrow> 'u py_sim \<Rightarrow> int \<times> 'u py_sim" where
  "ippython_add_event_after vt in_event target_name target_inst e =
     (0, MTV_add_event in_event (snd (add_event_after vt in_event target_name target_inst e)))"

text \<open>A read event: one action, no cycle, on at once, due at \<open>in_time\<close>.\<close>

definition read_event :: "int \<Rightarrow> nat \<Rightarrow> rat \<Rightarrow> string \<Rightarrow> IPPythonEvent \<Rightarrow> IPPythonEvent" where
  "read_event time_tic_value thread_id in_time in_string v =
     (let v1 = (set_action 0 in_string None 0 v)\<lparr>pe_is_user_event := False\<rparr>;
          v2 = Event_activate (Event_set_cycle time_tic_value 0 v1)
      in v2\<lparr>ev_thread_id := thread_id,
            ev_next_tics := c_round (dmul in_time (dbl time_tic_value))\<rparr>)"

definition ippython_add_read ::
  "(IPPythonEvent, 'u) EventClass \<Rightarrow> event_ptr option \<Rightarrow> nat \<Rightarrow> rat \<Rightarrow> string \<Rightarrow> 'u py_sim \<Rightarrow>
     (int, 'u py_sim) result" where
  "ippython_add_read vt addr thread_id in_time in_string e =
     (let (event, e1) = ippython_new_event addr [] e
      in case event of
           None \<Rightarrow> Some (Inl (Undefined ''NULL event''), e1)
         | Some ev \<Rightarrow>
             Some (Inr 0, snd (EventManager_add_event vt ev
               (map_event ev (read_event (ex_time_tic_value e1) thread_id in_time in_string) e1))))"

definition ippython_delete_event ::
  "(IPPythonEvent, 'u) EventClass \<Rightarrow> event_ptr \<Rightarrow> 'u py_sim \<Rightarrow> (int, 'u py_sim) result" where
  "ippython_delete_event vt in_event e =
     andthen (EventManager_remove_event vt (Some in_event) e)
       (\<lambda>_ e1. Some (Inr 0, MTV_delete_event in_event e1))"

definition on_mtv_event :: "(IPPythonEvent \<Rightarrow> IPPythonEvent) \<Rightarrow> string \<Rightarrow> 'u py_sim \<Rightarrow> int \<times> 'u py_sim" where
  "on_mtv_event f event_name e =
     (0, case MTV_get_event e event_name of None \<Rightarrow> e | Some ev \<Rightarrow> map_event ev f e)"

definition ippython_manual_on :: "string \<Rightarrow> 'u py_sim \<Rightarrow> int \<times> 'u py_sim" where
  "ippython_manual_on = on_mtv_event manual_on"

definition ippython_manual_off :: "string \<Rightarrow> 'u py_sim \<Rightarrow> int \<times> 'u py_sim" where
  "ippython_manual_off = on_mtv_event manual_off"

definition ippython_manual_done :: "string \<Rightarrow> 'u py_sim \<Rightarrow> int \<times> 'u py_sim" where
  "ippython_manual_done = on_mtv_event manual_done"

definition ippython_manual_fire ::
  "(IPPythonEvent, 'u) EventWorld exec_call \<Rightarrow> 'u Interpreter \<Rightarrow> string \<Rightarrow> 'u py_sim \<Rightarrow>
     (int, 'u py_sim) result" where
  "ippython_manual_fire cf py event_name e =
     (case MTV_get_event e event_name of
        None \<Rightarrow> Some (Inr 0, e)
      | Some ev \<Rightarrow> andthen (manual_fire cf py ev e) (\<lambda>_ e1. Some (Inr 0, e1)))"

end
