(* ===== verification/PropsEvents.thy ===== *)
theory PropsEvents
  imports InputEvents MTV
begin

text \<open>
  Properties of the events of the input file: when they are processed, when they fire, and what
  adding and removing them does to the lists that hold them.
\<close>

subsection \<open>Lemmas\<close>

text \<open>The manager's other steps leave the array of active events alone.\<close>

lemma active_list_world: "active_list e' = active_list e"
  if "ew_active_events (ex_world e') = ew_active_events (ex_world e)"
    "ew_num_active_events (ex_world e') = ew_num_active_events (ex_world e)"
  using that by (simp add: active_list_def)

lemma active_world_simps [simp]:
  "active_list (map_event ev f e) = active_list e"
  "active_list (map_processor p g e) = active_list e"
  "active_list (map_job j h e) = active_list e"
  "active_ok (ex_world (map_event ev f e)) = active_ok (ex_world e)"
  "active_ok (ex_world (map_processor p g e)) = active_ok (ex_world e)"
  by (simp_all add: active_list_def active_ok_def map_event_def map_processor_def map_job_def)

lemma call_add_simps [simp]:
  "active_list (call_add vt ev e) = active_list e"
  "active_ok (ex_world (call_add vt ev e)) = active_ok (ex_world e)"
  by (simp_all add: call_add_def)

lemma schedule_processor_active [simp]: "active_list (schedule_processor p e) = active_list e"
  by (simp add: schedule_processor_def)

lemma remove_processor_event_active [simp]:
  "active_list (EventProcessor_remove_event p ev e) = active_list e"
  "active_ok (ex_world (EventProcessor_remove_event p ev e)) = active_ok (ex_world e)"
  by (simp_all add: EventProcessor_remove_event_def)

lemma detach_loop_active:
  "detach_loop which eis e = (kept, e') \<Longrightarrow> ex_world e' = ex_world e \<and> kept = filter (\<lambda>ei. \<not> which ei) eis"
  by (induction eis arbitrary: e kept) (auto split: if_splits prod.splits)

definition unnamed_detached :: "job_ptr set \<Rightarrow> job_heap \<Rightarrow> job_heap \<Rightarrow> bool" where
  "unnamed_detached js h h' \<longleftrightarrow>
     (\<forall>j. jd_inst_before (h' j) = (if j \<in> js then filter (\<lambda>x. ib_name x \<noteq> []) (jd_inst_before (h j)) else jd_inst_before (h j)) \<and>
          jd_inst_after (h' j) = (if j \<in> js then filter (\<lambda>x. ib_name x \<noteq> []) (jd_inst_after (h j)) else jd_inst_after (h j)))"

lemma unnamed_detached_insert:
  assumes "unnamed_detached js (h(j0 := remove_inst [] (h j0))) h'"
  shows "unnamed_detached (insert j0 js) h h'"
  unfolding unnamed_detached_def
proof
  fix j
  show "jd_inst_before (h' j) = (if j \<in> insert j0 js then filter (\<lambda>x. ib_name x \<noteq> []) (jd_inst_before (h j)) else jd_inst_before (h j)) \<and>
        jd_inst_after (h' j) = (if j \<in> insert j0 js then filter (\<lambda>x. ib_name x \<noteq> []) (jd_inst_after (h j)) else jd_inst_after (h j))"
    using assms [unfolded unnamed_detached_def, rule_format, of j] by (cases "j = j0") (simp_all add: remove_inst_filter)
qed

lemma detach_loop_jobs:
  "\<forall>x \<in> set eis. ei_name x = [] \<Longrightarrow> detach_loop which eis e = (kept, e') \<Longrightarrow>
   unnamed_detached (ei_target_job ` {x \<in> set eis. which x}) (ex_jobs e) (ex_jobs e')"
proof (induction eis arbitrary: e kept)
  case (Cons x eis)
  show ?case
  proof (cases "which x")
    case True
    let ?e = "map_job (ei_target_job x) (remove_inst []) e"
    have "unnamed_detached (ei_target_job ` {x \<in> set eis. which x}) (ex_jobs ?e) (ex_jobs e')"
      using Cons True by simp
    then have "unnamed_detached (insert (ei_target_job x) (ei_target_job ` {x \<in> set eis. which x})) (ex_jobs e) (ex_jobs e')"
      by (intro unnamed_detached_insert) (simp add: map_job_def)
    moreover have "{y \<in> set (x # eis). which y} = insert x {y \<in> set eis. which y}" using True by auto
    ultimately show ?thesis by simp
  next
    case False
    obtain ks where "detach_loop which eis e = (ks, e')"
      using Cons.prems(2) False by (auto split: prod.splits)
    then have "unnamed_detached (ei_target_job ` {x \<in> set eis. which x}) (ex_jobs e) (ex_jobs e')"
      using Cons by simp
    moreover have "{y \<in> set (x # eis). which y} = {y \<in> set eis. which y}" using False by auto
    ultimately show ?thesis by simp
  qed
qed (simp add: unnamed_detached_def)

lemma detach_jobs:
  assumes "\<forall>x \<in> set (ew_events_instrumented (ex_world e)). ei_name x = []"
  shows "unnamed_detached (ei_target_job ` {x \<in> set (ew_events_instrumented (ex_world e)). which x})
      (ex_jobs e) (ex_jobs (detach which e))"
    and "ew_events_instrumented (ex_world (detach which e)) =
      filter (\<lambda>ei. \<not> which ei) (ew_events_instrumented (ex_world e))"
proof -
  obtain kept e1 where l: "detach_loop which (ew_events_instrumented (ex_world e)) e = (kept, e1)" by fastforce
  show "unnamed_detached (ei_target_job ` {x \<in> set (ew_events_instrumented (ex_world e)). which x})
      (ex_jobs e) (ex_jobs (detach which e))"
    using detach_loop_jobs [OF assms l] by (simp add: detach_def l)
  show "ew_events_instrumented (ex_world (detach which e)) =
      filter (\<lambda>ei. \<not> which ei) (ew_events_instrumented (ex_world e))"
    using detach_loop_active [OF l] by (simp add: detach_def l)
qed

lemma detach_active [simp]:
  "active_list (detach which e) = active_list e"
  "active_ok (ex_world (detach which e)) = active_ok (ex_world e)"
  by (auto simp: detach_def active_list_def active_ok_def dest!: detach_loop_active split: prod.split)

lemma free_event_active [simp]:
  "active_list (free_event ev e) = active_list e"
  "active_ok (ex_world (free_event ev e)) = active_ok (ex_world e)"
  by (simp_all add: free_event_def active_list_def active_ok_def)

lemma active_step_simps [simp]:
  "event_at (add_to_active_events ev e) = event_at e"
  "processor (add_to_active_events ev e) = processor e"
  "ex_jobs (add_to_active_events ev e) = ex_jobs e"
  "ew_freed (ex_world (add_to_active_events ev e)) = ew_freed (ex_world e)"
  "ew_event_processors (ex_world (add_to_active_events ev e)) = ew_event_processors (ex_world e)"
  "ew_events_instrumented (ex_world (add_to_active_events ev e)) = ew_events_instrumented (ex_world e)"
  "event_at (remove_from_active ev e) = event_at e"
  "processor (remove_from_active ev e) = processor e"
  "ex_jobs (remove_from_active ev e) = ex_jobs e"
  by (auto simp: add_to_active_events_def remove_from_active_def event_at_def processor_def Let_def fun_eq_iff
      split: option.split)

lemma processors_simps [simp]:
  "ew_event_processors (ex_world (map_event ev f e)) = ew_event_processors (ex_world e)"
  "ew_event_processors (ex_world (map_processor p g e)) = ew_event_processors (ex_world e)"
  "ew_events_instrumented (ex_world (map_event ev f e)) = ew_events_instrumented (ex_world e)"
  by (simp_all add: map_event_def map_processor_def)

lemma free_event_simps [simp]:
  "processor (free_event ev e) = processor e" "event_at (free_event ev e) = event_at e"
  "ex_jobs (free_event ev e) = ex_jobs e"
  "ev_free_on_removal (event_at e ev) \<Longrightarrow> ev \<in> set (ew_freed (ex_world (free_event ev e)))"
  by (simp_all add: free_event_def processor_def event_at_def fun_eq_iff)

lemma freed_pending:
  "ev \<in> set evs \<Longrightarrow> ev \<in> set (ew_freed (ex_world e)) \<Longrightarrow>
   add_pending_loop p t b evs e = Inl (Undefined ''use of a freed event'')"
  by (induction p t b evs e rule: add_pending_loop.induct) (auto simp: Let_def insert_event_def)

lemma event_set_Min:
  assumes "event_sorted e xs" and "xs \<noteq> []"
  shows "event_time e (hd xs) = Min (event_time e ` set xs)"
  using assms by (cases xs) (auto simp: event_sorted_def intro!: Min_eqI [symmetric])

text \<open>The list operations the manager refines.\<close>

definition append_new :: "'a \<Rightarrow> 'a list \<Rightarrow> 'a list" where
  "append_new x xs = (if x \<in> set xs then xs else xs @ [x])"

lemma add_event_active:
  assumes "active_ok (ex_world e)"
  shows "active_ok (ex_world (snd (EventManager_add_event vt ev e)))"
    and "active_list (snd (EventManager_add_event vt ev e)) = append_new ev (active_list e)"
  using add_to_active [OF assms, of ev]
  by (simp_all add: EventManager_add_event_def Let_def EventProcessor_add_event_def append_new_def)

lemma attach_active:
  assumes "active_ok (ex_world e)" and "get_job e name inst = Some j"
  shows "active_ok (ex_world (snd (attach_event vt ba add_inst ev name inst e)))"
    and "active_list (snd (attach_event vt ba add_inst ev name inst e)) = append_new ev (active_list e)"
proof -
  let ?ei = "new_EventInstrument ev j"
  let ?e3 = "map_world (\<lambda>w. w\<lparr>ew_events_instrumented := ew_events_instrumented w @ [?ei]\<rparr>)
    (map_job j (add_inst (instrument_of ?ei)) (map_event ev (set_target ba name inst) e))"
  have "active_ok (ex_world ?e3)" "active_list ?e3 = active_list e"
    using assms(1) by (simp_all add: active_ok_def active_list_def map_event_def map_job_def)
  then have c: "active_ok (ex_world (call_add vt ev ?e3))" "active_list (call_add vt ev ?e3) = active_list e"
    by simp_all
  show "active_ok (ex_world (snd (attach_event vt ba add_inst ev name inst e)))"
    and "active_list (snd (attach_event vt ba add_inst ev name inst e)) = append_new ev (active_list e)"
    using add_to_active [OF c(1)] assms(2) c(2) by (simp_all add: attach_event_def Let_def append_new_def)
qed

lemma remove_event_active:
  assumes "active_ok (ex_world e)" and "EventManager_remove_event vt (Some ev) e = Some (Inr r, e')"
  shows "active_ok (ex_world e')" and "active_list e' = remove1 ev (active_list e)"
proof -
  obtain e1 where u: "unschedule_event ev e = Inr e1"
    and e': "e' = free_event ev (remove_from_active ev (map_event ev (vt_remove vt) e1))"
    using assms(2) by (auto simp: EventManager_remove_event_def split: sum.splits)
  have "active_ok (ex_world e1)" "active_list e1 = active_list e"
    using u assms(1) by (auto simp: unschedule_event_def Let_def split: if_splits)
  then show "active_ok (ex_world e')" and "active_list e' = remove1 ev (active_list e)"
    using remove_from_active [of "map_event ev (vt_remove vt) e1" ev] by (simp_all add: e')
qed

subsection \<open>Properties\<close>

text \<open>
  C12: For the events of the input file, with Python code and jobs that leave the events alone: a call
  of \<open>process_event\<close> at time \<open>t\<close>, none of whose events is late, returns 0 and gives one turn to each
  event due at \<open>t\<close>, in the order of the set, and to no other. Afterwards the due events without a
  cycle are gone, those with one are due one cycle later, the others keep their time, the set is
  ordered again, no event is late for \<open>t + 1\<close>, and the processor's job is scheduled for the earliest
  event, or never.
\<close>

theorem due_events_are_served:
  assumes "processor_ok p t runnable e"
  shows "\<exists>e1 e'. serve_all (IPPythonEvent_class (calm_call ret user) (calm_python run refs val)) p t
        (due_events p t e) e = Some (Inr (), e1) \<and>
     process_event (IPPythonEvent_class (calm_call ret user) (calm_python run refs val)) p t e = Some (Inr 0, e') \<and>
     event_at e' = event_at e1 \<and> processor e' = processor e1 \<and>
     processor_ok p (t + 1) runnable e' \<and> served p t (due_events p t e) e e' \<and>
     jd_next_tics (ex_jobs e' (ep_process_event_job (processor e' p))) =
       (if ep_event_set (processor e' p) = [] then TRICK_MAX_LONG_LONG
        else Min (event_time e' ` set (ep_event_set (processor e' p))))"
proof -
  let ?vt = "IPPythonEvent_class (calm_call ret user) (calm_python run refs val)"
  obtain e1 where a: "serve_all ?vt p t (due_events p t e) e = Some (Inr (), e1)"
    and b: "process_event ?vt p t e = Some (Inr 0, schedule_processor p e1)"
    and c: "processor_ok p (t + 1) runnable (schedule_processor p e1)"
    and d: "served p t (due_events p t e) e (schedule_processor p e1)"
    using input_events.process_event_serves [OF assms] by blast
  have "event_sorted e1 (ep_event_set (processor e1 p))" using c by (simp add: processor_ok_def event_sorted_def)
  from event_set_Min [OF this] have
    "jd_next_tics (ex_jobs (schedule_processor p e1) (ep_process_event_job (processor e1 p))) =
      (if ep_event_set (processor e1 p) = [] then TRICK_MAX_LONG_LONG
       else Min (event_time e1 ` set (ep_event_set (processor e1 p))))"
    unfolding schedule_processor_time by (cases "ep_event_set (processor e1 p)") simp_all
  then show ?thesis using a b c d by (intro exI [of _ e1] exI [of _ "schedule_processor p e1"]) simp
qed

text \<open>A state with two events: one of a cycle of 5 tics, due at 10, and a read due at 12.\<close>

definition demo_condition :: "string \<Rightarrow> bool \<Rightarrow> condition_t" where
  "demo_condition s on = blank_condition\<lparr>c_enabled := on, c_str := s\<rparr>"

definition demo_event :: "int \<Rightarrow> int \<Rightarrow> IPPythonEvent" where
  "demo_event cycle next_time =
     (new_IPPythonEvent 1)\<lparr>ev_cycle_tics := cycle, ev_next_tics := next_time, ev_active := True,
       ev_free_on_removal := True, pe_conditions := [demo_condition ''False'' False, demo_condition ''True'' True]\<rparr>"

definition demo_sim :: "unit py_sim" where
  "demo_sim = new_Executive (\<lambda>_. new_JobData_default) (\<lambda>_. undefined)
     \<lparr>ew_events = (\<lambda>ev. if ev = 1 then demo_event 5 10 else demo_event 0 12), ew_freed = [],
      ew_processors = (\<lambda>_. \<lparr>ep_process_event_job = 7, ep_event_set = [1, 2], ep_pending_events = []\<rparr>),
      ew_active_events = [], ew_num_active_events = 0, ew_num_allocated = 0, ew_event_processors = [0],
      ew_events_instrumented = [], ew_return_val = 0, ew_terminate_on_error = False,
      ew_mtv_list = [], ew_mtv_dummy = 99, ew_mtv_update_ticker = 0, ew_user = ()\<rparr>"

lemma demo_sim_simps [simp]:
  "ex_world demo_sim =
     \<lparr>ew_events = (\<lambda>ev. if ev = 1 then demo_event 5 10 else demo_event 0 12), ew_freed = [],
      ew_processors = (\<lambda>_. \<lparr>ep_process_event_job = 7, ep_event_set = [1, 2], ep_pending_events = []\<rparr>),
      ew_active_events = [], ew_num_active_events = 0, ew_num_allocated = 0, ew_event_processors = [0],
      ew_events_instrumented = [], ew_return_val = 0, ew_terminate_on_error = False,
      ew_mtv_list = [], ew_mtv_dummy = 99, ew_mtv_update_ticker = 0, ew_user = ()\<rparr>"
  "event_at demo_sim = (\<lambda>ev. if ev = 1 then demo_event 5 10 else demo_event 0 12)"
  "processor demo_sim = (\<lambda>_. \<lparr>ep_process_event_job = 7, ep_event_set = [1, 2], ep_pending_events = []\<rparr>)"
  "event_time demo_sim = (\<lambda>ev. if ev = 1 then 10 else 12)"
  by (auto simp: demo_sim_def new_Executive_def event_at_def processor_def event_time_def demo_event_def)

lemma demo_event_simps [simp]:
  "ev_cycle_tics (demo_event c n) = c" "ev_next_tics (demo_event c n) = n"
  "pe_is_user_event (demo_event c n)" "ev_free_on_removal (demo_event c n)"
  "\<not> pe_manual (demo_event c n)" "\<not> pe_manual_fired (demo_event c n)"
  "ev_thread_id (demo_event c n) = 0" "ev_before_after (demo_event c n) = EVENT_NOTARGET"
  "pe_conditions (demo_event c n) = [demo_condition ''False'' False, demo_condition ''True'' True]"
  by (simp_all add: demo_event_def new_IPPythonEvent_def new_Event_def Event.defs Event_set_cycle_def)

theorem due_events_are_served_witness:
  "\<exists>e1 e'. serve_all (IPPythonEvent_class (calm_call (\<lambda>_ _. 0) (\<lambda>_ u. u)) (calm_python (\<lambda>_ u. u) (\<lambda>_. None) (\<lambda>_ _. None)))
        0 10 [1] demo_sim = Some (Inr (), e1) \<and>
     process_event (IPPythonEvent_class (calm_call (\<lambda>_ _. 0) (\<lambda>_ u. u)) (calm_python (\<lambda>_ u. u) (\<lambda>_. None) (\<lambda>_ _. None)))
        0 10 demo_sim = Some (Inr 0, e') \<and>
     event_time e' 1 = 15 \<and> event_time e' 2 = 12 \<and> set (ep_event_set (processor e' 0)) = {1, 2} \<and>
     jd_next_tics (ex_jobs e' (ep_process_event_job (processor e' 0))) = 12"
proof -
  have ok: "processor_ok 0 10 runnable demo_sim"
    by (simp add: processor_ok_def event_sorted_def runnable_def)
  have due: "due_events 0 10 demo_sim = [1]" by (simp add: due_events_def)
  have s: "set (ep_event_set (processor e' 0)) = {1, 2}" "event_time e' 1 = 15" "event_time e' 2 = 12"
    if "served 0 10 [1] demo_sim e'" for e' using that by (auto simp: served_def)
  have "ep_event_set (processor e' 0) \<noteq> [] \<and> Min (event_time e' ` set (ep_event_set (processor e' 0))) = 12"
    if "served 0 10 [1] demo_sim e'" for e'
    using s [OF that] by (auto simp: min_def)
  then show ?thesis
    using due_events_are_served [OF ok, of "\<lambda>_ _. 0" "\<lambda>_ u. u" "\<lambda>_ u. u" "\<lambda>_. None" "\<lambda>_ _. None"] s
    unfolding due by metis
qed


text \<open>
  With \<open>condition_all\<close> an event whose first condition is disabled never fires, whatever its other
  conditions yield: the disabled condition leaves the event's \<open>fired\<close> at false.
\<close>

lemma disabled_first_condition_blocks_event:
  fixes e :: "'u py_sim" and ret user run val
  assumes "\<not> pe_manual (event_at e ev)" and "\<not> pe_manual_fired (event_at e ev)"
    and "pe_cond_all (event_at e ev)" and "\<not> c_enabled (hd (pe_conditions (event_at e ev)))"
  shows "\<exists>e'. process_user_event (calm_call ret user) (calm_python run refs val) ev t e = Some (Inr False, e')"
proof -
  let ?cs = "pe_conditions (event_at e ev)"
  let ?rs = "condition_results (condition_value ret user run val (insts e)) ?cs (user_state e)"
  have "\<not> verdict True ?rs"
    using condition_results_None [of 0 ?cs "condition_value ret user run val (insts e)" "user_state e"] assms(4)
      length_condition_results [of "condition_value ret user run val (insts e)" ?cs "user_state e"]
    by (cases "?cs = []") (auto simp: verdict_all hd_conv_nth simp del: condition_results_None)
  then show ?thesis using process_user_event_verdict [OF assms(1,2), where ret = ret and user = user and run = run and val = val and refs = refs and t = t] assms(3) by auto
qed

text \<open>
  Python over a counter: \<open>n < 1\<close> tests the counter and \<open>step\<close> increments it. The conditions are
  \<open>step\<close>, then \<open>n < 1\<close>, which the step before it has made false, and one that is disabled.
\<close>

definition count_run :: "string \<Rightarrow> nat \<times> int \<Rightarrow> nat \<times> int" where
  "count_run s uv =
     (if s = ''trick_ip.ip.return_val = step'' @ [CHR 0x0A] then (Suc (fst uv), 1)
      else (fst uv, if fst uv < 1 then 1 else 0))"



text \<open>Python and jobs that know one expression, \<open>True\<close>.\<close>

definition demo_run :: "string \<Rightarrow> unit \<times> int \<Rightarrow> unit \<times> int" where
  "demo_run s uv = (fst uv, if s = ''trick_ip.ip.return_val = True'' @ [CHR 0x0A] then 1 else 0)"

abbreviation "demo_python \<equiv> calm_python demo_run (\<lambda>_. None) (\<lambda>_ _. None)"
abbreviation "demo_calls \<equiv> calm_call (\<lambda>_ _. 0) (\<lambda>_ u. u)"

abbreviation "count_calls \<equiv> calm_call (\<lambda>_ _. 0) (\<lambda>_ n. n)"
abbreviation "count_python \<equiv> calm_python count_run (\<lambda>_. None) (\<lambda>_ _. None)"


text \<open>
  C14: The list of active events. Every operation of the event manager keeps the array well formed (the
  count below the allocation, no null entry among those in use, no event twice), adding an event
  appends it unless it is there, and removing an event takes it out; the order of the others stays.
\<close>

theorem active_events_refine_list:
  assumes "active_ok (ex_world e)"
  shows "active_ok (ex_world (snd (EventManager_add_event vt ev e))) \<and>
      active_list (snd (EventManager_add_event vt ev e)) = append_new ev (active_list e) \<and>
      (\<forall>name inst j. get_job e name inst = Some j \<longrightarrow>
         active_ok (ex_world (snd (add_event_before vt ev name inst e))) \<and>
         active_list (snd (add_event_before vt ev name inst e)) = append_new ev (active_list e) \<and>
         active_ok (ex_world (snd (add_event_after vt ev name inst e))) \<and>
         active_list (snd (add_event_after vt ev name inst e)) = append_new ev (active_list e)) \<and>
      (\<forall>r e'. EventManager_remove_event vt (Some ev) e = Some (Inr r, e') \<longrightarrow>
         active_ok (ex_world e') \<and> active_list e' = remove1 ev (active_list e))"
  using add_event_active [OF assms] attach_active [OF assms] remove_event_active [OF assms]
  by (simp add: add_event_before_def add_event_after_def)

theorem active_events_refine_list_witness:
  "active_list (snd (EventManager_add_event (IPPythonEvent_class demo_calls demo_python) 2
     (snd (EventManager_add_event (IPPythonEvent_class demo_calls demo_python) 1 demo_sim)))) = [1, 2]"
proof -
  let ?vt = "IPPythonEvent_class demo_calls demo_python"
  have ok: "active_ok (ex_world demo_sim)" "active_list demo_sim = []"
    by (simp_all add: active_ok_def active_list_def)
  from active_events_refine_list [OF ok(1), of ?vt 1] have
    "active_ok (ex_world (snd (EventManager_add_event ?vt 1 demo_sim)))"
    "active_list (snd (EventManager_add_event ?vt 1 demo_sim)) = [1]"
    by (simp_all add: ok(2) append_new_def)
  from active_events_refine_list [OF this(1), of ?vt 2] this(2) show ?thesis by (simp add: append_new_def)
qed

text \<open>
  Removing an event does not reach the pending list. An event added to a thread and removed before
  the next top of frame is no longer active but still pending; when its memory is freed on removal,
  the next \<open>add_pending_events\<close> uses it after it was freed.
\<close>

lemma removed_event_stays_pending:
  assumes "ev_thread_id (event_at e ev) < length (ew_event_processors (ex_world e))"
    and "ev_before_after (event_at e ev) = EVENT_NOTARGET"
    and p: "p = ew_event_processors (ex_world e) ! ev_thread_id (event_at e ev)"
  shows "\<exists>e'. EventManager_remove_event (IPPythonEvent_class cf py) (Some ev)
          (snd (EventManager_add_event (IPPythonEvent_class cf py) ev e)) = Some (Inr 0, e') \<and>
     ev \<in> set (ep_pending_events (processor e' p)) \<and>
     (ev_free_on_removal (event_at e ev) \<longrightarrow>
        add_pending_events p t is_restart e' = Inl (Undefined ''use of a freed event''))"
proof -
  let ?vt = "IPPythonEvent_class cf py"
  let ?e1 = "snd (EventManager_add_event ?vt ev e)"
  let ?e2 = "EventProcessor_remove_event p ev ?e1"
  let ?e' = "free_event ev (remove_from_active ev (map_event ev IPPythonEvent_remove ?e2))"
  have e1: "?e1 = call_add ?vt ev (EventProcessor_add_event p ev (add_to_active_events ev e))"
    using assms by (simp add: EventManager_add_event_def Let_def)
  have at: "event_at ?e1 ev = IPPythonEvent_add (event_at e ev)"
    and eps: "ew_event_processors (ex_world ?e1) = ew_event_processors (ex_world e)"
    and pend: "ev \<in> set (ep_pending_events (processor ?e1 p))"
    unfolding e1 by (simp_all add: call_add_def EventProcessor_add_event_def IPPythonEvent_class_def)
  have "unschedule_event ev ?e1 = Inr ?e2"
    using assms by (simp add: unschedule_event_def Let_def at eps IPPythonEvent_add_def)
  then have "EventManager_remove_event ?vt (Some ev) ?e1 = Some (Inr 0, ?e')"
    by (simp add: EventManager_remove_event_def IPPythonEvent_class_def)
  moreover have "ev \<in> set (ep_pending_events (processor ?e' p))"
    using pend by (simp add: EventProcessor_remove_event_def)
  moreover have "ev \<in> set (ew_freed (ex_world ?e'))" if "ev_free_on_removal (event_at e ev)"
    using that by (intro free_event_simps(4))
      (simp add: EventProcessor_remove_event_def at IPPythonEvent_remove_def IPPythonEvent_add_def)
  ultimately show ?thesis using freed_pending by (auto simp: add_pending_events_def)
qed

lemma removed_event_stays_pending_witness:
  "\<exists>e'. EventManager_remove_event (IPPythonEvent_class demo_calls demo_python) (Some 2)
          (snd (EventManager_add_event (IPPythonEvent_class demo_calls demo_python) 2 demo_sim)) = Some (Inr 0, e') \<and>
     add_pending_events 0 10 False e' = Inl (Undefined ''use of a freed event'')"
  using removed_event_stays_pending [of demo_sim 2 0 demo_calls demo_python 10 False] by auto

text \<open>
  C15: Removing an event that is attached before or after a job detaches, from that job, every other
  event as well: the instruments of events have no name, and \<open>remove_inst\<close> goes by name. The others
  stay listed as active but are no longer processed. The named instruments stay.
\<close>

theorem removal_detaches_every_event:
  assumes "ei \<in> set (ew_events_instrumented (ex_world e))"
    and "\<forall>x \<in> set (ew_events_instrumented (ex_world e)). ei_name x = []"
    and "ev_before_after (event_at e (ei_event ei)) \<noteq> EVENT_NOTARGET"
  shows "\<exists>e'. EventManager_remove_event vt (Some (ei_event ei)) e = Some (Inr 0, e') \<and>
     jd_inst_before (ex_jobs e' (ei_target_job ei)) =
       filter (\<lambda>x. ib_name x \<noteq> []) (jd_inst_before (ex_jobs e (ei_target_job ei))) \<and>
     jd_inst_after (ex_jobs e' (ei_target_job ei)) =
       filter (\<lambda>x. ib_name x \<noteq> []) (jd_inst_after (ex_jobs e (ei_target_job ei))) \<and>
     (\<forall>x \<in> set (ew_events_instrumented (ex_world e)). ei_event x \<noteq> ei_event ei \<longrightarrow>
        x \<in> set (ew_events_instrumented (ex_world e')))"
proof -
  let ?d = "detach (\<lambda>x. ei_event x = ei_event ei) e"
  let ?m = "remove_from_active (ei_event ei) (map_event (ei_event ei) (vt_remove vt) ?d)"
  let ?e' = "free_event (ei_event ei) ?m"
  have "EventManager_remove_event vt (Some (ei_event ei)) e = Some (Inr 0, ?e')"
    using assms(3) by (simp add: EventManager_remove_event_def unschedule_event_def)
  moreover have "ei_target_job ei \<in> ei_target_job ` {x \<in> set (ew_events_instrumented (ex_world e)). ei_event x = ei_event ei}"
    using assms(1) by blast
  moreover have "ex_jobs ?e' = ex_jobs ?d" by simp
  moreover have "ew_events_instrumented (ex_world ?e') = ew_events_instrumented (ex_world ?d)"
    by (simp add: free_event_def remove_from_active_def map_event_def Let_def split: option.split)
  ultimately show ?thesis
    using detach_jobs [OF assms(2), of "\<lambda>x. ei_event x = ei_event ei"]
    unfolding unnamed_detached_def by (intro exI [of _ ?e']) auto
qed

text \<open>Two events before the same job; the first is removed.\<close>

definition demo_instrumented :: "unit py_sim" where
  "demo_instrumented =
     snd (add_event_before (IPPythonEvent_class demo_calls demo_python) 2 ''job'' 1
       (snd (add_event_before (IPPythonEvent_class demo_calls demo_python) 4 ''job'' 1
         (demo_sim\<lparr>ex_all_jobs := [(''job'', 3)]\<rparr>))))"

lemma attach_event_Some:
  assumes "get_job e name inst = Some j"
  shows "ex_jobs (snd (attach_event vt ba add_inst ev name inst e)) =
     (ex_jobs e)(j := add_inst (instrument_of (new_EventInstrument ev j)) (ex_jobs e j))"
    and "ew_events_instrumented (ex_world (snd (attach_event vt ba add_inst ev name inst e))) =
     ew_events_instrumented (ex_world e) @ [new_EventInstrument ev j]"
    and "ex_all_jobs (snd (attach_event vt ba add_inst ev name inst e)) = ex_all_jobs e"
    and "event_at (snd (attach_event vt ba add_inst ev name inst e)) x =
     (if x = ev then vt_add vt (set_target ba name inst (event_at e ev)) else event_at e x)"
  using assms
  by (simp_all add: attach_event_def Let_def call_add_def map_job_def map_event_def event_at_def add_to_active_events_def)

lemma demo_instrumented_simps:
  "jd_inst_before (ex_jobs demo_instrumented 3) =
     [instrument_of (new_EventInstrument 4 3), instrument_of (new_EventInstrument 2 3)]"
  "ew_events_instrumented (ex_world demo_instrumented) = [new_EventInstrument 4 3, new_EventInstrument 2 3]"
  "ev_before_after (event_at demo_instrumented 4) = EVENT_BEFORETARGET"
proof -
  let ?vt = "IPPythonEvent_class demo_calls demo_python"
  let ?e0 = "demo_sim\<lparr>ex_all_jobs := [(''job'', 3)]\<rparr>"
  let ?e1 = "snd (attach_event ?vt EVENT_BEFORETARGET add_inst_before 4 ''job'' 1 ?e0)"
  have g: "get_job e ''job'' 1 = Some 3" if "ex_all_jobs e = [(''job'', 3)]" for e :: "unit py_sim"
    using that by (simp add: get_job_def equal_range_def)
  have g0: "get_job ?e0 ''job'' 1 = Some 3" by (rule g) simp
  note 1 = attach_event_Some [OF g0, of ?vt EVENT_BEFORETARGET add_inst_before 4]
  have g1: "get_job ?e1 ''job'' 1 = Some 3" by (rule g) (simp only: 1(3), simp)
  note 2 = attach_event_Some [OF g1, of ?vt EVENT_BEFORETARGET add_inst_before 2]
  have i: "demo_instrumented = snd (attach_event ?vt EVENT_BEFORETARGET add_inst_before 2 ''job'' 1 ?e1)"
    by (simp only: demo_instrumented_def add_event_before_def)
  have j: "jd_inst_before (ex_jobs ?e0 3) = []" by (simp add: demo_sim_def new_Executive_def new_JobData_default_def)
  show "jd_inst_before (ex_jobs demo_instrumented 3) =
     [instrument_of (new_EventInstrument 4 3), instrument_of (new_EventInstrument 2 3)]"
    unfolding i 2(1) 1(1) using j by (simp add: 1(1) add_inst_before_def insert_at_def instrument_of_def)
  show "ew_events_instrumented (ex_world demo_instrumented) = [new_EventInstrument 4 3, new_EventInstrument 2 3]"
    unfolding i 2(2) 1(2) by simp
  show "ev_before_after (event_at demo_instrumented 4) = EVENT_BEFORETARGET"
    unfolding i 2(4) 1(4) by (simp add: IPPythonEvent_class_def IPPythonEvent_add_def set_target_def)
qed

theorem removal_detaches_every_event_witness:
  "jd_inst_before (ex_jobs demo_instrumented 3) \<noteq> [] \<and>
   (\<exists>e'. EventManager_remove_event (IPPythonEvent_class demo_calls demo_python) (Some 4) demo_instrumented = Some (Inr 0, e') \<and>
     jd_inst_before (ex_jobs e' 3) = [] \<and> new_EventInstrument 2 3 \<in> set (ew_events_instrumented (ex_world e')))"
  using removal_detaches_every_event [of "new_EventInstrument 4 3" demo_instrumented "IPPythonEvent_class demo_calls demo_python"]
  by (auto simp: demo_instrumented_simps new_EventInstrument_def instrument_of_def)

subsection \<open>Further behaviour\<close>

text \<open>A change of the time unit rescales the next call times of events, not their cycles.\<close>

lemma retime_events_keep_cycle:
  "ev_cycle_tics (event_at (retime_events old_tt tt evs e) ev) = ev_cycle_tics (event_at e ev)"
  by (induction old_tt tt evs e rule: retime_events.induct) simp_all

lemma tic_change_keeps_event_cycle:
  "time_tic_changed e = Some (Inr 0, e') \<Longrightarrow> ev_cycle_tics (event_at e' ev) = ev_cycle_tics (event_at e ev)"
  by (auto simp: time_tic_changed_def retime_events_keep_cycle split: if_splits)

text \<open>Python code that fails before it assigns leaves the value of an earlier condition.\<close>

lemma failed_condition_keeps_value:
  assumes "PyRun_SimpleString py (''trick_ip.ip.return_val = '' @ s @ [CHR 0x0A]) e = Some (Inr py_ret, e')"
    and "ew_return_val (ex_world e') = ew_return_val (ex_world e)"
  shows "parse_condition py s e = Some (Inr (py_ret, ew_return_val (ex_world e)), e')"
  using assms by (simp add: parse_condition_def)

text \<open>The first event of the set that is late blocks the others: nothing is processed.\<close>

lemma late_event_blocks:
  assumes "ep_event_set (processor e p) = ev # evs" and "ev \<notin> set (ew_freed (ex_world e))"
    and "event_time e ev \<noteq> t"
  shows "process_event vt p t e = Some (Inr 0, schedule_processor p e)"
  unfolding process_event_def using assms by (subst process_loop.simps) simp

end
