(* ===== verification/Clock.thy ===== *)
theory Clock
  imports ExecControl
begin

text \<open>
  \<open>Trick::Clock\<close> (sim\_services/Clock/Clock.cpp) with \<open>Trick::GetTimeOfDayClock\<close>: real time in
  simulation tics, as the distance of the wall clock from a reference, scaled.

  The wall clock is hardware: the \<open>n\<close>-th reading of clock \<open>c\<close> is the parameter \<open>ce_wall c n\<close>, and the
  state counts the readings. Clocks, the real time synchronisation and its timer are part of the
  world of the executive; a timer is hardware too, and the calls made to it are recorded.
\<close>

type_synonym clock_ptr = nat

record Clock =
  ck_name :: string
  ck_clock_tics_per_sec :: int
  ck_rt_clock_ratio :: rat
  ck_sim_tic_ratio :: rat
  ck_ref_time_tics :: int

datatype timer_call =
    Timer_init | Timer_start rat | Timer_reset rat | Timer_stop | Timer_pause | Timer_shutdown
  | Timer_set_active bool

record ('r, 'u) RtWorld =
  rw_clocks :: "clock_ptr \<Rightarrow> Clock"
  rw_the_clock :: "clock_ptr option"
  rw_reads :: nat
  rw_timer :: "timer_call list"
  rw_rts :: 'r
  rw_user :: 'u

type_synonym ('r, 'u) rt_sim = "('r, 'u) RtWorld Executive"

text \<open>\<open>ce_init c\<close> is what the derived class returns from \<open>clock_init\<close>.\<close>

record ClockEnv =
  ce_wall :: "clock_ptr \<Rightarrow> nat \<Rightarrow> int"
  ce_init :: "clock_ptr \<Rightarrow> int"

definition new_Clock :: "int \<Rightarrow> string \<Rightarrow> Clock" where
  "new_Clock in_clock_tics_per_sec in_name =
     \<lparr>ck_name = in_name, ck_clock_tics_per_sec = in_clock_tics_per_sec, ck_rt_clock_ratio = 1,
      ck_sim_tic_ratio = 1, ck_ref_time_tics = 0\<rparr>"

definition new_GetTimeOfDayClock :: Clock where
  "new_GetTimeOfDayClock = new_Clock 1000000 ''GetTimeOfDay - CLOCK_REALTIME''"

subsection \<open>One clock\<close>

definition calc_sim_time_ratio :: "int \<Rightarrow> Clock \<Rightarrow> Clock" where
  "calc_sim_time_ratio in_time_tic_value ck =
     ck\<lparr>ck_sim_tic_ratio := ddiv (dbl in_time_tic_value) (dbl (ck_clock_tics_per_sec ck))\<rparr>"

definition set_reference :: "int \<Rightarrow> Clock \<Rightarrow> Clock" where
  "set_reference ref ck = ck\<lparr>ck_ref_time_tics := ref\<rparr>"

text \<open>\<open>x / (rt_clock_ratio * sim_tic_ratio)\<close>, cut to an integer: simulation tics to clock tics.\<close>

definition to_clock_tics :: "Clock \<Rightarrow> int \<Rightarrow> int" where
  "to_clock_tics ck x = c_trunc (ddiv (dbl x) (dmul (ck_rt_clock_ratio ck) (ck_sim_tic_ratio ck)))"

text \<open>The time a clock shows at a wall clock reading.\<close>

definition clock_value :: "Clock \<Rightarrow> int \<Rightarrow> int" where
  "clock_value ck curr_time =
     c_trunc (dmul (dmul (dbl (curr_time - ck_ref_time_tics ck)) (ck_rt_clock_ratio ck)) (ck_sim_tic_ratio ck))"

definition adjust_ref_time :: "int \<Rightarrow> Clock \<Rightarrow> Clock" where
  "adjust_ref_time in_tics ck = ck\<lparr>ck_ref_time_tics := ck_ref_time_tics ck + to_clock_tics ck in_tics\<rparr>"

definition reset_at :: "int \<Rightarrow> int \<Rightarrow> Clock \<Rightarrow> Clock" where
  "reset_at curr_time ref ck = ck\<lparr>ck_ref_time_tics := curr_time - to_clock_tics ck ref\<rparr>"

subsection \<open>Clocks of the state\<close>

definition clock :: "('r, 'u) rt_sim \<Rightarrow> clock_ptr \<Rightarrow> Clock" where
  "clock e c = rw_clocks (ex_world e) c"

definition map_clock :: "clock_ptr \<Rightarrow> (Clock \<Rightarrow> Clock) \<Rightarrow> ('r, 'u) rt_sim \<Rightarrow> ('r, 'u) rt_sim" where
  "map_clock c f e = e\<lparr>ex_world := (ex_world e)\<lparr>rw_clocks := (rw_clocks (ex_world e))(c := f (clock e c))\<rparr>\<rparr>"

definition wall_clock_time :: "ClockEnv \<Rightarrow> clock_ptr \<Rightarrow> ('r, 'u) rt_sim \<Rightarrow> int \<times> ('r, 'u) rt_sim" where
  "wall_clock_time env c e =
     (ce_wall env c (rw_reads (ex_world e)),
      e\<lparr>ex_world := (ex_world e)\<lparr>rw_reads := rw_reads (ex_world e) + 1\<rparr>\<rparr>)"

definition clock_time :: "ClockEnv \<Rightarrow> clock_ptr \<Rightarrow> ('r, 'u) rt_sim \<Rightarrow> int \<times> ('r, 'u) rt_sim" where
  "clock_time env c e =
     (let (curr_time, e1) = wall_clock_time env c e in (clock_value (clock e1 c) curr_time, e1))"

text \<open>The spin loop; giving up the processor for a moment changes nothing here.\<close>

partial_function (option) clock_spin ::
  "ClockEnv \<Rightarrow> clock_ptr \<Rightarrow> int \<Rightarrow> ('r, 'u) rt_sim \<Rightarrow> (int, ('r, 'u) rt_sim) result" where
  "clock_spin env c req_time e =
     (let (curr_time, e1) = clock_time env c e
      in if curr_time < req_time then clock_spin env c req_time e1 else Some (Inr curr_time, e1))"

definition clock_reset :: "ClockEnv \<Rightarrow> clock_ptr \<Rightarrow> int \<Rightarrow> ('r, 'u) rt_sim \<Rightarrow> int \<times> ('r, 'u) rt_sim" where
  "clock_reset env c ref e =
     (let (curr_time, e1) = wall_clock_time env c e;
          e2 = map_clock c (reset_at curr_time ref) e1;
          ck = clock e2 c
      in (c_trunc (dmul (dmul (dbl (ck_ref_time_tics ck)) (ck_sim_tic_ratio ck)) (ck_rt_clock_ratio ck)), e2))"

definition Clock_set_rt_clock_ratio ::
  "ClockEnv \<Rightarrow> clock_ptr \<Rightarrow> rat \<Rightarrow> ('r, 'u) rt_sim \<Rightarrow> int \<times> ('r, 'u) rt_sim" where
  "Clock_set_rt_clock_ratio env c in_rt_clock_ratio e =
     (let (curr_time, e1) = clock_time env c e;
          e2 = map_clock c (\<lambda>ck. ck\<lparr>ck_rt_clock_ratio := in_rt_clock_ratio\<rparr>) e1
      in (0, snd (clock_reset env c curr_time e2)))"

text \<open>The remainder is taken modulo the interval in clock tics, which must not be 0.\<close>

definition sync_to_wall_clock ::
  "ClockEnv \<Rightarrow> clock_ptr \<Rightarrow> rat \<Rightarrow> int \<Rightarrow> ('r, 'u) rt_sim \<Rightarrow> (int, ('r, 'u) rt_sim) result" where
  "sync_to_wall_clock env c align_tic_mult tics_per_sec e =
     (let (curr_time, e1) = wall_clock_time env c e;
          ck = clock e1 c;
          n = c_trunc (ddiv (dmul align_tic_mult (dbl tics_per_sec))
                (dmul (ck_rt_clock_ratio ck) (ck_sim_tic_ratio ck)))
      in if n = 0 then Some (Inl (Undefined ''curr_time % 0''), e1)
         else Some (Inr 0, map_clock c (set_reference (curr_time - curr_time smod n + n)) e1))"

definition set_global_clock :: "clock_ptr \<Rightarrow> ('r, 'u) rt_sim \<Rightarrow> ('r, 'u) rt_sim" where
  "set_global_clock c e = e\<lparr>ex_world := (ex_world e)\<lparr>rw_the_clock := Some c\<rparr>\<rparr>"

definition clock_init :: "ClockEnv \<Rightarrow> clock_ptr \<Rightarrow> ('r, 'u) rt_sim \<Rightarrow> int \<times> ('r, 'u) rt_sim" where
  "clock_init env c e = (ce_init env c, set_global_clock c e)"

definition timer :: "timer_call \<Rightarrow> ('r, 'u) rt_sim \<Rightarrow> ('r, 'u) rt_sim" where
  "timer t e = e\<lparr>ex_world := (ex_world e)\<lparr>rw_timer := rw_timer (ex_world e) @ [t]\<rparr>\<rparr>"

end
