(* ===== verification/RealtimeSync.thy ===== *)
theory RealtimeSync
  imports Clock
begin

text \<open>
  \<open>Trick::RealtimeSync\<close> (sim\_services/RealtimeSync/RealtimeSync.cpp): keeps the end of each software
  frame from coming before its real time, counts the frames that come late, and stops or freezes
  a simulation that is too late. The message of the overrun exception carries figures that are not
  modelled; the final report is output.
\<close>

record RealtimeSync =
  rs_enable_flag :: bool
  rs_disable_flag :: bool
  rs_active :: bool
  rs_freeze_frame :: int
  rs_freeze_time_tics :: int
  rs_frame_overrun_cnt :: nat
  rs_total_overrun :: nat
  rs_rt_max_overrun_cnt :: nat
  rs_rt_max_overrun_time :: rat
  rs_rt_max_overrun_time_tics :: int
  rs_rt_overrun_freeze :: bool
  rs_frame_sched_time :: int
  rs_frame_time :: rat
  rs_frame_overrun_time :: int
  rs_frame_overrun :: rat
  rs_last_clock_time :: int
  rs_tics_per_sec :: int
  rs_align_sim_to_wall_clock :: bool
  rs_align_tic_mult :: rat
  rs_rt_clock :: clock_ptr
  rs_default_clock :: clock_ptr
  rs_freeze_shutdown :: bool
  rs_sim_start_time :: int
  rs_sim_end_init_time :: int
  rs_sim_end_time :: int
  rs_actual_run_ratio :: rat
  rs_samples :: "int list"
  rs_num_samples :: nat

type_synonym 'u rts_sim = "(RealtimeSync, 'u) rt_sim"

definition rts :: "'u rts_sim \<Rightarrow> RealtimeSync" where
  "rts e = rw_rts (ex_world e)"

definition map_rts :: "(RealtimeSync \<Rightarrow> RealtimeSync) \<Rightarrow> 'u rts_sim \<Rightarrow> 'u rts_sim" where
  "map_rts f e = e\<lparr>ex_world := (ex_world e)\<lparr>rw_rts := f (rw_rts (ex_world e))\<rparr>\<rparr>"

abbreviation rt_clock :: "'u rts_sim \<Rightarrow> clock_ptr" where
  "rt_clock e \<equiv> rs_rt_clock (rts e)"

text \<open>
  The members of the constructor's object before \<open>change_clock\<close> and \<open>change_timer\<close>: those it does not
  set are zero, the object being a static one.
\<close>

definition new_RealtimeSync :: "clock_ptr \<Rightarrow> RealtimeSync" where
  "new_RealtimeSync in_clock =
     \<lparr>rs_enable_flag = False, rs_disable_flag = False, rs_active = False, rs_freeze_frame = 0,
      rs_freeze_time_tics = 0, rs_frame_overrun_cnt = 0, rs_total_overrun = 0,
      rs_rt_max_overrun_cnt = 100000000, rs_rt_max_overrun_time = rnd64 (10 ^ 37),
      rs_rt_max_overrun_time_tics = 0, rs_rt_overrun_freeze = False, rs_frame_sched_time = 0,
      rs_frame_time = 0, rs_frame_overrun_time = 0, rs_frame_overrun = 0, rs_last_clock_time = 0,
      rs_tics_per_sec = 0, rs_align_sim_to_wall_clock = False, rs_align_tic_mult = 1,
      rs_rt_clock = in_clock, rs_default_clock = in_clock, rs_freeze_shutdown = False,
      rs_sim_start_time = 0, rs_sim_end_init_time = 0, rs_sim_end_time = 0, rs_actual_run_ratio = 0,
      rs_samples = replicate 100 0, rs_num_samples = 0\<rparr>"

subsection \<open>Settings\<close>

definition rts_enable :: "RealtimeSync \<Rightarrow> RealtimeSync" where
  "rts_enable r = r\<lparr>rs_enable_flag := True\<rparr>"

definition rts_disable :: "RealtimeSync \<Rightarrow> RealtimeSync" where
  "rts_disable r = r\<lparr>rs_disable_flag := True\<rparr>"

definition change_clock :: "ClockEnv \<Rightarrow> clock_ptr \<Rightarrow> 'u rts_sim \<Rightarrow> int \<times> 'u rts_sim" where
  "change_clock env in_clock e =
     (let (ret, e1) = clock_init env in_clock e
      in (ret, if ret = 0 then map_rts (\<lambda>r. r\<lparr>rs_rt_clock := in_clock\<rparr>) e1 else e1))"

definition rts_set_rt_clock_ratio :: "ClockEnv \<Rightarrow> rat \<Rightarrow> 'u rts_sim \<Rightarrow> int \<times> 'u rts_sim" where
  "rts_set_rt_clock_ratio env in_clock_ratio e =
     (let (_, e1) = Clock_set_rt_clock_ratio env (rt_clock e) in_clock_ratio e
      in (0, timer (Timer_set_active False) e1))"

definition get_sim_start_time :: "ClockEnv \<Rightarrow> 'u rts_sim \<Rightarrow> 'u rts_sim" where
  "get_sim_start_time env e =
     (let (t, e1) = wall_clock_time env (rs_default_clock (rts e)) e
      in map_rts (\<lambda>r. r\<lparr>rs_sim_start_time := t\<rparr>) e1)"

definition get_sim_end_init_time :: "ClockEnv \<Rightarrow> 'u rts_sim \<Rightarrow> 'u rts_sim" where
  "get_sim_end_init_time env e =
     (let (t, e1) = wall_clock_time env (rs_default_clock (rts e)) e
      in map_rts (\<lambda>r. r\<lparr>rs_sim_end_init_time := t\<rparr>) e1)"

definition get_sim_end_time :: "ClockEnv \<Rightarrow> 'u rts_sim \<Rightarrow> 'u rts_sim" where
  "get_sim_end_time env e =
     (let (t, e1) = wall_clock_time env (rs_default_clock (rts e)) e
      in map_rts (\<lambda>r. r\<lparr>rs_sim_end_time := t\<rparr>) e1)"

subsection \<open>Starting\<close>

text \<open>A frame length for the timer: seconds of simulation to seconds of real time.\<close>

definition frame_length :: "rat \<Rightarrow> 'u rts_sim \<Rightarrow> rat" where
  "frame_length sec e = ddiv sec (ck_rt_clock_ratio (clock e (rt_clock e)))"

text \<open>The cast of the largest overrun to tics is undefined when it does not fit.\<close>

definition start_sleep_timer :: "'u rts_sim \<Rightarrow> (int, 'u rts_sim) result" where
  "start_sleep_timer e =
     (if rs_active (rts e) \<and> 0 \<le> ex_time_tics e then
        (let e1 = timer Timer_init e; r = rts e1;
             m = c_trunc (dmul (rs_rt_max_overrun_time r) (dbl (rs_tics_per_sec r)))
         in if rnd64 (10 ^ 36) < rs_rt_max_overrun_time r
            then Some (Inr 0, map_rts (\<lambda>r. r\<lparr>rs_rt_max_overrun_time_tics := TRICK_MAX_LONG_LONG\<rparr>) e1)
            else if int64 m then Some (Inr 0, map_rts (\<lambda>r. r\<lparr>rs_rt_max_overrun_time_tics := m\<rparr>) e1)
            else Some (Inl (Undefined ''cast of rt_max_overrun_time''), e1))
      else Some (Inr 0, e))"

definition start_realtime :: "ClockEnv \<Rightarrow> rat \<Rightarrow> int \<Rightarrow> 'u rts_sim \<Rightarrow> (int, 'u rts_sim) result" where
  "start_realtime env in_frame_time ref_time e =
     andthen
       (if rs_active (rts e) then
          (if 0 \<le> ref_time then
             andthen (start_sleep_timer (snd (clock_reset env (rt_clock e) ref_time e)))
               (\<lambda>_ e1. Some (Inr (), timer (Timer_start (frame_length in_frame_time e1)) e1))
           else Some (Inr (), map_rts (\<lambda>r. r\<lparr>rs_active := False, rs_enable_flag := True\<rparr>) e))
        else Some (Inr (), e))
       (\<lambda>_ e1. let (t, e2) = clock_time env (rt_clock e1) e1
                in Some (Inr 0, map_rts (\<lambda>r. r\<lparr>rs_last_clock_time := t\<rparr>) e2))"

definition take_requests :: "RealtimeSync \<Rightarrow> RealtimeSync" where
  "take_requests r =
     (let r1 = (if rs_enable_flag r then r\<lparr>rs_active := True, rs_enable_flag := False\<rparr> else r)
      in if rs_disable_flag r1 then r1\<lparr>rs_active := False, rs_disable_flag := False\<rparr> else r1)"

definition align_clock :: "ClockEnv \<Rightarrow> 'u rts_sim \<Rightarrow> (unit, 'u rts_sim) result" where
  "align_clock env e =
     (let e1 = snd (clock_reset env (rt_clock e) 0 e)
      in andthen (sync_to_wall_clock env (rt_clock e1) (rs_align_tic_mult (rts e1)) (rs_tics_per_sec (rts e1)) e1)
        (\<lambda>_ e2. andthen (clock_spin env (rt_clock e2) 0 e2)
          (\<lambda>_ e3. Some (Inr (), snd (clock_reset env (rt_clock e3)
             (if ex_mode e3 = Freeze then ex_freeze_time_tics e3 else ex_time_tics e3) e3)))))"

definition rts_initialize :: "ClockEnv \<Rightarrow> 'u rts_sim \<Rightarrow> (int, 'u rts_sim) result" where
  "rts_initialize env e =
     (let e1 = map_rts (\<lambda>r. (take_requests r)\<lparr>rs_tics_per_sec := ex_time_tic_value e\<rparr>) e
      in andthen (start_sleep_timer e1)
        (\<lambda>_ e2. if rs_align_sim_to_wall_clock (rts e2)
                 then andthen (align_clock env e2) (\<lambda>_ e3. Some (Inr 0, e3))
                 else Some (Inr 0, e2)))"

subsection \<open>Frames\<close>

text \<open>\<open>Run_Ratio<100>\<close>: the ratio of simulation to real time over the last samples.\<close>

definition add_sample :: "int \<Rightarrow> RealtimeSync \<Rightarrow> RealtimeSync" where
  "add_sample sample r =
     r\<lparr>rs_samples := (rs_samples r)[rs_num_samples r mod 100 := sample], rs_num_samples := rs_num_samples r + 1\<rparr>"

definition ratio_over :: "rat \<Rightarrow> int \<Rightarrow> int \<Rightarrow> rat \<Rightarrow> int \<Rightarrow> rat" where
  "ratio_over software_frame n time_tic_value rt_ratio deltaVal =
     (if deltaVal = 0 then 1
      else ddiv (dbl (c_round (dmul (ddiv
             (dmul (dmul (dmul software_frame (dbl n)) (dbl time_tic_value)) rt_ratio) (dbl deltaVal)) 100))) 100)"

definition run_ratio :: "rat \<Rightarrow> int \<Rightarrow> rat \<Rightarrow> RealtimeSync \<Rightarrow> rat" where
  "run_ratio software_frame time_tic_value rt_ratio r =
     (let n = rs_num_samples r; s = rs_samples r
      in if n \<le> 1 then 0
         else if n < 100
         then ratio_over software_frame (int n - 1) time_tic_value rt_ratio (s ! (n - 1) - s ! 0)
         else ratio_over software_frame 99 time_tic_value rt_ratio (s ! ((n - 1) mod 100) - s ! (n mod 100)))"

text \<open>The limits on overruns: freeze, or terminate with \<open>-1\<close>.\<close>

definition check_overrun :: "'u rts_sim \<Rightarrow> (unit, 'u rts_sim) result" where
  "check_overrun e =
     (let r = rts e
      in if rs_rt_max_overrun_cnt r \<le> rs_frame_overrun_cnt r \<or>
            rs_rt_max_overrun_time_tics r \<le> rs_frame_overrun_time r then
           (if rs_rt_overrun_freeze r
            then Some (Inr (), snd (exec_freeze (map_rts (\<lambda>r. r\<lparr>rs_freeze_shutdown := True\<rparr>) e)))
            else Some (Inl (mk_ExecutiveException (-1) ''RealtimeSync.cpp'' 352 ''Maximum overrun condition exceeded''), e))
         else Some (Inr (), e))"

definition measure_overrun :: "int \<Rightarrow> RealtimeSync \<Rightarrow> RealtimeSync" where
  "measure_overrun late r =
     (let r1 = r\<lparr>rs_frame_overrun_time := late, rs_frame_overrun := ddiv (dbl late) (dbl (rs_tics_per_sec r))\<rparr>
      in if 0 < late
         then r1\<lparr>rs_frame_overrun_cnt := inc_u32 (rs_frame_overrun_cnt r1),
                 rs_total_overrun := inc_u32 (rs_total_overrun r1)\<rparr>
         else r1\<lparr>rs_frame_overrun_cnt := 0\<rparr>)"

definition end_frame :: "ClockEnv \<Rightarrow> int \<Rightarrow> int \<Rightarrow> 'u rts_sim \<Rightarrow> (int, 'u rts_sim) result" where
  "end_frame env sim_time_tics curr_clock_time e =
     (let late = curr_clock_time - sim_time_tics;
          e1 = map_rts (measure_overrun late) e
      in if 0 < late then
           andthen (check_overrun e1)
             (\<lambda>_ e2. clock_spin env (rt_clock e2) sim_time_tics (timer Timer_stop e2))
         else
           andthen (clock_spin env (rt_clock e1) sim_time_tics (timer Timer_pause e1))
             (\<lambda>now e2. Some (Inr now, timer (Timer_reset (frame_length (ex_software_frame e2) e2)) e2)))"

definition account_frame :: "int \<Rightarrow> 'u rts_sim \<Rightarrow> 'u rts_sim" where
  "account_frame now e =
     map_rts (\<lambda>r.
       let sched = now - rs_last_clock_time r;
           r1 = add_sample now (r\<lparr>rs_frame_sched_time := sched,
                  rs_frame_time := ddiv (dbl sched) (dbl (rs_tics_per_sec r)), rs_last_clock_time := now\<rparr>)
       in r1\<lparr>rs_actual_run_ratio := run_ratio (ex_software_frame e) (ex_time_tic_value e)
              (if rs_active r1 then ck_rt_clock_ratio (clock e (rs_rt_clock r1)) else 1) r1\<rparr>) e"

definition next_requests :: "RealtimeSync \<Rightarrow> RealtimeSync" where
  "next_requests r =
     r\<lparr>rs_active := (if rs_active r then \<not> rs_disable_flag r else rs_enable_flag r),
       rs_enable_flag := False, rs_disable_flag := False\<rparr>"

definition rt_monitor :: "ClockEnv \<Rightarrow> int \<Rightarrow> 'u rts_sim \<Rightarrow> (int, 'u rts_sim) result" where
  "rt_monitor env sim_time_tics e =
     (let (curr_clock_time, e1) = clock_time env (rt_clock e) e
      in andthen (if rs_active (rts e1) then end_frame env sim_time_tics curr_clock_time e1
                  else Some (Inr curr_clock_time, e1))
        (\<lambda>now e2.
           let e3 = account_frame now e2;
               start_rt = (\<not> rs_active (rts e3) \<and> rs_enable_flag (rts e3));
               e4 = map_rts next_requests e3
           in if start_rt
              then andthen (start_realtime env (ex_software_frame e4) sim_time_tics e4) (\<lambda>_ e5. Some (Inr 0, e5))
              else Some (Inr 0, e4)))"

subsection \<open>Freeze\<close>

definition rts_freeze_init :: "rat \<Rightarrow> 'u rts_sim \<Rightarrow> int \<times> 'u rts_sim" where
  "rts_freeze_init freeze_frame_sec e =
     (let e1 = (if rs_active (rts e) then timer (Timer_start (frame_length freeze_frame_sec e)) e else e)
      in (0, map_rts (\<lambda>r. r\<lparr>rs_freeze_frame := c_trunc (dmul freeze_frame_sec (dbl (rs_tics_per_sec r))),
               rs_freeze_time_tics := ex_time_tics e1\<rparr>) e1))"

definition freeze_pause :: "ClockEnv \<Rightarrow> rat \<Rightarrow> 'u rts_sim \<Rightarrow> (int, 'u rts_sim) result" where
  "freeze_pause env freeze_frame_sec e =
     (if \<not> rs_active (rts e) then
        andthen
          (if rs_enable_flag (rts e) then
             start_realtime env freeze_frame_sec (rs_freeze_time_tics (rts e))
               (map_rts (\<lambda>r. r\<lparr>rs_active := True, rs_enable_flag := False\<rparr>) e)
           else Some (Inr 0, e))
          (\<lambda>_ e1. Some (Inr 0, map_rts (\<lambda>r. r\<lparr>rs_disable_flag := False\<rparr>) e1))
      else
        (let e1 = map_rts (\<lambda>r. r\<lparr>rs_enable_flag := False, rs_active := (rs_active r \<and> \<not> rs_disable_flag r),
                    rs_disable_flag := False\<rparr>) e;
             e2 = timer Timer_pause e1
         in andthen (clock_spin env (rt_clock e2) (rs_freeze_time_tics (rts e2) + rs_freeze_frame (rts e2)) e2)
              (\<lambda>_ e3. Some (Inr 0, map_rts (\<lambda>r. r\<lparr>rs_freeze_time_tics := rs_freeze_time_tics r + rs_freeze_frame r\<rparr>)
                 (timer (Timer_reset (frame_length freeze_frame_sec e3)) e3)))))"

definition unfreeze :: "ClockEnv \<Rightarrow> int \<Rightarrow> rat \<Rightarrow> 'u rts_sim \<Rightarrow> (int, 'u rts_sim) result" where
  "unfreeze env sim_time_tics software_frame_sec e =
     andthen
       (if rs_active (rts e) then
          (if rs_freeze_shutdown (rts e)
           then Some (Inl (mk_ExecutiveException (-1) ''RealtimeSync.cpp'' 476 ''Freeze-Shutdown condition reached.''), e)
           else Some (Inr (), timer (Timer_start (frame_length software_frame_sec e))
             (map_clock (rt_clock e) (adjust_ref_time (rs_freeze_time_tics (rts e) - sim_time_tics)) e)))
        else Some (Inr (), e))
       (\<lambda>_ e1. let (t, e2) = clock_time env (rt_clock e1) e1
                in Some (Inr 0, map_rts (\<lambda>r. r\<lparr>rs_last_clock_time := t\<rparr>) e2))"

definition rts_restart :: "ClockEnv \<Rightarrow> int \<Rightarrow> 'u rts_sim \<Rightarrow> (int, 'u rts_sim) result" where
  "rts_restart env ref_time e =
     (let sim_mode = ex_mode e;
          e1 = snd (clock_reset env (rt_clock e) ref_time e)
      in if sim_mode = Run
         then andthen (start_realtime env (ex_software_frame e1) ref_time e1) (\<lambda>_ e2. Some (Inr 0, e2))
         else if sim_mode = Freeze then Some (Inr 0, snd (rts_freeze_init (ex_freeze_frame e1) e1))
         else Some (Inr 0, e1))"

text \<open>\<open>clock_stop\<close> of the clocks does nothing; the report is output.\<close>

definition rts_shutdown :: "'u rts_sim \<Rightarrow> int \<times> 'u rts_sim" where
  "rts_shutdown e = (0, if rs_active (rts e) then timer Timer_shutdown e else e)"

end
