(* ===== verification/PropsRealtime.thy ===== *)
theory PropsRealtime
  imports RealtimeSync
begin

text \<open>
  Properties of the clock and of the real time synchronisation: when a frame may end, what counts as
  an overrun and what follows from it, and that a freeze costs no real time.
\<close>

subsection \<open>Lemmas\<close>

lemma rt_state_simps [simp]:
  "rts (timer t e) = rts e" "rts (map_clock c f e) = rts e" "rts (map_rts g e) = g (rts e)"
  "clock (timer t e) = clock e" "clock (map_rts g e) = clock e"
  "clock (map_clock c f e) x = (if x = c then f (clock e c) else clock e x)"
  "rw_reads (ex_world (timer t e)) = rw_reads (ex_world e)"
  "rw_reads (ex_world (map_rts g e)) = rw_reads (ex_world e)"
  "rw_reads (ex_world (map_clock c f e)) = rw_reads (ex_world e)"
  "ex_time_tics (timer t e) = ex_time_tics e" "ex_time_tics (map_rts g e) = ex_time_tics e"
  "ex_time_tics (map_clock c f e) = ex_time_tics e"
  "ex_async_freeze_command (timer t e) = ex_async_freeze_command e"
  "ex_async_freeze_command (map_rts g e) = ex_async_freeze_command e"
  "rw_timer (ex_world (timer t e)) = rw_timer (ex_world e) @ [t]"
  "rw_timer (ex_world (map_rts g e)) = rw_timer (ex_world e)"
  by (auto simp: rts_def timer_def map_clock_def map_rts_def clock_def fun_eq_iff)

lemma exec_freeze_simps [simp]:
  "rts (snd (exec_freeze e)) = rts e" "clock (snd (exec_freeze e)) = clock e"
  "rw_reads (ex_world (snd (exec_freeze e))) = rw_reads (ex_world e)"
  "ex_async_freeze_command (snd (exec_freeze e))"
  by (simp_all add: exec_freeze_def rts_def clock_def fun_eq_iff)

text \<open>\<open>later n e\<close> is the state after \<open>n\<close> more readings of the wall clock.\<close>

definition later :: "nat \<Rightarrow> 'u rts_sim \<Rightarrow> 'u rts_sim" where
  "later n e = e\<lparr>ex_world := (ex_world e)\<lparr>rw_reads := rw_reads (ex_world e) + n\<rparr>\<rparr>"

lemma later_simps [simp]:
  "rts (later n e) = rts e" "clock (later n e) = clock e" "later 0 e = e"
  "rw_reads (ex_world (later n e)) = rw_reads (ex_world e) + n"
  "later m (later n e) = later (n + m) e" "ex_time_tics (later n e) = ex_time_tics e"
  "ex_async_freeze_command (later n e) = ex_async_freeze_command e"
  "rw_timer (ex_world (later n e)) = rw_timer (ex_world e)"
  by (simp_all add: later_def rts_def clock_def fun_eq_iff add.assoc)

lemma later_Suc [simp]: "later n (later (Suc 0) e) = later (Suc n) e" "later (Suc 0) (later n e) = later (Suc n) e"
  by (simp_all add: later_def)

text \<open>What clock \<open>c\<close> shows at the \<open>k\<close>-th reading from now.\<close>

definition shows_at :: "ClockEnv \<Rightarrow> clock_ptr \<Rightarrow> 'u rts_sim \<Rightarrow> nat \<Rightarrow> int" where
  "shows_at env c e k = clock_value (clock e c) (ce_wall env c (rw_reads (ex_world e) + k))"

lemma clock_time_eq: "clock_time env c e = (shows_at env c e 0, later (Suc 0) e)"
  by (simp add: clock_time_def wall_clock_time_def shows_at_def later_def clock_def)

lemma shows_at_later [simp]: "shows_at env c (later n e) k = shows_at env c e (n + k)"
  by (simp add: shows_at_def add.assoc)

lemma shows_at_cong [simp]:
  "shows_at env c (timer t e) k = shows_at env c e k"
  "shows_at env c (map_rts g e) k = shows_at env c e k"
  "shows_at env c (snd (exec_freeze e)) k = shows_at env c e k"
  by (simp_all add: shows_at_def)

lemma clock_spin_at:
  assumes "\<not> shows_at env c e k < t" and "\<forall>i < k. shows_at env c e i < t"
  shows "clock_spin env c t e = Some (Inr (shows_at env c e k), later (Suc k) e)"
  using assms
proof (induction k arbitrary: e)
  case 0
  then show ?case by (subst clock_spin.simps) (simp add: clock_time_eq)
next
  case (Suc k)
  have "clock_spin env c t (later (Suc 0) e)
      = Some (Inr (shows_at env c (later (Suc 0) e) k), later (Suc k) (later (Suc 0) e))"
    using Suc.prems by (intro Suc.IH) auto
  moreover have "shows_at env c e 0 < t" using Suc.prems(2) by simp
  ultimately show ?case by (subst clock_spin.simps) (simp add: clock_time_eq)
qed

lemma clock_spin_returns:
  assumes "\<exists>k. t \<le> shows_at env c e k"
  shows "\<exists>k. clock_spin env c t e = Some (Inr (shows_at env c e k), later (Suc k) e) \<and> t \<le> shows_at env c e k"
proof -
  obtain k where k: "t \<le> shows_at env c e k" "\<forall>i < k. \<not> t \<le> shows_at env c e i"
    using exists_least_iff [of "\<lambda>k. t \<le> shows_at env c e k"] assms by blast
  then have "clock_spin env c t e = Some (Inr (shows_at env c e k), later (Suc k) e)"
    by (intro clock_spin_at) (auto simp: not_le)
  with k(1) show ?thesis by blast
qed

text \<open>The clock at the ratio 1 counts the tics of its wall clock from the reference.\<close>

lemma clock_value_unit:
  assumes "ck_rt_clock_ratio ck = 1" and "ck_sim_tic_ratio ck = 1" and "\<bar>w - ck_ref_time_tics ck\<bar> < 2 ^ 53"
  shows "clock_value ck w = w - ck_ref_time_tics ck"
proof -
  have "rnd64 (of_int (w - ck_ref_time_tics ck)) = of_int (w - ck_ref_time_tics ck)"
    using assms(3) by (rule rnd64_of_int)
  then show ?thesis
    using assms(1,2) by (simp only: clock_value_def dbl_def dmul_def mult_1_right c_trunc_of_int)
qed

subsection \<open>The end of a frame\<close>

text \<open>How late the first look at the clock finds the frame, and whether that is past a limit.\<close>

definition lateness :: "ClockEnv \<Rightarrow> int \<Rightarrow> 'u rts_sim \<Rightarrow> int" where
  "lateness env sim e = shows_at env (rt_clock e) e 0 - sim"

definition past_limit :: "int \<Rightarrow> RealtimeSync \<Rightarrow> bool" where
  "past_limit late r \<longleftrightarrow> 0 < late \<and>
     (rs_rt_max_overrun_cnt r \<le> inc_u32 (rs_frame_overrun_cnt r) \<or> rs_rt_max_overrun_time_tics r \<le> late)"

text \<open>The clock reaches \<open>t\<close> and stays there: it may stop for a while, but it is not set back for ever.\<close>

definition clock_reaches :: "ClockEnv \<Rightarrow> clock_ptr \<Rightarrow> int \<Rightarrow> 'u rts_sim \<Rightarrow> bool" where
  "clock_reaches env c t e \<longleftrightarrow> (\<exists>n. \<forall>k \<ge> n. t \<le> shows_at env c e k)"

lemma clock_reaches_spin:
  assumes "clock_reaches env c t e"
  shows "\<exists>k v. clock_spin env c t (later n e) = Some (Inr v, later (Suc (n + k)) e) \<and> t \<le> v"
proof -
  obtain m where "\<forall>k \<ge> m. t \<le> shows_at env c e k" using assms by (auto simp: clock_reaches_def)
  then have "t \<le> shows_at env c (later n e) m" by simp
  then obtain k where "clock_spin env c t (later n e)
      = Some (Inr (shows_at env c (later n e) k), later (Suc k) (later n e))" "t \<le> shows_at env c (later n e) k"
    using clock_spin_returns by blast
  then show ?thesis by (intro exI [of _ k] exI [of _ "shows_at env c (later n e) k"]) simp
qed

lemma measure_overrun_simps [simp]:
  "rs_active (measure_overrun l r) = rs_active r"
  "rs_rt_clock (measure_overrun l r) = rs_rt_clock r"
  "rs_freeze_shutdown (measure_overrun l r) = rs_freeze_shutdown r"
  "rs_rt_overrun_freeze (measure_overrun l r) = rs_rt_overrun_freeze r"
  "rs_frame_overrun_cnt (measure_overrun l r) = (if 0 < l then inc_u32 (rs_frame_overrun_cnt r) else 0)"
  "rs_total_overrun (measure_overrun l r) = (if 0 < l then inc_u32 (rs_total_overrun r) else rs_total_overrun r)"
  "rs_rt_max_overrun_cnt (measure_overrun l r) = rs_rt_max_overrun_cnt r"
  "rs_rt_max_overrun_time_tics (measure_overrun l r) = rs_rt_max_overrun_time_tics r"
  "rs_frame_overrun_time (measure_overrun l r) = l"
  by (simp_all add: measure_overrun_def Let_def)

lemma account_frame_simps [simp]:
  "rs_active (rts (account_frame now e)) = rs_active (rts e)"
  "rs_frame_overrun_cnt (rts (account_frame now e)) = rs_frame_overrun_cnt (rts e)"
  "rs_total_overrun (rts (account_frame now e)) = rs_total_overrun (rts e)"
  "rs_freeze_shutdown (rts (account_frame now e)) = rs_freeze_shutdown (rts e)"
  "rs_last_clock_time (rts (account_frame now e)) = now"
  "ex_async_freeze_command (account_frame now e) = ex_async_freeze_command e"
  by (simp_all add: account_frame_def add_sample_def Let_def)

lemma next_requests_simps [simp]:
  "rs_frame_overrun_cnt (next_requests r) = rs_frame_overrun_cnt r"
  "rs_total_overrun (next_requests r) = rs_total_overrun r"
  "rs_freeze_shutdown (next_requests r) = rs_freeze_shutdown r"
  "rs_last_clock_time (next_requests r) = rs_last_clock_time r"
  by (simp_all add: next_requests_def)

lemma clock_reaches_cong [simp]:
  "clock_reaches env c t (timer x e) = clock_reaches env c t e"
  "clock_reaches env c t (map_rts g e) = clock_reaches env c t e"
  "clock_reaches env c t (snd (exec_freeze e)) = clock_reaches env c t e"
  by (simp_all add: clock_reaches_def)

lemma clock_reaches_later [simp]:
  "clock_reaches env c t e \<Longrightarrow> clock_reaches env c t (later n e)"
  unfolding clock_reaches_def by (auto intro: trans_le_add2)

lemma clock_reaches_spin0:
  assumes "clock_reaches env c t e"
  shows "\<exists>k v. clock_spin env c t e = Some (Inr v, later k e) \<and> t \<le> v"
  using clock_reaches_spin [OF assms, of 0] by fastforce

text \<open>
  The end of a frame: the counters, then either the stop or a return when the clock has reached the
  simulation time, with a freeze asked for past a limit.
\<close>

abbreviation overrun_stop :: abort where
  "overrun_stop \<equiv> mk_ExecutiveException (-1) ''RealtimeSync.cpp'' 352 ''Maximum overrun condition exceeded''"

definition frame_counted :: "int \<Rightarrow> RealtimeSync \<Rightarrow> RealtimeSync \<Rightarrow> bool" where
  "frame_counted late r r' \<longleftrightarrow>
     rs_frame_overrun_cnt r' = (if 0 < late then inc_u32 (rs_frame_overrun_cnt r) else 0) \<and>
     rs_total_overrun r' = (if 0 < late then inc_u32 (rs_total_overrun r) else rs_total_overrun r)"

definition frame_released :: "int \<Rightarrow> 'u rts_sim \<Rightarrow> 'u rts_sim \<Rightarrow> bool" where
  "frame_released late e e' \<longleftrightarrow>
     rs_freeze_shutdown (rts e') = (rs_freeze_shutdown (rts e) \<or> past_limit late (rts e)) \<and>
     ex_async_freeze_command e' = (ex_async_freeze_command e \<or> past_limit late (rts e))"

lemmas frame_end_defs = frame_counted_def frame_released_def

lemma end_frame_ends:
  assumes "clock_reaches env (rt_clock e) sim e"
  shows "\<exists>v e'. frame_counted (now - sim) (rts e) (rts e') \<and> rs_active (rts e') = rs_active (rts e) \<and>
    (if past_limit (now - sim) (rts e) \<and> \<not> rs_rt_overrun_freeze (rts e)
     then end_frame env sim now e = Some (Inl overrun_stop, e')
     else end_frame env sim now e = Some (Inr v, e') \<and> sim \<le> v \<and> frame_released (now - sim) e e')"
proof -
  let ?e1 = "map_rts (measure_overrun (now - sim)) e"
  let ?fr = "snd (exec_freeze (map_rts (\<lambda>r. r\<lparr>rs_freeze_shutdown := True\<rparr>) ?e1))"
  have spin: "\<exists>k v. clock_spin env (rt_clock e) sim x = Some (Inr v, later k x) \<and> sim \<le> v"
    if "x \<in> {timer Timer_pause ?e1, timer Timer_stop ?e1, timer Timer_stop ?fr}" for x
    using that assms by (intro clock_reaches_spin0) auto
  consider "now \<le> sim" | "sim < now" "\<not> past_limit (now - sim) (rts e)"
    | "past_limit (now - sim) (rts e)" "rs_rt_overrun_freeze (rts e)"
    | "past_limit (now - sim) (rts e)" "\<not> rs_rt_overrun_freeze (rts e)" by linarith
  then show ?thesis
  proof cases
    case 1
    then show ?thesis using spin [of "timer Timer_pause ?e1"]
      by (auto simp: end_frame_def frame_end_defs past_limit_def Let_def)
  next
    case 2
    then show ?thesis using spin [of "timer Timer_stop ?e1"]
      by (auto simp: end_frame_def frame_end_defs past_limit_def check_overrun_def Let_def)
  next
    case 3
    then show ?thesis using spin [of "timer Timer_stop ?fr"]
      by (auto simp: end_frame_def frame_end_defs past_limit_def check_overrun_def Let_def)
  next
    case 4
    then show ?thesis
      by (auto simp: end_frame_def frame_end_defs past_limit_def check_overrun_def Let_def)
  qed
qed

text \<open>
  C16: The end of a frame of an active synchronisation. Unless the overrun is past a limit and the
  simulation is to stop, \<open>rt_monitor\<close> returns once the clock shows at least the simulation time of
  the frame; consecutive and total overruns are counted for a late frame, the consecutive ones go
  to zero for a frame in time; past a limit (with this frame counted) the simulation is either
  frozen, to be shut down, or stopped with the status -1.
\<close>

theorem frame_ends_in_real_time:
  assumes "rs_active (rts e)" and "clock_reaches env (rt_clock e) sim e"
  shows "\<exists>e'. frame_counted (lateness env sim e) (rts e) (rts e') \<and>
    (if past_limit (lateness env sim e) (rts e) \<and> \<not> rs_rt_overrun_freeze (rts e)
     then rt_monitor env sim e = Some (Inl overrun_stop, e')
     else rt_monitor env sim e = Some (Inr 0, e') \<and> sim \<le> rs_last_clock_time (rts e') \<and>
       frame_released (lateness env sim e) e e')"
proof -
  let ?now = "shows_at env (rt_clock e) e 0" and ?e = "later (Suc 0) e"
  obtain v e1 where "frame_counted (lateness env sim e) (rts e) (rts e1)" and "rs_active (rts e1)" and
    *: "if past_limit (lateness env sim e) (rts e) \<and> \<not> rs_rt_overrun_freeze (rts e)
     then end_frame env sim ?now ?e = Some (Inl overrun_stop, e1)
     else end_frame env sim ?now ?e = Some (Inr v, e1) \<and> sim \<le> v \<and> frame_released (lateness env sim e) ?e e1"
    using end_frame_ends [of env ?e sim ?now] assms unfolding lateness_def by auto
  then show ?thesis
    using assms(1) by (cases "past_limit (lateness env sim e) (rts e) \<and> \<not> rs_rt_overrun_freeze (rts e)")
      (auto simp: rt_monitor_def clock_time_eq frame_end_defs Let_def)
qed

subsection \<open>Freeze\<close>

primrec freeze_frames :: "ClockEnv \<Rightarrow> rat \<Rightarrow> nat \<Rightarrow> 'u rts_sim \<Rightarrow> (int, 'u rts_sim) result" where
  "freeze_frames env sec 0 e = Some (Inr 0, e)"
| "freeze_frames env sec (Suc k) e = andthen (freeze_pause env sec e) (\<lambda>_ e1. freeze_frames env sec k e1)"

text \<open>What a freeze frame leaves alone, with the freeze time it is at.\<close>

definition frozen :: "int \<Rightarrow> 'u rts_sim \<Rightarrow> 'u rts_sim \<Rightarrow> bool" where
  "frozen t e e' \<longleftrightarrow> rs_active (rts e') \<and> \<not> rs_disable_flag (rts e') \<and>
     rs_rt_clock (rts e') = rs_rt_clock (rts e) \<and> rs_freeze_shutdown (rts e') = rs_freeze_shutdown (rts e) \<and>
     rs_freeze_frame (rts e') = rs_freeze_frame (rts e) \<and> rs_freeze_time_tics (rts e') = t \<and>
     clock e' = clock e \<and> (\<exists>n. rw_reads (ex_world e') = rw_reads (ex_world e) + n)"

lemma frozen_reaches:
  assumes "frozen t e e'" and "clock_reaches env c x e"
  shows "clock_reaches env c x e'"
proof -
  obtain m n where m: "\<forall>k \<ge> m. x \<le> shows_at env c e k"
    and n: "rw_reads (ex_world e') = rw_reads (ex_world e) + n" "clock e' = clock e"
    using assms by (auto simp: frozen_def clock_reaches_def)
  have "shows_at env c e' k = shows_at env c e (n + k)" for k
    using n by (simp add: shows_at_def add.assoc)
  then show ?thesis using m by (auto simp: clock_reaches_def intro: exI [of _ m])
qed

lemma freeze_pause_frame:
  assumes "rs_active (rts e)" and "\<not> rs_disable_flag (rts e)"
    and "clock_reaches env (rt_clock e) (rs_freeze_time_tics (rts e) + rs_freeze_frame (rts e)) e"
  shows "\<exists>e'. freeze_pause env sec e = Some (Inr 0, e') \<and>
    frozen (rs_freeze_time_tics (rts e) + rs_freeze_frame (rts e)) e e'"
proof -
  let ?e2 = "timer Timer_pause (map_rts (\<lambda>r. r\<lparr>rs_enable_flag := False, rs_active := (rs_active r \<and> \<not> rs_disable_flag r),
                    rs_disable_flag := False\<rparr>) e)"
  obtain k v where "clock_spin env (rt_clock e) (rs_freeze_time_tics (rts e) + rs_freeze_frame (rts e)) ?e2
      = Some (Inr v, later k ?e2)"
    using clock_reaches_spin0 [of env "rt_clock e" "rs_freeze_time_tics (rts e) + rs_freeze_frame (rts e)" ?e2]
      assms(3) by auto
  then show ?thesis using assms(1,2) by (auto simp: freeze_pause_def frozen_def Let_def)
qed

lemma clock_reaches_mono: "clock_reaches env c t e \<Longrightarrow> t' \<le> t \<Longrightarrow> clock_reaches env c t' e"
  by (force simp: clock_reaches_def)

lemma frozen_trans: "frozen t e e1 \<Longrightarrow> frozen t' e1 e2 \<Longrightarrow> frozen t' e e2"
  by (auto simp: frozen_def)

lemma freeze_frames_run:
  assumes "rs_active (rts e)" and "\<not> rs_disable_flag (rts e)" and "0 \<le> rs_freeze_frame (rts e)"
    and "clock_reaches env (rt_clock e) (rs_freeze_time_tics (rts e) + int k * rs_freeze_frame (rts e)) e"
  shows "\<exists>e'. freeze_frames env sec k e = Some (Inr 0, e') \<and>
    frozen (rs_freeze_time_tics (rts e) + int k * rs_freeze_frame (rts e)) e e'"
  using assms
proof (induction k arbitrary: e)
  case 0
  then show ?case by (auto simp: frozen_def)
next
  case (Suc k)
  have "rs_freeze_frame (rts e) \<le> int (Suc k) * rs_freeze_frame (rts e)"
    using Suc.prems(3) by (simp add: algebra_simps)
  then have "clock_reaches env (rt_clock e) (rs_freeze_time_tics (rts e) + rs_freeze_frame (rts e)) e"
    using Suc.prems(4) by (rule_tac clock_reaches_mono) auto
  then obtain e1 where e1: "freeze_pause env sec e = Some (Inr 0, e1)"
      "frozen (rs_freeze_time_tics (rts e) + rs_freeze_frame (rts e)) e e1"
    using freeze_pause_frame Suc.prems by blast
  then have f: "rs_freeze_time_tics (rts e1) + int k * rs_freeze_frame (rts e1)
      = rs_freeze_time_tics (rts e) + int (Suc k) * rs_freeze_frame (rts e)"
    by (auto simp: frozen_def algebra_simps)
  have "\<exists>e'. freeze_frames env sec k e1 = Some (Inr 0, e') \<and>
      frozen (rs_freeze_time_tics (rts e1) + int k * rs_freeze_frame (rts e1)) e1 e'"
  proof (intro Suc.IH)
    have "clock_reaches env (rt_clock e) (rs_freeze_time_tics (rts e1) + int k * rs_freeze_frame (rts e1)) e1"
      using Suc.prems(4) frozen_reaches [OF e1(2)] by (simp only: f)
    then show "clock_reaches env (rt_clock e1) (rs_freeze_time_tics (rts e1) + int k * rs_freeze_frame (rts e1)) e1"
      using e1(2) by (simp add: frozen_def)
  qed (use e1(2) Suc.prems(3) in \<open>auto simp: frozen_def\<close>)
  then show ?case using e1 f by (auto intro: frozen_trans)
qed

text \<open>
  A clock whose ratios are finite doubles: each an integer over a power of two. While the products
  with the distance from the reference stay within 53 bits, no rounding takes place.
\<close>

definition ratios :: "Clock \<Rightarrow> int \<Rightarrow> nat \<Rightarrow> int \<Rightarrow> nat \<Rightarrow> bool" where
  "ratios ck r i s j \<longleftrightarrow> ck_rt_clock_ratio ck = of_int r / 2 ^ i \<and> ck_sim_tic_ratio ck = of_int s / 2 ^ j \<and>
     0 < r \<and> 0 < s \<and> i + j \<le> 1000"

lemma clock_value_exact:
  assumes "ratios ck r i s j" and "\<bar>w - ck_ref_time_tics ck\<bar> * (r * s) < 2 ^ 53"
  shows "clock_value ck w = c_trunc (of_int ((w - ck_ref_time_tics ck) * (r * s)) / 2 ^ (i + j))"
proof -
  let ?d = "w - ck_ref_time_tics ck"
  have rs: "1 \<le> r" "1 \<le> s" using assms(1) by (simp_all add: ratios_def)
  have "\<bar>?d\<bar> * r * 1 \<le> \<bar>?d\<bar> * r * s" "\<bar>?d\<bar> * 1 \<le> \<bar>?d\<bar> * r"
    using rs by (intro mult_left_mono; simp)+
  then have b: "\<bar>?d * r * s\<bar> < 2 ^ 53" "\<bar>?d * r\<bar> < 2 ^ 53" "\<bar>?d\<bar> < 2 ^ 53"
    using assms(2) rs by (simp_all add: abs_mult mult.assoc)
  have d: "dbl ?d = of_int ?d" using b(3) by (rule dbl_exact)
  have "dmul (of_int ?d) (of_int r / 2 ^ i) = rnd64 (of_int (?d * r) / 2 ^ i)" by (simp add: dmul_def)
  also have "\<dots> = of_int (?d * r) / 2 ^ i" using b(2) assms(1) by (intro rnd64_dyadic) (simp_all add: ratios_def)
  finally have 1: "dmul (of_int ?d) (of_int r / 2 ^ i) = of_int (?d * r) / 2 ^ i" .
  have "dmul (of_int (?d * r) / 2 ^ i) (of_int s / 2 ^ j) = rnd64 (of_int (?d * r * s) / 2 ^ (i + j))"
    by (simp add: dmul_def power_add)
  also have "\<dots> = of_int (?d * r * s) / 2 ^ (i + j)"
    using b(1) assms(1) by (intro rnd64_dyadic) (simp_all add: ratios_def)
  finally have 2: "dmul (of_int (?d * r) / 2 ^ i) (of_int s / 2 ^ j) = of_int (?d * r * s) / 2 ^ (i + j)" .
  have "ck_rt_clock_ratio ck = of_int r / 2 ^ i" "ck_sim_tic_ratio ck = of_int s / 2 ^ j"
    using assms(1) by (simp_all add: ratios_def)
  then show ?thesis unfolding clock_value_def d by (simp only: 1 2 mult.assoc)
qed

lemma to_clock_tics_exact:
  assumes "ratios ck r i s j" and "x * 2 ^ (i + j) = n * (r * s)"
    and "\<bar>x\<bar> < 2 ^ 53" and "\<bar>n\<bar> < 2 ^ 53" and "r * s < 2 ^ 53"
  shows "to_clock_tics ck x = n"
proof -
  have rs: "0 < r * s" using assms(1) by (simp add: ratios_def)
  have "dmul (of_int r / 2 ^ i) (of_int s / 2 ^ j) = rnd64 (of_int (r * s) / 2 ^ (i + j))"
    by (simp add: dmul_def power_add)
  also have "\<dots> = of_int (r * s) / 2 ^ (i + j)"
    using assms(1,5) rs by (intro rnd64_dyadic) (simp_all add: ratios_def)
  finally have m: "dmul (of_int r / 2 ^ i) (of_int s / 2 ^ j) = of_int (r * s) / 2 ^ (i + j)" .
  have "(of_int (x * 2 ^ (i + j)) :: rat) = of_int (n * (r * s))" by (simp only: assms(2))
  moreover define P :: rat where "P = of_int (r * s)"
  ultimately have e: "of_int x * 2 ^ (i + j) = of_int n * P" by simp
  have "0 < P" unfolding P_def using rs by (simp only: of_int_0_less_iff)
  then have "of_int x / (P / 2 ^ (i + j)) = of_int n" using e by (simp add: field_simps)
  then have "ddiv (of_int x) (of_int (r * s) / 2 ^ (i + j)) = of_int n"
    using rnd64_of_int [OF assms(4)] unfolding P_def by (simp only: ddiv_def)
  then show ?thesis
    using assms(1,3) unfolding to_clock_tics_def ratios_def by (simp only: dbl_exact m c_trunc_of_int)
qed

lemma c_trunc_minus_int: "0 \<le> y \<Longrightarrow> x \<le> c_trunc y \<Longrightarrow> c_trunc (y - of_int x) = c_trunc y - x"
proof -
  assume y: "0 \<le> y" "x \<le> c_trunc y"
  then have "of_int x \<le> y" using floor_correct [of y] by (simp add: c_trunc_def le_floor_iff)
  then show ?thesis using y by (simp add: c_trunc_def)
qed

text \<open>A time of \<open>n\<close> clock tics that a clock at distance \<open>d\<close> from its reference has already shown.\<close>

lemma shown_tics_bounds:
  fixes d n x p :: int
  assumes p: "1 \<le> p" and n: "x * 2 ^ Q = n * p" and x: "1 \<le> x"
    and xy: "of_int x \<le> (of_int (d * p) / 2 ^ Q :: rat)" and b: "\<bar>d\<bar> * p < 2 ^ 53"
  shows "0 < n" "n \<le> d" "p < 2 ^ 53" "d < 2 ^ 53" "x < 2 ^ 53"
proof -
  have "(of_int x :: rat) * 2 ^ Q \<le> of_int (d * p)" using xy by (simp add: field_simps)
  then have "(of_int (x * 2 ^ Q) :: rat) \<le> of_int (d * p)" by simp
  then have xd: "x * 2 ^ Q \<le> d * p" by (simp only: of_int_le_iff)
  then show nd: "n \<le> d" using p unfolding n by (elim mult_right_le_imp_le) simp
  have "0 < n * p" using x unfolding n [symmetric] by simp
  then show n0: "0 < n" using p by (simp add: zero_less_mult_iff)
  have d1: "1 \<le> d" using n0 nd by linarith
  then have dp: "d * p < 2 ^ 53" using b by simp
  have "1 * p \<le> d * p" using d1 p by (intro mult_right_mono) simp_all
  then show "p < 2 ^ 53" using dp by linarith
  have "d * 1 \<le> d * p" using d1 p by (intro mult_left_mono) simp_all
  then show "d < 2 ^ 53" using dp by linarith
  have "x * 1 \<le> x * 2 ^ Q" using x by (intro mult_left_mono) simp_all
  then show "x < 2 ^ 53" using xd dp by linarith
qed

text \<open>Setting a clock back by a time it has already shown, a whole number of clock tics.\<close>

lemma adjusted_clock_value:
  assumes ck: "ratios ck r i s j" and b: "\<bar>w - ck_ref_time_tics ck\<bar> * (r * s) < 2 ^ 53"
    and n: "x * 2 ^ (i + j) = n * (r * s)" and x: "0 \<le> x" "x \<le> clock_value ck w"
  shows "clock_value (adjust_ref_time x ck) w = clock_value ck w - x"
proof (cases "x = 0")
  case True
  then have "adjust_ref_time x ck = ck"
    by (simp add: adjust_ref_time_def to_clock_tics_def dbl_def ddiv_def c_trunc_def)
  then show ?thesis using True by simp
next
  case False
  let ?d = "w - ck_ref_time_tics ck" and ?y = "of_int ((w - ck_ref_time_tics ck) * (r * s)) / 2 ^ (i + j) :: rat"
  have v: "clock_value ck w = c_trunc ?y" using ck b by (rule clock_value_exact)
  have x1: "1 \<le> x" using x(1) False by simp
  then have "1 \<le> c_trunc ?y" using x v by linarith
  then have y0: "0 \<le> ?y" by (cases "?y < 0") (auto simp: c_trunc_def ceiling_le_iff)
  have xy: "of_int x \<le> ?y" using x v c_trunc_bounds [OF y0] by (metis of_int_le_iff order_trans)
  have rs: "1 \<le> r * s" using ck by (simp add: ratios_def) (metis int_one_le_iff_zero_less zero_less_mult_iff)
  note k = shown_tics_bounds [OF rs n x1 xy b]
  have tics: "to_clock_tics ck x = n" using x1 k by (intro to_clock_tics_exact [OF ck n]) simp_all
  have d: "w - ck_ref_time_tics (adjust_ref_time x ck) = ?d - n" by (simp add: adjust_ref_time_def tics)
  have "\<bar>?d - n\<bar> * (r * s) \<le> \<bar>?d\<bar> * (r * s)" using k(1,2) rs by (intro mult_right_mono) simp_all
  then have "\<bar>w - ck_ref_time_tics (adjust_ref_time x ck)\<bar> * (r * s) < 2 ^ 53"
    unfolding d using b by (rule order.strict_trans1)
  moreover have "ratios (adjust_ref_time x ck) r i s j" using ck by (simp add: ratios_def adjust_ref_time_def)
  ultimately have v': "clock_value (adjust_ref_time x ck) w = c_trunc (of_int ((?d - n) * (r * s)) / 2 ^ (i + j))"
    by (subst clock_value_exact) (simp_all only: d)
  have "(of_int (x * 2 ^ (i + j)) :: rat) = of_int (n * (r * s))" by (simp only: n)
  then have nx: "(of_int (n * (r * s)) :: rat) / 2 ^ (i + j) = of_int x" by (simp add: field_simps)
  have "(?d - n) * (r * s) = ?d * (r * s) - n * (r * s)" by (rule left_diff_distrib)
  then have "of_int ((?d - n) * (r * s)) / 2 ^ (i + j) = ?y - of_int x"
    by (simp only: of_int_diff diff_divide_distrib nx)
  then show ?thesis using c_trunc_minus_int [OF y0, of x] x(2) unfolding v v' by simp
qed

text \<open>
  C17: A freeze costs no real time: after \<open>freeze_init\<close>, any number of freeze frames and \<open>unfreeze\<close>
  at the simulation time the freeze began, the clock reads exactly the freeze frames less than it
  would have without the freeze, so that the simulation goes on in step with real time. This holds
  for every ratio of simulation to real time and of simulation to clock tics, doubles being integers
  over a power of two, when the time of the freeze is a whole number of clock tics, the products of
  the clock's calculation fit the 53 bits of a double, and at the reading the clock without the
  freeze shows at least the time of the freeze.
\<close>

theorem freeze_costs_no_real_time:
  assumes "rs_active (rts e)" and "\<not> rs_disable_flag (rts e)" and "\<not> rs_freeze_shutdown (rts e)"
    and "clock_reaches env (rt_clock e) (ex_time_tics e + int k * frame) e"
    and "ratios (clock e (rt_clock e)) r i s j"
    and "c_trunc (dmul sec (dbl (rs_tics_per_sec (rts e)))) = frame" and "0 \<le> frame"
    and "int k * frame * 2 ^ (i + j) = n * (r * s)"
    and "\<bar>w - ck_ref_time_tics (clock e (rt_clock e))\<bar> * (r * s) < 2 ^ 53"
    and "int k * frame \<le> clock_value (clock e (rt_clock e)) w"
  shows "\<exists>e1 e2. freeze_frames env sec k (snd (rts_freeze_init sec e)) = Some (Inr 0, e1) \<and>
     unfreeze env (ex_time_tics e) frame_sec e1 = Some (Inr 0, e2) \<and>
     clock_value (clock e2 (rt_clock e2)) w = clock_value (clock e (rt_clock e)) w - int k * frame"
proof -
  let ?i = "snd (rts_freeze_init sec e)"
  have i: "rts ?i = (rts e)\<lparr>rs_freeze_frame := c_trunc (dmul sec (dbl (rs_tics_per_sec (rts e)))),
      rs_freeze_time_tics := ex_time_tics e\<rparr>" "clock ?i = clock e"
    "\<And>c t. clock_reaches env c t ?i = clock_reaches env c t e"
    using assms(1) by (simp_all add: rts_freeze_init_def Let_def)
  obtain e1 where e1: "freeze_frames env sec k ?i = Some (Inr 0, e1)"
      "frozen (ex_time_tics e + int k * frame) ?i e1"
    using freeze_frames_run [of ?i env k sec] assms(1-4,6,7) i by auto
  let ?u = "map_clock (rt_clock e) (adjust_ref_time (int k * frame)) e1"
  have "unfreeze env (ex_time_tics e) frame_sec e1
      = Some (Inr 0, map_rts (\<lambda>r. r\<lparr>rs_last_clock_time := shows_at env (rt_clock e)
          (timer (Timer_start (frame_length frame_sec e1)) ?u) 0\<rparr>)
          (later (Suc 0) (timer (Timer_start (frame_length frame_sec e1)) ?u)))"
    using e1(2) assms(3) i by (auto simp: unfreeze_def frozen_def clock_time_eq Let_def frame_length_def)
  moreover have "clock_value (adjust_ref_time (int k * frame) (clock e (rt_clock e))) w
      = clock_value (clock e (rt_clock e)) w - int k * frame"
    using assms(5,7,8,9,10) by (intro adjusted_clock_value) auto
  ultimately show ?thesis using e1 i by (auto simp: frozen_def)
qed

subsection \<open>An instance\<close>

text \<open>
  A synchronisation at 1000000 tics per second at 5 seconds of simulation, on a clock that is at 7
  seconds at its first reading; every reading takes a tic.
\<close>

definition demo_realtime :: "unit rts_sim" where
  "demo_realtime = (new_Executive (\<lambda>_. new_JobData_default) (\<lambda>_. undefined)
     \<lparr>rw_clocks = \<lambda>_. new_GetTimeOfDayClock, rw_the_clock = Some 0, rw_reads = 0, rw_timer = [],
      rw_rts = (new_RealtimeSync 0)\<lparr>rs_active := True, rs_tics_per_sec := 1000000, rs_rt_max_overrun_time_tics := 3000000\<rparr>,
      rw_user = ()\<rparr>)\<lparr>ex_time_tics := 5000000\<rparr>"

definition demo_clock :: ClockEnv where
  "demo_clock = \<lparr>ce_wall = \<lambda>_ n. min (7000000 + int n) 8000000, ce_init = \<lambda>_. 0\<rparr>"

lemma demo_realtime_simps [simp]:
  "rts demo_realtime = (new_RealtimeSync 0)\<lparr>rs_active := True, rs_tics_per_sec := 1000000, rs_rt_max_overrun_time_tics := 3000000\<rparr>"
  "clock demo_realtime c = new_GetTimeOfDayClock" "rw_reads (ex_world demo_realtime) = 0"
  "ex_time_tics demo_realtime = 5000000"
  by (simp_all add: demo_realtime_def rts_def clock_def new_Executive_def)

lemma demo_shows: "shows_at demo_clock c demo_realtime k = min (7000000 + int k) 8000000"
proof -
  have "clock_value new_GetTimeOfDayClock (min (7000000 + int k) 8000000)
      = min (7000000 + int k) 8000000 - ck_ref_time_tics new_GetTimeOfDayClock"
    by (rule clock_value_unit) (simp_all add: new_GetTimeOfDayClock_def new_Clock_def min_def)
  then show ?thesis by (simp add: shows_at_def demo_clock_def new_GetTimeOfDayClock_def new_Clock_def)
qed

lemma demo_reaches: "t \<le> 8000000 \<Longrightarrow> clock_reaches demo_clock c t demo_realtime"
  by (auto simp: clock_reaches_def demo_shows intro!: exI [of _ 1000000])

theorem frame_ends_in_real_time_witness:
  "\<exists>e'. rt_monitor demo_clock 5000000 demo_realtime = Some (Inr 0, e') \<and> 5000000 \<le> rs_last_clock_time (rts e') \<and>
     rs_frame_overrun_cnt (rts e') = 1 \<and> \<not> rs_freeze_shutdown (rts e')"
proof -
  have "lateness demo_clock 5000000 demo_realtime = 2000000" by (simp add: lateness_def demo_shows)
  then show ?thesis
    using frame_ends_in_real_time [of demo_realtime demo_clock 5000000] demo_reaches [of 5000000]
    by (auto simp: new_RealtimeSync_def past_limit_def frame_end_defs)
qed

text \<open>The same synchronisation at twice real time: a tic of the clock is two of the simulation.\<close>

definition demo_twice :: "unit rts_sim" where
  "demo_twice = map_clock 0 (\<lambda>ck. ck\<lparr>ck_rt_clock_ratio := 2\<rparr>) demo_realtime"

lemma demo_twice_simps:
  "rts demo_twice = rts demo_realtime" "ex_time_tics demo_twice = 5000000"
  "clock demo_twice 0 = new_GetTimeOfDayClock\<lparr>ck_rt_clock_ratio := 2\<rparr>" "rw_reads (ex_world demo_twice) = 0"
  by (simp_all add: demo_twice_def)

lemma demo_twice_value: "0 \<le> w \<Longrightarrow> w < 2 ^ 50 \<Longrightarrow> clock_value (clock demo_twice 0) w = 2 * w"
  using clock_value_exact [of "clock demo_twice 0" 2 0 1 0 w] c_trunc_of_int [of "w * 2"]
  by (simp add: demo_twice_simps ratios_def new_GetTimeOfDayClock_def new_Clock_def)

theorem freeze_costs_no_real_time_witness:
  "\<exists>e1 e2. freeze_frames demo_clock (1 / 4) 8 (snd (rts_freeze_init (1 / 4) demo_twice)) = Some (Inr 0, e1) \<and>
     unfreeze demo_clock 5000000 1 e1 = Some (Inr 0, e2) \<and>
     clock_value (clock e2 (rt_clock e2)) 9000000 = 16000000"
proof -
  have "rnd64 (of_int 250000) = of_int 250000" by (rule rnd64_of_int) simp
  then have f: "c_trunc (dmul (1 / 4) (dbl 1000000)) = 250000" by (simp add: dbl_exact dmul_def c_trunc_def)
  have r: "rt_clock demo_twice = 0" by (simp add: demo_twice_simps new_RealtimeSync_def)
  have "7000000 \<le> shows_at demo_clock 0 demo_twice k" for k
    using demo_twice_value [of "min (7000000 + int k) 8000000"]
    by (simp add: shows_at_def demo_clock_def demo_twice_simps(4) min_def split: if_splits)
  then have "clock_reaches demo_clock 0 7000000 demo_twice" by (auto simp: clock_reaches_def)
  moreover have "clock_value (clock demo_twice 0) 9000000 = 18000000" by (simp add: demo_twice_value)
  moreover have "ratios (clock demo_twice 0) 2 0 1 0" "ck_ref_time_tics (clock demo_twice 0) = 0"
    by (simp_all add: demo_twice_simps ratios_def new_GetTimeOfDayClock_def new_Clock_def)
  ultimately show ?thesis
    using freeze_costs_no_real_time [of demo_twice demo_clock 8 250000 2 0 1 0 "1 / 4" 1000000 9000000 1] f
    by (simp add: r demo_twice_simps(1,2) new_RealtimeSync_def)
qed

end
