(* ===== verification/Bitfield.thy ===== *)
theory Bitfield
  imports Trick_Prelude "HOL-Library.Word"
begin

text \<open>
  Bit fields of a structure in memory (sim\_services/MemoryManager/extract\_bitfield.c,
  extract\_unsigned\_bitfield.c, insert\_bitfield.c, include/trick/bitfield\_proto.h). The order of the
  bytes is found out at run time; it is an argument here. A shift of an \<open>int\<close> to the right is
  arithmetic, as compilers have it. A shift by 32, which a field of no bits would need, is undefined
  in C; the lemmas are about fields of at least one bit inside their storage.
\<close>

unbundle bit_operations_syntax

text \<open>The loops that collect the bits of \<open>value\<close> that are set, or not set.\<close>

definition collect_bits :: "bool \<Rightarrow> 32 word \<Rightarrow> nat list \<Rightarrow> 32 word \<Rightarrow> 32 word" where
  "collect_bits want value ks bf =
     fold (\<lambda>i bf. let mask = push_bit i 1 in if (value AND mask = mask) = want then bf OR mask else bf) ks bf"

text \<open>The mask \<open>0xFFFFFFFF >> (32 - bits)\<close> of the lowest bits.\<close>

definition low_mask :: "nat \<Rightarrow> 32 word" where
  "low_mask bits = drop_bit (32 - bits) 0xFFFFFFFF"

definition to_msb :: "nat \<Rightarrow> 32 word \<Rightarrow> 32 word" where
  "to_msb sz value = (if sz = 2 then push_bit 16 value else if sz = 1 then push_bit 24 value else value)"

definition extract_bitfield_any :: "bool \<Rightarrow> 32 word \<Rightarrow> nat \<Rightarrow> nat \<Rightarrow> nat \<Rightarrow> 32 word" where
  "extract_bitfield_any big_endian value sz start bits =
     (if big_endian then
        (let mask = push_bit (start + bits - 1) 1
         in if mask AND value \<noteq> 0
            then - (signed_drop_bit start (collect_bits False value [start..<start + bits] 0) + 1)
            else drop_bit start (collect_bits True value [start..<start + bits] 0))
      else
        (let v = to_msb sz value;
             bf0 = (if start + bits < 32 then signed_drop_bit (32 - start - bits) v else v);
             bf = bf0 AND low_mask bits;
             mask = push_bit (bits - 1) 1
         in if mask AND bf \<noteq> 0 then - (collect_bits False bf [0..<bits] 0 + 1) else bf))"

definition extract_unsigned_bitfield_any :: "bool \<Rightarrow> 32 word \<Rightarrow> nat \<Rightarrow> nat \<Rightarrow> nat \<Rightarrow> 32 word" where
  "extract_unsigned_bitfield_any big_endian value sz start bits =
     (if big_endian then drop_bit start (collect_bits True value [start..<start + bits] 0)
      else
        (let v = to_msb sz value;
             bf = (if start + bits < 32 then drop_bit (32 - start - bits) v else v)
         in bf AND low_mask bits))"

definition insert_bitfield_any :: "bool \<Rightarrow> 32 word \<Rightarrow> 32 word \<Rightarrow> nat \<Rightarrow> nat \<Rightarrow> nat \<Rightarrow> 32 word" where
  "insert_bitfield_any big_endian bitfield value sz start bits =
     (let value = value AND low_mask bits
      in if big_endian then
           (let mask = (if start = 0 then 0 else drop_bit (32 - start) 0xFFFFFFFF);
                mask = (if start + bits < 32 then mask OR push_bit (start + bits) 0xFFFFFFFF else mask)
            in (bitfield AND mask) OR push_bit start value)
         else
           (let start = (if sz = 2 then start + 16 else if sz = 1 then start + 24 else start);
                mask = (if start = 0 then 0 else push_bit (32 - start) 0xFFFFFFFF);
                mask = (if start + bits < 32 then mask OR drop_bit (start + bits) 0xFFFFFFFF else mask)
            in (bitfield AND mask) OR push_bit (32 - (start + bits)) value))"

text \<open>The memory access of the macros: \<open>sz\<close> bytes, read with or without sign, and written.\<close>

fun le_word :: "8 word list \<Rightarrow> 32 word" where
  "le_word [] = 0"
| "le_word (b # bs) = ucast b OR push_bit 8 (le_word bs)"

definition load_unsigned :: "bool \<Rightarrow> 8 word list \<Rightarrow> 32 word" where
  "load_unsigned big_endian bs = le_word (if big_endian then rev bs else bs)"

definition load_signed :: "bool \<Rightarrow> 8 word list \<Rightarrow> 32 word" where
  "load_signed big_endian bs = signed_take_bit (8 * length bs - 1) (load_unsigned big_endian bs)"

definition store_word :: "bool \<Rightarrow> nat \<Rightarrow> 32 word \<Rightarrow> 8 word list" where
  "store_word big_endian sz w =
     (let bs = map (\<lambda>i. ucast (drop_bit (8 * i) w)) [0..<sz] in if big_endian then rev bs else bs)"

definition GET_BITFIELD :: "bool \<Rightarrow> 8 word list \<Rightarrow> nat \<Rightarrow> nat \<Rightarrow> nat \<Rightarrow> 32 word" where
  "GET_BITFIELD big_endian bs sz start bits =
     extract_bitfield_any big_endian (load_signed big_endian bs) sz start bits"

definition GET_UNSIGNED_BITFIELD :: "bool \<Rightarrow> 8 word list \<Rightarrow> nat \<Rightarrow> nat \<Rightarrow> nat \<Rightarrow> 32 word" where
  "GET_UNSIGNED_BITFIELD big_endian bs sz start bits =
     extract_unsigned_bitfield_any big_endian (load_unsigned big_endian bs) sz start bits"

definition PUT_BITFIELD :: "bool \<Rightarrow> 8 word list \<Rightarrow> 32 word \<Rightarrow> nat \<Rightarrow> nat \<Rightarrow> nat \<Rightarrow> 8 word list" where
  "PUT_BITFIELD big_endian bs value sz start bits =
     store_word big_endian sz (insert_bitfield_any big_endian (load_unsigned big_endian bs) value sz start bits)"

subsection \<open>Lemmas\<close>

text \<open>The lowest bit of a field in its storage.\<close>

definition field_pos :: "bool \<Rightarrow> nat \<Rightarrow> nat \<Rightarrow> nat \<Rightarrow> nat" where
  "field_pos big_endian sz start bits = (if big_endian then start else 8 * sz - start - bits)"

definition field_ok :: "nat \<Rightarrow> nat \<Rightarrow> nat \<Rightarrow> bool" where
  "field_ok sz start bits \<longleftrightarrow> sz \<in> {1, 2, 4} \<and> 1 \<le> bits \<and> start + bits \<le> 8 * sz"

lemma ones_eq: "(0xFFFFFFFF :: 32 word) = mask 32"
  by (simp add: mask_eq_exp_minus_1)

lemma bit_push_1: "bit (push_bit i (1 :: 32 word)) n \<longleftrightarrow> i = n \<and> n < 32"
  by (auto simp: bit_push_bit_iff bit_1_iff simp del: push_bit_of_1 dest: bit_imp_le_length)

lemma and_single_bit: "(value AND push_bit i 1 = push_bit i (1 :: 32 word)) \<longleftrightarrow> (i < 32 \<longrightarrow> bit value i)"
proof
  assume "value AND push_bit i 1 = push_bit i (1 :: 32 word)"
  then have "bit (value AND push_bit i 1) i = bit (push_bit i (1 :: 32 word)) i" by (rule arg_cong)
  then show "i < 32 \<longrightarrow> bit value i" unfolding bit_and_iff bit_push_1 by blast
next
  assume "i < 32 \<longrightarrow> bit value i"
  then show "value AND push_bit i 1 = push_bit i (1 :: 32 word)"
    by (intro bit_word_eqI) (auto simp only: bit_and_iff bit_push_1)
qed

lemma single_bit_and: "(push_bit i 1 AND value \<noteq> 0) \<longleftrightarrow> bit (value :: 32 word) i"
proof
  assume "push_bit i 1 AND value \<noteq> 0"
  then obtain n where "bit (push_bit i 1 AND value) n" by (metis bit_word_eqI bit_0_eq bot_apply bot_bool_def)
  then show "bit value i" unfolding bit_and_iff bit_push_1 by simp
next
  assume "bit value i"
  then have "bit (push_bit i 1 AND value) i" unfolding bit_and_iff bit_push_1 by (auto dest: bit_imp_le_length)
  then show "push_bit i 1 AND value \<noteq> 0" by (metis bit_0_eq bot_apply bot_bool_def)
qed

lemma bit_collect:
  "bit (collect_bits want value ks bf) n \<longleftrightarrow> bit bf n \<or> (n \<in> set ks \<and> n < 32 \<and> bit value n = want)"
proof (induction ks arbitrary: bf)
  case Nil
  then show ?case by (simp add: collect_bits_def)
next
  case (Cons i ks)
  have "collect_bits want value (i # ks) bf
      = collect_bits want value ks (if (i < 32 \<longrightarrow> bit value i) = want then bf OR push_bit i 1 else bf)"
    by (simp add: collect_bits_def and_single_bit del: push_bit_of_1)
  then show ?case by (auto simp: Cons.IH bit_or_iff bit_push_1 simp del: push_bit_of_1 dest: bit_imp_le_length)
qed

lemma bit_low_mask: "1 \<le> bits \<Longrightarrow> bits \<le> 32 \<Longrightarrow> bit (low_mask bits) n \<longleftrightarrow> n < bits"
  unfolding low_mask_def ones_eq by (auto simp: bit_drop_bit_eq bit_mask_iff)

text \<open>The mask keeps the bits above and below the field, whose lowest bit is \<open>p\<close>.\<close>

lemma spliced:
  assumes "1 \<le> bits" and "p + bits \<le> 32"
    and "\<And>n. bit m n \<longleftrightarrow> n < 32 \<and> \<not> (p \<le> n \<and> n < p + bits)"
  shows "bit ((bf AND m) OR push_bit p (v AND low_mask bits)) n
    \<longleftrightarrow> (if p \<le> n \<and> n < p + bits then bit v (n - p) else bit (bf :: 32 word) n)"
proof -
  have "bits \<le> 32" using assms(2) by simp
  note b = bit_or_iff bit_and_iff bit_push_bit_iff assms(3) bit_low_mask [OF assms(1) this]
  show ?thesis
  proof (cases "p \<le> n \<and> n < p + bits")
    case True
    then show ?thesis using assms(2) unfolding b by auto
  next
    case False
    have "\<not> n < p \<Longrightarrow> \<not> n - p < bits" using False by arith
    then show ?thesis using False bit_imp_le_length [of bf n] unfolding b by auto
  qed
qed

lemma insert_bit:
  assumes "field_ok sz start bits"
  shows "bit (insert_bitfield_any be bf v sz start bits) n
    \<longleftrightarrow> (if field_pos be sz start bits \<le> n \<and> n < field_pos be sz start bits + bits
         then bit v (n - field_pos be sz start bits) else bit bf n)"
proof (cases be)
  case True
  then show ?thesis using assms unfolding insert_bitfield_any_def Let_def field_pos_def
    by (simp only: if_True, intro spliced) (auto simp: field_ok_def ones_eq bit_simps)
next
  case False
  define s where "s = (if sz = 2 then start + 16 else if sz = 1 then start + 24 else start)"
  have s: "8 * sz - start - bits = 32 - (s + bits)" "s + bits \<le> 32" "1 \<le> bits"
    using assms by (auto simp: field_ok_def s_def)
  show ?thesis using False s(2,3) unfolding insert_bitfield_any_def Let_def field_pos_def s(1) s_def [symmetric]
    by (simp only: if_False, intro spliced) (auto simp: ones_eq bit_simps)
qed

lemma bit_to_msb:
  "sz \<in> {1, 2, 4} \<Longrightarrow> bit (to_msb sz w) m \<longleftrightarrow> 32 - 8 * sz \<le> m \<and> m < 32 \<and> bit w (m - (32 - 8 * sz))"
  by (auto simp: to_msb_def bit_push_bit_iff dest: bit_imp_le_length)

text \<open>The field of \<open>v = to_msb sz w\<close>, shifted down; \<open>shift\<close> may keep the sign or not.\<close>

lemma field_of_msb:
  assumes "field_ok sz start bits" and "n < bits"
  shows "bit (to_msb sz w) (32 - start - bits + n) \<longleftrightarrow> bit w (8 * sz - start - bits + n)"
proof -
  have s: "sz \<in> {1, 2, 4}" "8 * sz \<le> 32" "start + bits \<le> 8 * sz" using assms(1) by (auto simp: field_ok_def)
  have "32 - start - bits + n - (32 - 8 * sz) = 8 * sz - start - bits + n" "32 - 8 * sz \<le> 32 - start - bits + n"
    "32 - start - bits + n < 32" using s(2,3) assms(2) by arith+
  then show ?thesis by (simp add: bit_to_msb [OF s(1)])
qed

lemma extract_unsigned_bit:
  assumes "field_ok sz start bits"
  shows "bit (extract_unsigned_bitfield_any be w sz start bits) n
    \<longleftrightarrow> n < bits \<and> bit w (field_pos be sz start bits + n)"
proof (cases be)
  case True
  then show ?thesis using assms
    by (auto simp: extract_unsigned_bitfield_any_def field_pos_def field_ok_def bit_drop_bit_eq bit_collect
        dest: bit_imp_le_length)
next
  case False
  have b: "bit (bf AND low_mask bits) n \<longleftrightarrow> bit (bf :: 32 word) n \<and> n < bits" for bf
    using assms by (auto simp: field_ok_def bit_and_iff bit_low_mask)
  show ?thesis
  proof (cases "start + bits < 32")
    case True
    then show ?thesis using False assms field_of_msb [OF assms, of n w]
      by (simp add: extract_unsigned_bitfield_any_def field_pos_def b bit_drop_bit_eq conj_commute cong: conj_cong)
  next
    case not_less: False
    then have "32 - start - bits = 0" by simp
    then show ?thesis using False assms field_of_msb [OF assms, of n w] not_less
      by (simp add: extract_unsigned_bitfield_any_def field_pos_def b conj_commute cong: conj_cong)
  qed
qed

text \<open>The signed routine extends the sign of what the unsigned one gives.\<close>

lemma sign_extended:
  "bit (signed_take_bit (bits - 1) (bf :: 32 word)) n \<longleftrightarrow> n < 32 \<and> bit bf (min n (bits - 1))"
  by (auto simp: bit_signed_take_bit_iff min.commute dest: bit_imp_le_length)

lemma complement_of_collected:
  assumes "1 \<le> bits" and "bits \<le> 32" and "\<And>n. bit bf n \<Longrightarrow> n < bits" and "bit bf (bits - 1)"
    and "\<And>n. n < 32 \<Longrightarrow> bit c n \<longleftrightarrow> n < bits \<and> \<not> bit bf n"
  shows "- (c + 1) = signed_take_bit (bits - 1) (bf :: 32 word)"
proof -
  have "- (c + 1) = NOT c" by (simp add: not_eq_complement)
  also have "\<dots> = signed_take_bit (bits - 1) bf"
  proof (rule bit_word_eqI)
    fix n assume n: "n < LENGTH(32)"
    show "bit (NOT c) n = bit (signed_take_bit (bits - 1) bf) n"
      unfolding sign_extended using n assms(1,4,5) by (cases "n < bits - 1") (auto simp: bit_not_iff min_def)
  qed
  finally show ?thesis .
qed

lemma signed_if_not_set:
  assumes "1 \<le> bits" and "bits \<le> 32" and "\<And>n. bit bf n \<Longrightarrow> n < bits" and "\<not> bit bf (bits - 1)"
  shows "signed_take_bit (bits - 1) (bf :: 32 word) = bf"
proof (rule bit_word_eqI)
  fix n assume n: "n < LENGTH(32)"
  show "bit (signed_take_bit (bits - 1) bf) n = bit bf n"
    unfolding sign_extended using n assms(1,4) assms(3) [of n]
    by (cases "n < bits - 1"; cases "n = bits - 1") (auto simp: min_def)
qed

lemma extract_signed:
  assumes "field_ok sz start bits"
  shows "extract_bitfield_any be w sz start bits = signed_take_bit (bits - 1) (extract_unsigned_bitfield_any be w sz start bits)"
proof -
  have ok: "1 \<le> bits" "bits \<le> 32" "start + bits \<le> 32" using assms by (auto simp: field_ok_def)
  show ?thesis
  proof (cases be)
    case True
    let ?u = "extract_unsigned_bitfield_any True w sz start bits"
    let ?c = "signed_drop_bit start (collect_bits False w [start..<start + bits] 0)"
    have u: "bit ?u n \<longleftrightarrow> n < bits \<and> bit w (start + n)" for n
      using extract_unsigned_bit [OF assms, of True w] by (simp add: field_pos_def)
    have s: "start + (bits - 1) = start + bits - 1" using ok by simp
    show ?thesis
    proof (cases "bit w (start + bits - 1)")
      case set: True
      have "bit ?c n \<longleftrightarrow> n < bits \<and> \<not> bit ?u n" if "n < 32" for n
      proof (cases "32 \<le> start + n")
        case over: True
        then have "\<not> n < bits" using ok by simp
        moreover have "bit w 31" if "start + bits = 32" using set unfolding that by simp
        ultimately show ?thesis using over that ok set by (auto simp: bit_signed_drop_bit_iff bit_collect)
      qed (use that ok in \<open>auto simp: bit_signed_drop_bit_iff bit_collect u\<close>)
      then have "- (?c + 1) = signed_take_bit (bits - 1) ?u"
        using ok set by (intro complement_of_collected) (auto simp: u s)
      then show ?thesis using set True by (simp add: extract_bitfield_any_def single_bit_and del: push_bit_of_1)
    next
      case False
      then have "signed_take_bit (bits - 1) ?u = ?u"
        using ok by (intro signed_if_not_set) (auto simp: u s)
      then show ?thesis using False True
        by (simp add: extract_bitfield_any_def extract_unsigned_bitfield_any_def single_bit_and del: push_bit_of_1)
    qed
  next
    case False
    let ?u = "extract_unsigned_bitfield_any be w sz start bits"
    have lt: "bit ?u n \<Longrightarrow> n < bits" for n by (simp add: extract_unsigned_bit [OF assms])
    define bf where "bf = (if start + bits < 32 then signed_drop_bit (32 - start - bits) (to_msb sz w) else to_msb sz w) AND low_mask bits"
    have bf: "bf = ?u"
      using ok False by (intro bit_word_eqI)
        (auto simp: bf_def extract_unsigned_bitfield_any_def bit_and_iff bit_low_mask bit_signed_drop_bit_iff bit_drop_bit_eq Let_def)
    have "extract_bitfield_any be w sz start bits
        = (if bit bf (bits - 1) then - (collect_bits False bf [0..<bits] 0 + 1) else bf)"
      using False by (simp add: extract_bitfield_any_def bf_def Let_def single_bit_and del: push_bit_of_1)
    also have "\<dots> = signed_take_bit (bits - 1) bf"
      using ok lt [folded bf] complement_of_collected [of bits bf "collect_bits False bf [0..<bits] 0"] signed_if_not_set [of bits bf]
      by (auto simp: bit_collect)
    finally show ?thesis by (simp add: bf)
  qed
qed

lemma bit_le_word:
  "bit (le_word bs) n \<longleftrightarrow> n < 32 \<and> n div 8 < length bs \<and> bit (bs ! (n div 8)) (n mod 8)"
proof (induction bs arbitrary: n)
  case (Cons b bs)
  show ?case
  proof (cases "n < 8")
    case True
    then show ?thesis by (auto simp: bit_or_iff bit_push_bit_iff bit_ucast_iff dest: bit_imp_le_length)
  next
    case False
    then have d: "n div 8 = Suc ((n - 8) div 8)" "n mod 8 = (n - 8) mod 8" by (simp_all add: le_div_geq le_mod_geq)
    have "\<not> bit b n" using False by (auto dest: bit_imp_le_length)
    then show ?thesis using False unfolding d by (auto simp: bit_or_iff bit_push_bit_iff bit_ucast_iff Cons.IH)
  qed
qed simp

lemma length_store_word [simp]: "length (store_word be sz w) = sz"
  by (simp add: store_word_def Let_def)

lemma load_store:
  assumes "sz \<le> 4"
  shows "bit (load_unsigned be (store_word be sz w)) n \<longleftrightarrow> n < 8 * sz \<and> bit w n"
proof -
  have l: "load_unsigned be (store_word be sz w) = le_word (map (\<lambda>i. ucast (drop_bit (8 * i) w)) [0..<sz])"
    by (simp add: load_unsigned_def store_word_def Let_def)
  have "n div 8 < sz \<longleftrightarrow> n < 8 * sz" by (simp add: div_less_iff_less_mult mult.commute)
  then show ?thesis using assms unfolding l bit_le_word
    by (auto simp: bit_ucast_iff bit_drop_bit_eq mult_div_mod_eq)
qed

text \<open>Extraction sees only the field, so the sign extension of a load does not matter.\<close>

lemma field_pos_bound:
  "field_ok sz start bits \<Longrightarrow> n < bits \<Longrightarrow> field_pos be sz start bits + n < 8 * sz"
  by (auto simp: field_pos_def field_ok_def)

lemma load_signed_low: "n < 8 * length bs \<Longrightarrow> bit (load_signed be bs) n \<longleftrightarrow> bit (load_unsigned be bs) n"
  by (cases "n = 8 * length bs - 1") (auto simp: load_signed_def bit_signed_take_bit_iff min_def dest: bit_imp_le_length)

lemma GET_signed:
  assumes "field_ok sz start bits" and "length bs = sz"
  shows "GET_BITFIELD be bs sz start bits = signed_take_bit (bits - 1) (GET_UNSIGNED_BITFIELD be bs sz start bits)"
proof -
  have "extract_unsigned_bitfield_any be (load_signed be bs) sz start bits
      = extract_unsigned_bitfield_any be (load_unsigned be bs) sz start bits"
    using assms field_pos_bound [OF assms(1)]
    by (intro bit_word_eqI) (auto simp: extract_unsigned_bit load_signed_low)
  then show ?thesis by (simp add: GET_BITFIELD_def GET_UNSIGNED_BITFIELD_def extract_signed [OF assms(1)])
qed

lemma bit_GET_unsigned_PUT:
  assumes "field_ok sz start bits" and "field_ok sz start' bits'"
  shows "bit (GET_UNSIGNED_BITFIELD be (PUT_BITFIELD be bs v sz start bits) sz start' bits') n
    \<longleftrightarrow> n < bits' \<and> (let m = field_pos be sz start' bits' + n; p = field_pos be sz start bits
         in if p \<le> m \<and> m < p + bits then bit v (m - p) else bit (load_unsigned be bs) m)"
proof -
  have "sz \<le> 4" using assms by (auto simp: field_ok_def)
  then show ?thesis using field_pos_bound [OF assms(2), of n be]
    by (auto simp: GET_UNSIGNED_BITFIELD_def PUT_BITFIELD_def extract_unsigned_bit [OF assms(2)] load_store
        insert_bit [OF assms(1)] Let_def)
qed

definition fields_disjoint :: "nat \<Rightarrow> nat \<Rightarrow> nat \<Rightarrow> nat \<Rightarrow> bool" where
  "fields_disjoint start bits start' bits' \<longleftrightarrow> start + bits \<le> start' \<or> start' + bits' \<le> start"

lemma disjoint_pos:
  assumes "field_ok sz start bits" and "field_ok sz start' bits'" and "fields_disjoint start bits start' bits'" and "n < bits'"
  shows "\<not> (field_pos be sz start bits \<le> field_pos be sz start' bits' + n
    \<and> field_pos be sz start' bits' + n < field_pos be sz start bits + bits)"
  using assms by (auto simp: field_pos_def field_ok_def fields_disjoint_def)

lemma PUT_keeps_others:
  assumes "field_ok sz start bits" and "field_ok sz start' bits'" and "fields_disjoint start bits start' bits'" and "length bs = sz"
  shows "GET_UNSIGNED_BITFIELD be (PUT_BITFIELD be bs v sz start bits) sz start' bits' = GET_UNSIGNED_BITFIELD be bs sz start' bits'"
    (is "?l = ?r")
proof (rule bit_word_eqI)
  fix n
  show "bit ?l n = bit ?r n"
    using disjoint_pos [OF assms(1-3), of n be]
    by (auto simp: bit_GET_unsigned_PUT [OF assms(1,2)] Let_def GET_UNSIGNED_BITFIELD_def [of be bs] extract_unsigned_bit [OF assms(2)])
qed

lemma signed_fits:
  assumes "n < 32" and "- (2 ^ n) \<le> sint v" and "sint v < 2 ^ n"
  shows "signed_take_bit n (v :: 32 word) = v"
proof (rule bit_word_eqI)
  fix k assume "k < LENGTH(32)"
  moreover have "bit (signed_take_bit n (sint v)) k = bit (sint v) k"
    using assms(2,3) by (simp add: signed_take_bit_int_eq_self)
  ultimately show "bit (signed_take_bit n v) k = bit v k"
    using assms(1) by (simp add: bit_signed_take_bit_iff bit_sint_iff)
qed

text \<open>
  C20: A value put into a bit field comes back: the unsigned routine gives its low bits, the signed
  one the same with their sign, which is the value itself when it fits, on machines of either byte
  order and for storage of 1, 2 and 4 bytes; every other field of the storage keeps its value.
\<close>

theorem bitfield_put_get:
  assumes "field_ok sz start bits" and "length bs = sz" and "bs' = PUT_BITFIELD big_endian bs v sz start bits"
  shows "length bs' = sz \<and> GET_UNSIGNED_BITFIELD big_endian bs' sz start bits = take_bit bits v \<and>
    GET_BITFIELD big_endian bs' sz start bits = signed_take_bit (bits - 1) v \<and>
    (- (2 ^ (bits - 1)) \<le> sint v \<and> sint v < 2 ^ (bits - 1) \<longrightarrow> GET_BITFIELD big_endian bs' sz start bits = v) \<and>
    (\<forall>start' bits'. field_ok sz start' bits' \<and> fields_disjoint start bits start' bits' \<longrightarrow>
       GET_UNSIGNED_BITFIELD big_endian bs' sz start' bits' = GET_UNSIGNED_BITFIELD big_endian bs sz start' bits' \<and>
       GET_BITFIELD big_endian bs' sz start' bits' = GET_BITFIELD big_endian bs sz start' bits')"
proof -
  have l: "length bs' = sz" using assms(3) by (simp add: PUT_BITFIELD_def)
  have u: "GET_UNSIGNED_BITFIELD big_endian bs' sz start bits = take_bit bits v"
    by (rule bit_word_eqI) (auto simp: assms(3) bit_GET_unsigned_PUT [OF assms(1,1)] Let_def bit_take_bit_iff)
  obtain m where "bits = Suc m" using assms(1) by (cases bits) (auto simp: field_ok_def)
  then have "GET_BITFIELD big_endian bs' sz start bits = signed_take_bit (bits - 1) v"
    unfolding GET_signed [OF assms(1) l] u by (simp add: signed_take_bit_take_bit)
  moreover have "bits - 1 < 32" using assms(1) by (auto simp: field_ok_def)
  ultimately show ?thesis
    using l u PUT_keeps_others [OF assms(1) _ _ assms(2)] GET_signed assms(2,3) by (simp add: signed_fits)
qed

theorem bitfield_put_get_witness:
  "GET_BITFIELD False (PUT_BITFIELD False [0xFF, 0x0F] (- 3) 2 4 5) 2 4 5 = - 3 \<and>
   GET_UNSIGNED_BITFIELD False (PUT_BITFIELD False [0xFF, 0x0F] (- 3) 2 4 5) 2 0 4
     = GET_UNSIGNED_BITFIELD False [0xFF, 0x0F] 2 0 4"
proof -
  have "signed_take_bit (5 - 1) (- 3 :: 32 word) = - 3" by simp
  then show ?thesis
    using bitfield_put_get [of 2 4 5 "[0xFF, 0x0F]" _ False "- 3"] by (simp add: field_ok_def fields_disjoint_def)
qed

end
