(* ===== verification/References.thy ===== *)
theory References
  imports Trick_Prelude "HOL-Library.Word"
begin

text \<open>
  Types, attributes and references of variables (include/trick/parameter\_types.h, attributes.h,
  reference.h, MemoryManager/ReferenceUtils.cpp, follow\_address\_path.c): where a variable lies, and of
  which type and size it is. Memory is a function from addresses to bytes, with 8 byte pointers.
\<close>

type_synonym bytes = "8 word list"
type_synonym memory = "nat \<Rightarrow> 8 word"

subsection \<open>References\<close>

datatype TRICK_TYPE =
    TRICK_VOID | TRICK_CHARACTER | TRICK_UNSIGNED_CHARACTER | TRICK_STRING | TRICK_SHORT
  | TRICK_UNSIGNED_SHORT | TRICK_INTEGER | TRICK_UNSIGNED_INTEGER | TRICK_LONG | TRICK_UNSIGNED_LONG
  | TRICK_FLOAT | TRICK_DOUBLE | TRICK_BITFIELD | TRICK_UNSIGNED_BITFIELD | TRICK_LONG_LONG
  | TRICK_UNSIGNED_LONG_LONG | TRICK_FILE_PTR | TRICK_BOOLEAN | TRICK_WCHAR | TRICK_WSTRING
  | TRICK_VOID_PTR | TRICK_ENUMERATED | TRICK_STRUCTURED | TRICK_OPAQUE_TYPE | TRICK_STL
  | TRICK_NUMBER_OF_TYPES

record ATTRIBUTES =
  at_type :: TRICK_TYPE
  at_size :: nat
  at_num_index :: int
  at_stl_elem_type :: TRICK_TYPE
  at_units :: string
  at_units_dashdash :: bool
  at_bit_start :: nat
  at_bit_size :: nat

datatype ADDRESS_NODE = AO_ADDRESS nat | AO_DEREFERENCE | AO_OFFSET int

text \<open>The variable \<open>curr_time\<close> of a group has an address of its own; \<open>Mem 0\<close> is \<open>NULL\<close>.\<close>

datatype address = Curr_time | Mem nat

record REF2 =
  rf_reference :: string
  rf_address :: address
  rf_attr :: ATTRIBUTES
  rf_num_index :: int
  rf_pointer_present :: bool
  rf_stl_present :: bool
  rf_address_path :: "ADDRESS_NODE list"

definition mem_bytes :: "memory \<Rightarrow> nat \<Rightarrow> nat \<Rightarrow> bytes" where
  "mem_bytes m a n = map (\<lambda>i. m (a + i)) [0..<n]"

definition load_pointer :: "bool \<Rightarrow> memory \<Rightarrow> nat \<Rightarrow> nat" where
  "load_pointer big_endian m a =
     (let bs = mem_bytes m a 8 in horner_sum unat 256 (if big_endian then rev bs else bs))"

text \<open>The walk along the path of a reference ends at the first \<open>NULL\<close>.\<close>

fun follow_nodes :: "bool \<Rightarrow> memory \<Rightarrow> ADDRESS_NODE list \<Rightarrow> nat \<Rightarrow> nat" where
  "follow_nodes big_endian m [] a = a"
| "follow_nodes big_endian m (n # ns) a =
     (let a1 = (case n of
          AO_ADDRESS x \<Rightarrow> x
        | AO_DEREFERENCE \<Rightarrow> load_pointer big_endian m a
        | AO_OFFSET d \<Rightarrow> nat (int a + d))
      in if a1 = 0 then 0 else follow_nodes big_endian m ns a1)"

definition follow_address_path :: "bool \<Rightarrow> memory \<Rightarrow> REF2 \<Rightarrow> address" where
  "follow_address_path big_endian m R = Mem (follow_nodes big_endian m (rf_address_path R) 0)"

text \<open>Sizes as on a 64 bit machine.\<close>

definition stl_elem_type_size :: "TRICK_TYPE \<Rightarrow> nat" where
  "stl_elem_type_size elem_type =
     (case elem_type of
        TRICK_CHARACTER \<Rightarrow> 1 | TRICK_UNSIGNED_CHARACTER \<Rightarrow> 1 | TRICK_BOOLEAN \<Rightarrow> 1
      | TRICK_SHORT \<Rightarrow> 2 | TRICK_UNSIGNED_SHORT \<Rightarrow> 2
      | TRICK_INTEGER \<Rightarrow> 4 | TRICK_UNSIGNED_INTEGER \<Rightarrow> 4 | TRICK_ENUMERATED \<Rightarrow> 4
      | TRICK_LONG \<Rightarrow> 8 | TRICK_UNSIGNED_LONG \<Rightarrow> 8
      | TRICK_LONG_LONG \<Rightarrow> 8 | TRICK_UNSIGNED_LONG_LONG \<Rightarrow> 8
      | TRICK_FLOAT \<Rightarrow> 4 | TRICK_DOUBLE \<Rightarrow> 8
      | TRICK_STRING \<Rightarrow> 8 | TRICK_WSTRING \<Rightarrow> 8 | TRICK_STRUCTURED \<Rightarrow> 8
      | _ \<Rightarrow> 0)"

definition indexed :: "REF2 \<Rightarrow> bool" where
  "indexed ref \<longleftrightarrow> at_type (rf_attr ref) = TRICK_STL \<and> rf_reference ref \<noteq> [] \<and> List.last (rf_reference ref) = CHR '']''"

definition is_stl_ref :: "REF2 \<Rightarrow> bool" where
  "is_stl_ref ref \<longleftrightarrow> rf_stl_present ref \<or> indexed ref"

definition effective_trick_type :: "REF2 \<Rightarrow> TRICK_TYPE" where
  "effective_trick_type ref = (if indexed ref then at_stl_elem_type (rf_attr ref) else at_type (rf_attr ref))"

definition effective_trick_size :: "REF2 \<Rightarrow> nat" where
  "effective_trick_size ref =
     (if indexed ref then stl_elem_type_size (at_stl_elem_type (rf_attr ref)) else at_size (rf_attr ref))"

end
