(* ===== verification/DataRecord.thy ===== *)
theory DataRecord
  imports ExecJobs Bitfield References
begin

text \<open>
  A data recording group (sim\_services/DataRecord/DataRecordGroup.cpp): the variables it records,
  the buffer in memory it records to, the rows written to its file, and the rates at which it
  records. A buffer is a list with one entry for each record, where an entry is the bytes of the
  variable; \<open>NULL\<close> is the empty list.
\<close>

definition isSupportedType :: "REF2 \<Rightarrow> bool" where
  "isSupportedType ref2 =
     (let eff_type = effective_trick_type ref2
      in if at_type (rf_attr ref2) = TRICK_STL \<and> \<not> is_stl_ref ref2 then False
         else if eff_type \<in> {TRICK_STRING, TRICK_WSTRING, TRICK_STL, TRICK_STRUCTURED, TRICK_NUMBER_OF_TYPES} then False
         else if \<not> is_stl_ref ref2 \<and> rf_num_index ref2 \<noteq> at_num_index (rf_attr ref2) then False
         else True)"

subsection \<open>The group\<close>

datatype DR_Freq = DR_Always | DR_Changes | DR_Changes_Step
datatype DR_Buffering = DR_Buffer | DR_No_Buffer | DR_Ring_Buffer | DR_Not_Specified

text \<open>\<open>curr_buffer\<close> as an index into \<open>buffer\<close>; a \<open>last_value\<close> of \<open>NULL\<close> is \<open>None\<close>.\<close>

record DataRecordBuffer =
  db_buffer :: "bytes list"
  db_curr_buffer :: nat
  db_last_value :: "bytes option"
  db_ref :: "REF2 option"
  db_ref_searched :: bool
  db_name :: string
  db_alias :: string

record LoggingCycle =
  lc_rate_in_seconds :: rat
  lc_rate_in_tics :: int
  lc_next_cycle_in_tics :: int

record DataRecordGroup =
  dg_record :: bool
  dg_inited :: bool
  dg_group_name :: string
  dg_freq :: DR_Freq
  dg_cycle :: rat
  dg_variable_names :: "string list"
  dg_variable_alias :: "string list"
  dg_rec_buffer :: "DataRecordBuffer list"
  dg_change_variable_names :: "string list"
  dg_change_variable_alias :: "string list"
  dg_change_buffer :: "DataRecordBuffer list"
  dg_max_num :: nat
  dg_buffer_num :: nat
  dg_writer_num :: nat
  dg_max_file_size :: nat
  dg_total_bytes_written :: nat
  dg_max_size_warning :: bool
  dg_single_prec_only :: bool
  dg_buffer_type :: DR_Buffering
  dg_job_class :: string
  dg_logging_rates :: "LoggingCycle list"
  dg_curr_time :: rat
  dg_write_job :: job_ptr
  dg_file :: bytes

text \<open>
  The machine and what the group calls: the byte order, the search for a variable by name (\<open>None\<close>
  for \<open>NULL\<close>), the bytes of a \<open>double\<close>, and the virtual functions: the result and the heading that
  \<open>format_specific_init\<close> writes, and the bytes that \<open>format_specific_write_data\<close> writes for a record.
\<close>

record RecordEnv =
  re_ref_attributes :: "string \<Rightarrow> REF2 option"
  re_big_endian :: bool
  re_double :: "rat \<Rightarrow> bytes"
  re_init :: "DataRecordGroup \<Rightarrow> int \<times> bytes"
  re_write :: "DataRecordGroup \<Rightarrow> nat \<Rightarrow> bytes"

definition sub_u32 :: "nat \<Rightarrow> nat \<Rightarrow> nat" where
  "sub_u32 a b = (a + 2 ^ 32 - b) mod 2 ^ 32"

definition new_DataRecordBuffer :: DataRecordBuffer where
  "new_DataRecordBuffer =
     \<lparr>db_buffer = [], db_curr_buffer = 0, db_last_value = None, db_ref = None, db_ref_searched = False,
      db_name = [], db_alias = []\<rparr>"

text \<open>
  A rate: its next cycle is the next multiple from now, by the C++ operations. A rate of less than
  half a tic makes the divisor 0.
\<close>

definition set_rate :: "int \<Rightarrow> int \<Rightarrow> rat \<Rightarrow> abort + LoggingCycle" where
  "set_rate curr_tic time_tic_value rate_in =
     (let cycle_tics = c_round (dmul rate_in (dbl time_tic_value))
      in if cycle_tics = 0 then Inl (Undefined ''curr_tic % 0'')
         else Inr \<lparr>lc_rate_in_seconds = rate_in, lc_rate_in_tics = cycle_tics,
           lc_next_cycle_in_tics = (if curr_tic smod cycle_tics \<noteq> 0
             then (curr_tic sdiv cycle_tics) * cycle_tics + cycle_tics else curr_tic)\<rparr>)"

definition set_freq :: "DR_Freq \<Rightarrow> DataRecordGroup \<Rightarrow> DataRecordGroup" where
  "set_freq in_freq g = g\<lparr>dg_freq := in_freq\<rparr>"

definition set_max_buffer_size :: "int \<Rightarrow> DataRecordGroup \<Rightarrow> DataRecordGroup" where
  "set_max_buffer_size num g = g\<lparr>dg_max_num := nat (num mod 2 ^ 32)\<rparr>"

definition set_buffer_type :: "DR_Buffering \<Rightarrow> DataRecordGroup \<Rightarrow> DataRecordGroup" where
  "set_buffer_type in_buffer_type g = g\<lparr>dg_buffer_type := in_buffer_type\<rparr>"

definition set_max_file_size :: "nat \<Rightarrow> DataRecordGroup \<Rightarrow> DataRecordGroup" where
  "set_max_file_size bytes g = g\<lparr>dg_max_file_size := (if bytes = 0 then 2 ^ 64 - 1 else bytes)\<rparr>"

definition set_single_prec_only :: "bool \<Rightarrow> DataRecordGroup \<Rightarrow> DataRecordGroup" where
  "set_single_prec_only in_single_prec_only g = g\<lparr>dg_single_prec_only := in_single_prec_only\<rparr>"

definition group_enable :: "DataRecordGroup \<Rightarrow> DataRecordGroup" where
  "group_enable g = g\<lparr>dg_record := True\<rparr>"

definition group_disable :: "DataRecordGroup \<Rightarrow> DataRecordGroup" where
  "group_disable g = g\<lparr>dg_record := False\<rparr>"

subsection \<open>Variables\<close>

definition trim :: "string \<Rightarrow> string" where
  "trim s = (let blank = (\<lambda>c. c = CHR '' '' \<or> c = CHR 0x09)
             in rev (dropWhile blank (rev (dropWhile blank s))))"

definition add_variable :: "string \<Rightarrow> string \<Rightarrow> DataRecordGroup \<Rightarrow> DataRecordGroup" where
  "add_variable in_name alias g =
     g\<lparr>dg_rec_buffer := dg_rec_buffer g @ [new_DataRecordBuffer\<lparr>db_name := trim in_name, db_alias := alias\<rparr>]\<rparr>"

definition zero_bytes :: "nat \<Rightarrow> bytes" where
  "zero_bytes n = replicate n 0"

definition add_variable_ref :: "REF2 option \<Rightarrow> DataRecordGroup \<Rightarrow> int \<times> DataRecordGroup" where
  "add_variable_ref ref2 g =
     (case ref2 of
        None \<Rightarrow> (-1, g)
      | Some r \<Rightarrow> (0, g\<lparr>dg_rec_buffer := dg_rec_buffer g @ [new_DataRecordBuffer
          \<lparr>db_name := rf_reference r, db_ref_searched := True, db_ref := Some r,
           db_last_value := Some (zero_bytes (at_size (rf_attr r)))\<rparr>]\<rparr>))"

definition time_ref :: REF2 where
  "time_ref =
     \<lparr>rf_reference = ''sys.exec.out.time'', rf_address = Curr_time,
      rf_attr = \<lparr>at_type = TRICK_DOUBLE, at_size = 8, at_num_index = 0, at_stl_elem_type = TRICK_VOID, at_units = ''s'', at_units_dashdash = False, at_bit_start = 0, at_bit_size = 0\<rparr>,
      rf_num_index = 0, rf_pointer_present = False, rf_stl_present = False, rf_address_path = []\<rparr>"

definition add_time_variable :: "DataRecordGroup \<Rightarrow> DataRecordGroup" where
  "add_time_variable g = snd (add_variable_ref (Some time_ref) g)"

fun remove_named :: "string \<Rightarrow> DataRecordBuffer list \<Rightarrow> DataRecordBuffer list" where
  "remove_named in_name [] = []"
| "remove_named in_name (b # bs) = (if db_name b = in_name then bs else b # remove_named in_name bs)"

definition remove_variable :: "string \<Rightarrow> DataRecordGroup \<Rightarrow> DataRecordGroup" where
  "remove_variable in_name g =
     (let nm = trim in_name
      in if nm = ''sys.exec.out.time'' then g
         else g\<lparr>dg_rec_buffer := remove_named nm (dg_rec_buffer g),
                dg_change_buffer := remove_named nm (dg_change_buffer g)\<rparr>)"

definition remove_all_variables :: "DataRecordGroup \<Rightarrow> DataRecordGroup" where
  "remove_all_variables g = g\<lparr>dg_rec_buffer := take 1 (dg_rec_buffer g), dg_change_buffer := []\<rparr>"

text \<open>The bytes of a variable; nothing checks that the address is not \<open>NULL\<close>.\<close>

definition read_ref :: "RecordEnv \<Rightarrow> memory \<Rightarrow> rat \<Rightarrow> REF2 \<Rightarrow> nat \<Rightarrow> abort + bytes" where
  "read_ref env m curr_time ref n =
     (case rf_address ref of
        Curr_time \<Rightarrow> Inr (take n (re_double env curr_time))
      | Mem a \<Rightarrow> if a = 0 then Inl (Undefined ''read through NULL'') else Inr (mem_bytes m a n))"

definition add_change_variable :: "RecordEnv \<Rightarrow> memory \<Rightarrow> string \<Rightarrow> DataRecordGroup
    \<Rightarrow> (int, DataRecordGroup) result" where
  "add_change_variable env m in_name g =
     (case re_ref_attributes env in_name of
        None \<Rightarrow> Some (Inr (-1), g)
      | Some r \<Rightarrow>
          (case read_ref env m (dg_curr_time g) r (at_size (rf_attr r)) of
             Inl a \<Rightarrow> Some (Inl a, g)
           | Inr v \<Rightarrow> Some (Inr 0, g\<lparr>dg_change_buffer := dg_change_buffer g @ [new_DataRecordBuffer
               \<lparr>db_ref := Some r, db_name := in_name, db_buffer := [v]\<rparr>]\<rparr>)))"

subsection \<open>Writing\<close>

text \<open>The loop over the records, from \<open>writer_num\<close> up to \<open>local_buffer_num\<close>, both \<open>unsigned\<close>.\<close>

partial_function (option) write_rows :: "RecordEnv \<Rightarrow> nat \<Rightarrow> DataRecordGroup \<Rightarrow> (unit, DataRecordGroup) result" where
  "write_rows env local_buffer_num g =
     (if dg_writer_num g = local_buffer_num then Some (Inr (), g)
      else if dg_max_num g = 0 then Some (Inl (Undefined ''writer_num % 0''), g)
      else let b = re_write env g (dg_writer_num g mod dg_max_num g)
           in write_rows env local_buffer_num
                (g\<lparr>dg_file := dg_file g @ b, dg_total_bytes_written := dg_total_bytes_written g + length b,
                   dg_writer_num := inc_u32 (dg_writer_num g)\<rparr>))"

definition write_data :: "RecordEnv \<Rightarrow> bool \<Rightarrow> DataRecordGroup \<Rightarrow> (int, DataRecordGroup) result" where
  "write_data env must_write g =
     (if dg_record g \<and> dg_inited g \<and> (dg_buffer_type g = DR_No_Buffer \<or> must_write) \<and>
         dg_total_bytes_written g \<le> dg_max_file_size g then
        (let local_buffer_num = dg_buffer_num g;
             pending = sub_u32 local_buffer_num (dg_writer_num g);
             num_to_write = (if dg_max_num g < pending then dg_max_num g else pending)
         in andthen (write_rows env local_buffer_num (g\<lparr>dg_writer_num := sub_u32 local_buffer_num num_to_write\<rparr>))
              (\<lambda>_ g1. Some (Inr 0,
                 if \<not> dg_max_size_warning g1 \<and> dg_max_file_size g1 < dg_total_bytes_written g1
                 then g1\<lparr>dg_max_size_warning := True\<rparr> else g1)))
      else Some (Inr 0, g))"

subsection \<open>Recording\<close>

text \<open>An operation on each variable in turn, up to the first that fails.\<close>

fun each_buffer :: "(DataRecordBuffer \<Rightarrow> abort + DataRecordBuffer) \<Rightarrow> DataRecordBuffer list
    \<Rightarrow> abort + DataRecordBuffer list" where
  "each_buffer f [] = Inr []"
| "each_buffer f (b # bs) =
     (case f b of Inl a \<Rightarrow> Inl a
      | Inr b1 \<Rightarrow> (case each_buffer f bs of Inl a \<Rightarrow> Inl a | Inr bs1 \<Rightarrow> Inr (b1 # bs1)))"

definition store_value :: "nat \<Rightarrow> bytes \<Rightarrow> DataRecordBuffer \<Rightarrow> abort + DataRecordBuffer" where
  "store_value buffer_offset v drb =
     (let c = (if buffer_offset = 0 then 0 else db_curr_buffer drb + 1)
      in if c < length (db_buffer drb)
         then Inr (drb\<lparr>db_curr_buffer := c, db_buffer := (db_buffer drb)[c := v]\<rparr>)
         else Inl (Undefined ''store outside of buffer''))"

definition store_last :: "nat \<Rightarrow> DataRecordBuffer \<Rightarrow> abort + DataRecordBuffer" where
  "store_last buffer_offset drb =
     (case db_last_value drb of
        None \<Rightarrow> Inl (Undefined ''NULL last_value'')
      | Some v \<Rightarrow> store_value buffer_offset v drb)"

definition resolve :: "RecordEnv \<Rightarrow> memory \<Rightarrow> bool \<Rightarrow> REF2 \<Rightarrow> REF2" where
  "resolve env m moving ref =
     (if moving then ref\<lparr>rf_address := follow_address_path (re_big_endian env) m ref\<rparr> else ref)"

definition store_current :: "RecordEnv \<Rightarrow> memory \<Rightarrow> rat \<Rightarrow> nat \<Rightarrow> DataRecordBuffer \<Rightarrow> abort + DataRecordBuffer" where
  "store_current env m curr_time buffer_offset drb =
     (case db_ref drb of
        None \<Rightarrow> Inl (Undefined ''NULL ref'')
      | Some ref \<Rightarrow>
          (let ref1 = resolve env m (rf_pointer_present ref \<and> \<not> is_stl_ref ref) ref
           in case (db_last_value drb, read_ref env m curr_time ref1 (effective_trick_size ref1)) of
                (None, _) \<Rightarrow> Inl (Undefined ''NULL last_value'')
              | (Some _, Inl a) \<Rightarrow> Inl a
              | (Some _, Inr v) \<Rightarrow>
                  store_value buffer_offset v (drb\<lparr>db_ref := Some ref1, db_last_value := Some v\<rparr>)))"

text \<open>The comparison with the change variables.\<close>

fun detect_changes :: "RecordEnv \<Rightarrow> memory \<Rightarrow> rat \<Rightarrow> DataRecordBuffer list \<Rightarrow> bool
    \<Rightarrow> abort + bool \<times> DataRecordBuffer list" where
  "detect_changes env m curr_time [] change_detected = Inr (change_detected, [])"
| "detect_changes env m curr_time (drb # bs) change_detected =
     (case db_ref drb of
        None \<Rightarrow> Inl (Undefined ''NULL ref'')
      | Some ref \<Rightarrow>
          (let ref1 = resolve env m (rf_pointer_present ref) ref
           in case read_ref env m curr_time ref1 (at_size (rf_attr ref1)) of
                Inl a \<Rightarrow> Inl a
              | Inr v \<Rightarrow>
                  (case detect_changes env m curr_time bs (change_detected \<or> db_buffer drb \<noteq> [v]) of
                     Inl a \<Rightarrow> Inl a
                   | Inr (c, bs1) \<Rightarrow> Inr (c, drb\<lparr>db_ref := Some ref1, db_buffer := [v]\<rparr> # bs1))))"

text \<open>One record: every variable stored at \<open>buffer_num % max_num\<close>.\<close>

definition record_row :: "(nat \<Rightarrow> DataRecordBuffer \<Rightarrow> abort + DataRecordBuffer) \<Rightarrow> DataRecordGroup
    \<Rightarrow> (unit, DataRecordGroup) result" where
  "record_row store g =
     (if dg_max_num g = 0 then Some (Inl (Undefined ''buffer_num % 0''), g)
      else case each_buffer (store (dg_buffer_num g mod dg_max_num g)) (dg_rec_buffer g) of
             Inl a \<Rightarrow> Some (Inl a, g)
           | Inr bs \<Rightarrow> Some (Inr (), g\<lparr>dg_rec_buffer := bs, dg_buffer_num := inc_u32 (dg_buffer_num g)\<rparr>))"

definition set_step_time :: "RecordEnv \<Rightarrow> rat \<Rightarrow> DataRecordGroup \<Rightarrow> (unit, DataRecordGroup) result" where
  "set_step_time env in_time g =
     (case dg_rec_buffer g of
        b # bs \<Rightarrow> (case db_last_value b of
            Some _ \<Rightarrow> Some (Inr (), g\<lparr>dg_rec_buffer := b\<lparr>db_last_value := Some (re_double env in_time)\<rparr> # bs\<rparr>)
          | None \<Rightarrow> Some (Inl (Undefined ''NULL last_value''), g))
      | [] \<Rightarrow> Some (Inl (Undefined ''rec_buffer[0]''), g))"

definition look_for_change :: "RecordEnv \<Rightarrow> memory \<Rightarrow> DataRecordGroup \<Rightarrow> (bool, DataRecordGroup) result" where
  "look_for_change env m g =
     (if dg_freq g = DR_Always then Some (Inr False, g)
      else case detect_changes env m (dg_curr_time g) (dg_change_buffer g) False of
             Inl a \<Rightarrow> Some (Inl a, g)
           | Inr (c, bs) \<Rightarrow> Some (Inr c, g\<lparr>dg_change_buffer := bs\<rparr>))"

definition make_room :: "RecordEnv \<Rightarrow> DataRecordGroup \<Rightarrow> (int, DataRecordGroup) result" where
  "make_room env g =
     (if dg_buffer_type g \<noteq> DR_Ring_Buffer \<and>
         sub_u32 (dg_max_num g) 2 \<le> sub_u32 (dg_buffer_num g) (dg_writer_num g)
      then write_data env True g else Some (Inr 0, g))"

text \<open>The part of \<open>data_record\<close> that records.\<close>

definition record_values :: "RecordEnv \<Rightarrow> memory \<Rightarrow> rat \<Rightarrow> DataRecordGroup \<Rightarrow> (unit, DataRecordGroup) result" where
  "record_values env m in_time g =
     (if \<not> dg_record g then Some (Inr (), g)
      else andthen (look_for_change env m g)
        (\<lambda>change_detected g1.
           if dg_freq g1 = DR_Always \<or> dg_buffer_num g1 = 0 \<or> change_detected then
             andthen (make_room env g1)
               (\<lambda>_ g2. let g3 = g2\<lparr>dg_curr_time := in_time\<rparr>
                  in andthen (if dg_freq g3 = DR_Changes_Step
                              then andthen (set_step_time env in_time g3) (\<lambda>_. record_row store_last)
                              else Some (Inr (), g3))
                       (\<lambda>_. record_row (store_current env m in_time)))
           else Some (Inr (), g1)))"

definition group_shutdown :: "RecordEnv \<Rightarrow> DataRecordGroup \<Rightarrow> (int, DataRecordGroup) result" where
  "group_shutdown env g =
     andthen (write_data env True (g\<lparr>dg_record := True\<rparr>))
       (\<lambda>_ g1. Some (Inr 0, (remove_all_variables g1)\<lparr>dg_rec_buffer := []\<rparr>))"

subsection \<open>Rates\<close>

definition calculate_next_logging_tic :: "int \<Rightarrow> LoggingCycle list \<Rightarrow> int" where
  "calculate_next_logging_tic min_tic rates =
     fold (\<lambda>r best. let logNextTic = (if lc_next_cycle_in_tics r = min_tic
                                       then lc_next_cycle_in_tics r + lc_rate_in_tics r
                                       else lc_next_cycle_in_tics r)
                     in if logNextTic < best then logNextTic else best) rates TRICK_MAX_LONG_LONG"

partial_function (option) advance_cycle :: "int \<Rightarrow> int \<Rightarrow> int \<Rightarrow> int option" where
  "advance_cycle curr_tic_in rate_in_tics logNextTic =
     (if logNextTic \<le> curr_tic_in then advance_cycle curr_tic_in rate_in_tics (logNextTic + rate_in_tics)
      else Some logNextTic)"

fun advance_log_tics_given_curr_tic :: "int \<Rightarrow> LoggingCycle list \<Rightarrow> LoggingCycle list option" where
  "advance_log_tics_given_curr_tic curr_tic_in [] = Some []"
| "advance_log_tics_given_curr_tic curr_tic_in (r # rs) =
     (case advance_cycle curr_tic_in (lc_rate_in_tics r) (lc_next_cycle_in_tics r) of
        None \<Rightarrow> None
      | Some t \<Rightarrow> (case advance_log_tics_given_curr_tic curr_tic_in rs of
                     None \<Rightarrow> None
                   | Some rs1 \<Rightarrow> Some (r\<lparr>lc_next_cycle_in_tics := t\<rparr> # rs1)))"

end
