(* ===== verification/DRBinary.thy ===== *)
theory DRBinary
  imports DataRecord
begin

text \<open>
  The binary format of a recording group (sim\_services/DataRecord/DRBinary.cpp): the bytes of a
  record are those of its variables one after the other, bit fields as the integer they stand for.
\<close>

text \<open>
  The bytes of one variable. Types that the switch does not name leave \<open>writer_buff\<close> as it was
  there: \<open>old\<close>. A bit field is copied from an \<open>int\<close>, or from an \<open>unsigned long\<close>.
\<close>

definition DRBinary_item :: "bool \<Rightarrow> bytes \<Rightarrow> REF2 \<Rightarrow> bytes \<Rightarrow> bytes" where
  "DRBinary_item big_endian old r v =
     (let item_size = effective_trick_size r; A = rf_attr r
      in case effective_trick_type r of
           TRICK_BITFIELD \<Rightarrow> take item_size (store_word big_endian 4
             (GET_BITFIELD big_endian (take (at_size A) v) (at_size A) (at_bit_start A) (at_bit_size A)))
         | TRICK_UNSIGNED_BITFIELD \<Rightarrow>
             (let w = store_word big_endian 4
                (GET_UNSIGNED_BITFIELD big_endian (take (at_size A) v) (at_size A) (at_bit_start A) (at_bit_size A))
              in take item_size (if big_endian then zero_bytes 4 @ w else w @ zero_bytes 4))
         | TRICK_VOID \<Rightarrow> old | TRICK_STRING \<Rightarrow> old | TRICK_FILE_PTR \<Rightarrow> old | TRICK_WCHAR \<Rightarrow> old
         | TRICK_WSTRING \<Rightarrow> old | TRICK_VOID_PTR \<Rightarrow> old | TRICK_OPAQUE_TYPE \<Rightarrow> old | TRICK_STL \<Rightarrow> old
         | TRICK_NUMBER_OF_TYPES \<Rightarrow> old
         | _ \<Rightarrow> take item_size v)"

fun DRBinary_items :: "bool \<Rightarrow> nat \<Rightarrow> bytes \<Rightarrow> DataRecordBuffer list \<Rightarrow> bytes" where
  "DRBinary_items big_endian writer_offset writer_buff [] = []"
| "DRBinary_items big_endian writer_offset writer_buff (b # bs) =
     (case db_ref b of
        None \<Rightarrow> []
      | Some r \<Rightarrow> DRBinary_item big_endian (take (effective_trick_size r) writer_buff) r (db_buffer b ! writer_offset)
                   @ DRBinary_items big_endian writer_offset (drop (effective_trick_size r) writer_buff) bs)"

definition DRBinary_write :: "bool \<Rightarrow> bytes \<Rightarrow> DataRecordGroup \<Rightarrow> nat \<Rightarrow> bytes" where
  "DRBinary_write big_endian writer_buff g writer_offset =
     DRBinary_items big_endian writer_offset writer_buff (dg_rec_buffer g)"

text \<open>The heading: the format, the number of variables, and each one's name, units, type and size.\<close>

definition type_code :: "TRICK_TYPE \<Rightarrow> nat" where
  "type_code t =
     (case t of
        TRICK_VOID \<Rightarrow> 0 | TRICK_CHARACTER \<Rightarrow> 1 | TRICK_UNSIGNED_CHARACTER \<Rightarrow> 2 | TRICK_STRING \<Rightarrow> 3
      | TRICK_SHORT \<Rightarrow> 4 | TRICK_UNSIGNED_SHORT \<Rightarrow> 5 | TRICK_INTEGER \<Rightarrow> 6 | TRICK_UNSIGNED_INTEGER \<Rightarrow> 7
      | TRICK_LONG \<Rightarrow> 8 | TRICK_UNSIGNED_LONG \<Rightarrow> 9 | TRICK_FLOAT \<Rightarrow> 10 | TRICK_DOUBLE \<Rightarrow> 11
      | TRICK_BITFIELD \<Rightarrow> 12 | TRICK_UNSIGNED_BITFIELD \<Rightarrow> 13 | TRICK_LONG_LONG \<Rightarrow> 14
      | TRICK_UNSIGNED_LONG_LONG \<Rightarrow> 15 | TRICK_FILE_PTR \<Rightarrow> 16 | TRICK_BOOLEAN \<Rightarrow> 17 | TRICK_WCHAR \<Rightarrow> 18
      | TRICK_WSTRING \<Rightarrow> 19 | TRICK_VOID_PTR \<Rightarrow> 20 | TRICK_ENUMERATED \<Rightarrow> 21 | TRICK_STRUCTURED \<Rightarrow> 22
      | TRICK_OPAQUE_TYPE \<Rightarrow> 23 | TRICK_STL \<Rightarrow> 24 | TRICK_NUMBER_OF_TYPES \<Rightarrow> 25)"

definition text_bytes :: "string \<Rightarrow> bytes" where
  "text_bytes s = map (\<lambda>c. word_of_nat (of_char c)) s"

definition int_bytes :: "bool \<Rightarrow> nat \<Rightarrow> bytes" where
  "int_bytes big_endian n = store_word big_endian 4 (word_of_nat n)"

definition counted :: "bool \<Rightarrow> string \<Rightarrow> bytes" where
  "counted big_endian s = int_bytes big_endian (length s) @ text_bytes s"

definition units_text :: "ATTRIBUTES \<Rightarrow> string" where
  "units_text A = (if at_units_dashdash A then ''--'' else at_units A)"

definition DRBinary_variable :: "bool \<Rightarrow> REF2 \<Rightarrow> bytes" where
  "DRBinary_variable big_endian r =
     counted big_endian (rf_reference r) @ counted big_endian (units_text (rf_attr r)) @
     int_bytes big_endian (type_code (effective_trick_type r)) @ int_bytes big_endian (effective_trick_size r)"

definition DRBinary_heading :: "bool \<Rightarrow> DataRecordGroup \<Rightarrow> bytes" where
  "DRBinary_heading big_endian g =
     text_bytes (if big_endian then ''Trick-10-B'' else ''Trick-10-L'') @
     int_bytes big_endian (length (dg_rec_buffer g)) @
     concat (map (\<lambda>b. case db_ref b of None \<Rightarrow> [] | Some r \<Rightarrow> DRBinary_variable big_endian r) (dg_rec_buffer g))"

definition DRBinary_env :: "bool \<Rightarrow> bool \<Rightarrow> bytes \<Rightarrow> (string \<Rightarrow> REF2 option) \<Rightarrow> (rat \<Rightarrow> bytes) \<Rightarrow> RecordEnv" where
  "DRBinary_env big_endian created writer_buff search double_bytes =
     \<lparr>re_ref_attributes = search, re_big_endian = big_endian, re_double = double_bytes,
      re_init = (\<lambda>g. if created then (0, DRBinary_heading big_endian g) else (-1, [])),
      re_write = DRBinary_write big_endian writer_buff\<rparr>"

subsection \<open>The header file of a log\<close>

definition type_string :: "bool \<Rightarrow> TRICK_TYPE \<Rightarrow> nat \<Rightarrow> string" where
  "type_string single_prec_only item_type item_size =
     (case item_type of
        TRICK_CHARACTER \<Rightarrow> ''char'' | TRICK_UNSIGNED_CHARACTER \<Rightarrow> ''unsigned_char''
      | TRICK_STRING \<Rightarrow> ''string'' | TRICK_SHORT \<Rightarrow> ''short'' | TRICK_UNSIGNED_SHORT \<Rightarrow> ''unsigned_short''
      | TRICK_ENUMERATED \<Rightarrow> ''int'' | TRICK_INTEGER \<Rightarrow> ''int'' | TRICK_UNSIGNED_INTEGER \<Rightarrow> ''unsigned_int''
      | TRICK_LONG \<Rightarrow> ''long'' | TRICK_UNSIGNED_LONG \<Rightarrow> ''unsigned_long'' | TRICK_FLOAT \<Rightarrow> ''float''
      | TRICK_DOUBLE \<Rightarrow> (if single_prec_only then ''float'' else ''double'')
      | TRICK_BITFIELD \<Rightarrow> (if item_size = 4 then ''int'' else if item_size = 2 then ''short'' else ''char'')
      | TRICK_UNSIGNED_BITFIELD \<Rightarrow>
          (if item_size = 4 then ''unsigned_int'' else if item_size = 2 then ''unsigned_short'' else ''unsigned_char'')
      | TRICK_LONG_LONG \<Rightarrow> ''long_long'' | TRICK_UNSIGNED_LONG_LONG \<Rightarrow> ''unsigned_long_long''
      | TRICK_BOOLEAN \<Rightarrow> ''unsigned_char''
      | _ \<Rightarrow> [])"

definition pad_left :: "nat \<Rightarrow> string \<Rightarrow> string" where
  "pad_left n s = replicate (n - length s) CHR '' '' @ s"

definition header_line :: "DataRecordGroup \<Rightarrow> REF2 \<Rightarrow> string" where
  "header_line g r =
     ''log_'' @ dg_group_name g @ [CHR 0x09] @
     type_string (dg_single_prec_only g) (effective_trick_type r) (effective_trick_size r) @ [CHR 0x09] @
     pad_left 6 (units_text (rf_attr r)) @ [CHR 0x09] @ rf_reference r @ [CHR 0x0A]"

definition DRBinary_header :: "bool \<Rightarrow> string" where
  "DRBinary_header big_endian =
     '' byte_order is '' @ (if big_endian then ''big_endian'' else ''little_endian'') @ [CHR 0x0A]"

definition write_header :: "string \<Rightarrow> DataRecordGroup \<Rightarrow> string" where
  "write_header format_specific g =
     ''log_'' @ dg_group_name g @ format_specific @
     concat (map (\<lambda>b. case db_ref b of None \<Rightarrow> [] | Some r \<Rightarrow> header_line g r) (dg_rec_buffer g))"

end
