(* ===== verification/RecordRefine.thy ===== *)
theory RecordRefine
  imports DRBinary
begin

text \<open>
  The ring buffer of a recording group as a queue of rows. What counts is the log: the file followed
  by the rows that wait in the buffer. Recording appends to it, writing leaves it as it is.
\<close>

type_synonym row = "(REF2 option \<times> bytes) list"

text \<open>A reference without its address, which may move between records.\<close>

definition fixed_ref :: "REF2 \<Rightarrow> REF2" where
  "fixed_ref r = r\<lparr>rf_address := Mem 0\<rparr>"

definition row_at :: "DataRecordGroup \<Rightarrow> nat \<Rightarrow> row" where
  "row_at g s = map (\<lambda>b. (map_option fixed_ref (db_ref b), db_buffer b ! s)) (dg_rec_buffer g)"

definition pending :: "DataRecordGroup \<Rightarrow> row list" where
  "pending g = map (\<lambda>k. row_at g (k mod dg_max_num g)) [dg_writer_num g..<dg_buffer_num g]"

text \<open>A buffer in order: allocated, resolved, and at the entry of the record before.\<close>

definition wf_buffer :: "nat \<Rightarrow> nat \<Rightarrow> DataRecordBuffer \<Rightarrow> bool" where
  "wf_buffer max_num buffer_num b \<longleftrightarrow>
     length (db_buffer b) = max_num \<and> db_last_value b \<noteq> None \<and> db_ref b \<noteq> None \<and>
     (0 < buffer_num \<longrightarrow> db_curr_buffer b = (buffer_num - 1) mod max_num)"

definition wf_group :: "DataRecordGroup \<Rightarrow> bool" where
  "wf_group g \<longleftrightarrow>
     dg_record g \<and> dg_inited g \<and> dg_buffer_type g \<noteq> DR_Ring_Buffer \<and>
     2 < dg_max_num g \<and> dg_max_num g < 2 ^ 32 \<and> dg_buffer_num g < 2 ^ 32 \<and>
     dg_writer_num g \<le> dg_buffer_num g \<and> dg_buffer_num g - dg_writer_num g < dg_max_num g \<and>
     dg_rec_buffer g \<noteq> [] \<and> (\<forall>b \<in> set (dg_rec_buffer g). wf_buffer (dg_max_num g) (dg_buffer_num g) b)"

subsection \<open>Arithmetic of the counters\<close>

lemma sub_u32_le: "b \<le> a \<Longrightarrow> a < 2 ^ 32 \<Longrightarrow> sub_u32 a b = a - b"
  by (auto simp: sub_u32_def le_iff_add)

lemma next_slot: "0 < M \<Longrightarrow> 0 < (k :: nat) \<Longrightarrow> (if k mod M = 0 then 0 else (k - 1) mod M + 1) = k mod M"
  by (cases k) (auto simp: mod_Suc)

text \<open>Slots of less than \<open>M\<close> records in a row are different.\<close>

lemma slots_differ: "j < k \<Longrightarrow> k - j < M \<Longrightarrow> j mod M \<noteq> (k :: nat) mod M"
  by (metis dvd_imp_le mod_eq_dvd_iff_nat less_imp_le not_less zero_less_diff)

subsection \<open>A row\<close>

text \<open>The value of a variable now.\<close>

definition current_ref :: "RecordEnv \<Rightarrow> memory \<Rightarrow> REF2 \<Rightarrow> REF2" where
  "current_ref env m ref = resolve env m (rf_pointer_present ref \<and> \<not> is_stl_ref ref) ref"

definition current_value :: "RecordEnv \<Rightarrow> memory \<Rightarrow> rat \<Rightarrow> DataRecordBuffer \<Rightarrow> bytes" where
  "current_value env m t b =
     (case db_ref b of
        None \<Rightarrow> []
      | Some ref \<Rightarrow>
          (case read_ref env m t (current_ref env m ref) (effective_trick_size ref) of Inl _ \<Rightarrow> [] | Inr v \<Rightarrow> v))"

definition current_row :: "RecordEnv \<Rightarrow> memory \<Rightarrow> rat \<Rightarrow> DataRecordGroup \<Rightarrow> row" where
  "current_row env m t g =
     map (\<lambda>b. (map_option fixed_ref (db_ref b), current_value env m t b)) (dg_rec_buffer g)"

text \<open>No variable lies behind a \<open>NULL\<close> pointer.\<close>

definition readable :: "RecordEnv \<Rightarrow> memory \<Rightarrow> DataRecordGroup \<Rightarrow> bool" where
  "readable env m g \<longleftrightarrow>
     (\<forall>b \<in> set (dg_rec_buffer g). \<forall>r. db_ref b = Some r \<longrightarrow> rf_address (current_ref env m r) \<noteq> Mem 0)"

lemma ref_address_irrelevant [simp]:
  "effective_trick_size (r\<lparr>rf_address := a\<rparr>) = effective_trick_size r"
  "effective_trick_type (r\<lparr>rf_address := a\<rparr>) = effective_trick_type r"
  "is_stl_ref (r\<lparr>rf_address := a\<rparr>) = is_stl_ref r"
  by (simp_all add: effective_trick_size_def effective_trick_type_def is_stl_ref_def indexed_def)

lemma current_ref_simps [simp]:
  "effective_trick_size (current_ref env m r) = effective_trick_size r"
  "fixed_ref (current_ref env m r) = fixed_ref r"
  "current_ref env m' (current_ref env m r) = current_ref env m' r \<or> \<not> (rf_pointer_present r \<and> \<not> is_stl_ref r)"
  by (auto simp: current_ref_def resolve_def fixed_ref_def follow_address_path_def)

lemma current_ref_again: "current_ref env m' (current_ref env m r) = current_ref env m' r"
  by (auto simp: current_ref_def resolve_def follow_address_path_def)

text \<open>What storing a value makes of a buffer.\<close>

definition stored :: "nat \<Rightarrow> bytes \<Rightarrow> DataRecordBuffer \<Rightarrow> DataRecordBuffer" where
  "stored s v b = b\<lparr>db_curr_buffer := s, db_buffer := (db_buffer b)[s := v]\<rparr>"

lemma store_value_stored:
  assumes "wf_buffer M k b" and "0 < M"
  shows "store_value (k mod M) v b = Inr (stored (k mod M) v b)"
proof -
  have c: "(if k mod M = 0 then 0 else db_curr_buffer b + 1) = k mod M"
    using assms next_slot [of M k] by (cases "k = 0") (auto simp: wf_buffer_def)
  show ?thesis unfolding store_value_def Let_def c using assms by (simp add: wf_buffer_def stored_def)
qed

definition after_current :: "RecordEnv \<Rightarrow> memory \<Rightarrow> rat \<Rightarrow> nat \<Rightarrow> DataRecordBuffer \<Rightarrow> DataRecordBuffer" where
  "after_current env m t s b =
     stored s (current_value env m t b)
       (b\<lparr>db_ref := map_option (current_ref env m) (db_ref b), db_last_value := Some (current_value env m t b)\<rparr>)"

lemma store_current_stored:
  assumes "wf_buffer M k b" and "0 < M" and "\<And>r. db_ref b = Some r \<Longrightarrow> rf_address (current_ref env m r) \<noteq> Mem 0"
  shows "store_current env m t (k mod M) b = Inr (after_current env m t (k mod M) b)"
proof -
  obtain r l where r: "db_ref b = Some r" "db_last_value b = Some l" using assms(1) by (auto simp: wf_buffer_def)
  obtain v where v: "read_ref env m t (current_ref env m r) (effective_trick_size r) = Inr v"
    using assms(3) [OF r(1)] by (cases "rf_address (current_ref env m r)") (auto simp: read_ref_def)
  have "wf_buffer M k (b\<lparr>db_ref := Some (current_ref env m r), db_last_value := Some v\<rparr>)"
    using assms(1) by (auto simp: wf_buffer_def)
  then show ?thesis using r v assms(2)
    by (simp add: store_current_def current_ref_def [symmetric] Let_def store_value_stored after_current_def current_value_def)
qed

lemma each_buffer_all:
  "\<forall>b \<in> set bs. f b = Inr (h b) \<Longrightarrow> each_buffer f bs = Inr (map h bs)"
  by (induction bs) auto

subsection \<open>One more row\<close>

text \<open>A row stored in a group that has room for it.\<close>

definition row_stored :: "DataRecordGroup \<Rightarrow> (DataRecordBuffer \<Rightarrow> DataRecordBuffer) \<Rightarrow> DataRecordGroup" where
  "row_stored g h = g\<lparr>dg_rec_buffer := map h (dg_rec_buffer g), dg_buffer_num := inc_u32 (dg_buffer_num g)\<rparr>"

lemma row_stored_fields:
  "dg_file (row_stored g h) = dg_file g" "dg_freq (row_stored g h) = dg_freq g"
  "dg_max_file_size (row_stored g h) = dg_max_file_size g"
  "dg_total_bytes_written (row_stored g h) = dg_total_bytes_written g"
  "dg_buffer_num (row_stored g h) = inc_u32 (dg_buffer_num g)"
  by (simp_all add: row_stored_def)

lemma record_row_stored:
  assumes "wf_group g" and "\<forall>b \<in> set (dg_rec_buffer g). store (dg_buffer_num g mod dg_max_num g) b = Inr (h b)"
  shows "record_row store g = Some (Inr (), row_stored g h)"
  using assms(1) by (simp add: record_row_def each_buffer_all [OF assms(2)] row_stored_def wf_group_def)

definition keeps_ref :: "nat \<Rightarrow> (DataRecordBuffer \<Rightarrow> bytes) \<Rightarrow> (DataRecordBuffer \<Rightarrow> DataRecordBuffer) \<Rightarrow> DataRecordBuffer \<Rightarrow> bool" where
  "keeps_ref s v h b \<longleftrightarrow>
     db_buffer (h b) = (db_buffer b)[s := v b] \<and> db_curr_buffer (h b) = s \<and> db_last_value (h b) \<noteq> None \<and>
     db_ref (h b) \<noteq> None \<and> map_option fixed_ref (db_ref (h b)) = map_option fixed_ref (db_ref b)"

lemma row_appended:
  assumes wf: "wf_group g" and room: "dg_buffer_num g - dg_writer_num g + 1 < dg_max_num g"
    and k: "dg_buffer_num g + 1 < 2 ^ 32"
    and h: "\<forall>b \<in> set (dg_rec_buffer g). keeps_ref (dg_buffer_num g mod dg_max_num g) v h b"
  shows "wf_group (row_stored g h)"
    and "pending (row_stored g h)
      = pending g @ [map (\<lambda>b. (map_option fixed_ref (db_ref b), v b)) (dg_rec_buffer g)]"
proof -
  let ?k = "dg_buffer_num g" and ?w = "dg_writer_num g" and ?M = "dg_max_num g" and ?g = "row_stored g h"
  have inc: "inc_u32 ?k = Suc ?k" using k by simp
  have M: "2 < ?M" and w: "?w \<le> ?k" using wf by (auto simp: wf_group_def)
  have len: "\<forall>b \<in> set (dg_rec_buffer g). length (db_buffer b) = ?M" using wf by (auto simp: wf_group_def wf_buffer_def)
  show "wf_group ?g"
    using wf h room k M by (auto simp: wf_group_def wf_buffer_def row_stored_def inc keeps_ref_def)
  have old: "row_at ?g s = row_at g s" if "s \<noteq> ?k mod ?M" for s
    using that h by (auto simp: row_at_def row_stored_def keeps_ref_def)
  have new: "row_at ?g (?k mod ?M) = map (\<lambda>b. (map_option fixed_ref (db_ref b), v b)) (dg_rec_buffer g)"
    using h len M by (auto simp: row_at_def row_stored_def keeps_ref_def)
  have "i mod ?M \<noteq> ?k mod ?M" if "i \<in> set [?w..<?k]" for i
    using that room by (intro slots_differ) auto
  then have "map (\<lambda>i. row_at ?g (i mod ?M)) [?w..<?k] = pending g"
    by (auto simp: pending_def old)
  moreover have "dg_max_num ?g = ?M" "dg_writer_num ?g = ?w" "dg_buffer_num ?g = Suc ?k"
    by (simp_all add: row_stored_def inc)
  ultimately show "pending ?g = pending g @ [map (\<lambda>b. (map_option fixed_ref (db_ref b), v b)) (dg_rec_buffer g)]"
    using w new by (simp add: pending_def)
qed

lemma keeps_ref_current:
  assumes "db_ref b \<noteq> None"
  shows "keeps_ref s (current_value env m t) (after_current env m t s) b"
  using assms by (auto simp: keeps_ref_def after_current_def stored_def option.map_comp comp_def)

lemma current_row_again:
  "current_row env m' t' (row_stored g (after_current env m t s)) = current_row env m' t' g"
  by (simp add: current_row_def row_stored_def after_current_def stored_def option.map_comp comp_def
      current_value_def current_ref_again split: option.split)

lemma readable_again:
  "readable env m' (row_stored g (after_current env m t s)) = readable env m' g"
  by (auto simp: readable_def row_stored_def after_current_def stored_def current_ref_again)

subsection \<open>The contract of a format, and what follows\<close>

definition waiting :: "(row \<Rightarrow> bytes) \<Rightarrow> DataRecordGroup \<Rightarrow> bytes" where
  "waiting fmt g = concat (map fmt (pending g))"

definition record_log :: "(row \<Rightarrow> bytes) \<Rightarrow> DataRecordGroup \<Rightarrow> bytes" where
  "record_log fmt g = dg_file g @ waiting fmt g"

text \<open>What the derived class writes for a record is a function of the row.\<close>

locale row_format =
  fixes env :: RecordEnv and fmt :: "row \<Rightarrow> bytes"
  assumes write_row: "re_write env g s = fmt (row_at g s)"
begin

lemma write_rows_all:
  assumes "dg_writer_num g \<le> dg_buffer_num g" and "dg_buffer_num g < 2 ^ 32" and "0 < dg_max_num g"
  shows "write_rows env (dg_buffer_num g) g = Some (Inr (), g\<lparr>dg_file := record_log fmt g,
    dg_total_bytes_written := dg_total_bytes_written g + length (waiting fmt g), dg_writer_num := dg_buffer_num g\<rparr>)"
  using assms
proof (induction "dg_buffer_num g - dg_writer_num g" arbitrary: g)
  case 0
  then show ?case by (subst write_rows.simps) (simp add: record_log_def waiting_def pending_def)
next
  case (Suc n)
  let ?b = "fmt (row_at g (dg_writer_num g mod dg_max_num g))"
  let ?g = "g\<lparr>dg_file := dg_file g @ ?b, dg_total_bytes_written := dg_total_bytes_written g + length ?b,
              dg_writer_num := Suc (dg_writer_num g)\<rparr>"
  have w: "dg_writer_num g < dg_buffer_num g" "dg_writer_num g < 4294967295" using Suc.hyps(2) Suc.prems(2) by auto
  have "waiting fmt g = ?b @ waiting fmt ?g"
    using w(1) by (simp add: waiting_def pending_def upt_conv_Cons row_at_def)
  moreover have "write_rows env (dg_buffer_num ?g) ?g = Some (Inr (), ?g\<lparr>dg_file := record_log fmt ?g,
      dg_total_bytes_written := dg_total_bytes_written ?g + length (waiting fmt ?g), dg_writer_num := dg_buffer_num ?g\<rparr>)"
    using Suc by (intro Suc.hyps(1)) auto
  ultimately show ?case using w Suc.prems by (subst write_rows.simps) (simp add: write_row record_log_def Let_def)
qed

lemma warned_update:
  "(if \<not> dg_max_size_warning (g\<lparr>dg_file := f, dg_total_bytes_written := n, dg_writer_num := k\<rparr>) \<and>
       dg_max_file_size (g\<lparr>dg_file := f, dg_total_bytes_written := n, dg_writer_num := k\<rparr>)
         < dg_total_bytes_written (g\<lparr>dg_file := f, dg_total_bytes_written := n, dg_writer_num := k\<rparr>)
    then g\<lparr>dg_file := f, dg_total_bytes_written := n, dg_writer_num := k, dg_max_size_warning := True\<rparr>
    else g\<lparr>dg_file := f, dg_total_bytes_written := n, dg_writer_num := k\<rparr>)
   = g\<lparr>dg_file := f, dg_total_bytes_written := n, dg_writer_num := k,
       dg_max_size_warning := (dg_max_size_warning g \<or> dg_max_file_size g < n)\<rparr>"
  by (cases g) simp

lemma write_data_flushes:
  assumes "wf_group g" and "dg_total_bytes_written g \<le> dg_max_file_size g"
  shows "\<exists>warned. write_data env True g = Some (Inr 0, g\<lparr>dg_file := record_log fmt g,
    dg_total_bytes_written := dg_total_bytes_written g + length (waiting fmt g), dg_writer_num := dg_buffer_num g,
    dg_max_size_warning := warned\<rparr>)"
proof -
  let ?k = "dg_buffer_num g" and ?w = "dg_writer_num g" and ?M = "dg_max_num g"
  have w: "?w \<le> ?k" "?k < 2 ^ 32" "0 < ?M" "?k - ?w < ?M" "dg_record g" "dg_inited g"
    using assms(1) by (auto simp: wf_group_def)
  have s: "sub_u32 ?k ?w = ?k - ?w" "sub_u32 ?k (?k - ?w) = ?w" "\<not> ?M < ?k - ?w"
    using w sub_u32_le [of ?w ?k] sub_u32_le [of "?k - ?w" ?k] by auto
  have "write_data env True g = andthen (write_rows env ?k g) (\<lambda>_ g1. Some (Inr 0,
      if \<not> dg_max_size_warning g1 \<and> dg_max_file_size g1 < dg_total_bytes_written g1
      then g1\<lparr>dg_max_size_warning := True\<rparr> else g1))"
    using w(5,6) assms(2) by (simp add: write_data_def Let_def s)
  also have "\<dots> = Some (Inr 0, g\<lparr>dg_file := record_log fmt g,
    dg_total_bytes_written := dg_total_bytes_written g + length (waiting fmt g), dg_writer_num := ?k,
    dg_max_size_warning := (dg_max_size_warning g \<or> dg_max_file_size g < dg_total_bytes_written g + length (waiting fmt g))\<rparr>)"
    unfolding write_rows_all [OF w(1-3)] andthen_simps warned_update ..
  finally show ?thesis by blast
qed

end

subsection \<open>Any sequence of recordings and writes\<close>

datatype record_op = Record memory rat | Write bool

definition run_op :: "RecordEnv \<Rightarrow> record_op \<Rightarrow> DataRecordGroup \<Rightarrow> (unit, DataRecordGroup) result" where
  "run_op env op g =
     (case op of
        Record m t \<Rightarrow> record_values env m t g
      | Write must_write \<Rightarrow> andthen (write_data env must_write g) (\<lambda>_ g1. Some (Inr (), g1)))"

fun run_ops :: "RecordEnv \<Rightarrow> record_op list \<Rightarrow> DataRecordGroup \<Rightarrow> (unit, DataRecordGroup) result" where
  "run_ops env [] g = Some (Inr (), g)"
| "run_ops env (op # ops) g = andthen (run_op env op g) (\<lambda>_. run_ops env ops)"

text \<open>The rows that the recordings stand for.\<close>

definition op_rows :: "RecordEnv \<Rightarrow> DataRecordGroup \<Rightarrow> record_op \<Rightarrow> row list" where
  "op_rows env g op = (case op of Record m t \<Rightarrow> [current_row env m t g] | Write _ \<Rightarrow> [])"

definition op_readable :: "RecordEnv \<Rightarrow> DataRecordGroup \<Rightarrow> record_op \<Rightarrow> bool" where
  "op_readable env g op = (case op of Record m t \<Rightarrow> readable env m g | Write _ \<Rightarrow> True)"

text \<open>What an operation keeps: the settings, the variables, and the bytes written and waiting.\<close>

definition keeps_group :: "(row \<Rightarrow> bytes) \<Rightarrow> RecordEnv \<Rightarrow> row list \<Rightarrow> DataRecordGroup \<Rightarrow> DataRecordGroup \<Rightarrow> bool" where
  "keeps_group fmt env rows g g' \<longleftrightarrow>
     wf_group g' \<and> dg_freq g' = dg_freq g \<and> dg_max_file_size g' = dg_max_file_size g \<and>
     record_log fmt g' = record_log fmt g @ concat (map fmt rows) \<and>
     dg_total_bytes_written g' + length (waiting fmt g')
       = dg_total_bytes_written g + length (waiting fmt g) + length (concat (map fmt rows)) \<and>
     dg_buffer_num g' = dg_buffer_num g + length rows \<and>
     (\<forall>m t. current_row env m t g' = current_row env m t g) \<and> (\<forall>m. readable env m g' = readable env m g)"

context row_format
begin

lemma write_keeps:
  assumes "wf_group g" and "dg_total_bytes_written g \<le> dg_max_file_size g"
  shows "\<exists>g'. write_data env True g = Some (Inr 0, g') \<and> keeps_group fmt env [] g g' \<and>
    dg_writer_num g' = dg_buffer_num g' \<and> dg_max_num g' = dg_max_num g"
  using write_data_flushes [OF assms] assms(1)
  by (auto simp: keeps_group_def wf_group_def record_log_def waiting_def pending_def current_row_def readable_def)

lemma write_any_keeps:
  assumes "wf_group g" and "dg_total_bytes_written g \<le> dg_max_file_size g"
  shows "\<exists>g'. write_data env must g = Some (Inr 0, g') \<and> keeps_group fmt env [] g g'"
proof (cases "dg_buffer_type g = DR_No_Buffer \<or> must")
  case True
  then have "write_data env must g = write_data env True g" by (auto simp: write_data_def)
  then show ?thesis using write_keeps [OF assms] by auto
next
  case False
  then show ?thesis using assms(1) by (auto simp: write_data_def keeps_group_def)
qed

lemma make_room_keeps:
  assumes "wf_group g" and "dg_total_bytes_written g \<le> dg_max_file_size g"
  shows "\<exists>g'. make_room env g = Some (Inr 0, g') \<and> keeps_group fmt env [] g g' \<and>
    dg_buffer_num g' - dg_writer_num g' + 2 < dg_max_num g'"
proof -
  have M: "2 < dg_max_num g" "sub_u32 (dg_max_num g) 2 = dg_max_num g - 2"
    "sub_u32 (dg_buffer_num g) (dg_writer_num g) = dg_buffer_num g - dg_writer_num g"
    using assms(1) by (auto simp: wf_group_def sub_u32_le)
  show ?thesis
  proof (cases "dg_max_num g - 2 \<le> dg_buffer_num g - dg_writer_num g")
    case True
    then show ?thesis using write_keeps [OF assms] assms(1) M by (auto simp: make_room_def wf_group_def)
  next
    case False
    then have "dg_buffer_num g - dg_writer_num g + 2 < dg_max_num g" using M(1) by arith
    then show ?thesis using False assms(1) M by (auto simp: make_room_def keeps_group_def)
  qed
qed

lemma record_keeps:
  assumes "wf_group g" and "dg_freq g = DR_Always" and "dg_total_bytes_written g \<le> dg_max_file_size g"
    and "readable env m g" and "dg_buffer_num g + 1 < 2 ^ 32"
  shows "\<exists>g'. record_values env m t g = Some (Inr (), g') \<and> keeps_group fmt env [current_row env m t g] g g'"
proof -
  obtain g1 where g1: "make_room env g = Some (Inr 0, g1)" "keeps_group fmt env [] g g1"
      "dg_buffer_num g1 - dg_writer_num g1 + 2 < dg_max_num g1"
    using make_room_keeps [OF assms(1,3)] by blast
  define g2 where "g2 = g1\<lparr>dg_curr_time := t\<rparr>"
  have k2: "keeps_group fmt env [] g g2" "dg_buffer_num g2 - dg_writer_num g2 + 1 < dg_max_num g2"
    using g1(2,3) by (auto simp: g2_def keeps_group_def wf_group_def record_log_def waiting_def pending_def row_at_def
        current_row_def readable_def)
  let ?s = "dg_buffer_num g2 mod dg_max_num g2"
  let ?h = "after_current env m t ?s"
  have wf: "wf_group g2" and M: "0 < dg_max_num g2" using k2 by (auto simp: keeps_group_def wf_group_def)
  have b: "\<forall>b \<in> set (dg_rec_buffer g2). store_current env m t ?s b = Inr (?h b) \<and> keeps_ref ?s (current_value env m t) ?h b"
  proof
    fix b assume b: "b \<in> set (dg_rec_buffer g2)"
    have w: "wf_buffer (dg_max_num g2) (dg_buffer_num g2) b" using wf b by (auto simp: wf_group_def)
    have "readable env m g2" using k2(1) assms(4) by (simp add: keeps_group_def)
    then have "rf_address (current_ref env m r) \<noteq> Mem 0" if "db_ref b = Some r" for r
      using b that by (auto simp: readable_def)
    then show "store_current env m t ?s b = Inr (?h b) \<and> keeps_ref ?s (current_value env m t) ?h b"
      using store_current_stored [OF w M] keeps_ref_current w by (auto simp: wf_buffer_def)
  qed
  have n: "dg_buffer_num g2 + 1 < 2 ^ 32" using k2(1) assms(5) by (simp add: keeps_group_def)
  have row: "map (\<lambda>b. (map_option fixed_ref (db_ref b), current_value env m t b)) (dg_rec_buffer g2) = current_row env m t g"
    using k2(1) by (simp add: keeps_group_def current_row_def [symmetric])
  have p: "wf_group (row_stored g2 ?h)" "pending (row_stored g2 ?h) = pending g2 @ [current_row env m t g]"
    using row_appended [OF wf k2(2) n, of "current_value env m t" ?h] b row by simp_all
  have "record_row (store_current env m t) g2 = Some (Inr (), row_stored g2 ?h)"
    using record_row_stored [OF wf] b by blast
  then have "record_values env m t g = Some (Inr (), row_stored g2 ?h)"
    using assms(1,2) g1 by (simp add: record_values_def look_for_change_def wf_group_def g2_def keeps_group_def)
  moreover have "keeps_group fmt env [current_row env m t g] g (row_stored g2 ?h)"
    using k2(1) p n by (simp add: keeps_group_def waiting_def record_log_def current_row_again readable_again row_stored_fields)
  ultimately show ?thesis by blast
qed

lemma keeps_trans:
  "keeps_group fmt env rs g g1 \<Longrightarrow> keeps_group fmt env rs' g1 g2 \<Longrightarrow> keeps_group fmt env (rs @ rs') g g2"
  by (simp add: keeps_group_def)

lemma run_keeps:
  assumes "wf_group g" and "dg_freq g = DR_Always" and "\<forall>op \<in> set ops. op_readable env g op"
    and "dg_buffer_num g + length ops < 2 ^ 32"
    and "dg_total_bytes_written g + length (waiting fmt g)
      + length (concat (map fmt (concat (map (op_rows env g) ops)))) \<le> dg_max_file_size g"
  shows "\<exists>g'. run_ops env ops g = Some (Inr (), g') \<and> keeps_group fmt env (concat (map (op_rows env g) ops)) g g'"
  using assms
proof (induction ops arbitrary: g)
  case Nil
  then show ?case by (simp add: keeps_group_def)
next
  case (Cons op ops)
  obtain g1 where g1: "run_op env op g = Some (Inr (), g1)" "keeps_group fmt env (op_rows env g op) g g1"
  proof (cases op)
    case (Record m t)
    have "dg_total_bytes_written g \<le> dg_max_file_size g" "dg_buffer_num g + 1 < 2 ^ 32" "readable env m g"
      using Cons.prems(3-5) Record by (simp_all add: op_readable_def)
    then show ?thesis using that record_keeps [of g m t] Cons.prems(1,2) by (auto simp: Record run_op_def op_rows_def)
  next
    case (Write must)
    have "dg_total_bytes_written g \<le> dg_max_file_size g" using Cons.prems(5) by simp
    then obtain g1 where "write_data env must g = Some (Inr 0, g1)" "keeps_group fmt env [] g g1"
      using write_any_keeps Cons.prems(1) by blast
    then show ?thesis using that [of g1] by (simp add: Write run_op_def op_rows_def)
  qed
  have same: "op_rows env g1 = op_rows env g" "op_readable env g1 = op_readable env g"
    using g1(2) by (auto simp: fun_eq_iff keeps_group_def op_rows_def op_readable_def split: record_op.splits)
  have l: "length (op_rows env g op) \<le> 1" by (cases op) (simp_all add: op_rows_def)
  have "\<exists>g'. run_ops env ops g1 = Some (Inr (), g') \<and> keeps_group fmt env (concat (map (op_rows env g1) ops)) g1 g'"
    using g1(2) Cons.prems l by (intro Cons.IH) (auto simp: same keeps_group_def)
  then obtain g' where "run_ops env ops g1 = Some (Inr (), g')"
      "keeps_group fmt env (concat (map (op_rows env g) ops)) g1 g'" by (auto simp: same)
  then show ?case using g1 keeps_trans [OF g1(2)] by simp
qed

end

end
