(* ===== verification/DataRecordJobs.thy ===== *)
theory DataRecordJobs
  imports DataRecord ExecTime
begin

text \<open>
  The jobs of a data recording group and the dispatcher that holds the groups
  (sim\_services/DataRecord/DataRecordGroup.cpp, DataRecordDispatcher.cpp). A group is a simulation
  object, so its pointer is that of the object; its state is part of the world of the executive.
  Creating and removing files, the heading of a log and the writer thread itself are left out; the
  thread is taken up in the theory of its steps.
\<close>

record DataRecordDispatcher =
  dd_groups :: "so_ptr list"
  dd_thread_started :: bool
  dd_cancelled :: bool
  dd_verify_log_vars :: bool
  dd_warning_level :: int

record 'u DrWorld =
  dw_groups :: "so_ptr \<rightharpoonup> DataRecordGroup"
  dw_mem :: memory
  dw_drd :: DataRecordDispatcher
  dw_user :: 'u

type_synonym 'u dr_sim = "'u DrWorld Executive"

definition drd :: "'u dr_sim \<Rightarrow> DataRecordDispatcher" where
  "drd e = dw_drd (ex_world e)"

definition map_drd :: "(DataRecordDispatcher \<Rightarrow> DataRecordDispatcher) \<Rightarrow> 'u dr_sim \<Rightarrow> 'u dr_sim" where
  "map_drd f e = e\<lparr>ex_world := (ex_world e)\<lparr>dw_drd := f (dw_drd (ex_world e))\<rparr>\<rparr>"

definition group :: "'u dr_sim \<Rightarrow> so_ptr \<Rightarrow> DataRecordGroup" where
  "group e p = the (dw_groups (ex_world e) p)"

definition put_group :: "so_ptr \<Rightarrow> DataRecordGroup \<Rightarrow> 'u dr_sim \<Rightarrow> 'u dr_sim" where
  "put_group p g e = e\<lparr>ex_world := (ex_world e)\<lparr>dw_groups := (dw_groups (ex_world e))(p \<mapsto> g)\<rparr>\<rparr>"

definition map_group :: "so_ptr \<Rightarrow> (DataRecordGroup \<Rightarrow> DataRecordGroup) \<Rightarrow> 'u dr_sim \<Rightarrow> 'u dr_sim" where
  "map_group p f e = put_group p (f (group e p)) e"

definition on_group :: "so_ptr \<Rightarrow> (DataRecordGroup \<Rightarrow> ('a, DataRecordGroup) result) \<Rightarrow> 'u dr_sim
    \<Rightarrow> ('a, 'u dr_sim) result" where
  "on_group p f e = map_option (\<lambda>(v, g). (v, put_group p g e)) (f (group e p))"

subsection \<open>The constructor\<close>

definition new_DataRecordGroup :: "string \<Rightarrow> LoggingCycle \<Rightarrow> job_ptr \<Rightarrow> DataRecordGroup" where
  "new_DataRecordGroup in_name rate write_job =
     add_time_variable
     \<lparr>dg_record = True, dg_inited = False, dg_group_name = in_name, dg_freq = DR_Always,
      dg_cycle = rnd64 (1 / 10), dg_variable_names = [], dg_variable_alias = [], dg_rec_buffer = [],
      dg_change_variable_names = [], dg_change_variable_alias = [], dg_change_buffer = [],
      dg_max_num = 100000, dg_buffer_num = 0, dg_writer_num = 0, dg_max_file_size = 2 ^ 30,
      dg_total_bytes_written = 0, dg_max_size_warning = False, dg_single_prec_only = False,
      dg_buffer_type = DR_Buffer, dg_job_class = ''data_record'', dg_logging_rates = [rate],
      dg_curr_time = 0, dg_write_job = write_job, dg_file = []\<rparr>"

definition group_add_job :: "so_ptr \<Rightarrow> job_ptr \<Rightarrow> int \<Rightarrow> string \<Rightarrow> rat \<Rightarrow> string \<Rightarrow> nat \<Rightarrow> 'u dr_sim \<Rightarrow> 'u dr_sim" where
  "group_add_job p j job_id cls cycle nm phase e =
     (let (so, h) = SimObject_add_job j 0 job_id cls cycle nm ''TRK'' phase 0 (rnd64 (10 ^ 37))
                      (ex_sim_objs e p) (ex_jobs e)
      in e\<lparr>ex_sim_objs := (ex_sim_objs e)(p := so), ex_jobs := h\<rparr>)"

text \<open>The seven jobs; the addresses of the new ones are an argument. The frame log has no restart job.\<close>

definition configure_jobs :: "so_ptr \<Rightarrow> bool \<Rightarrow> (nat \<Rightarrow> job_ptr) \<Rightarrow> string \<Rightarrow> rat \<Rightarrow> 'u dr_sim \<Rightarrow> 'u dr_sim" where
  "configure_jobs p framelog fresh job_class cycle e =
     (let e0 = (if framelog then e else group_add_job p (fresh 4) 4 ''restart'' 1 ''restart'' 60001 e);
          e1 = group_add_job p (fresh 0) 0 ''initialization'' cycle ''init'' 65534 e0;
          e2 = group_add_job p (fresh 1) 1 ''end_of_frame'' 1 ''write_data'' 60000 e1;
          e3 = group_add_job p (fresh 2) 2 ''checkpoint'' 1 ''checkpoint'' 60000 e2;
          e4 = group_add_job p (fresh 3) 3 ''post_checkpoint'' 1 ''clear_checkpoint_vars'' 60000 e3;
          e5 = group_add_job p (fresh 5) 5 ''shutdown'' 1 ''shutdown'' 60000 e4;
          e6 = group_add_job p (fresh 6) 6 job_class cycle ''data_record'' 60000 e5
      in map_job (fresh 6) (set_system_job_class True) e6)"

definition construct_group :: "so_ptr \<Rightarrow> string \<Rightarrow> bool \<Rightarrow> (nat \<Rightarrow> job_ptr) \<Rightarrow> nat option \<Rightarrow> 'u dr_sim
    \<Rightarrow> abort + 'u dr_sim" where
  "construct_group p in_name framelog fresh self e =
     (let e1 = e\<lparr>ex_sim_objs := (ex_sim_objs e)(p := (ex_sim_objs e p)
                   \<lparr>so_name := ''trick_data_record_group_'' @ in_name\<rparr>)\<rparr>;
          e2 = configure_jobs p framelog fresh ''data_record'' (rnd64 (1 / 10)) e1
      in case set_rate (get_time_tics self e) (ex_time_tic_value e) (rnd64 (1 / 10)) of
           Inl a \<Rightarrow> Inl a
         | Inr r \<Rightarrow> Inr (put_group p (new_DataRecordGroup in_name r (fresh 6)) e2))"

subsection \<open>Settings of a group\<close>

definition group_set_cycle :: "so_ptr \<Rightarrow> nat option \<Rightarrow> rat \<Rightarrow> 'u dr_sim \<Rightarrow> (int, 'u dr_sim) result" where
  "group_set_cycle p self in_cycle e =
     (case dg_logging_rates (group e p) of
        [] \<Rightarrow> Some (Inl (Undefined ''logging_rates[0]''), e)
      | r # rs \<Rightarrow>
          (case set_rate (get_time_tics self e) (ex_time_tic_value e) in_cycle of
             Inl a \<Rightarrow> Some (Inl a, e)
           | Inr r1 \<Rightarrow> Some (Inr 0, map_job (dg_write_job (group e p)) (JobData_set_cycle (ex_time_tic_value e) in_cycle)
                        (map_group p (\<lambda>g. g\<lparr>dg_logging_rates := r1 # rs\<rparr>) e))))"

definition add_cycle :: "so_ptr \<Rightarrow> nat option \<Rightarrow> rat \<Rightarrow> 'u dr_sim \<Rightarrow> (int, 'u dr_sim) result" where
  "add_cycle p self in_cycle e =
     (case set_rate (get_time_tics self e) (ex_time_tic_value e) in_cycle of
        Inl a \<Rightarrow> Some (Inl a, e)
      | Inr r \<Rightarrow> Some (Inr 0, map_group p (\<lambda>g. g\<lparr>dg_logging_rates := dg_logging_rates g @ [r]\<rparr>) e))"

definition group_set_phase :: "so_ptr \<Rightarrow> nat \<Rightarrow> 'u dr_sim \<Rightarrow> 'u dr_sim" where
  "group_set_phase p in_phase e = map_job (dg_write_job (group e p)) (\<lambda>j. j\<lparr>jd_phase := in_phase\<rparr>) e"

definition group_set_thread :: "so_ptr \<Rightarrow> nat \<Rightarrow> 'u dr_sim \<Rightarrow> 'u dr_sim" where
  "group_set_thread p in_thread_id e =
     e\<lparr>ex_jobs := update_jobs (\<lambda>j. j\<lparr>jd_thread := in_thread_id\<rparr>) (so_jobs (ex_sim_objs e p)) (ex_jobs e)\<rparr>"

definition group_set_job_class :: "so_ptr \<Rightarrow> string \<Rightarrow> 'u dr_sim \<Rightarrow> 'u dr_sim" where
  "group_set_job_class p in_class e =
     map_job (dg_write_job (group e p)) (\<lambda>j. j\<lparr>jd_job_class_name := in_class\<rparr>)
       (map_group p (\<lambda>g. g\<lparr>dg_job_class := in_class\<rparr>) e)"

subsection \<open>Initialization\<close>

text \<open>A variable with its buffers allocated; \<open>None\<close> for one that is not found or not supported.\<close>

definition prepare_buffer :: "RecordEnv \<Rightarrow> nat \<Rightarrow> DataRecordBuffer \<Rightarrow> DataRecordBuffer option" where
  "prepare_buffer env max_num drb =
     (let found = (if db_ref_searched drb then db_ref drb
                   else case re_ref_attributes env (db_name drb) of
                          None \<Rightarrow> None
                        | Some r \<Rightarrow> if isSupportedType r then Some r else None)
      in case found of
           None \<Rightarrow> None
         | Some r \<Rightarrow>
             (let r1 = (if db_alias drb \<noteq> [] then r\<lparr>rf_reference := db_alias drb\<rparr> else r);
                  elem_size = effective_trick_size r1
              in Some (drb\<lparr>db_ref := Some r1, db_last_value := Some (zero_bytes elem_size),
                   db_buffer := replicate max_num (zero_bytes elem_size), db_ref_searched := True\<rparr>)))"

definition prepare_time :: "nat \<Rightarrow> DataRecordBuffer \<Rightarrow> abort + DataRecordBuffer" where
  "prepare_time max_num drb =
     (case db_ref drb of
        None \<Rightarrow> Inl (Undefined ''NULL ref'')
      | Some r \<Rightarrow> Inr (drb\<lparr>db_buffer := replicate max_num (zero_bytes (at_size (rf_attr r))),
                        db_last_value := Some (zero_bytes (at_size (rf_attr r)))\<rparr>))"

text \<open>The checks of the rates; an unachievable one is reported, and every one is set again.\<close>

definition unachievable :: "int \<Rightarrow> rat \<Rightarrow> bool" where
  "unachievable tic_value logging_rate =
     (let x = dmul logging_rate (dbl tic_value)
      in logging_rate < ddiv 1 (dbl tic_value) \<or> rnd64 (1 / 1000) < x - of_int (c_trunc x))"

fun init_rates :: "int \<Rightarrow> int \<Rightarrow> LoggingCycle list \<Rightarrow> int \<Rightarrow> abort + int \<times> LoggingCycle list" where
  "init_rates curr_tics tic_value [] ret = Inr (ret, [])"
| "init_rates curr_tics tic_value (r # rs) ret =
     (let logging_rate = lc_rate_in_seconds r;
          ret1 = (if unachievable tic_value logging_rate then -1 else ret)
      in case set_rate curr_tics tic_value logging_rate of
           Inl a \<Rightarrow> Inl a
         | Inr r1 \<Rightarrow> (case init_rates curr_tics tic_value rs ret1 of
                        Inl a \<Rightarrow> Inl a | Inr (ret2, rs1) \<Rightarrow> Inr (ret2, r1 # rs1)))"

definition schedule_write :: "int \<Rightarrow> int \<Rightarrow> int \<Rightarrow> JobData \<Rightarrow> JobData" where
  "schedule_write tic_value next_tics cycle_tics j =
     j\<lparr>jd_next_tics := next_tics, jd_cycle_tics := cycle_tics, jd_cycle := ddiv (dbl cycle_tics) (dbl tic_value)\<rparr>"

definition group_format_init :: "RecordEnv \<Rightarrow> DataRecordGroup \<Rightarrow> int \<times> DataRecordGroup" where
  "group_format_init env g =
     (let (ret, header) = re_init env g
      in (ret, g\<lparr>dg_record := (dg_record g \<and> ret \<noteq> -1), dg_file := header,
                 dg_total_bytes_written := length header\<rparr>))"

definition group_buffers_init :: "RecordEnv \<Rightarrow> DataRecordGroup \<Rightarrow> abort + DataRecordGroup" where
  "group_buffers_init env g =
     (case dg_rec_buffer g of
        [] \<Rightarrow> Inl (Undefined ''rec_buffer[0]'')
      | b # bs \<Rightarrow>
          (case prepare_time (dg_max_num g) b of
             Inl a \<Rightarrow> Inl a
           | Inr b1 \<Rightarrow> Inr (g\<lparr>dg_buffer_num := 0, dg_writer_num := 0, dg_total_bytes_written := 0,
                           dg_rec_buffer := b1 # List.map_filter (prepare_buffer env (dg_max_num g)) bs\<rparr>)))"

definition group_init :: "RecordEnv \<Rightarrow> so_ptr \<Rightarrow> nat option \<Rightarrow> bool \<Rightarrow> 'u dr_sim \<Rightarrow> (int, 'u dr_sim) result" where
  "group_init env p self is_restart e =
     (case group_buffers_init env (group e p) of
        Inl a \<Rightarrow> Some (Inl a, e)
      | Inr g1 \<Rightarrow>
          (let (ret, g2) = group_format_init env g1; curr_tics = get_time_tics self e; tic_value = ex_time_tic_value e
           in if is_restart
              then Some (Inr 0, put_group p (g2\<lparr>dg_inited := (dg_inited g2 \<or> ret = 0)\<rparr>) e)
              else (case init_rates curr_tics tic_value (dg_logging_rates g2) ret of
                      Inl a \<Rightarrow> Some (Inl a, put_group p g2 e)
                    | Inr (ret1, rates) \<Rightarrow> Some (Inr 0,
                        map_job (dg_write_job g2) (schedule_write tic_value curr_tics
                            (calculate_next_logging_tic curr_tics rates - curr_tics))
                          (put_group p (g2\<lparr>dg_logging_rates := rates, dg_inited := (dg_inited g2 \<or> ret1 = 0)\<rparr>) e)))))"

subsection \<open>The job that records\<close>

definition reschedule_write :: "so_ptr \<Rightarrow> rat \<Rightarrow> 'u dr_sim \<Rightarrow> (int, 'u dr_sim) result" where
  "reschedule_write p in_time e =
     (let g = group e p; tic_value = ex_time_tic_value e; curr_tics = c_round (dmul in_time (dbl tic_value))
      in case advance_log_tics_given_curr_tic curr_tics (dg_logging_rates g) of
           None \<Rightarrow> None
         | Some rates \<Rightarrow>
             (let next = calculate_next_logging_tic curr_tics rates
              in Some (Inr 0, map_job (dg_write_job g) (schedule_write tic_value next (next - curr_tics))
                   (put_group p (g\<lparr>dg_logging_rates := rates\<rparr>) e))))"

definition data_record :: "RecordEnv \<Rightarrow> so_ptr \<Rightarrow> rat \<Rightarrow> 'u dr_sim \<Rightarrow> (int, 'u dr_sim) result" where
  "data_record env p in_time e =
     andthen (on_group p (record_values env (dw_mem (ex_world e)) in_time) e)
       (\<lambda>_. reschedule_write p in_time)"

subsection \<open>Checkpoint, restart, shutdown\<close>

definition clear_checkpoint_vars :: "DataRecordGroup \<Rightarrow> DataRecordGroup" where
  "clear_checkpoint_vars g =
     g\<lparr>dg_variable_names := [], dg_variable_alias := [], dg_change_variable_names := [],
       dg_change_variable_alias := []\<rparr>"

definition group_checkpoint :: "DataRecordGroup \<Rightarrow> DataRecordGroup" where
  "group_checkpoint g =
     (let vars = tl (dg_rec_buffer g);
          g1 = (if 1 < length (dg_rec_buffer g)
                then g\<lparr>dg_variable_names := map db_name vars, dg_variable_alias := map db_alias vars\<rparr> else g)
      in if dg_change_buffer g1 \<noteq> []
         then g1\<lparr>dg_change_variable_names := map db_name (dg_change_buffer g1),
                 dg_change_variable_alias := map db_alias (dg_change_buffer g1)\<rparr> else g1)"

fun add_change_variables :: "RecordEnv \<Rightarrow> memory \<Rightarrow> string list \<Rightarrow> DataRecordGroup
    \<Rightarrow> (unit, DataRecordGroup) result" where
  "add_change_variables env m [] g = Some (Inr (), g)"
| "add_change_variables env m (n # ns) g =
     andthen (add_change_variable env m n g) (\<lambda>_. add_change_variables env m ns)"

definition restore_variables :: "RecordEnv \<Rightarrow> memory \<Rightarrow> DataRecordGroup \<Rightarrow> (unit, DataRecordGroup) result" where
  "restore_variables env m g =
     (let g1 = add_time_variable (g\<lparr>dg_rec_buffer := [], dg_change_buffer := []\<rparr>);
          g2 = fold (\<lambda>(n, a). add_variable n a) (zip (dg_variable_names g1) (dg_variable_alias g1)) g1
      in andthen (add_change_variables env m (dg_change_variable_names g2) g2)
           (\<lambda>_ g3. Some (Inr (), clear_checkpoint_vars g3)))"

definition group_restart :: "RecordEnv \<Rightarrow> so_ptr \<Rightarrow> nat option \<Rightarrow> 'u dr_sim \<Rightarrow> (int, 'u dr_sim) result" where
  "group_restart env p self e =
     andthen (on_group p (restore_variables env (dw_mem (ex_world e))) e)
       (\<lambda>_ e1.
          let e2 = map_job (dg_write_job (group e1 p)) (\<lambda>j. j\<lparr>jd_job_class_name := dg_job_class (group e1 p)\<rparr>) e1;
              e3 = e2\<lparr>ex_sim_objs := (ex_sim_objs e2)(p := (ex_sim_objs e2 p)
                      \<lparr>so_name := ''data_record_group_'' @ dg_group_name (group e2 p)\<rparr>)\<rparr>
          in andthen (group_init env p self True e3) (\<lambda>_ e4. Some (Inr 0, e4)))"

definition group_call_function :: "RecordEnv \<Rightarrow> so_ptr \<Rightarrow> nat option \<Rightarrow> int \<Rightarrow> 'u dr_sim \<Rightarrow> (int, 'u dr_sim) result" where
  "group_call_function env p self job_id e =
     (if job_id = 0 then group_init env p self False e
      else if job_id = 1 then on_group p (write_data env False) e
      else if job_id = 2 then Some (Inr 0, map_group p group_checkpoint e)
      else if job_id = 3 then Some (Inr 0, map_group p clear_checkpoint_vars e)
      else if job_id = 4 then group_restart env p self e
      else if job_id = 5 then on_group p (group_shutdown env) e
      else if job_id = 6 then
        (case get_sim_time self e of Inl a \<Rightarrow> Some (Inl a, e) | Inr t \<Rightarrow> data_record env p t e)
      else Some (Inr (-1), e))"

end
