(* ===== verification/PropsRecord.thy ===== *)
theory PropsRecord
  imports RecordRefine DataRecordJobs
begin

text \<open>
  Properties of data recording: no recorded row is lost, whatever the order of recordings and writes;
  the job that records is due at the least next cycle of its rates.
\<close>

subsection \<open>The binary format is a row format\<close>

definition DRBinary_fmt :: "bool \<Rightarrow> bytes \<Rightarrow> row \<Rightarrow> bytes" where
  "DRBinary_fmt big_endian writer_buff xs =
     DRBinary_items big_endian 0 writer_buff
       (map (\<lambda>(r, v). new_DataRecordBuffer\<lparr>db_ref := r, db_buffer := [v]\<rparr>) xs)"

lemma DRBinary_item_fixed: "DRBinary_item be old (fixed_ref r) v = DRBinary_item be old r v"
  by (simp add: DRBinary_item_def fixed_ref_def)

lemma DRBinary_items_row:
  "DRBinary_items be s wb bs = DRBinary_fmt be wb (map (\<lambda>b. (map_option fixed_ref (db_ref b), db_buffer b ! s)) bs)"
proof (induction bs arbitrary: wb)
  case (Cons b bs)
  then show ?case
    by (cases "db_ref b") (simp_all add: DRBinary_fmt_def DRBinary_item_fixed, simp_all add: fixed_ref_def)
qed (simp add: DRBinary_fmt_def)

interpretation binary: row_format "DRBinary_env be created wb search fd" "DRBinary_fmt be wb"
  for be created wb search fd
  by unfold_locales (simp add: DRBinary_env_def DRBinary_write_def row_at_def DRBinary_items_row)

text \<open>
  C18: No row is lost. From any state of an initialized group that writes its buffer out, any sequence
  of recordings and writes (those of the writer thread between two recordings) runs to its end, and
  after \<open>shutdown\<close> the file holds what it held, the rows that waited, and the new rows, each once and
  in order, as long as the file stays under its limit.
\<close>

theorem recording_loses_nothing:
  assumes "env = DRBinary_env be created wb search fd" and "wf_group g" and "dg_freq g = DR_Always"
    and "\<forall>op \<in> set ops. op_readable env g op" and "dg_buffer_num g + length ops < 2 ^ 32"
    and "rows = concat (map (op_rows env g) ops)"
    and "dg_total_bytes_written g + length (waiting (DRBinary_fmt be wb) g)
      + length (concat (map (DRBinary_fmt be wb) rows)) \<le> dg_max_file_size g"
  shows "\<exists>g1 g2. run_ops env ops g = Some (Inr (), g1) \<and> wf_group g1 \<and>
    record_log (DRBinary_fmt be wb) g1 = record_log (DRBinary_fmt be wb) g @ concat (map (DRBinary_fmt be wb) rows) \<and>
    group_shutdown env g1 = Some (Inr 0, g2) \<and>
    dg_file g2 = dg_file g @ concat (map (DRBinary_fmt be wb) (pending g @ rows))"
proof -
  obtain g1 where g1: "run_ops env ops g = Some (Inr (), g1)" "keeps_group (DRBinary_fmt be wb) env rows g g1"
    using binary.run_keeps [of g ops be created wb search fd] assms by blast
  then have w: "wf_group g1" "dg_total_bytes_written g1 \<le> dg_max_file_size g1" "dg_record g1"
    using assms(7) by (auto simp: keeps_group_def wf_group_def)
  have "g1\<lparr>dg_record := True\<rparr> = g1" using w(3) by (cases g1) simp
  then have "\<exists>g2. group_shutdown env g1 = Some (Inr 0, g2) \<and> dg_file g2 = record_log (DRBinary_fmt be wb) g1"
    using binary.write_data_flushes [OF w(1,2), of be created wb search fd] assms(1)
    by (auto simp: group_shutdown_def remove_all_variables_def)
  then show ?thesis using g1 w(1) by (auto simp: keeps_group_def record_log_def waiting_def)
qed

subsection \<open>Rates\<close>

text \<open>The first multiple of a rate after now.\<close>

definition next_multiple :: "int \<Rightarrow> int \<Rightarrow> int" where
  "next_multiple now rate = (now div rate + 1) * rate"

definition rate_in_step :: "int \<Rightarrow> LoggingCycle \<Rightarrow> bool" where
  "rate_in_step now r \<longleftrightarrow> 0 < lc_rate_in_tics r \<and> lc_rate_in_tics r dvd lc_next_cycle_in_tics r \<and>
     lc_next_cycle_in_tics r \<le> now + lc_rate_in_tics r"

lemma next_multiple_unique:
  assumes "0 < rate" and "rate dvd t" and "now < t" and "t \<le> now + rate"
  shows "next_multiple now rate = t"
proof -
  obtain k where k: "t = rate * k" using assms(2) by blast
  have "rate * (k - 1) \<le> now" "now < rate * k" using assms(3,4) k by (simp_all add: algebra_simps)
  then have "now div rate = k - 1"
    using assms(1) by (intro int_div_pos_eq [of _ _ _ "now - rate * (k - 1)"]) (simp_all add: algebra_simps)
  then show ?thesis by (simp add: next_multiple_def k)
qed

lemma advance_cycle_next:
  assumes "0 < rate" and "rate dvd t" and "t \<le> now + rate"
  shows "advance_cycle now rate t = Some (next_multiple now rate)"
  using assms
proof (induction "nat (now + rate - t)" arbitrary: t rule: less_induct)
  case less
  show ?case
  proof (cases "t \<le> now")
    case True
    have "advance_cycle now rate (t + rate) = Some (next_multiple now rate)"
      using less.prems True by (intro less.hyps) auto
    then show ?thesis using True by (subst advance_cycle.simps) simp
  next
    case False
    then show ?thesis using less.prems next_multiple_unique [of rate t now] by (subst advance_cycle.simps) simp
  qed
qed

definition advanced :: "int \<Rightarrow> LoggingCycle \<Rightarrow> LoggingCycle" where
  "advanced now r = r\<lparr>lc_next_cycle_in_tics := next_multiple now (lc_rate_in_tics r)\<rparr>"

lemma advance_log_tics_all:
  "\<forall>r \<in> set rs. rate_in_step now r \<Longrightarrow> advance_log_tics_given_curr_tic now rs = Some (map (advanced now) rs)"
  by (induction rs) (auto simp: rate_in_step_def advance_cycle_next advanced_def)

lemma next_multiple_later: "0 < rate \<Longrightarrow> now < next_multiple now rate \<and> next_multiple now rate \<le> now + rate"
  by (simp add: next_multiple_def algebra_simps)
    (metis add.commute add_le_cancel_left minus_mod_eq_mult_div mult.commute pos_mod_bound pos_mod_sign
      diff_add_cancel add_strict_left_mono le_add_same_cancel1)

lemma fold_least:
  "fold (\<lambda>r best. if f r < best then f r else best) rs (b :: int) = Min (insert b (f ` set rs))"
proof (induction rs arbitrary: b)
  case (Cons r rs)
  have "Min (insert (if f r < b then f r else b) (f ` set rs)) = Min (insert b (insert (f r) (f ` set rs)))"
    by (cases "set rs = {}") (auto simp: min_def)
  then show ?case by (simp add: Cons.IH)
qed simp

lemma calculate_next_advanced:
  assumes "\<forall>r \<in> set rs. rate_in_step now r"
  shows "calculate_next_logging_tic now (map (advanced now) rs)
    = Min (insert TRICK_MAX_LONG_LONG ((\<lambda>r. next_multiple now (lc_rate_in_tics r)) ` set rs))"
proof -
  have n: "lc_next_cycle_in_tics (advanced now r) = next_multiple now (lc_rate_in_tics r)"
      "next_multiple now (lc_rate_in_tics r) \<noteq> now" if "r \<in> set rs" for r
    using assms that next_multiple_later [of "lc_rate_in_tics r" now] by (auto simp: advanced_def rate_in_step_def)
  have "calculate_next_logging_tic now (map (advanced now) rs)
      = fold (\<lambda>r best. if next_multiple now (lc_rate_in_tics r) < best then next_multiple now (lc_rate_in_tics r) else best)
          rs TRICK_MAX_LONG_LONG"
    unfolding calculate_next_logging_tic_def fold_map comp_def
    by (rule fold_cong) (auto simp: n Let_def fun_eq_iff)
  then show ?thesis by (simp add: fold_least)
qed

text \<open>
  A rate of less than half a tic is a division by zero as soon as it is set, before the check of
  \<open>init\<close> can report it; otherwise the first cycle is the least multiple from now on, but at a
  negative time, where the division truncates towards zero, a multiple that is still to come can be
  passed over.
\<close>

lemma set_rate_no_tics:
  "c_round (dmul rate (dbl tic_value)) = 0 \<Longrightarrow> set_rate now tic_value rate = Inl (Undefined ''curr_tic % 0'')"
  by (simp add: set_rate_def)

lemma set_rate_in_step:
  assumes "c_round (dmul rate (dbl tic_value)) = cycle_tics" and "0 < cycle_tics" and "0 \<le> now"
  shows "\<exists>r. set_rate now tic_value rate = Inr r \<and> rate_in_step now r \<and>
    lc_rate_in_tics r = cycle_tics \<and> now \<le> lc_next_cycle_in_tics r \<and> lc_next_cycle_in_tics r < now + cycle_tics"
proof -
  have m: "now sdiv cycle_tics = now div cycle_tics" "now smod cycle_tics = now mod cycle_tics"
    using assms(2,3) by (cases "now = 0"; simp add: signed_divide_int_def smod_mod_positive)+
  have q: "now div cycle_tics * cycle_tics = now - now mod cycle_tics" by (simp add: minus_mod_eq_div_mult)
  have b: "0 \<le> now mod cycle_tics" "now mod cycle_tics < cycle_tics" using assms(2) by simp_all
  have d: "cycle_tics dvd now - now mod cycle_tics + cycle_tics" by (simp add: minus_mod_eq_div_mult)
  show ?thesis
    using assms(1,2) b d by (cases "now mod cycle_tics = 0") (auto simp: set_rate_def rate_in_step_def Let_def m q dvd_eq_mod_eq_0)
qed

lemma set_rate_negative_time:
  "set_rate (- 5) 10 1 = Inr \<lparr>lc_rate_in_seconds = 1, lc_rate_in_tics = 10, lc_next_cycle_in_tics = 10\<rparr>"
proof -
  have "rnd64 (of_int 10) = of_int 10" by (rule rnd64_of_int) simp
  then have "c_round (dmul 1 (dbl 10)) = 10"
    using c_round_near [of "10" 10] by (simp add: dbl_exact dmul_def)
  then show ?thesis by (simp add: set_rate_def signed_divide_int_def signed_modulo_int_def)
qed

text \<open>
  C19: The job that records is due at the least of the first multiples of the rates after now, so it
  meets every rate, and is in step with all of them again: the next call starts from the same
  situation.
\<close>

theorem next_recording_is_least_cycle:
  assumes "now = c_round (dmul in_time (dbl (ex_time_tic_value e)))"
    and "rates = dg_logging_rates (group e p)" and "\<forall>r \<in> set rates. rate_in_step now r"
  shows "\<exists>e'. reschedule_write p in_time e = Some (Inr 0, e') \<and>
    jd_next_tics (ex_jobs e' (dg_write_job (group e p)))
      = Min (insert TRICK_MAX_LONG_LONG ((\<lambda>r. next_multiple now (lc_rate_in_tics r)) ` set rates)) \<and>
    dg_logging_rates (group e' p) = map (advanced now) rates \<and>
    (\<forall>r \<in> set (dg_logging_rates (group e' p)). rate_in_step now r \<and> now < lc_next_cycle_in_tics r)"
proof -
  have "rate_in_step now (advanced now r) \<and> now < lc_next_cycle_in_tics (advanced now r)" if "r \<in> set rates" for r
    using assms(3) that next_multiple_later [of "lc_rate_in_tics r" now]
    by (auto simp: rate_in_step_def advanced_def next_multiple_def)
  then show ?thesis
    using assms advance_log_tics_all [OF assms(3)] calculate_next_advanced [OF assms(3)]
    by (auto simp: reschedule_write_def Let_def schedule_write_def map_job_def put_group_def group_def)
qed

subsection \<open>An instance\<close>

text \<open>A group for the time and a \<open>short\<close> at address 100, with a buffer of 4 records.\<close>

definition demo_ref :: REF2 where
  "demo_ref = \<lparr>rf_reference = ''ball.count'', rf_address = Mem 100,
     rf_attr = \<lparr>at_type = TRICK_SHORT, at_size = 2, at_num_index = 0, at_stl_elem_type = TRICK_VOID, at_units = ''1'', at_units_dashdash = False,
                at_bit_start = 0, at_bit_size = 0\<rparr>,
     rf_num_index = 0, rf_pointer_present = False, rf_stl_present = False, rf_address_path = []\<rparr>"

definition demo_buffer :: "REF2 \<Rightarrow> DataRecordBuffer" where
  "demo_buffer r = new_DataRecordBuffer\<lparr>db_buffer := replicate 4 (zero_bytes (effective_trick_size r)),
     db_last_value := Some (zero_bytes (effective_trick_size r)), db_ref := Some r, db_ref_searched := True\<rparr>"

definition demo_group :: DataRecordGroup where
  "demo_group = (new_DataRecordGroup ''demo'' \<lparr>lc_rate_in_seconds = 1, lc_rate_in_tics = 1000000, lc_next_cycle_in_tics = 0\<rparr> 7)
     \<lparr>dg_inited := True, dg_max_num := 4, dg_rec_buffer := [demo_buffer time_ref, demo_buffer demo_ref]\<rparr>"

definition demo_record_env :: RecordEnv where
  "demo_record_env = DRBinary_env False True [] (\<lambda>_. None) (\<lambda>t. [if t = 0 then 0 else 1, 0, 0, 0, 0, 0, 0, 0])"

definition demo_ops :: "record_op list" where
  "demo_ops = [Record (\<lambda>_. 5) 0, Record (\<lambda>_. 6) 1, Record (\<lambda>_. 7) 2, Write False, Record (\<lambda>_. 8) 3, Record (\<lambda>_. 9) 4]"

lemma demo_sizes: "effective_trick_size demo_ref = 2" "effective_trick_size time_ref = 8"
  "effective_trick_type demo_ref = TRICK_SHORT" "effective_trick_type time_ref = TRICK_DOUBLE"
  "current_ref env m demo_ref = demo_ref" "current_ref env m time_ref = time_ref"
  by (simp_all add: demo_ref_def time_ref_def effective_trick_size_def effective_trick_type_def indexed_def
      current_ref_def resolve_def)

lemma demo_group_simps [simp]:
  "dg_rec_buffer demo_group = [demo_buffer time_ref, demo_buffer demo_ref]" "dg_buffer_num demo_group = 0"
  "dg_writer_num demo_group = 0" "dg_max_num demo_group = 4" "dg_file demo_group = []" "dg_freq demo_group = DR_Always"
  "dg_total_bytes_written demo_group = 0" "dg_max_file_size demo_group = 1073741824" "dg_record demo_group"
  "dg_inited demo_group" "dg_buffer_type demo_group = DR_Buffer"
  by (simp_all add: demo_group_def new_DataRecordGroup_def add_time_variable_def add_variable_ref_def)

lemma demo_wf: "wf_group demo_group"
  by (simp add: wf_group_def wf_buffer_def demo_buffer_def new_DataRecordBuffer_def)

lemma demo_row:
  "current_row demo_record_env (\<lambda>_. x) t demo_group
    = [(Some (fixed_ref time_ref), [if t = 0 then 0 else 1, 0, 0, 0, 0, 0, 0, 0]), (Some (fixed_ref demo_ref), [x, x])]"
  by (simp add: current_row_def current_value_def demo_buffer_def demo_sizes read_ref_def)
    (simp add: demo_ref_def time_ref_def demo_record_env_def DRBinary_env_def mem_bytes_def numeral_2_eq_2)

lemma demo_fmt:
  "DRBinary_fmt False [] [(Some (fixed_ref time_ref), a), (Some (fixed_ref demo_ref), b)] = take 8 a @ take 2 b"
  by (simp add: DRBinary_fmt_def DRBinary_item_fixed) (simp add: DRBinary_item_def demo_sizes)

theorem recording_loses_nothing_witness:
  "\<exists>g1 g2. run_ops demo_record_env demo_ops demo_group = Some (Inr (), g1) \<and>
     group_shutdown demo_record_env g1 = Some (Inr 0, g2) \<and>
     dg_file g2 = [0, 0, 0, 0, 0, 0, 0, 0, 5, 5, 1, 0, 0, 0, 0, 0, 0, 0, 6, 6, 1, 0, 0, 0, 0, 0, 0, 0, 7, 7,
                   1, 0, 0, 0, 0, 0, 0, 0, 8, 8, 1, 0, 0, 0, 0, 0, 0, 0, 9, 9]"
proof -
  have r: "concat (map (op_rows demo_record_env demo_group) demo_ops)
      = map (\<lambda>(x, t). current_row demo_record_env (\<lambda>_. x) t demo_group) [(5, 0), (6, 1), (7, 2), (8, 3), (9, 4)]"
    by (simp add: demo_ops_def op_rows_def)
  have ok: "\<forall>op \<in> set demo_ops. op_readable demo_record_env demo_group op"
    by (simp add: demo_ops_def op_readable_def readable_def demo_buffer_def demo_sizes)
      (simp add: demo_ref_def time_ref_def)
  have w: "waiting f demo_group = []" "pending demo_group = []" for f by (simp_all add: waiting_def pending_def)
  have l: "length demo_ops = 6" by (simp add: demo_ops_def)
  show ?thesis
    using recording_loses_nothing [OF demo_record_env_def demo_wf _ ok _ r [symmetric]]
    by (auto simp: demo_row demo_fmt w l)
qed

definition demo_record_sim :: "unit dr_sim" where
  "demo_record_sim = (new_Executive (\<lambda>_. new_JobData_default) (\<lambda>_. undefined)
     \<lparr>dw_groups = [3 \<mapsto> demo_group\<lparr>dg_logging_rates :=
        [\<lparr>lc_rate_in_seconds = 1, lc_rate_in_tics = 1000000, lc_next_cycle_in_tics = 3000000\<rparr>,
         \<lparr>lc_rate_in_seconds = 3 / 4, lc_rate_in_tics = 750000, lc_next_cycle_in_tics = 3000000\<rparr>]\<rparr>],
      dw_mem = (\<lambda>_. 0), dw_drd = \<lparr>dd_groups = [3], dd_thread_started = True, dd_cancelled = False,
        dd_verify_log_vars = True, dd_warning_level = 0\<rparr>, dw_user = ()\<rparr>)"

theorem next_recording_is_least_cycle_witness:
  "\<exists>e'. reschedule_write 3 3 demo_record_sim = Some (Inr 0, e') \<and> jd_next_tics (ex_jobs e' 7) = 3750000"
proof -
  have g: "group demo_record_sim 3 = demo_group\<lparr>dg_logging_rates :=
        [\<lparr>lc_rate_in_seconds = 1, lc_rate_in_tics = 1000000, lc_next_cycle_in_tics = 3000000\<rparr>,
         \<lparr>lc_rate_in_seconds = 3 / 4, lc_rate_in_tics = 750000, lc_next_cycle_in_tics = 3000000\<rparr>]\<rparr>"
    by (simp add: group_def demo_record_sim_def new_Executive_def)
  have "rnd64 (of_int 3000000) = of_int 3000000" by (rule rnd64_of_int) simp
  then have now: "c_round (dmul 3 (dbl (ex_time_tic_value demo_record_sim))) = 3000000"
    using c_round_near [of "3000000" 3000000]
    by (simp add: demo_record_sim_def new_Executive_def dbl_exact dmul_def)
  have "dg_write_job demo_group = 7"
    by (simp add: demo_group_def new_DataRecordGroup_def add_time_variable_def add_variable_ref_def)
  then show ?thesis
    using next_recording_is_least_cycle [of 3000000 3 demo_record_sim _ 3] now g
    by (auto simp: rate_in_step_def next_multiple_def TRICK_MAX_LONG_LONG_def)
qed

end
