(* ===== verification/RecordDispatcher.thy ===== *)
theory RecordDispatcher
  imports DataRecordJobs
begin

text \<open>
  \<open>Trick::DataRecordDispatcher\<close> (sim\_services/DataRecord/DataRecordDispatcher.cpp): the list of the
  recording groups, kept as a scheduler that hears of new simulation objects. \<open>others\<close> are the
  operations of the other schedulers on a simulation object, for the calls of the executive. The
  removal of log files is left out.
\<close>

definition new_DataRecordDispatcher :: DataRecordDispatcher where
  "new_DataRecordDispatcher = \<lparr>dd_groups = [], dd_thread_started = False, dd_cancelled = False,
     dd_verify_log_vars = True, dd_warning_level = 0\<rparr>"

definition set_verif_onoff :: "bool \<Rightarrow> 'u dr_sim \<Rightarrow> 'u dr_sim" where
  "set_verif_onoff state e = map_drd (\<lambda>d. d\<lparr>dd_verify_log_vars := state\<rparr>) e"

definition set_warning_level :: "int \<Rightarrow> 'u dr_sim \<Rightarrow> 'u dr_sim" where
  "set_warning_level level e = map_drd (\<lambda>d. d\<lparr>dd_warning_level := level\<rparr>) e"

text \<open>The dynamic cast finds a group or not.\<close>

definition drd_add_sim_object :: "so_ptr \<Rightarrow> 'u dr_sim \<Rightarrow> 'u dr_sim" where
  "drd_add_sim_object in_object e =
     (if dw_groups (ex_world e) in_object \<noteq> None
      then map_drd (\<lambda>d. d\<lparr>dd_groups := dd_groups d @ [in_object]\<rparr>) e else e)"

definition add_group :: "'u DrWorld virtual_op list \<Rightarrow> so_ptr \<Rightarrow> DR_Buffering \<Rightarrow> 'u dr_sim \<Rightarrow> (int, 'u dr_sim) result" where
  "add_group others in_group buffering e =
     (if \<exists>g \<in> set (dd_groups (drd e)). dg_group_name (group e g) = dg_group_name (group e in_group)
      then Some (Inr (-1), e)
      else
        (let e1 = (if buffering \<noteq> DR_Not_Specified then map_group in_group (set_buffer_type buffering) e else e)
         in andthen (add_sim_object (others @ [drd_add_sim_object]) in_group
                       (Some (so_name (ex_sim_objs e1 in_group))) e1)
              (\<lambda>_ e2. Some (Inr 0, e2))))"

text \<open>The loop over the groups: \<open>kept\<close> are those already passed over.\<close>

fun remove_group_loop ::
  "RecordEnv \<Rightarrow> 'u DrWorld virtual_op list \<Rightarrow> so_ptr \<Rightarrow> so_ptr list \<Rightarrow> so_ptr list \<Rightarrow> 'u dr_sim \<Rightarrow> (unit, 'u dr_sim) result" where
  "remove_group_loop env others in_group kept [] e = Some (Inr (), e)"
| "remove_group_loop env others in_group kept (g # gs) e =
     (if g = in_group then
        andthen (delete_sim_object others in_group (map_drd (\<lambda>d. d\<lparr>dd_groups := kept @ gs\<rparr>) e))
          (\<lambda>_ e1. andthen (on_group in_group (group_shutdown env) e1)
            (\<lambda>_. remove_group_loop env others in_group kept gs))
      else remove_group_loop env others in_group (kept @ [g]) gs e)"

definition remove_group :: "RecordEnv \<Rightarrow> 'u DrWorld virtual_op list \<Rightarrow> so_ptr \<Rightarrow> 'u dr_sim \<Rightarrow> (int, 'u dr_sim) result" where
  "remove_group env others in_group e =
     andthen (remove_group_loop env others in_group [] (dd_groups (drd e)) e) (\<lambda>_ e1. Some (Inr 0, e1))"

partial_function (option) remove_all_groups ::
  "RecordEnv \<Rightarrow> 'u DrWorld virtual_op list \<Rightarrow> 'u dr_sim \<Rightarrow> (unit, 'u dr_sim) result" where
  "remove_all_groups env others e =
     (case dd_groups (drd e) of
        [] \<Rightarrow> Some (Inr (), e)
      | g # _ \<Rightarrow> andthen (remove_group env others g e) (\<lambda>_. remove_all_groups env others))"

definition get_group_by_name :: "string \<Rightarrow> 'u dr_sim \<Rightarrow> so_ptr option" where
  "get_group_by_name in_name e = find (\<lambda>g. dg_group_name (group e g) = in_name) (dd_groups (drd e))"

definition get_group_by_index :: "int \<Rightarrow> 'u dr_sim \<Rightarrow> so_ptr option" where
  "get_group_by_index in_idx e =
     (if dd_groups (drd e) \<noteq> [] \<and> -1 < in_idx \<and> in_idx < int (length (dd_groups (drd e)))
      then Some (dd_groups (drd e) ! nat in_idx) else None)"

text \<open>An operation on the groups of a name, or on all when the name is \<open>NULL\<close>.\<close>

definition named_groups :: "string option \<Rightarrow> 'u dr_sim \<Rightarrow> so_ptr list" where
  "named_groups in_name e =
     filter (\<lambda>g. case in_name of None \<Rightarrow> True | Some n \<Rightarrow> dg_group_name (group e g) = n) (dd_groups (drd e))"

definition drd_enable :: "string option \<Rightarrow> 'u dr_sim \<Rightarrow> 'u dr_sim" where
  "drd_enable in_name e = fold (\<lambda>g. map_group g group_enable) (named_groups in_name e) e"

definition drd_disable :: "string option \<Rightarrow> 'u dr_sim \<Rightarrow> 'u dr_sim" where
  "drd_disable in_name e = fold (\<lambda>g. map_group g group_disable) (named_groups in_name e) e"

definition set_group_max_file_size :: "string option \<Rightarrow> nat \<Rightarrow> 'u dr_sim \<Rightarrow> 'u dr_sim" where
  "set_group_max_file_size in_name bytes e = fold (\<lambda>g. map_group g (set_max_file_size bytes)) (named_groups in_name e) e"

definition drd_set_max_file_size :: "nat \<Rightarrow> 'u dr_sim \<Rightarrow> 'u dr_sim" where
  "drd_set_max_file_size bytes e = fold (\<lambda>g. map_group g (set_max_file_size bytes)) (dd_groups (drd e)) e"

fun each_group :: "(so_ptr \<Rightarrow> 'u dr_sim \<Rightarrow> (int, 'u dr_sim) result) \<Rightarrow> so_ptr list \<Rightarrow> 'u dr_sim \<Rightarrow> (int, 'u dr_sim) result" where
  "each_group f [] e = Some (Inr 0, e)"
| "each_group f (g # gs) e = andthen (f g e) (\<lambda>_. each_group f gs)"

definition record_now_group :: "RecordEnv \<Rightarrow> nat option \<Rightarrow> string option \<Rightarrow> 'u dr_sim \<Rightarrow> (int, 'u dr_sim) result" where
  "record_now_group env self in_name e =
     (if in_name = None then Some (Inr 0, e)
      else each_group (\<lambda>g e. case get_sim_time self e of Inl a \<Rightarrow> Some (Inl a, e) | Inr t \<Rightarrow> data_record env g t e)
             (named_groups in_name e) e)"

definition init_groups :: "RecordEnv \<Rightarrow> nat option \<Rightarrow> 'u dr_sim \<Rightarrow> (int, 'u dr_sim) result" where
  "init_groups env self e = each_group (\<lambda>g. group_init env g self False) (dd_groups (drd e)) e"

definition drd_preload_checkpoint :: "RecordEnv \<Rightarrow> 'u dr_sim \<Rightarrow> (int, 'u dr_sim) result" where
  "drd_preload_checkpoint env e =
     andthen (each_group (\<lambda>g. on_group g (group_shutdown env)) (dd_groups (drd e)) e)
       (\<lambda>_ e1. Some (Inr 0, map_drd (\<lambda>d. d\<lparr>dd_groups := []\<rparr>) e1))"

text \<open>One round of the writer thread after its signal.\<close>

definition writer_round :: "RecordEnv \<Rightarrow> 'u dr_sim \<Rightarrow> (int, 'u dr_sim) result" where
  "writer_round env e =
     each_group (\<lambda>g e. if dg_buffer_type (group e g) = DR_Buffer then on_group g (write_data env True) e else Some (Inr 0, e))
       (dd_groups (drd e)) e"

subsection \<open>Variables logged twice\<close>

definition logged_as :: "DataRecordBuffer \<Rightarrow> string" where
  "logged_as b = (if db_alias b = [] then db_name b else db_alias b)"

definition checkMultiVarSingleLogGroup :: "'u dr_sim \<Rightarrow> bool" where
  "checkMultiVarSingleLogGroup e =
     (\<exists>g \<in> set (dd_groups (drd e)). \<not> distinct (map logged_as (tl (dg_rec_buffer (group e g)))))"

fun logged_in_two :: "DataRecordBuffer list list \<Rightarrow> bool" where
  "logged_in_two [] = False"
| "logged_in_two (bs # bss) =
     ((\<exists>v \<in> set bs. db_name v \<noteq> ''sys.exec.out.time'' \<and> (\<exists>bs2 \<in> set bss. logged_as v \<in> set (map logged_as bs2)))
      \<or> logged_in_two bss)"

definition checkMultiVarMultiLogGroups :: "'u dr_sim \<Rightarrow> bool" where
  "checkMultiVarMultiLogGroups e = logged_in_two (map (\<lambda>g. dg_rec_buffer (group e g)) (dd_groups (drd e)))"

definition processMultipleVarLoggedCheck :: "'u dr_sim \<Rightarrow> (unit, 'u dr_sim) result" where
  "processMultipleVarLoggedCheck e =
     (if (checkMultiVarSingleLogGroup e \<or> checkMultiVarMultiLogGroups e) \<and> 2 \<le> dd_warning_level (drd e)
      then Some (Inl (mk_ExecutiveException (-1) ''DataRecordDispatcher.cpp'' 383
                  (''Invalid or unsafe logging configuration. Exiting...'' @ [CHR 0x0A])), e)
      else Some (Inr (), e))"

definition drd_init :: "'u dr_sim \<Rightarrow> (int, 'u dr_sim) result" where
  "drd_init e =
     (let e1 = map_drd (\<lambda>d. d\<lparr>dd_thread_started := True\<rparr>) e
      in if dd_verify_log_vars (drd e1)
         then andthen (processMultipleVarLoggedCheck e1) (\<lambda>_ e2. Some (Inr 0, e2))
         else Some (Inr 0, e1))"

definition drd_restart :: "'u dr_sim \<Rightarrow> (int, 'u dr_sim) result" where
  "drd_restart e =
     andthen (if \<not> dd_thread_started (drd e) then drd_init e else Some (Inr 0, e)) (\<lambda>_ e1. Some (Inr 0, e1))"

definition drd_shutdown :: "'u dr_sim \<Rightarrow> int \<times> 'u dr_sim" where
  "drd_shutdown e = (0, if dd_thread_started (drd e) then map_drd (\<lambda>d. d\<lparr>dd_cancelled := True\<rparr>) e else e)"

end
