(* ===== verification/Unicode.thy ===== *)
theory Unicode
  imports Trick_Prelude "HOL-Library.Word"
begin

text \<open>
  The conversions between character encodings (trick\_utils/unicode/src/unicode\_utils.c). A C string
  is the list of its bytes up to the 0 at its end; the input of a conversion ends at a 0 or at the
  end of the list. The output is \<open>None\<close> for \<open>NULL\<close>, or an array of the given size; the model holds
  what has been written to it, and a store past its end is \<open>Undefined\<close>. \<open>wchar_t\<close> has 4 bytes (and is
  signed) or 2 bytes, \<open>isprint\<close> is that of the C locale. The messages are left out.
\<close>

unbundle bit_operations_syntax

type_synonym uchar = "8 word"

abbreviation ERROR_STATE :: nat where
  "ERROR_STATE \<equiv> 99"

subsection \<open>One code point\<close>

definition ucodepoint_to_utf32 :: "32 word \<Rightarrow> int list" where
  "ucodepoint_to_utf32 codePoint =
     (if codePoint < 0xd800 \<or> 0xe000 \<le> codePoint then [sint codePoint] else [])"

definition ucodepoint_to_utf16 :: "32 word \<Rightarrow> int list" where
  "ucodepoint_to_utf16 codePoint =
     (if 0x10ffff < codePoint then []
      else if 0xffff < codePoint then
        [uint (ucast (0xd800 + drop_bit 10 codePoint) :: 16 word),
         uint (ucast (0xdc00 + (codePoint AND 0x03ff)) :: 16 word)]
      else if codePoint < 0xd800 \<or> 0xe000 \<le> codePoint then [uint (ucast codePoint :: 16 word)]
      else [])"

definition ucodepoint_to_utf8 :: "32 word \<Rightarrow> uchar list" where
  "ucodepoint_to_utf8 codePoint =
     (if codePoint \<le> 0x7f then [ucast codePoint]
      else if codePoint \<le> 0x7ff then
        [ucast (0xc0 OR (drop_bit 6 codePoint AND 0x1f)), ucast (0x80 OR (codePoint AND 0x3f))]
      else if codePoint \<le> 0xffff then
        [ucast (0xe0 OR (drop_bit 12 codePoint AND 0x0f)), ucast (0x80 OR (drop_bit 6 codePoint AND 0x3f)),
         ucast (0x80 OR (codePoint AND 0x3f))]
      else
        [ucast (0xf0 OR (drop_bit 18 codePoint AND 0x07)), ucast (0x80 OR (drop_bit 12 codePoint AND 0x3f)),
         ucast (0x80 OR (drop_bit 6 codePoint AND 0x3f)), ucast (0x80 OR (codePoint AND 0x3f))])"

subsection \<open>The state of a conversion\<close>

record 'a conv =
  cv_state :: nat
  cv_code :: "32 word"
  cv_digits :: nat
  cv_len :: nat
  cv_out :: "'a list"

definition conv0 :: "'a conv" where
  "conv0 = \<lparr>cv_state = 0, cv_code = 0, cv_digits = 0, cv_len = 0, cv_out = []\<rparr>"

definition fail :: "'a conv \<Rightarrow> 'a conv" where
  "fail s = s\<lparr>cv_state := ERROR_STATE\<rparr>"

text \<open>Elements put out with the test for room that leaves a place for the 0 at the end.\<close>

definition put :: "nat option \<Rightarrow> 'a list \<Rightarrow> 'a conv \<Rightarrow> 'a conv" where
  "put outSize xs s =
     (case outSize of
        None \<Rightarrow> s\<lparr>cv_len := cv_len s + length xs\<rparr>
      | Some n \<Rightarrow> if cv_len s + length xs < n
                  then s\<lparr>cv_len := cv_len s + length xs, cv_out := cv_out s @ xs\<rparr>
                  else s\<lparr>cv_len := cv_len s + length xs, cv_state := ERROR_STATE\<rparr>)"

text \<open>An element stored without a test.\<close>

definition put_unchecked :: "nat option \<Rightarrow> 'a \<Rightarrow> 'a conv \<Rightarrow> abort + 'a conv" where
  "put_unchecked outSize x s =
     (case outSize of
        None \<Rightarrow> Inr (s\<lparr>cv_len := cv_len s + 1\<rparr>)
      | Some n \<Rightarrow> if cv_len s < n then Inr (s\<lparr>cv_len := cv_len s + 1, cv_out := cv_out s @ [x]\<rparr>)
                  else Inl (Undefined ''store past the end of out''))"

text \<open>The loop over the input, and what follows it: an error empties the result, and the 0 is stored.\<close>

fun conv_loop :: "('c \<Rightarrow> 'a conv \<Rightarrow> abort + 'a conv) \<Rightarrow> ('c \<Rightarrow> bool) \<Rightarrow> 'c list \<Rightarrow> 'a conv \<Rightarrow> abort + 'a conv" where
  "conv_loop step is_end [] s = Inr s"
| "conv_loop step is_end (ch # rest) s =
     (if is_end ch \<or> cv_state s = ERROR_STATE then Inr s
      else case step ch s of Inl a \<Rightarrow> Inl a | Inr s1 \<Rightarrow> conv_loop step is_end rest s1)"

definition conv_end :: "nat option \<Rightarrow> 'a conv \<Rightarrow> abort + nat \<times> 'a list" where
  "conv_end outSize s =
     (let out_len = (if cv_state s \<noteq> 0 then 0 else cv_len s)
      in case outSize of
           None \<Rightarrow> Inr (out_len, [])
         | Some n \<Rightarrow> if out_len < n then Inr (out_len, take out_len (cv_out s))
                     else Inl (Undefined ''store past the end of out''))"

text \<open>The start: \<open>out[0] = 0\<close>, when it is not \<open>NULL\<close>.\<close>

definition convert :: "('c \<Rightarrow> 'a conv \<Rightarrow> abort + 'a conv) \<Rightarrow> ('c \<Rightarrow> bool) \<Rightarrow> nat option \<Rightarrow> 'c list \<Rightarrow> abort + nat \<times> 'a list" where
  "convert step is_end outSize input =
     (if outSize = Some 0 then Inl (Undefined ''store past the end of out'')
      else case conv_loop step is_end input conv0 of Inl a \<Rightarrow> Inl a | Inr s \<Rightarrow> conv_end outSize s)"

subsection \<open>Escaping\<close>

definition hex_digit :: "32 word \<Rightarrow> uchar" where
  "hex_digit d = (if d < 10 then 48 + ucast d else 87 + ucast d)"

definition hex :: "nat \<Rightarrow> 32 word \<Rightarrow> uchar list" where
  "hex n w = map (\<lambda>i. hex_digit (drop_bit (4 * i) w AND 15)) (rev [0..<n])"

definition isprint :: "uchar \<Rightarrow> bool" where
  "isprint ch \<longleftrightarrow> 0x20 \<le> ch \<and> ch \<le> 0x7e"

text \<open>The characters \<open>\a\<close>, \<open>\b\<close>, \<open>\f\<close>, \<open>\n\<close>, \<open>\r\<close>, \<open>\t\<close>, \<open>\v\<close> are 7, 8, 12, 10, 13, 9, 11; the backslash is 92.\<close>

definition escape_ascii :: "uchar \<Rightarrow> uchar list" where
  "escape_ascii ch =
     (if ch = 7 then [92, 97] else if ch = 8 then [92, 98] else if ch = 12 then [92, 102]
      else if ch = 10 then [92, 110] else if ch = 13 then [92, 114] else if ch = 9 then [92, 116]
      else if ch = 11 then [92, 118] else if isprint ch then [ch] else [92, 120] @ hex 2 (ucast ch))"

definition escape_code :: "32 word \<Rightarrow> uchar list" where
  "escape_code codePoint =
     (if codePoint \<le> 0xffff then [92, 117] @ hex 4 codePoint else [92, 85] @ hex 8 codePoint)"

definition is_continuation :: "uchar \<Rightarrow> bool" where
  "is_continuation ch \<longleftrightarrow> ch AND 0xc0 = 0x80"

definition continue_code :: "uchar \<Rightarrow> 'a conv \<Rightarrow> 'a conv" where
  "continue_code ch s = s\<lparr>cv_code := push_bit 6 (cv_code s) OR (ucast ch AND 0x3f)\<rparr>"

text \<open>The start of a sequence and its middle, the same in two of the conversions.\<close>

definition utf8_step :: "(uchar \<Rightarrow> 'a conv \<Rightarrow> 'a conv) \<Rightarrow> ('a conv \<Rightarrow> 'a conv) \<Rightarrow> uchar \<Rightarrow> 'a conv \<Rightarrow> 'a conv" where
  "utf8_step ascii finish ch s =
     (if cv_state s = 0 then
        (if 0xf0 \<le> ch then s\<lparr>cv_code := ucast ch AND 0x07, cv_state := 3\<rparr>
         else if 0xe0 \<le> ch then s\<lparr>cv_code := ucast ch AND 0x0f, cv_state := 2\<rparr>
         else if 0xc0 \<le> ch then s\<lparr>cv_code := ucast ch AND 0x1f, cv_state := 1\<rparr>
         else if 0x80 \<le> ch then fail s
         else ascii ch s)
      else if \<not> is_continuation ch then fail s
      else if cv_state s = 1 then finish (continue_code ch (s\<lparr>cv_state := 0\<rparr>))
      else if cv_state s = 2 then (continue_code ch s)\<lparr>cv_state := 1\<rparr>
      else if cv_state s = 3 then (continue_code ch s)\<lparr>cv_state := 2\<rparr>
      else fail s)"

definition escape_step :: "nat option \<Rightarrow> uchar \<Rightarrow> uchar conv \<Rightarrow> abort + uchar conv" where
  "escape_step outSize ch s =
     Inr (utf8_step (\<lambda>ch. put outSize (escape_ascii ch)) (\<lambda>s. put outSize (escape_code (cv_code s)) s) ch s)"

definition escape_to_ascii :: "uchar list option \<Rightarrow> nat option \<Rightarrow> abort + nat \<times> uchar list" where
  "escape_to_ascii input outSize =
     (case input of None \<Rightarrow> Inr (0, []) | Some xs \<Rightarrow> convert (escape_step outSize) (\<lambda>ch. ch = 0) outSize xs)"

definition escape_to_ascii_len :: "uchar list option \<Rightarrow> abort + nat \<times> uchar list" where
  "escape_to_ascii_len input = escape_to_ascii input None"

subsection \<open>Unescaping\<close>

definition hex_value :: "uchar \<Rightarrow> 32 word option" where
  "hex_value ch =
     (if 48 \<le> ch \<and> ch \<le> 57 then Some (ucast ch - 48)
      else if 65 \<le> ch \<and> ch \<le> 70 then Some (ucast ch - 65 + 10)
      else if 97 \<le> ch \<and> ch \<le> 102 then Some (ucast ch - 97 + 10)
      else None)"

text \<open>A byte copied with the state it leads to.\<close>

definition copy_to :: "nat option \<Rightarrow> nat \<Rightarrow> uchar \<Rightarrow> uchar conv \<Rightarrow> abort + uchar conv" where
  "copy_to outSize st ch s =
     (case put_unchecked outSize ch s of Inl a \<Rightarrow> Inl a | Inr s1 \<Rightarrow> Inr (s1\<lparr>cv_state := st\<rparr>))"

definition unescape_plain :: "nat option \<Rightarrow> uchar \<Rightarrow> uchar conv \<Rightarrow> abort + uchar conv" where
  "unescape_plain outSize ch s =
     (if 0xf0 \<le> ch then copy_to outSize 3 ch s
      else if 0xe0 \<le> ch then copy_to outSize 4 ch s
      else if 0xc0 \<le> ch then copy_to outSize 5 ch s
      else if 0x80 \<le> ch then Inr (fail s)
      else if ch = 92 then Inr (s\<lparr>cv_state := 1\<rparr>)
      else copy_to outSize 0 ch s)"

definition unescape_char :: "nat option \<Rightarrow> uchar \<Rightarrow> uchar conv \<Rightarrow> abort + uchar conv" where
  "unescape_char outSize ch s =
     (if ch \<in> {39, 34, 63, 92} then copy_to outSize 0 ch s
      else if ch = 97 then copy_to outSize 0 7 s
      else if ch = 98 then copy_to outSize 0 8 s
      else if ch = 102 then copy_to outSize 0 12 s
      else if ch = 110 then copy_to outSize 0 10 s
      else if ch = 114 then copy_to outSize 0 13 s
      else if ch = 116 then copy_to outSize 0 9 s
      else if ch = 118 then copy_to outSize 0 8 s
      else if ch = 120 then Inr (s\<lparr>cv_digits := 2, cv_state := 2\<rparr>)
      else if ch = 117 then Inr (s\<lparr>cv_digits := 4, cv_state := 2\<rparr>)
      else if ch = 85 then Inr (s\<lparr>cv_digits := 8, cv_state := 2\<rparr>)
      else Inr (fail s))"

definition unescape_digit :: "nat option \<Rightarrow> uchar \<Rightarrow> uchar conv \<Rightarrow> uchar conv" where
  "unescape_digit outSize ch s =
     (case hex_value ch of
        None \<Rightarrow> fail s
      | Some digit \<Rightarrow>
          (let s1 = s\<lparr>cv_code := cv_code s * 16 + digit, cv_digits := cv_digits s - 1\<rparr>
           in if cv_digits s1 = 0
              then (put outSize (ucodepoint_to_utf8 (cv_code s1)) (s1\<lparr>cv_state := 0\<rparr>))\<lparr>cv_code := 0\<rparr>
              else s1))"

definition unescape_step :: "nat option \<Rightarrow> uchar \<Rightarrow> uchar conv \<Rightarrow> abort + uchar conv" where
  "unescape_step outSize ch s =
     (if cv_state s = 0 then unescape_plain outSize ch s
      else if cv_state s = 1 then unescape_char outSize ch s
      else if cv_state s = 2 then Inr (unescape_digit outSize ch s)
      else if cv_state s \<in> {3, 4, 5} then
        (if is_continuation ch then copy_to outSize (if cv_state s = 5 then 0 else cv_state s + 1) ch s
         else Inr (fail s))
      else Inr (fail s))"

definition unescape_to_utf8 :: "uchar list option \<Rightarrow> nat option \<Rightarrow> abort + nat \<times> uchar list" where
  "unescape_to_utf8 input outSize =
     (case input of None \<Rightarrow> Inr (0, []) | Some xs \<Rightarrow> convert (unescape_step outSize) (\<lambda>ch. ch = 0) outSize xs)"

definition unescape_to_utf8_len :: "uchar list option \<Rightarrow> abort + nat \<times> uchar list" where
  "unescape_to_utf8_len input = unescape_to_utf8 input None"

subsection \<open>Wide characters\<close>

definition wide_of :: "bool \<Rightarrow> 32 word \<Rightarrow> int list" where
  "wide_of wide4 codePoint = (if wide4 then ucodepoint_to_utf32 codePoint else ucodepoint_to_utf16 codePoint)"

definition put_wide :: "bool \<Rightarrow> nat option \<Rightarrow> int conv \<Rightarrow> int conv" where
  "put_wide wide4 outSize s =
     (if wide_of wide4 (cv_code s) = [] then fail s else put outSize (wide_of wide4 (cv_code s)) s)"

definition utf8_to_wchar_step :: "bool \<Rightarrow> nat option \<Rightarrow> uchar \<Rightarrow> int conv \<Rightarrow> abort + int conv" where
  "utf8_to_wchar_step wide4 outSize ch s =
     Inr (utf8_step (\<lambda>ch s. put outSize [uint ch] (s\<lparr>cv_code := ucast ch\<rparr>)) (put_wide wide4 outSize) ch s)"

definition utf8_to_wchar :: "bool \<Rightarrow> uchar list option \<Rightarrow> nat option \<Rightarrow> abort + nat \<times> int list" where
  "utf8_to_wchar wide4 input outSize =
     (case input of None \<Rightarrow> Inr (0, []) | Some xs \<Rightarrow> convert (utf8_to_wchar_step wide4 outSize) (\<lambda>ch. ch = 0) outSize xs)"

definition utf8_to_wchar_len :: "bool \<Rightarrow> uchar list option \<Rightarrow> abort + nat \<times> int list" where
  "utf8_to_wchar_len wide4 input = utf8_to_wchar wide4 input None"

definition wchar_to_utf8_step :: "nat option \<Rightarrow> int \<Rightarrow> uchar conv \<Rightarrow> abort + uchar conv" where
  "wchar_to_utf8_step outSize ch s =
     Inr (if 0xd800 \<le> ch \<and> ch \<le> 0xdbff then s\<lparr>cv_code := word_of_int ((ch - 0xd800) * 1024 + 0x10000)\<rparr>
          else
            (let s1 = (if 0xdc00 \<le> ch \<and> ch \<le> 0xdfff then s\<lparr>cv_code := cv_code s OR word_of_int (ch - 0xdc00)\<rparr>
                       else if ch \<le> 0x10ffff then s\<lparr>cv_code := word_of_int ch\<rparr>
                       else fail s)
             in if cv_state s1 = ERROR_STATE then s1
                else (put outSize (ucodepoint_to_utf8 (cv_code s1)) s1)\<lparr>cv_code := 0\<rparr>))"

text \<open>This one does not store a 0 at the start.\<close>

definition wchar_to_utf8 :: "int list option \<Rightarrow> nat option \<Rightarrow> abort + nat \<times> uchar list" where
  "wchar_to_utf8 input outSize =
     (case input of
        None \<Rightarrow> Inr (0, [])
      | Some xs \<Rightarrow> (case conv_loop (wchar_to_utf8_step outSize) (\<lambda>ch. ch = 0) xs conv0 of
          Inl a \<Rightarrow> Inl a | Inr s \<Rightarrow> conv_end outSize s))"

definition wchar_to_utf8_len :: "int list option \<Rightarrow> abort + nat \<times> uchar list" where
  "wchar_to_utf8_len input = wchar_to_utf8 input None"

end
