(* ===== verification/UnicodeRun.thy ===== *)
theory UnicodeRun
  imports Unicode
begin

text \<open>
  What the conversions do on the bytes of one code point: the loop that decodes them arrives at the
  code point itself.
\<close>

subsection \<open>The bytes of a code point\<close>

lemma mask_eqs:
  "(0x07 :: 32 word) = mask 3" "(0x0f :: 32 word) = mask 4" "(0x1f :: 32 word) = mask 5" "(0x3f :: 32 word) = mask 6"
  by (simp_all add: mask_eq_exp_minus_1)

lemma uint_low: "uint (drop_bit k cp AND mask m :: 32 word) = uint cp div 2 ^ k mod 2 ^ m"
  unfolding take_bit_eq_mask [symmetric] unsigned_take_bit_eq unsigned_drop_bit_eq
  using uint_lt2p [of cp] by (simp add: drop_bit_eq_div take_bit_eq_mod)

lemma uint_drop: "uint (drop_bit k w :: 'a::len word) = uint w div 2 ^ k"
  using uint_lt2p [of w] unfolding unsigned_drop_bit_eq by (simp add: drop_bit_eq_div take_bit_eq_mod)

lemma uint_or_disjoint:
  fixes c t :: "32 word"
  assumes "c AND mask m = 0" and "t AND mask m = t" and "uint c + 2 ^ m \<le> 2 ^ 32"
  shows "uint (c OR t) = uint c + uint t"
proof -
  have "c AND t = (c AND mask m) AND t" by (metis assms(2) and.assoc and.commute)
  then have "c AND t = 0" by (simp add: assms(1))
  then have "c OR t = c + t" by (rule disjunctive_add_eq_or [symmetric])
  moreover have "uint t = uint t mod 2 ^ m"
    by (metis assms(2) take_bit_eq_mask take_bit_eq_mod unsigned_take_bit_eq)
  then have "uint t < 2 ^ m" by (metis pos_mod_bound zero_less_numeral zero_less_power)
  ultimately show ?thesis using assms(3) by (simp add: uint_word_ariths)
qed

lemma utf8_byte:
  fixes cp c :: "32 word"
  assumes "c AND mask m = 0" and "uint c + 2 ^ m \<le> 256" and "m \<le> 8"
  shows "uint (ucast (c OR (drop_bit k cp AND mask m)) :: uchar) = uint c + uint cp div 2 ^ k mod 2 ^ m"
proof -
  have "uint (c OR (drop_bit k cp AND mask m)) = uint c + uint (drop_bit k cp AND mask m)"
    using assms by (intro uint_or_disjoint [of _ m]) (auto simp: and.assoc)
  moreover have "uint cp div 2 ^ k mod 2 ^ m < 2 ^ m" by simp
  then have "uint c + uint cp div 2 ^ k mod 2 ^ m < 256" using assms(2) by linarith
  ultimately show ?thesis by (simp add: unsigned_ucast_eq uint_low take_bit_eq_mod)
qed

lemma utf8_byte0:
  fixes cp c :: "32 word"
  assumes "c AND mask m = 0" and "uint c + 2 ^ m \<le> 256" and "m \<le> 8"
  shows "uint (ucast (c OR (cp AND mask m)) :: uchar) = uint c + uint cp mod 2 ^ m"
  using utf8_byte [OF assms, of 0 cp] by simp

lemma continuation_iff: "is_continuation ch \<longleftrightarrow> uint ch div 64 = 2"
proof -
  have "ch AND 0xc0 = push_bit 6 (drop_bit 6 ch)"
  proof (rule bit_word_eqI)
    have c: "(0xc0 :: uchar) = push_bit 6 (mask 2)" by (simp add: mask_eq_exp_minus_1)
    fix n assume "n < LENGTH(8)"
    then show "bit (ch AND 0xc0) n = bit (push_bit 6 (drop_bit 6 ch)) n"
      unfolding c by (auto simp: bit_and_iff bit_push_bit_iff bit_drop_bit_eq bit_mask_iff)
  qed
  moreover have "uint (push_bit 6 (drop_bit 6 ch)) = uint ch div 64 * 64"
  proof -
    have "uint ch < 256" "0 \<le> uint ch" using uint_lt2p [of ch] by simp_all
    then have "uint ch div 64 * 64 mod 256 = uint ch div 64 * 64" by (intro mod_pos_pos_trivial) arith+
    then show ?thesis unfolding unsigned_push_bit_eq by (simp add: push_bit_eq_mult uint_drop take_bit_eq_mod)
  qed
  ultimately have "uint (ch AND 0xc0) = uint ch div 64 * 64" by simp
  then have "ch AND 0xc0 = 0x80 \<longleftrightarrow> uint ch div 64 * 64 = 128" by (simp add: word_uint_eq_iff)
  then show ?thesis unfolding is_continuation_def by arith
qed

lemma continue_code_uint:
  assumes "uint (cv_code s) < 2 ^ 26"
  shows "uint (cv_code (continue_code ch s)) = uint (cv_code s) * 64 + uint ch mod 64"
proof -
  have "uint (push_bit 6 (cv_code s)) = uint (cv_code s) * 64"
    using assms unfolding unsigned_push_bit_eq by (simp add: push_bit_eq_mult take_bit_eq_mod)
  moreover have "uint (ucast ch AND mask 6 :: 32 word) = uint ch mod 64"
    using uint_lt2p [of ch] unfolding take_bit_eq_mask [symmetric] unsigned_take_bit_eq
    by (simp add: take_bit_eq_mod unsigned_ucast_eq)
  moreover have "push_bit 6 (cv_code s) AND mask 6 = 0"
    by (rule bit_word_eqI) (simp add: bit_and_iff bit_push_bit_iff bit_mask_iff)
  then have "uint (push_bit 6 (cv_code s) OR (ucast ch AND mask 6)) = uint (push_bit 6 (cv_code s)) + uint (ucast ch AND mask 6 :: 32 word)"
    using assms calculation(1) by (intro uint_or_disjoint [of _ 6]) (auto simp: and.assoc)
  ultimately show ?thesis by (simp add: continue_code_def mask_eqs)
qed

subsection \<open>Decoding what was encoded\<close>

text \<open>The code points that can be encoded: no 0, which ends a string, and no surrogates.\<close>

definition scalar :: "32 word \<Rightarrow> bool" where
  "scalar cp \<longleftrightarrow> 0 < cp \<and> cp \<le> 0x10ffff \<and> (cp < 0xd800 \<or> 0xe000 \<le> cp)"

lemma scalar_uint:
  "scalar cp \<longleftrightarrow> 0 < uint cp \<and> uint cp \<le> 1114111 \<and> (uint cp < 55296 \<or> 57344 \<le> uint cp)"
  by (auto simp: scalar_def word_less_def word_le_def)

lemma utf8_uints:
  "map uint (ucodepoint_to_utf8 cp) =
     (let c = uint cp
      in if c \<le> 127 then [c]
         else if c \<le> 2047 then [192 + c div 64 mod 32, 128 + c mod 64]
         else if c \<le> 65535 then [224 + c div 4096 mod 16, 128 + c div 64 mod 64, 128 + c mod 64]
         else [240 + c div 262144 mod 8, 128 + c div 4096 mod 64, 128 + c div 64 mod 64, 128 + c mod 64])"
proof -
  have m: "(0x80 :: 32 word) AND mask 6 = 0" "(0xc0 :: 32 word) AND mask 5 = 0" "(0xe0 :: 32 word) AND mask 4 = 0"
    "(0xf0 :: 32 word) AND mask 3 = 0" by (simp_all add: mask_eq_exp_minus_1)
  have u: "uint (ucast cp :: uchar) = uint cp" if "uint cp \<le> 127"
    using that by (simp add: unsigned_ucast_eq take_bit_eq_mod)
  show ?thesis
    unfolding ucodepoint_to_utf8_def mask_eqs
    by (simp add: Let_def word_le_def utf8_byte [OF m(1)] utf8_byte [OF m(2)] utf8_byte [OF m(3)] utf8_byte [OF m(4)]
        utf8_byte0 [OF m(1)] uint_drop u)
qed

text \<open>The run over the bytes of one code point.\<close>

abbreviation utf8_loop where
  "utf8_loop ascii finish \<equiv> conv_loop (\<lambda>ch s. Inr (utf8_step ascii finish ch s)) (\<lambda>ch. ch = 0)"

lemma uchar_tests:
  "(0xf0 \<le> ch) = (240 \<le> uint (ch :: uchar))" "(0xe0 \<le> ch) = (224 \<le> uint ch)" "(0xc0 \<le> ch) = (192 \<le> uint ch)"
  "(0x80 \<le> ch) = (128 \<le> uint ch)" "(ch = 0) = (uint ch = 0)"
  by (simp_all add: word_le_def word_uint_eq_iff)

lemma start_code_uint:
  "uint (ucast ch AND 0x07 :: 32 word) = uint (ch :: uchar) mod 8" "uint (ucast ch AND 0x0f :: 32 word) = uint ch mod 16"
  "uint (ucast ch AND 0x1f :: 32 word) = uint ch mod 32"
  using uint_lt2p [of ch] unfolding mask_eqs take_bit_eq_mask [symmetric] unsigned_take_bit_eq
  by (simp_all add: take_bit_eq_mod unsigned_ucast_eq)

lemma loop_byte:
  assumes "cv_state s \<noteq> ERROR_STATE" and "uint ch \<noteq> 0"
  shows "utf8_loop ascii finish (ch # rest) s = utf8_loop ascii finish rest (utf8_step ascii finish ch s)"
  using assms by (simp add: uchar_tests)

text \<open>A continuation byte in the middle, and the last one.\<close>

lemma continuation_byte:
  assumes "uint ch = 128 + x" and "0 \<le> x" and "x < 64"
  shows "is_continuation ch" and "uint ch mod 64 = x"
proof -
  have "(128 + x) mod 64 = x mod 64" by (simp add: mod_add_eq [of 128 64 x, symmetric])
  then show "uint ch mod 64 = x" using assms by simp
  have "uint ch div 64 = 2" using assms by arith
  then show "is_continuation ch" by (simp add: continuation_iff)
qed

lemma continue_code_eq:
  assumes "uint ch = 128 + x" and "0 \<le> x" and "x < 64" and "uint (cv_code s) < 2 ^ 26"
  shows "continue_code ch s = s\<lparr>cv_code := word_of_int (uint (cv_code s) * 64 + x)\<rparr>"
proof -
  have "cv_code (continue_code ch s) = word_of_int (uint (cv_code s) * 64 + x)"
    using continue_code_uint [OF assms(4), of ch] continuation_byte [OF assms(1-3)] by (metis word_of_int_uint)
  then show ?thesis by (simp add: continue_code_def)
qed

lemma step_middle:
  assumes "cv_state s = Suc (Suc k)" and "k < 2" and "uint ch = 128 + x" and "0 \<le> x" and "x < 64" and "uint (cv_code s) < 2 ^ 26"
  shows "utf8_step ascii finish ch s = s\<lparr>cv_code := word_of_int (uint (cv_code s) * 64 + x), cv_state := Suc k\<rparr>"
  using assms(1,2) continuation_byte(1) [OF assms(3-5)] continue_code_eq [OF assms(3-6)]
  by (auto simp: utf8_step_def less_2_cases_iff)

lemma step_last:
  assumes "cv_state s = 1" and "uint ch = 128 + x" and "0 \<le> x" and "x < 64" and "uint (cv_code s) < 2 ^ 26"
  shows "utf8_step ascii finish ch s = finish (s\<lparr>cv_code := word_of_int (uint (cv_code s) * 64 + x), cv_state := 0\<rparr>)"
  using assms(1) continuation_byte(1) [OF assms(2-4)] continue_code_eq [OF assms(2-4), of "s\<lparr>cv_state := 0\<rparr>"] assms(5)
  by (simp add: utf8_step_def) (cases s; simp)

lemma step_start:
  assumes "cv_state s = 0"
  shows "uint ch = 240 + y \<Longrightarrow> 0 \<le> y \<Longrightarrow> y < 8 \<Longrightarrow> utf8_step ascii finish ch s = s\<lparr>cv_code := word_of_int y, cv_state := 3\<rparr>"
    and "uint ch = 224 + y \<Longrightarrow> 0 \<le> y \<Longrightarrow> y < 16 \<Longrightarrow> utf8_step ascii finish ch s = s\<lparr>cv_code := word_of_int y, cv_state := 2\<rparr>"
    and "uint ch = 192 + y \<Longrightarrow> 0 \<le> y \<Longrightarrow> y < 32 \<Longrightarrow> utf8_step ascii finish ch s = s\<lparr>cv_code := word_of_int y, cv_state := 1\<rparr>"
    and "uint ch < 128 \<Longrightarrow> utf8_step ascii finish ch s = ascii ch s"
proof -
  show "utf8_step ascii finish ch s = s\<lparr>cv_code := word_of_int y, cv_state := 3\<rparr>" if "uint ch = 240 + y" "0 \<le> y" "y < 8"
  proof -
    have "uint (ucast ch AND 0x07 :: 32 word) = y" using that by (simp add: start_code_uint) arith
    then have "ucast ch AND 0x07 = (word_of_int y :: 32 word)" by (metis word_of_int_uint)
    then show ?thesis using that assms by (simp add: utf8_step_def uchar_tests)
  qed
  show "utf8_step ascii finish ch s = s\<lparr>cv_code := word_of_int y, cv_state := 2\<rparr>" if "uint ch = 224 + y" "0 \<le> y" "y < 16"
  proof -
    have "uint (ucast ch AND 0x0f :: 32 word) = y" using that by (simp add: start_code_uint) arith
    then have "ucast ch AND 0x0f = (word_of_int y :: 32 word)" by (metis word_of_int_uint)
    then show ?thesis using that assms by (simp add: utf8_step_def uchar_tests)
  qed
  show "utf8_step ascii finish ch s = s\<lparr>cv_code := word_of_int y, cv_state := 1\<rparr>" if "uint ch = 192 + y" "0 \<le> y" "y < 32"
  proof -
    have "uint (ucast ch AND 0x1f :: 32 word) = y" using that by (simp add: start_code_uint) arith
    then have "ucast ch AND 0x1f = (word_of_int y :: 32 word)" by (metis word_of_int_uint)
    then show ?thesis using that assms by (simp add: utf8_step_def uchar_tests)
  qed
  show "utf8_step ascii finish ch s = ascii ch s" if "uint ch < 128"
    using that assms by (simp add: utf8_step_def uchar_tests)
qed

text \<open>The bytes of one code point lead to its character.\<close>

lemma digit64: "n div (k * 64) * 64 + n div k mod 64 = (n div k :: int)" if "0 < k"
  using that by (simp add: zdiv_zmult2_eq)

lemma loop_byte_step:
  assumes "cv_state s \<noteq> ERROR_STATE" and "0 < uint ch" and "utf8_step ascii finish ch s = s'"
  shows "utf8_loop ascii finish (ch # rest) s = utf8_loop ascii finish rest s'"
  using loop_byte [OF assms(1), of ch ascii finish rest] assms(2,3) by simp

lemma code_of_small: "0 \<le> x \<Longrightarrow> x < 2 ^ 26 \<Longrightarrow> uint (word_of_int x :: 32 word) = x"
  by (simp add: uint_word_of_int)

lemma run_two:
  assumes "cv_state s = 0" and "uint b0 = 192 + y" and "0 \<le> y" and "y < 32" and "uint b1 = 128 + x" and "0 \<le> x" and "x < 64"
  shows "utf8_loop ascii finish ([b0, b1] @ rest) s = utf8_loop ascii finish rest (finish (s\<lparr>cv_code := word_of_int (y * 64 + x), cv_state := 0\<rparr>))"
proof -
  let ?s1 = "s\<lparr>cv_code := word_of_int y, cv_state := 1\<rparr>"
  have u: "uint (cv_code ?s1) = y" using assms by (simp add: code_of_small)
  have "utf8_step ascii finish b0 s = ?s1" using assms by (intro step_start(3)) auto
  moreover have "utf8_step ascii finish b1 ?s1 = finish (s\<lparr>cv_code := word_of_int (y * 64 + x), cv_state := 0\<rparr>)"
    using step_last [of ?s1 b1 x ascii finish] assms unfolding u by (cases s) simp
  ultimately show ?thesis using assms by (simp del: conv_loop.simps add: loop_byte_step)
qed

lemma run_three:
  assumes "cv_state s = 0" and "uint b0 = 224 + y" and "0 \<le> y" and "y < 16" and "uint b1 = 128 + x" and "0 \<le> x" and "x < 64"
    and "uint b2 = 128 + w" and "0 \<le> w" and "w < 64"
  shows "utf8_loop ascii finish ([b0, b1, b2] @ rest) s
    = utf8_loop ascii finish rest (finish (s\<lparr>cv_code := word_of_int ((y * 64 + x) * 64 + w), cv_state := 0\<rparr>))"
proof -
  let ?s1 = "s\<lparr>cv_code := word_of_int y, cv_state := 2\<rparr>" and ?s2 = "s\<lparr>cv_code := word_of_int (y * 64 + x), cv_state := 1\<rparr>"
  have u: "uint (cv_code ?s1) = y" "uint (cv_code ?s2) = y * 64 + x"
    using assms by (simp_all del: of_int_add of_int_mult add: code_of_small)
  have "utf8_step ascii finish b0 s = ?s1" using assms by (intro step_start(2)) auto
  moreover have "utf8_step ascii finish b1 ?s1 = ?s2"
    using step_middle [of ?s1 0 b1 x ascii finish] assms unfolding u by (cases s) simp
  moreover have "utf8_step ascii finish b2 ?s2 = finish (s\<lparr>cv_code := word_of_int ((y * 64 + x) * 64 + w), cv_state := 0\<rparr>)"
    using step_last [of ?s2 b2 w ascii finish] assms unfolding u by (cases s) simp
  ultimately show ?thesis using assms by (simp del: conv_loop.simps add: loop_byte_step)
qed

lemma run_four:
  assumes "cv_state s = 0" and "uint b0 = 240 + y" and "0 \<le> y" and "y < 8" and "uint b1 = 128 + x" and "0 \<le> x" and "x < 64"
    and "uint b2 = 128 + w" and "0 \<le> w" and "w < 64" and "uint b3 = 128 + v" and "0 \<le> v" and "v < 64"
  shows "utf8_loop ascii finish ([b0, b1, b2, b3] @ rest) s
    = utf8_loop ascii finish rest (finish (s\<lparr>cv_code := word_of_int (((y * 64 + x) * 64 + w) * 64 + v), cv_state := 0\<rparr>))"
proof -
  let ?s1 = "s\<lparr>cv_code := word_of_int y, cv_state := 3\<rparr>" and ?s2 = "s\<lparr>cv_code := word_of_int (y * 64 + x), cv_state := 2\<rparr>"
  let ?s3 = "s\<lparr>cv_code := word_of_int ((y * 64 + x) * 64 + w), cv_state := 1\<rparr>"
  have u: "uint (cv_code ?s1) = y" "uint (cv_code ?s2) = y * 64 + x" "uint (cv_code ?s3) = (y * 64 + x) * 64 + w"
    using assms by (simp_all del: of_int_add of_int_mult add: code_of_small)
  have "utf8_step ascii finish b0 s = ?s1" using assms by (intro step_start(1)) auto
  moreover have "utf8_step ascii finish b1 ?s1 = ?s2"
    using step_middle [of ?s1 1 b1 x ascii finish] assms unfolding u by (cases s) simp
  moreover have "utf8_step ascii finish b2 ?s2 = ?s3"
    using step_middle [of ?s2 0 b2 w ascii finish] assms unfolding u by (cases s) simp
  moreover have "utf8_step ascii finish b3 ?s3 = finish (s\<lparr>cv_code := word_of_int (((y * 64 + x) * 64 + w) * 64 + v), cv_state := 0\<rparr>)"
    using step_last [of ?s3 b3 v ascii finish] assms unfolding u by (cases s) simp
  ultimately show ?thesis using assms by (simp del: conv_loop.simps add: loop_byte_step)
qed

lemma map_eq_four: "map f xs = [a, b, c, d] \<Longrightarrow> \<exists>x y z w. xs = [x, y, z, w] \<and> f x = a \<and> f y = b \<and> f z = c \<and> f w = d"
  by (auto simp: map_eq_Cons_conv)

lemma run_code_point:
  assumes "scalar cp" and "cv_state s = 0"
  shows "utf8_loop ascii finish (ucodepoint_to_utf8 cp @ rest) s
    = utf8_loop ascii finish rest
        (if uint cp \<le> 127 then ascii (ucast cp) s else finish (s\<lparr>cv_code := cp, cv_state := 0\<rparr>))"
proof -
  define c where "c = uint cp"
  have c: "0 < c" "c \<le> 1114111" using assms(1) by (simp_all add: scalar_uint c_def)
  have d: "c div 64 * 64 + c mod 64 = c" "c div 4096 * 64 + c div 64 mod 64 = c div 64"
    "c div 262144 * 64 + c div 4096 mod 64 = c div 4096"
    using digit64 [of 1 c] digit64 [of 64 c] digit64 [of 4096 c] by simp_all
  have w: "word_of_int c = cp" by (simp add: c_def)
  note u = utf8_uints [of cp, folded c_def, unfolded Let_def]
  consider "c \<le> 127" | "\<not> c \<le> 127" "c \<le> 2047" | "\<not> c \<le> 127" "\<not> c \<le> 2047" "c \<le> 65535" | "\<not> c \<le> 127" "\<not> c \<le> 2047" "\<not> c \<le> 65535"
    by linarith
  then show ?thesis
  proof cases
    case 1
    then have l: "uint (ucast cp :: uchar) = c" using u by (auto simp: ucodepoint_to_utf8_def word_le_def c_def)
    have "ucodepoint_to_utf8 cp = [ucast cp]" using 1 by (simp add: ucodepoint_to_utf8_def word_le_def c_def)
    then show ?thesis using 1 l c(1) assms(2) step_start(4) [OF assms(2), of "ucast cp" ascii finish]
      by (simp del: conv_loop.simps add: loop_byte_step c_def)
  next
    case 2
    then obtain b0 b1 where b: "ucodepoint_to_utf8 cp = [b0, b1]" "uint b0 = 192 + c div 64 mod 32" "uint b1 = 128 + c mod 64"
      using u by (auto simp: map_eq_Cons_conv)
    have "c div 64 mod 32 = c div 64" using 2 c zdiv_mono1 [of c 2047 64] by (intro mod_pos_pos_trivial) simp_all
    then show ?thesis
      using run_two [OF assms(2) b(2) _ _ b(3), of ascii finish rest] 2(1) unfolding b(1) c_def [symmetric]
      by (simp only: d w if_False)
  next
    case 3
    then obtain b0 b1 b2 where b: "ucodepoint_to_utf8 cp = [b0, b1, b2]" "uint b0 = 224 + c div 4096 mod 16"
        "uint b1 = 128 + c div 64 mod 64" "uint b2 = 128 + c mod 64"
      using u by (auto simp: map_eq_Cons_conv)
    have "c div 4096 mod 16 = c div 4096" using 3 c zdiv_mono1 [of c 65535 4096] by (intro mod_pos_pos_trivial) simp_all
    then show ?thesis
      using run_three [OF assms(2) b(2) _ _ b(3) _ _ b(4), of ascii finish rest] 3(1) unfolding b(1) c_def [symmetric]
      by (simp only: d w if_False)
  next
    case 4
    then have "map uint (ucodepoint_to_utf8 cp)
        = [240 + c div 262144 mod 8, 128 + c div 4096 mod 64, 128 + c div 64 mod 64, 128 + c mod 64]"
      using u by (simp only: if_False)
    from map_eq_four [OF this] obtain b0 b1 b2 b3 where b: "ucodepoint_to_utf8 cp = [b0, b1, b2, b3]"
        "uint b0 = 240 + c div 262144 mod 8" "uint b1 = 128 + c div 4096 mod 64" "uint b2 = 128 + c div 64 mod 64"
        "uint b3 = 128 + c mod 64"
      by blast
    have "c div 262144 mod 8 = c div 262144" using c zdiv_mono1 [of c 1114111 262144] by (intro mod_pos_pos_trivial) simp_all
    then show ?thesis
      using run_four [OF assms(2) b(2) _ _ b(3) _ _ b(4) _ _ b(5), of ascii finish rest] 4(1) unfolding b(1) c_def [symmetric]
      by (simp only: d w if_False)
  qed
qed

end
