(* ===== verification/PropsUnicode.thy ===== *)
theory PropsUnicode
  imports UnicodeRun
begin

text \<open>
  Properties of the character conversions: what is encoded is decoded again, escaping is undone, and
  which conversions stay inside their output array.
\<close>

subsection \<open>Putting out with a test for room\<close>

definition filled :: "nat option \<Rightarrow> 'a conv \<Rightarrow> bool" where
  "filled n s \<longleftrightarrow> cv_state s = 0 \<and> (case n of None \<Rightarrow> cv_out s = [] | Some m \<Rightarrow> cv_len s = length (cv_out s) \<and> cv_len s < m)"

definition fits :: "nat option \<Rightarrow> nat \<Rightarrow> bool" where
  "fits n k \<longleftrightarrow> (case n of None \<Rightarrow> True | Some m \<Rightarrow> k < m)"

definition appended :: "nat option \<Rightarrow> 'a list \<Rightarrow> 'a conv \<Rightarrow> 'a conv \<Rightarrow> bool" where
  "appended n xs s s' \<longleftrightarrow> filled n s' \<and> cv_len s' = cv_len s + length xs \<and> (n \<noteq> None \<longrightarrow> cv_out s' = cv_out s @ xs)"

lemma put_appended:
  assumes "filled n s" and "fits n (cv_len s + length xs)"
  shows "appended n xs s ((put n xs s)\<lparr>cv_code := c\<rparr>)" and "appended n xs s (put n xs s)"
  using assms by (auto simp: put_def appended_def filled_def fits_def split: option.splits)

lemma filled_code: "filled n s \<Longrightarrow> filled n (s\<lparr>cv_code := c, cv_state := 0\<rparr>)" "filled n s \<Longrightarrow> filled n (s\<lparr>cv_code := c\<rparr>)"
  by (auto simp: filled_def split: option.splits)

lemma appended_code:
  "appended n xs (s\<lparr>cv_code := c, cv_state := 0\<rparr>) s' = appended n xs s s'" "appended n xs (s\<lparr>cv_code := c\<rparr>) s' = appended n xs s s'"
  by (auto simp: appended_def)

lemma filled_state: "filled n s \<Longrightarrow> cv_state s = 0"
  by (simp add: filled_def)

text \<open>A loop whose input comes in pieces, each of which appends its output.\<close>

lemma loop_pieces:
  assumes "\<And>x s rest. \<lbrakk>x \<in> set xs; filled n s; I s; fits n (cv_len s + length (out x))\<rbrakk> \<Longrightarrow>
      \<exists>s'. appended n (out x) s s' \<and> I s' \<and> conv_loop step is_end (inp x @ rest) s = conv_loop step is_end rest s'"
    and "filled n s" and "I s" and "fits n (cv_len s + length (concat (map out xs)))"
  shows "\<exists>s'. appended n (concat (map out xs)) s s' \<and> conv_loop step is_end (concat (map inp xs)) s = Inr s'"
  using assms
proof (induction xs arbitrary: s)
  case Nil
  then show ?case by (auto simp: appended_def)
next
  case (Cons x xs)
  have "fits n (cv_len s + length (out x))" using Cons.prems(4) by (auto simp: fits_def split: option.splits)
  then obtain s1 where s1: "appended n (out x) s s1" "I s1"
      "conv_loop step is_end (inp x @ concat (map inp xs)) s = conv_loop step is_end (concat (map inp xs)) s1"
    using Cons.prems(1) [of x s "concat (map inp xs)"] Cons.prems(2,3) by auto
  then have "filled n s1" "fits n (cv_len s1 + length (concat (map out xs)))"
    using Cons.prems(4) by (auto simp: appended_def add.assoc)
  then obtain s2 where "appended n (concat (map out xs)) s1 s2" "conv_loop step is_end (concat (map inp xs)) s1 = Inr s2"
    using Cons.IH [OF Cons.prems(1) _ s1(2)] by auto
  then show ?case using s1 by (auto simp: appended_def)
qed

lemma converted:
  assumes "appended n xs conv0 s" shows "conv_end n s = Inr (length xs, if n = None then [] else xs)"
  using assms by (auto simp: conv_end_def appended_def filled_def conv0_def split: option.splits)

lemma filled0: "n \<noteq> Some 0 \<Longrightarrow> filled n conv0"
  by (auto simp: filled_def conv0_def split: option.splits)

lemma convert_pieces:
  assumes "\<And>x s rest. \<lbrakk>x \<in> set xs; filled n s; I s; fits n (cv_len s + length (out x))\<rbrakk> \<Longrightarrow>
      \<exists>s'. appended n (out x) s s' \<and> I s' \<and> conv_loop step is_end (inp x @ rest) s = conv_loop step is_end rest s'"
    and "I conv0" and "fits n (length (concat (map out xs)))"
  shows "convert step is_end n (concat (map inp xs)) = Inr (length (concat (map out xs)), if n = None then [] else concat (map out xs))"
    and "(case conv_loop step is_end (concat (map inp xs)) conv0 of Inl a \<Rightarrow> Inl a | Inr s \<Rightarrow> conv_end n s)
      = Inr (length (concat (map out xs)), if n = None then [] else concat (map out xs))"
proof -
  have n: "n \<noteq> Some 0" using assms(3) by (auto simp: fits_def)
  have "\<exists>s'. appended n (concat (map out xs)) conv0 s' \<and> conv_loop step is_end (concat (map inp xs)) conv0 = Inr s'"
    using assms(1) filled0 [OF n] assms(2,3) by (intro loop_pieces [where I = I]) (simp_all add: conv0_def)
  then obtain s' where s': "appended n (concat (map out xs)) conv0 s'" "conv_loop step is_end (concat (map inp xs)) conv0 = Inr s'"
    by blast
  with n converted [OF s'(1)] show "convert step is_end n (concat (map inp xs)) = Inr (length (concat (map out xs)), if n = None then [] else concat (map out xs))"
    and "(case conv_loop step is_end (concat (map inp xs)) conv0 of Inl a \<Rightarrow> Inl a | Inr s \<Rightarrow> conv_end n s)
      = Inr (length (concat (map out xs)), if n = None then [] else concat (map out xs))"
    by (auto simp: convert_def)
qed

lemmas convert_pieces_any = convert_pieces [where I = "\<lambda>_. True", unfolded simp_thms True_implies_equals]

subsection \<open>Wide characters\<close>

lemma scalar_sint: "scalar cp \<Longrightarrow> sint cp = uint cp"
  by (simp add: scalar_uint sint_uint signed_take_bit_int_eq_self)

lemma ascii_uint: "uint cp \<le> 127 \<Longrightarrow> uint (ucast cp :: uchar) = uint (cp :: 32 word)"
  by (simp add: unsigned_ucast_eq take_bit_eq_mod)

lemma wide_piece:
  assumes "scalar cp" and "filled n s" and "fits n (cv_len s + length [sint cp])"
  shows "\<exists>s'. appended n [sint cp] s s' \<and> conv_loop (utf8_to_wchar_step True n) (\<lambda>ch. ch = 0) (ucodepoint_to_utf8 cp @ rest) s
    = conv_loop (utf8_to_wchar_step True n) (\<lambda>ch. ch = 0) rest s'"
proof -
  have w: "wide_of True cp = [sint cp]"
    using assms(1) by (auto simp: wide_of_def ucodepoint_to_utf32_def scalar_def)
  show ?thesis
    unfolding utf8_to_wchar_step_def run_code_point [OF assms(1) filled_state [OF assms(2)]]
    using put_appended(2) [OF filled_code(1) [OF assms(2), of cp], where xs = "[sint cp]"] assms(3)
      put_appended(2) [OF filled_code(2) [OF assms(2), of "ucast (ucast cp :: uchar)"], where xs = "[sint cp]"]
    by (auto simp: put_wide_def w appended_code ascii_uint scalar_sint [OF assms(1)])
qed

lemma narrow_piece:
  assumes "scalar cp" and "filled n s" and "fits n (cv_len s + length (ucodepoint_to_utf8 cp))"
  shows "\<exists>s'. appended n (ucodepoint_to_utf8 cp) s s' \<and> conv_loop (wchar_to_utf8_step n) (\<lambda>ch. ch = 0) ([sint cp] @ rest) s
    = conv_loop (wchar_to_utf8_step n) (\<lambda>ch. ch = 0) rest s'"
proof -
  have "wchar_to_utf8_step n (sint cp) s = Inr ((put n (ucodepoint_to_utf8 cp) (s\<lparr>cv_code := cp\<rparr>))\<lparr>cv_code := 0\<rparr>)"
    using assms(1) filled_state [OF assms(2)]
    by (auto simp: wchar_to_utf8_step_def scalar_sint [OF assms(1)] scalar_uint)
  then show ?thesis
    using put_appended(1) [OF filled_code(2) [OF assms(2), of cp], where xs = "ucodepoint_to_utf8 cp" and c = 0] assms(3) filled_state [OF assms(2)]
      scalar_sint [OF assms(1)] assms(1)
    by (auto simp: appended_code scalar_uint)
qed

text \<open>
  C21: A wide string of Unicode characters survives the way to UTF-8 and back, for 4 byte \<open>wchar_t\<close>, when
  the arrays have room for the result and its 0; the two functions that only measure return the
  lengths of these results.
\<close>

theorem wide_round_trip:
  assumes "\<forall>cp \<in> set cps. scalar cp" and "wchar_to_utf8_len (Some (map sint cps)) = Inr (k, [])" and "k < m" and "length cps < n"
  shows "\<exists>bs. length bs = k \<and> wchar_to_utf8 (Some (map sint cps)) (Some m) = Inr (k, bs) \<and>
    utf8_to_wchar True (Some bs) (Some n) = Inr (length cps, map sint cps) \<and>
    utf8_to_wchar_len True (Some bs) = Inr (length cps, [])"
proof -
  let ?bs = "concat (map ucodepoint_to_utf8 cps)"
  have c: "concat (map (\<lambda>cp. [sint cp]) cps) = map sint cps" by (induction cps) simp_all
  have narrow: "wchar_to_utf8 (Some (map sint cps)) o' = Inr (length ?bs, if o' = None then [] else ?bs)" if "fits o' (length ?bs)" for o'
    using convert_pieces_any(2) [OF narrow_piece that] assms(1) unfolding c by (simp add: wchar_to_utf8_def)
  have wide: "utf8_to_wchar True (Some ?bs) o' = Inr (length cps, if o' = None then [] else map sint cps)" if "fits o' (length cps)" for o'
    using convert_pieces_any(1) [OF wide_piece, of cps o'] that assms(1) unfolding c by (simp add: utf8_to_wchar_def)
  have "k = length ?bs" using narrow [of None] assms(2) by (simp add: wchar_to_utf8_len_def fits_def)
  then show ?thesis
    using narrow [of "Some m"] wide [of "Some n"] wide [of None] assms(3,4)
    by (simp add: fits_def utf8_to_wchar_len_def)
qed

subsection \<open>Escapes\<close>

lemma hex_step: "hex (Suc n) w = hex_digit (drop_bit (4 * n) w AND 15) # hex n w"
  by (simp add: hex_def)

lemma hex_digit_value:
  assumes "d \<le> (15 :: 32 word)" shows "hex_value (hex_digit d) = Some d" and "hex_digit d \<noteq> 0" and "isprint (hex_digit d)"
proof -
  have "unat d \<le> 15" using assms by (simp add: word_le_nat_alt)
  then have "unat d \<in> {0,1,2,3,4,5,6,7,8,9,10,11,12,13,14,15}" by simp arith
  then have "word_of_nat (unat d) \<in> (word_of_nat ` {0,1,2,3,4,5,6,7,8,9,10,11,12,13,14,15} :: 32 word set)" by (rule imageI)
  then have "d \<in> {0,1,2,3,4,5,6,7,8,9,10,11,12,13,14,15}" by simp
  then show "hex_value (hex_digit d) = Some d" "hex_digit d \<noteq> 0" "isprint (hex_digit d)"
    by (elim insertE emptyE; simp add: hex_value_def hex_digit_def isprint_def)+
qed

lemma nibble_le: "drop_bit k w AND 15 \<le> (15 :: 32 word)"
  by (metis word_and_le1)

lemma nibble_split: "take_bit (4 * Suc n) w = push_bit (4 * n) (drop_bit (4 * n) w AND 15) + take_bit (4 * n) (w :: 32 word)"
proof -
  have m: "(15 :: 32 word) = mask 4" by (simp add: mask_eq_exp_minus_1)
  have "push_bit (4 * n) (drop_bit (4 * n) w AND 15) AND take_bit (4 * n) w = 0"
    by (rule bit_word_eqI) (auto simp: bit_and_iff bit_push_bit_iff bit_take_bit_iff)
  then have "push_bit (4 * n) (drop_bit (4 * n) w AND 15) + take_bit (4 * n) w
      = push_bit (4 * n) (drop_bit (4 * n) w AND 15) OR take_bit (4 * n) w"
    by (rule disjunctive_add_eq_or)
  also have "\<dots> = take_bit (4 * Suc n) w"
    unfolding m by (rule bit_word_eqI) (auto simp: bit_or_iff bit_and_iff bit_push_bit_iff bit_take_bit_iff bit_drop_bit_eq bit_mask_iff)
  finally show ?thesis by simp
qed

abbreviation unescape_loop where
  "unescape_loop n \<equiv> conv_loop (unescape_step n) (\<lambda>ch. ch = 0)"

lemma unescape_hex:
  assumes "cv_state s = 2" and "cv_digits s = Suc k"
  shows "unescape_loop n (hex (Suc k) w @ rest) s
    = unescape_loop n rest ((put n (ucodepoint_to_utf8 (push_bit (4 * Suc k) (cv_code s) + take_bit (4 * Suc k) w))
        (s\<lparr>cv_state := 0, cv_digits := 0, cv_code := push_bit (4 * Suc k) (cv_code s) + take_bit (4 * Suc k) w\<rparr>))\<lparr>cv_code := 0\<rparr>)"
  using assms
proof (induction k arbitrary: s)
  case 0
  note d = hex_digit_value [OF nibble_le [of 0 w]]
  have t: "take_bit 4 w = w AND 15" by (simp add: take_bit_eq_mask mask_eq_exp_minus_1)
  have "unescape_step n (hex_digit (w AND 15)) s
    = Inr ((put n (ucodepoint_to_utf8 (cv_code s * 16 + (w AND 15)))
        (s\<lparr>cv_state := 0, cv_digits := 0, cv_code := cv_code s * 16 + (w AND 15)\<rparr>))\<lparr>cv_code := 0\<rparr>)"
    using 0 d by (simp add: unescape_step_def unescape_digit_def) (cases s; simp)
  then show ?case using 0 d by (simp add: hex_def t push_bit_eq_mult)
next
  case (Suc k)
  let ?d = "drop_bit (4 * Suc k) w AND 15"
  note d = hex_digit_value [OF nibble_le [of "4 * Suc k" w]]
  let ?s1 = "s\<lparr>cv_code := cv_code s * 16 + ?d, cv_digits := Suc k\<rparr>"
  have step: "unescape_step n (hex_digit ?d) s = Inr ?s1"
    using Suc.prems d by (simp add: unescape_step_def unescape_digit_def)
  have "push_bit (4 * Suc k) (cv_code s * 16 + ?d) + take_bit (4 * Suc k) w
      = push_bit (4 * Suc (Suc k)) (cv_code s) + take_bit (4 * Suc (Suc k)) w"
    unfolding nibble_split [of "Suc k"] by (simp add: push_bit_eq_mult algebra_simps power_add)
  then have "unescape_loop n (hex (Suc k) w @ rest) ?s1 = unescape_loop n rest
      ((put n (ucodepoint_to_utf8 (push_bit (4 * Suc (Suc k)) (cv_code s) + take_bit (4 * Suc (Suc k)) w))
        (s\<lparr>cv_state := 0, cv_digits := 0, cv_code := push_bit (4 * Suc (Suc k)) (cv_code s) + take_bit (4 * Suc (Suc k)) w\<rparr>))\<lparr>cv_code := 0\<rparr>)"
    using Suc.IH [of ?s1] Suc.prems(1) by (cases s) (simp del: mult_Suc_right)
  then show ?case
    unfolding hex_step [of "Suc k"] using step d(2) Suc.prems(1) by simp
qed

definition escaped :: "32 word \<Rightarrow> uchar list" where
  "escaped cp = (if uint cp \<le> 127 then escape_ascii (ucast cp) else escape_code cp)"

lemma escape_piece:
  assumes "scalar cp" and "filled n s" and "fits n (cv_len s + length (escaped cp))"
  shows "\<exists>s'. appended n (escaped cp) s s' \<and> conv_loop (escape_step n) (\<lambda>ch. ch = 0) (ucodepoint_to_utf8 cp @ rest) s
    = conv_loop (escape_step n) (\<lambda>ch. ch = 0) rest s'"
  unfolding escape_step_def run_code_point [OF assms(1) filled_state [OF assms(2)]]
  using put_appended(2) [OF filled_code(1) [OF assms(2), of cp], where xs = "escaped cp"] assms(3)
    put_appended(2) [OF assms(2,3)]
  by (auto simp: appended_code escaped_def)

lemma copy_fits:
  assumes "filled n s" and "fits n (cv_len s + 1)"
  shows "\<exists>s'. copy_to n 0 ch (s\<lparr>cv_state := k\<rparr>) = Inr s' \<and> appended n [ch] s s' \<and> cv_code s' = cv_code s"
    and "\<exists>s'. copy_to n 0 ch s = Inr s' \<and> appended n [ch] s s' \<and> cv_code s' = cv_code s"
  using assms by (auto simp: copy_to_def put_unchecked_def filled_def appended_def fits_def split: option.splits)

lemma unescape_named:
  assumes "filled n s" and "fits n (cv_len s + 1)" and "(c, ch) \<in> {(97, 7), (98, 8), (102, 12), (110, 10), (114, 13), (116, 9)}"
  shows "\<exists>s'. appended n [ch] s s' \<and> cv_code s' = cv_code s \<and> unescape_loop n ([92, c] @ rest) s = unescape_loop n rest s'"
proof -
  obtain s' where "copy_to n 0 ch (s\<lparr>cv_state := 1\<rparr>) = Inr s'" "appended n [ch] s s'" "cv_code s' = cv_code s"
    using copy_fits(1) [OF assms(1,2), of ch 1] by auto
  then show ?thesis
    using assms(3) filled_state [OF assms(1)]
    by (intro exI [of _ s']) (elim insertE emptyE; simp add: unescape_step_def unescape_plain_def unescape_char_def)
qed

lemma unescape_printable:
  assumes "filled n s" and "fits n (cv_len s + 1)" and "isprint ch" and "ch \<noteq> 92"
  shows "\<exists>s'. appended n [ch] s s' \<and> cv_code s' = cv_code s \<and> unescape_loop n ([ch] @ rest) s = unescape_loop n rest s'"
proof -
  obtain s' where s': "copy_to n 0 ch s = Inr s'" "appended n [ch] s s'" "cv_code s' = cv_code s"
    using copy_fits(2) [OF assms(1,2), of ch] by auto
  moreover have "\<not> 0x80 \<le> ch" "\<not> 0xc0 \<le> ch" "\<not> 0xe0 \<le> ch" "\<not> 0xf0 \<le> ch" "ch \<noteq> 0"
    using assms(3) unfolding isprint_def word_le_def by auto
  then have "unescape_step n ch s = Inr s'"
    using assms(4) filled_state [OF assms(1)] s'(1) by (simp add: unescape_step_def unescape_plain_def)
  ultimately show ?thesis using filled_state [OF assms(1)] \<open>ch \<noteq> 0\<close> by auto
qed

text \<open>The escapes with hexadecimal digits.\<close>

lemma unescape_coded:
  assumes "filled n s" and "cv_code s = 0" and "fits n (cv_len s + length (ucodepoint_to_utf8 (take_bit (4 * k) w)))"
    and "(c, k) \<in> {(120, 2), (117, 4), (85, 8)}"
  shows "\<exists>s'. appended n (ucodepoint_to_utf8 (take_bit (4 * k) w)) s s' \<and> cv_code s' = 0 \<and>
    unescape_loop n (([92, c] @ hex k w) @ rest) s = unescape_loop n rest s'"
proof -
  let ?t = "take_bit (4 * k) w"
  let ?s1 = "s\<lparr>cv_state := 2, cv_digits := k\<rparr>"
  let ?s2 = "(put n (ucodepoint_to_utf8 ?t) (s\<lparr>cv_state := 0, cv_digits := 0, cv_code := ?t\<rparr>))\<lparr>cv_code := 0\<rparr>"
  have start: "unescape_loop n (([92, c] @ hex k w) @ rest) s = unescape_loop n (hex k w @ rest) ?s1"
    using assms(4) filled_state [OF assms(1)]
    by (elim insertE emptyE; cases s; simp add: unescape_step_def unescape_plain_def unescape_char_def)
  obtain k' where "k = Suc k'" using assms(4) by (cases k) auto
  then have "unescape_loop n (hex k w @ rest) ?s1 = unescape_loop n rest ?s2"
    using unescape_hex [of ?s1 k' n w rest] assms(2) by (cases s) simp
  moreover have "filled n (s\<lparr>cv_state := 0, cv_digits := 0, cv_code := ?t\<rparr>)"
    using assms(1) by (auto simp: filled_def split: option.splits)
  then have "appended n (ucodepoint_to_utf8 ?t) s ?s2"
    using put_appended(1) [of n "s\<lparr>cv_state := 0, cv_digits := 0, cv_code := ?t\<rparr>" "ucodepoint_to_utf8 ?t" 0] assms(3)
    by (auto simp: appended_def)
  ultimately show ?thesis using start by auto
qed

lemma ucast_ascii:
  assumes "uint (cp :: 32 word) \<le> 127"
  shows "ucodepoint_to_utf8 cp = [ucast cp]" and "take_bit 8 (ucast (ucast cp :: uchar) :: 32 word) = cp"
    and "(ucast cp :: uchar) = 11 \<longleftrightarrow> cp = 11" and "(ucast cp :: uchar) = 92 \<longleftrightarrow> cp = 92"
proof -
  show "ucodepoint_to_utf8 cp = [ucast cp]" using assms by (simp add: ucodepoint_to_utf8_def word_le_def)
  show "(ucast cp :: uchar) = 11 \<longleftrightarrow> cp = 11" "(ucast cp :: uchar) = 92 \<longleftrightarrow> cp = 92"
    using ascii_uint [OF assms] by (simp_all add: word_uint_eq_iff)
  show "take_bit 8 (ucast (ucast cp :: uchar) :: 32 word) = cp"
    unfolding word_uint_eq_iff unsigned_take_bit_eq unsigned_ucast_eq using assms by (simp add: take_bit_eq_mod)
qed

lemma take_bit_code:
  assumes "cp \<le> (0xffff :: 32 word)" shows "take_bit 16 cp = cp"
  using assms unfolding word_uint_eq_iff unsigned_take_bit_eq by (simp add: word_le_def take_bit_eq_mod)

lemma escape_ascii_cases:
  assumes "ch \<noteq> 11"
  shows "(\<exists>c. (c, ch) \<in> {(97, 7), (98, 8), (102, 12), (110, 10), (114, 13), (116, 9)} \<and> escape_ascii ch = [92, c]) \<or>
    isprint ch \<and> escape_ascii ch = [ch] \<or> escape_ascii ch = [92, 120] @ hex 2 (ucast ch)"
  using assms by (simp add: escape_ascii_def)

lemma unescape_piece:
  assumes "scalar cp" and "cp \<noteq> 11" and "cp \<noteq> 92" and "filled n s" and "cv_code s = 0"
    and "fits n (cv_len s + length (ucodepoint_to_utf8 cp))"
  shows "\<exists>s'. appended n (ucodepoint_to_utf8 cp) s s' \<and> cv_code s' = 0 \<and>
    unescape_loop n (escaped cp @ rest) s = unescape_loop n rest s'"
proof (cases "uint cp \<le> 127")
  case True
  let ?ch = "ucast cp :: uchar"
  note u = ucast_ascii [OF True]
  have f: "fits n (cv_len s + 1)" using assms(6) u(1) by simp
  have ne: "?ch \<noteq> 11" "?ch \<noteq> 92" using u(3,4) assms(2,3) by simp_all
  have e: "escaped cp = escape_ascii ?ch" using True by (simp add: escaped_def)
  consider (named) c where "(c, ?ch) \<in> {(97, 7), (98, 8), (102, 12), (110, 10), (114, 13), (116, 9)}" "escaped cp = [92, c]"
    | (plain) "isprint ?ch" "escaped cp = [?ch]" | (coded) "escaped cp = [92, 120] @ hex 2 (ucast ?ch)"
    unfolding e using escape_ascii_cases [OF ne(1)] by blast
  then show ?thesis
  proof cases
    case named
    then show ?thesis using unescape_named [OF assms(4) f named(1), of rest] assms(5) u(1) by simp
  next
    case plain
    then show ?thesis using unescape_printable [OF assms(4) f plain(1) ne(2), of rest] assms(5) u(1) by simp
  next
    case coded
    then show ?thesis
      using unescape_coded [OF assms(4,5), of 2 "ucast ?ch" 120 rest] assms(6) u(2) by simp
  qed
next
  case False
  show ?thesis
  proof (cases "cp \<le> 0xffff")
    case True
    then have "escaped cp = [92, 117] @ hex 4 cp" using False by (simp add: escaped_def escape_code_def)
    then show ?thesis
      using unescape_coded [OF assms(4,5), of 4 cp 117 rest] assms(6) take_bit_code [OF True] by simp
  next
    case far: False
    then have "escaped cp = [92, 85] @ hex 8 cp" using False by (simp add: escaped_def escape_code_def)
    moreover have "take_bit 32 cp = cp" by (rule bit_word_eqI) (simp add: bit_take_bit_iff)
    ultimately show ?thesis using unescape_coded [OF assms(4,5), of 8 cp 85 rest] assms(6) by simp
  qed
qed

lemma hex_printable: "ch \<in> set (hex k w) \<Longrightarrow> isprint ch"
  using hex_digit_value(3) [OF nibble_le] by (auto simp: hex_def)

lemma escaped_printable: "ch \<in> set (escaped cp) \<Longrightarrow> isprint ch"
  by (auto simp: escaped_def escape_ascii_def escape_code_def split: if_splits dest: hex_printable)
    (simp_all add: isprint_def)

lemma escaped_length: "length (escaped cp) \<le> 10"
  by (simp add: escaped_def escape_ascii_def escape_code_def hex_def)

text \<open>
  C22: Escaping is undone: a text of Unicode characters without vertical tabs and backslashes, escaped to
  ASCII, consists of printable characters, at most ten for each character of the text, and
  unescaping returns the text. (A backslash is not escaped, and a vertical tab comes back as a
  backspace.)
\<close>

theorem escape_round_trip:
  assumes "\<forall>cp \<in> set cps. scalar cp \<and> cp \<noteq> 11 \<and> cp \<noteq> 92" and "bs = concat (map ucodepoint_to_utf8 cps)"
    and "10 * length cps < m" and "length bs < n"
  shows "\<exists>es. escape_to_ascii (Some bs) (Some m) = Inr (length es, es) \<and> length es \<le> 10 * length cps \<and>
    (\<forall>ch \<in> set es. isprint ch) \<and> unescape_to_utf8 (Some es) (Some n) = Inr (length bs, bs)"
proof -
  let ?es = "concat (map escaped cps)"
  have l: "length ?es \<le> 10 * length cps"
    using escaped_length by (induction cps) (auto simp: add_mono)
  have "fits (Some m) (length ?es)" using l assms(3) by (simp add: fits_def)
  then have "escape_to_ascii (Some bs) (Some m) = Inr (length ?es, ?es)"
    using convert_pieces_any(1) [OF escape_piece, of cps "Some m"] assms(1) by (simp add: escape_to_ascii_def assms(2))
  moreover have "unescape_to_utf8 (Some ?es) (Some n) = Inr (length bs, bs)"
    using convert_pieces(1) [where I = "\<lambda>s. cv_code s = 0" and xs = cps and n = "Some n" and out = ucodepoint_to_utf8
        and inp = escaped and step = "unescape_step (Some n)" and is_end = "\<lambda>ch. ch = 0"] unescape_piece assms
    by (simp add: unescape_to_utf8_def fits_def conv0_def)
  ultimately show ?thesis using l escaped_printable by (intro exI [of _ ?es]) auto
qed

subsection \<open>Room in the output array\<close>

text \<open>
  A conversion into an array of \<open>n\<close> elements beside the one that only counts: they are in step and what was put out
  fits, or the first has stopped for want of room, and the count has reached \<open>n\<close> or the input is wrong.
\<close>

definition in_step :: "nat \<Rightarrow> 'a conv \<Rightarrow> 'a conv \<Rightarrow> bool" where
  "in_step n s c \<longleftrightarrow>
     (if cv_state s = ERROR_STATE then cv_state c = ERROR_STATE \<or> n \<le> cv_len c
      else cv_state c = cv_state s \<and> cv_code c = cv_code s \<and> cv_len c = cv_len s \<and> length (cv_out s) = cv_len s \<and> cv_len s < n)"

definition counts_up :: "(nat option \<Rightarrow> 'c \<Rightarrow> 'a conv \<Rightarrow> abort + 'a conv) \<Rightarrow> bool" where
  "counts_up step \<longleftrightarrow> (\<forall>ch c. \<exists>c'. step None ch c = Inr c' \<and> cv_len c \<le> cv_len c')"

definition steps_together :: "nat \<Rightarrow> (nat option \<Rightarrow> 'c \<Rightarrow> 'a conv \<Rightarrow> abort + 'a conv) \<Rightarrow> bool" where
  "steps_together n step \<longleftrightarrow>
     (\<forall>ch s c. in_step n s c \<longrightarrow> cv_state s \<noteq> ERROR_STATE \<longrightarrow>
        (\<exists>s' c'. step (Some n) ch s = Inr s' \<and> step None ch c = Inr c' \<and> in_step n s' c'))"

lemma count_goes_on:
  assumes "counts_up step"
  shows "\<exists>c'. conv_loop (step None) is_end input c = Inr c' \<and> (cv_state c = ERROR_STATE \<longrightarrow> c' = c) \<and> cv_len c \<le> cv_len c'"
proof (induction input arbitrary: c)
  case (Cons ch rest)
  obtain c1 where c1: "step None ch c = Inr c1" "cv_len c \<le> cv_len c1" using assms unfolding counts_up_def by blast
  show ?case using Cons.IH [of c1] c1 by auto
qed simp

lemma loops_together:
  assumes "counts_up step" and "steps_together n step"
  shows "in_step n s c \<Longrightarrow>
    \<exists>s' c'. conv_loop (step (Some n)) is_end input s = Inr s' \<and> conv_loop (step None) is_end input c = Inr c' \<and> in_step n s' c'"
proof (induction input arbitrary: s c)
  case (Cons ch rest)
  show ?case
  proof (cases "cv_state s = ERROR_STATE")
    case True
    obtain c' where "conv_loop (step None) is_end (ch # rest) c = Inr c'" "cv_state c = ERROR_STATE \<longrightarrow> c' = c" "cv_len c \<le> cv_len c'"
      using count_goes_on [OF assms(1)] by blast
    then show ?thesis using True Cons.prems by (auto simp: in_step_def)
  next
    case False
    obtain s1 c1 where 1: "step (Some n) ch s = Inr s1" "step None ch c = Inr c1" "in_step n s1 c1"
      using assms(2) Cons.prems False unfolding steps_together_def by blast
    have "cv_state c \<noteq> ERROR_STATE" using False Cons.prems by (simp add: in_step_def)
    then show ?thesis using Cons.IH [OF 1(3)] 1(1,2) False Cons.prems by (cases "is_end ch") auto
  qed
qed auto

lemma ends_together:
  assumes "in_step n s c" and "0 < n"
  shows "\<exists>xs m. conv_end (Some n) s = Inr (length xs, xs) \<and> conv_end None c = Inr (m, []) \<and> length xs = (if m < n then m else 0)"
  using assms by (auto simp: conv_end_def in_step_def Let_def split: if_splits)

lemma conversions_together:
  assumes "counts_up step" and "steps_together n step" and "0 < n"
  shows "\<exists>xs m. convert (step (Some n)) is_end (Some n) input = Inr (length xs, xs) \<and>
      convert (step None) is_end None input = Inr (m, []) \<and> length xs = (if m < n then m else 0)"
    and "\<exists>xs m. (case conv_loop (step (Some n)) is_end input conv0 of Inl a \<Rightarrow> Inl a | Inr s \<Rightarrow> conv_end (Some n) s) = Inr (length xs, xs) \<and>
      (case conv_loop (step None) is_end input conv0 of Inl a \<Rightarrow> Inl a | Inr s \<Rightarrow> conv_end None s) = Inr (m, []) \<and>
      length xs = (if m < n then m else 0)"
proof -
  have "in_step n conv0 conv0" using assms(3) by (simp add: in_step_def conv0_def)
  then obtain s c where "conv_loop (step (Some n)) is_end input conv0 = Inr s" "conv_loop (step None) is_end input conv0 = Inr c" "in_step n s c"
    using loops_together [OF assms(1,2)] by blast
  then show "\<exists>xs m. convert (step (Some n)) is_end (Some n) input = Inr (length xs, xs) \<and>
      convert (step None) is_end None input = Inr (m, []) \<and> length xs = (if m < n then m else 0)"
    and "\<exists>xs m. (case conv_loop (step (Some n)) is_end input conv0 of Inl a \<Rightarrow> Inl a | Inr s \<Rightarrow> conv_end (Some n) s) = Inr (length xs, xs) \<and>
      (case conv_loop (step None) is_end input conv0 of Inl a \<Rightarrow> Inl a | Inr s \<Rightarrow> conv_end None s) = Inr (m, []) \<and>
      length xs = (if m < n then m else 0)"
    using ends_together [OF _ assms(3), of s c] assms(3) by (simp_all add: convert_def)
qed

lemma put_None: "cv_len c \<le> cv_len (put None xs c)"
  by (simp add: put_def)

lemma put_together: "in_step n s c \<Longrightarrow> cv_state s \<noteq> ERROR_STATE \<Longrightarrow> in_step n (put (Some n) xs s) (put None xs c)"
  by (auto simp: in_step_def put_def)

lemma in_step_update:
  "cv_state s \<noteq> ERROR_STATE \<Longrightarrow> in_step n s c \<Longrightarrow> in_step n (s\<lparr>cv_code := w, cv_state := k\<rparr>) (c\<lparr>cv_code := w, cv_state := k\<rparr>)"
  "cv_state s \<noteq> ERROR_STATE \<Longrightarrow> in_step n s c \<Longrightarrow> in_step n (s\<lparr>cv_state := k\<rparr>) (c\<lparr>cv_state := k\<rparr>)"
  "in_step n s c \<Longrightarrow> in_step n (s\<lparr>cv_code := w\<rparr>) (c\<lparr>cv_code := w\<rparr>)" "in_step n (fail s) (fail c)"
  by (simp_all add: in_step_def fail_def)

lemma in_stepD:
  "in_step n s c \<Longrightarrow> cv_state s \<noteq> ERROR_STATE \<Longrightarrow> cv_state c = cv_state s"
  "in_step n s c \<Longrightarrow> cv_state s \<noteq> ERROR_STATE \<Longrightarrow> cv_code c = cv_code s"
  by (simp_all add: in_step_def)

lemma utf8_step_None:
  assumes "\<And>ch c. cv_len c \<le> cv_len (ascii ch c)" and "\<And>c. cv_len c \<le> cv_len (finish c)"
  shows "cv_len c \<le> cv_len (utf8_step ascii finish ch c)"
  using assms(1) [of c ch] assms(2) [of "continue_code ch (c\<lparr>cv_state := 0\<rparr>)"]
  by (simp add: utf8_step_def continue_code_def fail_def)

lemma utf8_steps_together:
  assumes "in_step n s c" and "cv_state s \<noteq> ERROR_STATE"
    and "\<And>ch s c. in_step n s c \<Longrightarrow> cv_state s = 0 \<Longrightarrow> in_step n (ascii ch s) (ascii' ch c)"
    and "\<And>s c. in_step n s c \<Longrightarrow> cv_state s = 0 \<Longrightarrow> in_step n (finish s) (finish' c)"
  shows "in_step n (utf8_step ascii finish ch s) (utf8_step ascii' finish' ch c)"
  using assms(3) [OF assms(1), of ch] in_stepD [OF assms(1,2)]
    assms(4) [of "continue_code ch (s\<lparr>cv_state := 0\<rparr>)" "continue_code ch (c\<lparr>cv_state := 0\<rparr>)"] assms(1,2)
  by (simp add: utf8_step_def continue_code_def in_step_update)

lemma escape_together: "counts_up escape_step" "steps_together n escape_step"
proof -
  show "counts_up escape_step" by (simp add: counts_up_def escape_step_def utf8_step_None put_None)
  show "steps_together n escape_step"
    unfolding steps_together_def escape_step_def
    by (auto intro!: utf8_steps_together put_together dest: in_stepD) (simp add: in_stepD put_together)
qed

lemma wide_together: "counts_up (utf8_to_wchar_step w)" "steps_together n (utf8_to_wchar_step w)"
proof -
  have "cv_len c \<le> cv_len (put None [uint ch] (c\<lparr>cv_code := ucast ch\<rparr>))" for ch :: uchar and c
    using put_None [of "c\<lparr>cv_code := ucast ch\<rparr>"] by simp
  moreover have "cv_len c \<le> cv_len (put_wide w None c)" for c by (simp add: put_wide_def put_None fail_def)
  ultimately show "counts_up (utf8_to_wchar_step w)" by (simp add: counts_up_def utf8_to_wchar_step_def utf8_step_None)
  have "in_step n (put_wide w (Some n) s) (put_wide w None c)" if "in_step n s c" "cv_state s = 0" for s c
    using that in_stepD [of n s c] by (simp add: put_wide_def in_step_update put_together)
  then show "steps_together n (utf8_to_wchar_step w)"
    unfolding steps_together_def utf8_to_wchar_step_def
    by (auto intro!: utf8_steps_together put_together simp: in_step_update)
qed

lemma narrow_together: "counts_up wchar_to_utf8_step" "steps_together n wchar_to_utf8_step"
proof -
  have "cv_len c \<le> cv_len (put None xs (c\<lparr>cv_code := k\<rparr>))" for xs :: "uchar list" and c k
    using put_None [of "c\<lparr>cv_code := k\<rparr>"] by simp
  then show "counts_up wchar_to_utf8_step"
    by (simp add: counts_up_def wchar_to_utf8_step_def Let_def fail_def put_None)
  show "steps_together n wchar_to_utf8_step"
    unfolding steps_together_def
  proof (intro allI impI)
    fix ch and s c :: "uchar conv"
    assume st: "in_step n s c" "cv_state s \<noteq> ERROR_STATE"
    note eq = in_stepD [OF st]
    show "\<exists>s' c'. wchar_to_utf8_step (Some n) ch s = Inr s' \<and> wchar_to_utf8_step None ch c = Inr c' \<and> in_step n s' c'"
      using st eq by (simp add: wchar_to_utf8_step_def Let_def in_step_update put_together fail_def)
  qed
qed

text \<open>The conversion that stores a plain character without a test.\<close>

lemma unescape_plain_step:
  assumes "isprint ch" and "ch \<noteq> 92" and "cv_state s = 0"
  shows "unescape_loop n (ch # rest) s = (case copy_to n 0 ch s of Inl a \<Rightarrow> Inl a | Inr s1 \<Rightarrow> unescape_loop n rest s1)"
proof -
  have "\<not> 0x80 \<le> ch" "\<not> 0xc0 \<le> ch" "\<not> 0xe0 \<le> ch" "\<not> 0xf0 \<le> ch" "ch \<noteq> 0"
    using assms(1) unfolding isprint_def word_le_def by auto
  then show ?thesis using assms(2,3) by (simp add: unescape_step_def unescape_plain_def)
qed

lemma unescape_plain_run:
  assumes "\<forall>ch \<in> set xs. isprint ch \<and> ch \<noteq> 92" and "cv_state s = 0" and "cv_len s \<le> n"
  shows "case unescape_loop (Some n) xs s of
      Inl a \<Rightarrow> n < cv_len s + length xs \<and> a = Undefined ''store past the end of out''
    | Inr s' \<Rightarrow> cv_state s' = 0 \<and> cv_len s' = cv_len s + length xs"
  using assms
proof (induction xs arbitrary: s)
  case (Cons ch rest)
  let ?s1 = "s\<lparr>cv_len := cv_len s + 1, cv_out := cv_out s @ [ch], cv_state := 0\<rparr>"
  show ?case
    using Cons.IH [of ?s1] Cons.prems unescape_plain_step [of ch s "Some n" rest]
    by (auto simp: copy_to_def put_unchecked_def simp del: conv_loop.simps split: sum.splits)
qed simp

lemma unescape_full:
  assumes "\<forall>ch \<in> set xs. isprint ch \<and> ch \<noteq> 92" and "0 < n" and "n \<le> length xs"
  shows "unescape_to_utf8 (Some xs) (Some n) = Inl (Undefined ''store past the end of out'')"
  using unescape_plain_run [OF assms(1), of conv0 n] assms(2,3)
  by (auto simp: unescape_to_utf8_def convert_def conv_end_def conv0_def split: sum.splits)

text \<open>
  C23: The conversion from UTF-8 to wide characters, that from wide characters, and escaping never store outside an
  array of \<open>n\<close> elements, \<open>n > 0\<close>, whatever the input. When the length that the counting conversion gives, without
  the 0 at the end, is below \<open>n\<close>, they return it and leave that many elements; in an array that is too small
  they leave the empty string and return 0, as for an input they reject.
\<close>

theorem conversions_stay_in_array:
  assumes "0 < n"
  shows "(\<exists>xs m. utf8_to_wchar wide4 (Some bs) (Some n) = Inr (length xs, xs) \<and>
      utf8_to_wchar_len wide4 (Some bs) = Inr (m, []) \<and> length xs = (if m < n then m else 0)) \<and>
    (\<exists>xs m. wchar_to_utf8 (Some ws) (Some n) = Inr (length xs, xs) \<and>
      wchar_to_utf8_len (Some ws) = Inr (m, []) \<and> length xs = (if m < n then m else 0)) \<and>
    (\<exists>xs m. escape_to_ascii (Some bs) (Some n) = Inr (length xs, xs) \<and>
      escape_to_ascii_len (Some bs) = Inr (m, []) \<and> length xs = (if m < n then m else 0))"
  unfolding utf8_to_wchar_len_def wchar_to_utf8_len_def escape_to_ascii_len_def
    utf8_to_wchar_def wchar_to_utf8_def escape_to_ascii_def option.case
  by (intro conjI conversions_together wide_together narrow_together escape_together assms)

subsection \<open>What does not come back\<close>

lemma vertical_tab_becomes_backspace: "unescape_to_utf8 (Some [92, 118]) (Some 8) = Inr (1, [8])"
  by code_simp

lemma backslash_is_not_escaped: "escape_to_ascii (Some [92, 110]) (Some 8) = Inr (2, [92, 110])"
  by code_simp

text \<open>With 2 byte wide characters, U+10000 comes back as U+20000.\<close>

lemma surrogates_are_shifted:
  "utf8_to_wchar False (Some (ucodepoint_to_utf8 0x10000)) (Some 8) = Inr (2, [0xd840, 0xdc00])"
  "wchar_to_utf8 (Some [0xd840, 0xdc00]) (Some 8) = Inr (4, ucodepoint_to_utf8 0x20000)"
  by code_simp+

theorem wide_round_trip_witness:
  "\<exists>bs. length bs = 5 \<and> wchar_to_utf8 (Some [0x41, 0x1F600]) (Some 6) = Inr (5, bs) \<and>
     utf8_to_wchar True (Some bs) (Some 3) = Inr (2, [0x41, 0x1F600])"
proof -
  have "wchar_to_utf8_len (Some (map sint [0x41, 0x1F600 :: 32 word])) = Inr (5, [])" by code_simp
  from wide_round_trip [OF _ this, of 6 3] show ?thesis by (auto simp: scalar_def)
qed

theorem escape_round_trip_witness:
  "\<exists>es. escape_to_ascii (Some [0x41, 0xC3, 0xA9, 10]) (Some 31) = Inr (length es, es) \<and>
     unescape_to_utf8 (Some es) (Some 5) = Inr (4, [0x41, 0xC3, 0xA9, 10])"
proof -
  have "[0x41, 0xC3, 0xA9, 10] = concat (map ucodepoint_to_utf8 [0x41, 0xE9, 10])" by code_simp
  from escape_round_trip [OF _ this, of 31 5] show ?thesis by (auto simp: scalar_def)
qed

theorem conversions_stay_in_array_witness:
  "(\<exists>xs. escape_to_ascii (Some [0x41, 0xC3, 0xA9]) (Some 8) = Inr (7, xs) \<and> length xs = 7) \<and>
   escape_to_ascii (Some [0x41, 0xC3, 0xA9]) (Some 7) = Inr (0, [])"
proof -
  have "escape_to_ascii_len (Some [0x41, 0xC3, 0xA9]) = Inr (7, [])" by code_simp
  then show ?thesis
    using conversions_stay_in_array [of 8 True "[0x41, 0xC3, 0xA9]" "[]"] conversions_stay_in_array [of 7 True "[0x41, 0xC3, 0xA9]" "[]"]
    by auto
qed

end
