(* ===== verification/Scheduler.thy ===== *)
theory Scheduler
  imports SimObject ScheduledJobQueue
begin

text \<open>
  \<open>Trick::Scheduler\<close> (sim\_services/Scheduler/Scheduler.cpp): the base class of the schedulers that
  are registered with the executive. \<open>class_map\<close> maps a job class name to a class id and
  \<open>class_to_queue\<close> a class id to a queue; the queues themselves are members of the derived
  class, here a function from their index.
\<close>

record Scheduler =
  sc_class_map :: "string \<rightharpoonup> int"
  sc_class_to_queue :: "int \<rightharpoonup> nat"
  sc_queues :: "nat \<Rightarrow> SJQ"

definition scheduler_queue :: "Scheduler \<Rightarrow> JobData \<Rightarrow> (int \<times> nat option) option" where
  "scheduler_queue s j =
     (case sc_class_map s (jd_job_class_name j) of
        None \<Rightarrow> None | Some c \<Rightarrow> Some (c, sc_class_to_queue s c))"

definition add_scheduler_job :: "job_ptr \<Rightarrow> job_heap \<times> Scheduler \<Rightarrow> job_heap \<times> Scheduler" where
  "add_scheduler_job job hs =
     (let (h, s) = hs
      in case scheduler_queue s (h job) of
           None \<Rightarrow> (h, s)
         | Some (c, qo) \<Rightarrow>
             (let h1 = h(job := (h job)\<lparr>jd_job_class := c\<rparr>)
              in case qo of
                   None \<Rightarrow> (h1, s)
                 | Some k \<Rightarrow>
                     (let (h2, q) = push h1 (sc_queues s k) job
                      in (h2, s\<lparr>sc_queues := (sc_queues s)(k := q)\<rparr>))))"

definition Scheduler_add_sim_object :: "SimObject \<Rightarrow> job_heap \<Rightarrow> Scheduler \<Rightarrow> int \<times> job_heap \<times> Scheduler" where
  "Scheduler_add_sim_object in_object h s = (0, fold add_scheduler_job (so_jobs in_object) (h, s))"

definition delete_scheduler_job :: "job_heap \<Rightarrow> job_ptr \<Rightarrow> Scheduler \<Rightarrow> Scheduler" where
  "delete_scheduler_job h job s =
     (case scheduler_queue s (h job) of
        Some (_, Some k) \<Rightarrow> s\<lparr>sc_queues := (sc_queues s)(k := snd (queue_remove (sc_queues s k) job))\<rparr>
      | _ \<Rightarrow> s)"

definition Scheduler_delete_sim_object :: "SimObject \<Rightarrow> job_heap \<Rightarrow> Scheduler \<Rightarrow> int \<times> Scheduler" where
  "Scheduler_delete_sim_object in_object h s = (0, fold (delete_scheduler_job h) (so_jobs in_object) s)"

end
