(* ===== verification/CheckPointRestart.thy ===== *)
theory CheckPointRestart
  imports ExecRestart Scheduler
begin

text \<open>
  \<open>Trick::CheckPointRestart\<close> (sim\_services/CheckPointRestart/CheckPointRestart.cpp): when checkpoints are written, the
  jobs called around them, and the reload of a checkpoint in a running simulation. It is a scheduler with four queues, kept
  in the world of the executive. What the memory manager writes and reads, the forked process, the files and the output
  directory are the parameters of \<open>cpr_env\<close>. The messages and the reports to files are left out.
\<close>

subsection \<open>State\<close>

record CheckPointRestart =
  cp_base :: Scheduler
  cp_checkpoint_times :: "int list"
  cp_safestore_period :: int
  cp_safestore_time :: int
  cp_pre_init_checkpoint :: bool
  cp_post_init_checkpoint :: bool
  cp_end_checkpoint :: bool
  cp_safestore_enabled :: bool
  cp_output_file :: string
  cp_load_checkpoint_file_name :: string
  cp_redirect_data_recording :: bool
  cp_redirected_directory :: string
  cp_cpu_num :: int
  cp_obj_list :: "string list"
  cp_write_checkpoint_job :: "job_ptr option"
  cp_safestore_checkpoint_job :: "job_ptr option"

record 'u CprWorld =
  cw_cpr :: CheckPointRestart
  cw_rest :: 'u

type_synonym 'u cpr_sim = "'u CprWorld Executive"

text \<open>\<open>safestore_period\<close> is not set by the constructor: \<open>period\<close> is what the memory holds.\<close>

definition new_CheckPointRestart :: "int \<Rightarrow> CheckPointRestart" where
  "new_CheckPointRestart period =
     \<lparr>cp_base = \<lparr>sc_class_map = [''checkpoint'' \<mapsto> 0, ''post_checkpoint'' \<mapsto> 1, ''preload_checkpoint'' \<mapsto> 2, ''restart'' \<mapsto> 3],
        sc_class_to_queue = [0 \<mapsto> 0, 1 \<mapsto> 1, 2 \<mapsto> 2, 3 \<mapsto> 3], sc_queues = (\<lambda>_. new_ScheduledJobQueue)\<rparr>,
      cp_checkpoint_times = [], cp_safestore_period = period, cp_safestore_time = TRICK_MAX_LONG_LONG,
      cp_pre_init_checkpoint = False, cp_post_init_checkpoint = False, cp_end_checkpoint = False, cp_safestore_enabled = False,
      cp_output_file = [], cp_load_checkpoint_file_name = [], cp_redirect_data_recording = False, cp_redirected_directory = [],
      cp_cpu_num = -1, cp_obj_list = [], cp_write_checkpoint_job = None, cp_safestore_checkpoint_job = None\<rparr>"

text \<open>
  The parameters: the thread that calls; a number with six decimals as text; the output directory and the change of it; what
  writing the memory does to the files, in this process and in a forked one (which may fail to start); whether a file exists;
  what reading it does to the memory; the switch for the containers.
\<close>

record 'u cpr_env =
  ce_self :: "nat option"
  ce_time_text :: "rat \<Rightarrow> string"
  ce_output_dir :: "'u \<Rightarrow> string"
  ce_set_output_dir :: "string \<Rightarrow> 'u \<Rightarrow> 'u"
  ce_write :: "string \<Rightarrow> string list \<Rightarrow> 'u cpr_sim \<Rightarrow> 'u"
  ce_forked_write :: "string \<Rightarrow> string list \<Rightarrow> 'u cpr_sim \<Rightarrow> 'u"
  ce_file_exists :: "string \<Rightarrow> 'u \<Rightarrow> bool"
  ce_init_from_checkpoint :: "string \<Rightarrow> 'u cpr_sim \<Rightarrow> 'u cpr_sim"
  ce_restore_stls :: "bool \<Rightarrow> 'u \<Rightarrow> 'u"

definition cpr :: "'u cpr_sim \<Rightarrow> CheckPointRestart" where
  "cpr e = cw_cpr (ex_world e)"

definition map_cpr :: "(CheckPointRestart \<Rightarrow> CheckPointRestart) \<Rightarrow> 'u cpr_sim \<Rightarrow> 'u cpr_sim" where
  "map_cpr f e = e\<lparr>ex_world := (ex_world e)\<lparr>cw_cpr := f (cw_cpr (ex_world e))\<rparr>\<rparr>"

definition map_rest :: "('u \<Rightarrow> 'u) \<Rightarrow> 'u cpr_sim \<Rightarrow> 'u cpr_sim" where
  "map_rest f e = e\<lparr>ex_world := (ex_world e)\<lparr>cw_rest := f (cw_rest (ex_world e))\<rparr>\<rparr>"

text \<open>The queues: 0 \<open>checkpoint\<close>, 1 \<open>post_checkpoint\<close>, 2 \<open>preload_checkpoint\<close>, 3 \<open>restart\<close>.\<close>

definition cpr_queue :: "nat \<Rightarrow> 'u cpr_sim \<Rightarrow> SJQ" where
  "cpr_queue k e = sc_queues (cp_base (cpr e)) k"

definition map_cpr_queue :: "nat \<Rightarrow> (SJQ \<Rightarrow> SJQ) \<Rightarrow> 'u cpr_sim \<Rightarrow> 'u cpr_sim" where
  "map_cpr_queue k f =
     map_cpr (\<lambda>c. c\<lparr>cp_base := (cp_base c)\<lparr>sc_queues := (sc_queues (cp_base c))(k := f (sc_queues (cp_base c) k))\<rparr>\<rparr>)"

definition cpr_add_sim_object :: "'u CprWorld virtual_op" where
  "cpr_add_sim_object so e =
     (let (_, h, s) = Scheduler_add_sim_object (ex_sim_objs e so) (ex_jobs e) (cp_base (cpr e))
      in map_cpr (\<lambda>c. c\<lparr>cp_base := s\<rparr>) (e\<lparr>ex_jobs := h\<rparr>))"

subsection \<open>Settings\<close>

definition set_pre_init_checkpoint :: "bool \<Rightarrow> 'u cpr_sim \<Rightarrow> int \<times> 'u cpr_sim" where
  "set_pre_init_checkpoint yes_no e = (0, map_cpr (\<lambda>c. c\<lparr>cp_pre_init_checkpoint := yes_no\<rparr>) e)"

definition set_post_init_checkpoint :: "bool \<Rightarrow> 'u cpr_sim \<Rightarrow> int \<times> 'u cpr_sim" where
  "set_post_init_checkpoint yes_no e = (0, map_cpr (\<lambda>c. c\<lparr>cp_post_init_checkpoint := yes_no\<rparr>) e)"

definition set_end_checkpoint :: "bool \<Rightarrow> 'u cpr_sim \<Rightarrow> int \<times> 'u cpr_sim" where
  "set_end_checkpoint yes_no e = (0, map_cpr (\<lambda>c. c\<lparr>cp_end_checkpoint := yes_no\<rparr>) e)"

definition set_safestore_enabled :: "bool \<Rightarrow> 'u cpr_sim \<Rightarrow> int \<times> 'u cpr_sim" where
  "set_safestore_enabled yes_no e = (0, map_cpr (\<lambda>c. c\<lparr>cp_safestore_enabled := yes_no\<rparr>) e)"

definition set_cpu_num :: "int \<Rightarrow> 'u cpr_sim \<Rightarrow> int \<times> 'u cpr_sim" where
  "set_cpu_num in_cpu_num e = (0, map_cpr (\<lambda>c. c\<lparr>cp_cpu_num := if in_cpu_num \<le> 0 then -1 else in_cpu_num\<rparr>) e)"

definition get_output_file :: "'u cpr_sim \<Rightarrow> string" where
  "get_output_file e = cp_output_file (cpr e)"

definition get_load_file :: "'u cpr_sim \<Rightarrow> string" where
  "get_load_file e = cp_load_checkpoint_file_name (cpr e)"

text \<open>A call time of a job that the object points to.\<close>

definition set_next_tics :: "job_ptr option \<Rightarrow> int \<Rightarrow> 'u cpr_sim \<Rightarrow> (unit, 'u cpr_sim) result" where
  "set_next_tics jo t e =
     (case jo of
        None \<Rightarrow> Some (Inl (Undefined ''NULL job''), e)
      | Some j \<Rightarrow> Some (Inr (), map_job j (\<lambda>r. r\<lparr>jd_next_tics := t\<rparr>) e))"

text \<open>A job that is not found ends the simulation by an exception.\<close>

definition find_write_checkpoint_jobs :: "string \<Rightarrow> 'u cpr_sim \<Rightarrow> (int, 'u cpr_sim) result" where
  "find_write_checkpoint_jobs sim_object_name e =
     (let w = get_job e (sim_object_name @ ''.write_checkpoint'') 1;
          e1 = map_cpr (\<lambda>c. c\<lparr>cp_write_checkpoint_job := w\<rparr>) e
      in if w = None then
           Some (Inl (mk_ExecutiveException (-1) ''CheckPointRestart.cpp'' 100
             ''CheckPointRestart could not find write_checkpoint job''), e1)
         else andthen (set_next_tics w TRICK_MAX_LONG_LONG e1) (\<lambda>_ e2.
           let s = get_job e2 (sim_object_name @ ''.safestore_checkpoint'') 1;
               e3 = map_cpr (\<lambda>c. c\<lparr>cp_safestore_checkpoint_job := s\<rparr>) e2
           in if s = None then
                Some (Inl (mk_ExecutiveException (-1) ''CheckPointRestart.cpp'' 107
                  ''CheckPointRestart could not find safestore_checkpoint job''), e3)
              else andthen (set_next_tics s TRICK_MAX_LONG_LONG e3) (\<lambda>_ e4. Some (Inr 0, e4))))"

subsection \<open>Times\<close>

text \<open>\<open>checkpoint(double)\<close>. The priority queue with the least time on top is an ascending list.\<close>

definition checkpoint_at :: "'u cpr_env \<Rightarrow> rat \<Rightarrow> 'u cpr_sim \<Rightarrow> (int, 'u cpr_sim) result" where
  "checkpoint_at env in_time e =
     (let new_time = c_trunc (dmul in_time (dbl (ex_time_tic_value e)))
      in if get_time_tics (ce_self env) e \<le> new_time then
           (let e1 = map_cpr (\<lambda>c. c\<lparr>cp_checkpoint_times := insort new_time (cp_checkpoint_times c)\<rparr>) e
            in case cp_write_checkpoint_job (cpr e1) of
                 None \<Rightarrow> Some (Inl (Undefined ''NULL write_checkpoint_job''), e1)
               | Some j \<Rightarrow>
                   Some (Inr 0, if new_time < jd_next_tics (ex_jobs e1 j)
                                then map_job j (\<lambda>r. r\<lparr>jd_next_tics := new_time\<rparr>) e1 else e1))
         else Some (Inr 0, e))"

text \<open>The period is rounded up with \<open>safestore_time\<close>, the time of the last safestore, in place of the period.\<close>

definition set_safestore_time :: "rat \<Rightarrow> 'u cpr_sim \<Rightarrow> (int, 'u cpr_sim) result" where
  "set_safestore_time in_time e =
     (let safestore_period = c_trunc (dmul in_time (dbl (ex_time_tic_value e)));
          software_frame_tics = ex_software_frame_tics e
      in if software_frame_tics = 0
         then Some (Inl (Undefined ''safestore_period % software_frame_tics''), e)
         else
           (let p = (if safestore_period smod software_frame_tics \<noteq> 0
                     then (cp_safestore_time (cpr e) sdiv software_frame_tics + 1) * software_frame_tics
                     else safestore_period);
                e1 = map_cpr (\<lambda>c. c\<lparr>cp_safestore_period := p, cp_safestore_time := p\<rparr>) e
            in if cp_safestore_checkpoint_job (cpr e1) = None then Some (Inr 0, e1)
               else andthen (set_next_tics (cp_safestore_checkpoint_job (cpr e1)) p e1) (\<lambda>_ e2. Some (Inr 0, e2))))"

subsection \<open>Writing a checkpoint\<close>

text \<open>\<open>strtok\<close> with a comma: the pieces between commas that are not empty.\<close>

fun strtok_commas :: "string \<Rightarrow> string \<Rightarrow> string list" where
  "strtok_commas tok [] = (if tok = [] then [] else [tok])"
| "strtok_commas tok (c # cs) =
     (if c = CHR '','' then (if tok = [] then [] else [tok]) @ strtok_commas [] cs else strtok_commas (tok @ [c]) cs)"

definition next_cpr :: "nat \<Rightarrow> 'u cpr_sim \<Rightarrow> job_ptr option \<times> 'u cpr_sim" where
  "next_cpr k e = (let (jo, q) = get_next_job (ex_jobs e) (cpr_queue k e) in (jo, map_cpr_queue k (\<lambda>_. q) e))"

text \<open>\<open>parent_object->call_function(curr_job)\<close> calls the job without the jobs that instrument it.\<close>

definition call_direct :: "'u CprWorld exec_call \<Rightarrow> job_ptr \<Rightarrow> 'u cpr_sim \<Rightarrow> (unit, 'u cpr_sim) result" where
  "call_direct cf j e = andthen (cf (Job j) e) (\<lambda>_ e1. Some (Inr (), e1))"

definition call_queue_directly :: "'u CprWorld exec_call \<Rightarrow> nat \<Rightarrow> 'u cpr_sim \<Rightarrow> (unit, 'u cpr_sim) result" where
  "call_queue_directly cf k e = walk (next_cpr k) (call_direct cf) (map_cpr_queue k reset_curr_index e)"

definition call_queue :: "'u CprWorld exec_call \<Rightarrow> nat \<Rightarrow> 'u cpr_sim \<Rightarrow> (unit, 'u cpr_sim) result" where
  "call_queue cf k e = walk (next_cpr k) (call_ignored cf) (map_cpr_queue k reset_curr_index e)"

definition do_checkpoint :: "'u cpr_env \<Rightarrow> 'u CprWorld exec_call \<Rightarrow> string \<Rightarrow> bool \<Rightarrow> 'u cpr_sim \<Rightarrow> (int, 'u cpr_sim) result" where
  "do_checkpoint env cf file_name print_status e =
     (case (if file_name = [] then map_sum id (\<lambda>t. ''chkpnt_'' @ ce_time_text env t) (get_sim_time (ce_self env) e) else Inr file_name) of
        Inl a \<Rightarrow> Some (Inl a, e)
      | Inr name \<Rightarrow>
          andthen (call_queue_directly cf 0
            (map_cpr (\<lambda>c. c\<lparr>cp_output_file := ce_output_dir env (cw_rest (ex_world e)) @ ''/'' @ name\<rparr>) e)) (\<lambda>_ e1.
          let write = (if cp_cpu_num (cpr e1) \<noteq> -1 then ce_forked_write env else ce_write env);
              e2 = map_rest (\<lambda>_. write (cp_output_file (cpr e1)) (cp_obj_list (cpr e1)) e1) e1
          in andthen (call_queue_directly cf 1 e2) (\<lambda>_ e3. Some (Inr 0, e3))))"

text \<open>\<open>checkpoint(std::string, bool, std::string)\<close>.\<close>

definition checkpoint_file :: "'u cpr_env \<Rightarrow> 'u CprWorld exec_call \<Rightarrow> string \<Rightarrow> bool \<Rightarrow> string \<Rightarrow> 'u cpr_sim \<Rightarrow> (int, 'u cpr_sim) result" where
  "checkpoint_file env cf file_name print_status obj_list_str e =
     andthen (do_checkpoint env cf file_name print_status
       (map_cpr (\<lambda>c. c\<lparr>cp_obj_list := strtok_commas [] obj_list_str\<rparr>) e)) (\<lambda>_ e1. Some (Inr 0, e1))"

definition write_checkpoint :: "'u cpr_env \<Rightarrow> 'u CprWorld exec_call \<Rightarrow> 'u cpr_sim \<Rightarrow> (int, 'u cpr_sim) result" where
  "write_checkpoint env cf e =
     (let curr_time = get_time_tics (ce_self env) e
      in case cp_checkpoint_times (cpr e) of
           [] \<Rightarrow> Some (Inl (Undefined ''checkpoint_times.top()''), e)
         | t # _ \<Rightarrow>
             if curr_time = t then
               (let times = dropWhile (\<lambda>u. u = curr_time) (cp_checkpoint_times (cpr e));
                    e1 = map_cpr (\<lambda>c. c\<lparr>cp_checkpoint_times := times\<rparr>) e
                in andthen (set_next_tics (cp_write_checkpoint_job (cpr e1)) (case times of u # _ \<Rightarrow> u | [] \<Rightarrow> TRICK_MAX_LONG_LONG) e1) (\<lambda>_ e2.
                   case get_sim_time (ce_self env) e2 of
                     Inl a \<Rightarrow> Some (Inl a, e2)
                   | Inr sim_time \<Rightarrow>
                       andthen (checkpoint_file env cf (''chkpnt_'' @ ce_time_text env sim_time) True [] e2) (\<lambda>_ e3. Some (Inr 0, e3))))
             else Some (Inr 0, e))"

definition write_if :: "bool \<Rightarrow> string \<Rightarrow> 'u cpr_env \<Rightarrow> 'u CprWorld exec_call \<Rightarrow> 'u cpr_sim \<Rightarrow> (int, 'u cpr_sim) result" where
  "write_if yes_no name env cf e =
     (if yes_no then andthen (checkpoint_file env cf name True [] e) (\<lambda>_ e1. Some (Inr 0, e1)) else Some (Inr 0, e))"

definition write_pre_init_checkpoint :: "'u cpr_env \<Rightarrow> 'u CprWorld exec_call \<Rightarrow> 'u cpr_sim \<Rightarrow> (int, 'u cpr_sim) result" where
  "write_pre_init_checkpoint env cf e = write_if (cp_pre_init_checkpoint (cpr e)) ''chkpnt_pre_init'' env cf e"

definition write_post_init_checkpoint :: "'u cpr_env \<Rightarrow> 'u CprWorld exec_call \<Rightarrow> 'u cpr_sim \<Rightarrow> (int, 'u cpr_sim) result" where
  "write_post_init_checkpoint env cf e = write_if (cp_post_init_checkpoint (cpr e)) ''chkpnt_post_init'' env cf e"

definition write_end_checkpoint :: "'u cpr_env \<Rightarrow> 'u CprWorld exec_call \<Rightarrow> 'u cpr_sim \<Rightarrow> (int, 'u cpr_sim) result" where
  "write_end_checkpoint env cf e = write_if (cp_end_checkpoint (cpr e)) ''chkpnt_end'' env cf e"

definition safestore_checkpoint :: "'u cpr_env \<Rightarrow> 'u CprWorld exec_call \<Rightarrow> 'u cpr_sim \<Rightarrow> (int, 'u cpr_sim) result" where
  "safestore_checkpoint env cf e =
     andthen
       (if cp_safestore_enabled (cpr e) then
          andthen (checkpoint_file env cf ''chkpnt_safestore'' False [] e) (\<lambda>_ e1.
            Some (Inr (), map_cpr (\<lambda>c. c\<lparr>cp_safestore_time := cp_safestore_time c + cp_safestore_period c\<rparr>) e1))
        else Some (Inr (), e))
       (\<lambda>_ e1.
          if cp_safestore_checkpoint_job (cpr e1) = None then Some (Inr 0, e1)
          else andthen (set_next_tics (cp_safestore_checkpoint_job (cpr e1)) (cp_safestore_time (cpr e1)) e1) (\<lambda>_ e2. Some (Inr 0, e2)))"

subsection \<open>Loading a checkpoint\<close>

definition load_checkpoint :: "string \<Rightarrow> 'u cpr_sim \<Rightarrow> 'u cpr_sim" where
  "load_checkpoint file_name e = map_cpr (\<lambda>c. c\<lparr>cp_load_checkpoint_file_name := file_name\<rparr>) e"

definition load_checkpoint_stls :: "'u cpr_env \<Rightarrow> string \<Rightarrow> bool \<Rightarrow> 'u cpr_sim \<Rightarrow> 'u cpr_sim" where
  "load_checkpoint_stls env file_name stls_on e = load_checkpoint file_name (map_rest (ce_restore_stls env stls_on) e)"

definition load_checkpoint_dir :: "string \<Rightarrow> string \<Rightarrow> 'u cpr_sim \<Rightarrow> 'u cpr_sim" where
  "load_checkpoint_dir file_name new_data_record_dir e =
     load_checkpoint file_name
       (map_cpr (\<lambda>c. c\<lparr>cp_redirect_data_recording := True, cp_redirected_directory := new_data_record_dir\<rparr>) e)"

definition load_checkpoint_dir_stls :: "'u cpr_env \<Rightarrow> string \<Rightarrow> string \<Rightarrow> bool \<Rightarrow> 'u cpr_sim \<Rightarrow> 'u cpr_sim" where
  "load_checkpoint_dir_stls env file_name new_data_record_dir stls_on e =
     load_checkpoint file_name
       (map_rest (ce_restore_stls env stls_on)
         (map_cpr (\<lambda>c. c\<lparr>cp_redirect_data_recording := True, cp_redirected_directory := new_data_record_dir\<rparr>) e))"

text \<open>
  \<open>others\<close> are the operations of the other schedulers on a simulation object; with them the executive's restart gives the
  jobs back to the queues of this object.
\<close>

definition reload :: "'u cpr_env \<Rightarrow> 'u CprWorld virtual_op list \<Rightarrow> 'u CprWorld exec_call \<Rightarrow> 'u cpr_sim \<Rightarrow> (unit, 'u cpr_sim) result" where
  "reload env others cf e =
     andthen (call_queue cf 2 e) (\<lambda>_ e1.
     let e2 = fold (\<lambda>k. map_cpr_queue k queue_clear) [0, 1, 2, 3] e1;
         e3 = ce_init_from_checkpoint env (cp_load_checkpoint_file_name (cpr e2)) e2;
         e4 = (if cp_redirect_data_recording (cpr e3)
               then map_rest (ce_set_output_dir env (cp_redirected_directory (cpr e3))) (map_cpr (\<lambda>c. c\<lparr>cp_redirect_data_recording := False\<rparr>) e3)
               else e3)
     in andthen (restart (others @ [cpr_add_sim_object]) e4) (\<lambda>_. call_queue cf 3))"

definition load_checkpoint_job :: "'u cpr_env \<Rightarrow> 'u CprWorld virtual_op list \<Rightarrow> 'u CprWorld exec_call \<Rightarrow> 'u cpr_sim \<Rightarrow> (int, 'u cpr_sim) result" where
  "load_checkpoint_job env others cf e =
     (if cp_load_checkpoint_file_name (cpr e) = [] then Some (Inr 0, e)
      else
        andthen
          (if ce_file_exists env (cp_load_checkpoint_file_name (cpr e)) (cw_rest (ex_world e)) then reload env others cf e
           else Some (Inr (), e))
          (\<lambda>_ e1. Some (Inr 0, map_cpr (\<lambda>c. c\<lparr>cp_load_checkpoint_file_name := []\<rparr>) e1)))"

subsection \<open>Instrumentation\<close>

text \<open>The queues that are instrumented; \<open>post_checkpoint_queue\<close> is not among them.\<close>

definition cpr_instrument_at ::
  "(job_heap \<Rightarrow> SJQ \<Rightarrow> job_ptr \<Rightarrow> int \<times> job_heap) \<Rightarrow> job_ptr \<Rightarrow> 'u cpr_sim \<Rightarrow> int \<times> 'u cpr_sim" where
  "cpr_instrument_at f job e =
     fold (\<lambda>k (n, e). let (m, h) = f (ex_jobs e) (cpr_queue k e) job in (n + m, e\<lparr>ex_jobs := h\<rparr>)) [0, 2, 3] (0, e)"

definition cpr_instrument_job_before :: "job_ptr \<Rightarrow> 'u cpr_sim \<Rightarrow> int \<times> 'u cpr_sim" where
  "cpr_instrument_job_before = cpr_instrument_at instrument_before"

definition cpr_instrument_job_after :: "job_ptr \<Rightarrow> 'u cpr_sim \<Rightarrow> int \<times> 'u cpr_sim" where
  "cpr_instrument_job_after = cpr_instrument_at instrument_after"

definition cpr_instrument_job_remove :: "string \<Rightarrow> 'u cpr_sim \<Rightarrow> int \<times> 'u cpr_sim" where
  "cpr_instrument_job_remove in_job e =
     (0, fold (\<lambda>k e. e\<lparr>ex_jobs := snd (instrument_remove (ex_jobs e) (cpr_queue k e) in_job)\<rparr>) [0, 2, 3] e)"

end
