(* ===== verification/PropsCheckpoint.thy ===== *)
theory PropsCheckpoint
  imports CheckPointRestart
begin

text \<open>
  What checkpoints promise: one is written at every requested time, with the jobs before and after it, and loading one calls the
  jobs of the old simulation before and those of the new one after it.
\<close>

subsection \<open>The jobs around a checkpoint\<close>

text \<open>Jobs that change the rest of the world only, and a memory manager that does so too.\<close>

definition calm_cpr :: "'u cpr_env \<Rightarrow> 'u CprWorld exec_call \<Rightarrow> (callee \<Rightarrow> 'u \<Rightarrow> 'u) \<Rightarrow> (string \<Rightarrow> string list \<Rightarrow> 'u \<Rightarrow> 'u) \<Rightarrow> bool" where
  "calm_cpr env cf eff wr \<longleftrightarrow>
     (\<forall>c e. \<exists>ret. cf c e = Some (Inr ret, map_rest (eff c) e)) \<and>
     (\<forall>f objs e. ce_write env f objs e = wr f objs (cw_rest (ex_world e)) \<and> ce_forked_write env f objs e = wr f objs (cw_rest (ex_world e)))"

definition enabled_cpr_jobs :: "nat \<Rightarrow> 'u cpr_sim \<Rightarrow> job_ptr list" where
  "enabled_cpr_jobs k e = filter (\<lambda>j. \<not> jd_disabled (ex_jobs e j)) (q_list (cpr_queue k e))"

text \<open>Only the walking index of the queues, the name of the file and the objects change.\<close>

definition kept :: "'u cpr_sim \<Rightarrow> 'u cpr_sim \<Rightarrow> bool" where
  "kept e e' \<longleftrightarrow> (\<exists>w. e' = e\<lparr>ex_world := w\<rparr>) \<and> cp_checkpoint_times (cpr e') = cp_checkpoint_times (cpr e) \<and>
     cp_write_checkpoint_job (cpr e') = cp_write_checkpoint_job (cpr e) \<and> (\<forall>k. q_list (cpr_queue k e') = q_list (cpr_queue k e))"

lemma kept_refl: "kept e e"
  by (auto simp: kept_def intro!: exI [of _ "ex_world e"])

lemma kept_trans: "kept e e1 \<Longrightarrow> kept e1 e2 \<Longrightarrow> kept e e2"
  by (auto simp: kept_def)

lemma kept_jobs: "kept e e' \<Longrightarrow> ex_jobs e' = ex_jobs e \<and> enabled_cpr_jobs k e' = enabled_cpr_jobs k e"
  by (auto simp: kept_def enabled_cpr_jobs_def)

lemma cpr_simps [simp]:
  "cpr (map_cpr f e) = f (cpr e)" "cpr (map_rest g e) = cpr e" "cw_rest (ex_world (map_cpr f e)) = cw_rest (ex_world e)"
  "cw_rest (ex_world (map_rest g e)) = g (cw_rest (ex_world e))" "ex_jobs (map_cpr f e) = ex_jobs e" "ex_jobs (map_rest g e) = ex_jobs e"
  "cpr_queue k (map_rest g e) = cpr_queue k e"
  by (simp_all add: cpr_def map_cpr_def map_rest_def cpr_queue_def)

lemma cpr_queue_map [simp]: "cpr_queue k (map_cpr_queue l f e) = (if k = l then f (cpr_queue k e) else cpr_queue k e)"
  by (simp add: map_cpr_queue_def cpr_queue_def)

lemma map_cpr_queue_simps [simp]:
  "ex_jobs (map_cpr_queue k f e) = ex_jobs e" "cw_rest (ex_world (map_cpr_queue k f e)) = cw_rest (ex_world e)"
  "map_cpr_queue k f (map_cpr_queue k g e) = map_cpr_queue k (\<lambda>q. f (g q)) e"
  "map_cpr_queue k f (map_rest r e) = map_rest r (map_cpr_queue k f e)"
  "map_rest r (map_rest r' e) = map_rest (\<lambda>u. r (r' u)) e"
  by (simp_all add: map_cpr_queue_def map_cpr_def map_rest_def)

lemma kept_steps:
  "kept e (map_rest g e)" "(\<And>q. q_list (f q) = q_list q) \<Longrightarrow> kept e (map_cpr_queue k f e)"
  "kept e (map_cpr (\<lambda>c. c\<lparr>cp_output_file := n\<rparr>) e)" "kept e (map_cpr (\<lambda>c. c\<lparr>cp_obj_list := os\<rparr>) e)"
  unfolding kept_def map_rest_def map_cpr_queue_def map_cpr_def cpr_def cpr_queue_def by auto

text \<open>The walk over a queue calls its enabled jobs in order.\<close>

lemma walk_calm:
  assumes "\<And>j e. body j e = Some (Inr (), map_rest (eff j) e)"
  shows "index_ok (cpr_queue k e) \<Longrightarrow> filter (\<lambda>j. \<not> jd_disabled (ex_jobs e j)) (pending_jobs (cpr_queue k e)) = js \<Longrightarrow>
    walk (next_cpr k) body e = Some (Inr (), map_rest (fold eff js) (map_cpr_queue k (\<lambda>q. skip_jobs q (pending_jobs q)) e))"
proof (induction js arbitrary: e)
  case Nil
  show ?case
    using get_next_job_Nil [OF Nil] by (simp add: next_cpr_def map_cpr_queue_def map_cpr_def cpr_queue_def cpr_def map_rest_def)
next
  case (Cons j js)
  obtain sk rest where split: "pending_jobs (cpr_queue k e) = sk @ j # rest" "filter (\<lambda>j. \<not> jd_disabled (ex_jobs e j)) sk = []"
      "\<not> jd_disabled (ex_jobs e j)" "filter (\<lambda>j. \<not> jd_disabled (ex_jobs e j)) rest = js"
    using Cons.prems(2) by (auto simp: filter_eq_Cons_iff)
  let ?q = "skip_jobs (cpr_queue k e) (sk @ [j])"
  let ?e = "map_rest (eff j) (map_cpr_queue k (\<lambda>_. ?q) e)"
  have p: "pending_jobs (cpr_queue k e) = (sk @ [j]) @ rest" using split(1) by simp
  have nxt: "next_cpr k e = (Some j, map_cpr_queue k (\<lambda>_. ?q) e)"
    using get_next_job_Cons [OF split(1-3)] by (simp add: next_cpr_def)
  have "walk (next_cpr k) body ?e = Some (Inr (), map_rest (fold eff js) (map_cpr_queue k (\<lambda>q. skip_jobs q (pending_jobs q)) ?e))"
    by (rule Cons.IH) (use index_ok_skip [OF Cons.prems(1) p] pending_skip [OF p] split(4) in simp_all)
  moreover have "skip_jobs ?q (pending_jobs ?q) = skip_jobs (cpr_queue k e) (pending_jobs (cpr_queue k e))"
    using pending_skip [OF p] p by simp
  then have "map_cpr_queue k (\<lambda>_. skip_jobs ?q (pending_jobs ?q)) e = map_cpr_queue k (\<lambda>q. skip_jobs q (pending_jobs q)) e"
    by (simp add: map_cpr_queue_def map_cpr_def cpr_queue_def cpr_def)
  ultimately show ?case using walk_Some [of "next_cpr k" e, OF nxt, of body] assms [of j "map_cpr_queue k (\<lambda>_. ?q) e"] by (simp add: comp_def)
qed

lemma queue_directly:
  assumes "calm_cpr env cf eff wr"
  shows "call_queue_directly cf k e = Some (Inr (), map_rest (fold (\<lambda>j. eff (Job j)) (enabled_cpr_jobs k e))
    (map_cpr_queue k (\<lambda>q. skip_jobs (reset_curr_index q) (q_list q)) e))"
proof -
  have body: "call_direct cf j e = Some (Inr (), map_rest (eff (Job j)) e)" for j e
    using assms unfolding calm_cpr_def call_direct_def by (metis andthen_simps(3))
  have "walk (next_cpr k) (call_direct cf) (map_cpr_queue k reset_curr_index e) =
      Some (Inr (), map_rest (fold (\<lambda>j. eff (Job j)) (enabled_cpr_jobs k e))
        (map_cpr_queue k (\<lambda>q. skip_jobs q (pending_jobs q)) (map_cpr_queue k reset_curr_index e)))"
    by (rule walk_calm [OF body]) (simp_all add: enabled_cpr_jobs_def index_ok_def reset_curr_index_def pending_jobs_def)
  then show ?thesis by (simp add: call_queue_directly_def)
qed

lemma kept_walked: "kept e (map_cpr_queue k (\<lambda>q. skip_jobs (reset_curr_index q) (q_list q)) e)"
  by (rule kept_steps(2)) (simp add: reset_curr_index_def)

text \<open>One checkpoint: the jobs before, the file, the jobs after.\<close>

definition checkpointed :: "'u cpr_env \<Rightarrow> (callee \<Rightarrow> 'u \<Rightarrow> 'u) \<Rightarrow> (string \<Rightarrow> string list \<Rightarrow> 'u \<Rightarrow> 'u) \<Rightarrow> 'u cpr_sim \<Rightarrow> string \<Rightarrow> string list \<Rightarrow> 'u \<Rightarrow> 'u" where
  "checkpointed env eff wr e name objs u =
     fold (\<lambda>j. eff (Job j)) (enabled_cpr_jobs 1 e)
       (wr (ce_output_dir env u @ ''/'' @ name) objs (fold (\<lambda>j. eff (Job j)) (enabled_cpr_jobs 0 e) u))"

lemma checkpoint_file_returns:
  assumes "calm_cpr env cf eff wr" and "name \<noteq> []"
  shows "\<exists>e'. checkpoint_file env cf name b objs e = Some (Inr 0, e') \<and> kept e e' \<and>
    cw_rest (ex_world e') = checkpointed env eff wr e name (strtok_commas [] objs) (cw_rest (ex_world e))"
proof -
  let ?f = "\<lambda>q. skip_jobs (reset_curr_index q) (q_list q)"
  let ?u = "cw_rest (ex_world e)" and ?os = "strtok_commas [] objs"
  let ?e0 = "map_cpr (\<lambda>c. c\<lparr>cp_obj_list := ?os\<rparr>) e"
  let ?e1 = "map_cpr (\<lambda>c. c\<lparr>cp_output_file := ce_output_dir env ?u @ ''/'' @ name\<rparr>) ?e0"
  have k1: "kept e ?e1" using kept_trans [OF kept_steps(4) kept_steps(3)] .
  let ?e2 = "map_rest (fold (\<lambda>j. eff (Job j)) (enabled_cpr_jobs 0 ?e1)) (map_cpr_queue 0 ?f ?e1)"
  have k2: "kept e ?e2" by (rule kept_trans [OF k1 kept_trans [OF kept_walked kept_steps(1)]])
  have out: "cp_output_file (cpr ?e2) = ce_output_dir env ?u @ ''/'' @ name" "cp_obj_list (cpr ?e2) = ?os"
    by (simp_all add: map_cpr_queue_def)
  let ?e3 = "map_rest (\<lambda>_. wr (ce_output_dir env ?u @ ''/'' @ name) ?os (cw_rest (ex_world ?e2))) ?e2"
  have k3: "kept e ?e3" by (rule kept_trans [OF k2 kept_steps(1)])
  let ?e4 = "map_rest (fold (\<lambda>j. eff (Job j)) (enabled_cpr_jobs 1 ?e3)) (map_cpr_queue 1 ?f ?e3)"
  have k4: "kept e ?e4" by (rule kept_trans [OF k3 kept_trans [OF kept_walked kept_steps(1)]])
  have "checkpoint_file env cf name b objs e = Some (Inr 0, ?e4)"
    using assms(1) queue_directly [OF assms(1), of 0 ?e1] queue_directly [OF assms(1), of 1 ?e3] assms(2) out
    by (simp add: checkpoint_file_def do_checkpoint_def calm_cpr_def Let_def if_distrib [of "\<lambda>w. w _ _ _"] cong: if_cong)
  moreover have "cw_rest (ex_world ?e4) = checkpointed env eff wr e name ?os ?u"
    using kept_jobs [OF k1, of 0] kept_jobs [OF k3, of 1] by (simp add: checkpointed_def)
  ultimately show ?thesis using k4 by blast
qed

subsection \<open>Requested times\<close>

text \<open>The job is due at the least requested time; the frames of the simulation are at the times \<open>ts\<close>.\<close>

definition checkpoints_ok :: "'u cpr_sim \<Rightarrow> bool" where
  "checkpoints_ok e \<longleftrightarrow>
     (\<exists>j. cp_write_checkpoint_job (cpr e) = Some j \<and>
        jd_next_tics (ex_jobs e j) = (case cp_checkpoint_times (cpr e) of [] \<Rightarrow> TRICK_MAX_LONG_LONG | t # _ \<Rightarrow> t)) \<and>
     sorted (cp_checkpoint_times (cpr e)) \<and> (\<forall>t \<in> set (cp_checkpoint_times (cpr e)). t < TRICK_MAX_LONG_LONG)"

definition at_time :: "int \<Rightarrow> 'w Executive \<Rightarrow> 'w Executive" where
  "at_time t e = e\<lparr>ex_time_tics := t, ex_threads := map (\<lambda>th. th\<lparr>th_curr_time_tics := t\<rparr>) (ex_threads e)\<rparr>"

fun checkpoint_frames :: "'u cpr_env \<Rightarrow> 'u CprWorld exec_call \<Rightarrow> int list \<Rightarrow> 'u cpr_sim \<Rightarrow> (unit, 'u cpr_sim) result" where
  "checkpoint_frames env cf [] e = Some (Inr (), e)"
| "checkpoint_frames env cf (t # ts) e =
     (let e1 = at_time t e
      in case cp_write_checkpoint_job (cpr e1) of
           None \<Rightarrow> checkpoint_frames env cf ts e1
         | Some j \<Rightarrow>
             if jd_next_tics (ex_jobs e1 j) = t
             then andthen (write_checkpoint env cf e1) (\<lambda>_. checkpoint_frames env cf ts)
             else checkpoint_frames env cf ts e1)"

lemma at_time_simps [simp]:
  "cpr (at_time t e) = cpr e" "ex_jobs (at_time t e) = ex_jobs e" "cw_rest (ex_world (at_time t e)) = cw_rest (ex_world e)"
  "ex_time_tic_value (at_time t e) = ex_time_tic_value e" "enabled_cpr_jobs k (at_time t e) = enabled_cpr_jobs k e"
  "get_time_tics self (at_time t e) = t"
  by (auto simp: at_time_def cpr_def enabled_cpr_jobs_def cpr_queue_def get_time_tics_def split: option.splits)

lemma get_time_kept [simp]:
  "get_time_tics self (map_cpr f e) = get_time_tics self e" "get_time_tics self (map_job j g e) = get_time_tics self e"
  by (cases self; simp add: get_time_tics_def map_cpr_def map_job_def)+

definition checkpoint_name :: "'u cpr_env \<Rightarrow> int \<Rightarrow> int \<Rightarrow> string" where
  "checkpoint_name env tic_value t = ''chkpnt_'' @ ce_time_text env (ddiv (dbl t) (dbl tic_value))"

lemma sorted_head: "sorted (t # ts) \<Longrightarrow> u \<in> set (dropWhile (\<lambda>u. u = t) ts) \<longleftrightarrow> u \<in> set ts \<and> u \<noteq> t" for t :: int
proof (induction ts)
  case (Cons a ts)
  then show ?case by (cases "a = t") auto
qed simp

text \<open>The call at the time that is due.\<close>

lemma write_checkpoint_due:
  assumes "calm_cpr env cf eff wr" and "checkpoints_ok e" and "cp_checkpoint_times (cpr e) = t # us" and "get_time_tics (ce_self env) e = t"
    and "ex_time_tic_value e \<noteq> 0"
  shows "\<exists>e'. write_checkpoint env cf e = Some (Inr 0, e') \<and> checkpoints_ok e' \<and>
    cp_checkpoint_times (cpr e') = dropWhile (\<lambda>u. u = t) us \<and> ex_time_tic_value e' = ex_time_tic_value e \<and>
    (\<forall>k. enabled_cpr_jobs k e' = enabled_cpr_jobs k e) \<and>
    cw_rest (ex_world e') = checkpointed env eff wr e (checkpoint_name env (ex_time_tic_value e) t) [] (cw_rest (ex_world e))"
proof -
  obtain j where j: "cp_write_checkpoint_job (cpr e) = Some j" using assms(2) by (auto simp: checkpoints_ok_def)
  let ?us = "dropWhile (\<lambda>u. u = t) us"
  let ?next = "case ?us of u # _ \<Rightarrow> u | [] \<Rightarrow> TRICK_MAX_LONG_LONG"
  let ?e1 = "map_cpr (\<lambda>c. c\<lparr>cp_checkpoint_times := ?us\<rparr>) e"
  let ?e2 = "map_job j (\<lambda>r. r\<lparr>jd_next_tics := ?next\<rparr>) ?e1"
  have en: "enabled_cpr_jobs k ?e2 = enabled_cpr_jobs k e" for k
    by (auto simp: enabled_cpr_jobs_def map_job_def map_cpr_def cpr_queue_def cpr_def intro!: filter_cong)
  have time: "get_time_tics (ce_self env) ?e2 = t" "ex_time_tic_value ?e2 = ex_time_tic_value e" "cw_rest (ex_world ?e2) = cw_rest (ex_world e)"
    using assms(4) by (simp_all, simp_all add: map_job_def map_cpr_def)
  obtain e' where e': "checkpoint_file env cf (checkpoint_name env (ex_time_tic_value e) t) True [] ?e2 = Some (Inr 0, e')" "kept ?e2 e'"
      "cw_rest (ex_world e') = checkpointed env eff wr ?e2 (checkpoint_name env (ex_time_tic_value e) t) (strtok_commas [] []) (cw_rest (ex_world ?e2))"
    using checkpoint_file_returns [OF assms(1), of "checkpoint_name env (ex_time_tic_value e) t" True "[]" ?e2] by (auto simp: checkpoint_name_def)
  have "write_checkpoint env cf e = Some (Inr 0, e')"
    using assms(3-5) j e'(1) time by (simp add: write_checkpoint_def set_next_tics_def get_sim_time_def checkpoint_name_def)
  moreover have "cp_checkpoint_times (cpr e') = ?us" "cp_write_checkpoint_job (cpr e') = Some j" "ex_jobs e' = ex_jobs ?e2"
    using e'(2) j kept_jobs [OF e'(2)] by (auto simp: kept_def map_job_def cpr_def map_cpr_def)
  moreover from this have "checkpoints_ok e'"
    using assms(2,3) sorted_dropWhile [of us "\<lambda>u. u = t"] set_dropWhileD [of _ "\<lambda>u. u = t" us]
    by (auto simp: checkpoints_ok_def map_job_def split: list.splits)
  moreover have "ex_time_tic_value e' = ex_time_tic_value e" using e'(2) time(2) by (auto simp: kept_def)
  moreover have "enabled_cpr_jobs k e' = enabled_cpr_jobs k e" for k using kept_jobs [OF e'(2)] en by simp
  moreover have "checkpointed env eff wr ?e2 = checkpointed env eff wr e" using en by (simp add: checkpointed_def fun_eq_iff)
  ultimately show ?thesis using e'(3) time(3) by simp
qed

text \<open>
  When the frames of the simulation come to every requested time, a checkpoint is written at each of them, once, with the jobs
  before and after it, and at no other.
\<close>

lemma checkpoints_at_requested_times:
  assumes "calm_cpr env cf eff wr"
  shows "checkpoints_ok e \<Longrightarrow> ex_time_tic_value e \<noteq> 0 \<Longrightarrow> sorted_wrt (<) ts \<Longrightarrow> \<forall>t \<in> set ts. t < TRICK_MAX_LONG_LONG \<Longrightarrow>
    set (cp_checkpoint_times (cpr e)) \<subseteq> set ts \<Longrightarrow>
    \<exists>e'. checkpoint_frames env cf ts e = Some (Inr (), e') \<and> cp_checkpoint_times (cpr e') = [] \<and>
      cw_rest (ex_world e') = fold (\<lambda>t. checkpointed env eff wr e (checkpoint_name env (ex_time_tic_value e) t) [])
        (filter (\<lambda>t. t \<in> set (cp_checkpoint_times (cpr e))) ts) (cw_rest (ex_world e))"
proof (induction ts arbitrary: e)
  case (Cons t ts)
  obtain j where j: "cp_write_checkpoint_job (cpr e) = Some j"
      "jd_next_tics (ex_jobs e j) = (case cp_checkpoint_times (cpr e) of [] \<Rightarrow> TRICK_MAX_LONG_LONG | t # _ \<Rightarrow> t)"
    using Cons.prems(1) by (auto simp: checkpoints_ok_def)
  have ok1: "checkpoints_ok (at_time t e)" using Cons.prems(1) by (simp add: checkpoints_ok_def)
  have same: "checkpointed env eff wr (at_time t e) = checkpointed env eff wr e" by (simp add: checkpointed_def fun_eq_iff)
  have sorted: "sorted (cp_checkpoint_times (cpr e))" using Cons.prems(1) by (simp add: checkpoints_ok_def)
  show ?case
  proof (cases "t \<in> set (cp_checkpoint_times (cpr e))")
    case False
    have ne: "jd_next_tics (ex_jobs e j) \<noteq> t" using j(2) Cons.prems(4) False by (auto split: list.splits)
    have "set (cp_checkpoint_times (cpr (at_time t e))) \<subseteq> set ts" using Cons.prems(5) False by auto
    then show ?thesis
      using Cons.IH [OF ok1] Cons.prems(2-4) j(1) ne False by (auto simp: same Let_def)
  next
    case True
    have least: "t \<le> u" if "u \<in> set (cp_checkpoint_times (cpr e))" for u using that Cons.prems(3,5) by force
    obtain us where us: "cp_checkpoint_times (cpr e) = t # us"
    proof (cases "cp_checkpoint_times (cpr e)")
      case (Cons a r)
      then have "a = t" using least [of a] sorted True by auto
      then show thesis using that Cons by simp
    qed (use True in simp)
    obtain e1 where e1: "write_checkpoint env cf (at_time t e) = Some (Inr 0, e1)" "checkpoints_ok e1"
        "cp_checkpoint_times (cpr e1) = dropWhile (\<lambda>u. u = t) us" "ex_time_tic_value e1 = ex_time_tic_value e"
        "\<And>k. enabled_cpr_jobs k e1 = enabled_cpr_jobs k e"
        "cw_rest (ex_world e1) = checkpointed env eff wr e (checkpoint_name env (ex_time_tic_value e) t) [] (cw_rest (ex_world e))"
      using write_checkpoint_due [OF assms ok1, of t us] us Cons.prems(2) by (auto simp: same)
    have set1: "u \<in> set (cp_checkpoint_times (cpr e1)) \<longleftrightarrow> u \<in> set us \<and> u \<noteq> t" for u
      using sorted_head sorted unfolding us e1(3) by blast
    have sub: "set (cp_checkpoint_times (cpr e1)) \<subseteq> set ts" using set1 Cons.prems(5) us by auto
    have later: "t \<notin> set ts" using Cons.prems(3) by auto
    have "filter (\<lambda>u. u \<in> set (cp_checkpoint_times (cpr e1))) ts = filter (\<lambda>u. u \<in> set (cp_checkpoint_times (cpr e))) ts"
      using set1 later us by (auto intro!: filter_cong)
    moreover have "checkpointed env eff wr e1 = checkpointed env eff wr e" using e1(5) by (simp add: checkpointed_def fun_eq_iff)
    ultimately show ?thesis
      using Cons.IH [OF e1(2) _ _ _ sub] Cons.prems(2-4) e1(1,4,6) j us True by simp
  qed
qed (auto simp: checkpoints_ok_def)


text \<open>A request for a time that is not past is recorded, and the job stays due at the least recorded time.\<close>

lemma request_is_recorded:
  assumes "checkpoints_ok e" and "c_trunc (dmul tm (dbl (ex_time_tic_value e))) = t" and "t < TRICK_MAX_LONG_LONG"
    and "get_time_tics (ce_self env) e \<le> t"
  shows "\<exists>e'. checkpoint_at env tm e = Some (Inr 0, e') \<and> checkpoints_ok e' \<and>
    cp_checkpoint_times (cpr e') = insort t (cp_checkpoint_times (cpr e))"
proof -
  obtain j where j: "cp_write_checkpoint_job (cpr e) = Some j"
      "jd_next_tics (ex_jobs e j) = (case cp_checkpoint_times (cpr e) of [] \<Rightarrow> TRICK_MAX_LONG_LONG | u # _ \<Rightarrow> u)"
    using assms(1) by (auto simp: checkpoints_ok_def)
  let ?e1 = "map_cpr (\<lambda>c. c\<lparr>cp_checkpoint_times := insort t (cp_checkpoint_times c)\<rparr>) e"
  let ?e2 = "if t < jd_next_tics (ex_jobs ?e1 j) then map_job j (\<lambda>r. r\<lparr>jd_next_tics := t\<rparr>) ?e1 else ?e1"
  have "checkpoint_at env tm e = Some (Inr 0, ?e2)" using assms(2,4) j(1) by (simp add: checkpoint_at_def Let_def)
  moreover have c: "cpr ?e2 = cpr ?e1" by (simp add: map_job_def cpr_def)
  moreover have "checkpoints_ok ?e2"
    using assms(1,3) j unfolding checkpoints_ok_def c
    by (auto simp: map_job_def sorted_insort set_insort_key split: list.splits)
  ultimately show ?thesis by auto
qed

text \<open>
  The period of the safestores is rounded up from the time of the last one: before the first one is set that is the
  largest time there is, so a period of one and a half frames becomes longer than any simulation.
\<close>

lemma safestore_period_from_time:
  assumes "c_trunc (dmul tm (dbl (ex_time_tic_value e))) = 3 * f" and "ex_software_frame_tics e = 2 * f" and "0 < f"
    and "cp_safestore_time (cpr e) = TRICK_MAX_LONG_LONG" and "cp_safestore_checkpoint_job (cpr e) = None"
  shows "\<exists>e'. set_safestore_time tm e = Some (Inr 0, e') \<and> cp_safestore_period (cpr e') = (TRICK_MAX_LONG_LONG sdiv (2 * f) + 1) * (2 * f)"
proof -
  have "(3 * f) smod (2 * f) = f" using assms(3) by (simp add: signed_modulo_int_def sgn_mult abs_mult)
  then show ?thesis using assms by (simp add: set_safestore_time_def Let_def)
qed

end
