(* ===== verification/MemoryMap.thy ===== *)
theory MemoryMap
  imports References
begin

text \<open>
  The allocations the memory manager knows (include/trick/io\_alloc.h, MemoryManager.hh and
  sim\_services/MemoryManager: alloc\_info\_map, declare\_var, map\_external\_object, delete\_var, is\_alloced,
  get\_type\_attributes, get\_size, add\_var, strdup). An address is a number, 0 is \<open>NULL\<close>; the records
  \<open>ALLOC_INFO\<close> lie in a heap of their own, as both maps point to them. \<open>alloc_info_map\<close> is the
  list of its pairs in its order, the largest address first; \<open>variable_map\<close> is a map.
  What lies outside is in \<open>mm_env\<close>: \<open>calloc\<close>, the functions the interface code generator
  writes for each class, and the parser of declarations. Sizes are those of a 64 bit machine.
  An \<open>int\<close> that overflows is undefined. The messages are left out.
\<close>

subsection \<open>State\<close>

datatype TRICK_STCL = TRICK_LOCAL | TRICK_EXTERN
datatype TRICK_ALLOC_TYPE = TRICK_ALLOC_MALLOC | TRICK_ALLOC_NEW | TRICK_ALLOC_OTHER
datatype Language = Language_C | Language_CPP

record ALLOC_INFO =
  ai_start :: nat
  ai_end :: int
  ai_name :: "string option"
  ai_size :: int
  ai_sentinel_bytes :: nat
  ai_language :: Language
  ai_type :: TRICK_TYPE
  ai_stcl :: TRICK_STCL
  ai_alloc_type :: TRICK_ALLOC_TYPE
  ai_user_type_name :: "string option"
  ai_attr :: nat
  ai_num :: int
  ai_index :: "int list"
  ai_id :: nat

text \<open>\<open>mm_freed\<close> lists the addresses given to \<open>free\<close>.\<close>

record MM =
  mm_alloc_info_map :: "(nat \<times> nat) list"
  mm_info :: "nat \<Rightarrow> ALLOC_INFO"
  mm_variable_map :: "string \<rightharpoonup> nat"
  mm_alloc_info_map_counter :: nat
  mm_extern_alloc_info_map_counter :: nat
  mm_resetting_memory :: bool
  mm_deleted_addr_list :: "nat list"
  mm_mem :: memory
  mm_freed :: "nat list"

text \<open>A declaration as the parser returns it: type, class, stars, name and dimensions.\<close>

record decl =
  dc_type :: TRICK_TYPE
  dc_user_type_name :: string
  dc_n_stars :: nat
  dc_var_name :: string
  dc_cdims :: "int list"

text \<open>
  \<open>env_calloc\<close> is given the number and the size of the elements, \<open>env_info\<close> is the \<open>calloc\<close> of a record;
  0 is a failure. \<open>env_allocate_class\<close>, \<open>env_destruct_class\<close> and \<open>env_delete_class\<close> run generated
  code and constructors, which may call the memory manager. \<open>env_uninit\<close> is what an
  uninitialized variable holds, \<open>env_table_language\<close> the language of a table of attributes.
\<close>

record mm_env =
  env_calloc :: "int \<Rightarrow> int \<Rightarrow> MM \<Rightarrow> nat"
  env_info :: "MM \<Rightarrow> nat"
  env_allocate_class :: "string \<Rightarrow> int \<Rightarrow> MM \<Rightarrow> nat \<times> MM"
  env_destruct_class :: "ALLOC_INFO \<Rightarrow> MM \<Rightarrow> MM"
  env_delete_class :: "ALLOC_INFO \<Rightarrow> MM \<Rightarrow> MM"
  env_sizeof_user_type :: "string \<Rightarrow> int"
  env_attr_info :: "string \<Rightarrow> (TRICK_TYPE \<times> nat) option"
  env_table_language :: "nat \<Rightarrow> Language"
  env_ADEF_parse :: "string \<Rightarrow> decl option"
  env_uninit :: TRICK_ALLOC_TYPE

definition new_MM :: "(nat \<Rightarrow> ALLOC_INFO) \<Rightarrow> memory \<Rightarrow> MM" where
  "new_MM info m =
     \<lparr>mm_alloc_info_map = [], mm_info = info, mm_variable_map = Map.empty, mm_alloc_info_map_counter = 100000000,
      mm_extern_alloc_info_map_counter = 0, mm_resetting_memory = False, mm_deleted_addr_list = [],
      mm_mem = m, mm_freed = []\<rparr>"

subsection \<open>The map of allocations\<close>

fun map_insert :: "nat \<Rightarrow> 'v \<Rightarrow> (nat \<times> 'v) list \<Rightarrow> (nat \<times> 'v) list" where
  "map_insert a v [] = [(a, v)]"
| "map_insert a v ((b, w) # m) =
     (if b < a then (a, v) # (b, w) # m else if a = b then (a, v) # m else (b, w) # map_insert a v m)"

definition map_erase :: "nat \<Rightarrow> (nat \<times> 'v) list \<Rightarrow> (nat \<times> 'v) list" where
  "map_erase a m = filter (\<lambda>(b, w). b \<noteq> a) m"

text \<open>\<open>lower_bound\<close> in the order \<open>std::greater\<close>: the first pair whose address is not greater.\<close>

definition lower_bound :: "nat \<Rightarrow> (nat \<times> 'v) list \<Rightarrow> (nat \<times> 'v) option" where
  "lower_bound a m = List.find (\<lambda>(b, w). b \<le> a) m"

definition get_alloc_info_of :: "nat \<Rightarrow> MM \<Rightarrow> nat option" where
  "get_alloc_info_of addr s =
     (case lower_bound addr (mm_alloc_info_map s) of
        None \<Rightarrow> None
      | Some (b, p) \<Rightarrow>
          if ai_start (mm_info s p) \<le> addr \<and> int addr \<le> ai_end (mm_info s p) then Some p else None)"

definition get_alloc_info_at :: "nat \<Rightarrow> MM \<Rightarrow> nat option" where
  "get_alloc_info_at addr s = map_of (mm_alloc_info_map s) addr"

definition update_info :: "nat \<Rightarrow> (ALLOC_INFO \<Rightarrow> ALLOC_INFO) \<Rightarrow> MM \<Rightarrow> MM" where
  "update_info p f s = s\<lparr>mm_info := (mm_info s)(p := f (mm_info s p))\<rparr>"

definition set_name_at :: "nat \<Rightarrow> string \<Rightarrow> MM \<Rightarrow> int \<times> MM" where
  "set_name_at addr name s =
     (case get_alloc_info_at addr s of
        None \<Rightarrow> (-1, s)
      | Some p \<Rightarrow>
          (let s1 = update_info p (\<lambda>i. i\<lparr>ai_name := Some name\<rparr>) s
           in if mm_variable_map s1 name \<noteq> None then (-1, s1)
              else (0, s1\<lparr>mm_variable_map := (mm_variable_map s1)(name \<mapsto> p)\<rparr>)))"

definition is_alloced :: "nat \<Rightarrow> MM \<Rightarrow> int" where
  "is_alloced addr s = (if get_alloc_info_at addr s \<noteq> None then 1 else 0)"

definition var_exists :: "string \<Rightarrow> MM \<Rightarrow> int" where
  "var_exists var_name s = (if mm_variable_map s var_name \<noteq> None then 1 else 0)"

definition get_size :: "nat \<Rightarrow> MM \<Rightarrow> int" where
  "get_size addr s = (case get_alloc_info_at addr s of None \<Rightarrow> 0 | Some p \<Rightarrow> ai_num (mm_info s p))"

definition get_truncated_size :: "nat \<Rightarrow> MM \<Rightarrow> int" where
  "get_truncated_size addr s =
     (case get_alloc_info_of addr s of
        None \<Rightarrow> 0
      | Some p \<Rightarrow> ai_num (mm_info s p) - (int addr - int (ai_start (mm_info s p))) div ai_size (mm_info s p))"

subsection \<open>Types\<close>

definition pointer_size :: int where
  "pointer_size = 8"

definition intrinsic_size :: "TRICK_TYPE \<Rightarrow> int option" where
  "intrinsic_size t =
     (case t of
        TRICK_CHARACTER \<Rightarrow> Some 1 | TRICK_SHORT \<Rightarrow> Some 2 | TRICK_INTEGER \<Rightarrow> Some 4 | TRICK_LONG \<Rightarrow> Some 8
      | TRICK_FLOAT \<Rightarrow> Some 4 | TRICK_DOUBLE \<Rightarrow> Some 8 | TRICK_BOOLEAN \<Rightarrow> Some 1 | TRICK_LONG_LONG \<Rightarrow> Some 8
      | TRICK_WCHAR \<Rightarrow> Some 4 | TRICK_WSTRING \<Rightarrow> Some 32 | TRICK_UNSIGNED_CHARACTER \<Rightarrow> Some 1
      | TRICK_UNSIGNED_SHORT \<Rightarrow> Some 2 | TRICK_UNSIGNED_INTEGER \<Rightarrow> Some 4 | TRICK_UNSIGNED_LONG \<Rightarrow> Some 8
      | TRICK_UNSIGNED_LONG_LONG \<Rightarrow> Some 8 | TRICK_STRING \<Rightarrow> Some 32
      | _ \<Rightarrow> None)"

text \<open>The size, which is set also when the attributes are not found; 0 when it is not found.\<close>

definition type_size :: "mm_env \<Rightarrow> TRICK_TYPE \<Rightarrow> string \<Rightarrow> nat \<Rightarrow> int" where
  "type_size env t user_type_name n_stars =
     (case intrinsic_size t of
        Some n \<Rightarrow> if n_stars = 0 then n else pointer_size
      | None \<Rightarrow>
          if t \<in> {TRICK_OPAQUE_TYPE, TRICK_ENUMERATED, TRICK_STRUCTURED}
          then (if n_stars \<noteq> 0 then pointer_size else env_sizeof_user_type env user_type_name)
          else 0)"

text \<open>The type (which is passed by reference), the attributes and the size; \<open>None\<close> is the error 1.\<close>

definition get_type_attributes :: "mm_env \<Rightarrow> TRICK_TYPE \<Rightarrow> string \<Rightarrow> nat \<Rightarrow> (TRICK_TYPE \<times> nat \<times> int) option" where
  "get_type_attributes env t user_type_name n_stars =
     (let sz = type_size env t user_type_name n_stars
      in if sz = 0 then None
         else if intrinsic_size t \<noteq> None then Some (t, 0, sz)
         else map_option (\<lambda>(t1, a). (t1, a, sz)) (env_attr_info env user_type_name))"

subsection \<open>Declaring\<close>

definition int32 :: "int \<Rightarrow> int option" where
  "int32 x = (if - (2 ^ 31) \<le> x \<and> x < 2 ^ 31 then Some x else None)"

fun n_elements :: "int list \<Rightarrow> int \<Rightarrow> int option" where
  "n_elements [] n = Some n"
| "n_elements (d # ds) n = Option.bind (int32 (n * d)) (n_elements ds)"

definition zero_bytes_at :: "nat \<Rightarrow> int \<Rightarrow> memory \<Rightarrow> memory" where
  "zero_bytes_at a n m = (\<lambda>i. if a \<le> i \<and> int i < int a + n then 0 else m i)"

text \<open>
  The memory of a new variable: the address (or 0), the language and the way of allocation. The
  strings are constructed in place before the test for \<open>NULL\<close>.
\<close>

definition allocate :: "mm_env \<Rightarrow> TRICK_TYPE \<Rightarrow> string \<Rightarrow> nat \<Rightarrow> nat \<Rightarrow> int \<Rightarrow> int \<Rightarrow> MM
    \<Rightarrow> (nat \<times> Language \<times> TRICK_ALLOC_TYPE, MM) result" where
  "allocate env t user_type_name n_stars sub_attr n_elems sz s =
     (if t = TRICK_STRUCTURED \<and> env_table_language env sub_attr = Language_CPP \<and> n_stars = 0 then
        (case env_allocate_class env user_type_name n_elems s of
           (a, s1) \<Rightarrow> Some (Inr (a, Language_CPP, TRICK_ALLOC_MALLOC), s1))
      else
        (let a = env_calloc env n_elems sz s;
             s1 = (if a = 0 then s else s\<lparr>mm_mem := zero_bytes_at a (n_elems * sz) (mm_mem s)\<rparr>)
         in if t \<in> {TRICK_STRING, TRICK_WSTRING} \<and> n_stars = 0 then
              (if a = 0 \<and> 0 < n_elems then Some (Inl (Undefined ''construction at NULL''), s1)
               else Some (Inr (a, Language_CPP, env_uninit env), s1))
            else Some (Inr (a, Language_C, env_uninit env), s1)))"

text \<open>The record of an allocation entered into both maps.\<close>

definition register :: "nat \<Rightarrow> nat \<Rightarrow> ALLOC_INFO \<Rightarrow> MM \<Rightarrow> MM" where
  "register address p info s =
     s\<lparr>mm_info := (mm_info s)(p := info), mm_alloc_info_map := map_insert address p (mm_alloc_info_map s),
       mm_variable_map := (case ai_name info of None \<Rightarrow> mm_variable_map s | Some nm \<Rightarrow> (mm_variable_map s)(nm \<mapsto> p))\<rparr>"

definition optional_name :: "string \<Rightarrow> string option" where
  "optional_name nm = (if nm = [] then None else Some nm)"

text \<open>The record is allocated, filled in and entered, with the next number of its kind.\<close>

definition enter_allocation :: "mm_env \<Rightarrow> ALLOC_INFO \<Rightarrow> (MM \<Rightarrow> MM) \<Rightarrow> MM \<Rightarrow> (nat, MM) result" where
  "enter_allocation env info next_id s =
     (let p = env_info env s
      in if p = 0 then Some (Inr 0, s)
         else if int32 (ai_num info * ai_size info) = None then Some (Inl (Undefined ''signed overflow''), s)
         else if 8 < length (ai_index info) then Some (Inl (Undefined ''index past 8 dimensions''), s)
         else Some (Inr (ai_start info), register (ai_start info) p info (next_id s)))"

definition next_local_id :: "MM \<Rightarrow> MM" where
  "next_local_id s = s\<lparr>mm_alloc_info_map_counter := mm_alloc_info_map_counter s + 1\<rparr>"

definition next_extern_id :: "MM \<Rightarrow> MM" where
  "next_extern_id s = s\<lparr>mm_extern_alloc_info_map_counter := mm_extern_alloc_info_map_counter s + 1\<rparr>"

definition local_info :: "decl \<Rightarrow> TRICK_TYPE \<Rightarrow> nat \<Rightarrow> int \<Rightarrow> int \<Rightarrow> nat \<Rightarrow> Language \<Rightarrow> TRICK_ALLOC_TYPE \<Rightarrow> nat \<Rightarrow> ALLOC_INFO" where
  "local_info d t sub_attr n_elems sz address language allocation_type i =
     \<lparr>ai_start = address, ai_end = int address + n_elems * sz - 1, ai_name = optional_name (dc_var_name d),
      ai_size = sz, ai_sentinel_bytes = 0, ai_language = language, ai_type = t, ai_stcl = TRICK_LOCAL,
      ai_alloc_type = allocation_type,
      ai_user_type_name = (if t \<in> {TRICK_STRUCTURED, TRICK_ENUMERATED} then Some (dc_user_type_name d) else None),
      ai_attr = sub_attr, ai_num = n_elems, ai_index = dc_cdims d @ replicate (dc_n_stars d) 0, ai_id = i\<rparr>"

definition extern_info :: "mm_env \<Rightarrow> decl \<Rightarrow> TRICK_TYPE \<Rightarrow> nat \<Rightarrow> int \<Rightarrow> int \<Rightarrow> nat \<Rightarrow> nat \<Rightarrow> ALLOC_INFO" where
  "extern_info env d t sub_attr n_elems sz address i =
     \<lparr>ai_start = address, ai_end = int address + n_elems * sz - 1, ai_name = optional_name (dc_var_name d),
      ai_size = sz, ai_sentinel_bytes = 0,
      ai_language = (if sub_attr \<noteq> 0 then env_table_language env sub_attr else Language_C),
      ai_type = t, ai_stcl = TRICK_EXTERN, ai_alloc_type = TRICK_ALLOC_OTHER,
      ai_user_type_name = (if t \<in> {TRICK_STRUCTURED, TRICK_ENUMERATED, TRICK_OPAQUE_TYPE}
                           then Some (dc_user_type_name d) else None),
      ai_attr = sub_attr, ai_num = n_elems, ai_index = dc_cdims d @ replicate (dc_n_stars d) 0, ai_id = i\<rparr>"

text \<open>What both declarations check first: the name, the number of elements and the type.\<close>

definition check_decl :: "mm_env \<Rightarrow> decl \<Rightarrow> (int \<Rightarrow> TRICK_TYPE \<Rightarrow> nat \<Rightarrow> int \<Rightarrow> (nat, MM) result) \<Rightarrow> MM \<Rightarrow> (nat, MM) result" where
  "check_decl env d k s =
     (if dc_var_name d \<noteq> [] \<and> mm_variable_map s (dc_var_name d) \<noteq> None then Some (Inr 0, s)
      else case n_elements (dc_cdims d) 1 of
        None \<Rightarrow> Some (Inl (Undefined ''signed overflow''), s)
      | Some n_elems \<Rightarrow>
          if n_elems = 0 then Some (Inr 0, s)
          else case get_type_attributes env (dc_type d) (dc_user_type_name d) (dc_n_stars d) of
            None \<Rightarrow> Some (Inr 0, s)
          | Some (t, sub_attr, sz) \<Rightarrow> k n_elems t sub_attr sz)"

definition declare_var :: "mm_env \<Rightarrow> decl \<Rightarrow> MM \<Rightarrow> (nat, MM) result" where
  "declare_var env d s =
     check_decl env d
       (\<lambda>n_elems t sub_attr sz.
          andthen (allocate env t (dc_user_type_name d) (dc_n_stars d) sub_attr n_elems sz s)
            (\<lambda>(address, language, allocation_type) s1.
               if address = 0 then Some (Inr 0, s1)
               else enter_allocation env
                 (local_info d t sub_attr n_elems sz address language allocation_type (mm_alloc_info_map_counter s1))
                 next_local_id s1)) s"

definition declare_extern_var :: "mm_env \<Rightarrow> nat \<Rightarrow> decl \<Rightarrow> MM \<Rightarrow> (nat, MM) result" where
  "declare_extern_var env address d s =
     (if address = 0 then Some (Inr 0, s)
      else check_decl env d
        (\<lambda>n_elems t sub_attr sz.
           enter_allocation env (extern_info env d t sub_attr n_elems sz address (mm_extern_alloc_info_map_counter s))
             next_extern_id s) s)"

text \<open>A declaration as text, and one for each of \<open>n_elems\<close> elements.\<close>

definition declare_var_text :: "mm_env \<Rightarrow> string \<Rightarrow> MM \<Rightarrow> (nat, MM) result" where
  "declare_var_text env alloc_definition s =
     (case env_ADEF_parse env alloc_definition of None \<Rightarrow> Some (Inr 0, s) | Some d \<Rightarrow> declare_var env d s)"

definition array_of :: "int \<Rightarrow> decl \<Rightarrow> decl" where
  "array_of n_elems d = d\<lparr>dc_cdims := n_elems # dc_cdims d\<rparr>"

definition declare_var_array :: "mm_env \<Rightarrow> string \<Rightarrow> int \<Rightarrow> MM \<Rightarrow> (nat, MM) result" where
  "declare_var_array env element_definition n_elems s =
     (case env_ADEF_parse env element_definition of
        None \<Rightarrow> Some (Inr 0, s)
      | Some d \<Rightarrow> if length (dc_cdims d) < 8 then declare_var env (array_of n_elems d) s else Some (Inr 0, s))"

definition declare_extern_var_text :: "mm_env \<Rightarrow> nat \<Rightarrow> string \<Rightarrow> MM \<Rightarrow> (nat, MM) result" where
  "declare_extern_var_text env address alloc_definition s =
     (case env_ADEF_parse env alloc_definition of None \<Rightarrow> Some (Inr 0, s) | Some d \<Rightarrow> declare_extern_var env address d s)"

definition declare_extern_var_array :: "mm_env \<Rightarrow> nat \<Rightarrow> string \<Rightarrow> int \<Rightarrow> MM \<Rightarrow> (nat, MM) result" where
  "declare_extern_var_array env address element_definition n_elems s =
     (case env_ADEF_parse env element_definition of
        None \<Rightarrow> Some (Inr 0, s)
      | Some d \<Rightarrow> if length (dc_cdims d) < 8 then declare_extern_var env address (array_of n_elems d) s else Some (Inr 0, s))"

text \<open>
  Memory for \<open>operator new\<close>: the record starts behind the extra bytes of the compiler, but is entered
  at the address of the block.
\<close>

definition operatornew_info :: "string \<Rightarrow> nat \<Rightarrow> nat \<Rightarrow> nat \<Rightarrow> string \<Rightarrow> nat \<Rightarrow> nat \<Rightarrow> ALLOC_INFO" where
  "operatornew_info user_type_name sub_attr alloc_size element_size alloc_name address i =
     (let aligned = alloc_size mod element_size; num = int (alloc_size div element_size)
      in \<lparr>ai_start = address + aligned, ai_end = int address + int alloc_size - 1,
          ai_name = optional_name alloc_name, ai_size = int element_size, ai_sentinel_bytes = aligned,
          ai_language = Language_CPP, ai_type = TRICK_STRUCTURED, ai_stcl = TRICK_LOCAL,
          ai_alloc_type = TRICK_ALLOC_MALLOC, ai_user_type_name = Some user_type_name,
          ai_attr = sub_attr, ai_num = num, ai_index = [num], ai_id = i\<rparr>)"

definition declare_operatornew_var :: "mm_env \<Rightarrow> string \<Rightarrow> nat \<Rightarrow> nat \<Rightarrow> string \<Rightarrow> MM \<Rightarrow> (nat, MM) result" where
  "declare_operatornew_var env user_type_name alloc_size element_size alloc_name s =
     (case get_type_attributes env TRICK_STRUCTURED user_type_name 0 of
        None \<Rightarrow> Some (Inr 0, s)
      | Some (t, sub_attr, size_ref) \<Rightarrow>
          (let address = env_calloc env 1 (int alloc_size) s;
               s1 = s\<lparr>mm_mem := zero_bytes_at address (int alloc_size) (mm_mem s)\<rparr>
           in if address = 0 then Some (Inr 0, s)
              else if element_size = 0 then Some (Inl (Undefined ''division by zero''), s)
              else if env_info env s1 = 0 then Some (Inr 0, s1)
              else Some (Inr address,
                register address (env_info env s1)
                  (operatornew_info user_type_name sub_attr alloc_size element_size alloc_name address (mm_alloc_info_map_counter s1))
                  (next_local_id s1))))"

definition sizeof_type :: "mm_env \<Rightarrow> string \<Rightarrow> abort + int" where
  "sizeof_type env var_definition =
     (case env_ADEF_parse env var_definition of
        None \<Rightarrow> Inr 0
      | Some d \<Rightarrow>
          (let sz = type_size env (dc_type d) (dc_user_type_name d) (dc_n_stars d)
           in case Option.bind (n_elements (dc_cdims d) 1) (\<lambda>n. int32 (n * sz)) of
                None \<Rightarrow> Inl (Undefined ''signed overflow'')
              | Some n \<Rightarrow> Inr (n mod 2 ^ 64)))"

end
