(* ===== verification/MemoryOps.thy ===== *)
theory MemoryOps
  imports MemoryMap
begin

text \<open>
  Deleting, resizing and resetting what the memory manager allocated (MemoryManager\_delete\_var,
  \_realloc, \_clear\_memory, \_strdup, \_add\_var, \_ref\_var, \_ref\_allocate, \_make\_reference\_attr,
  MemoryManager.cpp).
\<close>

subsection \<open>Deleting\<close>

text \<open>The generated functions are called for objects of C++ classes only, not for pointers to them.\<close>

definition of_class :: "ALLOC_INFO \<Rightarrow> bool" where
  "of_class i \<longleftrightarrow> ai_type i = TRICK_STRUCTURED \<and> ai_language i = Language_CPP \<and>
     (ai_index i = [] \<or> List.last (ai_index i) \<noteq> 0)"

definition io_src_destruct_class :: "mm_env \<Rightarrow> nat \<Rightarrow> MM \<Rightarrow> MM" where
  "io_src_destruct_class env p s = (if of_class (mm_info s p) then env_destruct_class env (mm_info s p) s else s)"

definition io_src_delete_class :: "mm_env \<Rightarrow> nat \<Rightarrow> MM \<Rightarrow> MM" where
  "io_src_delete_class env p s = (if of_class (mm_info s p) then env_delete_class env (mm_info s p) s else s)"

definition free_memory :: "nat \<Rightarrow> MM \<Rightarrow> MM" where
  "free_memory a s = s\<lparr>mm_freed := mm_freed s @ [a]\<rparr>"

definition release :: "mm_env \<Rightarrow> nat \<Rightarrow> nat \<Rightarrow> MM \<Rightarrow> MM" where
  "release env address p s =
     (if ai_stcl (mm_info s p) = TRICK_LOCAL then
        (let s1 = s\<lparr>mm_deleted_addr_list := mm_deleted_addr_list s @ [address]\<rparr>
         in if ai_alloc_type (mm_info s p) = TRICK_ALLOC_MALLOC
            then free_memory address (io_src_destruct_class env p s1)
            else if ai_alloc_type (mm_info s p) = TRICK_ALLOC_NEW then io_src_delete_class env p s1
            else s1)
      else s)"

definition delete_var :: "mm_env \<Rightarrow> nat \<Rightarrow> MM \<Rightarrow> int \<times> MM" where
  "delete_var env address s =
     (if address = 0 then (1, s)
      else case get_alloc_info_at address s of
        None \<Rightarrow> (1, s)
      | Some p \<Rightarrow>
          (let s1 = release env address p (s\<lparr>mm_alloc_info_map := map_erase address (mm_alloc_info_map s)\<rparr>)
           in (0, case ai_name (mm_info s1 p) of
                    None \<Rightarrow> s1
                  | Some nm \<Rightarrow> s1\<lparr>mm_variable_map := (mm_variable_map s1)(nm := None)\<rparr>)))"

definition delete_var_name :: "mm_env \<Rightarrow> string \<Rightarrow> MM \<Rightarrow> int \<times> MM" where
  "delete_var_name env name s =
     (case mm_variable_map s name of
        None \<Rightarrow> (1, s)
      | Some p \<Rightarrow> delete_var env (ai_start (mm_info s p)) s)"

definition delete_extern_var :: "mm_env \<Rightarrow> nat \<Rightarrow> MM \<Rightarrow> int \<times> MM" where
  "delete_extern_var env address s = delete_var env address s"

definition delete_extern_var_name :: "mm_env \<Rightarrow> string \<Rightarrow> MM \<Rightarrow> int \<times> MM" where
  "delete_extern_var_name env name s = delete_var_name env name s"

definition delete_all :: "mm_env \<Rightarrow> nat list \<Rightarrow> MM \<Rightarrow> MM" where
  "delete_all env = fold (\<lambda>a s. snd (delete_var env a s))"

definition deletion_list :: "MM \<Rightarrow> nat list" where
  "deletion_list s =
     map (\<lambda>(b, p). ai_start (mm_info s p))
       (filter (\<lambda>(b, p). ai_stcl (mm_info s p) = TRICK_LOCAL) (mm_alloc_info_map s))"

definition reset_memory :: "mm_env \<Rightarrow> MM \<Rightarrow> MM" where
  "reset_memory env s =
     (let s1 = s\<lparr>mm_resetting_memory := True, mm_deleted_addr_list := []\<rparr>
      in (delete_all env (deletion_list s1) s1)
           \<lparr>mm_resetting_memory := False, mm_deleted_addr_list := [], mm_alloc_info_map_counter := 100000000\<rparr>)"

text \<open>The destructor: what it frees of the memory of the variables.\<close>

definition destroy_one :: "mm_env \<Rightarrow> nat \<times> nat \<Rightarrow> MM \<Rightarrow> MM" where
  "destroy_one env bp s =
     (let p = snd bp; i = mm_info s p
      in if ai_stcl i = TRICK_LOCAL then
           (if ai_alloc_type i = TRICK_ALLOC_MALLOC then free_memory (ai_start i - ai_sentinel_bytes i) s
            else if ai_alloc_type i = TRICK_ALLOC_NEW then io_src_delete_class env p s else s)
         else s)"

definition destroy :: "mm_env \<Rightarrow> MM \<Rightarrow> MM" where
  "destroy env s = (fold (destroy_one env) (mm_alloc_info_map s) s)\<lparr>mm_alloc_info_map := []\<rparr>"

subsection \<open>Resizing\<close>

definition copy_bytes :: "nat \<Rightarrow> nat \<Rightarrow> nat \<Rightarrow> memory \<Rightarrow> memory" where
  "copy_bytes d_addr s_addr n m = (\<lambda>i. if d_addr \<le> i \<and> i < d_addr + n then m (s_addr + (i - d_addr)) else m i)"

fun recursive_array_copy :: "nat \<Rightarrow> nat \<Rightarrow> nat \<Rightarrow> nat list \<Rightarrow> nat list \<Rightarrow> nat \<Rightarrow> nat \<Rightarrow> memory \<Rightarrow> memory" where
  "recursive_array_copy s_base d_base sz (sd # s_cdims) (dd # d_cdims) s_off d_off m =
     fold (\<lambda>ii. recursive_array_copy s_base d_base sz s_cdims d_cdims (s_off * sd + ii) (d_off * dd + ii)) [0..<min sd dd] m"
| "recursive_array_copy s_base d_base sz _ _ s_off d_off m = copy_bytes (d_base + d_off * sz) (s_base + s_off * sz) sz m"

definition array_copy :: "nat \<Rightarrow> nat \<Rightarrow> int list \<Rightarrow> int list \<Rightarrow> int \<Rightarrow> nat \<Rightarrow> memory \<Rightarrow> memory" where
  "array_copy s_base d_base s_cdims d_cdims sz n =
     recursive_array_copy s_base d_base (nat sz) (map nat (take n s_cdims)) (map nat (take n d_cdims)) 0 0"

text \<open>The new memory of an array: by the class, or by \<open>calloc\<close>.\<close>

definition reallocate :: "mm_env \<Rightarrow> ALLOC_INFO \<Rightarrow> int list \<Rightarrow> int \<Rightarrow> MM \<Rightarrow> nat \<times> MM" where
  "reallocate env i cdims new_n_elems s =
     (if ai_type i = TRICK_STRUCTURED \<and> ai_language i = Language_CPP \<and> length (ai_index i) = length cdims
      then env_allocate_class env (case ai_user_type_name i of None \<Rightarrow> [] | Some nm \<Rightarrow> nm) new_n_elems s
      else
        (let a = env_calloc env new_n_elems (ai_size i) s
         in (a, if a = 0 then s else s\<lparr>mm_mem := zero_bytes_at a (new_n_elems * ai_size i) (mm_mem s)\<rparr>)))"

definition move_array :: "nat \<Rightarrow> nat \<Rightarrow> nat \<Rightarrow> int list \<Rightarrow> int \<Rightarrow> MM \<Rightarrow> MM" where
  "move_array address new_address p cdims new_n_elems s =
     (let i = mm_info s p;
          s1 = s\<lparr>mm_mem := array_copy (ai_start i) new_address (ai_index i) cdims (ai_size i) (length cdims) (mm_mem s)\<rparr>;
          s2 = free_memory address s1;
          s3 = s2\<lparr>mm_alloc_info_map := map_erase address (mm_alloc_info_map s2)\<rparr>;
          s4 = update_info p (\<lambda>i. i\<lparr>ai_start := new_address, ai_end := int new_address + new_n_elems * ai_size i - 1,
                 ai_index := cdims @ drop (length cdims) (ai_index i), ai_num := new_n_elems\<rparr>) s3
      in s4\<lparr>mm_alloc_info_map := map_insert new_address p (mm_alloc_info_map s4)\<rparr>)"

definition resize_array :: "mm_env \<Rightarrow> nat \<Rightarrow> int list \<Rightarrow> MM \<Rightarrow> (nat, MM) result" where
  "resize_array env address cdims s =
     (case get_alloc_info_at address s of
        None \<Rightarrow> Some (Inr 0, s)
      | Some p \<Rightarrow>
          (let i = mm_info s p
           in if ai_stcl i \<noteq> TRICK_LOCAL then Some (Inr 0, s)
              else if ai_type i = TRICK_STRING then Some (Inr 0, s)
              else if length cdims \<noteq> length (filter (\<lambda>x. x \<noteq> 0) (ai_index i)) then Some (Inr 0, s)
              else case n_elements cdims 1 of
                None \<Rightarrow> Some (Inl (Undefined ''signed overflow''), s)
              | Some new_n_elems \<Rightarrow>
                  if new_n_elems = 0 then Some (Inr 0, s)
                  else (case reallocate env i cdims new_n_elems s of
                    (new_address, s1) \<Rightarrow>
                      if new_address = 0 then Some (Inr 0, s1)
                      else if int32 (new_n_elems * ai_size i) = None then Some (Inl (Undefined ''signed overflow''), s1)
                      else Some (Inr new_address, move_array address new_address p cdims new_n_elems s1))))"

definition resize_array_1d :: "mm_env \<Rightarrow> nat \<Rightarrow> int \<Rightarrow> MM \<Rightarrow> (nat, MM) result" where
  "resize_array_1d env address num = resize_array env address [num]"

definition resize_array_name :: "mm_env \<Rightarrow> string \<Rightarrow> int list \<Rightarrow> MM \<Rightarrow> (nat, MM) result" where
  "resize_array_name env name cdims s =
     (case mm_variable_map s name of
        None \<Rightarrow> Some (Inr 0, s)
      | Some p \<Rightarrow> resize_array env (ai_start (mm_info s p)) cdims s)"

definition resize_array_name_1d :: "mm_env \<Rightarrow> string \<Rightarrow> int \<Rightarrow> MM \<Rightarrow> (nat, MM) result" where
  "resize_array_name_1d env name num = resize_array_name env name [num]"

subsection \<open>Declarations from the input file\<close>

definition add_var :: "mm_env \<Rightarrow> decl \<Rightarrow> MM \<Rightarrow> (nat, MM) result" where
  "add_var env d s =
     (if mm_variable_map s (dc_var_name d) \<noteq> None then Some (Inr 0, s)
      else if 8 < length (dc_cdims d) then Some (Inl (Undefined ''index past 8 dimensions''), s)
      else declare_var env d s)"

fun add_vars_loop :: "mm_env \<Rightarrow> decl list \<Rightarrow> int \<Rightarrow> MM \<Rightarrow> (int, MM) result" where
  "add_vars_loop env [] ret s = Some (Inr ret, s)"
| "add_vars_loop env (d # ds) ret s =
     andthen (add_var env d s) (\<lambda>a s1. add_vars_loop env ds (if a = 0 then 1 else ret) s1)"

definition add_vars :: "mm_env \<Rightarrow> decl list \<Rightarrow> MM \<Rightarrow> (int, MM) result" where
  "add_vars env ds s = add_vars_loop env ds 0 s"

definition write_string :: "nat \<Rightarrow> string \<Rightarrow> memory \<Rightarrow> memory" where
  "write_string a str m =
     (\<lambda>i. if a \<le> i \<and> i < a + length str then word_of_nat (of_char (str ! (i - a))) else if i = a + length str then 0 else m i)"

definition mm_strdup :: "mm_env \<Rightarrow> string \<Rightarrow> MM \<Rightarrow> (nat, MM) result" where
  "mm_strdup env str s =
     andthen (declare_var env \<lparr>dc_type = TRICK_CHARACTER, dc_user_type_name = [], dc_n_stars = 0, dc_var_name = [],
                dc_cdims = [int (length str) + 1]\<rparr> s)
       (\<lambda>a s1. if a = 0 then Some (Inl (Undefined ''strcpy to NULL''), s1)
               else Some (Inr a, s1\<lparr>mm_mem := write_string a str (mm_mem s1)\<rparr>))"

end
