(* ===== verification/PropsMemory.thy ===== *)
theory PropsMemory
  imports MemoryOps
begin

text \<open>
  What the memory manager guarantees: its two maps agree and its allocations do not overlap, so a
  lookup finds the allocation an address lies in; resizing keeps the common elements.
\<close>

subsection \<open>The ordered map\<close>

definition descending :: "(nat \<times> 'v) list \<Rightarrow> bool" where
  "descending m \<longleftrightarrow> sorted_wrt (\<lambda>x y. fst y < fst x) m"

lemma descending_Cons: "descending ((b, w) # m) \<longleftrightarrow> (\<forall>(c, v) \<in> set m. c < b) \<and> descending m"
  by (auto simp: descending_def)

lemma descending_unique: "descending m \<Longrightarrow> (b, p) \<in> set m \<Longrightarrow> (b, q) \<in> set m \<Longrightarrow> p = q"
  by (induction m) (auto simp: descending_def)

lemma set_map_insert: "descending m \<Longrightarrow> set (map_insert a v m) = insert (a, v) {x \<in> set m. fst x \<noteq> a}"
proof (induction a v m rule: map_insert.induct)
  case (2 a v b w m)
  then have "fst x < b" if "x \<in> set m" for x using that by (auto simp: descending_Cons)
  then show ?case using 2 by (auto simp: descending_Cons)
qed simp

lemma descending_map_insert: "descending m \<Longrightarrow> descending (map_insert a v m)"
proof (induction a v m rule: map_insert.induct)
  case (2 a v b w m)
  then show ?case by (auto simp: descending_Cons set_map_insert)
qed (simp add: descending_def)

lemma set_map_erase: "set (map_erase a m) = {x \<in> set m. fst x \<noteq> a}"
  by (auto simp: map_erase_def)

lemma descending_map_erase: "descending m \<Longrightarrow> descending (map_erase a m)"
  by (simp add: descending_def map_erase_def sorted_wrt_filter)

lemma map_of_descending: "descending m \<Longrightarrow> map_of m a = Some p \<longleftrightarrow> (a, p) \<in> set m"
  by (induction m) (auto simp: descending_Cons dest: map_of_SomeD split: if_splits)

lemma lower_bound_Some:
  assumes "descending m"
  shows "lower_bound a m = Some (b, p) \<longleftrightarrow> (b, p) \<in> set m \<and> b \<le> a \<and> (\<forall>(c, q) \<in> set m. c \<le> a \<longrightarrow> c \<le> b)"
proof
  assume "lower_bound a m = Some (b, p)"
  then show "(b, p) \<in> set m \<and> b \<le> a \<and> (\<forall>(c, q) \<in> set m. c \<le> a \<longrightarrow> c \<le> b)"
    using assms by (induction m) (fastforce simp: lower_bound_def descending_Cons split: if_splits)+
next
  assume "(b, p) \<in> set m \<and> b \<le> a \<and> (\<forall>(c, q) \<in> set m. c \<le> a \<longrightarrow> c \<le> b)"
  then show "lower_bound a m = Some (b, p)"
    using assms by (induction m) (fastforce simp: lower_bound_def descending_Cons split: if_splits)+
qed

lemma lower_bound_None: "lower_bound a m = None \<longleftrightarrow> (\<forall>(c, q) \<in> set m. a < c)"
  by (induction m) (auto simp: lower_bound_def)

subsection \<open>The invariant\<close>

text \<open>
  The maps agree, except for the records \<open>P\<close> that are being deleted: these are out of
  \<open>alloc_info_map\<close> while their names are still known.
\<close>

abbreviation allocs :: "MM \<Rightarrow> (nat \<times> nat) set" where
  "allocs s \<equiv> set (mm_alloc_info_map s)"

abbreviation records :: "MM \<Rightarrow> nat set" where
  "records s \<equiv> snd ` set (mm_alloc_info_map s)"

definition names_ok :: "nat set \<Rightarrow> MM \<Rightarrow> bool" where
  "names_ok P s \<longleftrightarrow> (\<forall>n p. mm_variable_map s n = Some p \<longleftrightarrow> p \<in> records s \<union> P \<and> ai_name (mm_info s p) = Some n)"

definition blocks_ok :: "MM \<Rightarrow> bool" where
  "blocks_ok s \<longleftrightarrow>
     (\<forall>b p. (b, p) \<in> allocs s \<longrightarrow> 0 < b \<and> b \<le> ai_start (mm_info s p) \<and> int b \<le> ai_end (mm_info s p)) \<and>
     (\<forall>b p c q. (b, p) \<in> allocs s \<longrightarrow> (c, q) \<in> allocs s \<longrightarrow> b < c \<longrightarrow> ai_end (mm_info s p) < int c)"

lemma blocks_okI:
  assumes "\<And>b p. (b, p) \<in> allocs s \<Longrightarrow> 0 < b \<and> b \<le> ai_start (mm_info s p) \<and> int b \<le> ai_end (mm_info s p)"
    and "\<And>b p c q. (b, p) \<in> allocs s \<Longrightarrow> (c, q) \<in> allocs s \<Longrightarrow> b < c \<Longrightarrow> ai_end (mm_info s p) < int c"
  shows "blocks_ok s"
  unfolding blocks_ok_def using assms by blast

definition mm_ok :: "nat set \<Rightarrow> MM \<Rightarrow> bool" where
  "mm_ok P s \<longleftrightarrow> descending (mm_alloc_info_map s) \<and> inj_on snd (allocs s) \<and> records s \<inter> P = {} \<and>
     0 \<notin> records s \<and> names_ok P s \<and> blocks_ok s"

text \<open>A block of \<open>n\<close> bytes that no allocation overlaps.\<close>

definition block_free :: "nat \<Rightarrow> int \<Rightarrow> MM \<Rightarrow> bool" where
  "block_free a n s \<longleftrightarrow> 0 < a \<and> 0 < n \<and> (\<forall>(b, p) \<in> allocs s. int a + n \<le> int b \<or> ai_end (mm_info s p) < int a)"

lemma mm_ok_new: "mm_ok {} (new_MM info m)"
  by (simp add: mm_ok_def new_MM_def descending_def names_ok_def blocks_ok_def)

text \<open>Only the maps and the records count.\<close>

lemma mm_ok_fields [simp]:
  "mm_ok P (s\<lparr>mm_mem := m\<rparr>) = mm_ok P s" "mm_ok P (s\<lparr>mm_freed := l\<rparr>) = mm_ok P s"
  "mm_ok P (s\<lparr>mm_deleted_addr_list := l\<rparr>) = mm_ok P s" "mm_ok P (s\<lparr>mm_resetting_memory := b\<rparr>) = mm_ok P s"
  "mm_ok P (s\<lparr>mm_alloc_info_map_counter := k\<rparr>) = mm_ok P s"
  "mm_ok P (s\<lparr>mm_extern_alloc_info_map_counter := k\<rparr>) = mm_ok P s"
  by (simp_all add: mm_ok_def names_ok_def blocks_ok_def)

lemma block_free_fields [simp]:
  "block_free a n (s\<lparr>mm_mem := m\<rparr>) = block_free a n s"
  "block_free a n (s\<lparr>mm_alloc_info_map_counter := k\<rparr>) = block_free a n s"
  "block_free a n (s\<lparr>mm_extern_alloc_info_map_counter := k\<rparr>) = block_free a n s"
  by (simp_all add: block_free_def)

lemma name_unused:
  "names_ok P s \<Longrightarrow> mm_variable_map s nm = None \<Longrightarrow> q \<in> records s \<union> P \<Longrightarrow> ai_name (mm_info s q) \<noteq> Some nm"
  unfolding names_ok_def by (metis option.distinct(1))

lemma mm_ok_register:
  assumes "mm_ok P s" and "block_free a n s" and "ai_end i = int a + n - 1" and "a \<le> ai_start i"
    and "p \<notin> records s" and "p \<notin> P" and "p \<noteq> 0"
    and "\<And>nm. ai_name i = Some nm \<Longrightarrow> mm_variable_map s nm = None"
  shows "mm_ok P (register a p i s)"
proof -
  have new: "a \<noteq> b" if "(b, q) \<in> allocs s" for b q
    using assms(1,2) that by (fastforce simp: block_free_def mm_ok_def blocks_ok_def)
  have sets: "allocs (register a p i s) = insert (a, p) (allocs s)"
    using assms(1) new by (fastforce simp: register_def mm_ok_def set_map_insert)
  have info: "mm_info (register a p i s) = (mm_info s)(p := i)" by (simp add: register_def)
  have nq: "q \<noteq> p" if "(b, q) \<in> allocs s" for b q using that assms(5) by force
  have "descending (mm_alloc_info_map (register a p i s))"
    using assms(1) by (simp add: register_def mm_ok_def descending_map_insert)
  moreover have "inj_on snd (allocs (register a p i s))"
    using assms(1,5) unfolding sets by (auto simp: mm_ok_def)
  moreover have "names_ok P (register a p i s)"
  proof -
    have "mm_variable_map (register a p i s) = (case ai_name i of None \<Rightarrow> mm_variable_map s | Some nm \<Rightarrow> (mm_variable_map s)(nm \<mapsto> p))"
      by (simp add: register_def)
    moreover have "ai_name (mm_info s q) \<noteq> Some nm" if "ai_name i = Some nm" "q \<in> records s \<union> P" for q nm
      using name_unused [OF _ assms(8) [OF that(1)] that(2)] assms(1) by (simp add: mm_ok_def)
    ultimately show ?thesis
      using assms(1,5,6) unfolding names_ok_def sets info mm_ok_def
      by (cases "ai_name i") (auto simp: names_ok_def)
  qed
  moreover have "blocks_ok (register a p i s)"
  proof -
    have old: "0 < b \<and> b \<le> ai_start (mm_info s q) \<and> int b \<le> ai_end (mm_info s q) \<and>
        (\<forall>c r. (c, r) \<in> allocs s \<longrightarrow> b < c \<longrightarrow> ai_end (mm_info s q) < int c)" if "(b, q) \<in> allocs s" for b q
      using assms(1) that unfolding mm_ok_def blocks_ok_def by blast
    have free: "0 < a" "0 < n" "int a + n \<le> int b \<or> ai_end (mm_info s q) < int a" if "(b, q) \<in> allocs s" for b q
      using assms(2) that by (auto simp: block_free_def)
    have a: "0 < a" "0 < n" using assms(2) by (simp_all add: block_free_def)
    have after: "ai_end i < int c" if "(c, r) \<in> allocs s" "a < c" for c r
      using old [OF that(1)] free(3) [OF that(1)] that(2) assms(3) by linarith
    have before: "ai_end (mm_info s q) < int a" if "(b, q) \<in> allocs s" "b < a" for b q
      using free(3) [OF that(1)] that(2) a by linarith
    have pair: "((mm_info s)(p := i)) q = (if q = p then i else mm_info s q)"
        "(b, q) \<in> allocs s \<Longrightarrow> q \<noteq> p" for b q using nq by simp_all
    show ?thesis
    proof (rule blocks_okI)
      fix b q assume "(b, q) \<in> allocs (register a p i s)"
      then show "0 < b \<and> b \<le> ai_start (mm_info (register a p i s) q) \<and> int b \<le> ai_end (mm_info (register a p i s) q)"
        unfolding sets info pair using old [of b q] a assms(3,4) pair(2) by auto
    next
      fix b q c r assume "(b, q) \<in> allocs (register a p i s)" "(c, r) \<in> allocs (register a p i s)" "b < c"
      then consider "(b, q) \<in> allocs s" "(c, r) \<in> allocs s" | "b = a" "q = p" "(c, r) \<in> allocs s" | "(b, q) \<in> allocs s" "c = a"
        unfolding sets by auto
      then show "ai_end (mm_info (register a p i s) q) < int c"
        unfolding info pair using old [of b q] after before \<open>b < c\<close> pair(2) by cases auto
    qed
  qed
  ultimately show ?thesis
    using assms(1,6,7) unfolding mm_ok_def sets by auto
qed

text \<open>A record taken out of the map of allocations, and its name forgotten.\<close>

lemma mm_ok_erase:
  assumes "mm_ok {} s" and "(b, p) \<in> allocs s"
  shows "mm_ok {p} (s\<lparr>mm_alloc_info_map := map_erase b (mm_alloc_info_map s)\<rparr>)"
proof -
  let ?s = "s\<lparr>mm_alloc_info_map := map_erase b (mm_alloc_info_map s)\<rparr>"
  have d: "descending (mm_alloc_info_map s)" and inj: "inj_on snd (allocs s)" using assms(1) by (simp_all add: mm_ok_def)
  have other: "q \<noteq> p" if "(c, q) \<in> allocs s" "c \<noteq> b" for c q using inj_onD [OF inj _ that(1) assms(2)] that(2) by auto
  have sets: "allocs ?s = {x \<in> allocs s. fst x \<noteq> b}" by (simp add: set_map_erase)
  have recs: "p \<notin> records ?s" "records ?s \<union> {p} = records s"
  proof -
    have "(c, p) \<notin> allocs ?s" for c using other [of c p] by (auto simp: set_map_erase)
    then show "p \<notin> records ?s" by auto
    have "x \<in> records ?s \<union> {p}" if "(c, x) \<in> allocs s" for c x
    proof (cases "c = b")
      case True
      then show ?thesis using that descending_unique [OF d assms(2), of x] by simp
    next
      case False
      then have "(c, x) \<in> allocs ?s" using that by (simp add: set_map_erase)
      then show ?thesis by force
    qed
    then have "records s \<subseteq> records ?s \<union> {p}"
      by (intro image_subsetI) (metis prod.collapse)
    moreover have "p \<in> records s" using assms(2) by force
    moreover have "records ?s \<subseteq> records s" unfolding sets by auto
    ultimately show "records ?s \<union> {p} = records s" by blast
  qed
  moreover have "names_ok {p} ?s"
    using assms(1) recs(2) unfolding mm_ok_def names_ok_def by simp
  moreover have "blocks_ok ?s"
    using assms(1) unfolding mm_ok_def blocks_ok_def by (simp add: set_map_erase) blast
  ultimately show ?thesis
    using assms(1) d inj unfolding mm_ok_def sets
    by (auto simp: descending_map_erase intro: inj_on_subset)
qed

definition forget_name :: "nat \<Rightarrow> MM \<Rightarrow> MM" where
  "forget_name p s =
     (case ai_name (mm_info s p) of None \<Rightarrow> s | Some nm \<Rightarrow> s\<lparr>mm_variable_map := (mm_variable_map s)(nm := None)\<rparr>)"

lemma mm_ok_forget:
  assumes "mm_ok {p} s" shows "mm_ok {} (forget_name p s)"
proof -
  have n: "mm_variable_map s n = Some q \<longleftrightarrow> q \<in> records s \<union> {p} \<and> ai_name (mm_info s q) = Some n" for n q
    using assms by (simp add: mm_ok_def names_ok_def)
  have p: "p \<notin> records s" using assms by (simp add: mm_ok_def)
  have "names_ok {} (forget_name p s)"
  proof (cases "ai_name (mm_info s p)")
    case None
    then show ?thesis using n p unfolding names_ok_def by (auto simp: forget_name_def)
  next
    case (Some nm)
    then have "q = p" if "q \<in> records s" "ai_name (mm_info s q) = Some nm" for q
      using n [of nm p] n [of nm q] that by simp
    then show ?thesis using n p Some unfolding names_ok_def by (auto simp: forget_name_def)
  qed
  moreover have "mm_alloc_info_map (forget_name p s) = mm_alloc_info_map s" "mm_info (forget_name p s) = mm_info s"
    by (simp_all add: forget_name_def split: option.split)
  ultimately show ?thesis using assms by (simp add: mm_ok_def blocks_ok_def)
qed

subsection \<open>What the rest of the program promises\<close>

text \<open>
  \<open>calloc\<close> returns 0 or a block that no known allocation overlaps (and fails for a negative number of
  elements, which it takes for a huge one), a record is at a new place, and the generated functions
  of the classes use the memory manager as every other client: they keep its maps in order, a
  constructor leaves the allocations there are and declares none with a name, a destructor the record that is being deleted.
\<close>

definition class_allocation_ok :: "mm_env \<Rightarrow> bool" where
  "class_allocation_ok env \<longleftrightarrow>
     (\<forall>nm n s. mm_ok {} s \<longrightarrow> (case env_allocate_class env nm n s of (a, s1) \<Rightarrow>
        mm_ok {} s1 \<and> (a \<noteq> 0 \<longrightarrow> block_free a (n * env_sizeof_user_type env nm) s1) \<and>
        allocs s \<subseteq> allocs s1 \<and> (\<forall>p \<in> records s. mm_info s1 p = mm_info s p) \<and>
        mm_variable_map s1 = mm_variable_map s))"

definition destructor_ok :: "(ALLOC_INFO \<Rightarrow> MM \<Rightarrow> MM) \<Rightarrow> bool" where
  "destructor_ok f \<longleftrightarrow> (\<forall>i p s. mm_ok {p} s \<longrightarrow> mm_ok {p} (f i s) \<and> mm_info (f i s) p = mm_info s p)"

definition env_ok :: "mm_env \<Rightarrow> bool" where
  "env_ok env \<longleftrightarrow>
     (\<forall>n sz s. mm_ok {} s \<longrightarrow> env_calloc env n sz s \<noteq> 0 \<longrightarrow> n * sz \<noteq> 0 \<longrightarrow> block_free (env_calloc env n sz s) (n * sz) s) \<and>
     (\<forall>s. env_info env s \<notin> records s) \<and>
     class_allocation_ok env \<and> destructor_ok (env_destruct_class env) \<and> destructor_ok (env_delete_class env)"

lemma class_allocation:
  assumes "env_ok env" and "mm_ok {} s" and "env_allocate_class env nm n s = (a, s1)"
  shows "mm_ok {} s1" and "a \<noteq> 0 \<Longrightarrow> block_free a (n * env_sizeof_user_type env nm) s1" and "allocs s \<subseteq> allocs s1"
    and "p \<in> records s \<Longrightarrow> mm_info s1 p = mm_info s p" and "mm_variable_map s1 = mm_variable_map s"
proof -
  have "case env_allocate_class env nm n s of (a, s1) \<Rightarrow>
        mm_ok {} s1 \<and> (a \<noteq> 0 \<longrightarrow> block_free a (n * env_sizeof_user_type env nm) s1) \<and>
        allocs s \<subseteq> allocs s1 \<and> (\<forall>p \<in> records s. mm_info s1 p = mm_info s p) \<and>
        mm_variable_map s1 = mm_variable_map s"
    using assms(1,2) by (simp only: env_ok_def class_allocation_ok_def)
  then show "mm_ok {} s1" and "a \<noteq> 0 \<Longrightarrow> block_free a (n * env_sizeof_user_type env nm) s1" and "allocs s \<subseteq> allocs s1"
    and "p \<in> records s \<Longrightarrow> mm_info s1 p = mm_info s p" and "mm_variable_map s1 = mm_variable_map s"
    unfolding assms(3) by blast+
qed

lemma calloc_block:
  "env_ok env \<Longrightarrow> mm_ok {} s \<Longrightarrow> env_calloc env n sz s \<noteq> 0 \<Longrightarrow> n * sz \<noteq> 0 \<Longrightarrow> block_free (env_calloc env n sz s) (n * sz) s"
  unfolding env_ok_def by blast

subsection \<open>Every operation keeps the invariant\<close>

lemma type_size_class: "intrinsic_size t = None \<Longrightarrow> type_size env t u 0 \<noteq> 0 \<Longrightarrow> type_size env t u 0 = env_sizeof_user_type env u"
  by (auto simp: type_size_def split: if_splits)

lemma get_type_attributes_size:
  assumes "get_type_attributes env t u k = Some (t1, a, sz)"
  shows "sz \<noteq> 0" and "t1 = TRICK_STRUCTURED \<Longrightarrow> k = 0 \<Longrightarrow> sz = env_sizeof_user_type env u"
proof -
  have "intrinsic_size TRICK_STRUCTURED = None" by (simp add: intrinsic_size_def)
  then show "t1 = TRICK_STRUCTURED \<Longrightarrow> k = 0 \<Longrightarrow> sz = env_sizeof_user_type env u"
    using assms type_size_class [of t env u]
    by (cases "intrinsic_size t") (auto simp: get_type_attributes_def Let_def split: if_splits)
  show "sz \<noteq> 0" using assms by (auto simp: get_type_attributes_def Let_def split: if_splits)
qed

lemma allocate_ok:
  assumes "env_ok env" and "mm_ok {} s" and "n * sz \<noteq> 0" and "t = TRICK_STRUCTURED \<Longrightarrow> k = 0 \<Longrightarrow> sz = env_sizeof_user_type env u"
    and "allocate env t u k a0 n sz s = Some (r, s1)"
  shows "mm_ok {} s1" and "r = Inr (a, l, ty) \<Longrightarrow> a \<noteq> 0 \<Longrightarrow> block_free a (n * sz) s1"
    and "mm_variable_map s1 = mm_variable_map s"
proof -
  consider (cls) "t = TRICK_STRUCTURED" "k = 0" "env_allocate_class env u n s = (case r of Inr (b, _) \<Rightarrow> b | Inl _ \<Rightarrow> 0, s1)" "\<exists>b l ty. r = Inr (b, l, ty)"
    | (mem) "s1 = (if env_calloc env n sz s = 0 then s else s\<lparr>mm_mem := zero_bytes_at (env_calloc env n sz s) (n * sz) (mm_mem s)\<rparr>)"
        "\<And>b l ty. r = Inr (b, l, ty) \<Longrightarrow> b = env_calloc env n sz s"
    using assms(5) by (cases "env_allocate_class env u n s") (auto simp: allocate_def Let_def split: if_splits)
  note c = this
  show "mm_ok {} s1" using c class_allocation(1) [OF assms(1,2)] assms(2) by cases auto
  show "mm_variable_map s1 = mm_variable_map s" using c class_allocation(5) [OF assms(1,2)] by cases auto
  show "block_free a (n * sz) s1" if r: "r = Inr (a, l, ty)" "a \<noteq> 0"
    using c class_allocation(2) [OF assms(1,2)] calloc_block [OF assms(1,2), of n sz] assms(3,4) that by cases auto
qed

lemma info_fresh: "env_ok env \<Longrightarrow> env_info env s \<notin> records s"
  by (simp add: env_ok_def)

lemma optional_name_Some: "optional_name nm = Some x \<longleftrightarrow> nm \<noteq> [] \<and> x = nm"
  by (auto simp: optional_name_def)

text \<open>The new record, when one is entered.\<close>

lemma enter_allocation_cases:
  assumes "enter_allocation env i f s = Some (r, s')"
  obtains (fails) "s' = s" "\<And>a. r = Inr a \<Longrightarrow> a = 0"
    | (enters) "r = Inr (ai_start i)" "env_info env s \<noteq> 0" "s' = register (ai_start i) (env_info env s) i (f s)"
  using assms by (auto simp: enter_allocation_def Let_def split: if_splits)

lemma check_decl_cases:
  assumes "check_decl env d k s = Some (r, s')"
  obtains (fails) "s' = s" "\<And>a. r = Inr a \<Longrightarrow> a = 0"
    | (passes) n t a sz where "n_elements (dc_cdims d) 1 = Some n" "n \<noteq> 0"
        "get_type_attributes env (dc_type d) (dc_user_type_name d) (dc_n_stars d) = Some (t, a, sz)"
        "dc_var_name d = [] \<or> mm_variable_map s (dc_var_name d) = None" "k n t a sz = Some (r, s')"
  using assms by (auto simp: check_decl_def split: if_splits option.splits)

lemma enter_keeps:
  assumes "enter_allocation env i f s = Some (r, s')" and "env_ok env" and "mm_ok {} s" and "f = next_local_id \<or> f = next_extern_id"
    and "block_free (ai_start i) n s" and "ai_end i = int (ai_start i) + n - 1"
    and "\<And>nm. ai_name i = Some nm \<Longrightarrow> mm_variable_map s nm = None"
  shows "mm_ok {} s'"
  using assms(1)
proof (cases rule: enter_allocation_cases)
  case enters
  show ?thesis
    unfolding enters(3) using assms(2-7) enters(2) info_fresh [of env s]
    by (intro mm_ok_register [where n = n]) (auto simp: next_local_id_def next_extern_id_def)
qed (simp add: assms(3))

lemma declare_var_keeps:
  assumes "declare_var env d s = Some (r, s')" and "env_ok env" and "mm_ok {} s"
  shows "mm_ok {} s'"
  using assms(1) unfolding declare_var_def
proof (cases rule: check_decl_cases)
  case (passes n t a0 sz)
  note size = get_type_attributes_size [OF passes(3)]
  then have nz: "n * sz \<noteq> 0" using passes(2) by simp
  obtain r1 s1 where al: "allocate env t (dc_user_type_name d) (dc_n_stars d) a0 n sz s = Some (r1, s1)"
    using passes(5) by (auto simp: andthen_def bind_eq_Some_conv)
  note ok = allocate_ok [OF assms(2,3) nz size(2) al]
  show ?thesis
  proof (cases "\<exists>a l ty. r1 = Inr (a, l, ty) \<and> a \<noteq> 0")
    case True
    then obtain a l ty where r1: "r1 = Inr (a, l, ty)" "a \<noteq> 0" by blast
    then have "enter_allocation env (local_info d t a0 n sz a l ty (mm_alloc_info_map_counter s1)) next_local_id s1 = Some (r, s')"
      using passes(5) al by simp
    then show ?thesis
      using ok r1 passes(4) assms(2) by (elim enter_keeps [where n = "n * sz"]) (auto simp: local_info_def optional_name_Some)
  next
    case False
    then have "s' = s1" using passes(5) al by (auto simp: andthen_def split: sum.splits)
    then show ?thesis using ok(1) by simp
  qed
qed (simp add: assms(3))

text \<open>An external variable must lie outside the allocations known.\<close>

definition extern_outside :: "mm_env \<Rightarrow> nat \<Rightarrow> decl \<Rightarrow> MM \<Rightarrow> bool" where
  "extern_outside env address d s \<longleftrightarrow>
     (\<forall>n t a sz. n_elements (dc_cdims d) 1 = Some n \<and>
        get_type_attributes env (dc_type d) (dc_user_type_name d) (dc_n_stars d) = Some (t, a, sz)
        \<longrightarrow> block_free address (n * sz) s)"

lemma declare_extern_var_keeps:
  assumes "declare_extern_var env address d s = Some (r, s')" and "env_ok env" and "mm_ok {} s" and "extern_outside env address d s"
  shows "mm_ok {} s'"
proof (cases "address = 0")
  case False
  then have "check_decl env d (\<lambda>n_elems t sub_attr sz.
           enter_allocation env (extern_info env d t sub_attr n_elems sz address (mm_extern_alloc_info_map_counter s))
             next_extern_id s) s = Some (r, s')"
    using assms(1) by (simp add: declare_extern_var_def)
  then show ?thesis
  proof (cases rule: check_decl_cases)
    case (passes n t a sz)
    have "block_free address (n * sz) s" using assms(4) passes(1,3) unfolding extern_outside_def by blast
    then show ?thesis
      using passes(4,5) assms(2,3) by (elim enter_keeps [where n = "n * sz"]) (auto simp: extern_info_def optional_name_Some)
  qed (simp add: assms(3))
qed (use assms in \<open>simp add: declare_extern_var_def\<close>)

lemma declare_operatornew_var_keeps:
  assumes "declare_operatornew_var env u alloc_size element_size nm s = Some (r, s')" and "env_ok env" and "mm_ok {} s"
    and "0 < alloc_size" and "nm = [] \<or> mm_variable_map s nm = None"
  shows "mm_ok {} s'"
proof -
  define a where "a = env_calloc env 1 (int alloc_size) s"
  define s1 where "s1 = s\<lparr>mm_mem := zero_bytes_at a (int alloc_size) (mm_mem s)\<rparr>"
  have ok: "mm_ok {} s1" and vm: "mm_variable_map s1 = mm_variable_map s" using assms(3) by (simp_all add: s1_def)
  consider "s' = s" | "s' = s1"
    | t where "a \<noteq> 0" "env_info env s1 \<noteq> 0"
        "s' = register a (env_info env s1) (operatornew_info u t alloc_size element_size nm a (mm_alloc_info_map_counter s1)) (next_local_id s1)"
    using assms(1) unfolding declare_operatornew_var_def a_def [symmetric] s1_def [symmetric] Let_def
    by (auto split: option.splits if_splits)
  then show ?thesis
  proof cases
    case 3
    have "block_free a (int alloc_size) s1"
      using calloc_block [OF assms(2,3), of 1 "int alloc_size"] assms(4) 3(1) by (simp add: a_def [symmetric] s1_def)
    then show ?thesis
      unfolding 3(3) using 3(2) ok vm assms(5) info_fresh [OF assms(2), of s1]
      by (intro mm_ok_register [where n = "int alloc_size"])
        (auto simp: next_local_id_def operatornew_info_def Let_def optional_name_Some)
  qed (simp_all add: ok assms(3))
qed

lemma at_allocs: "mm_ok P s \<Longrightarrow> get_alloc_info_at a s = Some p \<longleftrightarrow> (a, p) \<in> allocs s"
  by (simp add: get_alloc_info_at_def mm_ok_def map_of_descending)

lemma release_keeps:
  assumes "env_ok env" and "mm_ok {p} s"
  shows "mm_ok {p} (release env a p s)"
  using assms
  by (auto simp: release_def Let_def free_memory_def io_src_destruct_class_def io_src_delete_class_def env_ok_def destructor_ok_def)

lemma delete_var_keeps:
  assumes "env_ok env" and "mm_ok {} s" shows "mm_ok {} (snd (delete_var env a s))"
proof (cases "a = 0 \<or> get_alloc_info_at a s = None")
  case False
  then obtain p where p: "get_alloc_info_at a s = Some p" by auto
  then have "mm_ok {p} (release env a p (s\<lparr>mm_alloc_info_map := map_erase a (mm_alloc_info_map s)\<rparr>))"
    using release_keeps [OF assms(1) mm_ok_erase [OF assms(2)]] assms(2) by (simp add: at_allocs)
  from mm_ok_forget [OF this] show ?thesis
    using False p by (simp add: delete_var_def Let_def forget_name_def split: option.splits)
qed (auto simp: delete_var_def assms(2))

lemma delete_var_name_keeps:
  "env_ok env \<Longrightarrow> mm_ok {} s \<Longrightarrow> mm_ok {} (snd (delete_var_name env nm s))"
  by (auto simp: delete_var_name_def delete_var_keeps split: option.split)

lemma delete_all_keeps: "env_ok env \<Longrightarrow> mm_ok {} s \<Longrightarrow> mm_ok {} (delete_all env l s)"
  unfolding delete_all_def by (induction l arbitrary: s) (auto simp: delete_var_keeps)

lemma reset_memory_keeps: "env_ok env \<Longrightarrow> mm_ok {} s \<Longrightarrow> mm_ok {} (reset_memory env s)"
  by (simp add: reset_memory_def Let_def delete_all_keeps)

lemma block_free_subset:
  "block_free a n s \<Longrightarrow> allocs s' \<subseteq> allocs s \<Longrightarrow> mm_info s' = mm_info s \<Longrightarrow> block_free a n s'"
  by (auto simp: block_free_def)

lemma forget_name_fields [simp]:
  "mm_alloc_info_map (forget_name p s) = mm_alloc_info_map s" "mm_info (forget_name p s) = mm_info s"
  by (simp_all add: forget_name_def split: option.split)

lemma move_array_keeps:
  assumes "mm_ok {} s" and "(a, p) \<in> allocs s" and "block_free b (n * ai_size (mm_info s p)) s"
  shows "mm_ok {} (move_array a b p cdims n s)"
proof -
  let ?t1 = "s\<lparr>mm_alloc_info_map := map_erase a (mm_alloc_info_map s)\<rparr>"
  let ?t2 = "forget_name p ?t1"
  let ?i = "(mm_info s p)\<lparr>ai_start := b, ai_end := int b + n * ai_size (mm_info s p) - 1,
    ai_index := cdims @ drop (length cdims) (ai_index (mm_info s p)), ai_num := n\<rparr>"
  have one: "mm_ok {p} ?t1" by (rule mm_ok_erase [OF assms(1,2)])
  have two: "mm_ok {} ?t2" by (rule mm_ok_forget [OF one])
  have "p \<notin> records ?t1" "p \<noteq> 0" using one assms(1,2) by (auto simp: mm_ok_def image_iff)
  moreover have "mm_variable_map ?t2 nm = None" if "ai_name (mm_info s p) = Some nm" for nm
    using that by (simp add: forget_name_def)
  moreover have "block_free b (n * ai_size (mm_info s p)) ?t2"
    using assms(3) by (rule block_free_subset) (auto simp: set_map_erase)
  ultimately have three: "mm_ok {} (register b p ?i ?t2)"
    using two by (intro mm_ok_register [where n = "n * ai_size (mm_info s p)"]) auto
  have "p \<in> records s" using assms(2) by force
  then have names: "mm_variable_map s nm = Some p" if "ai_name (mm_info s p) = Some nm" for nm
    using assms(1) that by (simp add: mm_ok_def names_ok_def)
  let ?m = "move_array a b p cdims n s"
  have "mm_alloc_info_map ?m = mm_alloc_info_map (register b p ?i ?t2)" "mm_info ?m = mm_info (register b p ?i ?t2)"
    by (simp_all add: move_array_def Let_def update_info_def free_memory_def register_def)
  moreover have "mm_variable_map ?m = mm_variable_map (register b p ?i ?t2)"
    using names by (auto simp: move_array_def Let_def update_info_def free_memory_def register_def forget_name_def
        fun_eq_iff split: option.splits)
  ultimately show ?thesis using three unfolding mm_ok_def names_ok_def blocks_ok_def by simp
qed

text \<open>The sizes recorded are those of the types.\<close>

definition size_recorded :: "mm_env \<Rightarrow> nat \<Rightarrow> MM \<Rightarrow> bool" where
  "size_recorded env a s \<longleftrightarrow>
     (\<forall>p. get_alloc_info_at a s = Some p \<longrightarrow>
        (let i = mm_info s p
         in ai_size i \<noteq> 0 \<and>
            (ai_type i = TRICK_STRUCTURED \<and> ai_language i = Language_CPP \<longrightarrow>
               (case ai_user_type_name i of None \<Rightarrow> False | Some u \<Rightarrow> ai_size i = env_sizeof_user_type env u))))"

lemma reallocate_ok:
  assumes "reallocate env (mm_info s p) cdims n s = (b, s1)" and "b \<noteq> 0" and "env_ok env" and "mm_ok {} s" and "n \<noteq> 0"
    and "(a, p) \<in> allocs s" and "size_recorded env a s"
  shows "mm_ok {} s1" and "block_free b (n * ai_size (mm_info s p)) s1" and "(a, p) \<in> allocs s1" and "mm_info s1 p = mm_info s p"
proof -
  let ?i = "mm_info s p"
  have p: "p \<in> records s" "get_alloc_info_at a s = Some p" using assms(4,6) by (force, simp add: at_allocs)
  have sz: "ai_size ?i \<noteq> 0" using assms(7) p(2) by (simp add: size_recorded_def Let_def)
  consider (cls) u where "env_allocate_class env u n s = (b, s1)" "ai_size ?i = env_sizeof_user_type env u"
    | (mem) "b = env_calloc env n (ai_size ?i) s" "s1 = s\<lparr>mm_mem := zero_bytes_at b (n * ai_size ?i) (mm_mem s)\<rparr>"
    using assms(1,2,7) p(2) by (auto simp: reallocate_def Let_def size_recorded_def split: if_splits option.splits)
  note c = this
  show "mm_ok {} s1" using c class_allocation(1) [OF assms(3,4)] assms(4) by cases auto
  show "block_free b (n * ai_size ?i) s1"
    using c class_allocation(2) [OF assms(3,4)] assms(2) calloc_block [OF assms(3,4), of n "ai_size ?i"] assms(5) sz by cases auto
  show "(a, p) \<in> allocs s1" using c class_allocation(3) [OF assms(3,4)] assms(6) by cases (blast, simp)
  show "mm_info s1 p = mm_info s p" using c class_allocation(4) [OF assms(3,4) _ p(1)] by cases auto
qed

lemma resize_array_cases:
  assumes "resize_array env a cdims s = Some (r, s')"
  obtains (fails) "s' = s" "r = Inr 0 \<or> (\<exists>e. r = Inl e)"
    | (tries) p n b s1 where "get_alloc_info_at a s = Some p" "n_elements cdims 1 = Some n" "n \<noteq> 0"
        "ai_stcl (mm_info s p) = TRICK_LOCAL" "length cdims = length (filter (\<lambda>x. x \<noteq> 0) (ai_index (mm_info s p)))"
        "reallocate env (mm_info s p) cdims n s = (b, s1)"
        "(r = Inr b \<and> b \<noteq> 0 \<and> s' = move_array a b p cdims n s1) \<or> s' = s1 \<and> (r = Inr 0 \<or> (\<exists>e. r = Inl e))"
  using assms by (auto simp: resize_array_def Let_def split: option.splits if_splits prod.splits)

lemma resize_array_keeps:
  assumes "resize_array env a cdims s = Some (r, s')" and "env_ok env" and "mm_ok {} s" and "size_recorded env a s"
  shows "mm_ok {} s'"
  using assms(1)
proof (cases rule: resize_array_cases)
  case (tries p n b s1)
  have p: "(a, p) \<in> allocs s" using tries(1) assms(3) by (simp add: at_allocs)
  show ?thesis
  proof (cases "b = 0")
    case True
    then have "s' = s1" using tries(7) by auto
    moreover have "mm_ok {} s1"
      using tries(6) True class_allocation(1) [OF assms(2,3)] assms(3) by (auto simp: reallocate_def Let_def split: if_splits)
    ultimately show ?thesis by simp
  next
    case False
    note re = reallocate_ok [OF tries(6) False assms(2,3) tries(3) p assms(4)]
    show ?thesis using tries(7) re move_array_keeps [OF re(1,3)] by (auto simp: re(4))
  qed
qed (simp add: assms(3))

text \<open>A name may be given to a record that has none, when no other has it.\<close>

lemma set_name_at_keeps:
  assumes "mm_ok {} s" and "mm_variable_map s nm = None" and "\<And>p. get_alloc_info_at a s = Some p \<Longrightarrow> ai_name (mm_info s p) = None"
  shows "mm_ok {} (snd (set_name_at a nm s))"
proof (cases "get_alloc_info_at a s")
  case (Some p)
  let ?s = "snd (set_name_at a nm s)"
  have p: "p \<in> records s" using Some assms(1) by (force simp: at_allocs)
  have eq: "mm_alloc_info_map ?s = mm_alloc_info_map s" "mm_variable_map ?s = (mm_variable_map s)(nm \<mapsto> p)"
    "mm_info ?s = (mm_info s)(p := (mm_info s p)\<lparr>ai_name := Some nm\<rparr>)"
    using Some assms(2) by (simp_all add: set_name_at_def update_info_def)
  have n: "mm_variable_map s x = Some q \<longleftrightarrow> q \<in> records s \<and> ai_name (mm_info s q) = Some x" for x q
    using assms(1) by (simp add: mm_ok_def names_ok_def)
  have "q \<in> records s \<Longrightarrow> ai_name (mm_info s q) \<noteq> Some nm" for q using n [of nm q] assms(2) by simp
  then have "names_ok {} ?s" unfolding names_ok_def eq using p n assms(3) [OF Some] by auto
  moreover have "blocks_ok ?s" using assms(1) unfolding mm_ok_def blocks_ok_def eq by simp
  ultimately show ?thesis using assms(1) by (simp add: mm_ok_def eq(1))
qed (simp add: set_name_at_def assms(1))

subsection \<open>The states of a client\<close>

text \<open>
  A client calls the operations in any order. It registers external variables only outside the known
  allocations, names a block for \<open>operator new\<close> or one without a name only by a name not in use, and
  resizes arrays whose elements have the size recorded.
\<close>

inductive mm_step :: "mm_env \<Rightarrow> MM \<Rightarrow> MM \<Rightarrow> bool" for env where
  declares: "declare_var env d s = Some (r, s') \<Longrightarrow> mm_step env s s'"
| declares_extern: "extern_outside env a d s \<Longrightarrow> declare_extern_var env a d s = Some (r, s') \<Longrightarrow> mm_step env s s'"
| news: "0 < n \<Longrightarrow> nm = [] \<or> mm_variable_map s nm = None \<Longrightarrow> declare_operatornew_var env u n k nm s = Some (r, s') \<Longrightarrow> mm_step env s s'"
| deletes: "mm_step env s (snd (delete_var env a s))"
| deletes_name: "mm_step env s (snd (delete_var_name env nm s))"
| resizes: "size_recorded env a s \<Longrightarrow> resize_array env a cdims s = Some (r, s') \<Longrightarrow> mm_step env s s'"
| names: "mm_variable_map s nm = None \<Longrightarrow> (\<And>p. get_alloc_info_at a s = Some p \<Longrightarrow> ai_name (mm_info s p) = None)
    \<Longrightarrow> mm_step env s (snd (set_name_at a nm s))"
| resets: "mm_step env s (reset_memory env s)"
| writes: "mm_step env s (s\<lparr>mm_mem := m\<rparr>)"

inductive mm_reach :: "mm_env \<Rightarrow> MM \<Rightarrow> bool" for env where
  start: "mm_reach env (new_MM info m)"
| step: "mm_reach env s \<Longrightarrow> mm_step env s s' \<Longrightarrow> mm_reach env s'"

lemma mm_step_keeps: "mm_step env s s' \<Longrightarrow> env_ok env \<Longrightarrow> mm_ok {} s \<Longrightarrow> mm_ok {} s'"
  by (induction rule: mm_step.induct)
    (auto intro: declare_var_keeps declare_extern_var_keeps declare_operatornew_var_keeps delete_var_keeps delete_var_name_keeps
      resize_array_keeps set_name_at_keeps reset_memory_keeps)

lemma mm_reach_ok: "mm_reach env s \<Longrightarrow> env_ok env \<Longrightarrow> mm_ok {} s"
  by (induction rule: mm_reach.induct) (auto simp: mm_ok_new intro: mm_step_keeps)

subsection \<open>A concrete environment\<close>

text \<open>
  \<open>calloc\<close> takes the first address above all allocations, records are numbered, the classes have no
  constructors and destructors: the promises hold, and the operations can be run.
\<close>

definition first_free :: "MM \<Rightarrow> nat" where
  "first_free s = foldr (\<lambda>(b, p) m. max m (nat (ai_end (mm_info s p) + 1))) (mm_alloc_info_map s) 1"

definition first_info :: "MM \<Rightarrow> nat" where
  "first_info s = foldr (\<lambda>(b, p) m. max m (Suc p)) (mm_alloc_info_map s) 1"

definition example_env :: mm_env where
  "example_env =
     \<lparr>env_calloc = (\<lambda>n sz s. if n * sz \<le> 0 then 0 else first_free s), env_info = first_info,
      env_allocate_class = (\<lambda>nm n s. (0, s)), env_destruct_class = (\<lambda>i s. s), env_delete_class = (\<lambda>i s. s),
      env_sizeof_user_type = (\<lambda>nm. 0), env_attr_info = (\<lambda>nm. None), env_table_language = (\<lambda>t. Language_C),
      env_ADEF_parse = (\<lambda>str. None), env_uninit = TRICK_ALLOC_MALLOC\<rparr>"

lemma foldr_max: "(b, p) \<in> set l \<Longrightarrow> f p \<le> foldr (\<lambda>(b, p) m. max m (f p)) l (k :: nat)" "k \<le> foldr (\<lambda>(b, p) m. max m (f p)) l k"
  by (induction l) auto

lemma example_env_ok: "env_ok example_env"
proof -
  have "block_free (first_free s) m s" if "0 < m" for s m
    using that foldr_max(1) [of _ _ "mm_alloc_info_map s" "\<lambda>p. nat (ai_end (mm_info s p) + 1)" 1]
      foldr_max(2) [of 1 "\<lambda>p. nat (ai_end (mm_info s p) + 1)" "mm_alloc_info_map s"]
    by (fastforce simp: block_free_def first_free_def)
  moreover have "first_info s \<notin> records s" for s
    using foldr_max(1) [of _ _ "mm_alloc_info_map s" Suc 1] by (force simp: first_info_def)
  ultimately show ?thesis
    by (auto simp: env_ok_def example_env_def class_allocation_ok_def destructor_ok_def split: if_splits)
qed

definition int_array :: "string \<Rightarrow> int \<Rightarrow> decl" where
  "int_array nm n = \<lparr>dc_type = TRICK_INTEGER, dc_user_type_name = [], dc_n_stars = 0, dc_var_name = nm, dc_cdims = [n]\<rparr>"

definition empty_info :: ALLOC_INFO where
  "empty_info =
     \<lparr>ai_start = 0, ai_end = 0, ai_name = None, ai_size = 0, ai_sentinel_bytes = 0, ai_language = Language_C,
      ai_type = TRICK_VOID, ai_stcl = TRICK_LOCAL, ai_alloc_type = TRICK_ALLOC_OTHER, ai_user_type_name = None,
      ai_attr = 0, ai_num = 0, ai_index = [], ai_id = 0\<rparr>"

definition after_declaring :: "decl list \<Rightarrow> MM" where
  "after_declaring ds =
     fold (\<lambda>d s. case declare_var example_env d s of Some (r, s') \<Rightarrow> s' | None \<Rightarrow> s) ds
       (new_MM (\<lambda>_. empty_info) (\<lambda>_. 0))"

lemma after_declaring_reach: "mm_reach example_env (after_declaring ds)"
proof -
  have "mm_reach example_env s \<Longrightarrow>
      mm_reach example_env (fold (\<lambda>d s. case declare_var example_env d s of Some (r, s') \<Rightarrow> s' | None \<Rightarrow> s) ds s)" for s
    by (induction ds arbitrary: s) (auto split: option.split dest: mm_reach.step [OF _ mm_step.declares])
  then show ?thesis unfolding after_declaring_def by (simp add: mm_reach.start)
qed

lemmas run_declarations = after_declaring_def declare_var_def check_decl_def int_array_def allocate_def example_env_def
  get_type_attributes_def type_size_def intrinsic_size_def enter_allocation_def local_info_def next_local_id_def register_def
  first_free_def first_info_def new_MM_def int32_def optional_name_def andthen_def

lemma get_alloc_info_of_iff:
  assumes "mm_ok {} s"
  shows "get_alloc_info_of a s = Some p \<longleftrightarrow> p \<in> records s \<and> ai_start (mm_info s p) \<le> a \<and> int a \<le> ai_end (mm_info s p)"
proof -
  have d: "descending (mm_alloc_info_map s)" and b: "blocks_ok s" using assms by (simp_all add: mm_ok_def)
  show ?thesis
  proof
    assume "get_alloc_info_of a s = Some p"
    then obtain b where l: "lower_bound a (mm_alloc_info_map s) = Some (b, p)" and r: "ai_start (mm_info s p) \<le> a" "int a \<le> ai_end (mm_info s p)"
      by (auto simp: get_alloc_info_of_def split: option.splits if_splits)
    have "(b, p) \<in> allocs s" using l lower_bound_Some [OF d] by blast
    then show "p \<in> records s \<and> ai_start (mm_info s p) \<le> a \<and> int a \<le> ai_end (mm_info s p)" using r by force
  next
    assume r: "p \<in> records s \<and> ai_start (mm_info s p) \<le> a \<and> int a \<le> ai_end (mm_info s p)"
    then obtain c where c: "(c, p) \<in> allocs s" by force
    then have "c \<le> a" using b r unfolding blocks_ok_def by (meson le_trans)
    moreover have "e \<le> c" if "(e, q) \<in> allocs s" "e \<le> a" for e q
    proof (rule ccontr)
      assume "\<not> e \<le> c"
      then have "c < e" by simp
      then have "ai_end (mm_info s p) < int e" using b c that(1) unfolding blocks_ok_def by blast
      then show False using r that(2) by linarith
    qed
    ultimately have "lower_bound a (mm_alloc_info_map s) = Some (c, p)" using lower_bound_Some [OF d] c by auto
    then show "get_alloc_info_of a s = Some p" using r by (simp add: get_alloc_info_of_def)
  qed
qed

text \<open>
  C24: In every state that clients of the memory manager reach by a sequence of calls, in any order, its maps agree: a
  name leads to the one record that has it, no two allocations overlap, and for any address the lookup finds the
  allocation it lies in, or none when there is none. The calls are declarations of variables, declarations of external
  variables outside the known allocations, of \<open>operator new\<close> blocks of at least one object with no name or one not in
  use, deletions by address or name, resizing of arrays whose element size is the recorded one, naming of an allocation
  without a name by a name not in use, \<open>reset_memory\<close>, and any writing to memory; \<open>calloc\<close>, the allocator of records and
  the generated code of the classes keep what \<open>env_ok\<close> promises for them.
\<close>

theorem allocation_maps_agree:
  assumes "mm_reach env s" and "env_ok env"
  shows "(\<forall>nm p. mm_variable_map s nm = Some p \<longleftrightarrow> p \<in> records s \<and> ai_name (mm_info s p) = Some nm) \<and>
    (\<forall>a p. get_alloc_info_of a s = Some p \<longleftrightarrow>
       p \<in> records s \<and> ai_start (mm_info s p) \<le> a \<and> int a \<le> ai_end (mm_info s p)) \<and>
    (\<forall>p \<in> records s. \<forall>q \<in> records s. p \<noteq> q \<longrightarrow>
       ai_end (mm_info s p) < int (ai_start (mm_info s q)) \<or> ai_end (mm_info s q) < int (ai_start (mm_info s p)))"
proof (intro conjI ballI impI)
  have ok: "mm_ok {} s" using mm_reach_ok assms by blast
  show "\<forall>nm p. mm_variable_map s nm = Some p \<longleftrightarrow> p \<in> records s \<and> ai_name (mm_info s p) = Some nm"
    using ok by (simp add: mm_ok_def names_ok_def)
  show "\<forall>a p. get_alloc_info_of a s = Some p \<longleftrightarrow>
       p \<in> records s \<and> ai_start (mm_info s p) \<le> a \<and> int a \<le> ai_end (mm_info s p)"
    using get_alloc_info_of_iff [OF ok] by blast
  fix p q assume "p \<in> records s" "q \<in> records s" "p \<noteq> q"
  then obtain b c where bc: "(b, p) \<in> allocs s" "(c, q) \<in> allocs s" "b \<noteq> c"
    using ok descending_unique by (fastforce simp: mm_ok_def)
  then have "ai_end (mm_info s p) < int c \<and> c \<le> ai_start (mm_info s q) \<or> ai_end (mm_info s q) < int b \<and> b \<le> ai_start (mm_info s p)"
    using ok unfolding mm_ok_def blocks_ok_def by (metis nat_neq_iff)
  then show "ai_end (mm_info s p) < int (ai_start (mm_info s q)) \<or> ai_end (mm_info s q) < int (ai_start (mm_info s p))"
    by linarith
qed

theorem allocation_maps_agree_witness:
  "\<exists>s. s = after_declaring [int_array ''x'' 3, int_array ''y'' 2] \<and> mm_variable_map s ''y'' = Some 2 \<and>
     get_alloc_info_of 16 s = Some 2 \<and> get_alloc_info_of 21 s = None"
proof -
  let ?s = "after_declaring [int_array ''x'' 3, int_array ''y'' 2]"
  have "mm_alloc_info_map ?s = [(13, 2), (1, 1)]" "ai_name (mm_info ?s 2) = Some ''y''" "ai_start (mm_info ?s 2) = 13"
      "ai_end (mm_info ?s 2) = 20" "ai_end (mm_info ?s 1) = 12"
    by (simp_all add: run_declarations)
  then show ?thesis
    using allocation_maps_agree [OF after_declaring_reach example_env_ok, of "[int_array ''x'' 3, int_array ''y'' 2]"]
    by (auto simp: not_Some_eq [symmetric] simp del: not_Some_eq)
qed

text \<open>
  \<open>set_name_at\<close> with a name that is in use returns -1, but the allocation keeps the name; when it is
  deleted, the variable that has the name by right is no longer found, although it is still allocated.
\<close>

lemma failed_naming_hides_variable:
  assumes "mm_ok {} s" and "get_alloc_info_at a s = Some p" and "mm_variable_map s nm = Some q" and "q \<noteq> p" and "a \<noteq> 0"
    and "\<not> of_class (mm_info s p)"
  shows "\<exists>s1 s2. set_name_at a nm s = (-1, s1) \<and> delete_var env a s1 = (0, s2) \<and>
    q \<in> records s2 \<and> ai_name (mm_info s2 q) = Some nm \<and> var_exists nm s2 = 0 \<and> delete_var_name env nm s2 = (1, s2)"
proof -
  let ?s1 = "update_info p (\<lambda>i. i\<lparr>ai_name := Some nm\<rparr>) s"
  obtain s2 where s2: "delete_var env a ?s1 = (0, s2)"
      "mm_alloc_info_map s2 = map_erase a (mm_alloc_info_map s)" "mm_info s2 = mm_info ?s1"
      "mm_variable_map s2 = (mm_variable_map s)(nm := None)"
  proof (rule that)
    let ?s2 = "release env a p (?s1\<lparr>mm_alloc_info_map := map_erase a (mm_alloc_info_map ?s1)\<rparr>)"
    show "delete_var env a ?s1 = (0, ?s2\<lparr>mm_variable_map := (mm_variable_map ?s2)(nm := None)\<rparr>)"
      using assms(2,5,6)
      by (auto simp: delete_var_def get_alloc_info_at_def update_info_def release_def Let_def free_memory_def of_class_def
          io_src_destruct_class_def io_src_delete_class_def)
  qed (use assms(6) in \<open>auto simp: update_info_def release_def Let_def free_memory_def of_class_def
          io_src_destruct_class_def io_src_delete_class_def\<close>)
  have q: "q \<in> records s" "ai_name (mm_info s q) = Some nm" using assms(1,3) by (auto simp: mm_ok_def names_ok_def)
  then obtain b where b: "(b, q) \<in> allocs s" by auto
  have "(a, p) \<in> allocs s" using assms(1,2) by (simp add: at_allocs)
  then have "b \<noteq> a" using b assms(1,4) descending_unique [of "mm_alloc_info_map s" a p q] by (auto simp: mm_ok_def)
  note b = b this
  then have "(b, q) \<in> allocs s2" unfolding s2(2) using b by (simp add: set_map_erase)
  then have "q \<in> records s2" by force
  then show ?thesis
    using s2 q assms(2-4) by (auto simp: set_name_at_def update_info_def var_exists_def delete_var_name_def get_alloc_info_at_def)
qed

lemma failed_naming_hides_variable_witness:
  "\<exists>s1 s2. set_name_at 13 ''x'' (after_declaring [int_array ''x'' 3, int_array [] 2]) = (-1, s1) \<and>
     delete_var example_env 13 s1 = (0, s2) \<and> 1 \<in> records s2 \<and> ai_name (mm_info s2 1) = Some ''x'' \<and>
     var_exists ''x'' s2 = 0 \<and> delete_var_name example_env ''x'' s2 = (1, s2)"
  by (rule failed_naming_hides_variable [OF mm_reach_ok [OF after_declaring_reach example_env_ok], where p = 2])
    (simp_all add: run_declarations get_alloc_info_at_def of_class_def)

text \<open>An array for \<open>operator new\<close> with extra bytes in front cannot be deleted by its name.\<close>

lemma operator_new_name_not_deleted:
  assumes "mm_ok {} s" and "mm_variable_map s nm = Some p" and "ai_start (mm_info s p) \<notin> fst ` allocs s"
  shows "delete_var_name env nm s = (1, s)"
proof -
  have "get_alloc_info_at (ai_start (mm_info s p)) s = None"
    using assms(3) by (simp add: get_alloc_info_at_def map_of_eq_None_iff)
  then show ?thesis using assms(2) by (simp add: delete_var_name_def delete_var_def)
qed

end
