(* ===== verification/MemoryCopy.thy ===== *)
theory MemoryCopy
  imports PropsMemory
begin

text \<open>
  What resizing an array copies: an element whose indexes are inside both extents has its old bytes,
  and no byte outside the new array changes.
\<close>

fun flat :: "nat list \<Rightarrow> nat list \<Rightarrow> nat \<Rightarrow> nat" where
  "flat (d # ds) (i # ix) off = flat ds ix (off * d + i)"
| "flat _ _ off = off"

fun inside_dims :: "nat list \<Rightarrow> nat list \<Rightarrow> bool" where
  "inside_dims (d # ds) (i # ix) \<longleftrightarrow> i < d \<and> inside_dims ds ix"
| "inside_dims ds ix \<longleftrightarrow> ds = [] \<and> ix = []"

lemma flat_bounds:
  "inside_dims ds ix \<Longrightarrow> off * prod_list ds \<le> flat ds ix off \<and> flat ds ix off < (off + 1) * prod_list ds"
proof (induction ds ix off rule: flat.induct)
  case (1 d ds i ix off)
  have "(off * d + i + 1) * prod_list ds \<le> (off + 1) * d * prod_list ds"
    using 1(2) by (intro mult_right_mono) (auto simp: algebra_simps)
  then show ?case using 1 by (auto simp: algebra_simps intro: order_trans less_le_trans)
qed auto

lemma inside_length: "inside_dims ds ix \<Longrightarrow> length ds = length ix"
  by (induction ds ix rule: inside_dims.induct) auto

text \<open>The bytes a call may write.\<close>

definition cells :: "nat \<Rightarrow> nat \<Rightarrow> nat list \<Rightarrow> nat \<Rightarrow> nat set" where
  "cells base sz ds off = {base + off * prod_list ds * sz ..< base + (off + 1) * prod_list ds * sz}"

lemma cells_Cons:
  assumes "i < d" shows "cells base sz ds (off * d + i) \<subseteq> cells base sz (d # ds) off"
proof -
  have "(off * d + i + 1) * (prod_list ds * sz) \<le> (off + 1) * d * (prod_list ds * sz)"
    using assms by (intro mult_right_mono) (auto simp: algebra_simps)
  then show ?thesis by (auto simp: cells_def algebra_simps)
qed

lemma cells_disjoint: "i < j \<Longrightarrow> cells base sz ds (off + i) \<inter> cells base sz ds (off + j) = {}"
proof -
  assume "i < j"
  then have "(off + i + 1) * (prod_list ds * sz) \<le> (off + j) * (prod_list ds * sz)" by (intro mult_right_mono) auto
  then show ?thesis by (auto simp: cells_def algebra_simps)
qed

lemma copy_writes:
  "length sds = length dds \<Longrightarrow> a \<notin> cells d sz dds d_off \<Longrightarrow> recursive_array_copy s d sz sds dds s_off d_off m a = m a"
proof (induction s d sz sds dds s_off d_off m rule: recursive_array_copy.induct)
  case (1 s d sz sd sds dd dds s_off d_off m)
  have "fold (\<lambda>ii. recursive_array_copy s d sz sds dds (s_off * sd + ii) (d_off * dd + ii)) l m' a = m' a"
    if "set l \<subseteq> {0..<min sd dd}" for l m'
    using that
  proof (induction l arbitrary: m')
    case (Cons i l)
    then have "i \<in> set [0..<min sd dd]" by auto
    moreover have "a \<notin> cells d sz dds (d_off * dd + i)" using cells_Cons [of i dd d sz dds d_off] 1(3) Cons(2) by auto
    ultimately show ?case using 1(1) [of i m'] 1(2) Cons by simp
  qed simp
  then show ?case by simp
qed (auto simp: copy_bytes_def cells_def)

lemma flat_in_cells:
  assumes "inside_dims ds ix" and "k < sz" shows "base + flat ds ix off * sz + k \<in> cells base sz ds off"
proof -
  have "off * prod_list ds * sz \<le> flat ds ix off * sz" "(flat ds ix off + 1) * sz \<le> (off + 1) * prod_list ds * sz"
    using flat_bounds [OF assms(1), of off] by (intro mult_right_mono; simp)+
  moreover have "(flat ds ix off + 1) * sz = flat ds ix off * sz + sz" by simp
  ultimately show ?thesis using assms(2) unfolding cells_def atLeastLessThan_iff by linarith
qed

text \<open>Every element in both extents is copied from memory that the copying does not write to.\<close>

lemma copy_copies:
  assumes "inside_dims sds ix" and "inside_dims dds ix" and "k < sz"
    and "\<And>j. j < sz \<Longrightarrow> s + flat sds ix s_off * sz + j \<notin> cells d sz dds d_off"
  shows "recursive_array_copy s d sz sds dds s_off d_off m (d + flat dds ix d_off * sz + k) = m (s + flat sds ix s_off * sz + k)"
  using assms
proof (induction s d sz sds dds s_off d_off m arbitrary: ix rule: recursive_array_copy.induct)
  case (1 s d sz sd sds dd dds s_off d_off m)
  obtain i ix' where ix: "ix = i # ix'" using 1(2) by (cases ix) auto
  then have i: "i < sd" "i < dd" and in': "inside_dims sds ix'" "inside_dims dds ix'" using 1(2,3) by auto
  have len: "length sds = length dds" using in' by (simp add: inside_length)
  let ?f = "\<lambda>ii. recursive_array_copy s d sz sds dds (s_off * sd + ii) (d_off * dd + ii)"
  let ?src = "s + flat sds ix' (s_off * sd + i) * sz" and ?dst = "d + flat dds ix' (d_off * dd + i) * sz"
  have src: "?src + j \<notin> cells d sz dds (d_off * dd + ii)" if "j < sz" "ii < dd" for ii j
    using 1(5) [OF that(1)] cells_Cons [OF that(2), of d sz dds d_off] by (auto simp: ix)
  have other: "?dst + k \<notin> cells d sz dds (d_off * dd + ii)" if "ii \<noteq> i" for ii
    using flat_in_cells [OF in'(2) 1(4), of d "d_off * dd + i"] cells_disjoint [of ii i d sz dds "d_off * dd"]
      cells_disjoint [of i ii d sz dds "d_off * dd"] that by (cases "ii < i") auto
  have run: "fold ?f [0..<n] m' (?src + j) = m' (?src + j)" if "j < sz" "n \<le> min sd dd" for n m' j
    using that by (induction n) (auto simp: copy_writes [OF len src])
  have before: "fold ?f [0..<n] m' (?dst + k) = (if i < n then m' (?src + k) else m' (?dst + k))" if "n \<le> min sd dd" for n m'
    using that
  proof (induction n)
    case (Suc n)
    show ?case
    proof (cases "n = i")
      case True
      have "?f i m'' (?dst + k) = m'' (?src + k)" for m''
        using 1(1) [of i ix' m''] i in' 1(4) src by auto
      then show ?thesis using Suc True run [OF 1(4), of n] by simp
    next
      case False
      then show ?thesis using Suc copy_writes [OF len other [OF False]] by auto
    qed
  qed simp
  then show ?case using i by (simp add: ix)
next
  case "2_1"
  then show ?case by (auto simp: copy_bytes_def)
next
  case "2_2"
  then show ?case by (auto simp: copy_bytes_def)
qed

text \<open>An element of the new array that the old one does not have is left alone.\<close>

lemma copy_leaves:
  assumes "length sds = length dds" and "inside_dims dds ix" and "\<not> inside_dims sds ix" and "k < sz"
  shows "recursive_array_copy s d sz sds dds s_off d_off m (d + flat dds ix d_off * sz + k) = m (d + flat dds ix d_off * sz + k)"
  using assms
proof (induction s d sz sds dds s_off d_off m arbitrary: ix rule: recursive_array_copy.induct)
  case (1 s d sz sd sds dd dds s_off d_off m)
  obtain i ix' where ix: "ix = i # ix'" using 1(3) by (cases ix) auto
  then have i: "i < dd" and in': "inside_dims dds ix'" and out: "i < sd \<Longrightarrow> \<not> inside_dims sds ix'" using 1(3,4) by auto
  have len: "length sds = length dds" using 1(2) by simp
  let ?f = "\<lambda>ii. recursive_array_copy s d sz sds dds (s_off * sd + ii) (d_off * dd + ii)"
  let ?dst = "d + flat dds ix' (d_off * dd + i) * sz + k"
  have other: "?dst \<notin> cells d sz dds (d_off * dd + ii)" if "ii \<noteq> i" for ii
    using flat_in_cells [OF in' 1(5), of d "d_off * dd + i"] cells_disjoint [of ii i d sz dds "d_off * dd"]
      cells_disjoint [of i ii d sz dds "d_off * dd"] that by (cases "ii < i") auto
  have "fold ?f [0..<n] m' ?dst = m' ?dst" if "n \<le> min sd dd" for n m'
    using that
  proof (induction n)
    case (Suc n)
    have "?f n m'' ?dst = m'' ?dst" for m''
    proof (cases "n = i")
      case True
      then show ?thesis using 1(1) [of i ix' m''] Suc(2) len in' out 1(5) by auto
    qed (simp add: copy_writes [OF len other])
    then show ?case using Suc by simp
  qed simp
  then show ?case by (simp add: ix)
next
  case "2_1"
  then show ?case by auto
next
  case "2_2"
  then show ?case by auto
qed

subsection \<open>Resizing an array\<close>

text \<open>
  The shape of a record: its dimensions are positive, those of pointers (0) come last, and its end follows from
  its size.
\<close>

definition constrained :: "ALLOC_INFO \<Rightarrow> int list" where
  "constrained i = filter (\<lambda>x. x \<noteq> 0) (ai_index i)"

definition info_ok :: "ALLOC_INFO \<Rightarrow> bool" where
  "info_ok i \<longleftrightarrow> 0 < ai_size i \<and> (\<forall>d \<in> set (constrained i). 0 < d) \<and> (\<exists>k. ai_index i = constrained i @ replicate k 0) \<and>
     ai_end i = int (ai_start i) + prod_list (constrained i) * ai_size i - 1"

lemma n_elements_prod: "n_elements ds n = Some k \<Longrightarrow> k = n * prod_list ds"
  by (induction ds n rule: n_elements.induct) (auto simp: int32_def bind_eq_Some_conv mult.assoc split: if_splits)

lemma declared_info_ok:
  assumes "n_elements (dc_cdims d) 1 = Some n" and "\<forall>x \<in> set (dc_cdims d). 0 < x" and "0 < sz"
  shows "info_ok (local_info d t a n sz b l ty i)" and "info_ok (extern_info env d t a n sz b i)"
proof -
  have "filter (\<lambda>x. x \<noteq> 0) (dc_cdims d @ replicate (dc_n_stars d) 0) = dc_cdims d"
    using assms(2) by (simp add: filter_id_conv) fastforce
  then have c: "constrained (local_info d t a n sz b l ty i) = dc_cdims d" "constrained (extern_info env d t a n sz b i) = dc_cdims d"
    by (simp_all add: constrained_def local_info_def extern_info_def)
  show "info_ok (local_info d t a n sz b l ty i)" "info_ok (extern_info env d t a n sz b i)"
    unfolding info_ok_def c using assms n_elements_prod [OF assms(1)] by (auto simp: local_info_def extern_info_def)
qed

lemma prod_list_nat: "\<forall>d \<in> set ds. 0 < d \<Longrightarrow> int (prod_list (map nat ds)) = prod_list ds"
  by (induction ds) auto

lemma prod_list_pos: "\<forall>d \<in> set ds. 0 < (d :: int) \<Longrightarrow> 0 < prod_list ds"
  by (induction ds) auto

lemma in_zeroed: "a \<le> i \<Longrightarrow> int i < int a + n \<Longrightarrow> zero_bytes_at a n m i = 0"
  by (simp add: zero_bytes_at_def)

text \<open>
  C25: \<open>resize_array\<close> of an array in memory from \<open>calloc\<close> keeps the elements that are inside the old and
  the new extents, at every index and for any number of dimensions; elements that are new are zero;
  the old block is freed and the record is found at the new address.
\<close>

theorem resize_keeps_elements:
  assumes "resize_array env a cdims s = Some (Inr b, s')" and "b \<noteq> 0" and "env_ok env" and "mm_ok {} s" and "get_alloc_info_at a s = Some p"
    and "info_ok (mm_info s p)" and "ai_type (mm_info s p) \<noteq> TRICK_STRUCTURED" and "\<forall>d \<in> set cdims. 0 < d"
  shows "(\<forall>ix k. inside_dims (map nat cdims) ix \<and> k < nat (ai_size (mm_info s p)) \<longrightarrow>
      mm_mem s' (b + flat (map nat cdims) ix 0 * nat (ai_size (mm_info s p)) + k) =
        (if inside_dims (map nat (constrained (mm_info s p))) ix
         then mm_mem s (ai_start (mm_info s p) + flat (map nat (constrained (mm_info s p))) ix 0 * nat (ai_size (mm_info s p)) + k)
         else 0)) \<and>
    get_alloc_info_at b s' = Some p \<and> ai_start (mm_info s' p) = b \<and> mm_freed s' = mm_freed s @ [a]"
proof -
  let ?i = "mm_info s p" and ?sz = "nat (ai_size (mm_info s p))"
  have sz: "0 < ai_size ?i" using assms(6) by (simp add: info_ok_def)
  have rec: "size_recorded env a s" using assms(5,7) sz by (simp add: size_recorded_def)
  have p: "(a, p) \<in> allocs s" using assms(4,5) by (simp add: at_allocs)
  from assms(1) obtain n s1 where t: "n_elements cdims 1 = Some n" "n \<noteq> 0" "length cdims = length (constrained ?i)"
      "reallocate env ?i cdims n s = (b, s1)" "s' = move_array a b p cdims n s1"
    by (cases rule: resize_array_cases) (use assms(2,5) in \<open>auto simp: constrained_def\<close>)
  note re = reallocate_ok [OF t(4) assms(2,3,4) t(2) p rec]
  have s1: "s1 = s\<lparr>mm_mem := zero_bytes_at b (n * ai_size ?i) (mm_mem s)\<rparr>"
    using t(4) assms(2,7) by (auto simp: reallocate_def Let_def split: if_splits)
  obtain k0 where index: "ai_index ?i = constrained ?i @ replicate k0 0" using assms(6) by (auto simp: info_ok_def)
  have mem: "mm_mem s' = recursive_array_copy (ai_start ?i) b ?sz (map nat (constrained ?i)) (map nat cdims) 0 0
      (zero_bytes_at b (n * ai_size ?i) (mm_mem s))"
    using t(3) index by (simp add: t(5) move_array_def Let_def update_info_def free_memory_def array_copy_def s1)
  have n: "n = prod_list cdims" using n_elements_prod [OF t(1)] by simp
  have new: "int (prod_list (map nat cdims) * ?sz) = n * ai_size ?i"
    using prod_list_nat [OF assms(8)] sz by (simp add: n)
  have pos: "\<forall>d \<in> set (constrained ?i). 0 < d" using assms(6) by (simp add: info_ok_def)
  have old: "int (prod_list (map nat (constrained ?i)) * ?sz) = ai_end ?i - int (ai_start ?i) + 1"
    using prod_list_nat [OF pos] sz assms(6) by (simp add: info_ok_def)
  have apart: "int b + n * ai_size ?i \<le> int (ai_start ?i) \<or> ai_end ?i < int b"
    using re(2,3) assms(4) p unfolding s1 block_free_def mm_ok_def blocks_ok_def by fastforce
  let ?new = "cells b ?sz (map nat cdims) 0" and ?old = "cells (ai_start ?i) ?sz (map nat (constrained ?i)) 0"
  have disj: "?old \<inter> ?new = {}"
    using apart new old by (auto simp: cells_def simp del: of_nat_mult)
  have zero: "zero_bytes_at b (n * ai_size ?i) (mm_mem s) x = (if x \<in> ?new then 0 else mm_mem s x)" for x
  proof -
    have "x \<in> ?new \<longleftrightarrow> b \<le> x \<and> x < b + prod_list (map nat cdims) * ?sz" by (simp add: cells_def)
    also have "\<dots> \<longleftrightarrow> b \<le> x \<and> int x < int b + n * ai_size ?i" using new by linarith
    finally show ?thesis by (simp add: zero_bytes_at_def)
  qed
  have elements: "\<forall>ix k. inside_dims (map nat cdims) ix \<and> k < ?sz \<longrightarrow>
      mm_mem s' (b + flat (map nat cdims) ix 0 * ?sz + k) =
        (if inside_dims (map nat (constrained ?i)) ix
         then mm_mem s (ai_start ?i + flat (map nat (constrained ?i)) ix 0 * ?sz + k) else 0)"
  proof (intro allI impI)
    fix ix k assume ix: "inside_dims (map nat cdims) ix \<and> k < ?sz"
    show "mm_mem s' (b + flat (map nat cdims) ix 0 * ?sz + k) =
        (if inside_dims (map nat (constrained ?i)) ix
         then mm_mem s (ai_start ?i + flat (map nat (constrained ?i)) ix 0 * ?sz + k) else 0)"
    proof (cases "inside_dims (map nat (constrained ?i)) ix")
      case True
      have src: "ai_start ?i + flat (map nat (constrained ?i)) ix 0 * ?sz + j \<notin> ?new" if "j < ?sz" for j
        using flat_in_cells [OF True that, of "ai_start ?i" 0] disj by auto
      then show ?thesis
        unfolding mem using copy_copies [OF True conjunct1 [OF ix] conjunct2 [OF ix] src] ix True by (simp add: zero)
    next
      case False
      have "b + flat (map nat cdims) ix 0 * ?sz + k \<in> ?new" using ix by (intro flat_in_cells) auto
      then show ?thesis
        unfolding mem using copy_leaves [of "map nat (constrained ?i)" "map nat cdims" ix k ?sz] t(3) ix False by (simp add: zero)
    qed
  qed
  have d: "descending (mm_alloc_info_map s)" using assms(4) by (simp add: mm_ok_def)
  have "get_alloc_info_at b s' = Some p"
    using d by (simp add: t(5) move_array_def Let_def update_info_def free_memory_def get_alloc_info_at_def s1
        map_of_descending descending_map_insert descending_map_erase set_map_insert)
  moreover have "ai_start (mm_info s' p) = b" "mm_freed s' = mm_freed s @ [a]"
    by (simp_all add: t(5) move_array_def Let_def update_info_def free_memory_def s1)
  ultimately show ?thesis using elements by blast
qed

theorem resize_keeps_elements_witness:
  "\<exists>s s'. s = (after_declaring [int_array ''x'' 3])\<lparr>mm_mem := word_of_nat\<rparr> \<and>
     resize_array example_env 1 [5] s = Some (Inr 13, s') \<and>
     mm_mem s' (13 + 8) = 9 \<and> mm_mem s' (13 + 12) = 0 \<and> get_alloc_info_at 13 s' = Some 1 \<and> mm_freed s' = [1]"
proof -
  let ?s = "(after_declaring [int_array ''x'' 3])\<lparr>mm_mem := word_of_nat\<rparr>"
  have ok: "mm_ok {} ?s" using mm_reach_ok [OF after_declaring_reach example_env_ok] by simp
  have i: "mm_info ?s 1 = \<lparr>ai_start = 1, ai_end = 12, ai_name = Some ''x'', ai_size = 4, ai_sentinel_bytes = 0,
      ai_language = Language_C, ai_type = TRICK_INTEGER, ai_stcl = TRICK_LOCAL, ai_alloc_type = TRICK_ALLOC_MALLOC,
      ai_user_type_name = None, ai_attr = 0, ai_num = 3, ai_index = [3], ai_id = 100000000\<rparr>"
    by (simp add: run_declarations)
  have at: "get_alloc_info_at 1 ?s = Some 1" by (simp add: run_declarations get_alloc_info_at_def)
  have io: "info_ok (mm_info ?s 1)" unfolding i by (simp add: info_ok_def constrained_def)
  have c: "first_free ?s = 13" "mm_freed ?s = []" by (simp_all add: run_declarations)
  obtain s' where r: "resize_array example_env 1 [5] ?s = Some (Inr 13, s')"
    using c at i by (simp add: resize_array_def reallocate_def example_env_def int32_def Let_def)
  have thirteen: "13 \<noteq> (0 :: nat)" by simp
  have prem: "ai_type (mm_info ?s 1) \<noteq> TRICK_STRUCTURED" "\<forall>d \<in> set [5]. 0 < (d :: int)" by (simp_all only: i) simp_all
  note k = resize_keeps_elements [OF r thirteen example_env_ok ok at io prem]
  note e = conjunct1 [OF k, THEN spec, THEN spec, where x1 = "[j]" and x = 0 for j]
  have "mm_mem s' (13 + 8) = 9" "mm_mem s' (13 + 12) = 0"
    using e [of 2] e [of 3] unfolding i constrained_def by simp_all
  moreover have "get_alloc_info_at 13 s' = Some 1" "mm_freed s' = [1]" using k c by simp_all
  ultimately show ?thesis using r by auto
qed

end
