(* ===== verification/MemoryReset.thy ===== *)
theory MemoryReset
  imports PropsMemory
begin

text \<open>
  What \<open>reset_memory\<close> leaves: the external variables, when every record is entered at its start and no
  class has a destructor to run.
\<close>

definition plain_records :: "MM \<Rightarrow> bool" where
  "plain_records s \<longleftrightarrow> (\<forall>b p. (b, p) \<in> allocs s \<longrightarrow> ai_start (mm_info s p) = b \<and> \<not> of_class (mm_info s p))"

definition is_local :: "MM \<Rightarrow> nat \<Rightarrow> bool" where
  "is_local s p \<longleftrightarrow> ai_stcl (mm_info s p) = TRICK_LOCAL"

definition by_malloc :: "MM \<Rightarrow> nat \<Rightarrow> bool" where
  "by_malloc s p \<longleftrightarrow> is_local s p \<and> ai_alloc_type (mm_info s p) = TRICK_ALLOC_MALLOC"

lemma delete_local:
  assumes "mm_ok {} s" and "(a, p) \<in> allocs s" and "\<not> of_class (mm_info s p)" and "is_local s p"
  shows "mm_alloc_info_map (snd (delete_var env a s)) = map_erase a (mm_alloc_info_map s)"
    and "mm_info (snd (delete_var env a s)) = mm_info s"
    and "mm_freed (snd (delete_var env a s)) = mm_freed s @ (if by_malloc s p then [a] else [])"
    and "mm_alloc_info_map_counter (snd (delete_var env a s)) = mm_alloc_info_map_counter s"
proof -
  have at: "get_alloc_info_at a s = Some p" using assms(1,2) by (simp add: at_allocs)
  have a: "a \<noteq> 0" using assms(1,2) unfolding mm_ok_def blocks_ok_def by blast
  note run = delete_var_def release_def free_memory_def io_src_destruct_class_def io_src_delete_class_def Let_def
  show "mm_alloc_info_map (snd (delete_var env a s)) = map_erase a (mm_alloc_info_map s)"
    "mm_info (snd (delete_var env a s)) = mm_info s"
    "mm_freed (snd (delete_var env a s)) = mm_freed s @ (if by_malloc s p then [a] else [])"
    "mm_alloc_info_map_counter (snd (delete_var env a s)) = mm_alloc_info_map_counter s"
    using at a assms(3,4) by (simp_all add: run by_malloc_def is_local_def split: option.split)
qed

text \<open>The deletion of a list of local allocations, one after the other.\<close>

lemma delete_locals:
  assumes "env_ok env" and "mm_ok {} s" and "distinct (map fst l)" and "set l \<subseteq> allocs s"
    and "\<forall>(b, p) \<in> set l. is_local s p \<and> \<not> of_class (mm_info s p)"
  shows "mm_ok {} (delete_all env (map fst l) s) \<and>
    mm_alloc_info_map (delete_all env (map fst l) s) = filter (\<lambda>(b, p). b \<notin> fst ` set l) (mm_alloc_info_map s) \<and>
    mm_info (delete_all env (map fst l) s) = mm_info s \<and>
    mm_freed (delete_all env (map fst l) s) = mm_freed s @ map fst (filter (\<lambda>(b, p). by_malloc s p) l)"
  using assms(2-)
proof (induction l arbitrary: s)
  case Nil
  then show ?case by (simp add: delete_all_def)
next
  case (Cons x l)
  obtain a p where x: "x = (a, p)" by force
  let ?s = "snd (delete_var env a s)"
  have p: "(a, p) \<in> allocs s" "\<not> of_class (mm_info s p)" "is_local s p" using Cons.prems(3,4) by (auto simp: x)
  note d = delete_local [OF Cons.prems(1) p]
  have "mm_ok {} ?s" by (rule delete_var_keeps [OF assms(1) Cons.prems(1)])
  moreover have "(b, q) \<in> allocs ?s" if "(b, q) \<in> set l" for b q
    using Cons.prems(2,3) that by (auto simp: d(1) set_map_erase x rev_image_eqI)
  then have "set l \<subseteq> allocs ?s" by auto
  moreover have "\<forall>(b, q) \<in> set l. is_local ?s q \<and> \<not> of_class (mm_info ?s q)"
    using Cons.prems(4) by (auto simp: d is_local_def)
  moreover have "distinct (map fst l)" using Cons.prems(2) by simp
  ultimately have ih: "mm_ok {} (delete_all env (map fst l) ?s) \<and>
      mm_alloc_info_map (delete_all env (map fst l) ?s) = filter (\<lambda>(b, q). b \<notin> fst ` set l) (mm_alloc_info_map ?s) \<and>
      mm_info (delete_all env (map fst l) ?s) = mm_info ?s \<and>
      mm_freed (delete_all env (map fst l) ?s) = mm_freed ?s @ map fst (filter (\<lambda>(b, q). by_malloc ?s q) l)"
    using Cons.IH by blast
  have step: "delete_all env (map fst (x # l)) s = delete_all env (map fst l) ?s" by (simp add: delete_all_def x)
  have m: "by_malloc ?s = by_malloc s" by (simp add: by_malloc_def is_local_def d fun_eq_iff)
  have f: "filter (\<lambda>(b, q). b \<notin> fst ` set l) (map_erase a m) = filter (\<lambda>(b, q). b \<notin> fst ` set (x # l)) m" for m :: "(nat \<times> nat) list"
    by (auto simp: map_erase_def x intro!: filter_cong)
  show ?case using ih by (simp only: step d m f) (simp add: x)
qed

text \<open>
  C28: When no allocation is of a C++ class, whose destructor would run, and every block starts at the address it is
  entered under (an \<open>operator new\<close> block with extra bytes in front does not), \<open>reset_memory\<close> deletes the local
  allocations and no other: what is left is exactly the external variables, each at its address and with its name;
  every block from \<open>calloc\<close> is freed once, the largest address first, and the numbers of the local allocations start
  again.
\<close>

theorem reset_leaves_externals:
  assumes "env_ok env" and "mm_ok {} s" and "plain_records s"
  shows "mm_alloc_info_map (reset_memory env s) = filter (\<lambda>(b, p). \<not> is_local s p) (mm_alloc_info_map s) \<and>
    (\<forall>nm p. mm_variable_map (reset_memory env s) nm = Some p \<longleftrightarrow> mm_variable_map s nm = Some p \<and> \<not> is_local s p) \<and>
    mm_freed (reset_memory env s) = mm_freed s @ map fst (filter (\<lambda>(b, p). by_malloc s p) (mm_alloc_info_map s)) \<and>
    mm_alloc_info_map_counter (reset_memory env s) = 100000000"
proof -
  let ?s1 = "s\<lparr>mm_resetting_memory := True, mm_deleted_addr_list := []\<rparr>"
  let ?l = "filter (\<lambda>(b, p). is_local s p) (mm_alloc_info_map s)"
  let ?d = "delete_all env (map fst ?l) ?s1"
  have desc: "descending (mm_alloc_info_map s)" using assms(2) by (simp add: mm_ok_def)
  have dist: "distinct (map fst m)" if "descending m" for m :: "(nat \<times> nat) list"
    using that by (induction m) (auto simp: descending_Cons)
  then have 1: "distinct (map fst ?l)" using desc by (simp add: distinct_map inj_on_def)
  have 2: "mm_ok {} ?s1" using assms(2) by simp
  have 3: "\<forall>(b, p) \<in> set ?l. is_local ?s1 p \<and> \<not> of_class (mm_info ?s1 p)"
    using assms(3) unfolding plain_records_def is_local_def by fastforce
  have l: "deletion_list ?s1 = map fst ?l"
    using assms(3) unfolding deletion_list_def plain_records_def is_local_def by (auto intro!: map_cong)
  have "mm_ok {} ?d \<and> mm_alloc_info_map ?d = filter (\<lambda>(b, p). b \<notin> fst ` set ?l) (mm_alloc_info_map ?s1) \<and>
      mm_info ?d = mm_info ?s1 \<and> mm_freed ?d = mm_freed ?s1 @ map fst (filter (\<lambda>(b, p). by_malloc ?s1 p) ?l)"
    using 3 by (intro delete_locals [OF assms(1) 2 1]) auto
  moreover have "filter (\<lambda>(b, p). b \<notin> fst ` set ?l) (mm_alloc_info_map s) = filter (\<lambda>(b, p). \<not> is_local s p) (mm_alloc_info_map s)"
  proof (rule filter_cong [OF refl])
    fix x assume x: "x \<in> set (mm_alloc_info_map s)"
    obtain b p where "x = (b, p)" by force
    moreover have "b \<in> fst ` set ?l \<longleftrightarrow> is_local s p" if "(b, p) \<in> allocs s" for b p
    proof
      assume "b \<in> fst ` set ?l"
      then obtain q where "(b, q) \<in> allocs s" "is_local s q" by auto
      then show "is_local s p" using descending_unique [OF desc that] by blast
    qed (use that in \<open>auto simp: image_iff\<close>)
    ultimately show "(case x of (b, p) \<Rightarrow> b \<notin> fst ` set ?l) = (case x of (b, p) \<Rightarrow> \<not> is_local s p)" using x by simp
  qed
  moreover have "filter (\<lambda>(b, p). by_malloc ?s1 p) ?l = filter (\<lambda>(b, p). by_malloc s p) (mm_alloc_info_map s)"
    unfolding filter_filter by (rule filter_cong [OF refl]) (auto simp: by_malloc_def is_local_def)
  ultimately have d: "mm_ok {} ?d" "mm_alloc_info_map ?d = filter (\<lambda>(b, p). \<not> is_local s p) (mm_alloc_info_map s)"
      "mm_info ?d = mm_info s" "mm_freed ?d = mm_freed s @ map fst (filter (\<lambda>(b, p). by_malloc s p) (mm_alloc_info_map s))"
    by simp_all
  have names: "mm_variable_map ?d nm = Some p \<longleftrightarrow> mm_variable_map s nm = Some p \<and> \<not> is_local s p" for nm p
  proof -
    have "mm_variable_map ?d nm = Some p \<longleftrightarrow> p \<in> records ?d \<and> ai_name (mm_info s p) = Some nm"
      using d(1) unfolding mm_ok_def names_ok_def d(3) by simp
    moreover have "mm_variable_map s nm = Some p \<longleftrightarrow> p \<in> records s \<and> ai_name (mm_info s p) = Some nm"
      using assms(2) unfolding mm_ok_def names_ok_def by simp
    moreover have "p \<in> records ?d \<longleftrightarrow> p \<in> records s \<and> \<not> is_local s p" unfolding d(2) by force
    ultimately show ?thesis by blast
  qed
  show ?thesis using d names by (simp add: reset_memory_def Let_def l)
qed

theorem reset_leaves_externals_witness:
  "\<exists>s s'. s = snd (the (declare_extern_var example_env 100 (int_array ''e'' 2) (after_declaring [int_array ''x'' 3, int_array ''y'' 2]))) \<and>
     s' = reset_memory example_env s \<and> mm_alloc_info_map s = [(100, 3), (13, 2), (1, 1)] \<and>
     mm_alloc_info_map s' = [(100, 3)] \<and> mm_freed s' = [13, 1] \<and> mm_variable_map s' ''x'' = None"
proof -
  let ?t = "after_declaring [int_array ''x'' 3, int_array ''y'' 2]"
  obtain s where s: "declare_extern_var example_env 100 (int_array ''e'' 2) ?t = Some (Inr 100, s)"
      "mm_alloc_info_map s = [(100, 3), (13, 2), (1, 1)]" "mm_freed s = []" "mm_variable_map s ''x'' = Some 1"
      "map (\<lambda>p. (ai_start (mm_info s p), ai_stcl (mm_info s p), ai_alloc_type (mm_info s p), ai_type (mm_info s p))) [1, 2, 3] =
        [(1, TRICK_LOCAL, TRICK_ALLOC_MALLOC, TRICK_INTEGER), (13, TRICK_LOCAL, TRICK_ALLOC_MALLOC, TRICK_INTEGER),
         (100, TRICK_EXTERN, TRICK_ALLOC_OTHER, TRICK_INTEGER)]"
    by (simp add: run_declarations declare_extern_var_def extern_info_def next_extern_id_def)
  have "extern_outside example_env 100 (int_array ''e'' 2) ?t"
    by (simp add: run_declarations extern_outside_def block_free_def)
  then have "mm_reach example_env s"
    using mm_reach.step [OF after_declaring_reach mm_step.declares_extern] s(1) by blast
  then have ok: "mm_ok {} s" using mm_reach_ok example_env_ok by blast
  have "plain_records s" using s(5) by (auto simp: plain_records_def s(2) of_class_def)
  note r = reset_leaves_externals [OF example_env_ok ok this]
  have "mm_alloc_info_map (reset_memory example_env s) = [(100, 3)]" "mm_freed (reset_memory example_env s) = [13, 1]"
    using r s(5) by (simp_all add: s(2,3) is_local_def by_malloc_def)
  moreover have "mm_variable_map (reset_memory example_env s) ''x'' = None"
    using r s(4,5) by (auto simp: is_local_def not_Some_eq [symmetric] simp del: not_Some_eq)
  ultimately show ?thesis using s(1,2) by auto
qed

end
