(* ===== verification/MemoryScan.thy ===== *)
theory MemoryScan
  imports MemoryOps Bitfield
begin

text \<open>
  The functions of the memory manager that walk over a variable by its attributes: the search for the
  allocations it depends on (MemoryManager\_alloc\_depends.cpp) and its clearing
  (MemoryManager\_clear\_memory.cpp, make\_reference\_attr). The attributes of the classes are tables
  written by the interface code generator, a parameter; a table is the list of its entries up to the
  empty name. The recursion of the code is a list of the walks still to be done, in its order.
\<close>

record MEMBER = ATTRIBUTES +
  at_name :: string
  at_io :: nat
  at_mods :: nat
  at_offset :: int
  at_attr :: nat
  at_index :: "int list"

type_synonym tables = "nat \<Rightarrow> MEMBER list"

text \<open>The bits of \<open>io\<close> and \<open>mods\<close>.\<close>

definition output_perm_check :: "MEMBER \<Rightarrow> bool" where
  "output_perm_check A \<longleftrightarrow> bit (at_io A) 2"

definition input_perm_check :: "MEMBER \<Rightarrow> bool" where
  "input_perm_check A \<longleftrightarrow> bit (at_io A) 3"

definition member_address :: "nat \<Rightarrow> MEMBER \<Rightarrow> nat" where
  "member_address address A = (if bit (at_mods A) 1 then nat (at_offset A) else nat (int address + at_offset A))"

text \<open>The unused places of \<open>index\<close> are zero.\<close>

definition extent :: "MEMBER \<Rightarrow> nat \<Rightarrow> int" where
  "extent A k = (if k < length (at_index A) then at_index A ! k else 0)"

definition make_reference_attr :: "ALLOC_INFO \<Rightarrow> MEMBER" where
  "make_reference_attr i =
     \<lparr>at_type = ai_type i, at_size = nat (ai_size i), at_num_index = int (length (ai_index i)),
      at_stl_elem_type = TRICK_VOID, at_units = ''1'', at_units_dashdash = False,
      at_bit_start = 0, at_bit_size = (if ai_index i = [] then 0 else nat (hd (ai_index i))),
      at_name = (case ai_name i of None \<Rightarrow> [] | Some nm \<Rightarrow> nm), at_io = 15, at_mods = 0, at_offset = 0,
      at_attr = ai_attr i, at_index = ai_index i\<rparr>"

subsection \<open>Dependencies\<close>

datatype scan =
    In_allocation nat
  | In_class nat nat
  | In_arrayed_class nat MEMBER nat int
  | In_intrinsic nat MEMBER nat int

definition int_address :: "nat \<Rightarrow> int \<Rightarrow> nat" where
  "int_address a d = nat (int a + d)"

text \<open>The allocation a pointer leads to.\<close>

definition pointed_to :: "bool \<Rightarrow> MM \<Rightarrow> nat \<Rightarrow> scan list" where
  "pointed_to big_endian s a =
     (let pointer = load_pointer big_endian (mm_mem s) a
      in if pointer = 0 then []
         else case get_alloc_info_of pointer s of None \<Rightarrow> [] | Some p \<Rightarrow> [In_allocation p])"

definition member_walk :: "nat \<Rightarrow> MEMBER \<Rightarrow> scan" where
  "member_walk address A =
     (let elem_addr = member_address address A
      in if at_type A = TRICK_STRUCTURED
         then if at_num_index A \<noteq> 0 then In_arrayed_class elem_addr A 0 0 else In_class elem_addr (at_attr A)
         else In_intrinsic elem_addr A 0 0)"

definition allocation_walk :: "ALLOC_INFO \<Rightarrow> scan" where
  "allocation_walk i =
     (if ai_type i = TRICK_STRUCTURED
      then if ai_index i \<noteq> [] then In_arrayed_class (ai_start i) (make_reference_attr i) 0 0
           else In_class (ai_start i) (ai_attr i)
      else In_intrinsic (ai_start i) (make_reference_attr i) 0 0)"

text \<open>The walks one call of the three scanning functions makes, in order.\<close>

definition walks_of :: "bool \<Rightarrow> tables \<Rightarrow> MM \<Rightarrow> scan \<Rightarrow> scan list" where
  "walks_of big_endian tb s w =
     (case w of
        In_allocation p \<Rightarrow> [allocation_walk (mm_info s p)]
      | In_class address t \<Rightarrow>
          if t = 0 then [] else map (member_walk address) (filter output_perm_check (tb t))
      | In_arrayed_class address A curr_dim offset \<Rightarrow>
          if extent A curr_dim = 0 then pointed_to big_endian s (int_address address (offset * 8))
          else map (\<lambda>ii. if int curr_dim < at_num_index A - 1
                         then In_arrayed_class address A (curr_dim + 1) (offset * extent A curr_dim + int ii)
                         else In_class (int_address address ((offset * int curr_dim + int ii) * int (at_size A))) (at_attr A))
                 [0..<nat (extent A curr_dim)]
      | In_intrinsic address A curr_dim offset \<Rightarrow>
          if int curr_dim < at_num_index A then
            (if extent A curr_dim = 0 then pointed_to big_endian s (int_address address (offset * 8))
             else map (\<lambda>ii. In_intrinsic address A (curr_dim + 1) (offset * extent A curr_dim + int ii))
                    [0..<nat (extent A curr_dim)])
          else [])"

partial_function (option) get_alloc_deps :: "bool \<Rightarrow> tables \<Rightarrow> MM \<Rightarrow> scan list \<Rightarrow> nat list \<Rightarrow> nat list option" where
  "get_alloc_deps big_endian tb s ws dependencies =
     (case ws of
        [] \<Rightarrow> Some dependencies
      | w # rest \<Rightarrow>
          (case w of
             In_allocation p \<Rightarrow>
               if p \<in> set dependencies then get_alloc_deps big_endian tb s rest dependencies
               else get_alloc_deps big_endian tb s (walks_of big_endian tb s w @ rest) (dependencies @ [p])
           | _ \<Rightarrow> get_alloc_deps big_endian tb s (walks_of big_endian tb s w @ rest) dependencies))"

definition get_alloc_deps_in_allocation :: "bool \<Rightarrow> tables \<Rightarrow> MM \<Rightarrow> nat \<Rightarrow> nat list \<Rightarrow> nat list option" where
  "get_alloc_deps_in_allocation big_endian tb s p = get_alloc_deps big_endian tb s [In_allocation p]"

definition get_alloc_deps_by_name :: "bool \<Rightarrow> tables \<Rightarrow> MM \<Rightarrow> string \<Rightarrow> nat list \<Rightarrow> nat list option" where
  "get_alloc_deps_by_name big_endian tb s var_name dependencies =
     (case mm_variable_map s var_name of
        None \<Rightarrow> Some dependencies
      | Some p \<Rightarrow> get_alloc_deps_in_allocation big_endian tb s p dependencies)"

subsection \<open>Clearing\<close>

datatype clearing =
    Clear_class nat nat
  | Clear_arrayed_class nat MEMBER nat int
  | Clear_rvalue nat MEMBER nat int

definition zero_at :: "nat \<Rightarrow> nat \<Rightarrow> memory \<Rightarrow> memory" where
  "zero_at a n = zero_bytes_at a (int n)"

definition store_bytes :: "nat \<Rightarrow> bytes \<Rightarrow> memory \<Rightarrow> memory" where
  "store_bytes a bs m = (\<lambda>i. if a \<le> i \<and> i < a + length bs then bs ! (i - a) else m i)"

definition clear_bits :: "bool \<Rightarrow> nat \<Rightarrow> MEMBER \<Rightarrow> memory \<Rightarrow> memory" where
  "clear_bits big_endian a A m =
     (if at_size A \<in> {1, 2, 4}
      then store_bytes a (PUT_BITFIELD big_endian (mem_bytes m a (at_size A)) 0 (at_size A) (at_bit_start A) (at_bit_size A)) m
      else m)"

text \<open>
  What clears the strings and the STL containers is a parameter. A type that is not known, or of an
  unknown size, is left, with an error message.
\<close>

record clear_env =
  clear_big_endian :: bool
  clear_string :: "nat \<Rightarrow> memory \<Rightarrow> memory"
  clear_stl :: "MEMBER \<Rightarrow> nat \<Rightarrow> memory \<Rightarrow> memory"

text \<open>The size by which \<open>offset\<close> is scaled, and which is set to zero.\<close>

definition nil_size :: "MEMBER \<Rightarrow> nat" where
  "nil_size A =
     (case at_type A of
        TRICK_CHARACTER \<Rightarrow> 1 | TRICK_UNSIGNED_CHARACTER \<Rightarrow> 1 | TRICK_BOOLEAN \<Rightarrow> 1 | TRICK_WCHAR \<Rightarrow> 4
      | TRICK_SHORT \<Rightarrow> 2 | TRICK_UNSIGNED_SHORT \<Rightarrow> 2 | TRICK_INTEGER \<Rightarrow> 4 | TRICK_UNSIGNED_INTEGER \<Rightarrow> 4
      | TRICK_ENUMERATED \<Rightarrow> (if at_size A \<in> {1, 2, 4} then at_size A else 0)
      | TRICK_LONG \<Rightarrow> 8 | TRICK_UNSIGNED_LONG \<Rightarrow> 8 | TRICK_FLOAT \<Rightarrow> 4 | TRICK_DOUBLE \<Rightarrow> 8
      | TRICK_LONG_LONG \<Rightarrow> 8 | TRICK_UNSIGNED_LONG_LONG \<Rightarrow> 8 | TRICK_FILE_PTR \<Rightarrow> 8
      | _ \<Rightarrow> 0)"

definition clear_single :: "clear_env \<Rightarrow> nat \<Rightarrow> MEMBER \<Rightarrow> int \<Rightarrow> memory \<Rightarrow> memory" where
  "clear_single env base A offset m =
     (let at_elem = (\<lambda>n. int_address base (offset * int n))
      in if at_type A = TRICK_BITFIELD \<or> at_type A = TRICK_UNSIGNED_BITFIELD
         then clear_bits (clear_big_endian env) (at_elem (at_size A)) A m
         else if at_type A = TRICK_STRING then clear_string env (at_elem 32) m
         else if at_type A = TRICK_STL then clear_stl env A (at_elem (at_size A)) m
         else zero_at (at_elem (nil_size A)) (nil_size A) m)"

text \<open>One call: the calls it makes, in order, and the memory it leaves. A pointer is cleared at the base address.\<close>

definition clear_one :: "clear_env \<Rightarrow> tables \<Rightarrow> clearing \<Rightarrow> memory \<Rightarrow> clearing list \<times> memory" where
  "clear_one env tb c m =
     (case c of
        Clear_class address t \<Rightarrow>
          (if t = 0 then []
           else map (\<lambda>A. let elem_addr = member_address address A
                         in if at_type A = TRICK_STRUCTURED
                            then if at_num_index A \<noteq> 0 then Clear_arrayed_class elem_addr A 0 0
                                 else Clear_class elem_addr (at_attr A)
                            else Clear_rvalue elem_addr A 0 0)
                  (filter input_perm_check (tb t)), m)
      | Clear_arrayed_class address A curr_dim offset \<Rightarrow>
          (if extent A curr_dim = 0 then [Clear_rvalue address A curr_dim offset]
           else map (\<lambda>ii. if int curr_dim < at_num_index A - 1
                          then Clear_arrayed_class address A (curr_dim + 1) (offset * extent A curr_dim + int ii)
                          else Clear_class (int_address address ((offset * extent A curr_dim + int ii) * int (at_size A))) (at_attr A))
                  [0..<nat (extent A curr_dim)], m)
      | Clear_rvalue base A curr_dim offset \<Rightarrow>
          (let remaining_dimensions = at_num_index A - int curr_dim
           in if remaining_dimensions = 0 then ([], clear_single env base A offset m)
              else if 0 < remaining_dimensions then
                (if extent A curr_dim = 0 then ([], zero_at base 8 m)
                 else (map (\<lambda>ii. Clear_rvalue base A (curr_dim + 1) (offset * extent A curr_dim + int ii))
                         [0..<nat (extent A curr_dim)], m))
              else ([], m)))"

partial_function (option) clear_all :: "clear_env \<Rightarrow> tables \<Rightarrow> clearing list \<Rightarrow> memory \<Rightarrow> memory option" where
  "clear_all env tb cs m =
     (case cs of
        [] \<Rightarrow> Some m
      | c # rest \<Rightarrow> (case clear_one env tb c m of (calls, m1) \<Rightarrow> clear_all env tb (calls @ rest) m1))"

definition clear_var_critical_section :: "clear_env \<Rightarrow> tables \<Rightarrow> nat \<Rightarrow> MM \<Rightarrow> MM option" where
  "clear_var_critical_section env tb address s =
     (case get_alloc_info_at address s of
        None \<Rightarrow> Some s
      | Some p \<Rightarrow>
          (let i = mm_info s p;
               call = (if ai_type i = TRICK_STRUCTURED
                       then if ai_index i \<noteq> [] then Clear_arrayed_class (ai_start i) (make_reference_attr i) 0 0
                            else Clear_class (ai_start i) (ai_attr i)
                       else Clear_rvalue (ai_start i) (make_reference_attr i) 0 0)
           in map_option (\<lambda>m. s\<lparr>mm_mem := m\<rparr>) (clear_all env tb [call] (mm_mem s))))"

definition clear_var :: "clear_env \<Rightarrow> tables \<Rightarrow> nat \<Rightarrow> MM \<Rightarrow> MM option" where
  "clear_var env tb address s = clear_var_critical_section env tb address s"

definition clear_var_name :: "clear_env \<Rightarrow> tables \<Rightarrow> string \<Rightarrow> MM \<Rightarrow> MM option" where
  "clear_var_name env tb name s =
     (case mm_variable_map s name of
        None \<Rightarrow> Some s
      | Some p \<Rightarrow> clear_var_critical_section env tb (ai_start (mm_info s p)) s)"

fun clear_vars :: "clear_env \<Rightarrow> tables \<Rightarrow> nat list \<Rightarrow> MM \<Rightarrow> MM option" where
  "clear_vars env tb [] s = Some s"
| "clear_vars env tb (a # as) s = Option.bind (clear_var_critical_section env tb a s) (clear_vars env tb as)"

definition clear_all_vars :: "clear_env \<Rightarrow> tables \<Rightarrow> MM \<Rightarrow> MM option" where
  "clear_all_vars env tb s = clear_vars env tb (map (\<lambda>(b, p). ai_start (mm_info s p)) (mm_alloc_info_map s)) s"

end
