(* ===== verification/MemoryDeps.thy ===== *)
theory MemoryDeps
  imports PropsMemory MemoryScan
begin

text \<open>
  The search for the allocations a variable depends on finds those that can be reached over pointers, each
  once; it ends when no class contains itself.
\<close>

subsection \<open>What a walk leads to\<close>

text \<open>The allocations a walk comes to before it goes into another allocation.\<close>

inductive leads_to :: "bool \<Rightarrow> tables \<Rightarrow> MM \<Rightarrow> scan \<Rightarrow> nat \<Rightarrow> bool" for be tb s where
  arrived: "leads_to be tb s (In_allocation p) p"
| through: "w \<noteq> In_allocation q \<Longrightarrow> (\<forall>r. w \<noteq> In_allocation r) \<Longrightarrow> w' \<in> set (walks_of be tb s w) \<Longrightarrow> leads_to be tb s w' p \<Longrightarrow> leads_to be tb s w p"

inductive_simps leads_to_allocation: "leads_to be tb s (In_allocation p) q"

definition walks_into :: "bool \<Rightarrow> tables \<Rightarrow> MM \<Rightarrow> nat \<Rightarrow> nat \<Rightarrow> bool" where
  "walks_into be tb s p q \<longleftrightarrow> (\<exists>w \<in> set (walks_of be tb s (In_allocation p)). leads_to be tb s w q)"

definition walk_depends :: "bool \<Rightarrow> tables \<Rightarrow> MM \<Rightarrow> nat \<Rightarrow> nat \<Rightarrow> bool" where
  "walk_depends be tb s = (walks_into be tb s)\<^sup>*\<^sup>*"

lemma leads_to_inner: "(\<forall>r. w \<noteq> In_allocation r) \<Longrightarrow> leads_to be tb s w q \<longleftrightarrow> (\<exists>w' \<in> set (walks_of be tb s w). leads_to be tb s w' q)"
  by (auto elim: leads_to.cases intro: leads_to.intros)

text \<open>The result of the search from a list of walks.\<close>

definition search_ok :: "bool \<Rightarrow> tables \<Rightarrow> MM \<Rightarrow> scan list \<Rightarrow> nat list \<Rightarrow> nat list \<Rightarrow> bool" where
  "search_ok be tb s ws deps r \<longleftrightarrow>
     (\<exists>l. r = deps @ l) \<and> (distinct deps \<longrightarrow> distinct r) \<and>
     (\<forall>w \<in> set ws. \<forall>q. leads_to be tb s w q \<longrightarrow> q \<in> set r) \<and>
     (\<forall>p \<in> set r - set deps. (\<forall>q. walks_into be tb s p q \<longrightarrow> q \<in> set r) \<and>
        (\<exists>w \<in> set ws. \<exists>q. leads_to be tb s w q \<and> walk_depends be tb s q p))"

lemma search_ok_Nil: "search_ok be tb s [] deps deps"
  by (auto simp: search_ok_def)

lemma search_okD:
  assumes "search_ok be tb s ws deps r"
  shows "w \<in> set ws \<Longrightarrow> leads_to be tb s w q \<Longrightarrow> q \<in> set r"
    and "p \<in> set r \<Longrightarrow> p \<notin> set deps \<Longrightarrow> walks_into be tb s p q \<Longrightarrow> q \<in> set r"
    and "p \<in> set r \<Longrightarrow> p \<notin> set deps \<Longrightarrow> \<exists>w q. w \<in> set ws \<and> leads_to be tb s w q \<and> walk_depends be tb s q p"
    and "\<exists>l. r = deps @ l" and "distinct deps \<Longrightarrow> distinct r"
  using assms unfolding search_ok_def by blast+

lemma search_okI:
  assumes "\<exists>l. r = deps @ l" and "distinct deps \<Longrightarrow> distinct r"
    and "\<And>w q. w \<in> set ws \<Longrightarrow> leads_to be tb s w q \<Longrightarrow> q \<in> set r"
    and "\<And>p q. p \<in> set r \<Longrightarrow> p \<notin> set deps \<Longrightarrow> walks_into be tb s p q \<Longrightarrow> q \<in> set r"
    and "\<And>p. p \<in> set r \<Longrightarrow> p \<notin> set deps \<Longrightarrow> \<exists>w q. w \<in> set ws \<and> leads_to be tb s w q \<and> walk_depends be tb s q p"
  shows "search_ok be tb s ws deps r"
  using assms unfolding search_ok_def by blast

lemma search_ok_seen: "p \<in> set deps \<Longrightarrow> search_ok be tb s ws deps r \<Longrightarrow> search_ok be tb s (In_allocation p # ws) deps r"
  by (auto simp: search_ok_def leads_to_allocation)

lemma search_ok_inner:
  assumes "\<forall>p. w \<noteq> In_allocation p" and "search_ok be tb s (walks_of be tb s w @ ws) deps r"
  shows "search_ok be tb s (w # ws) deps r"
  using assms(2) leads_to_inner [OF assms(1), of be tb s] unfolding search_ok_def by simp blast

lemma search_ok_new:
  assumes "p \<notin> set deps" and "search_ok be tb s (walks_of be tb s (In_allocation p) @ ws) (deps @ [p]) r"
  shows "search_ok be tb s (In_allocation p # ws) deps r"
proof (rule search_okI)
  note ok = search_okD [OF assms(2)]
  obtain l where l: "r = deps @ p # l" using ok(4) by auto
  show "\<exists>l. r = deps @ l" using l by blast
  show "distinct r" if "distinct deps" using ok(5) that assms(1) by simp
  show "q \<in> set r" if "w \<in> set (In_allocation p # ws)" "leads_to be tb s w q" for w q
    using that ok(1) [of w q] l by (auto simp: leads_to_allocation)
  show "q \<in> set r" if "x \<in> set r" "x \<notin> set deps" "walks_into be tb s x q" for x q
  proof (cases "x = p")
    case True
    then show ?thesis using that(3) ok(1) unfolding walks_into_def by auto
  qed (use ok(2) that in simp)
  show "\<exists>w q. w \<in> set (In_allocation p # ws) \<and> leads_to be tb s w q \<and> walk_depends be tb s q x"
    if "x \<in> set r" "x \<notin> set deps" for x
  proof (cases "x = p")
    case True
    then show ?thesis by (intro exI [of _ "In_allocation p"] exI [of _ p]) (simp add: leads_to_allocation walk_depends_def)
  next
    case False
    then obtain w q where w: "w \<in> set (walks_of be tb s (In_allocation p) @ ws)" "leads_to be tb s w q" "walk_depends be tb s q x"
      using ok(3) [of x] \<open>x \<in> set r\<close> \<open>x \<notin> set deps\<close> by auto
    show ?thesis
    proof (cases "w \<in> set ws")
      case False
      then have "walks_into be tb s p q" using w(1,2) by (auto simp: walks_into_def)
      then have "walk_depends be tb s p x" using w(3) unfolding walk_depends_def by (rule converse_rtranclp_into_rtranclp)
      then show ?thesis by (intro exI [of _ "In_allocation p"] exI [of _ p]) (simp add: leads_to_allocation)
    qed (use w in auto)
  qed
qed

lemma search_result: "get_alloc_deps be tb s ws deps = Some r \<Longrightarrow> search_ok be tb s ws deps r"
proof (induction be tb s ws deps r rule: get_alloc_deps.raw_induct [rotated 1, consumes 1])
  case (1 f be tb s ws deps r)
  show ?case
  proof (cases ws)
    case [simp]: (Cons w rest)
    show ?thesis
    proof (cases w)
      case (In_allocation p)
      then show ?thesis using 1 by (auto split: if_splits intro: search_ok_seen search_ok_new)
    qed (use 1 in \<open>auto intro!: search_ok_inner\<close>)
  qed (use 1(2) in \<open>simp add: search_ok_Nil\<close>)
qed

lemma search_finds:
  assumes "get_alloc_deps_in_allocation be tb s p [] = Some deps"
  shows "distinct deps \<and> (\<forall>q. q \<in> set deps \<longleftrightarrow> walk_depends be tb s p q)"
proof -
  have "search_ok be tb s [In_allocation p] [] deps"
    using assms search_result unfolding get_alloc_deps_in_allocation_def by blast
  note ok = search_okD [OF this]
  have p: "p \<in> set deps" using ok(1) [of "In_allocation p" p] by (simp add: leads_to_allocation)
  have "q \<in> set deps" if "walk_depends be tb s p q" for q
    using that unfolding walk_depends_def by (induction rule: rtranclp_induct) (use p ok(2) in auto)
  moreover have "walk_depends be tb s p q" if "q \<in> set deps" for q
    using ok(3) [OF that] by (auto simp: leads_to_allocation)
  ultimately show ?thesis using ok(5) by auto
qed

subsection \<open>The pointers of an object\<close>

text \<open>
  Where the pointers of a variable are, by the layout of C++, whatever the search does. The extents of a member or an
  allocation are its fixed dimensions, with zeros for the levels of pointers: an array of pointers has as many, side by
  side, as its fixed dimensions make, and an array of objects as many objects, each at a multiple of their size.
  A pointer is in an object when it is a member, or is in an object that is a member by value. Only members that go
  into a checkpoint count (bit 2 of \<open>io\<close>), and a static member is at its own address (bit 1 of \<open>mods\<close>).
\<close>

definition elements :: "int list \<Rightarrow> nat" where
  "elements extents = prod_list (map nat (takeWhile (\<lambda>n. n \<noteq> 0) extents))"

definition member_place :: "nat \<Rightarrow> MEMBER \<Rightarrow> nat" where
  "member_place a A = nat (at_offset A + (if bit (at_mods A) 1 then 0 else int a))"

inductive pointer_in_class :: "tables \<Rightarrow> nat \<Rightarrow> nat \<Rightarrow> nat \<Rightarrow> bool" for tb where
  pointer_member: "t \<noteq> 0 \<Longrightarrow> A \<in> set (tb t) \<Longrightarrow> bit (at_io A) 2 \<Longrightarrow> 0 \<in> set (at_index A) \<Longrightarrow> j < elements (at_index A) \<Longrightarrow>
    pointer_in_class tb t a (member_place a A + 8 * j)"
| member_object: "t \<noteq> 0 \<Longrightarrow> A \<in> set (tb t) \<Longrightarrow> bit (at_io A) 2 \<Longrightarrow> at_type A = TRICK_STRUCTURED \<Longrightarrow> 0 \<notin> set (at_index A) \<Longrightarrow>
    j < elements (at_index A) \<Longrightarrow> pointer_in_class tb (at_attr A) (member_place a A + j * at_size A) x \<Longrightarrow>
    pointer_in_class tb t a x"

definition pointer_in :: "tables \<Rightarrow> ALLOC_INFO \<Rightarrow> nat \<Rightarrow> bool" where
  "pointer_in tb i x \<longleftrightarrow>
     (if 0 \<in> set (ai_index i) then \<exists>j < elements (ai_index i). x = ai_start i + 8 * j
      else ai_type i = TRICK_STRUCTURED \<and>
        (\<exists>j < elements (ai_index i). pointer_in_class tb (ai_attr i) (ai_start i + j * nat (ai_size i)) x))"

text \<open>The pointer at \<open>x\<close> is not null and is the address of a byte of the allocation \<open>q\<close>.\<close>

definition points_to :: "bool \<Rightarrow> MM \<Rightarrow> nat \<Rightarrow> nat \<Rightarrow> bool" where
  "points_to be s x q \<longleftrightarrow>
     (let a = load_pointer be (mm_mem s) x
      in a \<noteq> 0 \<and> q \<in> records s \<and> ai_start (mm_info s q) \<le> a \<and> int a \<le> ai_end (mm_info s q))"

definition depends_on :: "bool \<Rightarrow> tables \<Rightarrow> MM \<Rightarrow> nat \<Rightarrow> nat \<Rightarrow> bool" where
  "depends_on be tb s = (\<lambda>p q. \<exists>x. pointer_in tb (mm_info s p) x \<and> points_to be s x q)\<^sup>*\<^sup>*"

text \<open>
  \<open>num_index\<close> is the number of extents, and arrays of objects have one dimension: for more, the code computes the
  address of the objects by the number of the dimension instead of its extent.
\<close>

definition simple_array :: "TRICK_TYPE \<Rightarrow> int \<Rightarrow> int list \<Rightarrow> bool" where
  "simple_array t n extents \<longleftrightarrow>
     n = int (length extents) \<and> (t = TRICK_STRUCTURED \<and> 0 \<notin> set extents \<longrightarrow> length extents \<le> 1)"

definition simple_arrays :: "tables \<Rightarrow> MM \<Rightarrow> bool" where
  "simple_arrays tb s \<longleftrightarrow>
     (\<forall>t. \<forall>A \<in> set (tb t). simple_array (at_type A) (at_num_index A) (at_index A)) \<and>
     (\<forall>p \<in> records s. simple_array (ai_type (mm_info s p)) (int (length (ai_index (mm_info s p)))) (ai_index (mm_info s p)))"

text \<open>The walks whose meaning is known.\<close>

definition walk_ok :: "scan \<Rightarrow> bool" where
  "walk_ok w =
     (case w of
        In_allocation p \<Rightarrow> True
      | In_class a t \<Rightarrow> True
      | In_arrayed_class a A k n \<Rightarrow> 0 \<le> n \<and> simple_array (at_type A) (at_num_index A) (at_index A) \<and> at_type A = TRICK_STRUCTURED \<and>
          at_index A \<noteq> [] \<and> (0 \<notin> set (drop k (at_index A)) \<longrightarrow> k = 0 \<and> n = 0)
      | In_intrinsic a A k n \<Rightarrow> 0 \<le> n \<and> simple_array (at_type A) (at_num_index A) (at_index A) \<and> k \<le> length (at_index A))"

text \<open>The addresses of the pointers a walk looks at, itself or through the walks it makes.\<close>

definition pointers_from :: "nat \<Rightarrow> int list \<Rightarrow> int \<Rightarrow> nat \<Rightarrow> bool" where
  "pointers_from a extents n x \<longleftrightarrow>
     0 \<in> set extents \<and> (\<exists>j < elements extents. x = a + 8 * (nat n * elements extents + j))"

definition looks_at :: "tables \<Rightarrow> scan \<Rightarrow> nat \<Rightarrow> bool" where
  "looks_at tb w x =
     (case w of
        In_allocation p \<Rightarrow> False
      | In_class a t \<Rightarrow> pointer_in_class tb t a x
      | In_arrayed_class a A k n \<Rightarrow>
          pointers_from a (drop k (at_index A)) n x \<or>
          0 \<notin> set (at_index A) \<and> (\<exists>j < elements (at_index A). pointer_in_class tb (at_attr A) (a + j * at_size A) x)
      | In_intrinsic a A k n \<Rightarrow> pointers_from a (drop k (at_index A)) n x)"

lemma elements_simps [simp]:
  "elements [] = 1" "elements (0 # l) = 1" "n \<noteq> 0 \<Longrightarrow> elements (n # l) = nat n * elements l"
  by (simp_all add: elements_def)

lemma pointers_from_end: "pointers_from a (0 # l) n x \<longleftrightarrow> x = a + 8 * nat n"
  by (simp add: pointers_from_def)

lemma pointers_from_step:
  assumes "0 \<le> n" and "e \<noteq> 0"
  shows "pointers_from a (e # l) n x \<longleftrightarrow> (\<exists>i < nat e. pointers_from a l (n * e + int i) x)"
proof (cases "0 < e")
  case True
  have m: "nat (n * e + int i) = nat n * nat e + i" for i
    using assms(1) True by (simp add: nat_add_distrib nat_mult_distrib)
  show ?thesis
  proof
    assume "pointers_from a (e # l) n x"
    then obtain j where j: "0 \<in> set l" "j < nat e * elements l" "x = a + 8 * (nat n * (nat e * elements l) + j)"
      using assms(2) by (auto simp: pointers_from_def)
    have p: "0 < elements l" using j(2) by (cases "elements l") auto
    then have "j div elements l < nat e" "j mod elements l < elements l"
      using j(2) by (simp_all add: less_mult_imp_div_less)
    moreover have "nat n * (nat e * elements l) + j = (nat n * nat e + j div elements l) * elements l + j mod elements l"
      by (simp add: algebra_simps)
    ultimately show "\<exists>i < nat e. pointers_from a l (n * e + int i) x"
      using j(1,3) unfolding pointers_from_def m by metis
  next
    assume "\<exists>i < nat e. pointers_from a l (n * e + int i) x"
    then obtain i j where i: "i < nat e" "0 \<in> set l" "j < elements l" "x = a + 8 * ((nat n * nat e + i) * elements l + j)"
      unfolding pointers_from_def m by blast
    have "i * elements l + j < nat e * elements l"
      using i(1,3) by (metis add_mult_distrib2 less_le_trans mult.commute mult_le_mono1 nat_add_left_cancel_less Suc_leI mult_Suc add.commute)
    moreover have "(nat n * nat e + i) * elements l + j = nat n * (nat e * elements l) + (i * elements l + j)"
      by (simp add: algebra_simps)
    ultimately show "pointers_from a (e # l) n x"
      using i(2,4) assms(2) unfolding pointers_from_def by (metis elements_simps(3) list.set_intros(2))
  qed
qed (use assms in \<open>simp add: pointers_from_def\<close>)

lemma member_place_address: "member_place a A = member_address a A"
  by (simp add: member_place_def member_address_def add.commute)

lemma pointed_to_allocation:
  assumes "mm_ok {} s"
  shows "w \<in> set (pointed_to be s a) \<longleftrightarrow> (\<exists>q. w = In_allocation q \<and> points_to be s a q)"
  unfolding points_to_def Let_def get_alloc_info_of_iff [OF assms, symmetric]
  by (auto simp: pointed_to_def Let_def split: option.splits)

definition reaches :: "bool \<Rightarrow> tables \<Rightarrow> MM \<Rightarrow> scan \<Rightarrow> nat \<Rightarrow> bool" where
  "reaches be tb s w q \<longleftrightarrow> w = In_allocation q \<or> (\<exists>x. looks_at tb w x \<and> points_to be s x q)"

lemma intrinsic_reaches:
  assumes "mm_ok {} s" and "walk_ok (In_intrinsic a A k n)" and "w' \<in> set (walks_of be tb s (In_intrinsic a A k n))"
    and "reaches be tb s w' q"
  shows "reaches be tb s (In_intrinsic a A k n) q"
proof -
  have ok: "0 \<le> n" "at_num_index A = int (length (at_index A))" "k < length (at_index A)"
    using assms(2,3) by (auto simp: walk_ok_def simple_array_def walks_of_def split: if_splits)
  then have d: "drop k (at_index A) = extent A k # drop (Suc k) (at_index A)" by (simp add: extent_def Cons_nth_drop_Suc)
  show ?thesis
  proof (cases "extent A k = 0")
    case True
    then have "w' \<in> set (pointed_to be s (a + 8 * nat n))"
      using assms(3) ok by (simp add: walks_of_def int_address_def nat_add_distrib nat_mult_distrib mult.commute)
    then show ?thesis
      using assms(4) True by (auto simp: pointed_to_allocation [OF assms(1)] reaches_def looks_at_def d pointers_from_end)
  next
    case False
    then obtain i where i: "i < nat (extent A k)" "w' = In_intrinsic a A (Suc k) (n * extent A k + int i)"
      using assms(3) ok by (auto simp: walks_of_def)
    then show ?thesis
      using assms(4) by (auto simp: reaches_def looks_at_def d pointers_from_step [OF ok(1) False])
  qed
qed

lemma arrayed_reaches:
  assumes "mm_ok {} s" and "walk_ok (In_arrayed_class a A k n)" and "w' \<in> set (walks_of be tb s (In_arrayed_class a A k n))"
    and "reaches be tb s w' q"
  shows "reaches be tb s (In_arrayed_class a A k n) q"
proof -
  have ok: "0 \<le> n" "at_num_index A = int (length (at_index A))" "at_type A = TRICK_STRUCTURED" "at_index A \<noteq> []"
    using assms(2) by (auto simp: walk_ok_def simple_array_def)
  show ?thesis
  proof (cases "0 \<in> set (drop k (at_index A))")
    case True
    then have "k < length (at_index A)" by (metis drop_eq_Nil2 empty_iff empty_set not_le)
    then have d: "drop k (at_index A) = extent A k # drop (Suc k) (at_index A)" by (simp add: extent_def Cons_nth_drop_Suc)
    show ?thesis
    proof (cases "extent A k = 0")
      case True
      then have "w' \<in> set (pointed_to be s (a + 8 * nat n))"
        using assms(3) ok by (simp add: walks_of_def int_address_def nat_add_distrib nat_mult_distrib mult.commute)
      then show ?thesis
        using assms(4) True by (auto simp: pointed_to_allocation [OF assms(1)] reaches_def looks_at_def d pointers_from_end)
    next
      case False
      then have z: "0 \<in> set (drop (Suc k) (at_index A))" using True d by simp
      then have "Suc k < length (at_index A)" by (metis drop_eq_Nil2 empty_iff empty_set not_le)
      then obtain i where i: "i < nat (extent A k)" "w' = In_arrayed_class a A (Suc k) (n * extent A k + int i)"
        using assms(3) ok False by (auto simp: walks_of_def)
      moreover have "0 \<in> set (at_index A)" using z by (meson in_set_dropD)
      ultimately show ?thesis
        using assms(4) by (auto simp: reaches_def looks_at_def d pointers_from_step [OF ok(1) False])
    qed
  next
    case False
    then have k: "k = 0" "n = 0" using assms(2) by (simp_all add: walk_ok_def)
    then obtain e where e: "at_index A = [e]" "e \<noteq> 0"
      using False assms(2) ok(4) by (cases "at_index A") (auto simp: walk_ok_def simple_array_def)
    then obtain i where "i < nat e" "w' = In_class (a + i * at_size A) (at_attr A)"
      using assms(3) k ok by (auto simp: walks_of_def extent_def int_address_def nat_add_distrib nat_mult_distrib)
    then show ?thesis using assms(4) e k by (auto simp: reaches_def looks_at_def)
  qed
qed

lemma class_reaches:
  assumes "simple_arrays tb s" and "w' \<in> set (walks_of be tb s (In_class a t))" and "reaches be tb s w' q"
  shows "reaches be tb s (In_class a t) q"
proof -
  obtain A where t: "t \<noteq> 0" and A: "A \<in> set (tb t)" "bit (at_io A) 2" and w': "w' = member_walk a A"
    using assms(2) by (auto simp: walks_of_def output_perm_check_def split: if_splits)
  have simple: "simple_array (at_type A) (at_num_index A) (at_index A)" using assms(1) A(1) by (simp add: simple_arrays_def)
  obtain x where x: "looks_at tb w' x" "points_to be s x q"
    using assms(3) w' by (auto simp: reaches_def member_walk_def Let_def split: if_splits)
  have "pointer_in_class tb t a x"
  proof (cases "0 \<in> set (at_index A)")
    case True
    then have "pointers_from (member_place a A) (at_index A) 0 x"
      using x(1) simple unfolding w'
      by (auto simp: member_walk_def Let_def looks_at_def member_place_address simple_array_def split: if_splits)
    then show ?thesis using pointer_member [of t A tb, OF t A] by (auto simp: pointers_from_def)
  next
    case False
    then have "at_type A = TRICK_STRUCTURED \<and> (\<exists>j < elements (at_index A). pointer_in_class tb (at_attr A) (member_place a A + j * at_size A) x)"
      using x(1) simple unfolding w'
      by (auto simp: member_walk_def Let_def looks_at_def member_place_address simple_array_def pointers_from_def split: if_splits)
    then show ?thesis using member_object [of t A tb, OF t A] False by blast
  qed
  then show ?thesis using x(2) by (auto simp: reaches_def looks_at_def)
qed

lemma walks_ok:
  assumes "simple_arrays tb s" and "walk_ok w" and "\<forall>p. w \<noteq> In_allocation p" and "w' \<in> set (walks_of be tb s w)" and "mm_ok {} s"
  shows "walk_ok w'"
proof (cases w)
  case (In_class a t)
  then obtain A where A: "A \<in> set (tb t)" "w' = member_walk a A" using assms(4) by (auto simp: walks_of_def split: if_splits)
  then have "simple_array (at_type A) (at_num_index A) (at_index A)" using assms(1) by (simp add: simple_arrays_def)
  then show ?thesis by (auto simp: A(2) member_walk_def Let_def walk_ok_def simple_array_def)
next
  case (In_arrayed_class a A k n)
  have pos: "0 \<le> n * extent A k + int i" if "i < nat (extent A k)" for i
    using that assms(2) In_arrayed_class by (auto simp: walk_ok_def)
  have rest: "0 \<in> set (drop (Suc k) (at_index A))" if "int k < at_num_index A - 1" "extent A k \<noteq> 0"
  proof -
    have "drop k (at_index A) = extent A k # drop (Suc k) (at_index A)"
      using that(1) assms(2) In_arrayed_class by (simp add: walk_ok_def simple_array_def extent_def Cons_nth_drop_Suc)
    moreover have "0 \<in> set (drop k (at_index A))"
    proof (rule ccontr)
      assume "0 \<notin> set (drop k (at_index A))"
      then show False using that(1) assms(2) In_arrayed_class by (auto simp: walk_ok_def simple_array_def)
    qed
    ultimately show ?thesis using that(2) by simp
  qed
  show ?thesis
    using assms(2,4) pos rest In_arrayed_class
    by (auto simp: walks_of_def walk_ok_def pointed_to_allocation [OF assms(5)] split: if_splits)
next
  case (In_intrinsic a A k n)
  have "0 \<le> n * extent A k + int i" if "i < nat (extent A k)" for i
    using that assms(2) In_intrinsic by (auto simp: walk_ok_def)
  then show ?thesis
    using assms(2,4) In_intrinsic
    by (auto simp: walks_of_def walk_ok_def pointed_to_allocation [OF assms(5)] simple_array_def split: if_splits)
qed (use assms(3) in simp)

lemma leads_through:
  "\<forall>r. w \<noteq> In_allocation r \<Longrightarrow> w' \<in> set (walks_of be tb s w) \<Longrightarrow> leads_to be tb s w' q \<Longrightarrow> leads_to be tb s w q"
  using leads_to_inner by blast

lemma leads_reaches:
  assumes "mm_ok {} s" and "simple_arrays tb s"
  shows "leads_to be tb s w q \<Longrightarrow> walk_ok w \<Longrightarrow> reaches be tb s w q"
proof (induction rule: leads_to.induct)
  case (through w q' w' p)
  have "reaches be tb s w' p" using through walks_ok [OF assms(2) _ _ _ assms(1)] by blast
  then show ?case
    using through.hyps through.prems intrinsic_reaches [OF assms(1), of _ _ _ _ w' be tb p]
      arrayed_reaches [OF assms(1), of _ _ _ _ w' be tb p] class_reaches [OF assms(2), of w' be _ _ p]
    by (cases w) (use through.hyps through.prems in auto)
qed (simp add: reaches_def)

lemma intrinsic_leads:
  assumes "mm_ok {} s" and "points_to be s x q" and "at_num_index A = int (length (at_index A))"
  shows "0 \<le> n \<Longrightarrow> pointers_from a (drop k (at_index A)) n x \<Longrightarrow> leads_to be tb s (In_intrinsic a A k n) q"
proof (induction "length (at_index A) - k" arbitrary: k n rule: less_induct)
  case less
  have k: "k < length (at_index A)" using less.prems(2) by (cases "k < length (at_index A)") (auto simp: pointers_from_def)
  then have d: "drop k (at_index A) = extent A k # drop (Suc k) (at_index A)" by (simp add: extent_def Cons_nth_drop_Suc)
  show ?case
  proof (cases "extent A k = 0")
    case True
    then have "x = a + 8 * nat n" using less.prems(2) by (simp add: d pointers_from_end)
    then have "In_allocation q \<in> set (walks_of be tb s (In_intrinsic a A k n))"
      using True k assms(2,3) less.prems(1)
      by (simp add: walks_of_def pointed_to_allocation [OF assms(1)] int_address_def nat_add_distrib nat_mult_distrib mult.commute)
    then show ?thesis by (rule leads_through [rotated]) (simp_all add: leads_to_allocation)
  next
    case False
    then obtain i where i: "i < nat (extent A k)" "pointers_from a (drop (Suc k) (at_index A)) (n * extent A k + int i) x"
      using less.prems by (auto simp: d pointers_from_step)
    then have "leads_to be tb s (In_intrinsic a A (Suc k) (n * extent A k + int i)) q"
      using k less.prems(1) by (intro less.hyps) auto
    moreover have "In_intrinsic a A (Suc k) (n * extent A k + int i) \<in> set (walks_of be tb s (In_intrinsic a A k n))"
      using False k i(1) assms(3) by (simp add: walks_of_def)
    ultimately show ?thesis by (subst leads_to_inner) auto
  qed
qed

lemma arrayed_leads:
  assumes "mm_ok {} s" and "points_to be s x q" and "at_num_index A = int (length (at_index A))"
  shows "0 \<le> n \<Longrightarrow> pointers_from a (drop k (at_index A)) n x \<Longrightarrow> leads_to be tb s (In_arrayed_class a A k n) q"
proof (induction "length (at_index A) - k" arbitrary: k n rule: less_induct)
  case less
  have k: "k < length (at_index A)" using less.prems(2) by (cases "k < length (at_index A)") (auto simp: pointers_from_def)
  then have d: "drop k (at_index A) = extent A k # drop (Suc k) (at_index A)" by (simp add: extent_def Cons_nth_drop_Suc)
  show ?case
  proof (cases "extent A k = 0")
    case True
    then have "x = a + 8 * nat n" using less.prems(2) by (simp add: d pointers_from_end)
    then have "In_allocation q \<in> set (walks_of be tb s (In_arrayed_class a A k n))"
      using True assms(2) less.prems(1)
      by (simp add: walks_of_def pointed_to_allocation [OF assms(1)] int_address_def nat_add_distrib nat_mult_distrib mult.commute)
    then show ?thesis by (rule leads_through [rotated]) (simp_all add: leads_to_allocation)
  next
    case False
    then obtain i where i: "i < nat (extent A k)" "pointers_from a (drop (Suc k) (at_index A)) (n * extent A k + int i) x"
      using less.prems by (auto simp: d pointers_from_step)
    then have "leads_to be tb s (In_arrayed_class a A (Suc k) (n * extent A k + int i)) q"
      using k less.prems(1) by (intro less.hyps) auto
    moreover have "Suc k < length (at_index A)"
      using i(2) by (metis drop_eq_Nil2 empty_iff empty_set not_le pointers_from_def)
    then have "In_arrayed_class a A (Suc k) (n * extent A k + int i) \<in> set (walks_of be tb s (In_arrayed_class a A k n))"
      using False k i(1) assms(3) by (simp add: walks_of_def)
    ultimately show ?thesis by (subst leads_to_inner) auto
  qed
qed

text \<open>One array of objects, or one object.\<close>

lemma objects_lead:
  assumes "simple_array (at_type A) (at_num_index A) (at_index A)" and "0 \<notin> set (at_index A)" and "at_type A = TRICK_STRUCTURED"
    and "j < elements (at_index A)" and "leads_to be tb s (In_class (a + j * at_size A) (at_attr A)) q"
  shows "leads_to be tb s (if at_num_index A \<noteq> 0 then In_arrayed_class a A 0 0 else In_class a (at_attr A)) q"
proof (cases "at_index A")
  case Nil
  then show ?thesis using assms by (simp add: simple_array_def)
next
  case (Cons e l)
  then have e: "at_index A = [e]" "e \<noteq> 0" "j < nat e" "at_num_index A = 1" using assms(1-4) by (auto simp: simple_array_def)
  then have "In_class (a + j * at_size A) (at_attr A) \<in> set (walks_of be tb s (In_arrayed_class a A 0 0))"
    by (auto simp: walks_of_def extent_def int_address_def nat_add_distrib nat_mult_distrib)
  then have "leads_to be tb s (In_arrayed_class a A 0 0) q" using assms(5) by (subst leads_to_inner) auto
  then show ?thesis using e(4) by simp
qed

lemma class_leads:
  assumes "mm_ok {} s" and "simple_arrays tb s"
  shows "pointer_in_class tb t a x \<Longrightarrow> points_to be s x q \<Longrightarrow> leads_to be tb s (In_class a t) q"
proof (induction rule: pointer_in_class.induct)
  case (pointer_member t A j a)
  have n: "at_num_index A = int (length (at_index A))" using assms(2) pointer_member(2) by (simp add: simple_arrays_def simple_array_def)
  have p: "pointers_from (member_place a A) (drop 0 (at_index A)) 0 (member_place a A + 8 * j)"
    using pointer_member by (auto simp: pointers_from_def)
  have "leads_to be tb s (member_walk a A) q"
    using intrinsic_leads [OF assms(1) pointer_member.prems n order_refl p] arrayed_leads [OF assms(1) pointer_member.prems n order_refl p]
      n pointer_member(4) by (auto simp: member_walk_def Let_def member_place_address)
  then show ?case using pointer_member(1-3) by (subst leads_to_inner) (auto simp: walks_of_def output_perm_check_def)
next
  case (member_object t A j a x)
  have "simple_array (at_type A) (at_num_index A) (at_index A)" using assms(2) member_object(2) by (simp add: simple_arrays_def)
  then have "leads_to be tb s (member_walk a A) q"
    using objects_lead [of A j be tb s "member_place a A" q] member_object by (simp add: member_walk_def Let_def member_place_address split: if_splits)
  then show ?case using member_object(1-3) by (subst leads_to_inner) (auto simp: walks_of_def output_perm_check_def)
qed

lemma walks_into_layout:
  assumes "mm_ok {} s" and "simple_arrays tb s" and "p \<in> records s"
  shows "walks_into be tb s p q \<longleftrightarrow> (\<exists>x. pointer_in tb (mm_info s p) x \<and> points_to be s x q)"
proof -
  let ?i = "mm_info s p" and ?A = "make_reference_attr (mm_info s p)"
  have A: "at_type ?A = ai_type ?i" "at_size ?A = nat (ai_size ?i)" "at_num_index ?A = int (length (ai_index ?i))"
      "at_index ?A = ai_index ?i" "at_attr ?A = ai_attr ?i"
    by (simp_all add: make_reference_attr_def)
  have simple: "simple_array (ai_type ?i) (int (length (ai_index ?i))) (ai_index ?i)"
    using assms(2,3) by (auto simp: simple_arrays_def)
  have into: "walks_into be tb s p q \<longleftrightarrow> leads_to be tb s (allocation_walk ?i) q"
    by (simp add: walks_into_def walks_of_def)
  show ?thesis
  proof
    assume "walks_into be tb s p q"
    moreover have "walk_ok (allocation_walk ?i)" using simple by (auto simp: allocation_walk_def walk_ok_def A simple_array_def)
    ultimately have "reaches be tb s (allocation_walk ?i) q" using into leads_reaches [OF assms(1,2)] by blast
    then obtain x where "looks_at tb (allocation_walk ?i) x" "points_to be s x q"
      by (auto simp: reaches_def allocation_walk_def split: if_splits)
    moreover have "pointer_in tb ?i x" if "looks_at tb (allocation_walk ?i) x" for x
      using that by (auto simp: allocation_walk_def looks_at_def A pointers_from_def pointer_in_def split: if_splits)
    ultimately show "\<exists>x. pointer_in tb ?i x \<and> points_to be s x q" by blast
  next
    assume "\<exists>x. pointer_in tb ?i x \<and> points_to be s x q"
    then obtain x where x: "pointer_in tb ?i x" "points_to be s x q" by blast
    show "walks_into be tb s p q"
    proof (cases "0 \<in> set (ai_index ?i)")
      case True
      then have "pointers_from (ai_start ?i) (drop 0 (at_index ?A)) 0 x" using x(1) by (simp add: pointer_in_def pointers_from_def A)
      moreover have "at_num_index ?A = int (length (at_index ?A))" by (simp add: A)
      ultimately show ?thesis
        using intrinsic_leads [OF assms(1) x(2), of ?A 0 "ai_start ?i" 0] arrayed_leads [OF assms(1) x(2), of ?A 0 "ai_start ?i" 0] True
        unfolding into by (auto simp: allocation_walk_def)
    next
      case False
      then obtain j where j: "ai_type ?i = TRICK_STRUCTURED" "j < elements (ai_index ?i)"
          "pointer_in_class tb (ai_attr ?i) (ai_start ?i + j * nat (ai_size ?i)) x"
        using x(1) by (auto simp: pointer_in_def)
      then have "leads_to be tb s (In_class (ai_start ?i + j * at_size ?A) (at_attr ?A)) q"
        using class_leads [OF assms(1,2)] x(2) by (simp add: A)
      from objects_lead [OF _ _ _ _ this] show ?thesis
        using simple j(1,2) False unfolding into by (auto simp: A allocation_walk_def split: if_splits)
    qed
  qed
qed

lemma walk_depends_layout:
  assumes "mm_ok {} s" and "simple_arrays tb s" and "p \<in> records s"
  shows "walk_depends be tb s p q \<longleftrightarrow> depends_on be tb s p q"
proof -
  let ?to = "\<lambda>p q. \<exists>x. pointer_in tb (mm_info s p) x \<and> points_to be s x q"
  have known: "r \<in> records s" if "points_to be s x r" for x r using that by (simp add: points_to_def Let_def)
  have "depends_on be tb s p q \<and> q \<in> records s" if "walk_depends be tb s p q"
    using that unfolding walk_depends_def
  proof (induction rule: rtranclp_induct)
    case (step q r)
    then have "?to q r" using walks_into_layout [OF assms(1,2)] by blast
    then show ?case using step.IH known unfolding depends_on_def by (metis (mono_tags, lifting) rtranclp.rtrancl_into_rtrancl)
  qed (use assms(3) in \<open>simp add: depends_on_def\<close>)
  moreover have "walk_depends be tb s p q \<and> q \<in> records s" if "depends_on be tb s p q"
    using that unfolding depends_on_def
  proof (induction rule: rtranclp_induct)
    case (step q r)
    then have "walks_into be tb s q r" using walks_into_layout [OF assms(1,2)] by blast
    then show ?case using step known unfolding walk_depends_def by (metis (no_types, lifting) rtranclp.rtrancl_into_rtrancl)
  qed (use assms(3) in \<open>simp add: walk_depends_def\<close>)
  ultimately show ?thesis by blast
qed

subsection \<open>The search ends\<close>

text \<open>A walk that comes to an end before it goes into another allocation.\<close>

inductive bounded_walk :: "bool \<Rightarrow> tables \<Rightarrow> MM \<Rightarrow> scan \<Rightarrow> bool" for be tb s where
  into_allocation: "bounded_walk be tb s (In_allocation p)"
| inner: "\<forall>p. w \<noteq> In_allocation p \<Longrightarrow> (\<And>w'. w' \<in> set (walks_of be tb s w) \<Longrightarrow> bounded_walk be tb s w') \<Longrightarrow> bounded_walk be tb s w"

definition known_only :: "MM \<Rightarrow> scan \<Rightarrow> bool" where
  "known_only s w \<longleftrightarrow> (\<forall>p. w = In_allocation p \<longrightarrow> p \<in> snd ` set (mm_alloc_info_map s))"

lemma lower_bound_in: "lower_bound a m = Some x \<Longrightarrow> x \<in> set m"
  by (metis find_Some_iff lower_bound_def nth_mem)

lemma pointed_to_known: "w \<in> set (pointed_to be s a) \<Longrightarrow> known_only s w"
  by (force simp: pointed_to_def Let_def known_only_def get_alloc_info_of_def dest: lower_bound_in split: if_splits option.splits)

lemma walks_known: "w' \<in> set (walks_of be tb s w) \<Longrightarrow> known_only s w'"
  by (auto simp: walks_of_def allocation_walk_def member_walk_def Let_def known_only_def [of s "In_class _ _"]
      known_only_def [of s "In_arrayed_class _ _ _ _"] known_only_def [of s "In_intrinsic _ _ _ _"]
      dest: pointed_to_known split: scan.splits if_splits)

lemma pointed_to_bounded: "w \<in> set (pointed_to be s a) \<Longrightarrow> bounded_walk be tb s w"
  by (auto simp: pointed_to_def Let_def intro: bounded_walk.into_allocation split: if_splits option.splits)

definition search_ends :: "bool \<Rightarrow> tables \<Rightarrow> MM \<Rightarrow> scan list \<Rightarrow> nat list \<Rightarrow> bool" where
  "search_ends be tb s ws deps \<longleftrightarrow> (\<exists>r. get_alloc_deps be tb s ws deps = Some r)"

lemma get_alloc_deps_Cons:
  "get_alloc_deps be tb s (w # ws) deps =
     (case w of
        In_allocation p \<Rightarrow>
          if p \<in> set deps then get_alloc_deps be tb s ws deps
          else get_alloc_deps be tb s (walks_of be tb s w @ ws) (deps @ [p])
      | _ \<Rightarrow> get_alloc_deps be tb s (walks_of be tb s w @ ws) deps)"
  by (subst get_alloc_deps.simps) simp

text \<open>
  The search through one walk ends, if what is left to be found has at most \<open>n\<close> elements, and the search of the
  rest ends, whatever is found on the way.
\<close>

definition walk_ends :: "bool \<Rightarrow> tables \<Rightarrow> MM \<Rightarrow> nat \<Rightarrow> scan \<Rightarrow> bool" where
  "walk_ends be tb s n w \<longleftrightarrow>
     (\<forall>ws deps. card (snd ` set (mm_alloc_info_map s) - set deps) \<le> n \<longrightarrow>
        (\<forall>d. set deps \<subseteq> set d \<longrightarrow> search_ends be tb s ws d) \<longrightarrow> search_ends be tb s (w # ws) deps)"

lemma card_rest: "set deps \<subseteq> set d \<Longrightarrow> card (snd ` set (mm_alloc_info_map s) - set d) \<le> card (snd ` set (mm_alloc_info_map s) - set deps)"
  by (rule card_mono) auto

lemma walks_end:
  assumes "\<And>w. w \<in> set l \<Longrightarrow> walk_ends be tb s n w" and "card (snd ` set (mm_alloc_info_map s) - set deps) \<le> n"
    and "\<And>d. set deps \<subseteq> set d \<Longrightarrow> search_ends be tb s ws d"
  shows "search_ends be tb s (l @ ws) deps"
  using assms
proof (induction l arbitrary: deps)
  case (Cons w l)
  have "search_ends be tb s (l @ ws) d" if "set deps \<subseteq> set d" for d
    using Cons.prems that card_rest [OF that, of s] by (intro Cons.IH) auto
  moreover have "walk_ends be tb s n w" using Cons.prems(1) by simp
  ultimately show ?case using Cons.prems(2) unfolding walk_ends_def by simp
qed simp

lemma bounded_walk_ends:
  assumes "\<And>w. bounded_walk be tb s w" and "known_only s w"
  shows "walk_ends be tb s n w"
  using assms(2)
proof (induction n arbitrary: w rule: less_induct)
  case (less n)
  show ?case
    using assms(1) [of w] less.prems
  proof (induction w rule: bounded_walk.induct)
    case (into_allocation p)
    let ?R = "snd ` set (mm_alloc_info_map s)"
    show ?case
      unfolding walk_ends_def
    proof (intro allI impI)
      fix ws deps
      assume n: "card (?R - set deps) \<le> n" and rest: "\<forall>d. set deps \<subseteq> set d \<longrightarrow> search_ends be tb s ws d"
      show "search_ends be tb s (In_allocation p # ws) deps"
      proof (cases "p \<in> set deps")
        case False
        have "p \<in> ?R" using into_allocation by (simp add: known_only_def)
        then have "card (?R - set (deps @ [p])) < card (?R - set deps)" using False by (intro psubset_card_mono) auto
        then have "walk_ends be tb s (card (?R - set (deps @ [p]))) w" if "w \<in> set (walks_of be tb s (In_allocation p))" for w
          using less.IH n walks_known [OF that] by simp
        then have "search_ends be tb s (walks_of be tb s (In_allocation p) @ ws) (deps @ [p])"
          using rest by (intro walks_end [OF _ order_refl]) auto
        then show ?thesis using False by (simp add: search_ends_def get_alloc_deps_Cons)
      qed (use rest in \<open>simp add: search_ends_def get_alloc_deps_Cons\<close>)
    qed
  next
    case (inner w)
    show ?case
    proof -
      have "walk_ends be tb s n w'" if "w' \<in> set (walks_of be tb s w)" for w'
        using inner.IH that walks_known by blast
      then have "search_ends be tb s (walks_of be tb s w @ ws) deps"
        if "card (snd ` set (mm_alloc_info_map s) - set deps) \<le> n" "\<forall>d. set deps \<subseteq> set d \<longrightarrow> search_ends be tb s ws d" for ws deps
        using that by (intro walks_end [of "walks_of be tb s w"]) auto
      then show ?thesis using inner(1) unfolding walk_ends_def search_ends_def by (cases w) (simp_all add: get_alloc_deps_Cons)
    qed
  qed
qed

text \<open>A class holds the objects of its members, but not those its pointers lead to.\<close>

definition holds_value :: "MEMBER \<Rightarrow> bool" where
  "holds_value A \<longleftrightarrow> at_type A = TRICK_STRUCTURED \<and> (\<forall>k. int k < at_num_index A \<longrightarrow> extent A k \<noteq> 0)"

definition classes_nest :: "(nat \<Rightarrow> nat) \<Rightarrow> tables \<Rightarrow> bool" where
  "classes_nest depth tb \<longleftrightarrow> (\<forall>t. \<forall>A \<in> set (tb t). holds_value A \<longrightarrow> at_attr A = 0 \<or> depth (at_attr A) < depth t)"

lemma bounded_arrayed:
  assumes "(\<forall>k'. k \<le> k' \<longrightarrow> int k' < at_num_index A \<longrightarrow> extent A k' \<noteq> 0) \<longrightarrow> (\<forall>a. bounded_walk be tb s (In_class a (at_attr A)))"
  shows "bounded_walk be tb s (In_arrayed_class a A k off)"
  using assms
proof (induction "nat (at_num_index A - int k)" arbitrary: k off rule: less_induct)
  case less
  show ?case
  proof (rule bounded_walk.inner)
    fix w assume w: "w \<in> set (walks_of be tb s (In_arrayed_class a A k off))"
    show "bounded_walk be tb s w"
    proof (cases "extent A k = 0")
      case True
      then show ?thesis using w by (simp add: walks_of_def pointed_to_bounded)
    next
      case nonzero: False
      show ?thesis
      proof (cases "int k < at_num_index A - 1")
        case True
        have "bounded_walk be tb s (In_arrayed_class a A (k + 1) off')" for off'
          using True less.prems nonzero by (intro less.hyps) (simp, metis Suc_eq_plus1 Suc_leI le_neq_implies_less)
        then show ?thesis using w nonzero True by (auto simp: walks_of_def)
      next
        case False
        have "\<forall>k'. k \<le> k' \<longrightarrow> int k' < at_num_index A \<longrightarrow> extent A k' \<noteq> 0"
        proof (intro allI impI)
          fix k' assume "k \<le> k'" "int k' < at_num_index A"
          then have "k' = k" using False by linarith
          then show "extent A k' \<noteq> 0" using nonzero by simp
        qed
        then show ?thesis using w nonzero False less.prems by (auto simp: walks_of_def)
      qed
    qed
  qed simp
qed

lemma bounded_intrinsic: "bounded_walk be tb s (In_intrinsic a A k off)"
proof (induction "nat (at_num_index A - int k)" arbitrary: k off rule: less_induct)
  case less
  show ?case
  proof (rule bounded_walk.inner)
    fix w assume "w \<in> set (walks_of be tb s (In_intrinsic a A k off))"
    then consider "w \<in> set (pointed_to be s (int_address a (off * 8)))"
      | off' where "w = In_intrinsic a A (k + 1) off'" "int k < at_num_index A"
      by (auto simp: walks_of_def split: if_splits)
    then show "bounded_walk be tb s w" using less by cases (auto simp: pointed_to_bounded)
  qed simp
qed

lemma bounded_class: "classes_nest depth tb \<Longrightarrow> bounded_walk be tb s (In_class a t)"
proof (induction "depth t" arbitrary: a t rule: less_induct)
  case less
  show ?case
  proof (rule bounded_walk.inner)
    fix w assume w: "w \<in> set (walks_of be tb s (In_class a t))"
    have none: "bounded_walk be tb s (In_class b 0)" for b by (rule bounded_walk.inner) (simp_all add: walks_of_def)
    obtain A where A: "A \<in> set (tb t)" "w = member_walk a A" using w by (auto simp: walks_of_def split: if_splits)
    have held: "bounded_walk be tb s (In_class b (at_attr A))" if "holds_value A" for b
      using that less A(1) none unfolding classes_nest_def by metis
    have arrayed: "bounded_walk be tb s (In_arrayed_class b A 0 off)" if "at_type A = TRICK_STRUCTURED" for b off
      using held that by (intro bounded_arrayed) (simp add: holds_value_def)
    have "bounded_walk be tb s (In_class b (at_attr A))" if "at_type A = TRICK_STRUCTURED" "at_num_index A = 0" for b
      using held that by (simp add: holds_value_def)
    then show "bounded_walk be tb s w"
      using arrayed bounded_intrinsic unfolding A(2) by (simp add: member_walk_def Let_def)
  qed simp
qed

lemma all_bounded: "classes_nest depth tb \<Longrightarrow> bounded_walk be tb s w"
  by (cases w) (auto intro: bounded_walk.into_allocation bounded_class bounded_arrayed bounded_intrinsic)

lemma allocation_walk_ends:
  "classes_nest depth tb \<Longrightarrow> p \<in> records s \<Longrightarrow> walk_ends be tb s n (In_allocation p)"
  by (intro bounded_walk_ends [OF all_bounded]) (simp_all add: known_only_def)

lemma search_ends_Nil: "search_ends be tb s [] d"
  by (simp add: search_ends_def get_alloc_deps.simps [of be tb s "[]"])

text \<open>
  C26: In a state with consistent maps, where no class contains itself and arrays of objects have one dimension, the
  search for the dependencies of an allocation returns; it finds exactly the allocations that can be reached from it
  over the pointers that the layout of its variable, and of theirs, contains, itself included, and lists each once,
  also when the pointers form cycles.
\<close>

theorem dependencies_are_reachable:
  assumes "mm_ok {} s" and "p \<in> records s" and "simple_arrays tb s" and "classes_nest depth tb"
  shows "\<exists>deps. get_alloc_deps_in_allocation be tb s p [] = Some deps \<and> distinct deps \<and>
    (\<forall>q. q \<in> set deps \<longleftrightarrow> depends_on be tb s p q)"
proof -
  obtain deps where "get_alloc_deps_in_allocation be tb s p [] = Some deps"
    using allocation_walk_ends [OF assms(4,2)] search_ends_Nil
    unfolding walk_ends_def search_ends_def get_alloc_deps_in_allocation_def by blast
  then show ?thesis using search_finds walk_depends_layout [OF assms(1,3,2)] by blast
qed

text \<open>
  C27: The search for dependencies ends, whatever the pointers in memory are, when no class has a member of its
  own class by value: pointers, lists and cycles of objects do no harm.
\<close>

theorem dependency_search_ends:
  assumes "classes_nest depth tb" and "p \<in> snd ` set (mm_alloc_info_map s)"
  shows "\<exists>deps. get_alloc_deps_in_allocation be tb s p ds = Some deps"
  using allocation_walk_ends [OF assms] search_ends_Nil
  unfolding walk_ends_def search_ends_def get_alloc_deps_in_allocation_def by blast

text \<open>In an array of objects with two dimensions, the search goes into one object twice and into the last not at all.\<close>

definition grid_member :: MEMBER where
  "grid_member =
     \<lparr>at_type = TRICK_STRUCTURED, at_size = 8, at_num_index = 2, at_stl_elem_type = TRICK_VOID, at_units = ''1'',
      at_units_dashdash = False, at_bit_start = 0, at_bit_size = 0, at_name = ''grid'', at_io = 15, at_mods = 0,
      at_offset = 0, at_attr = 1, at_index = [2, 2]\<rparr>"

lemma grid_misses_last_object:
  "concat (map (walks_of be tb s) (walks_of be tb s (In_arrayed_class 16 grid_member 0 0))) =
     [In_class 16 1, In_class 24 1, In_class 24 1, In_class 32 1]"
  "16 + 3 * at_size grid_member = 40" "elements (at_index grid_member) = 4"
  by (simp_all add: walks_of_def grid_member_def extent_def int_address_def upt_conv_Cons)

subsection \<open>A cycle\<close>

text \<open>
  A node at address 16 with a pointer to another at 32, which points back; both are of class 1, whose only
  member is the pointer.
\<close>

definition next_member :: MEMBER where
  "next_member =
     \<lparr>at_type = TRICK_STRUCTURED, at_size = 8, at_num_index = 1, at_stl_elem_type = TRICK_VOID, at_units = ''1'',
      at_units_dashdash = False, at_bit_start = 0, at_bit_size = 0, at_name = ''next'', at_io = 15, at_mods = 0,
      at_offset = 0, at_attr = 1, at_index = [0]\<rparr>"

definition node_tables :: tables where
  "node_tables t = (if t = 1 then [next_member] else [])"

definition node_info :: "nat \<Rightarrow> ALLOC_INFO" where
  "node_info a = empty_info\<lparr>ai_start := a, ai_end := int a + 7, ai_size := 8, ai_type := TRICK_STRUCTURED, ai_attr := 1, ai_num := 1\<rparr>"

definition two_nodes :: MM where
  "two_nodes = (new_MM (\<lambda>p. if p = 1 then node_info 16 else node_info 32) (\<lambda>i. if i = 16 then 32 else if i = 32 then 16 else 0))
     \<lparr>mm_alloc_info_map := [(32, 2), (16, 1)]\<rparr>"

lemma get_alloc_deps_Nil: "get_alloc_deps be tb s [] deps = Some deps"
  by (subst get_alloc_deps.simps) simp

lemma two_nodes_walks:
  "walks_of False node_tables two_nodes (In_allocation 1) = [In_class 16 1]"
  "walks_of False node_tables two_nodes (In_allocation 2) = [In_class 32 1]"
  "walks_of False node_tables two_nodes (In_class 16 1) = [In_arrayed_class 16 next_member 0 0]"
  "walks_of False node_tables two_nodes (In_class 32 1) = [In_arrayed_class 32 next_member 0 0]"
  "walks_of False node_tables two_nodes (In_arrayed_class 16 next_member 0 0) = [In_allocation 2]"
  "walks_of False node_tables two_nodes (In_arrayed_class 32 next_member 0 0) = [In_allocation 1]"
  by (simp_all add: walks_of_def allocation_walk_def two_nodes_def node_info_def empty_info_def new_MM_def
      member_walk_def member_address_def node_tables_def next_member_def output_perm_check_def bit_iff_odd
      extent_def int_address_def pointed_to_def load_pointer_def mem_bytes_def get_alloc_info_of_def lower_bound_def
      upt_conv_Cons Let_def)

lemma two_nodes_search: "get_alloc_deps_in_allocation False node_tables two_nodes 1 [] = Some [1, 2]"
  unfolding get_alloc_deps_in_allocation_def
  by (simp add: get_alloc_deps_Nil get_alloc_deps_Cons two_nodes_walks del: One_nat_def)

lemma two_nodes_nest: "classes_nest (\<lambda>t. t) node_tables"
  by (auto simp: classes_nest_def node_tables_def holds_value_def next_member_def extent_def)

lemma two_nodes_ok: "mm_ok {} two_nodes" "simple_arrays node_tables two_nodes"
  by (auto simp: mm_ok_def descending_def names_ok_def blocks_ok_def two_nodes_def new_MM_def node_info_def empty_info_def
      simple_arrays_def simple_array_def node_tables_def next_member_def)

theorem dependencies_are_reachable_witness:
  "depends_on False node_tables two_nodes 1 2 \<and> \<not> depends_on False node_tables two_nodes 1 3"
proof -
  have "1 \<in> records two_nodes" by (simp add: two_nodes_def)
  then have "q \<in> set [1, 2] \<longleftrightarrow> depends_on False node_tables two_nodes 1 q" for q
    using dependencies_are_reachable [OF two_nodes_ok(1) _ two_nodes_ok(2) two_nodes_nest, of 1 False] two_nodes_search
    by auto
  from this [of 2] this [of 3] show ?thesis by simp
qed

theorem dependency_search_ends_witness:
  "\<exists>deps. get_alloc_deps_in_allocation False node_tables two_nodes 1 [] = Some deps"
proof (rule dependency_search_ends)
  show "classes_nest (\<lambda>t. t) node_tables" by (rule two_nodes_nest)
  show "1 \<in> snd ` set (mm_alloc_info_map two_nodes)" by (simp add: two_nodes_def)
qed

end
