(* ===== verification/DLList.thy ===== *)
theory DLList
  imports Trick_Prelude
begin

text \<open>
  Doubly linked lists, queues, stacks and the sort of a list (include/trick/dllist.h, lqueue.h, lstack.h,
  trick\_utils/trick\_adt/src: dllist.c, lqueue.c, lstack.c, bubble\_sort.c). Addresses are numbers, 0 is
  \<open>NULL\<close>; the state has the nodes and the lists in memory. \<open>malloc\<close> is a parameter; what it returns is used
  without a test for \<open>NULL\<close>. Access to memory that is not a node or a list, freed memory for one, is undefined. The
  loops along the pointers may not end. Data is an address that is not looked into. The messages are
  left out; \<open>count\<close> is an integer without bound. An \<open>LQUEUE\<close> and an \<open>LSTACK\<close> are a list at their own address.
\<close>

subsection \<open>Memory\<close>

record DLLNODE =
  dn_info :: nat
  dn_prev :: nat
  dn_next :: nat

record DLLIST =
  dl_count :: int
  dl_head :: nat
  dl_tail :: nat
  dl_compare :: "(nat \<Rightarrow> nat \<Rightarrow> int) option"

record dheap =
  dh_nodes :: "nat \<rightharpoonup> DLLNODE"
  dh_lists :: "nat \<rightharpoonup> DLLIST"

record dll_env =
  malloc_node :: "dheap \<Rightarrow> nat"
  malloc_list :: "dheap \<Rightarrow> nat"

definition returns :: "'a \<Rightarrow> 'w \<Rightarrow> ('a, 'w) result" where
  "returns x h = Some (Inr x, h)"

definition undefined_access :: "'w \<Rightarrow> ('a, 'w) result" where
  "undefined_access h = Some (Inl (Undefined ''invalid pointer''), h)"

definition get_node :: "nat \<Rightarrow> dheap \<Rightarrow> (DLLNODE, dheap) result" where
  "get_node p h = (case dh_nodes h p of None \<Rightarrow> undefined_access h | Some n \<Rightarrow> returns n h)"

definition set_node :: "nat \<Rightarrow> (DLLNODE \<Rightarrow> DLLNODE) \<Rightarrow> dheap \<Rightarrow> (unit, dheap) result" where
  "set_node p f h =
     (case dh_nodes h p of
        None \<Rightarrow> undefined_access h
      | Some n \<Rightarrow> returns () (h\<lparr>dh_nodes := (dh_nodes h)(p \<mapsto> f n)\<rparr>))"

definition get_list :: "nat \<Rightarrow> dheap \<Rightarrow> (DLLIST, dheap) result" where
  "get_list l h = (case dh_lists h l of None \<Rightarrow> undefined_access h | Some L \<Rightarrow> returns L h)"

definition set_list :: "nat \<Rightarrow> (DLLIST \<Rightarrow> DLLIST) \<Rightarrow> dheap \<Rightarrow> (unit, dheap) result" where
  "set_list l f h =
     (case dh_lists h l of
        None \<Rightarrow> undefined_access h
      | Some L \<Rightarrow> returns () (h\<lparr>dh_lists := (dh_lists h)(l \<mapsto> f L)\<rparr>))"

text \<open>\<open>malloc\<close> of a node, and the assignment of its data; the links are set by the callers.\<close>

definition new_node :: "dll_env \<Rightarrow> nat \<Rightarrow> dheap \<Rightarrow> (nat, dheap) result" where
  "new_node env data h =
     (let newpos = malloc_node env h
      in if newpos = 0 then undefined_access h
         else returns newpos (h\<lparr>dh_nodes := (dh_nodes h)(newpos \<mapsto> \<lparr>dn_info = data, dn_prev = 0, dn_next = 0\<rparr>)\<rparr>))"

definition empty_DLLIST :: DLLIST where
  "empty_DLLIST = \<lparr>dl_count = 0, dl_head = 0, dl_tail = 0, dl_compare = None\<rparr>"

subsection \<open>Lists\<close>

definition DLL_Create :: "dll_env \<Rightarrow> dheap \<Rightarrow> (nat, dheap) result" where
  "DLL_Create env h =
     (let ret = malloc_list env h
      in if ret = 0 then undefined_access h
         else returns ret (h\<lparr>dh_lists := (dh_lists h)(ret \<mapsto> empty_DLLIST)\<rparr>))"

partial_function (option) list_contains_from :: "nat \<Rightarrow> nat \<Rightarrow> dheap \<Rightarrow> (int, dheap) result" where
  "list_contains_from pos lpos h =
     (if lpos = pos \<or> lpos = 0 then returns (if lpos = 0 then 0 else 1) h
      else andthen (get_node lpos h) (\<lambda>n h. list_contains_from pos (dn_next n) h))"

definition DLL_ListContainsPos :: "nat \<Rightarrow> nat \<Rightarrow> dheap \<Rightarrow> (int, dheap) result" where
  "DLL_ListContainsPos pos l h =
     (if l = 0 \<or> pos = 0 then returns 0 h
      else andthen (get_list l h) (\<lambda>L h. list_contains_from pos (dl_head L) h))"

definition DLL_Init :: "nat \<Rightarrow> dheap \<Rightarrow> (unit, dheap) result" where
  "DLL_Init l h = (if l = 0 then returns () h else set_list l (\<lambda>L. empty_DLLIST) h)"

definition DLL_GetCount :: "nat \<Rightarrow> dheap \<Rightarrow> (int, dheap) result" where
  "DLL_GetCount l h = (if l = 0 then returns (-1) h else andthen (get_list l h) (\<lambda>L. returns (dl_count L)))"

definition DLL_GetHeadPosition :: "nat \<Rightarrow> dheap \<Rightarrow> (nat, dheap) result" where
  "DLL_GetHeadPosition l h = (if l = 0 then returns 0 h else andthen (get_list l h) (\<lambda>L. returns (dl_head L)))"

definition DLL_GetTailPosition :: "nat \<Rightarrow> dheap \<Rightarrow> (nat, dheap) result" where
  "DLL_GetTailPosition l h = (if l = 0 then returns 0 h else andthen (get_list l h) (\<lambda>L. returns (dl_tail L)))"

text \<open>What the next four check: the position must be a node of the list. \<open>GetNext\<close> and \<open>GetPrev\<close> return the data and the
  position they leave in their argument.\<close>

definition checked_node :: "nat \<Rightarrow> nat \<Rightarrow> 'a \<Rightarrow> (DLLNODE \<Rightarrow> dheap \<Rightarrow> ('a, dheap) result) \<Rightarrow> dheap \<Rightarrow> ('a, dheap) result" where
  "checked_node pos l bad f h =
     (if l = 0 \<or> pos = 0 then returns bad h
      else andthen (DLL_ListContainsPos pos l h) (\<lambda>c h. if c = 0 then returns bad h else andthen (get_node pos h) f))"

definition DLL_GetAt :: "nat \<Rightarrow> nat \<Rightarrow> dheap \<Rightarrow> (nat, dheap) result" where
  "DLL_GetAt pos l h = checked_node pos l 0 (\<lambda>n. returns (dn_info n)) h"

definition DLL_SetAt :: "nat \<Rightarrow> nat \<Rightarrow> nat \<Rightarrow> dheap \<Rightarrow> (nat, dheap) result" where
  "DLL_SetAt pos info l h =
     checked_node pos l 0
       (\<lambda>n h. andthen (set_node pos (\<lambda>n. n\<lparr>dn_info := info\<rparr>) h) (\<lambda>_. returns (dn_info n))) h"

definition DLL_GetNext :: "nat \<Rightarrow> nat \<Rightarrow> dheap \<Rightarrow> (nat \<times> nat, dheap) result" where
  "DLL_GetNext pos l h = checked_node pos l (0, pos) (\<lambda>n. returns (dn_info n, dn_next n)) h"

definition DLL_GetPrev :: "nat \<Rightarrow> nat \<Rightarrow> dheap \<Rightarrow> (nat \<times> nat, dheap) result" where
  "DLL_GetPrev pos l h = checked_node pos l (0, pos) (\<lambda>n. returns (dn_info n, dn_prev n)) h"

partial_function (option) find_loop :: "(nat \<Rightarrow> nat \<Rightarrow> int) \<Rightarrow> nat \<Rightarrow> nat \<Rightarrow> nat \<Rightarrow> dheap \<Rightarrow> (nat, dheap) result" where
  "find_loop compare data l pos h =
     (if pos = 0 then returns 0 h
      else andthen (DLL_GetNext pos l h)
        (\<lambda>(x, pos1) h. if compare x data \<noteq> 0 then DLL_GetAt pos l h else find_loop compare data l pos1 h))"

definition DLL_Find :: "nat \<Rightarrow> nat \<Rightarrow> dheap \<Rightarrow> (nat, dheap) result" where
  "DLL_Find data l h =
     (if l = 0 then returns 0 h
      else andthen (get_list l h)
        (\<lambda>L h. case dl_compare L of
           None \<Rightarrow> returns 0 h
         | Some compare \<Rightarrow> andthen (DLL_GetHeadPosition l h) (find_loop compare data l)))"

partial_function (option) find_pos_loop :: "nat \<Rightarrow> nat \<Rightarrow> nat \<Rightarrow> dheap \<Rightarrow> (nat, dheap) result" where
  "find_pos_loop data l pos h =
     (if pos = 0 then returns 0 h
      else andthen (DLL_GetAt pos l h)
        (\<lambda>x h. if x = data then returns pos h
               else andthen (DLL_GetNext pos l h) (\<lambda>(x, pos1) h. find_pos_loop data l pos1 h)))"

definition DLL_FindPos :: "nat \<Rightarrow> nat \<Rightarrow> dheap \<Rightarrow> (nat, dheap) result" where
  "DLL_FindPos data l h =
     (if l = 0 then returns 0 h else andthen (DLL_GetHeadPosition l h) (find_pos_loop data l))"

partial_function (option) find_index_loop :: "int \<Rightarrow> nat \<Rightarrow> int \<Rightarrow> nat \<Rightarrow> dheap \<Rightarrow> (nat, dheap) result" where
  "find_index_loop n l nPos pos h =
     (if pos = 0 \<or> nPos = n then returns pos h
      else andthen (DLL_GetNext pos l h) (\<lambda>(x, pos1) h. find_index_loop n l (nPos + 1) pos1 h))"

definition DLL_FindIndex :: "int \<Rightarrow> nat \<Rightarrow> dheap \<Rightarrow> (nat, dheap) result" where
  "DLL_FindIndex n l h =
     (if l = 0 then returns 0 h
      else andthen (get_list l h)
        (\<lambda>L h. if n < 0 \<or> dl_count L \<le> n then returns 0 h
               else andthen (DLL_GetHeadPosition l h) (find_index_loop n l 0)))"

definition unlink_node :: "nat \<Rightarrow> DLLNODE \<Rightarrow> nat \<Rightarrow> dheap \<Rightarrow> (unit, dheap) result" where
  "unlink_node pos n l h =
     (if dn_prev n \<noteq> 0 then
        andthen (set_node (dn_prev n) (\<lambda>m. m\<lparr>dn_next := dn_next n\<rparr>) h)
          (\<lambda>_ h. if dn_next n \<noteq> 0 then set_node (dn_next n) (\<lambda>m. m\<lparr>dn_prev := dn_prev n\<rparr>) h
                 else set_list l (\<lambda>L. L\<lparr>dl_tail := dn_prev n\<rparr>) h)
      else if dn_next n \<noteq> 0 then
        andthen (set_list l (\<lambda>L. L\<lparr>dl_head := dn_next n\<rparr>) h)
          (\<lambda>_. set_node (dn_next n) (\<lambda>m. m\<lparr>dn_prev := 0\<rparr>))
      else set_list l (\<lambda>L. L\<lparr>dl_head := 0, dl_tail := 0\<rparr>) h)"

definition DLL_RemoveAt :: "nat \<Rightarrow> nat \<Rightarrow> dheap \<Rightarrow> (nat, dheap) result" where
  "DLL_RemoveAt pos l h =
     checked_node pos l 0
       (\<lambda>n h. andthen (unlink_node pos n l h)
         (\<lambda>_ h. andthen (set_list l (\<lambda>L. L\<lparr>dl_count := dl_count L - 1\<rparr>) h)
           (\<lambda>_ h. returns (dn_info n) (h\<lparr>dh_nodes := (dh_nodes h)(pos := None)\<rparr>)))) h"

partial_function (option) remove_all_loop :: "nat \<Rightarrow> nat \<Rightarrow> dheap \<Rightarrow> (unit, dheap) result" where
  "remove_all_loop l pos h =
     (if pos = 0 then returns () h
      else andthen (DLL_GetNext pos l h)
        (\<lambda>(x, pos1) h. andthen (DLL_RemoveAt pos l h) (\<lambda>_ h. remove_all_loop l pos1 h)))"

definition DLL_RemoveAll :: "nat \<Rightarrow> dheap \<Rightarrow> (unit, dheap) result" where
  "DLL_RemoveAll l h =
     andthen (DLL_GetHeadPosition l h) (\<lambda>pos h. if l = 0 then returns () h else remove_all_loop l pos h)"

definition DLL_Delete :: "nat \<Rightarrow> dheap \<Rightarrow> (unit, dheap) result" where
  "DLL_Delete l h =
     (if l = 0 then returns () h
      else andthen (DLL_RemoveAll l h) (\<lambda>_ h. returns () (h\<lparr>dh_lists := (dh_lists h)(l := None)\<rparr>)))"

definition count_up :: "nat \<Rightarrow> nat \<Rightarrow> dheap \<Rightarrow> (nat, dheap) result" where
  "count_up l newpos h =
     andthen (set_list l (\<lambda>L. L\<lparr>dl_count := dl_count L + 1\<rparr>) h) (\<lambda>_. returns newpos)"

definition DLL_InsertBefore :: "dll_env \<Rightarrow> nat \<Rightarrow> nat \<Rightarrow> nat \<Rightarrow> dheap \<Rightarrow> (nat, dheap) result" where
  "DLL_InsertBefore env pos data l h =
     (if pos \<noteq> 0 \<and> l \<noteq> 0 then
        andthen (new_node env data h) (\<lambda>newpos h.
        andthen (get_node pos h) (\<lambda>n h.
        andthen
          (if dn_prev n = 0 then
             andthen (get_list l h) (\<lambda>L h.
             andthen (set_node newpos (\<lambda>m. m\<lparr>dn_next := dl_head L, dn_prev := 0\<rparr>) h) (\<lambda>_ h.
             andthen (set_list l (\<lambda>L. L\<lparr>dl_head := newpos\<rparr>) h) (\<lambda>_.
             set_node pos (\<lambda>m. m\<lparr>dn_prev := newpos\<rparr>))))
           else
             andthen (set_node (dn_prev n) (\<lambda>m. m\<lparr>dn_next := newpos\<rparr>) h) (\<lambda>_ h.
             andthen (set_node newpos (\<lambda>m. m\<lparr>dn_prev := dn_prev n, dn_next := pos\<rparr>) h) (\<lambda>_.
             set_node pos (\<lambda>m. m\<lparr>dn_prev := newpos\<rparr>))))
          (\<lambda>_. count_up l newpos)))
      else returns 0 h)"

definition DLL_InsertAfter :: "dll_env \<Rightarrow> nat \<Rightarrow> nat \<Rightarrow> nat \<Rightarrow> dheap \<Rightarrow> (nat, dheap) result" where
  "DLL_InsertAfter env pos data l h =
     (if pos \<noteq> 0 \<and> l \<noteq> 0 then
        andthen (new_node env data h) (\<lambda>newpos h.
        andthen (get_node pos h) (\<lambda>n h.
        andthen
          (if dn_next n = 0 then
             andthen (get_list l h) (\<lambda>L h.
             andthen (set_node newpos (\<lambda>m. m\<lparr>dn_prev := dl_tail L, dn_next := 0\<rparr>) h) (\<lambda>_ h.
             andthen (set_list l (\<lambda>L. L\<lparr>dl_tail := newpos\<rparr>) h) (\<lambda>_.
             set_node pos (\<lambda>m. m\<lparr>dn_next := newpos\<rparr>))))
           else
             andthen (set_node (dn_next n) (\<lambda>m. m\<lparr>dn_prev := newpos\<rparr>) h) (\<lambda>_ h.
             andthen (set_node newpos (\<lambda>m. m\<lparr>dn_next := dn_next n, dn_prev := pos\<rparr>) h) (\<lambda>_.
             set_node pos (\<lambda>m. m\<lparr>dn_next := newpos\<rparr>))))
          (\<lambda>_. count_up l newpos)))
      else returns 0 h)"

definition DLL_AddHead :: "dll_env \<Rightarrow> nat \<Rightarrow> nat \<Rightarrow> dheap \<Rightarrow> (nat, dheap) result" where
  "DLL_AddHead env data l h =
     (if l = 0 then returns 0 h
      else
        andthen (new_node env data h) (\<lambda>newpos h.
        andthen (get_list l h) (\<lambda>L h.
        andthen
          (if dl_head L = 0 then
             andthen (set_list l (\<lambda>L. L\<lparr>dl_head := newpos, dl_tail := newpos\<rparr>) h) (\<lambda>_.
             set_node newpos (\<lambda>m. m\<lparr>dn_next := 0, dn_prev := 0\<rparr>))
           else
             andthen (set_list l (\<lambda>L. L\<lparr>dl_head := newpos\<rparr>) h) (\<lambda>_ h.
             andthen (set_node newpos (\<lambda>m. m\<lparr>dn_next := dl_head L, dn_prev := 0\<rparr>) h) (\<lambda>_.
             set_node (dl_head L) (\<lambda>m. m\<lparr>dn_prev := newpos\<rparr>))))
          (\<lambda>_. count_up l newpos))))"

definition DLL_AddTail :: "dll_env \<Rightarrow> nat \<Rightarrow> nat \<Rightarrow> dheap \<Rightarrow> (nat, dheap) result" where
  "DLL_AddTail env data l h =
     (if l = 0 then returns 0 h
      else
        andthen (new_node env data h) (\<lambda>newpos h.
        andthen (get_list l h) (\<lambda>L h.
        andthen
          (if dl_tail L = 0 then
             andthen (set_list l (\<lambda>L. L\<lparr>dl_head := newpos, dl_tail := newpos\<rparr>) h) (\<lambda>_.
             set_node newpos (\<lambda>m. m\<lparr>dn_next := 0, dn_prev := 0\<rparr>))
           else
             andthen (set_node newpos (\<lambda>m. m\<lparr>dn_next := 0, dn_prev := dl_tail L\<rparr>) h) (\<lambda>_ h.
             andthen (set_node (dl_tail L) (\<lambda>m. m\<lparr>dn_next := newpos\<rparr>) h) (\<lambda>_.
             set_list l (\<lambda>L. L\<lparr>dl_tail := newpos\<rparr>))))
          (\<lambda>_. count_up l newpos))))"

subsection \<open>Queues and stacks\<close>

definition LQ_Create :: "dll_env \<Rightarrow> dheap \<Rightarrow> (nat, dheap) result" where
  "LQ_Create env h =
     (let ret = malloc_list env h
      in if ret = 0 then returns 0 h
         else andthen (DLL_Init ret (h\<lparr>dh_lists := (dh_lists h)(ret \<mapsto> empty_DLLIST)\<rparr>)) (\<lambda>_. returns ret))"

definition LQ_Delete :: "nat \<Rightarrow> dheap \<Rightarrow> (int, dheap) result" where
  "LQ_Delete lqueue h =
     (if lqueue = 0 then returns (-1) h else andthen (DLL_Delete lqueue h) (\<lambda>_. returns 0))"

definition LQ_Init :: "nat \<Rightarrow> dheap \<Rightarrow> (unit, dheap) result" where
  "LQ_Init pQueue h = DLL_Init pQueue h"

definition LQ_EnQ :: "dll_env \<Rightarrow> nat \<Rightarrow> nat \<Rightarrow> dheap \<Rightarrow> (unit, dheap) result" where
  "LQ_EnQ env pData pQueue h =
     (if pQueue = 0 then returns () h else andthen (DLL_AddHead env pData pQueue h) (\<lambda>_. returns ()))"

definition LQ_GetCount :: "nat \<Rightarrow> dheap \<Rightarrow> (int, dheap) result" where
  "LQ_GetCount pQueue h = (if pQueue = 0 then returns (-1) h else DLL_GetCount pQueue h)"

definition LQ_DeQ :: "nat \<Rightarrow> dheap \<Rightarrow> (nat, dheap) result" where
  "LQ_DeQ pQueue h =
     (if pQueue = 0 then returns 0 h
      else andthen (LQ_GetCount pQueue h)
        (\<lambda>n h. if 0 < n then andthen (DLL_GetTailPosition pQueue h) (\<lambda>pos. DLL_RemoveAt pos pQueue)
               else returns 0 h))"

definition LQ_Peek :: "nat \<Rightarrow> dheap \<Rightarrow> (nat, dheap) result" where
  "LQ_Peek pQueue h =
     (if pQueue = 0 then returns 0 h
      else andthen (DLL_GetCount pQueue h)
        (\<lambda>n h. if n \<le> 0 then returns 0 h
               else andthen (DLL_GetTailPosition pQueue h) (\<lambda>pos. DLL_GetAt pos pQueue)))"

definition LS_Create :: "dll_env \<Rightarrow> dheap \<Rightarrow> (nat, dheap) result" where
  "LS_Create env h =
     (let ret = malloc_list env h
      in if ret = 0 then returns 0 h
         else andthen (DLL_Init ret (h\<lparr>dh_lists := (dh_lists h)(ret \<mapsto> empty_DLLIST)\<rparr>)) (\<lambda>_. returns ret))"

definition LS_Init :: "nat \<Rightarrow> dheap \<Rightarrow> (unit, dheap) result" where
  "LS_Init pStack h = DLL_Init pStack h"

definition LS_Pop :: "nat \<Rightarrow> dheap \<Rightarrow> (nat, dheap) result" where
  "LS_Pop pStack h = andthen (DLL_GetHeadPosition pStack h) (\<lambda>pos. DLL_RemoveAt pos pStack)"

definition LS_Peek :: "nat \<Rightarrow> dheap \<Rightarrow> (nat, dheap) result" where
  "LS_Peek pStack h = andthen (DLL_GetHeadPosition pStack h) (\<lambda>pos. DLL_GetAt pos pStack)"

definition LS_Push :: "dll_env \<Rightarrow> nat \<Rightarrow> nat \<Rightarrow> dheap \<Rightarrow> (unit, dheap) result" where
  "LS_Push env pData pStack h = andthen (DLL_AddHead env pData pStack h) (\<lambda>_. returns ())"

definition LS_GetCount :: "nat \<Rightarrow> dheap \<Rightarrow> (int, dheap) result" where
  "LS_GetCount pStack h = DLL_GetCount pStack h"

subsection \<open>Sorting\<close>

text \<open>A step of a pass: two neighbours are exchanged when the function says so. The result of a pass is whether it did.\<close>

definition exchange :: "nat \<Rightarrow> nat \<Rightarrow> nat \<Rightarrow> nat \<Rightarrow> nat \<Rightarrow> dheap \<Rightarrow> (unit, dheap) result" where
  "exchange p x q y l h = andthen (DLL_SetAt p x l h) (\<lambda>_ h. andthen (DLL_SetAt q y l h) (\<lambda>_. returns ()))"

partial_function (option) sort_down :: "(nat \<Rightarrow> nat \<Rightarrow> int) \<Rightarrow> nat \<Rightarrow> nat \<Rightarrow> nat \<Rightarrow> bool \<Rightarrow> dheap \<Rightarrow> (bool, dheap) result" where
  "sort_down compare l bottom current reordered h =
     (if current = bottom then returns reordered h
      else
        andthen (DLL_GetNext current l h) (\<lambda>(this_prn, nxt) h.
        andthen (DLL_GetAt nxt l h) (\<lambda>next_prn h.
          if compare this_prn next_prn \<noteq> 0 then
            andthen (exchange current next_prn nxt this_prn l h) (\<lambda>_ h. sort_down compare l bottom nxt True h)
          else sort_down compare l bottom nxt reordered h)))"

partial_function (option) sort_up :: "(nat \<Rightarrow> nat \<Rightarrow> int) \<Rightarrow> nat \<Rightarrow> nat \<Rightarrow> nat \<Rightarrow> bool \<Rightarrow> dheap \<Rightarrow> (bool, dheap) result" where
  "sort_up compare l top_pos current reordered h =
     (if current = top_pos then returns reordered h
      else
        andthen (DLL_GetPrev current l h) (\<lambda>(this_prn, prev) h.
        andthen (DLL_GetAt prev l h) (\<lambda>prev_prn h.
          if compare prev_prn this_prn \<noteq> 0 then
            andthen (exchange current prev_prn prev this_prn l h) (\<lambda>_ h. sort_up compare l top_pos prev True h)
          else sort_up compare l top_pos prev reordered h)))"

partial_function (option) sort_loop :: "(nat \<Rightarrow> nat \<Rightarrow> int) \<Rightarrow> nat \<Rightarrow> nat \<Rightarrow> nat \<Rightarrow> dheap \<Rightarrow> (int, dheap) result" where
  "sort_loop compare l top_pos bottom h =
     (if top_pos = bottom then returns 0 h
      else
        andthen (sort_down compare l bottom top_pos False h) (\<lambda>reordered h.
        if \<not> reordered then returns 0 h
        else
          andthen (DLL_GetPrev bottom l h) (\<lambda>(x, bottom1) h.
          andthen (sort_up compare l top_pos bottom1 False h) (\<lambda>reordered h.
          if \<not> reordered then returns 0 h
          else andthen (DLL_GetNext top_pos l h) (\<lambda>(x, top_pos1) h. sort_loop compare l top_pos1 bottom1 h)))))"

definition bubble_sort :: "nat \<Rightarrow> dheap \<Rightarrow> (int, dheap) result" where
  "bubble_sort l h =
     (if l = 0 then returns (-1) h
      else andthen (get_list l h)
        (\<lambda>L h. case dl_compare L of
           None \<Rightarrow> returns (-1) h
         | Some compare \<Rightarrow>
             andthen (DLL_GetHeadPosition l h) (\<lambda>top_pos h.
             andthen (DLL_GetTailPosition l h) (\<lambda>bottom h. sort_loop compare l top_pos bottom h))))"

end
