(* ===== verification/DLListRefine.thy ===== *)
theory DLListRefine
  imports DLList
begin

text \<open>
  A doubly linked list in memory as the list of its nodes, each with its position and its data, and what every operation
  does to it.
\<close>

subsection \<open>The list in memory\<close>

fun first_pos :: "(nat \<times> nat) list \<Rightarrow> nat \<Rightarrow> nat" where
  "first_pos [] nx = nx"
| "first_pos ((p, x) # r) nx = p"

fun last_pos :: "nat \<Rightarrow> (nat \<times> nat) list \<Rightarrow> nat" where
  "last_pos pv [] = pv"
| "last_pos pv ((p, x) # r) = last_pos p r"

fun chain :: "(nat \<rightharpoonup> DLLNODE) \<Rightarrow> nat \<Rightarrow> (nat \<times> nat) list \<Rightarrow> nat \<Rightarrow> bool" where
  "chain N pv [] nx \<longleftrightarrow> True"
| "chain N pv ((p, x) # r) nx \<longleftrightarrow>
     p \<noteq> 0 \<and> N p = Some \<lparr>dn_info = x, dn_prev = pv, dn_next = first_pos r nx\<rparr> \<and> chain N p r nx"

lemma first_pos_append [simp]: "first_pos (r @ r') nx = first_pos r (first_pos r' nx)"
  by (induction r nx rule: first_pos.induct) auto

lemma last_pos_append [simp]: "last_pos pv (r @ r') = last_pos (last_pos pv r) r'"
  by (induction pv r rule: last_pos.induct) auto

lemma chain_append [simp]:
  "chain N pv (r @ r') nx \<longleftrightarrow> chain N pv r (first_pos r' nx) \<and> chain N (last_pos pv r) r' nx"
  by (induction N pv r nx rule: chain.induct) auto

lemma chain_upd [simp]: "q \<notin> fst ` set r \<Longrightarrow> chain (N(q := v)) pv r nx = chain N pv r nx"
  by (induction r arbitrary: pv) auto

lemma chain_cong:
  assumes "\<And>p. p \<in> fst ` set r \<Longrightarrow> N' p = N p" shows "chain N' pv r nx = chain N pv r nx"
  using assms by (induction r arbitrary: pv) auto

lemma last_pos_in: "r \<noteq> [] \<Longrightarrow> last_pos pv r \<in> fst ` set r"
proof (induction r arbitrary: pv)
  case (Cons a r)
  then show ?case by (cases a; cases r) (simp_all add: image_iff)
qed simp

lemma first_pos_in: "r \<noteq> [] \<Longrightarrow> first_pos r nx \<in> fst ` set r"
  by (cases r) auto

lemma chain_pos: "chain N pv r nx \<Longrightarrow> p \<in> fst ` set r \<Longrightarrow> p \<noteq> 0 \<and> N p \<noteq> None"
  by (induction N pv r nx rule: chain.induct) auto

definition is_dll :: "dheap \<Rightarrow> nat \<Rightarrow> (nat \<Rightarrow> nat \<Rightarrow> int) option \<Rightarrow> (nat \<times> nat) list \<Rightarrow> bool" where
  "is_dll h l c r \<longleftrightarrow>
     l \<noteq> 0 \<and>
     dh_lists h l = Some \<lparr>dl_count = int (length r), dl_head = first_pos r 0, dl_tail = last_pos 0 r, dl_compare = c\<rparr> \<and>
     chain (dh_nodes h) 0 r 0 \<and> distinct (map fst r)"

text \<open>What an operation on one list leaves alone: other nodes and other lists.\<close>

definition unchanged_but :: "nat set \<Rightarrow> nat \<Rightarrow> dheap \<Rightarrow> dheap \<Rightarrow> bool" where
  "unchanged_but P l h h' \<longleftrightarrow> (\<forall>p. p \<notin> P \<longrightarrow> dh_nodes h' p = dh_nodes h p) \<and> (\<forall>k. k \<noteq> l \<longrightarrow> dh_lists h' k = dh_lists h k)"

lemma other_list_kept:
  assumes "unchanged_but P l h h'" and "is_dll h k c r" and "k \<noteq> l" and "P \<inter> fst ` set r = {}"
  shows "is_dll h' k c r"
proof -
  have "chain (dh_nodes h') 0 r 0 = chain (dh_nodes h) 0 r 0"
    using assms(1,4) by (intro chain_cong) (auto simp: unchanged_but_def)
  then show ?thesis using assms unfolding is_dll_def unchanged_but_def by auto
qed

named_theorems dll_run "the steps of the list operations"
declare returns_def [dll_run] undefined_access_def [dll_run] get_node_def [dll_run] set_node_def [dll_run]
  get_list_def [dll_run] set_list_def [dll_run] count_up_def [dll_run]

lemmas dll_changes = is_dll_def unchanged_but_def unlink_node_def image_Un

subsection \<open>Looking at a node\<close>

lemma contains_from:
  "chain (dh_nodes h) pv r 0 \<Longrightarrow> pos \<noteq> 0 \<Longrightarrow>
   list_contains_from pos (first_pos r 0) h = Some (Inr (if pos \<in> fst ` set r then 1 else 0), h)"
proof (induction r arbitrary: pv)
  case Nil
  then show ?case by (subst list_contains_from.simps) (simp add: dll_run)
next
  case (Cons a r)
  obtain p x where a: "a = (p, x)" by force
  show ?case
    using Cons.prems Cons.IH [of p] by (subst list_contains_from.simps) (auto simp: a dll_run)
qed

lemma contains_pos:
  assumes "is_dll h l c r"
  shows "DLL_ListContainsPos pos l h = Some (Inr (if pos \<in> fst ` set r then 1 else 0), h)"
proof (cases "pos = 0")
  case True
  then have "pos \<notin> fst ` set r" using assms chain_pos [of "dh_nodes h" 0 r 0 pos] by (auto simp: is_dll_def)
  then show ?thesis using True by (simp add: DLL_ListContainsPos_def dll_run)
next
  case False
  then show ?thesis
    using assms contains_from [of h 0 r pos] by (auto simp: DLL_ListContainsPos_def is_dll_def dll_run)
qed

lemma checked_node_in:
  assumes "is_dll h l c (a @ (p, x) # b)"
  shows "checked_node p l bad f h = f \<lparr>dn_info = x, dn_prev = last_pos 0 a, dn_next = first_pos b 0\<rparr> h"
  using assms contains_pos [OF assms, of p] by (auto simp: checked_node_def is_dll_def dll_run)

lemma checked_node_out: "is_dll h l c r \<Longrightarrow> p \<notin> fst ` set r \<Longrightarrow> checked_node p l bad f h = Some (Inr bad, h)"
  by (simp add: checked_node_def contains_pos dll_run)

lemma GetAt_in: "is_dll h l c (a @ (p, x) # b) \<Longrightarrow> DLL_GetAt p l h = Some (Inr x, h)"
  by (simp add: DLL_GetAt_def checked_node_in dll_run)

lemma GetAt_out: "is_dll h l c r \<Longrightarrow> p \<notin> fst ` set r \<Longrightarrow> DLL_GetAt p l h = Some (Inr 0, h)"
  by (simp add: DLL_GetAt_def checked_node_out)

lemma GetNext_in: "is_dll h l c (a @ (p, x) # b) \<Longrightarrow> DLL_GetNext p l h = Some (Inr (x, first_pos b 0), h)"
  by (simp add: DLL_GetNext_def checked_node_in dll_run)

lemma GetPrev_in: "is_dll h l c (a @ (p, x) # b) \<Longrightarrow> DLL_GetPrev p l h = Some (Inr (x, last_pos 0 a), h)"
  by (simp add: DLL_GetPrev_def checked_node_in dll_run)

lemma GetHead: "is_dll h l c r \<Longrightarrow> DLL_GetHeadPosition l h = Some (Inr (first_pos r 0), h)"
  by (auto simp: DLL_GetHeadPosition_def is_dll_def dll_run)

lemma GetTail: "is_dll h l c r \<Longrightarrow> DLL_GetTailPosition l h = Some (Inr (last_pos 0 r), h)"
  by (auto simp: DLL_GetTailPosition_def is_dll_def dll_run)

lemma GetCount: "is_dll h l c r \<Longrightarrow> DLL_GetCount l h = Some (Inr (int (length r)), h)"
  by (auto simp: DLL_GetCount_def is_dll_def dll_run)

subsection \<open>Changing the data\<close>

lemma SetAt_in:
  assumes "is_dll h l c (a @ (p, x) # b)"
  obtains h' where "DLL_SetAt p y l h = Some (Inr x, h')" and "is_dll h' l c (a @ (p, y) # b)" and "unchanged_but {p} l h h'"
proof
  let ?n = "\<lparr>dn_info = x, dn_prev = last_pos 0 a, dn_next = first_pos b 0\<rparr>"
  let ?h = "h\<lparr>dh_nodes := (dh_nodes h)(p \<mapsto> ?n\<lparr>dn_info := y\<rparr>)\<rparr>"
  have n: "dh_nodes h p = Some ?n" using assms by (simp add: is_dll_def)
  show "DLL_SetAt p y l h = Some (Inr x, ?h)"
    using n by (simp add: DLL_SetAt_def checked_node_in [OF assms] dll_run)
  show "is_dll ?h l c (a @ (p, y) # b)" using assms by (auto simp: is_dll_def)
  show "unchanged_but {p} l h ?h" by (simp add: unchanged_but_def)
qed

subsection \<open>Adding\<close>

definition fresh_node :: "dll_env \<Rightarrow> dheap \<Rightarrow> nat \<Rightarrow> bool" where
  "fresh_node env h q \<longleftrightarrow> malloc_node env h = q \<and> q \<noteq> 0 \<and> dh_nodes h q = None"

lemmas dll_adds = dll_changes new_node_def Let_def fresh_node_def

lemma fresh_not_in: "fresh_node env h q \<Longrightarrow> is_dll h l c r \<Longrightarrow> q \<notin> fst ` set r"
  using chain_pos [of "dh_nodes h" 0 r 0 q] by (auto simp: fresh_node_def is_dll_def)

lemma AddHead:
  assumes "is_dll h l c r" and "fresh_node env h q"
  obtains h' where "DLL_AddHead env x l h = Some (Inr q, h')" and "is_dll h' l c ((q, x) # r)"
    and "unchanged_but ({q} \<union> fst ` set r) l h h'"
proof (cases r)
  case Nil
  show ?thesis
    by (rule that, use assms Nil in \<open>auto simp: DLL_AddHead_def dll_adds dll_run\<close>)
next
  case (Cons a r')
  obtain p y where a: "a = (p, y)" by force
  have q: "q \<notin> fst ` set r" by (rule fresh_not_in [OF assms(2,1)])
  show ?thesis
    by (rule that, use assms q Cons a in \<open>auto simp: DLL_AddHead_def dll_adds dll_run\<close>)
qed

text \<open>At the end, where the last node \<open>p\<close> is linked to the new one.\<close>

lemma AddTail:
  assumes "is_dll h l c r" and "fresh_node env h q"
  obtains h' where "DLL_AddTail env x l h = Some (Inr q, h')" and "is_dll h' l c (r @ [(q, x)])"
    and "unchanged_but ({q} \<union> fst ` set r) l h h'"
proof (cases r rule: rev_cases)
  case Nil
  show ?thesis
    by (rule that, use assms Nil in \<open>auto simp: DLL_AddTail_def dll_adds dll_run\<close>)
next
  case (snoc r' a)
  obtain p y where a: "a = (p, y)" by force
  have q: "q \<notin> fst ` set r" by (rule fresh_not_in [OF assms(2,1)])
  show ?thesis
    by (rule that, use assms q snoc a in \<open>auto simp: DLL_AddTail_def dll_adds dll_run\<close>)
qed

lemma InsertBefore:
  assumes "is_dll h l c (a @ (p, y) # b)" and "fresh_node env h q"
  obtains h' where "DLL_InsertBefore env p x l h = Some (Inr q, h')" and "is_dll h' l c (a @ (q, x) # (p, y) # b)"
    and "unchanged_but ({q} \<union> fst ` set (a @ (p, y) # b)) l h h'"
proof (cases a rule: rev_cases)
  case Nil
  have q: "q \<notin> fst ` set (a @ (p, y) # b)" by (rule fresh_not_in [OF assms(2,1)])
  show ?thesis
    by (rule that, use assms q Nil in \<open>auto simp: DLL_InsertBefore_def dll_adds dll_run\<close>)
next
  case (snoc a' e)
  obtain p' y' where e: "e = (p', y')" by force
  have q: "q \<notin> fst ` set (a @ (p, y) # b)" by (rule fresh_not_in [OF assms(2,1)])
  show ?thesis
    by (rule that, use assms q snoc e in \<open>auto simp: DLL_InsertBefore_def dll_adds dll_run\<close>)
qed

lemma InsertAfter:
  assumes "is_dll h l c (a @ (p, y) # b)" and "fresh_node env h q"
  obtains h' where "DLL_InsertAfter env p x l h = Some (Inr q, h')" and "is_dll h' l c (a @ (p, y) # (q, x) # b)"
    and "unchanged_but ({q} \<union> fst ` set (a @ (p, y) # b)) l h h'"
proof (cases b)
  case Nil
  have q: "q \<notin> fst ` set (a @ (p, y) # b)" by (rule fresh_not_in [OF assms(2,1)])
  show ?thesis
    by (rule that, use assms q Nil in \<open>auto simp: DLL_InsertAfter_def dll_adds dll_run\<close>)
next
  case (Cons e b')
  obtain p' y' where e: "e = (p', y')" by force
  have q: "q \<notin> fst ` set (a @ (p, y) # b)" by (rule fresh_not_in [OF assms(2,1)])
  show ?thesis
    by (rule that, use assms q Cons e in \<open>auto simp: DLL_InsertAfter_def dll_adds dll_run\<close>)
qed

subsection \<open>Removing\<close>

lemma RemoveAt:
  assumes "is_dll h l c (a @ (p, x) # b)"
  obtains h' where "DLL_RemoveAt p l h = Some (Inr x, h')" and "is_dll h' l c (a @ b)" and "dh_nodes h' p = None"
    and "unchanged_but (fst ` set (a @ (p, x) # b)) l h h'"
proof (cases a rule: rev_cases)
  case Nil
  show ?thesis
  proof (cases b)
    case b: Nil
    show ?thesis
      by (rule that, use assms Nil b in \<open>auto simp: DLL_RemoveAt_def checked_node_in [OF assms] dll_changes dll_run\<close>)
  next
    case (Cons e b')
    obtain p' y' where e: "e = (p', y')" by force
    show ?thesis
      by (rule that, use assms Nil Cons e in \<open>auto simp: DLL_RemoveAt_def checked_node_in [OF assms] dll_changes dll_run\<close>)
  qed
next
  case (snoc a' f)
  obtain p'' y'' where f: "f = (p'', y'')" by force
  show ?thesis
  proof (cases b)
    case Nil
    show ?thesis
      by (rule that, use assms Nil snoc f in \<open>auto simp: DLL_RemoveAt_def checked_node_in [OF assms] dll_changes dll_run\<close>)
  next
    case (Cons e b')
    obtain p' y' where e: "e = (p', y')" by force
    show ?thesis
      by (rule that, use assms snoc f Cons e in \<open>auto simp: DLL_RemoveAt_def checked_node_in [OF assms] dll_changes dll_run\<close>)
  qed
qed

lemma remove_all:
  assumes "is_dll h l c r"
  obtains h' where "remove_all_loop l (first_pos r 0) h = Some (Inr (), h')" and "is_dll h' l c []"
    and "\<forall>p \<in> fst ` set r. dh_nodes h' p = None" and "unchanged_but (fst ` set r) l h h'"
  using assms
proof (induction r arbitrary: h thesis)
  case Nil
  then show ?case by (subst (asm) remove_all_loop.simps) (simp add: dll_run unchanged_but_def)
next
  case (Cons a r)
  obtain p x where a: "a = (p, x)" by force
  have d: "is_dll h l c ([] @ (p, x) # r)" using Cons.prems(2) by (simp add: a)
  obtain h1 where h1: "DLL_RemoveAt p l h = Some (Inr x, h1)" "is_dll h1 l c r" "dh_nodes h1 p = None"
      "unchanged_but (fst ` set (a # r)) l h h1"
    using RemoveAt [OF d] by (auto simp: a)
  obtain h2 where h2: "remove_all_loop l (first_pos r 0) h1 = Some (Inr (), h2)" "is_dll h2 l c []"
      "\<forall>p \<in> fst ` set r. dh_nodes h2 p = None" "unchanged_but (fst ` set r) l h1 h2"
    using Cons.IH [OF _ h1(2)] by blast
  have "p \<noteq> 0" using d by (simp add: is_dll_def)
  then have "remove_all_loop l (first_pos (a # r) 0) h = Some (Inr (), h2)"
    using h1(1) h2(1) GetNext_in [OF d] by (subst remove_all_loop.simps) (simp add: a)
  moreover have "dh_nodes h2 p = None"
    using h2(3,4) h1(3) by (cases "p \<in> fst ` set r") (auto simp: unchanged_but_def)
  moreover have "unchanged_but (fst ` set (a # r)) l h h2"
    using h1(4) h2(4) unfolding unchanged_but_def by simp
  ultimately show ?case using Cons.prems(1) h2(2,3) by (simp add: a)
qed

lemma RemoveAll:
  assumes "is_dll h l c r"
  obtains h' where "DLL_RemoveAll l h = Some (Inr (), h')" and "is_dll h' l c []"
    and "\<forall>p \<in> fst ` set r. dh_nodes h' p = None" and "unchanged_but (fst ` set r) l h h'"
proof -
  obtain h' where "remove_all_loop l (first_pos r 0) h = Some (Inr (), h')" "is_dll h' l c []"
      "\<forall>p \<in> fst ` set r. dh_nodes h' p = None" "unchanged_but (fst ` set r) l h h'"
    by (rule remove_all [OF assms])
  then show thesis using that assms by (simp add: DLL_RemoveAll_def GetHead [OF assms] is_dll_def)
qed

subsection \<open>Searching\<close>

definition found_pos :: "(nat \<times> nat) option \<Rightarrow> nat" where
  "found_pos f = (case f of None \<Rightarrow> 0 | Some (p, x) \<Rightarrow> p)"

definition found_data :: "(nat \<times> nat) option \<Rightarrow> nat" where
  "found_data f = (case f of None \<Rightarrow> 0 | Some (p, x) \<Rightarrow> x)"

lemma find_pos_loop:
  "is_dll h l c (a @ b) \<Longrightarrow> find_pos_loop data l (first_pos b 0) h = Some (Inr (found_pos (find (\<lambda>(p, x). x = data) b)), h)"
proof (induction b arbitrary: a)
  case (Cons e b)
  obtain p x where e: "e = (p, x)" by force
  have d: "is_dll h l c (a @ (p, x) # b)" "is_dll h l c ((a @ [(p, x)]) @ b)" using Cons.prems by (simp_all add: e)
  have "p \<noteq> 0" using d(1) by (simp add: is_dll_def)
  then show ?case
    using GetAt_in [OF d(1)] GetNext_in [OF d(1)] Cons.IH [OF d(2)]
    by (subst find_pos_loop.simps) (simp add: e dll_run found_pos_def)
qed (subst find_pos_loop.simps, simp add: dll_run found_pos_def)

lemma find_loop:
  "is_dll h l c (a @ b) \<Longrightarrow> find_loop f data l (first_pos b 0) h = Some (Inr (found_data (find (\<lambda>(p, x). f x data \<noteq> 0) b)), h)"
proof (induction b arbitrary: a)
  case (Cons e b)
  obtain p x where e: "e = (p, x)" by force
  have d: "is_dll h l c (a @ (p, x) # b)" "is_dll h l c ((a @ [(p, x)]) @ b)" using Cons.prems by (simp_all add: e)
  have "p \<noteq> 0" using d(1) by (simp add: is_dll_def)
  then show ?case
    using GetAt_in [OF d(1)] GetNext_in [OF d(1)] Cons.IH [OF d(2)]
    by (subst find_loop.simps) (simp add: e dll_run found_data_def)
qed (subst find_loop.simps, simp add: dll_run found_data_def)

lemma find_index_loop:
  "is_dll h l c (a @ b) \<Longrightarrow> k < length b \<Longrightarrow>
   find_index_loop (i + int k) l i (first_pos b 0) h = Some (Inr (fst (b ! k)), h)"
proof (induction b arbitrary: a i k)
  case (Cons e b)
  obtain p x where e: "e = (p, x)" by force
  have d: "is_dll h l c (a @ (p, x) # b)" "is_dll h l c ((a @ [(p, x)]) @ b)" using Cons.prems(1) by (simp_all add: e)
  have p: "p \<noteq> 0" using d(1) by (simp add: is_dll_def)
  show ?case
  proof (cases k)
    case 0
    then show ?thesis by (subst find_index_loop.simps) (simp add: e dll_run)
  next
    case (Suc k')
    have "find_index_loop (i + 1 + int k') l (i + 1) (first_pos b 0) h = Some (Inr (fst (b ! k')), h)"
      using Cons.IH [OF d(2)] Cons.prems(2) Suc by simp
    then show ?thesis using p GetNext_in [OF d(1)] by (subst find_index_loop.simps) (simp add: e Suc algebra_simps)
  qed
qed simp

lemma FindPos: "is_dll h l c r \<Longrightarrow> DLL_FindPos data l h = Some (Inr (found_pos (find (\<lambda>(p, x). x = data) r)), h)"
  using find_pos_loop [of h l c "[]" r] by (auto simp: DLL_FindPos_def GetHead is_dll_def)

lemma Find:
  "is_dll h l (Some f) r \<Longrightarrow> DLL_Find data l h = Some (Inr (found_data (find (\<lambda>(p, x). f x data \<noteq> 0) r)), h)"
  using find_loop [of h l "Some f" "[]" r] GetHead [of h l "Some f" r]
  by (auto simp: DLL_Find_def is_dll_def dll_run)

lemma FindIndex:
  assumes "is_dll h l c r"
  shows "DLL_FindIndex n l h = Some (Inr (if 0 \<le> n \<and> n < int (length r) then fst (r ! nat n) else 0), h)"
  using find_index_loop [of h l c "[]" r "nat n" 0] assms GetHead [OF assms]
  by (auto simp: DLL_FindIndex_def is_dll_def dll_run)

subsection \<open>The whole interface\<close>

text \<open>The functions on a list, with their arguments besides the list, and what they return.\<close>

datatype dll_op =
    Add_head nat | Add_tail nat | Insert_before nat nat | Insert_after nat nat
  | Remove_at nat | Remove_all | Set_at nat nat
  | Get_at nat | Get_next nat | Get_prev nat | Get_head | Get_tail | Get_count
  | Find_data nat | Find_index int | Contains nat

datatype dll_out = Data nat | Place nat | Data_place nat nat | Number int | Done

fun dll_call :: "dll_env \<Rightarrow> nat \<Rightarrow> dll_op \<Rightarrow> dheap \<Rightarrow> (dll_out, dheap) result" where
  "dll_call env l (Add_head x) h = andthen (DLL_AddHead env x l h) (\<lambda>q. returns (Place q))"
| "dll_call env l (Add_tail x) h = andthen (DLL_AddTail env x l h) (\<lambda>q. returns (Place q))"
| "dll_call env l (Insert_before p x) h = andthen (DLL_InsertBefore env p x l h) (\<lambda>q. returns (Place q))"
| "dll_call env l (Insert_after p x) h = andthen (DLL_InsertAfter env p x l h) (\<lambda>q. returns (Place q))"
| "dll_call env l (Remove_at p) h = andthen (DLL_RemoveAt p l h) (\<lambda>x. returns (Data x))"
| "dll_call env l Remove_all h = andthen (DLL_RemoveAll l h) (\<lambda>_. returns Done)"
| "dll_call env l (Set_at p x) h = andthen (DLL_SetAt p x l h) (\<lambda>y. returns (Data y))"
| "dll_call env l (Get_at p) h = andthen (DLL_GetAt p l h) (\<lambda>x. returns (Data x))"
| "dll_call env l (Get_next p) h = andthen (DLL_GetNext p l h) (\<lambda>(x, q). returns (Data_place x q))"
| "dll_call env l (Get_prev p) h = andthen (DLL_GetPrev p l h) (\<lambda>(x, q). returns (Data_place x q))"
| "dll_call env l Get_head h = andthen (DLL_GetHeadPosition l h) (\<lambda>q. returns (Place q))"
| "dll_call env l Get_tail h = andthen (DLL_GetTailPosition l h) (\<lambda>q. returns (Place q))"
| "dll_call env l Get_count h = andthen (DLL_GetCount l h) (\<lambda>n. returns (Number n))"
| "dll_call env l (Find_data d) h = andthen (DLL_Find d l h) (\<lambda>x. returns (Data x))"
| "dll_call env l (Find_index n) h = andthen (DLL_FindIndex n l h) (\<lambda>q. returns (Place q))"
| "dll_call env l (Contains p) h = andthen (DLL_ListContainsPos p l h) (\<lambda>n. returns (Number n))"

text \<open>
  The same on the list of the nodes. The data at a position is 0, \<open>NULL\<close>, when no node is there; the position behind
  the last node is 0.
\<close>

definition data_at :: "nat \<Rightarrow> (nat \<times> nat) list \<Rightarrow> nat" where
  "data_at p r = (case map_of r p of None \<Rightarrow> 0 | Some x \<Rightarrow> x)"

fun place_behind :: "nat \<Rightarrow> nat list \<Rightarrow> nat" where
  "place_behind p [] = p"
| "place_behind p (q # qs) = (if q = p then (case qs of [] \<Rightarrow> 0 | q' # _ \<Rightarrow> q') else place_behind p qs)"

definition put_at :: "nat \<Rightarrow> nat \<times> nat \<Rightarrow> (nat \<times> nat) list \<Rightarrow> (nat \<times> nat) list" where
  "put_at i e r = take i r @ e # drop i r"

definition position :: "nat \<Rightarrow> (nat \<times> nat) list \<Rightarrow> nat" where
  "position p r = length (takeWhile (\<lambda>e. fst e \<noteq> p) r)"

fun list_does :: "(nat \<Rightarrow> nat \<Rightarrow> int) option \<Rightarrow> nat \<Rightarrow> dll_op \<Rightarrow> (nat \<times> nat) list \<Rightarrow> dll_out \<times> (nat \<times> nat) list" where
  "list_does c q (Add_head x) r = (Place q, (q, x) # r)"
| "list_does c q (Add_tail x) r = (Place q, r @ [(q, x)])"
| "list_does c q (Insert_before p x) r = (Place q, put_at (position p r) (q, x) r)"
| "list_does c q (Insert_after p x) r = (Place q, put_at (position p r + 1) (q, x) r)"
| "list_does c q (Remove_at p) r = (Data (data_at p r), filter (\<lambda>e. fst e \<noteq> p) r)"
| "list_does c q Remove_all r = (Done, [])"
| "list_does c q (Set_at p x) r = (Data (data_at p r), map (\<lambda>e. if fst e = p then (p, x) else e) r)"
| "list_does c q (Get_at p) r = (Data (data_at p r), r)"
| "list_does c q (Get_next p) r = (Data_place (data_at p r) (place_behind p (map fst r)), r)"
| "list_does c q (Get_prev p) r = (Data_place (data_at p r) (place_behind p (rev (map fst r))), r)"
| "list_does c q Get_head r = (Place (if r = [] then 0 else fst (hd r)), r)"
| "list_does c q Get_tail r = (Place (if r = [] then 0 else fst (List.last r)), r)"
| "list_does c q Get_count r = (Number (int (length r)), r)"
| "list_does c q (Find_data d) r =
     (Data (case c of None \<Rightarrow> 0 | Some f \<Rightarrow> (case filter (\<lambda>x. f x d \<noteq> 0) (map snd r) of [] \<Rightarrow> 0 | x # _ \<Rightarrow> x)), r)"
| "list_does c q (Find_index n) r = (Place (if 0 \<le> n \<and> n < int (length r) then fst (r ! nat n) else 0), r)"
| "list_does c q (Contains p) r = (Number (if p \<in> fst ` set r then 1 else 0), r)"

text \<open>The two insertions do not test their position, which must be that of a node.\<close>

fun place_known :: "dll_op \<Rightarrow> (nat \<times> nat) list \<Rightarrow> bool" where
  "place_known (Insert_before p x) r \<longleftrightarrow> p \<in> fst ` set r"
| "place_known (Insert_after p x) r \<longleftrightarrow> p \<in> fst ` set r"
| "place_known _ r \<longleftrightarrow> True"

subsubsection \<open>One operation after the other\<close>

definition does :: "(dll_out, dheap) result \<Rightarrow> nat \<Rightarrow> (nat \<Rightarrow> nat \<Rightarrow> int) option \<Rightarrow> nat set \<Rightarrow> dheap \<Rightarrow> dll_out \<times> (nat \<times> nat) list \<Rightarrow> bool" where
  "does res l c P h spec \<longleftrightarrow>
     (\<exists>h'. res = Some (Inr (fst spec), h') \<and> is_dll h' l c (snd spec) \<and> unchanged_but P l h h' \<and>
        (\<forall>p \<in> P. p \<notin> fst ` set (snd spec) \<longrightarrow> dh_nodes h' p = None))"

lemma unchanged_refl [simp]: "unchanged_but P l h h"
  by (simp add: unchanged_but_def)

text \<open>A list split at one of its positions.\<close>

lemma split_at:
  assumes "p \<in> fst ` set r" obtains a x b where "r = a @ (p, x) # b"
  using assms that by (metis (no_types, lifting) imageE prod.collapse split_list)

lemma at_split:
  assumes "distinct (map fst (a @ (p, x) # b))"
  shows "data_at p (a @ (p, x) # b) = x" "position p (a @ (p, x) # b) = length a"
    "filter (\<lambda>e. fst e \<noteq> p) (a @ (p, x) # b) = a @ b"
    "map (\<lambda>e. if fst e = p then (p, y) else e) (a @ (p, x) # b) = a @ (p, y) # b"
    "place_behind p (map fst (a @ (p, x) # b)) = first_pos b 0"
    "place_behind p (rev (map fst (a @ (p, x) # b))) = last_pos 0 a"
proof -
  have p: "p \<notin> fst ` set a" "p \<notin> fst ` set b" using assms by auto
  then have "map_of a p = None" by (simp add: map_of_eq_None_iff)
  then show "data_at p (a @ (p, x) # b) = x" by (simp add: data_at_def map_add_def)
  have a: "\<forall>e \<in> set a. fst e \<noteq> p" and b: "\<forall>e \<in> set b. fst e \<noteq> p" using p by auto
  then show "position p (a @ (p, x) # b) = length a" by (simp add: position_def takeWhile_append)
  show "filter (\<lambda>e. fst e \<noteq> p) (a @ (p, x) # b) = a @ b"
    using a b by (simp add: filter_id_conv)
  show "map (\<lambda>e. if fst e = p then (p, y) else e) (a @ (p, x) # b) = a @ (p, y) # b"
    using a b by (simp add: map_idI)
  have skip: "place_behind p (l @ p # l') = (case l' of [] \<Rightarrow> 0 | q # _ \<Rightarrow> q)" if "p \<notin> set l" for l l'
    using that by (induction l) auto
  show "place_behind p (map fst (a @ (p, x) # b)) = first_pos b 0"
    using skip [of "map fst a" "map fst b"] p(1) by (cases b) auto
  show "place_behind p (rev (map fst (a @ (p, x) # b))) = last_pos 0 a"
    using skip [of "rev (map fst b)" "rev (map fst a)"] p(2) by (cases a rule: rev_cases) auto
qed

lemma at_missing:
  assumes "p \<notin> fst ` set r"
  shows "data_at p r = 0" "filter (\<lambda>e. fst e \<noteq> p) r = r" "map (\<lambda>e. if fst e = p then (p, y) else e) r = r"
    "place_behind p (map fst r) = p" "place_behind p (rev (map fst r)) = p"
proof -
  have "place_behind p l = p" if "p \<notin> set l" for l using that by (induction l) auto
  then show "place_behind p (map fst r) = p" "place_behind p (rev (map fst r)) = p" using assms by simp_all
  have "map_of r p = None" using assms by (simp add: map_of_eq_None_iff)
  then show "data_at p r = 0" by (simp add: data_at_def)
  show "filter (\<lambda>e. fst e \<noteq> p) r = r" using assms by (force simp: filter_id_conv)
  show "map (\<lambda>e. if fst e = p then (p, y) else e) r = r" using assms by (force intro: map_idI)
qed

lemma positions_distinct: "is_dll h l c r \<Longrightarrow> distinct (map fst r)"
  by (simp add: is_dll_def)

text \<open>What is at \<open>q\<close>, which is free, does not matter to the operations that add nothing.\<close>

lemma doesI:
  assumes "res = Some (Inr d, h')" and "is_dll h' l c r'" and "unchanged_but (insert q (fst ` set r)) l h h'"
    and "q \<in> fst ` set r' \<or> dh_nodes h' q = None" and "\<And>p. p \<in> fst ` set r \<Longrightarrow> p \<notin> fst ` set r' \<Longrightarrow> dh_nodes h' p = None"
  shows "does res l c (insert q (fst ` set r)) h (d, r')"
  using assms by (auto simp: does_def)

lemma does_keep:
  "is_dll h l c r \<Longrightarrow> res = Some (Inr d, h) \<Longrightarrow> dh_nodes h q = None \<Longrightarrow> does res l c (insert q (fst ` set r)) h (d, r)"
  by (auto simp: does_def)

lemma fresh_free: "fresh_node env h q \<Longrightarrow> dh_nodes h q = None"
  by (simp add: fresh_node_def)

lemma unchanged_mono: "unchanged_but P l h h' \<Longrightarrow> P \<subseteq> P' \<Longrightarrow> unchanged_but P' l h h'"
  unfolding unchanged_but_def by blast

lemma adds_do:
  assumes "is_dll h l c r" and "fresh_node env h q"
  shows "does (dll_call env l (Add_head x) h) l c (insert q (fst ` set r)) h (list_does c q (Add_head x) r)"
    and "does (dll_call env l (Add_tail x) h) l c (insert q (fst ` set r)) h (list_does c q (Add_tail x) r)"
proof -
  obtain h1 where "DLL_AddHead env x l h = Some (Inr q, h1)" "is_dll h1 l c ((q, x) # r)" "unchanged_but ({q} \<union> fst ` set r) l h h1"
    by (rule AddHead [OF assms])
  then show "does (dll_call env l (Add_head x) h) l c (insert q (fst ` set r)) h (list_does c q (Add_head x) r)"
    unfolding list_does.simps by (intro doesI [where h' = h1]) (auto simp: returns_def)
  obtain h2 where "DLL_AddTail env x l h = Some (Inr q, h2)" "is_dll h2 l c (r @ [(q, x)])" "unchanged_but ({q} \<union> fst ` set r) l h h2"
    by (rule AddTail [OF assms])
  then show "does (dll_call env l (Add_tail x) h) l c (insert q (fst ` set r)) h (list_does c q (Add_tail x) r)"
    unfolding list_does.simps by (intro doesI [where h' = h2]) (auto simp: returns_def)
qed

lemma inserts_do:
  assumes "is_dll h l c r" and "fresh_node env h q" and "p \<in> fst ` set r"
  shows "does (dll_call env l (Insert_before p x) h) l c (insert q (fst ` set r)) h (list_does c q (Insert_before p x) r)"
    and "does (dll_call env l (Insert_after p x) h) l c (insert q (fst ` set r)) h (list_does c q (Insert_after p x) r)"
proof -
  obtain a y b where r: "r = a @ (p, y) # b" by (rule split_at [OF assms(3)])
  have d: "is_dll h l c (a @ (p, y) # b)" using assms(1) r by simp
  note at = at_split [OF positions_distinct [OF d]]
  obtain h1 where "DLL_InsertBefore env p x l h = Some (Inr q, h1)" "is_dll h1 l c (a @ (q, x) # (p, y) # b)"
      "unchanged_but ({q} \<union> fst ` set (a @ (p, y) # b)) l h h1"
    by (rule InsertBefore [OF d assms(2)])
  then show "does (dll_call env l (Insert_before p x) h) l c (insert q (fst ` set r)) h (list_does c q (Insert_before p x) r)"
    unfolding list_does.simps r at put_at_def by (intro doesI [where h' = h1]) (auto simp: returns_def insert_commute)
  obtain h2 where "DLL_InsertAfter env p x l h = Some (Inr q, h2)" "is_dll h2 l c (a @ (p, y) # (q, x) # b)"
      "unchanged_but ({q} \<union> fst ` set (a @ (p, y) # b)) l h h2"
    by (rule InsertAfter [OF d assms(2)])
  then show "does (dll_call env l (Insert_after p x) h) l c (insert q (fst ` set r)) h (list_does c q (Insert_after p x) r)"
    unfolding list_does.simps r at put_at_def by (intro doesI [where h' = h2]) (auto simp: returns_def insert_commute)
qed

lemma RemoveAt_out: "is_dll h l c r \<Longrightarrow> p \<notin> fst ` set r \<Longrightarrow> DLL_RemoveAt p l h = Some (Inr 0, h)"
  by (simp add: DLL_RemoveAt_def checked_node_out)

lemma SetAt_out: "is_dll h l c r \<Longrightarrow> p \<notin> fst ` set r \<Longrightarrow> DLL_SetAt p x l h = Some (Inr 0, h)"
  by (simp add: DLL_SetAt_def checked_node_out)

lemma GetNext_out: "is_dll h l c r \<Longrightarrow> p \<notin> fst ` set r \<Longrightarrow> DLL_GetNext p l h = Some (Inr (0, p), h)"
  by (simp add: DLL_GetNext_def checked_node_out)

lemma GetPrev_out: "is_dll h l c r \<Longrightarrow> p \<notin> fst ` set r \<Longrightarrow> DLL_GetPrev p l h = Some (Inr (0, p), h)"
  by (simp add: DLL_GetPrev_def checked_node_out)

lemma changes_do:
  assumes "is_dll h l c r" and "dh_nodes h q = None"
  shows "does (dll_call env l (Remove_at p) h) l c (insert q (fst ` set r)) h (list_does c q (Remove_at p) r)"
    and "does (dll_call env l (Set_at p x) h) l c (insert q (fst ` set r)) h (list_does c q (Set_at p x) r)"
    and "does (dll_call env l Remove_all h) l c (insert q (fst ` set r)) h (list_does c q Remove_all r)"
proof -
  have q: "q \<notin> fst ` set r" using assms chain_pos [of "dh_nodes h" 0 r 0 q] by (auto simp: is_dll_def)
  show "does (dll_call env l (Remove_at p) h) l c (insert q (fst ` set r)) h (list_does c q (Remove_at p) r)"
  proof (cases "p \<in> fst ` set r")
    case True
    obtain a y b where r: "r = a @ (p, y) # b" by (rule split_at [OF True])
    have d: "is_dll h l c (a @ (p, y) # b)" using assms(1) r by simp
    obtain h1 where h1: "DLL_RemoveAt p l h = Some (Inr y, h1)" "is_dll h1 l c (a @ b)" "dh_nodes h1 p = None"
        "unchanged_but (fst ` set (a @ (p, y) # b)) l h h1"
      by (rule RemoveAt [OF d])
    have "dh_nodes h1 q = None" using h1(4) q assms(2) unfolding unchanged_but_def r by metis
    then show ?thesis
      using h1 unfolding list_does.simps r at_split [OF positions_distinct [OF d]]
      by (intro doesI [where h' = h1]) (auto simp: returns_def intro: unchanged_mono)
  next
    case False
    then show ?thesis
      using RemoveAt_out [OF assms(1) False] by (simp add: at_missing returns_def does_keep assms)
  qed
  show "does (dll_call env l (Set_at p x) h) l c (insert q (fst ` set r)) h (list_does c q (Set_at p x) r)"
  proof (cases "p \<in> fst ` set r")
    case True
    obtain a y b where r: "r = a @ (p, y) # b" by (rule split_at [OF True])
    have d: "is_dll h l c (a @ (p, y) # b)" using assms(1) r by simp
    obtain h1 where h1: "DLL_SetAt p x l h = Some (Inr y, h1)" "is_dll h1 l c (a @ (p, x) # b)" "unchanged_but {p} l h h1"
      by (rule SetAt_in [OF d])
    have "q \<noteq> p" using q True by blast
    then have "dh_nodes h1 q = None" using h1(3) assms(2) unfolding unchanged_but_def by simp
    then show ?thesis
      using h1 unfolding list_does.simps r at_split [OF positions_distinct [OF d]]
      by (intro doesI [where h' = h1]) (auto simp: returns_def intro: unchanged_mono)
  next
    case False
    then show ?thesis
      using SetAt_out [OF assms(1) False] by (simp add: at_missing returns_def does_keep assms)
  qed
  obtain h1 where h1: "DLL_RemoveAll l h = Some (Inr (), h1)" "is_dll h1 l c []"
      "\<forall>p \<in> fst ` set r. dh_nodes h1 p = None" "unchanged_but (fst ` set r) l h h1"
    by (rule RemoveAll [OF assms(1)])
  have "dh_nodes h1 q = None" using h1(4) q assms(2) unfolding unchanged_but_def by metis
  then show "does (dll_call env l Remove_all h) l c (insert q (fst ` set r)) h (list_does c q Remove_all r)"
    using h1 unfolding list_does.simps by (intro doesI [where h' = h1]) (auto simp: returns_def intro: unchanged_mono)
qed

lemma find_filter: "found_data (find (\<lambda>(p, x). P x) r) = (case filter P (map snd r) of [] \<Rightarrow> 0 | x # _ \<Rightarrow> x)"
  by (induction r) (auto simp: found_data_def)

lemma looks_do:
  assumes "is_dll h l c r" and "dh_nodes h q = None" and "op \<in> {Get_at p, Get_next p, Get_prev p, Contains p}"
  shows "does (dll_call env l op h) l c (insert q (fst ` set r)) h (list_does c q op r)"
proof (cases "p \<in> fst ` set r")
  case True
  obtain a y b where r: "r = a @ (p, y) # b" by (rule split_at [OF True])
  have d: "is_dll h l c (a @ (p, y) # b)" using assms(1) r by simp
  note at = at_split [OF positions_distinct [OF d]]
  show ?thesis
    using assms(3) GetAt_in [OF d] GetNext_in [OF d] GetPrev_in [OF d] contains_pos [OF d, of p] unfolding r
    by (auto simp only: dll_call.simps list_does.simps at intro!: does_keep [OF d _ assms(2)]) (simp_all add: returns_def)
next
  case False
  show ?thesis
    using assms(3) GetAt_out [OF assms(1) False] GetNext_out [OF assms(1) False] GetPrev_out [OF assms(1) False] contains_pos [OF assms(1), of p] False
    by (auto simp: at_missing returns_def intro!: does_keep assms)
qed

lemma ends_do:
  assumes "is_dll h l c r" and "dh_nodes h q = None" and "op \<in> {Get_head, Get_tail, Get_count, Find_index n}"
  shows "does (dll_call env l op h) l c (insert q (fst ` set r)) h (list_does c q op r)"
proof -
  have "first_pos r 0 = (if r = [] then 0 else fst (hd r))" by (cases r) auto
  moreover have "last_pos 0 r = (if r = [] then 0 else fst (List.last r))" by (cases r rule: rev_cases) auto
  ultimately show ?thesis
    using assms(1,3) GetHead [OF assms(1)] GetTail [OF assms(1)] GetCount [OF assms(1)] FindIndex [OF assms(1), of n]
    by (auto simp: returns_def simp del: list.set intro!: does_keep assms(2))
qed

lemma find_does:
  assumes "is_dll h l c r" and "dh_nodes h q = None"
  shows "does (dll_call env l (Find_data d) h) l c (insert q (fst ` set r)) h (list_does c q (Find_data d) r)"
proof (cases c)
  case None
  have "DLL_Find d l h = Some (Inr 0, h)" using assms(1) None by (auto simp: DLL_Find_def is_dll_def dll_run)
  then show ?thesis using None assms by (auto simp: returns_def intro!: does_keep)
next
  case (Some f)
  then show ?thesis
    using Find [of h l f r d] assms by (auto simp: find_filter returns_def intro!: does_keep)
qed

lemma DLL_Create_empty:
  assumes "malloc_list env h = k" and "k \<noteq> 0"
  shows "\<exists>h'. DLL_Create env h = Some (Inr k, h') \<and> is_dll h' k None [] \<and> unchanged_but {} k h h'"
  using assms by (simp add: DLL_Create_def returns_def is_dll_def empty_DLLIST_def unchanged_but_def)

lemma DLL_Delete_frees:
  assumes "is_dll h l c r"
  shows "\<exists>h'. DLL_Delete l h = Some (Inr (), h') \<and> dh_lists h' l = None \<and> (\<forall>p \<in> fst ` set r. dh_nodes h' p = None) \<and>
    unchanged_but (fst ` set r) l h h'"
proof -
  obtain h1 where "DLL_RemoveAll l h = Some (Inr (), h1)" "\<forall>p \<in> fst ` set r. dh_nodes h1 p = None" "unchanged_but (fst ` set r) l h h1"
    by (rule RemoveAll [OF assms])
  then show ?thesis using assms by (simp add: DLL_Delete_def returns_def is_dll_def unchanged_but_def)
qed

text \<open>
  C29: From every state in which a list is in memory as a chain of nodes with pointers in both directions, its head, its
  tail and its count, each function on it returns, takes no pointer that leads nowhere, and does to the list of its nodes
  and returns what the function of that name does on lists: the two additions, the two insertions at a node of the list,
  removal and change of the data at a position, removal of all, the data and the neighbours at a position, the two
  ends, the count, the search by the compare function and by index, and the test for a position. The new state is a list in
  memory again; the nodes taken out are freed, and no other node and no other list is touched. A position that is not in
  the list gives \<open>NULL\<close> and changes nothing. Deletion frees the nodes and the list, and creation gives an empty
  one. \<open>malloc\<close> is taken to give a new address.
\<close>

theorem dll_refines_list:
  assumes "is_dll h l c r" and "fresh_node env h q" and "place_known op r"
  shows "does (dll_call env l op h) l c (insert q (fst ` set r)) h (list_does c q op r) \<and>
    (\<exists>h'. DLL_Delete l h = Some (Inr (), h') \<and> dh_lists h' l = None \<and> (\<forall>p \<in> fst ` set r. dh_nodes h' p = None) \<and>
       unchanged_but (fst ` set r) l h h') \<and>
    (malloc_list env h \<noteq> 0 \<longrightarrow>
       (\<exists>h'. DLL_Create env h = Some (Inr (malloc_list env h), h') \<and> is_dll h' (malloc_list env h) None [] \<and>
          unchanged_but {} (malloc_list env h) h h'))"
proof (intro conjI impI)
  note q = fresh_free [OF assms(2)]
  show "does (dll_call env l op h) l c (insert q (fst ` set r)) h (list_does c q op r)"
  proof -
    consider p where "op \<in> {Get_at p, Get_next p, Get_prev p, Contains p}"
      | n where "op \<in> {Get_head, Get_tail, Get_count, Find_index n}"
      | "\<nexists>p. op \<in> {Get_at p, Get_next p, Get_prev p, Contains p}" "\<nexists>n. op \<in> {Get_head, Get_tail, Get_count, Find_index n}"
      by blast
    then show ?thesis
    proof cases
      case 3
      then show ?thesis
        using assms(3)
        by (cases op) (simp_all only: place_known.simps adds_do [OF assms(1,2)] inserts_do [OF assms(1,2)]
            changes_do [OF assms(1) q] find_does [OF assms(1) q], auto)
    qed (use looks_do [OF assms(1) q] ends_do [OF assms(1) q] in blast)+
  qed
qed (rule DLL_Delete_frees [OF assms(1)], rule DLL_Create_empty [OF refl])

text \<open>A heap with one list of two nodes.\<close>

definition two_node_heap :: dheap where
  "two_node_heap =
     \<lparr>dh_nodes = [4 \<mapsto> \<lparr>dn_info = 40, dn_prev = 0, dn_next = 5\<rparr>, 5 \<mapsto> \<lparr>dn_info = 50, dn_prev = 4, dn_next = 0\<rparr>],
      dh_lists = [1 \<mapsto> \<lparr>dl_count = 2, dl_head = 4, dl_tail = 5, dl_compare = Some (\<lambda>x y. if y < x then 1 else 0)\<rparr>]\<rparr>"

definition least_free :: "(nat \<rightharpoonup> 'v) \<Rightarrow> nat" where
  "least_free m = Suc (Max (insert 0 (dom m)))"

definition plain_malloc :: dll_env where
  "plain_malloc = \<lparr>malloc_node = (\<lambda>h. least_free (dh_nodes h)), malloc_list = (\<lambda>h. least_free (dh_lists h))\<rparr>"

lemma least_free_fresh: "finite (dom m) \<Longrightarrow> m (least_free m) = None"
proof (rule ccontr)
  assume "finite (dom m)" "m (least_free m) \<noteq> None"
  then have "least_free m \<le> Max (insert 0 (dom m))" by (intro Max_ge) auto
  then show False by (simp add: least_free_def)
qed

lemma two_nodes_list: "is_dll two_node_heap 1 (Some (\<lambda>x y. if y < x then 1 else 0)) [(4, 40), (5, 50)]"
  by (simp add: two_node_heap_def is_dll_def)

theorem dll_refines_list_witness:
  "\<exists>h'. dll_call plain_malloc 1 (Insert_before 5 45) two_node_heap = Some (Inr (Place 6), h') \<and>
     is_dll h' 1 (Some (\<lambda>x y. if y < x then 1 else 0)) [(4, 40), (6, 45), (5, 50)]"
proof -
  have "fresh_node plain_malloc two_node_heap 6"
    by (simp add: fresh_node_def plain_malloc_def least_free_def two_node_heap_def)
  from dll_refines_list [OF two_nodes_list this, of "Insert_before 5 45"] show ?thesis
    by (auto simp: does_def put_at_def position_def)
qed

end
