(* ===== verification/DLListSort.thy ===== *)
theory DLListSort
  imports DLListRefine
begin

text \<open>
  \<open>bubble_sort\<close> of a doubly linked list: the passes over the data with their effect at each index, and the whole sort.
\<close>

subsection \<open>Passes over a list\<close>

text \<open>A comparison function orders: it says of two elements that they must be exchanged.\<close>

definition ordering_comparison :: "('a \<Rightarrow> 'a \<Rightarrow> bool) \<Rightarrow> bool" where
  "ordering_comparison gt \<longleftrightarrow> (\<forall>x y z. \<not> gt x y \<longrightarrow> \<not> gt y z \<longrightarrow> \<not> gt x z) \<and> (\<forall>x y. gt x y \<longrightarrow> \<not> gt y x)"

lemma ordering_irrefl: "ordering_comparison gt \<Longrightarrow> \<not> gt x x"
  unfolding ordering_comparison_def by blast

lemma ordering_asym: "ordering_comparison gt \<Longrightarrow> gt x y \<Longrightarrow> \<not> gt y x"
  unfolding ordering_comparison_def by blast

lemma ordering_trans: "ordering_comparison gt \<Longrightarrow> \<not> gt x y \<Longrightarrow> \<not> gt y z \<Longrightarrow> \<not> gt x z"
  unfolding ordering_comparison_def by blast

definition swap :: "nat \<Rightarrow> nat \<Rightarrow> 'a list \<Rightarrow> 'a list" where
  "swap i j xs = xs[i := xs ! j, j := xs ! i]"

definition order_pair :: "('a \<Rightarrow> 'a \<Rightarrow> bool) \<Rightarrow> nat \<Rightarrow> 'a list \<Rightarrow> 'a list" where
  "order_pair gt i xs = (if gt (xs ! i) (xs ! Suc i) then swap i (Suc i) xs else xs)"

primrec pass_down :: "('a \<Rightarrow> 'a \<Rightarrow> bool) \<Rightarrow> nat \<Rightarrow> nat \<Rightarrow> 'a list \<Rightarrow> 'a list \<times> bool" where
  "pass_down gt 0 i xs = (xs, False)"
| "pass_down gt (Suc k) i xs =
     (case pass_down gt k (Suc i) (order_pair gt i xs) of (ys, e) \<Rightarrow> (ys, e \<or> gt (xs ! i) (xs ! Suc i)))"

primrec pass_up :: "('a \<Rightarrow> 'a \<Rightarrow> bool) \<Rightarrow> nat \<Rightarrow> nat \<Rightarrow> 'a list \<Rightarrow> 'a list \<times> bool" where
  "pass_up gt 0 i xs = (xs, False)"
| "pass_up gt (Suc k) i xs =
     (case pass_up gt k (i - 1) (order_pair gt (i - 1) xs) of (ys, e) \<Rightarrow> (ys, e \<or> gt (xs ! (i - 1)) (xs ! i)))"

lemma length_order_pair [simp]: "length (order_pair gt i xs) = length xs"
  by (simp add: order_pair_def swap_def)

lemma nth_order_pair:
  "Suc i < length xs \<Longrightarrow> order_pair gt i xs ! j =
     (if gt (xs ! i) (xs ! Suc i) \<and> j = i then xs ! Suc i else if gt (xs ! i) (xs ! Suc i) \<and> j = Suc i then xs ! i else xs ! j)"
  by (auto simp: order_pair_def swap_def nth_list_update)

lemma mset_order_pair [simp]: "Suc i < length xs \<Longrightarrow> mset (order_pair gt i xs) = mset xs"
  by (simp add: order_pair_def swap_def mset_swap)

lemma order_pair_image: "Suc i < length xs \<Longrightarrow> i \<in> A \<Longrightarrow> Suc i \<in> A \<Longrightarrow> (\<lambda>j. order_pair gt i xs ! j) ` A = (\<lambda>j. xs ! j) ` A"
  by (auto simp: nth_order_pair image_iff)

text \<open>What a pass over the indexes from \<open>a\<close> to \<open>b\<close> leaves.\<close>

definition same_range :: "nat \<Rightarrow> nat \<Rightarrow> 'a list \<Rightarrow> 'a list \<Rightarrow> bool" where
  "same_range a b xs ys \<longleftrightarrow> length ys = length xs \<and> mset ys = mset xs \<and>
     (\<forall>j. j < a \<or> b < j \<longrightarrow> ys ! j = xs ! j) \<and> (\<lambda>j. ys ! j) ` {a..b} = (\<lambda>j. xs ! j) ` {a..b}"

lemma same_range_refl: "same_range a b xs xs"
  by (simp add: same_range_def)

lemma same_range_pair: "Suc i < length xs \<Longrightarrow> a \<le> i \<Longrightarrow> Suc i \<le> b \<Longrightarrow> same_range a b xs (order_pair gt i xs)"
  by (simp add: same_range_def order_pair_image) (auto simp: nth_order_pair)

lemma same_range_wider:
  assumes "same_range a b xs ys" and "a' \<le> a" and "b \<le> b'" shows "same_range a' b' xs ys"
proof -
  have "(\<lambda>j. zs ! j) ` {a'..b'} = (\<lambda>j. zs ! j) ` ({a'..b'} - {a..b}) \<union> (\<lambda>j. zs ! j) ` ({a..b} \<inter> {a'..b'})" for zs :: "'a list"
    by blast
  moreover have "{a..b} \<inter> {a'..b'} = {a..b}" using assms(2,3) by auto
  moreover have "(\<lambda>j. ys ! j) ` ({a'..b'} - {a..b}) = (\<lambda>j. xs ! j) ` ({a'..b'} - {a..b})"
    using assms(1) by (intro image_cong) (auto simp: same_range_def)
  ultimately show ?thesis using assms unfolding same_range_def by auto
qed

lemma same_range_trans: "same_range a b xs ys \<Longrightarrow> same_range a b ys zs \<Longrightarrow> same_range a b xs zs"
  by (simp add: same_range_def)

lemma in_range_from: "same_range a b xs ys \<Longrightarrow> a \<le> j \<Longrightarrow> j \<le> b \<Longrightarrow> \<exists>k. a \<le> k \<and> k \<le> b \<and> ys ! j = xs ! k"
  "same_range a b xs ys \<Longrightarrow> a \<le> j \<Longrightarrow> j \<le> b \<Longrightarrow> \<exists>k. a \<le> k \<and> k \<le> b \<and> xs ! j = ys ! k"
  unfolding same_range_def by (metis (no_types, lifting) atLeastAtMost_iff imageE image_eqI)+

lemma pass_down_ok:
  assumes "ordering_comparison gt" and "i + k < length xs" and "pass_down gt k i xs = (ys, e)"
  shows "same_range i (i + k) xs ys \<and> (\<forall>j. i \<le> j \<and> j \<le> i + k \<longrightarrow> \<not> gt (ys ! j) (ys ! (i + k))) \<and>
    (\<not> e \<longrightarrow> ys = xs \<and> (\<forall>j. i \<le> j \<and> j < i + k \<longrightarrow> \<not> gt (xs ! j) (xs ! Suc j)))"
  using assms(2,3)
proof (induction k arbitrary: i xs ys e)
  case 0
  then show ?case using ordering_irrefl [OF assms(1)] by (auto simp: same_range_refl dest: le_antisym)
next
  case (Suc k)
  let ?xs = "order_pair gt i xs"
  obtain e' where p: "pass_down gt k (Suc i) ?xs = (ys, e')" "e \<longleftrightarrow> e' \<or> gt (xs ! i) (xs ! Suc i)"
    using Suc.prems(2) by (auto split: prod.splits)
  note ih = Suc.IH [OF _ p(1)]
  have rng: "same_range (Suc i) (i + Suc k) ?xs ys" using ih Suc.prems(1) by simp
  have "same_range i (i + Suc k) xs ?xs" using Suc.prems(1) by (intro same_range_pair) auto
  then have all: "same_range i (i + Suc k) xs ys"
    using same_range_wider [OF rng, of i "i + Suc k"] by (auto intro: same_range_trans)
  have first: "\<not> gt (ys ! i) (ys ! (i + Suc k))"
  proof -
    have "ys ! i = ?xs ! i" using rng by (simp add: same_range_def)
    moreover have "\<not> gt (?xs ! i) (?xs ! Suc i)"
      using Suc.prems(1) assms(1) by (auto simp: nth_order_pair dest: ordering_asym)
    moreover obtain j where "Suc i \<le> j" "j \<le> i + Suc k" "?xs ! Suc i = ys ! j" using in_range_from(2) [OF rng, of "Suc i"] by auto
    moreover have "\<not> gt (ys ! j) (ys ! (i + Suc k))" using ih Suc.prems(1) calculation by simp
    ultimately show ?thesis using ordering_trans [OF assms(1)] by metis
  qed
  moreover have "\<not> gt (ys ! j) (ys ! (i + Suc k))" if "i \<le> j" "j \<le> i + Suc k" for j
    using first ih Suc.prems(1) that by (cases "j = i") auto
  moreover have "ys = xs \<and> (\<forall>j. i \<le> j \<and> j < i + Suc k \<longrightarrow> \<not> gt (xs ! j) (xs ! Suc j))" if "\<not> e"
  proof -
    have ne: "\<not> e'" "\<not> gt (xs ! i) (xs ! Suc i)" "?xs = xs" using that p(2) by (auto simp: order_pair_def)
    moreover have "\<not> gt (xs ! j) (xs ! Suc j)" if "i \<le> j" "j < i + Suc k" for j
      using ih Suc.prems(1) ne that by (cases "j = i") auto
    ultimately show ?thesis using ih Suc.prems(1) by simp
  qed
  ultimately show ?case using all by blast
qed

lemma pass_up_ok:
  assumes "ordering_comparison gt" and "k \<le> i" and "i < length xs" and "pass_up gt k i xs = (ys, e)"
  shows "same_range (i - k) i xs ys \<and> (\<forall>j. i - k \<le> j \<and> j \<le> i \<longrightarrow> \<not> gt (ys ! (i - k)) (ys ! j)) \<and>
    (\<not> e \<longrightarrow> ys = xs \<and> (\<forall>j. i - k \<le> j \<and> j < i \<longrightarrow> \<not> gt (xs ! j) (xs ! Suc j)))"
  using assms(2-4)
proof (induction k arbitrary: i xs ys e)
  case 0
  then show ?case using ordering_irrefl [OF assms(1)] by (auto simp: same_range_refl dest: le_antisym)
next
  case (Suc k)
  define m where "m = i - 1"
  then have i: "i = Suc m" "k \<le> m" "Suc m < length xs" using Suc.prems by auto
  let ?xs = "order_pair gt m xs"
  obtain e' where p: "pass_up gt k m ?xs = (ys, e')" "e \<longleftrightarrow> e' \<or> gt (xs ! m) (xs ! Suc m)"
    using Suc.prems(3) by (auto simp: i split: prod.splits)
  note ih = Suc.IH [OF i(2) _ p(1)]
  have rng: "same_range (m - k) m ?xs ys" using ih i by simp
  have "same_range (m - k) (Suc m) xs ?xs" using i by (intro same_range_pair) auto
  then have all: "same_range (m - k) (Suc m) xs ys"
    using same_range_wider [OF rng, of "m - k" "Suc m"] by (auto intro: same_range_trans)
  have last: "\<not> gt (ys ! (m - k)) (ys ! Suc m)"
  proof -
    have "ys ! Suc m = ?xs ! Suc m" using rng by (simp add: same_range_def)
    moreover have "\<not> gt (?xs ! m) (?xs ! Suc m)" using i assms(1) by (auto simp: nth_order_pair dest: ordering_asym)
    moreover obtain j where "m - k \<le> j" "j \<le> m" "?xs ! m = ys ! j" using in_range_from(2) [OF rng, of m] by auto
    moreover have "\<not> gt (ys ! (m - k)) (ys ! j)" using ih i calculation by simp
    ultimately show ?thesis using ordering_trans [OF assms(1)] by metis
  qed
  moreover have "\<not> gt (ys ! (m - k)) (ys ! j)" if "m - k \<le> j" "j \<le> Suc m" for j
    using last ih i that by (cases "j = Suc m") auto
  moreover have "ys = xs \<and> (\<forall>j. m - k \<le> j \<and> j < Suc m \<longrightarrow> \<not> gt (xs ! j) (xs ! Suc j))" if "\<not> e"
  proof -
    have ne: "\<not> e'" "\<not> gt (xs ! m) (xs ! Suc m)" "?xs = xs" using that p(2) by (auto simp: order_pair_def)
    moreover have "\<not> gt (xs ! j) (xs ! Suc j)" if "m - k \<le> j" "j < Suc m" for j
      using ih i ne that by (cases "j = m") auto
    ultimately show ?thesis using ih i by simp
  qed
  ultimately show ?case using all by (simp add: i(1))
qed

subsection \<open>The list in memory, by index\<close>

definition is_data :: "dheap \<Rightarrow> nat \<Rightarrow> (nat \<Rightarrow> nat \<Rightarrow> int) \<Rightarrow> nat list \<Rightarrow> nat list \<Rightarrow> bool" where
  "is_data h l f ps xs \<longleftrightarrow> length ps = length xs \<and> is_dll h l (Some f) (zip ps xs)"

lemma zip_at: "length ps = length xs \<Longrightarrow> i < length xs \<Longrightarrow>
  zip ps xs = take i (zip ps xs) @ (ps ! i, xs ! i) # drop (Suc i) (zip ps xs)"
  using id_take_nth_drop [of i "zip ps xs"] by simp

lemma first_pos_drop: "length ps = length xs \<Longrightarrow> first_pos (drop i (zip ps xs)) 0 = (if i < length xs then ps ! i else 0)"
  by (cases "i < length xs") (simp_all add: drop_at)

lemma last_pos_take: "length ps = length xs \<Longrightarrow> i \<le> length xs \<Longrightarrow> last_pos 0 (take i (zip ps xs)) = (if i = 0 then 0 else ps ! (i - 1))"
  by (cases i) (simp_all add: take_Suc_conv_app_nth)

lemma data_next: "is_data h l f ps xs \<Longrightarrow> i < length xs \<Longrightarrow>
  DLL_GetNext (ps ! i) l h = Some (Inr (xs ! i, if Suc i < length xs then ps ! Suc i else 0), h)"
  using GetNext_in [of h l "Some f" "take i (zip ps xs)" "ps ! i" "xs ! i" "drop (Suc i) (zip ps xs)"]
  by (simp add: is_data_def zip_at [symmetric] first_pos_drop)

lemma data_prev: "is_data h l f ps xs \<Longrightarrow> i < length xs \<Longrightarrow>
  DLL_GetPrev (ps ! i) l h = Some (Inr (xs ! i, if i = 0 then 0 else ps ! (i - 1)), h)"
  using GetPrev_in [of h l "Some f" "take i (zip ps xs)" "ps ! i" "xs ! i" "drop (Suc i) (zip ps xs)"]
  by (simp add: is_data_def zip_at [symmetric] last_pos_take)

lemma data_get: "is_data h l f ps xs \<Longrightarrow> i < length xs \<Longrightarrow> DLL_GetAt (ps ! i) l h = Some (Inr (xs ! i), h)"
  using GetAt_in [of h l "Some f" "take i (zip ps xs)" "ps ! i" "xs ! i" "drop (Suc i) (zip ps xs)"]
  by (simp add: is_data_def zip_at [symmetric])

lemma data_set:
  assumes "is_data h l f ps xs" and "i < length xs"
  obtains h' where "DLL_SetAt (ps ! i) y l h = Some (Inr (xs ! i), h')" and "is_data h' l f ps (xs[i := y])"
proof -
  have "is_dll h l (Some f) (take i (zip ps xs) @ (ps ! i, xs ! i) # drop (Suc i) (zip ps xs))"
    using assms by (simp add: is_data_def zip_at [symmetric])
  from SetAt_in [OF this] obtain h' where "DLL_SetAt (ps ! i) y l h = Some (Inr (xs ! i), h')"
      "is_dll h' l (Some f) (take i (zip ps xs) @ (ps ! i, y) # drop (Suc i) (zip ps xs))" by metis
  moreover have "take i (zip ps xs) @ (ps ! i, y) # drop (Suc i) (zip ps xs) = zip ps (xs[i := y])"
    using assms zip_at [of ps "xs[i := y]" i] by (simp add: is_data_def take_zip drop_zip)
  ultimately show thesis using that assms(1) by (simp add: is_data_def)
qed

lemma data_exchange:
  assumes "is_data h l f ps xs" and "i < length xs" and "j < length xs"
  obtains h' where "exchange (ps ! i) x (ps ! j) y l h = Some (Inr (), h')" and "is_data h' l f ps (xs[i := x, j := y])"
proof -
  obtain h1 where h1: "DLL_SetAt (ps ! i) x l h = Some (Inr (xs ! i), h1)" "is_data h1 l f ps (xs[i := x])"
    using data_set [OF assms(1,2)] by metis
  obtain h2 where "DLL_SetAt (ps ! j) y l h1 = Some (Inr (xs[i := x] ! j), h2)" "is_data h2 l f ps (xs[i := x, j := y])"
    using data_set [OF h1(2), of j y] assms(3) by auto
  then show thesis using h1(1) that by (simp add: exchange_def dll_run)
qed

lemma data_distinct: "is_data h l f ps xs \<Longrightarrow> i < length xs \<Longrightarrow> j < length xs \<Longrightarrow> ps ! i = ps ! j \<longleftrightarrow> i = j"
  by (auto simp: is_data_def is_dll_def nth_eq_iff_index_eq)

abbreviation needs_swap :: "(nat \<Rightarrow> nat \<Rightarrow> int) \<Rightarrow> nat \<Rightarrow> nat \<Rightarrow> bool" where
  "needs_swap f \<equiv> (\<lambda>x y. f x y \<noteq> 0)"

lemma sort_down_refines:
  assumes "is_data h l f ps xs" and "i + k < length xs"
  shows "\<exists>h'. sort_down f l (ps ! (i + k)) (ps ! i) b h = Some (Inr (b \<or> snd (pass_down (needs_swap f) k i xs)), h') \<and>
    is_data h' l f ps (fst (pass_down (needs_swap f) k i xs))"
  using assms
proof (induction k arbitrary: h i xs b)
  case 0
  then show ?case by (subst sort_down.simps) (simp add: dll_run)
next
  case (Suc k)
  have i: "i < length xs" "Suc i < length xs" using Suc.prems(2) by auto
  have ne: "ps ! i \<noteq> ps ! (i + Suc k)" using data_distinct [OF Suc.prems(1), of i "i + Suc k"] Suc.prems(2) by auto
  note step = data_next [OF Suc.prems(1) i(1)] data_get [OF Suc.prems(1) i(2)]
  show ?case
  proof (cases "f (xs ! i) (xs ! Suc i) = 0")
    case True
    then show ?thesis
      using Suc.IH [OF Suc.prems(1), of "Suc i" b] Suc.prems(2) ne step i(2)
      by (subst sort_down.simps) (auto simp: order_pair_def split: prod.splits)
  next
    case False
    obtain h1 where h1: "exchange (ps ! i) (xs ! Suc i) (ps ! Suc i) (xs ! i) l h = Some (Inr (), h1)"
        "is_data h1 l f ps (order_pair (needs_swap f) i xs)"
      using data_exchange [OF Suc.prems(1) i(1,2)] False by (auto simp: order_pair_def swap_def)
    then show ?thesis
      using Suc.IH [OF h1(2), of "Suc i" True] Suc.prems(2) ne step i(2) False
      by (subst sort_down.simps) (auto split: prod.splits)
  qed
qed

lemma sort_up_refines:
  assumes "is_data h l f ps xs" and "k \<le> i" and "i < length xs"
  shows "\<exists>h'. sort_up f l (ps ! (i - k)) (ps ! i) b h = Some (Inr (b \<or> snd (pass_up (needs_swap f) k i xs)), h') \<and>
    is_data h' l f ps (fst (pass_up (needs_swap f) k i xs))"
  using assms
proof (induction k arbitrary: h i xs b)
  case 0
  then show ?case by (subst sort_up.simps) (simp add: dll_run)
next
  case (Suc k)
  define m where "m = i - 1"
  then have i: "i = Suc m" "k \<le> m" "Suc m < length xs" using Suc.prems by auto
  have ne: "ps ! Suc m \<noteq> ps ! (m - k)" using data_distinct [OF Suc.prems(1), of "Suc m" "m - k"] i by auto
  have step: "DLL_GetPrev (ps ! Suc m) l h = Some (Inr (xs ! Suc m, ps ! m), h)" "DLL_GetAt (ps ! m) l h = Some (Inr (xs ! m), h)"
    using data_prev [OF Suc.prems(1) i(3)] data_get [OF Suc.prems(1), of m] i(3) by simp_all
  show ?case
  proof (cases "f (xs ! m) (xs ! Suc m) = 0")
    case True
    then show ?thesis
      using Suc.IH [OF Suc.prems(1) i(2), of b] i(3) ne step
      by (subst sort_up.simps) (auto simp: i(1) order_pair_def split: prod.splits)
  next
    case False
    obtain h1 where h1: "exchange (ps ! Suc m) (xs ! m) (ps ! m) (xs ! Suc m) l h = Some (Inr (), h1)"
        "is_data h1 l f ps (order_pair (needs_swap f) m xs)"
      using data_exchange [OF Suc.prems(1) i(3), of m "xs ! m" "xs ! Suc m"] i(3) False
      by (auto simp: order_pair_def swap_def list_update_swap [of "Suc m" m])
    then show ?thesis
      using Suc.IH [OF h1(2) i(2), of True] i(3) ne step False
      by (subst sort_up.simps) (auto simp: i(1) split: prod.splits)
  qed
qed

subsection \<open>The sort\<close>

text \<open>Before each round the elements above \<open>t\<close> and those below \<open>b\<close> are in their places.\<close>

definition placed_outside :: "('a \<Rightarrow> 'a \<Rightarrow> bool) \<Rightarrow> nat \<Rightarrow> nat \<Rightarrow> 'a list \<Rightarrow> bool" where
  "placed_outside gt t b xs \<longleftrightarrow> (\<forall>i j. i < j \<and> j < length xs \<and> (i < t \<or> b < j) \<longrightarrow> \<not> gt (xs ! i) (xs ! j))"

abbreviation in_order :: "('a \<Rightarrow> 'a \<Rightarrow> bool) \<Rightarrow> 'a list \<Rightarrow> bool" where
  "in_order gt \<equiv> sorted_wrt (\<lambda>x y. \<not> gt x y)"

lemma placed_same_range:
  assumes "placed_outside gt t b xs" and "same_range t b xs ys" and "b < length xs"
  shows "placed_outside gt t b ys"
  unfolding placed_outside_def
proof (intro allI impI)
  fix i j assume j: "i < j \<and> j < length ys \<and> (i < t \<or> b < j)"
  have len: "length ys = length xs" using assms(2) by (simp add: same_range_def)
  have from_old: "\<exists>m. ys ! k = xs ! m \<and> (t \<le> k \<and> k \<le> b \<and> t \<le> m \<and> m \<le> b \<or> m = k)" for k
  proof (cases "t \<le> k \<and> k \<le> b")
    case True
    then show ?thesis using in_range_from(1) [OF assms(2), of k] by blast
  next
    case False
    then have "ys ! k = xs ! k" using assms(2) by (auto simp: same_range_def not_le)
    then show ?thesis by blast
  qed
  obtain i' where i': "ys ! i = xs ! i'" "t \<le> i \<and> i \<le> b \<and> t \<le> i' \<and> i' \<le> b \<or> i' = i" using from_old by blast
  obtain j' where j': "ys ! j = xs ! j'" "t \<le> j \<and> j \<le> b \<and> t \<le> j' \<and> j' \<le> b \<or> j' = j" using from_old by blast
  have "i' < j'" "i' < t \<or> b < j'" using i'(2) j'(2) j by linarith+
  moreover have "j' < length xs" using j'(2) j assms(3) len by linarith
  ultimately show "\<not> gt (ys ! i) (ys ! j)" using assms(1) i'(1) j'(1) unfolding placed_outside_def by simp
qed

lemma chain_ordered:
  assumes "ordering_comparison gt" and "\<And>j. a \<le> j \<Longrightarrow> j < b \<Longrightarrow> \<not> gt (xs ! j) (xs ! Suc j)" and "a \<le> i" and "i < j" and "j \<le> b"
  shows "\<not> gt (xs ! i) (xs ! j)"
  using assms(4,5)
proof (induction j)
  case (Suc j)
  have "\<not> gt (xs ! j) (xs ! Suc j)" using Suc.prems assms(2) [of j] assms(3) by simp
  then show ?case using Suc assms(1) by (cases "i = j") (auto dest: ordering_trans)
qed simp

lemma all_placed:
  assumes "ordering_comparison gt" and "placed_outside gt t b xs" and "\<And>j. t \<le> j \<Longrightarrow> j < b \<Longrightarrow> \<not> gt (xs ! j) (xs ! Suc j)"
  shows "in_order gt xs"
  unfolding sorted_wrt_iff_nth_less
proof (intro allI impI)
  fix i j assume "i < j" "j < length xs"
  then show "\<not> gt (xs ! i) (xs ! j)"
    using assms(2) chain_ordered [OF assms(1,3), of t b i j] unfolding placed_outside_def
    by (cases "i < t \<or> b < j") auto
qed

lemma placed_narrower:
  assumes "placed_outside gt t b xs" and "\<forall>j. t \<le> j \<and> j \<le> b \<longrightarrow> \<not> gt (xs ! j) (xs ! b)"
  shows "placed_outside gt t (b - 1) xs"
  unfolding placed_outside_def
proof (intro allI impI)
  fix i j assume j: "i < j \<and> j < length xs \<and> (i < t \<or> b - 1 < j)"
  show "\<not> gt (xs ! i) (xs ! j)"
  proof (cases "i < t \<or> b < j")
    case False
    then have "j = b" "t \<le> i" "i \<le> b" using j by auto
    then show ?thesis using assms(2) by simp
  qed (use assms(1) j in \<open>auto simp: placed_outside_def\<close>)
qed

lemma placed_narrower_up:
  assumes "placed_outside gt t b xs" and "\<forall>j. t \<le> j \<and> j \<le> b \<longrightarrow> \<not> gt (xs ! t) (xs ! j)"
  shows "placed_outside gt (Suc t) b xs"
  unfolding placed_outside_def
proof (intro allI impI)
  fix i j assume j: "i < j \<and> j < length xs \<and> (i < Suc t \<or> b < j)"
  show "\<not> gt (xs ! i) (xs ! j)"
  proof (cases "i < t \<or> b < j")
    case False
    then have "i = t" "t \<le> j" "j \<le> b" using j by auto
    then show ?thesis using assms(2) by simp
  qed (use assms(1) j in \<open>auto simp: placed_outside_def\<close>)
qed

lemma sort_loop_ok:
  assumes "ordering_comparison (needs_swap f)" and "is_data h l f ps xs" and "t \<le> b" and "b < length xs"
    and "placed_outside (needs_swap f) t b xs"
  shows "\<exists>h' ys. sort_loop f l (ps ! t) (ps ! b) h = Some (Inr 0, h') \<and> is_data h' l f ps ys \<and>
    mset ys = mset xs \<and> in_order (needs_swap f) ys"
  using assms(2-)
proof (induction "b - t" arbitrary: h t b xs rule: less_induct)
  case less
  note ord = assms(1)
  show ?case
  proof (cases "t = b")
    case True
    have "in_order (needs_swap f) xs" by (rule all_placed [OF ord less.prems(4)]) (simp add: True)
    then show ?thesis using less.prems(1) True by (subst sort_loop.simps) (auto simp: dll_run)
  next
    case False
    then have tb: "t < b" "t + (b - t) = b" using less.prems(2) by auto
    obtain ys e where d: "pass_down (needs_swap f) (b - t) t xs = (ys, e)" by force
    have down: "same_range t b xs ys" "\<forall>j. t \<le> j \<and> j \<le> b \<longrightarrow> \<not> needs_swap f (ys ! j) (ys ! b)"
        "\<not> e \<Longrightarrow> ys = xs \<and> (\<forall>j. t \<le> j \<and> j < b \<longrightarrow> \<not> needs_swap f (xs ! j) (xs ! Suc j))"
      using pass_down_ok [OF ord _ d] tb less.prems(3) by auto
    obtain h1 where h1: "sort_down f l (ps ! b) (ps ! t) False h = Some (Inr e, h1)" "is_data h1 l f ps ys"
      using sort_down_refines [OF less.prems(1), of t "b - t" False] tb less.prems(3) d by auto
    have len: "length ys = length xs" using down(1) by (simp add: same_range_def)
    have ne: "ps ! t \<noteq> ps ! b" using data_distinct [OF less.prems(1), of t b] tb less.prems(3) by auto
    show ?thesis
    proof (cases e)
      case no_more: False
      have "in_order (needs_swap f) xs" using down(3) no_more by (intro all_placed [OF ord less.prems(4)]) auto
      then show ?thesis using h1 ne down(3) no_more by (subst sort_loop.simps) (auto simp: dll_run)
    next
      case e: True
      have prev: "DLL_GetPrev (ps ! b) l h1 = Some (Inr (ys ! b, ps ! (b - 1)), h1)"
        using data_prev [OF h1(2), of b] less.prems(3) len tb by simp
      have placed: "placed_outside (needs_swap f) t (b - 1) ys"
        by (rule placed_narrower [OF placed_same_range [OF less.prems(4) down(1) less.prems(3)] down(2)])
      obtain zs e' where u: "pass_up (needs_swap f) (b - 1 - t) (b - 1) ys = (zs, e')" by force
      have up: "same_range t (b - 1) ys zs" "\<forall>j. t \<le> j \<and> j \<le> b - 1 \<longrightarrow> \<not> needs_swap f (zs ! t) (zs ! j)"
          "\<not> e' \<Longrightarrow> zs = ys \<and> (\<forall>j. t \<le> j \<and> j < b - 1 \<longrightarrow> \<not> needs_swap f (ys ! j) (ys ! Suc j))"
        using pass_up_ok [OF ord _ _ u] tb less.prems(3) len by auto
      obtain h2 where h2: "sort_up f l (ps ! t) (ps ! (b - 1)) False h1 = Some (Inr e', h2)" "is_data h2 l f ps zs"
      proof -
        have "b - 1 - t \<le> b - 1" "b - 1 < length ys" "b - 1 - (b - 1 - t) = t" using tb less.prems(3) len by auto
        then show thesis using sort_up_refines [OF h1(2), of "b - 1 - t" "b - 1" False] u that by auto
      qed
      have msets: "mset ys = mset xs" "mset zs = mset ys" "length zs = length xs"
        using down(1) up(1) len by (simp_all add: same_range_def)
      show ?thesis
      proof (cases e')
        case False
        have "in_order (needs_swap f) ys" using up(3) False by (intro all_placed [OF ord placed]) auto
        then show ?thesis using h1 h2 ne prev e False up(3) msets by (subst sort_loop.simps) (auto simp: dll_run)
      next
        case True
        have "\<not> e'" if "b - 1 = t" using u that by simp
        then have less_b: "t < b - 1" using True tb by linarith
        have placed: "placed_outside (needs_swap f) (Suc t) (b - 1) zs"
          using less_b less.prems(3) len by (intro placed_narrower_up [OF placed_same_range [OF placed up(1)] up(2)]) simp
        obtain h3 ws where h3: "sort_loop f l (ps ! Suc t) (ps ! (b - 1)) h2 = Some (Inr 0, h3)" "is_data h3 l f ps ws"
            "mset ws = mset zs" "in_order (needs_swap f) ws"
        proof -
          have "b - 1 - Suc t < b - t" "Suc t \<le> b - 1" "b - 1 < length zs" using less_b less.prems(3) msets(3) by auto
          then show thesis using less.hyps [of "b - 1" "Suc t" h2 zs] h2(2) placed that by blast
        qed
        have nxt: "DLL_GetNext (ps ! t) l h2 = Some (Inr (zs ! t, ps ! Suc t), h2)"
        proof -
          have "Suc t < length zs" using less_b less.prems(3) msets(3) by linarith
          then show ?thesis using data_next [OF h2(2), of t] by simp
        qed
        show ?thesis using h1 h2 h3 ne prev nxt e True msets by (subst sort_loop.simps) auto
      qed
    qed
  qed
qed

text \<open>
  C33: \<open>bubble_sort\<close> of a list with a comparison that orders its elements returns 0 after finitely many passes; the nodes
  are where they were, and their data are the same elements in ascending order.
\<close>

theorem bubble_sort_sorts:
  assumes "is_dll h l (Some f) r" and "ordering_comparison (\<lambda>x y. f x y \<noteq> 0)"
  shows "\<exists>h' s. bubble_sort l h = Some (Inr 0, h') \<and> is_dll h' l (Some f) s \<and> map fst s = map fst r \<and>
    mset (map snd s) = mset (map snd r) \<and> sorted_wrt (\<lambda>x y. f x y = 0) (map snd s)"
proof -
  let ?ps = "map fst r" and ?xs = "map snd r"
  have d: "is_data h l f ?ps ?xs" using assms(1) by (simp add: is_data_def zip_map_fst_snd)
  have run: "bubble_sort l h = sort_loop f l (first_pos r 0) (last_pos 0 r) h"
    using assms(1) GetHead [OF assms(1)] GetTail [OF assms(1)] by (auto simp: bubble_sort_def is_dll_def dll_run)
  show ?thesis
  proof (cases "r = []")
    case True
    then show ?thesis using assms(1) by (auto simp: run sort_loop.simps [of f l 0 0 h] dll_run)
  next
    case False
    have "first_pos r 0 = ?ps ! 0" using False by (cases r) auto
    moreover have "last_pos 0 r = ?ps ! (length r - 1)" using False last_pos_take [of ?ps ?xs "length r"] by (simp add: zip_map_fst_snd)
    moreover have "placed_outside (needs_swap f) 0 (length r - 1) ?xs" by (auto simp: placed_outside_def)
    ultimately obtain h' ys where "bubble_sort l h = Some (Inr 0, h')" "is_data h' l f ?ps ys" "mset ys = mset ?xs"
        "in_order (needs_swap f) ys"
      using sort_loop_ok [OF assms(2) d, of 0 "length r - 1"] False by (auto simp: run)
    then show ?thesis by (intro exI [of _ h'] exI [of _ "zip ?ps ys"]) (simp add: is_data_def)
  qed
qed

definition three_node_heap :: dheap where
  "three_node_heap =
     \<lparr>dh_nodes = [4 \<mapsto> \<lparr>dn_info = 60, dn_prev = 0, dn_next = 5\<rparr>, 5 \<mapsto> \<lparr>dn_info = 50, dn_prev = 4, dn_next = 6\<rparr>,
                  6 \<mapsto> \<lparr>dn_info = 40, dn_prev = 5, dn_next = 0\<rparr>],
      dh_lists = [1 \<mapsto> \<lparr>dl_count = 3, dl_head = 4, dl_tail = 6, dl_compare = Some (\<lambda>x y. if y < x then 1 else 0)\<rparr>]\<rparr>"

theorem bubble_sort_sorts_witness:
  "\<exists>h' s. bubble_sort 1 three_node_heap = Some (Inr 0, h') \<and> is_dll h' 1 (Some (\<lambda>x y. if y < x then 1 else 0)) s \<and>
    map fst s = [4, 5, 6] \<and> mset (map snd s) = {#40, 50, 60#}"
proof -
  have l: "is_dll three_node_heap 1 (Some (\<lambda>x y. if y < x then 1 else 0)) [(4, 60), (5, 50), (6, 40)]"
    by (simp add: three_node_heap_def is_dll_def)
  have "ordering_comparison (\<lambda>x y :: nat. (if y < x then 1 else 0) \<noteq> (0 :: int))"
    by (auto simp: ordering_comparison_def split: if_splits)
  from bubble_sort_sorts [OF l this] obtain h' s where
      "bubble_sort 1 three_node_heap = Some (Inr 0, h')" "is_dll h' 1 (Some (\<lambda>x y. if y < x then 1 else 0)) s"
      "map fst s = [4, 5, 6]" "mset (map snd s) = mset [60, 50, 40]" by auto
  then show ?thesis by (intro exI [of _ h'] exI [of _ s]) (simp add: add_mset_commute)
qed

end
