(* ===== verification/BSTree.thy ===== *)
theory BSTree
  imports Trick_Prelude
begin

text \<open>
  The binary search tree of trick\_utils/trick\_adt/src/bst.c (include/trick/bst.h) in memory: nodes with pointers to their
  children and their parent. 0 is \<open>NULL\<close>. The user's functions for printing, traversing and deleting change a world of their
  own and do not call back into the tree; the function that compares is a pure function, or not set. \<open>malloc\<close> is a
  parameter. Access to memory that is not a node or a tree is undefined. The messages are left out.
\<close>

subsection \<open>Memory\<close>

record bstNode =
  bn_left :: nat
  bn_right :: nat
  bn_parent :: nat
  bn_info :: nat

text \<open>\<open>RIGHTLEAF\<close> is 1 and \<open>LEFTLEAF\<close> is 0. The handler of a failed \<open>malloc\<close> may end the program (\<open>None\<close>).\<close>

record 'w BST =
  bst_root :: nat
  bst_nodes :: int
  bst_deltype :: int
  bst_compare :: "(nat \<Rightarrow> nat \<Rightarrow> int) option"
  bst_print_node :: "nat \<Rightarrow> nat \<Rightarrow> 'w \<Rightarrow> 'w"
  bst_traverse_node :: "nat \<Rightarrow> 'w \<Rightarrow> 'w"
  bst_delete_node :: "nat \<Rightarrow> 'w \<Rightarrow> 'w"
  bst_malloc_fail_handler :: "'w \<Rightarrow> 'w option"
  bst_init :: int

record 'w bheap =
  bh_nodes :: "nat \<rightharpoonup> bstNode"
  bh_trees :: "nat \<rightharpoonup> 'w BST"
  bh_world :: 'w

definition bst_return :: "'a \<Rightarrow> 's \<Rightarrow> ('a, 's) result" where
  "bst_return x h = Some (Inr x, h)"

definition invalid_pointer :: "'s \<Rightarrow> ('a, 's) result" where
  "invalid_pointer h = Some (Inl (Undefined ''invalid pointer''), h)"

definition the_node :: "nat \<Rightarrow> 'w bheap \<Rightarrow> (bstNode, 'w bheap) result" where
  "the_node p h = (case bh_nodes h p of None \<Rightarrow> invalid_pointer h | Some n \<Rightarrow> bst_return n h)"

definition upd_node :: "nat \<Rightarrow> (bstNode \<Rightarrow> bstNode) \<Rightarrow> 'w bheap \<Rightarrow> (unit, 'w bheap) result" where
  "upd_node p f h =
     (case bh_nodes h p of
        None \<Rightarrow> invalid_pointer h
      | Some n \<Rightarrow> bst_return () (h\<lparr>bh_nodes := (bh_nodes h)(p \<mapsto> f n)\<rparr>))"

definition the_tree :: "nat \<Rightarrow> 'w bheap \<Rightarrow> ('w BST, 'w bheap) result" where
  "the_tree b h = (case bh_trees h b of None \<Rightarrow> invalid_pointer h | Some t \<Rightarrow> bst_return t h)"

definition upd_tree :: "nat \<Rightarrow> ('w BST \<Rightarrow> 'w BST) \<Rightarrow> 'w bheap \<Rightarrow> (unit, 'w bheap) result" where
  "upd_tree b f h =
     (case bh_trees h b of
        None \<Rightarrow> invalid_pointer h
      | Some t \<Rightarrow> bst_return () (h\<lparr>bh_trees := (bh_trees h)(b \<mapsto> f t)\<rparr>))"

definition bst_malloc :: "('w bheap \<Rightarrow> nat) \<Rightarrow> bstNode \<Rightarrow> 'w bheap \<Rightarrow> (nat, 'w bheap) result" where
  "bst_malloc malloc n h =
     (let p = malloc h in bst_return p (if p = 0 then h else h\<lparr>bh_nodes := (bh_nodes h)(p \<mapsto> n)\<rparr>))"

subsection \<open>Setting up\<close>

definition DefPrintProc :: "nat \<Rightarrow> nat \<Rightarrow> 'w \<Rightarrow> 'w" where
  "DefPrintProc output info w = w"

definition DefTraverseProc :: "nat \<Rightarrow> 'w \<Rightarrow> 'w" where
  "DefTraverseProc info w = w"

definition DefDeleteProc :: "nat \<Rightarrow> 'w \<Rightarrow> 'w" where
  "DefDeleteProc info w = w"

definition DefHandlerProc :: "'w \<Rightarrow> 'w option" where
  "DefHandlerProc w = None"

definition bstInit :: "nat \<Rightarrow> 'w bheap \<Rightarrow> (unit, 'w bheap) result" where
  "bstInit b =
     upd_tree b (\<lambda>t. t\<lparr>bst_root := 0, bst_nodes := 0, bst_deltype := 0, bst_init := 1, bst_print_node := DefPrintProc,
       bst_traverse_node := DefTraverseProc, bst_delete_node := DefDeleteProc, bst_malloc_fail_handler := DefHandlerProc\<rparr>)"

definition bstSetPrintFunc :: "nat \<Rightarrow> (nat \<Rightarrow> nat \<Rightarrow> 'w \<Rightarrow> 'w) \<Rightarrow> 'w bheap \<Rightarrow> (unit, 'w bheap) result" where
  "bstSetPrintFunc b printfunc = upd_tree b (\<lambda>t. t\<lparr>bst_print_node := printfunc\<rparr>)"

definition bstSetTraverseFunc :: "nat \<Rightarrow> (nat \<Rightarrow> 'w \<Rightarrow> 'w) \<Rightarrow> 'w bheap \<Rightarrow> (unit, 'w bheap) result" where
  "bstSetTraverseFunc b traversefunc = upd_tree b (\<lambda>t. t\<lparr>bst_traverse_node := traversefunc\<rparr>)"

definition bstSetDeleteFunc :: "nat \<Rightarrow> (nat \<Rightarrow> 'w \<Rightarrow> 'w) \<Rightarrow> 'w bheap \<Rightarrow> (unit, 'w bheap) result" where
  "bstSetDeleteFunc b deletefunc = upd_tree b (\<lambda>t. t\<lparr>bst_delete_node := deletefunc\<rparr>)"

definition bstSetCompareFunc :: "nat \<Rightarrow> (nat \<Rightarrow> nat \<Rightarrow> int) \<Rightarrow> 'w bheap \<Rightarrow> (unit, 'w bheap) result" where
  "bstSetCompareFunc b compfunc = upd_tree b (\<lambda>t. t\<lparr>bst_compare := Some compfunc\<rparr>)"

definition bstSetMallocFailHandler :: "nat \<Rightarrow> ('w \<Rightarrow> 'w option) \<Rightarrow> 'w bheap \<Rightarrow> (unit, 'w bheap) result" where
  "bstSetMallocFailHandler b handler = upd_tree b (\<lambda>t. t\<lparr>bst_malloc_fail_handler := handler\<rparr>)"

subsection \<open>Looking\<close>

definition bst_compare_infos :: "'w BST \<Rightarrow> nat \<Rightarrow> nat \<Rightarrow> 'w bheap \<Rightarrow> (int, 'w bheap) result" where
  "bst_compare_infos t x y h = (case bst_compare t of None \<Rightarrow> invalid_pointer h | Some f \<Rightarrow> bst_return (f x y) h)"

partial_function (option) bst_find_from :: "'w BST \<Rightarrow> nat \<Rightarrow> nat \<Rightarrow> 'w bheap \<Rightarrow> (nat, 'w bheap) result" where
  "bst_find_from t info current h =
     (if current = 0 then bst_return 0 h
      else
        andthen (the_node current h) (\<lambda>n h.
        andthen (bst_compare_infos t (bn_info n) info h) (\<lambda>compval h.
          if compval \<le> -1 then bst_find_from t info (bn_right n) h
          else if 1 \<le> compval then bst_find_from t info (bn_left n) h
          else bst_return current h)))"

definition bstFind :: "nat \<Rightarrow> nat \<Rightarrow> 'w bheap \<Rightarrow> (nat, 'w bheap) result" where
  "bstFind info b h =
     (if b = 0 \<or> info = 0 then bst_return 0 h
      else andthen (the_tree b h) (\<lambda>t h.
        if bst_init t = 0 then andthen (bstInit b h) (\<lambda>_. bst_return 0)
        else bst_find_from t info (bst_root t) h))"

definition bst_field :: "(bstNode \<Rightarrow> nat) \<Rightarrow> nat \<Rightarrow> 'w bheap \<Rightarrow> (nat, 'w bheap) result" where
  "bst_field f node h = (if node = 0 then bst_return 0 h else andthen (the_node node h) (\<lambda>n. bst_return (f n)))"

definition bstGetInfo :: "nat \<Rightarrow> 'w bheap \<Rightarrow> (nat, 'w bheap) result" where
  "bstGetInfo = bst_field bn_info"

definition bstGetLeft :: "nat \<Rightarrow> 'w bheap \<Rightarrow> (nat, 'w bheap) result" where
  "bstGetLeft = bst_field bn_left"

definition bstGetRight :: "nat \<Rightarrow> 'w bheap \<Rightarrow> (nat, 'w bheap) result" where
  "bstGetRight = bst_field bn_right"

definition bstGetParent :: "nat \<Rightarrow> 'w bheap \<Rightarrow> (nat, 'w bheap) result" where
  "bstGetParent = bst_field bn_parent"

definition bstGetCount :: "nat \<Rightarrow> 'w bheap \<Rightarrow> (int, 'w bheap) result" where
  "bstGetCount b h =
     (if b = 0 then bst_return (-1) h
      else andthen (the_tree b h) (\<lambda>t h.
        if bst_init t = 0 then andthen (bstInit b h) (\<lambda>_. bst_return 0) else bst_return (bst_nodes t) h))"

subsection \<open>Inserting\<close>

partial_function (option) bst_insert_from :: "'w BST \<Rightarrow> nat \<Rightarrow> nat \<Rightarrow> nat \<Rightarrow> 'w bheap \<Rightarrow> (unit, 'w bheap) result" where
  "bst_insert_from t info newNode current h =
     andthen (the_node current h) (\<lambda>n h.
     andthen (bst_compare_infos t info (bn_info n) h) (\<lambda>compval h.
       if 0 \<le> compval then
         (if bn_right n = 0 then
            andthen (upd_node current (\<lambda>m. m\<lparr>bn_right := newNode\<rparr>) h) (\<lambda>_.
              upd_node newNode (\<lambda>m. m\<lparr>bn_parent := current\<rparr>))
          else bst_insert_from t info newNode (bn_right n) h)
       else
         (if bn_left n = 0 then
            andthen (upd_node current (\<lambda>m. m\<lparr>bn_left := newNode\<rparr>) h) (\<lambda>_.
              upd_node newNode (\<lambda>m. m\<lparr>bn_parent := current\<rparr>))
          else bst_insert_from t info newNode (bn_left n) h)))"

definition bstInsert :: "('w bheap \<Rightarrow> nat) \<Rightarrow> nat \<Rightarrow> nat \<Rightarrow> 'w bheap \<Rightarrow> (nat, 'w bheap) result" where
  "bstInsert malloc info b h =
     (if b = 0 \<or> info = 0 then bst_return 0 h
      else
        andthen (the_tree b h) (\<lambda>t0 h.
        andthen (if bst_init t0 = 0 then bstInit b h else bst_return () h) (\<lambda>_ h.
        andthen (the_tree b h) (\<lambda>t h.
        andthen (bst_malloc malloc \<lparr>bn_left = 0, bn_right = 0, bn_parent = 0, bn_info = info\<rparr> h) (\<lambda>newNode h.
          if newNode = 0 then
            (case bst_malloc_fail_handler t (bh_world h) of None \<Rightarrow> None | Some w \<Rightarrow> bst_return 0 (h\<lparr>bh_world := w\<rparr>))
          else
            andthen (upd_tree b (\<lambda>t. t\<lparr>bst_nodes := bst_nodes t + 1\<rparr>) h) (\<lambda>_ h.
            andthen
              (if bst_root t = 0 then
                 andthen (upd_tree b (\<lambda>t. t\<lparr>bst_root := newNode\<rparr>) h) (\<lambda>_. upd_node newNode (\<lambda>m. m\<lparr>bn_parent := 0\<rparr>))
               else bst_insert_from t info newNode (bst_root t) h)
              (\<lambda>_. bst_return newNode)))))))"

subsection \<open>Deleting\<close>

text \<open>\<open>parentspointer\<close> is the pointer to the node: the root of the tree, or a child of the parent.\<close>

datatype parents_pointer = Root_pointer | Left_pointer nat | Right_pointer nat

definition set_parents_pointer :: "nat \<Rightarrow> parents_pointer \<Rightarrow> nat \<Rightarrow> 'w bheap \<Rightarrow> (unit, 'w bheap) result" where
  "set_parents_pointer b pp q h =
     (case pp of
        Root_pointer \<Rightarrow> upd_tree b (\<lambda>t. t\<lparr>bst_root := q\<rparr>) h
      | Left_pointer p \<Rightarrow> upd_node p (\<lambda>n. n\<lparr>bn_left := q\<rparr>) h
      | Right_pointer p \<Rightarrow> upd_node p (\<lambda>n. n\<lparr>bn_right := q\<rparr>) h)"

definition parents_pointer_of :: "nat \<Rightarrow> 'w bheap \<Rightarrow> (parents_pointer, 'w bheap) result" where
  "parents_pointer_of node h =
     andthen (the_node node h) (\<lambda>n h.
       if bn_parent n = 0 then bst_return Root_pointer h
       else andthen (the_node (bn_parent n) h) (\<lambda>m h.
         bst_return (if bn_left m = node then Left_pointer (bn_parent n) else Right_pointer (bn_parent n)) h))"

partial_function (option) leftmost :: "nat \<Rightarrow> 'w bheap \<Rightarrow> (nat, 'w bheap) result" where
  "leftmost current h = andthen (the_node current h) (\<lambda>n h. if bn_left n = 0 then bst_return current h else leftmost (bn_left n) h)"

partial_function (option) rightmost :: "nat \<Rightarrow> 'w bheap \<Rightarrow> (nat, 'w bheap) result" where
  "rightmost current h = andthen (the_node current h) (\<lambda>n h. if bn_right n = 0 then bst_return current h else rightmost (bn_right n) h)"

text \<open>The least node of the right subtree takes the place of the node; or the greatest of the left one.\<close>

definition replace_by_right_leaf :: "nat \<Rightarrow> bstNode \<Rightarrow> parents_pointer \<Rightarrow> 'w bheap \<Rightarrow> (unit, 'w bheap) result" where
  "replace_by_right_leaf b n pp h =
     andthen (the_node (bn_right n) h) (\<lambda>c h.
       if bn_left c = 0 then
         andthen (set_parents_pointer b pp (bn_right n) h) (\<lambda>_ h.
         andthen (upd_node (bn_right n) (\<lambda>m. m\<lparr>bn_parent := bn_parent n, bn_left := bn_left n\<rparr>) h) (\<lambda>_.
         upd_node (bn_left n) (\<lambda>m. m\<lparr>bn_parent := bn_right n\<rparr>)))
       else
         andthen (leftmost (bn_right n) h) (\<lambda>current h.
         andthen (the_node current h) (\<lambda>c h.
         andthen (upd_node (bn_parent c) (\<lambda>m. m\<lparr>bn_left := bn_right c\<rparr>) h) (\<lambda>_ h.
         andthen (if bn_right c \<noteq> 0 then upd_node (bn_right c) (\<lambda>m. m\<lparr>bn_parent := bn_parent c\<rparr>) h else bst_return () h) (\<lambda>_ h.
         andthen (set_parents_pointer b pp current h) (\<lambda>_ h.
         andthen (upd_node current (\<lambda>m. m\<lparr>bn_parent := bn_parent n, bn_left := bn_left n, bn_right := bn_right n\<rparr>) h) (\<lambda>_ h.
         andthen (upd_node (bn_left n) (\<lambda>m. m\<lparr>bn_parent := current\<rparr>) h) (\<lambda>_.
         upd_node (bn_right n) (\<lambda>m. m\<lparr>bn_parent := current\<rparr>)))))))))"

definition replace_by_left_leaf :: "nat \<Rightarrow> bstNode \<Rightarrow> parents_pointer \<Rightarrow> 'w bheap \<Rightarrow> (unit, 'w bheap) result" where
  "replace_by_left_leaf b n pp h =
     andthen (the_node (bn_left n) h) (\<lambda>c h.
       if bn_right c = 0 then
         andthen (set_parents_pointer b pp (bn_left n) h) (\<lambda>_ h.
         andthen (upd_node (bn_left n) (\<lambda>m. m\<lparr>bn_parent := bn_parent n, bn_right := bn_right n\<rparr>) h) (\<lambda>_.
         upd_node (bn_right n) (\<lambda>m. m\<lparr>bn_parent := bn_left n\<rparr>)))
       else
         andthen (rightmost (bn_left n) h) (\<lambda>current h.
         andthen (the_node current h) (\<lambda>c h.
         andthen (upd_node (bn_parent c) (\<lambda>m. m\<lparr>bn_right := bn_left c\<rparr>) h) (\<lambda>_ h.
         andthen (if bn_left c \<noteq> 0 then upd_node (bn_left c) (\<lambda>m. m\<lparr>bn_parent := bn_parent c\<rparr>) h else bst_return () h) (\<lambda>_ h.
         andthen (set_parents_pointer b pp current h) (\<lambda>_ h.
         andthen (upd_node current (\<lambda>m. m\<lparr>bn_parent := bn_parent n, bn_left := bn_left n, bn_right := bn_right n\<rparr>) h) (\<lambda>_ h.
         andthen (upd_node (bn_right n) (\<lambda>m. m\<lparr>bn_parent := current\<rparr>) h) (\<lambda>_.
         upd_node (bn_left n) (\<lambda>m. m\<lparr>bn_parent := current\<rparr>)))))))))"

text \<open>The two ways alternate, so that deletions do not make the tree lopsided.\<close>

definition bst_unlink :: "nat \<Rightarrow> nat \<Rightarrow> bstNode \<Rightarrow> 'w bheap \<Rightarrow> (unit, 'w bheap) result" where
  "bst_unlink b node n h =
     andthen (parents_pointer_of node h) (\<lambda>pp h.
       if bn_left n = 0 then
         andthen (set_parents_pointer b pp (bn_right n) h) (\<lambda>_ h.
           if bn_right n \<noteq> 0 then upd_node (bn_right n) (\<lambda>m. m\<lparr>bn_parent := bn_parent n\<rparr>) h else bst_return () h)
       else if bn_right n = 0 then
         andthen (set_parents_pointer b pp (bn_left n) h) (\<lambda>_. upd_node (bn_left n) (\<lambda>m. m\<lparr>bn_parent := bn_parent n\<rparr>))
       else
         andthen (the_tree b h) (\<lambda>t h.
         andthen (upd_tree b (\<lambda>t. t\<lparr>bst_deltype := 1 - bst_deltype t\<rparr>) h) (\<lambda>_.
           if bst_deltype t = 1 then replace_by_right_leaf b n pp else replace_by_left_leaf b n pp)))"

definition bstDelete :: "nat \<Rightarrow> nat \<Rightarrow> 'w bheap \<Rightarrow> (nat, 'w bheap) result" where
  "bstDelete node b h =
     (if b = 0 \<or> node = 0 then bst_return 0 h
      else andthen (the_tree b h) (\<lambda>t h.
        if bst_init t = 0 then andthen (bstInit b h) (\<lambda>_. bst_return node)
        else
          andthen (upd_tree b (\<lambda>t. t\<lparr>bst_nodes := bst_nodes t - 1\<rparr>) h) (\<lambda>_ h.
          andthen (the_node node h) (\<lambda>n h.
          andthen (bst_unlink b node n h) (\<lambda>_ h.
          andthen (the_node node h) (\<lambda>n h.
          bst_return (bn_info n) (h\<lparr>bh_nodes := (bh_nodes h)(node := None)\<rparr>)))))))"

subsection \<open>Traversing\<close>

text \<open>
  The walk without recursion: 1 goes up to the parent, 2 down to the left end, 3 up from a left child, 4 visits the node. The
  visit is the function that prints or traverses.
\<close>

partial_function (option) bst_walk :: "(nat \<Rightarrow> 'w \<Rightarrow> 'w) \<Rightarrow> int \<Rightarrow> nat \<Rightarrow> 'w bheap \<Rightarrow> (unit, 'w bheap) result" where
  "bst_walk visit st current h =
     (if st = 1 then
        andthen (the_node current h) (\<lambda>n h.
        andthen (the_node (bn_parent n) h) (\<lambda>m h.
          if bn_parent m = 0 then bst_return () h
          else andthen (the_node (bn_parent m) h) (\<lambda>g h.
            if bn_parent n = bn_left g then bst_walk visit 3 (bn_parent n) h else bst_walk visit 1 (bn_parent n) h)))
      else if st = 2 then andthen (leftmost current h) (\<lambda>c h. bst_walk visit 4 c h)
      else if st = 3 then andthen (the_node current h) (\<lambda>n h. bst_walk visit 4 (bn_parent n) h)
      else
        andthen (the_node current h) (\<lambda>n h.
        andthen (bst_return () (h\<lparr>bh_world := visit (bn_info n) (bh_world h)\<rparr>)) (\<lambda>_ h.
          if bn_right n = 0 then
            (if bn_parent n = 0 then bst_return () h
             else andthen (the_node (bn_parent n) h) (\<lambda>m h.
               if bn_left m = current then bst_walk visit 3 current h else bst_walk visit 1 current h))
          else bst_walk visit 2 (bn_right n) h)))"

definition bst_walk_tree :: "('w BST \<Rightarrow> nat \<Rightarrow> 'w \<Rightarrow> 'w) \<Rightarrow> nat \<Rightarrow> 'w bheap \<Rightarrow> (unit, 'w bheap) result" where
  "bst_walk_tree visit b h =
     andthen (the_tree b h) (\<lambda>t h.
       if bst_init t = 0 then bstInit b h
       else if bst_root t = 0 then bst_return () h
       else bst_walk (visit t) 2 (bst_root t) h)"

definition bstTraverseTree :: "nat \<Rightarrow> 'w bheap \<Rightarrow> (unit, 'w bheap) result" where
  "bstTraverseTree b h = (if b = 0 then bst_return () h else bst_walk_tree bst_traverse_node b h)"

definition bstPrintAscending :: "nat \<Rightarrow> nat \<Rightarrow> 'w bheap \<Rightarrow> (unit, 'w bheap) result" where
  "bstPrintAscending output b h =
     (if output = 0 \<and> b = 0 then bst_return () h else bst_walk_tree (\<lambda>t. bst_print_node t output) b h)"

partial_function (option) bstDeleteNodes :: "nat \<Rightarrow> nat \<Rightarrow> 'w bheap \<Rightarrow> (unit, 'w bheap) result" where
  "bstDeleteNodes b node h =
     andthen (the_node node h) (\<lambda>n h.
     andthen (if bn_left n \<noteq> 0 then bstDeleteNodes b (bn_left n) h else bst_return () h) (\<lambda>_ h.
     andthen (the_node node h) (\<lambda>n h.
     andthen (if bn_right n \<noteq> 0 then bstDeleteNodes b (bn_right n) h else bst_return () h) (\<lambda>_ h.
     andthen (the_node node h) (\<lambda>n h.
     andthen (the_tree b h) (\<lambda>t h.
     bst_return () (h\<lparr>bh_world := bst_delete_node t (bn_info n) (bh_world h), bh_nodes := (bh_nodes h)(node := None)\<rparr>)))))))"

definition bstDeleteTree :: "nat \<Rightarrow> 'w bheap \<Rightarrow> (unit, 'w bheap) result" where
  "bstDeleteTree b h =
     (if b = 0 then bst_return () h
      else andthen (the_tree b h) (\<lambda>t h.
        if bst_init t = 0 then bstInit b h
        else andthen (bstDeleteNodes b (bst_root t) h) (\<lambda>_.
          upd_tree b (\<lambda>t. t\<lparr>bst_root := 0, bst_nodes := 0, bst_deltype := 0\<rparr>))))"

end
