(* ===== verification/BSTreeRefine.thy ===== *)
theory BSTreeRefine
  imports BSTree "HOL-Library.Tree"
begin

text \<open>
  The tree in memory as a tree of positions and data, taken apart at a node into the subtree and the path above it. What
  every operation does to the inorder list of the tree.
\<close>

subsection \<open>The tree in memory\<close>

type_synonym pos_tree = "(nat \<times> nat) tree"

fun root_pos :: "pos_tree \<Rightarrow> nat" where
  "root_pos Leaf = 0"
| "root_pos (Node l a r) = fst a"

fun tree_at :: "(nat \<rightharpoonup> bstNode) \<Rightarrow> nat \<Rightarrow> pos_tree \<Rightarrow> bool" where
  "tree_at N pa Leaf \<longleftrightarrow> True"
| "tree_at N pa (Node l a r) \<longleftrightarrow>
     fst a \<noteq> 0 \<and> N (fst a) = Some \<lparr>bn_left = root_pos l, bn_right = root_pos r, bn_parent = pa, bn_info = snd a\<rparr> \<and>
     tree_at N (fst a) l \<and> tree_at N (fst a) r"

abbreviation positions :: "pos_tree \<Rightarrow> nat set" where
  "positions t \<equiv> fst ` set_tree t"

lemma tree_at_upd [simp]: "p \<notin> positions t \<Longrightarrow> tree_at (N(p := v)) pa t = tree_at N pa t"
  by (induction t arbitrary: pa) auto

lemma tree_at_cong: "(\<And>p. p \<in> positions t \<Longrightarrow> N' p = N p) \<Longrightarrow> tree_at N' pa t = tree_at N pa t"
  by (induction t arbitrary: pa) auto

lemma root_pos_zero [simp]: "tree_at N pa t \<Longrightarrow> root_pos t = 0 \<longleftrightarrow> t = Leaf"
  by (cases t) auto

lemma root_pos_in: "t \<noteq> Leaf \<Longrightarrow> root_pos t \<in> positions t"
  by (cases t) auto

lemma positions_nonzero: "tree_at N pa t \<Longrightarrow> p \<in> positions t \<Longrightarrow> p \<noteq> 0 \<and> N p \<noteq> None"
  by (induction N pa t rule: tree_at.induct) auto

text \<open>The parent of a subtree is written at its root.\<close>

fun set_parent :: "nat \<Rightarrow> pos_tree \<Rightarrow> (nat \<rightharpoonup> bstNode) \<Rightarrow> (nat \<rightharpoonup> bstNode)" where
  "set_parent pa Leaf N = N"
| "set_parent pa (Node l a r) N =
     N(fst a \<mapsto> \<lparr>bn_left = root_pos l, bn_right = root_pos r, bn_parent = pa, bn_info = snd a\<rparr>)"

lemma tree_at_set_parent:
  assumes "tree_at N pa t" and "distinct (map fst (inorder t))" shows "tree_at (set_parent pa' t N) pa' t"
proof (cases t)
  case (Node l a r)
  have "fst a \<notin> positions l" "fst a \<notin> positions r" using assms(2) by (auto simp: Node set_inorder [symmetric] simp del: set_inorder)
  then show ?thesis using assms(1) by (simp add: Node)
qed simp

lemma set_parent_other: "p \<notin> positions t \<Longrightarrow> set_parent pa t N p = N p"
  by (cases t) auto

subsection \<open>The path to a subtree\<close>

datatype turn = Went_left "nat \<times> nat" pos_tree | Went_right pos_tree "nat \<times> nat"

lemma turns_cases [case_names Nil left right]:
  obtains "c = []" | a r d where "c = Went_left a r # d" | l a d where "c = Went_right l a # d"
  by (metis list.exhaust turn.exhaust)

fun up_pos :: "nat \<Rightarrow> turn list \<Rightarrow> nat" where
  "up_pos pa [] = pa"
| "up_pos pa (Went_left a r # c) = fst a"
| "up_pos pa (Went_right l a # c) = fst a"

fun plug :: "turn list \<Rightarrow> pos_tree \<Rightarrow> pos_tree" where
  "plug [] t = t"
| "plug (Went_left a r # c) t = plug c (Node t a r)"
| "plug (Went_right l a # c) t = plug c (Node l a t)"

text \<open>The nodes of the path, the lowest first; \<open>q\<close> is the pointer below, \<open>pa\<close> the parent above.\<close>

fun path_at :: "(nat \<rightharpoonup> bstNode) \<Rightarrow> nat \<Rightarrow> turn list \<Rightarrow> nat \<Rightarrow> bool" where
  "path_at N pa [] q \<longleftrightarrow> True"
| "path_at N pa (Went_left a r # c) q \<longleftrightarrow>
     fst a \<noteq> 0 \<and> N (fst a) = Some \<lparr>bn_left = q, bn_right = root_pos r, bn_parent = up_pos pa c, bn_info = snd a\<rparr> \<and>
     tree_at N (fst a) r \<and> path_at N pa c (fst a)"
| "path_at N pa (Went_right l a # c) q \<longleftrightarrow>
     fst a \<noteq> 0 \<and> N (fst a) = Some \<lparr>bn_left = root_pos l, bn_right = q, bn_parent = up_pos pa c, bn_info = snd a\<rparr> \<and>
     tree_at N (fst a) l \<and> path_at N pa c (fst a)"

fun left_of :: "turn list \<Rightarrow> (nat \<times> nat) list" where
  "left_of [] = []"
| "left_of (Went_left a r # c) = left_of c"
| "left_of (Went_right l a # c) = left_of c @ inorder l @ [a]"

fun right_of :: "turn list \<Rightarrow> (nat \<times> nat) list" where
  "right_of [] = []"
| "right_of (Went_left a r # c) = a # inorder r @ right_of c"
| "right_of (Went_right l a # c) = right_of c"

definition path_positions :: "turn list \<Rightarrow> nat set" where
  "path_positions c = fst ` (set (left_of c) \<union> set (right_of c))"

lemma path_positions_simps [simp]:
  "path_positions [] = {}"
  "path_positions (Went_left a r # c) = insert (fst a) (positions r \<union> path_positions c)"
  "path_positions (Went_right l a # c) = insert (fst a) (positions l \<union> path_positions c)"
  by (auto simp: path_positions_def image_Un)

lemma inorder_plug: "inorder (plug c t) = left_of c @ inorder t @ right_of c"
  by (induction c t rule: plug.induct) auto

lemma tree_at_plug: "tree_at N pa (plug c t) \<longleftrightarrow> path_at N pa c (root_pos t) \<and> tree_at N (up_pos pa c) t"
  by (induction c t rule: plug.induct) auto

lemma plug_append: "plug (c @ d) s = plug d (plug c s)"
  by (induction c s rule: plug.induct) auto

lemma root_pos_plug: "root_pos s = root_pos s' \<Longrightarrow> root_pos (plug c s) = root_pos (plug c s')"
  by (induction c s arbitrary: s' rule: plug.induct) auto

lemma root_pos_plug_path: "c \<noteq> [] \<Longrightarrow> root_pos (plug c s) = root_pos (plug c s')"
  by (cases c rule: turns_cases) (auto intro: root_pos_plug)

lemma plug_Leaf: "plug c s = Leaf \<longleftrightarrow> c = [] \<and> s = Leaf"
  by (induction c s rule: plug.induct) auto

lemma path_at_upd [simp]: "p \<notin> path_positions c \<Longrightarrow> path_at (N(p := v)) pa c q = path_at N pa c q"
  by (induction N pa c q rule: path_at.induct) auto

lemma up_pos_in: "c \<noteq> [] \<Longrightarrow> up_pos pa c \<in> path_positions c"
  by (cases c rule: turns_cases) auto

lemma up_pos_path: "c \<noteq> [] \<Longrightarrow> up_pos pa c = up_pos pa' c"
  by (cases c rule: turns_cases) auto

lemma at_node: "(p, x) \<in> set_tree t \<Longrightarrow> \<exists>c l r. t = plug c (Node l (p, x) r)"
proof (induction t)
  case (Node l a r)
  have snoc: "\<exists>c'. Node (plug c s) a r = plug c' s" "\<exists>c'. Node l a (plug c s) = plug c' s" for c s
    using plug_append [of c "[Went_left a r]" s] plug_append [of c "[Went_right l a]" s] by (metis plug.simps)+
  consider "(p, x) \<in> set_tree l" | "a = (p, x)" | "(p, x) \<in> set_tree r" using Node.prems by auto
  then show ?case
  proof cases
    case 2
    then show ?thesis by (metis plug.simps(1))
  qed (use Node.IH snoc in metis)+
qed simp

definition is_bst :: "'w bheap \<Rightarrow> nat \<Rightarrow> 'w BST \<Rightarrow> pos_tree \<Rightarrow> bool" where
  "is_bst h b T t \<longleftrightarrow> b \<noteq> 0 \<and> bh_trees h b = Some T \<and> bst_init T \<noteq> 0 \<and> bst_root T = root_pos t \<and>
     bst_nodes T = int (size t) \<and> tree_at (bh_nodes h) 0 t \<and> distinct (map fst (inorder t))"

named_theorems bst_run "the steps of the tree operations"
declare bst_return_def [bst_run] invalid_pointer_def [bst_run] the_node_def [bst_run] upd_node_def [bst_run]
  the_tree_def [bst_run] upd_tree_def [bst_run] bst_compare_infos_def [bst_run]

subsection \<open>Traversal\<close>

lemma leftmost_down: "tree_at (bh_nodes h) pa (Node l a r) \<Longrightarrow> l \<noteq> Leaf \<Longrightarrow> leftmost (fst a) h = leftmost (root_pos l) h"
  by (subst leftmost.simps) (auto simp: bst_run)

lemma leftmost_here: "tree_at (bh_nodes h) pa (Node Leaf a r) \<Longrightarrow> leftmost (fst a) h = Some (Inr (fst a), h)"
  by (subst leftmost.simps) (auto simp: bst_run)

text \<open>Where the walk goes on after the subtree at \<open>p\<close>.\<close>

definition walk_after :: "(nat \<Rightarrow> 'w \<Rightarrow> 'w) \<Rightarrow> turn list \<Rightarrow> nat \<Rightarrow> 'w bheap \<Rightarrow> (unit, 'w bheap) result" where
  "walk_after visit c p h =
     (case c of
        [] \<Rightarrow> bst_return () h
      | Went_left a r # d \<Rightarrow> bst_walk visit 3 p h
      | Went_right l a # d \<Rightarrow> bst_walk visit 1 p h)"

definition visited :: "(nat \<Rightarrow> 'w \<Rightarrow> 'w) \<Rightarrow> pos_tree \<Rightarrow> 'w bheap \<Rightarrow> 'w bheap" where
  "visited visit t h = h\<lparr>bh_world := fold visit (map snd (inorder t)) (bh_world h)\<rparr>"

lemma visited_nodes [simp]: "bh_nodes (visited visit t h) = bh_nodes h"
  by (simp add: visited_def)

lemma after_turn:
  assumes "path_at (bh_nodes h) 0 c p" and "p \<notin> path_positions c" and "p \<noteq> 0"
  shows "(if up_pos 0 c = 0 then bst_return () h
     else andthen (the_node (up_pos 0 c) h) (\<lambda>m h. if bn_left m = p then bst_walk visit 3 p h else bst_walk visit 1 p h)) =
     walk_after visit c p h"
proof (cases c rule: turns_cases)
  case (right l a d)
  then have "root_pos l \<noteq> p" using assms(2,3) root_pos_in [of l] by (cases l) auto
  then show ?thesis using assms(1) right by (simp add: walk_after_def bst_run)
qed (use assms(1) in \<open>simp_all add: walk_after_def bst_run\<close>)

lemma walk_up:
  assumes "path_at (bh_nodes h) 0 (Went_right l a # d) p" and "bh_nodes h p = Some n" and "bn_parent n = fst a"
    and "fst a \<notin> path_positions d"
  shows "bst_walk visit 1 p h = walk_after visit d (fst a) h"
proof -
  have "bst_walk visit 1 p h = (if up_pos 0 d = 0 then bst_return () h
     else andthen (the_node (up_pos 0 d) h) (\<lambda>m h. if bn_left m = fst a then bst_walk visit 3 (fst a) h else bst_walk visit 1 (fst a) h))"
  proof (cases "up_pos 0 d = 0")
    case False
    then obtain g where "bh_nodes h (up_pos 0 d) = Some g" using assms(1) by (cases d rule: turns_cases) auto
    then show ?thesis using assms(1-3) by (subst bst_walk.simps) (auto simp: bst_run)
  qed (use assms(1-3) in \<open>subst bst_walk.simps, simp add: bst_run\<close>)
  then show ?thesis using after_turn [of h d "fst a"] assms(1,4) by simp
qed

lemma node_positions_apart:
  assumes "distinct (map fst (inorder (plug c (Node l a r))))"
  shows "fst a \<notin> path_positions c" and "fst a \<notin> positions l" and "fst a \<notin> positions r" and "positions l \<inter> positions r = {}"
    and "positions l \<inter> path_positions c = {}" and "positions r \<inter> path_positions c = {}"
    and "distinct (map fst (inorder l))" and "distinct (map fst (inorder r))"
proof -
  have pos: "positions s = set (map fst (inorder s))" for s by simp
  have path: "path_positions c = set (map fst (left_of c)) \<union> set (map fst (right_of c))"
    by (simp add: path_positions_def image_Un)
  have "distinct (map fst (left_of c) @ map fst (inorder l) @ fst a # map fst (inorder r) @ map fst (right_of c))"
    using assms by (simp add: inorder_plug)
  then show "fst a \<notin> path_positions c" "fst a \<notin> positions l" "fst a \<notin> positions r" "positions l \<inter> positions r = {}"
    "positions l \<inter> path_positions c = {}" "positions r \<inter> path_positions c = {}"
    "distinct (map fst (inorder l))" "distinct (map fst (inorder r))"
    unfolding pos path distinct_append distinct.simps set_append list.set by blast+
qed

lemma walk_visit:
  assumes "tree_at (bh_nodes h) (up_pos 0 c) (Node l a r)" and "path_at (bh_nodes h) 0 c (fst a)" and "fst a \<notin> path_positions c"
  shows "bst_walk visit 4 (fst a) h =
    (if r = Leaf then walk_after visit c (fst a) (h\<lparr>bh_world := visit (snd a) (bh_world h)\<rparr>)
     else bst_walk visit 2 (root_pos r) (h\<lparr>bh_world := visit (snd a) (bh_world h)\<rparr>))"
proof -
  let ?h = "h\<lparr>bh_world := visit (snd a) (bh_world h)\<rparr>"
  have "bst_walk visit 4 (fst a) h =
    (if r = Leaf then (if up_pos 0 c = 0 then bst_return () ?h
       else andthen (the_node (up_pos 0 c) ?h) (\<lambda>m h. if bn_left m = fst a then bst_walk visit 3 (fst a) h else bst_walk visit 1 (fst a) h))
     else bst_walk visit 2 (root_pos r) ?h)"
    using assms(1) by (subst bst_walk.simps) (auto simp: bst_run)
  moreover have "fst a \<noteq> 0" using assms(1) by simp
  ultimately show ?thesis using after_turn [of ?h c "fst a"] assms(2,3) by simp
qed

text \<open>The walk through a subtree visits its nodes in order, and goes on after it.\<close>

lemma walk_subtree:
  assumes "tree_at (bh_nodes h) (up_pos 0 c) t" and "t \<noteq> Leaf" and "path_at (bh_nodes h) 0 c (root_pos t)"
    and "distinct (map fst (inorder (plug c t)))"
  shows "bst_walk visit 2 (root_pos t) h = walk_after visit c (root_pos t) (visited visit t h)"
  using assms
proof (induction t arbitrary: c h)
  case (Node l a r)
  note apart = node_positions_apart [OF Node.prems(4)]
  have after_left: "bst_walk visit 4 (fst a) h1 = walk_after visit c (fst a) (visited visit (Node Leaf a r) h1)"
    if h1: "bh_nodes h1 = bh_nodes h" for h1
  proof -
    let ?h2 = "h1\<lparr>bh_world := visit (snd a) (bh_world h1)\<rparr>"
    have walk: "bst_walk visit 4 (fst a) h1 =
        (if r = Leaf then walk_after visit c (fst a) ?h2 else bst_walk visit 2 (root_pos r) ?h2)"
      using Node.prems(1,3) apart(1) h1 by (intro walk_visit) auto
    show ?thesis
    proof (cases "r = Leaf")
      case False
      have p: "path_at (bh_nodes ?h2) 0 (Went_right l a # c) (root_pos r)" using Node.prems(1,3) h1 by simp
      have "bst_walk visit 2 (root_pos r) ?h2 = walk_after visit (Went_right l a # c) (root_pos r) (visited visit r ?h2)"
        using Node.prems(1,4) False p h1 by (intro Node.IH(2)) auto
      also have "\<dots> = bst_walk visit 1 (root_pos r) (visited visit r ?h2)" by (simp add: walk_after_def)
      also have "\<dots> = walk_after visit c (fst a) (visited visit r ?h2)"
      proof -
        obtain l' a' r' where r: "r = Node l' a' r'" using False by (cases r) auto
        show ?thesis using Node.prems(1) p apart(1) h1 by (intro walk_up) (auto simp: r)
      qed
      finally show ?thesis using walk False by (simp add: visited_def)
    qed (simp add: walk visited_def)
  qed
  show ?case
  proof (cases "l = Leaf")
    case True
    have "bst_walk visit 2 (fst a) h = bst_walk visit 4 (fst a) h"
      using leftmost_here [of h "up_pos 0 c" a r] Node.prems(1) True by (subst bst_walk.simps) simp
    then show ?thesis using after_left [of h] True by (simp add: visited_def)
  next
    case False
    have "bst_walk visit 2 (fst a) h = bst_walk visit 2 (root_pos l) h"
      using leftmost_down [OF Node.prems(1) False] by (subst (1 2) bst_walk.simps) simp
    also have "\<dots> = walk_after visit (Went_left a r # c) (root_pos l) (visited visit l h)"
      using Node.prems(1,3,4) False by (intro Node.IH(1)) auto
    also have "\<dots> = bst_walk visit 4 (fst a) (visited visit l h)"
    proof -
      obtain l' a' r' where l: "l = Node l' a' r'" using False by (cases l) auto
      show ?thesis using Node.prems(1) by (simp add: walk_after_def l, subst bst_walk.simps) (simp add: bst_run)
    qed
    also have "\<dots> = walk_after visit c (fst a) (visited visit (Node Leaf a r) (visited visit l h))" by (rule after_left) simp
    finally show ?thesis by (simp add: visited_def)
  qed
qed simp

lemma walk_tree:
  assumes "is_bst h b T t" shows "bst_walk_tree visit b h = Some (Inr (), visited (visit T) t h)"
proof (cases "t = Leaf")
  case False
  have d: "tree_at (bh_nodes h) 0 t" "distinct (map fst (inorder t))" using assms by (simp_all add: is_bst_def)
  have "bst_walk (visit T) 2 (root_pos t) h = Some (Inr (), visited (visit T) t h)"
    using walk_subtree [of h "[]" t "visit T"] d False by (simp add: walk_after_def bst_run)
  moreover have "root_pos t \<noteq> 0" using d(1) False by simp
  ultimately show ?thesis using assms by (simp add: bst_walk_tree_def is_bst_def bst_run)
qed (use assms in \<open>simp add: bst_walk_tree_def is_bst_def visited_def bst_run\<close>)

end
