(* ===== verification/BSTreeOps.thy ===== *)
theory BSTreeOps
  imports BSTreeRefine
begin

text \<open>
  Searching, inserting and deleting in the binary search tree: the inorder list stays sorted, gains or loses exactly one
  node, and is searched correctly, also when elements are equal.
\<close>

definition compare_orders :: "(nat \<Rightarrow> nat \<Rightarrow> int) \<Rightarrow> bool" where
  "compare_orders f \<longleftrightarrow> (\<forall>x y. sgn (f y x) = - sgn (f x y)) \<and> (\<forall>x y z. f x y \<le> 0 \<longrightarrow> f y z \<le> 0 \<longrightarrow> f x z \<le> 0)"

definition sorted_tree :: "(nat \<Rightarrow> nat \<Rightarrow> int) \<Rightarrow> pos_tree \<Rightarrow> bool" where
  "sorted_tree f t \<longleftrightarrow> sorted_wrt (\<lambda>x y. f x y \<le> 0) (map snd (inorder t))"

lemma sorted_tree_Node:
  "sorted_tree f (Node l a r) \<longleftrightarrow> sorted_tree f l \<and> sorted_tree f r \<and> (\<forall>e \<in> set_tree l. f (snd e) (snd a) \<le> 0) \<and>
     (\<forall>e \<in> set_tree r. f (snd a) (snd e) \<le> 0) \<and> (\<forall>d \<in> set_tree l. \<forall>e \<in> set_tree r. f (snd d) (snd e) \<le> 0)"
  by (auto simp: sorted_tree_def sorted_wrt_append)

lemma compare_sgn: "compare_orders f \<Longrightarrow> sgn (f y x) = - sgn (f x y)"
  unfolding compare_orders_def by blast

lemma compare_flip:
  assumes "compare_orders f"
  shows "f y x < 0 \<longleftrightarrow> 0 < f x y" and "f y x \<le> 0 \<longleftrightarrow> 0 \<le> f x y" and "f y x = 0 \<longleftrightarrow> f x y = 0"
  using compare_sgn [OF assms, of y x] by (auto simp: sgn_if split: if_splits)

lemma compare_trans: "compare_orders f \<Longrightarrow> f x y \<le> 0 \<Longrightarrow> f y z \<le> 0 \<Longrightarrow> f x z \<le> 0"
  unfolding compare_orders_def by blast

lemma compare_trans_less: "compare_orders f \<Longrightarrow> f x y \<le> 0 \<Longrightarrow> f y z < 0 \<Longrightarrow> f x z < 0"
  by (meson compare_flip(1,2) compare_trans not_le)

lemma compare_less_trans: "compare_orders f \<Longrightarrow> f x y < 0 \<Longrightarrow> f y z \<le> 0 \<Longrightarrow> f x z < 0"
  by (meson compare_flip(1,2) compare_trans not_le)

subsection \<open>Searching\<close>

lemma find_from:
  assumes "compare_orders f" and "bst_compare T = Some f" and "tree_at (bh_nodes h) pa t" and "sorted_tree f t"
  shows "\<exists>p. bst_find_from T x (root_pos t) h = Some (Inr p, h) \<and>
    (p = 0 \<longrightarrow> (\<forall>e \<in> set_tree t. f (snd e) x \<noteq> 0)) \<and> (p \<noteq> 0 \<longrightarrow> (\<exists>y. (p, y) \<in> set_tree t \<and> f y x = 0))"
  using assms(3,4)
proof (induction t arbitrary: pa)
  case Leaf
  then show ?case by (subst bst_find_from.simps) (simp add: bst_run)
next
  case (Node l a r)
  note sort = Node.prems(2) [unfolded sorted_tree_Node]
  have run: "bst_find_from T x (fst a) h =
      (if f (snd a) x < 0 then bst_find_from T x (root_pos r) h
       else if 0 < f (snd a) x then bst_find_from T x (root_pos l) h else Some (Inr (fst a), h))"
    using Node.prems(1) assms(2) by (subst bst_find_from.simps) (auto simp: bst_run)
  consider (less) "f (snd a) x < 0" | (greater) "0 < f (snd a) x" | (equal) "f (snd a) x = 0" by linarith
  then show ?case
  proof cases
    case less
    have "f (snd e) x \<noteq> 0" if "e \<in> set_tree l" for e
      using compare_trans_less [OF assms(1)] sort less that by fastforce
    then show ?thesis using Node.IH(2) [of "fst a"] Node.prems(1) sort run less by fastforce
  next
    case greater
    then have "f x (snd a) < 0" using compare_flip(1) [OF assms(1)] by blast
    then have "f x (snd e) < 0" if "e \<in> set_tree r" for e using compare_less_trans [OF assms(1)] sort that by fastforce
    then have "f (snd e) x \<noteq> 0" if "e \<in> set_tree r" for e using compare_flip(3) [OF assms(1)] that by fastforce
    then show ?thesis using Node.IH(1) [of "fst a"] Node.prems(1) sort run greater by fastforce
  next
    case equal
    then show ?thesis using Node.prems(1) run by (intro exI [of _ "fst a"]) (auto intro: exI [of _ "snd a"])
  qed
qed

subsection \<open>Inserting\<close>

fun ins_node :: "(nat \<Rightarrow> nat \<Rightarrow> int) \<Rightarrow> nat \<times> nat \<Rightarrow> pos_tree \<Rightarrow> pos_tree" where
  "ins_node f e Leaf = Node Leaf e Leaf"
| "ins_node f e (Node l a r) = (if 0 \<le> f (snd e) (snd a) then Node l a (ins_node f e r) else Node (ins_node f e l) a r)"

lemma set_ins_node [simp]: "set_tree (ins_node f e t) = insert e (set_tree t)"
  by (induction t) auto

lemma size_ins_node [simp]: "size (ins_node f e t) = Suc (size t)"
  by (induction t) auto

lemma root_ins_node: "root_pos (ins_node f e t) = (if t = Leaf then fst e else root_pos t)"
  by (cases t) auto

lemma ins_node_distinct:
  "distinct (map fst (inorder t)) \<Longrightarrow> fst e \<notin> positions t \<Longrightarrow> distinct (map fst (inorder (ins_node f e t)))"
proof (induction t)
  case (Node l a r)
  have "distinct (map fst (inorder (plug [] (Node l a r))))" using Node.prems(1) by simp
  note apart = node_positions_apart [OF this]
  then show ?case using Node by (auto simp: image_iff)
qed simp

lemma ins_node_sorted: "compare_orders f \<Longrightarrow> sorted_tree f t \<Longrightarrow> sorted_tree f (ins_node f e t)"
proof (induction t)
  case (Node l a r)
  note sort = Node.prems(2) [unfolded sorted_tree_Node]
  show ?case
  proof (cases "0 \<le> f (snd e) (snd a)")
    case True
    then have "f (snd a) (snd e) \<le> 0" using compare_flip(2) [OF Node.prems(1)] by blast
    moreover have "f (snd d) (snd e) \<le> 0" if "d \<in> set_tree l" for d
      using compare_trans [OF Node.prems(1)] sort that calculation by blast
    ultimately show ?thesis using True Node sort by (simp add: sorted_tree_Node)
  next
    case False
    then have "f (snd e) (snd a) \<le> 0" by simp
    moreover have "f (snd e) (snd d) \<le> 0" if "d \<in> set_tree r" for d
      using compare_trans [OF Node.prems(1)] sort that calculation by blast
    ultimately show ?thesis using False Node sort by (simp add: sorted_tree_Node)
  qed
qed (simp add: sorted_tree_def)

text \<open>Where the new node is in the order: behind the elements that are not greater.\<close>

lemma inorder_ins_node:
  assumes "compare_orders f" and "sorted_tree f t"
  shows "inorder (ins_node f e t) =
    filter (\<lambda>d. 0 \<le> f (snd e) (snd d)) (inorder t) @ e # filter (\<lambda>d. f (snd e) (snd d) < 0) (inorder t)"
  using assms(2)
proof (induction t)
  case (Node l a r)
  note sort = Node.prems [unfolded sorted_tree_Node]
  show ?case
  proof (cases "0 \<le> f (snd e) (snd a)")
    case True
    have "0 \<le> f (snd e) (snd d)" if "d \<in> set_tree l" for d
      using compare_trans [OF assms(1), of "snd d" "snd a" "snd e"] compare_flip(2) [OF assms(1)] sort True that by blast
    then have "filter (\<lambda>d. 0 \<le> f (snd e) (snd d)) (inorder l) = inorder l" "filter (\<lambda>d. f (snd e) (snd d) < 0) (inorder l) = []"
      by (auto simp: filter_empty_conv not_less)
    then show ?thesis using Node.IH(2) sort True by simp
  next
    case False
    have "f (snd e) (snd d) < 0" if "d \<in> set_tree r" for d
      using compare_less_trans [OF assms(1), of "snd e" "snd a" "snd d"] sort False that by simp
    then have "filter (\<lambda>d. 0 \<le> f (snd e) (snd d)) (inorder r) = []" "filter (\<lambda>d. f (snd e) (snd d) < 0) (inorder r) = inorder r"
      by (auto simp: filter_empty_conv not_le)
    then show ?thesis using Node.IH(1) sort False by simp
  qed
qed simp

lemma insert_from:
  assumes "bst_compare T = Some f" and "tree_at (bh_nodes h) pa t" and "t \<noteq> Leaf" and "q \<noteq> 0" and "q \<notin> positions t"
    and "bh_nodes h q = Some n" and "bn_left n = 0" and "bn_right n = 0" and "bn_info n = x"
    and "distinct (map fst (inorder t))"
  shows "\<exists>N'. bst_insert_from T x q (root_pos t) h = Some (Inr (), h\<lparr>bh_nodes := N'\<rparr>) \<and> tree_at N' pa (ins_node f (q, x) t) \<and>
    (\<forall>p. p \<notin> insert q (positions t) \<longrightarrow> N' p = bh_nodes h p)"
  using assms(2,3,5,10)
proof (induction t arbitrary: pa)
  case (Node l a r)
  let ?N = "bh_nodes h"
  have "distinct (map fst (inorder (plug [] (Node l a r))))" using Node.prems(4) by simp
  note apart = node_positions_apart [OF this]
  have run: "bst_insert_from T x q (fst a) h =
     (if 0 \<le> f x (snd a) then
        (if r = Leaf then
           andthen (upd_node (fst a) (\<lambda>m. m\<lparr>bn_right := q\<rparr>) h) (\<lambda>_. upd_node q (\<lambda>m. m\<lparr>bn_parent := fst a\<rparr>))
         else bst_insert_from T x q (root_pos r) h)
      else
        (if l = Leaf then
           andthen (upd_node (fst a) (\<lambda>m. m\<lparr>bn_left := q\<rparr>) h) (\<lambda>_. upd_node q (\<lambda>m. m\<lparr>bn_parent := fst a\<rparr>))
         else bst_insert_from T x q (root_pos l) h))"
    using Node.prems(1) assms(1) by (subst bst_insert_from.simps) (auto simp: bst_run)
  have n: "n\<lparr>bn_parent := fst a\<rparr> = \<lparr>bn_left = 0, bn_right = 0, bn_parent = fst a, bn_info = x\<rparr>"
    using assms(7-9) by (cases n) simp
  have qa: "q \<noteq> fst a" "q \<notin> positions l" "q \<notin> positions r" using Node.prems(3) by auto
  show ?case
  proof (cases "0 \<le> f x (snd a)")
    case right: True
    show ?thesis
    proof (cases "r = Leaf")
      case True
      then show ?thesis using run right Node.prems(1) assms(4,6) n qa apart(2) by (auto simp: bst_run)
    next
      case False
      obtain N' where N': "bst_insert_from T x q (root_pos r) h = Some (Inr (), h\<lparr>bh_nodes := N'\<rparr>)"
          "tree_at N' (fst a) (ins_node f (q, x) r)" "\<forall>p. p \<notin> insert q (positions r) \<longrightarrow> N' p = ?N p"
        using Node.IH(2) [of "fst a"] Node.prems(1) False qa apart(8) by auto
      have "p \<notin> insert q (positions r)" if "p \<in> positions l" for p using that qa(2) apart(4) by blast
      then have "tree_at N' (fst a) l = tree_at ?N (fst a) l" using N'(3) by (intro tree_at_cong) blast
      moreover have "N' (fst a) = ?N (fst a)" using N'(3) qa(1) apart(3) by simp
      moreover have "\<forall>p. p \<notin> insert q (positions (Node l a r)) \<longrightarrow> N' p = ?N p" using N'(3) by (simp add: image_Un)
      ultimately show ?thesis
        using run right False N'(1,2) Node.prems(1) by (intro exI [of _ N']) (simp add: root_ins_node)
    qed
  next
    case left: False
    show ?thesis
    proof (cases "l = Leaf")
      case True
      then show ?thesis using run left Node.prems(1) assms(4,6) n qa apart(3) by (auto simp: bst_run)
    next
      case False
      obtain N' where N': "bst_insert_from T x q (root_pos l) h = Some (Inr (), h\<lparr>bh_nodes := N'\<rparr>)"
          "tree_at N' (fst a) (ins_node f (q, x) l)" "\<forall>p. p \<notin> insert q (positions l) \<longrightarrow> N' p = ?N p"
        using Node.IH(1) [of "fst a"] Node.prems(1) False qa apart(7) by auto
      have "p \<notin> insert q (positions l)" if "p \<in> positions r" for p using that qa(3) apart(4) by blast
      then have "tree_at N' (fst a) r = tree_at ?N (fst a) r" using N'(3) by (intro tree_at_cong) blast
      moreover have "N' (fst a) = ?N (fst a)" using N'(3) qa(1) apart(2) by simp
      moreover have "\<forall>p. p \<notin> insert q (positions (Node l a r)) \<longrightarrow> N' p = ?N p" using N'(3) by (simp add: image_Un)
      ultimately show ?thesis
        using run left False N'(1,2) Node.prems(1) by (intro exI [of _ N']) (simp add: root_ins_node)
    qed
  qed
qed simp

lemma Insert:
  assumes "is_bst h b T t" and "bst_compare T = Some f" and "malloc h = q" and "q \<noteq> 0" and "bh_nodes h q = None" and "x \<noteq> 0"
  obtains h' where "bstInsert malloc x b h = Some (Inr q, h')"
    and "is_bst h' b (T\<lparr>bst_nodes := bst_nodes T + 1, bst_root := root_pos (ins_node f (q, x) t)\<rparr>) (ins_node f (q, x) t)"
proof -
  define n where "n = \<lparr>bn_left = 0, bn_right = 0, bn_parent = 0, bn_info = x\<rparr>"
  let ?T = "T\<lparr>bst_nodes := bst_nodes T + 1\<rparr>"
  let ?h = "h\<lparr>bh_nodes := (bh_nodes h)(q \<mapsto> n), bh_trees := (bh_trees h)(b \<mapsto> ?T)\<rparr>"
  have b: "b \<noteq> 0" "bh_trees h b = Some T" "bst_init T \<noteq> 0" "bst_root T = root_pos t" "bst_nodes T = int (size t)"
      "tree_at (bh_nodes h) 0 t" "distinct (map fst (inorder t))"
    using assms(1) by (simp_all add: is_bst_def)
  have q: "q \<notin> positions t" using positions_nonzero [OF b(6), of q] assms(5) by auto
  have t: "tree_at (bh_nodes ?h) 0 t" using b(6) q by simp
  show thesis
  proof (cases "t = Leaf")
    case True
    show thesis
      by (rule that, use True b assms(3-6) in \<open>auto simp: bstInsert_def bst_malloc_def Let_def is_bst_def bst_run\<close>)
  next
    case False
    obtain N' where N': "bst_insert_from T x q (root_pos t) ?h = Some (Inr (), ?h\<lparr>bh_nodes := N'\<rparr>)"
        "tree_at N' 0 (ins_node f (q, x) t)"
      using insert_from [OF assms(2) t False assms(4) q, of n x] b(7) by (auto simp: n_def)
    have "root_pos t \<noteq> 0" using b(6) False by simp
    then show thesis
      using that [of "?h\<lparr>bh_nodes := N'\<rparr>"] N' b assms(3-6) q ins_node_distinct [OF b(7), of "(q, x)" f] False
      by (auto simp: bstInsert_def bst_malloc_def Let_def is_bst_def root_ins_node n_def bst_run)
  qed
qed

end
