(* ===== verification/BSTreeDelete.thy ===== *)
theory BSTreeDelete
  imports BSTreeOps
begin

text \<open>
  Deleting a node: in every case the inorder list loses that node and keeps the others in their order.
\<close>

lemma positions_plug: "positions (plug c t) = positions t \<union> path_positions c"
  by (simp add: set_inorder [symmetric] inorder_plug path_positions_def image_Un Un_ac del: set_inorder)

lemma positions_Node: "positions (Node l a r) = insert (fst a) (positions l \<union> positions r)"
  by auto

subsection \<open>Changing one pointer\<close>

lemma path_at_cong: "(\<And>p. p \<in> path_positions c \<Longrightarrow> N' p = N p) \<Longrightarrow> path_at N' pa c q = path_at N pa c q"
proof (induction N pa c q rule: path_at.induct)
  case (2 N pa a r c q)
  have "tree_at N' (fst a) r = tree_at N (fst a) r" using 2(2) by (intro tree_at_cong) auto
  then show ?case using 2 by simp
next
  case (3 N pa l a c q)
  have "tree_at N' (fst a) l = tree_at N (fst a) l" using 3(2) by (intro tree_at_cong) auto
  then show ?case using 3 by simp
qed simp

definition set_slot :: "(nat \<rightharpoonup> bstNode) \<Rightarrow> nat \<Rightarrow> turn list \<Rightarrow> nat \<Rightarrow> (nat \<rightharpoonup> bstNode)" where
  "set_slot N pa c q =
     (case c of
        [] \<Rightarrow> N
      | Went_left a r # d \<Rightarrow> N(fst a \<mapsto> \<lparr>bn_left = q, bn_right = root_pos r, bn_parent = up_pos pa d, bn_info = snd a\<rparr>)
      | Went_right l a # d \<Rightarrow> N(fst a \<mapsto> \<lparr>bn_left = root_pos l, bn_right = q, bn_parent = up_pos pa d, bn_info = snd a\<rparr>))"

definition distinct_path :: "turn list \<Rightarrow> bool" where
  "distinct_path c \<longleftrightarrow> distinct (map fst (left_of c @ right_of c))"

lemma distinct_path_Cons:
  "distinct_path (Went_left a r # c) \<Longrightarrow> fst a \<notin> positions r \<and> fst a \<notin> path_positions c \<and> distinct_path c"
  "distinct_path (Went_right l a # c) \<Longrightarrow> fst a \<notin> positions l \<and> fst a \<notin> path_positions c \<and> distinct_path c"
  unfolding distinct_path_def path_positions_def by (auto simp: image_Un)

lemma distinct_plug: "distinct (map fst (inorder (plug c t))) \<Longrightarrow> distinct_path c"
  by (auto simp: inorder_plug distinct_path_def)

lemma path_set_slot: "path_at N pa c q \<Longrightarrow> distinct_path c \<Longrightarrow> path_at (set_slot N pa c q') pa c q'"
  by (cases c rule: turns_cases) (auto simp: set_slot_def dest: distinct_path_Cons)

lemma set_slot_other: "p \<notin> path_positions c \<Longrightarrow> set_slot N pa c q p = N p"
  by (cases c rule: turns_cases) (auto simp: set_slot_def)

lemma set_parent_same: "tree_at N pa t \<Longrightarrow> set_parent pa t N = N"
  by (cases t) auto

lemma upd_parent: "tree_at (bh_nodes h) pa t \<Longrightarrow> t \<noteq> Leaf \<Longrightarrow>
  upd_node (root_pos t) (\<lambda>m. m\<lparr>bn_parent := pa'\<rparr>) h = Some (Inr (), h\<lparr>bh_nodes := set_parent pa' t (bh_nodes h)\<rparr>)"
  by (cases t) (auto simp: bst_run)

lemma upd_parent_if: "tree_at (bh_nodes h) pa t \<Longrightarrow>
  (if root_pos t \<noteq> 0 then upd_node (root_pos t) (\<lambda>m. m\<lparr>bn_parent := pa'\<rparr>) h else bst_return () h) =
  Some (Inr (), h\<lparr>bh_nodes := set_parent pa' t (bh_nodes h)\<rparr>)"
  using upd_parent [of h pa t pa'] by (cases "t = Leaf") (auto simp: bst_run)

text \<open>The pointer to the node at the end of a path.\<close>

definition pointer_of :: "turn list \<Rightarrow> parents_pointer" where
  "pointer_of c = (case c of [] \<Rightarrow> Root_pointer | Went_left a r # d \<Rightarrow> Left_pointer (fst a) | Went_right l a # d \<Rightarrow> Right_pointer (fst a))"

definition set_root :: "nat \<Rightarrow> turn list \<Rightarrow> nat \<Rightarrow> (nat \<rightharpoonup> 'w BST) \<Rightarrow> (nat \<rightharpoonup> 'w BST)" where
  "set_root b c q M = (if c = [] then M(b \<mapsto> (the (M b))\<lparr>bst_root := q\<rparr>) else M)"

lemma parents_pointer:
  assumes "path_at (bh_nodes h) 0 c p" and "bh_nodes h p = Some n" and "bn_parent n = up_pos 0 c" and "p \<noteq> 0"
    and "p \<notin> path_positions c"
  shows "parents_pointer_of p h = Some (Inr (pointer_of c), h)"
proof (cases c rule: turns_cases)
  case (right l a d)
  then have "root_pos l \<noteq> p" using assms(4,5) root_pos_in [of l] by (cases l) auto
  then show ?thesis using assms right by (simp add: parents_pointer_of_def pointer_of_def bst_run)
qed (use assms in \<open>auto simp: parents_pointer_of_def pointer_of_def bst_run\<close>)

lemma set_pointer:
  assumes "path_at (bh_nodes h) 0 c p" and "bh_trees h b = Some T"
  shows "set_parents_pointer b (pointer_of c) q h =
    Some (Inr (), h\<lparr>bh_nodes := set_slot (bh_nodes h) 0 c q, bh_trees := set_root b c q (bh_trees h)\<rparr>)"
  using assms by (cases c rule: turns_cases) (auto simp: set_parents_pointer_def pointer_of_def set_slot_def set_root_def bst_run)

subsection \<open>The new tree\<close>

text \<open>A subtree hung in at the end of a path.\<close>

lemma hang_subtree:
  assumes "path_at N 0 c q" and "tree_at N pa s" and "distinct (map fst (inorder (plug c s)))"
  shows "tree_at (set_parent (up_pos 0 c) s (set_slot N 0 c (root_pos s))) 0 (plug c s)"
proof -
  let ?M = "set_slot N 0 c (root_pos s)"
  have disj: "positions s \<inter> path_positions c = {}" and ds: "distinct (map fst (inorder s))"
    using assms(3) unfolding inorder_plug path_positions_def by (auto simp: image_Un)
  have "path_at ?M 0 c (root_pos s)" by (rule path_set_slot [OF assms(1) distinct_plug [OF assms(3)]])
  moreover have "set_parent (up_pos 0 c) s ?M p = ?M p" if "p \<in> path_positions c" for p
    using that disj by (intro set_parent_other) blast
  ultimately have "path_at (set_parent (up_pos 0 c) s ?M) 0 c (root_pos s)" using path_at_cong by metis
  moreover have "?M p = N p" if "p \<in> positions s" for p using that disj by (intro set_slot_other) blast
  then have "tree_at ?M pa s" using assms(2) tree_at_cong [of s ?M N pa] by blast
  ultimately show ?thesis using tree_at_set_parent [OF _ ds] by (simp add: tree_at_plug)
qed

text \<open>A node put at the end of a path, over two subtrees.\<close>

lemma hang_node:
  assumes "path_at N 0 c q" and "tree_at N pl l" and "tree_at N pr r" and "distinct (map fst (inorder (plug c (Node l a r))))" and "fst a \<noteq> 0"
  shows "tree_at (set_parent (fst a) r (set_parent (fst a) l ((set_slot N 0 c (fst a))(fst a \<mapsto>
    \<lparr>bn_left = root_pos l, bn_right = root_pos r, bn_parent = up_pos 0 c, bn_info = snd a\<rparr>)))) 0 (plug c (Node l a r))"
    (is "tree_at ?R 0 _")
proof -
  note apart = node_positions_apart [OF assms(4)]
  let ?M = "(set_slot N 0 c (fst a))(fst a \<mapsto>
    \<lparr>bn_left = root_pos l, bn_right = root_pos r, bn_parent = up_pos 0 c, bn_info = snd a\<rparr>)"
  have path: "path_at ?M 0 c (fst a)"
    using path_set_slot [OF assms(1) distinct_plug [OF assms(4)]] apart(1) by simp
  have same: "?M p = N p" if "p \<notin> path_positions c" "p \<noteq> fst a" for p using that set_slot_other by simp
  have "?M p = N p" if "p \<in> positions l" for p
  proof (rule same)
    show "p \<notin> path_positions c" using that apart(5) by blast
    show "p \<noteq> fst a" using that apart(2) by blast
  qed
  then have tl: "tree_at ?M pl l" using assms(2) tree_at_cong [of l ?M N pl] by simp
  have "?M p = N p" if "p \<in> positions r" for p
  proof (rule same)
    show "p \<notin> path_positions c" using that apart(6) by blast
    show "p \<noteq> fst a" using that apart(3) by blast
  qed
  then have tr: "tree_at ?M pr r" using assms(3) tree_at_cong [of r ?M N pr] by simp
  let ?L = "set_parent (fst a) l ?M"
  have l: "tree_at ?L (fst a) l" by (rule tree_at_set_parent [OF tl apart(7)])
  have "?L p = ?M p" if "p \<notin> positions l" for p using that by (rule set_parent_other)
  then have rL: "tree_at ?L pr r" using tr tree_at_cong [of r ?L ?M pr] apart(4) by blast
  have r: "tree_at ?R (fst a) r" by (rule tree_at_set_parent [OF rL apart(8)])
  have other: "?R p = ?M p" if "p \<notin> positions l" "p \<notin> positions r" for p
    using that by (simp add: set_parent_other del: fun_upd_apply)
  have "?R p = ?L p" if "p \<notin> positions r" for p using that by (rule set_parent_other)
  then have "tree_at ?R (fst a) l" using l tree_at_cong [of l ?R ?L "fst a"] apart(4) by blast
  moreover have "path_at ?R 0 c (fst a)" using path path_at_cong [of c ?R ?M 0 "fst a"] other apart(5,6) by blast
  moreover have "?R (fst a) = Some \<lparr>bn_left = root_pos l, bn_right = root_pos r, bn_parent = up_pos 0 c, bn_info = snd a\<rparr>"
    using other [of "fst a"] apart(2,3) by simp
  ultimately show ?thesis using r assms(5) by (simp add: tree_at_plug)
qed

subsection \<open>The neighbours in the order\<close>

lemma leftmost_node:
  assumes "tree_at (bh_nodes h) pa t" and "t \<noteq> Leaf"
  shows "\<exists>c a r. t = plug c (Node Leaf a r) \<and> left_of c = [] \<and> leftmost (root_pos t) h = Some (Inr (fst a), h)"
  using assms
proof (induction t arbitrary: pa)
  case (Node l a r)
  show ?case
  proof (cases "l = Leaf")
    case True
    then show ?thesis
      using leftmost_here [of h pa a r] Node.prems(1) by (intro exI [of _ "[]"] exI [of _ a] exI [of _ r]) simp
  next
    case False
    obtain c a' r' where c: "l = plug c (Node Leaf a' r')" "left_of c = []" "leftmost (root_pos l) h = Some (Inr (fst a'), h)"
      using Node.IH(1) [of "fst a"] Node.prems(1) False by auto
    have "Node l a r = plug (c @ [Went_left a r]) (Node Leaf a' r')" by (simp add: plug_append c(1))
    moreover have "left_of (c @ [Went_left a r]) = []" using c(2) by (induction c rule: left_of.induct) auto
    ultimately show ?thesis using leftmost_down [OF Node.prems(1) False] c(3) by (metis root_pos.simps(2))
  qed
qed simp

lemma rightmost_node:
  assumes "tree_at (bh_nodes h) pa t" and "t \<noteq> Leaf"
  shows "\<exists>c a l. t = plug c (Node l a Leaf) \<and> right_of c = [] \<and> rightmost (root_pos t) h = Some (Inr (fst a), h)"
  using assms
proof (induction t arbitrary: pa)
  case (Node l a r)
  show ?case
  proof (cases "r = Leaf")
    case True
    have "rightmost (fst a) h = Some (Inr (fst a), h)"
      using Node.prems(1) True by (subst rightmost.simps) (auto simp: bst_run)
    then show ?thesis using True by (intro exI [of _ "[]"] exI [of _ a] exI [of _ l]) simp
  next
    case False
    obtain c a' l' where c: "r = plug c (Node l' a' Leaf)" "right_of c = []" "rightmost (root_pos r) h = Some (Inr (fst a'), h)"
      using Node.IH(2) [of "fst a"] Node.prems(1) False by auto
    have "Node l a r = plug (c @ [Went_right l a]) (Node l' a' Leaf)" by (simp add: plug_append c(1))
    moreover have "right_of (c @ [Went_right l a]) = []" using c(2) by (induction c rule: right_of.induct) auto
    moreover have "rightmost (fst a) h = rightmost (root_pos r) h"
      using Node.prems(1) False by (subst rightmost.simps) (auto simp: bst_run)
    ultimately show ?thesis using c(3) by (metis root_pos.simps(2))
  qed
qed simp

text \<open>A node with one child is cut out of a subtree: the child takes its place.\<close>

lemma cut_out:
  assumes "tree_at N pa (plug c (Node l a r))" and "distinct (map fst (inorder (plug c (Node l a r))))" and "c \<noteq> []"
    and "s = l \<or> s = r" and "l = Leaf \<or> r = Leaf"
  shows "tree_at (set_parent (up_pos pa c) s (set_slot N pa c (root_pos s))) pa (plug c s)"
    and "p \<notin> positions (plug c (Node l a r)) - {fst a} \<Longrightarrow> set_parent (up_pos pa c) s (set_slot N pa c (root_pos s)) p = N p"
proof -
  note apart = node_positions_apart [OF assms(2)]
  let ?M = "set_slot N pa c (root_pos s)"
  have path: "path_at N pa c (fst a)" and s: "tree_at N (fst a) s" using assms(1,4) by (auto simp: tree_at_plug)
  have disj: "positions s \<inter> path_positions c = {}" "distinct (map fst (inorder s))" "fst a \<notin> positions s"
    using assms(4) apart by auto
  have "path_at ?M pa c (root_pos s)" by (rule path_set_slot [OF path distinct_plug [OF assms(2)]])
  moreover have "set_parent (up_pos pa c) s ?M p = ?M p" if "p \<in> path_positions c" for p
    using that disj by (intro set_parent_other) blast
  ultimately have "path_at (set_parent (up_pos pa c) s ?M) pa c (root_pos s)" using path_at_cong by metis
  moreover have "?M p = N p" if "p \<in> positions s" for p using that disj by (intro set_slot_other) blast
  then have "tree_at ?M (fst a) s" using s tree_at_cong [of s ?M N "fst a"] by blast
  ultimately show "tree_at (set_parent (up_pos pa c) s ?M) pa (plug c s)"
    using tree_at_set_parent [OF _ disj(2)] by (simp add: tree_at_plug)
  have "positions s \<union> path_positions c \<subseteq> positions (plug c (Node l a r)) - {fst a}"
    using assms(4) disj(3) apart(1) unfolding positions_plug positions_Node by blast
  then have "p \<notin> positions s" "p \<notin> path_positions c" if "p \<notin> positions (plug c (Node l a r)) - {fst a}"
    using that by blast+
  then show "set_parent (up_pos pa c) s ?M p = N p" if "p \<notin> positions (plug c (Node l a r)) - {fst a}"
    using that by (simp add: set_parent_other set_slot_other)
qed

subsection \<open>Unlinking\<close>

text \<open>The state after a node is unlinked: the nodes and the root; nothing else changes but \<open>deltype\<close>.\<close>

definition relinked :: "'w bheap \<Rightarrow> nat \<Rightarrow> pos_tree \<Rightarrow> 'w bheap \<Rightarrow> bool" where
  "relinked h b t h' \<longleftrightarrow> bh_world h' = bh_world h \<and> tree_at (bh_nodes h') 0 t \<and>
     (\<forall>p. p \<notin> positions t \<longrightarrow> bh_nodes h' p = bh_nodes h p) \<and>
     (\<exists>T d. bh_trees h b = Some T \<and> bh_trees h' b = Some (T\<lparr>bst_root := root_pos t, bst_deltype := d\<rparr>))"

lemma root_after:
  assumes "c \<noteq> [] \<longrightarrow> bst_root T = root_pos (plug c s')" and "M b = Some T"
  shows "set_root b c (root_pos s) M b = Some (T\<lparr>bst_root := root_pos (plug c s)\<rparr>)"
  using assms root_pos_plug_path [of c s s'] by (cases "c = []") (auto simp: set_root_def)

abbreviation node_of :: "turn list \<Rightarrow> pos_tree \<Rightarrow> pos_tree \<Rightarrow> nat \<Rightarrow> bstNode" where
  "node_of c l r x \<equiv> \<lparr>bn_left = root_pos l, bn_right = root_pos r, bn_parent = up_pos 0 c, bn_info = x\<rparr>"

abbreviation placed :: "(nat \<rightharpoonup> bstNode) \<Rightarrow> turn list \<Rightarrow> pos_tree \<Rightarrow> nat \<times> nat \<Rightarrow> pos_tree \<Rightarrow> (nat \<rightharpoonup> bstNode)" where
  "placed N c l a r \<equiv> (set_slot N 0 c (fst a))(fst a \<mapsto> node_of c l r (snd a))"

lemma placed_other:
  "p \<notin> positions (plug c (Node l a r)) \<Longrightarrow> set_parent (fst a) r (set_parent (fst a) l (placed N c l a r)) p = N p"
  unfolding positions_plug positions_Node by (simp add: set_parent_other set_slot_other)

lemma deltype_root: "T\<lparr>bst_deltype := d, bst_root := q\<rparr> = T\<lparr>bst_root := q, bst_deltype := d\<rparr>"
  by (cases T) simp

text \<open>The last steps of a deletion: the node goes to the end of the path, over its new children.\<close>

lemma placed_subtrees:
  assumes "distinct (map fst (inorder (plug c (Node l a r))))"
  shows "tree_at N pl l \<Longrightarrow> tree_at (placed N c l a r) pl l" and "tree_at N pr r \<Longrightarrow> tree_at (placed N c l a r) pr r"
    and "tree_at N pr r \<Longrightarrow> tree_at (set_parent (fst a) l (placed N c l a r)) pr r"
    and "tree_at N pl l \<Longrightarrow> tree_at (set_parent (fst a) r (placed N c l a r)) pl l"
proof -
  note apart = node_positions_apart [OF assms]
  have same: "placed N c l a r e = N e" if "e \<in> positions l \<union> positions r" for e
  proof -
    have "e \<noteq> fst a" "e \<notin> path_positions c" using that apart(2,3,5,6) by blast+
    then show ?thesis by (simp add: set_slot_other)
  qed
  show l: "tree_at N pl l \<Longrightarrow> tree_at (placed N c l a r) pl l" and r: "tree_at N pr r \<Longrightarrow> tree_at (placed N c l a r) pr r"
    using same tree_at_cong [of l "placed N c l a r" N pl] tree_at_cong [of r "placed N c l a r" N pr] by (simp_all del: fun_upd_apply)
  have "set_parent (fst a) l (placed N c l a r) e = placed N c l a r e" if "e \<in> positions r" for e
    using that apart(4) by (intro set_parent_other) blast
  then show "tree_at N pr r \<Longrightarrow> tree_at (set_parent (fst a) l (placed N c l a r)) pr r"
    using r tree_at_cong [of r "set_parent (fst a) l (placed N c l a r)" "placed N c l a r" pr] by (simp del: fun_upd_apply)
  have "set_parent (fst a) r (placed N c l a r) e = placed N c l a r e" if "e \<in> positions l" for e
    using that apart(4) by (intro set_parent_other) blast
  then show "tree_at N pl l \<Longrightarrow> tree_at (set_parent (fst a) r (placed N c l a r)) pl l"
    using l tree_at_cong [of l "set_parent (fst a) r (placed N c l a r)" "placed N c l a r" pl] by (simp del: fun_upd_apply)
qed

lemma set_parent_commute:
  assumes "positions l \<inter> positions r = {}" shows "set_parent pa l (set_parent pb r N) = set_parent pb r (set_parent pa l N)"
proof (cases "l = Leaf \<or> r = Leaf")
  case False
  then obtain l1 a l2 r1 d r2 where "l = Node l1 a l2" "r = Node r1 d r2" by (metis tree.exhaust)
  then show ?thesis using assms by (auto intro: fun_upd_twist)
qed auto

lemma place_node:
  assumes "path_at (bh_nodes h) 0 c q" and "tree_at (bh_nodes h) pl l" and "tree_at (bh_nodes h) pr r"
    and "distinct (map fst (inorder (plug c (Node l a r))))" and "fst a \<noteq> 0" and "bh_nodes h (fst a) = Some m" and "bn_info m = snd a"
    and "bh_trees h b = Some T" and "bst_root T = root_pos (plug c s')" and "\<exists>T0 d. bh_trees h0 b = Some T0 \<and> T = T0\<lparr>bst_deltype := d\<rparr>"
    and "bh_world h = bh_world h0" and "\<And>p. p \<notin> positions (plug c (Node l a r)) \<Longrightarrow> bh_nodes h p = bh_nodes h0 p"
  defines "h1 \<equiv> h\<lparr>bh_nodes := set_slot (bh_nodes h) 0 c (fst a), bh_trees := set_root b c (fst a) (bh_trees h)\<rparr>"
  defines "h2 \<equiv> h1\<lparr>bh_nodes := placed (bh_nodes h) c l a r\<rparr>"
  defines "h3 \<equiv> h1\<lparr>bh_nodes := set_parent (fst a) r (set_parent (fst a) l (placed (bh_nodes h) c l a r))\<rparr>"
  shows "set_parents_pointer b (pointer_of c) (fst a) h = Some (Inr (), h1)"
    and "(\<And>n. n = m \<Longrightarrow> f n = node_of c l r (snd a)) \<Longrightarrow> upd_node (fst a) f h1 = Some (Inr (), h2)"
    and "l \<noteq> Leaf \<Longrightarrow> r \<noteq> Leaf \<Longrightarrow>
      andthen (upd_node (root_pos l) (\<lambda>m. m\<lparr>bn_parent := fst a\<rparr>) h2) (\<lambda>_. upd_node (root_pos r) (\<lambda>m. m\<lparr>bn_parent := fst a\<rparr>)) = Some (Inr (), h3)"
    and "l \<noteq> Leaf \<Longrightarrow> r \<noteq> Leaf \<Longrightarrow>
      andthen (upd_node (root_pos r) (\<lambda>m. m\<lparr>bn_parent := fst a\<rparr>) h2) (\<lambda>_. upd_node (root_pos l) (\<lambda>m. m\<lparr>bn_parent := fst a\<rparr>)) = Some (Inr (), h3)"
    and "l \<noteq> Leaf \<Longrightarrow> pr = fst a \<Longrightarrow> upd_node (root_pos l) (\<lambda>m. m\<lparr>bn_parent := fst a\<rparr>) h2 = Some (Inr (), h3)"
    and "r \<noteq> Leaf \<Longrightarrow> pl = fst a \<Longrightarrow> upd_node (root_pos r) (\<lambda>m. m\<lparr>bn_parent := fst a\<rparr>) h2 = Some (Inr (), h3)"
    and "relinked h0 b (plug c (Node l a r)) h3"
proof -
  note apart = node_positions_apart [OF assms(4)]
  note sub = placed_subtrees [OF assms(4)]
  show "set_parents_pointer b (pointer_of c) (fst a) h = Some (Inr (), h1)" unfolding h1_def by (rule set_pointer [OF assms(1,8)])
  show "upd_node (fst a) f h1 = Some (Inr (), h2)" if "\<And>n. n = m \<Longrightarrow> f n = node_of c l r (snd a)"
    using that assms(6) set_slot_other [OF apart(1)] by (simp add: h1_def h2_def bst_run)
  have L: "upd_node (root_pos l) (\<lambda>m. m\<lparr>bn_parent := fst a\<rparr>) h2 = Some (Inr (), h1\<lparr>bh_nodes := set_parent (fst a) l (placed (bh_nodes h) c l a r)\<rparr>)"
    if "l \<noteq> Leaf" using upd_parent [of h2 pl l "fst a"] sub(1) assms(2) that by (simp add: h2_def del: fun_upd_apply)
  have R: "upd_node (root_pos r) (\<lambda>m. m\<lparr>bn_parent := fst a\<rparr>) h2 = Some (Inr (), h1\<lparr>bh_nodes := set_parent (fst a) r (placed (bh_nodes h) c l a r)\<rparr>)"
    if "r \<noteq> Leaf" using upd_parent [of h2 pr r "fst a"] sub(2) assms(3) that by (simp add: h2_def del: fun_upd_apply)
  show "andthen (upd_node (root_pos l) (\<lambda>m. m\<lparr>bn_parent := fst a\<rparr>) h2) (\<lambda>_. upd_node (root_pos r) (\<lambda>m. m\<lparr>bn_parent := fst a\<rparr>)) = Some (Inr (), h3)"
    if "l \<noteq> Leaf" "r \<noteq> Leaf"
    using L [OF that(1)] upd_parent [of "h1\<lparr>bh_nodes := set_parent (fst a) l (placed (bh_nodes h) c l a r)\<rparr>" pr r "fst a"] sub(3) assms(3) that(2)
    by (simp add: h3_def del: fun_upd_apply)
  show "andthen (upd_node (root_pos r) (\<lambda>m. m\<lparr>bn_parent := fst a\<rparr>) h2) (\<lambda>_. upd_node (root_pos l) (\<lambda>m. m\<lparr>bn_parent := fst a\<rparr>)) = Some (Inr (), h3)"
    if "l \<noteq> Leaf" "r \<noteq> Leaf"
    using R [OF that(2)] upd_parent [of "h1\<lparr>bh_nodes := set_parent (fst a) r (placed (bh_nodes h) c l a r)\<rparr>" pl l "fst a"] sub(4) assms(2) that(1)
      set_parent_commute [OF apart(4)]
    by (simp add: h3_def del: fun_upd_apply)
  show "upd_node (root_pos l) (\<lambda>m. m\<lparr>bn_parent := fst a\<rparr>) h2 = Some (Inr (), h3)" if "l \<noteq> Leaf" "pr = fst a"
    using L [OF that(1)] set_parent_same [OF sub(3)] assms(3) that(2) by (simp add: h3_def del: fun_upd_apply)
  show "upd_node (root_pos r) (\<lambda>m. m\<lparr>bn_parent := fst a\<rparr>) h2 = Some (Inr (), h3)" if "r \<noteq> Leaf" "pl = fst a"
    using R [OF that(1)] set_parent_same [OF sub(4)] assms(2) that(2) set_parent_commute [OF apart(4)] by (simp add: h3_def del: fun_upd_apply)
  have "set_root b c (fst a) (bh_trees h) b = Some (T\<lparr>bst_root := root_pos (plug c (Node l a r))\<rparr>)"
    using root_after [of c T s' "bh_trees h" b "Node l a r"] assms(8,9) by simp
  then show "relinked h0 b (plug c (Node l a r)) h3"
    using hang_node [OF assms(1-5)] placed_other [of _ c l a r "bh_nodes h"] assms(10-12)
    by (auto simp: relinked_def h3_def h1_def deltype_root simp del: fun_upd_apply)
qed

text \<open>The node that is unlinked, and the state it is unlinked from: \<open>deltype\<close> may be toggled.\<close>

definition unlink_state :: "'w bheap \<Rightarrow> nat \<Rightarrow> turn list \<Rightarrow> pos_tree \<Rightarrow> nat \<times> nat \<Rightarrow> pos_tree \<Rightarrow> 'w bheap \<Rightarrow> bool" where
  "unlink_state h0 b c l e r h \<longleftrightarrow>
     tree_at (bh_nodes h) 0 (plug c (Node l e r)) \<and> distinct (map fst (inorder (plug c (Node l e r)))) \<and>
     bh_world h = bh_world h0 \<and> bh_nodes h = bh_nodes h0 \<and>
     (\<exists>T T0 d. bh_trees h b = Some T \<and> bst_root T = root_pos (plug c (Node l e r)) \<and>
        bh_trees h0 b = Some T0 \<and> T = T0\<lparr>bst_deltype := d\<rparr>)"

lemma unlink_stateD:
  assumes "unlink_state h0 b c l e r h"
  shows "path_at (bh_nodes h) 0 c (fst e)" and "tree_at (bh_nodes h) (fst e) l" and "tree_at (bh_nodes h) (fst e) r"
    and "distinct (map fst (inorder (plug c (Node l e r))))"
    and "bh_nodes h (fst e) = Some (node_of c l r (snd e))" and "fst e \<noteq> 0"
  using assms by (auto simp: unlink_state_def tree_at_plug)

lemma inorder_parts: "inorder (plug c (Node l a r)) = left_of c @ inorder l @ a # inorder r @ right_of c"
  by (simp add: inorder_plug)

text \<open>The same with the three states named, for the proofs that run the steps.\<close>

lemma place_steps:
  assumes "path_at (bh_nodes h) 0 c q" and "tree_at (bh_nodes h) pl l" and "tree_at (bh_nodes h) pr r"
    and "distinct (map fst (inorder (plug c (Node l a r))))" and "fst a \<noteq> 0" and "bh_nodes h (fst a) = Some m" and "bn_info m = snd a"
    and "bh_trees h b = Some T" and "bst_root T = root_pos (plug c s')" and "\<exists>T0 d. bh_trees h0 b = Some T0 \<and> T = T0\<lparr>bst_deltype := d\<rparr>"
    and "bh_world h = bh_world h0" and "\<And>p. p \<notin> positions (plug c (Node l a r)) \<Longrightarrow> bh_nodes h p = bh_nodes h0 p"
  obtains h1 h2 h3 where "set_parents_pointer b (pointer_of c) (fst a) h = Some (Inr (), h1)"
    and "\<And>f. f m = node_of c l r (snd a) \<Longrightarrow> upd_node (fst a) f h1 = Some (Inr (), h2)"
    and "l \<noteq> Leaf \<Longrightarrow> r \<noteq> Leaf \<Longrightarrow>
      andthen (upd_node (root_pos l) (\<lambda>m. m\<lparr>bn_parent := fst a\<rparr>) h2) (\<lambda>_. upd_node (root_pos r) (\<lambda>m. m\<lparr>bn_parent := fst a\<rparr>)) = Some (Inr (), h3)"
    and "l \<noteq> Leaf \<Longrightarrow> r \<noteq> Leaf \<Longrightarrow>
      andthen (upd_node (root_pos r) (\<lambda>m. m\<lparr>bn_parent := fst a\<rparr>) h2) (\<lambda>_. upd_node (root_pos l) (\<lambda>m. m\<lparr>bn_parent := fst a\<rparr>)) = Some (Inr (), h3)"
    and "l \<noteq> Leaf \<Longrightarrow> pr = fst a \<Longrightarrow> upd_node (root_pos l) (\<lambda>m. m\<lparr>bn_parent := fst a\<rparr>) h2 = Some (Inr (), h3)"
    and "r \<noteq> Leaf \<Longrightarrow> pl = fst a \<Longrightarrow> upd_node (root_pos r) (\<lambda>m. m\<lparr>bn_parent := fst a\<rparr>) h2 = Some (Inr (), h3)"
    and "relinked h0 b (plug c (Node l a r)) h3"
  using place_node [OF assms] by blast

lemma plug_left_end: "left_of c = [] \<Longrightarrow> c \<noteq> [] \<Longrightarrow> s \<noteq> Leaf \<Longrightarrow> \<exists>l a r. plug c s = Node l a r \<and> l \<noteq> Leaf"
proof (induction c s rule: plug.induct)
  case (2 a r c t)
  then show ?case by (cases "c = []") auto
qed auto

lemma plug_right_end: "right_of c = [] \<Longrightarrow> c \<noteq> [] \<Longrightarrow> s \<noteq> Leaf \<Longrightarrow> \<exists>l a r. plug c s = Node l a r \<and> r \<noteq> Leaf"
proof (induction c s rule: plug.induct)
  case (3 l a c t)
  then show ?case by (cases "c = []") auto
qed auto

lemma left_end_child: "tree_at N pa t \<Longrightarrow> t = Node l a r \<Longrightarrow> l \<noteq> Leaf \<Longrightarrow> \<exists>n. N (root_pos t) = Some n \<and> bn_left n \<noteq> 0"
  using root_pos_zero [of N "fst a" l] by auto

lemma right_end_child: "tree_at N pa t \<Longrightarrow> t = Node l a r \<Longrightarrow> r \<noteq> Leaf \<Longrightarrow> \<exists>n. N (root_pos t) = Some n \<and> bn_right n \<noteq> 0"
  using root_pos_zero [of N "fst a" r] by auto

lemma unlink_state_tree:
  assumes "unlink_state h0 b c l e r h"
  obtains T where "bh_trees h b = Some T" and "bst_root T = root_pos (plug c (Node l e r))"
    and "\<exists>T0 d. bh_trees h0 b = Some T0 \<and> T = T0\<lparr>bst_deltype := d\<rparr>" and "bh_world h = bh_world h0" and "bh_nodes h = bh_nodes h0"
  using assms unfolding unlink_state_def by blast

lemma replace_right_child:
  assumes "unlink_state h0 b c l e (Node Leaf a r) h" and "l \<noteq> Leaf"
  shows "\<exists>h'. replace_by_right_leaf b (node_of c l (Node Leaf a r) (snd e)) (pointer_of c) h = Some (Inr (), h') \<and>
    relinked h0 b (plug c (Node l a r)) h'"
proof -
  note st = unlink_stateD [OF assms(1)]
  obtain T where T: "bh_trees h b = Some T" "bst_root T = root_pos (plug c (Node l e (Node Leaf a r)))"
      "\<exists>T0 d. bh_trees h0 b = Some T0 \<and> T = T0\<lparr>bst_deltype := d\<rparr>" "bh_world h = bh_world h0" "\<And>p. bh_nodes h p = bh_nodes h0 p"
    using unlink_state_tree [OF assms(1)] by metis
  have a: "bh_nodes h (fst a) = Some \<lparr>bn_left = 0, bn_right = root_pos r, bn_parent = fst e, bn_info = snd a\<rparr>"
      "fst a \<noteq> 0" "tree_at (bh_nodes h) (fst a) r" using st(3) by simp_all
  have dist: "distinct (map fst (inorder (plug c (Node l a r))))" using st(4) unfolding inorder_parts by auto
  obtain h1 h2 h3 where put: "set_parents_pointer b (pointer_of c) (fst a) h = Some (Inr (), h1)"
      "\<And>f. f \<lparr>bn_left = 0, bn_right = root_pos r, bn_parent = fst e, bn_info = snd a\<rparr> = node_of c l r (snd a) \<Longrightarrow>
        upd_node (fst a) f h1 = Some (Inr (), h2)"
      "upd_node (root_pos l) (\<lambda>m. m\<lparr>bn_parent := fst a\<rparr>) h2 = Some (Inr (), h3)" "relinked h0 b (plug c (Node l a r)) h3"
    using place_steps [OF st(1,2) a(3) dist a(2,1) _ T] assms(2) by (metis bstNode.select_convs(4))
  then show ?thesis using a(1) by (simp add: replace_by_right_leaf_def the_node_def bst_return_def)
qed

lemma replace_left_child:
  assumes "unlink_state h0 b c (Node l a Leaf) e r h" and "r \<noteq> Leaf"
  shows "\<exists>h'. replace_by_left_leaf b (node_of c (Node l a Leaf) r (snd e)) (pointer_of c) h = Some (Inr (), h') \<and>
    relinked h0 b (plug c (Node l a r)) h'"
proof -
  note st = unlink_stateD [OF assms(1)]
  obtain T where T: "bh_trees h b = Some T" "bst_root T = root_pos (plug c (Node (Node l a Leaf) e r))"
      "\<exists>T0 d. bh_trees h0 b = Some T0 \<and> T = T0\<lparr>bst_deltype := d\<rparr>" "bh_world h = bh_world h0" "\<And>p. bh_nodes h p = bh_nodes h0 p"
    using unlink_state_tree [OF assms(1)] by metis
  have a: "bh_nodes h (fst a) = Some \<lparr>bn_left = root_pos l, bn_right = 0, bn_parent = fst e, bn_info = snd a\<rparr>"
      "fst a \<noteq> 0" "tree_at (bh_nodes h) (fst a) l" using st(2) by simp_all
  have dist: "distinct (map fst (inorder (plug c (Node l a r))))" using st(4) unfolding inorder_parts by auto
  obtain h1 h2 h3 where put: "set_parents_pointer b (pointer_of c) (fst a) h = Some (Inr (), h1)"
      "\<And>f. f \<lparr>bn_left = root_pos l, bn_right = 0, bn_parent = fst e, bn_info = snd a\<rparr> = node_of c l r (snd a) \<Longrightarrow>
        upd_node (fst a) f h1 = Some (Inr (), h2)"
      "upd_node (root_pos r) (\<lambda>m. m\<lparr>bn_parent := fst a\<rparr>) h2 = Some (Inr (), h3)" "relinked h0 b (plug c (Node l a r)) h3"
    using place_steps [OF st(1) a(3) st(3) dist a(2,1) _ T] assms(2) by (metis bstNode.select_convs(4))
  then show ?thesis using a(1) by (simp add: replace_by_left_leaf_def the_node_def bst_return_def)
qed

text \<open>The replacement lies deeper: it is cut out of its subtree first.\<close>

lemma cut_out_steps:
  assumes "tree_at (bh_nodes h) pa (plug c (Node l a r))" and "distinct (map fst (inorder (plug c (Node l a r))))" and "c \<noteq> []"
    and "s = l \<or> s = r" and "l = Leaf \<or> r = Leaf"
  shows "(if root_pos s \<noteq> 0 then upd_node (root_pos s) (\<lambda>m. m\<lparr>bn_parent := up_pos pa c\<rparr>) (h\<lparr>bh_nodes := set_slot (bh_nodes h) pa c (root_pos s)\<rparr>)
      else bst_return () (h\<lparr>bh_nodes := set_slot (bh_nodes h) pa c (root_pos s)\<rparr>)) =
    Some (Inr (), h\<lparr>bh_nodes := set_parent (up_pos pa c) s (set_slot (bh_nodes h) pa c (root_pos s))\<rparr>)"
proof -
  note apart = node_positions_apart [OF assms(2)]
  let ?M = "set_slot (bh_nodes h) pa c (root_pos s)"
  have "?M p = bh_nodes h p" if "p \<in> positions s" for p
  proof -
    have "p \<notin> path_positions c" using that apart(5,6) assms(4) by blast
    then show ?thesis by (rule set_slot_other)
  qed
  then have "tree_at ?M (fst a) s = tree_at (bh_nodes h) (fst a) s" by (rule tree_at_cong)
  then have "tree_at (bh_nodes (h\<lparr>bh_nodes := ?M\<rparr>)) (fst a) s" using assms(1,4) by (auto simp: tree_at_plug)
  from upd_parent_if [OF this, of "up_pos pa c"] show ?thesis by simp
qed

lemma replace_right_deep:
  assumes "unlink_state h0 b c l e r h" and "l \<noteq> Leaf" and r: "r = plug (Went_left a2 r2 # d2) (Node Leaf a rq)"
    and c2: "left_of d2 = []" and left: "leftmost (root_pos r) h = Some (Inr (fst a), h)"
  shows "\<exists>h'. replace_by_right_leaf b (node_of c l r (snd e)) (pointer_of c) h = Some (Inr (), h') \<and>
    relinked h0 b (plug c (Node l a (plug (Went_left a2 r2 # d2) rq))) h'"
proof -
  let ?N = "bh_nodes h" and ?c2 = "Went_left a2 r2 # d2"
  let ?r = "plug ?c2 rq" and ?M = "set_slot ?N (fst e) ?c2 (root_pos rq)"
  let ?N2 = "set_parent (fst a2) rq ?M"
  let ?h = "h\<lparr>bh_nodes := ?N2\<rparr>"
  note st = unlink_stateD [OF assms(1)]
  note apart = node_positions_apart [OF st(4)]
  have same: "bh_trees ?h = bh_trees h" "bh_world ?h = bh_world h" by simp_all
  obtain T where T: "bh_trees ?h b = Some T" "bst_root T = root_pos (plug c (Node l e r))"
      "\<exists>T0 d. bh_trees h0 b = Some T0 \<and> T = T0\<lparr>bst_deltype := d\<rparr>" "bh_world ?h = bh_world h0" and nodes: "bh_nodes h = bh_nodes h0"
    using unlink_state_tree [OF assms(1)] unfolding same by blast
  have tr: "tree_at ?N (fst e) (plug ?c2 (Node Leaf a rq))" and dr: "distinct (map fst (inorder (plug ?c2 (Node Leaf a rq))))"
    using st(3) apart(8) by (simp_all only: r)
  have a: "?N (fst a) = Some \<lparr>bn_left = 0, bn_right = root_pos rq, bn_parent = fst a2, bn_info = snd a\<rparr>" "fst a \<noteq> 0"
      "?N (fst a2) = Some \<lparr>bn_left = fst a, bn_right = root_pos r2, bn_parent = up_pos (fst e) d2, bn_info = snd a2\<rparr>"
    using tr by (auto simp: tree_at_plug)
  have cut: "tree_at ?N2 (fst e) ?r" "\<And>p. p \<notin> positions r - {fst a} \<Longrightarrow> ?N2 p = ?N p"
    using cut_out [OF tr dr, of rq] by (simp_all add: r)
  have dist: "distinct (map fst (inorder (plug c (Node l a ?r))))" using st(4) by (auto simp: inorder_parts inorder_plug r c2)
  have kept: "?N2 p = ?N p" if "p \<in> path_positions c \<or> p \<in> positions l" for p
  proof -
    have "p \<notin> positions r" using that apart(4,6) by blast
    then show ?thesis using cut(2) by blast
  qed
  have path: "path_at (bh_nodes ?h) 0 c (fst e)" and l: "tree_at (bh_nodes ?h) (fst e) l" and rt: "tree_at (bh_nodes ?h) (fst e) ?r"
    using st(1,2) path_at_cong [of c ?N2 ?N 0 "fst e", OF kept] tree_at_cong [of l ?N2 ?N "fst e", OF kept] cut(1) by simp_all
  have N2a: "bh_nodes ?h (fst a) = Some \<lparr>bn_left = 0, bn_right = root_pos rq, bn_parent = fst a2, bn_info = snd a\<rparr>"
    using cut(2) [of "fst a"] a(1) by simp
  have cut_positions: "positions ?r = positions r - {fst a}"
    using node_positions_apart(1-3) [OF dr] by (auto simp: r positions_plug positions_Node simp del: plug.simps)
  have inside: "positions ?r \<subseteq> positions (plug c (Node l a ?r))" unfolding positions_plug [of c] positions_Node by blast
  have others: "bh_nodes ?h p = bh_nodes h0 p" if "p \<notin> positions (plug c (Node l a ?r))" for p
  proof -
    have "p \<notin> positions r - {fst a}" using that inside cut_positions by blast
    then show ?thesis using cut(2) [of p] nodes by simp
  qed
  have roots: "root_pos ?r = root_pos r" "?r \<noteq> Leaf" using root_pos_plug_path [of ?c2 rq "Node Leaf a rq"] by (simp_all add: r plug_Leaf)
  obtain n where n: "?N (root_pos r) = Some n" "bn_left n \<noteq> 0"
    using plug_left_end [of ?c2 "Node Leaf a rq"] st(3) c2 r by (metis left_end_child left_of.simps(2) list.distinct(1) tree.distinct(1))
  obtain h1 h2 h3 where put: "set_parents_pointer b (pointer_of c) (fst a) ?h = Some (Inr (), h1)"
      "\<And>f. f \<lparr>bn_left = 0, bn_right = root_pos rq, bn_parent = fst a2, bn_info = snd a\<rparr> = node_of c l ?r (snd a) \<Longrightarrow>
        upd_node (fst a) f h1 = Some (Inr (), h2)"
      "andthen (upd_node (root_pos l) (\<lambda>m. m\<lparr>bn_parent := fst a\<rparr>) h2) (\<lambda>_. upd_node (root_pos r) (\<lambda>m. m\<lparr>bn_parent := fst a\<rparr>)) = Some (Inr (), h3)"
      "relinked h0 b (plug c (Node l a ?r)) h3"
    using place_steps [OF path l rt dist a(2) N2a _ T others] assms(2) roots by (metis bstNode.select_convs(4))
  have "upd_node (fst a) (\<lambda>m. m\<lparr>bn_parent := up_pos 0 c, bn_left := root_pos l, bn_right := root_pos r\<rparr>) h1 = Some (Inr (), h2)"
    by (rule put(2)) (use roots(1) in simp)
  moreover have "upd_node (fst a2) (\<lambda>m. m\<lparr>bn_left := root_pos rq\<rparr>) h = Some (Inr (), h\<lparr>bh_nodes := ?M\<rparr>)"
    using a(3) by (simp add: set_slot_def bst_run)
  moreover note cut_out_steps [OF tr dr, of rq]
  ultimately have "replace_by_right_leaf b (node_of c l r (snd e)) (pointer_of c) h = Some (Inr (), h3)"
    using n left a(1) put(1,3) by (simp add: replace_by_right_leaf_def the_node_def bst_return_def cong: if_cong)
  then show ?thesis using put(4) by blast
qed

lemma replace_left_deep:
  assumes "unlink_state h0 b c l e r h" and "r \<noteq> Leaf" and l: "l = plug (Went_right l2 a2 # d2) (Node lq a Leaf)"
    and c2: "right_of d2 = []" and right: "rightmost (root_pos l) h = Some (Inr (fst a), h)"
  shows "\<exists>h'. replace_by_left_leaf b (node_of c l r (snd e)) (pointer_of c) h = Some (Inr (), h') \<and>
    relinked h0 b (plug c (Node (plug (Went_right l2 a2 # d2) lq) a r)) h'"
proof -
  let ?N = "bh_nodes h" and ?c2 = "Went_right l2 a2 # d2"
  let ?l = "plug ?c2 lq" and ?M = "set_slot ?N (fst e) ?c2 (root_pos lq)"
  let ?N2 = "set_parent (fst a2) lq ?M"
  let ?h = "h\<lparr>bh_nodes := ?N2\<rparr>"
  note st = unlink_stateD [OF assms(1)]
  note apart = node_positions_apart [OF st(4)]
  have same: "bh_trees ?h = bh_trees h" "bh_world ?h = bh_world h" by simp_all
  obtain T where T: "bh_trees ?h b = Some T" "bst_root T = root_pos (plug c (Node l e r))"
      "\<exists>T0 d. bh_trees h0 b = Some T0 \<and> T = T0\<lparr>bst_deltype := d\<rparr>" "bh_world ?h = bh_world h0" and nodes: "bh_nodes h = bh_nodes h0"
    using unlink_state_tree [OF assms(1)] unfolding same by blast
  have tl: "tree_at ?N (fst e) (plug ?c2 (Node lq a Leaf))" and dl: "distinct (map fst (inorder (plug ?c2 (Node lq a Leaf))))"
    using st(2) apart(7) by (simp_all only: l)
  have a: "?N (fst a) = Some \<lparr>bn_left = root_pos lq, bn_right = 0, bn_parent = fst a2, bn_info = snd a\<rparr>" "fst a \<noteq> 0"
      "?N (fst a2) = Some \<lparr>bn_left = root_pos l2, bn_right = fst a, bn_parent = up_pos (fst e) d2, bn_info = snd a2\<rparr>"
    using tl by (auto simp: tree_at_plug)
  have cut: "tree_at ?N2 (fst e) ?l" "\<And>p. p \<notin> positions l - {fst a} \<Longrightarrow> ?N2 p = ?N p"
    using cut_out [OF tl dl, of lq] by (simp_all add: l)
  have dist: "distinct (map fst (inorder (plug c (Node ?l a r))))" using st(4) by (auto simp: inorder_parts inorder_plug l c2)
  have kept: "?N2 p = ?N p" if "p \<in> path_positions c \<or> p \<in> positions r" for p
  proof -
    have "p \<notin> positions l" using that apart(4,5) by blast
    then show ?thesis using cut(2) by blast
  qed
  have path: "path_at (bh_nodes ?h) 0 c (fst e)" and r: "tree_at (bh_nodes ?h) (fst e) r" and lt: "tree_at (bh_nodes ?h) (fst e) ?l"
    using st(1,3) path_at_cong [of c ?N2 ?N 0 "fst e", OF kept] tree_at_cong [of r ?N2 ?N "fst e", OF kept] cut(1) by simp_all
  have N2a: "bh_nodes ?h (fst a) = Some \<lparr>bn_left = root_pos lq, bn_right = 0, bn_parent = fst a2, bn_info = snd a\<rparr>"
    using cut(2) [of "fst a"] a(1) by simp
  have cut_positions: "positions ?l = positions l - {fst a}"
    using node_positions_apart(1-3) [OF dl] by (auto simp: l positions_plug positions_Node simp del: plug.simps)
  have inside: "positions ?l \<subseteq> positions (plug c (Node ?l a r))" unfolding positions_plug [of c] positions_Node by blast
  have others: "bh_nodes ?h p = bh_nodes h0 p" if "p \<notin> positions (plug c (Node ?l a r))" for p
  proof -
    have "p \<notin> positions l - {fst a}" using that inside cut_positions by blast
    then show ?thesis using cut(2) [of p] nodes by simp
  qed
  have roots: "root_pos ?l = root_pos l" "?l \<noteq> Leaf" using root_pos_plug_path [of ?c2 lq "Node lq a Leaf"] by (simp_all add: l plug_Leaf)
  obtain n where n: "?N (root_pos l) = Some n" "bn_right n \<noteq> 0"
    using plug_right_end [of ?c2 "Node lq a Leaf"] st(2) c2 l by (metis right_end_child right_of.simps(3) list.distinct(1) tree.distinct(1))
  obtain h1 h2 h3 where put: "set_parents_pointer b (pointer_of c) (fst a) ?h = Some (Inr (), h1)"
      "\<And>f. f \<lparr>bn_left = root_pos lq, bn_right = 0, bn_parent = fst a2, bn_info = snd a\<rparr> = node_of c ?l r (snd a) \<Longrightarrow>
        upd_node (fst a) f h1 = Some (Inr (), h2)"
      "andthen (upd_node (root_pos r) (\<lambda>m. m\<lparr>bn_parent := fst a\<rparr>) h2) (\<lambda>_. upd_node (root_pos l) (\<lambda>m. m\<lparr>bn_parent := fst a\<rparr>)) = Some (Inr (), h3)"
      "relinked h0 b (plug c (Node ?l a r)) h3"
    using place_steps [OF path lt r dist a(2) N2a _ T others] assms(2) roots by (metis bstNode.select_convs(4))
  have "upd_node (fst a) (\<lambda>m. m\<lparr>bn_parent := up_pos 0 c, bn_left := root_pos l, bn_right := root_pos r\<rparr>) h1 = Some (Inr (), h2)"
    by (rule put(2)) (use roots(1) in simp)
  moreover have "upd_node (fst a2) (\<lambda>m. m\<lparr>bn_right := root_pos lq\<rparr>) h = Some (Inr (), h\<lparr>bh_nodes := ?M\<rparr>)"
    using a(3) by (simp add: set_slot_def bst_run)
  moreover note cut_out_steps [OF tl dl, of lq]
  ultimately have "replace_by_left_leaf b (node_of c l r (snd e)) (pointer_of c) h = Some (Inr (), h3)"
    using n right a(1) put(1,3) by (simp add: replace_by_left_leaf_def the_node_def bst_return_def cong: if_cong)
  then show ?thesis using put(4) by blast
qed

lemma replace_right_ok:
  assumes "unlink_state h0 b c l e r h" and "l \<noteq> Leaf" and "r \<noteq> Leaf"
  shows "\<exists>h' t'. replace_by_right_leaf b (node_of c l r (snd e)) (pointer_of c) h = Some (Inr (), h') \<and> relinked h0 b t' h' \<and>
    inorder t' = left_of c @ inorder l @ inorder r @ right_of c"
proof -
  obtain c2 a rq where r: "r = plug c2 (Node Leaf a rq)" and c2: "left_of c2 = []"
      and left: "leftmost (root_pos r) h = Some (Inr (fst a), h)"
    using leftmost_node [OF unlink_stateD(3) [OF assms(1)] assms(3)] by blast
  show ?thesis
  proof (cases c2 rule: turns_cases)
    case Nil
    then show ?thesis using replace_right_child [of h0 b c l e a rq h] assms(1,2) r by (force simp: inorder_plug)
  next
    case (left a2 r2 d2)
    have "inorder (plug c (Node l a (plug c2 rq))) = left_of c @ inorder l @ inorder r @ right_of c"
      by (simp add: inorder_plug r c2)
    moreover have "left_of d2 = []" using c2 by (simp add: left)
    ultimately show ?thesis using replace_right_deep [OF assms(1,2) r [unfolded left]] left \<open>leftmost _ h = _\<close> by blast
  qed (use c2 in simp)
qed

lemma replace_left_ok:
  assumes "unlink_state h0 b c l e r h" and "l \<noteq> Leaf" and "r \<noteq> Leaf"
  shows "\<exists>h' t'. replace_by_left_leaf b (node_of c l r (snd e)) (pointer_of c) h = Some (Inr (), h') \<and> relinked h0 b t' h' \<and>
    inorder t' = left_of c @ inorder l @ inorder r @ right_of c"
proof -
  obtain c2 a lq where l: "l = plug c2 (Node lq a Leaf)" and c2: "right_of c2 = []"
      and right: "rightmost (root_pos l) h = Some (Inr (fst a), h)"
    using rightmost_node [OF unlink_stateD(2) [OF assms(1)] assms(2)] by blast
  show ?thesis
  proof (cases c2 rule: turns_cases)
    case Nil
    then show ?thesis using replace_left_child [of h0 b c lq a e r h] assms(1,3) l by (force simp: inorder_plug)
  next
    case (right l2 a2 d2)
    have "inorder (plug c (Node (plug c2 lq) a r)) = left_of c @ inorder l @ inorder r @ right_of c"
      by (simp add: inorder_plug l c2)
    moreover have "right_of d2 = []" using c2 by (simp add: right)
    ultimately show ?thesis using replace_left_deep [OF assms(1,3) l [unfolded right]] right \<open>rightmost _ h = _\<close> by blast
  qed (use c2 in simp)
qed

text \<open>A node with at most one child: the child goes to the end of the path.\<close>

lemma hang_child:
  assumes "unlink_state h0 b c l e r h" and "s = l \<or> s = r" and "l = Leaf \<or> r = Leaf"
  shows "\<exists>h'. andthen (set_parents_pointer b (pointer_of c) (root_pos s) h) (\<lambda>_ h.
      if root_pos s \<noteq> 0 then upd_node (root_pos s) (\<lambda>m. m\<lparr>bn_parent := up_pos 0 c\<rparr>) h else bst_return () h) = Some (Inr (), h') \<and>
    relinked h0 b (plug c s) h'"
proof -
  let ?N = "bh_nodes h"
  note st = unlink_stateD [OF assms(1)]
  note apart = node_positions_apart [OF st(4)]
  obtain T T0 d where T: "bh_trees h b = Some T" "bst_root T = root_pos (plug c (Node l e r))" "bh_trees h0 b = Some T0"
      "T = T0\<lparr>bst_deltype := d\<rparr>" "bh_world h = bh_world h0" "\<And>p. bh_nodes h p = bh_nodes h0 p"
    using unlink_state_tree [OF assms(1)] by metis
  let ?M = "set_slot ?N 0 c (root_pos s)" and ?R = "set_root b c (root_pos s) (bh_trees h)"
  have s: "tree_at ?N (fst e) s" and dist: "distinct (map fst (inorder (plug c s)))"
    using st(2-4) assms(2) by (auto simp: inorder_plug)
  have "?M p = ?N p" if "p \<in> positions s" for p
  proof -
    have "p \<notin> path_positions c" using that apart(5,6) assms(2) by blast
    then show ?thesis by (rule set_slot_other)
  qed
  then have "tree_at (bh_nodes (h\<lparr>bh_nodes := ?M, bh_trees := ?R\<rparr>)) (fst e) s" using s tree_at_cong [of s ?M ?N "fst e"] by simp
  note parent = upd_parent_if [OF this, of "up_pos 0 c"]
  have other: "set_parent (up_pos 0 c) s ?M p = bh_nodes h0 p" if "p \<notin> positions (plug c s)" for p
    using that T(6) by (simp add: positions_plug set_parent_other set_slot_other)
  have "relinked h0 b (plug c s) (h\<lparr>bh_nodes := ?M, bh_trees := ?R\<rparr>\<lparr>bh_nodes := set_parent (up_pos 0 c) s ?M\<rparr>)"
    using hang_subtree [OF st(1) s dist] other root_after [of c T "Node l e r" "bh_trees h" b s] T
    by (auto simp: relinked_def deltype_root)
  then show ?thesis using set_pointer [OF st(1) T(1), of "root_pos s"] parent by auto
qed

lemma unlink_ok:
  assumes "unlink_state h0 b c l e r h0" and "b \<noteq> 0"
  shows "\<exists>h' t'. bst_unlink b (fst e) (node_of c l r (snd e)) h0 = Some (Inr (), h') \<and> relinked h0 b t' h' \<and>
    inorder t' = left_of c @ inorder l @ inorder r @ right_of c"
proof -
  note st = unlink_stateD [OF assms(1)]
  have pp: "parents_pointer_of (fst e) h0 = Some (Inr (pointer_of c), h0)"
    using parents_pointer [OF st(1,5) _ st(6)] node_positions_apart(1) [OF st(4)] by simp
  obtain T where T: "bh_trees h0 b = Some T" using assms(1) by (auto simp: unlink_state_def)
  let ?h = "h0\<lparr>bh_trees := (bh_trees h0)(b \<mapsto> T\<lparr>bst_deltype := 1 - bst_deltype T\<rparr>)\<rparr>"
  have toggled: "unlink_state h0 b c l e r ?h" using assms(1) T by (auto simp: unlink_state_def)
  have roots: "root_pos l = 0 \<longleftrightarrow> l = Leaf" "root_pos r = 0 \<longleftrightarrow> r = Leaf" using st(2,3) by simp_all
  consider "l = Leaf" | "l \<noteq> Leaf" "r = Leaf" | "l \<noteq> Leaf" "r \<noteq> Leaf" by blast
  then show ?thesis
  proof cases
    case 1
    obtain h' where h': "andthen (set_parents_pointer b (pointer_of c) (root_pos r) h0) (\<lambda>_ h.
        if root_pos r \<noteq> 0 then upd_node (root_pos r) (\<lambda>m. m\<lparr>bn_parent := up_pos 0 c\<rparr>) h else bst_return () h) = Some (Inr (), h')"
        "relinked h0 b (plug c r) h'"
      using hang_child [OF assms(1), of r] 1 by blast
    have "bst_unlink b (fst e) (node_of c l r (snd e)) h0 = Some (Inr (), h')"
      using h'(1) pp 1 by (simp add: bst_unlink_def cong: if_cong)
    moreover have "inorder (plug c r) = left_of c @ inorder l @ inorder r @ right_of c" by (simp add: inorder_plug 1)
    ultimately show ?thesis using h'(2) by blast
  next
    case 2
    obtain h' where h': "andthen (set_parents_pointer b (pointer_of c) (root_pos l) h0) (\<lambda>_ h.
        if root_pos l \<noteq> 0 then upd_node (root_pos l) (\<lambda>m. m\<lparr>bn_parent := up_pos 0 c\<rparr>) h else bst_return () h) = Some (Inr (), h')"
        "relinked h0 b (plug c l) h'"
      using hang_child [OF assms(1), of l] 2 by blast
    have "bst_unlink b (fst e) (node_of c l r (snd e)) h0 = Some (Inr (), h')"
      using h'(1) pp 2 roots by (simp add: bst_unlink_def)
    moreover have "inorder (plug c l) = left_of c @ inorder l @ inorder r @ right_of c" by (simp add: inorder_plug 2)
    ultimately show ?thesis using h'(2) by blast
  next
    case 3
    then show ?thesis
      using replace_right_ok [OF toggled 3] replace_left_ok [OF toggled 3] pp roots T assms(2)
      by (auto simp: bst_unlink_def the_tree_def upd_tree_def bst_return_def)
  qed
qed

text \<open>The deletion of a node: the others keep their order, the count goes down, the node is freed.\<close>

lemma Delete:
  assumes "is_bst h b T t" and "inorder t = us @ (p, x) # vs"
  obtains h' t' T' where "bstDelete p b h = Some (Inr x, h')" and "is_bst h' b T' t'" and "inorder t' = us @ vs"
    and "bst_nodes T' = bst_nodes T - 1" and "bst_compare T' = bst_compare T" and "bh_nodes h' p = None"
proof -
  have b: "b \<noteq> 0" "bh_trees h b = Some T" "bst_init T \<noteq> 0" "bst_root T = root_pos t" "bst_nodes T = int (size t)"
      "tree_at (bh_nodes h) 0 t" "distinct (map fst (inorder t))"
    using assms(1) by (simp_all add: is_bst_def)
  have "(p, x) \<in> set (inorder t)" using assms(2) by simp
  then obtain c l r where t: "t = plug c (Node l (p, x) r)" using at_node [of p x t] by auto
  let ?e = "(p, x)"
  have split: "us = left_of c @ inorder l" "vs = inorder r @ right_of c"
  proof -
    have d: "distinct (us @ ?e # vs)" using b(7) assms(2) by (metis distinct_map)
    have eq: "us @ ?e # vs = (left_of c @ inorder l) @ ?e # (inorder r @ right_of c)"
      using assms(2) by (simp add: t inorder_plug)
    have "?e \<notin> set us" "?e \<notin> set vs" using d by simp_all
    from iffD1 [OF append_Cons_eq_iff [OF this] eq] show "us = left_of c @ inorder l" "vs = inorder r @ right_of c" by simp_all
  qed
  let ?T = "T\<lparr>bst_nodes := bst_nodes T - 1\<rparr>"
  let ?h = "h\<lparr>bh_trees := (bh_trees h)(b \<mapsto> ?T)\<rparr>"
  have st: "unlink_state ?h b c l ?e r ?h" using b by (auto simp: unlink_state_def t intro: exI [of _ "bst_deltype T"])
  obtain h1 t' where h1: "bst_unlink b p (node_of c l r x) ?h = Some (Inr (), h1)" "relinked ?h b t' h1" "inorder t' = us @ vs"
    using unlink_ok [OF st b(1)] split by auto
  obtain d where T1: "bh_trees h1 b = Some (?T\<lparr>bst_root := root_pos t', bst_deltype := d\<rparr>)" "tree_at (bh_nodes h1) 0 t'"
      "\<And>q. q \<notin> positions t' \<Longrightarrow> bh_nodes h1 q = bh_nodes h q"
    using h1(2) unfolding relinked_def by auto
  have p: "p \<notin> positions t'" "p \<noteq> 0" "bh_nodes h p = Some (node_of c l r x)"
    using b(6,7) h1(3) assms(2) unlink_stateD(5,6) [OF st] by (auto simp: set_inorder [symmetric] simp del: set_inorder)
  let ?h' = "h1\<lparr>bh_nodes := (bh_nodes h1)(p := None)\<rparr>"
  have len: "size t' + 1 = size t" using arg_cong [OF h1(3), of length] arg_cong [OF assms(2), of length] by simp
  have run: "bstDelete p b h = Some (Inr x, ?h')"
    using b p h1(1) T1(3) [OF p(1)] by (simp add: bstDelete_def bst_run)
  have "is_bst ?h' b (?T\<lparr>bst_root := root_pos t', bst_deltype := d\<rparr>) t'"
    using b T1(1,2) p(1) h1(3) len assms(2) by (auto simp: is_bst_def)
  then show thesis by (rule that [OF run _ h1(3)]) simp_all
qed

end
