(* ===== verification/BSTreeProps.thy ===== *)
theory BSTreeProps
  imports BSTreeDelete
begin

text \<open>
  What the binary search tree promises, over its inorder list: searching, inserting, deleting and traversing.
\<close>

definition holds_list :: "(nat \<Rightarrow> nat \<Rightarrow> int) \<Rightarrow> 'w bheap \<Rightarrow> nat \<Rightarrow> (nat \<times> nat) list \<Rightarrow> bool" where
  "holds_list f h b xs \<longleftrightarrow> (\<exists>T t. is_bst h b T t \<and> bst_compare T = Some f \<and> sorted_tree f t \<and> inorder t = xs)"

text \<open>A heap with a tree of two elements, and a comparison of the data as numbers, for the witnesses.\<close>

definition small_tree :: pos_tree where
  "small_tree = Node Leaf (1, 5) (Node Leaf (2, 9) Leaf)"

definition small_BST :: "nat BST" where
  "small_BST = \<lparr>bst_root = 1, bst_nodes = 2, bst_deltype = 0, bst_compare = Some (\<lambda>x y. int x - int y),
     bst_print_node = DefPrintProc, bst_traverse_node = (\<lambda>x w. 10 * w + x), bst_delete_node = DefDeleteProc,
     bst_malloc_fail_handler = DefHandlerProc, bst_init = 1\<rparr>"

definition small_heap :: "nat bheap" where
  "small_heap = \<lparr>bh_nodes = [1 \<mapsto> \<lparr>bn_left = 0, bn_right = 2, bn_parent = 0, bn_info = 5\<rparr>,
      2 \<mapsto> \<lparr>bn_left = 0, bn_right = 0, bn_parent = 1, bn_info = 9\<rparr>], bh_trees = [4 \<mapsto> small_BST], bh_world = 0\<rparr>"

lemma minus_orders: "compare_orders (\<lambda>x y. int x - int y)"
  by (auto simp: compare_orders_def sgn_if)

lemma small_heap_bst: "is_bst small_heap 4 small_BST small_tree"
  by (simp add: is_bst_def small_heap_def small_BST_def small_tree_def)

lemma small_heap_holds: "holds_list (\<lambda>x y. int x - int y) small_heap 4 [(1, 5), (2, 9)]"
  unfolding holds_list_def
  by (intro exI [of _ small_BST] exI [of _ small_tree])
    (simp add: small_heap_bst, simp add: small_BST_def small_tree_def sorted_tree_def)

text \<open>
  C35: Searching a tree whose elements are in order is right: when \<open>bstFind\<close> returns a node it is a node of the tree whose
  datum compares equal to the one looked for, and when it returns NULL no datum in the tree compares equal, although the
  search follows one path only and equal elements may lie on both sides of a node. Nothing is changed.
\<close>

theorem tree_search_is_right:
  assumes "holds_list f h b xs" and "compare_orders f" and "x \<noteq> 0"
  shows "\<exists>p. bstFind x b h = Some (Inr p, h) \<and>
    (if p = 0 then \<forall>(q, y) \<in> set xs. f y x \<noteq> 0 else \<exists>y. (p, y) \<in> set xs \<and> f y x = 0)"
proof -
  obtain T t where t: "is_bst h b T t" "bst_compare T = Some f" "sorted_tree f t" "inorder t = xs"
    using assms(1) unfolding holds_list_def by blast
  have b: "b \<noteq> 0" "bh_trees h b = Some T" "bst_init T \<noteq> 0" "bst_root T = root_pos t" "tree_at (bh_nodes h) 0 t" "set_tree t = set xs"
    using t(1,4) by (auto simp: is_bst_def)
  show ?thesis
    using find_from [OF assms(2) t(2) b(5) t(3), of x] b assms(3) by (fastforce simp: bstFind_def bst_run)
qed

theorem tree_search_is_right_witness:
  "bstFind 9 4 small_heap = Some (Inr 2, small_heap)"
proof -
  have "\<exists>p. bstFind 9 4 small_heap = Some (Inr p, small_heap) \<and>
    (if p = 0 then \<forall>(q, y) \<in> set [(1 :: nat, 5), (2, 9)]. int y - int 9 \<noteq> 0 else \<exists>y. (p, y) \<in> set [(1, 5), (2, 9)] \<and> int y - int 9 = 0)"
    by (rule tree_search_is_right [OF small_heap_holds minus_orders]) simp
  moreover have "(if p = 0 then \<forall>(q, y) \<in> set [(1 :: nat, 5), (2, 9)]. int y - int 9 \<noteq> 0
      else \<exists>y. (p, y) \<in> set [(1, 5), (2, 9)] \<and> int y - int 9 = 0) \<longleftrightarrow> (if p = 0 then False else p = 2)" for p :: nat
    by (cases "p = 0") auto
  ultimately show ?thesis by (auto split: if_splits)
qed

text \<open>
  C34: \<open>bstInsert\<close> and \<open>bstDelete\<close> keep the elements in order. Inserting puts exactly one new element into the list, behind all
  elements that are not greater, and returns its node; deleting a node of the tree, in every one of its cases (no child, one
  child, the replacement taken from the right or from the left subtree, next to the node or deeper), returns the datum of the
  node and takes exactly this node out of the list.
\<close>

theorem tree_stays_sorted:
  assumes "holds_list f h b xs" and "compare_orders f" and "malloc h = q" and "q \<noteq> 0" and "bh_nodes h q = None" and "x \<noteq> 0"
  shows "(\<exists>h'. bstInsert malloc x b h = Some (Inr q, h') \<and>
      holds_list f h' b (filter (\<lambda>d. 0 \<le> f x (snd d)) xs @ (q, x) # filter (\<lambda>d. f x (snd d) < 0) xs)) \<and>
    (\<forall>us p y vs. xs = us @ (p, y) # vs \<longrightarrow>
      (\<exists>h'. bstDelete p b h = Some (Inr y, h') \<and> holds_list f h' b (us @ vs) \<and> bh_nodes h' p = None))"
proof -
  obtain T t where t: "is_bst h b T t" "bst_compare T = Some f" "sorted_tree f t" "inorder t = xs"
    using assms(1) unfolding holds_list_def by blast
  obtain h1 where h1: "bstInsert malloc x b h = Some (Inr q, h1)"
      "is_bst h1 b (T\<lparr>bst_nodes := bst_nodes T + 1, bst_root := root_pos (ins_node f (q, x) t)\<rparr>) (ins_node f (q, x) t)"
    using Insert [of h b T t f malloc q x, OF t(1,2) assms(3-6)] by blast
  have "holds_list f h1 b (filter (\<lambda>d. 0 \<le> f x (snd d)) xs @ (q, x) # filter (\<lambda>d. f x (snd d) < 0) xs)"
    using h1(2) t(2) ins_node_sorted [OF assms(2) t(3)] inorder_ins_node [OF assms(2) t(3), of "(q, x)"] t(4)
    unfolding holds_list_def by fastforce
  moreover have "\<exists>h'. bstDelete p b h = Some (Inr y, h') \<and> holds_list f h' b (us @ vs) \<and> bh_nodes h' p = None"
    if xs: "xs = us @ (p, y) # vs" for us p y vs
  proof -
    obtain h' t' T' where d: "bstDelete p b h = Some (Inr y, h')" "is_bst h' b T' t'" "inorder t' = us @ vs"
        "bst_compare T' = bst_compare T" "bh_nodes h' p = None"
      using Delete [OF t(1) t(4) [unfolded xs]] by metis
    have "sorted_tree f t'" using t(3,4) d(3) by (simp add: sorted_tree_def xs sorted_wrt_append)
    then show ?thesis using d t(2) unfolding holds_list_def by metis
  qed
  ultimately show ?thesis using h1(1) by blast
qed

theorem tree_stays_sorted_witness:
  "(\<exists>h'. bstInsert (\<lambda>_. 3) 7 4 small_heap = Some (Inr 3, h') \<and>
      holds_list (\<lambda>x y. int x - int y) h' 4 [(1, 5), (3, 7), (2, 9)]) \<and>
    (\<exists>h'. bstDelete 1 4 small_heap = Some (Inr 5, h') \<and> holds_list (\<lambda>x y. int x - int y) h' 4 [(2, 9)])"
proof -
  note all = tree_stays_sorted [OF small_heap_holds minus_orders, of "\<lambda>_. 3" 3 7]
  then have "\<exists>h'. bstInsert (\<lambda>_. 3) 7 4 small_heap = Some (Inr 3, h') \<and>
      holds_list (\<lambda>x y. int x - int y) h' 4 [(1, 5), (3, 7), (2, 9)]"
    by (simp add: small_heap_def)
  moreover have "\<forall>us p y vs. [(1, 5), (2, 9)] = us @ (p, y) # vs \<longrightarrow>
      (\<exists>h'. bstDelete p 4 small_heap = Some (Inr y, h') \<and> holds_list (\<lambda>x y. int x - int y) h' 4 (us @ vs) \<and> bh_nodes h' p = None)"
    using all by (simp add: small_heap_def)
  then have "\<exists>h'. bstDelete 1 4 small_heap = Some (Inr 5, h') \<and> holds_list (\<lambda>x y. int x - int y) h' 4 ([] @ [(2, 9)]) \<and> bh_nodes h' 1 = None"
    by (elim allE [of _ "[]"] allE [of _ "1 :: nat"] allE [of _ "5 :: nat"] allE [of _ "[(2, 9)]"]) simp
  ultimately show ?thesis by (metis append_Nil)
qed

text \<open>
  C36: The traversal without recursion, which walks down to the left and up again by the parent pointers and remembers only
  where it came from, ends, and calls the visiting function exactly once on every datum, in the order of the tree.
\<close>

theorem traversal_in_order:
  assumes "is_bst h b T t"
  shows "bstTraverseTree b h = Some (Inr (), h\<lparr>bh_world := fold (bst_traverse_node T) (map snd (inorder t)) (bh_world h)\<rparr>) \<and>
    bstPrintAscending output b h = Some (Inr (), h\<lparr>bh_world := fold (bst_print_node T output) (map snd (inorder t)) (bh_world h)\<rparr>)"
  using walk_tree [OF assms, of bst_traverse_node] walk_tree [OF assms, of "\<lambda>T. bst_print_node T output"] assms
  by (simp add: bstTraverseTree_def bstPrintAscending_def visited_def is_bst_def)

theorem traversal_in_order_witness:
  "bstTraverseTree 4 small_heap = Some (Inr (), small_heap\<lparr>bh_world := 59\<rparr>)"
  using traversal_in_order [OF small_heap_bst, of 1] by (simp add: small_heap_def small_BST_def small_tree_def)

text \<open>Deleting an empty tree reads through a null pointer: \<open>bstDeleteNodes\<close> is called with the empty root.\<close>

lemma deleting_empty_tree_is_undefined:
  assumes "is_bst h b T Leaf" and "bh_nodes h 0 = None"
  shows "\<exists>e h'. bstDeleteTree b h = Some (Inl e, h')"
  using assms by (subst bstDeleteTree_def, subst bstDeleteNodes.simps) (auto simp: is_bst_def bst_run)

end
