(* ===== verification/StrMap.thy ===== *)
theory StrMap
  imports DLList "HOL-Library.Word"
begin

text \<open>
  The hash table from strings to pointers (include/trick/MapStrToPtr.h, trick\_utils/trick\_adt/src/MapStrToPtr.c): an array of
  doubly linked lists of entries, each in the list that the hash of its key names, and the iterator over it. The entries, the
  tables and the iterators are in memories of their own beside that of the lists; \<open>malloc\<close> is a parameter. An array index out of
  range, a pointer that leads nowhere and the remainder by zero are undefined. A key is the string, as \<open>strdup\<close> copies it;
  \<open>char\<close> is signed. The table has no more than \<open>INT_MAX\<close> lists; its counter has no bound. Messages are left out.
\<close>

subsection \<open>Memory\<close>

record TBLENTRY =
  te_key :: string
  te_data :: nat

record MapStrToPtr =
  m_ppList :: "nat list"
  m_Size :: int
  m_Count :: int

record StrMapIterator =
  m_Index :: int
  m_ListPos :: nat
  m_pTable :: nat

record smheap =
  sm_dlls :: dheap
  sm_entries :: "nat \<rightharpoonup> TBLENTRY"
  sm_maps :: "nat \<rightharpoonup> MapStrToPtr"
  sm_iters :: "nat \<rightharpoonup> StrMapIterator"

record sm_env =
  sme_dll :: dll_env
  malloc_entry :: "smheap \<Rightarrow> nat"
  malloc_map :: "smheap \<Rightarrow> nat"
  malloc_iter :: "smheap \<Rightarrow> nat"

definition on_lists :: "(dheap \<Rightarrow> ('a, dheap) result) \<Rightarrow> smheap \<Rightarrow> ('a, smheap) result" where
  "on_lists f s = map_option (\<lambda>(r, h). (r, s\<lparr>sm_dlls := h\<rparr>)) (f (sm_dlls s))"

definition deref :: "('s \<Rightarrow> nat \<rightharpoonup> 'v) \<Rightarrow> nat \<Rightarrow> 's \<Rightarrow> ('v, 's) result" where
  "deref m p s = (case m s p of None \<Rightarrow> undefined_access s | Some v \<Rightarrow> returns v s)"

definition upd_map :: "nat \<Rightarrow> (MapStrToPtr \<Rightarrow> MapStrToPtr) \<Rightarrow> smheap \<Rightarrow> (unit, smheap) result" where
  "upd_map m f s = andthen (deref sm_maps m s) (\<lambda>M s. returns () (s\<lparr>sm_maps := (sm_maps s)(m \<mapsto> f M)\<rparr>))"

definition upd_iter :: "nat \<Rightarrow> (StrMapIterator \<Rightarrow> StrMapIterator) \<Rightarrow> smheap \<Rightarrow> (unit, smheap) result" where
  "upd_iter it f s = andthen (deref sm_iters it s) (\<lambda>I s. returns () (s\<lparr>sm_iters := (sm_iters s)(it \<mapsto> f I)\<rparr>))"

text \<open>The list at an index of the array.\<close>

definition list_of :: "MapStrToPtr \<Rightarrow> int \<Rightarrow> smheap \<Rightarrow> (nat, smheap) result" where
  "list_of M i s = (if 0 \<le> i \<and> i < int (length (m_ppList M)) then returns (m_ppList M ! nat i) s else undefined_access s)"

subsection \<open>Entries\<close>

definition NewTblEntry :: "sm_env \<Rightarrow> string \<Rightarrow> nat \<Rightarrow> smheap \<Rightarrow> (nat, smheap) result" where
  "NewTblEntry env parmKey parmData s =
     (let p = malloc_entry env s
      in if p = 0 then undefined_access s
         else returns p (s\<lparr>sm_entries := (sm_entries s)(p \<mapsto> \<lparr>te_key = parmKey, te_data = parmData\<rparr>)\<rparr>))"

definition DeleteTblEntry :: "nat \<Rightarrow> smheap \<Rightarrow> (unit, smheap) result" where
  "DeleteTblEntry e s =
     andthen (deref sm_entries e s) (\<lambda>_ s. returns () (s\<lparr>sm_entries := (sm_entries s)(e := None)\<rparr>))"

subsection \<open>The hash\<close>

definition signed_char :: "char \<Rightarrow> int" where
  "signed_char c = (if of_char c < (128 :: int) then of_char c else of_char c - 256)"

definition hash_step :: "32 word \<Rightarrow> char \<Rightarrow> 32 word" where
  "hash_step hashval c = push_bit 3 hashval + (drop_bit 29 hashval + word_of_int (signed_char c))"

definition SM_Hash :: "string \<Rightarrow> MapStrToPtr \<Rightarrow> smheap \<Rightarrow> (int, smheap) result" where
  "SM_Hash key M s =
     (let size = word_of_int (m_Size M) :: 32 word; hashval = foldl hash_step 0 key
      in if size = 0 then undefined_access s else returns (uint (hashval mod size)) s)"

subsection \<open>The table\<close>

primrec create_lists :: "dll_env \<Rightarrow> nat \<Rightarrow> dheap \<Rightarrow> (nat list, dheap) result" where
  "create_lists env 0 h = returns [] h"
| "create_lists env (Suc n) h = andthen (DLL_Create env h) (\<lambda>l h. andthen (create_lists env n h) (\<lambda>ls. returns (l # ls)))"

definition SM_Create :: "sm_env \<Rightarrow> int \<Rightarrow> smheap \<Rightarrow> (nat, smheap) result" where
  "SM_Create env nSize s =
     (let m = malloc_map env s
      in if m = 0 then undefined_access s
         else andthen (on_lists (create_lists (sme_dll env) (nat nSize)) s) (\<lambda>ls s.
           returns m (s\<lparr>sm_maps := (sm_maps s)(m \<mapsto> \<lparr>m_ppList = ls, m_Size = nSize, m_Count = 0\<rparr>)\<rparr>)))"

partial_function (option) delete_entries :: "nat \<Rightarrow> nat \<Rightarrow> smheap \<Rightarrow> (unit, smheap) result" where
  "delete_entries l pos s =
     (if pos = 0 then returns () s
      else andthen (on_lists (DLL_GetNext pos l) s)
        (\<lambda>(e, pos1) s. andthen (DeleteTblEntry e s) (\<lambda>_. delete_entries l pos1)))"

fun delete_lists :: "nat list \<Rightarrow> smheap \<Rightarrow> (unit, smheap) result" where
  "delete_lists [] s = returns () s"
| "delete_lists (l # ls) s =
     andthen (on_lists (DLL_GetHeadPosition l) s) (\<lambda>pos s.
     andthen (delete_entries l pos s) (\<lambda>_ s.
     andthen (on_lists (DLL_RemoveAll l) s) (\<lambda>_ s.
     andthen (on_lists (DLL_Delete l) s) (\<lambda>_. delete_lists ls))))"

definition SM_Delete :: "nat \<Rightarrow> smheap \<Rightarrow> (unit, smheap) result" where
  "SM_Delete m s =
     andthen (deref sm_maps m s) (\<lambda>M s.
     andthen (delete_lists (take (nat (m_Size M)) (m_ppList M)) s) (\<lambda>_ s.
     returns () (s\<lparr>sm_maps := (sm_maps s)(m := None)\<rparr>)))"

partial_function (option) lookup_loop :: "string \<Rightarrow> nat \<Rightarrow> nat \<Rightarrow> smheap \<Rightarrow> (nat, smheap) result" where
  "lookup_loop key l pos s =
     (if pos = 0 then returns 0 s
      else andthen (on_lists (DLL_GetNext pos l) s) (\<lambda>(e, pos1) s.
        andthen (deref sm_entries e s) (\<lambda>E s. if te_key E = key then returns e s else lookup_loop key l pos1 s)))"

definition SM_LookupEntry :: "string \<Rightarrow> nat \<Rightarrow> smheap \<Rightarrow> (nat, smheap) result" where
  "SM_LookupEntry key m s =
     andthen (deref sm_maps m s) (\<lambda>M s.
     andthen (SM_Hash key M s) (\<lambda>idx s.
     andthen (list_of M idx s) (\<lambda>l s.
     andthen (on_lists (DLL_GetHeadPosition l) s) (\<lambda>pos. lookup_loop key l pos))))"

definition SM_Lookup :: "string \<Rightarrow> nat \<Rightarrow> smheap \<Rightarrow> (nat, smheap) result" where
  "SM_Lookup key m s =
     andthen (SM_LookupEntry key m s) (\<lambda>e s.
       if e \<noteq> 0 then andthen (deref sm_entries e s) (\<lambda>E. returns (te_data E)) else returns 0 s)"

definition SM_Map :: "sm_env \<Rightarrow> string \<Rightarrow> nat \<Rightarrow> nat \<Rightarrow> smheap \<Rightarrow> (nat, smheap) result" where
  "SM_Map env key data m s =
     andthen (deref sm_maps m s) (\<lambda>M s.
     andthen (SM_Hash key M s) (\<lambda>idx s.
     andthen (SM_LookupEntry key m s) (\<lambda>e s.
       if e = 0 then
         andthen (NewTblEntry env key data s) (\<lambda>e s.
         andthen (list_of M idx s) (\<lambda>l s.
         andthen (on_lists (DLL_AddHead (sme_dll env) e l) s) (\<lambda>_ s.
         andthen (upd_map m (\<lambda>M. M\<lparr>m_Count := m_Count M + 1\<rparr>) s) (\<lambda>_. returns 0))))
       else
         andthen (deref sm_entries e s) (\<lambda>E s.
           returns (te_data E) (s\<lparr>sm_entries := (sm_entries s)(e \<mapsto> E\<lparr>te_data := data\<rparr>)\<rparr>)))))"

partial_function (option) remove_key_loop :: "string \<Rightarrow> nat \<Rightarrow> nat \<Rightarrow> nat \<Rightarrow> smheap \<Rightarrow> (nat, smheap) result" where
  "remove_key_loop key m l pos s =
     (if pos = 0 then returns 0 s
      else andthen (on_lists (DLL_GetNext pos l) s) (\<lambda>(e, pos1) s.
        andthen (deref sm_entries e s) (\<lambda>E s.
          if te_key E = key then
            andthen (on_lists (DLL_RemoveAt pos l) s) (\<lambda>_ s.
            andthen (deref sm_entries e s) (\<lambda>E s.
            andthen (DeleteTblEntry e s) (\<lambda>_ s.
            andthen (upd_map m (\<lambda>M. M\<lparr>m_Count := m_Count M - 1\<rparr>) s) (\<lambda>_. returns (te_data E)))))
          else remove_key_loop key m l pos1 s)))"

definition SM_RemoveKey :: "string \<Rightarrow> nat \<Rightarrow> smheap \<Rightarrow> (nat, smheap) result" where
  "SM_RemoveKey key m s =
     andthen (deref sm_maps m s) (\<lambda>M s.
     andthen (SM_Hash key M s) (\<lambda>idx s.
     andthen (list_of M idx s) (\<lambda>l s.
     andthen (on_lists (DLL_GetHeadPosition l) s) (\<lambda>pos. remove_key_loop key m l pos))))"

subsection \<open>The iterator\<close>

definition SMI_Create :: "sm_env \<Rightarrow> nat \<Rightarrow> smheap \<Rightarrow> (nat, smheap) result" where
  "SMI_Create env pTable s =
     (if pTable = 0 then returns 0 s
      else let p = malloc_iter env s
        in if p = 0 then undefined_access s
           else returns p (s\<lparr>sm_iters := (sm_iters s)(p \<mapsto> \<lparr>m_Index = 0, m_ListPos = 0, m_pTable = pTable\<rparr>)\<rparr>))"

definition SMI_Delete :: "nat \<Rightarrow> smheap \<Rightarrow> (unit, smheap) result" where
  "SMI_Delete it s =
     (if it = 0 then returns () s
      else andthen (deref sm_iters it s) (\<lambda>_ s. returns () (s\<lparr>sm_iters := (sm_iters s)(it := None)\<rparr>)))"

definition SMI_Attach :: "nat \<Rightarrow> nat \<Rightarrow> smheap \<Rightarrow> (unit, smheap) result" where
  "SMI_Attach pTable it s =
     (if pTable = 0 then returns () s
      else upd_iter it (\<lambda>I. I\<lparr>m_Index := 0, m_ListPos := 0, m_pTable := pTable\<rparr>) s)"

text \<open>The key and the datum of the node at a position; \<open>None\<close> is \<open>NULL\<close>, for which the key of the caller is not set.\<close>

definition entry_at :: "nat \<Rightarrow> nat \<Rightarrow> smheap \<Rightarrow> ((string \<times> nat) option, smheap) result" where
  "entry_at pos l s =
     andthen (on_lists (DLL_GetAt pos l) s) (\<lambda>e s.
     andthen (deref sm_entries e s) (\<lambda>E. returns (Some (te_key E, te_data E))))"

text \<open>The search for the first list from an index on that is not empty, with the index and the position in it.\<close>

function first_list :: "MapStrToPtr \<Rightarrow> int \<Rightarrow> smheap \<Rightarrow> ((int \<times> nat \<times> nat) option, smheap) result" where
  "first_list M i s =
     (if i < m_Size M then
        andthen (list_of M i s) (\<lambda>l s.
        andthen (on_lists (DLL_GetHeadPosition l) s) (\<lambda>pos s.
          if pos \<noteq> 0 then returns (Some (i, l, pos)) s else first_list M (i + 1) s))
      else returns None s)"
  by auto
termination by (relation "measure (\<lambda>(M, i, s). nat (m_Size M - i))") auto

declare first_list.simps [simp del]

definition SMI_GetFirst :: "nat \<Rightarrow> smheap \<Rightarrow> ((string \<times> nat) option, smheap) result" where
  "SMI_GetFirst it s =
     andthen (upd_iter it (\<lambda>I. I\<lparr>m_Index := 0, m_ListPos := 0\<rparr>) s) (\<lambda>_ s.
     andthen (deref sm_iters it s) (\<lambda>I s.
     andthen (deref sm_maps (m_pTable I) s) (\<lambda>M s.
       if m_Count M = 0 then returns None s
       else andthen (first_list M 0 s) (\<lambda>r s.
         case r of
           None \<Rightarrow> returns None s
         | Some (i, l, pos) \<Rightarrow>
             andthen (entry_at pos l s) (\<lambda>x s.
             andthen (upd_iter it (\<lambda>I. I\<lparr>m_Index := i, m_ListPos := pos\<rparr>) s) (\<lambda>_. returns x))))))"

definition SMI_GetNext :: "nat \<Rightarrow> smheap \<Rightarrow> ((string \<times> nat) option, smheap) result" where
  "SMI_GetNext it s =
     andthen (deref sm_iters it s) (\<lambda>I s.
       if m_ListPos I = 0 then returns None s
       else
         andthen (deref sm_maps (m_pTable I) s) (\<lambda>M s.
         andthen (list_of M (m_Index I) s) (\<lambda>l s.
         andthen (on_lists (DLL_GetNext (m_ListPos I) l) s) (\<lambda>(e, pos) s.
           if pos \<noteq> 0 then
             andthen (upd_iter it (\<lambda>I. I\<lparr>m_ListPos := pos\<rparr>) s) (\<lambda>_. entry_at pos l)
           else
             andthen (first_list M (m_Index I + 1) s) (\<lambda>r s.
               case r of
                 None \<Rightarrow> andthen (upd_iter it (\<lambda>I. I\<lparr>m_Index := 0, m_ListPos := 0\<rparr>) s) (\<lambda>_. returns None)
               | Some (i, l, pos) \<Rightarrow> andthen (upd_iter it (\<lambda>I. I\<lparr>m_Index := i, m_ListPos := pos\<rparr>) s) (\<lambda>_. entry_at pos l))))))"

text \<open>Backwards: the last list before an index that is not empty.\<close>

function last_list :: "MapStrToPtr \<Rightarrow> int \<Rightarrow> smheap \<Rightarrow> ((int \<times> nat \<times> nat) option, smheap) result" where
  "last_list M i s =
     (if 0 < i then
        andthen (list_of M (i - 1) s) (\<lambda>l s.
        andthen (on_lists (DLL_GetTailPosition l) s) (\<lambda>pos s.
          if pos \<noteq> 0 then returns (Some (i - 1, l, pos)) s else last_list M (i - 1) s))
      else returns None s)"
  by auto
termination by (relation "measure (\<lambda>(M, i, s). nat i)") auto

declare last_list.simps [simp del]

definition SMI_GetPrev :: "nat \<Rightarrow> smheap \<Rightarrow> ((string \<times> nat) option, smheap) result" where
  "SMI_GetPrev it s =
     andthen (deref sm_iters it s) (\<lambda>I s.
       if m_ListPos I = 0 then returns None s
       else
         andthen (deref sm_maps (m_pTable I) s) (\<lambda>M s.
         andthen (list_of M (m_Index I) s) (\<lambda>l s.
         andthen (on_lists (DLL_GetPrev (m_ListPos I) l) s) (\<lambda>(e, pos) s.
           if pos \<noteq> 0 then andthen (upd_iter it (\<lambda>I. I\<lparr>m_ListPos := pos\<rparr>) s) (\<lambda>_. returns None)
           else
             andthen (last_list M (m_Index I) s) (\<lambda>r s.
               case r of
                 None \<Rightarrow> andthen (upd_iter it (\<lambda>I. I\<lparr>m_Index := 0, m_ListPos := 0\<rparr>) s) (\<lambda>_. returns None)
               | Some (i, l, pos) \<Rightarrow> andthen (upd_iter it (\<lambda>I. I\<lparr>m_Index := i, m_ListPos := pos\<rparr>) s) (\<lambda>_. entry_at pos l))))))"

end
