(* ===== verification/LQueueStack.thy ===== *)
theory LQueueStack
  imports DLListRefine
begin

text \<open>
  The queue and the stack over a doubly linked list are one interface with two orders: what is put in and taken out in any
  sequence is what a list in the order of removal gives.
\<close>

datatype container_op = Put nat | Take | Peek | Count

text \<open>A sequence of calls and the values they return; and the same over the list in the order of removal.\<close>

fun run_ops :: "(nat \<Rightarrow> dheap \<Rightarrow> (unit, dheap) result) \<Rightarrow> (dheap \<Rightarrow> (nat, dheap) result) \<Rightarrow> (dheap \<Rightarrow> (nat, dheap) result)
    \<Rightarrow> (dheap \<Rightarrow> (int, dheap) result) \<Rightarrow> container_op list \<Rightarrow> dheap \<Rightarrow> (int list, dheap) result" where
  "run_ops put take_next peek number [] h = returns [] h"
| "run_ops put take_next peek number (e # es) h =
     (let rest = \<lambda>v h. andthen (run_ops put take_next peek number es h) (\<lambda>vs. returns (v @ vs))
      in case e of
           Put x \<Rightarrow> andthen (put x h) (\<lambda>_. rest [])
         | Take \<Rightarrow> andthen (take_next h) (\<lambda>x. rest [int x])
         | Peek \<Rightarrow> andthen (peek h) (\<lambda>x. rest [int x])
         | Count \<Rightarrow> andthen (number h) (\<lambda>n. rest [n]))"

definition next_out :: "nat list \<Rightarrow> nat" where
  "next_out xs = (if xs = [] then 0 else hd xs)"

fun run_spec :: "(nat \<Rightarrow> nat list \<Rightarrow> nat list) \<Rightarrow> container_op list \<Rightarrow> nat list \<Rightarrow> int list" where
  "run_spec add [] xs = []"
| "run_spec add (Put x # es) xs = run_spec add es (add x xs)"
| "run_spec add (Take # es) xs = int (next_out xs) # run_spec add es (tl xs)"
| "run_spec add (Peek # es) xs = int (next_out xs) # run_spec add es xs"
| "run_spec add (Count # es) xs = int (length xs) # run_spec add es xs"

locale container =
  fixes holds :: "dheap \<Rightarrow> nat list \<Rightarrow> bool"
    and add :: "nat \<Rightarrow> nat list \<Rightarrow> nat list"
    and put :: "nat \<Rightarrow> dheap \<Rightarrow> (unit, dheap) result"
    and take_next :: "dheap \<Rightarrow> (nat, dheap) result"
    and peek :: "dheap \<Rightarrow> (nat, dheap) result"
    and number :: "dheap \<Rightarrow> (int, dheap) result"
  assumes put: "holds h xs \<Longrightarrow> \<exists>h'. put x h = Some (Inr (), h') \<and> holds h' (add x xs)"
    and take_next: "holds h xs \<Longrightarrow> \<exists>h'. take_next h = Some (Inr (next_out xs), h') \<and> holds h' (tl xs)"
    and peek: "holds h xs \<Longrightarrow> peek h = Some (Inr (next_out xs), h)"
    and number: "holds h xs \<Longrightarrow> number h = Some (Inr (int (length xs)), h)"
begin

lemma run_refines: "holds h xs \<Longrightarrow> \<exists>h'. run_ops put take_next peek number es h = Some (Inr (run_spec add es xs), h')"
proof (induction es arbitrary: h xs)
  case (Cons e es)
  show ?case
  proof (cases e)
    case (Put x)
    obtain h1 where h1: "put x h = Some (Inr (), h1)" "holds h1 (add x xs)" using put [OF Cons.prems] by blast
    then show ?thesis using Cons.IH [OF h1(2)] by (auto simp: Put dll_run)
  next
    case Take
    obtain h1 where h1: "take_next h = Some (Inr (next_out xs), h1)" "holds h1 (tl xs)" using take_next [OF Cons.prems] by blast
    then show ?thesis using Cons.IH [OF h1(2)] by (auto simp: Take dll_run)
  qed (use Cons.IH [OF Cons.prems] peek [OF Cons.prems] number [OF Cons.prems] in \<open>auto simp: dll_run\<close>)
qed (simp add: dll_run)

end

subsection \<open>Queue and stack\<close>

text \<open>\<open>malloc\<close> finds room while the memory in use is finite.\<close>

definition malloc_ok :: "dll_env \<Rightarrow> bool" where
  "malloc_ok env \<longleftrightarrow> (\<forall>h. finite (dom (dh_nodes h)) \<longrightarrow> fresh_node env h (malloc_node env h))"

definition holds_data :: "dll_env \<Rightarrow> nat \<Rightarrow> dheap \<Rightarrow> nat list \<Rightarrow> bool" where
  "holds_data env l h xs \<longleftrightarrow>
     malloc_ok env \<and> finite (dom (dh_nodes h)) \<and> (\<exists>c r. is_dll h l c r \<and> map snd r = xs)"

lemma finite_unchanged:
  assumes "unchanged_but P l h h'" and "finite P" and "finite (dom (dh_nodes h))" shows "finite (dom (dh_nodes h'))"
proof -
  have "dom (dh_nodes h') \<subseteq> P \<union> dom (dh_nodes h)" using assms(1) unfolding unchanged_but_def by (metis UnI1 UnI2 domIff subsetI)
  then show ?thesis using assms(2,3) by (meson finite_Un finite_subset)
qed

lemma put_head:
  assumes "holds_data env l h xs"
  shows "\<exists>p h'. DLL_AddHead env x l h = Some (Inr p, h') \<and> holds_data env l h' (x # xs)"
proof -
  obtain c r where r: "is_dll h l c r" "map snd r = xs" using assms by (auto simp: holds_data_def)
  have "fresh_node env h (malloc_node env h)" using assms by (simp add: holds_data_def malloc_ok_def)
  from AddHead [OF r(1) this] obtain h' where h': "DLL_AddHead env x l h = Some (Inr (malloc_node env h), h')"
      "is_dll h' l c ((malloc_node env h, x) # r)" "unchanged_but ({malloc_node env h} \<union> fst ` set r) l h h'"
    by metis
  then have "finite (dom (dh_nodes h'))" using assms by (intro finite_unchanged [OF h'(3)]) (auto simp: holds_data_def)
  then show ?thesis using h'(1,2) assms r(2) unfolding holds_data_def by fastforce
qed

lemma remove_node:
  assumes "malloc_ok env" and "finite (dom (dh_nodes h))" and "is_dll h l c (a @ (p, x) # b)"
  shows "\<exists>h'. DLL_RemoveAt p l h = Some (Inr x, h') \<and> holds_data env l h' (map snd (a @ b))"
proof -
  obtain h' where h': "DLL_RemoveAt p l h = Some (Inr x, h')" "is_dll h' l c (a @ b)"
      "unchanged_but (fst ` set (a @ (p, x) # b)) l h h'"
    using RemoveAt [OF assms(3)] by metis
  then have "finite (dom (dh_nodes h'))" using assms(2) by (intro finite_unchanged [OF h'(3)]) auto
  then show ?thesis using h'(1,2) assms(1) unfolding holds_data_def by blast
qed

definition queue_holds :: "dll_env \<Rightarrow> nat \<Rightarrow> dheap \<Rightarrow> nat list \<Rightarrow> bool" where
  "queue_holds env q h xs \<longleftrightarrow> holds_data env q h (rev xs)"

lemma not_null: "is_dll h l c r \<Longrightarrow> l \<noteq> 0"
  by (simp add: is_dll_def)

interpretation lqueue: container "queue_holds env q" "\<lambda>x xs. xs @ [x]" "\<lambda>x. LQ_EnQ env x q" "LQ_DeQ q" "LQ_Peek q" "LQ_GetCount q"
  for env q
proof
  fix h xs x assume h: "queue_holds env q h xs"
  then obtain c r where r: "is_dll h q c r" "map snd r = rev xs" by (auto simp: queue_holds_def holds_data_def)
  have q: "q \<noteq> 0" by (rule not_null [OF r(1)])
  have len: "length r = length xs" using arg_cong [OF r(2), of length] by simp
  show "\<exists>h'. LQ_EnQ env x q h = Some (Inr (), h') \<and> queue_holds env q h' (xs @ [x])"
    using put_head [of env q h "rev xs" x] h q by (auto simp: queue_holds_def LQ_EnQ_def dll_run)
  show number: "LQ_GetCount q h = Some (Inr (int (length xs)), h)"
    using GetCount [OF r(1)] q len by (simp add: LQ_GetCount_def)
  show "\<exists>h'. LQ_DeQ q h = Some (Inr (next_out xs), h') \<and> queue_holds env q h' (tl xs)"
  proof (cases r rule: rev_cases)
    case Nil
    then show ?thesis using q h number len by (auto simp: LQ_DeQ_def next_out_def dll_run)
  next
    case (snoc a e)
    obtain p y where e: "e = (p, y)" by force
    have xs: "xs = y # rev (map snd a)" using arg_cong [OF r(2), of rev] snoc e by simp
    have d: "is_dll h q c (a @ (p, y) # [])" using r(1) snoc e by simp
    obtain h' where "DLL_RemoveAt p q h = Some (Inr y, h')" "holds_data env q h' (map snd a)"
      using remove_node [OF _ _ d, of env] h by (auto simp: queue_holds_def holds_data_def)
    then show ?thesis
      using q number GetTail [OF d] by (simp add: LQ_DeQ_def next_out_def xs queue_holds_def)
  qed
  show "LQ_Peek q h = Some (Inr (next_out xs), h)"
  proof (cases r rule: rev_cases)
    case Nil
    then show ?thesis using q GetCount [OF r(1)] len by (auto simp: LQ_Peek_def next_out_def dll_run)
  next
    case (snoc a e)
    obtain p y where e: "e = (p, y)" by force
    have d: "is_dll h q c (a @ (p, y) # [])" using r(1) snoc e by simp
    have xs: "xs = y # rev (map snd a)" using arg_cong [OF r(2), of rev] snoc e by simp
    then show ?thesis using q GetCount [OF d] GetTail [OF d] GetAt_in [OF d] by (simp add: LQ_Peek_def next_out_def xs)
  qed
qed

interpretation lstack: container "holds_data env s" "\<lambda>x xs. x # xs" "\<lambda>x. LS_Push env x s" "LS_Pop s" "LS_Peek s" "LS_GetCount s"
  for env s
proof
  fix h xs x assume h: "holds_data env s h xs"
  then obtain c r where r: "is_dll h s c r" "map snd r = xs" by (auto simp: holds_data_def)
  show "\<exists>h'. LS_Push env x s h = Some (Inr (), h') \<and> holds_data env s h' (x # xs)"
    using put_head [OF h, of x] by (auto simp: LS_Push_def dll_run)
  show "LS_GetCount s h = Some (Inr (int (length xs)), h)"
    using GetCount [OF r(1)] r(2) by (auto simp: LS_GetCount_def)
  show "\<exists>h'. LS_Pop s h = Some (Inr (next_out xs), h') \<and> holds_data env s h' (tl xs)"
  proof (cases r)
    case Nil
    then show ?thesis using h r GetHead [OF r(1)] by (auto simp: LS_Pop_def DLL_RemoveAt_def checked_node_def next_out_def dll_run)
  next
    case (Cons e b)
    obtain p y where e: "e = (p, y)" by force
    have d: "is_dll h s c ([] @ (p, y) # b)" using r(1) Cons e by simp
    obtain h' where "DLL_RemoveAt p s h = Some (Inr y, h')" "holds_data env s h' (map snd b)"
      using remove_node [OF _ _ d, of env] h by (auto simp: holds_data_def)
    then show ?thesis using GetHead [OF r(1)] r(2) Cons e by (auto simp: LS_Pop_def next_out_def)
  qed
  show "LS_Peek s h = Some (Inr (next_out xs), h)"
  proof (cases r)
    case Nil
    then show ?thesis using r GetHead [OF r(1)] by (auto simp: LS_Peek_def DLL_GetAt_def checked_node_def next_out_def dll_run)
  next
    case (Cons e b)
    obtain p y where e: "e = (p, y)" by force
    have d: "is_dll h s c ([] @ (p, y) # b)" using r(1) Cons e by simp
    show ?thesis using GetHead [OF r(1)] GetAt_in [OF d] r(2) Cons e by (auto simp: LS_Peek_def next_out_def)
  qed
qed

text \<open>
  C30: Whatever is put into and taken out of a queue and a stack, in any order, also when they are empty, they return
  what a list does: the queue the oldest element, the stack the newest, \<open>NULL\<close> when there is none, and the number of
  the elements.
\<close>

theorem queue_and_stack_order:
  assumes "malloc_ok env" and "finite (dom (dh_nodes h))" and "is_dll h l c []"
  shows "(\<exists>h'. run_ops (\<lambda>x. LQ_EnQ env x l) (LQ_DeQ l) (LQ_Peek l) (LQ_GetCount l) es h =
      Some (Inr (run_spec (\<lambda>x xs. xs @ [x]) es []), h')) \<and>
    (\<exists>h'. run_ops (\<lambda>x. LS_Push env x l) (LS_Pop l) (LS_Peek l) (LS_GetCount l) es h =
      Some (Inr (run_spec (\<lambda>x xs. x # xs) es []), h'))"
proof -
  have "holds_data env l h []" using assms by (auto simp: holds_data_def)
  then show ?thesis using lqueue.run_refines [of env l h "[]" es] lstack.run_refines [of env l h "[]" es] by (simp add: queue_holds_def)
qed

lemma plain_malloc_ok: "malloc_ok plain_malloc"
  by (simp add: malloc_ok_def fresh_node_def plain_malloc_def least_free_fresh) (simp add: least_free_def)

theorem queue_and_stack_order_witness:
  "\<exists>h'. run_ops (\<lambda>x. LQ_EnQ plain_malloc x 1) (LQ_DeQ 1) (LQ_Peek 1) (LQ_GetCount 1) [Put 7, Put 8, Count, Take, Peek, Take, Take]
     \<lparr>dh_nodes = Map.empty, dh_lists = [1 \<mapsto> empty_DLLIST]\<rparr> = Some (Inr [2, 7, 8, 8, 0], h')"
proof -
  have "is_dll \<lparr>dh_nodes = Map.empty, dh_lists = [1 \<mapsto> empty_DLLIST]\<rparr> 1 None []" by (simp add: is_dll_def empty_DLLIST_def)
  from queue_and_stack_order [OF plain_malloc_ok _ this, of "[Put 7, Put 8, Count, Take, Peek, Take, Take]"]
  show ?thesis by (simp add: next_out_def)
qed

end
