(* ===== verification/StrMapRefine.thy ===== *)
theory StrMapRefine
  imports StrMap LQueueStack
begin

text \<open>
  The hash table in memory as a finite map from strings to data: each list of the array holds the keys of one hash. What a
  sequence of operations returns is what the map gives, and the iterator meets every key once.
\<close>

subsection \<open>Steps\<close>

lemma on_lists_Some: "f (sm_dlls s) = Some (r, h) \<Longrightarrow> on_lists f s = Some (r, s\<lparr>sm_dlls := h\<rparr>)"
  by (simp add: on_lists_def)

lemma on_lists_same: "f (sm_dlls s) = Some (r, sm_dlls s) \<Longrightarrow> on_lists f s = Some (r, s)"
  by (simp add: on_lists_def)

lemma deref_Some [simp]: "m s p = Some v \<Longrightarrow> deref m p s = Some (Inr v, s)"
  by (simp add: deref_def dll_run)

lemmas sm_run = returns_def undefined_access_def upd_map_def upd_iter_def

subsection \<open>One list of the table\<close>

definition bucket_of :: "string \<Rightarrow> nat \<Rightarrow> nat" where
  "bucket_of key n = nat (uint (foldl hash_step 0 key mod word_of_int (int n)))"

abbreviation pair_of :: "TBLENTRY \<Rightarrow> string \<times> nat" where
  "pair_of E \<equiv> (te_key E, te_data E)"

text \<open>A list has the positions and the addresses of the entries; what they hold are the pairs.\<close>

definition contents :: "smheap \<Rightarrow> (nat \<times> nat) list \<Rightarrow> (string \<times> nat) list" where
  "contents s r = map (\<lambda>(p, e). pair_of (the (sm_entries s e))) r"

definition bucket :: "smheap \<Rightarrow> nat \<Rightarrow> (string \<rightharpoonup> nat) \<Rightarrow> nat \<Rightarrow> nat \<Rightarrow> (nat \<times> nat) list \<Rightarrow> bool" where
  "bucket s n f l i r \<longleftrightarrow>
     is_dll (sm_dlls s) l None r \<and> (\<forall>p e. (p, e) \<in> set r \<longrightarrow> e \<noteq> 0 \<and> sm_entries s e \<noteq> None) \<and>
     (\<forall>k \<in> fst ` set (contents s r). bucket_of k n = i) \<and> distinct (map fst (contents s r)) \<and>
     (\<forall>k. bucket_of k n = i \<longrightarrow> f k = map_of (contents s r) k)"

lemma contents_simps [simp]:
  "contents s [] = []" "contents s ((p, e) # r) = pair_of (the (sm_entries s e)) # contents s r"
  "contents s (a @ b) = contents s a @ contents s b"
  by (simp_all add: contents_def)

lemma contents_cong: "(\<And>p e. (p, e) \<in> set r \<Longrightarrow> sm_entries s' e = sm_entries s e) \<Longrightarrow> contents s' r = contents s r"
  by (auto simp: contents_def)

lemma bucket_frame:
  assumes "bucket s n f l i r" and "is_dll (sm_dlls s') l None r" and "\<And>p e. (p, e) \<in> set r \<Longrightarrow> sm_entries s' e = sm_entries s e"
    and "\<And>k. bucket_of k n = i \<Longrightarrow> f' k = f k"
  shows "bucket s' n f' l i r"
proof -
  have "contents s' r = contents s r" using assms(3) by (rule contents_cong)
  then show ?thesis using assms unfolding bucket_def by (auto simp: split_beta)
qed

text \<open>The entry of a key in a list.\<close>

definition entry_of :: "smheap \<Rightarrow> string \<Rightarrow> (nat \<times> nat) list \<Rightarrow> nat" where
  "entry_of s key r = (case find (\<lambda>(p, e). te_key (the (sm_entries s e)) = key) r of None \<Rightarrow> 0 | Some (p, e) \<Rightarrow> e)"

lemma lookup_loop:
  "is_dll (sm_dlls s) l c (a @ r) \<Longrightarrow> \<forall>p e. (p, e) \<in> set r \<longrightarrow> sm_entries s e \<noteq> None \<Longrightarrow>
   lookup_loop key l (first_pos r 0) s = Some (Inr (entry_of s key r), s)"
proof (induction r arbitrary: a)
  case Nil
  show ?case by (subst lookup_loop.simps) (simp add: sm_run entry_of_def)
next
  case (Cons x r)
  obtain p e where x: "x = (p, e)" by force
  obtain E where E: "sm_entries s e = Some E" using Cons.prems(2) x by auto
  have d: "is_dll (sm_dlls s) l c (a @ (p, e) # r)" using Cons.prems(1) x by simp
  then have "p \<noteq> 0" by (auto simp: is_dll_def)
  moreover have "on_lists (DLL_GetNext p l) s = Some (Inr (e, first_pos r 0), s)" by (rule on_lists_same [of "DLL_GetNext p l", OF GetNext_in [OF d]])
  moreover have "lookup_loop key l (first_pos r 0) s = Some (Inr (entry_of s key r), s)"
    using Cons.prems x by (intro Cons.IH [of "a @ [x]"]) auto
  ultimately show ?case by (subst lookup_loop.simps) (simp add: x E sm_run entry_of_def)
qed

lemma entry_of_bucket:
  assumes "bucket s n f l i r" and "bucket_of key n = i"
  shows "entry_of s key r = 0 \<longleftrightarrow> f key = None"
    and "entry_of s key r \<noteq> 0 \<Longrightarrow> \<exists>a p b d. r = a @ (p, entry_of s key r) # b \<and> sm_entries s (entry_of s key r) = Some \<lparr>te_key = key, te_data = d\<rparr> \<and>
      f key = Some d \<and> key \<notin> fst ` set (contents s a) \<and> key \<notin> fst ` set (contents s b)"
proof -
  let ?P = "\<lambda>(p, e). te_key (the (sm_entries s e)) = key"
  have f: "f key = map_of (contents s r) key" and nz: "\<forall>p e. (p, e) \<in> set r \<longrightarrow> e \<noteq> 0 \<and> sm_entries s e \<noteq> None"
    and dist: "distinct (map fst (contents s r))" using assms by (simp_all add: bucket_def)
  show "entry_of s key r = 0 \<longleftrightarrow> f key = None"
  proof (cases "find ?P r")
    case None
    then have "key \<notin> fst ` set (contents s r)" by (auto simp: find_None_iff contents_def) blast
    then show ?thesis using f None by (simp add: entry_of_def map_of_eq_None_iff)
  next
    case (Some x)
    then obtain p e where x: "x = (p, e)" "(p, e) \<in> set r" "te_key (the (sm_entries s e)) = key"
      by (cases x) (fastforce simp: find_Some_iff in_set_conv_nth)
    then have "key \<in> fst ` set (contents s r)" by (force simp: contents_def)
    then show ?thesis using f Some x nz by (auto simp: entry_of_def map_of_eq_None_iff)
  qed
  assume ne: "entry_of s key r \<noteq> 0"
  then obtain p e where x: "find ?P r = Some (p, e)" by (auto simp: entry_of_def split: option.splits prod.splits)
  then have e: "entry_of s key r = e" "(p, e) \<in> set r" "te_key (the (sm_entries s e)) = key"
    by (simp add: entry_of_def, auto simp: find_Some_iff in_set_conv_nth)
  then obtain a b where r: "r = a @ (p, e) # b" by (meson split_list)
  obtain E where E: "sm_entries s e = Some E" using nz e(2) by auto
  then have "E = \<lparr>te_key = key, te_data = te_data E\<rparr>" using e(3) by simp
  then have E': "sm_entries s e = Some \<lparr>te_key = key, te_data = te_data E\<rparr>" using E by metis
  have "key \<notin> fst ` set (contents s a)" "key \<notin> fst ` set (contents s b)" using dist E e(3) by (auto simp: r)
  moreover from this have "f key = Some (te_data E)"
  proof -
    have "map_of (contents s a) key = None" using calculation(1) by (simp add: map_of_eq_None_iff)
    then show ?thesis using E e(3) by (simp add: f r map_add_def)
  qed
  ultimately show "\<exists>a p b d. r = a @ (p, entry_of s key r) # b \<and> sm_entries s (entry_of s key r) = Some \<lparr>te_key = key, te_data = d\<rparr> \<and>
      f key = Some d \<and> key \<notin> fst ` set (contents s a) \<and> key \<notin> fst ` set (contents s b)"
    unfolding e(1) using r E' by (intro exI [of _ a] exI [of _ p] exI [of _ b] exI [of _ "te_data E"]) simp
qed

subsection \<open>The table\<close>

definition table :: "smheap \<Rightarrow> nat \<Rightarrow> nat list \<Rightarrow> (nat \<times> nat) list list \<Rightarrow> (string \<rightharpoonup> nat) \<Rightarrow> bool" where
  "table s m ls rs f \<longleftrightarrow>
     0 < length rs \<and> length rs < 2 ^ 31 \<and> length ls = length rs \<and> distinct ls \<and>
     sm_maps s m = Some \<lparr>m_ppList = ls, m_Size = int (length rs), m_Count = int (sum_list (map length rs))\<rparr> \<and>
     (\<forall>i < length rs. bucket s (length rs) f (ls ! i) i (rs ! i)) \<and>
     (\<forall>i < length rs. \<forall>j < length rs. i \<noteq> j \<longrightarrow> fst ` set (rs ! i) \<inter> fst ` set (rs ! j) = {})"

lemma tableD:
  assumes "table s m ls rs f"
  shows "0 < length rs" and "length rs < 2 ^ 31" and "length ls = length rs" and "distinct ls"
    and "sm_maps s m = Some \<lparr>m_ppList = ls, m_Size = int (length rs), m_Count = int (sum_list (map length rs))\<rparr>"
    and "i < length rs \<Longrightarrow> bucket s (length rs) f (ls ! i) i (rs ! i)"
    and "i < length rs \<Longrightarrow> j < length rs \<Longrightarrow> i \<noteq> j \<Longrightarrow> fst ` set (rs ! i) \<inter> fst ` set (rs ! j) = {}"
  using assms unfolding table_def by simp_all

lemma size_word:
  assumes "0 < n" and "n < 2 ^ 31" shows "uint (word_of_int (int n) :: 32 word) = int n"
proof -
  have "take_bit 32 n = n" using assms by (intro take_bit_nat_eq_self) simp
  then show ?thesis by (simp add: unsigned_of_nat)
qed

lemma hash_ok:
  assumes "0 < n" and "n < 2 ^ 31" and "m_Size M = int n"
  shows "SM_Hash key M s = Some (Inr (int (bucket_of key n)), s)" and "bucket_of key n < n"
proof -
  have w: "(word_of_int (int n) :: 32 word) \<noteq> 0"
  proof
    assume "(word_of_int (int n) :: 32 word) = 0"
    then have "uint (word_of_int (int n) :: 32 word) = 0" by simp
    then show False using size_word [OF assms(1,2)] assms(1) by simp
  qed
  show "SM_Hash key M s = Some (Inr (int (bucket_of key n)), s)"
    using w assms(3) by (simp add: SM_Hash_def bucket_of_def Let_def sm_run)
  have "uint (foldl hash_step 0 key mod (word_of_int (int n) :: 32 word)) < int n"
    using size_word [OF assms(1,2)] assms(1) by (simp only: uint_mod_distrib pos_mod_bound of_nat_0_less_iff)
  then show "bucket_of key n < n" unfolding bucket_of_def using nat_less_iff [OF uint_ge_0] by blast
qed

lemma head_of_list:
  assumes "table s m ls rs f" and "i < length rs"
  shows "is_dll (sm_dlls s) (ls ! i) None (rs ! i)" and "on_lists (DLL_GetHeadPosition (ls ! i)) s = Some (Inr (first_pos (rs ! i) 0), s)"
    and "\<forall>p e. (p, e) \<in> set (rs ! i) \<longrightarrow> e \<noteq> 0 \<and> sm_entries s e \<noteq> None"
proof -
  show d: "is_dll (sm_dlls s) (ls ! i) None (rs ! i)" and "\<forall>p e. (p, e) \<in> set (rs ! i) \<longrightarrow> e \<noteq> 0 \<and> sm_entries s e \<noteq> None"
    using tableD(6) [OF assms] by (simp_all add: bucket_def)
  show "on_lists (DLL_GetHeadPosition (ls ! i)) s = Some (Inr (first_pos (rs ! i) 0), s)"
    by (rule on_lists_same [of "DLL_GetHeadPosition (ls ! i)", OF GetHead [OF d]])
qed

lemma list_of_key:
  fixes key' :: string
  assumes "table s m ls rs f"
  defines "i \<equiv> bucket_of key' (length rs)"
  shows "i < length rs"
    and "SM_Hash key' \<lparr>m_ppList = ls, m_Size = int (length rs), m_Count = c\<rparr> s' = Some (Inr (int i), s')"
    and "list_of \<lparr>m_ppList = ls, m_Size = z, m_Count = c\<rparr> (int i) s' = Some (Inr (ls ! i), s')"
proof -
  note T = tableD [OF assms(1)]
  show i: "i < length rs" unfolding i_def by (rule hash_ok(2) [OF T(1,2), of "\<lparr>m_ppList = ls, m_Size = int (length rs), m_Count = c\<rparr>"]) simp
  show "SM_Hash key' \<lparr>m_ppList = ls, m_Size = int (length rs), m_Count = c\<rparr> s' = Some (Inr (int i), s')"
    unfolding i_def by (rule hash_ok(1) [OF T(1,2)]) simp
  show "list_of \<lparr>m_ppList = ls, m_Size = z, m_Count = c\<rparr> (int i) s' = Some (Inr (ls ! i), s')"
    using i T(3) by (simp add: list_of_def sm_run)
qed

lemma lookup_entry:
  assumes "table s m ls rs f"
  shows "SM_LookupEntry key m s = Some (Inr (entry_of s key (rs ! bucket_of key (length rs))), s)"
proof -
  note key = list_of_key [OF assms, where key' = key]
  note hd = head_of_list [OF assms key(1)]
  have "\<forall>p e. (p, e) \<in> set (rs ! bucket_of key (length rs)) \<longrightarrow> sm_entries s e \<noteq> None" using hd(3) by auto
  from lookup_loop [where a = "[]", unfolded append_Nil, OF hd(1) this, of key] show ?thesis
    using tableD(5) [OF assms] key hd(2) by (simp add: SM_LookupEntry_def)
qed

definition result_of :: "nat option \<Rightarrow> nat" where
  "result_of d = (case d of None \<Rightarrow> 0 | Some d \<Rightarrow> d)"

lemma Lookup:
  assumes "table s m ls rs f" shows "SM_Lookup key m s = Some (Inr (result_of (f key)), s)"
proof -
  note key = list_of_key(1) [OF assms, where key' = key]
  note entry = entry_of_bucket [OF tableD(6) [OF assms key] refl]
  show ?thesis
  proof (cases "f key")
    case None
    then show ?thesis using lookup_entry [OF assms, of key] entry(1) by (simp add: SM_Lookup_def result_of_def sm_run)
  next
    case (Some d)
    then have ne: "entry_of s key (rs ! bucket_of key (length rs)) \<noteq> 0" using entry(1) by simp
    from entry(2) [OF this] obtain d' where "sm_entries s (entry_of s key (rs ! bucket_of key (length rs))) = Some \<lparr>te_key = key, te_data = d'\<rparr>" "f key = Some d'"
      by blast
    then show ?thesis using lookup_entry [OF assms, of key] ne by (simp add: SM_Lookup_def result_of_def sm_run)
  qed
qed

text \<open>One list of the table changes, the others stay.\<close>

lemma table_update:
  assumes "table s m ls rs f" and "i < length rs" and "bucket s' (length rs) f' (ls ! i) i r"
    and "sm_maps s' m = Some \<lparr>m_ppList = ls, m_Size = int (length rs), m_Count = int (sum_list (map length (rs[i := r])))\<rparr>"
    and "unchanged_but P (ls ! i) (sm_dlls s) (sm_dlls s')" and "\<And>j. j < length rs \<Longrightarrow> j \<noteq> i \<Longrightarrow> (P \<union> fst ` set r) \<inter> fst ` set (rs ! j) = {}"
    and "\<And>j p e. j < length rs \<Longrightarrow> j \<noteq> i \<Longrightarrow> (p, e) \<in> set (rs ! j) \<Longrightarrow> sm_entries s' e = sm_entries s e"
    and "\<And>k. bucket_of k (length rs) \<noteq> i \<Longrightarrow> f' k = f k"
  shows "table s' m ls (rs[i := r]) f'"
proof -
  note T = tableD [OF assms(1)]
  have "bucket s' (length rs) f' (ls ! j) j (rs ! j)" if j: "j < length rs" "j \<noteq> i" for j
  proof (rule bucket_frame [OF T(6) [OF j(1)]])
    have "ls ! j \<noteq> ls ! i" using T(3,4) j assms(2) by (simp add: nth_eq_iff_index_eq)
    moreover have "P \<inter> fst ` set (rs ! j) = {}" using assms(6) [OF j] by blast
    ultimately show "is_dll (sm_dlls s') (ls ! j) None (rs ! j)"
      using other_list_kept [OF assms(5) head_of_list(1) [OF assms(1) j(1)]] by blast
    show "sm_entries s' e = sm_entries s e" if "(p, e) \<in> set (rs ! j)" for p e by (rule assms(7) [OF j that])
    show "f' k = f k" if "bucket_of k (length rs) = j" for k using assms(8) that j(2) by simp
  qed
  then have "bucket s' (length rs) f' (ls ! j) j (rs[i := r] ! j)" if "j < length rs" for j
    using assms(3) that by (cases "j = i") auto
  moreover have "fst ` set (rs[i := r] ! j) \<inter> fst ` set (rs[i := r] ! k) = {}" if "j < length rs" "k < length rs" "j \<noteq> k" for j k
  proof -
    consider "j = i" | "k = i" | "j \<noteq> i" "k \<noteq> i" by blast
    then show ?thesis
    proof cases
      case 1
      then show ?thesis using assms(6) [OF that(2)] assms(2) that(3) by (simp add: Int_Un_distrib2)
    next
      case 2
      then show ?thesis using assms(6) [OF that(1)] assms(2) that(3) by (simp add: Int_Un_distrib2 Int_commute)
    next
      case 3
      then show ?thesis using T(7) [OF that] by simp
    qed
  qed
  ultimately show ?thesis using T(1-4) assms(4) unfolding table_def by simp
qed

subsection \<open>Mapping a key\<close>

definition fresh_entry :: "sm_env \<Rightarrow> smheap \<Rightarrow> nat \<Rightarrow> bool" where
  "fresh_entry env s e \<longleftrightarrow> malloc_entry env s = e \<and> e \<noteq> 0 \<and> sm_entries s e = None"

lemma sum_list_upd: "i < length xs \<Longrightarrow> sum_list (xs[i := (x :: nat)]) + xs ! i = sum_list xs + x"
  using sum_list_update [of i xs x] member_le_sum_list [of "xs ! i" xs] by simp

lemma node_not_in: "is_dll h l c r \<Longrightarrow> dh_nodes h p = None \<Longrightarrow> p \<notin> fst ` set r"
  using chain_pos [of "dh_nodes h" 0 r 0 p] by (auto simp: is_dll_def)

lemma contents_keys: "(p, e) \<in> set r \<Longrightarrow> te_key (the (sm_entries s e)) \<in> fst ` set (contents s r)"
  by (force simp: contents_def)

text \<open>An entry of one list is in no other, and nodes come only from the allocator.\<close>

lemma other_lists_entry:
  assumes "table s m ls rs f" and "j < length rs" and "(p, e') \<in> set (rs ! j)" and "sm_entries s e = Some E" and "j \<noteq> bucket_of (te_key E) (length rs)"
  shows "e' \<noteq> e"
proof -
  have "te_key (the (sm_entries s e')) \<in> fst ` set (contents s (rs ! j))" by (rule contents_keys [OF assms(3)])
  then have "bucket_of (te_key (the (sm_entries s e'))) (length rs) = j" using tableD(6) [OF assms(1,2)] by (auto simp: bucket_def)
  then show ?thesis using assms(4,5) by auto
qed

lemma nodes_after:
  assumes "unchanged_but P l h h'" and "\<And>p. p \<in> P \<Longrightarrow> p \<in> A \<or> dh_nodes h p \<noteq> None"
  shows "dom (dh_nodes h') \<subseteq> A \<union> dom (dh_nodes h)"
proof
  fix p assume p: "p \<in> dom (dh_nodes h')"
  show "p \<in> A \<union> dom (dh_nodes h)"
  proof (cases "p \<in> P")
    case True
    then show ?thesis using assms(2) by blast
  next
    case False
    then have "dh_nodes h' p = dh_nodes h p" using assms(1) unfolding unchanged_but_def by blast
    then show ?thesis using p by (simp add: domIff)
  qed
qed

lemma Map_new:
  assumes "table s m ls rs f" and "f key = None" and "fresh_entry env s e"
    and "fresh_node (sme_dll env) (sm_dlls s) q"
  defines "i \<equiv> bucket_of key (length rs)"
  obtains s' where "SM_Map env key d m s = Some (Inr 0, s')" and "table s' m ls (rs[i := (q, e) # rs ! i]) (f(key \<mapsto> d))"
    and "dom (sm_entries s') = insert e (dom (sm_entries s))" and "dom (dh_nodes (sm_dlls s')) \<subseteq> insert q (dom (dh_nodes (sm_dlls s)))"
proof -
  note T = tableD [OF assms(1)]
  note key = list_of_key [OF assms(1), where key' = key, folded i_def]
  note hd = head_of_list [OF assms(1) key(1)]
  have B: "bucket s (length rs) f (ls ! i) i (rs ! i)" by (rule T(6) [OF key(1)])
  have i: "bucket_of key (length rs) = i" by (simp add: i_def)
  have zero: "entry_of s key (rs ! i) = 0" using entry_of_bucket(1) [OF B i] assms(2) by simp
  let ?r = "(q, e) # rs ! i" and ?E = "\<lparr>te_key = key, te_data = d\<rparr>"
  have q: "fresh_node (sme_dll env) (sm_dlls s) q" and e: "e \<noteq> 0" "sm_entries s e = None" "malloc_entry env s = e"
    using assms(3,4) by (simp_all add: fresh_entry_def)
  obtain h' where h': "DLL_AddHead (sme_dll env) e (ls ! i) (sm_dlls s) = Some (Inr q, h')" "is_dll h' (ls ! i) None ?r"
      "unchanged_but ({q} \<union> fst ` set (rs ! i)) (ls ! i) (sm_dlls s) h'"
    using AddHead [OF hd(1) q] by metis
  let ?M = "\<lparr>m_ppList = ls, m_Size = int (length rs), m_Count = int (sum_list (map length rs)) + 1\<rparr>"
  let ?s = "s\<lparr>sm_entries := (sm_entries s)(e \<mapsto> ?E), sm_dlls := h', sm_maps := (sm_maps s)(m \<mapsto> ?M)\<rparr>"
  have add: "on_lists (DLL_AddHead (sme_dll env) e (ls ! i)) (s\<lparr>sm_entries := (sm_entries s)(e \<mapsto> ?E)\<rparr>) =
      Some (Inr q, s\<lparr>sm_entries := (sm_entries s)(e \<mapsto> ?E), sm_dlls := h'\<rparr>)"
    using h'(1) by (simp add: on_lists_def)
  have run: "SM_Map env key d m s = Some (Inr 0, ?s)"
    using T(5) key(2,3) lookup_entry [OF assms(1), of key] zero e add i
    by (simp add: SM_Map_def NewTblEntry_def Let_def sm_run)
  have old: "sm_entries ?s e' = sm_entries s e'" if "j < length rs" "(p, e') \<in> set (rs ! j)" for j p e'
  proof -
    have "sm_entries s e' \<noteq> None" using head_of_list(3) [OF assms(1) that(1)] that(2) by blast
    then have "e' \<noteq> e" using e(2) by metis
    then show ?thesis by simp
  qed
  have c: "contents ?s (rs ! i) = contents s (rs ! i)" using old [OF key(1)] by (intro contents_cong) auto
  have "key \<notin> fst ` set (contents s (rs ! i))" using B assms(2) by (simp add: bucket_def i map_of_eq_None_iff)
  then have bucket: "bucket ?s (length rs) (f(key \<mapsto> d)) (ls ! i) i ?r"
    using B h'(2) e(1) c old [OF key(1)] hd(3) unfolding bucket_def by (auto simp: i)
  have count: "int (sum_list (map length (rs[i := ?r]))) = int (sum_list (map length rs)) + 1"
    using sum_list_upd [of i "map length rs" "length ?r"] key(1) by (simp add: map_update)
  have q_out: "q \<notin> fst ` set (rs ! j)" if "j < length rs" for j
    using node_not_in [OF head_of_list(1) [OF assms(1) that]] q by (simp add: fresh_node_def)
  have "table ?s m ls (rs[i := ?r]) (f(key \<mapsto> d))"
  proof (rule table_update [OF assms(1) key(1) bucket])
    show "unchanged_but ({q} \<union> fst ` set (rs ! i)) (ls ! i) (sm_dlls s) (sm_dlls ?s)" using h'(3) by simp
    show "(({q} \<union> fst ` set (rs ! i)) \<union> fst ` set ?r) \<inter> fst ` set (rs ! j) = {}" if "j < length rs" "j \<noteq> i" for j
      using T(7) [OF key(1) that(1)] that(2) q_out [OF that(1)] by (simp add: Int_Un_distrib2)
    show "sm_entries ?s e' = sm_entries s e'" if "j < length rs" "j \<noteq> i" "(p, e') \<in> set (rs ! j)" for j p e'
      by (rule old [OF that(1,3)])
    show "(f(key \<mapsto> d)) k = f k" if "bucket_of k (length rs) \<noteq> i" for k using that by (auto simp: i)
    show "sm_maps ?s m = Some \<lparr>m_ppList = ls, m_Size = int (length rs), m_Count = int (sum_list (map length (rs[i := ?r])))\<rparr>"
      using count by simp
  qed
  moreover have "dom (dh_nodes h') \<subseteq> {q} \<union> dom (dh_nodes (sm_dlls s))"
    by (rule nodes_after [OF h'(3)]) (use node_not_in [OF hd(1)] in blast)
  ultimately show thesis by (intro that [OF run]) simp_all
qed

lemma Map_replace:
  assumes "table s m ls rs f" and "f key = Some d0"
  obtains s' where "SM_Map env key d m s = Some (Inr d0, s')" and "table s' m ls rs (f(key \<mapsto> d))"
    and "dom (sm_entries s') = dom (sm_entries s)" and "sm_dlls s' = sm_dlls s"
proof -
  note T = tableD [OF assms(1)]
  define i where "i = bucket_of key (length rs)"
  note key = list_of_key [OF assms(1), where key' = key, folded i_def]
  note hd = head_of_list [OF assms(1) key(1)]
  have B: "bucket s (length rs) f (ls ! i) i (rs ! i)" by (rule T(6) [OF key(1)])
  define e where "e = entry_of s key (rs ! i)"
  have ne: "e \<noteq> 0" using entry_of_bucket(1) [OF B i_def [symmetric]] assms(2) by (simp add: e_def)
  obtain a p b where r: "rs ! i = a @ (p, e) # b" and E: "sm_entries s e = Some \<lparr>te_key = key, te_data = d0\<rparr>"
      and out: "key \<notin> fst ` set (contents s a)" "key \<notin> fst ` set (contents s b)"
    using entry_of_bucket(2) [OF B i_def [symmetric]] ne assms(2) unfolding e_def by auto
  let ?s = "s\<lparr>sm_entries := (sm_entries s)(e \<mapsto> \<lparr>te_key = key, te_data = d\<rparr>)\<rparr>"
  have run: "SM_Map env key d m s = Some (Inr d0, ?s)"
    using T(5) key(2) lookup_entry [OF assms(1), of key] ne E by (simp add: SM_Map_def sm_run i_def [symmetric] e_def [symmetric])
  have "e' \<noteq> e" if "(p', e') \<in> set a \<union> set b" for p' e'
    using contents_keys [of p' e' a s] contents_keys [of p' e' b s] that E out by auto
  then have c: "contents ?s a = contents s a" "contents ?s b = contents s b" by (force intro!: contents_cong)+
  have bucket: "bucket ?s (length rs) (f(key \<mapsto> d)) (ls ! i) i (rs ! i)"
  proof -
    have "map_of (contents s a) key = None" using out(1) by (simp add: map_of_eq_None_iff)
    then show ?thesis using B hd(1,3) E c unfolding bucket_def r by (auto simp: i_def map_add_def split: option.splits)
  qed
  have "table ?s m ls (rs[i := rs ! i]) (f(key \<mapsto> d))"
  proof (rule table_update [OF assms(1) key(1) bucket])
    show "unchanged_but {} (ls ! i) (sm_dlls s) (sm_dlls ?s)" by (simp add: unchanged_but_def)
    show "({} \<union> fst ` set (rs ! i)) \<inter> fst ` set (rs ! j) = {}" if "j < length rs" "j \<noteq> i" for j
      using T(7) [OF key(1) that(1)] that(2) by simp
    show "sm_entries ?s e' = sm_entries s e'" if j: "j < length rs" "j \<noteq> i" "(p', e') \<in> set (rs ! j)" for j p' e'
      using other_lists_entry [OF assms(1) j(1,3) E] j(2) by (simp add: i_def)
    show "(f(key \<mapsto> d)) k = f k" if "bucket_of k (length rs) \<noteq> i" for k using that by (auto simp: i_def)
  qed (use T(5) in simp)
  then show thesis using E by (intro that [OF run]) auto
qed

subsection \<open>Removing a key\<close>

lemma remove_skip:
  "is_dll (sm_dlls s) l c (a0 @ a @ b) \<Longrightarrow> \<forall>p e. (p, e) \<in> set a \<longrightarrow> sm_entries s e \<noteq> None \<Longrightarrow> key \<notin> fst ` set (contents s a) \<Longrightarrow>
   remove_key_loop key m l (first_pos (a @ b) 0) s = remove_key_loop key m l (first_pos b 0) s"
proof (induction a arbitrary: a0)
  case (Cons x a)
  obtain p e where x: "x = (p, e)" by force
  have "sm_entries s e \<noteq> None" using Cons.prems(2) x by (meson list.set_intros(1))
  then obtain E where E: "sm_entries s e = Some E" "te_key E \<noteq> key" using Cons.prems(3) x by auto
  have d: "is_dll (sm_dlls s) l c (a0 @ (p, e) # (a @ b))" using Cons.prems(1) x by simp
  then have "p \<noteq> 0" by (auto simp: is_dll_def)
  moreover have "on_lists (DLL_GetNext p l) s = Some (Inr (e, first_pos (a @ b) 0), s)"
    by (rule on_lists_same [of "DLL_GetNext p l", OF GetNext_in [OF d]])
  ultimately have "remove_key_loop key m l p s = remove_key_loop key m l (first_pos (a @ b) 0) s"
    using E by (subst remove_key_loop.simps) simp
  also have "\<dots> = remove_key_loop key m l (first_pos b 0) s" using Cons.prems x by (intro Cons.IH [of "a0 @ [x]"]) auto
  finally show ?case by (simp add: x)
qed simp

lemma RemoveKey_none:
  assumes "table s m ls rs f" and "f key = None"
  shows "SM_RemoveKey key m s = Some (Inr 0, s)"
proof -
  define i where "i = bucket_of key (length rs)"
  note key = list_of_key [OF assms(1), where key' = key, folded i_def]
  note hd = head_of_list [OF assms(1) key(1)]
  have "key \<notin> fst ` set (contents s (rs ! i))"
    using tableD(6) [OF assms(1) key(1)] assms(2) by (simp add: bucket_def i_def map_of_eq_None_iff)
  moreover have ex: "\<forall>p e. (p, e) \<in> set (rs ! i) \<longrightarrow> sm_entries s e \<noteq> None" using hd(3) by auto
  ultimately have "remove_key_loop key m (ls ! i) (first_pos (rs ! i) 0) s = remove_key_loop key m (ls ! i) 0 s"
    using remove_skip [of s "ls ! i" None "[]" "rs ! i" "[]" key m] hd(1) ex by simp
  also have "\<dots> = Some (Inr 0, s)" by (subst remove_key_loop.simps) (simp add: sm_run)
  finally show ?thesis using tableD(5) [OF assms(1)] key hd(2) by (simp add: SM_RemoveKey_def)
qed

lemma RemoveKey_some:
  assumes "table s m ls rs f" and "f key = Some d"
  obtains s' rs' where "SM_RemoveKey key m s = Some (Inr d, s')" and "table s' m ls rs' (f(key := None))"
    and "dom (sm_entries s') \<subseteq> dom (sm_entries s)" and "dom (dh_nodes (sm_dlls s')) \<subseteq> dom (dh_nodes (sm_dlls s))"
proof -
  note T = tableD [OF assms(1)]
  define i where "i = bucket_of key (length rs)"
  note key = list_of_key [OF assms(1), where key' = key, folded i_def]
  note hd = head_of_list [OF assms(1) key(1)]
  have B: "bucket s (length rs) f (ls ! i) i (rs ! i)" by (rule T(6) [OF key(1)])
  define e where "e = entry_of s key (rs ! i)"
  have ne: "e \<noteq> 0" using entry_of_bucket(1) [OF B i_def [symmetric]] assms(2) by (simp add: e_def)
  obtain a p b where r: "rs ! i = a @ (p, e) # b" and E: "sm_entries s e = Some \<lparr>te_key = key, te_data = d\<rparr>"
      and out: "key \<notin> fst ` set (contents s a)" "key \<notin> fst ` set (contents s b)"
    using entry_of_bucket(2) [OF B i_def [symmetric]] ne assms(2) unfolding e_def by auto
  have dll: "is_dll (sm_dlls s) (ls ! i) None (a @ (p, e) # b)" using hd(1) r by simp
  obtain h' where h': "DLL_RemoveAt p (ls ! i) (sm_dlls s) = Some (Inr e, h')" "is_dll h' (ls ! i) None (a @ b)"
      "dh_nodes h' p = None" "unchanged_but (fst ` set (a @ (p, e) # b)) (ls ! i) (sm_dlls s) h'"
    using RemoveAt [OF dll] by metis
  let ?M = "\<lparr>m_ppList = ls, m_Size = int (length rs), m_Count = int (sum_list (map length rs)) - 1\<rparr>"
  let ?s = "s\<lparr>sm_dlls := h', sm_entries := (sm_entries s)(e := None), sm_maps := (sm_maps s)(m \<mapsto> ?M)\<rparr>"
  have ex: "\<forall>p e. (p, e) \<in> set a \<longrightarrow> sm_entries s e \<noteq> None" using hd(3) by (auto simp: r)
  have "remove_key_loop key m (ls ! i) (first_pos (rs ! i) 0) s = remove_key_loop key m (ls ! i) p s"
    using remove_skip [of s "ls ! i" None "[]" a "(p, e) # b" key m] dll ex out(1) by (simp add: r)
  also have "\<dots> = Some (Inr d, ?s)"
  proof -
    have "p \<noteq> 0" using dll by (auto simp: is_dll_def)
    moreover have "on_lists (DLL_GetNext p (ls ! i)) s = Some (Inr (e, first_pos b 0), s)"
      by (rule on_lists_same [of "DLL_GetNext p (ls ! i)", OF GetNext_in [OF dll]])
    moreover have "on_lists (DLL_RemoveAt p (ls ! i)) s = Some (Inr e, s\<lparr>sm_dlls := h'\<rparr>)" by (rule on_lists_Some [of "DLL_RemoveAt p (ls ! i)", OF h'(1)])
    ultimately show ?thesis using E T(5) by (subst remove_key_loop.simps) (simp add: DeleteTblEntry_def sm_run)
  qed
  finally have run: "SM_RemoveKey key m s = Some (Inr d, ?s)" using T(5) key hd(2) by (simp add: SM_RemoveKey_def)
  have "e' \<noteq> e" if "(p', e') \<in> set a \<union> set b" for p' e'
    using contents_keys [of p' e' a s] contents_keys [of p' e' b s] that E out by auto
  then have old: "sm_entries ?s e' = sm_entries s e'" if "(p', e') \<in> set a \<union> set b" for p' e' using that by simp
  then have c: "contents ?s a = contents s a" "contents ?s b = contents s b" by (force intro!: contents_cong)+
  have bucket: "bucket ?s (length rs) (f(key := None)) (ls ! i) i (a @ b)"
  proof -
    have "map_of (contents s a) key = None" "map_of (contents s b) key = None" using out by (simp_all add: map_of_eq_None_iff)
    then show ?thesis using B h'(2) hd(3) E c old unfolding bucket_def r by (auto simp: i_def map_add_def split: option.splits)
  qed
  have count: "int (sum_list (map length (rs[i := a @ b]))) = int (sum_list (map length rs)) - 1"
    using sum_list_upd [of i "map length rs" "length (a @ b)"] key(1) by (simp add: map_update r)
  have "table ?s m ls (rs[i := a @ b]) (f(key := None))"
  proof (rule table_update [OF assms(1) key(1) bucket])
    show "unchanged_but (fst ` set (a @ (p, e) # b)) (ls ! i) (sm_dlls s) (sm_dlls ?s)" using h'(4) by simp
    show "(fst ` set (a @ (p, e) # b) \<union> fst ` set (a @ b)) \<inter> fst ` set (rs ! j) = {}" if "j < length rs" "j \<noteq> i" for j
      using T(7) [OF key(1) that(1)] that(2) by (simp add: r image_Un Int_Un_distrib2)
    show "sm_entries ?s e' = sm_entries s e'" if j: "j < length rs" "j \<noteq> i" "(p', e') \<in> set (rs ! j)" for j p' e'
      using other_lists_entry [OF assms(1) j(1,3) E] j(2) by (simp add: i_def)
    show "(f(key := None)) k = f k" if "bucket_of k (length rs) \<noteq> i" for k using that by (auto simp: i_def)
    show "sm_maps ?s m = Some \<lparr>m_ppList = ls, m_Size = int (length rs), m_Count = int (sum_list (map length (rs[i := a @ b])))\<rparr>"
      using count by simp
  qed
  moreover have "dom (dh_nodes h') \<subseteq> {} \<union> dom (dh_nodes (sm_dlls s))"
    by (rule nodes_after [OF h'(4)]) (use node_not_in [OF dll] in blast)
  ultimately show thesis by (intro that [OF run]) auto
qed

end
