(* ===== verification/StrMapProps.thy ===== *)
theory StrMapProps
  imports StrMapRefine
begin

text \<open>
  What the hash table promises to its users: it is a map from strings, under any sequence of operations, and the iterator
  hands out every key once.
\<close>

subsection \<open>Creation\<close>

definition sm_env_ok :: "sm_env \<Rightarrow> bool" where
  "sm_env_ok env \<longleftrightarrow> malloc_ok (sme_dll env) \<and>
     (\<forall>h. finite (dom (dh_lists h)) \<longrightarrow> malloc_list (sme_dll env) h \<noteq> 0 \<and> dh_lists h (malloc_list (sme_dll env) h) = None) \<and>
     (\<forall>s. finite (dom (sm_entries s)) \<longrightarrow> fresh_entry env s (malloc_entry env s)) \<and> (\<forall>s. malloc_map env s \<noteq> 0)"

lemma create_lists:
  assumes "sm_env_ok env" and "finite (dom (dh_lists h))"
  shows "\<exists>ls h'. create_lists (sme_dll env) n h = Some (Inr ls, h') \<and> length ls = n \<and> distinct ls \<and> dh_nodes h' = dh_nodes h \<and>
    (\<forall>l \<in> set ls. l \<noteq> 0 \<and> dh_lists h l = None \<and> dh_lists h' l = Some empty_DLLIST) \<and>
    (\<forall>l. l \<notin> set ls \<longrightarrow> dh_lists h' l = dh_lists h l)"
  using assms(2)
proof (induction n arbitrary: h)
  case (Suc n)
  let ?l = "malloc_list (sme_dll env) h"
  let ?h = "h\<lparr>dh_lists := (dh_lists h)(?l \<mapsto> empty_DLLIST)\<rparr>"
  have l: "?l \<noteq> 0" "dh_lists h ?l = None" using assms(1) Suc.prems by (auto simp: sm_env_ok_def)
  have fin: "finite (dom (dh_lists ?h))" using Suc.prems by simp
  obtain ls h' where ih: "create_lists (sme_dll env) n ?h = Some (Inr ls, h')" "length ls = n" "distinct ls" "dh_nodes h' = dh_nodes ?h"
      "\<forall>k \<in> set ls. k \<noteq> 0 \<and> dh_lists ?h k = None \<and> dh_lists h' k = Some empty_DLLIST"
      "\<forall>k. k \<notin> set ls \<longrightarrow> dh_lists h' k = dh_lists ?h k"
    using Suc.IH [of ?h] fin by blast
  have out: "?l \<notin> set ls" using ih(5) by auto
  have "create_lists (sme_dll env) (Suc n) h = Some (Inr (?l # ls), h')"
    using ih(1) l by (simp add: DLL_Create_def Let_def sm_run)
  moreover have "\<forall>k \<in> set (?l # ls). k \<noteq> 0 \<and> dh_lists h k = None \<and> dh_lists h' k = Some empty_DLLIST"
    using ih(5,6) l out by (auto split: if_splits)
  moreover have "\<forall>k. k \<notin> set (?l # ls) \<longrightarrow> dh_lists h' k = dh_lists h k" using ih(6) by simp
  ultimately show ?case using ih(2-4) out by (intro exI [of _ "?l # ls"] exI [of _ h']) simp
qed (simp add: sm_run)

definition dict_holds :: "sm_env \<Rightarrow> nat \<Rightarrow> smheap \<Rightarrow> (string \<rightharpoonup> nat) \<Rightarrow> bool" where
  "dict_holds env m s f \<longleftrightarrow> sm_env_ok env \<and> finite (dom (sm_entries s)) \<and> finite (dom (dh_nodes (sm_dlls s))) \<and> (\<exists>ls rs. table s m ls rs f)"

lemma Create:
  assumes "sm_env_ok env" and "0 < n" and "n < 2 ^ 31"
    and "finite (dom (sm_entries s))" and "finite (dom (dh_nodes (sm_dlls s)))" and "finite (dom (dh_lists (sm_dlls s)))"
  shows "\<exists>m s'. SM_Create env (int n) s = Some (Inr m, s') \<and> m \<noteq> 0 \<and> dict_holds env m s' Map.empty"
proof -
  obtain ls h' where ls: "create_lists (sme_dll env) n (sm_dlls s) = Some (Inr ls, h')" "length ls = n" "distinct ls"
      "dh_nodes h' = dh_nodes (sm_dlls s)" "\<forall>l \<in> set ls. l \<noteq> 0 \<and> dh_lists h' l = Some empty_DLLIST"
    using create_lists [OF assms(1,6), of n] by blast
  let ?m = "malloc_map env s" and ?rs = "replicate n []"
  let ?s = "s\<lparr>sm_dlls := h', sm_maps := (sm_maps s)(?m \<mapsto> \<lparr>m_ppList = ls, m_Size = int n, m_Count = 0\<rparr>)\<rparr>"
  have m: "?m \<noteq> 0" using assms(1) by (simp add: sm_env_ok_def)
  have "SM_Create env (int n) s = Some (Inr ?m, ?s)"
    using ls(1) m by (simp add: SM_Create_def Let_def on_lists_def sm_run)
  moreover have "bucket ?s n Map.empty (ls ! i) i []" if "i < n" for i
    using ls(2,5) that by (simp add: bucket_def is_dll_def empty_DLLIST_def)
  then have "table ?s ?m ls ?rs Map.empty"
    using assms(2,3) ls(2,3) by (simp add: table_def map_replicate_const sum_list_replicate)
  then have "dict_holds env ?m ?s Map.empty" using assms(1,4,5) ls(4) by (auto simp: dict_holds_def)
  ultimately show ?thesis using m by blast
qed

subsection \<open>Sequences of operations\<close>

datatype dict_op = Dict_map string nat | Dict_lookup string | Dict_remove string

fun dict_spec :: "dict_op list \<Rightarrow> (string \<rightharpoonup> nat) \<Rightarrow> nat list" where
  "dict_spec [] f = []"
| "dict_spec (Dict_map k d # es) f = result_of (f k) # dict_spec es (f(k \<mapsto> d))"
| "dict_spec (Dict_lookup k # es) f = result_of (f k) # dict_spec es f"
| "dict_spec (Dict_remove k # es) f = result_of (f k) # dict_spec es (f(k := None))"

fun run_dict :: "(string \<Rightarrow> nat \<Rightarrow> 's \<Rightarrow> (nat, 's) result) \<Rightarrow> (string \<Rightarrow> 's \<Rightarrow> (nat, 's) result) \<Rightarrow> (string \<Rightarrow> 's \<Rightarrow> (nat, 's) result)
    \<Rightarrow> dict_op list \<Rightarrow> 's \<Rightarrow> (nat list, 's) result" where
  "run_dict put look take_out [] s = returns [] s"
| "run_dict put look take_out (e # es) s =
     andthen (case e of Dict_map k d \<Rightarrow> put k d s | Dict_lookup k \<Rightarrow> look k s | Dict_remove k \<Rightarrow> take_out k s)
       (\<lambda>x s. andthen (run_dict put look take_out es s) (\<lambda>xs. returns (x # xs)))"

locale dictionary =
  fixes holds :: "'s \<Rightarrow> (string \<rightharpoonup> nat) \<Rightarrow> bool"
    and put :: "string \<Rightarrow> nat \<Rightarrow> 's \<Rightarrow> (nat, 's) result"
    and look :: "string \<Rightarrow> 's \<Rightarrow> (nat, 's) result"
    and take_out :: "string \<Rightarrow> 's \<Rightarrow> (nat, 's) result"
  assumes put: "holds s f \<Longrightarrow> \<exists>s'. put k d s = Some (Inr (result_of (f k)), s') \<and> holds s' (f(k \<mapsto> d))"
    and look: "holds s f \<Longrightarrow> look k s = Some (Inr (result_of (f k)), s)"
    and take_out: "holds s f \<Longrightarrow> \<exists>s'. take_out k s = Some (Inr (result_of (f k)), s') \<and> holds s' (f(k := None))"
begin

lemma run_refines: "holds s f \<Longrightarrow> \<exists>s'. run_dict put look take_out es s = Some (Inr (dict_spec es f), s')"
proof (induction es arbitrary: s f)
  case (Cons e es)
  obtain x s1 f1 where step: "(case e of Dict_map k d \<Rightarrow> put k d s | Dict_lookup k \<Rightarrow> look k s | Dict_remove k \<Rightarrow> take_out k s) = Some (Inr x, s1)"
      "holds s1 f1" "dict_spec (e # es) f = x # dict_spec es f1"
    using put [OF Cons.prems] look [OF Cons.prems] take_out [OF Cons.prems] Cons.prems
    by (cases e) (simp; metis)+
  then show ?case using Cons.IH [OF step(2)] by (auto simp: sm_run)
qed (simp add: sm_run)

end

interpretation strmap: dictionary "dict_holds env m" "\<lambda>k d. SM_Map env k d m" "\<lambda>k. SM_Lookup k m" "\<lambda>k. SM_RemoveKey k m"
  for env m
proof
  fix s f k d assume h: "dict_holds env m s f"
  then obtain ls rs where T: "table s m ls rs f" by (auto simp: dict_holds_def)
  have ok: "sm_env_ok env" "finite (dom (sm_entries s))" "finite (dom (dh_nodes (sm_dlls s)))" using h by (simp_all add: dict_holds_def)
  show "SM_Lookup k m s = Some (Inr (result_of (f k)), s)" by (rule Lookup [OF T])
  show "\<exists>s'. SM_Map env k d m s = Some (Inr (result_of (f k)), s') \<and> dict_holds env m s' (f(k \<mapsto> d))"
  proof (cases "f k")
    case None
    have "fresh_entry env s (malloc_entry env s)" "fresh_node (sme_dll env) (sm_dlls s) (malloc_node (sme_dll env) (sm_dlls s))"
      using ok by (simp_all add: sm_env_ok_def malloc_ok_def)
    from Map_new [OF T None this] obtain s' rs' where "SM_Map env k d m s = Some (Inr 0, s')" "table s' m ls rs' (f(k \<mapsto> d))"
        "dom (sm_entries s') = insert (malloc_entry env s) (dom (sm_entries s))"
        "dom (dh_nodes (sm_dlls s')) \<subseteq> insert (malloc_node (sme_dll env) (sm_dlls s)) (dom (dh_nodes (sm_dlls s)))"
      by metis
    then show ?thesis using ok None by (auto simp: dict_holds_def result_of_def dest: finite_subset)
  next
    case (Some d0)
    obtain s' where "SM_Map env k d m s = Some (Inr d0, s')" "table s' m ls rs (f(k \<mapsto> d))"
        "dom (sm_entries s') = dom (sm_entries s)" "sm_dlls s' = sm_dlls s"
      using Map_replace [OF T Some] by metis
    then show ?thesis using ok Some by (auto simp: dict_holds_def result_of_def)
  qed
  show "\<exists>s'. SM_RemoveKey k m s = Some (Inr (result_of (f k)), s') \<and> dict_holds env m s' (f(k := None))"
  proof (cases "f k")
    case None
    then have "f(k := None) = f" by auto
    then show ?thesis using RemoveKey_none [OF T None] None h by (simp add: result_of_def)
  next
    case (Some d0)
    obtain s' rs' where "SM_RemoveKey k m s = Some (Inr d0, s')" "table s' m ls rs' (f(k := None))"
        "dom (sm_entries s') \<subseteq> dom (sm_entries s)" "dom (dh_nodes (sm_dlls s')) \<subseteq> dom (dh_nodes (sm_dlls s))"
      using RemoveKey_some [OF T Some] by metis
    then show ?thesis using ok Some by (auto simp: dict_holds_def result_of_def dest: finite_subset)
  qed
qed

text \<open>
  C31: A hash table that was created with a positive size behaves as a finite map from strings: under every sequence of mapping,
  looking up and removing keys, whatever their hashes, each call returns the datum that was mapped to its key before, or
  \<open>NULL\<close>, and none of the calls fails or follows a pointer that leads nowhere.
\<close>

theorem string_map_is_a_map:
  assumes "sm_env_ok env" and "0 < n" and "n < 2 ^ 31"
    and "finite (dom (sm_entries s))" and "finite (dom (dh_nodes (sm_dlls s)))" and "finite (dom (dh_lists (sm_dlls s)))"
  shows "\<exists>m s1 s2. SM_Create env (int n) s = Some (Inr m, s1) \<and>
    run_dict (\<lambda>k d. SM_Map env k d m) (\<lambda>k. SM_Lookup k m) (\<lambda>k. SM_RemoveKey k m) es s1 = Some (Inr (dict_spec es Map.empty), s2)"
  using Create [OF assms] strmap.run_refines by blast

definition plain_sm_env :: sm_env where
  "plain_sm_env = \<lparr>sme_dll = plain_malloc, malloc_entry = (\<lambda>s. least_free (sm_entries s)),
     malloc_map = (\<lambda>s. least_free (sm_maps s)), malloc_iter = (\<lambda>s. least_free (sm_iters s))\<rparr>"

definition empty_smheap :: smheap where
  "empty_smheap = \<lparr>sm_dlls = \<lparr>dh_nodes = Map.empty, dh_lists = Map.empty\<rparr>, sm_entries = Map.empty, sm_maps = Map.empty, sm_iters = Map.empty\<rparr>"

lemma least_free_nonzero: "least_free m \<noteq> 0"
  by (simp add: least_free_def)

lemma plain_sm_env_ok: "sm_env_ok plain_sm_env"
  using plain_malloc_ok by (simp add: sm_env_ok_def plain_sm_env_def fresh_entry_def plain_malloc_def least_free_fresh least_free_nonzero)

theorem string_map_is_a_map_witness:
  "\<exists>m s1 s2. SM_Create plain_sm_env 7 empty_smheap = Some (Inr m, s1) \<and>
    run_dict (\<lambda>k d. SM_Map plain_sm_env k d m) (\<lambda>k. SM_Lookup k m) (\<lambda>k. SM_RemoveKey k m)
      [Dict_map ''mass'' 5, Dict_map ''mass'' 6, Dict_lookup ''mass'', Dict_remove ''mass'', Dict_lookup ''mass''] s1 =
    Some (Inr [0, 5, 6, 6, 0], s2)"
  using string_map_is_a_map [OF plain_sm_env_ok, of 7 empty_smheap
      "[Dict_map ''mass'' 5, Dict_map ''mass'' 6, Dict_lookup ''mass'', Dict_remove ''mass'', Dict_lookup ''mass'']"]
  by (simp add: empty_smheap_def result_of_def)

subsection \<open>Iterating\<close>

lemma table_iters [simp]: "table (s\<lparr>sm_iters := I\<rparr>) m ls rs f = table s m ls rs f"
  by (simp add: table_def bucket_def contents_def)

lemma contents_iters [simp]: "contents (s\<lparr>sm_iters := I\<rparr>) r = contents s r"
  by (simp add: contents_def)

lemma first_list_ok:
  assumes "table s m ls rs f" and "i \<le> length rs" and "M = \<lparr>m_ppList = ls, m_Size = int (length rs), m_Count = c\<rparr>"
  shows "first_list M (int i) s =
    Some (Inr (case find (\<lambda>j. rs ! j \<noteq> []) [i ..< length rs] of None \<Rightarrow> None | Some j \<Rightarrow> Some (int j, ls ! j, fst (hd (rs ! j)))), s)"
  using assms(2)
proof (induction "length rs - i" arbitrary: i)
  case 0
  then show ?case by (subst first_list.simps) (simp add: assms(3) sm_run)
next
  case (Suc n)
  then have i: "i < length rs" by simp
  note hd = head_of_list [OF assms(1) i]
  have l: "list_of M (int i) s = Some (Inr (ls ! i), s)" using i tableD(3) [OF assms(1)] by (simp add: assms(3) list_of_def sm_run)
  have up: "[i ..< length rs] = i # [Suc i ..< length rs]" using i by (simp add: upt_conv_Cons)
  show ?case
  proof (cases "rs ! i")
    case Nil
    have "first_list M (int i + 1) s = first_list M (int (Suc i)) s" by (simp add: algebra_simps)
    then show ?thesis using Suc.hyps(1) [of "Suc i"] Suc.hyps(2) i l hd(2) Nil up by (subst first_list.simps) (simp add: assms(3))
  next
    case (Cons x r)
    then have "fst x \<noteq> 0" using hd(1) chain_pos [of "dh_nodes (sm_dlls s)" 0 "rs ! i" 0 "fst x"] by (auto simp: is_dll_def)
    then show ?thesis using i l hd(2) Cons up by (subst first_list.simps) (cases x, simp add: assms(3) sm_run)
  qed
qed

text \<open>The iterator stands at the node behind \<open>a\<close> in list \<open>j\<close>; \<open>b\<close> comes after it.\<close>

definition iter_at :: "smheap \<Rightarrow> nat \<Rightarrow> nat \<Rightarrow> nat list \<Rightarrow> (nat \<times> nat) list list \<Rightarrow> (string \<rightharpoonup> nat) \<Rightarrow> nat \<Rightarrow> (nat \<times> nat) list \<Rightarrow> nat \<times> nat
    \<Rightarrow> (nat \<times> nat) list \<Rightarrow> bool" where
  "iter_at s it m ls rs f j a x b \<longleftrightarrow> table s m ls rs f \<and> j < length rs \<and> rs ! j = a @ x # b \<and>
     sm_iters s it = Some \<lparr>m_Index = int j, m_ListPos = fst x, m_pTable = m\<rparr>"

lemma entry_at_ok:
  assumes "table s m ls rs f" and "j < length rs" and "rs ! j = a @ (p, e) # b"
  shows "entry_at p (ls ! j) s = Some (Inr (Some (pair_of (the (sm_entries s e)))), s)"
proof -
  have d: "is_dll (sm_dlls s) (ls ! j) None (a @ (p, e) # b)" using head_of_list(1) [OF assms(1,2)] assms(3) by simp
  have "sm_entries s e \<noteq> None" using head_of_list(3) [OF assms(1,2)] assms(3) by (metis in_set_conv_decomp)
  then show ?thesis
    using on_lists_same [of "DLL_GetAt p (ls ! j)", OF GetAt_in [OF d]] by (auto simp: entry_at_def sm_run)
qed

text \<open>What follows in the lists behind an index.\<close>

lemma find_first:
  "find (\<lambda>j. rs ! j \<noteq> []) [i ..< length rs] = None \<Longrightarrow> concat (drop i rs) = []"
  "find (\<lambda>j. rs ! j \<noteq> []) [i ..< length rs] = Some k \<Longrightarrow>
     k < length rs \<and> i \<le> k \<and> rs ! k \<noteq> [] \<and> concat (drop i rs) = rs ! k @ concat (drop (Suc k) rs)"
proof (induction "length rs - i" arbitrary: i)
  case (Suc n)
  then have up: "drop i rs = rs ! i # drop (Suc i) rs" "[i ..< length rs] = i # [Suc i ..< length rs]"
    by (simp_all add: Cons_nth_drop_Suc upt_conv_Cons)
  have n: "n = length rs - Suc i" "i < length rs" using Suc.hyps(3) by simp_all
  { case 1
    then show ?case using Suc.hyps(1) [OF n(1)] unfolding up by (cases "rs ! i") auto
  next
    case 2
    then show ?case using Suc.hyps(2) [OF n(1)] n(2) unfolding up by (cases "rs ! i") auto }
qed simp_all

lemma GetNext_ok:
  assumes "iter_at s it m ls rs f j a x b"
  shows "case b @ concat (drop (Suc j) rs) of
      [] \<Rightarrow> \<exists>I. SMI_GetNext it s = Some (Inr None, s\<lparr>sm_iters := I\<rparr>)
    | y # rest \<Rightarrow> \<exists>I j' a' b'. SMI_GetNext it s = Some (Inr (Some (pair_of (the (sm_entries s (snd y))))), s\<lparr>sm_iters := I\<rparr>) \<and>
        iter_at (s\<lparr>sm_iters := I\<rparr>) it m ls rs f j' a' y b' \<and> b' @ concat (drop (Suc j') rs) = rest"
proof -
  have T: "table s m ls rs f" and j: "j < length rs" "rs ! j = a @ x # b" and I: "sm_iters s it = Some \<lparr>m_Index = int j, m_ListPos = fst x, m_pTable = m\<rparr>"
    using assms by (simp_all add: iter_at_def)
  let ?M = "\<lparr>m_ppList = ls, m_Size = int (length rs), m_Count = int (sum_list (map length rs))\<rparr>"
  obtain p e where x: "x = (p, e)" by force
  have d: "is_dll (sm_dlls s) (ls ! j) None (a @ (p, e) # b)" using head_of_list(1) [OF T j(1)] j(2) x by simp
  then have p: "p \<noteq> 0" by (auto simp: is_dll_def)
  have l: "list_of ?M (int j) s = Some (Inr (ls ! j), s)" using j(1) tableD(3) [OF T] by (simp add: list_of_def sm_run)
  have nxt: "on_lists (DLL_GetNext p (ls ! j)) s = Some (Inr (e, first_pos b 0), s)"
    by (rule on_lists_same [of "DLL_GetNext p (ls ! j)", OF GetNext_in [OF d]])
  note start = T I x p tableD(5) [OF T] l nxt
  show ?thesis
  proof (cases b)
    case (Cons y b')
    obtain q e' where y: "y = (q, e')" by force
    let ?s = "s\<lparr>sm_iters := (sm_iters s)(it \<mapsto> \<lparr>m_Index = int j, m_ListPos = q, m_pTable = m\<rparr>)\<rparr>"
    have rs: "rs ! j = (a @ [x]) @ (q, e') # b'" using j(2) Cons y by simp
    have "q \<noteq> 0" using d Cons y by (auto simp: is_dll_def)
    then have "SMI_GetNext it s = Some (Inr (Some (pair_of (the (sm_entries s e')))), ?s)"
      using start entry_at_ok [of ?s m ls rs f j "a @ [x]" q e' b'] j(1) rs Cons y by (simp add: SMI_GetNext_def sm_run)
    moreover have "iter_at ?s it m ls rs f j (a @ [x]) y b'" using T j(1) rs y by (simp add: iter_at_def)
    ultimately show ?thesis using Cons y by auto
  next
    case Nil
    have first: "first_list ?M (int j + 1) s =
        Some (Inr (case find (\<lambda>j. rs ! j \<noteq> []) [Suc j ..< length rs] of None \<Rightarrow> None | Some j \<Rightarrow> Some (int j, ls ! j, fst (hd (rs ! j)))), s)"
      using first_list_ok [OF T, of "Suc j" ?M] j(1) by (simp add: algebra_simps)
    show ?thesis
    proof (cases "find (\<lambda>j. rs ! j \<noteq> []) [Suc j ..< length rs]")
      case None
      have e: "b @ concat (drop (Suc j) rs) = []" using find_first(1) [OF None] Nil by simp
      show ?thesis unfolding e using start first None Nil by (auto simp: SMI_GetNext_def sm_run)
    next
      case (Some k)
      note k = find_first(2) [OF Some]
      obtain q e' b' where r: "rs ! k = [] @ (q, e') # b'" using k by (cases "rs ! k") auto
      let ?s = "s\<lparr>sm_iters := (sm_iters s)(it \<mapsto> \<lparr>m_Index = int k, m_ListPos = q, m_pTable = m\<rparr>)\<rparr>"
      have "SMI_GetNext it s = Some (Inr (Some (pair_of (the (sm_entries s e')))), ?s)"
        using start first Some entry_at_ok [of ?s m ls rs f k "[]" q e' b'] k r Nil by (simp add: SMI_GetNext_def sm_run)
      moreover have "iter_at ?s it m ls rs f k [] (q, e') b'" using T k r by (simp add: iter_at_def)
      ultimately show ?thesis using k r Nil by auto
    qed
  qed
qed

primrec run_next :: "nat \<Rightarrow> nat \<Rightarrow> smheap \<Rightarrow> ((string \<times> nat) option list, smheap) result" where
  "run_next it 0 s = returns [] s"
| "run_next it (Suc n) s = andthen (SMI_GetNext it s) (\<lambda>x s. andthen (run_next it n s) (\<lambda>xs. returns (x # xs)))"

definition iterate :: "nat \<Rightarrow> nat \<Rightarrow> smheap \<Rightarrow> ((string \<times> nat) option list, smheap) result" where
  "iterate it n s = andthen (SMI_GetFirst it s) (\<lambda>x s. andthen (run_next it n s) (\<lambda>xs. returns (x # xs)))"

lemma run_next:
  assumes "iter_at s it m ls rs f j a x b"
  shows "\<exists>s'. run_next it (Suc (length (b @ concat (drop (Suc j) rs)))) s = Some (Inr (map Some (contents s (b @ concat (drop (Suc j) rs))) @ [None]), s')"
  using assms
proof (induction "b @ concat (drop (Suc j) rs)" arbitrary: s j a x b)
  case Nil
  show ?case using GetNext_ok [OF Nil.prems] unfolding Nil.hyps [symmetric] by (auto simp: sm_run)
next
  case (Cons y rest)
  obtain I j' a' b' where nxt: "SMI_GetNext it s = Some (Inr (Some (pair_of (the (sm_entries s (snd y))))), s\<lparr>sm_iters := I\<rparr>)"
      "iter_at (s\<lparr>sm_iters := I\<rparr>) it m ls rs f j' a' y b'" "b' @ concat (drop (Suc j') rs) = rest"
    using GetNext_ok [OF Cons.prems] unfolding Cons.hyps(2) [symmetric] by auto
  obtain s' where "run_next it (Suc (length rest)) (s\<lparr>sm_iters := I\<rparr>) = Some (Inr (map Some (contents s rest) @ [None]), s')"
    using Cons.hyps(1) [OF nxt(3) [symmetric] nxt(2)] nxt(3) by auto
  then show ?case using nxt(1) unfolding Cons.hyps(2) [symmetric] by (cases y) (simp add: sm_run)
qed

lemma table_contents:
  assumes "table s m ls rs f"
  shows "(k, d) \<in> set (contents s (concat rs)) \<longleftrightarrow> f k = Some d" and "distinct (map fst (contents s (concat rs)))"
proof -
  note T = tableD [OF assms]
  have all: "contents s (concat rs) = concat (map (contents s) rs)" by (induction rs) simp_all
  have b: "distinct (map fst (contents s (rs ! i)))" "\<forall>k \<in> fst ` set (contents s (rs ! i)). bucket_of k (length rs) = i"
      "\<forall>k. bucket_of k (length rs) = i \<longrightarrow> f k = map_of (contents s (rs ! i)) k" if "i < length rs" for i
    using T(6) [OF that] by (simp_all add: bucket_def)
  show "(k, d) \<in> set (contents s (concat rs)) \<longleftrightarrow> f k = Some d"
  proof
    assume "(k, d) \<in> set (contents s (concat rs))"
    then obtain i where i: "i < length rs" "(k, d) \<in> set (contents s (rs ! i))"
      unfolding all set_concat set_map by (metis (no_types, lifting) UN_E imageE in_set_conv_nth)
    have "bucket_of k (length rs) = i" using b(2) [OF i(1)] i(2) by force
    then show "f k = Some d" using b(1,3) [OF i(1)] i(2) by simp
  next
    assume d: "f k = Some d"
    let ?i = "bucket_of k (length rs)"
    have i: "?i < length rs" using hash_ok(2) [OF T(1,2), of "\<lparr>m_ppList = ls, m_Size = int (length rs), m_Count = 0\<rparr>"] by simp
    then have "(k, d) \<in> set (contents s (rs ! ?i))" using b(3) [OF i] d by (auto dest: map_of_SomeD)
    then show "(k, d) \<in> set (contents s (concat rs))" unfolding all using i by auto
  qed
  have "distinct (concat (map (\<lambda>i. map fst (contents s (rs ! i))) [0 ..< n]))" if "n \<le> length rs" for n
    using that
  proof (induction n)
    case (Suc n)
    then have n: "n < length rs" by simp
    have "bucket_of k (length rs) = n" if "k \<in> fst ` set (contents s (rs ! n))" for k using b(2) [OF n] that by blast
    moreover have "bucket_of k (length rs) < n" if k: "k \<in> set (concat (map (\<lambda>i. map fst (contents s (rs ! i))) [0 ..< n]))" for k
    proof -
      obtain ks where ks: "ks \<in> set (map (\<lambda>i. map fst (contents s (rs ! i))) [0 ..< n])" "k \<in> set ks"
        using k unfolding set_concat by blast
      obtain i where i: "i < n" "ks = map fst (contents s (rs ! i))" using ks(1) by auto
      then have "i < length rs" using n by simp
      from b(2) [OF this] have "bucket_of k (length rs) = i" using ks(2) unfolding i(2) list.set_map by blast
      then show ?thesis using i(1) by simp
    qed
    ultimately have "set (concat (map (\<lambda>i. map fst (contents s (rs ! i))) [0 ..< n])) \<inter> fst ` set (contents s (rs ! n)) = {}" by force
    then show ?case using Suc b(1) [of n] by simp
  qed simp
  from this [of "length rs"] have "distinct (concat (map (\<lambda>r. map fst (contents s r)) (map ((!) rs) [0 ..< length rs])))"
    by (simp add: comp_def)
  then show "distinct (map fst (contents s (concat rs)))" unfolding all by (simp add: map_concat map_nth comp_def)
qed

text \<open>
  C32: Iterating over the table, from \<open>SMI_GetFirst\<close> on with \<open>SMI_GetNext\<close>, hands out every key of the table exactly once, with
  its datum, across all lists and past the empty ones, and then returns \<open>NULL\<close>.
\<close>

theorem iteration_meets_every_key_once:
  assumes "table s m ls rs f" and "sm_iters s it = Some I" and "m_pTable I = m"
  shows "\<exists>xs s'. distinct (map fst xs) \<and> (\<forall>k d. (k, d) \<in> set xs \<longleftrightarrow> f k = Some d) \<and>
    iterate it (length xs) s = Some (Inr (map Some xs @ [None]), s')"
proof -
  note T = tableD [OF assms(1)]
  let ?xs = "contents s (concat rs)"
  let ?M = "\<lparr>m_ppList = ls, m_Size = int (length rs), m_Count = int (sum_list (map length rs))\<rparr>"
  let ?s = "s\<lparr>sm_iters := (sm_iters s)(it \<mapsto> I\<lparr>m_Index := 0, m_ListPos := 0\<rparr>)\<rparr>"
  have "\<exists>s'. iterate it (length ?xs) s = Some (Inr (map Some ?xs @ [None]), s')"
  proof (cases "find (\<lambda>j. rs ! j \<noteq> []) [0 ..< length rs]")
    case None
    have e: "concat rs = []" using find_first(1) [OF None] by simp
    then have "sum_list (map length rs) = 0" by (simp add: length_concat [symmetric])
    then show ?thesis unfolding e using T(5) assms(2,3) by (simp add: iterate_def SMI_GetFirst_def sm_run)
  next
    case (Some j)
    note j = find_first(2) [OF Some]
    obtain p e b where r: "rs ! j = [] @ (p, e) # b" using j by (cases "rs ! j") auto
    let ?t = "s\<lparr>sm_iters := (sm_iters s)(it \<mapsto> I\<lparr>m_Index := int j, m_ListPos := p\<rparr>)\<rparr>"
    have at: "iter_at ?t it m ls rs f j [] (p, e) b" using assms j r by (cases I) (simp add: iter_at_def)
    have rest: "concat rs = (p, e) # b @ concat (drop (Suc j) rs)" using j r by simp
    have "sum_list (map length rs) \<noteq> 0" using rest by (simp add: length_concat [symmetric])
    moreover have "first_list ?M 0 ?s = Some (Inr (Some (int j, ls ! j, p)), ?s)"
      using first_list_ok [of ?s m ls rs f 0 ?M] assms(1) Some r by simp
    moreover have "entry_at p (ls ! j) ?s = Some (Inr (Some (pair_of (the (sm_entries s e)))), ?s)"
      using entry_at_ok [of ?s m ls rs f j "[]" p e b] assms(1) j r by simp
    ultimately have "SMI_GetFirst it s = Some (Inr (Some (pair_of (the (sm_entries s e)))), ?t)"
      using T(5) assms(2,3) by (simp add: SMI_GetFirst_def sm_run)
    then show ?thesis using run_next [OF at] unfolding rest by (auto simp: iterate_def sm_run contents_def)
  qed
  then show ?thesis using table_contents [OF assms(1)] by blast
qed

definition one_key_smheap :: smheap where
  "one_key_smheap = \<lparr>sm_dlls = \<lparr>dh_nodes = [4 \<mapsto> \<lparr>dn_info = 9, dn_prev = 0, dn_next = 0\<rparr>],
       dh_lists = [1 \<mapsto> \<lparr>dl_count = 1, dl_head = 4, dl_tail = 4, dl_compare = None\<rparr>]\<rparr>,
     sm_entries = [9 \<mapsto> \<lparr>te_key = ''mass'', te_data = 5\<rparr>], sm_maps = [2 \<mapsto> \<lparr>m_ppList = [1], m_Size = 1, m_Count = 1\<rparr>],
     sm_iters = [3 \<mapsto> \<lparr>m_Index = 0, m_ListPos = 0, m_pTable = 2\<rparr>]\<rparr>"

lemma one_key_table: "table one_key_smheap 2 [1] [[(4, 9)]] [''mass'' \<mapsto> 5]"
proof -
  have "bucket_of k 1 = 0" for k using hash_ok(2) [of 1 "\<lparr>m_ppList = [1], m_Size = 1, m_Count = 1\<rparr>" k] by simp
  then show ?thesis by (simp add: table_def bucket_def is_dll_def one_key_smheap_def)
qed

theorem iteration_meets_every_key_once_witness:
  "\<exists>xs s'. distinct (map fst xs) \<and> (\<forall>k d. (k, d) \<in> set xs \<longleftrightarrow> [''mass'' \<mapsto> 5] k = Some d) \<and>
    iterate 3 (length xs) one_key_smheap = Some (Inr (map Some xs @ [None]), s')"
  by (rule iteration_meets_every_key_once [OF one_key_table, of 3 "\<lparr>m_Index = 0, m_ListPos = 0, m_pTable = 2\<rparr>"])
    (simp_all add: one_key_smheap_def)

text \<open>Going back within a list: the iterator moves, but the call returns \<open>NULL\<close>.\<close>

lemma previous_in_list_is_null:
  assumes "iter_at s it m ls rs f j (a @ [y]) x b"
  shows "\<exists>s'. SMI_GetPrev it s = Some (Inr None, s') \<and> iter_at s' it m ls rs f j a y (x # b)"
proof -
  have T: "table s m ls rs f" and j: "j < length rs" "rs ! j = a @ y # x # b" and I: "sm_iters s it = Some \<lparr>m_Index = int j, m_ListPos = fst x, m_pTable = m\<rparr>"
    using assms by (simp_all add: iter_at_def)
  obtain p e q e' where x: "x = (p, e)" "y = (q, e')" by (metis prod.exhaust)
  have d: "is_dll (sm_dlls s) (ls ! j) None ((a @ [(q, e')]) @ (p, e) # b)" using head_of_list(1) [OF T j(1)] j(2) x by simp
  then have p: "p \<noteq> 0" "q \<noteq> 0" by (auto simp: is_dll_def)
  have prv: "on_lists (DLL_GetPrev p (ls ! j)) s = Some (Inr (e, q), s)"
    using on_lists_same [of "DLL_GetPrev p (ls ! j)", OF GetPrev_in [OF d]] by simp
  let ?s = "s\<lparr>sm_iters := (sm_iters s)(it \<mapsto> \<lparr>m_Index = int j, m_ListPos = q, m_pTable = m\<rparr>)\<rparr>"
  have "SMI_GetPrev it s = Some (Inr None, ?s)"
    using T I x p prv tableD(3,5) [OF T] j(1) by (simp add: SMI_GetPrev_def list_of_def sm_run)
  moreover have "iter_at ?s it m ls rs f j a y (x # b)" using T j x by (simp add: iter_at_def)
  ultimately show ?thesis by blast
qed

end
