(* ===== verification/Spec2Isabelle.thy ===== *)
theory Spec2Isabelle
  imports PropsQueue PropsJobs PropsTime PropsLoop PropsThreads PropsEvents PropsRealtime PropsRecord RecordDispatcher Bitfield PropsUnicode
    PropsCheckpoint MemoryCopy MemoryReset MemoryDeps DLListSort BSTreeProps StrMapProps
begin

text \<open>
  NASA Trick, the scheduler of the simulation runtime (src/trick\_source/sim\_services).

  A Trick simulation is a set of simulation objects whose jobs are called by an executive. The
  executive keeps the jobs in ordered queues, one for each class of job and one for each thread,
  and runs a loop that calls the jobs due at the current time and then advances the time to the
  next job. The development models that runtime core as it is written and proves what it
  guarantees, and, where it does not, what it does instead.

  The parts, in the order of the theories.

  CDouble: the C++ arithmetic. A \<open>double\<close> is the rational number it denotes, every operation is
  rounded to 53 bits (\<open>rnd64\<close>); casts to \<open>long long\<close> truncate, \<open>round\<close> rounds half away from zero.
  \<open>long long\<close> values are unbounded integers: a tic count that overflows is outside the model;
  \<open>unsigned int\<close> indexes wrap (\<open>inc_u32\<close>, \<open>dec_u32\<close>). Lemma \<open>rescale_tics_exact\<close> bounds the
  rounding of a change of time unit.

  Trick\_Prelude: the abnormal outcomes (\<open>ExecutiveException\<close>, and \<open>Undefined\<close> for a division by
  zero, a null pointer, an index out of range), the result type of a call (\<open>None\<close> for a call that
  never returns), and what the components share.

  JobData (SimObject/JobData.cpp, JobData.hh), SimObject (SimObject/SimObject.cpp),
  ScheduledJobQueue (ScheduledJobQueue/ScheduledJobQueue.cpp), Threads (Executive/Threads*.cpp): one
  record per class and one definition per method. A pointer is a number; the heap of jobs and the
  heap of objects are functions from pointers to records. A queue is its list, \<open>curr_index\<close> and
  \<open>next_job_time\<close>.

  QueueWalk: the loop \<open>while ((job = queue.next()) != NULL)\<close>. The locale \<open>walker\<close> states what a
  \<open>next\<close> operation promises (it yields the first unvisited job that is due, and what it leaves
  behind); its lemmas say which jobs such a loop runs. ExecWalk interprets the locale for the
  operations of the executive on its queues.

  ExecState, ExecControl, ExecTime, ExecLoop, ExecJobs, ExecRestart (Executive/Executive*.cpp): the
  state of the executive, the commands on it, the advance of time, the loops of initialization,
  freeze, run and shutdown, the way of jobs into the queues, checkpoint and restart. MasterMain is
  the main program (mains/master.cpp). Scheduler is the base class of the other schedulers
  (Scheduler/Scheduler.cpp). TrickSys gives the jobs of the executive's own simulation object
  (share/trick/sim\_objects/default\_trick\_sys.sm).

  ThreadsChild (Executive/Threads\_child.cpp) is one frame of a child thread. ThreadTrigger
  (Executive/ThreadTrigger.cpp) is the protocol by which the main thread starts these frames, as a
  step relation over the single accesses of the two threads to what they share: the test and the reset of
  \<open>child_complete\<close>, the test and the reset of the flag, and the return of \<open>pthread_cond_wait\<close> and of the futex
  without a signal are steps of their own. The locale \<open>trigger\<close> is the contract of a trigger, interpreted for the
  mutex, the flag and the event file descriptor; \<open>holding_trigger\<close> extends it for the two that keep a fire until it
  is taken.

  CheckPointRestart (CheckPointRestart/CheckPointRestart.cpp) is a scheduler of its own: the times of
  checkpoints, the jobs around them, and the reload of a checkpoint, which clears the queues and has the
  executive build them again. PropsCheckpoint proves that every requested checkpoint is written at its time.

  SchedPass proves what one pass of the loop over the main queue does, in the locale
  \<open>scheduled_jobs\<close> for jobs that keep a contract (they change the world, the mode command, the
  freeze times and, for jobs that schedule themselves, their own call time), interpreted for the
  jobs of \<open>SysSimObject\<close> with any user jobs. SchedLoop goes on to the whole single threaded loop.

  EventProcessor (include/trick/Event.hh, EventManager/EventProcessor.cpp), EventManager
  (EventManager/EventManager.cpp), IPPythonEvent (InputProcessor/IPPythonEvent.cpp) and MTV
  (InputProcessor/MTV.cpp, input\_processor\_ext.cpp) are the events of the input file: conditions and
  actions that the event processor of a thread evaluates at a time, or a job before or after its
  call. Their state is part of the world of the executive; the derived classes of \<open>Event\<close> extend its
  record and instantiate its virtual functions. EventServe states in the locale \<open>calm_class\<close> what a
  class of events promises and proves what one call of the processor does; InputEvents interprets
  it for the events of the input file, with the Python interpreter as a parameter.

  Clock (Clock/Clock.cpp, GetTimeOfDayClock.cpp) and RealtimeSync (RealtimeSync/RealtimeSync.cpp)
  hold the end of a software frame back until real time reaches it. The wall clock is a parameter,
  a function of the number of its readings; the sleep timer is the list of the calls made to it.

  DataRecord, DataRecordJobs (DataRecord/DataRecordGroup.cpp) are a data recording group: its cycles,
  the ring buffer of each variable, the change detection, the job that stores the values and the
  job that writes them; references to variables (MemoryManager/ReferenceUtils.cpp,
  follow\_address\_path.c) are read through a memory that is a parameter. DRBinary
  (DataRecord/DRBinary.cpp) is the binary file format. The locale \<open>row_format\<close> of RecordRefine
  states what a group needs of a format, and proves that the buffers and the file together
  implement the list of the recorded rows; it is interpreted for the binary format. RecordDispatcher
  (DataRecord/DataRecordDispatcher.cpp) holds the groups. Bitfield (MemoryManager/*\_bitfield.c,
  bitfield\_proto.h) reads and writes bit fields.

  References (MemoryManager/ReferenceUtils.cpp, reference.h, attributes.h) has the types, the references
  and the bytes of memory. MemoryMap, MemoryOps and MemoryScan are the memory manager
  (MemoryManager/MemoryManager\_*.cpp): the map of the allocations by address and that of their names,
  declaring, naming, deleting and resizing variables, resetting, the search for the allocations a
  variable depends on, and clearing. What \<open>calloc\<close> and the generated functions of the classes do is
  the record \<open>mm_env\<close>, their promises are \<open>env_ok\<close>. PropsMemory proves the invariant of the two maps for
  every operation of a client (\<open>mm_step\<close>), MemoryCopy what resizing copies, MemoryReset what a reset
  leaves. MemoryDeps says where the pointers of a variable are by the layout of its type (\<open>pointer_in\<close>) and proves
  that the search for dependencies ends and finds what can be reached over them.

  Unicode (trick\_utils/unicode/src/unicode\_utils.c) converts between UTF-8, wide characters and
  escaped ASCII; UnicodeRun says what the decoding loop does on the bytes of one code point.

  DLList (trick\_utils/trick\_adt/src: dllist.c, lqueue.c, lstack.c, bubble\_sort.c) and BSTree (bst.c)
  are the containers, in a memory of nodes with pointers. DLListRefine relates a list in memory to the
  list of its nodes (\<open>is_dll\<close>) and proves every function but DLL\_FindPos against its meaning on lists (\<open>list_does\<close>);
  DLListSort proves the sort, LQueueStack the queue and the stack as two
  interpretations of the locale \<open>container\<close>. BSTreeRefine relates a tree in memory to a tree of
  positions (\<open>is_bst\<close>), taken apart at a node into the path above it and the subtree (\<open>plug\<close>), BSTreeOps and
  BSTreeDelete prove what inserting and deleting do to it, BSTreeProps states it over the inorder list.
  StrMap (MapStrToPtr.c) is the hash table over such lists; StrMapRefine relates it to a finite map (\<open>table\<close>), and
  StrMapProps interprets the locale \<open>dictionary\<close> for it.

  The properties are in the theories PropsQueue, PropsJobs, PropsTime, PropsLoop, PropsThreads,
  PropsEvents, PropsRealtime, PropsRecord, PropsUnicode, PropsCheckpoint and the theories on the memory manager and the containers named above;
  that of the bit fields is in Bitfield.
  They are: a queue stays ordered and holds what was put in; a queue hands out exactly the due
  jobs; a pass calls exactly the due jobs and time never passes one of them; the loop ends at the
  termination time; a failing job stops what it must and becomes the exit code; saved jobs are
  restored; the frames of a child thread are those that were fired, but for returns of a condition variable without a
  signal, and no trigger of the three deadlocks; the due
  events, and no others, have their turn, and they fire by their conditions; a frame does not end
  before its real time and a freeze costs none, at any ratio of the clock; no recorded value is lost between the buffer and
  the file. The
  properties about faults state the behaviour of the code where a caller would expect another.

  Termination. Loops that may not end are \<open>partial_function\<close>s and return \<open>None\<close> then; every
  property that a loop returns is stated as such. There is no fuel.

  Parameters. What the functions of the jobs do is a parameter (\<open>call_function\<close> is generated for
  each simulation), as is the order in which other threads make progress while the executive
  waits (record \<open>Environment\<close>).

  Not modelled: signal handlers, files and messages written, CPU usage, thread priority and
  affinity (operating system calls without effect on the scheduling state), and the components
  outside the scheduler listed in the manifest. Next in the plan are the other schedulers and
  services: the Monte Carlo dispatcher, the integration loop scheduler and the synchronisation of two simulations.
\<close>

end
